(* ===== verification/Mog_Prelude.thy ===== *)
theory Mog_Prelude
  imports Complex_Main "HOL-Library.Word" "HOL-Library.AList"
begin

section \<open>Prelude: outcomes, buffers, decimal names, ordered maps\<close>

text \<open>
  What every component of the development shares: the type of failing outcomes
  (a fatal log line or failed check, undefined behaviour of C++, a call that does not
  return in the present state), byte buffers with bounds-checked \<open>memcpy\<close>, the decimal
  names \<open>std::to_string\<close> produces, and \<open>std::map\<close> with its ordered iteration.
  C++ \<open>int64_t\<close> quantities are \<open>int\<close>; that they stay in range is proved where
  the code computes them. \<open>size_t\<close> hash values are 64-bit words.
\<close>

named_theorems outcome_simps \<open>inversion of outcomes that are ordinary results\<close>
named_theorems buffer_simps \<open>lengths and contents of buffers after bounded copies\<close>

type_synonym byte = "8 word"
type_synonym size_t = "64 word"

abbreviation KB :: int where "KB \<equiv> 1024"
abbreviation MB :: int where "MB \<equiv> 1048576"


subsection \<open>Outcomes\<close>

text \<open>
  \<open>Waits\<close>: the call spins or sleeps and does not return in this state. \<open>Fatal\<close>:
  \<open>LOG(FATAL)\<close>, a failed \<open>CHECK\<close> or an exception nobody catches. \<open>Undefined\<close>:
  undefined behaviour (front of an empty queue, access outside a buffer, null pointer).
\<close>

datatype failure = Waits | Fatal string | Undefined string

type_synonym 'a outcome = "failure + 'a"

definition and_then :: "'a outcome \<Rightarrow> ('a \<Rightarrow> 'b outcome) \<Rightarrow> 'b outcome" where
  "and_then r f = (case r of Inl e \<Rightarrow> Inl e | Inr x \<Rightarrow> f x)"

lemma and_then_simps [simp]:
  "and_then (Inl e) f = Inl e"
  "and_then (Inr x) f = f x"
  by (simp_all add: and_then_def)

lemma and_then_Inr [outcome_simps]:
  "and_then r f = Inr y \<longleftrightarrow> (\<exists>x. r = Inr x \<and> f x = Inr y)"
  by (cases r) auto

definition check :: "bool \<Rightarrow> failure \<Rightarrow> 'a outcome \<Rightarrow> 'a outcome" where
  "check b e r = (if b then r else Inl e)"

lemma check_Inr [outcome_simps]: "check b e r = Inr y \<longleftrightarrow> b \<and> r = Inr y"
  by (simp add: check_def)

lemma check_True [simp]: "check True e r = r"
  by (simp add: check_def)


subsection \<open>Buffers and memcpy\<close>

definition buf_read :: "nat \<Rightarrow> nat \<Rightarrow> byte list \<Rightarrow> byte list outcome" where
  "buf_read off n b =
     (if off + n \<le> length b then Inr (take n (drop off b))
      else Inl (Undefined ''read past the end of a buffer''))"

definition buf_write :: "nat \<Rightarrow> byte list \<Rightarrow> byte list \<Rightarrow> byte list outcome" where
  "buf_write off src b =
     (if off + length src \<le> length b then Inr (take off b @ src @ drop (off + length src) b)
      else Inl (Undefined ''write past the end of a buffer''))"

lemma buf_read_Inr [outcome_simps]:
  "buf_read off n b = Inr r \<longleftrightarrow> off + n \<le> length b \<and> r = take n (drop off b)"
  by (auto simp: buf_read_def)

lemma buf_write_Inr [outcome_simps]:
  "buf_write off src b = Inr r \<longleftrightarrow>
     off + length src \<le> length b \<and> r = take off b @ src @ drop (off + length src) b"
  by (auto simp: buf_write_def)

lemma buf_write_length [buffer_simps]:
  "buf_write off src b = Inr r \<Longrightarrow> length r = length b"
  by (auto simp: outcome_simps)

lemma buf_write_zero [buffer_simps]:
  "buf_write 0 src b = Inr r \<Longrightarrow> take (length src) r = src"
  by (auto simp: outcome_simps)

lemma buf_write_take_before [buffer_simps]:
  "buf_write off src b = Inr r \<Longrightarrow> n \<le> off \<Longrightarrow> take n r = take n b"
  by (auto simp: outcome_simps min_def)

lemma buf_write_read:
  "buf_write off src b = Inr r \<Longrightarrow> take (length src) (drop off r) = src"
  by (auto simp: outcome_simps)

lemma buf_write_total [simp]:
  "off + length src \<le> length b \<Longrightarrow>
     buf_write off src b = Inr (take off b @ src @ drop (off + length src) b)"
  by (simp add: buf_write_def)


subsection \<open>Decimal names\<close>

definition digit_char :: "nat \<Rightarrow> char" where
  "digit_char d = char_of (48 + d)"

fun nat_to_string :: "nat \<Rightarrow> string" where
  "nat_to_string n =
     (if n < 10 then [digit_char n] else nat_to_string (n div 10) @ [digit_char (n mod 10)])"

declare nat_to_string.simps [simp del]

text \<open>\<open>std::to_string(int64_t)\<close>; the unsigned overload is \<open>nat_to_string\<close> on the value.\<close>

definition to_string :: "int \<Rightarrow> string" where
  "to_string i = (if i < 0 then CHR ''-'' # nat_to_string (nat (- i)) else nat_to_string (nat i))"

definition string_value :: "string \<Rightarrow> nat" where
  "string_value s = foldl (\<lambda>a c. 10 * a + (of_char c - 48)) 0 s"

lemma of_char_digit [simp]: "d < 10 \<Longrightarrow> (of_char (digit_char d) :: nat) = 48 + d"
  by (simp add: digit_char_def)

lemma string_value_nat_to_string [simp]: "string_value (nat_to_string n) = n"
proof (induction n rule: nat_to_string.induct)
  case (1 n)
  show ?case
  proof (cases "n < 10")
    case True
    then show ?thesis
      by (simp add: nat_to_string.simps [of n] string_value_def)
  next
    case False
    with 1 have "string_value (nat_to_string (n div 10)) = n div 10" by blast
    with False show ?thesis
      by (simp add: nat_to_string.simps [of n] string_value_def)
  qed
qed

lemma nat_to_string_inject [simp]: "nat_to_string m = nat_to_string n \<longleftrightarrow> m = n"
  by (metis string_value_nat_to_string)

lemma nat_to_string_chars: "c \<in> set (nat_to_string n) \<Longrightarrow> \<exists>d < 10. c = digit_char d"
proof (induction n rule: nat_to_string.induct)
  case (1 n)
  then show ?case
    by (cases "n < 10")
      (auto simp: nat_to_string.simps [of n] dest!: pos_mod_bound intro: exI [of _ "n mod 10"])
qed

lemma digit_char_neq: "d < 10 \<Longrightarrow> of_char c < (48::nat) \<Longrightarrow> digit_char d \<noteq> c"
  by (metis le_add1 linorder_not_le of_char_digit)

lemma nat_to_string_avoids:
  "of_char c < (48::nat) \<Longrightarrow> c \<notin> set (nat_to_string n)"
  using nat_to_string_chars [of c n] digit_char_neq by blast

lemma nat_to_string_no_slash [simp]: "CHR ''/'' \<notin> set (nat_to_string n)"
  by (rule nat_to_string_avoids) simp

lemma nat_to_string_no_minus [simp]: "CHR ''-'' \<notin> set (nat_to_string n)"
  by (rule nat_to_string_avoids) simp

lemma nat_to_string_no_minus_head [simp]: "nat_to_string n \<noteq> CHR ''-'' # s"
  using nat_to_string_no_minus [of n] by (auto simp del: nat_to_string_no_minus)

lemma to_string_inject [simp]: "to_string i = to_string j \<longleftrightarrow> i = j"
  by (auto simp: to_string_def dest: sym)

lemma to_string_no_slash [simp]: "CHR ''/'' \<notin> set (to_string i)"
  by (simp add: to_string_def)


subsection \<open>std::unordered_map: association lists\<close>

text \<open>
  Lookup is \<open>map_of\<close>, insertion \<open>AList.update\<close>, erasure \<open>AList.delete\<close>; keys stay
  distinct, so \<open>size()\<close> is \<open>length\<close>. Iteration goes through the list; where the code
  iterates over an \<open>unordered_map\<close> its result does not depend on the order.
\<close>

abbreviation umap_wf :: "('k \<times> 'v) list \<Rightarrow> bool" where
  "umap_wf m \<equiv> distinct (map fst m)"

lemma map_of_update [simp]: "map_of (AList.update k v m) = (map_of m)(k \<mapsto> v)"
  by (rule update_conv')

lemma map_of_delete [simp]: "map_of (AList.delete k m) = (map_of m)(k := None)"
  by (rule delete_conv')

lemma umap_wf_update [simp]: "umap_wf m \<Longrightarrow> umap_wf (AList.update k v m)"
  by (rule distinct_update)

lemma umap_wf_delete [simp]: "umap_wf m \<Longrightarrow> umap_wf (AList.delete k m)"
  by (rule distinct_delete)

lemma length_umap_update:
  "umap_wf m \<Longrightarrow> length (AList.update k v m) = (if map_of m k = None then Suc (length m) else length m)"
  by (induction m) (force split: if_splits simp: map_of_eq_None_iff)+

lemma length_umap_delete:
  "umap_wf m \<Longrightarrow> length (AList.delete k m) = (if map_of m k = None then length m else length m - 1)"
proof (induction m)
  case (Cons x m)
  obtain a b where x: "x = (a, b)" by fastforce
  show ?case
  proof (cases "k = a")
    case True
    with Cons.prems x show ?thesis by (simp add: delete_idem)
  next
    case False
    moreover have "map_of m k \<noteq> None \<Longrightarrow> 0 < length m" by (cases m) auto
    ultimately show ?thesis using Cons x by auto
  qed
qed simp


subsection \<open>std::map: association lists ordered by key\<close>

fun omap_put :: "int \<Rightarrow> 'v \<Rightarrow> (int \<times> 'v) list \<Rightarrow> (int \<times> 'v) list" where
  "omap_put k v [] = [(k, v)]"
| "omap_put k v ((k', v') # m) =
     (if k < k' then (k, v) # (k', v') # m
      else if k = k' then (k, v) # m
      else (k', v') # omap_put k v m)"

abbreviation omap_wf :: "(int \<times> 'v) list \<Rightarrow> bool" where
  "omap_wf m \<equiv> sorted_wrt (<) (map fst m)"

lemma fst_set_omap_put: "fst ` set (omap_put k v m) = insert k (fst ` set m)"
  by (induction k v m rule: omap_put.induct) auto

lemma omap_put_wf [simp]: "omap_wf m \<Longrightarrow> omap_wf (omap_put k v m)"
proof (induction k v m rule: omap_put.induct)
  case (2 k v k' v' m)
  then show ?case
    using fst_set_omap_put [of k v m] by (auto simp: sorted_wrt_append)
qed simp

lemma map_of_omap_put [simp]:
  "omap_wf m \<Longrightarrow> map_of (omap_put k v m) k' = (if k' = k then Some v else map_of m k')"
proof (induction k v m rule: omap_put.induct)
  case (2 k v k1 v1 m)
  then show ?case
    by (auto simp: map_of_eq_None_iff [symmetric] dest: weak_map_of_SomeI)
qed simp

end
