(* ===== verification/Environment.thy ===== *)
theory Environment
  imports Mog_Prelude "HOL-Library.Sublist"
begin

section \<open>The environment: files, and the libraries the server calls\<close>

text \<open>
  The server's state outside its own memory is the tree of regular files and
  directories, as \<open>std::ifstream\<close>, \<open>std::ofstream\<close> and \<open>fopen\<close> see it. The third-party
  code it calls is not modelled but a parameter: \<open>env\<close> collects \<open>boost::filesystem\<close>,
  LevelDB's C interface, yaml-cpp, the standard library's implementation-defined
  \<open>std::hash\<close> and \<open>system(3)\<close> as functions. What the server relies on is stated
  by the locales \<open>boost_filesystem\<close> and \<open>leveldb\<close>, which only say what the documentation
  of these libraries says; \<open>environment\<close> joins them for one \<open>env\<close>. The last section
  gives one concrete environment that satisfies all of it.
\<close>

subsection \<open>Files\<close>

record fs =
  files :: "string \<Rightarrow> byte list option"
  dirs :: "string set"

text \<open>The directory part of a path: everything before its last slash.\<close>

definition dirname :: "string \<Rightarrow> string" where
  "dirname p = rev (drop 1 (dropWhile (\<lambda>c. c \<noteq> CHR ''/'') (rev p)))"

lemma dirname_append [simp]: "CHR ''/'' \<notin> set n \<Longrightarrow> dirname (d @ CHR ''/'' # n) = d"
proof -
  assume n: "CHR ''/'' \<notin> set n"
  have "dropWhile (\<lambda>c. c \<noteq> CHR ''/'') (rev n @ CHR ''/'' # rev d) = CHR ''/'' # rev d"
    using n by (subst dropWhile_append2) auto
  then show ?thesis by (simp add: dirname_def)
qed

text \<open>\<open>q\<close> is the path \<open>p\<close> or lies below it.\<close>

definition below :: "string \<Rightarrow> string \<Rightarrow> bool" where
  "below p q \<longleftrightarrow> q = p \<or> prefix (if suffix ''/'' p then p else p @ ''/'') q"

text \<open>The files of a cache directory are named by their block.\<close>

definition block_path :: "string \<Rightarrow> int \<Rightarrow> string" where
  "block_path d b = d @ ''/'' @ to_string b"

lemma block_path_inject [simp]: "block_path d b = block_path d' b' \<longleftrightarrow> d = d' \<and> b = b'"
proof
  assume eq: "block_path d b = block_path d' b'"
  then have "dirname (block_path d b) = dirname (block_path d' b')" by simp
  then have "d = d'" by (simp add: block_path_def)
  with eq show "d = d' \<and> b = b'" by (simp add: block_path_def)
qed simp

lemma dirname_block_path [simp]: "dirname (block_path d b) = d"
  by (simp add: block_path_def)

lemma below_block_path [simp]: "below d (block_path d b)"
  by (auto simp: below_def block_path_def suffix_def)

text \<open>
  \<open>std::ofstream f(path); f.write(..); f.close();\<close> truncates or creates the file; when
  its directory does not exist the stream fails silently and nothing is written.
\<close>

definition ofstream_write :: "string \<Rightarrow> byte list \<Rightarrow> fs \<Rightarrow> fs" where
  "ofstream_write p bs f =
     (if dirname p \<in> dirs f \<and> p \<notin> dirs f then f\<lparr>files := (files f)(p \<mapsto> bs)\<rparr> else f)"

text \<open>
  \<open>std::ifstream\<close>: the length \<open>seekg(0, end)\<close> and \<open>tellg\<close> report, and the bytes. Linux
  opens a directory too and reports the greatest offset for it. A stream that is not open
  reports -1.
\<close>

definition ifstream_open :: "string \<Rightarrow> fs \<Rightarrow> (int \<times> byte list) option" where
  "ifstream_open p f =
     (case files f p of
        Some c \<Rightarrow> Some (int (length c), c)
      | None \<Rightarrow> if p \<in> dirs f then Some (2 ^ 63 - 1, []) else None)"

text \<open>
  \<open>fseek\<close> to \<open>off\<close> and \<open>fread\<close> of at most \<open>n\<close> bytes: fewer when the file ends.
\<close>

definition fread_at :: "byte list \<Rightarrow> int \<Rightarrow> int \<Rightarrow> byte list" where
  "fread_at content off n = take (nat n) (drop (nat off) content)"


subsection \<open>The libraries as parameters\<close>

record 'db env =
  hash :: "string \<Rightarrow> size_t"
  fs_exists :: "string \<Rightarrow> fs \<Rightarrow> bool"
  fs_remove :: "string \<Rightarrow> fs \<Rightarrow> fs"
  fs_remove_all :: "string \<Rightarrow> fs \<Rightarrow> fs"
  fs_copy_file :: "string \<Rightarrow> string \<Rightarrow> fs \<Rightarrow> fs option"
  fs_file_size :: "string \<Rightarrow> fs \<Rightarrow> int option"
  fs_create_directories :: "string \<Rightarrow> fs \<Rightarrow> fs"
  fs_create_directory :: "string \<Rightarrow> fs \<Rightarrow> fs option"
  system_call :: "string \<Rightarrow> fs \<Rightarrow> fs"
  leveldb_open :: "bool \<Rightarrow> string \<Rightarrow> fs \<Rightarrow> string option \<times> 'db \<times> fs"
  leveldb_put :: "'db \<Rightarrow> string \<Rightarrow> byte list \<Rightarrow> string option \<times> 'db"
  leveldb_get :: "'db \<Rightarrow> string \<Rightarrow> string option \<times> byte list option"
  yaml_load :: "string \<Rightarrow> fs \<Rightarrow> (string \<Rightarrow> string option) option"
  yaml_as_int :: "string \<Rightarrow> int option"

text \<open>
  \<open>None\<close> is a thrown exception for \<open>fs_copy_file\<close>, \<open>fs_file_size\<close>, \<open>fs_create_directory\<close>,
  \<open>yaml_load\<close> and
  \<open>yaml_as_int\<close>; the \<open>string option\<close> of the LevelDB functions is their \<open>char** errptr\<close>.
\<close>

locale boost_filesystem =
  fixes exst :: "string \<Rightarrow> fs \<Rightarrow> bool"
    and rm :: "string \<Rightarrow> fs \<Rightarrow> fs"
    and rm_all :: "string \<Rightarrow> fs \<Rightarrow> fs"
    and cp :: "string \<Rightarrow> string \<Rightarrow> fs \<Rightarrow> fs option"
    and fsize :: "string \<Rightarrow> fs \<Rightarrow> int option"
    and mkdirs :: "string \<Rightarrow> fs \<Rightarrow> fs"
  assumes exists_iff: "exst p f \<longleftrightarrow> files f p \<noteq> None \<or> p \<in> dirs f"
    and remove_file: "p \<notin> dirs f \<Longrightarrow> rm p f = f\<lparr>files := (files f)(p := None)\<rparr>"
    and remove_all_files:
      "files (rm_all p f) q = (if below p q then None else files f q)"
    and remove_all_dirs: "dirs (rm_all p f) = {q \<in> dirs f. \<not> below p q}"
    and copy_file_ok:
      "files f src = Some c \<Longrightarrow> files f dst = None \<Longrightarrow> dst \<notin> dirs f \<Longrightarrow> dirname dst \<in> dirs f \<Longrightarrow>
         cp src dst f = Some (f\<lparr>files := (files f)(dst \<mapsto> c)\<rparr>)"
    and copy_file_missing: "files f src = None \<Longrightarrow> cp src dst f = None"
    and copy_file_exists: "files f dst \<noteq> None \<Longrightarrow> cp src dst f = None"
    and file_size_ok: "files f p = Some c \<Longrightarrow> fsize p f = Some (int (length c))"
    and mkdirs_files: "files (mkdirs p f) = files f"
    and mkdirs_dirs: "files f p = None \<Longrightarrow> insert p (dirs f) \<subseteq> dirs (mkdirs p f)"
    and mkdirs_parent:
      "CHR ''/'' \<in> set p \<Longrightarrow> dirname p \<noteq> [] \<Longrightarrow> files f p = None \<Longrightarrow> files f (dirname p) = None \<Longrightarrow>
         dirname p \<in> dirs (mkdirs p f)"
    and mkdirs_only_ancestors:
      "q \<in> dirs (mkdirs p f) \<Longrightarrow> q \<in> dirs f \<or> q = p \<or> prefix (q @ ''/'') p"

locale leveldb =
  fixes opn :: "bool \<Rightarrow> string \<Rightarrow> fs \<Rightarrow> string option \<times> 'db \<times> fs"
    and put :: "'db \<Rightarrow> string \<Rightarrow> byte list \<Rightarrow> string option \<times> 'db"
    and get :: "'db \<Rightarrow> string \<Rightarrow> string option \<times> byte list option"
  assumes open_fresh:
      "files f (name @ ''/CURRENT'') = None \<Longrightarrow> opn True name f = (None, db, f') \<Longrightarrow>
         get db k = (None, None)"
    and open_files: "opn c name f = (err, db, f') \<Longrightarrow> \<not> below name q \<Longrightarrow> files f' q = files f q"
    and open_dirs: "opn c name f = (err, db, f') \<Longrightarrow> dirs f' = insert name (dirs f)"
    and put_ok: "put db k v = (None, db') \<Longrightarrow> get db' k' = (if k' = k then (None, Some v) else get db k')"
    and put_error: "put db k v = (Some msg, db') \<Longrightarrow> get db' k' = get db k'"
begin

text \<open>Whatever a put returns, only the entry of its key can change, and only to its value.\<close>

lemma get_after_put:
  assumes "get (snd (put db k v)) k' = (None, Some w)"
  shows "k' = k \<and> w = v \<or> get db k' = (None, Some w)"
proof -
  obtain e db' where p: "put db k v = (e, db')" by fastforce
  with assms put_ok [of db k v db' k'] put_error [of db k v _ db' k'] show ?thesis
    by (cases e) (auto split: if_splits)
qed

end

locale environment =
  fs: boost_filesystem "fs_exists E" "fs_remove E" "fs_remove_all E" "fs_copy_file E"
    "fs_file_size E" "fs_create_directories E" +
  db: leveldb "leveldb_open E" "leveldb_put E" "leveldb_get E"
  for E :: "'db env"


subsection \<open>A concrete environment\<close>

text \<open>
  A filesystem without failures other than those the code provokes, and a LevelDB that is
  a map; used to show that the laws can hold, and by the witnesses.
\<close>

definition ref_env :: "(string \<Rightarrow> size_t) \<Rightarrow> (string \<Rightarrow> byte list option) env" where
  "ref_env h =
    \<lparr>hash = h,
     fs_exists = (\<lambda>p f. files f p \<noteq> None \<or> p \<in> dirs f),
     fs_remove = (\<lambda>p f. f\<lparr>files := (files f)(p := None)\<rparr>),
     fs_remove_all = (\<lambda>p f. f\<lparr>files := (\<lambda>q. if below p q then None else files f q),
                              dirs := Set.filter (\<lambda>q. \<not> below p q) (dirs f)\<rparr>),
     fs_copy_file = (\<lambda>src dst f.
        (case files f src of
           None \<Rightarrow> None
         | Some c \<Rightarrow>
             if files f dst = None \<and> dst \<notin> dirs f \<and> dirname dst \<in> dirs f
             then Some (f\<lparr>files := (files f)(dst \<mapsto> c)\<rparr>) else None)),
     fs_file_size = (\<lambda>p f. map_option (\<lambda>c. int (length c)) (files f p)),
     fs_create_directories = (\<lambda>p f.
        f\<lparr>dirs := (if CHR ''/'' \<in> set p then insert (dirname p) (insert p (dirs f))
                  else insert p (dirs f))\<rparr>),
     fs_create_directory = (\<lambda>p f. if dirname p \<in> dirs f then Some (f\<lparr>dirs := insert p (dirs f)\<rparr>) else None),
     system_call = (\<lambda>cmd f. f),
     leveldb_open = (\<lambda>create name f.
        (None, Map.empty, f\<lparr>files := (files f)(name @ ''/CURRENT'' \<mapsto> []),
                           dirs := insert name (dirs f)\<rparr>)),
     leveldb_put = (\<lambda>db k v. (None, db(k \<mapsto> v))),
     leveldb_get = (\<lambda>db k. (None, db k)),
     yaml_load = (\<lambda>p f. Some Map.empty),
     yaml_as_int = (\<lambda>s. Some (int (string_value s)))\<rparr>"

lemma below_current: "below name (name @ ''/CURRENT'')"
  by (auto simp: below_def suffix_def)

lemma prefix_dirname: "CHR ''/'' \<in> set p \<Longrightarrow> prefix (dirname p @ ''/'') p"
proof -
  assume slash: "CHR ''/'' \<in> set p"
  let ?t = "takeWhile (\<lambda>c. c \<noteq> CHR ''/'') (rev p)" and ?d = "dropWhile (\<lambda>c. c \<noteq> CHR ''/'') (rev p)"
  have "?d \<noteq> []" using slash by (auto simp: dropWhile_eq_Nil_conv)
  then have "hd ?d = CHR ''/''" using hd_dropWhile by blast
  with \<open>?d \<noteq> []\<close> obtain r where d: "?d = CHR ''/'' # r" by (metis list.exhaust_sel)
  have "rev p = ?t @ CHR ''/'' # r" using d by (metis takeWhile_dropWhile_id)
  then have "p = rev r @ ''/'' @ rev ?t" by (metis append_Cons append_Nil append_assoc rev_append rev_rev_ident rev.simps(2))
  then show ?thesis using d by (auto simp: dirname_def prefix_def)
qed

interpretation ref: environment "ref_env h"
  by unfold_locales
    (auto simp: ref_env_def below_current prefix_dirname split: option.splits if_splits)

end
