(* ===== verification/Caffe_IO.thy ===== *)
theory Caffe_IO
  imports Environment
begin

section \<open>io: images for the training framework\<close>

text \<open>
  \<open>core/io.cpp\<close>, the file of Caffe that was changed to read images through the cache server.
  OpenCV, protobuf and HDF5 are parameters (\<open>caffe\<close>), as is the client's \<open>get\<close>; \<open>use_mog\<close> is
  the macro \<open>USE_MOG\<close>. A \<open>cv::Mat\<close> is its size and its rows of bytes; an image without data
  has no rows. A \<open>float\<close> is the rational number it stands for, rounded to 24 bits by \<open>f32\<close>;
  the sizes of images are far from the limits of the exponent.
\<close>

subsection \<open>Images and their containers\<close>

record cv_mat =
  mat_rows :: int
  mat_cols :: int
  mat_channels :: int
  mat_8U :: bool
  mat_data :: "byte list list"

definition mat_empty :: cv_mat where
  "mat_empty = \<lparr>mat_rows = 0, mat_cols = 0, mat_channels = 1, mat_8U = True, mat_data = []\<rparr>"

record datum =
  datum_channels :: int
  datum_height :: int
  datum_width :: int
  datum_data :: "byte list"
  datum_float_data :: "rat list"
  datum_label :: int
  datum_encoded :: bool

record 'msg caffe =
  use_mog :: bool
  imdecode :: "byte list \<Rightarrow> int \<Rightarrow> cv_mat"
  imencode :: "string \<Rightarrow> cv_mat \<Rightarrow> byte list"
  imread :: "string \<Rightarrow> fs \<Rightarrow> int \<Rightarrow> cv_mat"
  resize :: "cv_mat \<Rightarrow> int \<Rightarrow> int \<Rightarrow> cv_mat option"
  realpath :: "string \<Rightarrow> fs \<Rightarrow> string"
  mog_get :: "string \<Rightarrow> byte list"
  text_parse :: "byte list \<Rightarrow> 'msg \<Rightarrow> bool \<times> 'msg"
  text_print :: "'msg \<Rightarrow> byte list option"
  binary_parse :: "int \<Rightarrow> int \<Rightarrow> byte list \<Rightarrow> 'msg \<Rightarrow> bool \<times> 'msg"
  binary_print :: "'msg \<Rightarrow> byte list option"

definition file_contents :: "string \<Rightarrow> fs \<Rightarrow> byte list option outcome" where
  "file_contents filename f =
     (case ifstream_open filename f of
        None \<Rightarrow> Inr None
      | Some (n, bytes) \<Rightarrow>
          check (n < 2 ^ 62) (Fatal ''uncaught std::length_error'') (Inr (Some bytes)))"


subsection \<open>Protocol buffers\<close>

definition kProtoReadBytesLimit :: int where
  "kProtoReadBytesLimit = 2147483647"

definition ReadProtoFromTextFile :: "'msg caffe \<Rightarrow> string \<Rightarrow> 'msg \<Rightarrow> fs \<Rightarrow> (bool \<times> 'msg) outcome" where
  "ReadProtoFromTextFile K filename proto f =
     (case files f filename of
        None \<Rightarrow> Inl (Fatal ''Check failed: fd != -1'')
      | Some bytes \<Rightarrow> Inr (text_parse K bytes proto))"

definition WriteProtoToTextFile :: "'msg caffe \<Rightarrow> 'msg \<Rightarrow> string \<Rightarrow> fs \<Rightarrow> fs outcome" where
  "WriteProtoToTextFile K proto filename f =
     (case text_print K proto of
        None \<Rightarrow> Inl (Fatal ''Check failed: TextFormat::Print'')
      | Some bytes \<Rightarrow> Inr (ofstream_write filename bytes f))"

definition ReadProtoFromBinaryFile :: "'msg caffe \<Rightarrow> string \<Rightarrow> 'msg \<Rightarrow> fs \<Rightarrow> (bool \<times> 'msg) outcome" where
  "ReadProtoFromBinaryFile K filename proto f =
     (case files f filename of
        None \<Rightarrow> Inl (Fatal ''Check failed: fd != -1'')
      | Some bytes \<Rightarrow> Inr (binary_parse K kProtoReadBytesLimit 536870912 bytes proto))"

definition WriteProtoToBinaryFile :: "'msg caffe \<Rightarrow> 'msg \<Rightarrow> string \<Rightarrow> fs \<Rightarrow> fs outcome" where
  "WriteProtoToBinaryFile K proto filename f =
     (case binary_print K proto of
        None \<Rightarrow> Inl (Fatal ''Check failed: SerializeToOstream'')
      | Some bytes \<Rightarrow>
          check (dirname filename \<in> dirs f \<and> filename \<notin> dirs f) (Fatal ''Check failed: SerializeToOstream'')
            (Inr (ofstream_write filename bytes f)))"


subsection \<open>Reading an image\<close>

text \<open>
  The cache of images and the share of free memory at the last look, which decides whether
  images are still added: \<open>MemTotal\<close> and \<open>MemFree\<close> of \<open>/proc/meminfo\<close>, read anew
  (\<open>meminfo\<close>) after each addition.
\<close>

record image_cache =
  filecache :: "(string \<times> cv_mat) list"
  mem_total :: int
  mem_free :: int

definition get_memoccupy :: "int \<times> int \<Rightarrow> image_cache \<Rightarrow> image_cache" where
  "get_memoccupy meminfo s = s\<lparr>mem_total := fst meminfo, mem_free := snd meminfo\<rparr>"

definition image_cache_new :: image_cache where
  "image_cache_new = \<lparr>filecache = [], mem_total = 1, mem_free = 1\<rparr>"

text \<open>\<open>mem_free_per >= 0.1\<close> in \<open>double\<close>; for 32-bit counts the rounding does not change it.\<close>

definition memory_left :: "image_cache \<Rightarrow> bool" where
  "memory_left s \<longleftrightarrow> 10 * mem_free s \<ge> mem_total s \<and> (mem_total s \<noteq> 0 \<or> mem_free s \<noteq> 0)"

definition cv_read_flag :: "bool \<Rightarrow> int" where
  "cv_read_flag is_color = (if is_color then 1 else 0)"

text \<open>A value of single precision: the nearest number with 24 significant bits, ties to even.\<close>

fun f32_scale :: "nat \<Rightarrow> rat \<Rightarrow> int \<Rightarrow> rat \<times> int" where
  "f32_scale 0 x e = (x, e)"
| "f32_scale (Suc n) x e =
     (if x < 2 ^ 23 then f32_scale n (x * 2) (e - 1)
      else if x \<ge> 2 ^ 24 then f32_scale n (x / 2) (e + 1)
      else (x, e))"

definition round_even :: "rat \<Rightarrow> int" where
  "round_even x =
     (let n = \<lfloor>x\<rfloor>; d = x - of_int n
      in if d < 1 / 2 then n else if d > 1 / 2 then n + 1 else if even n then n else n + 1)"

definition f32 :: "rat \<Rightarrow> rat" where
  "f32 x =
     (if x = 0 then 0
      else let (y, e) = f32_scale 280 x 0
           in if e \<ge> 0 then of_int (round_even y) * 2 ^ nat e else of_int (round_even y) / 2 ^ nat (- e))"

definition new_size :: "int \<Rightarrow> int \<Rightarrow> cv_mat \<Rightarrow> int \<times> int" where
  "new_size height width m =
     (if height = 1 \<or> width = 1 then
        let len = f32 (of_int (if height > width then height else width)); len_i = \<lfloor>len\<rfloor>
        in if mat_rows m < mat_cols m then
             let scale = f32 (len / f32 (of_int (mat_rows m)))
             in (\<lfloor>f32 (scale * f32 (of_int (mat_cols m)))\<rfloor>, len_i)
           else
             let scale = f32 (len / f32 (of_int (mat_cols m)))
             in (len_i, \<lfloor>f32 (scale * f32 (of_int (mat_rows m)))\<rfloor>)
      else (width, height))"

text \<open>The image as it is fetched when it is not cached, and whether the cache takes it.\<close>

definition fetch_image :: "'msg caffe \<Rightarrow> string \<Rightarrow> int \<Rightarrow> bool \<Rightarrow> fs \<Rightarrow> (cv_mat \<times> bool) outcome" where
  "fetch_image K filename flag caching f =
     (if use_mog K then
        (let buffer = mog_get K (realpath K filename f)
         in if buffer = [] then Inr (mat_empty, False)
            else Inr (imdecode K buffer flag, mat_data (imdecode K buffer flag) \<noteq> []))
      else if caching then
        and_then (file_contents filename f) (\<lambda>r.
          case r of
            None \<Rightarrow> Inr (mat_empty, False)
          | Some buffer \<Rightarrow> Inr (imdecode K buffer flag, True))
      else Inr (imread K filename f flag, False))"

definition ReadImageToCVMat ::
  "'msg caffe \<Rightarrow> int \<times> int \<Rightarrow> string \<Rightarrow> int \<Rightarrow> int \<Rightarrow> bool \<Rightarrow> fs \<Rightarrow> image_cache
     \<Rightarrow> (cv_mat \<times> image_cache) outcome" where
  "ReadImageToCVMat K meminfo filename height width is_color f s =
     and_then
       (case map_of (filecache s) filename of
          Some m \<Rightarrow> Inr (True, m, s)
        | None \<Rightarrow>
            and_then (fetch_image K filename (cv_read_flag is_color) (memory_left s) f) (\<lambda>(m, store).
              Inr (mat_data m \<noteq> [], m,
                   if memory_left s \<and> store
                   then get_memoccupy meminfo (s\<lparr>filecache := AList.update filename m (filecache s)\<rparr>)
                   else s)))
       (\<lambda>(go_on, m, s').
          if go_on \<and> height > 0 \<and> width > 0 then
            (case resize K m (fst (new_size height width m)) (snd (new_size height width m)) of
               None \<Rightarrow> Inl (Fatal ''uncaught cv::Exception'')
             | Some m' \<Rightarrow> Inr (m', s'))
          else Inr (m, s'))"

definition ReadImageToCVMat_size :: "'msg caffe \<Rightarrow> int \<times> int \<Rightarrow> string \<Rightarrow> int \<Rightarrow> int \<Rightarrow> fs \<Rightarrow> image_cache
     \<Rightarrow> (cv_mat \<times> image_cache) outcome" where
  "ReadImageToCVMat_size K meminfo filename height width = ReadImageToCVMat K meminfo filename height width True"

definition ReadImageToCVMat_color :: "'msg caffe \<Rightarrow> int \<times> int \<Rightarrow> string \<Rightarrow> bool \<Rightarrow> fs \<Rightarrow> image_cache
     \<Rightarrow> (cv_mat \<times> image_cache) outcome" where
  "ReadImageToCVMat_color K meminfo filename is_color = ReadImageToCVMat K meminfo filename 0 0 is_color"

definition ReadImageToCVMat_plain :: "'msg caffe \<Rightarrow> int \<times> int \<Rightarrow> string \<Rightarrow> fs \<Rightarrow> image_cache
     \<Rightarrow> (cv_mat \<times> image_cache) outcome" where
  "ReadImageToCVMat_plain K meminfo filename = ReadImageToCVMat K meminfo filename 0 0 True"


subsection \<open>From images to data\<close>

definition tolower :: "char \<Rightarrow> char" where
  "tolower c = (let n = of_char c :: nat in if 65 \<le> n \<and> n \<le> 90 then char_of (n + 32) else c)"

text \<open>\<open>fn.rfind('.')\<close> and \<open>fn.substr(p)\<close>, which begins with the dot.\<close>

definition extension :: "string \<Rightarrow> string" where
  "extension fn =
     (if CHR ''.'' \<in> set fn then CHR ''.'' # rev (takeWhile (\<lambda>c. c \<noteq> CHR ''.'') (rev fn)) else fn)"

definition matchExt :: "string \<Rightarrow> string \<Rightarrow> bool" where
  "matchExt fn en =
     (let ext = map tolower (extension fn); en' = map tolower en
      in if ext = en' then True else if en' = ''jpg'' \<and> ext = ''jpeg'' then True else False)"

definition ReadFileToDatum :: "string \<Rightarrow> int \<Rightarrow> datum \<Rightarrow> fs \<Rightarrow> (bool \<times> datum) outcome" where
  "ReadFileToDatum filename label d f =
     and_then (file_contents filename f) (\<lambda>r.
       case r of
         None \<Rightarrow> Inr (False, d)
       | Some buffer \<Rightarrow> Inr (True, d\<lparr>datum_data := buffer, datum_label := label, datum_encoded := True\<rparr>))"

primrec for_loop :: "nat \<Rightarrow> (nat \<Rightarrow> 's \<Rightarrow> 's outcome) \<Rightarrow> 's \<Rightarrow> 's outcome" where
  "for_loop 0 body s = Inr s"
| "for_loop (Suc n) body s = and_then (for_loop n body s) (body n)"

definition datum_index :: "nat \<Rightarrow> nat \<Rightarrow> nat \<Rightarrow> nat \<Rightarrow> nat \<Rightarrow> nat" where
  "datum_index H W c h w = (c * H + h) * W + w"

definition copy_pixel :: "byte list \<Rightarrow> nat \<Rightarrow> nat \<times> byte list \<Rightarrow> (nat \<times> byte list) outcome" where
  "copy_pixel ptr index s =
     check (fst s < length ptr \<and> index < length (snd s)) (Undefined ''access past the end of an array'')
       (Inr (Suc (fst s), (snd s)[index := ptr ! fst s]))"

definition copy_row :: "nat \<Rightarrow> nat \<Rightarrow> nat \<Rightarrow> nat \<Rightarrow> byte list \<Rightarrow> byte list \<Rightarrow> byte list outcome" where
  "copy_row C H W h ptr buffer =
     and_then
       (for_loop W (\<lambda>w. for_loop C (\<lambda>c. copy_pixel ptr (datum_index H W c h w))) (0, buffer))
       (\<lambda>s. Inr (snd s))"

definition CVMatToDatum :: "cv_mat \<Rightarrow> datum \<Rightarrow> datum outcome" where
  "CVMatToDatum m d =
     check (mat_8U m) (Fatal ''Check failed: Image data type must be unsigned byte'')
     (let C = nat (mat_channels m); H = nat (mat_rows m); W = nat (mat_cols m)
      in check (int C * int H * int W < 2 ^ 31) (Undefined ''signed overflow'')
         (and_then
            (for_loop H (\<lambda>h buffer.
               check (h < length (mat_data m)) (Undefined ''access past the end of an array'')
                 (copy_row C H W h (mat_data m ! h) buffer))
               (replicate (C * H * W) 32))
            (\<lambda>buffer. Inr (d\<lparr>datum_channels := mat_channels m, datum_height := mat_rows m, datum_width := mat_cols m,
                              datum_data := buffer, datum_float_data := [], datum_encoded := False\<rparr>))))"

definition ReadImageToDatum ::
  "'msg caffe \<Rightarrow> int \<times> int \<Rightarrow> string \<Rightarrow> int \<Rightarrow> int \<Rightarrow> int \<Rightarrow> bool \<Rightarrow> string \<Rightarrow> datum \<Rightarrow> fs \<Rightarrow> image_cache
     \<Rightarrow> (bool \<times> datum \<times> image_cache) outcome" where
  "ReadImageToDatum K meminfo filename label height width is_color encoding d f s =
     and_then (ReadImageToCVMat K meminfo filename height width is_color f s) (\<lambda>(m, s').
       if mat_data m = [] then Inr (False, d, s')
       else if encoding \<noteq> '''' then
         if (mat_channels m = 3) = is_color \<and> height = 0 \<and> width = 0 \<and> matchExt filename encoding
         then and_then (ReadFileToDatum filename label d f) (\<lambda>(r, d'). Inr (r, d', s'))
         else Inr (True, d\<lparr>datum_data := imencode K (''.'' @ encoding) m, datum_label := label, datum_encoded := True\<rparr>, s')
       else and_then (CVMatToDatum m d) (\<lambda>d'. Inr (True, d'\<lparr>datum_label := label\<rparr>, s')))"

definition DecodeDatumToCVMatNative :: "'msg caffe \<Rightarrow> datum \<Rightarrow> cv_mat outcome" where
  "DecodeDatumToCVMatNative K d =
     check (datum_encoded d) (Fatal ''Check failed: Datum not encoded'') (Inr (imdecode K (datum_data d) (-1)))"

definition DecodeDatumToCVMat :: "'msg caffe \<Rightarrow> datum \<Rightarrow> bool \<Rightarrow> cv_mat outcome" where
  "DecodeDatumToCVMat K d is_color =
     check (datum_encoded d) (Fatal ''Check failed: Datum not encoded'')
       (Inr (imdecode K (datum_data d) (cv_read_flag is_color)))"

definition DecodeDatumNative :: "'msg caffe \<Rightarrow> datum \<Rightarrow> (bool \<times> datum) outcome" where
  "DecodeDatumNative K d =
     (if datum_encoded d
      then and_then (DecodeDatumToCVMatNative K d) (\<lambda>m. and_then (CVMatToDatum m d) (\<lambda>d'. Inr (True, d')))
      else Inr (False, d))"

definition DecodeDatum :: "'msg caffe \<Rightarrow> datum \<Rightarrow> bool \<Rightarrow> (bool \<times> datum) outcome" where
  "DecodeDatum K d is_color =
     (if datum_encoded d
      then and_then (DecodeDatumToCVMat K d is_color) (\<lambda>m. and_then (CVMatToDatum m d) (\<lambda>d'. Inr (True, d')))
      else Inr (False, d))"


subsection \<open>HDF5\<close>

text \<open>
  The HDF5 library as parameters: the status codes and results of its calls on one file.
  \<open>blob_reshape\<close> is \<open>Blob::Reshape\<close>.
\<close>

record 'blob hdf5 =
  H5LTfind_dataset :: "string \<Rightarrow> bool"
  H5LTget_dataset_ndims :: "string \<Rightarrow> int \<times> nat"
  H5LTget_dataset_info :: "string \<Rightarrow> int \<times> nat list \<times> bool"
  blob_reshape :: "int list \<Rightarrow> 'blob \<Rightarrow> 'blob"
  H5LTread_dataset :: "string \<Rightarrow> 'blob \<Rightarrow> int \<times> 'blob"
  H5LTmake_dataset :: "string \<Rightarrow> int list \<Rightarrow> 'blob \<Rightarrow> int"
  blob_shape4 :: "'blob \<Rightarrow> int list"

definition hdf5_load_nd_dataset_helper ::
  "'blob hdf5 \<Rightarrow> string \<Rightarrow> int \<Rightarrow> int \<Rightarrow> 'blob \<Rightarrow> 'blob outcome" where
  "hdf5_load_nd_dataset_helper H name min_dim max_dim blob =
     check (H5LTfind_dataset H name) (Fatal ''Failed to find HDF5 dataset'')
     (let (status, ndims) = H5LTget_dataset_ndims H name
      in check (status \<ge> 0) (Fatal ''Failed to get dataset ndims'')
         (check (int ndims \<ge> min_dim) (Fatal ''Check failed: ndims >= min_dim'')
         (check (int ndims \<le> max_dim) (Fatal ''Check failed: ndims <= max_dim'')
         (let (status2, dims, is_float) = H5LTget_dataset_info H name
          in check (length dims \<le> ndims) (Undefined ''write past the end of an array'')
             (check (status2 \<ge> 0) (Fatal ''Failed to get dataset info'')
             (check is_float (Fatal ''Expected float or double data'')
               (Inr (blob_reshape H
                  (map (\<lambda>n. sint (word_of_nat n :: 32 word)) (dims @ replicate (ndims - length dims) 0)) blob))))))))"

definition hdf5_load_nd_dataset :: "'blob hdf5 \<Rightarrow> string \<Rightarrow> int \<Rightarrow> int \<Rightarrow> 'blob \<Rightarrow> 'blob outcome" where
  "hdf5_load_nd_dataset H name min_dim max_dim blob =
     and_then (hdf5_load_nd_dataset_helper H name min_dim max_dim blob) (\<lambda>blob'.
       let (status, blob'') = H5LTread_dataset H name blob'
       in check (status \<ge> 0) (Fatal ''Failed to read dataset'') (Inr blob''))"

definition hdf5_save_nd_dataset :: "'blob hdf5 \<Rightarrow> string \<Rightarrow> 'blob \<Rightarrow> unit outcome" where
  "hdf5_save_nd_dataset H name blob =
     check (H5LTmake_dataset H name (blob_shape4 H blob) blob \<ge> 0) (Fatal ''Failed to make dataset'') (Inr ())"

end
