(* ===== verification/Caffe_Properties.thy ===== *)
theory Caffe_Properties
  imports Caffe_IO
begin

section \<open>Properties of the image input\<close>

text \<open>
  \<open>CVMatToDatum\<close> turns rows of interleaved channels into planes: every byte lands at its
  place, each place is written once. The test of the file extension never succeeds for an
  encoding without a dot, and the cache of images forgets whether an image was read in colour.
\<close>

subsection \<open>Loops over index ranges\<close>

text \<open>The rule for \<open>for_loop\<close>: an invariant indexed by the number of rounds done.\<close>

lemma for_loop_rule:
  assumes "I 0 s" "\<And>i s. i < n \<Longrightarrow> I i s \<Longrightarrow> \<exists>s'. body i s = Inr s' \<and> I (Suc i) s'"
  shows "\<exists>s'. for_loop n body s = Inr s' \<and> I n s'"
  using assms(2)
proof (induction n)
  case 0
  then show ?case using assms(1) by simp
next
  case (Suc n)
  then obtain s1 where "for_loop n body s = Inr s1" "I n s1" by fastforce
  then show ?case using Suc.prems [of n s1] by auto
qed


subsection \<open>The layout of a datum\<close>

lemma datum_index_less:
  assumes "c < C" "h < H" "w < W"
  shows "datum_index H W c h w < C * H * W"
proof -
  have "c * H + h < C * H" using assms(1,2)
    by (metis Suc_leI add_less_cancel_left less_le_trans mult_Suc add.commute mult_le_mono1)
  then have "(c * H + h) * W + w < C * H * W" using assms(3)
    by (metis Suc_leI add_less_cancel_left less_le_trans mult_Suc add.commute mult_le_mono1)
  then show ?thesis by (simp add: datum_index_def)
qed

lemma datum_index_inject:
  assumes "h < H" "w < W" "h' < H" "w' < W" "datum_index H W c h w = datum_index H W c' h' w'"
  shows "c = c' \<and> h = h' \<and> w = w'"
proof -
  let ?a = "c * H + h" and ?b = "c' * H + h'"
  have eq: "?a * W + w = ?b * W + w'" using assms(5) by (simp add: datum_index_def)
  then have "(?a * W + w) div W = (?b * W + w') div W" "(?a * W + w) mod W = (?b * W + w') mod W" by simp_all
  then have ab: "?a = ?b" and w: "w = w'" using assms(2,4) by simp_all
  then have "?a div H = ?b div H" "?a mod H = ?b mod H" by simp_all
  then show ?thesis using assms(1,3) w by simp
qed

text \<open>The bytes of the triples in \<open>S\<close> are at their places.\<close>

definition placed :: "nat \<Rightarrow> nat \<Rightarrow> nat \<Rightarrow> byte list list \<Rightarrow> (nat \<times> nat \<times> nat) set \<Rightarrow> byte list \<Rightarrow> bool" where
  "placed C H W rows S buffer \<longleftrightarrow>
     length buffer = C * H * W
     \<and> (\<forall>h w c. (h, w, c) \<in> S \<longrightarrow> buffer ! datum_index H W c h w = rows ! h ! (w * C + c))"

lemma placed_add:
  assumes "placed C H W rows S buffer" "S \<subseteq> {..<H} \<times> {..<W} \<times> {..<C}" "h < H" "w < W" "c < C"
    and "b = rows ! h ! (w * C + c)"
  shows "placed C H W rows (insert (h, w, c) S) (buffer[datum_index H W c h w := b])"
  unfolding placed_def
proof (intro conjI allI impI)
  show "length (buffer[datum_index H W c h w := b]) = C * H * W" using assms(1) by (simp add: placed_def)
next
  fix h' w' c'
  assume t: "(h', w', c') \<in> insert (h, w, c) S"
  then have r: "h' < H" "w' < W" "c' < C" using assms(2-5) by auto
  have len: "datum_index H W c h w < length buffer"
    using assms(1) datum_index_less [OF assms(5,3,4)] by (simp add: placed_def)
  show "buffer[datum_index H W c h w := b] ! datum_index H W c' h' w' = rows ! h' ! (w' * C + c')"
  proof (cases "(h', w', c') = (h, w, c)")
    case True
    then show ?thesis using len assms(6) by simp
  next
    case False
    then have "datum_index H W c h w \<noteq> datum_index H W c' h' w'"
      using datum_index_inject [OF assms(3,4) r(1,2)] by blast
    moreover have "(h', w', c') \<in> S" using t False by blast
    ultimately show ?thesis using assms(1) by (simp add: placed_def)
  qed
qed

lemma copy_row_spec:
  assumes pl: "placed C H W rows ({..<h} \<times> {..<W} \<times> {..<C}) buffer" and h: "h < H"
    and len: "length (rows ! h) = W * C"
  shows "\<exists>buffer'. copy_row C H W h (rows ! h) buffer = Inr buffer' \<and> placed C H W rows ({..<Suc h} \<times> {..<W} \<times> {..<C}) buffer'"
proof -
  define T where "T w c = {t. t \<in> {..<h} \<times> {..<W} \<times> {..<C}
      \<or> (\<exists>w' c'. t = (h, w', c') \<and> c' < C \<and> (w' < w \<or> (w' = w \<and> c' < c)))}" for w c
  define I where "I w c s \<longleftrightarrow> fst s = w * C + c \<and> placed C H W rows (T w c) (snd s)" for w c and s :: "nat \<times> byte list"
  let ?pixel = "\<lambda>w c. copy_pixel (rows ! h) (datum_index H W c h w)"
  have pixel: "\<exists>s'. ?pixel w c s = Inr s' \<and> I w (Suc c) s'" if w: "w < W" and c: "c < C" and s: "I w c s" for w c s
  proof -
    have pos: "w * C + c < W * C"
      using w c by (metis Suc_leI add_less_cancel_left less_le_trans mult_Suc add.commute mult_le_mono1)
    have sub: "T w c \<subseteq> {..<H} \<times> {..<W} \<times> {..<C}" using w h by (auto simp: T_def)
    have "placed C H W rows (insert (h, w, c) (T w c)) ((snd s)[datum_index H W c h w := rows ! h ! (w * C + c)])"
      using s by (intro placed_add [OF _ sub h w c]) (simp_all add: I_def)
    moreover have "insert (h, w, c) (T w c) = T w (Suc c)" using c by (auto simp: T_def less_Suc_eq)
    moreover have "datum_index H W c h w < length (snd s)"
      using s datum_index_less [OF c h w] by (simp add: placed_def I_def)
    ultimately show ?thesis using s pos len by (simp add: copy_pixel_def I_def)
  qed
  have col: "\<exists>s'. for_loop C (?pixel w) s = Inr s' \<and> I (Suc w) 0 s'" if w: "w < W" and s: "I w 0 s" for w s
  proof -
    have "\<exists>s'. for_loop C (?pixel w) s = Inr s' \<and> I w C s'"
      by (rule for_loop_rule [of "I w"]) (use s pixel [OF w] in blast)+
    moreover have "T w C = T (Suc w) 0" by (auto simp: T_def less_Suc_eq)
    ultimately show ?thesis by (simp add: I_def add.commute)
  qed
  have "T 0 0 = {..<h} \<times> {..<W} \<times> {..<C}" by (auto simp: T_def)
  then have start: "I 0 0 (0, buffer)" using pl by (simp add: I_def)
  have "\<exists>s'. for_loop W (\<lambda>w. for_loop C (?pixel w)) (0, buffer) = Inr s' \<and> I W 0 s'"
    by (rule for_loop_rule [of "\<lambda>w. I w 0"]) (use start col in blast)+
  then obtain s' where s': "for_loop W (\<lambda>w. for_loop C (?pixel w)) (0, buffer) = Inr s'" "I W 0 s'" by blast
  have "T W 0 = {..<Suc h} \<times> {..<W} \<times> {..<C}" by (auto simp: T_def less_Suc_eq)
  then show ?thesis using s' by (simp add: copy_row_def I_def)
qed

text \<open>A well-formed image: \<open>rows\<close> rows of \<open>cols * channels\<close> bytes.\<close>

definition mat_ok :: "cv_mat \<Rightarrow> bool" where
  "mat_ok m \<longleftrightarrow>
     mat_8U m \<and> 0 \<le> mat_rows m \<and> 0 \<le> mat_cols m \<and> 0 \<le> mat_channels m
     \<and> length (mat_data m) = nat (mat_rows m)
     \<and> (\<forall>row \<in> set (mat_data m). length row = nat (mat_cols m) * nat (mat_channels m))"

text \<open>C28: datum_layout. \<open>CVMatToDatum\<close> of a well-formed image of less than 2 GB makes a datum of
  \<open>channels * height * width\<close> bytes in which byte \<open>(c * height + h) * width + w\<close> is channel \<open>c\<close>
  of the pixel in row \<open>h\<close> and column \<open>w\<close>.\<close>

theorem datum_layout:
  assumes "mat_ok m" "mat_channels m * mat_rows m * mat_cols m < 2 ^ 31"
  shows "\<exists>d'. CVMatToDatum m d = Inr d' \<and> \<not> datum_encoded d'
     \<and> datum_channels d' = mat_channels m \<and> datum_height d' = mat_rows m \<and> datum_width d' = mat_cols m
     \<and> int (length (datum_data d')) = mat_channels m * mat_rows m * mat_cols m
     \<and> (\<forall>c < nat (mat_channels m). \<forall>h < nat (mat_rows m). \<forall>w < nat (mat_cols m).
          datum_data d' ! ((c * nat (mat_rows m) + h) * nat (mat_cols m) + w)
            = mat_data m ! h ! (w * nat (mat_channels m) + c))"
proof -
  let ?C = "nat (mat_channels m)" and ?H = "nat (mat_rows m)" and ?W = "nat (mat_cols m)"
  let ?I = "\<lambda>h buffer. placed ?C ?H ?W (mat_data m) ({..<h} \<times> {..<?W} \<times> {..<?C}) buffer"
  let ?body = "\<lambda>h buffer. check (h < length (mat_data m)) (Undefined ''access past the end of an array'')
      (copy_row ?C ?H ?W h (mat_data m ! h) buffer)"
  have nn: "0 \<le> mat_rows m" "0 \<le> mat_cols m" "0 \<le> mat_channels m" "length (mat_data m) = ?H"
    using assms(1) by (simp_all add: mat_ok_def)
  have row: "length (mat_data m ! h) = ?W * ?C" if "h < ?H" for h
    using assms(1) that by (simp add: mat_ok_def)
  have "?I 0 (replicate (?C * ?H * ?W) 32)" by (simp add: placed_def)
  moreover have "\<exists>b'. ?body h b = Inr b' \<and> ?I (Suc h) b'" if "h < ?H" "?I h b" for h b
    using copy_row_spec [OF that(2,1) row [OF that(1)]] that(1) nn(4) by simp
  ultimately obtain buffer where b: "for_loop ?H ?body (replicate (?C * ?H * ?W) 32) = Inr buffer" "?I ?H buffer"
    using for_loop_rule [of ?I "replicate (?C * ?H * ?W) 32" ?H ?body] by blast
  have "int ?C * int ?H * int ?W < 2 ^ 31" using assms(2) nn by simp
  moreover have "int (length buffer) = mat_channels m * mat_rows m * mat_cols m"
    using b(2) nn by (simp add: placed_def)
  moreover have "\<forall>c < ?C. \<forall>h < ?H. \<forall>w < ?W. buffer ! ((c * ?H + h) * ?W + w) = mat_data m ! h ! (w * ?C + c)"
    using b(2) by (simp add: placed_def datum_index_def)
  ultimately show ?thesis
    using b(1) assms(1) by (simp add: CVMatToDatum_def Let_def mat_ok_def)
qed

theorem datum_layout_witness:
  "\<exists>d'. CVMatToDatum \<lparr>mat_rows = 1, mat_cols = 2, mat_channels = 3, mat_8U = True, mat_data = [[1, 2, 3, 4, 5, 6]]\<rparr>
       \<lparr>datum_channels = 0, datum_height = 0, datum_width = 0, datum_data = [], datum_float_data = [],
        datum_label = 0, datum_encoded = True\<rparr> = Inr d'
     \<and> length (datum_data d') = 6 \<and> datum_data d' ! 0 = 1 \<and> datum_data d' ! 1 = 4 \<and> datum_data d' ! 4 = 3"
proof -
  let ?m = "\<lparr>mat_rows = 1, mat_cols = 2, mat_channels = 3, mat_8U = True, mat_data = [[1, 2, 3, 4, 5, 6]]\<rparr>"
  have ok: "mat_ok ?m" by (simp add: mat_ok_def)
  have n: "nat (mat_channels ?m) = 3" "nat (mat_rows ?m) = 1" "nat (mat_cols ?m) = 2" by simp_all
  obtain d' where d': "CVMatToDatum ?m \<lparr>datum_channels = 0, datum_height = 0, datum_width = 0, datum_data = [],
      datum_float_data = [], datum_label = 0, datum_encoded = True\<rparr> = Inr d'"
    "int (length (datum_data d')) = 6"
    "\<And>c h w. c < 3 \<Longrightarrow> h < 1 \<Longrightarrow> w < 2 \<Longrightarrow> datum_data d' ! ((c * 1 + h) * 2 + w) = mat_data ?m ! h ! (w * 3 + c)"
    using datum_layout [OF ok, of "\<lparr>datum_channels = 0, datum_height = 0, datum_width = 0, datum_data = [],
      datum_float_data = [], datum_label = 0, datum_encoded = True\<rparr>"] unfolding n by auto
  show ?thesis using d'(1,2) d'(3) [of 0 0 0] d'(3) [of 0 0 1] d'(3) [of 2 0 0] by auto
qed


subsection \<open>File extensions and the cache of images\<close>

lemma tolower_dot: "tolower c = CHR ''.'' \<Longrightarrow> c = CHR ''.''"
proof -
  assume t: "tolower c = CHR ''.''"
  let ?n = "of_char c :: nat"
  have "\<not> (65 \<le> ?n \<and> ?n \<le> 90)"
  proof
    assume r: "65 \<le> ?n \<and> ?n \<le> 90"
    then have "of_char (tolower c) = ?n + 32" by (simp add: tolower_def Let_def)
    then show False using t r by simp
  qed
  then show ?thesis using t by (simp add: tolower_def Let_def split: if_splits)
qed

text \<open>\<open>matchExt\<close> compares an extension that begins with its dot with an encoding:
  for a file name with a dot and an encoding without one it is false, so a file is never
  stored as it is (as for \<open>x.jpg\<close> and \<open>jpg\<close>).\<close>

theorem extension_never_matches:
  assumes "CHR ''.'' \<in> set fn" "CHR ''.'' \<notin> set en"
  shows "\<not> matchExt fn en"
proof -
  have ext: "map tolower (extension fn) = CHR ''.'' # map tolower (rev (takeWhile (\<lambda>c. c \<noteq> CHR ''.'') (rev fn)))"
    using assms(1) by (simp add: extension_def tolower_def)
  have "CHR ''.'' \<notin> set (map tolower en)" using assms(2) by (auto dest: tolower_dot [OF sym])
  then have "map tolower (extension fn) \<noteq> map tolower en" unfolding ext by (metis list.set_intros(1))
  then show ?thesis using ext by (simp add: matchExt_def)
qed

theorem extension_never_matches_witness: "\<not> matchExt ''x.jpg'' ''jpg''"
  by (rule extension_never_matches) simp_all

text \<open>
  The key of the image cache is the file name alone: once an image was read in colour, a
  reader that asks for grey levels gets the colour image.
\<close>

lemma image_cache_ignores_color:
  assumes "ReadImageToCVMat K info filename 0 0 True f s = Inr (m, s')" "map_of (filecache s') filename = Some m"
  shows "ReadImageToCVMat K info' filename 0 0 False f s' = Inr (m, s')"
  using assms(2) by (simp add: ReadImageToCVMat_def)

end
