(* ===== verification/Little_Endian.thy ===== *)
theory Little_Endian
  imports Mog_Prelude
begin

section \<open>Integers in memory\<close>

text \<open>
  How the programs keep integers in byte buffers on the machines they run on: two's
  complement, little-endian.
\<close>

fun le_bytes :: "nat \<Rightarrow> int \<Rightarrow> byte list" where
  "le_bytes 0 x = []"
| "le_bytes (Suc n) x = word_of_int x # le_bytes n (x div 256)"

fun le_value :: "byte list \<Rightarrow> int" where
  "le_value [] = 0"
| "le_value (b # bs) = uint b + 256 * le_value bs"

definition int64_value :: "byte list \<Rightarrow> int" where
  "int64_value bs = (let u = le_value bs in if u < 2 ^ 63 then u else u - 2 ^ 64)"

definition int64_range :: "int \<Rightarrow> bool" where
  "int64_range x \<longleftrightarrow> - (2 ^ 63) \<le> x \<and> x < 2 ^ 63"

definition int32_value :: "byte list \<Rightarrow> int" where
  "int32_value bs = (let u = le_value bs in if u < 2 ^ 31 then u else u - 2 ^ 32)"

definition int32_range :: "int \<Rightarrow> bool" where
  "int32_range x \<longleftrightarrow> - (2 ^ 31) \<le> x \<and> x < 2 ^ 31"

lemma length_le_bytes [simp]: "length (le_bytes n x) = n"
  by (induction n arbitrary: x) auto

lemma le_value_le_bytes: "le_value (le_bytes n x) = x mod 256 ^ n"
proof (induction n arbitrary: x)
  case (Suc n)
  have "x mod (256 * 256 ^ n) = 256 * ((x div 256) mod 256 ^ n) + x mod 256"
    by (rule zmod_zmult2_eq) simp
  with Suc show ?case by (simp add: uint_word_of_int)
qed simp

lemma le_value_bounds: "0 \<le> le_value bs \<and> le_value bs < 256 ^ length bs"
proof (induction bs)
  case (Cons b bs)
  have "0 \<le> uint b" "uint b < 256" using uint_lt2p [of b] by simp_all
  with Cons show ?case by simp
qed simp

lemma mod_split_256:
  fixes x y :: int
  assumes "x mod (256 * m) = y mod (256 * m)"
  shows "x mod 256 = y mod 256" "0 < m \<Longrightarrow> x div 256 mod m = y div 256 mod m"
proof -
  have "x mod (256 * m) mod 256 = y mod (256 * m) mod 256" using assms by simp
  then show "x mod 256 = y mod 256" by (simp add: mod_mod_cancel)
  assume "0 < m"
  then have "x mod (256 * m) div 256 = x div 256 mod m" for x :: int
    by (simp add: zmod_zmult2_eq)
  then show "x div 256 mod m = y div 256 mod m" using assms by metis
qed

lemma le_bytes_mod: "x mod 256 ^ n = y mod 256 ^ n \<Longrightarrow> le_bytes n x = le_bytes n y"
proof (induction n arbitrary: x y)
  case (Suc n)
  have e: "x mod 256 = y mod 256" "x div 256 mod 256 ^ n = y div 256 mod 256 ^ n"
    using mod_split_256 [of x "256 ^ n" y] Suc.prems by simp_all
  from e(1) have "(word_of_int x :: byte) = word_of_int y"
    by (simp add: word_of_int_eq_iff take_bit_eq_mod)
  then show ?case using Suc.IH [OF e(2)] by (simp only: le_bytes.simps)
qed simp

lemma le_bytes_le_value: "le_bytes (length bs) (le_value bs) = bs"
proof (induction bs)
  case (Cons b bs)
  have b: "0 \<le> uint b" "uint b < 256" using uint_lt2p [of b] by simp_all
  then have "(uint b + 256 * le_value bs) div 256 = le_value bs" by simp
  moreover have "uint b mod 256 = (uint b + 256 * le_value bs) mod 256" by simp
  then have "(word_of_int (uint b) :: byte) = word_of_int (uint b + 256 * le_value bs)"
    by (simp only: word_of_int_eq_iff take_bit_eq_mod) simp
  then have "(word_of_int (uint b + 256 * le_value bs) :: byte) = b" by simp
  ultimately show ?case using Cons by simp
qed simp

lemma int64_value_le_bytes [simp]:
  assumes "int64_range x"
  shows "int64_value (le_bytes 8 x) = x"
proof -
  have "x mod 2 ^ 64 = (if 0 \<le> x then x else x + 2 ^ 64)"
  proof (cases "0 \<le> x")
    case False
    have "x mod 2 ^ 64 = (x + 2 ^ 64) mod 2 ^ 64" by simp
    also have "\<dots> = x + 2 ^ 64"
      using assms False by (intro mod_pos_pos_trivial) (auto simp: int64_range_def)
    finally show ?thesis using False by simp
  qed (use assms in \<open>auto simp: int64_range_def\<close>)
  then show ?thesis
    using assms by (auto simp: int64_value_def le_value_le_bytes int64_range_def Let_def)
qed

lemma int32_value_range: "length bs = 4 \<Longrightarrow> int32_range (int32_value bs)"
  using le_value_bounds [of bs] by (auto simp: int32_value_def int32_range_def Let_def)

lemma int64_value_range: "length bs = 8 \<Longrightarrow> int64_range (int64_value bs)"
  using le_value_bounds [of bs] by (auto simp: int64_value_def int64_range_def Let_def)

lemma le_bytes_int32_value [simp]:
  assumes "length bs = 4"
  shows "le_bytes 4 (int32_value bs) = bs"
proof -
  have "le_bytes 4 (int32_value bs) = le_bytes 4 (le_value bs)"
    by (rule le_bytes_mod) (simp add: int32_value_def Let_def)
  then show ?thesis using le_bytes_le_value [of bs] assms by simp
qed

lemma le_bytes_int64_value [simp]:
  assumes "length bs = 8"
  shows "le_bytes 8 (int64_value bs) = bs"
proof -
  have "le_bytes 8 (int64_value bs) = le_bytes 8 (le_value bs)"
    by (rule le_bytes_mod) (simp add: int64_value_def Let_def)
  then show ?thesis using le_bytes_le_value [of bs] assms by simp
qed

end
