(* ===== verification/Centra_Index.thy ===== *)
theory Centra_Index
  imports Environment Little_Endian
begin

section \<open>CentraIndex: the index from keys to places in block files\<close>

text \<open>
  \<open>mog_server/src/CentraIndex.{h,cpp}\<close>: a wrapper of LevelDB that maps a key to an
  \<open>IndexInfo\<close>, stored as the 32 bytes of the struct. LevelDB is a parameter
  (\<open>Environment\<close>); the options that only tune it (cache, write buffer, block size) are
  not modelled. The theory has the byte layout with its round trip, the operations, and
  the interface \<open>info_index\<close> the caches rely on: what a lookup returns after a put.
\<close>

subsection \<open>IndexInfo and its bytes\<close>

record index_info =
  info_block_id :: int
  info_offset :: int
  info_length :: int
  info_length_type :: int

definition encode_info :: "index_info \<Rightarrow> byte list" where
  "encode_info i = le_bytes 8 (info_block_id i) @ le_bytes 8 (info_offset i)
     @ le_bytes 8 (info_length i) @ le_bytes 8 (info_length_type i)"

definition decode_info :: "byte list \<Rightarrow> index_info" where
  "decode_info bs =
     \<lparr>info_block_id = int64_value (take 8 bs),
      info_offset = int64_value (take 8 (drop 8 bs)),
      info_length = int64_value (take 8 (drop 16 bs)),
      info_length_type = int64_value (take 8 (drop 24 bs))\<rparr>"

definition info_in_range :: "index_info \<Rightarrow> bool" where
  "info_in_range i \<longleftrightarrow> int64_range (info_block_id i) \<and> int64_range (info_offset i)
     \<and> int64_range (info_length i) \<and> int64_range (info_length_type i)"

definition sizeof_index_info :: int where
  "sizeof_index_info = 32"

lemma length_encode_info [simp]: "length (encode_info i) = 32"
  by (simp add: encode_info_def)

lemma decode_encode_info [simp]: "info_in_range i \<Longrightarrow> decode_info (encode_info i) = i"
  by (simp add: decode_info_def encode_info_def info_in_range_def)


subsection \<open>Operations\<close>

text \<open>
  \<open>ci_db = None\<close> is the null pointer of a new object and the closed database.
\<close>

record 'db centra_index =
  ci_name :: string
  ci_db :: "'db option"

definition CentraIndex_new :: "'db centra_index" where
  "CentraIndex_new = \<lparr>ci_name = '''', ci_db = None\<rparr>"

definition CentraIndex_setup ::
  "'db env \<Rightarrow> string \<Rightarrow> 'db centra_index \<Rightarrow> fs \<Rightarrow> (int \<times> 'db centra_index \<times> fs) outcome" where
  "CentraIndex_setup E name ci f =
     (case leveldb_open E True name f of
        (Some err, db, f') \<Rightarrow> Inl (Fatal (''CANNOT CREATE CentralIndex in '' @ name))
      | (None, db, f') \<Rightarrow> Inr (0, ci\<lparr>ci_name := name, ci_db := Some db\<rparr>, f'))"

definition CentraIndex_load ::
  "'db env \<Rightarrow> string \<Rightarrow> 'db centra_index \<Rightarrow> fs \<Rightarrow> (int \<times> 'db centra_index \<times> fs) outcome" where
  "CentraIndex_load E name ci f =
     (case leveldb_open E False name f of
        (Some err, db, f') \<Rightarrow> Inl (Fatal (''CANNOT Open CentralIndex in '' @ name))
      | (None, db, f') \<Rightarrow> Inr (0, ci\<lparr>ci_name := name, ci_db := Some db\<rparr>, f'))"

definition CentraIndex_close :: "'db centra_index \<Rightarrow> (int \<times> 'db centra_index) outcome" where
  "CentraIndex_close ci =
     (case ci_db ci of
        None \<Rightarrow> Inl (Undefined ''leveldb_close of a closed database'')
      | Some db \<Rightarrow> Inr (0, ci\<lparr>ci_db := None\<rparr>))"

definition CentraIndex_put ::
  "'db env \<Rightarrow> string \<Rightarrow> byte list \<Rightarrow> 'db centra_index \<Rightarrow> (int \<times> 'db centra_index) outcome" where
  "CentraIndex_put E key value ci =
     (case ci_db ci of
        None \<Rightarrow> Inl (Undefined ''leveldb_put on a closed database'')
      | Some db \<Rightarrow>
          (case leveldb_put E db key value of
             (Some err, db') \<Rightarrow> Inr (-1, ci\<lparr>ci_db := Some db'\<rparr>)
           | (None, db') \<Rightarrow> Inr (0, ci\<lparr>ci_db := Some db'\<rparr>)))"

text \<open>
  \<open>(signed)value_length\<close> converts to a 32-bit \<open>int\<close>; \<open>memcpy\<close> then copies the whole
  \<open>size_t\<close> length into the caller's buffer.
\<close>

definition signed_int :: "nat \<Rightarrow> int" where
  "signed_int n = sint (word_of_nat n :: 32 word)"

definition CentraIndex_get ::
  "'db env \<Rightarrow> string \<Rightarrow> byte list \<Rightarrow> int \<Rightarrow> 'db centra_index \<Rightarrow> (int \<times> byte list) outcome" where
  "CentraIndex_get E key value buffer_length ci =
     (case ci_db ci of
        None \<Rightarrow> Inl (Undefined ''leveldb_get on a closed database'')
      | Some db \<Rightarrow>
          (case leveldb_get E db key of
             (Some err, r) \<Rightarrow> Inr (0, value)
           | (None, None) \<Rightarrow> Inr (0, value)
           | (None, Some temp_result) \<Rightarrow>
               if buffer_length \<ge> signed_int (length temp_result)
               then and_then (buf_write 0 temp_result value)
                      (\<lambda>value'. Inr (int (length temp_result), value'))
               else Inr (0, value)))"

text \<open>
  What the caches see of the index: the \<open>IndexInfo\<close> under a key, if the stored value has
  the size of one (the counter \<open>FILE_NUM\<close>, 8 bytes long, is not one).
\<close>

definition index_lookup :: "'db env \<Rightarrow> 'db centra_index \<Rightarrow> string \<Rightarrow> index_info option" where
  "index_lookup E ci key =
     (case ci_db ci of
        None \<Rightarrow> None
      | Some db \<Rightarrow>
          (case leveldb_get E db key of
             (None, Some v) \<Rightarrow> if length v = 32 then Some (decode_info v) else None
           | _ \<Rightarrow> None))"

lemma signed_int_small [simp]: "n < 2 ^ 31 \<Longrightarrow> signed_int n = int n"
  by (simp add: signed_int_def signed_of_nat signed_take_bit_int_eq_self)


text \<open>Every value of the index is an \<open>IndexInfo\<close> or shorter.\<close>

definition index_small :: "'db env \<Rightarrow> 'db centra_index \<Rightarrow> bool" where
  "index_small E ci \<longleftrightarrow>
     (\<forall>db k v. ci_db ci = Some db \<longrightarrow> leveldb_get E db k = (None, Some v) \<longrightarrow> length v \<le> 32)"

text \<open>The lookup of the caches: 32 bytes come back exactly when there is an entry.\<close>

lemma get_lookup:
  assumes "ci_db ci \<noteq> None" "index_small E ci"
  shows "\<exists>n bytes. CentraIndex_get E key (replicate 32 0) sizeof_index_info ci = Inr (n, bytes)
     \<and> (case index_lookup E ci key of
           None \<Rightarrow> n \<noteq> sizeof_index_info
         | Some info \<Rightarrow> n = sizeof_index_info \<and> decode_info bytes = info)"
proof -
  obtain db where db: "ci_db ci = Some db" using assms by auto
  obtain e r where g: "leveldb_get E db key = (e, r)" by fastforce
  show ?thesis
  proof (cases "e = None \<and> r \<noteq> None")
    case True
    then obtain v where v: "leveldb_get E db key = (None, Some v)" using g by auto
    then have "length v \<le> 32" using assms(2) db by (auto simp: index_small_def)
    with v db show ?thesis
      by (auto simp: CentraIndex_get_def index_lookup_def sizeof_index_info_def)
  next
    case False
    with g db show ?thesis
      by (cases e; cases r) (auto simp: CentraIndex_get_def index_lookup_def sizeof_index_info_def)
  qed
qed


subsection \<open>A put and the lookups after it\<close>

context environment begin

text \<open>
  Whether the put succeeds (0) or LevelDB reports an error (-1), no other key changes and
  the key has its old entry or the new one; after a success it has the new one.
\<close>

lemma index_put_lookup:
  assumes "ci_db ci \<noteq> None" "info_in_range info"
  shows "\<exists>r ci'. CentraIndex_put E key (encode_info info) ci = Inr (r, ci')
     \<and> ci_db ci' \<noteq> None \<and> ci_name ci' = ci_name ci \<and> (r = 0 \<or> r = -1)
     \<and> (\<forall>k j. index_lookup E ci' k = Some j \<longrightarrow> index_lookup E ci k = Some j \<or> (k = key \<and> j = info))
     \<and> (\<forall>k. r = 0 \<longrightarrow> index_lookup E ci' k = (if k = key then Some info else index_lookup E ci k))
     \<and> (index_small E ci \<longrightarrow> index_small E ci')"
proof -
  obtain db where db: "ci_db ci = Some db" using assms by auto
  obtain e db' where p: "leveldb_put E db key (encode_info info) = (e, db')" by fastforce
  let ?ci = "ci\<lparr>ci_db := Some db'\<rparr>"
  show ?thesis
  proof (cases e)
    case None
    have get: "leveldb_get E db' k = (if k = key then (None, Some (encode_info info)) else leveldb_get E db k)" for k
      using p None by (intro db.put_ok) simp
    have "index_lookup E ?ci k = (if k = key then Some info else index_lookup E ci k)" for k
      using db assms(2) by (simp add: index_lookup_def get)
    moreover have "index_small E ci \<longrightarrow> index_small E ?ci"
      using db by (auto simp: index_small_def get split: if_splits)
    ultimately show ?thesis
      using db p None by (auto simp: CentraIndex_put_def split: if_splits)
  next
    case (Some msg)
    have get: "leveldb_get E db' k = leveldb_get E db k" for k
      using p Some by (intro db.put_error) simp
    have "index_lookup E ?ci k = index_lookup E ci k" for k
      using db by (simp add: index_lookup_def get)
    moreover have "index_small E ci \<longrightarrow> index_small E ?ci"
      using db by (simp add: index_small_def get)
    ultimately show ?thesis
      using db p Some by (auto simp: CentraIndex_put_def)
  qed
qed

end

end
