(* ===== verification/SSD_Cache.thy ===== *)
theory SSD_Cache
  imports Centra_Index
begin

section \<open>SSDCache: blocks copied from the HDD directory to the SSD directory\<close>

text \<open>
  \<open>mog_server/src/SSDCache.{h,cpp}\<close>. Block files live in \<open>hdd_path\<close>; the cache keeps
  copies of some of them in \<open>ssd_path\<close> and evicts the oldest when it is full. Reads are
  counted per block; every 51st read picks a block that is not cached and schedules a
  task of the cache's thread pool that copies it. The pool's queue is \<open>ssd_pool\<close>; up to
  12 tasks at its front may be running, in any order of completion. A task and an
  operation are atomic: their bodies hold \<open>ssd_cache_rwlock\<close>. \<open>0.7 * max_block_num\<close> is
  compared over the integers (\<open>10 * block_num < 7 * max_block_num\<close>).
\<close>

subsection \<open>State\<close>

datatype ssd_task = SSDFlush int | SSDFetch int

record ssd_cache =
  ssd_max_block_num :: int
  ssd_block_num :: int
  ssd_ssd_path :: string
  ssd_hdd_path :: string
  ssd_unsynced_block_id :: "(int \<times> int) list"
  ssd_cached_block_id :: "int list"
  ssd_cached_block :: "(int \<times> int) list"
  ssd_caching_block :: "(int \<times> int) list"
  ssd_read_record :: "(int \<times> int) list"
  ssd_read_num :: int
  ssd_pool :: "ssd_task list"

definition SSDCache_new :: ssd_cache where
  "SSDCache_new =
     \<lparr>ssd_max_block_num = 0, ssd_block_num = 0, ssd_ssd_path = '''', ssd_hdd_path = '''',
      ssd_unsynced_block_id = [], ssd_cached_block_id = [], ssd_cached_block = [],
      ssd_caching_block = [], ssd_read_record = [], ssd_read_num = 0, ssd_pool = []\<rparr>"

definition SSDCache_initial :: "ssd_cache \<Rightarrow> ssd_cache" where
  "SSDCache_initial s = s\<lparr>ssd_block_num := 0, ssd_pool := [], ssd_read_num := 0\<rparr>"


subsection \<open>Eviction, flush and fetch tasks\<close>

text \<open>
  The eviction loop, by recursion on the queue \<open>cached_block_id\<close>: stop when it is empty
  or when fewer than 70 percent of the blocks are left, else remove the oldest.
\<close>

fun SSDCache_evict :: "'db env \<Rightarrow> int list \<Rightarrow> ssd_cache \<Rightarrow> fs \<Rightarrow> ssd_cache \<times> fs" where
  "SSDCache_evict E [] s f = (s\<lparr>ssd_cached_block_id := []\<rparr>, f)"
| "SSDCache_evict E (deleted_i # rest) s f =
     (if 10 * ssd_block_num s < 7 * ssd_max_block_num s
      then (s\<lparr>ssd_cached_block_id := deleted_i # rest\<rparr>, f)
      else SSDCache_evict E rest
             (s\<lparr>ssd_cached_block := AList.delete deleted_i (ssd_cached_block s),
                ssd_block_num := ssd_block_num s - 1\<rparr>)
             (fs_remove E (block_path (ssd_ssd_path s) deleted_i) f))"

definition SSDCache_make_room :: "'db env \<Rightarrow> ssd_cache \<Rightarrow> fs \<Rightarrow> ssd_cache \<times> fs" where
  "SSDCache_make_room E s f =
     (if ssd_block_num s \<ge> ssd_max_block_num s
      then SSDCache_evict E (ssd_cached_block_id s) s f
      else (s, f))"

definition SSDCache_flush ::
  "'db env \<Rightarrow> int \<Rightarrow> ssd_cache \<Rightarrow> fs \<Rightarrow> (ssd_cache \<times> fs) outcome" where
  "SSDCache_flush E block_id s f =
     (case fs_copy_file E (block_path (ssd_ssd_path s) block_id)
                          (block_path (ssd_hdd_path s) block_id) f of
        None \<Rightarrow> Inl (Fatal ''uncaught filesystem_error of copy_file'')
      | Some f1 \<Rightarrow>
          let target_file_size =
                (case map_of (ssd_unsynced_block_id s) block_id of None \<Rightarrow> 0 | Some n \<Rightarrow> n)
          in Inr (SSDCache_make_room E
               (s\<lparr>ssd_unsynced_block_id := AList.delete block_id (ssd_unsynced_block_id s),
                  ssd_cached_block_id := ssd_cached_block_id s @ [block_id],
                  ssd_cached_block :=
                    AList.update block_id target_file_size (ssd_cached_block s)\<rparr>) f1))"

definition SSDCache_fetch ::
  "'db env \<Rightarrow> int \<Rightarrow> ssd_cache \<Rightarrow> fs \<Rightarrow> (ssd_cache \<times> fs) outcome" where
  "SSDCache_fetch E block_id s f =
     (if ssd_block_num s < ssd_max_block_num s then
        case fs_copy_file E (block_path (ssd_hdd_path s) block_id)
                            (block_path (ssd_ssd_path s) block_id) f of
          None \<Rightarrow> Inl (Fatal ''uncaught filesystem_error of copy_file'')
        | Some f1 \<Rightarrow>
            (case fs_file_size E (block_path (ssd_ssd_path s) block_id) f1 of
               None \<Rightarrow> Inl (Fatal ''uncaught filesystem_error of file_size'')
             | Some target_file_size \<Rightarrow>
                 let (s2, f2) = SSDCache_make_room E
                       (s\<lparr>ssd_cached_block_id := ssd_cached_block_id s @ [block_id],
                          ssd_cached_block :=
                            AList.update block_id target_file_size (ssd_cached_block s),
                          ssd_block_num := ssd_block_num s + 1\<rparr>) f1
                 in Inr (s2\<lparr>ssd_caching_block :=
                              AList.delete block_id (ssd_caching_block s2)\<rparr>, f2))
      else Inr (s, f))"

definition SSDCache_new_block ::
  "'db env \<Rightarrow> int \<Rightarrow> ssd_cache \<Rightarrow> fs \<Rightarrow> (int \<times> ssd_cache) outcome" where
  "SSDCache_new_block E block_id s f =
     (case fs_file_size E (block_path (ssd_ssd_path s) block_id) f of
        None \<Rightarrow> Inl (Fatal ''uncaught filesystem_error of file_size'')
      | Some n \<Rightarrow>
          Inr (0, s\<lparr>ssd_unsynced_block_id := AList.update block_id n (ssd_unsynced_block_id s),
                    ssd_block_num := ssd_block_num s + 1,
                    ssd_pool := ssd_pool s @ [SSDFlush block_id]\<rparr>))"

text \<open>A worker of the pool finishes one of the (at most 12) tasks that are under way.\<close>

fun SSDCache_task ::
  "'db env \<Rightarrow> ssd_task \<Rightarrow> ssd_cache \<Rightarrow> fs \<Rightarrow> (ssd_cache \<times> fs) outcome" where
  "SSDCache_task E (SSDFlush b) s f = SSDCache_flush E b s f"
| "SSDCache_task E (SSDFetch b) s f = SSDCache_fetch E b s f"

definition remove_nth :: "nat \<Rightarrow> 'a list \<Rightarrow> 'a list" where
  "remove_nth i xs = take i xs @ drop (Suc i) xs"

definition SSDCache_run :: "'db env \<Rightarrow> nat \<Rightarrow> ssd_cache \<Rightarrow> fs \<Rightarrow> (ssd_cache \<times> fs) outcome" where
  "SSDCache_run E i s f =
     (if i < 12 \<and> i < length (ssd_pool s)
      then SSDCache_task E (ssd_pool s ! i) (s\<lparr>ssd_pool := remove_nth i (ssd_pool s)\<rparr>) f
      else Inl Waits)"

definition SSDCache_sync :: "ssd_cache \<Rightarrow> int outcome" where
  "SSDCache_sync s =
     (if ssd_pool s = [] \<and> ssd_unsynced_block_id s = [] then Inr 0 else Inl Waits)"

definition SSDCache_close :: "ssd_cache \<Rightarrow> (int \<times> ssd_cache) outcome" where
  "SSDCache_close s =
     and_then (SSDCache_sync s) (\<lambda>_.
       Inr (0, s\<lparr>ssd_unsynced_block_id := [], ssd_cached_block := [], ssd_caching_block := [],
                 ssd_cached_block_id := [], ssd_read_record := [], ssd_pool := []\<rparr>))"


subsection \<open>Reading\<close>

definition SSDCache_count_read :: "int \<Rightarrow> ssd_cache \<Rightarrow> ssd_cache" where
  "SSDCache_count_read block_id s =
     (let rr = (if map_of (ssd_read_record s) block_id = None
                then omap_put block_id 0 (ssd_read_record s) else ssd_read_record s)
      in s\<lparr>ssd_read_record := omap_put block_id (the (map_of rr block_id) + 1) rr,
           ssd_read_num := ssd_read_num s + 1\<rparr>)"

definition check_threshold :: int where
  "check_threshold = 50"

text \<open>\<open>read_record_sta\<close>: the blocks by \<open>check_threshold - count\<close>, in ascending order.\<close>

definition sta_push :: "int \<Rightarrow> int \<Rightarrow> (int \<times> int list) list \<Rightarrow> (int \<times> int list) list" where
  "sta_push k b m = omap_put k ((case map_of m k of None \<Rightarrow> [] | Some bs \<Rightarrow> bs) @ [b]) m"

definition read_record_sta :: "(int \<times> int) list \<Rightarrow> (int \<times> int list) list" where
  "read_record_sta rr = fold (\<lambda>(b, n) m. sta_push (check_threshold - n) b m) rr []"

text \<open>The loop over the buckets: the last block that is not cached wins.\<close>

definition block_id_to_fetch :: "(int \<times> int) list \<Rightarrow> (int \<times> int) list \<Rightarrow> int" where
  "block_id_to_fetch rr cached =
     foldl (\<lambda>acc b. if map_of cached b = None then b else acc) 0
       (concat (map snd (read_record_sta rr)))"

definition SSDCache_schedule_fetch :: "ssd_cache \<Rightarrow> ssd_cache" where
  "SSDCache_schedule_fetch s =
     (if ssd_read_num s > check_threshold then
        let b = block_id_to_fetch (ssd_read_record s) (ssd_cached_block s);
            s1 = (if b \<noteq> 0 \<and> map_of (ssd_cached_block s) b = None
                     \<and> map_of (ssd_caching_block s) b = None
                  then s\<lparr>ssd_caching_block := AList.update b 1 (ssd_caching_block s),
                         ssd_pool := ssd_pool s @ [SSDFetch b]\<rparr>
                  else s)
        in s1\<lparr>ssd_read_num := 0, ssd_read_record := []\<rparr>
      else s)"

definition SSDCache_read_block ::
  "ssd_cache \<Rightarrow> fs \<Rightarrow> index_info \<Rightarrow> byte list \<Rightarrow> byte list outcome" where
  "SSDCache_read_block s f info value =
     (if map_of (ssd_cached_block s) (info_block_id info) \<noteq> None
         \<or> map_of (ssd_unsynced_block_id s) (info_block_id info) \<noteq> None
      then (case files f (block_path (ssd_ssd_path s) (info_block_id info)) of
              None \<Rightarrow> Inl (Undefined ''fseek on a null FILE'')
            | Some c \<Rightarrow> buf_write 0 (fread_at c (info_offset info) (info_length info)) value)
      else (case files f (block_path (ssd_hdd_path s) (info_block_id info)) of
              None \<Rightarrow> Inl (Fatal ''CANNOT FIND FILE IN HDD'')
            | Some c \<Rightarrow> buf_write 0 (fread_at c (info_offset info) (info_length info)) value))"

definition SSDCache_read ::
  "index_info \<Rightarrow> byte list \<Rightarrow> ssd_cache \<Rightarrow> fs \<Rightarrow> (int \<times> byte list \<times> ssd_cache) outcome" where
  "SSDCache_read info value s f =
     (let s1 = SSDCache_schedule_fetch (SSDCache_count_read (info_block_id info) s)
      in and_then (SSDCache_read_block s1 f info value)
           (\<lambda>value'. Inr (info_length info, value', s1)))"


subsection \<open>The choice of the block to fetch\<close>

lemma foldl_last_match:
  "foldl (\<lambda>acc b. if P b then b else acc) a xs = (if filter P xs = [] then a else last (filter P xs))"
  by (induction xs arbitrary: a) auto

lemma sta_push_wf [simp]: "omap_wf m \<Longrightarrow> omap_wf (sta_push k b m)"
  by (simp add: sta_push_def)

lemma set_sta_push:
  "omap_wf m \<Longrightarrow> (\<exists>bs. map_of (sta_push k b m) k' = Some bs \<and> c \<in> set bs) \<longleftrightarrow>
     (k' = k \<and> c = b) \<or> (\<exists>bs. map_of m k' = Some bs \<and> c \<in> set bs)"
  by (auto simp: sta_push_def split: option.splits)

lemma fold_sta_push:
  "omap_wf m \<Longrightarrow>
   omap_wf (fold (\<lambda>(b, n) m. sta_push (check_threshold - n) b m) rr m) \<and>
   ((\<exists>bs. map_of (fold (\<lambda>(b, n) m. sta_push (check_threshold - n) b m) rr m) k = Some bs \<and> c \<in> set bs)
     \<longleftrightarrow> (c, check_threshold - k) \<in> set rr \<or> (\<exists>bs. map_of m k = Some bs \<and> c \<in> set bs))"
proof (induction rr arbitrary: m)
  case (Cons x rr)
  obtain b n where x: "x = (b, n)" by fastforce
  show ?case
    using Cons.IH [of "sta_push (check_threshold - n) b m"] Cons.prems x
      set_sta_push [of m "check_threshold - n" b k c]
    by auto
qed simp

lemma read_record_sta_wf: "omap_wf (read_record_sta rr)"
  using fold_sta_push [of "[]"] by (simp add: read_record_sta_def)

lemma in_read_record_sta:
  "(\<exists>bs. (k, bs) \<in> set (read_record_sta rr) \<and> c \<in> set bs) \<longleftrightarrow> (c, check_threshold - k) \<in> set rr"
proof -
  have "distinct (map fst (read_record_sta rr))"
    using read_record_sta_wf strict_sorted_iff by blast
  then have "(k, bs) \<in> set (read_record_sta rr) \<longleftrightarrow> map_of (read_record_sta rr) k = Some bs" for bs
    by auto
  then show ?thesis
    using fold_sta_push [of "[]" rr k c] by (simp add: read_record_sta_def)
qed

text \<open>In a concatenation of buckets with ascending keys, the last match has the greatest key.\<close>

lemma last_match_greatest_key:
  assumes "omap_wf m" "filter P (concat (map snd m)) \<noteq> []"
  shows "\<exists>k bs. (k, bs) \<in> set m \<and> last (filter P (concat (map snd m))) \<in> set bs \<and>
           (\<forall>(k', bs') \<in> set m. (\<exists>c \<in> set bs'. P c) \<longrightarrow> k' \<le> k)"
  using assms
proof (induction m)
  case (Cons x m)
  obtain k bs where x: "x = (k, bs)" by fastforce
  show ?case
  proof (cases "filter P (concat (map snd m)) = []")
    case True
    with Cons.prems x have ne: "filter P bs \<noteq> []" by auto
    then have "last (filter P bs) \<in> set bs" using last_in_set by fastforce
    moreover from True have "\<forall>(k', bs') \<in> set m. \<forall>c \<in> set bs'. \<not> P c"
      by (auto simp: filter_empty_conv)
    ultimately show ?thesis using True x by (intro exI [of _ k] exI [of _ bs]) fastforce
  next
    case False
    with Cons obtain k1 bs1 where "(k1, bs1) \<in> set m"
      "last (filter P (concat (map snd m))) \<in> set bs1"
      "\<forall>(k', bs') \<in> set m. (\<exists>c \<in> set bs'. P c) \<longrightarrow> k' \<le> k1"
      by auto
    moreover from this Cons.prems(1) x have "k < k1" by force
    ultimately show ?thesis
      using x False by (intro exI [of _ k1] exI [of _ bs1]) (auto simp: less_imp_le)
  qed
qed simp

text \<open>
  The block chosen is not cached, was read since the last choice, and no other block that
  is not cached was read less often: the code picks the coldest candidate.
\<close>

lemma block_id_to_fetch_cases:
  "block_id_to_fetch rr cached = 0 \<and> (\<forall>(b, n) \<in> set rr. map_of cached b \<noteq> None)
   \<or> (\<exists>n. (block_id_to_fetch rr cached, n) \<in> set rr
         \<and> map_of cached (block_id_to_fetch rr cached) = None
         \<and> (\<forall>(b, n') \<in> set rr. map_of cached b = None \<longrightarrow> n \<le> n'))"
proof -
  let ?m = "read_record_sta rr" and ?P = "\<lambda>b. map_of cached b = None"
  have sel: "block_id_to_fetch rr cached =
      (if filter ?P (concat (map snd ?m)) = [] then 0 else last (filter ?P (concat (map snd ?m))))"
    by (simp add: block_id_to_fetch_def foldl_last_match)
  have mem: "(b, n) \<in> set rr \<longleftrightarrow> (\<exists>bs. (check_threshold - n, bs) \<in> set ?m \<and> b \<in> set bs)" for b n
    using in_read_record_sta [of "check_threshold - n" rr b] by simp
  show ?thesis
  proof (cases "filter ?P (concat (map snd ?m)) = []")
    case True
    have "map_of cached b \<noteq> None" if "(b, n) \<in> set rr" for b n
    proof -
      from that mem obtain bs where "(check_threshold - n, bs) \<in> set ?m" "b \<in> set bs" by blast
      with True show ?thesis by (fastforce simp: filter_empty_conv)
    qed
    with True sel show ?thesis by auto
  next
    case False
    let ?b = "last (filter ?P (concat (map snd ?m)))"
    obtain k bs where k: "(k, bs) \<in> set ?m" "?b \<in> set bs"
      and max: "\<forall>(k', bs') \<in> set ?m. (\<exists>c \<in> set bs'. ?P c) \<longrightarrow> k' \<le> k"
      using last_match_greatest_key [OF read_record_sta_wf False] by blast
    have in_rr: "(?b, check_threshold - k) \<in> set rr" using k mem [of ?b "check_threshold - k"] by auto
    have "?P ?b" using last_in_set [OF False] by auto
    moreover have "check_threshold - k \<le> n'" if "(b, n') \<in> set rr" "?P b" for b n'
    proof -
      from that(1) mem obtain bs' where "(check_threshold - n', bs') \<in> set ?m" "b \<in> set bs'" by blast
      with max that(2) have "check_threshold - n' \<le> k" by blast
      then show ?thesis by simp
    qed
    ultimately show ?thesis using False sel in_rr by auto
  qed
qed


subsection \<open>Invariant\<close>

text \<open>
  The queue of cached blocks, the map of cached blocks and the counter agree, and the
  SSD directory holds a faithful copy of exactly the cached blocks. The running server
  never calls \<open>new_block\<close> (the call in \<open>WriteBuffer::flush\<close> is commented out), so there
  are no unsynced blocks and every task of the pool is a fetch; a scheduled fetch is for
  a block that exists, is not cached and is marked as being cached.
\<close>

definition ssd_wf :: "ssd_cache \<Rightarrow> bool" where
  "ssd_wf s \<longleftrightarrow>
     distinct (ssd_cached_block_id s)
     \<and> set (ssd_cached_block_id s) = dom (map_of (ssd_cached_block s))
     \<and> ssd_block_num s = int (length (ssd_cached_block_id s)) + int (length (ssd_unsynced_block_id s))"

definition ssd_disk :: "ssd_cache \<Rightarrow> fs \<Rightarrow> bool" where
  "ssd_disk s f \<longleftrightarrow>
     ssd_ssd_path s \<noteq> ssd_hdd_path s \<and> ssd_ssd_path s \<in> dirs f
     \<and> (\<forall>b. block_path (ssd_ssd_path s) b \<notin> dirs f \<and> block_path (ssd_hdd_path s) b \<notin> dirs f)
     \<and> (\<forall>b. b \<in> set (ssd_cached_block_id s) \<longrightarrow>
           files f (block_path (ssd_ssd_path s) b) = files f (block_path (ssd_hdd_path s) b)
           \<and> files f (block_path (ssd_hdd_path s) b) \<noteq> None)
     \<and> (\<forall>b. b \<notin> set (ssd_cached_block_id s) \<longrightarrow>
           files f (block_path (ssd_ssd_path s) b) = None)"

definition ssd_tasks :: "ssd_cache \<Rightarrow> fs \<Rightarrow> bool" where
  "ssd_tasks s f \<longleftrightarrow>
     ssd_unsynced_block_id s = []
     \<and> distinct (ssd_pool s)
     \<and> (\<forall>t \<in> set (ssd_pool s). \<exists>b. t = SSDFetch b
          \<and> b \<notin> set (ssd_cached_block_id s)
          \<and> map_of (ssd_caching_block s) b \<noteq> None
          \<and> files f (block_path (ssd_hdd_path s) b) \<noteq> None)
     \<and> omap_wf (ssd_read_record s)
     \<and> (\<forall>b \<in> fst ` set (ssd_read_record s). files f (block_path (ssd_hdd_path s) b) \<noteq> None)"

definition ssd_inv :: "ssd_cache \<Rightarrow> fs \<Rightarrow> bool" where
  "ssd_inv s f \<longleftrightarrow> ssd_wf s \<and> ssd_disk s f \<and> ssd_tasks s f"

lemmas ssd_inv_defs = ssd_inv_def ssd_wf_def ssd_disk_def ssd_tasks_def

lemma set_remove_nth_subset: "set (remove_nth i xs) \<subseteq> set xs"
  by (auto simp: remove_nth_def dest: in_set_takeD in_set_dropD)

lemma distinct_remove_nth: "distinct xs \<Longrightarrow> distinct (remove_nth i xs)"
  by (simp add: remove_nth_def set_take_disj_set_drop_if_distinct)

lemma nth_notin_remove_nth:
  assumes "distinct xs" "i < length xs"
  shows "xs ! i \<notin> set (remove_nth i xs)"
proof -
  have "distinct (take i xs @ xs ! i # drop (Suc i) xs)"
    using assms by (simp add: id_take_nth_drop [symmetric])
  then show ?thesis by (simp add: remove_nth_def)
qed

definition ssd_frame :: "ssd_cache \<Rightarrow> ssd_cache \<Rightarrow> bool" where
  "ssd_frame s s' \<longleftrightarrow>
     ssd_max_block_num s' = ssd_max_block_num s \<and> ssd_ssd_path s' = ssd_ssd_path s
     \<and> ssd_hdd_path s' = ssd_hdd_path s \<and> ssd_unsynced_block_id s' = ssd_unsynced_block_id s
     \<and> ssd_caching_block s' = ssd_caching_block s \<and> ssd_read_record s' = ssd_read_record s
     \<and> ssd_read_num s' = ssd_read_num s \<and> ssd_pool s' = ssd_pool s"

text \<open>
  \<open>s', f'\<close> is \<open>s, f\<close> with the first \<open>k\<close> blocks of the queue \<open>q\<close> gone from the memory
  and from the SSD directory.
\<close>

definition ssd_dropped :: "nat \<Rightarrow> int list \<Rightarrow> ssd_cache \<Rightarrow> fs \<Rightarrow> ssd_cache \<Rightarrow> fs \<Rightarrow> bool" where
  "ssd_dropped k q s f s' f' \<longleftrightarrow>
     ssd_cached_block_id s' = drop k q
     \<and> ssd_block_num s' = ssd_block_num s - int k
     \<and> (\<forall>b. map_of (ssd_cached_block s') b =
           (if b \<in> set (take k q) then None else map_of (ssd_cached_block s) b))
     \<and> dirs f' = dirs f
     \<and> (\<forall>p. files f' p =
           (if p \<in> block_path (ssd_ssd_path s) ` set (take k q) then None else files f p))"

context environment begin

lemma evict_frame:
  "SSDCache_evict E q s f = (s', f') \<Longrightarrow> ssd_frame s s'"
proof (induction q arbitrary: s f)
  case (Cons b q)
  then show ?case by (fastforce simp: ssd_frame_def split: if_splits)
qed (auto simp: ssd_frame_def)

lemma evict_prefix:
  "SSDCache_evict E q s f = (s', f') \<Longrightarrow> (\<forall>b. block_path (ssd_ssd_path s) b \<notin> dirs f) \<Longrightarrow>
   \<exists>k \<le> length q. ssd_dropped k q s f s' f'
     \<and> (k = length q \<or> 10 * ssd_block_num s' < 7 * ssd_max_block_num s)"
proof (induction q arbitrary: s f)
  case Nil
  then show ?case by (auto simp: ssd_dropped_def)
next
  case (Cons b rest)
  show ?case
  proof (cases "10 * ssd_block_num s < 7 * ssd_max_block_num s")
    case True
    with Cons.prems show ?thesis by (intro exI [of _ 0]) (auto simp: ssd_dropped_def)
  next
    case False
    let ?s = "s\<lparr>ssd_cached_block := AList.delete b (ssd_cached_block s),
                ssd_block_num := ssd_block_num s - 1\<rparr>"
    let ?f = "f\<lparr>files := (files f)(block_path (ssd_ssd_path s) b := None)\<rparr>"
    have "fs_remove E (block_path (ssd_ssd_path s) b) f = ?f"
      using Cons.prems(2) by (simp add: fs.remove_file)
    then have "SSDCache_evict E rest ?s ?f = (s', f')"
      using Cons.prems(1) False by simp
    moreover have "\<forall>b. block_path (ssd_ssd_path ?s) b \<notin> dirs ?f" using Cons.prems(2) by simp
    ultimately obtain k where k: "k \<le> length rest" "ssd_dropped k rest ?s ?f s' f'"
      "k = length rest \<or> 10 * ssd_block_num s' < 7 * ssd_max_block_num ?s"
      using Cons.IH by blast
    from k(2) have "ssd_dropped (Suc k) (b # rest) s f s' f'"
      by (simp add: ssd_dropped_def)
    with k(1,3) show ?thesis by (intro exI [of _ "Suc k"]) simp
  qed
qed

lemma ssd_dropped_inv:
  assumes inv: "ssd_inv s f" and d: "ssd_dropped k (ssd_cached_block_id s) s f s' f'"
    and fr: "ssd_frame s s'" and k: "k \<le> length (ssd_cached_block_id s)"
  shows "ssd_inv s' f'"
proof -
  let ?q = "ssd_cached_block_id s"
  have q: "distinct ?q" and dom: "set ?q = dom (map_of (ssd_cached_block s))"
    using inv by (auto simp: ssd_inv_defs)
  have split: "set ?q = set (take k ?q) \<union> set (drop k ?q)" "set (take k ?q) \<inter> set (drop k ?q) = {}"
    using q by (metis append_take_drop_id set_append, simp add: set_take_disj_set_drop_if_distinct)
  have fields: "ssd_cached_block_id s' = drop k ?q" "ssd_block_num s' = ssd_block_num s - int k"
    "dirs f' = dirs f" "ssd_max_block_num s' = ssd_max_block_num s"
    "ssd_ssd_path s' = ssd_ssd_path s" "ssd_hdd_path s' = ssd_hdd_path s"
    "ssd_unsynced_block_id s' = ssd_unsynced_block_id s" "ssd_pool s' = ssd_pool s"
    "ssd_caching_block s' = ssd_caching_block s" "ssd_read_record s' = ssd_read_record s"
    using d fr by (auto simp: ssd_dropped_def ssd_frame_def)
  have cached: "dom (map_of (ssd_cached_block s')) = set (drop k ?q)"
    using d dom split by (auto simp: ssd_dropped_def dom_def split: if_splits)
  have hdd: "files f' (block_path (ssd_hdd_path s) b) = files f (block_path (ssd_hdd_path s) b)" for b
    using d inv by (auto simp: ssd_dropped_def ssd_inv_defs)
  have ssd: "files f' (block_path (ssd_ssd_path s) b) =
      (if b \<in> set (take k ?q) then None else files f (block_path (ssd_ssd_path s) b))" for b
    using d by (auto simp: ssd_dropped_def)
  have "ssd_wf s'"
    using inv q k by (auto simp: ssd_inv_defs fields cached)
  moreover have "ssd_disk s' f'"
    using inv split by (auto simp: ssd_inv_def ssd_disk_def fields hdd ssd)
  moreover have "ssd_tasks s' f'"
    using inv split by (fastforce simp: ssd_inv_def ssd_tasks_def fields hdd)
  ultimately show ?thesis by (simp add: ssd_inv_def)
qed

lemma make_room_spec:
  assumes inv: "ssd_inv s f" and mr: "SSDCache_make_room E s f = (s', f')"
  shows "ssd_inv s' f' \<and> ssd_frame s s'
     \<and> (\<forall>p. (\<forall>b. p \<noteq> block_path (ssd_ssd_path s) b) \<longrightarrow> files f' p = files f p) \<and> dirs f' = dirs f
     \<and> (0 < ssd_max_block_num s \<longrightarrow> ssd_block_num s' < ssd_max_block_num s)"
proof (cases "ssd_block_num s \<ge> ssd_max_block_num s")
  case True
  then have ev: "SSDCache_evict E (ssd_cached_block_id s) s f = (s', f')"
    using mr by (simp add: SSDCache_make_room_def)
  have nd: "\<forall>b. block_path (ssd_ssd_path s) b \<notin> dirs f" using inv by (simp add: ssd_inv_defs)
  obtain k where k: "k \<le> length (ssd_cached_block_id s)"
    and d: "ssd_dropped k (ssd_cached_block_id s) s f s' f'"
    and stop: "k = length (ssd_cached_block_id s) \<or> 10 * ssd_block_num s' < 7 * ssd_max_block_num s"
    using evict_prefix [OF ev nd] by blast
  have bound: "0 < ssd_max_block_num s \<longrightarrow> ssd_block_num s' < ssd_max_block_num s"
    using stop d inv by (auto simp: ssd_dropped_def ssd_inv_defs)
  show ?thesis
    using ssd_dropped_inv [OF inv d evict_frame [OF ev] k] evict_frame [OF ev] d bound
    by (auto simp: ssd_dropped_def)
next
  case False
  with mr inv show ?thesis by (auto simp: SSDCache_make_room_def ssd_frame_def)
qed

lemma fetch_spec:
  assumes inv: "ssd_inv s f" and new: "b \<notin> set (ssd_cached_block_id s)"
    and hdd: "files f (block_path (ssd_hdd_path s) b) = Some c"
    and free: "SSDFetch b \<notin> set (ssd_pool s)"
  shows "\<exists>s' f'. SSDCache_fetch E b s f = Inr (s', f') \<and> ssd_inv s' f'
     \<and> (\<forall>p. (\<forall>b. p \<noteq> block_path (ssd_ssd_path s) b) \<longrightarrow> files f' p = files f p) \<and> dirs f' = dirs f
     \<and> ssd_max_block_num s' = ssd_max_block_num s \<and> ssd_ssd_path s' = ssd_ssd_path s
     \<and> ssd_hdd_path s' = ssd_hdd_path s \<and> ssd_pool s' = ssd_pool s
     \<and> (ssd_block_num s < ssd_max_block_num s \<longrightarrow> 0 < ssd_max_block_num s
          \<longrightarrow> ssd_block_num s' < ssd_max_block_num s)"
proof (cases "ssd_block_num s < ssd_max_block_num s")
  case False
  with inv show ?thesis by (simp add: SSDCache_fetch_def)
next
  case True
  let ?dst = "block_path (ssd_ssd_path s) b"
  let ?f1 = "f\<lparr>files := (files f)(?dst \<mapsto> c)\<rparr>"
  let ?s1 = "s\<lparr>ssd_cached_block_id := ssd_cached_block_id s @ [b],
               ssd_cached_block := AList.update b (int (length c)) (ssd_cached_block s),
               ssd_block_num := ssd_block_num s + 1\<rparr>"
  have cp: "fs_copy_file E (block_path (ssd_hdd_path s) b) ?dst f = Some ?f1"
    using inv new hdd by (intro fs.copy_file_ok) (auto simp: ssd_inv_defs)
  have sz: "fs_file_size E ?dst ?f1 = Some (int (length c))"
    by (rule fs.file_size_ok) simp
  have wf1: "ssd_wf ?s1" using inv new by (auto simp: ssd_inv_defs)
  have disk1: "ssd_disk ?s1 ?f1"
    using inv new hdd by (auto simp: ssd_inv_def ssd_disk_def)
  have tasks1: "ssd_tasks ?s1 ?f1"
    using inv new hdd free by (fastforce simp: ssd_inv_def ssd_disk_def ssd_tasks_def)
  obtain s2 f2 where mr: "SSDCache_make_room E ?s1 ?f1 = (s2, f2)" by fastforce
  have "ssd_inv ?s1 ?f1" using wf1 disk1 tasks1 by (simp add: ssd_inv_def)
  note room = make_room_spec [OF this mr]
  let ?s' = "s2\<lparr>ssd_caching_block := AList.delete b (ssd_caching_block s2)\<rparr>"
  have "SSDCache_fetch E b s f = Inr (?s', f2)"
    using True cp sz mr by (simp add: SSDCache_fetch_def)
  moreover have "ssd_inv ?s' f2"
  proof -
    have pool: "SSDFetch b \<notin> set (ssd_pool s2)" using room free by (simp add: ssd_frame_def)
    show ?thesis using room pool unfolding ssd_inv_def ssd_wf_def ssd_disk_def ssd_tasks_def
      by fastforce
  qed
  ultimately show ?thesis using room by (auto simp: ssd_frame_def)
qed

lemma run_spec:
  assumes inv: "ssd_inv s f" and i: "i < 12" "i < length (ssd_pool s)"
  shows "\<exists>s' f'. SSDCache_run E i s f = Inr (s', f') \<and> ssd_inv s' f'
     \<and> (\<forall>p. (\<forall>b. p \<noteq> block_path (ssd_ssd_path s) b) \<longrightarrow> files f' p = files f p) \<and> dirs f' = dirs f
     \<and> ssd_max_block_num s' = ssd_max_block_num s \<and> ssd_ssd_path s' = ssd_ssd_path s
     \<and> ssd_hdd_path s' = ssd_hdd_path s
     \<and> ssd_pool s' = remove_nth i (ssd_pool s)
     \<and> (ssd_block_num s < ssd_max_block_num s \<longrightarrow> 0 < ssd_max_block_num s
          \<longrightarrow> ssd_block_num s' < ssd_max_block_num s)"
proof -
  let ?s = "s\<lparr>ssd_pool := remove_nth i (ssd_pool s)\<rparr>"
  have in_pool: "ssd_pool s ! i \<in> set (ssd_pool s)" using i by simp
  then obtain b c where t: "ssd_pool s ! i = SSDFetch b" "b \<notin> set (ssd_cached_block_id s)"
    "files f (block_path (ssd_hdd_path s) b) = Some c"
    using inv unfolding ssd_inv_def ssd_tasks_def by blast
  have "SSDFetch b \<notin> set (remove_nth i (ssd_pool s))"
    using t(1) i inv nth_notin_remove_nth [of "ssd_pool s" i] by (simp add: ssd_inv_defs)
  moreover have "ssd_inv ?s f"
    using inv set_remove_nth_subset [of i "ssd_pool s"] distinct_remove_nth [of "ssd_pool s" i]
    by (auto simp: ssd_inv_defs)
  ultimately show ?thesis
    using fetch_spec [of ?s f b c] t i by (simp add: SSDCache_run_def)
qed

end

lemma count_read_inv:
  assumes "ssd_inv s f" "files f (block_path (ssd_hdd_path s) b) \<noteq> None"
  shows "ssd_inv (SSDCache_count_read b s) f"
proof -
  have rr: "omap_wf (ssd_read_record s)" using assms(1) by (simp add: ssd_inv_defs)
  then have "omap_wf (ssd_read_record (SSDCache_count_read b s))"
    by (simp add: SSDCache_count_read_def Let_def)
  moreover have "fst ` set (ssd_read_record (SSDCache_count_read b s)) = insert b (fst ` set (ssd_read_record s))"
    by (auto simp: SSDCache_count_read_def Let_def fst_set_omap_put)
  ultimately show ?thesis
    using assms unfolding ssd_inv_defs by (auto simp: SSDCache_count_read_def Let_def)
qed

lemma schedule_fetch_inv:
  assumes inv: "ssd_inv s f"
  shows "ssd_inv (SSDCache_schedule_fetch s) f"
proof -
  let ?b = "block_id_to_fetch (ssd_read_record s) (ssd_cached_block s)"
  have "set (ssd_cached_block_id s) = dom (map_of (ssd_cached_block s))"
    using inv by (simp add: ssd_inv_defs)
  moreover have "?b \<noteq> 0 \<Longrightarrow> (\<exists>n. (?b, n) \<in> set (ssd_read_record s)) \<and> map_of (ssd_cached_block s) ?b = None"
    using block_id_to_fetch_cases [of "ssd_read_record s" "ssd_cached_block s"] by blast
  ultimately have "?b \<noteq> 0 \<Longrightarrow> ?b \<in> fst ` set (ssd_read_record s) \<and> ?b \<notin> set (ssd_cached_block_id s)"
    by force
  moreover have "\<forall>b \<in> fst ` set (ssd_read_record s). files f (block_path (ssd_hdd_path s) b) \<noteq> None"
    using inv by (simp add: ssd_inv_def ssd_tasks_def)
  ultimately have b: "?b \<noteq> 0 \<Longrightarrow> ?b \<notin> set (ssd_cached_block_id s) \<and> files f (block_path (ssd_hdd_path s) ?b) \<noteq> None"
    by blast
  have pool: "map_of (ssd_caching_block s) ?b = None \<Longrightarrow> SSDFetch ?b \<notin> set (ssd_pool s)"
    using inv unfolding ssd_inv_def ssd_tasks_def by auto
  have "ssd_wf (SSDCache_schedule_fetch s)" "ssd_disk (SSDCache_schedule_fetch s) f"
    using inv by (auto simp: ssd_inv_def ssd_wf_def ssd_disk_def SSDCache_schedule_fetch_def Let_def)
  moreover have "ssd_tasks (SSDCache_schedule_fetch s) f"
  proof (cases "ssd_read_num s > check_threshold \<and> ?b \<noteq> 0 \<and> map_of (ssd_caching_block s) ?b = None")
    case True
    then have ids: "map_of (ssd_cached_block s) ?b = None"
      using b inv by (auto simp: ssd_inv_def ssd_wf_def)
    have "ssd_pool (SSDCache_schedule_fetch s) = ssd_pool s @ [SSDFetch ?b]"
      "ssd_caching_block (SSDCache_schedule_fetch s) = AList.update ?b 1 (ssd_caching_block s)"
      "ssd_cached_block_id (SSDCache_schedule_fetch s) = ssd_cached_block_id s"
      "ssd_unsynced_block_id (SSDCache_schedule_fetch s) = ssd_unsynced_block_id s"
      "ssd_hdd_path (SSDCache_schedule_fetch s) = ssd_hdd_path s"
      "ssd_read_record (SSDCache_schedule_fetch s) = []"
      using True ids by (simp_all add: SSDCache_schedule_fetch_def Let_def)
    note fields = this
    have old: "\<exists>b. t = SSDFetch b \<and> b \<notin> set (ssd_cached_block_id s)
        \<and> map_of (AList.update ?b 1 (ssd_caching_block s)) b \<noteq> None
        \<and> files f (block_path (ssd_hdd_path s) b) \<noteq> None" if "t \<in> set (ssd_pool s)" for t
      using that inv unfolding ssd_inv_def ssd_tasks_def by fastforce
    show ?thesis
      unfolding ssd_tasks_def fields using old pool b True inv
      by (auto simp: ssd_inv_def ssd_tasks_def)
  next
    case False
    then show ?thesis
      using inv by (auto simp: SSDCache_schedule_fetch_def ssd_inv_def ssd_tasks_def Let_def)
  qed
  ultimately show ?thesis by (simp add: ssd_inv_def)
qed

lemma scheduled_fields [simp]:
  "ssd_max_block_num (SSDCache_schedule_fetch (SSDCache_count_read b s)) = ssd_max_block_num s"
  "ssd_ssd_path (SSDCache_schedule_fetch (SSDCache_count_read b s)) = ssd_ssd_path s"
  "ssd_hdd_path (SSDCache_schedule_fetch (SSDCache_count_read b s)) = ssd_hdd_path s"
  "ssd_block_num (SSDCache_schedule_fetch (SSDCache_count_read b s)) = ssd_block_num s"
  by (simp_all add: SSDCache_schedule_fetch_def SSDCache_count_read_def Let_def)

lemma read_block_length:
  "SSDCache_read_block s f info value = Inr value' \<Longrightarrow> length value' = length value"
  by (auto simp: SSDCache_read_block_def dest: buf_write_length split: if_splits option.splits)

lemma read_frame:
  "SSDCache_read info value s f = Inr (n, value', s') \<Longrightarrow>
     n = info_length info \<and> length value' = length value
     \<and> ssd_max_block_num s' = ssd_max_block_num s \<and> ssd_ssd_path s' = ssd_ssd_path s
     \<and> ssd_hdd_path s' = ssd_hdd_path s \<and> ssd_block_num s' = ssd_block_num s"
  by (auto simp: SSDCache_read_def Let_def and_then_Inr dest: read_block_length)

text \<open>
  A read returns the bytes of the block file of the HDD directory, whether they come from
  there or from the copy in the SSD directory, and keeps the invariant.
\<close>

lemma read_spec:
  assumes inv: "ssd_inv s f"
    and hdd: "files f (block_path (ssd_hdd_path s) (info_block_id info)) = Some c"
    and room: "length (fread_at c (info_offset info) (info_length info)) \<le> length value"
  shows "\<exists>value' s'. SSDCache_read info value s f = Inr (info_length info, value', s') \<and> ssd_inv s' f
     \<and> value' = fread_at c (info_offset info) (info_length info)
          @ drop (length (fread_at c (info_offset info) (info_length info))) value"
proof -
  let ?s = "SSDCache_schedule_fetch (SSDCache_count_read (info_block_id info) s)"
  have inv': "ssd_inv ?s f"
    using inv hdd by (intro schedule_fetch_inv count_read_inv) auto
  have paths: "ssd_ssd_path ?s = ssd_ssd_path s" "ssd_hdd_path ?s = ssd_hdd_path s" by simp_all
  have "map_of (ssd_cached_block ?s) b \<noteq> None \<longleftrightarrow> b \<in> set (ssd_cached_block_id ?s)" for b
    using inv' by (auto simp: ssd_inv_defs)
  moreover have "ssd_unsynced_block_id ?s = []" using inv' by (simp add: ssd_inv_defs)
  moreover have "info_block_id info \<in> set (ssd_cached_block_id ?s) \<longrightarrow>
      files f (block_path (ssd_ssd_path s) (info_block_id info)) = Some c"
    using inv' hdd paths unfolding ssd_inv_def ssd_disk_def by simp
  ultimately have "SSDCache_read_block ?s f info value =
      buf_write 0 (fread_at c (info_offset info) (info_length info)) value"
    using hdd paths by (simp add: SSDCache_read_block_def)
  then show ?thesis using room inv' by (simp add: SSDCache_read_def Let_def)
qed

end
