(* ===== verification/Slab_Memory.thy ===== *)
theory Slab_Memory
  imports Mog_Prelude
begin

section \<open>Slabs: size classes and memory cut into 1 KB pieces\<close>

text \<open>
  All caches round a value up to a size class: class \<open>t\<close> holds \<open>2^t\<close> KB, \<open>t = 0..10\<close>.
  The host and the device cache both keep values in slabs of 1 KB taken from a queue of
  free slabs. This theory has the size classes (\<open>slab_size\<close>, the \<open>log2\<close> computation of
  the code as \<open>length_slab_type\<close>, proved equal to the real-valued formula) and the
  interface \<open>slab_memory\<close>: what it means for slabs not to overlap, and that copying a
  value out of the slabs it was copied into gives it back. \<open>Cpu_Cache\<close> and \<open>Gpu_Cache\<close>
  interpret it.
\<close>

subsection \<open>Size classes\<close>

definition slab_size_table :: "int list" where
  "slab_size_table = [1*1024, 2*1024, 4*1024, 8*1024, 16*1024,
                      32*1024, 64*1024, 128*1024, 256*1024,
                      512*1024, 1024*1024]"

definition slab_size :: "int \<Rightarrow> int" where
  "slab_size t = slab_size_table ! nat t"

lemma slab_size_power:
  assumes "0 \<le> t" "t \<le> 10"
  shows "slab_size t = 1024 * 2 ^ nat t"
proof -
  have "nat t \<in> set [0..<11]" using assms by auto
  then have "slab_size_table ! nat t = 1024 * 2 ^ nat t"
    by (simp add: slab_size_table_def upt_rec numeral_eq_Suc) (elim disjE; simp)
  then show ?thesis by (simp add: slab_size_def)
qed

lemma slab_size_bounds:
  assumes "0 \<le> t" "t \<le> 10"
  shows "1024 \<le> slab_size t \<and> slab_size t \<le> MB"
proof -
  have "(2::int) ^ nat t \<le> 2 ^ 10" using assms by (intro power_increasing) auto
  then show ?thesis using assms by (simp add: slab_size_power)
qed

lemma slab_size_10 [simp]: "slab_size 10 = MB"
  by (simp add: slab_size_power)

text \<open>
  \<open>int64_t t = std::ceil(std::log2(length/1024.0)); if (t < 0) t = 0;\<close> computed by
  halving. For \<open>length = 0\<close> the C++ converts minus infinity to \<open>int64_t\<close>, which on
  x86-64 is the smallest value and is then replaced by 0, as here.
\<close>

function length_slab_type :: "int \<Rightarrow> int" where
  "length_slab_type n = (if n \<le> 1024 then 0 else 1 + length_slab_type ((n + 1) div 2))"
  by pat_completeness auto
termination
  by (relation "measure nat") auto

declare length_slab_type.simps [simp del]

lemma length_slab_type_nonneg [simp]: "0 \<le> length_slab_type n"
proof (induction n rule: length_slab_type.induct)
  case (1 n)
  then show ?case by (subst length_slab_type.simps) simp
qed

lemma half: "(n + 1) div 2 \<le> k \<longleftrightarrow> n \<le> 2 * k" for n k :: int
  by linarith

lemma length_slab_type_le_iff:
  "length_slab_type n \<le> int t \<longleftrightarrow> n \<le> 1024 * 2 ^ t"
proof (induction n arbitrary: t rule: length_slab_type.induct)
  case (1 n)
  show ?case
  proof (cases "n \<le> 1024")
    case True
    have "n \<le> 1024 * 2 ^ t" using True
      by (smt (verit) one_le_power)
    with True show ?thesis by (simp add: length_slab_type.simps [of n])
  next
    case False
    show ?thesis
    proof (cases t)
      case 0
      with False show ?thesis
        by (simp add: length_slab_type.simps [of n] not_le add_pos_nonneg)
    next
      case (Suc t')
      have "length_slab_type n \<le> int t \<longleftrightarrow> length_slab_type ((n + 1) div 2) \<le> int t'"
        using False Suc by (simp add: length_slab_type.simps [of n])
      also have "\<dots> \<longleftrightarrow> (n + 1) div 2 \<le> 1024 * 2 ^ t'"
        using "1.IH" False by simp
      also have "\<dots> \<longleftrightarrow> n \<le> 1024 * 2 ^ t"
        using half [of n "1024 * 2 ^ t'"] Suc by (simp add: mult.left_commute)
      finally show ?thesis .
    qed
  qed
qed

lemma length_slab_type_le_10: "n \<le> MB \<Longrightarrow> length_slab_type n \<le> 10"
  using length_slab_type_le_iff [of n 10] by simp

lemma length_le_slab_size: "n \<le> MB \<Longrightarrow> n \<le> slab_size (length_slab_type n)"
  using length_slab_type_le_iff [of n "nat (length_slab_type n)"] length_slab_type_le_10 [of n]
  by (simp add: slab_size_power)

text \<open>The computation is the formula of the source, over the reals.\<close>

lemma length_slab_type_log2:
  assumes "0 < n"
  shows "length_slab_type n = max 0 \<lceil>log 2 (real_of_int n / 1024)\<rceil>"
proof -
  have iff: "max 0 \<lceil>log 2 (real_of_int n / 1024)\<rceil> \<le> int t \<longleftrightarrow> n \<le> 1024 * 2 ^ t" for t
  proof -
    have "\<lceil>log 2 (real_of_int n / 1024)\<rceil> \<le> int t \<longleftrightarrow> log 2 (real_of_int n / 1024) \<le> real t"
      by (simp add: ceiling_le_iff)
    also have "\<dots> \<longleftrightarrow> real_of_int n / 1024 \<le> 2 ^ t"
      using assms by (simp add: log_le_iff powr_realpow)
    also have "\<dots> \<longleftrightarrow> real_of_int n \<le> real_of_int (1024 * 2 ^ t)"
      by (simp add: field_simps)
    also have "\<dots> \<longleftrightarrow> n \<le> 1024 * 2 ^ t" by (rule of_int_le_iff)
    finally show ?thesis by simp
  qed
  then have "length_slab_type n \<le> int t \<longleftrightarrow> max 0 \<lceil>log 2 (real_of_int n / 1024)\<rceil> \<le> int t" for t
    by (simp add: length_slab_type_le_iff)
  from this [of "nat (length_slab_type n)"] this [of "nat (max 0 \<lceil>log 2 (real_of_int n / 1024)\<rceil>)"]
  show ?thesis by (simp add: antisym)
qed

text \<open>\<open>pow(2, t)\<close>: the number of 1 KB slabs of a value of class \<open>t\<close>.\<close>

definition slab_count :: "int \<Rightarrow> nat" where
  "slab_count t = 2 ^ nat t"

lemma slab_count_pos [simp]: "0 < slab_count t"
  by (simp add: slab_count_def)

lemma slab_size_count: "0 \<le> t \<Longrightarrow> t \<le> 10 \<Longrightarrow> slab_size t = 1024 * int (slab_count t)"
  by (simp add: slab_size_power slab_count_def)

lemma slab_count_le_1024: "t \<le> 10 \<Longrightarrow> slab_count t \<le> 1024"
proof -
  assume "t \<le> 10"
  then have "(2::nat) ^ nat t \<le> 2 ^ 10" by (intro power_increasing) auto
  then show ?thesis by (simp add: slab_count_def)
qed

lemma length_le_slab_count:
  "n \<le> 1024 * int (slab_count (length_slab_type n))"
  using length_slab_type_le_iff [of n "nat (length_slab_type n)"]
  by (simp add: slab_count_def)


subsection \<open>Copying values into slabs and out of them\<close>

primrec store_slabs ::
  "(nat \<Rightarrow> byte list \<Rightarrow> 'm \<Rightarrow> 'm) \<Rightarrow> byte list \<Rightarrow> nat \<Rightarrow> nat list \<Rightarrow> 'm \<Rightarrow> 'm" where
  "store_slabs wr v i [] m = m"
| "store_slabs wr v i (s # ss) m =
     store_slabs wr v (Suc i) ss (wr s (take 1024 (drop (i * 1024) v)) m)"

definition load_slabs :: "('m \<Rightarrow> nat \<Rightarrow> byte list) \<Rightarrow> 'm \<Rightarrow> nat list \<Rightarrow> byte list" where
  "load_slabs rd m ss = concat (map (rd m) ss)"

locale slab_memory =
  fixes rd :: "'m \<Rightarrow> nat \<Rightarrow> byte list"
    and wr :: "nat \<Rightarrow> byte list \<Rightarrow> 'm \<Rightarrow> 'm"
    and ok :: "'m \<Rightarrow> nat \<Rightarrow> bool"
  assumes rd_length: "ok m s \<Longrightarrow> length (rd m s) = 1024"
    and rd_wr_same: "ok m s \<Longrightarrow> length b = 1024 \<Longrightarrow> rd (wr s b m) s = b"
    and rd_wr_other: "ok m s \<Longrightarrow> length b = 1024 \<Longrightarrow> ok m s' \<Longrightarrow> s' \<noteq> s \<Longrightarrow> rd (wr s b m) s' = rd m s'"
    and ok_wr: "ok m s \<Longrightarrow> length b = 1024 \<Longrightarrow> ok (wr s b m) s' = ok m s'"
begin

lemma slab_piece_length:
  "(i + length (s # ss)) * 1024 \<le> length v \<Longrightarrow> length (take 1024 (drop (i * 1024) (v :: byte list))) = 1024"
  by simp

lemma ok_store:
  "\<forall>s \<in> set ss. ok m s \<Longrightarrow> (i + length ss) * 1024 \<le> length v \<Longrightarrow>
     ok (store_slabs wr v i ss m) s' = ok m s'"
proof (induction ss arbitrary: i m)
  case (Cons s ss)
  let ?m = "wr s (take 1024 (drop (i * 1024) v)) m"
  have ok: "ok ?m x = ok m x" for x
    using Cons.prems by (intro ok_wr slab_piece_length [of _ s ss]) auto
  then have "ok (store_slabs wr v (Suc i) ss ?m) s' = ok ?m s'"
    using Cons.prems by (intro Cons.IH) auto
  with ok show ?case by simp
qed simp

lemma rd_store_other:
  "\<forall>s \<in> set ss. ok m s \<Longrightarrow> (i + length ss) * 1024 \<le> length v \<Longrightarrow> ok m s' \<Longrightarrow> s' \<notin> set ss \<Longrightarrow>
     rd (store_slabs wr v i ss m) s' = rd m s'"
proof (induction ss arbitrary: i m)
  case (Cons s ss)
  let ?m = "wr s (take 1024 (drop (i * 1024) v)) m"
  have l: "length (take 1024 (drop (i * 1024) v)) = 1024"
    using Cons.prems(2) by (rule slab_piece_length)
  have ok: "ok ?m x = ok m x" for x using Cons.prems(1) l by (intro ok_wr) auto
  have "rd (store_slabs wr v (Suc i) ss ?m) s' = rd ?m s'"
    using Cons.prems ok by (intro Cons.IH) auto
  also have "\<dots> = rd m s'" using Cons.prems l by (intro rd_wr_other) auto
  finally show ?case by simp
qed simp

lemma load_store_other:
  "\<forall>s \<in> set ss. ok m s \<Longrightarrow> (i + length ss) * 1024 \<le> length v \<Longrightarrow>
   \<forall>s \<in> set rs. ok m s \<and> s \<notin> set ss \<Longrightarrow>
     load_slabs rd (store_slabs wr v i ss m) rs = load_slabs rd m rs"
  by (auto simp: load_slabs_def rd_store_other intro!: arg_cong [of _ _ concat])

theorem load_store:
  "distinct ss \<Longrightarrow> \<forall>s \<in> set ss. ok m s \<Longrightarrow> (i + length ss) * 1024 \<le> length v \<Longrightarrow>
     load_slabs rd (store_slabs wr v i ss m) ss = take (length ss * 1024) (drop (i * 1024) v)"
proof (induction ss arbitrary: i m)
  case Nil
  then show ?case by (simp add: load_slabs_def)
next
  case (Cons s ss)
  let ?p = "take 1024 (drop (i * 1024) v)"
  have l: "length ?p = 1024" using Cons.prems(3) by (rule slab_piece_length)
  have ok: "ok (wr s ?p m) x = ok m x" for x using Cons.prems l by (intro ok_wr) auto
  have tail: "load_slabs rd (store_slabs wr v (Suc i) ss (wr s ?p m)) ss
      = take (length ss * 1024) (drop (Suc i * 1024) v)"
    using Cons.prems ok by (intro Cons.IH) auto
  have "rd (store_slabs wr v (Suc i) ss (wr s ?p m)) s = rd (wr s ?p m) s"
    using Cons.prems ok by (intro rd_store_other) auto
  also have "\<dots> = ?p" using Cons.prems l by (intro rd_wr_same) auto
  finally have "load_slabs rd (store_slabs wr v i (s # ss) m) (s # ss)
      = ?p @ take (length ss * 1024) (drop (Suc i * 1024) v)"
    using tail by (simp add: load_slabs_def)
  also have "drop (Suc i * 1024) v = drop 1024 (drop (i * 1024) v)" by (simp add: add.commute)
  finally show ?case by (simp add: take_add)
qed

end

end
