(* ===== verification/Write_Buffer.thy ===== *)
theory Write_Buffer
  imports SSD_Cache Slab_Memory "HOL-Library.Signed_Division"
begin

section \<open>WriteBuffer: values waiting to be written in blocks\<close>

text \<open>
  \<open>mog_server/src/WriteBuffer.{h,cpp}\<close>. A new value is copied to the heap and queued
  (\<open>kv_list\<close>); when the queued values exceed the block size, the front of the queue is
  cut off as a new block and a task of the flush pool is scheduled, which appends the
  values of the block to a file of \<open>hdd_path\<close>, records their places in the index and
  releases them. \<open>kv_store\<close> is keyed by the hash of the key; it and \<open>blocks\<close> share the
  value pointers, so values live in an explicit heap (\<open>wb_heap\<close>) and freeing twice or
  reading after a free is a failure. \<open>write\<close>, \<open>flush\<close> and \<open>read\<close> are atomic: their
  bodies hold \<open>wbuffer_lock\<close>. The two busy-waiting loops of \<open>write\<close> are the guard
  \<open>WriteBuffer_write_waits\<close>. \<open>wb_pool\<close> is the pool's queue; up to \<open>flush_thread_num\<close>
  tasks at its front may be under way.
\<close>

subsection \<open>State\<close>

record kv_info =
  kv_key :: string
  kv_value :: nat
  kv_value_length :: int
  kv_value_length_type :: int

record write_buffer =
  wb_page_size :: int
  wb_page_per_block :: int
  wb_page_num :: int
  wb_max_page_num :: int
  wb_initial_flag :: int
  wb_flush_thread_num :: int
  wb_latest_block_id :: int
  wb_ssd_path :: string
  wb_hdd_path :: string
  wb_kv_list :: "size_t list"
  wb_kv_store :: "(size_t \<times> kv_info) list"
  wb_blocks :: "(int \<times> kv_info list) list"
  wb_total_size_without_block :: int
  wb_total_size :: int
  wb_pool :: "int list"
  wb_heap :: "(nat \<times> byte list) list"
  wb_brk :: nat

definition WriteBuffer_new :: write_buffer where
  "WriteBuffer_new =
     \<lparr>wb_page_size = 0, wb_page_per_block = 0, wb_page_num = 0, wb_max_page_num = 0,
      wb_initial_flag = -1, wb_flush_thread_num = 10, wb_latest_block_id = 0,
      wb_ssd_path = '''', wb_hdd_path = '''', wb_kv_list = [], wb_kv_store = [],
      wb_blocks = [], wb_total_size_without_block = 0, wb_total_size = 0, wb_pool = [],
      wb_heap = [], wb_brk = 0\<rparr>"

text \<open>\<open>int64_t(1.2 * page_num)\<close> truncates towards zero.\<close>

definition WriteBuffer_initial :: "int \<Rightarrow> int \<Rightarrow> int \<Rightarrow> write_buffer \<Rightarrow> int \<times> write_buffer" where
  "WriteBuffer_initial page_size page_per_block page_num wb =
     (0, wb\<lparr>wb_total_size_without_block := 0, wb_total_size := 0, wb_page_size := page_size,
            wb_latest_block_id := 0, wb_page_per_block := page_per_block,
            wb_page_num := page_num, wb_max_page_num := (6 * page_num) sdiv 5,
            wb_initial_flag := 0, wb_flush_thread_num := 10, wb_pool := []\<rparr>)"

definition WriteBuffer_allocate_memory :: "write_buffer \<Rightarrow> int outcome" where
  "WriteBuffer_allocate_memory wb =
     check (wb_initial_flag wb = 0) (Fatal ''Check failed: initial_flag == 0'') (Inr 0)"

abbreviation block_limit :: "write_buffer \<Rightarrow> int" where
  "block_limit wb \<equiv> wb_page_per_block wb * 1024 * 1024"


subsection \<open>Writing\<close>

definition WriteBuffer_write_waits :: "ssd_cache \<Rightarrow> write_buffer \<Rightarrow> bool" where
  "WriteBuffer_write_waits ssd wb \<longleftrightarrow>
     wb_total_size wb > wb_max_page_num wb * wb_page_size wb
     \<or> ssd_block_num ssd \<ge> ssd_max_block_num ssd"

text \<open>
  The new entry: a slab of the heap whose first bytes are the value (the rest, which the
  C++ leaves indeterminate and no operation reads, is zero here), the map entry, the queue
  and the two counters.
\<close>

definition WriteBuffer_add_entry ::
  "'db env \<Rightarrow> string \<Rightarrow> byte list \<Rightarrow> write_buffer \<Rightarrow> write_buffer" where
  "WriteBuffer_add_entry E key bytes wb =
     (let hashed_key = hash E key;
          target_slab_type = length_slab_type (int (length bytes));
          slab = slab_size target_slab_type;
          value = bytes @ replicate (nat slab - length bytes) 0
      in wb\<lparr>wb_heap := AList.update (wb_brk wb) value (wb_heap wb),
            wb_brk := Suc (wb_brk wb),
            wb_kv_store := AList.update hashed_key
               \<lparr>kv_key = key, kv_value = wb_brk wb, kv_value_length = int (length bytes),
                kv_value_length_type = target_slab_type\<rparr> (wb_kv_store wb),
            wb_kv_list := wb_kv_list wb @ [hashed_key],
            wb_total_size := wb_total_size wb + slab,
            wb_total_size_without_block := wb_total_size_without_block wb + slab\<rparr>)"

text \<open>
  The packing loop: entries of the queue while they fit. In \<open>write\<close> the loop does not
  test for the end of the queue (\<open>stop = False\<close>), in \<open>sync\<close> it does.
\<close>

fun WriteBuffer_pack ::
  "bool \<Rightarrow> int \<Rightarrow> (size_t \<times> kv_info) list \<Rightarrow> int \<Rightarrow> size_t list
     \<Rightarrow> (kv_info list \<times> size_t list) outcome" where
  "WriteBuffer_pack stop limit store new_block_size [] =
     (if stop then Inr ([], []) else Inl (Undefined ''front of an empty queue''))"
| "WriteBuffer_pack stop limit store new_block_size (k # ks) =
     (case map_of store k of
        None \<Rightarrow> Inl (Undefined ''uninitialised kv_info'')
      | Some i \<Rightarrow>
          if new_block_size + slab_size (kv_value_length_type i) > limit then Inr ([], k # ks)
          else and_then
                 (WriteBuffer_pack stop limit store
                    (new_block_size + slab_size (kv_value_length_type i)) ks)
                 (\<lambda>(is, rest). Inr (i # is, rest)))"

definition wb_block :: "write_buffer \<Rightarrow> int \<Rightarrow> kv_info list" where
  "wb_block wb b = (case map_of (wb_blocks wb) b of None \<Rightarrow> [] | Some is \<Rightarrow> is)"

text \<open>
  A new block: take the next id, pack, schedule the flush. Incrementing the id past
  \<open>int64_t\<close> would be undefined.
\<close>

definition WriteBuffer_cut_block :: "bool \<Rightarrow> write_buffer \<Rightarrow> write_buffer outcome" where
  "WriteBuffer_cut_block stop wb =
     (let b = wb_latest_block_id wb + 1
      in check (b < 2 ^ 63) (Undefined ''signed overflow of latest_block_id'')
         (and_then (WriteBuffer_pack stop (block_limit wb) (wb_kv_store wb) 0 (wb_kv_list wb))
           (\<lambda>(is, rest).
              Inr (wb\<lparr>wb_latest_block_id := b,
                      wb_kv_list := rest,
                      wb_blocks := (if is = [] then wb_blocks wb
                                    else AList.update b (wb_block wb b @ is) (wb_blocks wb)),
                      wb_total_size_without_block := wb_total_size_without_block wb
                        - sum_list (map (\<lambda>i. slab_size (kv_value_length_type i)) is),
                      wb_pool := wb_pool wb @ [b]\<rparr>))))"

definition WriteBuffer_write ::
  "'db env \<Rightarrow> string \<Rightarrow> byte list \<Rightarrow> int \<Rightarrow> ssd_cache \<Rightarrow> write_buffer
     \<Rightarrow> (int \<times> write_buffer) outcome" where
  "WriteBuffer_write E key value len ssd wb =
     (if len > slab_size 10 then Inr (-1, wb)
      else if WriteBuffer_write_waits ssd wb then Inl Waits
      else if map_of (wb_kv_store wb) (hash E key) \<noteq> None then Inr (-1, wb)
      else if len < 0 then Inl (Undefined ''memcpy of a negative length'')
      else and_then (buf_read 0 (nat len) value) (\<lambda>bytes.
        let wb1 = WriteBuffer_add_entry E key bytes wb
        in if wb_total_size_without_block wb1 > block_limit wb1
           then and_then (WriteBuffer_cut_block False wb1) (\<lambda>wb2. Inr (0, wb2))
           else Inr (0, wb1)))"


subsection \<open>Flushing\<close>

fun WriteBuffer_flush_entries ::
  "'db env \<Rightarrow> int \<Rightarrow> kv_info list \<Rightarrow> int \<Rightarrow> write_buffer \<Rightarrow> 'db centra_index \<Rightarrow> byte list \<Rightarrow> int
     \<Rightarrow> (write_buffer \<times> 'db centra_index \<times> byte list \<times> int) outcome" where
  "WriteBuffer_flush_entries E block_id [] offset wb ci out flushed_size =
     Inr (wb, ci, out, flushed_size)"
| "WriteBuffer_flush_entries E block_id (i # is) offset wb ci out flushed_size =
     (case map_of (wb_heap wb) (kv_value i) of
        None \<Rightarrow> Inl (Undefined ''use of a freed value'')
      | Some v \<Rightarrow>
          and_then (buf_read 0 (nat (kv_value_length i)) v) (\<lambda>bytes.
          and_then (CentraIndex_put E (kv_key i)
                      (encode_info \<lparr>info_block_id = block_id, info_offset = offset,
                                    info_length = kv_value_length i,
                                    info_length_type = kv_value_length_type i\<rparr>) ci) (\<lambda>(r, ci').
          WriteBuffer_flush_entries E block_id is (offset + kv_value_length i)
            (wb\<lparr>wb_heap := AList.delete (kv_value i) (wb_heap wb),
                wb_kv_store := AList.delete (hash E (kv_key i)) (wb_kv_store wb)\<rparr>)
            ci' (out @ bytes) (flushed_size + slab_size (kv_value_length_type i)))))"

definition WriteBuffer_flush ::
  "'db env \<Rightarrow> int \<Rightarrow> write_buffer \<Rightarrow> 'db centra_index \<Rightarrow> fs
     \<Rightarrow> (write_buffer \<times> 'db centra_index \<times> fs) outcome" where
  "WriteBuffer_flush E block_id wb ci f =
     (let fout_name = block_path (wb_hdd_path wb) block_id;
          f1 = (if fs_exists E fout_name f then fs_remove E fout_name f else f);
          f2 = ofstream_write fout_name [] f1
      in and_then (WriteBuffer_flush_entries E block_id (wb_block wb block_id) 0 wb ci [] 0)
           (\<lambda>(wb', ci', out, flushed_size).
              Inr (wb'\<lparr>wb_blocks := AList.delete block_id (wb_blocks wb'),
                       wb_total_size := wb_total_size wb' - flushed_size\<rparr>,
                   ci', ofstream_write fout_name out f2)))"

definition WriteBuffer_run ::
  "'db env \<Rightarrow> nat \<Rightarrow> write_buffer \<Rightarrow> 'db centra_index \<Rightarrow> fs
     \<Rightarrow> (write_buffer \<times> 'db centra_index \<times> fs) outcome" where
  "WriteBuffer_run E i wb ci f =
     (if int i < wb_flush_thread_num wb \<and> i < length (wb_pool wb)
      then WriteBuffer_flush E (wb_pool wb ! i) (wb\<lparr>wb_pool := remove_nth i (wb_pool wb)\<rparr>) ci f
      else Inl Waits)"

text \<open>The pool's queue worked off from its front, until it is empty.\<close>

fun WriteBuffer_drain ::
  "'db env \<Rightarrow> int list \<Rightarrow> write_buffer \<Rightarrow> 'db centra_index \<Rightarrow> fs
     \<Rightarrow> (write_buffer \<times> 'db centra_index \<times> fs) outcome" where
  "WriteBuffer_drain E [] wb ci f = Inr (wb\<lparr>wb_pool := []\<rparr>, ci, f)"
| "WriteBuffer_drain E (b # bs) wb ci f =
     and_then (WriteBuffer_flush E b (wb\<lparr>wb_pool := bs\<rparr>) ci f)
       (\<lambda>(wb', ci', f'). WriteBuffer_drain E bs wb' ci' f')"

text \<open>
  \<open>sync\<close>: cut blocks until the queue is empty (\<open>None\<close>: the loop does not end), then wait
  until the flush pool has nothing left.
\<close>

partial_function (option) WriteBuffer_sync_loop :: "write_buffer \<Rightarrow> write_buffer outcome option" where
  "WriteBuffer_sync_loop wb =
     (if wb_kv_list wb = [] then Some (Inr wb)
      else (case WriteBuffer_cut_block True wb of
              Inl e \<Rightarrow> Some (Inl e)
            | Inr wb' \<Rightarrow> WriteBuffer_sync_loop wb'))"

definition WriteBuffer_sync ::
  "'db env \<Rightarrow> write_buffer \<Rightarrow> 'db centra_index \<Rightarrow> fs
     \<Rightarrow> (int \<times> write_buffer \<times> 'db centra_index \<times> fs) outcome option" where
  "WriteBuffer_sync E wb ci f =
     map_option (\<lambda>r. and_then r (\<lambda>wb1.
         and_then (WriteBuffer_drain E (wb_pool wb1) wb1 ci f) (\<lambda>(wb2, ci2, f2). Inr (0, wb2, ci2, f2))))
       (WriteBuffer_sync_loop wb)"


subsection \<open>Closing and reading\<close>

fun WriteBuffer_free_values ::
  "kv_info list \<Rightarrow> (nat \<times> byte list) list \<Rightarrow> (nat \<times> byte list) list outcome" where
  "WriteBuffer_free_values [] heap = Inr heap"
| "WriteBuffer_free_values (i # is) heap =
     (if map_of heap (kv_value i) = None then Inl (Undefined ''delete of a freed value'')
      else WriteBuffer_free_values is (AList.delete (kv_value i) heap))"

text \<open>Deleting the pool waits for its tasks, which now find no entries in their blocks.\<close>

definition WriteBuffer_close ::
  "'db env \<Rightarrow> write_buffer \<Rightarrow> 'db centra_index \<Rightarrow> fs
     \<Rightarrow> (int \<times> write_buffer \<times> 'db centra_index \<times> fs) outcome" where
  "WriteBuffer_close E wb ci f =
     and_then (WriteBuffer_free_values (map snd (wb_kv_store wb)) (wb_heap wb)) (\<lambda>heap.
     and_then (WriteBuffer_drain E (wb_pool wb)
                 (wb\<lparr>wb_heap := heap, wb_kv_store := [], wb_blocks := [], wb_kv_list := []\<rparr>) ci f)
       (\<lambda>(wb', ci', f'). Inr (0, wb', ci', f')))"

definition WriteBuffer_read ::
  "'db env \<Rightarrow> string \<Rightarrow> byte list \<Rightarrow> write_buffer \<Rightarrow> (int \<times> byte list) outcome" where
  "WriteBuffer_read E key value wb =
     (case map_of (wb_kv_store wb) (hash E key) of
        None \<Rightarrow> Inr (0, value)
      | Some target \<Rightarrow>
          (case map_of (wb_heap wb) (kv_value target) of
             None \<Rightarrow> Inl (Undefined ''use of a freed value'')
           | Some v \<Rightarrow>
               and_then (buf_read 0 (nat (kv_value_length target)) v) (\<lambda>bytes.
               and_then (buf_write 0 bytes value) (\<lambda>value'.
                 Inr (kv_value_length target, value')))))"

end
