(* ===== verification/Cpu_Cache.thy ===== *)
theory Cpu_Cache
  imports SSD_Cache Slab_Memory
begin

section \<open>CpuCache: values in 1 KB slabs of main memory\<close>

text \<open>
  \<open>mog_server/src/CpuCache.{h,cpp}\<close>. The cache owns \<open>slab_num\<close> slabs of 1 KB and a queue
  of the free ones; an item is a list of slabs with the length of its value. An item is
  stored on a miss, after the value was read through the index and the SSD cache; when
  too few slabs are free nothing is stored (the eviction loop in \<open>insert\<close> follows a
  \<open>return\<close> and is never reached). \<open>cpu_slabs\<close> is the array of pointers: \<open>[]\<close> is \<open>NULL\<close>,
  a \<open>None\<close> in it an uninitialised pointer. \<open>pow(2, t)\<close> is \<open>slab_count t\<close>.
\<close>

subsection \<open>State and set-up\<close>

record cpu_item =
  item_length :: int
  item_length_type :: int
  item_slabs :: "nat list"

record cpu_cache =
  cpu_page_size :: int
  cpu_slab_num :: int
  cpu_page_num :: int
  cpu_free_slab_num :: int
  cpu_free_slabs :: "nat list"
  cpu_cached_item :: "(string \<times> cpu_item) list"
  cpu_cached_item_queue :: "string list"
  cpu_slabs :: "byte list option list"
  cpu_initial_flag :: int

definition CpuCache_new :: cpu_cache where
  "CpuCache_new =
     \<lparr>cpu_page_size = 0, cpu_slab_num = 0, cpu_page_num = 0, cpu_free_slab_num = 0,
      cpu_free_slabs = [], cpu_cached_item = [], cpu_cached_item_queue = [], cpu_slabs = [],
      cpu_initial_flag = -1\<rparr>"

definition CpuCache_initial :: "int \<Rightarrow> int \<Rightarrow> cpu_cache \<Rightarrow> (int \<times> cpu_cache) outcome" where
  "CpuCache_initial page_size page_num c =
     (let n = (page_num * page_size) div 1024
      in check (0 \<le> n) (Fatal ''uncaught bad_array_new_length'')
           (Inr (0, c\<lparr>cpu_page_size := page_size, cpu_page_num := page_num, cpu_slab_num := n,
                     cpu_slabs := replicate (nat n) None, cpu_free_slab_num := 0,
                     cpu_initial_flag := 0\<rparr>)))"

definition CpuCache_allocate_memory :: "cpu_cache \<Rightarrow> (int \<times> cpu_cache) outcome" where
  "CpuCache_allocate_memory c =
     check (cpu_initial_flag c = 0) (Fatal ''Check failed: initial_flag == 0'')
       (Inr (0, c\<lparr>cpu_free_slab_num := cpu_slab_num c,
                 cpu_slabs := replicate (nat (cpu_slab_num c)) (Some (replicate 1024 0)),
                 cpu_free_slabs := cpu_free_slabs c @ [0..<nat (cpu_slab_num c)]\<rparr>))"

definition CpuCache_close :: "cpu_cache \<Rightarrow> (int \<times> cpu_cache) outcome" where
  "CpuCache_close c =
     check (nat (cpu_slab_num c) \<le> length (cpu_slabs c)
            \<and> (\<forall>s \<in> set (take (nat (cpu_slab_num c)) (cpu_slabs c)). s \<noteq> None))
       (Undefined ''delete of a bad pointer'')
       (Inr (0, c\<lparr>cpu_cached_item := [], cpu_cached_item_queue := [], cpu_free_slabs := [],
                 cpu_slabs := [], cpu_initial_flag := -1\<rparr>))"


subsection \<open>insert and read\<close>

definition cpu_item_of :: "string \<Rightarrow> cpu_cache \<Rightarrow> cpu_item" where
  "cpu_item_of key c =
     (case map_of (cpu_cached_item c) key of
        None \<Rightarrow> \<lparr>item_length = 0, item_length_type = 0, item_slabs = []\<rparr>
      | Some item \<Rightarrow> item)"

fun CpuCache_insert_loop ::
  "string \<Rightarrow> byte list \<Rightarrow> nat \<Rightarrow> nat \<Rightarrow> cpu_cache \<Rightarrow> cpu_cache outcome" where
  "CpuCache_insert_loop key value i 0 c = Inr c"
| "CpuCache_insert_loop key value i (Suc n) c =
     (case cpu_free_slabs c of
        [] \<Rightarrow> Inl (Undefined ''front of an empty queue'')
      | new_slab_id # rest \<Rightarrow>
          and_then (buf_read (i * 1024) 1024 value) (\<lambda>piece.
            check (new_slab_id < length (cpu_slabs c) \<and> cpu_slabs c ! new_slab_id \<noteq> None)
              (Undefined ''memcpy to a bad pointer'')
              (CpuCache_insert_loop key value (Suc i) n
                 (c\<lparr>cpu_cached_item :=
                      AList.update key
                        ((cpu_item_of key c)\<lparr>item_slabs := item_slabs (cpu_item_of key c) @ [new_slab_id]\<rparr>)
                        (cpu_cached_item c),
                    cpu_slabs := (cpu_slabs c)[new_slab_id := Some piece],
                    cpu_free_slabs := rest,
                    cpu_free_slab_num := cpu_free_slab_num c - 1\<rparr>))))"

definition CpuCache_insert ::
  "string \<Rightarrow> index_info \<Rightarrow> byte list \<Rightarrow> cpu_cache \<Rightarrow> (int \<times> cpu_cache) outcome" where
  "CpuCache_insert key info value c =
     (if cpu_free_slab_num c < int (slab_count (info_length_type info)) then Inr (0, c)
      else and_then
             (CpuCache_insert_loop key value 0 (slab_count (info_length_type info))
                (c\<lparr>cpu_cached_item :=
                     AList.update key
                       ((cpu_item_of key c)\<lparr>item_length := info_length info,
                                           item_length_type := info_length_type info\<rparr>)
                       (cpu_cached_item c)\<rparr>))
             (\<lambda>c'. Inr (0, c'\<lparr>cpu_cached_item_queue := cpu_cached_item_queue c' @ [key]\<rparr>)))"

fun CpuCache_copy_slabs ::
  "byte list option list \<Rightarrow> nat list \<Rightarrow> nat \<Rightarrow> byte list \<Rightarrow> byte list outcome" where
  "CpuCache_copy_slabs slabs [] off value = Inr value"
| "CpuCache_copy_slabs slabs (s # ss) off value =
     (if s < length slabs
      then (case slabs ! s of
              None \<Rightarrow> Inl (Undefined ''memcpy from a bad pointer'')
            | Some piece \<Rightarrow>
                and_then (buf_write off piece value)
                  (\<lambda>value'. CpuCache_copy_slabs slabs ss (off + 1024) value'))
      else Inl (Undefined ''memcpy from a bad pointer''))"

definition CpuCache_read ::
  "'db env \<Rightarrow> string \<Rightarrow> byte list \<Rightarrow> cpu_cache \<Rightarrow> 'db centra_index \<Rightarrow> ssd_cache \<Rightarrow> fs
     \<Rightarrow> (int \<times> byte list \<times> cpu_cache \<times> ssd_cache) outcome" where
  "CpuCache_read E key value c ci ssd f =
     (case map_of (cpu_cached_item c) key of
        None \<Rightarrow>
          and_then (CentraIndex_get E key (replicate 32 0) sizeof_index_info ci) (\<lambda>(n, bytes).
            if n \<noteq> sizeof_index_info then Inr (0, value, c, ssd)
            else and_then (SSDCache_read (decode_info bytes) value ssd f) (\<lambda>(r, value', ssd').
                 and_then (CpuCache_insert key (decode_info bytes) value' c) (\<lambda>(r', c').
                   Inr (info_length (decode_info bytes), value', c', ssd'))))
      | Some item \<Rightarrow>
          and_then (CpuCache_copy_slabs (cpu_slabs c) (item_slabs item) 0 value)
            (\<lambda>value'. Inr (item_length item, value', c, ssd)))"


subsection \<open>The slabs as slab memory\<close>

definition slab_read :: "byte list option list \<Rightarrow> nat \<Rightarrow> byte list" where
  "slab_read slabs s = the (slabs ! s)"

definition slab_write :: "nat \<Rightarrow> byte list \<Rightarrow> byte list option list \<Rightarrow> byte list option list" where
  "slab_write s piece slabs = slabs[s := Some piece]"

definition slab_ok :: "byte list option list \<Rightarrow> nat \<Rightarrow> bool" where
  "slab_ok slabs s \<longleftrightarrow> s < length slabs \<and> (\<exists>b. slabs ! s = Some b \<and> length b = 1024)"

interpretation cpu_slabs: slab_memory slab_read slab_write slab_ok
  by unfold_locales (auto simp: slab_read_def slab_write_def slab_ok_def nth_list_update)

lemma length_store_slabs [simp]: "length (store_slabs slab_write v i ss m) = length m"
  by (induction ss arbitrary: i m) (simp_all add: slab_write_def)

text \<open>What the loop of \<open>insert\<close> does when enough slabs are free.\<close>

lemma insert_loop_spec:
  assumes "n \<le> length (cpu_free_slabs c)" "\<forall>s \<in> set (take n (cpu_free_slabs c)). slab_ok (cpu_slabs c) s"
    "(i + n) * 1024 \<le> length value" "map_of (cpu_cached_item c) key \<noteq> None"
  shows "\<exists>items. CpuCache_insert_loop key value i n c =
      Inr (c\<lparr>cpu_cached_item := items,
             cpu_slabs := store_slabs slab_write value i (take n (cpu_free_slabs c)) (cpu_slabs c),
             cpu_free_slabs := drop n (cpu_free_slabs c),
             cpu_free_slab_num := cpu_free_slab_num c - int n\<rparr>)
    \<and> (umap_wf (cpu_cached_item c) \<longrightarrow> umap_wf items)
    \<and> map_of items = (map_of (cpu_cached_item c))(key \<mapsto>
         (cpu_item_of key c)\<lparr>item_slabs := item_slabs (cpu_item_of key c) @ take n (cpu_free_slabs c)\<rparr>)"
  using assms
proof (induction n arbitrary: i c)
  case 0
  then obtain item where "map_of (cpu_cached_item c) key = Some item" by auto
  then have "map_of (cpu_cached_item c) = (map_of (cpu_cached_item c))(key \<mapsto> cpu_item_of key c)"
    by (auto simp: cpu_item_of_def)
  then show ?case by (intro exI [of _ "cpu_cached_item c"]) simp
next
  case (Suc n)
  then obtain s rest where free: "cpu_free_slabs c = s # rest" by (cases "cpu_free_slabs c") auto
  let ?piece = "take 1024 (drop (i * 1024) value)"
  let ?item = "(cpu_item_of key c)\<lparr>item_slabs := item_slabs (cpu_item_of key c) @ [s]\<rparr>"
  let ?c = "c\<lparr>cpu_cached_item := AList.update key ?item (cpu_cached_item c),
              cpu_slabs := (cpu_slabs c)[s := Some ?piece], cpu_free_slabs := rest,
              cpu_free_slab_num := cpu_free_slab_num c - 1\<rparr>"
  have s: "s < length (cpu_slabs c)" "cpu_slabs c ! s \<noteq> None"
    using Suc.prems(2) free by (auto simp: slab_ok_def)
  have step: "CpuCache_insert_loop key value i (Suc n) c = CpuCache_insert_loop key value (Suc i) n ?c"
    using free s Suc.prems(3) by (simp add: buf_read_def)
  have ok: "\<forall>x \<in> set (take n rest). slab_ok (cpu_slabs ?c) x"
    using Suc.prems(2,3) free by (auto simp: slab_ok_def nth_list_update)
  have len: "n \<le> length rest" "(Suc i + n) * 1024 \<le> length value"
    using Suc.prems(1,3) free by simp_all
  have "\<exists>items. CpuCache_insert_loop key value (Suc i) n ?c =
      Inr (?c\<lparr>cpu_cached_item := items,
             cpu_slabs := store_slabs slab_write value (Suc i) (take n (cpu_free_slabs ?c)) (cpu_slabs ?c),
             cpu_free_slabs := drop n (cpu_free_slabs ?c),
             cpu_free_slab_num := cpu_free_slab_num ?c - int n\<rparr>)
    \<and> (umap_wf (cpu_cached_item ?c) \<longrightarrow> umap_wf items)
    \<and> map_of items = (map_of (cpu_cached_item ?c))(key \<mapsto>
         (cpu_item_of key ?c)\<lparr>item_slabs := item_slabs (cpu_item_of key ?c) @ take n (cpu_free_slabs ?c)\<rparr>)"
    using ok len by (intro Suc.IH) simp_all
  moreover have "cpu_free_slabs ?c = rest" by simp
  ultimately obtain items where IH: "CpuCache_insert_loop key value (Suc i) n ?c =
      Inr (?c\<lparr>cpu_cached_item := items,
             cpu_slabs := store_slabs slab_write value (Suc i) (take n rest) (cpu_slabs ?c),
             cpu_free_slabs := drop n rest,
             cpu_free_slab_num := cpu_free_slab_num ?c - int n\<rparr>)"
    "umap_wf (cpu_cached_item ?c) \<longrightarrow> umap_wf items"
    "map_of items = (map_of (cpu_cached_item ?c))(key \<mapsto>
         (cpu_item_of key ?c)\<lparr>item_slabs := item_slabs (cpu_item_of key ?c) @ take n rest\<rparr>)"
    by (elim exE conjE) (rule that, simp_all only:)
  have "cpu_item_of key ?c = ?item" by (simp add: cpu_item_of_def)
  then have "map_of items = (map_of (cpu_cached_item c))(key \<mapsto>
         (cpu_item_of key c)\<lparr>item_slabs := item_slabs (cpu_item_of key c) @ take (Suc n) (cpu_free_slabs c)\<rparr>)"
    using IH(3) free by simp
  moreover have "CpuCache_insert_loop key value i (Suc n) c =
      Inr (c\<lparr>cpu_cached_item := items,
             cpu_slabs := store_slabs slab_write value i (take (Suc n) (cpu_free_slabs c)) (cpu_slabs c),
             cpu_free_slabs := drop (Suc n) (cpu_free_slabs c),
             cpu_free_slab_num := cpu_free_slab_num c - int (Suc n)\<rparr>)"
    unfolding step IH(1) using free by (simp add: slab_write_def)
  moreover have "umap_wf (cpu_cached_item c) \<longrightarrow> umap_wf items" using IH(2) by simp
  ultimately show ?case by blast
qed


subsection \<open>Invariant\<close>

text \<open>
  The free slabs and the slabs of the items divide the slabs among them: no slab is lost
  and none is used twice; the counter is the length of the queue of free slabs; the slabs
  of an item are enough for its length.
\<close>

definition cpu_item_ok :: "cpu_cache \<Rightarrow> cpu_item \<Rightarrow> bool" where
  "cpu_item_ok c item \<longleftrightarrow>
     distinct (item_slabs item) \<and> set (item_slabs item) \<inter> set (cpu_free_slabs c) = {}
     \<and> set (item_slabs item) \<subseteq> {..<length (cpu_slabs c)}
     \<and> 0 \<le> item_length item \<and> item_length item \<le> 1024 * int (length (item_slabs item))"

definition cpu_disjoint :: "cpu_cache \<Rightarrow> bool" where
  "cpu_disjoint c \<longleftrightarrow>
     (\<forall>k k' item item'. map_of (cpu_cached_item c) k = Some item \<longrightarrow>
        map_of (cpu_cached_item c) k' = Some item' \<longrightarrow> k \<noteq> k' \<longrightarrow>
        set (item_slabs item) \<inter> set (item_slabs item') = {})"

definition cpu_used :: "cpu_cache \<Rightarrow> nat set" where
  "cpu_used c = (\<Union>item \<in> ran (map_of (cpu_cached_item c)). set (item_slabs item))"

definition cpu_wf :: "cpu_cache \<Rightarrow> bool" where
  "cpu_wf c \<longleftrightarrow>
     umap_wf (cpu_cached_item c) \<and> distinct (cpu_free_slabs c)
     \<and> (\<forall>k item. map_of (cpu_cached_item c) k = Some item \<longrightarrow> cpu_item_ok c item)
     \<and> cpu_disjoint c
     \<and> set (cpu_free_slabs c) \<union> cpu_used c = {..<length (cpu_slabs c)}
     \<and> (\<forall>s < length (cpu_slabs c). slab_ok (cpu_slabs c) s)
     \<and> cpu_free_slab_num c = int (length (cpu_free_slabs c))
     \<and> cpu_slab_num c = int (length (cpu_slabs c))
     \<and> set (cpu_cached_item_queue c) = dom (map_of (cpu_cached_item c))"

lemma cpu_wf_item:
  assumes "cpu_wf c" "map_of (cpu_cached_item c) k = Some item"
  shows "cpu_item_ok c item"
  using assms by (simp add: cpu_wf_def)

lemma cpu_wf_slabs: "cpu_wf c \<Longrightarrow> s < length (cpu_slabs c) \<Longrightarrow> slab_ok (cpu_slabs c) s"
  by (simp add: cpu_wf_def)

lemma allocate_wf:
  assumes "0 \<le> page_num * page_size" "cpu_cached_item c = []" "cpu_cached_item_queue c = []"
    "cpu_free_slabs c = []"
  shows "\<exists>c1 c2. CpuCache_initial page_size page_num c = Inr (0, c1)
    \<and> CpuCache_allocate_memory c1 = Inr (0, c2) \<and> cpu_wf c2 \<and> cpu_cached_item c2 = []
    \<and> cpu_free_slab_num c2 = (page_num * page_size) div 1024"
  using assms
  by (auto simp: CpuCache_initial_def CpuCache_allocate_memory_def cpu_wf_def cpu_disjoint_def
      cpu_used_def Let_def slab_ok_def pos_imp_zdiv_nonneg_iff)

text \<open>Closing releases every slab, and the cache can be set up again.\<close>

lemma close_wf:
  assumes "cpu_wf c"
  shows "\<exists>c'. CpuCache_close c = Inr (0, c') \<and> cpu_slabs c' = [] \<and> cpu_cached_item c' = []
    \<and> cpu_cached_item_queue c' = [] \<and> cpu_free_slabs c' = []"
proof -
  have "\<forall>s \<in> set (cpu_slabs c). s \<noteq> None"
    using cpu_wf_slabs [OF assms] by (force simp: slab_ok_def in_set_conv_nth)
  moreover have "nat (cpu_slab_num c) = length (cpu_slabs c)" using assms by (simp add: cpu_wf_def)
  ultimately show ?thesis by (auto simp: CpuCache_close_def)
qed

definition cpu_value :: "cpu_cache \<Rightarrow> cpu_item \<Rightarrow> byte list" where
  "cpu_value c item = take (nat (item_length item)) (load_slabs slab_read (cpu_slabs c) (item_slabs item))"

lemma length_load_slabs: "\<forall>s \<in> set ss. slab_ok m s \<Longrightarrow> length (load_slabs slab_read m ss) = 1024 * length ss"
  by (induction ss) (auto simp: load_slabs_def slab_read_def slab_ok_def)

lemma item_slabs_ok:
  assumes "cpu_wf c" "map_of (cpu_cached_item c) k = Some item"
  shows "\<forall>s \<in> set (item_slabs item). slab_ok (cpu_slabs c) s"
  using cpu_wf_item [OF assms] cpu_wf_slabs [OF assms(1)] by (auto simp: cpu_item_ok_def)

lemma cpu_value_length:
  assumes "cpu_wf c" "map_of (cpu_cached_item c) k = Some item"
  shows "int (length (cpu_value c item)) = item_length item"
proof -
  have "0 \<le> item_length item" "item_length item \<le> 1024 * int (length (item_slabs item))"
    using cpu_wf_item [OF assms] by (simp_all add: cpu_item_ok_def)
  then show ?thesis
    using length_load_slabs [OF item_slabs_ok [OF assms]] by (simp add: cpu_value_def)
qed

lemma copy_slabs_spec:
  "\<forall>s \<in> set ss. slab_ok m s \<Longrightarrow> off + 1024 * length ss \<le> length value \<Longrightarrow>
     CpuCache_copy_slabs m ss off value
       = Inr (take off value @ load_slabs slab_read m ss @ drop (off + 1024 * length ss) value)"
proof (induction ss arbitrary: off "value")
  case Nil
  then show ?case by (simp add: load_slabs_def)
next
  case (Cons s ss)
  then obtain piece where p: "s < length m" "m ! s = Some piece" "length piece = 1024"
    by (auto simp: slab_ok_def)
  let ?v = "take off value @ piece @ drop (off + 1024) value"
  have "CpuCache_copy_slabs m (s # ss) off value = CpuCache_copy_slabs m ss (off + 1024) ?v"
    using p Cons.prems by simp
  also have "\<dots> = Inr (take (off + 1024) ?v @ load_slabs slab_read m ss @ drop (off + 1024 + 1024 * length ss) ?v)"
    using Cons.prems p by (intro Cons.IH) auto
  also have "take (off + 1024) ?v = take off value @ piece"
    using Cons.prems p by simp
  also have "drop (off + 1024 + 1024 * length ss) ?v = drop (off + 1024 * length (s # ss)) value"
    using Cons.prems p by (simp add: algebra_simps)
  finally show ?case using p by (simp add: load_slabs_def slab_read_def)
qed

text \<open>A hit: the value, followed by what the last slab holds after it.\<close>

lemma read_hit:
  assumes wf: "cpu_wf c" and m: "map_of (cpu_cached_item c) key = Some item"
    and room: "1024 * length (item_slabs item) \<le> length value"
  shows "\<exists>value'. CpuCache_read E key value c ci ssd f = Inr (item_length item, value', c, ssd)
    \<and> take (nat (item_length item)) value' = cpu_value c item \<and> length value' = length value"
proof -
  note ok = item_slabs_ok [OF wf m]
  have "item_length item \<le> 1024 * int (length (item_slabs item))"
    using cpu_wf_item [OF wf m] by (simp add: cpu_item_ok_def)
  then show ?thesis
    using copy_slabs_spec [OF ok, of 0 "value"] room length_load_slabs [OF ok] m
    by (simp add: CpuCache_read_def cpu_value_def)
qed

lemma take_drop_sets:
  assumes "distinct xs"
  shows "set xs = set (take n xs) \<union> set (drop n xs)" "set (take n xs) \<inter> set (drop n xs) = {}"
  using assms by (metis append_take_drop_id set_append, simp add: set_take_disj_set_drop_if_distinct)

definition cpu_slabs_of :: "string \<Rightarrow> cpu_cache \<Rightarrow> nat list" where
  "cpu_slabs_of key c = item_slabs (cpu_item_of key c)"

text \<open>
  The effect of an insert for which enough slabs are free: the first slabs of the queue
  move to the item and hold the value; every other item is as before.
\<close>

definition cpu_inserted :: "string \<Rightarrow> index_info \<Rightarrow> byte list \<Rightarrow> cpu_cache \<Rightarrow> cpu_cache \<Rightarrow> bool" where
  "cpu_inserted key info value c c' \<longleftrightarrow>
     (let n = slab_count (info_length_type info); taken = take n (cpu_free_slabs c)
      in cpu_free_slabs c' = drop n (cpu_free_slabs c)
         \<and> cpu_free_slab_num c' = cpu_free_slab_num c - int n
         \<and> cpu_slab_num c' = cpu_slab_num c
         \<and> cpu_slabs c' = store_slabs slab_write value 0 taken (cpu_slabs c)
         \<and> (umap_wf (cpu_cached_item c) \<longrightarrow> umap_wf (cpu_cached_item c'))
         \<and> map_of (cpu_cached_item c') = (map_of (cpu_cached_item c))(key \<mapsto>
              \<lparr>item_length = info_length info, item_length_type = info_length_type info,
               item_slabs = cpu_slabs_of key c @ taken\<rparr>)
         \<and> cpu_cached_item_queue c' = cpu_cached_item_queue c @ [key])"

lemma insert_effect:
  assumes wf: "cpu_wf c" and n: "slab_count (info_length_type info) \<le> length (cpu_free_slabs c)"
    and v: "slab_count (info_length_type info) * 1024 \<le> length value"
  shows "\<exists>c'. CpuCache_insert key info value c = Inr (0, c') \<and> cpu_inserted key info value c c'"
proof -
  let ?n = "slab_count (info_length_type info)"
  let ?item = "(cpu_item_of key c)\<lparr>item_length := info_length info,
                                   item_length_type := info_length_type info\<rparr>"
  let ?c = "c\<lparr>cpu_cached_item := AList.update key ?item (cpu_cached_item c)\<rparr>"
  have enough: "\<not> cpu_free_slab_num c < int ?n"
    using wf n by (simp add: cpu_wf_def)
  have "set (cpu_free_slabs c) \<subseteq> {..<length (cpu_slabs c)}" using wf unfolding cpu_wf_def by blast
  then have ok: "\<forall>s \<in> set (take ?n (cpu_free_slabs c)). slab_ok (cpu_slabs c) s"
    using cpu_wf_slabs [OF wf] set_take_subset [of ?n "cpu_free_slabs c"] by blast
  have "\<exists>items. CpuCache_insert_loop key value 0 ?n ?c =
      Inr (?c\<lparr>cpu_cached_item := items,
             cpu_slabs := store_slabs slab_write value 0 (take ?n (cpu_free_slabs ?c)) (cpu_slabs ?c),
             cpu_free_slabs := drop ?n (cpu_free_slabs ?c),
             cpu_free_slab_num := cpu_free_slab_num ?c - int ?n\<rparr>)
    \<and> (umap_wf (cpu_cached_item ?c) \<longrightarrow> umap_wf items)
    \<and> map_of items = (map_of (cpu_cached_item ?c))(key \<mapsto>
         (cpu_item_of key ?c)\<lparr>item_slabs := item_slabs (cpu_item_of key ?c) @ take ?n (cpu_free_slabs ?c)\<rparr>)"
    using ok n v by (intro insert_loop_spec) simp_all
  then obtain items where "CpuCache_insert_loop key value 0 ?n ?c =
      Inr (?c\<lparr>cpu_cached_item := items,
             cpu_slabs := store_slabs slab_write value 0 (take ?n (cpu_free_slabs ?c)) (cpu_slabs ?c),
             cpu_free_slabs := drop ?n (cpu_free_slabs ?c),
             cpu_free_slab_num := cpu_free_slab_num ?c - int ?n\<rparr>)"
    "umap_wf (cpu_cached_item ?c) \<longrightarrow> umap_wf items"
    "map_of items = (map_of (cpu_cached_item ?c))(key \<mapsto>
         (cpu_item_of key ?c)\<lparr>item_slabs := item_slabs (cpu_item_of key ?c) @ take ?n (cpu_free_slabs ?c)\<rparr>)"
    by blast
  note loop = this
  have item_eq: "r\<lparr>item_length := a, item_length_type := b, item_slabs := d\<rparr>
      = \<lparr>item_length = a, item_length_type = b, item_slabs = d\<rparr>" for r :: cpu_item and a b d
    by (cases r) simp
  have "cpu_item_of key ?c = ?item" by (simp add: cpu_item_of_def)
  then have items: "map_of items = (map_of (cpu_cached_item c))(key \<mapsto>
      \<lparr>item_length = info_length info, item_length_type = info_length_type info,
       item_slabs = cpu_slabs_of key c @ take ?n (cpu_free_slabs c)\<rparr>)"
    using loop(3) item_eq by (simp add: cpu_slabs_of_def)
  have wfi: "umap_wf (cpu_cached_item c) \<longrightarrow> umap_wf items" using loop(2) by simp
  show ?thesis
    using enough loop(1) items wfi by (simp add: CpuCache_insert_def cpu_inserted_def Let_def)
qed

lemma insert_full:
  assumes "cpu_wf c" "length (cpu_free_slabs c) < slab_count (info_length_type info)"
  shows "CpuCache_insert key info value c = Inr (0, c)"
  using assms by (simp add: CpuCache_insert_def cpu_wf_def)

lemma slabs_of_item: "map_of (cpu_cached_item c) key = Some item \<Longrightarrow> cpu_slabs_of key c = item_slabs item"
  by (simp add: cpu_slabs_of_def cpu_item_of_def)

lemma slabs_of_facts:
  assumes "cpu_wf c"
  shows "distinct (cpu_slabs_of key c)" "set (cpu_slabs_of key c) \<inter> set (cpu_free_slabs c) = {}"
    "set (cpu_slabs_of key c) \<subseteq> {..<length (cpu_slabs c)}"
proof -
  have "distinct (cpu_slabs_of key c) \<and> set (cpu_slabs_of key c) \<inter> set (cpu_free_slabs c) = {}
      \<and> set (cpu_slabs_of key c) \<subseteq> {..<length (cpu_slabs c)}"
  proof (cases "map_of (cpu_cached_item c) key")
    case None
    then show ?thesis by (simp add: cpu_slabs_of_def cpu_item_of_def)
  next
    case (Some item)
    with cpu_wf_item [OF assms Some] show ?thesis by (simp add: slabs_of_item cpu_item_ok_def)
  qed
  then show "distinct (cpu_slabs_of key c)" "set (cpu_slabs_of key c) \<inter> set (cpu_free_slabs c) = {}"
    "set (cpu_slabs_of key c) \<subseteq> {..<length (cpu_slabs c)}" by blast+
qed


lemma inserted_wf:
  assumes wf: "cpu_wf c" and eff: "cpu_inserted key info value c c'"
    and n: "slab_count (info_length_type info) \<le> length (cpu_free_slabs c)"
    and v: "slab_count (info_length_type info) * 1024 \<le> length value"
    and len: "0 \<le> info_length info" "info_length info \<le> 1024 * int (slab_count (info_length_type info))"
  shows "cpu_wf c'"
proof -
  let ?n = "slab_count (info_length_type info)"
  let ?taken = "take ?n (cpu_free_slabs c)" and ?rest = "drop ?n (cpu_free_slabs c)"
  let ?new = "\<lparr>item_length = info_length info, item_length_type = info_length_type info,
               item_slabs = cpu_slabs_of key c @ ?taken\<rparr>"
  have c': "cpu_free_slabs c' = ?rest" "cpu_free_slab_num c' = cpu_free_slab_num c - int ?n"
    "cpu_slab_num c' = cpu_slab_num c"
    "cpu_slabs c' = store_slabs slab_write value 0 ?taken (cpu_slabs c)"
    "umap_wf (cpu_cached_item c')"
    "map_of (cpu_cached_item c') = (map_of (cpu_cached_item c))(key \<mapsto> ?new)"
    "cpu_cached_item_queue c' = cpu_cached_item_queue c @ [key]"
    using eff wf by (simp_all add: cpu_inserted_def Let_def cpu_wf_def)
  have dfree: "distinct (cpu_free_slabs c)" using wf by (simp add: cpu_wf_def)
  note free = take_drop_sets [OF dfree, of ?n] and old = slabs_of_facts [OF wf, of key]
  have sub: "set (cpu_free_slabs c) \<subseteq> {..<length (cpu_slabs c)}" using wf unfolding cpu_wf_def by blast
  have len': "length (cpu_slabs c') = length (cpu_slabs c)" by (simp add: c'(4))
  have new: "cpu_item_ok c' ?new"
    using old free sub dfree len n unfolding cpu_item_ok_def c'(1) len' by auto
  have other: "cpu_item_ok c' item" if "map_of (cpu_cached_item c) k = Some item" for k item
    using cpu_wf_item [OF wf that] free unfolding cpu_item_ok_def c'(1) len' by auto
  have items: "\<forall>k item. map_of (cpu_cached_item c') k = Some item \<longrightarrow> cpu_item_ok c' item"
    using new other by (simp add: c'(6))
  have apart: "set (cpu_slabs_of key c @ ?taken) \<inter> set (item_slabs item) = {}"
    if "map_of (cpu_cached_item c) k = Some item" "k \<noteq> key" for k item
  proof -
    have "set ?taken \<inter> set (item_slabs item) = {}"
      using cpu_wf_item [OF wf that(1)] free(1) unfolding cpu_item_ok_def by auto
    moreover have "set (cpu_slabs_of key c) \<inter> set (item_slabs item) = {}"
    proof (cases "map_of (cpu_cached_item c) key")
      case None
      then show ?thesis by (simp add: cpu_slabs_of_def cpu_item_of_def)
    next
      case (Some item')
      moreover have "cpu_disjoint c" using wf by (simp add: cpu_wf_def)
      ultimately show ?thesis
        using that unfolding slabs_of_item [OF Some] cpu_disjoint_def by blast
    qed
    ultimately show ?thesis by auto
  qed
  have "cpu_disjoint c" using wf by (simp add: cpu_wf_def)
  then have disj: "cpu_disjoint c'"
    using apart unfolding cpu_disjoint_def c'(6)
    by (auto simp: Int_commute)
  have "cpu_used c' = cpu_used c \<union> set ?taken"
  proof (cases "map_of (cpu_cached_item c) key")
    case None
    then show ?thesis by (auto simp: cpu_used_def c'(6) ran_map_upd cpu_slabs_of_def cpu_item_of_def)
  next
    case (Some item)
    have "ran ((map_of (cpu_cached_item c))(key \<mapsto> ?new)) = insert ?new {i. \<exists>k. k \<noteq> key \<and> map_of (cpu_cached_item c) k = Some i}"
      by (auto simp: ran_def)
    moreover have "ran (map_of (cpu_cached_item c)) = insert item {i. \<exists>k. k \<noteq> key \<and> map_of (cpu_cached_item c) k = Some i}"
      using Some by (auto simp: ran_def) (metis option.inject)
    ultimately show ?thesis using slabs_of_item [OF Some] by (auto simp: cpu_used_def c'(6))
  qed
  moreover have "set (cpu_free_slabs c) \<union> cpu_used c = {..<length (cpu_slabs c)}"
    using wf by (simp add: cpu_wf_def)
  ultimately have cover: "set (cpu_free_slabs c') \<union> cpu_used c' = {..<length (cpu_slabs c')}"
    using free(1) unfolding c'(1) len' by auto
  have "\<forall>s \<in> set ?taken. slab_ok (cpu_slabs c) s" using cpu_wf_slabs [OF wf] sub free(1) by auto
  then have "slab_ok (cpu_slabs c') s = slab_ok (cpu_slabs c) s" for s
    unfolding c'(4) using v n by (intro cpu_slabs.ok_store) auto
  then have slabs: "\<forall>s < length (cpu_slabs c'). slab_ok (cpu_slabs c') s"
    using cpu_wf_slabs [OF wf] len' by simp
  show ?thesis
    using wf c' items disj cover slabs n len' dfree unfolding cpu_wf_def by auto
qed

lemma inserted_other:
  assumes wf: "cpu_wf c" and eff: "cpu_inserted key info value c c'"
    and v: "slab_count (info_length_type info) * 1024 \<le> length value"
    and m: "map_of (cpu_cached_item c) k = Some item"
  shows "load_slabs slab_read (cpu_slabs c') (item_slabs item) = load_slabs slab_read (cpu_slabs c) (item_slabs item)"
proof -
  let ?taken = "take (slab_count (info_length_type info)) (cpu_free_slabs c)"
  have "set (cpu_free_slabs c) \<subseteq> {..<length (cpu_slabs c)}" using wf unfolding cpu_wf_def by blast
  then have ok: "\<forall>s \<in> set ?taken. slab_ok (cpu_slabs c) s"
    using cpu_wf_slabs [OF wf] set_take_subset [of _ "cpu_free_slabs c"] by blast
  have "set (item_slabs item) \<inter> set (cpu_free_slabs c) = {}"
    using cpu_wf_item [OF wf m] by (simp add: cpu_item_ok_def)
  then have "\<forall>s \<in> set (item_slabs item). slab_ok (cpu_slabs c) s \<and> s \<notin> set ?taken"
    using item_slabs_ok [OF wf m] set_take_subset [of _ "cpu_free_slabs c"] by blast
  moreover have "(0 + length ?taken) * 1024 \<le> length value"
    using v by (simp add: min_def split: if_splits)
  ultimately show ?thesis
    using cpu_slabs.load_store_other [OF ok, of 0 "value" "item_slabs item"] eff
    by (simp add: cpu_inserted_def Let_def)
qed

lemma inserted_self:
  assumes wf: "cpu_wf c" and eff: "cpu_inserted key info value c c'"
    and n: "slab_count (info_length_type info) \<le> length (cpu_free_slabs c)"
    and v: "slab_count (info_length_type info) * 1024 \<le> length value"
  shows "load_slabs slab_read (cpu_slabs c') (take (slab_count (info_length_type info)) (cpu_free_slabs c))
    = take (slab_count (info_length_type info) * 1024) value"
proof -
  let ?taken = "take (slab_count (info_length_type info)) (cpu_free_slabs c)"
  have "set (cpu_free_slabs c) \<subseteq> {..<length (cpu_slabs c)}" using wf unfolding cpu_wf_def by blast
  then have ok: "\<forall>s \<in> set ?taken. slab_ok (cpu_slabs c) s"
    using cpu_wf_slabs [OF wf] set_take_subset [of _ "cpu_free_slabs c"] by blast
  have "distinct ?taken" using wf by (simp add: cpu_wf_def)
  then show ?thesis
    using cpu_slabs.load_store [OF _ ok, of 0 "value"] n v eff
    by (simp add: cpu_inserted_def Let_def)
qed


text \<open>
  What \<open>insert\<close> does, in terms of values: either nothing, when too few slabs are free, or
  the item of the key now has the first bytes of the buffer after the bytes it had before,
  and no other value changes.
\<close>

lemma insert_spec:
  assumes wf: "cpu_wf c" and v: "slab_count (info_length_type info) * 1024 \<le> length value"
    and len: "0 \<le> info_length info" "info_length info \<le> 1024 * int (slab_count (info_length_type info))"
  shows "\<exists>c'. CpuCache_insert key info value c = Inr (0, c') \<and> cpu_wf c'
    \<and> cpu_slab_num c' = cpu_slab_num c
    \<and> (\<forall>k item'. map_of (cpu_cached_item c') k = Some item' \<longrightarrow>
          (\<exists>item. map_of (cpu_cached_item c) k = Some item \<and> item_slabs item' = item_slabs item
             \<and> item_length item' = item_length item \<and> cpu_value c' item' = cpu_value c item)
          \<or> (k = key \<and> item_length item' = info_length info
             \<and> length (item_slabs item') = length (cpu_slabs_of key c) + slab_count (info_length_type info)
             \<and> load_slabs slab_read (cpu_slabs c') (item_slabs item')
                 = load_slabs slab_read (cpu_slabs c) (cpu_slabs_of key c)
                   @ take (slab_count (info_length_type info) * 1024) value))"
proof (cases "slab_count (info_length_type info) \<le> length (cpu_free_slabs c)")
  case False
  then show ?thesis using insert_full [OF wf] wf by auto
next
  case n: True
  let ?n = "slab_count (info_length_type info)"
  let ?new = "\<lparr>item_length = info_length info, item_length_type = info_length_type info,
               item_slabs = cpu_slabs_of key c @ take ?n (cpu_free_slabs c)\<rparr>"
  obtain c' where ins: "CpuCache_insert key info value c = Inr (0, c')" and eff: "cpu_inserted key info value c c'"
    using insert_effect [OF wf n v] by blast
  have items: "map_of (cpu_cached_item c') = (map_of (cpu_cached_item c))(key \<mapsto> ?new)"
    using eff by (simp add: cpu_inserted_def Let_def)
  have other: "cpu_value c' item = cpu_value c item" if "map_of (cpu_cached_item c) k = Some item" for k item
    using inserted_other [OF wf eff v that] by (simp add: cpu_value_def)
  have old: "load_slabs slab_read (cpu_slabs c') (cpu_slabs_of key c)
      = load_slabs slab_read (cpu_slabs c) (cpu_slabs_of key c)"
  proof (cases "map_of (cpu_cached_item c) key")
    case None
    then show ?thesis by (simp add: cpu_slabs_of_def cpu_item_of_def load_slabs_def)
  next
    case (Some item)
    then show ?thesis using inserted_other [OF wf eff v Some] by (simp add: slabs_of_item)
  qed
  have "load_slabs slab_read (cpu_slabs c') (item_slabs ?new)
      = load_slabs slab_read (cpu_slabs c) (cpu_slabs_of key c) @ take (?n * 1024) value"
    using old inserted_self [OF wf eff n v] by (simp add: load_slabs_def)
  moreover have "length (item_slabs ?new) = length (cpu_slabs_of key c) + ?n" using n by simp
  ultimately have "(\<exists>item. map_of (cpu_cached_item c) k = Some item \<and> item_slabs item' = item_slabs item
             \<and> item_length item' = item_length item \<and> cpu_value c' item' = cpu_value c item)
          \<or> (k = key \<and> item_length item' = info_length info
             \<and> length (item_slabs item') = length (cpu_slabs_of key c) + ?n
             \<and> load_slabs slab_read (cpu_slabs c') (item_slabs item')
                 = load_slabs slab_read (cpu_slabs c) (cpu_slabs_of key c) @ take (?n * 1024) value)"
    if "map_of (cpu_cached_item c') k = Some item'" for k item'
    using that other unfolding items by (cases "k = key") auto
  moreover have "cpu_slab_num c' = cpu_slab_num c" using eff by (simp add: cpu_inserted_def Let_def)
  ultimately show ?thesis
    using ins inserted_wf [OF wf eff n v len] by blast
qed

text \<open>
  Inserting a key that is cached already keeps its old slabs in the item: they are never
  freed, and every further insert of the key takes as many slabs again.
\<close>

lemma insert_cached_key:
  assumes wf: "cpu_wf c" and m: "map_of (cpu_cached_item c) key = Some item"
    and n: "slab_count (info_length_type info) \<le> length (cpu_free_slabs c)"
    and v: "slab_count (info_length_type info) * 1024 \<le> length value"
  shows "\<exists>c' item'. CpuCache_insert key info value c = Inr (0, c')
    \<and> map_of (cpu_cached_item c') key = Some item'
    \<and> length (item_slabs item') = length (item_slabs item) + slab_count (info_length_type info)
    \<and> cpu_free_slab_num c' = cpu_free_slab_num c - int (slab_count (info_length_type info))"
  using insert_effect [OF wf n v, of key] m n by (auto simp: cpu_inserted_def Let_def slabs_of_item)

end
