(* ===== verification/Mog_Core.thy ===== *)
theory Mog_Core
  imports Write_Buffer Cpu_Cache
begin

section \<open>mog: the server object\<close>

text \<open>
  \<open>mog_server/src/mog.{h,cpp}\<close>. The class has the parameters and drives the four
  singletons; \<open>mog_state\<close> collects the object, the singletons and the files. Keys are the
  decimal form of the hash of the path. \<open>0.95*1024*1024*HDD_page_num\<close> is compared over
  the integers (times 20). Log lines have no effect and are left out; \<open>LOG(FATAL)\<close> ends
  the process.
\<close>

subsection \<open>State\<close>

record mog =
  mog_ready :: bool
  mog_total_size :: int
  mog_config_file :: string
  mog_db_name :: string
  mog_page_size :: int
  mog_cpu_page_num :: int
  mog_HDD_page_num :: int
  mog_SSD_page_num :: int
  mog_page_per_block :: int
  mog_buffer_page_num :: int
  mog_ssd_path :: string
  mog_hdd_path :: string

record 'db mog_state =
  st_mog :: mog
  st_wb :: write_buffer
  st_cpu :: cpu_cache
  st_ci :: "'db centra_index"
  st_ssd :: ssd_cache
  st_fs :: fs


subsection \<open>Parameters\<close>

definition yaml_int :: "'db env \<Rightarrow> (string \<Rightarrow> string option) \<Rightarrow> string \<Rightarrow> int \<Rightarrow> int outcome" where
  "yaml_int E yaml_config name default_value =
     (case yaml_config name of
        None \<Rightarrow> Inr default_value
      | Some s \<Rightarrow>
          (case yaml_as_int E s of
             None \<Rightarrow> Inl (Fatal ''uncaught YAML::BadConversion'')
           | Some n \<Rightarrow> Inr n))"

definition mog_initial_para :: "'db env \<Rightarrow> string \<Rightarrow> fs \<Rightarrow> mog \<Rightarrow> (int \<times> mog) outcome" where
  "mog_initial_para E config_file f m =
     check (fs_exists E config_file f) (Fatal ''The configure file does not exist'')
     (case yaml_load E config_file f of
        None \<Rightarrow> Inl (Fatal ''uncaught YAML::BadFile'')
      | Some yaml_config \<Rightarrow>
          and_then (yaml_int E yaml_config ''RAM_Cache_Size'' 1) (\<lambda>ram.
          and_then (yaml_int E yaml_config ''SSD_Cache_Size'' 1) (\<lambda>ssd.
          and_then (yaml_int E yaml_config ''HDD_Cache_Size'' 1) (\<lambda>hdd.
          and_then (yaml_int E yaml_config ''Block_Size'' 64) (\<lambda>block.
          and_then (yaml_int E yaml_config ''Buffer_Size'' 1) (\<lambda>buffer.
            Inr (0, m\<lparr>mog_ready := False, mog_config_file := config_file, mog_db_name := ''NULL'',
                     mog_page_size := 1024 * 1024, mog_cpu_page_num := ram * 1024,
                     mog_SSD_page_num := ssd * 1024, mog_HDD_page_num := hdd * 1024,
                     mog_page_per_block := block, mog_buffer_page_num := buffer * 1024,
                     mog_ssd_path := (case yaml_config ''ssd_path'' of None \<Rightarrow> ''./'' | Some p \<Rightarrow> p),
                     mog_hdd_path := (case yaml_config ''hdd_path'' of None \<Rightarrow> ''./'' | Some p \<Rightarrow> p)\<rparr>)))))))"

definition mog_setup :: "'db env \<Rightarrow> string \<Rightarrow> fs \<Rightarrow> mog \<Rightarrow> (int \<times> mog) outcome" where
  "mog_setup E config_file f m = and_then (mog_initial_para E config_file f m) (\<lambda>(_, m'). Inr (0, m'))"

definition mog_new :: "'db env \<Rightarrow> string \<Rightarrow> fs \<Rightarrow> mog outcome" where
  "mog_new E config_file f =
     and_then (mog_setup E config_file f
        \<lparr>mog_ready = False, mog_total_size = 0, mog_config_file = '''', mog_db_name = '''',
         mog_page_size = 0, mog_cpu_page_num = 0, mog_HDD_page_num = 0, mog_SSD_page_num = 0,
         mog_page_per_block = 0, mog_buffer_page_num = 0, mog_ssd_path = '''', mog_hdd_path = ''''\<rparr>)
       (\<lambda>(_, m). Inr m)"


subsection \<open>Opening and closing\<close>

definition mog_allocate_memory :: "'db mog_state \<Rightarrow> (int \<times> 'db mog_state) outcome" where
  "mog_allocate_memory st =
     (let m = st_mog st
      in and_then (CpuCache_initial (mog_page_size m) (mog_cpu_page_num m) (st_cpu st)) (\<lambda>(r1, cpu1).
         and_then (CpuCache_allocate_memory cpu1) (\<lambda>(r2, cpu2).
         let (r3, wb1) = WriteBuffer_initial (mog_page_size m) (mog_page_per_block m)
                           (mog_buffer_page_num m) (st_wb st);
             wb2 = wb1\<lparr>wb_ssd_path := mog_ssd_path m, wb_hdd_path := mog_hdd_path m\<rparr>
         in and_then (WriteBuffer_allocate_memory wb2) (\<lambda>r4.
            check (mog_page_per_block m \<noteq> 0) (Undefined ''division by zero'')
            (let ssd1 = (st_ssd st)\<lparr>ssd_hdd_path := mog_hdd_path m, ssd_ssd_path := mog_ssd_path m,
                                   ssd_max_block_num := mog_SSD_page_num m sdiv mog_page_per_block m\<rparr>
             in Inr (0, st\<lparr>st_cpu := cpu2, st_wb := wb2, st_ssd := SSDCache_initial ssd1\<rparr>))))))"

definition mog_index_path :: "mog \<Rightarrow> string" where
  "mog_index_path m = mog_ssd_path m @ ''/'' @ mog_db_name m @ ''.mog''"

definition mog_create :: "'db env \<Rightarrow> 'db mog_state \<Rightarrow> (int \<times> 'db mog_state) outcome" where
  "mog_create E st =
     (let m = st_mog st;
          f1 = fs_remove_all E (mog_ssd_path m) (st_fs st);
          f2 = fs_create_directories E (mog_index_path m) f1;
          f3 = fs_remove_all E (mog_hdd_path m) f2;
          f4 = fs_create_directories E (mog_hdd_path m) f3
      in and_then (CentraIndex_setup E (mog_index_path m) (st_ci st) f4) (\<lambda>(r1, ci1, f5).
         and_then (CentraIndex_put E ''FILE_NUM'' (le_bytes 8 0) ci1) (\<lambda>(r2, ci2).
         and_then (mog_allocate_memory (st\<lparr>st_ci := ci2, st_fs := f5\<rparr>)) (\<lambda>(r3, st').
           Inr (0, st')))))"

text \<open>\<open>load\<close> formats its shell command into \<open>char cmd[256]\<close>.\<close>

definition mog_load_command :: "mog \<Rightarrow> string" where
  "mog_load_command m =
     ''cp -r '' @ mog_hdd_path m @ ''/'' @ mog_db_name m @ ''.mog'' @ '' '' @ mog_ssd_path m @ ''/''"

definition mog_load :: "'db env \<Rightarrow> 'db mog_state \<Rightarrow> (int \<times> 'db mog_state) outcome" where
  "mog_load E st =
     (let m = st_mog st; f1 = fs_remove_all E (mog_ssd_path m) (st_fs st)
      in case fs_create_directory E (mog_ssd_path m) f1 of
           None \<Rightarrow> Inl (Fatal ''uncaught filesystem_error of create_directory'')
         | Some f2 \<Rightarrow>
             check (length (mog_load_command m) < 256) (Undefined ''sprintf past the end of cmd'')
             (and_then (CentraIndex_load E (mog_index_path m) (st_ci st)
                          (system_call E (mog_load_command m) f2)) (\<lambda>(r1, ci1, f3).
              and_then (mog_allocate_memory (st\<lparr>st_ci := ci1, st_fs := f3\<rparr>)) (\<lambda>(r2, st').
                Inr (0, st')))))"

definition mog_open :: "'db env \<Rightarrow> string \<Rightarrow> 'db mog_state \<Rightarrow> (int \<times> 'db mog_state) outcome" where
  "mog_open E db_name st =
     (let m = (st_mog st)\<lparr>mog_db_name := db_name\<rparr>;
          f1 = fs_remove_all E (mog_ssd_path m) (st_fs st);
          f2 = fs_remove_all E (mog_hdd_path m) f1
      in and_then (mog_create E (st\<lparr>st_mog := m, st_fs := f2\<rparr>)) (\<lambda>(r, st').
           Inr (0, st'\<lparr>st_mog := (st_mog st')\<lparr>mog_ready := True\<rparr>\<rparr>)))"

definition mog_exist :: "'db env \<Rightarrow> string \<Rightarrow> 'db mog_state \<Rightarrow> bool" where
  "mog_exist E db_name st =
     fs_exists E (mog_hdd_path (st_mog st) @ ''/'' @ db_name @ ''.mog'') (st_fs st)"

definition mog_sync :: "'db env \<Rightarrow> 'db mog_state \<Rightarrow> (int \<times> 'db mog_state) outcome option" where
  "mog_sync E st =
     map_option (\<lambda>r. and_then r (\<lambda>(r1, wb', ci', f').
         and_then (SSDCache_sync (st_ssd st)) (\<lambda>r2.
           Inr (0, st\<lparr>st_wb := wb', st_ci := ci', st_fs := f'\<rparr>))))
       (WriteBuffer_sync E (st_wb st) (st_ci st) (st_fs st))"

definition mog_close :: "'db env \<Rightarrow> 'db mog_state \<Rightarrow> (int \<times> 'db mog_state) outcome" where
  "mog_close E st =
     and_then (WriteBuffer_close E (st_wb st) (st_ci st) (st_fs st)) (\<lambda>(r1, wb', ci1, f1).
     and_then (CpuCache_close (st_cpu st)) (\<lambda>(r2, cpu').
     and_then (CentraIndex_close ci1) (\<lambda>(r3, ci').
     and_then (SSDCache_close (st_ssd st)) (\<lambda>(r4, ssd').
       Inr (0, st\<lparr>st_mog := (st_mog st)\<lparr>mog_ready := False\<rparr>, st_wb := wb', st_cpu := cpu', st_ci := ci',
                 st_ssd := ssd', st_fs := fs_remove_all E (mog_ssd_path (st_mog st)) f1\<rparr>)))))"


subsection \<open>Values and files\<close>

definition mog_write ::
  "'db env \<Rightarrow> string \<Rightarrow> byte list \<Rightarrow> int \<Rightarrow> 'db mog_state \<Rightarrow> (int \<times> 'db mog_state) outcome" where
  "mog_write E key value len st =
     and_then (WriteBuffer_write E key value len (st_ssd st) (st_wb st)) (\<lambda>(r, wb').
       Inr (if r = 0 then 0 else -1, st\<lparr>st_wb := wb'\<rparr>))"

definition mog_read ::
  "'db env \<Rightarrow> string \<Rightarrow> byte list \<Rightarrow> 'db mog_state \<Rightarrow> (int \<times> byte list \<times> 'db mog_state) outcome" where
  "mog_read E key value st =
     and_then (WriteBuffer_read E key value (st_wb st)) (\<lambda>(len, value1).
       if len > 0 then Inr (len, value1, st)
       else and_then (CpuCache_read E key value1 (st_cpu st) (st_ci st) (st_ssd st) (st_fs st))
              (\<lambda>(length2, value2, cpu', ssd').
                Inr (length2, value2, st\<lparr>st_cpu := cpu', st_ssd := ssd'\<rparr>)))"

definition mog_insert_file_with_copy ::
  "'db env \<Rightarrow> string \<Rightarrow> string \<Rightarrow> byte list \<Rightarrow> 'db mog_state
     \<Rightarrow> (int \<times> byte list \<times> 'db mog_state) outcome" where
  "mog_insert_file_with_copy E key file_path value st =
     (case ifstream_open file_path (st_fs st) of
        None \<Rightarrow> Inr (-1, value, st)
      | Some (len, buffer) \<Rightarrow>
          if len > 64 * 1024 * 1024 then Inr (0, value, st)
          else and_then
            (if len \<le> 1024 * 1024
                \<and> 20 * mog_total_size (st_mog st) \<le> 19 * (1024 * 1024 * mog_HDD_page_num (st_mog st))
             then and_then (mog_write E key buffer len st) (\<lambda>(res, st').
                    Inr (st'\<lparr>st_mog := (st_mog st')\<lparr>mog_total_size := mog_total_size (st_mog st') + len\<rparr>\<rparr>))
             else Inr st)
            (\<lambda>st'. and_then (buf_write 0 buffer value) (\<lambda>value'. Inr (len, value', st'))))"

definition mog_insert_file ::
  "'db env \<Rightarrow> string \<Rightarrow> string \<Rightarrow> 'db mog_state \<Rightarrow> (int \<times> 'db mog_state) outcome" where
  "mog_insert_file E key file_path st =
     (case ifstream_open file_path (st_fs st) of
        None \<Rightarrow> Inr (-1, st)
      | Some (len, buffer) \<Rightarrow>
          if len > 1024 * 1024 then Inr (-1, st)
          else and_then (mog_write E key buffer len st) (\<lambda>(res, st').
                 Inr (if res = 0 then len else -1, st')))"

definition path_key :: "'db env \<Rightarrow> string \<Rightarrow> string" where
  "path_key E path = nat_to_string (unat (hash E path))"

definition mog_read_file ::
  "'db env \<Rightarrow> string \<Rightarrow> byte list \<Rightarrow> 'db mog_state \<Rightarrow> (int \<times> byte list \<times> 'db mog_state) outcome" where
  "mog_read_file E path value st =
     (let key = path_key E path
      in if \<not> mog_ready (st_mog st) then
           (case ifstream_open path (st_fs st) of
              None \<Rightarrow> Inr (0, value, st)
            | Some (len, buffer) \<Rightarrow>
                if len > 64 * 1024 * 1024 then Inr (0, value, st)
                else and_then (buf_write 0 buffer value) (\<lambda>value'. Inr (len, value', st)))
         else and_then (mog_read E key value st) (\<lambda>(mog_read_length, value1, st1).
           if mog_read_length > 0 then Inr (mog_read_length, value1, st1)
           else and_then
             (if mog_read_length = 0 then mog_insert_file_with_copy E key path value1 st1
              else Inr (0, value1, st1))
             (\<lambda>(mog_insert_result, value2, st2).
               if mog_insert_result > 0 then Inr (mog_insert_result, value2, st2)
               else Inr (0, value2, st2))))"

end
