(* ===== verification/Write_Buffer_Inv.thy ===== *)
theory Write_Buffer_Inv
  imports Write_Buffer
begin

section \<open>WriteBuffer: invariant and block packing\<close>

text \<open>
  The invariant \<open>wb_inv\<close> has three parts: every entry owns exactly one live allocation
  of the size of its slab class (\<open>wb_store_ok\<close>); every entry is either queued or in
  exactly one block whose flush is pending (\<open>wb_queue_ok\<close>); the two counters are the sums
  they stand for and no block exceeds the block size (\<open>wb_size_ok\<close>). Every operation
  keeps it, and under it the packing loop of \<open>write\<close> never runs off its queue.
\<close>

subsection \<open>Definitions\<close>

definition entry_ok :: "'db env \<Rightarrow> (nat \<times> byte list) list \<Rightarrow> size_t \<Rightarrow> kv_info \<Rightarrow> bool" where
  "entry_ok E heap h i \<longleftrightarrow>
     hash E (kv_key i) = h \<and> 0 \<le> kv_value_length i \<and> kv_value_length i \<le> MB
     \<and> kv_value_length_type i = length_slab_type (kv_value_length i)
     \<and> (\<exists>v. map_of heap (kv_value i) = Some v
            \<and> int (length v) = slab_size (kv_value_length_type i))"

definition kv_slab :: "kv_info \<Rightarrow> int" where
  "kv_slab i = slab_size (kv_value_length_type i)"

definition slab_of :: "(size_t \<times> kv_info) list \<Rightarrow> size_t \<Rightarrow> int" where
  "slab_of store h = (case map_of store h of None \<Rightarrow> 0 | Some i \<Rightarrow> kv_slab i)"

definition slab_sum :: "(size_t \<times> kv_info) list \<Rightarrow> size_t list \<Rightarrow> int" where
  "slab_sum store hs = sum_list (map (slab_of store) hs)"

definition block_keys :: "'db env \<Rightarrow> write_buffer \<Rightarrow> int \<Rightarrow> size_t list" where
  "block_keys E wb b = map (\<lambda>i. hash E (kv_key i)) (wb_block wb b)"

definition wb_keys :: "'db env \<Rightarrow> write_buffer \<Rightarrow> size_t list" where
  "wb_keys E wb = wb_kv_list wb @ concat (map (block_keys E wb) (wb_pool wb))"

definition wb_store_ok :: "'db env \<Rightarrow> write_buffer \<Rightarrow> bool" where
  "wb_store_ok E wb \<longleftrightarrow>
     umap_wf (wb_kv_store wb) \<and> umap_wf (wb_heap wb)
     \<and> (\<forall>h i. map_of (wb_kv_store wb) h = Some i \<longrightarrow> entry_ok E (wb_heap wb) h i)
     \<and> inj_on (\<lambda>h. kv_value (the (map_of (wb_kv_store wb) h))) (dom (map_of (wb_kv_store wb)))
     \<and> dom (map_of (wb_heap wb)) = kv_value ` ran (map_of (wb_kv_store wb))
     \<and> (\<forall>a \<in> dom (map_of (wb_heap wb)). a < wb_brk wb)"

definition wb_queue_ok :: "'db env \<Rightarrow> write_buffer \<Rightarrow> bool" where
  "wb_queue_ok E wb \<longleftrightarrow>
     distinct (wb_keys E wb)
     \<and> set (wb_keys E wb) = dom (map_of (wb_kv_store wb))
     \<and> (\<forall>b \<in> set (wb_pool wb). \<forall>i \<in> set (wb_block wb b).
           map_of (wb_kv_store wb) (hash E (kv_key i)) = Some i)
     \<and> distinct (wb_pool wb)
     \<and> umap_wf (wb_blocks wb)
     \<and> dom (map_of (wb_blocks wb)) \<subseteq> set (wb_pool wb)
     \<and> (\<forall>b \<in> set (wb_pool wb). 0 < b \<and> b \<le> wb_latest_block_id wb)
     \<and> 0 \<le> wb_latest_block_id wb \<and> wb_latest_block_id wb < 2 ^ 63"

definition wb_size_ok :: "'db env \<Rightarrow> write_buffer \<Rightarrow> bool" where
  "wb_size_ok E wb \<longleftrightarrow>
     wb_total_size_without_block wb = slab_sum (wb_kv_store wb) (wb_kv_list wb)
     \<and> wb_total_size wb = slab_sum (wb_kv_store wb) (wb_keys E wb)
     \<and> (\<forall>b \<in> set (wb_pool wb). sum_list (map kv_slab (wb_block wb b)) \<le> block_limit wb)
     \<and> 1 \<le> wb_page_per_block wb \<and> wb_page_per_block wb < 2 ^ 31"

definition wb_inv :: "'db env \<Rightarrow> write_buffer \<Rightarrow> bool" where
  "wb_inv E wb \<longleftrightarrow> wb_store_ok E wb \<and> wb_queue_ok E wb \<and> wb_size_ok E wb
     \<and> wb_total_size_without_block wb \<le> block_limit wb"

text \<open>The first three parts, which also hold inside \<open>write\<close> before a block is cut.\<close>

definition wb_core :: "'db env \<Rightarrow> write_buffer \<Rightarrow> bool" where
  "wb_core E wb \<longleftrightarrow> wb_store_ok E wb \<and> wb_queue_ok E wb \<and> wb_size_ok E wb"

lemma wb_inv_core: "wb_inv E wb \<longleftrightarrow> wb_core E wb \<and> wb_total_size_without_block wb \<le> block_limit wb"
  by (auto simp: wb_inv_def wb_core_def)


subsection \<open>Sums of slabs\<close>

lemma slab_sum_simps [simp]:
  "slab_sum store [] = 0"
  "slab_sum store (h # hs) = slab_of store h + slab_sum store hs"
  "slab_sum store (hs @ hs') = slab_sum store hs + slab_sum store hs'"
  by (simp_all add: slab_sum_def)

lemma slab_sum_cong:
  "(\<And>h. h \<in> set hs \<Longrightarrow> map_of store h = map_of store' h) \<Longrightarrow> slab_sum store hs = slab_sum store' hs"
  by (induction hs) (auto simp: slab_of_def)

lemma slab_sum_entries:
  "(\<And>i. i \<in> set is \<Longrightarrow> map_of store (f i) = Some i) \<Longrightarrow>
     slab_sum store (map f is) = sum_list (map kv_slab is)"
  by (induction "is") (auto simp: slab_of_def)

lemma entry_slab_bounds: "entry_ok E heap h i \<Longrightarrow> 1024 \<le> kv_slab i \<and> kv_slab i \<le> MB"
  using slab_size_bounds [of "kv_value_length_type i"] length_slab_type_le_10 [of "kv_value_length i"]
  by (simp add: entry_ok_def kv_slab_def)

lemma entry_length_le_slab: "entry_ok E heap h i \<Longrightarrow> kv_value_length i \<le> kv_slab i"
  using length_le_slab_size [of "kv_value_length i"] by (simp add: entry_ok_def kv_slab_def)

lemma slab_of_bounds:
  "wb_store_ok E wb \<Longrightarrow> h \<in> dom (map_of (wb_kv_store wb)) \<Longrightarrow>
     1024 \<le> slab_of (wb_kv_store wb) h \<and> slab_of (wb_kv_store wb) h \<le> MB"
  using entry_slab_bounds by (fastforce simp: wb_store_ok_def slab_of_def)

lemma slab_sum_nonneg:
  "wb_store_ok E wb \<Longrightarrow> set hs \<subseteq> dom (map_of (wb_kv_store wb)) \<Longrightarrow> 0 \<le> slab_sum (wb_kv_store wb) hs"
  by (induction hs) (auto dest: slab_of_bounds)


subsection \<open>Packing\<close>

text \<open>
  What the loop returns, for both of its forms: a prefix of the queue that fits, cut so
  that the next entry would not fit.
\<close>

lemma pack_prefix:
  "WriteBuffer_pack stop limit store sz ks = Inr (is, rest) \<Longrightarrow>
     \<exists>n \<le> length ks. rest = drop n ks \<and> is = map (\<lambda>k. the (map_of store k)) (take n ks)
       \<and> set (take n ks) \<subseteq> dom (map_of store)
       \<and> (sz \<le> limit \<longrightarrow> sz + slab_sum store (take n ks) \<le> limit)
       \<and> (rest \<noteq> [] \<longrightarrow> limit < sz + slab_sum store (take (Suc n) ks))"
proof (induction stop limit store sz ks arbitrary: "is" rest rule: WriteBuffer_pack.induct)
  case (1 stop limit store sz)
  then show ?case by (auto split: if_splits)
next
  case (2 stop limit store sz k ks)
  from "2.prems" obtain i where i: "map_of store k = Some i" by (auto split: option.splits)
  show ?case
  proof (cases "sz + slab_size (kv_value_length_type i) > limit")
    case True
    with "2.prems" i show ?thesis by (intro exI [of _ 0]) (auto simp: slab_of_def kv_slab_def)
  next
    case False
    with "2.prems" i obtain js where js:
      "WriteBuffer_pack stop limit store (sz + slab_size (kv_value_length_type i)) ks = Inr (js, rest)"
      "is = i # js"
      by (auto simp: outcome_simps)
    from "2.IH" [OF i _ js(1)] False obtain n where "n \<le> length ks" "rest = drop n ks"
      "js = map (\<lambda>k. the (map_of store k)) (take n ks)" "set (take n ks) \<subseteq> dom (map_of store)"
      "sz + slab_size (kv_value_length_type i) + slab_sum store (take n ks) \<le> limit"
      "rest \<noteq> [] \<longrightarrow> limit < sz + slab_size (kv_value_length_type i) + slab_sum store (take (Suc n) ks)"
      by auto
    with i js(2) show ?thesis
      by (intro exI [of _ "Suc n"]) (auto simp: slab_of_def kv_slab_def)
  qed
qed

text \<open>The loop of \<open>write\<close>, which does not test for the end of the queue, stops in time.\<close>

lemma pack_total:
  "set ks \<subseteq> dom (map_of store) \<Longrightarrow> stop \<or> limit < sz + slab_sum store ks \<Longrightarrow> sz \<le> limit \<Longrightarrow>
     \<exists>is rest. WriteBuffer_pack stop limit store sz ks = Inr (is, rest)"
proof (induction stop limit store sz ks rule: WriteBuffer_pack.induct)
  case (2 stop limit store sz k ks)
  then obtain i where i: "map_of store k = Some i" by auto
  show ?case
  proof (cases "sz + slab_size (kv_value_length_type i) > limit")
    case False
    with 2 i have "\<exists>is rest. WriteBuffer_pack stop limit store
        (sz + slab_size (kv_value_length_type i)) ks = Inr (is, rest)"
      by (intro "2.IH" [OF i]) (auto simp: slab_of_def kv_slab_def add.assoc)
    with False i show ?thesis by auto
  qed (use i in auto)
qed auto


subsection \<open>Adding an entry\<close>

lemma add_entry_lookup:
  "map_of (wb_kv_store (WriteBuffer_add_entry E key bytes wb)) h =
     (if h = hash E key
      then Some \<lparr>kv_key = key, kv_value = wb_brk wb, kv_value_length = int (length bytes),
                 kv_value_length_type = length_slab_type (int (length bytes))\<rparr>
      else map_of (wb_kv_store wb) h)"
  by (simp add: WriteBuffer_add_entry_def Let_def)

lemma add_entry_heap:
  "map_of (wb_heap (WriteBuffer_add_entry E key bytes wb)) a =
     (if a = wb_brk wb
      then Some (bytes @ replicate (nat (slab_size (length_slab_type (int (length bytes)))) - length bytes) 0)
      else map_of (wb_heap wb) a)"
  by (simp add: WriteBuffer_add_entry_def Let_def)

lemma add_entry_block [simp]: "wb_block (WriteBuffer_add_entry E key bytes wb) b = wb_block wb b"
  by (simp add: wb_block_def WriteBuffer_add_entry_def Let_def)

lemma add_entry_block_keys [simp]:
  "block_keys E' (WriteBuffer_add_entry E key bytes wb) = block_keys E' wb"
  by (simp add: fun_eq_iff block_keys_def)

lemma add_entry_fields [simp]:
  "wb_pool (WriteBuffer_add_entry E key bytes wb) = wb_pool wb"
  "wb_blocks (WriteBuffer_add_entry E key bytes wb) = wb_blocks wb"
  "wb_latest_block_id (WriteBuffer_add_entry E key bytes wb) = wb_latest_block_id wb"
  "wb_page_per_block (WriteBuffer_add_entry E key bytes wb) = wb_page_per_block wb"
  "wb_kv_list (WriteBuffer_add_entry E key bytes wb) = wb_kv_list wb @ [hash E key]"
  "wb_brk (WriteBuffer_add_entry E key bytes wb) = Suc (wb_brk wb)"
  by (simp_all add: WriteBuffer_add_entry_def Let_def)

lemma add_entry_keys:
  "wb_keys E (WriteBuffer_add_entry E key bytes wb) =
     wb_kv_list wb @ hash E key # concat (map (block_keys E wb) (wb_pool wb))"
  by (simp add: wb_keys_def)

lemma entry_ok_heap_grow:
  "entry_ok E heap h i \<Longrightarrow> (\<And>a. a \<in> dom (map_of heap) \<Longrightarrow> map_of heap' a = map_of heap a) \<Longrightarrow>
     entry_ok E heap' h i"
  by (force simp: entry_ok_def)

lemma add_entry_store_ok:
  assumes ok: "wb_store_ok E wb" and new: "hash E key \<notin> dom (map_of (wb_kv_store wb))"
    and len: "int (length bytes) \<le> MB"
  shows "wb_store_ok E (WriteBuffer_add_entry E key bytes wb)"
proof -
  let ?wb = "WriteBuffer_add_entry E key bytes wb" and ?t = "length_slab_type (int (length bytes))"
  have fresh: "wb_brk wb \<notin> dom (map_of (wb_heap wb))"
    using ok by (auto simp: wb_store_ok_def)
  have wf: "umap_wf (wb_kv_store ?wb)" "umap_wf (wb_heap ?wb)"
    using ok by (simp_all add: wb_store_ok_def WriteBuffer_add_entry_def Let_def)
  have "int (length bytes) \<le> slab_size ?t" using len by (rule length_le_slab_size)
  then have "int (length bytes + (nat (slab_size ?t) - length bytes)) = slab_size ?t" by linarith
  then have "entry_ok E (wb_heap ?wb) (hash E key) (the (map_of (wb_kv_store ?wb) (hash E key)))"
    using len unfolding entry_ok_def add_entry_lookup add_entry_heap by simp
  moreover have "entry_ok E (wb_heap ?wb) h i" if "map_of (wb_kv_store wb) h = Some i" for h i
  proof (rule entry_ok_heap_grow)
    show "entry_ok E (wb_heap wb) h i" using that ok by (simp add: wb_store_ok_def)
    show "map_of (wb_heap ?wb) a = map_of (wb_heap wb) a" if "a \<in> dom (map_of (wb_heap wb))" for a
      using that fresh by (metis add_entry_heap)
  qed
  ultimately have entries: "map_of (wb_kv_store ?wb) h = Some i \<longrightarrow> entry_ok E (wb_heap ?wb) h i" for h i
    by (auto simp: add_entry_lookup split: if_splits)
  have addr: "map_of (wb_kv_store wb) h = Some i \<Longrightarrow> kv_value i \<noteq> wb_brk wb" for h i
    using ok fresh unfolding wb_store_ok_def by (metis domI entry_ok_def)
  have dom: "dom (map_of (wb_kv_store ?wb)) = insert (hash E key) (dom (map_of (wb_kv_store wb)))"
    by (auto simp: add_entry_lookup dom_def)
  have inj: "inj_on (\<lambda>h. kv_value (the (map_of (wb_kv_store ?wb) h))) (dom (map_of (wb_kv_store ?wb)))"
    unfolding dom using ok new addr
    by (auto simp: wb_store_ok_def inj_on_def add_entry_lookup dom_def) metis+
  have ran: "ran (map_of (wb_kv_store ?wb)) =
      insert (the (map_of (wb_kv_store ?wb) (hash E key))) (ran (map_of (wb_kv_store wb)))"
    using new by (simp add: WriteBuffer_add_entry_def Let_def ran_map_upd domIff)
  have heap_dom: "dom (map_of (wb_heap ?wb)) = insert (wb_brk wb) (dom (map_of (wb_heap wb)))"
    by (auto simp: add_entry_heap dom_def)
  then have owners: "dom (map_of (wb_heap ?wb)) = kv_value ` ran (map_of (wb_kv_store ?wb))"
    using ok ran by (simp add: wb_store_ok_def add_entry_lookup)
  have "\<forall>a \<in> dom (map_of (wb_heap wb)). a < wb_brk wb" using ok by (simp add: wb_store_ok_def)
  then have brk: "\<forall>a \<in> dom (map_of (wb_heap ?wb)). a < wb_brk ?wb"
    unfolding heap_dom by (auto simp: less_Suc_eq)
  show ?thesis
    unfolding wb_store_ok_def using wf entries inj owners brk by blast
qed

lemma add_entry_queue_ok:
  assumes ok: "wb_queue_ok E wb" and new: "hash E key \<notin> dom (map_of (wb_kv_store wb))"
  shows "wb_queue_ok E (WriteBuffer_add_entry E key bytes wb)"
proof -
  let ?wb = "WriteBuffer_add_entry E key bytes wb"
  have keys: "set (wb_keys E ?wb) = insert (hash E key) (set (wb_keys E wb))"
    "distinct (wb_keys E ?wb)"
    using ok new unfolding wb_queue_ok_def add_entry_keys by (auto simp: wb_keys_def)
  have dom: "dom (map_of (wb_kv_store ?wb)) = insert (hash E key) (dom (map_of (wb_kv_store wb)))"
    by (auto simp: add_entry_lookup dom_def)
  have "map_of (wb_kv_store ?wb) (hash E (kv_key i)) = Some i"
    if "b \<in> set (wb_pool wb)" "i \<in> set (wb_block wb b)" for b i
  proof -
    have "map_of (wb_kv_store wb) (hash E (kv_key i)) = Some i"
      using ok that by (simp add: wb_queue_ok_def)
    with new show ?thesis by (auto simp: add_entry_lookup)
  qed
  with keys dom ok show ?thesis by (simp add: wb_queue_ok_def)
qed

lemma add_entry_slab_sum:
  assumes "hash E key \<notin> set hs"
  shows "slab_sum (wb_kv_store (WriteBuffer_add_entry E key bytes wb)) hs = slab_sum (wb_kv_store wb) hs"
  using assms by (intro slab_sum_cong) (auto simp: add_entry_lookup)

lemma add_entry_slab_of:
  "slab_of (wb_kv_store (WriteBuffer_add_entry E key bytes wb)) (hash E key)
     = slab_size (length_slab_type (int (length bytes)))"
  by (simp add: slab_of_def kv_slab_def add_entry_lookup)

lemma add_entry_totals:
  "wb_total_size (WriteBuffer_add_entry E key bytes wb)
     = wb_total_size wb + slab_size (length_slab_type (int (length bytes)))"
  "wb_total_size_without_block (WriteBuffer_add_entry E key bytes wb)
     = wb_total_size_without_block wb + slab_size (length_slab_type (int (length bytes)))"
  by (simp_all add: WriteBuffer_add_entry_def Let_def)

lemma add_entry_core:
  assumes core: "wb_core E wb" and new: "hash E key \<notin> dom (map_of (wb_kv_store wb))"
    and len: "int (length bytes) \<le> MB"
  shows "wb_core E (WriteBuffer_add_entry E key bytes wb)"
proof -
  let ?wb = "WriteBuffer_add_entry E key bytes wb"
  have new': "hash E key \<notin> set (wb_keys E wb)"
    using core new by (auto simp: wb_core_def wb_queue_ok_def)
  then have "hash E key \<notin> set (wb_kv_list wb)"
    "hash E key \<notin> set (concat (map (block_keys E wb) (wb_pool wb)))"
    by (simp_all add: wb_keys_def)
  then have sums: "slab_sum (wb_kv_store ?wb) (wb_kv_list ?wb) =
      slab_sum (wb_kv_store wb) (wb_kv_list wb) + slab_size (length_slab_type (int (length bytes)))"
    "slab_sum (wb_kv_store ?wb) (wb_keys E ?wb) =
      slab_sum (wb_kv_store wb) (wb_keys E wb) + slab_size (length_slab_type (int (length bytes)))"
    by (simp_all add: add_entry_slab_sum add_entry_slab_of add_entry_keys wb_keys_def del: set_concat)
  have "wb_size_ok E ?wb"
    using core sums by (simp add: wb_core_def wb_size_ok_def add_entry_totals)
  with core new len show ?thesis
    by (simp add: wb_core_def add_entry_store_ok add_entry_queue_ok)
qed


subsection \<open>Cutting a block\<close>

definition wb_cut :: "nat \<Rightarrow> write_buffer \<Rightarrow> write_buffer" where
  "wb_cut n wb =
     (let b = wb_latest_block_id wb + 1;
          is = map (\<lambda>k. the (map_of (wb_kv_store wb) k)) (take n (wb_kv_list wb))
      in wb\<lparr>wb_latest_block_id := b,
            wb_kv_list := drop n (wb_kv_list wb),
            wb_blocks := (if is = [] then wb_blocks wb
                          else AList.update b (wb_block wb b @ is) (wb_blocks wb)),
            wb_total_size_without_block := wb_total_size_without_block wb
              - sum_list (map (\<lambda>i. slab_size (kv_value_length_type i)) is),
            wb_pool := wb_pool wb @ [b]\<rparr>)"

lemma cut_block_Inr:
  assumes "WriteBuffer_cut_block stop wb = Inr wb'"
  obtains n where "n \<le> length (wb_kv_list wb)" "wb' = wb_cut n wb" "wb_latest_block_id wb + 1 < 2 ^ 63"
    "set (take n (wb_kv_list wb)) \<subseteq> dom (map_of (wb_kv_store wb))"
    "0 \<le> block_limit wb \<Longrightarrow> slab_sum (wb_kv_store wb) (take n (wb_kv_list wb)) \<le> block_limit wb"
    "n < length (wb_kv_list wb) \<Longrightarrow>
       block_limit wb < slab_sum (wb_kv_store wb) (take (Suc n) (wb_kv_list wb))"
proof -
  from assms obtain "is" rest where p:
    "WriteBuffer_pack stop (block_limit wb) (wb_kv_store wb) 0 (wb_kv_list wb) = Inr (is, rest)"
    "wb_latest_block_id wb + 1 < 2 ^ 63"
    by (auto simp: WriteBuffer_cut_block_def Let_def outcome_simps)
  from pack_prefix [OF p(1)] obtain n where n: "n \<le> length (wb_kv_list wb)"
    "rest = drop n (wb_kv_list wb)"
    "is = map (\<lambda>k. the (map_of (wb_kv_store wb) k)) (take n (wb_kv_list wb))"
    "set (take n (wb_kv_list wb)) \<subseteq> dom (map_of (wb_kv_store wb))"
    "0 \<le> block_limit wb \<longrightarrow> slab_sum (wb_kv_store wb) (take n (wb_kv_list wb)) \<le> block_limit wb"
    "rest \<noteq> [] \<longrightarrow> block_limit wb < slab_sum (wb_kv_store wb) (take (Suc n) (wb_kv_list wb))"
    by auto
  have "wb' = wb_cut n wb"
    using assms p n(2,3) by (auto simp: WriteBuffer_cut_block_def wb_cut_def Let_def check_def)
  with n p(2) that show ?thesis by auto
qed

lemma wb_cut_fields [simp]:
  "wb_kv_store (wb_cut n wb) = wb_kv_store wb" "wb_heap (wb_cut n wb) = wb_heap wb"
  "wb_brk (wb_cut n wb) = wb_brk wb" "wb_pool (wb_cut n wb) = wb_pool wb @ [wb_latest_block_id wb + 1]"
  "wb_kv_list (wb_cut n wb) = drop n (wb_kv_list wb)"
  "wb_latest_block_id (wb_cut n wb) = wb_latest_block_id wb + 1"
  "wb_page_per_block (wb_cut n wb) = wb_page_per_block wb"
  "wb_total_size (wb_cut n wb) = wb_total_size wb"
  by (simp_all add: wb_cut_def Let_def)

lemma cut_new_block_empty:
  "wb_queue_ok E wb \<Longrightarrow> wb_block wb (wb_latest_block_id wb + 1) = []"
  by (force simp: wb_queue_ok_def wb_block_def split: option.splits)

lemma cut_block_of:
  assumes "wb_queue_ok E wb"
  shows "wb_block (wb_cut n wb) b =
    (if b = wb_latest_block_id wb + 1
     then map (\<lambda>k. the (map_of (wb_kv_store wb) k)) (take n (wb_kv_list wb)) else wb_block wb b)"
  using cut_new_block_empty [OF assms]
  by (auto simp: wb_cut_def Let_def wb_block_def split: option.splits)

lemma cut_block_keys:
  assumes st: "wb_store_ok E wb" and qu: "wb_queue_ok E wb"
    and dom: "set (take n (wb_kv_list wb)) \<subseteq> dom (map_of (wb_kv_store wb))"
  shows "wb_keys E (wb_cut n wb) =
    drop n (wb_kv_list wb) @ concat (map (block_keys E wb) (wb_pool wb)) @ take n (wb_kv_list wb)"
proof -
  have key: "hash E (kv_key (the (map_of (wb_kv_store wb) k))) = k" if "k \<in> set (take n (wb_kv_list wb))" for k
    using that dom st by (fastforce simp: wb_store_ok_def entry_ok_def)
  have "block_keys E (wb_cut n wb) (wb_latest_block_id wb + 1) = take n (wb_kv_list wb)"
    using key by (simp add: block_keys_def cut_block_of [OF qu] o_def map_idI)
  moreover have "map (block_keys E (wb_cut n wb)) (wb_pool wb) = map (block_keys E wb) (wb_pool wb)"
    using qu by (auto simp: block_keys_def cut_block_of [OF qu] wb_queue_ok_def)
  ultimately show ?thesis by (simp add: wb_keys_def del: map_eq_conv)
qed

lemma wb_keys_split:
  "wb_keys E wb = take n (wb_kv_list wb) @ drop n (wb_kv_list wb) @ concat (map (block_keys E wb) (wb_pool wb))"
  by (simp add: wb_keys_def)

lemma slab_of_the:
  "k \<in> dom (map_of store) \<Longrightarrow> kv_slab (the (map_of store k)) = slab_of store k"
  by (auto simp: slab_of_def)

lemma sum_slab_of_the:
  "set ks \<subseteq> dom (map_of store) \<Longrightarrow>
     sum_list (map kv_slab (map (\<lambda>k. the (map_of store k)) ks)) = slab_sum store ks"
  by (induction ks) (auto simp: slab_of_def)

lemma wb_cut_core:
  assumes core: "wb_core E wb" and dom: "set (take n (wb_kv_list wb)) \<subseteq> dom (map_of (wb_kv_store wb))"
    and fit: "slab_sum (wb_kv_store wb) (take n (wb_kv_list wb)) \<le> block_limit wb"
    and id: "wb_latest_block_id wb + 1 < 2 ^ 63"
  shows "wb_core E (wb_cut n wb)"
proof -
  have st: "wb_store_ok E wb" and qu: "wb_queue_ok E wb" and sz: "wb_size_ok E wb"
    using core by (simp_all add: wb_core_def)
  let ?b = "wb_latest_block_id wb + 1"
  note keys = cut_block_keys [OF st qu dom] and blk = cut_block_of [OF qu]
  have store: "wb_store_ok E (wb_cut n wb)" using st by (simp add: wb_store_ok_def)
  have "distinct (wb_keys E (wb_cut n wb))" "set (wb_keys E (wb_cut n wb)) = set (wb_keys E wb)"
    using qu unfolding keys wb_queue_ok_def wb_keys_split [of E wb n] by auto
  moreover have "map_of (wb_kv_store wb) (hash E (kv_key i)) = Some i"
    if "b \<in> set (wb_pool (wb_cut n wb))" "i \<in> set (wb_block (wb_cut n wb) b)" for b i
  proof (cases "b = ?b")
    case True
    with that(2) obtain k where "k \<in> set (take n (wb_kv_list wb))" "i = the (map_of (wb_kv_store wb) k)"
      by (auto simp: blk)
    with dom st show ?thesis by (fastforce simp: wb_store_ok_def entry_ok_def)
  next
    case False
    with that qu show ?thesis by (auto simp: blk wb_queue_ok_def)
  qed
  moreover have "umap_wf (wb_blocks (wb_cut n wb))"
    "dom (map_of (wb_blocks (wb_cut n wb))) \<subseteq> insert ?b (dom (map_of (wb_blocks wb)))"
    using qu by (auto simp: wb_cut_def Let_def wb_queue_ok_def)
  ultimately have queue: "wb_queue_ok E (wb_cut n wb)"
    using qu id unfolding wb_queue_ok_def by fastforce
  have "wb_total_size_without_block (wb_cut n wb) =
      slab_sum (wb_kv_store wb) (wb_kv_list wb) - slab_sum (wb_kv_store wb) (take n (wb_kv_list wb))"
    using sz sum_slab_of_the [OF dom] by (simp add: wb_cut_def Let_def wb_size_ok_def o_def kv_slab_def)
  also have "\<dots> = slab_sum (wb_kv_store wb) (drop n (wb_kv_list wb))"
    by (metis add_diff_cancel_left' append_take_drop_id slab_sum_simps(3))
  finally have "wb_total_size_without_block (wb_cut n wb) = slab_sum (wb_kv_store wb) (drop n (wb_kv_list wb))" .
  moreover have "slab_sum (wb_kv_store wb) (wb_keys E (wb_cut n wb)) = slab_sum (wb_kv_store wb) (wb_keys E wb)"
    by (simp add: keys wb_keys_split [of E wb n])
  moreover have "sum_list (map kv_slab (wb_block (wb_cut n wb) b)) \<le> block_limit wb"
    if "b \<in> set (wb_pool (wb_cut n wb))" for b
    using that sz fit sum_slab_of_the [OF dom] by (auto simp: blk wb_size_ok_def)
  ultimately have "wb_size_ok E (wb_cut n wb)" using sz by (simp add: wb_size_ok_def)
  with store queue show ?thesis by (simp add: wb_core_def)
qed


subsection \<open>write\<close>

text \<open>
  When the queue exceeds the block size, the new block takes every earlier entry and
  leaves only the new one in the queue.
\<close>

lemma cut_after_add:
  assumes inv: "wb_inv E wb" and new: "hash E key \<notin> dom (map_of (wb_kv_store wb))"
    and len: "int (length bytes) \<le> MB" and id: "wb_latest_block_id wb + 1 < 2 ^ 63"
    and over: "wb_total_size_without_block (WriteBuffer_add_entry E key bytes wb) > block_limit wb"
  shows "WriteBuffer_cut_block False (WriteBuffer_add_entry E key bytes wb)
      = Inr (wb_cut (length (wb_kv_list wb)) (WriteBuffer_add_entry E key bytes wb))"
    and "wb_inv E (wb_cut (length (wb_kv_list wb)) (WriteBuffer_add_entry E key bytes wb))"
proof -
  let ?wb = "WriteBuffer_add_entry E key bytes wb"
  let ?ks = "wb_kv_list wb" and ?h = "hash E key" and ?store = "wb_kv_store (WriteBuffer_add_entry E key bytes wb)"
  have core: "wb_core E ?wb"
    using inv new len by (intro add_entry_core) (auto simp: wb_inv_core)
  have nh: "?h \<notin> set ?ks"
    using inv new by (auto simp: wb_inv_def wb_queue_ok_def wb_keys_def)
  have old: "slab_sum ?store ?ks \<le> block_limit wb"
    using inv nh by (simp add: add_entry_slab_sum wb_inv_def wb_size_ok_def)
  have lim: "0 \<le> block_limit wb" "MB \<le> block_limit wb"
    using inv by (auto simp: wb_inv_def wb_size_ok_def)
  have dom: "set (?ks @ [?h]) \<subseteq> dom (map_of ?store)"
    using core by (auto simp: wb_core_def wb_queue_ok_def wb_keys_def)
  have total: "block_limit wb < slab_sum ?store (?ks @ [?h])"
    using over core by (simp add: wb_core_def wb_size_ok_def)
  obtain "is" rest where pk: "WriteBuffer_pack False (block_limit wb) ?store 0 (?ks @ [?h]) = Inr (is, rest)"
    using pack_total [of "?ks @ [?h]" ?store False "block_limit wb" 0] dom total lim by auto
  then obtain wb' where cut: "WriteBuffer_cut_block False ?wb = Inr wb'"
    using id by (auto simp: WriteBuffer_cut_block_def Let_def)
  obtain n where n: "n \<le> length (?ks @ [?h])" "wb' = wb_cut n ?wb"
    "slab_sum ?store (take n (?ks @ [?h])) \<le> block_limit wb"
    "n < length (?ks @ [?h]) \<Longrightarrow> block_limit wb < slab_sum ?store (take (Suc n) (?ks @ [?h]))"
    using cut_block_Inr [OF cut] lim by (metis add_entry_fields(4,5))
  have "n \<noteq> length (?ks @ [?h])" using n(3) total by auto
  moreover have "\<not> n < length ?ks"
  proof
    assume less: "n < length ?ks"
    then have "block_limit wb < slab_sum ?store (take (Suc n) ?ks)" using n(4) by simp
    also have "\<dots> \<le> slab_sum ?store ?ks"
    proof -
      have "set (drop (Suc n) ?ks) \<subseteq> dom (map_of ?store)" using dom set_drop_subset [of "Suc n" ?ks] by auto
      then have "0 \<le> slab_sum ?store (drop (Suc n) ?ks)"
        using core slab_sum_nonneg [of E ?wb "drop (Suc n) ?ks"] by (simp add: wb_core_def)
      moreover have "slab_sum ?store ?ks = slab_sum ?store (take (Suc n) ?ks) + slab_sum ?store (drop (Suc n) ?ks)"
        by (metis append_take_drop_id slab_sum_simps(3))
      ultimately show ?thesis by simp
    qed
    finally show False using old by simp
  qed
  ultimately have "n = length ?ks" using n(1) by simp
  then show "WriteBuffer_cut_block False ?wb = Inr (wb_cut (length ?ks) ?wb)" using cut n(2) by simp
  have core': "wb_core E (wb_cut (length ?ks) ?wb)"
    using core dom old id by (intro wb_cut_core) simp_all
  have "wb_total_size_without_block (wb_cut (length ?ks) ?wb) = slab_of ?store ?h"
    using core' by (simp add: wb_core_def wb_size_ok_def)
  also have "\<dots> \<le> block_limit wb"
    using core lim slab_of_bounds [of E ?wb ?h] dom by (simp add: wb_core_def)
  finally show "wb_inv E (wb_cut (length ?ks) ?wb)"
    using core' by (simp add: wb_inv_core)
qed

text \<open>The outcome of a write of a new key that need not wait.\<close>

definition wb_written :: "'db env \<Rightarrow> string \<Rightarrow> byte list \<Rightarrow> write_buffer \<Rightarrow> write_buffer" where
  "wb_written E key bytes wb =
     (let wb1 = WriteBuffer_add_entry E key bytes wb
      in if wb_total_size_without_block wb1 > block_limit wb
         then wb_cut (length (wb_kv_list wb)) wb1 else wb1)"

lemma write_new_key:
  assumes inv: "wb_inv E wb" and free: "\<not> WriteBuffer_write_waits ssd wb"
    and new: "map_of (wb_kv_store wb) (hash E key) = None"
    and len: "0 \<le> len" "len \<le> MB" "nat len \<le> length value"
    and id: "wb_latest_block_id wb + 1 < 2 ^ 63"
  shows "WriteBuffer_write E key value len ssd wb = Inr (0, wb_written E key (take (nat len) value) wb)"
    and "wb_inv E (wb_written E key (take (nat len) value) wb)"
proof -
  let ?bytes = "take (nat len) value" and ?wb = "WriteBuffer_add_entry E key (take (nat len) value) wb"
  have l: "int (length ?bytes) \<le> MB" using len by simp
  have nd: "hash E key \<notin> dom (map_of (wb_kv_store wb))" using new by (simp add: domIff)
  have rd: "buf_read 0 (nat len) value = Inr ?bytes" using len by (simp add: buf_read_def)
  have core: "wb_core E ?wb" using inv nd l by (intro add_entry_core) (auto simp: wb_inv_core)
  have "WriteBuffer_write E key value len ssd wb = Inr (0, wb_written E key ?bytes wb)
      \<and> wb_inv E (wb_written E key ?bytes wb)"
  proof (cases "wb_total_size_without_block ?wb > block_limit wb")
    case True
    then show ?thesis
      using cut_after_add [OF inv nd l id True] free new len rd
      by (simp add: WriteBuffer_write_def wb_written_def Let_def)
  next
    case False
    then show ?thesis
      using core free new len rd
      by (simp add: WriteBuffer_write_def wb_written_def Let_def wb_inv_core)
  qed
  then show "WriteBuffer_write E key value len ssd wb = Inr (0, wb_written E key ?bytes wb)"
    and "wb_inv E (wb_written E key ?bytes wb)" by blast+
qed

lemma write_inv:
  assumes inv: "wb_inv E wb" and w: "WriteBuffer_write E key value len ssd wb = Inr (r, wb')"
  shows "wb_inv E wb'"
proof (cases "len \<le> MB \<and> map_of (wb_kv_store wb) (hash E key) = None \<and> \<not> WriteBuffer_write_waits ssd wb")
  case True
  then have "0 \<le> len" "nat len \<le> length value"
    using w by (auto simp: WriteBuffer_write_def outcome_simps split: if_splits)
  show ?thesis
  proof (cases "wb_latest_block_id wb + 1 < 2 ^ 63")
    case id: True
    then show ?thesis
      using write_new_key [OF inv _ _ \<open>0 \<le> len\<close> _ \<open>nat len \<le> length value\<close>, of ssd key] True w by auto
  next
    case False
    let ?wb = "WriteBuffer_add_entry E key (take (nat len) value) wb"
    have "wb' = ?wb \<and> wb_total_size_without_block ?wb \<le> block_limit ?wb"
      using w True \<open>0 \<le> len\<close> False
      by (auto simp: WriteBuffer_write_def WriteBuffer_cut_block_def Let_def outcome_simps buf_read_def
          split: if_splits)
    moreover have "wb_core E ?wb"
      using inv True \<open>0 \<le> len\<close> by (intro add_entry_core) (auto simp: wb_inv_core domIff)
    ultimately show ?thesis by (simp add: wb_inv_core)
  qed
next
  case False
  then have "wb' = wb" using w by (auto simp: WriteBuffer_write_def split: if_splits)
  with inv show ?thesis by simp
qed

end
