(* ===== verification/Write_Buffer_Flush.thy ===== *)
theory Write_Buffer_Flush
  imports Write_Buffer_Inv
begin

section \<open>WriteBuffer: flushing, synchronising, closing and reading\<close>

text \<open>
  What a flush task does, in closed form: the values of the block become the block file,
  every entry gets a place in that file (\<open>flush_places\<close>), the entries leave the store
  and their memory is released (\<open>wb_flushed\<close>). Under the invariant of
  \<open>Write_Buffer_Inv\<close> no task fails, \<open>sync\<close> ends with an empty buffer, and \<open>close\<close>
  frees every value once.
\<close>

subsection \<open>Entries of a block\<close>

definition wb_value :: "(nat \<times> byte list) list \<Rightarrow> kv_info \<Rightarrow> byte list" where
  "wb_value heap i =
     (case map_of heap (kv_value i) of None \<Rightarrow> [] | Some v \<Rightarrow> take (nat (kv_value_length i)) v)"

fun flush_places :: "int \<Rightarrow> int \<Rightarrow> kv_info list \<Rightarrow> (string \<times> index_info) list" where
  "flush_places block_id offset [] = []"
| "flush_places block_id offset (i # is) =
     (kv_key i, \<lparr>info_block_id = block_id, info_offset = offset, info_length = kv_value_length i,
                 info_length_type = kv_value_length_type i\<rparr>)
     # flush_places block_id (offset + kv_value_length i) is"

fun wb_release :: "'db env \<Rightarrow> kv_info list \<Rightarrow> write_buffer \<Rightarrow> write_buffer" where
  "wb_release E [] wb = wb"
| "wb_release E (i # is) wb =
     wb_release E is
       (wb\<lparr>wb_heap := AList.delete (kv_value i) (wb_heap wb),
           wb_kv_store := AList.delete (hash E (kv_key i)) (wb_kv_store wb)\<rparr>)"

definition live :: "(nat \<times> byte list) list \<Rightarrow> kv_info \<Rightarrow> bool" where
  "live heap i \<longleftrightarrow> 0 \<le> kv_value_length i
     \<and> (\<exists>v. map_of heap (kv_value i) = Some v \<and> nat (kv_value_length i) \<le> length v)"

lemma wb_release_fields [simp]:
  "wb_pool (wb_release E is wb) = wb_pool wb" "wb_blocks (wb_release E is wb) = wb_blocks wb"
  "wb_kv_list (wb_release E is wb) = wb_kv_list wb" "wb_brk (wb_release E is wb) = wb_brk wb"
  "wb_total_size (wb_release E is wb) = wb_total_size wb"
  "wb_total_size_without_block (wb_release E is wb) = wb_total_size_without_block wb"
  "wb_latest_block_id (wb_release E is wb) = wb_latest_block_id wb"
  "wb_page_per_block (wb_release E is wb) = wb_page_per_block wb"
  "wb_page_size (wb_release E is wb) = wb_page_size wb"
  "wb_page_num (wb_release E is wb) = wb_page_num wb"
  "wb_max_page_num (wb_release E is wb) = wb_max_page_num wb"
  "wb_flush_thread_num (wb_release E is wb) = wb_flush_thread_num wb"
  "wb_hdd_path (wb_release E is wb) = wb_hdd_path wb" "wb_ssd_path (wb_release E is wb) = wb_ssd_path wb"
  by (induction "is" arbitrary: wb) simp_all

lemma wb_release_store:
  "map_of (wb_kv_store (wb_release E is wb)) h =
     (if h \<in> set (map (\<lambda>i. hash E (kv_key i)) is) then None else map_of (wb_kv_store wb) h)"
  by (induction "is" arbitrary: wb) auto

lemma wb_release_heap:
  "map_of (wb_heap (wb_release E is wb)) a =
     (if a \<in> set (map kv_value is) then None else map_of (wb_heap wb) a)"
  by (induction "is" arbitrary: wb) auto

lemma wb_release_wf:
  "umap_wf (wb_kv_store wb) \<Longrightarrow> umap_wf (wb_kv_store (wb_release E is wb))"
  "umap_wf (wb_heap wb) \<Longrightarrow> umap_wf (wb_heap (wb_release E is wb))"
  by (induction "is" arbitrary: wb) simp_all

lemma wb_value_cong: "map_of heap (kv_value i) = map_of heap' (kv_value i) \<Longrightarrow> wb_value heap i = wb_value heap' i"
  by (simp add: wb_value_def)

lemma wb_value_length: "live heap i \<Longrightarrow> int (length (wb_value heap i)) = kv_value_length i"
  by (auto simp: live_def wb_value_def min_def)


subsection \<open>The loop over a block\<close>

definition flush_range_ok :: "int \<Rightarrow> int \<Rightarrow> kv_info list \<Rightarrow> bool" where
  "flush_range_ok b off is \<longleftrightarrow>
     int64_range b \<and> 0 \<le> off \<and> (\<forall>i \<in> set is. 0 \<le> kv_value_length i \<and> int64_range (kv_value_length_type i))
     \<and> off + sum_list (map kv_value_length is) < 2 ^ 63"

lemma flush_range_Cons:
  assumes "flush_range_ok b off (i # is)"
  shows "flush_range_ok b (off + kv_value_length i) is"
    and "info_in_range \<lparr>info_block_id = b, info_offset = off, info_length = kv_value_length i,
                       info_length_type = kv_value_length_type i\<rparr>"
proof -
  have "0 \<le> sum_list (map kv_value_length is)"
    using assms by (intro sum_list_nonneg) (auto simp: flush_range_ok_def)
  with assms show "flush_range_ok b (off + kv_value_length i) is"
    and "info_in_range \<lparr>info_block_id = b, info_offset = off, info_length = kv_value_length i,
                       info_length_type = kv_value_length_type i\<rparr>"
    by (auto simp: flush_range_ok_def info_in_range_def int64_range_def)
qed

context environment begin

lemma flush_entries_spec:
  assumes "\<forall>i \<in> set is. live (wb_heap wb) i" "distinct (map kv_value is)"
    and "ci_db ci \<noteq> None" "flush_range_ok b off is"
  shows "\<exists>ci'. WriteBuffer_flush_entries E b is off wb ci out sz
      = Inr (wb_release E is wb, ci', out @ concat (map (wb_value (wb_heap wb)) is),
             sz + sum_list (map kv_slab is))
    \<and> ci_db ci' \<noteq> None \<and> ci_name ci' = ci_name ci
    \<and> (\<forall>k j. index_lookup E ci' k = Some j \<longrightarrow>
          index_lookup E ci k = Some j \<or> (k, j) \<in> set (flush_places b off is))
    \<and> (index_small E ci \<longrightarrow> index_small E ci')"
  using assms
proof (induction "is" arbitrary: off wb ci out sz)
  case Nil
  then show ?case by simp
next
  case (Cons i "is")
  let ?info = "\<lparr>info_block_id = b, info_offset = off, info_length = kv_value_length i,
                info_length_type = kv_value_length_type i\<rparr>"
  let ?wb = "wb\<lparr>wb_heap := AList.delete (kv_value i) (wb_heap wb),
                wb_kv_store := AList.delete (hash E (kv_key i)) (wb_kv_store wb)\<rparr>"
  note range = flush_range_Cons [OF Cons.prems(4)]
  obtain v where v: "map_of (wb_heap wb) (kv_value i) = Some v" "nat (kv_value_length i) \<le> length v"
    using Cons.prems(1) by (auto simp: live_def)
  obtain r ci1 where put: "CentraIndex_put E (kv_key i) (encode_info ?info) ci = Inr (r, ci1)"
    "ci_db ci1 \<noteq> None" "ci_name ci1 = ci_name ci"
    "\<And>k j. index_lookup E ci1 k = Some j \<Longrightarrow> index_lookup E ci k = Some j \<or> (k = kv_key i \<and> j = ?info)"
    "index_small E ci \<longrightarrow> index_small E ci1"
    using index_put_lookup [OF Cons.prems(3) range(2)] by blast
  have other: "kv_value j \<noteq> kv_value i" if "j \<in> set is" for j
    using that Cons.prems(2) by (metis distinct.simps(2) image_eqI list.simps(9) set_map)
  then have live': "\<forall>j \<in> set is. live (wb_heap ?wb) j"
    using Cons.prems(1) by (auto simp: live_def)
  have vals: "map (wb_value (wb_heap ?wb)) is = map (wb_value (wb_heap wb)) is"
    using other by (auto intro: wb_value_cong)
  have "\<exists>ci2. WriteBuffer_flush_entries E b is (off + kv_value_length i) ?wb ci1
        (out @ wb_value (wb_heap wb) i) (sz + kv_slab i)
      = Inr (wb_release E is ?wb, ci2, (out @ wb_value (wb_heap wb) i) @ concat (map (wb_value (wb_heap ?wb)) is),
             (sz + kv_slab i) + sum_list (map kv_slab is))
    \<and> ci_db ci2 \<noteq> None \<and> ci_name ci2 = ci_name ci1
    \<and> (\<forall>k j. index_lookup E ci2 k = Some j \<longrightarrow>
          index_lookup E ci1 k = Some j \<or> (k, j) \<in> set (flush_places b (off + kv_value_length i) is))
    \<and> (index_small E ci1 \<longrightarrow> index_small E ci2)"
    using live' Cons.prems(2) put(2) range(1) by (intro Cons.IH) simp_all
  then obtain ci2 where rest: "WriteBuffer_flush_entries E b is (off + kv_value_length i) ?wb ci1
        (out @ wb_value (wb_heap wb) i) (sz + kv_slab i)
      = Inr (wb_release E is ?wb, ci2, (out @ wb_value (wb_heap wb) i) @ concat (map (wb_value (wb_heap wb)) is),
             (sz + kv_slab i) + sum_list (map kv_slab is))"
    "ci_db ci2 \<noteq> None" "ci_name ci2 = ci_name ci1"
    "\<forall>k j. index_lookup E ci2 k = Some j \<longrightarrow>
          index_lookup E ci1 k = Some j \<or> (k, j) \<in> set (flush_places b (off + kv_value_length i) is)"
    "index_small E ci1 \<longrightarrow> index_small E ci2"
    unfolding vals by (elim exE conjE) (rule that)
  have "WriteBuffer_flush_entries E b (i # is) off wb ci out sz
      = WriteBuffer_flush_entries E b is (off + kv_value_length i) ?wb ci1
          (out @ wb_value (wb_heap wb) i) (sz + kv_slab i)"
    using v put(1) by (simp add: buf_read_def wb_value_def kv_slab_def)
  then have "WriteBuffer_flush_entries E b (i # is) off wb ci out sz
      = Inr (wb_release E (i # is) wb, ci2, out @ concat (map (wb_value (wb_heap wb)) (i # is)),
             sz + sum_list (map kv_slab (i # is)))"
    using rest(1) by simp
  moreover have "\<forall>k j. index_lookup E ci2 k = Some j \<longrightarrow>
          index_lookup E ci k = Some j \<or> (k, j) \<in> set (flush_places b off (i # is))"
    using rest(4) put(4) by auto
  moreover have "index_small E ci \<longrightarrow> index_small E ci2" using rest(5) put(5) by blast
  ultimately show ?case using rest(2,3) put(3) by auto
qed

end

text \<open>Each place holds its value in the concatenation of the values.\<close>

lemma flush_places_bytes:
  assumes "(k, info) \<in> set (flush_places b off is)" "\<forall>i \<in> set is. live heap i"
    and "int (length out) = off"
  shows "\<exists>i \<in> set is. kv_key i = k \<and> info_block_id info = b
     \<and> info_length info = kv_value_length i \<and> info_length_type info = kv_value_length_type i
     \<and> off \<le> info_offset info
     \<and> info_offset info + info_length info \<le> off + sum_list (map kv_value_length is)
     \<and> fread_at (out @ concat (map (wb_value heap) is)) (info_offset info) (info_length info)
         = wb_value heap i"
  using assms
proof (induction "is" arbitrary: off out)
  case (Cons i "is")
  have len: "int (length (wb_value heap i)) = kv_value_length i"
    using Cons.prems(2) by (simp add: wb_value_length)
  have nn: "0 \<le> sum_list (map kv_value_length is)" "0 \<le> kv_value_length i"
    using Cons.prems(2) by (auto simp: live_def intro!: sum_list_nonneg)
  show ?case
  proof (cases "(k, info) \<in> set (flush_places b (off + kv_value_length i) is)")
    case True
    then show ?thesis
      using Cons.IH [of "off + kv_value_length i" "out @ wb_value heap i"] Cons.prems(2,3) len nn
      by auto
  next
    case False
    then have "k = kv_key i" "info = \<lparr>info_block_id = b, info_offset = off, info_length = kv_value_length i,
                info_length_type = kv_value_length_type i\<rparr>"
      using Cons.prems(1) by auto
    moreover have "nat off = length out" "nat (kv_value_length i) = length (wb_value heap i)"
      using Cons.prems(3) len by linarith+
    ultimately show ?thesis
      using nn by (intro bexI [of _ i]) (auto simp: fread_at_def)
  qed
qed simp


subsection \<open>A flush task\<close>

text \<open>The buffer after the flush of block \<open>b\<close>, which has left the pool's queue.\<close>

definition wb_flushed :: "'db env \<Rightarrow> int \<Rightarrow> int list \<Rightarrow> write_buffer \<Rightarrow> write_buffer" where
  "wb_flushed E b pool wb =
     (let wb' = wb_release E (wb_block wb b) wb
      in wb'\<lparr>wb_pool := pool, wb_blocks := AList.delete b (wb_blocks wb),
             wb_total_size := wb_total_size wb - sum_list (map kv_slab (wb_block wb b))\<rparr>)"

lemma wb_flushed_fields [simp]:
  "wb_pool (wb_flushed E b pool wb) = pool"
  "wb_kv_list (wb_flushed E b pool wb) = wb_kv_list wb"
  "wb_latest_block_id (wb_flushed E b pool wb) = wb_latest_block_id wb"
  "wb_page_per_block (wb_flushed E b pool wb) = wb_page_per_block wb"
  "wb_page_size (wb_flushed E b pool wb) = wb_page_size wb"
  "wb_max_page_num (wb_flushed E b pool wb) = wb_max_page_num wb"
  "wb_flush_thread_num (wb_flushed E b pool wb) = wb_flush_thread_num wb"
  "wb_hdd_path (wb_flushed E b pool wb) = wb_hdd_path wb"
  "wb_ssd_path (wb_flushed E b pool wb) = wb_ssd_path wb"
  "wb_total_size_without_block (wb_flushed E b pool wb) = wb_total_size_without_block wb"
  by (simp_all add: wb_flushed_def Let_def)

lemma wb_flushed_store:
  "map_of (wb_kv_store (wb_flushed E b pool wb)) h =
     (if h \<in> set (block_keys E wb b) then None else map_of (wb_kv_store wb) h)"
  by (simp add: wb_flushed_def Let_def wb_release_store block_keys_def)

lemma wb_flushed_heap:
  "map_of (wb_heap (wb_flushed E b pool wb)) a =
     (if a \<in> kv_value ` set (wb_block wb b) then None else map_of (wb_heap wb) a)"
  by (simp add: wb_flushed_def Let_def wb_release_heap)

lemma wb_flushed_block:
  "wb_block (wb_flushed E b pool wb) b' = (if b' = b then [] else wb_block wb b')"
  by (simp add: wb_flushed_def Let_def wb_block_def)

text \<open>Entries of pending blocks are live, and no two share an allocation.\<close>

lemma block_entry:
  assumes "wb_core E wb" "b \<in> set (wb_pool wb)" "i \<in> set (wb_block wb b)"
  shows "map_of (wb_kv_store wb) (hash E (kv_key i)) = Some i"
    and "entry_ok E (wb_heap wb) (hash E (kv_key i)) i"
proof -
  show m: "map_of (wb_kv_store wb) (hash E (kv_key i)) = Some i"
    using assms by (simp add: wb_core_def wb_queue_ok_def)
  then show "entry_ok E (wb_heap wb) (hash E (kv_key i)) i"
    using assms by (simp add: wb_core_def wb_store_ok_def)
qed

lemma entry_live: "entry_ok E heap h i \<Longrightarrow> live heap i"
  using entry_length_le_slab [of E heap h i] by (auto simp: entry_ok_def live_def kv_slab_def)

lemma store_value_inj:
  assumes "wb_store_ok E wb" "map_of (wb_kv_store wb) h = Some i" "map_of (wb_kv_store wb) h' = Some j"
    "kv_value i = kv_value j"
  shows "h = h'"
  using assms unfolding wb_store_ok_def inj_on_def by (metis domI option.sel)

lemma block_distinct:
  assumes core: "wb_core E wb" and b: "b \<in> set (wb_pool wb)"
  shows "distinct (block_keys E wb b)" "distinct (map kv_value (wb_block wb b))"
proof -
  obtain xs ys where "wb_pool wb = xs @ b # ys" using b by (meson split_list)
  then show d: "distinct (block_keys E wb b)"
    using core by (simp add: wb_core_def wb_queue_ok_def wb_keys_def)
  have "inj_on kv_value (set (wb_block wb b))"
  proof (rule inj_onI)
    fix i j
    assume "i \<in> set (wb_block wb b)" "j \<in> set (wb_block wb b)" and eq: "kv_value i = kv_value j"
    then have m: "map_of (wb_kv_store wb) (hash E (kv_key i)) = Some i"
      "map_of (wb_kv_store wb) (hash E (kv_key j)) = Some j"
      using block_entry [OF core b] by blast+
    then have "hash E (kv_key i) = hash E (kv_key j)"
      using store_value_inj [of E wb "hash E (kv_key i)" i "hash E (kv_key j)" j] m eq core
      unfolding wb_core_def by blast
    then show "i = j" using m by (metis option.sel)
  qed
  moreover have "distinct (wb_block wb b)" using d by (auto simp: block_keys_def distinct_map)
  ultimately show "distinct (map kv_value (wb_block wb b))" by (simp add: distinct_map)
qed

lemma flushed_owner:
  assumes core: "wb_core E wb" and b: "b \<in> set (wb_pool wb)"
    and m: "map_of (wb_kv_store wb) h = Some i"
  shows "kv_value i \<in> kv_value ` set (wb_block wb b) \<longleftrightarrow> h \<in> set (block_keys E wb b)"
proof
  assume "kv_value i \<in> kv_value ` set (wb_block wb b)"
  then obtain j where j: "j \<in> set (wb_block wb b)" "kv_value i = kv_value j" by auto
  then have "h = hash E (kv_key j)"
    using store_value_inj [of E wb h i "hash E (kv_key j)" j] m block_entry(1) [OF core b j(1)] core
    unfolding wb_core_def by blast
  with j(1) show "h \<in> set (block_keys E wb b)" by (simp add: block_keys_def)
next
  assume "h \<in> set (block_keys E wb b)"
  then obtain j where j: "j \<in> set (wb_block wb b)" "h = hash E (kv_key j)" by (auto simp: block_keys_def)
  then have "i = j" using block_entry(1) [OF core b j(1)] m by simp
  with j(1) show "kv_value i \<in> kv_value ` set (wb_block wb b)" by blast
qed


lemma wb_flushed_store_ok:
  assumes core: "wb_core E wb" and b: "b \<in> set (wb_pool wb)"
  shows "wb_store_ok E (wb_flushed E b pool wb)"
proof -
  let ?wb = "wb_flushed E b pool wb" and ?gone = "kv_value ` set (wb_block wb b)"
  have st: "wb_store_ok E wb" using core by (simp add: wb_core_def)
  have wf: "umap_wf (wb_kv_store ?wb)" "umap_wf (wb_heap ?wb)"
    using st by (simp_all add: wb_flushed_def Let_def wb_store_ok_def wb_release_wf)
  have kept: "map_of (wb_kv_store wb) h = Some i \<and> kv_value i \<notin> ?gone"
    if "map_of (wb_kv_store ?wb) h = Some i" for h i
    using that flushed_owner [OF core b] by (auto simp: wb_flushed_store split: if_splits)
  have entries: "entry_ok E (wb_heap ?wb) h i" if "map_of (wb_kv_store ?wb) h = Some i" for h i
  proof -
    have m: "map_of (wb_kv_store wb) h = Some i" "kv_value i \<notin> ?gone" using kept [OF that] by auto
    then have "entry_ok E (wb_heap wb) h i" using st by (simp add: wb_store_ok_def)
    moreover have "map_of (wb_heap ?wb) (kv_value i) = map_of (wb_heap wb) (kv_value i)"
      using m(2) by (simp add: wb_flushed_heap)
    ultimately show ?thesis unfolding entry_ok_def by (metis (no_types))
  qed
  have inj: "inj_on (\<lambda>h. kv_value (the (map_of (wb_kv_store ?wb) h))) (dom (map_of (wb_kv_store ?wb)))"
  proof (rule inj_onI)
    fix h h'
    assume "h \<in> dom (map_of (wb_kv_store ?wb))" "h' \<in> dom (map_of (wb_kv_store ?wb))"
      and eq: "kv_value (the (map_of (wb_kv_store ?wb) h)) = kv_value (the (map_of (wb_kv_store ?wb) h'))"
    then obtain i j where m: "map_of (wb_kv_store ?wb) h = Some i" "map_of (wb_kv_store ?wb) h' = Some j" by auto
    with eq have "kv_value i = kv_value j" by simp
    with store_value_inj [OF st] kept [OF m(1)] kept [OF m(2)] show "h = h'" by blast
  qed
  have "ran (map_of (wb_kv_store ?wb)) = {i \<in> ran (map_of (wb_kv_store wb)). kv_value i \<notin> ?gone}"
    using kept flushed_owner [OF core b]
    by (auto simp: ran_def wb_flushed_store split: if_splits) blast+
  moreover have "dom (map_of (wb_heap ?wb)) = dom (map_of (wb_heap wb)) - ?gone"
    by (auto simp: wb_flushed_heap dom_def)
  moreover have "dom (map_of (wb_heap wb)) = kv_value ` ran (map_of (wb_kv_store wb))"
    using st by (simp add: wb_store_ok_def)
  moreover have "kv_value ` R - ?gone = kv_value ` {i \<in> R. kv_value i \<notin> ?gone}" for R :: "kv_info set"
    by (rule set_eqI) (simp add: image_iff, metis)
  ultimately have owners: "dom (map_of (wb_heap ?wb)) = kv_value ` ran (map_of (wb_kv_store ?wb))"
    by (simp only:)
  have "dom (map_of (wb_heap ?wb)) \<subseteq> dom (map_of (wb_heap wb))"
    by (auto simp: wb_flushed_heap split: if_splits)
  then have brk: "\<forall>a \<in> dom (map_of (wb_heap ?wb)). a < wb_brk ?wb"
    using st by (auto simp: wb_store_ok_def wb_flushed_def Let_def)
  show ?thesis unfolding wb_store_ok_def using wf entries inj owners brk by blast
qed

text \<open>The queue without one block: the other blocks' keys, in their order.\<close>

lemma wb_keys_pool:
  "wb_pool wb = xs @ b # ys \<Longrightarrow>
     wb_keys E wb = wb_kv_list wb @ concat (map (block_keys E wb) xs) @ block_keys E wb b
       @ concat (map (block_keys E wb) ys)"
  by (simp add: wb_keys_def)

lemma wb_keys_flushed:
  assumes "b \<notin> set pool"
  shows "wb_keys E (wb_flushed E b pool wb) = wb_kv_list wb @ concat (map (block_keys E wb) pool)"
proof -
  have "map (block_keys E (wb_flushed E b pool wb)) pool = map (block_keys E wb) pool"
    using assms by (auto simp: block_keys_def wb_flushed_block)
  then show ?thesis by (simp add: wb_keys_def del: map_eq_conv)
qed

lemma wb_flushed_queue_ok:
  assumes core: "wb_core E wb" and p: "wb_pool wb = xs @ b # ys"
  shows "wb_queue_ok E (wb_flushed E b (xs @ ys) wb)"
proof -
  let ?wb = "wb_flushed E b (xs @ ys) wb"
  have qu: "wb_queue_ok E wb" using core by (simp add: wb_core_def)
  have nb: "b \<notin> set (xs @ ys)" "distinct (xs @ ys)" "set (xs @ ys) \<subseteq> set (wb_pool wb)"
    using qu p by (auto simp: wb_queue_ok_def)
  note keys = wb_keys_flushed [OF nb(1), of E wb] and old = wb_keys_pool [OF p, of E]
  have d: "distinct (wb_keys E ?wb)" "set (wb_keys E ?wb) = set (wb_keys E wb) - set (block_keys E wb b)"
    using qu unfolding keys old wb_queue_ok_def by auto
  have dom: "set (wb_keys E ?wb) = dom (map_of (wb_kv_store ?wb))"
    using qu d(2) by (auto simp: wb_queue_ok_def wb_flushed_store dom_def)
  have entry: "map_of (wb_kv_store ?wb) (hash E (kv_key i)) = Some i"
    if "b' \<in> set (xs @ ys)" "i \<in> set (wb_block ?wb b')" for b' i
  proof -
    have b': "b' \<in> set (wb_pool wb)" "b' \<noteq> b" using that(1) nb by auto
    with that(2) have i: "i \<in> set (wb_block wb b')" by (simp add: wb_flushed_block)
    have "hash E (kv_key i) \<in> set (block_keys E wb b')" using i by (auto simp: block_keys_def)
    then have "hash E (kv_key i) \<in> set (wb_keys E ?wb)" using that(1) unfolding keys by auto
    then show ?thesis
      using d(2) block_entry(1) [OF core b'(1) i] by (auto simp: wb_flushed_store)
  qed
  have "umap_wf (wb_blocks ?wb)" "dom (map_of (wb_blocks ?wb)) \<subseteq> set (xs @ ys)"
    using qu p by (auto simp: wb_queue_ok_def wb_flushed_def Let_def)
  with d(1) dom entry nb qu show ?thesis by (auto simp: wb_queue_ok_def)
qed

lemma wb_flushed_size_ok:
  assumes core: "wb_core E wb" and p: "wb_pool wb = xs @ b # ys"
  shows "wb_size_ok E (wb_flushed E b (xs @ ys) wb)"
proof -
  let ?wb = "wb_flushed E b (xs @ ys) wb"
  have qu: "wb_queue_ok E wb" and sz: "wb_size_ok E wb" using core by (simp_all add: wb_core_def)
  have nb: "b \<notin> set (xs @ ys)" using qu p by (auto simp: wb_queue_ok_def)
  note keys = wb_keys_flushed [OF nb, of E wb] and old = wb_keys_pool [OF p, of E]
  have dis: "set (wb_keys E ?wb) \<inter> set (block_keys E wb b) = {}"
    using qu unfolding keys old wb_queue_ok_def by auto
  have same: "slab_sum (wb_kv_store ?wb) hs = slab_sum (wb_kv_store wb) hs"
    if "set hs \<subseteq> set (wb_keys E ?wb)" for hs
    using that dis by (intro slab_sum_cong) (auto simp: wb_flushed_store)
  have "slab_sum (wb_kv_store wb) (block_keys E wb b) = sum_list (map kv_slab (wb_block wb b))"
    unfolding block_keys_def using block_entry(1) [OF core, of b] p by (intro slab_sum_entries) auto
  then have "wb_total_size ?wb = slab_sum (wb_kv_store wb) (wb_keys E ?wb)"
    using sz old unfolding keys by (simp add: wb_size_ok_def wb_flushed_def Let_def)
  moreover have "slab_sum (wb_kv_store ?wb) (wb_keys E ?wb) = slab_sum (wb_kv_store wb) (wb_keys E ?wb)"
    by (rule same) simp
  moreover have "slab_sum (wb_kv_store ?wb) (wb_kv_list wb) = slab_sum (wb_kv_store wb) (wb_kv_list wb)"
    by (rule same) (simp add: keys)
  ultimately show ?thesis using sz nb p by (auto simp: wb_size_ok_def wb_flushed_block)
qed

lemma wb_flushed_inv:
  assumes inv: "wb_inv E wb" and p: "wb_pool wb = xs @ b # ys"
  shows "wb_inv E (wb_flushed E b (xs @ ys) wb)"
  using assms wb_flushed_store_ok [of E wb b "xs @ ys"] wb_flushed_queue_ok [of E wb xs b ys]
    wb_flushed_size_ok [of E wb xs b ys]
  by (auto simp: wb_inv_core wb_core_def)

end
