(* ===== verification/Write_Buffer_Ops.thy ===== *)
theory Write_Buffer_Ops
  imports Write_Buffer_Flush
begin

section \<open>WriteBuffer: the pool, sync, close and read\<close>

text \<open>
  Under the invariant every flush task succeeds and writes one file, \<open>sync\<close> returns
  with an empty buffer, \<open>close\<close> frees every value exactly once, and \<open>read\<close> returns the
  bytes of the entry.
\<close>

subsection \<open>Flush tasks\<close>

lemma entry_sizes:
  assumes "wb_core E wb" "b \<in> set (wb_pool wb)"
  shows "sum_list (map kv_value_length (wb_block wb b)) \<le> block_limit wb"
proof -
  have "sum_list (map kv_value_length (wb_block wb b)) \<le> sum_list (map kv_slab (wb_block wb b))"
    using block_entry(2) [OF assms] by (intro sum_list_mono) (auto dest: entry_length_le_slab)
  also have "\<dots> \<le> block_limit wb" using assms by (simp add: wb_core_def wb_size_ok_def)
  finally show ?thesis .
qed

lemma int64_range_small: "0 \<le> x \<Longrightarrow> x \<le> 10 \<Longrightarrow> int64_range x"
  by (simp add: int64_range_def)

lemma flush_range_block:
  assumes core: "wb_core E wb" and b: "b \<in> set (wb_pool wb)"
  shows "flush_range_ok b 0 (wb_block wb b)"
proof -
  have "0 < b" "b < 2 ^ 63" "block_limit wb < 2 ^ 63"
    using core b by (fastforce simp: wb_core_def wb_queue_ok_def wb_size_ok_def)+
  moreover have "0 \<le> kv_value_length i \<and> int64_range (kv_value_length_type i)" if "i \<in> set (wb_block wb b)" for i
  proof -
    have "0 \<le> kv_value_length i" "kv_value_length i \<le> MB"
      "kv_value_length_type i = length_slab_type (kv_value_length i)"
      using block_entry(2) [OF core b that] by (simp_all add: entry_ok_def)
    moreover from this have "kv_value_length_type i \<le> 10" "0 \<le> kv_value_length_type i"
      by (simp_all add: length_slab_type_le_10)
    ultimately show ?thesis by (blast intro: int64_range_small)
  qed
  ultimately show ?thesis
    using entry_sizes [OF core b] unfolding flush_range_ok_def by (simp add: int64_range_def)
qed

definition block_bytes :: "write_buffer \<Rightarrow> int \<Rightarrow> byte list" where
  "block_bytes wb b = concat (map (wb_value (wb_heap wb)) (wb_block wb b))"

lemma block_values:
  assumes "wb_core E wb" "b \<in> set (wb_pool wb)" "i \<in> set (wb_block wb b)"
  shows "live (wb_heap wb) i"
  using block_entry(2) [OF assms] by (rule entry_live)

lemma wb_release_folds:
  "wb_heap (wb_release E is wb) = fold (\<lambda>i. AList.delete (kv_value i)) is (wb_heap wb)"
  "wb_kv_store (wb_release E is wb) = fold (\<lambda>i. AList.delete (hash E (kv_key i))) is (wb_kv_store wb)"
  by (induction "is" arbitrary: wb) simp_all

lemma wb_release_flag [simp]: "wb_initial_flag (wb_release E is wb) = wb_initial_flag wb"
  by (induction "is" arbitrary: wb) simp_all

lemma wb_release_pool:
  "wb_release E is (wb\<lparr>wb_pool := p\<rparr>) = (wb_release E is wb)\<lparr>wb_pool := p\<rparr>"
  by (rule write_buffer.equality) (simp_all add: wb_release_folds)

text \<open>A place of an entry and the bytes it stands for, in the file of its block.\<close>

definition place_ok :: "(string \<Rightarrow> byte list option) \<Rightarrow> string \<Rightarrow> byte list \<Rightarrow> index_info \<Rightarrow> bool" where
  "place_ok disk hdd v info \<longleftrightarrow>
     0 < info_block_id info \<and> 0 \<le> info_offset info \<and> info_length info = int (length v)
     \<and> info_length_type info = length_slab_type (int (length v)) \<and> int (length v) \<le> MB
     \<and> (\<exists>c. disk (block_path hdd (info_block_id info)) = Some c
            \<and> fread_at c (info_offset info) (info_length info) = v)"

context environment begin

lemma flush_spec:
  assumes core: "wb_core E wb" and p: "wb_pool wb = xs @ b # ys" and ci: "ci_db ci \<noteq> None"
    and dir: "wb_hdd_path wb \<in> dirs f" "block_path (wb_hdd_path wb) b \<notin> dirs f"
  shows "\<exists>ci'. WriteBuffer_flush E b (wb\<lparr>wb_pool := xs @ ys\<rparr>) ci f
      = Inr (wb_flushed E b (xs @ ys) wb, ci',
             f\<lparr>files := (files f)(block_path (wb_hdd_path wb) b \<mapsto> block_bytes wb b)\<rparr>)
    \<and> ci_db ci' \<noteq> None \<and> ci_name ci' = ci_name ci
    \<and> (\<forall>k j. index_lookup E ci' k = Some j \<longrightarrow>
          index_lookup E ci k = Some j \<or> (k, j) \<in> set (flush_places b 0 (wb_block wb b)))
    \<and> (index_small E ci \<longrightarrow> index_small E ci')"
proof -
  let ?wb = "wb\<lparr>wb_pool := xs @ ys\<rparr>" and ?path = "block_path (wb_hdd_path wb) b"
  have b: "b \<in> set (wb_pool wb)" using p by simp
  have blk: "wb_block ?wb b = wb_block wb b" by (simp add: wb_block_def)
  have live: "\<forall>i \<in> set (wb_block wb b). live (wb_heap ?wb) i"
    using block_values [OF core b] by simp
  obtain ci' where fl: "WriteBuffer_flush_entries E b (wb_block wb b) 0 ?wb ci [] 0
      = Inr (wb_release E (wb_block wb b) ?wb, ci', block_bytes wb b, sum_list (map kv_slab (wb_block wb b)))"
    "ci_db ci' \<noteq> None" "ci_name ci' = ci_name ci"
    "\<forall>k j. index_lookup E ci' k = Some j \<longrightarrow>
          index_lookup E ci k = Some j \<or> (k, j) \<in> set (flush_places b 0 (wb_block wb b))"
    "index_small E ci \<longrightarrow> index_small E ci'"
    using flush_entries_spec [OF live block_distinct(2) [OF core b] ci flush_range_block [OF core b], of "[]" 0]
    by (auto simp: block_bytes_def)
  let ?f1 = "if fs_exists E ?path f then fs_remove E ?path f else f"
  have "ofstream_write ?path (block_bytes wb b) (ofstream_write ?path [] ?f1)
      = f\<lparr>files := (files f)(?path \<mapsto> block_bytes wb b)\<rparr>"
    using dir by (simp add: ofstream_write_def fs.remove_file)
  then have "WriteBuffer_flush E b ?wb ci f
      = Inr (wb_flushed E b (xs @ ys) wb, ci', f\<lparr>files := (files f)(?path \<mapsto> block_bytes wb b)\<rparr>)"
    using fl(1) by (simp add: WriteBuffer_flush_def blk Let_def wb_flushed_def wb_release_pool)
  with fl(2-5) show ?thesis by blast
qed

lemma run_flush_spec:
  assumes inv: "wb_inv E wb" and i: "int i < wb_flush_thread_num wb" "i < length (wb_pool wb)"
    and ci: "ci_db ci \<noteq> None"
    and dir: "wb_hdd_path wb \<in> dirs f" "\<forall>b. block_path (wb_hdd_path wb) b \<notin> dirs f"
  defines "b \<equiv> wb_pool wb ! i"
  shows "\<exists>ci'. WriteBuffer_run E i wb ci f
      = Inr (wb_flushed E b (remove_nth i (wb_pool wb)) wb, ci',
             f\<lparr>files := (files f)(block_path (wb_hdd_path wb) b \<mapsto> block_bytes wb b)\<rparr>)
    \<and> wb_inv E (wb_flushed E b (remove_nth i (wb_pool wb)) wb)
    \<and> ci_db ci' \<noteq> None \<and> ci_name ci' = ci_name ci
    \<and> (\<forall>k j. index_lookup E ci' k = Some j \<longrightarrow>
          index_lookup E ci k = Some j \<or> (k, j) \<in> set (flush_places b 0 (wb_block wb b)))
    \<and> (index_small E ci \<longrightarrow> index_small E ci')"
proof -
  have p: "wb_pool wb = take i (wb_pool wb) @ b # drop (Suc i) (wb_pool wb)"
    using i b_def by (simp add: id_take_nth_drop)
  have core: "wb_core E wb" using inv by (simp add: wb_inv_core)
  show ?thesis
    using flush_spec [OF core p ci dir(1)] dir(2) wb_flushed_inv [OF inv p] i
    by (auto simp: WriteBuffer_run_def remove_nth_def b_def)
qed

text \<open>The entry of the index and the file agree after the flush.\<close>

lemma flush_place_ok:
  assumes core: "wb_core E wb" and b: "b \<in> set (wb_pool wb)"
    and pl: "(k, info) \<in> set (flush_places b 0 (wb_block wb b))"
  shows "\<exists>i \<in> set (wb_block wb b). kv_key i = k \<and> info_block_id info = b
     \<and> place_ok ((files f)(block_path hdd b \<mapsto> block_bytes wb b)) hdd (wb_value (wb_heap wb) i) info"
proof -
  have live: "\<forall>i \<in> set (wb_block wb b). live (wb_heap wb) i"
    using block_values [OF core b] by simp
  obtain i where i: "i \<in> set (wb_block wb b)" "kv_key i = k" "info_block_id info = b"
    "info_length info = kv_value_length i" "info_length_type info = kv_value_length_type i"
    "0 \<le> info_offset info"
    "fread_at (block_bytes wb b) (info_offset info) (info_length info) = wb_value (wb_heap wb) i"
    using flush_places_bytes [OF pl live, of "[]"] by (auto simp: block_bytes_def)
  have "entry_ok E (wb_heap wb) (hash E (kv_key i)) i" "0 < b"
    using block_entry(2) [OF core b i(1)] core b by (auto simp: wb_core_def wb_queue_ok_def)
  moreover have "int (length (wb_value (wb_heap wb) i)) = kv_value_length i"
    using live i(1) by (simp add: wb_value_length)
  ultimately show ?thesis
    using i by (intro bexI [of _ i]) (auto simp: place_ok_def entry_ok_def)
qed

lemma drain_spec:
  assumes "wb_inv E wb" "ci_db ci \<noteq> None"
    "wb_hdd_path wb \<in> dirs f" "\<forall>b. block_path (wb_hdd_path wb) b \<notin> dirs f"
  shows "\<exists>wb' ci' f'. WriteBuffer_drain E (wb_pool wb) wb ci f = Inr (wb', ci', f')
     \<and> wb_inv E wb' \<and> wb_pool wb' = [] \<and> wb_kv_list wb' = wb_kv_list wb
     \<and> wb_page_per_block wb' = wb_page_per_block wb
     \<and> ci_db ci' \<noteq> None \<and> dirs f' = dirs f"
  using assms
proof (induction "wb_pool wb" arbitrary: wb ci f)
  case Nil
  then have "wb\<lparr>wb_pool := []\<rparr> = wb" by simp
  then have "WriteBuffer_drain E [] wb ci f = Inr (wb, ci, f)" by (simp only: WriteBuffer_drain.simps)
  with Nil.prems show ?case
    by (auto simp: Nil.hyps [symmetric] simp del: WriteBuffer_drain.simps)
next
  case (Cons b bs)
  have core: "wb_core E wb" using Cons.prems(1) by (simp add: wb_inv_core)
  have p: "wb_pool wb = [] @ b # bs" using Cons.hyps(2) by simp
  let ?wb = "wb_flushed E b bs wb"
  have "\<exists>ci1. WriteBuffer_flush E b (wb\<lparr>wb_pool := bs\<rparr>) ci f
      = Inr (?wb, ci1, f\<lparr>files := (files f)(block_path (wb_hdd_path wb) b \<mapsto> block_bytes wb b)\<rparr>)
      \<and> ci_db ci1 \<noteq> None"
    using flush_spec [OF core p Cons.prems(2,3)] Cons.prems(4) by auto
  then obtain ci1 where ci1: "WriteBuffer_flush E b (wb\<lparr>wb_pool := bs\<rparr>) ci f
      = Inr (?wb, ci1, f\<lparr>files := (files f)(block_path (wb_hdd_path wb) b \<mapsto> block_bytes wb b)\<rparr>)"
      "ci_db ci1 \<noteq> None"
    by blast
  have inv: "wb_inv E ?wb" using wb_flushed_inv [OF Cons.prems(1) p] by simp
  have "\<exists>wb' ci' f'. WriteBuffer_drain E (wb_pool ?wb) ?wb ci1
        (f\<lparr>files := (files f)(block_path (wb_hdd_path wb) b \<mapsto> block_bytes wb b)\<rparr>) = Inr (wb', ci', f')
     \<and> wb_inv E wb' \<and> wb_pool wb' = [] \<and> wb_kv_list wb' = wb_kv_list ?wb
     \<and> wb_page_per_block wb' = wb_page_per_block ?wb
     \<and> ci_db ci' \<noteq> None
     \<and> dirs f' = dirs (f\<lparr>files := (files f)(block_path (wb_hdd_path wb) b \<mapsto> block_bytes wb b)\<rparr>)"
    using inv ci1(2) Cons.prems(3,4) by (intro Cons.hyps(1)) simp_all
  then show ?case using ci1(1) by (simp add: Cons.hyps(2) [symmetric])
qed

end

text \<open>With nothing queued and nothing pending, the buffer is empty.\<close>

lemma empty_buffer:
  assumes inv: "wb_inv E wb" and "wb_kv_list wb = []" "wb_pool wb = []"
  shows "wb_kv_store wb = []" "wb_heap wb = []" "wb_blocks wb = []" "wb_total_size wb = 0"
    "wb_total_size_without_block wb = 0"
proof -
  have k: "wb_keys E wb = []" using assms by (simp add: wb_keys_def)
  have "dom (map_of (wb_kv_store wb)) = {}"
    using inv k by (simp add: wb_inv_def wb_queue_ok_def)
  then show s: "wb_kv_store wb = []" by (cases "wb_kv_store wb") (auto simp: dom_def split: if_splits)
  have "dom (map_of (wb_heap wb)) = {}"
    using inv s by (simp add: wb_inv_def wb_store_ok_def)
  then show "wb_heap wb = []" by (cases "wb_heap wb") (auto simp: dom_def split: if_splits)
  have "dom (map_of (wb_blocks wb)) = {}"
    using inv assms by (simp add: wb_inv_def wb_queue_ok_def)
  then show "wb_blocks wb = []" by (cases "wb_blocks wb") (auto simp: dom_def split: if_splits)
  show "wb_total_size wb = 0" "wb_total_size_without_block wb = 0"
    using inv k assms by (simp_all add: wb_inv_def wb_size_ok_def)
qed


subsection \<open>sync\<close>

lemma cut_for_sync:
  assumes inv: "wb_inv E wb" and ne: "wb_kv_list wb \<noteq> []" and id: "wb_latest_block_id wb + 1 < 2 ^ 63"
  obtains n where "0 < n" "n \<le> length (wb_kv_list wb)" "WriteBuffer_cut_block True wb = Inr (wb_cut n wb)"
    "wb_inv E (wb_cut n wb)"
proof -
  have core: "wb_core E wb" using inv by (simp add: wb_inv_core)
  have dom: "set (wb_kv_list wb) \<subseteq> dom (map_of (wb_kv_store wb))"
    using core by (auto simp: wb_core_def wb_queue_ok_def wb_keys_def)
  have lim: "MB \<le> block_limit wb" using core by (simp add: wb_core_def wb_size_ok_def)
  then have lim0: "0 \<le> block_limit wb" by simp
  obtain "is" rest where
    "WriteBuffer_pack True (block_limit wb) (wb_kv_store wb) 0 (wb_kv_list wb) = Inr (is, rest)"
    using pack_total [of "wb_kv_list wb" "wb_kv_store wb" True "block_limit wb" 0] dom lim0 by auto
  with id have "\<exists>wb'. WriteBuffer_cut_block True wb = Inr wb'"
    by (auto simp: WriteBuffer_cut_block_def Let_def)
  then obtain wb' where cut: "WriteBuffer_cut_block True wb = Inr wb'" by blast
  obtain n where n: "n \<le> length (wb_kv_list wb)" "wb' = wb_cut n wb"
    "slab_sum (wb_kv_store wb) (take n (wb_kv_list wb)) \<le> block_limit wb"
    "n < length (wb_kv_list wb) \<Longrightarrow> block_limit wb < slab_sum (wb_kv_store wb) (take (Suc n) (wb_kv_list wb))"
    using cut_block_Inr [OF cut] lim0 by blast
  have "n \<noteq> 0"
  proof
    assume z: "n = 0"
    obtain h hs where hs: "wb_kv_list wb = h # hs" using ne by (cases "wb_kv_list wb") auto
    then have "slab_of (wb_kv_store wb) h \<le> MB"
      using slab_of_bounds [of E wb h] core dom by (auto simp: wb_core_def)
    then show False using n(4) z hs lim by simp
  qed
  moreover have "set (take n (wb_kv_list wb)) \<subseteq> dom (map_of (wb_kv_store wb))"
    using dom set_take_subset [of n "wb_kv_list wb"] by blast
  with core n(3) id have "wb_core E (wb_cut n wb)" by (intro wb_cut_core) auto
  moreover have "0 \<le> slab_sum (wb_kv_store wb) (take n (wb_kv_list wb))"
    using core dom set_take_subset [of n "wb_kv_list wb"]
    by (intro slab_sum_nonneg [of E]) (auto simp: wb_core_def)
  then have "wb_total_size_without_block (wb_cut n wb) \<le> block_limit wb"
  proof -
    have "wb_total_size_without_block (wb_cut n wb) = slab_sum (wb_kv_store wb) (drop n (wb_kv_list wb))"
      using \<open>wb_core E (wb_cut n wb)\<close> by (simp add: wb_core_def wb_size_ok_def)
    moreover have "slab_sum (wb_kv_store wb) (wb_kv_list wb) =
        slab_sum (wb_kv_store wb) (take n (wb_kv_list wb)) + slab_sum (wb_kv_store wb) (drop n (wb_kv_list wb))"
      by (metis append_take_drop_id slab_sum_simps(3))
    ultimately show ?thesis
      using inv \<open>0 \<le> slab_sum (wb_kv_store wb) (take n (wb_kv_list wb))\<close>
      by (simp add: wb_inv_def wb_size_ok_def)
  qed
  ultimately show ?thesis using that [of n] n(1,2) cut by (simp add: wb_inv_core)
qed

text \<open>The first loop of \<open>sync\<close> ends: each round takes at least one value off the queue.\<close>

lemma sync_loop_spec:
  assumes "wb_inv E wb" "wb_latest_block_id wb + int (length (wb_kv_list wb)) < 2 ^ 63"
  shows "\<exists>wb'. WriteBuffer_sync_loop wb = Some (Inr wb') \<and> wb_inv E wb' \<and> wb_kv_list wb' = []
     \<and> wb_kv_store wb' = wb_kv_store wb \<and> wb_heap wb' = wb_heap wb \<and> wb_hdd_path wb' = wb_hdd_path wb"
  using assms
proof (induction "length (wb_kv_list wb)" arbitrary: wb rule: less_induct)
  case less
  show ?case
  proof (cases "wb_kv_list wb = []")
    case True
    with less.prems show ?thesis by (subst WriteBuffer_sync_loop.simps) auto
  next
    case False
    then have "0 < length (wb_kv_list wb)" by simp
    then have id: "wb_latest_block_id wb + 1 < 2 ^ 63" using less.prems(2) by linarith
    obtain n where n: "0 < n" "n \<le> length (wb_kv_list wb)"
      "WriteBuffer_cut_block True wb = Inr (wb_cut n wb)" "wb_inv E (wb_cut n wb)"
      using cut_for_sync [OF less.prems(1) False id] by blast
    have "wb_latest_block_id (wb_cut n wb) + int (length (wb_kv_list (wb_cut n wb))) < 2 ^ 63"
      using less.prems(2) n(1,2) by simp
    then obtain wb' where wb': "WriteBuffer_sync_loop (wb_cut n wb) = Some (Inr wb')" "wb_inv E wb'"
      "wb_kv_list wb' = []" "wb_kv_store wb' = wb_kv_store wb" "wb_heap wb' = wb_heap wb"
      "wb_hdd_path wb' = wb_hdd_path (wb_cut n wb)"
      using less.hyps [of "wb_cut n wb"] n(1,2,4) False wb_cut_fields(1,2,5)
      by (metis diff_less length_drop length_greater_0_conv)
    moreover have "WriteBuffer_sync_loop wb = WriteBuffer_sync_loop (wb_cut n wb)"
      using False n(3) by (subst WriteBuffer_sync_loop.simps) simp
    moreover have "wb_hdd_path (wb_cut n wb) = wb_hdd_path wb" by (simp add: wb_cut_def Let_def)
    ultimately show ?thesis by auto
  qed
qed

context environment begin

lemma sync_spec:
  assumes inv: "wb_inv E wb" and id: "wb_latest_block_id wb + int (length (wb_kv_list wb)) < 2 ^ 63"
    and ci: "ci_db ci \<noteq> None"
    and dir: "wb_hdd_path wb \<in> dirs f" "\<forall>b. block_path (wb_hdd_path wb) b \<notin> dirs f"
  shows "\<exists>wb' ci' f'. WriteBuffer_sync E wb ci f = Some (Inr (0, wb', ci', f'))
     \<and> wb_inv E wb' \<and> wb_kv_store wb' = [] \<and> wb_heap wb' = [] \<and> wb_pool wb' = []
     \<and> wb_total_size wb' = 0 \<and> ci_db ci' \<noteq> None \<and> dirs f' = dirs f"
proof -
  obtain wb1 where wb1: "WriteBuffer_sync_loop wb = Some (Inr wb1)" "wb_inv E wb1" "wb_kv_list wb1 = []"
    "wb_hdd_path wb1 = wb_hdd_path wb"
    using sync_loop_spec [OF inv id] by blast
  obtain wb' ci' f' where d: "WriteBuffer_drain E (wb_pool wb1) wb1 ci f = Inr (wb', ci', f')"
    "wb_inv E wb'" "wb_pool wb' = []" "wb_kv_list wb' = []" "ci_db ci' \<noteq> None" "dirs f' = dirs f"
    using drain_spec [OF wb1(2) ci, of f] dir unfolding wb1(3,4) by blast
  show ?thesis
    using empty_buffer [OF d(2,4,3)] d wb1(1) by (auto simp: WriteBuffer_sync_def)
qed

end


subsection \<open>close\<close>

lemma free_values_spec:
  "\<forall>i \<in> set is. map_of heap (kv_value i) \<noteq> None \<Longrightarrow> distinct (map kv_value is) \<Longrightarrow>
     WriteBuffer_free_values is heap = Inr (fold (\<lambda>i. AList.delete (kv_value i)) is heap)"
proof (induction "is" arbitrary: heap)
  case (Cons i "is")
  have "kv_value j \<noteq> kv_value i" if "j \<in> set is" for j
    using that Cons.prems(2) by (metis distinct.simps(2) image_eqI list.simps(9) set_map)
  with Cons show ?case by auto
qed simp

lemma fold_delete_lookup:
  "map_of (fold (\<lambda>i. AList.delete (kv_value i)) is heap) a =
     (if a \<in> kv_value ` set is then None else map_of heap a)"
  by (induction "is" arbitrary: heap) auto

lemma drain_empty_blocks:
  "wb_blocks wb = [] \<Longrightarrow>
     \<exists>wb' f'. WriteBuffer_drain E bs wb ci f = Inr (wb', ci, f')
       \<and> wb_heap wb' = wb_heap wb \<and> wb_kv_store wb' = wb_kv_store wb \<and> wb_kv_list wb' = wb_kv_list wb
       \<and> wb_blocks wb' = [] \<and> wb_pool wb' = []"
proof (induction bs arbitrary: wb f)
  case (Cons b bs)
  let ?wb = "wb\<lparr>wb_pool := bs, wb_blocks := [], wb_total_size := wb_total_size wb\<rparr>"
  obtain f1 where "WriteBuffer_flush E b (wb\<lparr>wb_pool := bs\<rparr>) ci f = Inr (?wb, ci, f1)"
    using Cons.prems by (simp add: WriteBuffer_flush_def wb_block_def Let_def)
  then show ?case using Cons.IH [of ?wb f1] by simp
qed auto

lemma store_entries:
  assumes st: "wb_store_ok E wb"
  shows "\<forall>i \<in> set (map snd (wb_kv_store wb)). map_of (wb_heap wb) (kv_value i) \<noteq> None"
    and "distinct (map kv_value (map snd (wb_kv_store wb)))"
    and "kv_value ` set (map snd (wb_kv_store wb)) = dom (map_of (wb_heap wb))"
proof -
  have wf: "umap_wf (wb_kv_store wb)" using st by (simp add: wb_store_ok_def)
  then have mem: "(h, i) \<in> set (wb_kv_store wb) \<longleftrightarrow> map_of (wb_kv_store wb) h = Some i" for h i by simp
  show "\<forall>i \<in> set (map snd (wb_kv_store wb)). map_of (wb_heap wb) (kv_value i) \<noteq> None"
    using st mem unfolding wb_store_ok_def entry_ok_def by fastforce
  have "inj_on (\<lambda>x. kv_value (snd x)) (set (wb_kv_store wb))"
  proof (rule inj_onI, clarify)
    fix h i h' j
    assume "(h, i) \<in> set (wb_kv_store wb)" "(h', j) \<in> set (wb_kv_store wb)"
      and "kv_value (snd (h, i)) = kv_value (snd (h', j))"
    then have m: "map_of (wb_kv_store wb) h = Some i" "map_of (wb_kv_store wb) h' = Some j" "kv_value i = kv_value j"
      using mem by simp_all
    with store_value_inj [OF st] have "h = h'" by blast
    with m show "h = h' \<and> i = j" by simp
  qed
  moreover have "distinct (wb_kv_store wb)" using wf by (simp add: distinct_map)
  ultimately show "distinct (map kv_value (map snd (wb_kv_store wb)))"
    by (simp add: distinct_map o_def)
  have "set (map snd (wb_kv_store wb)) = ran (map_of (wb_kv_store wb))"
    using wf by (simp add: ran_distinct)
  then show "kv_value ` set (map snd (wb_kv_store wb)) = dom (map_of (wb_heap wb))"
    using st by (simp add: wb_store_ok_def)
qed

text \<open>No value is freed twice and none is left: the heap is empty afterwards.\<close>

lemma close_spec:
  assumes "wb_inv E wb"
  shows "\<exists>wb' ci' f'. WriteBuffer_close E wb ci f = Inr (0, wb', ci', f')
     \<and> wb_heap wb' = [] \<and> wb_kv_store wb' = [] \<and> wb_kv_list wb' = [] \<and> wb_blocks wb' = []
     \<and> wb_pool wb' = []"
proof -
  let ?is = "map snd (wb_kv_store wb)"
  have st: "wb_store_ok E wb" using assms by (simp add: wb_inv_def)
  let ?heap = "fold (\<lambda>i. AList.delete (kv_value i)) ?is (wb_heap wb)"
  have "map_of ?heap a = None" for a
    unfolding fold_delete_lookup store_entries(3) [OF st] by auto
  then have heap: "?heap = []" by (cases ?heap) (auto split: if_splits, metis option.distinct(1))
  let ?wb = "wb\<lparr>wb_heap := [], wb_kv_store := [], wb_blocks := [], wb_kv_list := []\<rparr>"
  show ?thesis
    using drain_empty_blocks [of ?wb E "wb_pool wb" ci f]
    unfolding WriteBuffer_close_def free_values_spec [OF store_entries(1,2) [OF st]] heap
    by auto
qed


subsection \<open>read\<close>

lemma wb_read_spec:
  assumes "wb_inv E wb"
  shows "WriteBuffer_read E key value wb =
    (case map_of (wb_kv_store wb) (hash E key) of
       None \<Rightarrow> Inr (0, value)
     | Some i \<Rightarrow>
         and_then (buf_write 0 (wb_value (wb_heap wb) i) value)
           (\<lambda>value'. Inr (int (length (wb_value (wb_heap wb) i)), value')))"
proof (cases "map_of (wb_kv_store wb) (hash E key)")
  case (Some i)
  then have "entry_ok E (wb_heap wb) (hash E key) i"
    using assms by (simp add: wb_inv_def wb_store_ok_def)
  then have live: "live (wb_heap wb) i" by (rule entry_live)
  then obtain v where v: "map_of (wb_heap wb) (kv_value i) = Some v" "nat (kv_value_length i) \<le> length v"
    by (auto simp: live_def)
  then show ?thesis
    using Some wb_value_length [OF live] by (simp add: WriteBuffer_read_def buf_read_def wb_value_def)
qed (simp add: WriteBuffer_read_def)

text \<open>A value that was accepted is returned byte for byte while it is in the buffer.\<close>

lemma written_lookup:
  assumes "map_of (wb_kv_store wb) (hash E key) = None"
  shows "\<exists>i. map_of (wb_kv_store (wb_written E key bytes wb)) (hash E key) = Some i
    \<and> kv_key i = key \<and> wb_value (wb_heap (wb_written E key bytes wb)) i = bytes"
  by (simp add: wb_written_def Let_def add_entry_lookup wb_value_def add_entry_heap)

lemma written_frame:
  assumes inv: "wb_inv E wb" and m: "map_of (wb_kv_store wb) h = Some i" and "h \<noteq> hash E key"
  shows "map_of (wb_kv_store (wb_written E key bytes wb)) h = Some i
    \<and> wb_value (wb_heap (wb_written E key bytes wb)) i = wb_value (wb_heap wb) i"
proof -
  have "kv_value i \<in> dom (map_of (wb_heap wb))"
    using inv m unfolding wb_inv_def wb_store_ok_def entry_ok_def by blast
  then have "kv_value i \<noteq> wb_brk wb" using inv by (auto simp: wb_inv_def wb_store_ok_def)
  then show ?thesis
    using assms by (simp add: wb_written_def Let_def add_entry_lookup wb_value_def add_entry_heap)
qed


subsection \<open>A writer that waits\<close>

text \<open>
  When the buffer holds a block, a writer that waits for memory has a flush task to wait
  for, and every task leaves one task fewer.
\<close>

lemma write_waits_pending:
  assumes inv: "wb_inv E wb" and w: "wb_total_size wb > wb_max_page_num wb * wb_page_size wb"
    and room: "block_limit wb \<le> wb_max_page_num wb * wb_page_size wb"
  shows "wb_pool wb \<noteq> []"
proof
  assume "wb_pool wb = []"
  then have "wb_keys E wb = wb_kv_list wb" by (simp add: wb_keys_def)
  then have "wb_total_size wb = wb_total_size_without_block wb"
    using inv by (simp add: wb_inv_def wb_size_ok_def)
  then show False using inv w room by (simp add: wb_inv_def)
qed

end
