(* ===== verification/Lookup_Layer.thy ===== *)
theory Lookup_Layer
  imports Mog_Prelude
begin

section \<open>Layers of a lookup\<close>

text \<open>
  The server looks a key up in one store after the other: the write buffer, then the main
  memory cache, which itself goes to the index and the block files. Each layer keeps the
  contract \<open>lookup_layer\<close>: in a good state (\<open>ok\<close>) and for a known key it returns, leaves
  a good state with the same stored values, and a length other than 0 is the length of
  the stored value, which is then at the front of the buffer. Two layers, one behind the
  other, keep it again. \<open>Mog_Coherence\<close> interprets the contract with the code's layers.
\<close>

definition then_look ::
  "(string \<Rightarrow> byte list \<Rightarrow> 's \<Rightarrow> (int \<times> byte list \<times> 's) outcome)
   \<Rightarrow> (string \<Rightarrow> byte list \<Rightarrow> 's \<Rightarrow> (int \<times> byte list \<times> 's) outcome)
   \<Rightarrow> string \<Rightarrow> byte list \<Rightarrow> 's \<Rightarrow> (int \<times> byte list \<times> 's) outcome" where
  "then_look look1 look2 key value s =
     and_then (look1 key value s) (\<lambda>(n, value1, s1).
       if n > 0 then Inr (n, value1, s1) else look2 key value1 s1)"

definition lookup_result :: "(byte list \<Rightarrow> bool) \<Rightarrow> int \<Rightarrow> byte list \<Rightarrow> bool" where
  "lookup_result stored n buffer \<longleftrightarrow>
     n = 0 \<or> (\<exists>c. stored c \<and> n = int (length c) \<and> take (length c) buffer = c)"

locale lookup_layer =
  fixes look :: "string \<Rightarrow> byte list \<Rightarrow> 's \<Rightarrow> (int \<times> byte list \<times> 's) outcome"
    and ok :: "'s \<Rightarrow> bool"
    and known :: "string \<Rightarrow> bool"
    and stored :: "'s \<Rightarrow> string \<Rightarrow> byte list \<Rightarrow> bool"
    and frame :: "'s \<Rightarrow> 's \<Rightarrow> bool"
  assumes look_spec:
      "ok s \<Longrightarrow> known key \<Longrightarrow> 1048576 \<le> length value \<Longrightarrow>
         \<exists>n value' s'. look key value s = Inr (n, value', s') \<and> ok s' \<and> stored s' = stored s
           \<and> frame s s' \<and> length value' = length value \<and> lookup_result (stored s key) n value'"
    and frame_trans: "frame s s' \<Longrightarrow> frame s' s'' \<Longrightarrow> frame s s''"
begin

lemma look_sound:
  assumes "look key value s = Inr (n, value', s')" "ok s" "known key" "1048576 \<le> length value"
  shows "ok s' \<and> stored s' = stored s \<and> frame s s' \<and> length value' = length value
    \<and> lookup_result (stored s key) n value'"
  using look_spec [OF assms(2-4)] assms(1) by auto

lemma look_nonneg:
  assumes "look key value s = Inr (n, value', s')" "ok s" "known key" "1048576 \<le> length value"
  shows "0 \<le> n"
  using look_sound [OF assms] by (auto simp: lookup_result_def)

end

locale two_layers =
  first: lookup_layer look1 ok known stored frame +
  second: lookup_layer look2 ok known stored frame
  for look1 look2 ok known stored frame
begin

lemma then_look_spec:
  assumes "ok s" "known key" "1048576 \<le> length value"
  shows "\<exists>n value' s'. then_look look1 look2 key value s = Inr (n, value', s') \<and> ok s'
    \<and> stored s' = stored s \<and> frame s s' \<and> length value' = length value
    \<and> lookup_result (stored s key) n value'"
proof -
  obtain n1 v1 s1 where l1: "look1 key value s = Inr (n1, v1, s1)" "ok s1" "stored s1 = stored s"
    "frame s s1" "length v1 = length value" "lookup_result (stored s key) n1 v1"
    using first.look_spec [OF assms] by blast
  show ?thesis
  proof (cases "n1 > 0")
    case True
    with l1 show ?thesis by (auto simp: then_look_def)
  next
    case False
    have "1048576 \<le> length v1" using l1(5) assms(3) by simp
    then obtain n2 v2 s2 where l2: "look2 key v1 s1 = Inr (n2, v2, s2)" "ok s2" "stored s2 = stored s1"
      "frame s1 s2" "length v2 = length v1" "lookup_result (stored s1 key) n2 v2"
      using second.look_spec [OF l1(2) assms(2)] by blast
    have "then_look look1 look2 key value s = Inr (n2, v2, s2)"
      using l1(1) l2(1) False by (simp add: then_look_def)
    then show ?thesis using l1 l2 first.frame_trans by auto
  qed
qed

end

context two_layers begin

sublocale both: lookup_layer "then_look look1 look2" ok known stored frame
  by unfold_locales (fact then_look_spec, fact first.frame_trans)

end

end
