(* ===== verification/Mog_Coherence.thy ===== *)
theory Mog_Coherence
  imports Mog_Core Write_Buffer_Ops Lookup_Layer
begin

section \<open>Coherence: what the caches hold is what the files hold\<close>

text \<open>
  The server is a cache of files that do not change while it runs. For a set \<open>P\<close> of
  requested paths whose double hashes differ (\<open>keys_apart\<close>), \<open>mog_ok\<close> says that the
  components are in their own invariants and that every value in the write buffer, behind
  an entry of the index, or in the main memory cache is the content of the file it stands
  for. Every operation and every background task keeps it, so a read returns the bytes of
  the file, from whichever layer they come.
\<close>

subsection \<open>The invariant\<close>

definition stored_file :: "'db env \<Rightarrow> string set \<Rightarrow> 'db mog_state \<Rightarrow> string \<Rightarrow> byte list \<Rightarrow> bool" where
  "stored_file E P st k v \<longleftrightarrow>
     (\<exists>p \<in> P. path_key E p = k \<and> files (st_fs st) p = Some v \<and> length v \<le> 1048576)"

definition known_key :: "'db env \<Rightarrow> string set \<Rightarrow> string \<Rightarrow> bool" where
  "known_key E P k \<longleftrightarrow> k \<in> path_key E ` P"

definition keys_apart :: "'db env \<Rightarrow> string set \<Rightarrow> bool" where
  "keys_apart E P \<longleftrightarrow>
     (\<forall>p \<in> P. \<forall>q \<in> P. hash E (path_key E p) = hash E (path_key E q) \<longrightarrow> p = q)"

definition paths_apart :: "string set \<Rightarrow> string \<Rightarrow> string \<Rightarrow> bool" where
  "paths_apart P ssd hdd \<longleftrightarrow> (\<forall>p \<in> P. \<forall>b. p \<noteq> block_path ssd b \<and> p \<noteq> block_path hdd b)"

definition wb_coherent :: "'db env \<Rightarrow> string set \<Rightarrow> 'db mog_state \<Rightarrow> bool" where
  "wb_coherent E P st \<longleftrightarrow>
     (\<forall>h i. map_of (wb_kv_store (st_wb st)) h = Some i \<longrightarrow>
        stored_file E P st (kv_key i) (wb_value (wb_heap (st_wb st)) i))"

definition index_coherent :: "'db env \<Rightarrow> string set \<Rightarrow> 'db mog_state \<Rightarrow> bool" where
  "index_coherent E P st \<longleftrightarrow>
     (\<forall>k info. index_lookup E (st_ci st) k = Some info \<longrightarrow>
        info_block_id info \<notin> set (wb_pool (st_wb st))
        \<and> (\<exists>v. stored_file E P st k v
               \<and> place_ok (files (st_fs st)) (wb_hdd_path (st_wb st)) v info))"

definition cpu_coherent :: "'db env \<Rightarrow> string set \<Rightarrow> 'db mog_state \<Rightarrow> bool" where
  "cpu_coherent E P st \<longleftrightarrow>
     (\<forall>k item. map_of (cpu_cached_item (st_cpu st)) k = Some item \<longrightarrow>
        stored_file E P st k (cpu_value (st_cpu st) item) \<and> length (item_slabs item) \<le> 1024)"

definition blocks_ok :: "'db mog_state \<Rightarrow> bool" where
  "blocks_ok st \<longleftrightarrow>
     wb_hdd_path (st_wb st) = ssd_hdd_path (st_ssd st)
     \<and> wb_hdd_path (st_wb st) \<in> dirs (st_fs st)
     \<and> (\<forall>b. files (st_fs st) (block_path (wb_hdd_path (st_wb st)) b) \<noteq> None \<longrightarrow>
           0 < b \<and> b \<le> wb_latest_block_id (st_wb st) \<and> b \<notin> set (wb_pool (st_wb st)))"

definition mog_ok :: "'db env \<Rightarrow> string set \<Rightarrow> 'db mog_state \<Rightarrow> bool" where
  "mog_ok E P st \<longleftrightarrow>
     wb_inv E (st_wb st) \<and> ssd_inv (st_ssd st) (st_fs st) \<and> cpu_wf (st_cpu st)
     \<and> ci_db (st_ci st) \<noteq> None \<and> index_small E (st_ci st)
     \<and> blocks_ok st \<and> keys_apart E P
     \<and> paths_apart P (ssd_ssd_path (st_ssd st)) (ssd_hdd_path (st_ssd st))
     \<and> wb_coherent E P st \<and> index_coherent E P st \<and> cpu_coherent E P st"

lemma mog_okD:
  assumes "mog_ok E P st"
  shows "wb_inv E (st_wb st)" "ssd_inv (st_ssd st) (st_fs st)" "cpu_wf (st_cpu st)"
    "ci_db (st_ci st) \<noteq> None" "index_small E (st_ci st)" "blocks_ok st" "keys_apart E P"
    "paths_apart P (ssd_ssd_path (st_ssd st)) (ssd_hdd_path (st_ssd st))"
    "wb_coherent E P st" "index_coherent E P st" "cpu_coherent E P st"
  using assms by (simp_all add: mog_ok_def)

text \<open>What a request or a task leaves unchanged: the parameters and the files requested.\<close>

definition mog_frame :: "string set \<Rightarrow> 'db mog_state \<Rightarrow> 'db mog_state \<Rightarrow> bool" where
  "mog_frame P st st' \<longleftrightarrow>
     (\<forall>p \<in> P. files (st_fs st') p = files (st_fs st) p)
     \<and> mog_ready (st_mog st') = mog_ready (st_mog st) \<and> dirs (st_fs st') = dirs (st_fs st)
     \<and> ssd_ssd_path (st_ssd st') = ssd_ssd_path (st_ssd st)
     \<and> ssd_hdd_path (st_ssd st') = ssd_hdd_path (st_ssd st)
     \<and> ssd_max_block_num (st_ssd st') = ssd_max_block_num (st_ssd st)"

lemma stored_file_unique:
  assumes "keys_apart E P" "stored_file E P st k v" "stored_file E P st k' v'" "hash E k = hash E k'"
  shows "k = k' \<and> v = v'"
proof -
  obtain p q where pq: "p \<in> P" "path_key E p = k" "files (st_fs st) p = Some v"
    "q \<in> P" "path_key E q = k'" "files (st_fs st) q = Some v'"
    using assms(2,3) by (auto simp: stored_file_def)
  then have "p = q" using assms(1,4) unfolding keys_apart_def by blast
  with pq show ?thesis by auto
qed

lemma known_key_unique:
  assumes "keys_apart E P" "stored_file E P st k v" "known_key E P k'" "hash E k = hash E k'"
  shows "k = k'"
proof -
  obtain p q where pq: "p \<in> P" "path_key E p = k" "q \<in> P" "path_key E q = k'"
    using assms(2,3) by (auto simp: stored_file_def known_key_def)
  then have "p = q" using assms(1,4) unfolding keys_apart_def by blast
  with pq show ?thesis by auto
qed

lemma stored_file_frame: "mog_frame P st st' \<Longrightarrow> stored_file E P st' = stored_file E P st"
  by (auto simp: stored_file_def mog_frame_def fun_eq_iff)

lemma mog_frame_trans: "mog_frame P s s' \<Longrightarrow> mog_frame P s' s'' \<Longrightarrow> mog_frame P s s''"
  by (simp add: mog_frame_def)


subsection \<open>The layers\<close>

definition wb_look ::
  "'db env \<Rightarrow> string \<Rightarrow> byte list \<Rightarrow> 'db mog_state \<Rightarrow> (int \<times> byte list \<times> 'db mog_state) outcome" where
  "wb_look E key value st =
     and_then (WriteBuffer_read E key value (st_wb st)) (\<lambda>(n, value'). Inr (n, value', st))"

definition cpu_look ::
  "'db env \<Rightarrow> string \<Rightarrow> byte list \<Rightarrow> 'db mog_state \<Rightarrow> (int \<times> byte list \<times> 'db mog_state) outcome" where
  "cpu_look E key value st =
     and_then (CpuCache_read E key value (st_cpu st) (st_ci st) (st_ssd st) (st_fs st))
       (\<lambda>(n, value', cpu', ssd'). Inr (n, value', st\<lparr>st_cpu := cpu', st_ssd := ssd'\<rparr>))"

lemma mog_read_layers: "mog_read E = then_look (wb_look E) (cpu_look E)"
proof (intro ext)
  fix key "value" st
  show "mog_read E key value st = then_look (wb_look E) (cpu_look E) key value st"
    by (cases "WriteBuffer_read E key value (st_wb st)")
      (auto simp: mog_read_def then_look_def wb_look_def cpu_look_def)
qed

lemma wb_look_spec:
  assumes ok: "mog_ok E P st" and key: "known_key E P key" and room: "1048576 \<le> length value"
  shows "\<exists>n value' st'. wb_look E key value st = Inr (n, value', st') \<and> mog_ok E P st'
     \<and> stored_file E P st' = stored_file E P st \<and> mog_frame P st st' \<and> length value' = length value
     \<and> lookup_result (stored_file E P st key) n value'"
proof (cases "map_of (wb_kv_store (st_wb st)) (hash E key)")
  case None
  then show ?thesis
    using ok wb_read_spec [OF mog_okD(1) [OF ok]]
    by (simp add: wb_look_def lookup_result_def mog_frame_def)
next
  case (Some i)
  let ?v = "wb_value (wb_heap (st_wb st)) i"
  have st: "stored_file E P st (kv_key i) ?v"
    using mog_okD(9) [OF ok] Some by (simp add: wb_coherent_def)
  have e: "entry_ok E (wb_heap (st_wb st)) (hash E key) i"
    using mog_okD(1) [OF ok] Some by (simp add: wb_inv_def wb_store_ok_def)
  then have "kv_key i = key"
    using known_key_unique [OF mog_okD(7) [OF ok] st key] by (simp add: entry_ok_def)
  moreover have "length ?v \<le> length value"
    using wb_value_length [OF entry_live [OF e]] e room unfolding entry_ok_def by linarith
  ultimately show ?thesis
    using Some st ok wb_read_spec [OF mog_okD(1) [OF ok], of key "value"]
    by (auto simp: wb_look_def lookup_result_def mog_frame_def)
qed

lemma place_bounds:
  assumes "place_ok disk hdd v info"
  shows "info_length info = int (length v)" "info_length_type info \<le> 10"
    "slab_count (info_length_type info) \<le> 1024"
    "info_length info \<le> 1024 * int (slab_count (info_length_type info))" "length v \<le> 1048576"
  using assms length_slab_type_le_10 [of "int (length v)"] length_le_slab_count [of "int (length v)"]
    slab_count_le_1024 [of "info_length_type info"]
  by (auto simp: place_ok_def)

lemma cpu_look_spec:
  assumes ok: "mog_ok E P st" and key: "known_key E P key" and room: "1048576 \<le> length value"
  shows "\<exists>n value' st'. cpu_look E key value st = Inr (n, value', st') \<and> mog_ok E P st'
     \<and> stored_file E P st' = stored_file E P st \<and> mog_frame P st st' \<and> length value' = length value
     \<and> lookup_result (stored_file E P st key) n value'"
proof (cases "map_of (cpu_cached_item (st_cpu st)) key")
  case (Some item)
  let ?c = "st_cpu st"
  have st: "stored_file E P st key (cpu_value ?c item)" "length (item_slabs item) \<le> 1024"
    using mog_okD(11) [OF ok] Some by (simp_all add: cpu_coherent_def)
  then have "1024 * length (item_slabs item) \<le> length value" using room by simp
  then obtain value' where rd: "CpuCache_read E key value ?c (st_ci st) (st_ssd st) (st_fs st)
      = Inr (item_length item, value', ?c, st_ssd st)"
    "take (nat (item_length item)) value' = cpu_value ?c item" "length value' = length value"
    using read_hit [OF mog_okD(3) [OF ok] Some] by blast
  have "item_length item = int (length (cpu_value ?c item))"
    using cpu_value_length [OF mog_okD(3) [OF ok] Some] by simp
  then show ?thesis
    using rd st(1) ok by (auto simp: cpu_look_def lookup_result_def mog_frame_def)
next
  case None
  let ?c = "st_cpu st" and ?f = "st_fs st" and ?s = "st_ssd st"
  obtain n bytes where g: "CentraIndex_get E key (replicate 32 0) sizeof_index_info (st_ci st) = Inr (n, bytes)"
    "case index_lookup E (st_ci st) key of None \<Rightarrow> n \<noteq> sizeof_index_info
       | Some info \<Rightarrow> n = sizeof_index_info \<and> decode_info bytes = info"
    using get_lookup [OF mog_okD(4,5) [OF ok]] by blast
  show ?thesis
  proof (cases "index_lookup E (st_ci st) key")
    case no: None
    then have "CpuCache_read E key value ?c (st_ci st) ?s ?f = Inr (0, value, ?c, ?s)"
      using g None by (simp add: CpuCache_read_def)
    then show ?thesis using ok by (simp add: cpu_look_def lookup_result_def mog_frame_def)
  next
    case info: (Some info)
    then have gi: "n = sizeof_index_info" "decode_info bytes = info" using g(2) by simp_all
    obtain v where v: "stored_file E P st key v" "place_ok (files ?f) (wb_hdd_path (st_wb st)) v info"
      using mog_okD(10) [OF ok] info by (auto simp: index_coherent_def)
    note bounds = place_bounds [OF v(2)]
    have hp: "wb_hdd_path (st_wb st) = ssd_hdd_path ?s" using mog_okD(6) [OF ok] by (simp add: blocks_ok_def)
    then obtain content where content: "files ?f (block_path (ssd_hdd_path ?s) (info_block_id info)) = Some content"
      "fread_at content (info_offset info) (info_length info) = v"
      using v(2) by (auto simp: place_ok_def)
    have vl: "length v \<le> length value" using bounds(5) room by simp
    obtain value' s' where rd: "SSDCache_read info value ?s ?f = Inr (info_length info, value', s')"
      "ssd_inv s' ?f" "value' = v @ drop (length v) value"
      using read_spec [OF mog_okD(2) [OF ok] content(1), of "value"] content(2) vl by auto
    have l': "length value' = length value" using rd(3) vl by simp
    have need: "slab_count (info_length_type info) * 1024 \<le> length value'"
      using bounds(3) room l' by simp
    have nn: "0 \<le> info_length info" using bounds(1) by simp
    obtain c' where ins: "CpuCache_insert key info value' ?c = Inr (0, c')" "cpu_wf c'"
      and items: "\<And>k item'. map_of (cpu_cached_item c') k = Some item' \<Longrightarrow>
          (\<exists>item. map_of (cpu_cached_item ?c) k = Some item \<and> item_slabs item' = item_slabs item
             \<and> item_length item' = item_length item \<and> cpu_value c' item' = cpu_value ?c item)
          \<or> (k = key \<and> item_length item' = info_length info
             \<and> length (item_slabs item') = length (cpu_slabs_of key ?c) + slab_count (info_length_type info)
             \<and> load_slabs slab_read (cpu_slabs c') (item_slabs item')
                 = load_slabs slab_read (cpu_slabs ?c) (cpu_slabs_of key ?c)
                   @ take (slab_count (info_length_type info) * 1024) value')"
      using insert_spec [OF mog_okD(3) [OF ok] need nn bounds(4)] by blast
    let ?st = "st\<lparr>st_cpu := c', st_ssd := s'\<rparr>"
    have look: "cpu_look E key value st = Inr (info_length info, value', ?st)"
      using None g gi rd(1) ins(1) by (simp add: cpu_look_def CpuCache_read_def)
    have frame: "mog_frame P st ?st" using read_frame [OF rd(1)] by (simp add: mog_frame_def)
    note same = stored_file_frame [OF frame, of E]
    have empty: "cpu_slabs_of key ?c = []" using None by (simp add: cpu_slabs_of_def cpu_item_of_def)
    have "stored_file E P st k (cpu_value c' item') \<and> length (item_slabs item') \<le> 1024"
      if "map_of (cpu_cached_item c') k = Some item'" for k item'
      using items [OF that]
    proof
      assume "\<exists>item. map_of (cpu_cached_item ?c) k = Some item \<and> item_slabs item' = item_slabs item
             \<and> item_length item' = item_length item \<and> cpu_value c' item' = cpu_value ?c item"
      then show ?thesis using mog_okD(11) [OF ok] by (auto simp: cpu_coherent_def)
    next
      assume new: "k = key \<and> item_length item' = info_length info
             \<and> length (item_slabs item') = length (cpu_slabs_of key ?c) + slab_count (info_length_type info)
             \<and> load_slabs slab_read (cpu_slabs c') (item_slabs item')
                 = load_slabs slab_read (cpu_slabs ?c) (cpu_slabs_of key ?c)
                   @ take (slab_count (info_length_type info) * 1024) value'"
      have "length v \<le> slab_count (info_length_type info) * 1024" using bounds(1,4) by linarith
      then have "cpu_value c' item' = v"
        using new empty bounds(1) rd(3) by (simp add: cpu_value_def load_slabs_def)
      then show ?thesis using new v(1) empty bounds(3) by simp
    qed
    then have coh: "cpu_coherent E P ?st" using same by (simp add: cpu_coherent_def)
    have "blocks_ok ?st"
      using mog_okD(6) [OF ok] read_frame [OF rd(1)] unfolding blocks_ok_def by auto
    moreover have "wb_coherent E P ?st" "index_coherent E P ?st"
      using mog_okD(9,10) [OF ok] same by (simp_all add: wb_coherent_def index_coherent_def)
    ultimately have "mog_ok E P ?st"
      using mog_okD [OF ok] coh ins(2) rd(2) read_frame [OF rd(1)]
      unfolding mog_ok_def by simp
    moreover have "lookup_result (stored_file E P st key) (info_length info) value'"
      using v(1) bounds(1) rd(3) by (auto simp: lookup_result_def)
    ultimately show ?thesis using look frame same l' by auto
  qed
qed


context environment begin

sublocale layers: two_layers "wb_look E" "cpu_look E" "mog_ok E P" "known_key E P" "stored_file E P"
  "mog_frame P" for P
  by unfold_locales (fact wb_look_spec, fact mog_frame_trans, fact cpu_look_spec)

end

end
