(* ===== verification/Mog_Steps.thy ===== *)
theory Mog_Steps
  imports Mog_Coherence
begin

section \<open>Requests and background tasks keep the coherence\<close>

text \<open>
  One lemma per step of the server: a read request (\<open>read_file\<close>, with the insertion of a
  missing file), a flush task of the write buffer, a fetch task of the SSD cache. The main
  result is \<open>read_file_spec\<close>: the bytes returned are the bytes of the file.
\<close>

subsection \<open>Writing a new value\<close>

lemma wb_cut_path [simp]: "wb_hdd_path (wb_cut n wb) = wb_hdd_path wb"
  by (simp add: wb_cut_def Let_def)

lemma written_fields:
  "wb_hdd_path (wb_written E key bytes wb) = wb_hdd_path wb"
  "wb_latest_block_id wb \<le> wb_latest_block_id (wb_written E key bytes wb)"
  "b \<in> set (wb_pool (wb_written E key bytes wb)) \<Longrightarrow>
     b \<in> set (wb_pool wb) \<or> b = wb_latest_block_id wb + 1"
  by (auto simp: wb_written_def Let_def WriteBuffer_add_entry_def split: if_splits)

lemma written_store_cases:
  assumes "map_of (wb_kv_store (wb_written E key bytes wb)) h = Some i"
  shows "(h = hash E key \<and> kv_key i = key \<and> wb_value (wb_heap (wb_written E key bytes wb)) i = bytes)
    \<or> (h \<noteq> hash E key \<and> map_of (wb_kv_store wb) h = Some i)"
  using assms
  by (auto simp: wb_written_def Let_def add_entry_lookup wb_value_def add_entry_heap split: if_splits)

lemma written_ok:
  assumes ok: "mog_ok E P st" and w: "WriteBuffer_write E key bytes (int (length bytes)) (st_ssd st) (st_wb st) = Inr (r, wb')"
    and st: "stored_file E P st key bytes" and id: "wb_latest_block_id (st_wb st) + 1 < 2 ^ 63"
  shows "mog_ok E P (st\<lparr>st_wb := wb'\<rparr>)"
proof (cases "map_of (wb_kv_store (st_wb st)) (hash E key) = None")
  case False
  then have "wb' = st_wb st" using w by (auto simp: WriteBuffer_write_def split: if_splits)
  with ok show ?thesis by simp
next
  case True
  let ?wb = "wb_written E key bytes (st_wb st)" and ?st = "st\<lparr>st_wb := wb'\<rparr>"
  have len: "int (length bytes) \<le> MB" using st by (auto simp: stored_file_def)
  then have "\<not> WriteBuffer_write_waits (st_ssd st) (st_wb st)"
    using w by (auto simp: WriteBuffer_write_def)
  note new = write_new_key [OF mog_okD(1) [OF ok] this True, of "int (length bytes)" bytes]
  have wb': "wb' = ?wb" and inv: "wb_inv E wb'"
    using new len id w by simp_all
  have same: "stored_file E P ?st = stored_file E P st" by (simp add: stored_file_def fun_eq_iff)
  have blocks: "blocks_ok ?st"
    using mog_okD(6) [OF ok] written_fields(2) [of "st_wb st" E key bytes]
      written_fields(3) [of _ E key bytes "st_wb st"]
    unfolding blocks_ok_def wb' by (fastforce simp: written_fields(1))
  have "stored_file E P st (kv_key i) (wb_value (wb_heap ?wb) i)" if m: "map_of (wb_kv_store ?wb) h = Some i" for h i
    using written_store_cases [OF m]
  proof
    assume "h = hash E key \<and> kv_key i = key \<and> wb_value (wb_heap ?wb) i = bytes"
    with st show ?thesis by simp
  next
    assume old: "h \<noteq> hash E key \<and> map_of (wb_kv_store (st_wb st)) h = Some i"
    then have "wb_value (wb_heap ?wb) i = wb_value (wb_heap (st_wb st)) i"
      using written_frame [OF mog_okD(1) [OF ok]] by blast
    with old mog_okD(9) [OF ok] show ?thesis by (auto simp: wb_coherent_def)
  qed
  then have wbc: "wb_coherent E P ?st" unfolding wb_coherent_def same by (simp add: wb')
  have "index_coherent E P ?st"
    unfolding index_coherent_def same
  proof (intro allI impI)
    fix k info
    assume "index_lookup E (st_ci ?st) k = Some info"
    then obtain v where v: "info_block_id info \<notin> set (wb_pool (st_wb st))" "stored_file E P st k v"
      "place_ok (files (st_fs st)) (wb_hdd_path (st_wb st)) v info"
      using mog_okD(10) [OF ok] by (auto simp: index_coherent_def)
    then have "info_block_id info \<le> wb_latest_block_id (st_wb st)"
      using mog_okD(6) [OF ok] by (fastforce simp: place_ok_def blocks_ok_def)
    then have "info_block_id info \<notin> set (wb_pool ?wb)" using v(1) written_fields(3) by fastforce
    with v(2,3) show "info_block_id info \<notin> set (wb_pool (st_wb ?st))
      \<and> (\<exists>v. stored_file E P st k v \<and> place_ok (files (st_fs ?st)) (wb_hdd_path (st_wb ?st)) v info)"
      by (auto simp: wb' written_fields)
  qed
  moreover have "cpu_coherent E P ?st" using mog_okD(11) [OF ok] by (simp add: cpu_coherent_def same)
  ultimately show ?thesis
    using mog_okD(2-8) [OF ok] inv blocks wbc unfolding mog_ok_def by simp
qed


subsection \<open>Read requests\<close>

text \<open>What a request for a path is answered with.\<close>

definition served :: "fs \<Rightarrow> string \<Rightarrow> byte list" where
  "served f p =
     (case files f p of
        None \<Rightarrow> []
      | Some c \<Rightarrow> if length c \<le> 64 * 1024 * 1024 then c else [])"

definition answered :: "fs \<Rightarrow> string \<Rightarrow> int \<Rightarrow> byte list \<Rightarrow> bool" where
  "answered f p n buffer \<longleftrightarrow>
     n = int (length (served f p)) \<and> take (length (served f p)) buffer = served f p"

definition total_grown :: "int \<Rightarrow> 'db mog_state \<Rightarrow> 'db mog_state" where
  "total_grown n st = st\<lparr>st_mog := (st_mog st)\<lparr>mog_total_size := mog_total_size (st_mog st) + n\<rparr>\<rparr>"

lemma total_grown_ok [simp]: "mog_ok E P (total_grown n st) = mog_ok E P st"
  by (simp add: mog_ok_def total_grown_def wb_coherent_def index_coherent_def cpu_coherent_def
      blocks_ok_def stored_file_def)

lemma total_grown_frame [simp]: "mog_frame P st (total_grown n st') = mog_frame P st st'"
  by (simp add: mog_frame_def total_grown_def)

lemma insert_copy_spec:
  assumes ok: "mog_ok E P st" and p: "p \<in> P" and room: "64 * 1024 * 1024 \<le> length value"
    and id: "wb_latest_block_id (st_wb st) + 1 < 2 ^ 63"
  shows "mog_insert_file_with_copy E (path_key E p) p value st = Inl Waits
      \<and> WriteBuffer_write_waits (st_ssd st) (st_wb st)
    \<or> (\<exists>n value' st'. mog_insert_file_with_copy E (path_key E p) p value st = Inr (n, value', st')
         \<and> mog_ok E P st' \<and> mog_frame P st st' \<and> length value' = length value
         \<and> answered (st_fs st) p (max 0 n) value')"
proof (cases "files (st_fs st) p")
  case None
  then show ?thesis
    using ok by (simp add: mog_insert_file_with_copy_def ifstream_open_def answered_def served_def mog_frame_def)
next
  case (Some c)
  have fr: "mog_frame P st (st\<lparr>st_wb := wb'\<rparr>)" for wb' by (simp add: mog_frame_def)
  show ?thesis
  proof (cases "length c \<le> 64 * 1024 * 1024")
    case False
    then show ?thesis
      using ok Some
      by (simp add: mog_insert_file_with_copy_def ifstream_open_def answered_def served_def mog_frame_def)
  next
    case small: True
    then have cp: "buf_write 0 c value = Inr (c @ drop (length c) value)" using room by simp
    have ans: "answered (st_fs st) p (max 0 (int (length c))) (c @ drop (length c) value)"
      using Some small by (simp add: answered_def served_def)
    show ?thesis
    proof (cases "int (length c) \<le> 1024 * 1024
        \<and> 20 * mog_total_size (st_mog st) \<le> 19 * (1024 * 1024 * mog_HDD_page_num (st_mog st))")
      case False
      then have "mog_insert_file_with_copy E (path_key E p) p value st
          = Inr (int (length c), c @ drop (length c) value, st)"
        using Some small cp
        by (simp only: mog_insert_file_with_copy_def ifstream_open_def option.case prod.case if_False and_then_simps) simp
      then show ?thesis using ok ans small room by (auto simp: mog_frame_def)
    next
      case True
      have st: "stored_file E P st (path_key E p) c" using Some p True by (auto simp: stored_file_def)
      have eq: "mog_insert_file_with_copy E (path_key E p) p value st
          = and_then (WriteBuffer_write E (path_key E p) c (int (length c)) (st_ssd st) (st_wb st))
              (\<lambda>(r, wb'). Inr (int (length c), c @ drop (length c) value,
                              total_grown (int (length c)) (st\<lparr>st_wb := wb'\<rparr>)))"
        using Some small cp True
        by (cases "WriteBuffer_write E (path_key E p) c (int (length c)) (st_ssd st) (st_wb st)")
          (auto simp: mog_insert_file_with_copy_def ifstream_open_def mog_write_def total_grown_def)
      show ?thesis
      proof (cases "WriteBuffer_write E (path_key E p) c (int (length c)) (st_ssd st) (st_wb st)")
        case (Inr x)
        obtain r wb' where x: "x = (r, wb')" by fastforce
        with written_ok [OF ok _ st id] Inr have "mog_ok E P (st\<lparr>st_wb := wb'\<rparr>)" by blast
        then show ?thesis using eq Inr x ans fr small room by auto
      next
        case (Inl e)
        have "WriteBuffer_write_waits (st_ssd st) (st_wb st) \<and> e = Waits"
        proof (rule ccontr)
          assume no: "\<not> ?thesis"
          then show False
            using Inl True write_new_key(1) [OF mog_okD(1) [OF ok], of "st_ssd st" "path_key E p" "int (length c)" c] id
            by (auto simp: WriteBuffer_write_def split: if_splits)
        qed
        with eq Inl show ?thesis by simp
      qed
    qed
  qed
qed


lemma stored_served:
  assumes "keys_apart E P" "p \<in> P" "stored_file E P st (path_key E p) c"
  shows "served (st_fs st) p = c"
proof -
  obtain q where q: "q \<in> P" "path_key E q = path_key E p" "files (st_fs st) q = Some c" "length c \<le> 1048576"
    using assms(3) by (auto simp: stored_file_def)
  then have "q = p" using assms(1,2) unfolding keys_apart_def by (metis (no_types))
  with q show ?thesis by (simp add: served_def)
qed

lemma answered_frame: "mog_frame P st st' \<Longrightarrow> p \<in> P \<Longrightarrow> answered (st_fs st') p = answered (st_fs st) p"
  by (simp add: mog_frame_def answered_def served_def fun_eq_iff)

context environment begin

text \<open>The store of the write buffer and the counter of blocks are not touched by a lookup.\<close>

lemma mog_read_wb: "mog_read E key value st = Inr (n, value', st') \<Longrightarrow> st_wb st' = st_wb st
    \<and> st_mog st' = st_mog st \<and> st_fs st' = st_fs st
    \<and> ssd_block_num (st_ssd st') = ssd_block_num (st_ssd st)
    \<and> ssd_max_block_num (st_ssd st') = ssd_max_block_num (st_ssd st)"
  by (auto simp: mog_read_def CpuCache_read_def and_then_Inr dest: read_frame
      split: if_splits option.splits)

lemma read_file_spec:
  assumes ok: "mog_ok E P st" and p: "p \<in> P" and room: "64 * 1024 * 1024 \<le> length value"
    and id: "wb_latest_block_id (st_wb st) + 1 < 2 ^ 63"
  shows "mog_read_file E p value st = Inl Waits \<and> WriteBuffer_write_waits (st_ssd st) (st_wb st)
    \<or> (\<exists>n value' st'. mog_read_file E p value st = Inr (n, value', st')
         \<and> mog_ok E P st' \<and> mog_frame P st st' \<and> length value' = length value
         \<and> answered (st_fs st) p n value')"
proof (cases "mog_ready (st_mog st)")
  case False
  have "mog_frame P st st" by (simp add: mog_frame_def)
  then show ?thesis
    using False ok room
    by (cases "files (st_fs st) p")
      (auto simp: mog_read_file_def ifstream_open_def answered_def served_def Let_def)
next
  case ready: True
  have key: "known_key E P (path_key E p)" using p by (simp add: known_key_def)
  have room1: "1048576 \<le> length value" using room by simp
  obtain n v1 s1 where rd: "mog_read E (path_key E p) value st = Inr (n, v1, s1)" "mog_ok E P s1"
    "stored_file E P s1 = stored_file E P st" "mog_frame P st s1" "length v1 = length value"
    "lookup_result (stored_file E P st (path_key E p)) n v1"
    using layers.both.look_spec [OF ok key room1] unfolding mog_read_layers by blast
  note wb = mog_read_wb [OF rd(1)]
  show ?thesis
  proof (cases "n > 0")
    case True
    then obtain c where c: "stored_file E P st (path_key E p) c" "n = int (length c)" "take (length c) v1 = c"
      using rd(6) by (auto simp: lookup_result_def)
    have "answered (st_fs st) p n v1"
      using stored_served [OF mog_okD(7) [OF ok] p c(1)] c(2,3) by (simp add: answered_def)
    then show ?thesis using True ready rd by (auto simp: mog_read_file_def Let_def)
  next
    case False
    then have n: "n = 0" using rd(6) by (auto simp: lookup_result_def)
    have room2: "64 * 1024 * 1024 \<le> length v1" using room rd(5) by simp
    have id1: "wb_latest_block_id (st_wb s1) + 1 < 2 ^ 63" using id wb by simp
    have cont: "mog_read_file E p value st =
        and_then (mog_insert_file_with_copy E (path_key E p) p v1 s1) (\<lambda>(r, v2, s2).
          if r > 0 then Inr (r, v2, s2) else Inr (0, v2, s2))"
      using ready rd(1) n by (simp add: mog_read_file_def Let_def)
    from insert_copy_spec [OF rd(2) p room2 id1] show ?thesis
    proof (elim disjE conjE exE)
      assume "mog_insert_file_with_copy E (path_key E p) p v1 s1 = Inl Waits"
        "WriteBuffer_write_waits (st_ssd s1) (st_wb s1)"
      then show ?thesis using cont wb by (simp add: WriteBuffer_write_waits_def)
    next
      fix r v2 s2
      assume ins: "mog_insert_file_with_copy E (path_key E p) p v1 s1 = Inr (r, v2, s2)" "mog_ok E P s2"
        "mog_frame P s1 s2" "length v2 = length v1" "answered (st_fs s1) p (max 0 r) v2"
      then have "answered (st_fs st) p (max 0 r) v2" using answered_frame [OF rd(4) p] by simp
      moreover have "mog_read_file E p value st = Inr (max 0 r, v2, s2)"
        using cont ins(1) by (simp add: max_def)
      ultimately show ?thesis using ins(2-4) rd(4,5) mog_frame_trans [OF rd(4) ins(3)] by auto
    qed
  qed
qed

end

end
