(* ===== verification/Mog_System.thy ===== *)
theory Mog_System
  imports Mog_Steps
begin

section \<open>The running server: requests interleaved with background tasks\<close>

text \<open>
  Requests and the tasks of the two thread pools are the steps of the running server, in
  any order. The theory shows that each task keeps the invariant of \<open>Mog_Coherence\<close>,
  that \<open>open\<close> establishes it, and so that every answer of every reachable state is the
  file's content.
\<close>

subsection \<open>Background tasks\<close>

definition flush_task :: "'db env \<Rightarrow> nat \<Rightarrow> 'db mog_state \<Rightarrow> 'db mog_state outcome" where
  "flush_task E i st =
     and_then (WriteBuffer_run E i (st_wb st) (st_ci st) (st_fs st)) (\<lambda>(wb', ci', f').
       Inr (st\<lparr>st_wb := wb', st_ci := ci', st_fs := f'\<rparr>))"

definition fetch_task :: "'db env \<Rightarrow> nat \<Rightarrow> 'db mog_state \<Rightarrow> 'db mog_state outcome" where
  "fetch_task E i st =
     and_then (SSDCache_run E i (st_ssd st) (st_fs st)) (\<lambda>(ssd', f').
       Inr (st\<lparr>st_ssd := ssd', st_fs := f'\<rparr>))"

lemma ssd_inv_new_block:
  assumes inv: "ssd_inv s f" and new: "files f (block_path (ssd_hdd_path s) b) = None"
  shows "ssd_inv s (f\<lparr>files := (files f)(block_path (ssd_hdd_path s) b \<mapsto> bytes)\<rparr>)"
proof -
  let ?f = "f\<lparr>files := (files f)(block_path (ssd_hdd_path s) b \<mapsto> bytes)\<rparr>"
  have ne: "ssd_ssd_path s \<noteq> ssd_hdd_path s" using inv by (simp add: ssd_inv_def ssd_disk_def)
  have grow: "files f p \<noteq> None \<Longrightarrow> files ?f p \<noteq> None" for p by simp
  have "b \<notin> set (ssd_cached_block_id s)" using inv new by (auto simp: ssd_inv_def ssd_disk_def)
  then have "ssd_disk s ?f"
    using inv ne by (auto simp: ssd_inv_def ssd_disk_def)
  moreover have "ssd_tasks s ?f" using inv grow unfolding ssd_inv_def ssd_tasks_def by fastforce
  ultimately show ?thesis using inv by (simp add: ssd_inv_def)
qed

lemma flushed_value:
  assumes core: "wb_core E wb" and b: "b \<in> set (wb_pool wb)"
    and m: "map_of (wb_kv_store (wb_flushed E b pool wb)) h = Some i"
  shows "map_of (wb_kv_store wb) h = Some i
    \<and> wb_value (wb_heap (wb_flushed E b pool wb)) i = wb_value (wb_heap wb) i"
proof -
  have old: "map_of (wb_kv_store wb) h = Some i" "h \<notin> set (block_keys E wb b)"
    using m by (auto simp: wb_flushed_store split: if_splits)
  then have "kv_value i \<notin> kv_value ` set (wb_block wb b)" using flushed_owner [OF core b old(1)] by blast
  then show ?thesis using old(1) by (simp add: wb_value_def wb_flushed_heap)
qed

lemma place_ok_other:
  "place_ok disk hdd v info \<Longrightarrow> info_block_id info \<noteq> b \<Longrightarrow>
     place_ok (disk(block_path hdd b \<mapsto> bytes)) hdd v info"
  by (auto simp: place_ok_def)

context environment begin

lemma flush_task_ok:
  assumes ok: "mog_ok E P st" and i: "int i < wb_flush_thread_num (st_wb st)" "i < length (wb_pool (st_wb st))"
  shows "\<exists>st'. flush_task E i st = Inr st' \<and> mog_ok E P st' \<and> mog_frame P st st'
    \<and> wb_pool (st_wb st') = remove_nth i (wb_pool (st_wb st))"
proof -
  let ?wb = "st_wb st" and ?f = "st_fs st" and ?hdd = "wb_hdd_path (st_wb st)"
  let ?b = "wb_pool (st_wb st) ! i" and ?pool = "remove_nth i (wb_pool (st_wb st))"
  let ?wb' = "wb_flushed E ?b ?pool ?wb"
  let ?f' = "?f\<lparr>files := (files ?f)(block_path ?hdd ?b \<mapsto> block_bytes ?wb ?b)\<rparr>"
  have hdd: "?hdd = ssd_hdd_path (st_ssd st)" "?hdd \<in> dirs ?f"
    and blocks: "\<And>b. files ?f (block_path ?hdd b) \<noteq> None \<Longrightarrow>
        0 < b \<and> b \<le> wb_latest_block_id ?wb \<and> b \<notin> set (wb_pool ?wb)"
    using mog_okD(6) [OF ok] unfolding blocks_ok_def by blast+
  have nodir: "\<forall>b. block_path ?hdd b \<notin> dirs ?f"
    using mog_okD(2) [OF ok] by (simp add: ssd_inv_def ssd_disk_def hdd(1))
  have core: "wb_core E ?wb" and dist: "distinct (wb_pool ?wb)"
    using mog_okD(1) [OF ok] by (simp_all add: wb_inv_core wb_core_def wb_queue_ok_def)
  have b: "?b \<in> set (wb_pool ?wb)" using i by simp
  have nb: "?b \<notin> set ?pool" by (rule nth_notin_remove_nth [OF dist i(2)])
  have sub: "set ?pool \<subseteq> set (wb_pool ?wb)" by (rule set_remove_nth_subset)
  have bnds: "0 < ?b" "?b \<le> wb_latest_block_id ?wb"
    using core b by (auto simp: wb_core_def wb_queue_ok_def)
  obtain ci' where run: "WriteBuffer_run E i ?wb (st_ci st) ?f = Inr (?wb', ci', ?f')" "wb_inv E ?wb'"
    "ci_db ci' \<noteq> None" "\<And>k j. index_lookup E ci' k = Some j \<Longrightarrow>
       index_lookup E (st_ci st) k = Some j \<or> (k, j) \<in> set (flush_places ?b 0 (wb_block ?wb ?b))"
    "index_small E ci'"
    using run_flush_spec [OF mog_okD(1) [OF ok] i mog_okD(4) [OF ok] hdd(2) nodir] mog_okD(5) [OF ok]
    by blast
  let ?st = "st\<lparr>st_wb := ?wb', st_ci := ci', st_fs := ?f'\<rparr>"
  have new: "files ?f (block_path ?hdd ?b) = None" using blocks [of ?b] b by blast
  have ssd: "ssd_inv (st_ssd st) ?f'"
    using ssd_inv_new_block [OF mog_okD(2) [OF ok]] new by (simp add: hdd(1))
  have apart: "\<forall>p \<in> P. \<forall>b. p \<noteq> block_path ?hdd b"
    using mog_okD(8) [OF ok] by (simp add: paths_apart_def hdd(1))
  have frame: "mog_frame P st ?st" using apart by (simp add: mog_frame_def)
  note same = stored_file_frame [OF frame, of E]
  have bl: "blocks_ok ?st"
    using hdd blocks bnds nb sub unfolding blocks_ok_def by auto
  have wbc: "wb_coherent E P ?st"
    unfolding wb_coherent_def same
  proof (intro allI impI)
    fix h j
    assume "map_of (wb_kv_store (st_wb ?st)) h = Some j"
    then have m: "map_of (wb_kv_store ?wb') h = Some j" by simp
    show "stored_file E P st (kv_key j) (wb_value (wb_heap (st_wb ?st)) j)"
      using flushed_value [OF core b m] mog_okD(9) [OF ok] by (auto simp: wb_coherent_def)
  qed
  have idx: "index_coherent E P ?st"
    unfolding index_coherent_def same
  proof (intro allI impI)
    fix k info
    assume "index_lookup E (st_ci ?st) k = Some info"
    then have "index_lookup E ci' k = Some info" by simp
    from run(4) [OF this]
    have "info_block_id info \<notin> set ?pool \<and> (\<exists>v. stored_file E P st k v \<and> place_ok (files ?f') ?hdd v info)"
    proof
      assume "index_lookup E (st_ci st) k = Some info"
      then obtain v where v: "info_block_id info \<notin> set (wb_pool ?wb)" "stored_file E P st k v"
        "place_ok (files ?f) ?hdd v info"
        using mog_okD(10) [OF ok] by (auto simp: index_coherent_def)
      moreover have "info_block_id info \<noteq> ?b" using v(1) b by auto
      ultimately show ?thesis using sub place_ok_other [OF v(3)] by auto
    next
      assume "(k, info) \<in> set (flush_places ?b 0 (wb_block ?wb ?b))"
      then obtain j where j: "j \<in> set (wb_block ?wb ?b)" "kv_key j = k" "info_block_id info = ?b"
        "place_ok ((files ?f)(block_path ?hdd ?b \<mapsto> block_bytes ?wb ?b)) ?hdd (wb_value (wb_heap ?wb) j) info"
        using flush_place_ok [OF core b] by blast
      have "stored_file E P st k (wb_value (wb_heap ?wb) j)"
        using mog_okD(9) [OF ok] block_entry(1) [OF core b j(1)] j(2) by (auto simp: wb_coherent_def)
      then show ?thesis using j(3,4) nb by auto
    qed
    then show "info_block_id info \<notin> set (wb_pool (st_wb ?st))
      \<and> (\<exists>v. stored_file E P st k v \<and> place_ok (files (st_fs ?st)) (wb_hdd_path (st_wb ?st)) v info)"
      by simp
  qed
  have cpu: "cpu_coherent E P ?st" using mog_okD(11) [OF ok] unfolding cpu_coherent_def same by simp
  have "mog_ok E P ?st"
    using mog_okD(3,7,8) [OF ok] run(2,3,5) ssd bl wbc idx cpu unfolding mog_ok_def by simp
  moreover have "flush_task E i st = Inr ?st" using run(1) by (simp add: flush_task_def)
  ultimately show ?thesis using frame by auto
qed

lemma fetch_task_ok:
  assumes ok: "mog_ok E P st" and i: "i < 12" "i < length (ssd_pool (st_ssd st))"
  shows "\<exists>st'. fetch_task E i st = Inr st' \<and> mog_ok E P st' \<and> mog_frame P st st'
    \<and> ssd_pool (st_ssd st') = remove_nth i (ssd_pool (st_ssd st)) \<and> st_wb st' = st_wb st"
proof -
  let ?s = "st_ssd st" and ?f = "st_fs st"
  obtain s' f' where run: "SSDCache_run E i ?s ?f = Inr (s', f')" "ssd_inv s' f'"
    "\<forall>p. (\<forall>b. p \<noteq> block_path (ssd_ssd_path ?s) b) \<longrightarrow> files f' p = files ?f p" "dirs f' = dirs ?f"
    "ssd_max_block_num s' = ssd_max_block_num ?s" "ssd_ssd_path s' = ssd_ssd_path ?s"
    "ssd_hdd_path s' = ssd_hdd_path ?s" "ssd_pool s' = remove_nth i (ssd_pool ?s)"
    using run_spec [OF mog_okD(2) [OF ok] i] by blast
  let ?st = "st\<lparr>st_ssd := s', st_fs := f'\<rparr>"
  have apart: "\<forall>p \<in> P. \<forall>b. p \<noteq> block_path (ssd_ssd_path ?s) b"
    using mog_okD(8) [OF ok] by (simp add: paths_apart_def)
  have frame: "mog_frame P st ?st" using run(3-7) apart by (simp add: mog_frame_def)
  note same = stored_file_frame [OF frame, of E]
  have hp: "wb_hdd_path (st_wb st) = ssd_hdd_path ?s" using mog_okD(6) [OF ok] by (simp add: blocks_ok_def)
  have "ssd_ssd_path ?s \<noteq> ssd_hdd_path ?s" using mog_okD(2) [OF ok] by (simp add: ssd_inv_def ssd_disk_def)
  then have hdd: "files f' (block_path (wb_hdd_path (st_wb st)) b) = files ?f (block_path (wb_hdd_path (st_wb st)) b)" for b
    using run(3) hp by simp
  have "place_ok (files f') (wb_hdd_path (st_wb st)) v info = place_ok (files ?f) (wb_hdd_path (st_wb st)) v info" for v info
    by (simp add: place_ok_def hdd)
  then have "index_coherent E P ?st"
    using mog_okD(10) [OF ok] unfolding index_coherent_def same by simp
  moreover have "wb_coherent E P ?st" "cpu_coherent E P ?st"
    using mog_okD(9,11) [OF ok] unfolding wb_coherent_def cpu_coherent_def same by simp_all
  moreover have "blocks_ok ?st"
    using mog_okD(6) [OF ok] hdd run(4,7) unfolding blocks_ok_def by auto
  ultimately have "mog_ok E P ?st"
    using mog_okD(1,3,4,5,7,8) [OF ok] run(2,6,7) unfolding mog_ok_def by simp
  then show ?thesis using run(1,8) frame by (auto simp: fetch_task_def)
qed

end


subsection \<open>Histories\<close>

text \<open>
  A step of the server with its observable result. A read that waits is not a step: the
  worker spins until a task has made room.
\<close>

datatype mog_event = Answer string int "byte list" | Flushed nat | Fetched nat

inductive mog_step :: "'db env \<Rightarrow> 'db mog_state \<Rightarrow> mog_event \<Rightarrow> 'db mog_state \<Rightarrow> bool" for E where
  Answer: "mog_read_file E p value st = Inr (n, value', st') \<Longrightarrow> 64 * 1024 * 1024 \<le> length value \<Longrightarrow>
     wb_latest_block_id (st_wb st) + 1 < 2 ^ 63 \<Longrightarrow> mog_step E st (Answer p n value') st'"
| Flushed: "flush_task E i st = Inr st' \<Longrightarrow> mog_step E st (Flushed i) st'"
| Fetched: "fetch_task E i st = Inr st' \<Longrightarrow> mog_step E st (Fetched i) st'"

inductive mog_run :: "'db env \<Rightarrow> 'db mog_state \<Rightarrow> mog_event list \<Rightarrow> 'db mog_state \<Rightarrow> bool" for E where
  Nil: "mog_run E st [] st"
| Cons: "mog_step E st e st' \<Longrightarrow> mog_run E st' es st'' \<Longrightarrow> mog_run E st (e # es) st''"

inductive_cases mog_stepE: "mog_step E st e st'"
inductive_cases mog_run_ConsE: "mog_run E st (e # es) st'"

definition event_known :: "string set \<Rightarrow> mog_event \<Rightarrow> bool" where
  "event_known P e \<longleftrightarrow> (case e of Answer p n value \<Rightarrow> p \<in> P | _ \<Rightarrow> True)"

definition event_right :: "fs \<Rightarrow> mog_event \<Rightarrow> bool" where
  "event_right f e \<longleftrightarrow> (case e of Answer p n value \<Rightarrow> answered f p n value | _ \<Rightarrow> True)"

context environment begin

lemma step_ok:
  assumes "mog_step E st e st'" "mog_ok E P st" "event_known P e"
  shows "mog_ok E P st' \<and> mog_frame P st st' \<and> event_right (st_fs st) e"
  using assms
proof cases
  case (Answer p "value" n value')
  then show ?thesis
    using read_file_spec [OF assms(2), of p "value"] assms(3)
    by (auto simp: event_known_def event_right_def)
next
  case (Flushed i)
  then have "int i < wb_flush_thread_num (st_wb st) \<and> i < length (wb_pool (st_wb st))"
    by (auto simp: flush_task_def WriteBuffer_run_def split: if_splits)
  then show ?thesis
    using flush_task_ok [OF assms(2), of i] Flushed by (auto simp: event_right_def)
next
  case (Fetched i)
  then have "i < 12 \<and> i < length (ssd_pool (st_ssd st))"
    by (auto simp: fetch_task_def SSDCache_run_def split: if_splits)
  then show ?thesis
    using fetch_task_ok [OF assms(2), of i] Fetched by (auto simp: event_right_def)
qed

lemma event_right_frame:
  assumes "mog_frame P st st'" "event_known P e" "event_right (st_fs st') e"
  shows "event_right (st_fs st) e"
  using assms answered_frame [OF assms(1)]
  by (cases e) (auto simp: event_known_def event_right_def)

lemma run_ok:
  assumes "mog_run E st es st'" "mog_ok E P st" "\<forall>e \<in> set es. event_known P e"
  shows "mog_ok E P st' \<and> mog_frame P st st' \<and> (\<forall>e \<in> set es. event_right (st_fs st) e)"
  using assms
proof (induction rule: mog_run.induct)
  case (Nil st)
  then show ?case by (simp add: mog_frame_def)
next
  case (Cons st e st' es st'')
  have 1: "mog_ok E P st' \<and> mog_frame P st st' \<and> event_right (st_fs st) e"
    using step_ok [OF Cons.hyps(1) Cons.prems(1)] Cons.prems(2) by simp
  then have 2: "mog_ok E P st'' \<and> mog_frame P st' st'' \<and> (\<forall>e \<in> set es. event_right (st_fs st') e)"
    using Cons.IH Cons.prems(2) by simp
  then have "\<forall>e \<in> set es. event_right (st_fs st) e"
    using event_right_frame [of P st st'] 1 Cons.prems(2) by auto
  with 1 2 show ?case using mog_frame_trans by auto
qed

end

end
