(* ===== verification/Mog_Open.thy ===== *)
theory Mog_Open
  imports Mog_System
begin

section \<open>Opening establishes the invariant\<close>

text \<open>
  \<open>open\<close> deletes both cache directories, creates them again, opens a new index and sets up
  the four components. From components that are new or were closed (\<open>mog_idle\<close>) and
  directories that do not contain each other or a requested file (\<open>layout_ok\<close>) the result
  satisfies \<open>mog_ok\<close>; and \<open>close\<close> leads back to \<open>mog_idle\<close>.
\<close>

subsection \<open>Paths\<close>

lemma nat_to_string_not_nil [simp]: "nat_to_string n \<noteq> []"
  by (subst nat_to_string.simps) simp

lemma to_string_not_nil [simp]: "to_string b \<noteq> []"
  by (simp add: to_string_def)

lemma to_string_no_dot [simp]: "CHR ''.'' \<notin> set (to_string b)"
  using nat_to_string_avoids [of "CHR ''.''"] by (simp add: to_string_def)

lemma below_refl [simp]: "below p p"
  by (simp add: below_def)

lemma below_index:
  assumes "below (mog_index_path m) q"
  shows "below (mog_ssd_path m) q"
proof -
  have "prefix (mog_ssd_path m @ ''/'') q"
    using assms by (auto simp: below_def mog_index_path_def prefix_def split: if_splits)
  moreover from this have "prefix (mog_ssd_path m) q" by (auto simp: prefix_def)
  ultimately show ?thesis by (simp add: below_def)
qed

lemma index_not_block:
  assumes "CHR ''/'' \<notin> set (mog_db_name m)"
  shows "mog_index_path m \<noteq> block_path d b"
proof
  assume eq: "mog_index_path m = block_path d b"
  have "dirname (mog_index_path m) = mog_ssd_path m"
    using assms dirname_append [of "mog_db_name m @ ''.mog''" "mog_ssd_path m"]
    by (simp add: mog_index_path_def)
  then have "mog_ssd_path m = d" using eq by simp
  with eq have "mog_db_name m @ ''.mog'' = to_string b" by (simp add: mog_index_path_def block_path_def)
  then have "CHR ''.'' \<in> set (to_string b)" by (metis in_set_conv_decomp append_Cons)
  then show False by simp
qed

lemma no_slash_prefix: "CHR ''/'' \<notin> set n \<Longrightarrow> prefix (a @ ''/'') (d @ ''/'' @ n) \<Longrightarrow> a = d \<or> prefix (a @ ''/'') d"
proof -
  assume n: "CHR ''/'' \<notin> set n" and p: "prefix (a @ ''/'') (d @ ''/'' @ n)"
  show ?thesis
  proof (cases "length a < length d")
    case True
    then obtain us where us: "d = a @ us" "us \<noteq> []"
      using p by (auto simp: prefix_def append_eq_append_conv2)
    then show ?thesis using p by (cases us) (auto simp: prefix_def)
  next
    case False
    obtain r where r: "d @ ''/'' @ n = a @ ''/'' @ r" using p by (auto simp: prefix_def)
    then obtain x where x: "a = d @ x" using False by (auto simp: append_eq_append_conv2)
    with r have "CHR ''/'' # n = x @ CHR ''/'' # r" by simp
    with n x show ?thesis by (cases x) auto
  qed
qed

lemma block_not_below_index:
  assumes "CHR ''/'' \<notin> set (mog_db_name m)" "\<not> below (mog_ssd_path m) d \<or> d = mog_ssd_path m"
  shows "\<not> below (mog_index_path m) (block_path d b)"
proof
  assume bl: "below (mog_index_path m) (block_path d b)"
  have "\<not> suffix ''/'' (mog_index_path m)"
    by (auto simp: mog_index_path_def suffix_def)
  with bl have "prefix (mog_index_path m @ ''/'') (d @ ''/'' @ to_string b)"
    using index_not_block [OF assms(1), of d b] by (auto simp: below_def block_path_def)
  then have "mog_index_path m = d \<or> prefix (mog_index_path m @ ''/'') d"
    by (rule no_slash_prefix [rotated]) simp
  then have "below (mog_index_path m) d" using \<open>\<not> suffix ''/'' (mog_index_path m)\<close> by (auto simp: below_def)
  then have "below (mog_ssd_path m) d" by (rule below_index)
  with assms(2) have d: "d = mog_ssd_path m" by simp
  with \<open>mog_index_path m = d \<or> prefix (mog_index_path m @ ''/'') d\<close>
  have "length (mog_index_path m) \<le> length (mog_ssd_path m)" by (auto dest: prefix_length_le)
  then show False by (simp add: mog_index_path_def)
qed

definition layout_ok :: "mog \<Rightarrow> string set \<Rightarrow> bool" where
  "layout_ok m P \<longleftrightarrow>
     mog_ssd_path m \<noteq> [] \<and> \<not> below (mog_ssd_path m) (mog_hdd_path m) \<and> \<not> below (mog_hdd_path m) (mog_ssd_path m)
     \<and> CHR ''/'' \<notin> set (mog_db_name m)
     \<and> (\<forall>p \<in> P. \<not> below (mog_ssd_path m) p \<and> \<not> below (mog_hdd_path m) p)"


subsection \<open>The directories after create\<close>

definition created :: "'db env \<Rightarrow> mog \<Rightarrow> fs \<Rightarrow> fs" where
  "created E m f =
     fs_create_directories E (mog_hdd_path m)
       (fs_remove_all E (mog_hdd_path m)
         (fs_create_directories E (mog_index_path m) (fs_remove_all E (mog_ssd_path m) f)))"

context environment begin

lemma created_files:
  "files (created E m f) q =
     (if below (mog_hdd_path m) q \<or> below (mog_ssd_path m) q then None else files f q)"
  by (simp add: created_def fs.mkdirs_files fs.remove_all_files)

lemma below_index_path: "below (mog_ssd_path m) (mog_index_path m)"
  by (auto simp: below_def mog_index_path_def suffix_def)

lemma created_dirs:
  assumes lay: "layout_ok m P"
  shows "mog_ssd_path m \<in> dirs (created E m f)" "mog_hdd_path m \<in> dirs (created E m f)"
    "block_path (mog_ssd_path m) b \<notin> dirs (created E m f)"
    "block_path (mog_hdd_path m) b \<notin> dirs (created E m f)"
proof -
  let ?ssd = "mog_ssd_path m" and ?hdd = "mog_hdd_path m" and ?ix = "mog_index_path m"
  let ?f1 = "fs_remove_all E ?ssd f" and ?f2 = "fs_create_directories E ?ix (fs_remove_all E ?ssd f)"
  let ?f3 = "fs_remove_all E ?hdd ?f2"
  have ix: "dirname ?ix = ?ssd" "CHR ''/'' \<in> set ?ix"
    using lay dirname_append [of "mog_db_name m @ ''.mog''" ?ssd]
    by (simp_all add: layout_ok_def mog_index_path_def)
  have "?ssd \<in> dirs ?f2"
    using fs.mkdirs_parent [of ?ix ?f1] ix lay below_index_path [of m]
    by (simp add: fs.remove_all_files layout_ok_def)
  then have s3: "?ssd \<in> dirs ?f3" using lay by (simp add: fs.remove_all_dirs layout_ok_def)
  have "files ?f3 ?hdd = None" by (simp add: fs.remove_all_files)
  then have "insert ?hdd (dirs ?f3) \<subseteq> dirs (created E m f)"
    unfolding created_def by (rule fs.mkdirs_dirs)
  with s3 show "?ssd \<in> dirs (created E m f)" "?hdd \<in> dirs (created E m f)" by auto
  have last: "q \<in> dirs (created E m f) \<Longrightarrow> q \<in> dirs ?f3 \<or> q = ?hdd \<or> prefix (q @ ''/'') ?hdd" for q
    unfolding created_def by (rule fs.mkdirs_only_ancestors)
  show "block_path ?hdd b \<notin> dirs (created E m f)"
  proof
    assume "block_path ?hdd b \<in> dirs (created E m f)"
    from last [OF this] show False
      using below_block_path [of ?hdd b]
      by (auto simp: fs.remove_all_dirs block_path_def dest: prefix_length_le)
  qed
  show "block_path ?ssd b \<notin> dirs (created E m f)"
  proof
    assume "block_path ?ssd b \<in> dirs (created E m f)"
    then consider "block_path ?ssd b \<in> dirs ?f3" | "block_path ?ssd b = ?hdd" | "prefix (block_path ?ssd b @ ''/'') ?hdd"
      using last by blast
    then show False
    proof cases
      case 1
      then have "block_path ?ssd b \<in> dirs ?f2" by (simp add: fs.remove_all_dirs)
      then have "block_path ?ssd b \<in> dirs ?f1 \<or> block_path ?ssd b = ?ix \<or> prefix (block_path ?ssd b @ ''/'') ?ix"
        by (rule fs.mkdirs_only_ancestors)
      moreover have "block_path ?ssd b \<notin> dirs ?f1" by (simp add: fs.remove_all_dirs)
      moreover have "block_path ?ssd b \<noteq> ?ix" using index_not_block [of m ?ssd b] lay by (auto simp: layout_ok_def)
      moreover have "\<not> prefix (block_path ?ssd b @ ''/'') ?ix"
      proof
        assume "prefix (block_path ?ssd b @ ''/'') ?ix"
        then have "block_path ?ssd b = ?ssd \<or> prefix (block_path ?ssd b @ ''/'') ?ssd"
          using no_slash_prefix [of "mog_db_name m @ ''.mog''" "block_path ?ssd b" ?ssd] lay
          by (simp add: mog_index_path_def layout_ok_def)
        then have "length (block_path ?ssd b) \<le> length ?ssd" by (auto dest: prefix_length_le)
        then show False by (simp add: block_path_def)
      qed
      ultimately show False by blast
    next
      case 2
      then show False using lay below_block_path [of ?ssd b] by (simp add: layout_ok_def)
    next
      case 3
      then have "below ?ssd ?hdd" by (auto simp: below_def block_path_def prefix_def)
      then show False using lay by (simp add: layout_ok_def)
    qed
  qed
qed

end


subsection \<open>Setting up the components\<close>

definition mog_idle :: "'db mog_state \<Rightarrow> bool" where
  "mog_idle st \<longleftrightarrow>
     wb_kv_store (st_wb st) = [] \<and> wb_heap (st_wb st) = [] \<and> wb_blocks (st_wb st) = [] \<and> wb_kv_list (st_wb st) = []
     \<and> cpu_cached_item (st_cpu st) = [] \<and> cpu_cached_item_queue (st_cpu st) = [] \<and> cpu_free_slabs (st_cpu st) = []
     \<and> ssd_unsynced_block_id (st_ssd st) = [] \<and> ssd_cached_block_id (st_ssd st) = []
     \<and> ssd_cached_block (st_ssd st) = [] \<and> ssd_read_record (st_ssd st) = []"

definition params_ok :: "mog \<Rightarrow> bool" where
  "params_ok m \<longleftrightarrow>
     1 \<le> mog_page_per_block m \<and> mog_page_per_block m < 2 ^ 31 \<and> 0 \<le> mog_cpu_page_num m * mog_page_size m"

text \<open>Room for a first block on the SSD and for a first value in the buffer.\<close>

definition roomy :: "mog \<Rightarrow> bool" where
  "roomy m \<longleftrightarrow> 0 < mog_SSD_page_num m sdiv mog_page_per_block m
     \<and> 0 \<le> ((6 * mog_buffer_page_num m) sdiv 5) * mog_page_size m"

definition empty_ssd :: "ssd_cache \<Rightarrow> string \<Rightarrow> string \<Rightarrow> bool" where
  "empty_ssd s ssd hdd \<longleftrightarrow>
     ssd_unsynced_block_id s = [] \<and> ssd_cached_block_id s = [] \<and> ssd_cached_block s = []
     \<and> ssd_read_record s = [] \<and> ssd_pool s = [] \<and> ssd_block_num s = 0
     \<and> ssd_ssd_path s = ssd \<and> ssd_hdd_path s = hdd"

lemma empty_wb_inv:
  assumes "wb_kv_store wb = []" "wb_heap wb = []" "wb_blocks wb = []" "wb_kv_list wb = []" "wb_pool wb = []"
    "wb_total_size wb = 0" "wb_total_size_without_block wb = 0" "wb_latest_block_id wb = 0"
    "1 \<le> wb_page_per_block wb" "wb_page_per_block wb < 2 ^ 31"
  shows "wb_inv E wb"
  using assms by (simp add: wb_inv_def wb_store_ok_def wb_queue_ok_def wb_size_ok_def wb_keys_def)

lemma allocate_spec:
  assumes idle: "mog_idle st" and par: "params_ok (st_mog st)"
  shows "\<exists>st'. mog_allocate_memory st = Inr (0, st') \<and> st_fs st' = st_fs st \<and> st_ci st' = st_ci st
     \<and> st_mog st' = st_mog st \<and> wb_inv E (st_wb st') \<and> wb_pool (st_wb st') = []
     \<and> wb_kv_store (st_wb st') = [] \<and> wb_latest_block_id (st_wb st') = 0
     \<and> wb_hdd_path (st_wb st') = mog_hdd_path (st_mog st)
     \<and> cpu_wf (st_cpu st') \<and> cpu_cached_item (st_cpu st') = []
     \<and> empty_ssd (st_ssd st') (mog_ssd_path (st_mog st)) (mog_hdd_path (st_mog st))
     \<and> ssd_max_block_num (st_ssd st') = mog_SSD_page_num (st_mog st) sdiv mog_page_per_block (st_mog st)
     \<and> wb_total_size (st_wb st') = 0
     \<and> wb_max_page_num (st_wb st') = (6 * mog_buffer_page_num (st_mog st)) sdiv 5
     \<and> wb_page_size (st_wb st') = mog_page_size (st_mog st)"
proof -
  let ?m = "st_mog st"
  obtain c1 c2 where c: "CpuCache_initial (mog_page_size ?m) (mog_cpu_page_num ?m) (st_cpu st) = Inr (0, c1)"
    "CpuCache_allocate_memory c1 = Inr (0, c2)" "cpu_wf c2" "cpu_cached_item c2 = []"
    using allocate_wf [of "mog_cpu_page_num ?m" "mog_page_size ?m" "st_cpu st"] idle par
    by (auto simp: mog_idle_def params_ok_def)
  let ?wb = "(snd (WriteBuffer_initial (mog_page_size ?m) (mog_page_per_block ?m) (mog_buffer_page_num ?m) (st_wb st)))
     \<lparr>wb_ssd_path := mog_ssd_path ?m, wb_hdd_path := mog_hdd_path ?m\<rparr>"
  have wb: "wb_inv E ?wb"
    using idle par by (intro empty_wb_inv) (simp_all add: mog_idle_def params_ok_def WriteBuffer_initial_def)
  have "mog_page_per_block ?m \<noteq> 0" using par by (simp add: params_ok_def)
  then show ?thesis
    using c wb idle
    by (simp add: mog_allocate_memory_def Let_def WriteBuffer_initial_def WriteBuffer_allocate_memory_def
        SSDCache_initial_def mog_idle_def empty_ssd_def)
qed

lemma empty_ssd_inv:
  assumes "empty_ssd s ssd hdd" "ssd \<noteq> hdd" "ssd \<in> dirs f"
    "\<forall>b. block_path ssd b \<notin> dirs f \<and> block_path hdd b \<notin> dirs f"
    "\<forall>b. files f (block_path ssd b) = None"
  shows "ssd_inv s f"
  using assms by (simp add: empty_ssd_def ssd_inv_defs)


subsection \<open>open\<close>

context environment begin

lemma fresh_index:
  assumes stp: "CentraIndex_setup E name ci f = Inr (r, ci1, f1)"
    and fresh: "files f (name @ ''/CURRENT'') = None"
    and put: "CentraIndex_put E key (le_bytes 8 x) ci1 = Inr (r', ci2)"
  shows "ci_db ci2 \<noteq> None" "index_small E ci2" "index_lookup E ci2 k = None"
    "dirs f1 = insert name (dirs f)" "\<not> below name q \<Longrightarrow> files f1 q = files f q"
proof -
  obtain db where o: "leveldb_open E True name f = (None, db, f1)" and ci1: "ci_db ci1 = Some db"
    using stp by (auto simp: CentraIndex_setup_def split: prod.splits option.splits)
  obtain e db' where p: "leveldb_put E db key (le_bytes 8 x) = (e, db')" by fastforce
  have ci2: "ci_db ci2 = Some db'"
    using put ci1 p by (auto simp: CentraIndex_put_def split: option.splits)
  have empty: "leveldb_get E db k = (None, None)" for k using db.open_fresh [OF fresh o] .
  have got: "v = le_bytes 8 x" if "leveldb_get E db' k = (None, Some v)" for k v
    using db.get_after_put [of db key "le_bytes 8 x" k v] that p empty by auto
  show "ci_db ci2 \<noteq> None" using ci2 by simp
  show "index_small E ci2" using got ci2 by (fastforce simp: index_small_def)
  show "index_lookup E ci2 k = None"
    using got [of k] ci2 by (auto simp: index_lookup_def split: option.splits prod.splits)
  show "dirs f1 = insert name (dirs f)" using db.open_dirs [OF o] .
  show "\<not> below name q \<Longrightarrow> files f1 q = files f q" using db.open_files [OF o] by simp
qed

lemma mog_ok_object: "mog_ok E' P (s\<lparr>st_mog := m\<rparr>) = mog_ok E' P s"
  by (simp add: mog_ok_def blocks_ok_def wb_coherent_def index_coherent_def cpu_coherent_def stored_file_def)

lemma create_steps:
  assumes "mog_create E st = Inr (r, s)"
  obtains r1 ci1 f5 r2 ci2 r3 where
    "CentraIndex_setup E (mog_index_path (st_mog st)) (st_ci st) (created E (st_mog st) (st_fs st)) = Inr (r1, ci1, f5)"
    "CentraIndex_put E ''FILE_NUM'' (le_bytes 8 0) ci1 = Inr (r2, ci2)"
    "mog_allocate_memory (st\<lparr>st_ci := ci2, st_fs := f5\<rparr>) = Inr (r3, s)"
  using assms by (auto simp: mog_create_def created_def Let_def and_then_Inr)

lemma open_ok:
  assumes idle: "mog_idle st" and par: "params_ok (st_mog st)"
    and lay: "layout_ok ((st_mog st)\<lparr>mog_db_name := db_name\<rparr>) P" and keys: "keys_apart E P"
    and opn: "mog_open E db_name st = Inr (r, st')"
  shows "mog_ok E P st' \<and> mog_ready (st_mog st') \<and> (\<forall>p \<in> P. files (st_fs st') p = files (st_fs st) p)
    \<and> wb_latest_block_id (st_wb st') = 0
    \<and> (roomy (st_mog st) \<longrightarrow> \<not> WriteBuffer_write_waits (st_ssd st') (st_wb st'))"
proof -
  let ?m = "(st_mog st)\<lparr>mog_db_name := db_name\<rparr>"
  let ?ssd = "mog_ssd_path ?m" and ?hdd = "mog_hdd_path ?m" and ?ix = "mog_index_path ?m"
  let ?g = "fs_remove_all E ?hdd (fs_remove_all E ?ssd (st_fs st))"
  let ?f4 = "created E ?m ?g"
  define s0 where "s0 = st\<lparr>st_mog := ?m, st_fs := ?g\<rparr>"
  have s0: "st_mog s0 = ?m" "st_ci s0 = st_ci st" "st_fs s0 = ?g" "mog_idle s0" "params_ok (st_mog s0)"
    using idle par by (simp_all add: s0_def mog_idle_def params_ok_def)
  obtain r0 s3 where cr: "mog_create E s0 = Inr (r0, s3)" "st' = s3\<lparr>st_mog := (st_mog s3)\<lparr>mog_ready := True\<rparr>\<rparr>"
    using opn by (auto simp: s0_def mog_open_def Let_def and_then_Inr)
  obtain r1 ci1 f5 r2 ci2 r3 where steps:
    "CentraIndex_setup E ?ix (st_ci st) ?f4 = Inr (r1, ci1, f5)"
    "CentraIndex_put E ''FILE_NUM'' (le_bytes 8 0) ci1 = Inr (r2, ci2)"
    "mog_allocate_memory (s0\<lparr>st_ci := ci2, st_fs := f5\<rparr>) = Inr (r3, s3)"
    by (rule create_steps [OF cr(1)], unfold s0(1-3)) (rule that)
  have gone: "files ?f4 q = None" if "below ?hdd q \<or> below ?ssd q" for q
    using that by (simp add: created_files)
  have cur: "below ?ix (?ix @ ''/CURRENT'')" by (rule below_current)
  then have "files ?f4 (?ix @ ''/CURRENT'') = None" using gone below_index by blast
  note idx = fresh_index [OF steps(1) this steps(2)]
  let ?s = "s0\<lparr>st_ci := ci2, st_fs := f5\<rparr>"
  have "mog_idle ?s" "params_ok (st_mog ?s)" using s0(4,5) by (simp_all add: mog_idle_def)
  from allocate_spec [OF this, of E] obtain s' where s': "mog_allocate_memory ?s = Inr (0, s')"
    "st_fs s' = f5" "st_ci s' = ci2" "st_mog s' = ?m" "wb_inv E (st_wb s')" "wb_pool (st_wb s') = []"
    "wb_kv_store (st_wb s') = []" "wb_latest_block_id (st_wb s') = 0" "wb_hdd_path (st_wb s') = ?hdd"
    "cpu_wf (st_cpu s')" "cpu_cached_item (st_cpu s') = []" "empty_ssd (st_ssd s') ?ssd ?hdd"
    "ssd_max_block_num (st_ssd s') = mog_SSD_page_num ?m sdiv mog_page_per_block ?m"
    "wb_total_size (st_wb s') = 0" "wb_max_page_num (st_wb s') = (6 * mog_buffer_page_num ?m) sdiv 5"
    "wb_page_size (st_wb s') = mog_page_size ?m"
    by (auto simp: s0(1))
  then have s3: "s3 = s'" using steps(3) by simp
  have nslash: "CHR ''/'' \<notin> set (mog_db_name ?m)" and nb: "\<not> below ?ssd ?hdd"
    using lay by (simp_all add: layout_ok_def)
  have f5: "files f5 (block_path ?ssd b) = None" "files f5 (block_path ?hdd b) = None" for b
    using idx(5) block_not_below_index [OF nslash] nb gone by (metis below_block_path)+
  have d5: "?ssd \<in> dirs f5" "?hdd \<in> dirs f5"
    "\<forall>b. block_path ?ssd b \<notin> dirs f5 \<and> block_path ?hdd b \<notin> dirs f5"
    using created_dirs [OF lay, where f = ?g] index_not_block [OF nslash, symmetric] unfolding idx(4) by auto
  have ssd: "ssd_inv (st_ssd s') f5"
    using nb f5(1) d5 by (intro empty_ssd_inv [OF s'(12)]) auto
  have apart: "paths_apart P ?ssd ?hdd"
    using lay below_block_path unfolding layout_ok_def paths_apart_def by metis
  have kept: "files f5 p = files (st_fs st) p" if "p \<in> P" for p
  proof -
    have np: "\<not> below ?ssd p" "\<not> below ?hdd p" using that lay by (auto simp: layout_ok_def)
    then have "\<not> below ?ix p" using below_index by blast
    then have "files f5 p = files ?f4 p" by (rule idx(5))
    with np show ?thesis by (simp add: created_files fs.remove_all_files)
  qed
  have paths: "ssd_ssd_path (st_ssd s') = ?ssd" "ssd_hdd_path (st_ssd s') = ?hdd"
    using s'(12) by (simp_all add: empty_ssd_def)
  have "mog_ok E P s'"
    unfolding mog_ok_def blocks_ok_def wb_coherent_def index_coherent_def cpu_coherent_def
    using s'(2-11) paths ssd f5(2) d5(2) idx(1-3) apart keys by simp
  then have "mog_ok E P st'"
    unfolding cr(2) s3 mog_ok_object .
  moreover have "roomy (st_mog st) \<longrightarrow> \<not> WriteBuffer_write_waits (st_ssd s') (st_wb s')"
    using s'(12-16) by (simp add: roomy_def WriteBuffer_write_waits_def empty_ssd_def)
  ultimately show ?thesis using kept s'(2,8) cr(2) s3 by simp
qed

end

end
