(* ===== verification/Mog_Close.thy ===== *)
theory Mog_Close
  imports Mog_Open
begin

section \<open>Closing leads back to idle components\<close>

text \<open>
  \<open>mog::close\<close> on a server in its invariant whose fetch pool has run empty succeeds, leaves
  every component as new (\<open>mog_idle\<close>), with both pools empty, and touches no requested
  file. While fetch tasks are left it waits. The parameters of the object
  (\<open>mog_params\<close>) survive a close, an open, every request and every task.
\<close>

definition mog_params :: "mog \<Rightarrow> mog" where
  "mog_params m = m\<lparr>mog_ready := False, mog_total_size := 0\<rparr>"

definition pools_empty :: "'db mog_state \<Rightarrow> bool" where
  "pools_empty st \<longleftrightarrow> wb_pool (st_wb st) = [] \<and> ssd_pool (st_ssd st) = []"

lemma mog_params_simps [simp]:
  "mog_params (m\<lparr>mog_ready := r\<rparr>) = mog_params m"
  "mog_params (m\<lparr>mog_total_size := n\<rparr>) = mog_params m"
  "mog_params (mog_params m) = mog_params m"
  by (simp_all add: mog_params_def)

lemma params_ok_params [simp]: "params_ok (mog_params m) = params_ok m"
  by (simp add: mog_params_def params_ok_def)

lemma layout_ok_params:
  "layout_ok ((mog_params m)\<lparr>mog_db_name := name\<rparr>) P = layout_ok (m\<lparr>mog_db_name := name\<rparr>) P"
  by (simp add: mog_params_def layout_ok_def)

lemma allocate_mog: "mog_allocate_memory st = Inr (r, st') \<Longrightarrow> st_mog st' = st_mog st"
  by (auto simp: mog_allocate_memory_def Let_def and_then_Inr check_Inr case_prod_beta)

lemma cpu_close_spec:
  assumes "cpu_wf c"
  shows "\<exists>c'. CpuCache_close c = Inr (0, c') \<and> cpu_cached_item c' = [] \<and> cpu_cached_item_queue c' = []
     \<and> cpu_free_slabs c' = []"
proof -
  have "x \<noteq> None" if "x \<in> set (cpu_slabs c)" for x
    using that assms by (auto simp: in_set_conv_nth cpu_wf_def slab_ok_def)
  moreover have "nat (cpu_slab_num c) = length (cpu_slabs c)" using assms by (simp add: cpu_wf_def)
  ultimately show ?thesis by (auto simp: CpuCache_close_def)
qed

lemma open_params:
  assumes "mog_open E name st = Inr (r, st')"
  shows "mog_params (st_mog st') = mog_params ((st_mog st)\<lparr>mog_db_name := name\<rparr>)"
  using assms
  by (auto simp: mog_open_def mog_create_def Let_def and_then_Inr dest!: allocate_mog)

lemma read_file_params:
  assumes "mog_read_file E p buf st = Inr (n, buf', st')"
  shows "mog_params (st_mog st') = mog_params (st_mog st)"
proof -
  have rd: "mog_read E k b s = Inr (m, b', s') \<Longrightarrow> st_mog s' = st_mog s" for k b s m b' s'
    by (auto simp: mog_read_def and_then_Inr split: if_splits)
  have wr: "mog_write E k b l s = Inr (m, s') \<Longrightarrow> st_mog s' = st_mog s" for k b l s m s'
    by (auto simp: mog_write_def and_then_Inr)
  have ins: "mog_insert_file_with_copy E k q b s = Inr (m, b', s') \<Longrightarrow>
      mog_params (st_mog s') = mog_params (st_mog s)" for k q b s m b' s'
    by (auto simp: mog_insert_file_with_copy_def and_then_Inr split: option.splits if_splits dest!: wr)
  show ?thesis
    using assms
    by (auto simp: mog_read_file_def Let_def and_then_Inr split: option.splits if_splits
        dest!: rd ins)
qed

lemma task_params:
  "flush_task E i st = Inr st' \<Longrightarrow> st_mog st' = st_mog st"
  "fetch_task E i st = Inr st' \<Longrightarrow> st_mog st' = st_mog st"
  by (auto simp: flush_task_def fetch_task_def and_then_Inr)

lemma no_tasks:
  assumes "pools_empty st"
  shows "flush_task E i st = Inl Waits" "fetch_task E i st = Inl Waits"
  using assms by (simp_all add: pools_empty_def flush_task_def fetch_task_def WriteBuffer_run_def SSDCache_run_def)

context environment begin

lemma drain_empty_fs:
  "wb_blocks wb = [] \<Longrightarrow> \<forall>b. block_path (wb_hdd_path wb) b \<notin> dirs f \<Longrightarrow>
     WriteBuffer_drain E bs wb ci f = Inr (wb', ci', f') \<Longrightarrow>
     ci' = ci \<and> dirs f' = dirs f
     \<and> (\<forall>p. (\<forall>b. p \<noteq> block_path (wb_hdd_path wb) b) \<longrightarrow> files f' p = files f p)"
proof (induction bs arbitrary: wb f)
  case (Cons b bs)
  let ?p = "block_path (wb_hdd_path wb) b"
  let ?f1 = "if fs_exists E ?p f then fs_remove E ?p f else f"
  let ?f2 = "ofstream_write ?p [] (ofstream_write ?p [] ?f1)"
  let ?wb = "wb\<lparr>wb_pool := bs, wb_blocks := [], wb_total_size := wb_total_size wb\<rparr>"
  have nd: "?p \<notin> dirs f" using Cons.prems(2) by blast
  have d: "dirs ?f2 = dirs f" using nd by (simp add: ofstream_write_def fs.remove_file)
  have fl: "files ?f2 q = files f q" if "q \<noteq> ?p" for q
    using nd that by (simp add: ofstream_write_def fs.remove_file)
  have "WriteBuffer_flush E b (wb\<lparr>wb_pool := bs\<rparr>) ci f = Inr (?wb, ci, ?f2)"
    using Cons.prems(1) by (simp add: WriteBuffer_flush_def wb_block_def Let_def)
  then have "WriteBuffer_drain E bs ?wb ci ?f2 = Inr (wb', ci', f')"
    using Cons.prems(3) by simp
  from Cons.IH [OF _ _ this] have "ci' = ci \<and> dirs f' = dirs ?f2
     \<and> (\<forall>p. (\<forall>b. p \<noteq> block_path (wb_hdd_path wb) b) \<longrightarrow> files f' p = files ?f2 p)"
    using Cons.prems(2) d by simp
  with d fl show ?case by auto
qed auto

lemma close_waits:
  assumes "mog_ok E P st" "ssd_pool (st_ssd st) \<noteq> []"
  shows "mog_close E st = Inl Waits"
proof -
  obtain wb' ci' f' where wb: "WriteBuffer_close E (st_wb st) (st_ci st) (st_fs st) = Inr (0, wb', ci', f')"
    using close_spec [OF mog_okD(1) [OF assms(1)]] by blast
  have nodir: "\<forall>b. block_path (wb_hdd_path (st_wb st)) b \<notin> dirs (st_fs st)"
    using mog_okD(2,6) [OF assms(1)] by (simp add: ssd_inv_def ssd_disk_def blocks_ok_def)
  have "ci' = st_ci st"
    using wb nodir by (auto simp: WriteBuffer_close_def and_then_Inr dest!: drain_empty_fs [rotated 2])
  moreover have "\<exists>r cpu'. CpuCache_close (st_cpu st) = Inr (r, cpu')"
    using cpu_close_spec [OF mog_okD(3) [OF assms(1)]] by blast
  moreover have "\<exists>r ci''. CentraIndex_close (st_ci st) = Inr (r, ci'')"
    using mog_okD(4) [OF assms(1)] by (auto simp: CentraIndex_close_def)
  ultimately show ?thesis
    using wb assms(2) by (auto simp: mog_close_def SSDCache_close_def SSDCache_sync_def)
qed

lemma close_ok:
  assumes ok: "mog_ok E P st" and pool: "ssd_pool (st_ssd st) = []"
  shows "\<exists>st'. mog_close E st = Inr (0, st') \<and> mog_idle st' \<and> pools_empty st'
     \<and> st_mog st' = (st_mog st)\<lparr>mog_ready := False\<rparr>
     \<and> (\<forall>p \<in> P. \<not> below (mog_ssd_path (st_mog st)) p \<longrightarrow> files (st_fs st') p = files (st_fs st) p)"
proof -
  obtain wb' ci' f' where wb: "WriteBuffer_close E (st_wb st) (st_ci st) (st_fs st) = Inr (0, wb', ci', f')"
    "wb_heap wb' = []" "wb_kv_store wb' = []" "wb_kv_list wb' = []" "wb_blocks wb' = []" "wb_pool wb' = []"
    using close_spec [OF mog_okD(1) [OF ok]] by blast
  have nodir: "\<forall>b. block_path (wb_hdd_path (st_wb st)) b \<notin> dirs (st_fs st)"
    using mog_okD(2,6) [OF ok] by (simp add: ssd_inv_def ssd_disk_def blocks_ok_def)
  have f': "ci' = st_ci st"
    "\<And>p. (\<forall>b. p \<noteq> block_path (wb_hdd_path (st_wb st)) b) \<Longrightarrow> files f' p = files (st_fs st) p"
    using wb nodir by (auto simp: WriteBuffer_close_def and_then_Inr dest!: drain_empty_fs [rotated 2])
  have apart: "\<forall>p \<in> P. \<forall>b. p \<noteq> block_path (wb_hdd_path (st_wb st)) b"
    using mog_okD(6,8) [OF ok] by (simp add: paths_apart_def blocks_ok_def)
  obtain cpu' where cpu: "CpuCache_close (st_cpu st) = Inr (0, cpu')"
    "cpu_cached_item cpu' = []" "cpu_cached_item_queue cpu' = []" "cpu_free_slabs cpu' = []"
    using cpu_close_spec [OF mog_okD(3) [OF ok]] by blast
  obtain ci'' where ci: "CentraIndex_close (st_ci st) = Inr (0, ci'')"
    using mog_okD(4) [OF ok] by (auto simp: CentraIndex_close_def)
  have "ssd_unsynced_block_id (st_ssd st) = []" using mog_okD(2) [OF ok] by (simp add: ssd_inv_def ssd_tasks_def)
  then have ssd: "SSDCache_close (st_ssd st) = Inr (0, (st_ssd st)\<lparr>ssd_unsynced_block_id := [],
      ssd_cached_block := [], ssd_caching_block := [], ssd_cached_block_id := [], ssd_read_record := [],
      ssd_pool := []\<rparr>)"
    using pool by (simp add: SSDCache_close_def SSDCache_sync_def)
  have kept: "files (fs_remove_all E (mog_ssd_path (st_mog st)) f') p = files (st_fs st) p"
    if "p \<in> P" "\<not> below (mog_ssd_path (st_mog st)) p" for p
    using that f'(2) [of p] apart by (simp add: fs.remove_all_files)
  show ?thesis
    unfolding mog_close_def wb(1) and_then_simps prod.case cpu(1) f'(1) ci ssd
    using wb(2-6) cpu(2-4) kept by (simp add: mog_idle_def pools_empty_def)
qed

end

end
