(* ===== verification/Server_Main.thy ===== *)
theory Server_Main
  imports Mog_Close
begin

section \<open>main: workers, the clean command and the thread that resets the server\<close>

text \<open>
  \<open>mog_server/src/main.cpp\<close>. Ten workers receive requests; a request that starts with \<open>!\<close>
  asks for a reset, every other one is the name of a file. A reset runs in a thread of its
  own, \<open>CreateMogEntry\<close>, which \<open>mtx\<close> keeps from running twice. The threads interleave:
  \<open>create_pc\<close> is the next statement of a \<open>CreateMogEntry\<close>, a worker first receives (and
  reads \<open>reset_flag\<close>) and then serves; calls of the object \<open>DB\<close> are single steps. A request
  is the buffer as received, \<open>c_string\<close> its prefix up to the terminating zero. The
  ZeroMQ proxy between clients and workers hands each request to some worker that
  receives, which is the choice of the step.
\<close>

datatype create_pc =
  Set_reset | Close_old | New_object | Not_ready | Open_db | Clear_reset | Set_ready | Unlock

datatype worker_pc = Receiving | Serving bool string

record worker =
  wk_pc :: worker_pc
  wk_data :: "byte list"

text \<open>\<open>sv_DB\<close>: the pointer \<open>DB\<close> is not null. The singletons exist in \<open>sv_mog\<close> throughout.\<close>

record 'db server =
  sv_locked :: bool
  sv_first :: bool
  sv_reset_flag :: bool
  sv_DB :: bool
  sv_mog :: "'db mog_state"
  sv_creators :: "create_pc list"
  sv_workers :: "worker list"

definition set_ready :: "bool \<Rightarrow> 'db server \<Rightarrow> 'db server" where
  "set_ready b sv = sv\<lparr>sv_mog := (sv_mog sv)\<lparr>st_mog := (st_mog (sv_mog sv))\<lparr>mog_ready := b\<rparr>\<rparr>\<rparr>"

definition null_DB :: failure where
  "null_DB = Undefined ''DB is a null pointer''"

fun CreateMogEntry :: "'db env \<Rightarrow> create_pc \<Rightarrow> 'db server \<Rightarrow> (create_pc option \<times> 'db server) outcome" where
  "CreateMogEntry E Set_reset sv = Inr (Some Close_old, sv\<lparr>sv_reset_flag := True\<rparr>)"
| "CreateMogEntry E Close_old sv =
     (if sv_DB sv
      then and_then (mog_close E (sv_mog sv)) (\<lambda>(r, st). Inr (Some New_object, sv\<lparr>sv_mog := st\<rparr>))
      else Inr (Some New_object, sv))"
| "CreateMogEntry E New_object sv =
     (if sv_first sv
      then and_then (mog_new E ''mog.yaml'' (st_fs (sv_mog sv))) (\<lambda>m.
             Inr (Some Not_ready, sv\<lparr>sv_first := False, sv_DB := True, sv_mog := (sv_mog sv)\<lparr>st_mog := m\<rparr>\<rparr>))
      else Inr (Some Not_ready, sv))"
| "CreateMogEntry E Not_ready sv = check (sv_DB sv) null_DB (Inr (Some Open_db, set_ready False sv))"
| "CreateMogEntry E Open_db sv =
     check (sv_DB sv) null_DB
       (and_then (mog_open E ''SensetimeMog'' (sv_mog sv)) (\<lambda>(r, st).
          check (r = 0) (Fatal ''Check failed: DB->open'') (Inr (Some Clear_reset, sv\<lparr>sv_mog := st\<rparr>))))"
| "CreateMogEntry E Clear_reset sv = Inr (Some Set_ready, sv\<lparr>sv_reset_flag := False\<rparr>)"
| "CreateMogEntry E Set_ready sv = check (sv_DB sv) null_DB (Inr (Some Unlock, set_ready True sv))"
| "CreateMogEntry E Unlock sv = Inr (None, sv\<lparr>sv_locked := False\<rparr>)"

definition c_string :: "string \<Rightarrow> string outcome" where
  "c_string buf =
     (if char_of (0 :: nat) \<in> set buf then Inr (takeWhile (\<lambda>c. c \<noteq> char_of (0 :: nat)) buf)
      else Inl (Undefined ''read past the end of the request''))"

definition worker_recv :: "nat \<Rightarrow> string \<Rightarrow> 'db server \<Rightarrow> (byte list option \<times> 'db server) outcome" where
  "worker_recv w request sv =
     (case request of
        [] \<Rightarrow> Inl (Undefined ''read past the end of the request'')
      | c # _ \<Rightarrow>
          if c = CHR ''!'' then
            check (sv_DB sv) null_DB
              (let sv1 = set_ready False sv
               in Inr (Some [79, 75],
                       if sv_locked sv1 then sv1
                       else sv1\<lparr>sv_locked := True, sv_creators := sv_creators sv1 @ [Set_reset]\<rparr>))
          else
            and_then (c_string request) (\<lambda>path.
              Inr (None, sv\<lparr>sv_workers := (sv_workers sv)
                     [w := (sv_workers sv ! w)\<lparr>wk_pc := Serving (sv_reset_flag sv) path\<rparr>]\<rparr>)))"

text \<open>
  During a reset a worker reads the file itself. It goes on when the file cannot be opened:
  the length is then the -1 of \<open>tellg\<close>, which becomes the size of the reply.
\<close>

definition worker_pass :: "string \<Rightarrow> fs \<Rightarrow> byte list outcome" where
  "worker_pass path f =
     (case ifstream_open path f of
        None \<Rightarrow> Inl (Undefined ''a reply of size_t(-1) bytes'')
      | Some (len, buffer) \<Rightarrow> Inr (if len > 64 * 1024 * 1024 then [] else buffer))"

definition worker_serve :: "'db env \<Rightarrow> nat \<Rightarrow> 'db server \<Rightarrow> (string \<times> byte list \<times> 'db server) outcome" where
  "worker_serve E w sv =
     (let wk = sv_workers sv ! w
      in case wk_pc wk of
           Receiving \<Rightarrow> Inl Waits
         | Serving True path \<Rightarrow>
             and_then (worker_pass path (st_fs (sv_mog sv))) (\<lambda>reply.
               Inr (path, reply, sv\<lparr>sv_workers := (sv_workers sv)[w := wk\<lparr>wk_pc := Receiving\<rparr>]\<rparr>))
         | Serving False path \<Rightarrow>
             check (sv_DB sv) null_DB
             (and_then (mog_read_file E path (wk_data wk) (sv_mog sv)) (\<lambda>(read_len, mog_data, st).
                check (0 \<le> read_len) (Undefined ''a reply of negative size'')
                (and_then (buf_read 0 (nat read_len) mog_data) (\<lambda>reply.
                   Inr (path, reply, sv\<lparr>sv_mog := st,
                     sv_workers := (sv_workers sv)[w := \<lparr>wk_pc = Receiving, wk_data = mog_data\<rparr>]\<rparr>))))))"

text \<open>\<open>main\<close> locks \<open>mtx\<close> for the first \<open>CreateMogEntry\<close> and starts the workers.\<close>

definition server_main :: "'db env \<Rightarrow> 'db mog_state \<Rightarrow> byte list list \<Rightarrow> 'db server" where
  "server_main E st buffers =
     \<lparr>sv_locked = True, sv_first = True, sv_reset_flag = False, sv_DB = False,
      sv_mog = st\<lparr>st_fs := fs_remove_all E ''ipc:///tmp/SensetimeMog'' (st_fs st)\<rparr>,
      sv_creators = [Set_reset],
      sv_workers = map (\<lambda>b. \<lparr>wk_pc = Receiving, wk_data = b\<rparr>) buffers\<rparr>"


subsection \<open>Steps of the threads\<close>

datatype server_event =
  Created create_pc | Received nat string | Replied nat string "byte list" | Background mog_event

definition create_step :: "'db env \<Rightarrow> nat \<Rightarrow> 'db server \<Rightarrow> 'db server outcome" where
  "create_step E i sv =
     and_then (CreateMogEntry E (sv_creators sv ! i) sv) (\<lambda>(next_pc, sv').
       Inr (sv'\<lparr>sv_creators :=
                 (case next_pc of
                    None \<Rightarrow> remove_nth i (sv_creators sv')
                  | Some pc \<Rightarrow> (sv_creators sv')[i := pc])\<rparr>))"

inductive server_step :: "'db env \<Rightarrow> 'db server \<Rightarrow> server_event \<Rightarrow> 'db server \<Rightarrow> bool" for E where
  Create: "i < length (sv_creators sv) \<Longrightarrow> create_step E i sv = Inr sv' \<Longrightarrow>
     server_step E sv (Created (sv_creators sv ! i)) sv'"
| Receive: "w < length (sv_workers sv) \<Longrightarrow> wk_pc (sv_workers sv ! w) = Receiving \<Longrightarrow>
     worker_recv w request sv = Inr (reply, sv') \<Longrightarrow> server_step E sv (Received w request) sv'"
| Serve: "w < length (sv_workers sv) \<Longrightarrow> worker_serve E w sv = Inr (path, reply, sv') \<Longrightarrow>
     wb_latest_block_id (st_wb (sv_mog sv)) + 1 < 2 ^ 63 \<Longrightarrow> server_step E sv (Replied w path reply) sv'"
| Flush: "flush_task E i (sv_mog sv) = Inr st' \<Longrightarrow>
     server_step E sv (Background (Flushed i)) (sv\<lparr>sv_mog := st'\<rparr>)"
| Fetch: "fetch_task E i (sv_mog sv) = Inr st' \<Longrightarrow>
     server_step E sv (Background (Fetched i)) (sv\<lparr>sv_mog := st'\<rparr>)"

inductive server_run :: "'db env \<Rightarrow> 'db server \<Rightarrow> server_event list \<Rightarrow> 'db server \<Rightarrow> bool" for E where
  Nil: "server_run E sv [] sv"
| Cons: "server_step E sv e sv' \<Longrightarrow> server_run E sv' es sv'' \<Longrightarrow> server_run E sv (e # es) sv''"

inductive_cases server_stepE: "server_step E sv e sv'"
inductive_cases server_run_ConsE: "server_run E sv (e # es) sv'"


subsection \<open>Invariant\<close>

definition configured :: "string set \<Rightarrow> mog \<Rightarrow> bool" where
  "configured P m \<longleftrightarrow> params_ok m \<and> layout_ok (m\<lparr>mog_db_name := ''SensetimeMog''\<rparr>) P"

definition sv_idle :: "'db server \<Rightarrow> bool" where
  "sv_idle sv \<longleftrightarrow> mog_idle (sv_mog sv) \<and> pools_empty (sv_mog sv)
     \<and> (sv_DB sv \<longrightarrow> \<not> mog_ready (st_mog (sv_mog sv)))"

text \<open>What holds when a \<open>CreateMogEntry\<close> is about to execute a statement, or none runs.\<close>

fun create_ok :: "'db env \<Rightarrow> string set \<Rightarrow> create_pc list \<Rightarrow> 'db server \<Rightarrow> bool" where
  "create_ok E P [] sv \<longleftrightarrow> sv_DB sv \<and> \<not> sv_reset_flag sv \<and> mog_ok E P (sv_mog sv)"
| "create_ok E P [pc] sv \<longleftrightarrow>
     (case pc of
        Set_reset \<Rightarrow> \<not> sv_reset_flag sv \<and> (if sv_DB sv then mog_ok E P (sv_mog sv) else sv_idle sv)
      | Close_old \<Rightarrow> sv_reset_flag sv \<and> (if sv_DB sv then mog_ok E P (sv_mog sv) else sv_idle sv)
      | New_object \<Rightarrow> sv_reset_flag sv \<and> sv_idle sv
      | Not_ready \<Rightarrow> sv_DB sv \<and> sv_reset_flag sv \<and> sv_idle sv
      | Open_db \<Rightarrow> sv_DB sv \<and> sv_reset_flag sv \<and> sv_idle sv
      | Clear_reset \<Rightarrow> sv_DB sv \<and> sv_reset_flag sv \<and> mog_ok E P (sv_mog sv)
      | Set_ready \<Rightarrow> sv_DB sv \<and> \<not> sv_reset_flag sv \<and> mog_ok E P (sv_mog sv)
      | Unlock \<Rightarrow> sv_DB sv \<and> \<not> sv_reset_flag sv \<and> mog_ok E P (sv_mog sv))"
| "create_ok E P (_ # _ # _) sv \<longleftrightarrow> False"

definition workers_ok :: "string set \<Rightarrow> 'db server \<Rightarrow> bool" where
  "workers_ok P sv \<longleftrightarrow>
     (\<forall>wk \<in> set (sv_workers sv). 64 * 1024 * 1024 \<le> length (wk_data wk)
        \<and> (\<forall>b p. wk_pc wk = Serving b p \<longrightarrow> p \<in> P))"

definition sv_ok :: "'db env \<Rightarrow> string set \<Rightarrow> (string \<Rightarrow> byte list option) \<Rightarrow> 'db server \<Rightarrow> bool" where
  "sv_ok E P F sv \<longleftrightarrow>
     create_ok E P (sv_creators sv) sv \<and> workers_ok P sv
     \<and> sv_locked sv = (sv_creators sv \<noteq> []) \<and> sv_first sv = (\<not> sv_DB sv)
     \<and> (if sv_DB sv then configured P (st_mog (sv_mog sv))
        else (\<forall>m. mog_new E ''mog.yaml'' (st_fs (sv_mog sv)) = Inr m \<longrightarrow> configured P m))
     \<and> (\<forall>p \<in> P. files (st_fs (sv_mog sv)) p = F p)"

definition request_known :: "string set \<Rightarrow> server_event \<Rightarrow> bool" where
  "request_known P e \<longleftrightarrow>
     (case e of Received w request \<Rightarrow> request \<noteq> [] \<longrightarrow> hd request \<noteq> CHR ''!'' \<longrightarrow>
        takeWhile (\<lambda>c. c \<noteq> char_of (0 :: nat)) request \<in> P
      | _ \<Rightarrow> True)"

lemma configured_params: "mog_params m = mog_params m' \<Longrightarrow> configured P m = configured P m'"
  unfolding configured_def by (metis params_ok_params layout_ok_params)

lemma configured_name [simp]: "configured P (m\<lparr>mog_db_name := n\<rparr>) = configured P m"
  by (simp add: configured_def params_ok_def layout_ok_def)

lemma configured_ready [simp]: "configured P (m\<lparr>mog_ready := b\<rparr>) = configured P m"
  by (rule configured_params) simp

lemma configured_open:
  "mog_open E name st = Inr (r, st') \<Longrightarrow> configured P (st_mog st') = configured P (st_mog st)"
  using configured_params [OF open_params] by simp

lemma mog_new_not_ready: "mog_new E cfg f = Inr m \<Longrightarrow> \<not> mog_ready m"
  by (auto simp: mog_new_def mog_setup_def mog_initial_para_def and_then_Inr check_Inr split: option.splits)

lemma mog_idle_object [simp]: "mog_idle (st\<lparr>st_mog := m\<rparr>) = mog_idle st"
  by (simp add: mog_idle_def)

lemma pools_empty_object [simp]: "pools_empty (st\<lparr>st_mog := m\<rparr>) = pools_empty st"
  by (simp add: pools_empty_def)

lemma set_ready_simps [simp]:
  "sv_locked (set_ready b sv) = sv_locked sv" "sv_first (set_ready b sv) = sv_first sv"
  "sv_reset_flag (set_ready b sv) = sv_reset_flag sv" "sv_DB (set_ready b sv) = sv_DB sv"
  "sv_creators (set_ready b sv) = sv_creators sv" "sv_workers (set_ready b sv) = sv_workers sv"
  "sv_mog (set_ready b sv) = (sv_mog sv)\<lparr>st_mog := (st_mog (sv_mog sv))\<lparr>mog_ready := b\<rparr>\<rparr>"
  by (simp_all add: set_ready_def)

lemma mog_ok_st_mog [simp]: "mog_ok E P (st\<lparr>st_mog := m\<rparr>) = mog_ok E P st"
  by (simp add: mog_ok_def blocks_ok_def wb_coherent_def index_coherent_def cpu_coherent_def stored_file_def)

lemma create_ok_cong:
  "sv_DB sv' = sv_DB sv \<Longrightarrow> sv_reset_flag sv' = sv_reset_flag sv \<Longrightarrow> sv_mog sv' = sv_mog sv \<Longrightarrow>
     create_ok E P cs sv' = create_ok E P cs sv"
  by (cases "(E, P, cs, sv)" rule: create_ok.cases) (simp_all add: sv_idle_def split: create_pc.splits)

text \<open>A worker may clear \<open>ready\<close> at any time.\<close>

lemma create_ok_not_ready:
  "create_ok E P cs sv \<Longrightarrow> sv_DB sv \<Longrightarrow> create_ok E P cs (set_ready False sv)"
  by (cases "(E, P, cs, sv)" rule: create_ok.cases) (auto simp: sv_idle_def split: create_pc.splits)

text \<open>With an object there is either a server in its invariant or an idle one.\<close>

lemma create_ok_DB:
  "create_ok E P cs sv \<Longrightarrow> sv_DB sv \<Longrightarrow> mog_ok E P (sv_mog sv) \<or> sv_idle sv"
  by (cases "(E, P, cs, sv)" rule: create_ok.cases) (auto split: create_pc.splits)

lemma create_ok_mog:
  "create_ok E P cs sv \<Longrightarrow> sv_DB sv \<Longrightarrow> mog_ok E P (sv_mog sv) \<Longrightarrow> mog_ok E P st' \<Longrightarrow> \<not> sv_idle sv \<Longrightarrow>
     create_ok E P cs (sv\<lparr>sv_mog := st'\<rparr>)"
  by (cases "(E, P, cs, sv)" rule: create_ok.cases) (auto split: create_pc.splits)

lemma read_file_pass:
  assumes "\<not> mog_ready (st_mog st)" "64 * 1024 * 1024 \<le> length value"
  shows "\<exists>value'. mog_read_file E p value st = Inr (int (length (served (st_fs st) p)), value', st)
    \<and> take (length (served (st_fs st) p)) value' = served (st_fs st) p \<and> length value' = length value"
  using assms
  by (cases "files (st_fs st) p") (auto simp: mog_read_file_def ifstream_open_def served_def Let_def)

lemma worker_pass_served:
  assumes "worker_pass p f = Inr reply"
  shows "reply = served f p"
  using assms by (auto simp: worker_pass_def ifstream_open_def served_def split: option.splits if_splits)

lemma sv_okD:
  assumes "sv_ok E P F sv"
  shows "create_ok E P (sv_creators sv) sv" "workers_ok P sv" "sv_locked sv = (sv_creators sv \<noteq> [])"
    "sv_first sv = (\<not> sv_DB sv)" "sv_DB sv \<Longrightarrow> configured P (st_mog (sv_mog sv))"
    "\<not> sv_DB sv \<Longrightarrow> mog_new E ''mog.yaml'' (st_fs (sv_mog sv)) = Inr m \<Longrightarrow> configured P m"
    "\<forall>p \<in> P. files (st_fs (sv_mog sv)) p = F p"
  using assms unfolding sv_ok_def by (simp_all split: if_splits)

lemma workers_ok_update:
  assumes "workers_ok P sv" "64 * 1024 * 1024 \<le> length (wk_data wk)"
    and "\<forall>b p. wk_pc wk = Serving b p \<longrightarrow> p \<in> P" "sv_workers sv' = (sv_workers sv)[w := wk]"
  shows "workers_ok P sv'"
  using assms unfolding workers_ok_def by (auto dest!: set_update_subset_insert [THEN subsetD])

lemma worker_ok:
  assumes "workers_ok P sv" "w < length (sv_workers sv)"
  shows "64 * 1024 * 1024 \<le> length (wk_data (sv_workers sv ! w))"
    "wk_pc (sv_workers sv ! w) = Serving b p \<Longrightarrow> p \<in> P"
  using assms unfolding workers_ok_def by (metis nth_mem)+

context environment begin

text \<open>A task, or a request that reached the caches: the object changes, its parameters do not.\<close>

lemma sv_ok_mog:
  assumes ok: "sv_ok E P F sv" and db: "sv_DB sv" and st: "mog_ok E P st'" "mog_frame P (sv_mog sv) st'"
    and par: "mog_params (st_mog st') = mog_params (st_mog (sv_mog sv))"
    and idle: "\<not> sv_idle sv" and wk: "workers_ok P (sv\<lparr>sv_mog := st', sv_workers := ws\<rparr>)"
  shows "sv_ok E P F (sv\<lparr>sv_mog := st', sv_workers := ws\<rparr>)"
proof -
  note D = sv_okD [OF ok]
  have "mog_ok E P (sv_mog sv)" using create_ok_DB [OF D(1) db] idle by blast
  then have "create_ok E P (sv_creators sv) (sv\<lparr>sv_mog := st'\<rparr>)"
    using create_ok_mog [OF D(1) db _ st(1) idle] by blast
  then have "create_ok E P (sv_creators sv) (sv\<lparr>sv_mog := st', sv_workers := ws\<rparr>)"
    using create_ok_cong [of "sv\<lparr>sv_mog := st', sv_workers := ws\<rparr>" "sv\<lparr>sv_mog := st'\<rparr>"] by simp
  moreover have "configured P (st_mog st')" using D(5) [OF db] configured_params [OF par] by simp
  ultimately show ?thesis
    using D(3,4,7) db wk st(2) unfolding sv_ok_def by (simp add: mog_frame_def)
qed

lemma task_sv_ok:
  assumes ok: "sv_ok E P F sv"
    and t: "flush_task E i (sv_mog sv) = Inr st' \<or> fetch_task E i (sv_mog sv) = Inr st'"
  shows "sv_ok E P F (sv\<lparr>sv_mog := st'\<rparr>)"
proof -
  note D = sv_okD [OF ok]
  have idle: "\<not> sv_idle sv"
    using t no_tasks [of "sv_mog sv"] by (auto simp: sv_idle_def)
  then have db: "sv_DB sv" and mog: "mog_ok E P (sv_mog sv)"
    using D(1) create_ok_DB [OF D(1)]
    by (cases "(E, P, sv_creators sv, sv)" rule: create_ok.cases;
        auto split: create_pc.splits if_splits)+
  obtain e where "mog_step E (sv_mog sv) e st'" "event_known P e"
    using t by (metis mog_step.Flushed mog_step.Fetched event_known_def mog_event.simps(11,12))
  then have "mog_ok E P st'" "mog_frame P (sv_mog sv) st'" using step_ok [OF _ mog] by blast+
  moreover have "st_mog st' = st_mog (sv_mog sv)" using t task_params by blast
  moreover have "workers_ok P (sv\<lparr>sv_mog := st'\<rparr>)" using D(2) by (simp add: workers_ok_def)
  ultimately show ?thesis using sv_ok_mog [OF ok db _ _ _ idle, of st' "sv_workers sv"] by simp
qed

lemma recv_sv_ok:
  assumes ok: "sv_ok E P F sv" and w: "w < length (sv_workers sv)"
    and r: "worker_recv w request sv = Inr (reply, sv')"
    and known: "\<And>path. c_string request = Inr path \<Longrightarrow> hd request \<noteq> CHR ''!'' \<Longrightarrow> path \<in> P"
  shows "sv_ok E P F sv'"
proof -
  note D = sv_okD [OF ok]
  obtain c rest where req: "request = c # rest" using r by (cases request) (auto simp: worker_recv_def)
  show ?thesis
  proof (cases "c = CHR ''!''")
    case True
    let ?sv1 = "set_ready False sv"
    have db: "sv_DB sv" and sv': "sv' = (if sv_locked sv then ?sv1
        else ?sv1\<lparr>sv_locked := True, sv_creators := sv_creators sv @ [Set_reset]\<rparr>)"
      using r True req by (auto simp: worker_recv_def check_Inr Let_def)
    have c1: "create_ok E P (sv_creators sv) ?sv1" using create_ok_not_ready [OF D(1) db] .
    have ok1: "sv_ok E P F ?sv1"
      using c1 D(2-5,7) db unfolding sv_ok_def by (simp add: workers_ok_def)
    show ?thesis
    proof (cases "sv_locked sv")
      case True
      then show ?thesis using sv' ok1 by simp
    next
      case False
      then have "sv_creators sv = []" using D(3) by simp
      then show ?thesis
        using sv' False ok1 D(1) db unfolding sv_ok_def by (simp add: workers_ok_def)
    qed
  next
    case False
    then obtain path where p: "c_string request = Inr path"
      "sv' = sv\<lparr>sv_workers := (sv_workers sv)[w := (sv_workers sv ! w)\<lparr>wk_pc := Serving (sv_reset_flag sv) path\<rparr>]\<rparr>"
      using r req by (auto simp: worker_recv_def and_then_Inr)
    then have "path \<in> P" using known False req by simp
    then have "workers_ok P sv'"
      using p(2) worker_ok(1) [OF D(2) w] by (intro workers_ok_update [OF D(2)]) auto
    moreover have "create_ok E P (sv_creators sv') sv'"
      using D(1) p(2) create_ok_cong [of sv' sv] by simp
    ultimately show ?thesis using ok p(2) unfolding sv_ok_def by simp
  qed
qed

lemma serve_sv_ok:
  assumes ok: "sv_ok E P F sv" and w: "w < length (sv_workers sv)"
    and s: "worker_serve E w sv = Inr (path, reply, sv')"
    and id: "wb_latest_block_id (st_wb (sv_mog sv)) + 1 < 2 ^ 63"
  shows "sv_ok E P F sv' \<and> path \<in> P \<and> reply = served (st_fs (sv_mog sv)) path"
proof -
  note D = sv_okD [OF ok]
  let ?wk = "sv_workers sv ! w" and ?f = "st_fs (sv_mog sv)"
  have room: "64 * 1024 * 1024 \<le> length (wk_data ?wk)" by (rule worker_ok [OF D(2) w])
  obtain b p where pc: "wk_pc ?wk = Serving b p"
    using s by (cases "wk_pc ?wk") (auto simp: worker_serve_def Let_def)
  have p: "p \<in> P" by (rule worker_ok(2) [OF D(2) w pc])
  show ?thesis
  proof (cases b)
    case True
    then have r: "worker_pass p ?f = Inr reply" "path = p"
      "sv' = sv\<lparr>sv_workers := (sv_workers sv)[w := ?wk\<lparr>wk_pc := Receiving\<rparr>]\<rparr>"
      using s pc by (auto simp: worker_serve_def Let_def and_then_Inr)
    have "workers_ok P sv'" using r(3) room by (intro workers_ok_update [OF D(2)]) auto
    moreover have "create_ok E P (sv_creators sv') sv'" using D(1) r(3) create_ok_cong [of sv' sv] by simp
    ultimately have "sv_ok E P F sv'" using ok r(3) unfolding sv_ok_def by simp
    then show ?thesis using r p worker_pass_served by simp
  next
    case False
    then obtain n data st' where r: "sv_DB sv" "mog_read_file E p (wk_data ?wk) (sv_mog sv) = Inr (n, data, st')"
      "0 \<le> n" "buf_read 0 (nat n) data = Inr reply" "path = p"
      "sv' = sv\<lparr>sv_mog := st', sv_workers := (sv_workers sv)[w := \<lparr>wk_pc = Receiving, wk_data = data\<rparr>]\<rparr>"
      using s pc by (auto simp: worker_serve_def Let_def and_then_Inr check_Inr)
    have wk: "workers_ok P sv'" if "length data = length (wk_data ?wk)"
      using r(6) room that by (intro workers_ok_update [OF D(2)]) auto
    show ?thesis
    proof (cases "sv_idle sv")
      case True
      then have "\<not> mog_ready (st_mog (sv_mog sv))" using r(1) by (simp add: sv_idle_def)
      from read_file_pass [OF this room, of E p] r(2)
      have st': "n = int (length (served ?f p))" "take (length (served ?f p)) data = served ?f p"
        "length data = length (wk_data ?wk)" "st' = sv_mog sv" by auto
      have "create_ok E P (sv_creators sv') sv'"
        using D(1) r(6) st'(4) create_ok_cong [of sv' sv] by simp
      then have "sv_ok E P F sv'" using ok r(6) wk st'(3,4) unfolding sv_ok_def by simp
      moreover have "reply = served ?f p" using r(4) st' by (simp add: buf_read_Inr)
      ultimately show ?thesis using r(5) p by simp
    next
      case idle: False
      then have "mog_ok E P (sv_mog sv)" using create_ok_DB [OF D(1) r(1)] by blast
      from read_file_spec [OF this p room id] r(2)
      have st': "mog_ok E P st'" "mog_frame P (sv_mog sv) st'" "length data = length (wk_data ?wk)"
        "answered ?f p n data" by auto
      have "sv_ok E P F sv'"
        using sv_ok_mog [OF ok r(1) st'(1,2) read_file_params [OF r(2)] idle] wk [OF st'(3)] r(6) by simp
      moreover have "reply = served ?f p" using r(4) st'(4) by (simp add: buf_read_Inr answered_def)
      ultimately show ?thesis using r(5) p by simp
    qed
  qed
qed

lemma close_sv_ok:
  assumes "sv_ok E P F sv" "sv_creators sv = [Close_old]" "sv_DB sv" "mog_close E (sv_mog sv) = Inr (r, st)"
  shows "mog_idle st \<and> pools_empty st \<and> \<not> mog_ready (st_mog st)
    \<and> configured P (st_mog st) \<and> (\<forall>p \<in> P. files (st_fs st) p = F p)"
proof -
  note D = sv_okD [OF assms(1)]
  have ok: "mog_ok E P (sv_mog sv)" using D(1) assms(2,3) by simp
  have pool: "ssd_pool (st_ssd (sv_mog sv)) = []"
    using close_waits [OF ok] assms(4) by (metis Inl_Inr_False)
  have conf: "configured P (st_mog (sv_mog sv))" by (rule D(5) [OF assms(3)])
  then have "\<forall>p \<in> P. \<not> below (mog_ssd_path (st_mog (sv_mog sv))) p"
    by (simp add: configured_def layout_ok_def)
  then show ?thesis using close_ok [OF ok pool] assms(4) conf D(7) by auto
qed

lemma open_sv_ok:
  assumes "sv_ok E P F sv" "sv_creators sv = [Open_db]" "keys_apart E P"
    and "mog_open E ''SensetimeMog'' (sv_mog sv) = Inr (r, st)"
  shows "mog_ok E P st \<and> configured P (st_mog st) \<and> (\<forall>p \<in> P. files (st_fs st) p = F p)"
proof -
  note D = sv_okD [OF assms(1)]
  have c: "sv_DB sv" "mog_idle (sv_mog sv)" using D(1) assms(2) by (simp_all add: sv_idle_def)
  have conf: "configured P (st_mog (sv_mog sv))" by (rule D(5) [OF c(1)])
  then have "params_ok (st_mog (sv_mog sv))"
    "layout_ok ((st_mog (sv_mog sv))\<lparr>mog_db_name := ''SensetimeMog''\<rparr>) P" by (simp_all add: configured_def)
  from open_ok [OF c(2) this assms(3,4)] show ?thesis
    using configured_open [OF assms(4), of P] conf D(7) by simp
qed

lemma create_sv_ok:
  assumes ok: "sv_ok E P F sv" and i: "i < length (sv_creators sv)" and s: "create_step E i sv = Inr sv'"
    and keys: "keys_apart E P"
  shows "sv_ok E P F sv'"
proof -
  note D = sv_okD [OF ok]
  obtain pc where pc: "sv_creators sv = [pc]" "i = 0"
    using D(1) i by (cases "(E, P, sv_creators sv, sv)" rule: create_ok.cases) auto
  obtain nxt sv1 where st: "CreateMogEntry E pc sv = Inr (nxt, sv1)"
    "sv' = sv1\<lparr>sv_creators := (case nxt of None \<Rightarrow> remove_nth 0 (sv_creators sv1)
        | Some pc' \<Rightarrow> (sv_creators sv1)[0 := pc'])\<rparr>"
    using s pc by (auto simp: create_step_def and_then_Inr)
  have lock: "sv_locked sv" using D(3) pc by simp
  have same: "create_ok E P cs sv' = create_ok E P cs sv1" for cs
    using st(2) by (intro create_ok_cong) simp_all
  note intro = sv_ok_def workers_ok_def
  show ?thesis
  proof (cases pc)
    case Close_old
    show ?thesis
    proof (cases "sv_DB sv")
      case True
      then obtain r m where cl: "mog_close E (sv_mog sv) = Inr (r, m)" "nxt = Some New_object"
        "sv1 = sv\<lparr>sv_mog := m\<rparr>"
        using st(1) Close_old by (auto simp: and_then_Inr)
      from close_sv_ok [OF ok _ True cl(1)] pc Close_old show ?thesis
        using D(1-4) pc Close_old True cl st(2) lock unfolding intro by (simp add: sv_idle_def)
    next
      case False
      then show ?thesis
        using ok D(1) pc Close_old st lock unfolding intro by (auto simp: sv_idle_def)
    qed
  next
    case Open_db
    then have db: "sv_DB sv" using D(1) pc by simp
    then obtain r m where op: "mog_open E ''SensetimeMog'' (sv_mog sv) = Inr (r, m)" "nxt = Some Clear_reset"
      "sv1 = sv\<lparr>sv_mog := m\<rparr>"
      using st(1) Open_db by (auto simp: and_then_Inr check_Inr)
    from open_sv_ok [OF ok _ keys op(1)] pc Open_db show ?thesis
      using D(1-4) pc Open_db db op st(2) lock unfolding intro by simp
  next
    case New_object
    show ?thesis
    proof (cases "sv_first sv")
      case True
      then obtain m where m: "mog_new E ''mog.yaml'' (st_fs (sv_mog sv)) = Inr m" "nxt = Some Not_ready"
        "sv1 = sv\<lparr>sv_first := False, sv_DB := True, sv_mog := (sv_mog sv)\<lparr>st_mog := m\<rparr>\<rparr>"
        using st(1) New_object by (auto simp: and_then_Inr)
      have "configured P m" "\<not> mog_ready m"
        using D(4) D(6) [OF _ m(1)] True mog_new_not_ready [OF m(1)] by simp_all
      then show ?thesis
        using D(1-4,7) pc New_object True m st(2) lock unfolding intro by (simp add: sv_idle_def)
    next
      case False
      then show ?thesis
        using ok D(1,4) pc New_object st lock unfolding intro by (auto simp: sv_idle_def)
    qed
  qed (use ok D(1) pc st lock in \<open>unfold intro; auto simp: check_Inr sv_idle_def remove_nth_def split: if_splits\<close>)+
qed


subsection \<open>Histories\<close>

lemma server_step_ok:
  assumes "server_step E sv e sv'" "sv_ok E P F sv" "keys_apart E P" "request_known P e"
  shows "sv_ok E P F sv' \<and> (\<forall>w p reply. e = Replied w p reply \<longrightarrow> p \<in> P \<and> reply = served (st_fs (sv_mog sv)) p)"
  using assms(1)
proof cases
  case (Create i)
  then show ?thesis using create_sv_ok [OF assms(2) Create(2,3) assms(3)] by simp
next
  case (Receive w request reply)
  have "path \<in> P" if "c_string request = Inr path" "hd request \<noteq> CHR ''!''" for path
  proof -
    have "request \<noteq> []" using Receive(4) by (auto simp: worker_recv_def)
    then show ?thesis
      using that assms(4) Receive(1) by (auto simp: request_known_def c_string_def split: if_splits)
  qed
  then show ?thesis using recv_sv_ok [OF assms(2) Receive(2,4)] Receive(1) by blast
next
  case (Serve w path reply)
  then show ?thesis using serve_sv_ok [OF assms(2)] by simp
next
  case (Flush i st')
  then show ?thesis using task_sv_ok [OF assms(2) disjI1 [OF Flush(3)]] by simp
next
  case (Fetch i st')
  then show ?thesis using task_sv_ok [OF assms(2) disjI2 [OF Fetch(3)]] by simp
qed

lemma server_run_ok:
  assumes "server_run E sv es sv'" "sv_ok E P F sv" "keys_apart E P" "\<forall>e \<in> set es. request_known P e"
  shows "sv_ok E P F sv'
    \<and> (\<forall>w p reply. Replied w p reply \<in> set es \<longrightarrow> p \<in> P \<and> reply = served \<lparr>files = F, dirs = {}\<rparr> p)"
  using assms
proof (induction rule: server_run.induct)
  case (Cons sv e sv' es sv'')
  have 1: "sv_ok E P F sv' \<and> (\<forall>w p reply. e = Replied w p reply \<longrightarrow> p \<in> P \<and> reply = served (st_fs (sv_mog sv)) p)"
    using server_step_ok [OF Cons.hyps(1) Cons.prems(1,2)] Cons.prems(3) by simp
  have "served (st_fs (sv_mog sv)) p = served \<lparr>files = F, dirs = {}\<rparr> p" if "p \<in> P" for p
    using sv_okD(7) [OF Cons.prems(1)] that by (simp add: served_def)
  then show ?case using 1 Cons.IH Cons.prems(2,3) by auto
qed auto

end


text \<open>The state \<open>main\<close> starts from.\<close>

lemma server_main_ok:
  assumes "mog_idle st" "pools_empty st"
    and "\<forall>m. mog_new E ''mog.yaml'' (st_fs (sv_mog (server_main E st bufs))) = Inr m \<longrightarrow> configured P m"
    and "\<forall>b \<in> set bufs. 64 * 1024 * 1024 \<le> length b"
    and "\<forall>p \<in> P. files (st_fs (sv_mog (server_main E st bufs))) p = F p"
  shows "sv_ok E P F (server_main E st bufs)"
  using assms
  by (simp add: server_main_def sv_ok_def sv_idle_def workers_ok_def mog_idle_def pools_empty_def)

end
