(* ===== verification/Client_Library.thy ===== *)
theory Client_Library
  imports Server_Main
begin

section \<open>The client library: requests over a pool of five sockets\<close>

text \<open>
  \<open>core/mog.h\<close> and its copy \<open>mog_client/mog.h\<close>. A call of \<open>get\<close> looks for a free socket by
  \<open>test_and_set\<close> on one flag after another, sends the file name with a terminating zero,
  receives the reply and clears the flag. Threads that share the object interleave at these
  four points (\<open>get_pc\<close>). \<open>cl_inflight\<close> is the state of the \<open>ZMQ_REQ\<close> sockets: such a
  socket refuses (\<open>EFSM\<close>) to send again before it has received, and to receive before it
  has sent. What the server answers is the function \<open>answer\<close>.
\<close>

subsection \<open>State\<close>

datatype get_pc = Probing nat | Sending nat | Waiting nat | Clearing nat "byte list" | Returned "byte list"

record get_call =
  call_file :: string
  call_pc :: get_pc

record mog_client =
  cl_connected :: int
  cl_address :: "string list"
  cl_flags :: "bool list"
  cl_inflight :: "string option list"
  cl_calls :: "get_call list"

definition SOCKETNUM :: nat where
  "SOCKETNUM = 5"

text \<open>The constructors of \<open>core/mog.h\<close>; the second ignores the address it is given.\<close>

definition core_mog_new :: mog_client where
  "core_mog_new =
     \<lparr>cl_connected = -1, cl_address = replicate SOCKETNUM ''ipc:///tmp/SensetimeMog'',
      cl_flags = replicate SOCKETNUM False, cl_inflight = replicate SOCKETNUM None, cl_calls = []\<rparr>"

definition core_mog_new_addr :: "string \<Rightarrow> mog_client" where
  "core_mog_new_addr ipc_addr =
     \<lparr>cl_connected = -1, cl_address = replicate SOCKETNUM ''ipc:///tmp/SensetimeMog'',
      cl_flags = replicate SOCKETNUM False, cl_inflight = replicate SOCKETNUM None, cl_calls = []\<rparr>"

text \<open>The constructors of \<open>mog_client/mog.h\<close> connect elsewhere.\<close>

definition client_mog_new :: mog_client where
  "client_mog_new =
     \<lparr>cl_connected = -1, cl_address = replicate SOCKETNUM ''ipc:///dev/shm/SensetimeMog'',
      cl_flags = replicate SOCKETNUM False, cl_inflight = replicate SOCKETNUM None, cl_calls = []\<rparr>"

definition client_mog_new_addr :: "string \<Rightarrow> mog_client" where
  "client_mog_new_addr ipc_addr =
     \<lparr>cl_connected = -1, cl_address = replicate SOCKETNUM ''tcp://127.0.0.1:9555'',
      cl_flags = replicate SOCKETNUM False, cl_inflight = replicate SOCKETNUM None, cl_calls = []\<rparr>"

definition client_exists :: "mog_client \<Rightarrow> int" where
  "client_exists cl = cl_connected cl"


subsection \<open>get\<close>

definition get_request :: "string \<Rightarrow> string" where
  "get_request file_name = file_name @ [char_of (0 :: nat)]"

definition get_begin :: "string \<Rightarrow> mog_client \<Rightarrow> mog_client" where
  "get_begin file_name cl = cl\<lparr>cl_calls := cl_calls cl @ [\<lparr>call_file = file_name, call_pc = Probing 0\<rparr>]\<rparr>"

definition set_pc :: "nat \<Rightarrow> get_pc \<Rightarrow> mog_client \<Rightarrow> mog_client" where
  "set_pc t pc cl = cl\<lparr>cl_calls := (cl_calls cl)[t := (cl_calls cl ! t)\<lparr>call_pc := pc\<rparr>]\<rparr>"

definition EFSM :: failure where
  "EFSM = Fatal ''zmq::error_t: EFSM''"

definition get_step :: "(string \<Rightarrow> byte list) \<Rightarrow> nat \<Rightarrow> mog_client \<Rightarrow> mog_client outcome" where
  "get_step answer t cl =
     (case call_pc (cl_calls cl ! t) of
        Probing i \<Rightarrow>
          if cl_flags cl ! i then Inr (set_pc t (Probing (if Suc i < SOCKETNUM then Suc i else 0)) cl)
          else Inr (set_pc t (Sending i) (cl\<lparr>cl_flags := (cl_flags cl)[i := True]\<rparr>))
      | Sending i \<Rightarrow>
          check (cl_inflight cl ! i = None) EFSM
            (Inr (set_pc t (Waiting i)
                    (cl\<lparr>cl_inflight := (cl_inflight cl)[i := Some (get_request (call_file (cl_calls cl ! t)))]\<rparr>)))
      | Waiting i \<Rightarrow>
          (case cl_inflight cl ! i of
             None \<Rightarrow> Inl EFSM
           | Some request \<Rightarrow>
               Inr (set_pc t (Clearing i (answer request)) (cl\<lparr>cl_inflight := (cl_inflight cl)[i := None]\<rparr>)))
      | Clearing i data \<Rightarrow> Inr (set_pc t (Returned data) (cl\<lparr>cl_flags := (cl_flags cl)[i := False]\<rparr>))
      | Returned data \<Rightarrow> Inr cl)"

text \<open>A schedule names the call that moves next; \<open>None\<close> begins no step, \<open>Some f\<close> a new call.\<close>

datatype client_event = Call string | Move nat

fun client_run :: "(string \<Rightarrow> byte list) \<Rightarrow> client_event list \<Rightarrow> mog_client \<Rightarrow> mog_client outcome" where
  "client_run answer [] cl = Inr cl"
| "client_run answer (Call f # es) cl = client_run answer es (get_begin f cl)"
| "client_run answer (Move t # es) cl =
     (if t < length (cl_calls cl) then and_then (get_step answer t cl) (client_run answer es)
      else client_run answer es cl)"


subsection \<open>Invariant\<close>

fun holds :: "get_pc \<Rightarrow> nat option" where
  "holds (Probing i) = None"
| "holds (Sending i) = Some i"
| "holds (Waiting i) = Some i"
| "holds (Clearing i data) = Some i"
| "holds (Returned data) = None"

abbreviation pc_at :: "mog_client \<Rightarrow> nat \<Rightarrow> get_pc" where
  "pc_at cl t \<equiv> call_pc (cl_calls cl ! t)"

definition call_ok :: "(string \<Rightarrow> byte list) \<Rightarrow> mog_client \<Rightarrow> nat \<Rightarrow> bool" where
  "call_ok answer cl t \<longleftrightarrow>
     (let file = call_file (cl_calls cl ! t)
      in case pc_at cl t of
           Probing i \<Rightarrow> i < SOCKETNUM
         | Sending i \<Rightarrow> i < SOCKETNUM \<and> cl_flags cl ! i \<and> cl_inflight cl ! i = None
         | Waiting i \<Rightarrow> i < SOCKETNUM \<and> cl_flags cl ! i \<and> cl_inflight cl ! i = Some (get_request file)
         | Clearing i data \<Rightarrow> i < SOCKETNUM \<and> cl_flags cl ! i \<and> cl_inflight cl ! i = None
                               \<and> data = answer (get_request file)
         | Returned data \<Rightarrow> data = answer (get_request file))"

definition client_ok :: "(string \<Rightarrow> byte list) \<Rightarrow> mog_client \<Rightarrow> bool" where
  "client_ok answer cl \<longleftrightarrow>
     length (cl_flags cl) = SOCKETNUM \<and> length (cl_inflight cl) = SOCKETNUM
     \<and> (\<forall>t < length (cl_calls cl). call_ok answer cl t)
     \<and> (\<forall>t < length (cl_calls cl). \<forall>u < length (cl_calls cl).
           holds (pc_at cl t) \<noteq> None \<and> holds (pc_at cl t) = holds (pc_at cl u) \<longrightarrow> t = u)
     \<and> (\<forall>i < SOCKETNUM. cl_flags cl ! i \<longrightarrow> (\<exists>t < length (cl_calls cl). holds (pc_at cl t) = Some i))
     \<and> (\<forall>i < SOCKETNUM. \<not> cl_flags cl ! i \<longrightarrow> cl_inflight cl ! i = None)"

lemma client_okD:
  assumes "client_ok answer cl"
  shows "length (cl_flags cl) = SOCKETNUM" "length (cl_inflight cl) = SOCKETNUM"
    "t < length (cl_calls cl) \<Longrightarrow> call_ok answer cl t"
    "t < length (cl_calls cl) \<Longrightarrow> u < length (cl_calls cl) \<Longrightarrow> holds (pc_at cl t) = Some i \<Longrightarrow>
       holds (pc_at cl u) = Some i \<Longrightarrow> t = u"
    "i < SOCKETNUM \<Longrightarrow> cl_flags cl ! i \<Longrightarrow> \<exists>t < length (cl_calls cl). holds (pc_at cl t) = Some i"
    "i < SOCKETNUM \<Longrightarrow> \<not> cl_flags cl ! i \<Longrightarrow> cl_inflight cl ! i = None"
  using assms unfolding client_ok_def by (fastforce split: if_splits)+

lemma client_okI:
  assumes "length (cl_flags cl) = SOCKETNUM" "length (cl_inflight cl) = SOCKETNUM" "length (cl_calls cl) = n"
    and "\<And>t. t < n \<Longrightarrow> call_ok answer cl t"
    and "\<And>t u i. t < n \<Longrightarrow> u < n \<Longrightarrow> holds (pc_at cl t) = Some i \<Longrightarrow> holds (pc_at cl u) = Some i \<Longrightarrow> t = u"
    and "\<And>i. i < SOCKETNUM \<Longrightarrow> cl_flags cl ! i \<Longrightarrow> \<exists>t < n. holds (pc_at cl t) = Some i"
    and "\<And>i. i < SOCKETNUM \<Longrightarrow> \<not> cl_flags cl ! i \<Longrightarrow> cl_inflight cl ! i = None"
  shows "client_ok answer cl"
  unfolding client_ok_def
proof (intro conjI allI impI)
  fix t u
  assume len: "t < length (cl_calls cl)" "u < length (cl_calls cl)"
    and h: "holds (pc_at cl t) \<noteq> None \<and> holds (pc_at cl t) = holds (pc_at cl u)"
  from h obtain i where i: "holds (pc_at cl t) = Some i" by blast
  then have "holds (pc_at cl u) = Some i" using h by simp
  with len i show "t = u" unfolding assms(3) by (rule assms(5))
qed (use assms(1-4,6,7) in auto)

lemma call_okI_holds:
  assumes "call_ok answer cl t" "holds (pc_at cl t) = Some i"
  shows "i < SOCKETNUM" "cl_flags cl ! i"
  using assms by (auto simp: call_ok_def Let_def split: get_pc.splits)

text \<open>A call is not disturbed by changes to a socket it does not hold.\<close>

lemma call_ok_frame:
  assumes "call_ok answer cl u" "cl_calls cl' ! u = cl_calls cl ! u"
    and "\<And>i. holds (pc_at cl u) = Some i \<Longrightarrow>
           cl_flags cl' ! i = cl_flags cl ! i \<and> cl_inflight cl' ! i = cl_inflight cl ! i"
  shows "call_ok answer cl' u"
  using assms by (auto simp: call_ok_def Let_def split: get_pc.splits)

lemma client_ok_move:
  assumes ok: "client_ok answer cl" and t: "t < length (cl_calls cl)"
    and cl': "cl_calls cl' = (cl_calls cl)[t := (cl_calls cl ! t)\<lparr>call_pc := pc\<rparr>]"
      "length (cl_flags cl') = SOCKETNUM" "length (cl_inflight cl') = SOCKETNUM"
    and own: "call_ok answer cl' t"
    and frame: "\<And>i. i < SOCKETNUM \<Longrightarrow> i \<noteq> j \<Longrightarrow>
        cl_flags cl' ! i = cl_flags cl ! i \<and> cl_inflight cl' ! i = cl_inflight cl ! i"
    and j: "j < SOCKETNUM" "holds (pc_at cl t) = Some j \<or> (holds (pc_at cl t) = None \<and> \<not> cl_flags cl ! j)"
    and hold: "holds pc = (if cl_flags cl' ! j then Some j else None)"
    and quiet: "\<not> cl_flags cl' ! j \<longrightarrow> cl_inflight cl' ! j = None"
  shows "client_ok answer cl'"
proof -
  note D = client_okD [OF ok]
  let ?n = "length (cl_calls cl)"
  have pc: "pc_at cl' u = (if u = t then pc else pc_at cl u)" if "u < ?n" for u
    using that t cl'(1) by (auto simp: nth_list_update)
  have other: "holds (pc_at cl u) \<noteq> Some j" if "u < ?n" "u \<noteq> t" for u
  proof
    assume h: "holds (pc_at cl u) = Some j"
    then have "cl_flags cl ! j" using call_okI_holds(2) [OF D(3) [OF that(1)]] by blast
    then show False using j(2) D(4) [OF that(1) t h] that(2) by blast
  qed
  have calls: "\<forall>u < ?n. call_ok answer cl' u"
  proof (intro allI impI)
    fix u assume u: "u < ?n"
    show "call_ok answer cl' u"
    proof (cases "u = t")
      case False
      have "cl_flags cl' ! i = cl_flags cl ! i \<and> cl_inflight cl' ! i = cl_inflight cl ! i"
        if h: "holds (pc_at cl u) = Some i" for i
      proof -
        have "i < SOCKETNUM" using call_okI_holds(1) [OF D(3) [OF u] h] .
        moreover have "i \<noteq> j" using other [OF u False] h by blast
        ultimately show ?thesis by (rule frame)
      qed
      then show ?thesis using D(3) [OF u] False cl'(1) by (intro call_ok_frame [of answer cl u cl']) auto
    qed (use own in simp)
  qed
  have uniq: "u = v" if "u < ?n" "v < ?n" "holds (pc_at cl' u) = Some i" "holds (pc_at cl' v) = Some i" for u v i
  proof (rule ccontr)
    assume ne: "u \<noteq> v"
    then have "u \<noteq> t \<and> v \<noteq> t" using that pc other hold by (auto split: if_splits)
    then have "holds (pc_at cl u) = Some i" "holds (pc_at cl v) = Some i" using that pc by auto
    then show False using D(4) [OF that(1,2)] ne by blast
  qed
  have owner: "\<exists>u < ?n. holds (pc_at cl' u) = Some i" if i: "i < SOCKETNUM" "cl_flags cl' ! i" for i
  proof (cases "i = j")
    case True
    then show ?thesis using hold i(2) pc [OF t] t by (intro exI [of _ t]) simp
  next
    case False
    then obtain u where u: "u < ?n" "holds (pc_at cl u) = Some i" using D(5) frame i by blast
    then have "u \<noteq> t" using j(2) False by auto
    then show ?thesis using u pc [OF u(1)] by auto
  qed
  have quiet': "cl_inflight cl' ! i = None" if "i < SOCKETNUM" "\<not> cl_flags cl' ! i" for i
    using that quiet D(6) frame by (cases "i = j") auto
  have n: "length (cl_calls cl') = ?n" using cl'(1) by simp
  show ?thesis
    by (rule client_okI [OF cl'(2,3) n _ uniq owner quiet']) (use calls in blast)
qed

lemma client_ok_probe:
  assumes ok: "client_ok answer cl" and t: "t < length (cl_calls cl)" and i: "i < SOCKETNUM"
    and pc: "holds (pc_at cl t) = None"
  shows "client_ok answer (set_pc t (Probing i) cl)"
proof -
  note D = client_okD [OF ok]
  let ?cl = "set_pc t (Probing i) cl"
  have eq: "pc_at ?cl u = (if u = t then Probing i else pc_at cl u)" if "u < length (cl_calls cl)" for u
    using that t by (auto simp: set_pc_def nth_list_update)
  have calls: "call_ok answer ?cl u" if "u < length (cl_calls cl)" for u
  proof (cases "u = t")
    case True
    then show ?thesis using eq [OF that] i by (simp add: call_ok_def Let_def)
  next
    case False
    then show ?thesis using D(3) [OF that] by (intro call_ok_frame [of answer cl u ?cl]) (auto simp: set_pc_def)
  qed
  have uniq: "u = v" if "u < length (cl_calls cl)" "v < length (cl_calls cl)"
      "holds (pc_at ?cl u) = Some j" "holds (pc_at ?cl v) = Some j" for u v j
  proof -
    have "u \<noteq> t" "v \<noteq> t" using that eq by auto
    then show ?thesis using that eq D(4) [of u v j] by simp
  qed
  have owner: "\<exists>u < length (cl_calls cl). holds (pc_at ?cl u) = Some j" if j: "j < SOCKETNUM" "cl_flags cl ! j" for j
  proof -
    obtain u where u: "u < length (cl_calls cl)" "holds (pc_at cl u) = Some j" using D(5) [OF j] by blast
    then have "u \<noteq> t" using pc by auto
    then show ?thesis using u eq [OF u(1)] by auto
  qed
  have same: "length (cl_calls ?cl) = length (cl_calls cl)" "cl_flags ?cl = cl_flags cl" "cl_inflight ?cl = cl_inflight cl"
    by (simp_all add: set_pc_def)
  show ?thesis
    by (rule client_okI [OF _ _ same(1) calls uniq]) (use same D(1,2,6) owner in auto)
qed

lemma get_step_ok:
  assumes ok: "client_ok answer cl" and t: "t < length (cl_calls cl)"
  shows "\<exists>cl'. get_step answer t cl = Inr cl' \<and> client_ok answer cl' \<and> length (cl_calls cl') = length (cl_calls cl)
    \<and> (\<forall>u. call_file (cl_calls cl' ! u) = call_file (cl_calls cl ! u))"
proof -
  note D = client_okD [OF ok]
  have own: "call_ok answer cl t" by (rule D(3) [OF t])
  have files: "call_file (((cl_calls cl)[t := (cl_calls cl ! t)\<lparr>call_pc := pc\<rparr>]) ! u) = call_file (cl_calls cl ! u)" for pc u
    using t by (cases "u = t") simp_all
  show ?thesis
  proof (cases "pc_at cl t")
    case (Probing i)
    then have i: "i < SOCKETNUM" using own by (simp add: call_ok_def)
    show ?thesis
    proof (cases "cl_flags cl ! i")
      case True
      then show ?thesis
        using client_ok_probe [OF ok t, of "if Suc i < SOCKETNUM then Suc i else 0"] Probing files
        by (auto simp: get_step_def set_pc_def SOCKETNUM_def)
    next
      case False
      let ?cl = "set_pc t (Sending i) (cl\<lparr>cl_flags := (cl_flags cl)[i := True]\<rparr>)"
      have "client_ok answer ?cl"
        using D(1,2,6) False i t Probing
        by (intro client_ok_move [OF ok t, where pc = "Sending i" and j = i]) (auto simp: set_pc_def call_ok_def)
      then show ?thesis using Probing False files by (simp add: get_step_def set_pc_def)
    qed
  next
    case (Sending i)
    then have i: "i < SOCKETNUM" "cl_flags cl ! i" "cl_inflight cl ! i = None"
      using own by (simp_all add: call_ok_def)
    let ?cl = "set_pc t (Waiting i)
        (cl\<lparr>cl_inflight := (cl_inflight cl)[i := Some (get_request (call_file (cl_calls cl ! t)))]\<rparr>)"
    have "client_ok answer ?cl"
      using D(1,2) i t Sending
      by (intro client_ok_move [OF ok t, where pc = "Waiting i" and j = i]) (auto simp: set_pc_def call_ok_def)
    then show ?thesis using Sending i files by (simp add: get_step_def set_pc_def)
  next
    case (Waiting i)
    then have i: "i < SOCKETNUM" "cl_flags cl ! i" "cl_inflight cl ! i = Some (get_request (call_file (cl_calls cl ! t)))"
      using own by (simp_all add: call_ok_def)
    let ?d = "answer (get_request (call_file (cl_calls cl ! t)))"
    let ?cl = "set_pc t (Clearing i ?d) (cl\<lparr>cl_inflight := (cl_inflight cl)[i := None]\<rparr>)"
    have "client_ok answer ?cl"
      using D(1,2) i t Waiting
      by (intro client_ok_move [OF ok t, where pc = "Clearing i ?d" and j = i]) (auto simp: set_pc_def call_ok_def)
    then show ?thesis using Waiting i files by (simp add: get_step_def set_pc_def)
  next
    case (Clearing i data)
    then have i: "i < SOCKETNUM" "cl_flags cl ! i" "cl_inflight cl ! i = None"
      "data = answer (get_request (call_file (cl_calls cl ! t)))"
      using own by (simp_all add: call_ok_def)
    let ?cl = "set_pc t (Returned data) (cl\<lparr>cl_flags := (cl_flags cl)[i := False]\<rparr>)"
    have "client_ok answer ?cl"
      using D(1,2) i t Clearing
      by (intro client_ok_move [OF ok t, where pc = "Returned data" and j = i]) (auto simp: set_pc_def call_ok_def)
    then show ?thesis using Clearing files by (simp add: get_step_def set_pc_def)
  next
    case (Returned data)
    then show ?thesis using ok by (simp add: get_step_def)
  qed
qed

lemma get_begin_ok:
  assumes ok: "client_ok answer cl"
  shows "client_ok answer (get_begin f cl)"
proof -
  note D = client_okD [OF ok]
  let ?cl = "get_begin f cl" and ?n = "length (cl_calls cl)"
  have old: "cl_calls ?cl ! u = cl_calls cl ! u" if "u < ?n" for u
    using that by (simp add: get_begin_def nth_append)
  have new: "pc_at ?cl ?n = Probing 0" by (simp add: get_begin_def)
  have calls: "call_ok answer ?cl u" if "u < Suc ?n" for u
  proof (cases "u = ?n")
    case True
    then show ?thesis using new by (simp add: call_ok_def SOCKETNUM_def)
  next
    case False
    then have u: "u < ?n" using that by simp
    show ?thesis using D(3) [OF u] old [OF u] by (intro call_ok_frame [of answer cl u ?cl]) (auto simp: get_begin_def)
  qed
  have uniq: "u = v" if "u < Suc ?n" "v < Suc ?n" "holds (pc_at ?cl u) = Some i" "holds (pc_at ?cl v) = Some i" for u v i
  proof -
    have "u \<noteq> ?n" "v \<noteq> ?n" using that(3,4) new by auto
    then have "u < ?n" "v < ?n" using that(1,2) by simp_all
    then show ?thesis using that(3,4) old D(4) [of u v i] by simp
  qed
  have owner: "\<exists>u < Suc ?n. holds (pc_at ?cl u) = Some i" if "i < SOCKETNUM" "cl_flags cl ! i" for i
    using D(5) [OF that] old by (metis less_Suc_eq)
  have same: "length (cl_calls ?cl) = Suc ?n" "cl_flags ?cl = cl_flags cl" "cl_inflight ?cl = cl_inflight cl"
    by (simp_all add: get_begin_def)
  show ?thesis
    by (rule client_okI [OF _ _ same(1) calls uniq]) (use same D(1,2,6) owner in auto)
qed

lemma client_run_ok:
  "client_ok answer cl \<Longrightarrow> \<exists>cl'. client_run answer es cl = Inr cl' \<and> client_ok answer cl'"
proof (induction es arbitrary: cl)
  case (Cons e es)
  show ?case
  proof (cases e)
    case (Call f)
    then show ?thesis using Cons.IH [OF get_begin_ok [OF Cons.prems]] by simp
  next
    case (Move t)
    show ?thesis
    proof (cases "t < length (cl_calls cl)")
      case True
      then show ?thesis using get_step_ok [OF Cons.prems True] Cons.IH Move by auto
    next
      case False
      then show ?thesis using Cons Move by simp
    qed
  qed
qed simp

lemma client_new_ok: "client_ok answer core_mog_new" "client_ok answer client_mog_new"
  "client_ok answer (core_mog_new_addr a)" "client_ok answer (client_mog_new_addr a)"
  by (simp_all add: client_ok_def core_mog_new_def client_mog_new_def core_mog_new_addr_def client_mog_new_addr_def)

end
