(* ===== verification/Client_Properties.thy ===== *)
theory Client_Properties
  imports Client_Library
begin

section \<open>Properties of the client library\<close>

text \<open>
  Threads that share the client never use a socket together, never drive a \<open>ZMQ_REQ\<close>
  socket out of its send/receive alternation, and each gets the reply to its own request;
  a call that runs while a socket stays free returns within a bounded number of steps.
\<close>

text \<open>The request carries the file name unless the name contains a zero byte.\<close>

lemma c_string_request: "char_of (0 :: nat) \<notin> set name \<Longrightarrow> c_string (get_request name) = Inr name"
  unfolding c_string_def get_request_def by (subst takeWhile_append2) auto

text \<open>C15: get_returns_own_file. For every schedule of concurrent calls of \<open>get\<close> on a new client and every server
  that answers a request with the content of the file it names: no step fails, no two calls
  hold the same socket, and a call that has returned has the content of its own file.\<close>

theorem get_returns_own_file:
  assumes "\<forall>req path. c_string req = Inr path \<longrightarrow> answer req = served f path"
    and "\<forall>name. Call name \<in> set es \<longrightarrow> char_of (0 :: nat) \<notin> set name"
  shows "\<exists>cl. client_run answer es core_mog_new = Inr cl
     \<and> (\<forall>t < length (cl_calls cl). \<forall>u < length (cl_calls cl). \<forall>i.
          holds (pc_at cl t) = Some i \<longrightarrow> holds (pc_at cl u) = Some i \<longrightarrow> t = u)
     \<and> (\<forall>t < length (cl_calls cl). \<forall>data.
          pc_at cl t = Returned data \<longrightarrow> data = served f (call_file (cl_calls cl ! t)))"
proof -
  have names: "client_ok answer cl \<Longrightarrow> client_run answer es cl = Inr cl' \<Longrightarrow>
      \<forall>name. Call name \<in> set es \<longrightarrow> char_of (0 :: nat) \<notin> set name \<Longrightarrow>
      \<forall>t < length (cl_calls cl). char_of (0 :: nat) \<notin> set (call_file (cl_calls cl ! t)) \<Longrightarrow>
      \<forall>t < length (cl_calls cl'). char_of (0 :: nat) \<notin> set (call_file (cl_calls cl' ! t))" for es cl cl'
  proof (induction es arbitrary: cl)
    case (Cons e es)
    show ?case
    proof (cases e)
      case (Call g)
      have "\<forall>t < length (cl_calls (get_begin g cl)). char_of (0 :: nat) \<notin> set (call_file (cl_calls (get_begin g cl) ! t))"
        using Cons.prems(3,4) Call by (auto simp: get_begin_def nth_append less_Suc_eq)
      then show ?thesis
        using Cons.IH [OF get_begin_ok [OF Cons.prems(1)]] Cons.prems(2,3) Call by simp
    next
      case (Move t)
      show ?thesis
      proof (cases "t < length (cl_calls cl)")
        case True
        obtain cl1 where s: "get_step answer t cl = Inr cl1" "client_ok answer cl1"
          "length (cl_calls cl1) = length (cl_calls cl)"
          "\<forall>u. call_file (cl_calls cl1 ! u) = call_file (cl_calls cl ! u)"
          using get_step_ok [OF Cons.prems(1) True] by blast
        then show ?thesis using Cons.IH [OF s(2)] Cons.prems(2-4) Move True by simp
      next
        case False
        then show ?thesis using Cons Move by simp
      qed
    qed
  qed simp
  obtain cl where run: "client_run answer es core_mog_new = Inr cl" and ok: "client_ok answer cl"
    using client_run_ok [OF client_new_ok(1)] by blast
  have nul: "\<forall>t < length (cl_calls cl). char_of (0 :: nat) \<notin> set (call_file (cl_calls cl ! t))"
    by (rule names [OF client_new_ok(1) run assms(2)]) (simp add: core_mog_new_def)
  have "data = served f (call_file (cl_calls cl ! t))"
    if t: "t < length (cl_calls cl)" "pc_at cl t = Returned data" for t data
  proof -
    have "data = answer (get_request (call_file (cl_calls cl ! t)))"
      using client_okD(3) [OF ok t(1)] t(2) by (simp add: call_ok_def)
    then show ?thesis using assms(1) c_string_request nul t(1) by simp
  qed
  then show ?thesis using run client_okD(4) [OF ok] by blast
qed

definition two_calls :: "client_event list" where
  "two_calls = [Call ''/a'', Call ''/b'', Move 0, Move 1, Move 1, Move 0, Move 0, Move 1, Move 0, Move 1,
     Move 1, Move 0]"

definition two_files :: fs where
  "two_files = \<lparr>files = [''/a'' \<mapsto> [1, 2, 3]], dirs = {}\<rparr>"

definition file_answer :: "string \<Rightarrow> byte list" where
  "file_answer req = (case c_string req of Inl e \<Rightarrow> [] | Inr path \<Rightarrow> served two_files path)"

theorem get_returns_own_file_witness:
  "\<exists>cl. client_run file_answer two_calls core_mog_new = Inr cl \<and> length (cl_calls cl) = 2
     \<and> pc_at cl 0 = Returned [1, 2, 3]"
proof -
  let ?ca = "\<lparr>call_file = ''/a'', call_pc = Returned (file_answer (get_request ''/a''))\<rparr>"
  let ?cb = "\<lparr>call_file = ''/b'', call_pc = Returned (file_answer (get_request ''/b''))\<rparr>"
  have run: "client_run file_answer two_calls core_mog_new = Inr (core_mog_new\<lparr>cl_calls := [?ca, ?cb]\<rparr>)"
    by (simp add: two_calls_def core_mog_new_def SOCKETNUM_def get_begin_def get_step_def set_pc_def numeral_eq_Suc)
  let ?cl = "core_mog_new\<lparr>cl_calls := [?ca, ?cb]\<rparr>"
  have names: "\<forall>name. Call name \<in> set two_calls \<longrightarrow> char_of (0 :: nat) \<notin> set name"
    by (auto simp: two_calls_def) (code_simp+)
  have answers: "\<forall>req path. c_string req = Inr path \<longrightarrow> file_answer req = served two_files path"
    by (simp add: file_answer_def)
  have "\<forall>t < length (cl_calls ?cl). \<forall>data. pc_at ?cl t = Returned data \<longrightarrow> data = served two_files (call_file (cl_calls ?cl ! t))"
    using get_returns_own_file [OF answers names] run by simp
  then have "file_answer (get_request ''/a'') = served two_files ''/a''" by force
  then show ?thesis using run by (simp add: served_def two_files_def)
qed

text \<open>A call of \<open>get\<close> that runs while some socket is free returns the answer to its
  request: from the \<open>i\<close>-th probe it tests the occupied sockets up to the free one, sends,
  receives and clears the flag.\<close>

theorem get_returns:
  assumes "client_ok answer cl" "t < length (cl_calls cl)" "pc_at cl t = Probing i"
    and "\<forall>e < d. cl_flags cl ! ((i + e) mod SOCKETNUM)" "\<not> cl_flags cl ! ((i + d) mod SOCKETNUM)"
  shows "\<exists>cl'. client_run answer (replicate (d + 4) (Move t)) cl = Inr cl'
    \<and> pc_at cl' t = Returned (answer (get_request (call_file (cl_calls cl ! t))))
    \<and> cl_flags cl' = cl_flags cl \<and> cl_inflight cl' = cl_inflight cl"
  using assms
proof (induction d arbitrary: cl i)
  case 0
  note D = client_okD [OF 0(1)]
  have i: "i < SOCKETNUM" using D(3) [OF 0(2)] 0(3) by (simp add: call_ok_def)
  then have free: "\<not> cl_flags cl ! i" using 0(5) by simp
  have quiet: "cl_inflight cl ! i = None" by (rule D(6) [OF i free])
  have "(cl_flags cl)[i := False] = cl_flags cl" "(cl_inflight cl)[i := None] = cl_inflight cl"
    using free quiet by (metis list_update_id)+
  then show ?case
    using 0(2,3) i free quiet D(1,2) by (simp add: numeral_eq_Suc get_step_def set_pc_def)
next
  case (Suc d)
  note D = client_okD [OF Suc.prems(1)]
  have i: "i < SOCKETNUM" using D(3) [OF Suc.prems(2)] Suc.prems(3) by (simp add: call_ok_def)
  have "cl_flags cl ! ((i + 0) mod SOCKETNUM)" using Suc.prems(4) by blast
  then have busy: "cl_flags cl ! i" using i by simp
  let ?i = "if Suc i < SOCKETNUM then Suc i else 0"
  let ?cl = "set_pc t (Probing ?i) cl"
  have i': "?i = Suc i mod SOCKETNUM" using i unfolding SOCKETNUM_def by (cases "i = 4") auto
  have step: "get_step answer t cl = Inr ?cl" using Suc.prems(3) busy by (simp add: get_step_def)
  have ok: "client_ok answer ?cl"
    using client_ok_probe [OF Suc.prems(1,2)] Suc.prems(3) by (simp add: SOCKETNUM_def)
  have same: "cl_flags ?cl = cl_flags cl" "cl_inflight ?cl = cl_inflight cl" "t < length (cl_calls ?cl)"
    "pc_at ?cl t = Probing ?i" "call_file (cl_calls ?cl ! t) = call_file (cl_calls cl ! t)"
    using Suc.prems(2) by (simp_all add: set_pc_def)
  have shift: "(?i + e) mod SOCKETNUM = (i + Suc e) mod SOCKETNUM" for e
    unfolding i' by (simp add: mod_simps)
  have "\<forall>e < d. cl_flags ?cl ! ((?i + e) mod SOCKETNUM)"
    unfolding shift same(1) using Suc.prems(4) by (metis Suc_less_eq)
  moreover have "\<not> cl_flags ?cl ! ((?i + d) mod SOCKETNUM)"
    unfolding shift same(1) using Suc.prems(5) .
  ultimately have "\<exists>cl'. client_run answer (replicate (d + 4) (Move t)) ?cl = Inr cl'
    \<and> pc_at cl' t = Returned (answer (get_request (call_file (cl_calls ?cl ! t))))
    \<and> cl_flags cl' = cl_flags ?cl \<and> cl_inflight cl' = cl_inflight ?cl"
    by (rule Suc.IH [OF ok same(3,4)])
  moreover have "client_run answer (replicate (Suc d + 4) (Move t)) cl = client_run answer (replicate (d + 4) (Move t)) ?cl"
    using step Suc.prems(2) by (simp only: add_Suc replicate_Suc client_run.simps if_True and_then_simps)
  ultimately show ?case unfolding same(1,2,5) by (simp only:)
qed

theorem get_returns_witness:
  "\<exists>cl. client_run file_answer (replicate 4 (Move 0)) (get_begin ''/a'' core_mog_new) = Inr cl
     \<and> pc_at cl 0 = Returned [1, 2, 3]"
proof -
  have "c_string (get_request ''/a'') = Inr ''/a''" by code_simp
  then have "file_answer (get_request ''/a'') = [1, 2, 3]"
    by (simp add: file_answer_def served_def two_files_def)
  then show ?thesis
    using get_returns [OF get_begin_ok [OF client_new_ok(1)], of 0 "''/a''" 0 0 file_answer]
    by (auto simp: get_begin_def core_mog_new_def SOCKETNUM_def)
qed

end
