(* ===== verification/Gpu_Cache.thy ===== *)
theory Gpu_Cache
  imports Slab_Memory "HOL-Library.Multiset"
begin

section \<open>GpuCache: values in 1 KB slabs of device memory\<close>

text \<open>
  \<open>mog_gpu/GpuCache.{h,cpp}\<close> and the memory functions of \<open>mog_GPU.cu\<close>. The cache owns
  groups of 1024 slabs, each group one \<open>cudaMalloc\<close> of 1 MB; \<open>gpu_slabs\<close> holds the pointers,
  a pointer being a group and an offset. Device memory is the list of groups (\<open>None\<close>: freed);
  the CUDA runtime is the parameter \<open>cuda_malloc\<close>: the bytes a successful allocation
  happens to hold, \<open>None\<close> when it fails. Unlike the host cache this one evicts: the queue
  of keys is worked off until enough slabs are free.
\<close>

subsection \<open>Device memory\<close>

type_synonym device_memory = "byte list option list"
type_synonym cuda_malloc = "int \<Rightarrow> int \<Rightarrow> nat \<Rightarrow> byte list option"

text \<open>\<open>HANDLE_ERROR\<close> exits the process when the call it wraps fails.\<close>

definition handle_error :: "'a option \<Rightarrow> 'a outcome" where
  "handle_error r = (case r of None \<Rightarrow> Inl (Fatal ''exit(EXIT_FAILURE)'') | Some x \<Rightarrow> Inr x)"

definition mog_malloc_gpu :: "cuda_malloc \<Rightarrow> int \<Rightarrow> int \<Rightarrow> nat \<Rightarrow> device_memory \<Rightarrow> device_memory outcome" where
  "mog_malloc_gpu alloc device_id bytes slab_id grouped =
     check (slab_id < length grouped) (Undefined ''write past the end of an array'')
       (and_then (handle_error (alloc device_id bytes slab_id)) (\<lambda>new_slab.
          Inr (grouped[slab_id := Some new_slab])))"

definition mog_free_gpu :: "nat \<Rightarrow> device_memory \<Rightarrow> device_memory outcome" where
  "mog_free_gpu slab_id grouped =
     check (slab_id < length grouped) (Undefined ''read past the end of an array'')
       (Inr (grouped[slab_id := None]))"

definition device_read :: "nat \<times> nat \<Rightarrow> nat \<Rightarrow> device_memory \<Rightarrow> byte list outcome" where
  "device_read p n grouped =
     (if fst p < length grouped
      then (case grouped ! fst p of
              None \<Rightarrow> Inl (Fatal ''exit(EXIT_FAILURE)'')
            | Some m \<Rightarrow> if snd p + n \<le> length m then Inr (take n (drop (snd p) m))
                        else Inl (Fatal ''exit(EXIT_FAILURE)''))
      else Inl (Undefined ''bad device pointer''))"

definition mog_memcpy_cpu_to_gpu :: "nat \<times> nat \<Rightarrow> byte list \<Rightarrow> device_memory \<Rightarrow> device_memory outcome" where
  "mog_memcpy_cpu_to_gpu p src grouped =
     (if fst p < length grouped
      then (case grouped ! fst p of
              None \<Rightarrow> Inl (Fatal ''exit(EXIT_FAILURE)'')
            | Some m \<Rightarrow>
                if snd p + length src \<le> length m
                then Inr (grouped[fst p := Some (take (snd p) m @ src @ drop (snd p + length src) m)])
                else Inl (Fatal ''exit(EXIT_FAILURE)''))
      else Inl (Undefined ''bad device pointer''))"

text \<open>The caller's buffer of \<open>read\<close> is device memory of its own.\<close>

definition mog_memcpy_gpu_to_gpu :: "nat \<Rightarrow> byte list \<Rightarrow> nat \<times> nat \<Rightarrow> nat \<Rightarrow> device_memory \<Rightarrow> byte list outcome" where
  "mog_memcpy_gpu_to_gpu off dst p n grouped =
     and_then (device_read p n grouped) (\<lambda>bytes. buf_write off bytes dst)"


subsection \<open>State and set-up\<close>

record gpu_item =
  gitem_length :: int
  gitem_length_type :: int
  gitem_slabs :: "nat list"

record gpu_cache =
  gpu_device_id :: int
  gpu_page_size :: int
  gpu_slab_num :: int
  gpu_page_num :: int
  gpu_free_slab_num :: int
  gpu_free_slabs :: "nat list"
  gpu_cached_item :: "(string \<times> gpu_item) list"
  gpu_cached_item_queue :: "string list"
  gpu_slabs :: "(nat \<times> nat) list"
  gpu_grouped :: device_memory
  gpu_initial_flag :: int

definition GpuCache_new :: "int \<Rightarrow> gpu_cache" where
  "GpuCache_new device_id =
     \<lparr>gpu_device_id = device_id, gpu_page_size = 0, gpu_slab_num = 0, gpu_page_num = 0, gpu_free_slab_num = 0,
      gpu_free_slabs = [], gpu_cached_item = [], gpu_cached_item_queue = [], gpu_slabs = [], gpu_grouped = [],
      gpu_initial_flag = -1\<rparr>"

definition GpuCache_initial :: "int \<Rightarrow> int \<Rightarrow> gpu_cache \<Rightarrow> (int \<times> gpu_cache) outcome" where
  "GpuCache_initial page_size page_num c =
     (let n = (page_num * page_size) div 1024
      in check (0 \<le> n) (Fatal ''uncaught bad_array_new_length'')
           (Inr (0, c\<lparr>gpu_page_size := page_size, gpu_page_num := page_num, gpu_slab_num := n,
                     gpu_slabs := replicate (nat n) (0, 0), gpu_grouped := replicate (nat n div 1024) None,
                     gpu_free_slab_num := 0, gpu_initial_flag := 0\<rparr>)))"

fun GpuCache_allocate_groups :: "cuda_malloc \<Rightarrow> int \<Rightarrow> nat list \<Rightarrow> device_memory \<Rightarrow> device_memory outcome" where
  "GpuCache_allocate_groups alloc device_id [] grouped = Inr grouped"
| "GpuCache_allocate_groups alloc device_id (g # gs) grouped =
     and_then (mog_malloc_gpu alloc device_id (1024 * 1024) g grouped)
       (GpuCache_allocate_groups alloc device_id gs)"

definition GpuCache_allocate_memory :: "cuda_malloc \<Rightarrow> gpu_cache \<Rightarrow> (int \<times> gpu_cache) outcome" where
  "GpuCache_allocate_memory alloc c =
     check (gpu_initial_flag c = 0) (Fatal ''Check failed: initial_flag == 0'')
     (let n = nat (gpu_slab_num c)
      in and_then (GpuCache_allocate_groups alloc (gpu_device_id c) [0..<n div 1024] (gpu_grouped c)) (\<lambda>grouped.
         check (n mod 1024 = 0) (Undefined ''read past the end of an array'')
           (Inr (0, c\<lparr>gpu_free_slab_num := gpu_slab_num c, gpu_grouped := grouped,
                     gpu_slabs := map (\<lambda>s. (s div 1024, s mod 1024 * 1024)) [0..<n],
                     gpu_free_slabs := gpu_free_slabs c @ [0..<n]\<rparr>))))"

fun GpuCache_free_groups :: "nat list \<Rightarrow> device_memory \<Rightarrow> device_memory outcome" where
  "GpuCache_free_groups [] grouped = Inr grouped"
| "GpuCache_free_groups (g # gs) grouped = and_then (mog_free_gpu g grouped) (GpuCache_free_groups gs)"

definition GpuCache_close :: "gpu_cache \<Rightarrow> (int \<times> gpu_cache) outcome" where
  "GpuCache_close c =
     and_then (GpuCache_free_groups [0..<nat (gpu_slab_num c) div 1024] (gpu_grouped c)) (\<lambda>grouped.
       Inr (0, c\<lparr>gpu_cached_item := [], gpu_grouped := grouped\<rparr>))"


subsection \<open>insert and read\<close>

text \<open>\<open>cached_item[key]\<close>: a missing entry is created with all members zero.\<close>

definition gpu_item_of :: "string \<Rightarrow> gpu_cache \<Rightarrow> gpu_item" where
  "gpu_item_of key c =
     (case map_of (gpu_cached_item c) key of
        None \<Rightarrow> \<lparr>gitem_length = 0, gitem_length_type = 0, gitem_slabs = []\<rparr>
      | Some item \<Rightarrow> item)"

definition GpuCache_release :: "string \<Rightarrow> gpu_cache \<Rightarrow> gpu_cache" where
  "GpuCache_release key c =
     c\<lparr>gpu_free_slab_num := gpu_free_slab_num c + int (slab_count (gitem_length_type (gpu_item_of key c))),
       gpu_free_slabs := gpu_free_slabs c @ gitem_slabs (gpu_item_of key c)\<rparr>"

fun GpuCache_evict ::
  "string \<Rightarrow> nat \<Rightarrow> string list \<Rightarrow> bool \<Rightarrow> gpu_cache \<Rightarrow> (bool \<times> gpu_cache) outcome" where
  "GpuCache_evict key need [] push_flag c = Inl (Undefined ''front of an empty queue'')"
| "GpuCache_evict key need (deleted_item # queue) push_flag c =
     (if deleted_item = key then GpuCache_evict key need queue True c
      else let c1 = GpuCache_release deleted_item c;
               c2 = c1\<lparr>gpu_cached_item := AList.delete deleted_item (gpu_cached_item c1)\<rparr>
           in if gpu_free_slab_num c2 \<ge> int need
              then Inr (push_flag, c2\<lparr>gpu_cached_item_queue := queue\<rparr>)
              else GpuCache_evict key need queue push_flag c2)"

fun GpuCache_insert_loop ::
  "string \<Rightarrow> byte list \<Rightarrow> nat \<Rightarrow> nat \<Rightarrow> gpu_cache \<Rightarrow> gpu_cache outcome" where
  "GpuCache_insert_loop key value i 0 c = Inr c"
| "GpuCache_insert_loop key value i (Suc n) c =
     (case gpu_free_slabs c of
        [] \<Rightarrow> Inl (Undefined ''front of an empty queue'')
      | new_slab_id # rest \<Rightarrow>
          check (new_slab_id < length (gpu_slabs c)) (Undefined ''read past the end of an array'')
          (and_then (buf_read (i * 1024) 1024 value) (\<lambda>piece.
           and_then (mog_memcpy_cpu_to_gpu (gpu_slabs c ! new_slab_id) piece (gpu_grouped c)) (\<lambda>grouped.
             GpuCache_insert_loop key value (Suc i) n
               (c\<lparr>gpu_cached_item :=
                    AList.update key
                      ((gpu_item_of key c)\<lparr>gitem_slabs := gitem_slabs (gpu_item_of key c) @ [new_slab_id]\<rparr>)
                      (gpu_cached_item c),
                  gpu_grouped := grouped, gpu_free_slabs := rest,
                  gpu_free_slab_num := gpu_free_slab_num c - 1\<rparr>)))))"

text \<open>\<open>value\<close> is the memory that can be read at the pointer, \<open>len\<close> the length passed with it.\<close>

definition GpuCache_insert :: "string \<Rightarrow> int \<Rightarrow> byte list \<Rightarrow> gpu_cache \<Rightarrow> (int \<times> gpu_cache) outcome" where
  "GpuCache_insert key len value c =
     (let length_type = length_slab_type len; need = slab_count length_type
      in if length_type > 10 then Inr (-1, c)
         else let cached = map_of (gpu_cached_item c) key \<noteq> None;
                  c1 = (if cached then GpuCache_release key c else c)
              in and_then
                   (if gpu_free_slab_num c1 < int need
                    then GpuCache_evict key need (gpu_cached_item_queue c1) (\<not> cached) c1
                    else Inr (\<not> cached, c1))
                   (\<lambda>(push_flag, c2).
                     and_then
                       (GpuCache_insert_loop key value 0 need
                          (c2\<lparr>gpu_cached_item :=
                               AList.update key
                                 ((gpu_item_of key c2)\<lparr>gitem_length := len, gitem_length_type := length_type\<rparr>)
                                 (gpu_cached_item c2)\<rparr>))
                       (\<lambda>c3. Inr (0, if push_flag
                                     then c3\<lparr>gpu_cached_item_queue := gpu_cached_item_queue c3 @ [key]\<rparr> else c3))))"

fun GpuCache_copy_slabs :: "gpu_cache \<Rightarrow> nat list \<Rightarrow> nat \<Rightarrow> byte list \<Rightarrow> byte list outcome" where
  "GpuCache_copy_slabs c [] off value = Inr value"
| "GpuCache_copy_slabs c (s # ss) off value =
     check (s < length (gpu_slabs c)) (Undefined ''read past the end of an array'')
     (and_then (mog_memcpy_gpu_to_gpu off value (gpu_slabs c ! s) 1024 (gpu_grouped c))
        (GpuCache_copy_slabs c ss (off + 1024)))"

definition GpuCache_read :: "string \<Rightarrow> byte list \<Rightarrow> gpu_cache \<Rightarrow> (int \<times> byte list) outcome" where
  "GpuCache_read key value c =
     (case map_of (gpu_cached_item c) key of
        None \<Rightarrow> Inr (0, value)
      | Some item \<Rightarrow>
          and_then (GpuCache_copy_slabs c (gitem_slabs item) 0 value) (\<lambda>value'. Inr (gitem_length item, value')))"


subsection \<open>The groups as slab memory\<close>

definition group_read :: "device_memory \<Rightarrow> nat \<Rightarrow> byte list" where
  "group_read m s = take 1024 (drop (s mod 1024 * 1024) (the (m ! (s div 1024))))"

definition group_write :: "nat \<Rightarrow> byte list \<Rightarrow> device_memory \<Rightarrow> device_memory" where
  "group_write s piece m =
     m[s div 1024 := Some (take (s mod 1024 * 1024) (the (m ! (s div 1024))) @ piece
                           @ drop (s mod 1024 * 1024 + length piece) (the (m ! (s div 1024))))]"

definition group_ok :: "device_memory \<Rightarrow> nat \<Rightarrow> bool" where
  "group_ok m s \<longleftrightarrow> s div 1024 < length m \<and> (\<exists>b. m ! (s div 1024) = Some b \<and> length b = 1024 * 1024)"

lemma slab_fits: "s mod 1024 * 1024 + 1024 \<le> (1048576 :: nat)"
proof -
  have "s mod 1024 \<le> 1023" by (simp add: less_Suc_eq_le [symmetric])
  then show ?thesis by simp
qed

lemma splice_other:
  assumes "a + k \<le> b \<or> b + length p \<le> a" "b + length p \<le> length m"
  shows "take k (drop a (take b m @ p @ drop (b + length p) m)) = take k (drop a m)"
  using assms by (elim disjE) (auto simp: drop_take min_def)

interpretation gpu_mem: slab_memory group_read group_write group_ok
proof
  fix m s assume "group_ok m s"
  then show "length (group_read m s) = 1024"
    using slab_fits [of s] by (auto simp: group_ok_def group_read_def)
next
  fix m s and b :: "byte list" assume "group_ok m s" "length b = 1024"
  then show "group_read (group_write s b m) s = b"
    using slab_fits [of s] by (auto simp: group_ok_def group_read_def group_write_def)
next
  fix m s s' and b :: "byte list"
  assume ok: "group_ok m s" "length b = 1024" "group_ok m s'" and ne: "s' \<noteq> s"
  show "group_read (group_write s b m) s' = group_read m s'"
  proof (cases "s' div 1024 = s div 1024")
    case True
    then have "s' mod 1024 \<noteq> s mod 1024" using ne by (metis div_mult_mod_eq)
    then have "s' mod 1024 * 1024 + 1024 \<le> s mod 1024 * 1024 \<or> s mod 1024 * 1024 + 1024 \<le> s' mod 1024 * 1024"
      by linarith
    then have "take 1024 (drop (s' mod 1024 * 1024) (take (s mod 1024 * 1024) g @ b @ drop (s mod 1024 * 1024 + length b) g))
        = take 1024 (drop (s' mod 1024 * 1024) g)" if "length g = 1024 * 1024" for g
      using ok(2) slab_fits [of s] that by (intro splice_other) simp_all
    then show ?thesis using ok True by (auto simp: group_ok_def group_read_def group_write_def)
  next
    case False
    then show ?thesis using ok by (simp add: group_read_def group_write_def)
  qed
next
  fix m s s' and b :: "byte list" assume "group_ok m s" "length b = 1024"
  then show "group_ok (group_write s b m) s' = group_ok m s'"
    using slab_fits [of s] by (auto simp: group_ok_def group_write_def nth_list_update)
qed

end
