(* ===== verification/Gpu_Cache_Inv.thy ===== *)
theory Gpu_Cache_Inv
  imports Gpu_Cache
begin

section \<open>The device cache never loses a slab nor hands it out twice\<close>

text \<open>
  \<open>gpu_wf\<close>: the free slabs and the slabs of the items are, as a multiset, all slabs once. It
  holds after \<open>allocate_memory\<close>, and \<open>insert\<close> of a new key keeps it, evicting as many of the
  oldest items as needed; what is read afterwards is what was inserted.
\<close>

definition gpu_held :: "(string \<times> gpu_item) list \<Rightarrow> nat multiset" where
  "gpu_held items = (\<Sum>p\<in>#mset items. mset (gitem_slabs (snd p)))"

definition gpu_item_ok :: "gpu_item \<Rightarrow> bool" where
  "gpu_item_ok item \<longleftrightarrow>
     length (gitem_slabs item) = slab_count (gitem_length_type item)
     \<and> 0 \<le> gitem_length item \<and> gitem_length item \<le> 1024 * int (length (gitem_slabs item))"

definition gpu_memory_ok :: "gpu_cache \<Rightarrow> bool" where
  "gpu_memory_ok c \<longleftrightarrow>
     (\<forall>s < length (gpu_slabs c). gpu_slabs c ! s = (s div 1024, s mod 1024 * 1024) \<and> group_ok (gpu_grouped c) s)"

definition gpu_core :: "gpu_cache \<Rightarrow> bool" where
  "gpu_core c \<longleftrightarrow>
     umap_wf (gpu_cached_item c)
     \<and> mset (gpu_free_slabs c) + gpu_held (gpu_cached_item c) = mset [0..<length (gpu_slabs c)]
     \<and> gpu_free_slab_num c = int (length (gpu_free_slabs c))
     \<and> (\<forall>k item. map_of (gpu_cached_item c) k = Some item \<longrightarrow> gpu_item_ok item)
     \<and> gpu_memory_ok c"

definition gpu_wf :: "gpu_cache \<Rightarrow> bool" where
  "gpu_wf c \<longleftrightarrow>
     gpu_core c \<and> distinct (gpu_cached_item_queue c)
     \<and> set (gpu_cached_item_queue c) = dom (map_of (gpu_cached_item c))"

lemma gpu_coreD:
  assumes "gpu_core c"
  shows "umap_wf (gpu_cached_item c)"
    "mset (gpu_free_slabs c) + gpu_held (gpu_cached_item c) = mset [0..<length (gpu_slabs c)]"
    "gpu_free_slab_num c = int (length (gpu_free_slabs c))"
    "map_of (gpu_cached_item c) k = Some item \<Longrightarrow> gpu_item_ok item" "gpu_memory_ok c"
  using assms by (simp_all add: gpu_core_def)

lemma gpu_held_simps [simp]:
  "gpu_held [] = {#}"
  "gpu_held ((k, v) # items) = mset (gitem_slabs v) + gpu_held items"
  by (simp_all add: gpu_held_def)

lemma gpu_held_update:
  "map_of items k = None \<Longrightarrow> gpu_held (AList.update k v items) = gpu_held items + mset (gitem_slabs v)"
  by (induction items) (auto split: if_splits)

lemma gpu_held_delete:
  "umap_wf items \<Longrightarrow> map_of items k = Some v \<Longrightarrow>
     gpu_held items = gpu_held (AList.delete k items) + mset (gitem_slabs v)"
proof (induction items)
  case (Cons p items)
  obtain a b where p: "p = (a, b)" by fastforce
  show ?case
  proof (cases "a = k")
    case True
    then have "AList.delete k items = items" using Cons.prems(1) p by (simp add: delete_idem)
    then show ?thesis using Cons.prems(2) True p by simp
  next
    case False
    then show ?thesis using Cons p by simp
  qed
qed simp

text \<open>The slabs of an item are different from each other, from the free ones and from those of other items.\<close>

lemma gpu_slabs_apart:
  assumes core: "gpu_core c" and k: "map_of (gpu_cached_item c) k = Some item"
  shows "distinct (gitem_slabs item)" "set (gitem_slabs item) \<subseteq> {..<length (gpu_slabs c)}"
    "set (gitem_slabs item) \<inter> set (gpu_free_slabs c) = {}"
    "map_of (gpu_cached_item c) k' = Some item' \<Longrightarrow> k' \<noteq> k \<Longrightarrow> set (gitem_slabs item) \<inter> set (gitem_slabs item') = {}"
proof -
  note D = gpu_coreD [OF core]
  let ?rest = "AList.delete k (gpu_cached_item c)"
  have held: "gpu_held (gpu_cached_item c) = gpu_held ?rest + mset (gitem_slabs item)"
    by (rule gpu_held_delete [OF D(1) k])
  let ?all = "mset (gpu_free_slabs c) + gpu_held ?rest + mset (gitem_slabs item)"
  have all: "?all = mset [0..<length (gpu_slabs c)]" using D(2) held by (simp add: add.assoc)
  have once: "count ?all x \<le> 1" for x
    unfolding all using distinct_count_atmost_1 [of "[0..<length (gpu_slabs c)]"] by (simp split: if_splits)
  have "count (mset (gitem_slabs item)) x \<le> 1" for x using once [of x] by simp
  then show "distinct (gitem_slabs item)"
    by (metis count_mset_0_iff distinct_count_atmost_1 le_antisym less_one not_le)
  have "set_mset ?all = {..<length (gpu_slabs c)}" unfolding all by auto
  then show "set (gitem_slabs item) \<subseteq> {..<length (gpu_slabs c)}" by auto
  have apart: "x \<notin># mset (gpu_free_slabs c) + gpu_held ?rest" if "x \<in> set (gitem_slabs item)" for x
  proof
    assume "x \<in># mset (gpu_free_slabs c) + gpu_held ?rest"
    then have "count (mset (gpu_free_slabs c) + gpu_held ?rest) x \<ge> 1" by (simp only: count_greater_eq_one_iff)
    moreover have "count (mset (gitem_slabs item)) x \<ge> 1" using that by (simp only: count_greater_eq_one_iff set_mset_mset)
    ultimately show False using once [of x] unfolding count_union by linarith
  qed
  then show "set (gitem_slabs item) \<inter> set (gpu_free_slabs c) = {}" by auto
  show "set (gitem_slabs item) \<inter> set (gitem_slabs item') = {}"
    if k': "map_of (gpu_cached_item c) k' = Some item'" "k' \<noteq> k"
  proof -
    have "map_of ?rest k' = Some item'" using k' by simp
    moreover have "umap_wf ?rest" using D(1) by simp
    ultimately have "gpu_held ?rest = gpu_held (AList.delete k' ?rest) + mset (gitem_slabs item')"
      by (intro gpu_held_delete)
    then have "x \<in># gpu_held ?rest" if "x \<in> set (gitem_slabs item')" for x using that by simp
    then show ?thesis using apart by auto
  qed
qed

subsection \<open>Steps of insert\<close>

lemma gpu_item_of_Some [simp]: "map_of (gpu_cached_item c) k = Some item \<Longrightarrow> gpu_item_of k c = item"
  by (simp add: gpu_item_of_def)

text \<open>Releasing an item and deleting it from the map, as the eviction loop does.\<close>

definition gpu_evicted :: "string \<Rightarrow> gpu_cache \<Rightarrow> gpu_cache" where
  "gpu_evicted k c =
     (GpuCache_release k c)\<lparr>gpu_cached_item := AList.delete k (gpu_cached_item (GpuCache_release k c))\<rparr>"

lemma gpu_evicted_core:
  assumes core: "gpu_core c" and k: "map_of (gpu_cached_item c) k = Some item"
  shows "gpu_core (gpu_evicted k c)"
    "map_of (gpu_cached_item (gpu_evicted k c)) = (map_of (gpu_cached_item c))(k := None)"
    "gpu_slabs (gpu_evicted k c) = gpu_slabs c" "gpu_grouped (gpu_evicted k c) = gpu_grouped c"
proof -
  note D = gpu_coreD [OF core]
  have "length (gitem_slabs item) = slab_count (gitem_length_type item)"
    using D(4) [OF k] by (simp add: gpu_item_ok_def)
  then show "gpu_core (gpu_evicted k c)"
    using D(1,3,4,5) D(2) gpu_held_delete [OF D(1) k] k
    by (auto simp: gpu_core_def gpu_evicted_def GpuCache_release_def gpu_memory_ok_def ac_simps split: if_splits)
qed (simp_all add: gpu_evicted_def GpuCache_release_def)

lemma gpu_core_queue [simp]: "gpu_core (c\<lparr>gpu_cached_item_queue := q\<rparr>) = gpu_core c"
  by (simp add: gpu_core_def gpu_memory_ok_def)

lemma gpu_wf_queue:
  "gpu_wf (c\<lparr>gpu_cached_item_queue := q\<rparr>) \<longleftrightarrow> gpu_core c \<and> distinct q \<and> set q = dom (map_of (gpu_cached_item c))"
  by (simp add: gpu_wf_def)

lemma gpu_empty_free:
  assumes "gpu_core c" "dom (map_of (gpu_cached_item c)) = {}"
  shows "length (gpu_free_slabs c) = length (gpu_slabs c)"
proof -
  have "gpu_cached_item c = []" using assms(2) by (cases "gpu_cached_item c") auto
  then have "mset (gpu_free_slabs c) = mset [0..<length (gpu_slabs c)]" using gpu_coreD(2) [OF assms(1)] by simp
  then have "length (gpu_free_slabs c) = length [0..<length (gpu_slabs c)]" by (rule mset_eq_length)
  then show ?thesis by simp
qed

text \<open>The eviction loop ends with enough free slabs before the queue is empty.\<close>

lemma gpu_evict_spec:
  "gpu_core c \<Longrightarrow> distinct q \<Longrightarrow> set q = dom (map_of (gpu_cached_item c)) \<Longrightarrow> key \<notin> set q \<Longrightarrow>
   gpu_free_slab_num c < int need \<Longrightarrow> need \<le> length (gpu_slabs c) \<Longrightarrow>
   \<exists>c'. GpuCache_evict key need q push c = Inr (push, c') \<and> gpu_wf c'
     \<and> need \<le> length (gpu_free_slabs c') \<and> map_of (gpu_cached_item c') \<subseteq>\<^sub>m map_of (gpu_cached_item c)
     \<and> gpu_slabs c' = gpu_slabs c \<and> gpu_grouped c' = gpu_grouped c"
proof (induction q arbitrary: c)
  case Nil
  have "dom (map_of (gpu_cached_item c)) = {}" using Nil.prems(3) by simp
  from gpu_empty_free [OF Nil.prems(1) this] show ?case
    using Nil.prems(5,6) gpu_coreD(3) [OF Nil.prems(1)] by simp
next
  case (Cons d q)
  have "d \<in> dom (map_of (gpu_cached_item c))" unfolding Cons.prems(3) [symmetric] by simp
  then obtain item where item: "map_of (gpu_cached_item c) d = Some item" by blast
  let ?c = "gpu_evicted d c"
  note E = gpu_evicted_core [OF Cons.prems(1) item]
  have dq: "d \<noteq> key" "distinct q" "set q = dom (map_of (gpu_cached_item ?c))" "key \<notin> set q"
    using Cons.prems(2-4) E(2) by auto
  have sub: "map_of (gpu_cached_item ?c) \<subseteq>\<^sub>m map_of (gpu_cached_item c)"
    unfolding E(2) by (auto simp: map_le_def)
  show ?case
  proof (cases "gpu_free_slab_num ?c \<ge> int need")
    case True
    have "GpuCache_evict key need (d # q) push c = Inr (push, ?c\<lparr>gpu_cached_item_queue := q\<rparr>)"
      using True dq(1) by (simp add: gpu_evicted_def Let_def)
    moreover have "gpu_wf (?c\<lparr>gpu_cached_item_queue := q\<rparr>)" using E(1) dq(2,3) by (simp add: gpu_wf_queue)
    ultimately show ?thesis using True sub E(3,4) gpu_coreD(3) [OF E(1)] by simp
  next
    case False
    have "GpuCache_evict key need (d # q) push c = GpuCache_evict key need q push ?c"
      using False dq(1) by (simp add: gpu_evicted_def Let_def)
    moreover obtain c' where "GpuCache_evict key need q push ?c = Inr (push, c')" "gpu_wf c'"
      "need \<le> length (gpu_free_slabs c')" "map_of (gpu_cached_item c') \<subseteq>\<^sub>m map_of (gpu_cached_item ?c)"
      "gpu_slabs c' = gpu_slabs ?c" "gpu_grouped c' = gpu_grouped ?c"
      using Cons.IH [OF E(1) dq(2-4)] False Cons.prems(6) unfolding E(3) by (meson not_le)
    ultimately show ?thesis using E(3,4) map_le_trans [OF _ sub] by metis
  qed
qed

text \<open>What the copy loop does with enough free slabs.\<close>

lemma gpu_memcpy_write:
  assumes "group_ok grouped s" "length piece = 1024"
  shows "mog_memcpy_cpu_to_gpu (s div 1024, s mod 1024 * 1024) piece grouped = Inr (group_write s piece grouped)"
  using assms slab_fits [of s] by (auto simp: mog_memcpy_cpu_to_gpu_def group_ok_def group_write_def)

lemma gpu_insert_loop_spec:
  "n \<le> length (gpu_free_slabs c) \<Longrightarrow> set (gpu_free_slabs c) \<subseteq> {..<length (gpu_slabs c)} \<Longrightarrow> gpu_memory_ok c \<Longrightarrow>
   (i + n) * 1024 \<le> length value \<Longrightarrow> map_of (gpu_cached_item c) key = Some item \<Longrightarrow>
   GpuCache_insert_loop key value i n c =
     Inr (c\<lparr>gpu_cached_item := AList.update key
              (item\<lparr>gitem_slabs := gitem_slabs item @ take n (gpu_free_slabs c)\<rparr>) (gpu_cached_item c),
            gpu_grouped := store_slabs group_write value i (take n (gpu_free_slabs c)) (gpu_grouped c),
            gpu_free_slabs := drop n (gpu_free_slabs c),
            gpu_free_slab_num := gpu_free_slab_num c - int n\<rparr>)"
proof (induction n arbitrary: i c item)
  case 0
  then show ?case by (simp add: update_triv)
next
  case (Suc n)
  then obtain s rest where free: "gpu_free_slabs c = s # rest" by (cases "gpu_free_slabs c") auto
  let ?piece = "take 1024 (drop (i * 1024) value)"
  let ?item = "item\<lparr>gitem_slabs := gitem_slabs item @ [s]\<rparr>"
  let ?m = "group_write s ?piece (gpu_grouped c)"
  let ?c = "c\<lparr>gpu_cached_item := AList.update key ?item (gpu_cached_item c), gpu_grouped := ?m,
      gpu_free_slabs := rest, gpu_free_slab_num := gpu_free_slab_num c - 1\<rparr>"
  have s: "s < length (gpu_slabs c)" using Suc.prems(2) free by simp
  then have ps: "gpu_slabs c ! s = (s div 1024, s mod 1024 * 1024)" "group_ok (gpu_grouped c) s"
    using Suc.prems(3) by (simp_all add: gpu_memory_ok_def)
  have l: "length ?piece = 1024" using Suc.prems(4) by simp
  have mem: "gpu_memory_ok ?c"
    using Suc.prems(3) gpu_mem.ok_wr [OF ps(2) l] by (simp add: gpu_memory_ok_def)
  have "GpuCache_insert_loop key value i (Suc n) c = GpuCache_insert_loop key value (Suc i) n ?c"
    using free s ps(1) gpu_memcpy_write [OF ps(2) l] Suc.prems(4,5) by (simp add: buf_read_def)
  also have "\<dots> = Inr (?c\<lparr>gpu_cached_item := AList.update key
              (?item\<lparr>gitem_slabs := gitem_slabs ?item @ take n (gpu_free_slabs ?c)\<rparr>) (gpu_cached_item ?c),
            gpu_grouped := store_slabs group_write value (Suc i) (take n (gpu_free_slabs ?c)) (gpu_grouped ?c),
            gpu_free_slabs := drop n (gpu_free_slabs ?c),
            gpu_free_slab_num := gpu_free_slab_num ?c - int n\<rparr>)"
    using Suc.prems free mem by (intro Suc.IH) simp_all
  finally show ?case using free by (simp add: update_last)
qed

subsection \<open>insert of a new key\<close>

definition gpu_value :: "gpu_cache \<Rightarrow> gpu_item \<Rightarrow> byte list" where
  "gpu_value c item = take (nat (gitem_length item)) (load_slabs group_read (gpu_grouped c) (gitem_slabs item))"

lemma gpu_free_facts:
  assumes "gpu_core c"
  shows "distinct (gpu_free_slabs c)" "set (gpu_free_slabs c) \<subseteq> {..<length (gpu_slabs c)}"
proof -
  note D = gpu_coreD [OF assms]
  have "set_mset (mset (gpu_free_slabs c) + gpu_held (gpu_cached_item c)) = {..<length (gpu_slabs c)}"
    unfolding D(2) by auto
  then show "set (gpu_free_slabs c) \<subseteq> {..<length (gpu_slabs c)}" by auto
  have "count (mset (gpu_free_slabs c) + gpu_held (gpu_cached_item c)) x \<le> 1" for x
    unfolding D(2) using distinct_count_atmost_1 [of "[0..<length (gpu_slabs c)]"] by (simp split: if_splits)
  then have "count (mset (gpu_free_slabs c)) x \<le> 1" for x
    unfolding count_union using add_leD1 by blast
  then show "distinct (gpu_free_slabs c)"
    by (metis count_mset_0_iff distinct_count_atmost_1 le_antisym less_one not_le)
qed

lemma group_ok_store:
  assumes "gpu_memory_ok c" "set ss \<subseteq> {..<length (gpu_slabs c)}" "length ss * 1024 \<le> length value"
  shows "group_ok (store_slabs group_write value 0 ss (gpu_grouped c)) s = group_ok (gpu_grouped c) s"
  using assms by (intro gpu_mem.ok_store) (auto simp: gpu_memory_ok_def)

definition gpu_stored :: "string \<Rightarrow> int \<Rightarrow> byte list \<Rightarrow> gpu_cache \<Rightarrow> gpu_cache" where
  "gpu_stored key len value c =
     (let t = length_slab_type len; ss = take (slab_count t) (gpu_free_slabs c)
      in c\<lparr>gpu_cached_item :=
             AList.update key \<lparr>gitem_length = len, gitem_length_type = t, gitem_slabs = ss\<rparr> (gpu_cached_item c),
           gpu_grouped := store_slabs group_write value 0 ss (gpu_grouped c),
           gpu_free_slabs := drop (slab_count t) (gpu_free_slabs c),
           gpu_free_slab_num := gpu_free_slab_num c - int (slab_count t),
           gpu_cached_item_queue := gpu_cached_item_queue c @ [key]\<rparr>)"

lemma gpu_stored_wf:
  assumes wf: "gpu_wf c" and new: "map_of (gpu_cached_item c) key = None" and len: "0 \<le> len"
    and room: "slab_count (length_slab_type len) \<le> length (gpu_free_slabs c)"
    and src: "slab_count (length_slab_type len) * 1024 \<le> length value"
  shows "gpu_wf (gpu_stored key len value c)"
    and "gpu_value (gpu_stored key len value c) (gpu_item_of key (gpu_stored key len value c)) = take (nat len) value"
    and "\<And>k item. map_of (gpu_cached_item c) k = Some item \<Longrightarrow>
           map_of (gpu_cached_item (gpu_stored key len value c)) k = Some item
           \<and> gpu_value (gpu_stored key len value c) item = gpu_value c item"
proof -
  let ?t = "length_slab_type len" and ?c = "gpu_stored key len value c"
  let ?n = "slab_count ?t" let ?ss = "take ?n (gpu_free_slabs c)"
  let ?m = "store_slabs group_write value 0 ?ss (gpu_grouped c)"
  have core: "gpu_core c" using wf by (simp add: gpu_wf_def)
  note D = gpu_coreD [OF core] and F = gpu_free_facts [OF core]
  have ls: "length ?ss = ?n" using room by simp
  have sub: "set ?ss \<subseteq> {..<length (gpu_slabs c)}" by (rule order_trans [OF set_take_subset F(2)])
  have okall: "\<forall>s \<in> set ?ss. group_ok (gpu_grouped c) s"
    using D(5) sub by (auto simp: gpu_memory_ok_def)
  have okm: "group_ok ?m s = group_ok (gpu_grouped c) s" for s
    by (rule group_ok_store [OF D(5) sub]) (use src ls in simp)
  have lenle: "len \<le> 1024 * int ?n" by (rule length_le_slab_count)
  have held: "mset (drop ?n (gpu_free_slabs c)) + (gpu_held (gpu_cached_item c) + mset ?ss) = mset [0..<length (gpu_slabs c)]"
  proof -
    have "mset (drop ?n (gpu_free_slabs c)) + mset ?ss = mset (gpu_free_slabs c)"
      by (metis append_take_drop_id mset_append union_commute)
    then show ?thesis using D(2) by (metis add.assoc union_commute)
  qed
  have new_ok: "gpu_item_ok \<lparr>gitem_length = len, gitem_length_type = ?t, gitem_slabs = ?ss\<rparr>"
    using ls len lenle by (simp add: gpu_item_ok_def)
  have items: "map_of (gpu_cached_item ?c) = (map_of (gpu_cached_item c))
      (key \<mapsto> \<lparr>gitem_length = len, gitem_length_type = ?t, gitem_slabs = ?ss\<rparr>)"
    by (simp add: gpu_stored_def Let_def)
  have "gpu_item_ok item" if "map_of (gpu_cached_item ?c) k = Some item" for k item
    using that new_ok D(4) [of k] unfolding items by (simp split: if_splits)
  then have "gpu_core ?c"
    using D(1,3,5) held okm gpu_held_update [OF new] room
    unfolding gpu_core_def by (simp add: gpu_stored_def Let_def gpu_memory_ok_def of_nat_diff)
  moreover have "key \<notin> set (gpu_cached_item_queue c)" using wf new by (auto simp: gpu_wf_def)
  ultimately show "gpu_wf ?c" using wf by (auto simp: gpu_wf_def gpu_stored_def Let_def)
  have load: "load_slabs group_read ?m ?ss = take (?n * 1024) value"
    using gpu_mem.load_store [of ?ss "gpu_grouped c" 0 "value"] okall F(1) ls src by simp
  have "nat len \<le> ?n * 1024" using lenle by linarith
  then show "gpu_value ?c (gpu_item_of key ?c) = take (nat len) value"
    using load by (simp add: gpu_value_def gpu_stored_def Let_def gpu_item_of_def min_absorb1)
  fix k item assume k: "map_of (gpu_cached_item c) k = Some item"
  note A = gpu_slabs_apart [OF core k]
  have "load_slabs group_read ?m (gitem_slabs item) = load_slabs group_read (gpu_grouped c) (gitem_slabs item)"
  proof (rule gpu_mem.load_store_other)
    show "\<forall>s \<in> set ?ss. group_ok (gpu_grouped c) s" by (rule okall)
    show "(0 + length ?ss) * 1024 \<le> length value" using ls src by simp
    show "\<forall>s \<in> set (gitem_slabs item). group_ok (gpu_grouped c) s \<and> s \<notin> set ?ss"
    proof
      fix s assume s: "s \<in> set (gitem_slabs item)"
      then have "s \<in> {..<length (gpu_slabs c)}" "s \<notin> set (gpu_free_slabs c)" using A(2,3) by blast+
      then show "group_ok (gpu_grouped c) s \<and> s \<notin> set ?ss"
        using D(5) in_set_takeD by (fastforce simp: gpu_memory_ok_def)
    qed
  qed
  moreover have "k \<noteq> key" using k new by auto
  ultimately show "map_of (gpu_cached_item ?c) k = Some item \<and> gpu_value ?c item = gpu_value c item"
    using k by (simp add: gpu_value_def gpu_stored_def Let_def)
qed

lemma gpu_insert_new:
  assumes wf: "gpu_wf c" and new: "map_of (gpu_cached_item c) key = None"
    and t: "length_slab_type len \<le> 10" and fits: "slab_count (length_slab_type len) \<le> length (gpu_slabs c)"
    and src: "slab_count (length_slab_type len) * 1024 \<le> length value"
  shows "\<exists>c1. GpuCache_insert key len value c = Inr (0, gpu_stored key len value c1) \<and> gpu_wf c1
     \<and> slab_count (length_slab_type len) \<le> length (gpu_free_slabs c1)
     \<and> map_of (gpu_cached_item c1) \<subseteq>\<^sub>m map_of (gpu_cached_item c) \<and> gpu_slabs c1 = gpu_slabs c \<and> gpu_grouped c1 = gpu_grouped c"
proof -
  let ?n = "slab_count (length_slab_type len)"
  have core: "gpu_core c" using wf by (simp add: gpu_wf_def)
  have q: "distinct (gpu_cached_item_queue c)" "set (gpu_cached_item_queue c) = dom (map_of (gpu_cached_item c))"
    "key \<notin> set (gpu_cached_item_queue c)" using wf new by (auto simp: gpu_wf_def)
  obtain c1 where c1: "(if gpu_free_slab_num c < int ?n then GpuCache_evict key ?n (gpu_cached_item_queue c) True c
        else Inr (True, c)) = Inr (True, c1)" "gpu_wf c1" "?n \<le> length (gpu_free_slabs c1)"
    "map_of (gpu_cached_item c1) \<subseteq>\<^sub>m map_of (gpu_cached_item c)" "gpu_slabs c1 = gpu_slabs c" "gpu_grouped c1 = gpu_grouped c"
  proof (cases "gpu_free_slab_num c < int ?n")
    case True
    obtain c1 where "GpuCache_evict key ?n (gpu_cached_item_queue c) True c = Inr (True, c1)" "gpu_wf c1"
      "?n \<le> length (gpu_free_slabs c1)" "map_of (gpu_cached_item c1) \<subseteq>\<^sub>m map_of (gpu_cached_item c)"
      "gpu_slabs c1 = gpu_slabs c" "gpu_grouped c1 = gpu_grouped c"
      using gpu_evict_spec [OF core q True fits] by blast
    then show ?thesis using True by (intro that [of c1]) simp_all
  next
    case False
    then show ?thesis using wf gpu_coreD(3) [OF core] by (intro that [of c]) simp_all
  qed
  have new1: "map_of (gpu_cached_item c1) key = None" using c1(4) new by (metis domIff map_le_def not_None_eq)
  have core1: "gpu_core c1" using c1(2) by (simp add: gpu_wf_def)
  let ?i0 = "\<lparr>gitem_length = len, gitem_length_type = length_slab_type len, gitem_slabs = []\<rparr>"
  let ?c2 = "c1\<lparr>gpu_cached_item := AList.update key ?i0 (gpu_cached_item c1)\<rparr>"
  have loop: "GpuCache_insert_loop key value 0 ?n ?c2 =
     Inr (?c2\<lparr>gpu_cached_item := AList.update key (?i0\<lparr>gitem_slabs := gitem_slabs ?i0 @ take ?n (gpu_free_slabs ?c2)\<rparr>)
              (gpu_cached_item ?c2),
            gpu_grouped := store_slabs group_write value 0 (take ?n (gpu_free_slabs ?c2)) (gpu_grouped ?c2),
            gpu_free_slabs := drop ?n (gpu_free_slabs ?c2),
            gpu_free_slab_num := gpu_free_slab_num ?c2 - int ?n\<rparr>)"
    using c1(3) gpu_free_facts(2) [OF core1] gpu_coreD(5) [OF core1] src
    by (intro gpu_insert_loop_spec) (simp_all add: gpu_memory_ok_def)
  have i0: "(gpu_item_of key c1)\<lparr>gitem_length := len, gitem_length_type := length_slab_type len\<rparr> = ?i0"
    using new1 by (simp add: gpu_item_of_def)
  have "GpuCache_insert key len value c = Inr (0, gpu_stored key len value c1)"
    using t new c1(1) loop i0
    by (simp add: GpuCache_insert_def Let_def not_le [symmetric] gpu_stored_def update_last split: if_splits)
  then show ?thesis using c1(2-6) by blast
qed

lemma gpu_copy_slabs_spec:
  "set ss \<subseteq> {..<length (gpu_slabs c)} \<Longrightarrow> gpu_memory_ok c \<Longrightarrow> off + length ss * 1024 \<le> length buf \<Longrightarrow>
   GpuCache_copy_slabs c ss off buf =
     Inr (take off buf @ load_slabs group_read (gpu_grouped c) ss @ drop (off + length ss * 1024) buf)"
proof (induction ss arbitrary: off buf)
  case (Cons s ss)
  have s: "gpu_slabs c ! s = (s div 1024, s mod 1024 * 1024)" "group_ok (gpu_grouped c) s" "s < length (gpu_slabs c)"
    using Cons.prems(1,2) by (simp_all add: gpu_memory_ok_def)
  let ?p = "group_read (gpu_grouped c) s"
  have p: "length ?p = 1024" using gpu_mem.rd_length [OF s(2)] .
  have "device_read (s div 1024, s mod 1024 * 1024) 1024 (gpu_grouped c) = Inr ?p"
    using s(2) slab_fits [of s] by (auto simp: device_read_def group_ok_def group_read_def)
  then have step: "mog_memcpy_gpu_to_gpu off buf (gpu_slabs c ! s) 1024 (gpu_grouped c)
      = Inr (take off buf @ ?p @ drop (off + 1024) buf)"
    using s(1) p Cons.prems(3) by (simp add: mog_memcpy_gpu_to_gpu_def)
  let ?buf = "take off buf @ ?p @ drop (off + 1024) buf"
  have "GpuCache_copy_slabs c ss (off + 1024) ?buf =
     Inr (take (off + 1024) ?buf @ load_slabs group_read (gpu_grouped c) ss @ drop (off + 1024 + length ss * 1024) ?buf)"
    using Cons.prems p by (intro Cons.IH) simp_all
  then show ?case using step s(3) p Cons.prems(3) by (simp add: load_slabs_def ac_simps)
qed (simp add: load_slabs_def)

lemma gpu_read_hit:
  assumes wf: "gpu_core c" and k: "map_of (gpu_cached_item c) key = Some item"
    and room: "1024 * length (gitem_slabs item) \<le> length buf"
  shows "\<exists>buf'. GpuCache_read key buf c = Inr (gitem_length item, buf') \<and> length buf' = length buf
     \<and> take (nat (gitem_length item)) buf' = gpu_value c item"
proof -
  note D = gpu_coreD [OF wf] and A = gpu_slabs_apart [OF wf k]
  let ?l = "load_slabs group_read (gpu_grouped c) (gitem_slabs item)"
  have c: "GpuCache_copy_slabs c (gitem_slabs item) 0 buf = Inr (?l @ drop (length (gitem_slabs item) * 1024) buf)"
    using gpu_copy_slabs_spec [OF A(2) D(5), of 0 buf] room by simp
  have l: "length ?l = length (gitem_slabs item) * 1024"
  proof -
    have "\<forall>s \<in> set ss. group_ok (gpu_grouped c) s \<Longrightarrow> length (load_slabs group_read (gpu_grouped c) ss) = length ss * 1024" for ss
      by (induction ss) (simp_all add: load_slabs_def gpu_mem.rd_length)
    then show ?thesis using A(2) D(5) by (auto simp: gpu_memory_ok_def)
  qed
  have "gitem_length item \<le> 1024 * int (length (gitem_slabs item))" using D(4) [OF k] by (simp add: gpu_item_ok_def)
  then have "nat (gitem_length item) \<le> length ?l" unfolding l by linarith
  then show ?thesis using c k l room by (simp add: GpuCache_read_def gpu_value_def)
qed

end
