(* ===== verification/Mog_Gpu.thy ===== *)
theory Mog_Gpu
  imports Gpu_Cache_Inv
begin

section \<open>mog_gpu: one cache per device\<close>

text \<open>
  \<open>mog_gpu/mog_gpu.{h,cpp}\<close> and \<open>main.cpp\<close>: the object keeps one \<open>GpuCache\<close> for each device it
  was told to use. The CUDA driver and runtime are the record \<open>cuda\<close>; its allocator returns
  blocks of the size asked for (\<open>cuda_ok\<close>, as \<open>cudaMalloc\<close> is documented). A
  \<open>std::string\<close> passed as a C string can be read up to and including its terminating zero.
\<close>

record cuda =
  cuInit :: int
  cuDeviceGetCount :: "int \<times> int"
  cudaMalloc :: cuda_malloc

definition cuda_ok :: "cuda \<Rightarrow> bool" where
  "cuda_ok G \<longleftrightarrow> (\<forall>d n i b. cudaMalloc G d n i = Some b \<longrightarrow> length b = nat n)"

record mog_gpu =
  mg_device_num :: int
  mg_devices :: "int list"
  mg_page_size :: int
  mg_page_num :: int
  mg_gpu_caches :: "(int \<times> gpu_cache) list"

definition mog_gpu_get_device_num :: "cuda \<Rightarrow> mog_gpu \<Rightarrow> (int \<times> mog_gpu) outcome" where
  "mog_gpu_get_device_num G g =
     check (fst (cuDeviceGetCount G) = 0) (Fatal ''Check failed: cuDeviceGetCount'')
     (check (snd (cuDeviceGetCount G) \<noteq> 0) (Fatal ''Check failed: device_num != 0'')
        (Inr (0, g\<lparr>mg_device_num := snd (cuDeviceGetCount G)\<rparr>)))"

definition mog_gpu_new_size :: "cuda \<Rightarrow> int \<Rightarrow> mog_gpu outcome" where
  "mog_gpu_new_size G cache_size =
     check (cuInit G = 0) (Fatal ''Check failed: cuInit'')
     (and_then (mog_gpu_get_device_num G
        \<lparr>mg_device_num = 0, mg_devices = [], mg_page_size = 0, mg_page_num = 0, mg_gpu_caches = []\<rparr>) (\<lambda>(r, g).
        check (mg_device_num g \<noteq> 0) (Fatal ''Check failed: device_num != 0'')
          (Inr (g\<lparr>mg_page_num := cache_size, mg_page_size := 1024 * 1024\<rparr>))))"

definition mog_gpu_new :: "cuda \<Rightarrow> mog_gpu outcome" where
  "mog_gpu_new G =
     check (cuInit G = 0) (Fatal ''Check failed: cuInit'')
     (and_then (mog_gpu_get_device_num G
        \<lparr>mg_device_num = 0, mg_devices = [], mg_page_size = 0, mg_page_num = 0, mg_gpu_caches = []\<rparr>) (\<lambda>(r, g).
        check (mg_device_num g \<noteq> 0) (Fatal ''Check failed: device_num != 0'')
          (Inr (g\<lparr>mg_page_num := 100, mg_page_size := 1024 * 1024\<rparr>))))"

definition mog_gpu_set_size :: "int \<Rightarrow> mog_gpu \<Rightarrow> int \<times> mog_gpu" where
  "mog_gpu_set_size cache_size g = (0, g\<lparr>mg_page_num := cache_size\<rparr>)"

definition mog_gpu_use_device :: "int \<Rightarrow> mog_gpu \<Rightarrow> int \<times> mog_gpu" where
  "mog_gpu_use_device device_id g = (0, g\<lparr>mg_devices := mg_devices g @ [device_id]\<rparr>)"

definition mog_gpu_setup_device :: "cuda \<Rightarrow> int \<Rightarrow> mog_gpu \<Rightarrow> mog_gpu outcome" where
  "mog_gpu_setup_device G d g =
     and_then (GpuCache_initial (mg_page_size g) (mg_page_num g) (GpuCache_new d)) (\<lambda>(r1, c1).
     check (r1 = 0) (Fatal ''Check failed: initial'')
     (and_then (GpuCache_allocate_memory (cudaMalloc G) c1) (\<lambda>(r2, c2).
      check (r2 = 0) (Fatal ''Check failed: allocate_memory'')
        (Inr (g\<lparr>mg_gpu_caches := AList.update d c2 (mg_gpu_caches g)\<rparr>)))))"

fun mog_gpu_setup_loop :: "cuda \<Rightarrow> int list \<Rightarrow> mog_gpu \<Rightarrow> mog_gpu outcome" where
  "mog_gpu_setup_loop G [] g = Inr g"
| "mog_gpu_setup_loop G (d # ds) g = and_then (mog_gpu_setup_device G d g) (mog_gpu_setup_loop G ds)"

definition mog_gpu_setup :: "cuda \<Rightarrow> mog_gpu \<Rightarrow> (int \<times> mog_gpu) outcome" where
  "mog_gpu_setup G g = and_then (mog_gpu_setup_loop G (mg_devices g) g) (\<lambda>g'. Inr (0, g'))"

definition null_cache :: failure where
  "null_cache = Undefined ''call on a null GpuCache''"

fun mog_gpu_close_loop :: "int list \<Rightarrow> mog_gpu \<Rightarrow> mog_gpu outcome" where
  "mog_gpu_close_loop [] g = Inr g"
| "mog_gpu_close_loop (d # ds) g =
     (case map_of (mg_gpu_caches g) d of
        None \<Rightarrow> Inl null_cache
      | Some c \<Rightarrow> and_then (GpuCache_close c) (\<lambda>(r, c').
          mog_gpu_close_loop ds (g\<lparr>mg_gpu_caches := AList.update d c' (mg_gpu_caches g)\<rparr>)))"

definition mog_gpu_close :: "mog_gpu \<Rightarrow> (int \<times> mog_gpu) outcome" where
  "mog_gpu_close g = and_then (mog_gpu_close_loop (mg_devices g) g) (\<lambda>g'. Inr (0, g'))"

definition mog_gpu_malloc :: "cuda \<Rightarrow> int \<Rightarrow> int \<Rightarrow> byte list outcome" where
  "mog_gpu_malloc G device_id size1 = handle_error (cudaMalloc G device_id (size1 * 1024 * 1024) 0)"

definition mog_gpu_read :: "int \<Rightarrow> string \<Rightarrow> byte list \<Rightarrow> mog_gpu \<Rightarrow> (int \<times> byte list) outcome" where
  "mog_gpu_read device_id key value g =
     (case map_of (mg_gpu_caches g) device_id of
        None \<Rightarrow> Inl null_cache
      | Some c \<Rightarrow> GpuCache_read key value c)"

definition mog_gpu_insert :: "int \<Rightarrow> string \<Rightarrow> byte list \<Rightarrow> mog_gpu \<Rightarrow> (int \<times> mog_gpu) outcome" where
  "mog_gpu_insert device_id key value g =
     (case map_of (mg_gpu_caches g) device_id of
        None \<Rightarrow> Inl null_cache
      | Some c \<Rightarrow> and_then (GpuCache_insert key (int (length value)) (value @ [0]) c) (\<lambda>(r, c').
          Inr (0, g\<lparr>mg_gpu_caches := AList.update device_id c' (mg_gpu_caches g)\<rparr>)))"


subsection \<open>Set-up\<close>

lemma allocate_groups_spec:
  assumes "\<forall>d n i. \<exists>b. alloc d n i = Some b \<and> length b = nat n"
  shows "set gs \<subseteq> {..<length grouped} \<Longrightarrow>
     \<exists>grouped'. GpuCache_allocate_groups alloc d gs grouped = Inr grouped' \<and> length grouped' = length grouped
       \<and> (\<forall>g < length grouped. grouped' ! g = grouped ! g \<and> g \<notin> set gs
             \<or> (\<exists>b. grouped' ! g = Some b \<and> length b = 1024 * 1024))"
proof (induction gs arbitrary: grouped)
  case (Cons g gs)
  obtain b where b: "alloc d (1024 * 1024) g = Some b" "length b = 1024 * 1024" using assms by fastforce
  let ?m = "grouped[g := Some b]"
  have step: "mog_malloc_gpu alloc d (1024 * 1024) g grouped = Inr ?m"
    using b(1) Cons.prems by (simp add: mog_malloc_gpu_def handle_error_def)
  obtain m' where m': "GpuCache_allocate_groups alloc d gs ?m = Inr m'" "length m' = length grouped"
    "\<forall>h < length grouped. m' ! h = ?m ! h \<and> h \<notin> set gs \<or> (\<exists>b. m' ! h = Some b \<and> length b = 1024 * 1024)"
    using Cons.IH [of ?m] Cons.prems by auto
  have "m' ! h = grouped ! h \<and> h \<notin> set (g # gs) \<or> (\<exists>b. m' ! h = Some b \<and> length b = 1024 * 1024)"
    if "h < length grouped" for h
    using m'(3) that b(2) by (cases "h = g") auto
  then show ?case using step m'(1,2) by simp
qed simp

lemma gpu_allocate_wf:
  assumes alloc: "\<forall>d n i. \<exists>b. alloc d n i = Some b \<and> length b = nat n" and pages: "0 \<le> page_num"
  shows "\<exists>c1 c2. GpuCache_initial (1024 * 1024) page_num (GpuCache_new d) = Inr (0, c1)
     \<and> GpuCache_allocate_memory alloc c1 = Inr (0, c2) \<and> gpu_wf c2 \<and> gpu_cached_item c2 = []
     \<and> length (gpu_slabs c2) = nat page_num * 1024"
proof -
  let ?n = "nat page_num * 1024"
  have n: "(page_num * (1024 * 1024)) div 1024 = page_num * 1024" by simp
  have nn: "nat (page_num * 1024) = ?n" using pages by (simp add: nat_mult_distrib)
  let ?m0 = "replicate (nat page_num) None :: device_memory"
  obtain m where m: "GpuCache_allocate_groups alloc d [0..<nat page_num] ?m0 = Inr m" "length m = nat page_num"
    "\<forall>g < nat page_num. \<exists>b. m ! g = Some b \<and> length b = 1024 * 1024"
    using allocate_groups_spec [OF alloc, of "[0..<nat page_num]" ?m0 d] by fastforce
  let ?c1 = "(GpuCache_new d)\<lparr>gpu_page_size := 1024 * 1024, gpu_page_num := page_num, gpu_slab_num := page_num * 1024,
      gpu_slabs := replicate ?n (0, 0), gpu_grouped := ?m0, gpu_free_slab_num := 0, gpu_initial_flag := 0\<rparr>"
  have ini: "GpuCache_initial (1024 * 1024) page_num (GpuCache_new d) = Inr (0, ?c1)"
    using pages nn unfolding GpuCache_initial_def n by simp
  let ?c2 = "?c1\<lparr>gpu_free_slab_num := page_num * 1024, gpu_grouped := m,
      gpu_slabs := map (\<lambda>s. (s div 1024, s mod 1024 * 1024)) [0..<?n], gpu_free_slabs := [0..<?n]\<rparr>"
  have al: "GpuCache_allocate_memory alloc ?c1 = Inr (0, ?c2)"
    using m(1) nn by (simp add: GpuCache_allocate_memory_def GpuCache_new_def Let_def)
  have "group_ok m s" if "s < ?n" for s
  proof -
    have "s div 1024 < nat page_num" using that by (simp add: less_mult_imp_div_less)
    then show ?thesis using m(2,3) by (simp add: group_ok_def)
  qed
  then have "gpu_wf ?c2"
    using pages by (simp add: gpu_wf_def gpu_core_def gpu_memory_ok_def GpuCache_new_def)
  then show ?thesis using ini al by (simp add: GpuCache_new_def)
qed


subsection \<open>Two ways insert goes wrong\<close>

text \<open>Every slab of a value is copied whole, whether or not the value fills it.\<close>

lemma insert_loop_overread:
  "n \<le> length (gpu_free_slabs c) \<Longrightarrow> set (gpu_free_slabs c) \<subseteq> {..<length (gpu_slabs c)} \<Longrightarrow> gpu_memory_ok c \<Longrightarrow>
   length value < (i + n) * 1024 \<Longrightarrow> i * 1024 \<le> length value \<Longrightarrow>
   GpuCache_insert_loop key value i n c = Inl (Undefined ''read past the end of a buffer'')"
proof (induction n arbitrary: i c)
  case (Suc n)
  then obtain s rest where free: "gpu_free_slabs c = s # rest" by (cases "gpu_free_slabs c") auto
  have s: "s < length (gpu_slabs c)" using Suc.prems(2) free by simp
  then have ps: "gpu_slabs c ! s = (s div 1024, s mod 1024 * 1024)" "group_ok (gpu_grouped c) s"
    using Suc.prems(3) by (simp_all add: gpu_memory_ok_def)
  show ?case
  proof (cases "Suc i * 1024 \<le> length value")
    case False
    then show ?thesis using free s by (simp add: buf_read_def)
  next
    case True
    let ?piece = "take 1024 (drop (i * 1024) value)"
    let ?c = "c\<lparr>gpu_cached_item := AList.update key
          ((gpu_item_of key c)\<lparr>gitem_slabs := gitem_slabs (gpu_item_of key c) @ [s]\<rparr>) (gpu_cached_item c),
        gpu_grouped := group_write s ?piece (gpu_grouped c),
        gpu_free_slabs := rest, gpu_free_slab_num := gpu_free_slab_num c - 1\<rparr>"
    have l: "length ?piece = 1024" using True by simp
    have mem: "gpu_memory_ok ?c"
      using Suc.prems(3) gpu_mem.ok_wr [OF ps(2) l] by (simp add: gpu_memory_ok_def)
    have "GpuCache_insert_loop key value i (Suc n) c = GpuCache_insert_loop key value (Suc i) n ?c"
      using free s ps(1) gpu_memcpy_write [OF ps(2) l] True by (simp add: buf_read_def)
    also have "\<dots> = Inl (Undefined ''read past the end of a buffer'')"
      using Suc.prems free mem True by (intro Suc.IH) simp_all
    finally show ?thesis .
  qed
qed simp

text \<open>A key that is cached keeps its old slabs in front of the new ones.\<close>

lemma gpu_update_spec:
  assumes wf: "gpu_wf c" and k: "map_of (gpu_cached_item c) key = Some item"
    and t: "length_slab_type len \<le> 10" and room: "slab_count (length_slab_type len) \<le> length (gpu_free_slabs c)"
    and src: "slab_count (length_slab_type len) * 1024 \<le> length value"
  shows "\<exists>c'. GpuCache_insert key len value c = Inr (0, c')
     \<and> map_of (gpu_cached_item c') key = Some \<lparr>gitem_length = len, gitem_length_type = length_slab_type len,
         gitem_slabs = gitem_slabs item @ take (slab_count (length_slab_type len)) (gpu_free_slabs c)\<rparr>
     \<and> set (gitem_slabs item) \<subseteq> set (gpu_free_slabs c')
     \<and> load_slabs group_read (gpu_grouped c') (gitem_slabs item) = load_slabs group_read (gpu_grouped c) (gitem_slabs item)
     \<and> gpu_slabs c' = gpu_slabs c \<and> gpu_memory_ok c'"
proof -
  let ?n = "slab_count (length_slab_type len)" and ?c1 = "GpuCache_release key c"
  let ?i0 = "item\<lparr>gitem_length := len, gitem_length_type := length_slab_type len\<rparr>"
  let ?c2 = "?c1\<lparr>gpu_cached_item := AList.update key ?i0 (gpu_cached_item c)\<rparr>"
  have core: "gpu_core c" using wf by (simp add: gpu_wf_def)
  note D = gpu_coreD [OF core] and A = gpu_slabs_apart [OF core k] and F = gpu_free_facts [OF core]
  let ?ss = "take ?n (gpu_free_slabs c)"
  have free1: "gpu_free_slabs ?c1 = gpu_free_slabs c @ gitem_slabs item"
    "gpu_cached_item ?c1 = gpu_cached_item c" "gpu_item_of key ?c1 = item" "gpu_slabs ?c1 = gpu_slabs c"
    "gpu_grouped ?c1 = gpu_grouped c"
    using k by (simp_all add: GpuCache_release_def gpu_item_of_def)
  have num: "\<not> gpu_free_slab_num ?c1 < int ?n"
    using D(3) room by (simp add: GpuCache_release_def)
  have loop: "GpuCache_insert_loop key value 0 ?n ?c2 =
     Inr (?c2\<lparr>gpu_cached_item := AList.update key (?i0\<lparr>gitem_slabs := gitem_slabs ?i0 @ take ?n (gpu_free_slabs ?c2)\<rparr>)
              (gpu_cached_item ?c2),
            gpu_grouped := store_slabs group_write value 0 (take ?n (gpu_free_slabs ?c2)) (gpu_grouped ?c2),
            gpu_free_slabs := drop ?n (gpu_free_slabs ?c2),
            gpu_free_slab_num := gpu_free_slab_num ?c2 - int ?n\<rparr>)"
    using room F(2) A(2) D(5) src free1
    by (intro gpu_insert_loop_spec) (simp_all add: gpu_memory_ok_def)
  have "take ?n (gpu_free_slabs ?c2) = ?ss" using room free1(1) by simp
  note loop' = loop [unfolded this]
  let ?m = "store_slabs group_write value 0 ?ss (gpu_grouped c)"
  let ?c3 = "?c2\<lparr>gpu_cached_item := AList.update key (?i0\<lparr>gitem_slabs := gitem_slabs ?i0 @ ?ss\<rparr>) (gpu_cached_item ?c2),
            gpu_grouped := store_slabs group_write value 0 ?ss (gpu_grouped ?c2),
            gpu_free_slabs := drop ?n (gpu_free_slabs ?c2),
            gpu_free_slab_num := gpu_free_slab_num ?c2 - int ?n\<rparr>"
  have ins: "GpuCache_insert key len value c = Inr (0, ?c3)"
    using t k num loop' free1(2,3) by (simp add: GpuCache_insert_def Let_def not_le [symmetric])
  have sub: "set ?ss \<subseteq> {..<length (gpu_slabs c)}" by (rule order_trans [OF set_take_subset F(2)])
  have len: "length ?ss * 1024 \<le> length value" using room src by simp
  have okall: "\<forall>s \<in> set ?ss. group_ok (gpu_grouped c) s" using D(5) sub by (auto simp: gpu_memory_ok_def)
  have "load_slabs group_read ?m (gitem_slabs item) = load_slabs group_read (gpu_grouped c) (gitem_slabs item)"
  proof (rule gpu_mem.load_store_other [OF okall])
    show "(0 + length ?ss) * 1024 \<le> length value" using len by simp
    show "\<forall>s \<in> set (gitem_slabs item). group_ok (gpu_grouped c) s \<and> s \<notin> set ?ss"
    proof
      fix s assume s: "s \<in> set (gitem_slabs item)"
      then have "s \<in> {..<length (gpu_slabs c)}" "s \<notin> set (gpu_free_slabs c)" using A(2,3) by blast+
      then show "group_ok (gpu_grouped c) s \<and> s \<notin> set ?ss"
        using D(5) in_set_takeD by (fastforce simp: gpu_memory_ok_def)
    qed
  qed
  moreover have "gpu_memory_ok ?c3"
    using D(5) group_ok_store [OF D(5) sub len] free1(4,5) by (simp add: gpu_memory_ok_def)
  ultimately show ?thesis using ins free1 room by (intro exI [of _ ?c3]) simp
qed

end
