(* ===== verification/Gpu_Properties.thy ===== *)
theory Gpu_Properties
  imports Mog_Gpu
begin

section \<open>Properties of the device cache\<close>

text \<open>
  A value inserted under a new key is what a read returns, after the eviction of as many old
  items as needed; but an update of a cached key is not seen by readers, and an ordinary
  string is too short for the copy of its last slab.
\<close>

definition demo_alloc :: cuda_malloc where
  "demo_alloc d n i = Some (replicate (nat n) 0)"

lemma demo_gpu:
  "\<exists>c. gpu_wf c \<and> gpu_cached_item c = [] \<and> length (gpu_slabs c) = 1024"
  using gpu_allocate_wf [of demo_alloc 1] by (auto simp: demo_alloc_def)

definition demo_piece :: "byte list" where
  "demo_piece = [1, 2, 3] @ replicate 1021 0"

lemma demo_piece: "length demo_piece = 1024" "take 3 demo_piece = [1, 2, 3]"
  by (simp_all add: demo_piece_def numeral_3_eq_3)

lemma slab_type_small: "length_slab_type 3 = 0" "slab_count 0 = 1"
  by (simp_all add: length_slab_type.simps [of 3] slab_count_def)



text \<open>When a cached key is inserted again and enough slabs are free, the item keeps its
  old slabs in front of the new ones: a read still returns the old bytes first, and the old
  slabs are at the same time in the queue of free slabs.\<close>

theorem gpu_update_not_seen:
  assumes "gpu_wf c" "map_of (gpu_cached_item c) key = Some item" "length_slab_type len \<le> 10"
    and "slab_count (length_slab_type len) \<le> length (gpu_free_slabs c)"
    and "slab_count (length_slab_type len) * 1024 \<le> length value"
    and "(length (gitem_slabs item) + slab_count (length_slab_type len)) * 1024 \<le> length buf"
  shows "\<exists>c' buf'. GpuCache_insert key len value c = Inr (0, c') \<and> GpuCache_read key buf c' = Inr (len, buf')
     \<and> take (length (gitem_slabs item) * 1024) buf' = load_slabs group_read (gpu_grouped c) (gitem_slabs item)
     \<and> set (gitem_slabs item) \<subseteq> set (gpu_free_slabs c')"
proof -
  obtain c' where c': "GpuCache_insert key len value c = Inr (0, c')"
    "map_of (gpu_cached_item c') key = Some \<lparr>gitem_length = len, gitem_length_type = length_slab_type len,
         gitem_slabs = gitem_slabs item @ take (slab_count (length_slab_type len)) (gpu_free_slabs c)\<rparr>"
    "set (gitem_slabs item) \<subseteq> set (gpu_free_slabs c')"
    "load_slabs group_read (gpu_grouped c') (gitem_slabs item) = load_slabs group_read (gpu_grouped c) (gitem_slabs item)"
    "gpu_slabs c' = gpu_slabs c" "gpu_memory_ok c'"
    using gpu_update_spec [OF assms(1-5)] by blast
  let ?ss = "gitem_slabs item @ take (slab_count (length_slab_type len)) (gpu_free_slabs c)"
  have core: "gpu_core c" using assms(1) by (simp add: gpu_wf_def)
  have old: "set (gitem_slabs item) \<subseteq> {..<length (gpu_slabs c')}"
    using gpu_slabs_apart(2) [OF core assms(2)] c'(5) by simp
  moreover have "set (take (slab_count (length_slab_type len)) (gpu_free_slabs c)) \<subseteq> {..<length (gpu_slabs c')}"
    using order_trans [OF set_take_subset gpu_free_facts(2) [OF core]] c'(5) by simp
  ultimately have sub: "set ?ss \<subseteq> {..<length (gpu_slabs c')}" by simp
  have copy: "GpuCache_copy_slabs c' ?ss 0 buf =
      Inr (take 0 buf @ load_slabs group_read (gpu_grouped c') ?ss @ drop (0 + length ?ss * 1024) buf)"
    using assms(4,6) by (intro gpu_copy_slabs_spec [OF sub c'(6)]) (simp add: algebra_simps)
  have len: "length (load_slabs group_read (gpu_grouped c') (gitem_slabs item)) = length (gitem_slabs item) * 1024"
  proof -
    have "set ss \<subseteq> {..<length (gpu_slabs c')} \<Longrightarrow>
        length (load_slabs group_read (gpu_grouped c') ss) = length ss * 1024" for ss
      using c'(6) by (induction ss) (simp_all add: load_slabs_def gpu_mem.rd_length gpu_memory_ok_def)
    then show ?thesis using old by simp
  qed
  let ?buf = "load_slabs group_read (gpu_grouped c') ?ss @ drop (length ?ss * 1024) buf"
  have "take (length (gitem_slabs item) * 1024) ?buf = load_slabs group_read (gpu_grouped c') (gitem_slabs item)"
    using len by (simp add: load_slabs_def)
  moreover have "GpuCache_read key buf c' = Inr (len, ?buf)" using c'(2) copy by (simp add: GpuCache_read_def)
  ultimately show ?thesis using c'(1,3,4) by (intro exI [of _ c'] exI [of _ ?buf]) simp
qed

theorem gpu_update_not_seen_witness:
  "\<exists>c c' buf'. GpuCache_insert ''k'' 3 (replicate 1024 9) c = Inr (0, c')
     \<and> GpuCache_read ''k'' (replicate 2048 0) c' = Inr (3, buf') \<and> take 3 buf' = [1, 2, 3]"
proof -
  obtain c0 where c0: "gpu_wf c0" "gpu_cached_item c0 = []" "length (gpu_slabs c0) = 1024" using demo_gpu by blast
  then have free: "length (gpu_free_slabs c0) = 1024" using gpu_empty_free [of c0] by (simp add: gpu_wf_def)
  let ?c = "gpu_stored ''k'' 3 demo_piece c0"
  have S: "gpu_wf ?c" "gpu_value ?c (gpu_item_of ''k'' ?c) = [1, 2, 3]"
    using gpu_stored_wf(1,2) [OF c0(1), of "''k''" 3 demo_piece] c0(2) free
    by (simp_all add: slab_type_small demo_piece)
  let ?item = "\<lparr>gitem_length = 3, gitem_length_type = 0, gitem_slabs = take 1 (gpu_free_slabs c0)\<rparr>"
  have item: "map_of (gpu_cached_item ?c) ''k'' = Some ?item"
    by (simp add: gpu_stored_def Let_def slab_type_small)
  have f: "1 \<le> length (gpu_free_slabs ?c)" "length (gitem_slabs ?item) = 1"
    using free by (simp_all add: gpu_stored_def Let_def slab_type_small)
  have old: "take 3 (load_slabs group_read (gpu_grouped ?c) (gitem_slabs ?item)) = [1, 2, 3]"
    using S(2) item by (simp add: gpu_value_def gpu_item_of_def)
  obtain c' buf' where r: "GpuCache_insert ''k'' 3 (replicate 1024 9) ?c = Inr (0, c')"
    "GpuCache_read ''k'' (replicate 2048 0) c' = Inr (3, buf')"
    "take 1024 buf' = load_slabs group_read (gpu_grouped ?c) (gitem_slabs ?item)"
    using gpu_update_not_seen [OF S(1) item, of 3 "replicate 1024 9" "replicate 2048 0"] f
    unfolding slab_type_small by auto
  have "take 3 (take 1024 buf') = [1, 2, 3]" unfolding r(3) by (rule old)
  then have "take 3 buf' = [1, 2, 3]" by simp
  with r show ?thesis by blast
qed

text \<open>\<open>mog_gpu::insert\<close> of a value that is more than one byte shorter than its slabs
  reads past the end of the string: only lengths of a slab class, and those one byte
  shorter, are copied without undefined behaviour.\<close>

theorem gpu_insert_overreads:
  assumes "map_of (mg_gpu_caches g) device_id = Some c" "gpu_wf c" "map_of (gpu_cached_item c) key = None"
    and "length_slab_type (int (length value)) \<le> 10"
    and "slab_count (length_slab_type (int (length value))) \<le> length (gpu_free_slabs c)"
    and "length value + 1 < slab_count (length_slab_type (int (length value))) * 1024"
  shows "mog_gpu_insert device_id key value g = Inl (Undefined ''read past the end of a buffer'')"
proof -
  let ?n = "slab_count (length_slab_type (int (length value)))"
  have core: "gpu_core c" using assms(2) by (simp add: gpu_wf_def)
  note D = gpu_coreD [OF core] and F = gpu_free_facts [OF core]
  have "GpuCache_insert_loop key (value @ [0]) 0 ?n (c\<lparr>gpu_cached_item := items\<rparr>)
      = Inl (Undefined ''read past the end of a buffer'')" for items
    using assms(5,6) F(2) D(5) by (intro insert_loop_overread) (simp_all add: gpu_memory_ok_def)
  then show ?thesis
    using assms(1,3,4,5) D(3) by (simp add: mog_gpu_insert_def GpuCache_insert_def Let_def)
qed

theorem gpu_insert_overreads_witness:
  "\<exists>g. mog_gpu_insert 0 ''0'' (replicate 25 115) g = Inl (Undefined ''read past the end of a buffer'')"
proof -
  obtain c where c: "gpu_wf c" "gpu_cached_item c = []" "length (gpu_slabs c) = 1024" using demo_gpu by blast
  then have free: "length (gpu_free_slabs c) = 1024" using gpu_empty_free [of c] by (simp add: gpu_wf_def)
  let ?g = "\<lparr>mg_device_num = 1, mg_devices = [0], mg_page_size = 1048576, mg_page_num = 1, mg_gpu_caches = [(0, c)]\<rparr>"
  have t: "length_slab_type 25 = 0" by (simp add: length_slab_type.simps [of 25])
  show ?thesis
    using gpu_insert_overreads [of ?g 0 c "''0''" "replicate 25 115"] c free t slab_type_small(2) by auto
qed

end
