(* ===== verification/Example_Run.thy ===== *)
theory Example_Run
  imports Mog_Open
begin

section \<open>A small concrete server\<close>

text \<open>
  The reference environment with a simple hash, a configuration with blocks of 1 MB, two
  requested paths and one file, and the states the write buffer goes through when the
  file's value is written and its block is cut. They show that the hypotheses of the
  properties can hold together.
\<close>

definition demo_hash :: "string \<Rightarrow> size_t" where
  "demo_hash s = word_of_nat (string_value s)"

definition demo_env :: "(string \<Rightarrow> byte list option) env" where
  "demo_env = ref_env demo_hash"

definition demo_paths :: "string set" where
  "demo_paths = {''/a'', ''/b''}"

definition demo_fs :: fs where
  "demo_fs = \<lparr>files = [''/a'' \<mapsto> [1, 2, 3]], dirs = {''''}\<rparr>"

definition demo_mog :: mog where
  "demo_mog =
     \<lparr>mog_ready = False, mog_total_size = 0, mog_config_file = ''mog.yaml'', mog_db_name = ''NULL'',
      mog_page_size = 1048576, mog_cpu_page_num = 1, mog_HDD_page_num = 1024,
      mog_SSD_page_num = 1024, mog_page_per_block = 1, mog_buffer_page_num = 1024,
      mog_ssd_path = ''/s'', mog_hdd_path = ''/h''\<rparr>"

definition demo_idle :: "(string \<Rightarrow> byte list option) mog_state" where
  "demo_idle =
     \<lparr>st_mog = demo_mog, st_wb = WriteBuffer_new, st_cpu = CpuCache_new, st_ci = CentraIndex_new,
      st_ssd = SSDCache_new, st_fs = demo_fs\<rparr>"

lemma demo_environment: "environment demo_env"
  unfolding demo_env_def by unfold_locales

lemma hash_demo [simp]: "hash demo_env = demo_hash"
  by (simp add: demo_env_def ref_env_def)

lemma demo_key_a: "path_key demo_env ''/a'' = ''49''" "demo_hash ''49'' = 49"
proof -
  have "unat (hash demo_env ''/a'') = 49" by (simp add: demo_hash_def string_value_def)
  moreover have "nat_to_string 49 = ''49''" by code_simp
  ultimately show "path_key demo_env ''/a'' = ''49''" by (simp only: path_key_def)
qed (simp add: demo_hash_def string_value_def)

lemma demo_key_b: "path_key demo_env ''/b'' = ''50''" "demo_hash ''50'' = 50"
proof -
  have "unat (hash demo_env ''/b'') = 50" by (simp add: demo_hash_def string_value_def)
  moreover have "nat_to_string 50 = ''50''" by code_simp
  ultimately show "path_key demo_env ''/b'' = ''50''" by (simp only: path_key_def)
qed (simp add: demo_hash_def string_value_def)

lemma demo_keys_apart: "keys_apart demo_env demo_paths"
  by (simp add: keys_apart_def demo_paths_def demo_key_a demo_key_b)

lemma demo_mog_idle: "mog_idle demo_idle"
  by (simp add: mog_idle_def demo_idle_def WriteBuffer_new_def CpuCache_new_def SSDCache_new_def)

lemma demo_params: "params_ok (st_mog demo_idle)"
  by (simp add: params_ok_def demo_idle_def demo_mog_def)

lemma demo_layout: "layout_ok ((st_mog demo_idle)\<lparr>mog_db_name := ''DB''\<rparr>) demo_paths"
  by (simp add: layout_ok_def demo_idle_def demo_mog_def demo_paths_def below_def suffix_def prefix_def)

lemma demo_leveldb [simp]:
  "leveldb_open demo_env c name f =
     (None, Map.empty, f\<lparr>files := (files f)(name @ ''/CURRENT'' \<mapsto> []), dirs := insert name (dirs f)\<rparr>)"
  "leveldb_put demo_env db k v = (None, db(k \<mapsto> v))"
  "leveldb_get demo_env db k = (None, db k)"
  by (simp_all add: demo_env_def ref_env_def)

lemma open_succeeds:
  assumes ldb: "\<forall>name f. \<exists>db f'. leveldb_open E True name f = (None, db, f')"
    "\<forall>db k v. \<exists>db'. leveldb_put E db k v = (None, db')"
    and s: "mog_idle s" "params_ok (st_mog s)"
  shows "\<exists>st. mog_open E name s = Inr (0, st)"
proof -
  have create: "\<exists>st. mog_create E s' = Inr (0, st)" if s': "mog_idle s'" "params_ok (st_mog s')" for s'
  proof -
    let ?f = "created E (st_mog s') (st_fs s')"
    obtain db f5 where db: "leveldb_open E True (mog_index_path (st_mog s')) ?f = (None, db, f5)"
      using ldb(1) by blast
    obtain db' where db': "leveldb_put E db ''FILE_NUM'' (le_bytes 8 0) = (None, db')"
      using ldb(2) by blast
    let ?ci1 = "(st_ci s')\<lparr>ci_name := mog_index_path (st_mog s'), ci_db := Some db\<rparr>"
    obtain ci2 where stp: "CentraIndex_setup E (mog_index_path (st_mog s')) (st_ci s') ?f = Inr (0, ?ci1, f5)"
      and put: "CentraIndex_put E ''FILE_NUM'' (le_bytes 8 0) ?ci1 = Inr (0, ci2)"
      using db db' by (simp add: CentraIndex_setup_def CentraIndex_put_def)
    obtain st where "mog_allocate_memory (s'\<lparr>st_ci := ci2, st_fs := f5\<rparr>) = Inr (0, st)"
      using allocate_spec [of "s'\<lparr>st_ci := ci2, st_fs := f5\<rparr>" E] s' by (auto simp: mog_idle_def)
    then show ?thesis using stp put by (simp add: mog_create_def created_def Let_def)
  qed
  let ?m = "(st_mog s)\<lparr>mog_db_name := name\<rparr>"
  have "mog_idle (s\<lparr>st_mog := ?m, st_fs := f\<rparr>)" for f using s(1) by (simp add: mog_idle_def)
  moreover have "params_ok ?m" using s(2) by (simp add: params_ok_def)
  ultimately obtain st where "mog_create E (s\<lparr>st_mog := ?m,
      st_fs := fs_remove_all E (mog_hdd_path ?m) (fs_remove_all E (mog_ssd_path ?m) (st_fs s))\<rparr>) = Inr (0, st)"
    using create [of "s\<lparr>st_mog := ?m, st_fs := fs_remove_all E (mog_hdd_path ?m) (fs_remove_all E (mog_ssd_path ?m) (st_fs s))\<rparr>"]
    by auto
  then show ?thesis by (simp add: mog_open_def Let_def)
qed

lemma demo_open: "\<exists>st. mog_open demo_env ''DB'' demo_idle = Inr (0, st)"
  by (rule open_succeeds) (simp_all add: demo_mog_idle demo_params)


subsection \<open>The write buffer in use\<close>

definition demo_wb :: write_buffer where
  "demo_wb = (snd (WriteBuffer_initial 1048576 1 1024 WriteBuffer_new))\<lparr>wb_hdd_path := ''/h''\<rparr>"

definition demo_ssd :: ssd_cache where
  "demo_ssd = SSDCache_new\<lparr>ssd_max_block_num := 10, ssd_ssd_path := ''/s'', ssd_hdd_path := ''/h''\<rparr>"

definition demo_ci :: "(string \<Rightarrow> byte list option) centra_index" where
  "demo_ci = \<lparr>ci_name = ''/s/DB.mog'', ci_db = Some Map.empty\<rparr>"

text \<open>Three bytes under the key of the first path, then the block they are cut into.\<close>

definition demo_wb1 :: write_buffer where
  "demo_wb1 = wb_written demo_env ''49'' [1, 2, 3] demo_wb"

definition demo_wb2 :: write_buffer where
  "demo_wb2 = wb_cut 1 demo_wb1"

definition demo_fs2 :: fs where
  "demo_fs2 = \<lparr>files = [''/a'' \<mapsto> [1, 2, 3]], dirs = {'''', ''/s'', ''/h''}\<rparr>"

lemma demo_wb_inv: "wb_inv demo_env demo_wb"
  by (rule empty_wb_inv) (simp_all add: demo_wb_def WriteBuffer_initial_def WriteBuffer_new_def)

lemma demo_not_waiting: "\<not> WriteBuffer_write_waits demo_ssd demo_wb"
  by (simp add: WriteBuffer_write_waits_def demo_ssd_def demo_wb_def WriteBuffer_initial_def
      WriteBuffer_new_def SSDCache_new_def)

lemma demo_wb_new: "map_of (wb_kv_store demo_wb) h = None" "wb_latest_block_id demo_wb = 0"
  by (simp_all add: demo_wb_def WriteBuffer_initial_def WriteBuffer_new_def)

lemma demo_wb1_inv: "wb_inv demo_env demo_wb1"
  using write_new_key(2) [OF demo_wb_inv demo_not_waiting, of "''49''" 3 "[1, 2, 3]"] demo_wb_new
  by (simp add: demo_wb1_def)

lemma demo_wb1_facts:
  "wb_kv_list demo_wb1 = [49]" "wb_pool demo_wb1 = []" "wb_latest_block_id demo_wb1 = 0"
  "wb_flush_thread_num demo_wb1 = 10" "wb_hdd_path demo_wb1 = ''/h''"
  by (simp_all add: demo_wb1_def wb_written_def demo_wb_def WriteBuffer_initial_def WriteBuffer_new_def
      WriteBuffer_add_entry_def Let_def length_slab_type.simps slab_size_def slab_size_table_def
      demo_key_a)

lemma demo_wb2_inv: "wb_inv demo_env demo_wb2"
proof -
  obtain n where n: "0 < n" "n \<le> length (wb_kv_list demo_wb1)" "wb_inv demo_env (wb_cut n demo_wb1)"
    using cut_for_sync [OF demo_wb1_inv] by (auto simp: demo_wb1_facts)
  then have "n = 1" by (simp add: demo_wb1_facts)
  with n(3) show ?thesis by (simp add: demo_wb2_def)
qed

lemma demo_wb2_facts:
  "wb_pool demo_wb2 = [1]" "wb_flush_thread_num demo_wb2 = 10" "wb_hdd_path demo_wb2 = ''/h''"
  "wb_latest_block_id demo_wb2 = 1" "wb_kv_list demo_wb2 = []"
  using demo_wb1_facts by (simp_all add: demo_wb2_def wb_cut_def Let_def)

lemma demo_dirs: "block_path ''/h'' b \<notin> dirs demo_fs2" "block_path ''/s'' b \<notin> dirs demo_fs2"
  by (simp_all add: demo_fs2_def block_path_def)

lemma demo_roomy: "roomy (st_mog demo_idle)"
  by (simp add: roomy_def demo_idle_def demo_mog_def)


subsection \<open>A server that is ready\<close>

definition demo_server :: "write_buffer \<Rightarrow> int \<Rightarrow> (string \<Rightarrow> byte list option) mog_state" where
  "demo_server wb blocks =
     \<lparr>st_mog = demo_mog\<lparr>mog_ready := True\<rparr>, st_wb = wb, st_cpu = CpuCache_new, st_ci = demo_ci,
      st_ssd = demo_ssd\<lparr>ssd_max_block_num := blocks\<rparr>, st_fs = demo_fs2\<rparr>"

lemma demo_fs2_blocks [simp]: "files demo_fs2 (block_path ''/h'' b) = None" "files demo_fs2 (block_path ''/s'' b) = None"
  by (simp_all add: demo_fs2_def block_path_def)

lemma demo_server_ok:
  assumes "wb_inv demo_env wb" "wb_hdd_path wb = ''/h''"
    and "\<forall>h i. map_of (wb_kv_store wb) h = Some i \<longrightarrow> kv_key i = ''49'' \<and> wb_value (wb_heap wb) i = [1, 2, 3]"
  shows "mog_ok demo_env demo_paths (demo_server wb blocks)"
proof -
  have "ssd_inv (demo_ssd\<lparr>ssd_max_block_num := blocks\<rparr>) demo_fs2"
    using demo_dirs by (intro empty_ssd_inv [where ssd = "''/s''" and hdd = "''/h''"])
      (simp_all add: empty_ssd_def demo_ssd_def SSDCache_new_def, simp add: demo_fs2_def)
  moreover have "cpu_wf CpuCache_new"
    by (simp add: cpu_wf_def CpuCache_new_def cpu_disjoint_def cpu_used_def)
  moreover have "paths_apart demo_paths ''/s'' ''/h''"
    by (auto simp: paths_apart_def demo_paths_def block_path_def)
  moreover have "stored_file demo_env demo_paths (demo_server wb blocks) ''49'' [1, 2, 3]"
    unfolding stored_file_def
    by (rule bexI [of _ "''/a''"]) (simp_all add: demo_key_a demo_server_def demo_fs2_def demo_paths_def)
  ultimately show ?thesis
    using assms demo_keys_apart
    unfolding mog_ok_def blocks_ok_def wb_coherent_def index_coherent_def cpu_coherent_def
    by (auto simp: demo_server_def demo_ci_def demo_ssd_def index_small_def index_lookup_def CpuCache_new_def)
      (simp_all add: demo_fs2_def)
qed

lemma demo_server_fresh: "mog_ok demo_env demo_paths (demo_server demo_wb blocks)"
  by (rule demo_server_ok [OF demo_wb_inv])
    (simp_all add: demo_wb_new, simp add: demo_wb_def WriteBuffer_initial_def)

lemma demo_server_pending: "mog_ok demo_env demo_paths (demo_server demo_wb2 blocks)"
  by (rule demo_server_ok [OF demo_wb2_inv])
    (simp_all add: demo_wb2_facts, simp add: demo_wb2_def demo_wb1_def wb_written_def Let_def
      add_entry_lookup demo_wb_new wb_value_def add_entry_heap)

end
