(* ===== verification/Main_Properties.thy ===== *)
theory Main_Properties
  imports Server_Main Example_Run
begin

section \<open>Properties of the server process\<close>

text \<open>
  What the interleaving of ten workers, the reset thread and the background tasks
  guarantees, and where it does not: a clean command in the window between the end of
  \<open>CreateMogEntry\<close> and its unlock switches the caches off, and a request for a missing
  file during a reset ends in undefined behaviour. First a concrete start of the process.
\<close>

subsection \<open>A concrete start\<close>

definition main_env :: "(string \<Rightarrow> byte list option) env" where
  "main_env = demo_env\<lparr>yaml_load := \<lambda>p f. Some [''ssd_path'' \<mapsto> ''/s'', ''hdd_path'' \<mapsto> ''/h'']\<rparr>"

definition main_idle :: "(string \<Rightarrow> byte list option) mog_state" where
  "main_idle = demo_idle\<lparr>st_fs := \<lparr>files = [''/a'' \<mapsto> [1, 2, 3], ''mog.yaml'' \<mapsto> []], dirs = {''''}\<rparr>\<rparr>"

definition main_bufs :: "byte list list" where
  "main_bufs = replicate 10 (replicate (64 * 1024 * 1024) 0)"

definition main_files :: "string \<Rightarrow> byte list option" where
  "main_files = [''/a'' \<mapsto> [1, 2, 3]]"

definition main_start :: "(string \<Rightarrow> byte list option) server" where
  "main_start = server_main main_env main_idle main_bufs"

lemma main_environment: "environment main_env"
  using demo_environment unfolding main_env_def environment_def boost_filesystem_def leveldb_def by simp

lemma main_keys_apart: "keys_apart main_env demo_paths"
  using demo_keys_apart by (simp add: keys_apart_def path_key_def main_env_def)

lemma main_paths: "''/a'' \<in> demo_paths" "p \<in> demo_paths \<Longrightarrow> p = ''/a'' \<or> p = ''/b''"
  by (auto simp: demo_paths_def)

lemma main_bufs_room: "\<forall>b \<in> set main_bufs. 64 * 1024 * 1024 \<le> length b" "length main_bufs = 10"
  by (simp_all only: main_bufs_def set_replicate_conv_if length_replicate) auto

lemma main_start_fs:
  "files (st_fs (sv_mog main_start)) = [''/a'' \<mapsto> [1, 2, 3], ''mog.yaml'' \<mapsto> []]"
  by (rule ext) (simp add: main_start_def server_main_def main_env_def demo_env_def ref_env_def main_idle_def
      below_def prefix_def suffix_def)

definition main_object :: mog where
  "main_object =
     \<lparr>mog_ready = False, mog_total_size = 0, mog_config_file = ''mog.yaml'', mog_db_name = ''NULL'',
      mog_page_size = 1048576, mog_cpu_page_num = 1024, mog_HDD_page_num = 1024, mog_SSD_page_num = 1024,
      mog_page_per_block = 64, mog_buffer_page_num = 1024, mog_ssd_path = ''/s'', mog_hdd_path = ''/h''\<rparr>"

lemma main_new:
  assumes "files f ''mog.yaml'' \<noteq> None"
  shows "mog_new main_env ''mog.yaml'' f = Inr main_object"
  using assms
  by (simp add: mog_new_def mog_setup_def mog_initial_para_def yaml_int_def main_env_def demo_env_def ref_env_def
      main_object_def)

lemma main_configured: "configured demo_paths main_object"
  by (simp add: configured_def params_ok_def layout_ok_def main_object_def demo_paths_def below_def suffix_def
      prefix_def)

lemma main_idle_ok: "mog_idle main_idle" "pools_empty main_idle"
  using demo_mog_idle
  by (simp_all add: pools_empty_def main_idle_def demo_idle_def mog_idle_def WriteBuffer_new_def SSDCache_new_def)

lemma main_start_ok: "sv_ok main_env demo_paths main_files main_start"
  unfolding main_start_def
proof (rule server_main_ok)
  show "mog_idle main_idle" "pools_empty main_idle" by (fact main_idle_ok)+
  show "\<forall>m. mog_new main_env ''mog.yaml'' (st_fs (sv_mog (server_main main_env main_idle main_bufs))) = Inr m \<longrightarrow>
      configured demo_paths m"
    using main_start_fs main_new main_configured by (simp add: main_start_def)
  show "\<forall>b \<in> set main_bufs. 64 * 1024 * 1024 \<le> length b" by (rule main_bufs_room)
  show "\<forall>p \<in> demo_paths. files (st_fs (sv_mog (server_main main_env main_idle main_bufs))) p = main_files p"
    using main_start_fs by (auto simp: main_start_def demo_paths_def main_files_def)
qed

lemma create_stepI:
  assumes "CreateMogEntry E pc sv = Inr (Some pc', sv')" "sv_creators sv = [pc]" "sv_creators sv' = [pc]"
  shows "server_step E sv (Created pc) (sv'\<lparr>sv_creators := [pc']\<rparr>)"
  using server_step.Create [of 0 sv E "sv'\<lparr>sv_creators := [pc']\<rparr>"] assms by (simp add: create_step_def)

definition main_history :: "server_event list" where
  "main_history = map Created [Set_reset, Close_old, New_object, Not_ready, Open_db, Clear_reset, Set_ready]"

text \<open>The first \<open>CreateMogEntry\<close> can run up to its unlock.\<close>

lemma main_opened:
  "\<exists>sv. server_run main_env main_start main_history sv \<and> sv_creators sv = [Unlock]
     \<and> length (sv_workers sv) = 10 \<and> (\<forall>w < 10. wk_pc (sv_workers sv ! w) = Receiving)
     \<and> wb_latest_block_id (st_wb (sv_mog sv)) = 0
     \<and> \<not> WriteBuffer_write_waits (st_ssd (sv_mog sv)) (st_wb (sv_mog sv))"
proof -
  let ?E = main_env
  define s0 where "s0 = main_start"
  define s1 where "s1 = s0\<lparr>sv_reset_flag := True, sv_creators := [Close_old]\<rparr>"
  define s2 where "s2 = s1\<lparr>sv_creators := [New_object]\<rparr>"
  define s3 where "s3 = s2\<lparr>sv_first := False, sv_DB := True,
      sv_mog := (sv_mog s2)\<lparr>st_mog := main_object\<rparr>, sv_creators := [Not_ready]\<rparr>"
  define s4 where "s4 = (set_ready False s3)\<lparr>sv_creators := [Open_db]\<rparr>"
  have f0: "sv_creators s0 = [Set_reset]" "sv_first s0" "\<not> sv_DB s0"
    "sv_workers s0 = map (\<lambda>b. \<lparr>wk_pc = Receiving, wk_data = b\<rparr>) main_bufs"
    "sv_mog s0 = sv_mog main_start"
    by (simp_all add: s0_def main_start_def server_main_def)
  have new: "mog_new ?E ''mog.yaml'' (st_fs (sv_mog s0)) = Inr main_object"
    by (rule main_new) (simp add: f0(5) main_start_fs)
  have st1: "server_step ?E s0 (Created Set_reset) s1"
    using create_stepI [of ?E Set_reset s0 Close_old] f0 by (simp add: s1_def)
  have st2: "server_step ?E s1 (Created Close_old) s2"
    using create_stepI [of ?E Close_old s1 New_object] f0 by (simp add: s1_def s2_def)
  have st3: "server_step ?E s2 (Created New_object) s3"
    using create_stepI [of ?E New_object s2 Not_ready] f0 new by (simp add: s1_def s2_def s3_def)
  have st4: "server_step ?E s3 (Created Not_ready) s4"
    using create_stepI [of ?E Not_ready s3 Open_db] by (simp add: s3_def s4_def)
  have idle: "mog_idle (sv_mog s4)"
    using demo_mog_idle f0
    by (simp add: s4_def s3_def s2_def s1_def mog_idle_def main_start_def server_main_def main_idle_def)
  have par: "params_ok (st_mog (sv_mog s4))" by (simp add: s4_def s3_def params_ok_def main_object_def)
  moreover have "\<forall>name f. \<exists>db f'. leveldb_open ?E True name f = (None, db, f')"
    "\<forall>db k v. \<exists>db'. leveldb_put ?E db k v = (None, db')" by (simp_all add: main_env_def)
  ultimately obtain m where m: "mog_open ?E ''SensetimeMog'' (sv_mog s4) = Inr (0, m)"
    using open_succeeds idle by blast
  have "layout_ok ((st_mog (sv_mog s4))\<lparr>mog_db_name := ''SensetimeMog''\<rparr>) demo_paths" "roomy (st_mog (sv_mog s4))"
    using main_configured by (simp_all add: s4_def s3_def configured_def layout_ok_def roomy_def main_object_def)
  then have room: "wb_latest_block_id (st_wb m) = 0" "\<not> WriteBuffer_write_waits (st_ssd m) (st_wb m)"
    using environment.open_ok [OF main_environment idle par _ main_keys_apart m] by simp_all
  define s5 where "s5 = s4\<lparr>sv_mog := m, sv_creators := [Clear_reset]\<rparr>"
  define s6 where "s6 = s5\<lparr>sv_reset_flag := False, sv_creators := [Set_ready]\<rparr>"
  define s7 where "s7 = (set_ready True s6)\<lparr>sv_creators := [Unlock]\<rparr>"
  have st5: "server_step ?E s4 (Created Open_db) s5"
    using create_stepI [of ?E Open_db s4 Clear_reset] m by (simp add: s3_def s4_def s5_def)
  have st6: "server_step ?E s5 (Created Clear_reset) s6"
    using create_stepI [of ?E Clear_reset s5 Set_ready] by (simp add: s5_def s6_def)
  have st7: "server_step ?E s6 (Created Set_ready) s7"
    using create_stepI [of ?E Set_ready s6 Unlock] by (simp add: s3_def s4_def s5_def s6_def s7_def)
  have run: "server_run ?E s0 main_history s7"
    unfolding main_history_def list.map
    by (intro server_run.Cons [OF st1] server_run.Cons [OF st2] server_run.Cons [OF st3] server_run.Cons [OF st4]
        server_run.Cons [OF st5] server_run.Cons [OF st6] server_run.Cons [OF st7] server_run.Nil)
  have "sv_workers s7 = map (\<lambda>b. \<lparr>wk_pc = Receiving, wk_data = b\<rparr>) main_bufs"
    using f0 by (simp add: s1_def s2_def s3_def s4_def s5_def s6_def s7_def)
  moreover have "sv_mog s7 = m\<lparr>st_mog := (st_mog m)\<lparr>mog_ready := True\<rparr>\<rparr>"
    by (simp add: s5_def s6_def s7_def)
  ultimately show ?thesis using run room main_bufs_room(2) by (intro exI [of _ s7]) (simp add: s0_def s7_def)
qed

lemma history_known: "\<forall>e \<in> set main_history. request_known P e"
  by (auto simp: main_history_def request_known_def)


subsection \<open>Properties\<close>


lemma c_string_demo: "c_string (''/a'' @ [char_of (0 :: nat)]) = Inr ''/a''"
  by code_simp

lemma run_append: "server_run E s es s' \<Longrightarrow> server_run E s' es' s'' \<Longrightarrow> server_run E s (es @ es') s''"
  by (induction rule: server_run.induct) (auto intro: server_run.Cons)


text \<open>C14: one_reset_at_a_time. In every reachable state at most one \<open>CreateMogEntry\<close> runs, the mutex is locked
  exactly while one runs, and whenever none runs the server is in its invariant and no
  reset is announced.\<close>

theorem one_reset_at_a_time:
  assumes "environment E" "keys_apart E P" "mog_idle st" "pools_empty st"
    and "\<forall>m. mog_new E ''mog.yaml'' (st_fs (sv_mog (server_main E st bufs))) = Inr m \<longrightarrow> configured P m"
    and "\<forall>b \<in> set bufs. 64 * 1024 * 1024 \<le> length b"
    and "server_run E (server_main E st bufs) es sv" "\<forall>e \<in> set es. request_known P e"
  shows "length (sv_creators sv) \<le> 1 \<and> sv_locked sv = (sv_creators sv \<noteq> [])
    \<and> (sv_creators sv = [] \<longrightarrow> sv_DB sv \<and> \<not> sv_reset_flag sv \<and> mog_ok E P (sv_mog sv))"
proof -
  let ?sv = "server_main E st bufs"
  have "sv_ok E P (files (st_fs (sv_mog ?sv))) ?sv" by (rule server_main_ok [OF assms(3-6)]) simp
  then have ok: "sv_ok E P (files (st_fs (sv_mog ?sv))) sv"
    using environment.server_run_ok [OF assms(1,7) _ assms(2,8)] by blast
  note D = sv_okD [OF ok]
  have "length (sv_creators sv) \<le> 1"
    using D(1) by (cases "(E, P, sv_creators sv, sv)" rule: create_ok.cases) auto
  then show ?thesis using D(1,3) by auto
qed

theorem one_reset_at_a_time_witness:
  "\<exists>sv. server_run main_env main_start main_history sv \<and> sv_locked sv \<and> sv_creators sv = [Unlock]"
proof -
  obtain sv where sv: "server_run main_env main_start main_history sv" "sv_creators sv = [Unlock]"
    using main_opened by blast
  have conf: "\<forall>m. mog_new main_env ''mog.yaml'' (st_fs (sv_mog (server_main main_env main_idle main_bufs))) = Inr m \<longrightarrow>
      configured demo_paths m"
    using main_start_fs main_new main_configured by (simp add: main_start_def)
  show ?thesis
    using one_reset_at_a_time [OF main_environment main_keys_apart main_idle_ok conf main_bufs_room(1) _ history_known]
      sv by (auto simp: main_start_def)
qed

lemma not_ready_step:
  assumes "server_step E sv e sv'" "sv_creators sv = []" "\<not> mog_ready (st_mog (sv_mog sv))"
    and "\<forall>w request. e = Received w request \<longrightarrow> hd request \<noteq> CHR ''!''"
  shows "sv_creators sv' = [] \<and> \<not> mog_ready (st_mog (sv_mog sv'))"
  using assms(1)
proof cases
  case (Serve w path reply)
  have same: "mog_read_file E p buf st = Inr (n, buf', st') \<Longrightarrow> \<not> mog_ready (st_mog st) \<Longrightarrow> st' = st" for p buf st n buf' st'
    by (auto simp: mog_read_file_def Let_def and_then_Inr split: option.splits if_splits)
  show ?thesis
    using Serve(3) assms(2,3)
    by (auto dest: same simp: worker_serve_def Let_def and_then_Inr check_Inr split: worker_pc.splits bool.splits)
next
  case (Receive w request reply)
  then show ?thesis
    using assms(2-4) by (auto simp: worker_recv_def and_then_Inr split: list.splits if_splits)
qed (use assms in \<open>auto dest: task_params\<close>)

text \<open>A clean command received after \<open>DB->ready = true\<close> and before
  \<open>mtx.unlock()\<close> clears \<open>ready\<close> but cannot start a reset; when the lock is released nothing sets
  \<open>ready\<close> again: until the next clean command every request bypasses the caches.\<close>

theorem late_clean_disables_caches:
  assumes "sv_creators sv = [Unlock]" "sv_locked sv" "sv_DB sv"
    and "w < length (sv_workers sv)" "wk_pc (sv_workers sv ! w) = Receiving"
  shows "\<exists>sv'. server_run E sv [Received w ''!'', Created Unlock] sv' \<and> \<not> sv_locked sv' \<and> sv_creators sv' = []
     \<and> (\<forall>es sv''. server_run E sv' es sv'' \<and> (\<forall>v request. Received v request \<in> set es \<longrightarrow> hd request \<noteq> CHR ''!'') \<longrightarrow>
           sv_creators sv'' = [] \<and> \<not> mog_ready (st_mog (sv_mog sv'')))"
proof -
  define s1 where "s1 = set_ready False sv"
  define s2 where "s2 = s1\<lparr>sv_locked := False, sv_creators := []\<rparr>"
  have rc: "server_step E sv (Received w ''!'') s1"
    using assms by (intro server_step.Receive) (auto simp: worker_recv_def s1_def)
  have cr: "create_step E 0 s1 = Inr s2"
    using assms(1) by (simp add: create_step_def s1_def s2_def remove_nth_def)
  have un: "server_step E s1 (Created Unlock) s2"
    using server_step.Create [OF _ cr] assms(1) by (simp add: s1_def)
  have stay: "sv_creators sv'' = [] \<and> \<not> mog_ready (st_mog (sv_mog sv''))"
    if "server_run E sv' es sv''" "\<forall>v request. Received v request \<in> set es \<longrightarrow> hd request \<noteq> CHR ''!''"
      "sv_creators sv' = []" "\<not> mog_ready (st_mog (sv_mog sv'))" for sv' es sv''
    using that
  proof (induction rule: server_run.induct)
    case (Cons sv e sv' es sv'')
    then show ?case using not_ready_step [OF Cons.hyps(1)] by auto
  qed simp
  have "server_run E sv [Received w ''!'', Created Unlock] s2"
    by (intro server_run.Cons [OF rc] server_run.Cons [OF un] server_run.Nil)
  then show ?thesis using stay [of s2] by (intro exI [of _ s2]) (auto simp: s2_def s1_def)
qed

theorem late_clean_disables_caches_witness:
  "\<exists>es sv. server_run main_env main_start es sv \<and> sv_creators sv = [] \<and> \<not> mog_ready (st_mog (sv_mog sv))"
proof -
  obtain sv where sv: "server_run main_env main_start main_history sv" "sv_creators sv = [Unlock]"
    "length (sv_workers sv) = 10" "\<forall>w < 10. wk_pc (sv_workers sv ! w) = Receiving" using main_opened by blast
  have ok: "sv_ok main_env demo_paths main_files sv"
    using environment.server_run_ok [OF main_environment sv(1) main_start_ok main_keys_apart history_known] by blast
  have "sv_locked sv" "sv_DB sv" using sv_okD(1,3) [OF ok] sv(2) by simp_all
  with late_clean_disables_caches [of sv 0 main_env] sv obtain sv' where
    "server_run main_env sv [Received 0 ''!'', Created Unlock] sv'"
    "sv_creators sv' = [] \<and> \<not> mog_ready (st_mog (sv_mog sv'))"
    by (metis empty_iff list.set(1) server_run.Nil zero_less_numeral)
  then show ?thesis using run_append [OF sv(1)] by blast
qed

text \<open>A worker that serves a file during a reset replies with its content, and ends in
  undefined behaviour when the file cannot be opened; outside a reset a missing file is
  answered with an empty reply.\<close>

theorem reset_missing_file:
  "worker_pass p f =
     (if files f p = None \<and> p \<notin> dirs f then Inl (Undefined ''a reply of size_t(-1) bytes'')
      else Inr (served f p))"
  by (auto simp: worker_pass_def ifstream_open_def served_def split: option.splits)

end
