(* ===== verification/Pool_Scheduling.thy ===== *)
theory Pool_Scheduling
  imports Mog_Prelude "HOL-Library.Multiset"
begin

section \<open>Tasks and scheduling policies of the thread pool\<close>

text \<open>
  The task containers of \<open>threadpool/boost/threadpool/scheduling_policies.hpp\<close> and the
  task adaptors of \<open>task_adaptors.hpp\<close>. A \<open>task_func\<close> is a \<open>boost::function0\<close>,
  which may be empty: a value of an option type. What the pool relies on is the locale
  \<open>scheduler\<close>; the three policies of the library interpret it. A \<open>std::deque\<close> is a
  list with its front first; the order \<open>std::priority_queue\<close> gives to elements of equal
  priority is not specified by the standard, the model takes the oldest.
\<close>

record ('e, 'f, 's) scheduling =
  sched_push :: "'e \<Rightarrow> 's \<Rightarrow> 's \<times> bool"
  sched_pop :: "'s \<Rightarrow> 's"
  sched_top :: "'s \<Rightarrow> 'e"
  sched_size :: "'s \<Rightarrow> nat"
  sched_empty :: "'s \<Rightarrow> bool"
  sched_clear :: "'s \<Rightarrow> 's"
  sched_call :: "'e \<Rightarrow> 'f option"


subsection \<open>What the pool relies on\<close>

locale scheduler =
  fixes S :: "('e, 'f, 's) scheduling"
    and bag :: "'s \<Rightarrow> 'e multiset"
  assumes push_bag: "sched_push S t s = (s', ok) \<Longrightarrow> bag s' = (if ok then add_mset t (bag s) else bag s)"
    and empty_bag: "sched_empty S s \<longleftrightarrow> bag s = {#}"
    and size_bag: "sched_size S s = size (bag s)"
    and clear_bag: "bag (sched_clear S s) = {#}"
    and top_in_bag: "bag s \<noteq> {#} \<Longrightarrow> sched_top S s \<in># bag s"
    and pop_bag: "bag s \<noteq> {#} \<Longrightarrow> bag (sched_pop S s) = bag s - {#sched_top S s#}"
begin

lemma take_bag: "\<not> sched_empty S s \<Longrightarrow> add_mset (sched_top S s) (bag (sched_pop S s)) = bag s"
  using pop_bag [of s] top_in_bag [of s] by (simp add: empty_bag)

lemma size_zero: "sched_size S s = 0 \<longleftrightarrow> sched_empty S s"
  by (simp add: size_bag empty_bag)

lemma size_take: "\<not> sched_empty S s \<Longrightarrow> Suc (sched_size S (sched_pop S s)) = sched_size S s"
  using take_bag [of s] by (metis size_bag size_add_mset)

lemma size_push: "sched_push S t s = (s', ok) \<Longrightarrow> sched_size S s' = (if ok then Suc (sched_size S s) else sched_size S s)"
  using push_bag [of t s s' ok] by (simp add: size_bag)

lemma empty_clear: "sched_empty S (sched_clear S s)"
  by (simp add: empty_bag clear_bag)

end

text \<open>A policy that refuses no task, as all three policies of the library.\<close>

locale accepting_scheduler = scheduler +
  assumes push_accepts: "snd (sched_push S t s)"
begin

lemma push_adds: "bag (fst (sched_push S t s)) = add_mset t (bag s)"
  using push_bag [of t s "fst (sched_push S t s)" True] push_accepts [of t s]
  by (cases "sched_push S t s") auto

lemma push_grows: "sched_size S (fst (sched_push S t s)) = Suc (sched_size S s)"
  by (simp add: size_bag push_adds)

end

text \<open>A policy that hands the tasks out in the order they came in.\<close>

locale fifo_policy = accepting_scheduler S "\<lambda>s. mset (elems s)"
  for S :: "('e, 'f, 's) scheduling" and elems :: "'s \<Rightarrow> 'e list" +
  assumes push_elems: "sched_push S t s = (s', ok) \<Longrightarrow> elems s' = (if ok then elems s @ [t] else elems s)"
    and take_elems: "\<not> sched_empty S s \<Longrightarrow> elems s = sched_top S s # elems (sched_pop S s)"


subsection \<open>First in, first out\<close>

definition fifo_push :: "'e \<Rightarrow> 'e list \<Rightarrow> 'e list \<times> bool" where
  "fifo_push t s = (s @ [t], True)"

definition fifo_pop :: "'e list \<Rightarrow> 'e list" where
  "fifo_pop s = tl s"

definition fifo_top :: "'e list \<Rightarrow> 'e" where
  "fifo_top s = hd s"

definition fifo_size :: "'e list \<Rightarrow> nat" where
  "fifo_size s = length s"

definition fifo_empty :: "'e list \<Rightarrow> bool" where
  "fifo_empty s = (s = [])"

definition fifo_clear :: "'e list \<Rightarrow> 'e list" where
  "fifo_clear s = []"

definition fifo_scheduler :: "('f option, 'f, 'f option list) scheduling" where
  "fifo_scheduler = \<lparr>sched_push = fifo_push, sched_pop = fifo_pop, sched_top = fifo_top,
     sched_size = fifo_size, sched_empty = fifo_empty, sched_clear = fifo_clear, sched_call = (\<lambda>t. t)\<rparr>"

lemma fifo_scheduler_simps [simp]:
  "sched_push fifo_scheduler t s = (s @ [t], True)"
  "sched_pop fifo_scheduler s = tl s"
  "sched_top fifo_scheduler s = hd s"
  "sched_size fifo_scheduler s = length s"
  "sched_empty fifo_scheduler s = (s = [])"
  "sched_clear fifo_scheduler s = []"
  "sched_call fifo_scheduler t = t"
  by (simp_all add: fifo_scheduler_def fifo_push_def fifo_pop_def fifo_top_def fifo_size_def
      fifo_empty_def fifo_clear_def)

interpretation fifo: fifo_policy fifo_scheduler "\<lambda>s. s"
proof unfold_locales
  fix s :: "'a option list"
  assume "mset s \<noteq> {#}"
  then obtain x xs where "s = x # xs" by (cases s) auto
  then show "sched_top fifo_scheduler s \<in># mset s"
    and "mset (sched_pop fifo_scheduler s) = mset s - {#sched_top fifo_scheduler s#}"
    by simp_all
next
  fix s :: "'a option list"
  assume "\<not> sched_empty fifo_scheduler s"
  then show "s = sched_top fifo_scheduler s # sched_pop fifo_scheduler s" by simp
qed auto


subsection \<open>Last in, first out\<close>

definition lifo_push :: "'e \<Rightarrow> 'e list \<Rightarrow> 'e list \<times> bool" where
  "lifo_push t s = (t # s, True)"

definition lifo_pop :: "'e list \<Rightarrow> 'e list" where
  "lifo_pop s = tl s"

definition lifo_top :: "'e list \<Rightarrow> 'e" where
  "lifo_top s = hd s"

definition lifo_size :: "'e list \<Rightarrow> nat" where
  "lifo_size s = length s"

definition lifo_empty :: "'e list \<Rightarrow> bool" where
  "lifo_empty s = (s = [])"

definition lifo_clear :: "'e list \<Rightarrow> 'e list" where
  "lifo_clear s = []"

definition lifo_scheduler :: "('f option, 'f, 'f option list) scheduling" where
  "lifo_scheduler = \<lparr>sched_push = lifo_push, sched_pop = lifo_pop, sched_top = lifo_top,
     sched_size = lifo_size, sched_empty = lifo_empty, sched_clear = lifo_clear, sched_call = (\<lambda>t. t)\<rparr>"

lemma lifo_scheduler_simps [simp]:
  "sched_push lifo_scheduler t s = (t # s, True)"
  "sched_pop lifo_scheduler s = tl s"
  "sched_top lifo_scheduler s = hd s"
  "sched_size lifo_scheduler s = length s"
  "sched_empty lifo_scheduler s = (s = [])"
  "sched_clear lifo_scheduler s = []"
  "sched_call lifo_scheduler t = t"
  by (simp_all add: lifo_scheduler_def lifo_push_def lifo_pop_def lifo_top_def lifo_size_def
      lifo_empty_def lifo_clear_def)

interpretation lifo: accepting_scheduler lifo_scheduler mset
proof unfold_locales
  fix s :: "'a option list"
  assume "mset s \<noteq> {#}"
  then obtain x xs where "s = x # xs" by (cases s) auto
  then show "sched_top lifo_scheduler s \<in># mset s"
    and "mset (sched_pop lifo_scheduler s) = mset s - {#sched_top lifo_scheduler s#}"
    by simp_all
qed auto


subsection \<open>Priorities\<close>

record 'f prio_task_func =
  m_priority :: "32 word"
  m_function :: "'f option"

definition prio_less :: "'f prio_task_func \<Rightarrow> 'f prio_task_func \<Rightarrow> bool" where
  "prio_less a b = (m_priority a < m_priority b)"

fun prio_insert :: "'f prio_task_func \<Rightarrow> 'f prio_task_func list \<Rightarrow> 'f prio_task_func list" where
  "prio_insert t [] = [t]"
| "prio_insert t (x # xs) = (if prio_less x t then t # x # xs else x # prio_insert t xs)"

definition prio_push :: "'f prio_task_func \<Rightarrow> 'f prio_task_func list \<Rightarrow> 'f prio_task_func list \<times> bool" where
  "prio_push t s = (prio_insert t s, True)"

definition prio_pop :: "'f prio_task_func list \<Rightarrow> 'f prio_task_func list" where
  "prio_pop s = tl s"

definition prio_top :: "'f prio_task_func list \<Rightarrow> 'f prio_task_func" where
  "prio_top s = hd s"

definition prio_size :: "'f prio_task_func list \<Rightarrow> nat" where
  "prio_size s = length s"

definition prio_empty :: "'f prio_task_func list \<Rightarrow> bool" where
  "prio_empty s = (s = [])"

function prio_clear :: "'f prio_task_func list \<Rightarrow> 'f prio_task_func list" where
  "prio_clear s = (if prio_empty s then s else prio_clear (prio_pop s))"
  by pat_completeness auto
termination
  by (relation "measure length") (auto simp: prio_empty_def prio_pop_def neq_Nil_conv)

declare prio_clear.simps [simp del]

definition prio_scheduler :: "('f prio_task_func, 'f, 'f prio_task_func list) scheduling" where
  "prio_scheduler = \<lparr>sched_push = prio_push, sched_pop = prio_pop, sched_top = prio_top,
     sched_size = prio_size, sched_empty = prio_empty, sched_clear = prio_clear, sched_call = m_function\<rparr>"

lemma prio_clear [simp]: "prio_clear s = []"
  by (induction s rule: prio_clear.induct)
    (subst prio_clear.simps, simp add: prio_empty_def)

lemma mset_prio_insert [simp]: "mset (prio_insert t s) = add_mset t (mset s)"
  by (induction s) auto

lemma prio_scheduler_simps [simp]:
  "sched_push prio_scheduler t s = (prio_insert t s, True)"
  "sched_pop prio_scheduler s = tl s"
  "sched_top prio_scheduler s = hd s"
  "sched_size prio_scheduler s = length s"
  "sched_empty prio_scheduler s = (s = [])"
  "sched_clear prio_scheduler s = []"
  "sched_call prio_scheduler t = m_function t"
  by (simp_all add: prio_scheduler_def prio_push_def prio_pop_def prio_top_def prio_size_def prio_empty_def)

interpretation prio: accepting_scheduler prio_scheduler mset
proof unfold_locales
  fix s :: "'a prio_task_func list"
  assume "mset s \<noteq> {#}"
  then obtain x xs where "s = x # xs" by (cases s) auto
  then show "sched_top prio_scheduler s \<in># mset s"
    and "mset (sched_pop prio_scheduler s) = mset s - {#sched_top prio_scheduler s#}"
    by simp_all
qed auto

definition prio_sorted :: "'f prio_task_func list \<Rightarrow> bool" where
  "prio_sorted s = sorted_wrt (\<lambda>a b. m_priority b \<le> m_priority a) s"

lemma prio_insert_sorted: "prio_sorted s \<Longrightarrow> prio_sorted (prio_insert t s)"
proof (induction s)
  case (Cons x xs)
  have "set (prio_insert t xs) = insert t (set xs)"
    by (metis mset_prio_insert set_mset_add_mset_insert set_mset_mset)
  with Cons show ?case by (auto simp: prio_sorted_def prio_less_def)
qed (simp add: prio_sorted_def)

lemma prio_top_greatest: "prio_sorted s \<Longrightarrow> x \<in> set s \<Longrightarrow> m_priority x \<le> m_priority (prio_top s)"
  by (cases s) (auto simp: prio_sorted_def prio_top_def)


subsection \<open>Looped tasks\<close>

text \<open>
  \<open>looped_task_func\<close>: the interval in milliseconds is split into seconds and nanoseconds
  in unsigned 32-bit arithmetic. The task is a function of a state of its own; the breaks it
  takes between its calls are recorded. A loop whose function never returns false does not
  return, so the loop is a partial function.
\<close>

record looped_task_func =
  m_break_s :: "32 word"
  m_break_ns :: "32 word"

definition looped_task_func_new :: "32 word \<Rightarrow> looped_task_func" where
  "looped_task_func_new interval =
     (let s = interval div 1000
      in \<lparr>m_break_s = s, m_break_ns = (interval - s * 1000) * 1000 * 1000\<rparr>)"

datatype task_break = Sleep_for "32 word" "32 word" | Yield

definition looped_sleeps :: "looped_task_func \<Rightarrow> bool" where
  "looped_sleeps l = (m_break_s l > 0 \<or> m_break_ns l > 0)"

partial_function (option) looped_loop ::
    "looped_task_func \<Rightarrow> ('a \<Rightarrow> bool \<times> 'a) \<Rightarrow> 'a \<Rightarrow> task_break list \<Rightarrow> ('a \<times> task_break list) option" where
  "looped_loop l f a bs =
     (case f a of (again, a') \<Rightarrow>
        if again then
          looped_loop l f a' (bs @ [if looped_sleeps l then Sleep_for (m_break_s l) (m_break_ns l) else Yield])
        else Some (a', bs))"

definition looped_call ::
    "looped_task_func \<Rightarrow> ('a \<Rightarrow> bool \<times> 'a) option \<Rightarrow> 'a \<Rightarrow> ('a \<times> task_break list) option" where
  "looped_call l fo a =
     (case fo of None \<Rightarrow> Some (a, [])
      | Some f \<Rightarrow> looped_loop l f a (if looped_sleeps l then [Sleep_for (m_break_s l) (m_break_ns l)] else []))"

lemma unat_interval: "unat (interval - (interval div 1000) * 1000 :: 32 word) = unat interval mod 1000"
proof -
  have "interval - (interval div 1000) * 1000 = interval mod 1000"
    by (simp add: minus_div_mult_eq_mod)
  then show ?thesis by (simp add: unat_mod)
qed

lemma unat_break_ns: "unat (r * 1000 * 1000 :: 32 word) = unat r * 1000000" if "unat r < 1000"
proof -
  have "unat (r * 1000) = unat r * 1000"
    using that by (simp add: unat_word_ariths)
  then have "unat (r * 1000 * 1000) = unat r * 1000 * 1000"
    using that unat_mult_lem [of "r * 1000" 1000] by (simp add: mult.assoc)
  then show ?thesis by simp
qed

lemma looped_break:
  "unat (m_break_s (looped_task_func_new interval)) = unat interval div 1000"
  "unat (m_break_ns (looped_task_func_new interval)) = (unat interval mod 1000) * 1000000"
proof -
  have "unat (interval - (interval div 1000) * 1000) < 1000" by (simp only: unat_interval)
  from unat_break_ns [OF this]
  show "unat (m_break_ns (looped_task_func_new interval)) = (unat interval mod 1000) * 1000000"
    by (simp only: looped_task_func_new_def Let_def looped_task_func.simps unat_interval)
  show "unat (m_break_s (looped_task_func_new interval)) = unat interval div 1000"
    by (simp add: looped_task_func_new_def Let_def unat_div)
qed

end
