(* ===== verification/Thread_Pool.thy ===== *)
theory Thread_Pool
  imports Pool_Scheduling
begin

section \<open>The thread pool\<close>

text \<open>
  \<open>threadpool/boost/threadpool\<close>: \<open>detail/pool_core.hpp\<close>, \<open>detail/worker_thread.hpp\<close>,
  \<open>size_policies.hpp\<close>, \<open>shutdown_policies.hpp\<close>. Every member function locks the pool's
  monitor, so a critical section is one step; a wait on a condition ends one. A worker
  is where \<open>worker_thread::run\<close> stands: about to fetch, asleep on
  \<open>m_task_or_terminate_workers_event\<close> (or woken and about to take the lock again), in
  a task, leaving the loop (\<open>Quitting\<close>), unwound by an exception (\<open>Dying\<close>), or gone.
  \<open>notify_one\<close> wakes a sleeper the environment chooses, and a sleeper may also wake
  spuriously. The event clients wait on needs no state: \<open>wait\<close> is its loop condition.
  Worker threads are numbered in the order they are created; a failing creation
  (\<open>thread_resource_error\<close>) is a number of threads the system still grants.
  \<open>size_t\<close> counters are naturals: the invariant below shows that none is decremented at 0.
  \<open>m_started\<close> is the model's record of the tasks taken from the scheduler.
\<close>

datatype 'f worker_at = Fetching | Asleep | Woken | Running "'f option" | Quitting | Dying | Gone

record ('e, 'f, 's) pool_core =
  m_worker_count :: nat
  m_target_worker_count :: nat
  m_active_worker_count :: nat
  m_scheduler :: 's
  m_terminate_all_workers :: bool
  m_terminated_workers :: "nat list"
  worker_threads :: "'f worker_at list"
  m_started :: "'e list"

type_synonym ('e, 'f, 's) policy = "('e, 'f, 's) scheduling"

definition pool_core_new :: "('e, 'f, 's) policy \<Rightarrow> 's \<Rightarrow> ('e, 'f, 's) pool_core" where
  "pool_core_new S s0 = \<lparr>m_worker_count = 0, m_target_worker_count = 0, m_active_worker_count = 0,
     m_scheduler = sched_clear S s0, m_terminate_all_workers = False, m_terminated_workers = [],
     worker_threads = [], m_started = []\<rparr>"


subsection \<open>Queries and scheduling\<close>

definition pool_size :: "('e, 'f, 's) pool_core \<Rightarrow> nat" where
  "pool_size p = m_worker_count p"

definition pool_active :: "('e, 'f, 's) pool_core \<Rightarrow> nat" where
  "pool_active p = m_active_worker_count p"

definition pool_pending :: "('e, 'f, 's) policy \<Rightarrow> ('e, 'f, 's) pool_core \<Rightarrow> nat" where
  "pool_pending S p = sched_size S (m_scheduler p)"

definition pool_empty :: "('e, 'f, 's) policy \<Rightarrow> ('e, 'f, 's) pool_core \<Rightarrow> bool" where
  "pool_empty S p = sched_empty S (m_scheduler p)"

definition pool_clear :: "('e, 'f, 's) policy \<Rightarrow> ('e, 'f, 's) pool_core \<Rightarrow> ('e, 'f, 's) pool_core" where
  "pool_clear S p = p\<lparr>m_scheduler := sched_clear S (m_scheduler p)\<rparr>"

definition notify_all_workers :: "'f worker_at list \<Rightarrow> 'f worker_at list" where
  "notify_all_workers ws = map (\<lambda>w. if w = Asleep then Woken else w) ws"

definition notify_one_worker :: "nat \<Rightarrow> 'f worker_at list \<Rightarrow> 'f worker_at list" where
  "notify_one_worker k ws = (if k < length ws \<and> ws ! k = Asleep then ws[k := Woken] else ws)"

definition notify_may_pick :: "nat \<Rightarrow> 'f worker_at list \<Rightarrow> bool" where
  "notify_may_pick k ws = (Asleep \<in> set ws \<longrightarrow> k < length ws \<and> ws ! k = Asleep)"

definition pool_schedule ::
    "('e, 'f, 's) policy \<Rightarrow> nat \<Rightarrow> 'e \<Rightarrow> ('e, 'f, 's) pool_core \<Rightarrow> ('e, 'f, 's) pool_core \<times> bool" where
  "pool_schedule S k t p =
     (let (s, ok) = sched_push S t (m_scheduler p); p1 = p\<lparr>m_scheduler := s\<rparr>
      in if ok then (p1\<lparr>worker_threads := notify_one_worker k (worker_threads p)\<rparr>, True)
         else (p1, False))"


subsection \<open>Waiting for the tasks\<close>

definition pool_wait_returns :: "('e, 'f, 's) policy \<Rightarrow> nat \<Rightarrow> ('e, 'f, 's) pool_core \<Rightarrow> bool" where
  "pool_wait_returns S task_threshold p =
     (if task_threshold = 0 then \<not> (m_active_worker_count p \<noteq> 0 \<or> \<not> sched_empty S (m_scheduler p))
      else \<not> (task_threshold < m_active_worker_count p + sched_size S (m_scheduler p)))"

text \<open>
  The timed wait: the states in which the caller holds the monitor, the present one
  first, each further one after a wake-up before the deadline; when they end, the
  deadline is met.
\<close>

fun pool_timed_wait :: "('e, 'f, 's) policy \<Rightarrow> nat \<Rightarrow> ('e, 'f, 's) pool_core list \<Rightarrow> bool" where
  "pool_timed_wait S task_threshold [] = False"
| "pool_timed_wait S task_threshold (p # ps) =
     (if pool_wait_returns S task_threshold p then True else pool_timed_wait S task_threshold ps)"


subsection \<open>Resizing and shutting down\<close>

definition create_and_attach :: "('e, 'f, 's) pool_core \<Rightarrow> ('e, 'f, 's) pool_core" where
  "create_and_attach p = p\<lparr>worker_threads := worker_threads p @ [Fetching]\<rparr>"

fun pool_grow :: "nat \<Rightarrow> nat \<Rightarrow> ('e, 'f, 's) pool_core \<Rightarrow> ('e, 'f, 's) pool_core \<times> bool" where
  "pool_grow granted 0 p = (p, True)"
| "pool_grow 0 (Suc n) p = (p, False)"
| "pool_grow (Suc granted) (Suc n) p =
     pool_grow granted n ((create_and_attach p)
       \<lparr>m_worker_count := Suc (m_worker_count p), m_active_worker_count := Suc (m_active_worker_count p)\<rparr>)"

definition pool_resize :: "nat \<Rightarrow> nat \<Rightarrow> ('e, 'f, 's) pool_core \<Rightarrow> ('e, 'f, 's) pool_core \<times> bool" where
  "pool_resize granted worker_count p =
     (if m_terminate_all_workers p then (p, False)
      else let p1 = p\<lparr>m_target_worker_count := worker_count\<rparr>
           in if m_worker_count p1 \<le> m_target_worker_count p1
              then pool_grow granted (m_target_worker_count p1 - m_worker_count p1) p1
              else (p1\<lparr>worker_threads := notify_all_workers (worker_threads p1)\<rparr>, True))"

definition static_size_resize where
  "static_size_resize = (pool_resize :: nat \<Rightarrow> nat \<Rightarrow> ('e, 'f, 's) pool_core \<Rightarrow> _)"

definition static_size_init where
  "static_size_init granted worker_count p = fst (pool_resize granted worker_count p)"

definition static_size_died where
  "static_size_died granted new_worker_count p = fst (pool_resize granted (new_worker_count + 1) p)"

definition thread_pool_new ::
    "('e, 'f, 's) policy \<Rightarrow> 's \<Rightarrow> nat \<Rightarrow> nat \<Rightarrow> ('e, 'f, 's) pool_core" where
  "thread_pool_new S s0 granted initial_threads = static_size_init granted initial_threads (pool_core_new S s0)"

text \<open>
  \<open>terminate_all_workers\<close> in two halves: up to the first wait, and from the state in which
  the waiting loop is left. The workers joined are the result of the second half.
\<close>

definition terminate_begin :: "('e, 'f, 's) pool_core \<Rightarrow> ('e, 'f, 's) pool_core" where
  "terminate_begin p = p\<lparr>m_terminate_all_workers := True, m_target_worker_count := 0,
     worker_threads := notify_all_workers (worker_threads p)\<rparr>"

definition terminate_join :: "('e, 'f, 's) pool_core \<Rightarrow> (nat list \<times> ('e, 'f, 's) pool_core) option" where
  "terminate_join p =
     (if m_active_worker_count p > 0 then None
      else Some (m_terminated_workers p, p\<lparr>m_terminated_workers := []\<rparr>))"

definition terminate_all_workers ::
    "bool \<Rightarrow> ('e, 'f, 's) pool_core \<Rightarrow> (nat list \<times> ('e, 'f, 's) pool_core) option" where
  "terminate_all_workers wait p = (if wait then terminate_join (terminate_begin p) else Some ([], terminate_begin p))"

text \<open>The shutdown policies; \<open>None\<close> where a wait does not return in the present state.\<close>

definition shutdown_wait_for_all_tasks where
  "shutdown_wait_for_all_tasks S p =
     (if pool_wait_returns S 0 p then terminate_all_workers True p else None)"

definition shutdown_wait_for_active_tasks where
  "shutdown_wait_for_active_tasks S p =
     (let p1 = pool_clear S p in if pool_wait_returns S 0 p1 then terminate_all_workers True p1 else None)"

definition shutdown_immediately where
  "shutdown_immediately S p = terminate_all_workers False (pool_clear S p)"


subsection \<open>The workers\<close>

definition set_worker :: "nat \<Rightarrow> 'f worker_at \<Rightarrow> ('e, 'f, 's) pool_core \<Rightarrow> ('e, 'f, 's) pool_core" where
  "set_worker w a p = p\<lparr>worker_threads := (worker_threads p)[w := a]\<rparr>"

text \<open>
  \<open>execute_task\<close> with the monitor held: the tests of its fetch section, from the loop
  \<open>while(m_scheduler.empty())\<close> on in \<open>execute_task_loop\<close>.
\<close>

definition execute_task_loop ::
    "('e, 'f, 's) policy \<Rightarrow> nat \<Rightarrow> ('e, 'f, 's) pool_core \<Rightarrow> ('e, 'f, 's) pool_core" where
  "execute_task_loop S w p =
     (if sched_empty S (m_scheduler p) then
        if m_worker_count p > m_target_worker_count p then set_worker w Quitting p
        else set_worker w Asleep (p\<lparr>m_active_worker_count := m_active_worker_count p - 1\<rparr>)
      else let t = sched_top S (m_scheduler p)
           in set_worker w (Running (sched_call S t))
                (p\<lparr>m_scheduler := sched_pop S (m_scheduler p), m_started := m_started p @ [t]\<rparr>))"

definition execute_task_enter ::
    "('e, 'f, 's) policy \<Rightarrow> nat \<Rightarrow> ('e, 'f, 's) pool_core \<Rightarrow> ('e, 'f, 's) pool_core" where
  "execute_task_enter S w p =
     (if m_worker_count p > m_target_worker_count p then set_worker w Quitting p
      else execute_task_loop S w p)"

definition execute_task_wake ::
    "('e, 'f, 's) policy \<Rightarrow> nat \<Rightarrow> ('e, 'f, 's) pool_core \<Rightarrow> ('e, 'f, 's) pool_core" where
  "execute_task_wake S w p =
     execute_task_loop S w (p\<lparr>m_active_worker_count := m_active_worker_count p + 1\<rparr>)"

definition note_terminated :: "nat \<Rightarrow> ('e, 'f, 's) pool_core \<Rightarrow> ('e, 'f, 's) pool_core" where
  "note_terminated w p = p\<lparr>m_terminated_workers := m_terminated_workers p @ [w]\<rparr>"

definition worker_destructed :: "nat \<Rightarrow> ('e, 'f, 's) pool_core \<Rightarrow> ('e, 'f, 's) pool_core" where
  "worker_destructed w p =
     (let p1 = p\<lparr>m_worker_count := m_worker_count p - 1, m_active_worker_count := m_active_worker_count p - 1\<rparr>
      in if m_terminate_all_workers p1 then note_terminated w p1 else p1)"

definition worker_died_unexpectedly :: "nat \<Rightarrow> nat \<Rightarrow> ('e, 'f, 's) pool_core \<Rightarrow> ('e, 'f, 's) pool_core" where
  "worker_died_unexpectedly granted w p =
     (let p1 = p\<lparr>m_worker_count := m_worker_count p - 1, m_active_worker_count := m_active_worker_count p - 1\<rparr>
      in if m_terminate_all_workers p1 then note_terminated w p1
         else static_size_died granted (m_worker_count p1) p1)"


subsection \<open>Steps\<close>

datatype 'e pool_event =
  Schedule nat 'e | Resize nat nat | Clear_pending | Terminate
| Enter nat | Wake nat | Return nat | Throw nat | Destruct nat | Died nat nat

definition worker_is :: "nat \<Rightarrow> ('f worker_at \<Rightarrow> bool) \<Rightarrow> ('e, 'f, 's) pool_core \<Rightarrow> bool" where
  "worker_is w P p = (w < length (worker_threads p) \<and> P (worker_threads p ! w))"

fun running :: "'f worker_at \<Rightarrow> bool" where
  "running (Running _) = True"
| "running _ = False"

fun throwing :: "'f worker_at \<Rightarrow> bool" where
  "throwing (Running (Some _)) = True"
| "throwing _ = False"

definition "when b x = (if b then Some x else None)"

fun pool_step ::
    "('e, 'f, 's) policy \<Rightarrow> 'e pool_event \<Rightarrow> ('e, 'f, 's) pool_core \<Rightarrow> ('e, 'f, 's) pool_core option" where
  "pool_step S (Schedule k t) p = when (notify_may_pick k (worker_threads p)) (fst (pool_schedule S k t p))"
| "pool_step S (Resize granted n) p = Some (fst (pool_resize granted n p))"
| "pool_step S Clear_pending p = Some (pool_clear S p)"
| "pool_step S Terminate p = Some (terminate_begin p)"
| "pool_step S (Enter w) p = when (worker_is w ((=) Fetching) p) (execute_task_enter S w p)"
| "pool_step S (Wake w) p =
     when (worker_is w (\<lambda>a. a = Asleep \<or> a = Woken) p) (execute_task_wake S w p)"
| "pool_step S (Return w) p = when (worker_is w running p) (set_worker w Fetching p)"
| "pool_step S (Throw w) p = when (worker_is w throwing p) (set_worker w Dying p)"
| "pool_step S (Destruct w) p =
     when (worker_is w ((=) Quitting) p) (worker_destructed w (set_worker w Gone p))"
| "pool_step S (Died granted w) p =
     when (worker_is w ((=) Dying) p) (worker_died_unexpectedly granted w (set_worker w Gone p))"

fun pool_run ::
    "('e, 'f, 's) policy \<Rightarrow> 'e pool_event list \<Rightarrow> ('e, 'f, 's) pool_core \<Rightarrow> ('e, 'f, 's) pool_core option" where
  "pool_run S [] p = Some p"
| "pool_run S (ev # evs) p = (case pool_step S ev p of None \<Rightarrow> None | Some p' \<Rightarrow> pool_run S evs p')"

fun scheduled_tasks :: "'e pool_event list \<Rightarrow> 'e list" where
  "scheduled_tasks [] = []"
| "scheduled_tasks (Schedule k t # evs) = t # scheduled_tasks evs"
| "scheduled_tasks (_ # evs) = scheduled_tasks evs"

end
