(* ===== verification/Thread_Pool_Inv.thy ===== *)
theory Thread_Pool_Inv
  imports Thread_Pool
begin

section \<open>Invariants of the thread pool\<close>

text \<open>
  The counters count what their names say; tasks are neither lost nor run twice; no
  task stays pending while every worker sleeps. Each is one lemma per operation of a
  worker or a client, then an induction on the run.
\<close>

definition workers_that :: "('f worker_at \<Rightarrow> bool) \<Rightarrow> ('e, 'f, 's) pool_core \<Rightarrow> nat" where
  "workers_that P p = length (filter P (worker_threads p))"

fun live :: "'f worker_at \<Rightarrow> bool" where
  "live Gone = False"
| "live _ = True"

fun awake :: "'f worker_at \<Rightarrow> bool" where
  "awake Gone = False"
| "awake Asleep = False"
| "awake Woken = False"
| "awake _ = True"

fun about_to_fetch :: "'f worker_at \<Rightarrow> bool" where
  "about_to_fetch Fetching = True"
| "about_to_fetch Woken = True"
| "about_to_fetch _ = False"

definition counters_ok :: "('e, 'f, 's) pool_core \<Rightarrow> bool" where
  "counters_ok p \<longleftrightarrow> m_worker_count p = workers_that live p \<and> m_active_worker_count p = workers_that awake p"

lemma filter_update:
  assumes "w < length ws"
  shows "length (filter P (ws[w := a])) + (if P (ws ! w) then 1 else 0)
       = length (filter P ws) + (if P a then 1 else 0)"
  using assms
proof (induction ws arbitrary: w)
  case (Cons x xs)
  show ?case
  proof (cases w)
    case 0 then show ?thesis by simp
  next
    case (Suc v)
    then show ?thesis using Cons.IH [of v] Cons.prems by simp
  qed
qed simp

lemma set_worker_simps [simp]:
  "m_worker_count (set_worker w a p) = m_worker_count p"
  "m_target_worker_count (set_worker w a p) = m_target_worker_count p"
  "m_active_worker_count (set_worker w a p) = m_active_worker_count p"
  "m_scheduler (set_worker w a p) = m_scheduler p"
  "m_terminate_all_workers (set_worker w a p) = m_terminate_all_workers p"
  "m_terminated_workers (set_worker w a p) = m_terminated_workers p"
  "worker_threads (set_worker w a p) = (worker_threads p)[w := a]"
  "m_started (set_worker w a p) = m_started p"
  by (simp_all add: set_worker_def)

lemma workers_that_set:
  assumes "w < length (worker_threads p)"
  shows "workers_that P (set_worker w a p) + (if P (worker_threads p ! w) then 1 else 0)
       = workers_that P p + (if P a then 1 else 0)"
  using filter_update [OF assms, of P a] by (simp add: workers_that_def)

lemma positive_count: "w < length (worker_threads p) \<Longrightarrow> P (worker_threads p ! w) \<Longrightarrow> 0 < workers_that P p"
  by (force simp: workers_that_def filter_empty_conv)

lemma workers_that_set_eq:
  assumes "w < length (worker_threads p)"
  shows "workers_that P (set_worker w a p)
       = (if P (worker_threads p ! w) then workers_that P p - 1 else workers_that P p) + (if P a then 1 else 0)"
  using workers_that_set [OF assms, of P a] positive_count [of w p P, OF assms] by (auto split: if_splits)

lemma workers_that_cong [simp]:
  "workers_that P (p\<lparr>m_worker_count := c\<rparr>) = workers_that P p"
  "workers_that P (p\<lparr>m_active_worker_count := c\<rparr>) = workers_that P p"
  "workers_that P (p\<lparr>m_target_worker_count := c\<rparr>) = workers_that P p"
  "workers_that P (p\<lparr>m_scheduler := s\<rparr>) = workers_that P p"
  "workers_that P (p\<lparr>m_terminate_all_workers := b\<rparr>) = workers_that P p"
  "workers_that P (p\<lparr>m_terminated_workers := l\<rparr>) = workers_that P p"
  "workers_that P (p\<lparr>m_started := l'\<rparr>) = workers_that P p"
  by (simp_all add: workers_that_def)

lemma workers_that_create [simp]:
  "workers_that P (create_and_attach p) = workers_that P p + (if P Fetching then 1 else 0)"
  by (simp add: workers_that_def create_and_attach_def)

lemma create_and_attach_simps [simp]:
  "m_worker_count (create_and_attach p) = m_worker_count p"
  "m_target_worker_count (create_and_attach p) = m_target_worker_count p"
  "m_active_worker_count (create_and_attach p) = m_active_worker_count p"
  "m_scheduler (create_and_attach p) = m_scheduler p"
  "m_terminate_all_workers (create_and_attach p) = m_terminate_all_workers p"
  "m_started (create_and_attach p) = m_started p"
  "worker_threads (create_and_attach p) = worker_threads p @ [Fetching]"
  by (simp_all add: create_and_attach_def)

lemma notify_counts:
  assumes "P Asleep = P Woken"
  shows "length (filter P (notify_all_workers ws)) = length (filter P ws)"
    and "length (filter P (notify_one_worker k ws)) = length (filter P ws)"
proof -
  show "length (filter P (notify_all_workers ws)) = length (filter P ws)"
    using assms by (induction ws) (auto simp: notify_all_workers_def)
  show "length (filter P (notify_one_worker k ws)) = length (filter P ws)"
    using filter_update [of k ws P Woken] assms by (auto simp: notify_one_worker_def split: if_splits)
qed


subsection \<open>The counters\<close>

lemma counters_set:
  assumes "counters_ok p" "w < length (worker_threads p)" "worker_threads p ! w = a"
    and "live a = live b" "awake a = awake b"
  shows "counters_ok (set_worker w b p)"
  using assms workers_that_set [OF assms(2), of live b] workers_that_set [OF assms(2), of awake b]
  by (auto simp: counters_ok_def split: if_splits)

lemma counters_same:
  assumes "counters_ok p" "worker_threads q = worker_threads p"
    "m_worker_count q = m_worker_count p" "m_active_worker_count q = m_active_worker_count p"
  shows "counters_ok q"
  using assms by (simp add: counters_ok_def workers_that_def)

lemma counters_notify:
  assumes "counters_ok p" "m_worker_count q = m_worker_count p" "m_active_worker_count q = m_active_worker_count p"
    and "worker_threads q = notify_all_workers (worker_threads p) \<or> worker_threads q = notify_one_worker k (worker_threads p)"
  shows "counters_ok q"
  using assms notify_counts [where ws = "worker_threads p" and P = live] notify_counts [where ws = "worker_threads p" and P = awake]
  by (auto simp: counters_ok_def workers_that_def)

lemma counters_grow: "counters_ok p \<Longrightarrow> counters_ok (fst (pool_grow g n p))"
proof (induction g n p rule: pool_grow.induct)
  case (3 g n p)
  have "counters_ok ((create_and_attach p)
      \<lparr>m_worker_count := Suc (m_worker_count p), m_active_worker_count := Suc (m_active_worker_count p)\<rparr>)"
    using "3.prems" by (simp add: counters_ok_def)
  from "3.IH" [OF this] show ?case by simp
qed simp_all

lemma counters_resize: "counters_ok p \<Longrightarrow> counters_ok (fst (pool_resize g n p))"
  using counters_grow [of "p\<lparr>m_target_worker_count := n\<rparr>"]
    counters_notify [of p "p\<lparr>m_target_worker_count := n, worker_threads := notify_all_workers (worker_threads p)\<rparr>"]
  by (auto simp: pool_resize_def Let_def counters_ok_def)

lemma counters_loop:
  assumes "counters_ok p" "w < length (worker_threads p)" "awake (worker_threads p ! w)"
  shows "counters_ok (execute_task_loop S w p)"
proof -
  have L: "live (worker_threads p ! w)" using assms(3) by (cases "worker_threads p ! w") auto
  have "0 < workers_that live p" "0 < workers_that awake p"
    using positive_count [of w p live] positive_count [of w p awake] assms(2,3) L by auto
  then show ?thesis
    using assms L by (simp add: execute_task_loop_def counters_ok_def Let_def workers_that_set_eq)
qed

lemma counters_wake:
  assumes "counters_ok p" "w < length (worker_threads p)" "worker_threads p ! w \<in> {Asleep, Woken}"
  shows "counters_ok (execute_task_wake S w p)"
proof -
  let ?q = "set_worker w Fetching (p\<lparr>m_active_worker_count := m_active_worker_count p + 1\<rparr>)"
  have "counters_ok ?q"
    using assms workers_that_set [of w "p\<lparr>m_active_worker_count := m_active_worker_count p + 1\<rparr>" live Fetching]
      workers_that_set [of w "p\<lparr>m_active_worker_count := m_active_worker_count p + 1\<rparr>" awake Fetching]
    by (auto simp: counters_ok_def)
  then have "counters_ok (execute_task_loop S w ?q)"
    by (rule counters_loop) (use assms(2) in auto)
  moreover have "execute_task_loop S w ?q = execute_task_wake S w p"
    by (simp add: execute_task_wake_def execute_task_loop_def set_worker_def Let_def)
  ultimately show ?thesis by simp
qed

lemma counters_leave:
  assumes "counters_ok p" "w < length (worker_threads p)" "worker_threads p ! w \<in> {Quitting, Dying}"
    and "q = (set_worker w Gone p)\<lparr>m_worker_count := m_worker_count p - 1,
                m_active_worker_count := m_active_worker_count p - 1\<rparr>"
  shows "counters_ok q"
  using assms workers_that_set [OF assms(2), of live Gone] workers_that_set [OF assms(2), of awake Gone]
  by (auto simp: counters_ok_def)

lemma note_terminated_simps [simp]:
  "m_worker_count (note_terminated w p) = m_worker_count p"
  "m_active_worker_count (note_terminated w p) = m_active_worker_count p"
  "worker_threads (note_terminated w p) = worker_threads p"
  "m_scheduler (note_terminated w p) = m_scheduler p"
  "m_started (note_terminated w p) = m_started p"
  "m_target_worker_count (note_terminated w p) = m_target_worker_count p"
  by (simp_all add: note_terminated_def)

lemma counters_destructed:
  assumes "counters_ok p" "w < length (worker_threads p)" "worker_threads p ! w \<in> {Quitting, Dying}"
  shows "counters_ok (worker_destructed w (set_worker w Gone p))"
    and "counters_ok (worker_died_unexpectedly g w (set_worker w Gone p))"
proof -
  let ?q = "(set_worker w Gone p)\<lparr>m_worker_count := m_worker_count p - 1,
                m_active_worker_count := m_active_worker_count p - 1\<rparr>"
  have q: "counters_ok ?q" by (rule counters_leave [OF assms refl])
  have n: "counters_ok (note_terminated w ?q)" by (rule counters_same [OF q]) simp_all
  show "counters_ok (worker_destructed w (set_worker w Gone p))"
    using q n by (simp add: worker_destructed_def Let_def)
  show "counters_ok (worker_died_unexpectedly g w (set_worker w Gone p))"
    using n counters_resize [OF q] by (simp add: worker_died_unexpectedly_def static_size_died_def Let_def)
qed

lemma counters_step: "counters_ok p \<Longrightarrow> pool_step S ev p = Some p' \<Longrightarrow> counters_ok p'"
proof (cases ev)
  case (Schedule k t)
  assume p: "counters_ok p" "pool_step S ev p = Some p'"
  then show ?thesis
    using Schedule counters_notify [OF p(1), of p' k] counters_same [OF p(1), of p']
    by (auto simp: when_def pool_schedule_def Let_def split: if_splits prod.splits)
next
  case Terminate
  assume p: "counters_ok p" "pool_step S ev p = Some p'"
  then show ?thesis using Terminate counters_notify [OF p(1), of p'] by (auto simp: terminate_begin_def)
next
  case (Enter w)
  assume p: "counters_ok p" "pool_step S ev p = Some p'"
  then have w: "w < length (worker_threads p)" "worker_threads p ! w = Fetching"
    using Enter by (auto simp: when_def worker_is_def split: if_splits)
  then show ?thesis
    using Enter p counters_loop [OF p(1) w(1)] counters_set [OF p(1) w]
    by (auto simp: when_def execute_task_enter_def split: if_splits)
next
  case (Wake w)
  assume p: "counters_ok p" "pool_step S ev p = Some p'"
  then show ?thesis
    using Wake counters_wake [OF p(1)] by (auto simp: when_def worker_is_def split: if_splits)
next
  case (Return w)
  assume p: "counters_ok p" "pool_step S ev p = Some p'"
  then have "w < length (worker_threads p)" "running (worker_threads p ! w)" "p' = set_worker w Fetching p"
    using Return by (auto simp: when_def worker_is_def split: if_splits)
  then show ?thesis
    using counters_set [OF p(1), of w _ Fetching] by (cases "worker_threads p ! w") auto
next
  case (Throw w)
  assume p: "counters_ok p" "pool_step S ev p = Some p'"
  then have "w < length (worker_threads p)" "throwing (worker_threads p ! w)" "p' = set_worker w Dying p"
    using Throw by (auto simp: when_def worker_is_def split: if_splits)
  then show ?thesis
    using counters_set [OF p(1), of w _ Dying] by (cases "worker_threads p ! w") auto
qed (auto simp: when_def worker_is_def pool_clear_def counters_resize
      intro: counters_destructed counters_same split: if_splits)

lemma counters_run: "pool_run S evs p = Some p' \<Longrightarrow> counters_ok p \<Longrightarrow> counters_ok p'"
  by (induction evs arbitrary: p) (auto split: option.splits dest: counters_step)

lemma counters_new: "counters_ok (pool_core_new S s0)"
  by (simp add: counters_ok_def workers_that_def pool_core_new_def)

lemma counters_thread_pool: "counters_ok (thread_pool_new S s0 g n)"
  by (simp add: thread_pool_new_def static_size_init_def counters_resize counters_new)

end
