(* ===== verification/Pool_Tasks.thy ===== *)
theory Pool_Tasks
  imports Thread_Pool_Inv
begin

section \<open>What becomes of the tasks of a pool\<close>

text \<open>
  Tasks are conserved under every policy that refuses none; under the first-in-first-out
  policy the pool refines a queue. Wake-ups are not lost as long as the pool is not
  shrunk or terminated, and without further work the workers come to rest.
\<close>

subsection \<open>The two lists of a pool\<close>

lemma started_grow [simp]:
  "m_started (fst (pool_grow g n p)) = m_started p"
  "m_scheduler (fst (pool_grow g n p)) = m_scheduler p"
  "m_target_worker_count (fst (pool_grow g n p)) = m_target_worker_count p"
  "m_terminated_workers (fst (pool_grow g n p)) = m_terminated_workers p"
  "m_terminate_all_workers (fst (pool_grow g n p)) = m_terminate_all_workers p"
  by (induction g n p rule: pool_grow.induct) (simp_all add: create_and_attach_def)

lemma started_resize [simp]:
  "m_started (fst (pool_resize g n p)) = m_started p"
  "m_scheduler (fst (pool_resize g n p)) = m_scheduler p"
  "m_terminated_workers (fst (pool_resize g n p)) = m_terminated_workers p"
  "m_terminate_all_workers (fst (pool_resize g n p)) = m_terminate_all_workers p"
  by (simp_all add: pool_resize_def Let_def)

lemma started_leave [simp]:
  "m_started (worker_destructed w p) = m_started p"
  "m_scheduler (worker_destructed w p) = m_scheduler p"
  "m_started (worker_died_unexpectedly g w p) = m_started p"
  "m_scheduler (worker_died_unexpectedly g w p) = m_scheduler p"
  by (simp_all add: worker_destructed_def worker_died_unexpectedly_def static_size_died_def Let_def)

lemma execute_task_cases:
  assumes "q = execute_task_enter S w p \<or> q = execute_task_wake S w p"
  shows "(m_started q = m_started p \<and> m_scheduler q = m_scheduler p)
       \<or> (\<not> sched_empty S (m_scheduler p) \<and> m_started q = m_started p @ [sched_top S (m_scheduler p)]
          \<and> m_scheduler q = sched_pop S (m_scheduler p))"
  using assms
  by (elim disjE; hypsubst)
    (simp_all add: execute_task_enter_def execute_task_wake_def execute_task_loop_def Let_def)

lemma started_step:
  assumes "pool_step S ev p = Some p'"
  shows "case ev of
      Schedule k t \<Rightarrow> m_started p' = m_started p \<and> m_scheduler p' = fst (sched_push S t (m_scheduler p))
    | Clear_pending \<Rightarrow> m_started p' = m_started p \<and> m_scheduler p' = sched_clear S (m_scheduler p)
    | _ \<Rightarrow> (m_started p' = m_started p \<and> m_scheduler p' = m_scheduler p)
         \<or> (\<not> sched_empty S (m_scheduler p) \<and> m_started p' = m_started p @ [sched_top S (m_scheduler p)]
            \<and> m_scheduler p' = sched_pop S (m_scheduler p) \<and> (\<exists>w. ev = Enter w \<or> ev = Wake w))"
proof (cases ev)
  case (Schedule k t)
  then show ?thesis using assms
    by (auto simp: when_def pool_schedule_def Let_def split: if_splits prod.splits)
next
  case (Enter w)
  then have "p' = execute_task_enter S w p" using assms by (auto simp: when_def split: if_splits)
  then show ?thesis using Enter execute_task_cases [of p' S w p] by simp
next
  case (Wake w)
  then have "p' = execute_task_wake S w p" using assms by (auto simp: when_def split: if_splits)
  then show ?thesis using Wake execute_task_cases [of p' S w p] by simp
qed (use assms in \<open>auto simp: when_def terminate_begin_def pool_clear_def split: if_splits\<close>)


subsection \<open>Conservation\<close>

context accepting_scheduler
begin

lemma tasks_step:
  assumes "pool_step S ev p = Some p'" "ev \<noteq> Clear_pending"
  shows "mset (m_started p') + bag (m_scheduler p')
       = mset (m_started p) + bag (m_scheduler p) + mset (scheduled_tasks [ev])"
  using started_step [OF assms(1)] assms(2) take_bag [of "m_scheduler p"]
  by (cases ev) (auto simp: push_adds)

lemma tasks_run:
  "pool_run S evs p = Some p' \<Longrightarrow> Clear_pending \<notin> set evs \<Longrightarrow>
   mset (m_started p') + bag (m_scheduler p')
     = mset (m_started p) + bag (m_scheduler p) + mset (scheduled_tasks evs)"
proof (induction evs arbitrary: p)
  case (Cons ev evs)
  then obtain p1 where p1: "pool_step S ev p = Some p1" "pool_run S evs p1 = Some p'"
    by (auto split: option.splits)
  have "scheduled_tasks (ev # evs) = scheduled_tasks [ev] @ scheduled_tasks evs" by (cases ev) auto
  then show ?case using Cons.IH [OF p1(2)] tasks_step [OF p1(1)] Cons.prems(2) by (auto simp: add_ac)
qed simp

lemma new_has_no_tasks:
  "m_started (thread_pool_new S s0 g n) = []" "bag (m_scheduler (thread_pool_new S s0 g n)) = {#}"
  by (simp_all add: thread_pool_new_def static_size_init_def pool_core_new_def clear_bag)

lemma nothing_runs:
  assumes "counters_ok p" "pool_wait_returns S 0 p"
  shows "\<forall>a\<in>set (worker_threads p). \<not> running a"
proof (rule ballI, rule notI)
  fix a assume a: "a \<in> set (worker_threads p)" "running a"
  have "awake a" using a(2) by (cases a) auto
  with a(1) have "0 < workers_that awake p" by (force simp: workers_that_def filter_empty_conv)
  then show False using assms by (simp add: counters_ok_def pool_wait_returns_def)
qed

lemma wait_all_started:
  assumes "pool_run S evs (thread_pool_new S s0 g n) = Some p" "Clear_pending \<notin> set evs"
    and "pool_wait_returns S 0 p"
  shows "mset (m_started p) = mset (scheduled_tasks evs)"
  using tasks_run [OF assms(1,2)] assms(3)
  by (simp add: new_has_no_tasks pool_wait_returns_def empty_bag)

end


subsection \<open>The queue a first-in-first-out pool refines\<close>

fun queue_spec :: "'e pool_event \<Rightarrow> 'e list \<times> 'e list \<Rightarrow> 'e list \<times> 'e list \<Rightarrow> bool" where
  "queue_spec (Schedule k t) (out, q) r = (r = (out, q @ [t]))"
| "queue_spec Clear_pending (out, q) r = (r = (out, []))"
| "queue_spec (Enter w) (out, q) r = (r = (out, q) \<or> q \<noteq> [] \<and> r = (out @ [hd q], tl q))"
| "queue_spec (Wake w) (out, q) r = (r = (out, q) \<or> q \<noteq> [] \<and> r = (out @ [hd q], tl q))"
| "queue_spec _ (out, q) r = (r = (out, q))"

context fifo_policy
begin

definition abs_queue :: "('e, 'f, 's) pool_core \<Rightarrow> 'e list \<times> 'e list" where
  "abs_queue p = (m_started p, elems (m_scheduler p))"

lemma push_end: "elems (fst (sched_push S t s)) = elems s @ [t]"
  using push_elems [of t s "fst (sched_push S t s)" True] push_accepts [of t s]
  by (cases "sched_push S t s") auto

lemma clear_elems: "elems (sched_clear S s) = []"
  using clear_bag [of s] by simp

lemma take_front:
  "\<not> sched_empty S s \<Longrightarrow> elems s \<noteq> [] \<and> sched_top S s = hd (elems s) \<and> elems (sched_pop S s) = tl (elems s)"
  using take_elems [of s] by (metis list.distinct(1) list.sel(1,3))

lemma step_refines: "pool_step S ev p = Some p' \<Longrightarrow> queue_spec ev (abs_queue p) (abs_queue p')"
  using started_step [of S ev p p'] take_front [of "m_scheduler p"]
  by (cases ev) (auto simp: abs_queue_def push_end clear_elems)

lemma order_run:
  "pool_run S evs p = Some p' \<Longrightarrow> Clear_pending \<notin> set evs \<Longrightarrow>
   m_started p' @ elems (m_scheduler p') = m_started p @ elems (m_scheduler p) @ scheduled_tasks evs"
proof (induction evs arbitrary: p)
  case (Cons ev evs)
  then obtain p1 where p1: "pool_step S ev p = Some p1" "pool_run S evs p1 = Some p'"
    by (auto split: option.splits)
  have "m_started p1 @ elems (m_scheduler p1) = m_started p @ elems (m_scheduler p) @ scheduled_tasks [ev]"
    using step_refines [OF p1(1)] Cons.prems(2) by (cases ev) (auto simp: abs_queue_def)
  moreover have "scheduled_tasks (ev # evs) = scheduled_tasks [ev] @ scheduled_tasks evs" by (cases ev) auto
  ultimately show ?case using Cons.IH [OF p1(2)] Cons.prems(2) by simp
qed simp

end

end
