(* ===== verification/Pool_Progress.thy ===== *)
theory Pool_Progress
  imports Pool_Tasks
begin

section \<open>Progress of a pool\<close>

text \<open>
  As long as nobody shrinks or terminates the pool, a sleeping worker implies that enough
  others are on their way to the scheduler for every pending task; each step of a worker
  decreases a measure, so the workers come to rest, and at rest nothing is pending.
\<close>

definition steady :: "'e pool_event \<Rightarrow> bool" where
  "steady ev = (case ev of Resize _ _ \<Rightarrow> False | Terminate \<Rightarrow> False | _ \<Rightarrow> True)"

definition wakeups_ok :: "('e, 'f, 's) policy \<Rightarrow> ('e, 'f, 's) pool_core \<Rightarrow> bool" where
  "wakeups_ok S p \<longleftrightarrow> counters_ok p \<and> m_worker_count p \<le> m_target_worker_count p
     \<and> \<not> m_terminate_all_workers p \<and> Quitting \<notin> set (worker_threads p)
     \<and> (Asleep \<in> set (worker_threads p) \<longrightarrow> sched_size S (m_scheduler p) \<le> workers_that about_to_fetch p)"

lemma asleep_update: "x \<in> set (ws[w := a]) \<Longrightarrow> a \<noteq> x \<Longrightarrow> x \<in> set ws"
  using set_update_subset_insert [of ws w a] by auto

lemma grow_facts:
  "m_worker_count (fst (pool_grow g n p)) \<le> m_worker_count p + n"
  "\<exists>k. worker_threads (fst (pool_grow g n p)) = worker_threads p @ replicate k Fetching"
proof (induction g n p rule: pool_grow.induct)
  case (3 g n p)
  { case 1 then show ?case using "3.IH"(1) by simp }
  { case 2
    obtain k where "worker_threads (fst (pool_grow (Suc g) (Suc n) p))
        = (worker_threads p @ [Fetching]) @ replicate k Fetching"
      using "3.IH"(2) by auto
    then have "worker_threads (fst (pool_grow (Suc g) (Suc n) p)) = worker_threads p @ replicate (Suc k) Fetching"
      by simp
    then show ?case by blast }
qed (auto intro: exI [of _ 0])

lemma workers_that_append:
  "worker_threads q = worker_threads p @ xs \<Longrightarrow> workers_that P q = workers_that P p + length (filter P xs)"
  by (simp add: workers_that_def)

lemma wakeups_new: "wakeups_ok S (thread_pool_new S s0 g n)"
proof -
  define p where "p = (pool_core_new S s0)\<lparr>m_target_worker_count := n\<rparr>"
  have eq: "thread_pool_new S s0 g n = fst (pool_grow g n p)"
    by (simp add: thread_pool_new_def static_size_init_def pool_resize_def Let_def p_def pool_core_new_def)
  obtain k where ws: "worker_threads (fst (pool_grow g n p)) = worker_threads p @ replicate k Fetching"
    using grow_facts(2) by blast
  show ?thesis
    using counters_thread_pool [of S s0 g n] grow_facts(1) [of g n p] ws
    by (simp add: wakeups_ok_def eq) (simp add: p_def pool_core_new_def)
qed

context accepting_scheduler
begin

lemma wakeups_schedule:
  assumes "wakeups_ok S p" "notify_may_pick k (worker_threads p)"
  shows "wakeups_ok S (fst (pool_schedule S k t p))"
proof -
  let ?ws = "worker_threads p" and ?q = "fst (pool_schedule S k t p)"
  obtain s where s: "sched_push S t (m_scheduler p) = (s, True)"
    using push_accepts [of t "m_scheduler p"] by (cases "sched_push S t (m_scheduler p)") auto
  have q: "?q = p\<lparr>m_scheduler := s, worker_threads := notify_one_worker k ?ws\<rparr>"
    by (simp add: pool_schedule_def s Let_def)
  have size: "sched_size S s = Suc (sched_size S (m_scheduler p))"
    using push_grows [of t "m_scheduler p"] s by simp
  have c: "counters_ok ?q"
    using assms(1) counters_notify [of p ?q k] by (simp add: q wakeups_ok_def)
  show ?thesis
  proof (cases "Asleep \<in> set ?ws")
    case True
    then have k: "k < length ?ws" "?ws ! k = Asleep" using assms(2) by (auto simp: notify_may_pick_def)
    have ws: "notify_one_worker k ?ws = ?ws[k := Woken]" using k by (simp add: notify_one_worker_def)
    have "workers_that about_to_fetch ?q = Suc (workers_that about_to_fetch p)"
      using filter_update [OF k(1), of about_to_fetch Woken] k(2) by (simp add: q ws workers_that_def)
    then show ?thesis
      using assms(1) c size True asleep_update [of Quitting ?ws k Woken]
      by (auto simp: wakeups_ok_def q ws)
  next
    case False
    then have "notify_one_worker k ?ws = ?ws"
      by (metis False nth_mem notify_one_worker_def)
    then show ?thesis using assms(1) c False by (auto simp: wakeups_ok_def q)
  qed
qed

lemma wakeups_loop:
  assumes "wakeups_ok S p" "w < length (worker_threads p)"
    and "q = execute_task_loop S w r" "counters_ok q"
    and "r = p \<or> r = p\<lparr>m_active_worker_count := m_active_worker_count p + 1\<rparr>"
  shows "wakeups_ok S q"
proof -
  let ?ws = "worker_threads p" and ?s = "m_scheduler p"
  have r: "m_scheduler r = ?s" "worker_threads r = ?ws" "m_worker_count r = m_worker_count p"
    "m_target_worker_count r = m_target_worker_count p" "m_terminate_all_workers r = m_terminate_all_workers p"
    "m_started r = m_started p"
    using assms(5) by auto
  show ?thesis
  proof (cases "sched_empty S ?s")
    case True
    then have "q = set_worker w Asleep (r\<lparr>m_active_worker_count := m_active_worker_count r - 1\<rparr>)"
      using assms(1,3) r by (simp add: execute_task_loop_def wakeups_ok_def)
    then show ?thesis
      using assms(1,4) r True size_zero [of ?s] asleep_update [of Quitting ?ws w Asleep]
      by (auto simp: wakeups_ok_def)
  next
    case False
    define a where "a = Running (sched_call S (sched_top S ?s))"
    have q: "worker_threads q = ?ws[w := a]" "m_scheduler q = sched_pop S ?s"
      "m_worker_count q = m_worker_count p" "m_target_worker_count q = m_target_worker_count p"
      "m_terminate_all_workers q = m_terminate_all_workers p"
      using assms(3) False r by (simp_all add: execute_task_loop_def Let_def a_def)
    have "workers_that about_to_fetch p \<le> Suc (workers_that about_to_fetch q)"
      using filter_update [OF assms(2), of about_to_fetch a]
      by (simp add: workers_that_def q(1) split: if_splits)
    then show ?thesis
      using assms(1,4) q size_take [OF False] asleep_update [of Quitting ?ws w a] asleep_update [of Asleep ?ws w a]
      by (auto simp: wakeups_ok_def a_def)
  qed
qed

lemma wakeups_set:
  assumes "wakeups_ok S p" "w < length (worker_threads p)" "counters_ok (set_worker w b p)"
    and "b \<noteq> Asleep" "b \<noteq> Quitting" "about_to_fetch (worker_threads p ! w) \<Longrightarrow> about_to_fetch b"
  shows "wakeups_ok S (set_worker w b p)"
  using assms workers_that_set [OF assms(2), of about_to_fetch b]
    asleep_update [of Quitting "worker_threads p" w b] asleep_update [of Asleep "worker_threads p" w b]
  by (auto simp: wakeups_ok_def split: if_splits)

lemma wakeups_died:
  assumes "wakeups_ok S p" "w < length (worker_threads p)" "worker_threads p ! w = Dying"
  shows "wakeups_ok S (worker_died_unexpectedly g w (set_worker w Gone p))"
proof -
  let ?ws = "worker_threads p" and ?q = "worker_died_unexpectedly g w (set_worker w Gone p)"
  have pos: "0 < m_worker_count p"
    using assms positive_count [of w p live] by (simp add: wakeups_ok_def counters_ok_def)
  define r where "r = (set_worker w Gone p)\<lparr>m_worker_count := m_worker_count p - 1,
      m_active_worker_count := m_active_worker_count p - 1, m_target_worker_count := m_worker_count p\<rparr>"
  have "?q = fst (pool_grow g 1 r)"
    using assms(1) pos
    by (simp add: worker_died_unexpectedly_def static_size_died_def pool_resize_def Let_def wakeups_ok_def r_def)
  moreover obtain k where "worker_threads (fst (pool_grow g 1 r)) = worker_threads r @ replicate k Fetching"
    using grow_facts(2) by blast
  ultimately have ws: "worker_threads ?q = ?ws[w := Gone] @ replicate k Fetching" by (simp add: r_def)
  have "workers_that about_to_fetch p \<le> workers_that about_to_fetch ?q"
    using filter_update [OF assms(2), of about_to_fetch Gone] assms(3)
    by (simp add: workers_that_def ws)
  moreover have "m_worker_count ?q \<le> m_target_worker_count ?q" "\<not> m_terminate_all_workers ?q"
    using \<open>?q = fst (pool_grow g 1 r)\<close> grow_facts(1) [of g 1 r] pos assms(1)
    by (auto simp: r_def wakeups_ok_def)
  moreover have "counters_ok ?q"
    using assms by (intro counters_destructed(2)) (auto simp: wakeups_ok_def)
  ultimately show ?thesis
    using assms(1) ws asleep_update [of Quitting ?ws w Gone] asleep_update [of Asleep ?ws w Gone]
    by (auto simp: wakeups_ok_def)
qed

lemma wakeups_step:
  assumes "wakeups_ok S p" "pool_step S ev p = Some p'" "steady ev"
  shows "wakeups_ok S p'"
proof -
  have c: "counters_ok p'" using assms(1,2) counters_step by (auto simp: wakeups_ok_def)
  show ?thesis
  proof (cases ev)
    case (Schedule k t)
    then show ?thesis using assms wakeups_schedule [OF assms(1)] by (auto simp: when_def split: if_splits)
  next
    case (Enter w)
    then have w: "w < length (worker_threads p)" "p' = execute_task_enter S w p"
      using assms(2) by (auto simp: when_def worker_is_def split: if_splits)
    then have "p' = execute_task_loop S w p"
      using assms(1) by (simp add: execute_task_enter_def wakeups_ok_def)
    then show ?thesis using wakeups_loop [OF assms(1) w(1) _ c] by blast
  next
    case (Wake w)
    then have "w < length (worker_threads p)" "p' = execute_task_wake S w p"
      using assms(2) by (auto simp: when_def worker_is_def split: if_splits)
    then show ?thesis using wakeups_loop [OF assms(1) _ _ c] by (auto simp: execute_task_wake_def)
  next
    case (Return w)
    then have "w < length (worker_threads p)" "p' = set_worker w Fetching p"
      using assms(2) by (auto simp: when_def worker_is_def split: if_splits)
    then show ?thesis using wakeups_set [OF assms(1), of w Fetching] c by auto
  next
    case (Throw w)
    then have "w < length (worker_threads p)" "throwing (worker_threads p ! w)" "p' = set_worker w Dying p"
      using assms(2) by (auto simp: when_def worker_is_def split: if_splits)
    then show ?thesis
      using wakeups_set [OF assms(1), of w Dying] c by (cases "worker_threads p ! w") auto
  next
    case (Destruct w)
    then have "Quitting \<in> set (worker_threads p)"
      using assms(2) by (auto simp: when_def worker_is_def in_set_conv_nth split: if_splits)
    then show ?thesis using assms(1) by (simp add: wakeups_ok_def)
  next
    case (Died g w)
    then show ?thesis
      using assms(2) wakeups_died [OF assms(1)] by (auto simp: when_def worker_is_def split: if_splits)
  next
    case Clear_pending
    then show ?thesis
      using assms c by (auto simp: wakeups_ok_def pool_clear_def size_bag clear_bag)
  qed (use assms(3) in \<open>simp_all add: steady_def\<close>)
qed

lemma wakeups_run:
  "pool_run S evs p = Some p' \<Longrightarrow> \<forall>ev\<in>set evs. steady ev \<Longrightarrow> wakeups_ok S p \<Longrightarrow> wakeups_ok S p'"
  by (induction evs arbitrary: p) (auto split: option.splits dest: wakeups_step)

end


subsection \<open>The workers come to rest\<close>

fun work_left :: "'f worker_at \<Rightarrow> nat" where
  "work_left (Running _) = 3"
| "work_left Dying = 2"
| "work_left Quitting = 1"
| "work_left Fetching = 1"
| "work_left Woken = 1"
| "work_left _ = 0"

definition pool_work :: "('e, 'f, 's) policy \<Rightarrow> ('e, 'f, 's) pool_core \<Rightarrow> nat" where
  "pool_work S p = 3 * sched_size S (m_scheduler p) + sum_list (map work_left (worker_threads p))"

text \<open>The steps workers take of themselves: spurious wake-ups are not among them.\<close>

definition worker_event :: "'e pool_event \<Rightarrow> ('e, 'f, 's) pool_core \<Rightarrow> bool" where
  "worker_event ev p = (case ev of
      Schedule _ _ \<Rightarrow> False | Resize _ _ \<Rightarrow> False | Clear_pending \<Rightarrow> False | Terminate \<Rightarrow> False
    | Wake w \<Rightarrow> worker_is w ((=) Woken) p | _ \<Rightarrow> True)"

fun worker_run ::
    "('e, 'f, 's) policy \<Rightarrow> 'e pool_event list \<Rightarrow> ('e, 'f, 's) pool_core \<Rightarrow> ('e, 'f, 's) pool_core option" where
  "worker_run S [] p = Some p"
| "worker_run S (ev # evs) p =
     (if worker_event ev p then
        case pool_step S ev p of None \<Rightarrow> None | Some p' \<Rightarrow> worker_run S evs p'
      else None)"

lemma worker_event_steady: "worker_event ev p \<Longrightarrow> steady ev"
  by (cases ev) (auto simp: worker_event_def steady_def)

lemma work_update:
  "w < length ws \<Longrightarrow> sum_list (map work_left (ws[w := a])) + work_left (ws ! w)
     = sum_list (map work_left ws) + work_left a"
proof (induction ws arbitrary: w)
  case (Cons x xs)
  then show ?case by (cases w) auto
qed simp

context accepting_scheduler
begin

lemma work_loop:
  assumes "w < length (worker_threads p)" "worker_threads p ! w = Fetching \<or> worker_threads p ! w = Woken"
    and "m_worker_count p \<le> m_target_worker_count p" "worker_threads r = worker_threads p"
    "m_scheduler r = m_scheduler p" "m_worker_count r = m_worker_count p"
    "m_target_worker_count r = m_target_worker_count p"
  shows "pool_work S (execute_task_loop S w r) < pool_work S p"
proof (cases "sched_empty S (m_scheduler p)")
  case True
  then show ?thesis
    using assms work_update [OF assms(1), of Asleep]
    by (auto simp: pool_work_def execute_task_loop_def)
next
  case False
  then show ?thesis
    using assms work_update [OF assms(1), of "Running (sched_call S (sched_top S (m_scheduler p)))"]
      size_take [OF False]
    by (auto simp: pool_work_def execute_task_loop_def Let_def)
qed

lemma work_set:
  assumes "w < length (worker_threads p)" "work_left a < work_left (worker_threads p ! w)"
  shows "pool_work S (set_worker w a p) < pool_work S p"
  using work_update [OF assms(1), of a] assms(2) by (simp add: pool_work_def)

lemma work_died:
  assumes "w < length (worker_threads p)" "worker_threads p ! w = Dying"
    "\<not> m_terminate_all_workers p" "0 < m_worker_count p"
  shows "pool_work S (worker_died_unexpectedly g w (set_worker w Gone p)) < pool_work S p"
  using assms work_update [OF assms(1), of Gone]
  by (cases g) (auto simp: worker_died_unexpectedly_def static_size_died_def pool_resize_def Let_def pool_work_def)

lemma work_step:
  assumes "wakeups_ok S p" "worker_event ev p" "pool_step S ev p = Some p'"
  shows "pool_work S p' < pool_work S p"
proof -
  have le: "m_worker_count p \<le> m_target_worker_count p" using assms(1) by (simp add: wakeups_ok_def)
  show ?thesis
  proof (cases ev)
    case (Enter w)
    then have "w < length (worker_threads p)" "worker_threads p ! w = Fetching" "p' = execute_task_loop S w p"
      using assms(3) le by (auto simp: when_def worker_is_def execute_task_enter_def split: if_splits)
    then show ?thesis using work_loop [of w p p] le by simp
  next
    case (Wake w)
    then have "w < length (worker_threads p)" "worker_threads p ! w = Woken" "p' = execute_task_wake S w p"
      using assms(2,3) by (auto simp: worker_event_def when_def worker_is_def split: if_splits)
    then show ?thesis using work_loop [of w p] le by (simp add: execute_task_wake_def)
  next
    case (Return w)
    then have "w < length (worker_threads p)" "running (worker_threads p ! w)" "p' = set_worker w Fetching p"
      using assms(3) by (auto simp: when_def worker_is_def split: if_splits)
    then show ?thesis using work_set [of w p Fetching] by (cases "worker_threads p ! w") auto
  next
    case (Throw w)
    then have "w < length (worker_threads p)" "throwing (worker_threads p ! w)" "p' = set_worker w Dying p"
      using assms(3) by (auto simp: when_def worker_is_def split: if_splits)
    then show ?thesis using work_set [of w p Dying] by (cases "worker_threads p ! w") auto
  next
    case (Destruct w)
    then have "Quitting \<in> set (worker_threads p)"
      using assms(3) by (auto simp: when_def worker_is_def in_set_conv_nth split: if_splits)
    then show ?thesis using assms(1) by (simp add: wakeups_ok_def)
  next
    case (Died g w)
    then have w: "w < length (worker_threads p)" "worker_threads p ! w = Dying"
      and p': "p' = worker_died_unexpectedly g w (set_worker w Gone p)"
      using assms(3) by (auto simp: when_def worker_is_def split: if_splits)
    have "0 < m_worker_count p" "\<not> m_terminate_all_workers p"
      using w positive_count [of w p live] assms(1) by (auto simp: wakeups_ok_def counters_ok_def)
    then show ?thesis using work_died [OF w] p' by simp
  qed (use assms(2) in \<open>simp_all add: worker_event_def\<close>)
qed

lemma work_run:
  "worker_run S evs p = Some p' \<Longrightarrow> wakeups_ok S p \<Longrightarrow>
   wakeups_ok S p' \<and> length evs + pool_work S p' \<le> pool_work S p"
proof (induction evs arbitrary: p)
  case (Cons ev evs)
  then obtain p1 where p1: "worker_event ev p" "pool_step S ev p = Some p1" "worker_run S evs p1 = Some p'"
    by (auto split: option.splits if_splits)
  have "wakeups_ok S p1" by (rule wakeups_step [OF Cons.prems(2) p1(2) worker_event_steady [OF p1(1)]])
  from Cons.IH [OF p1(3) this] work_step [OF Cons.prems(2) p1(1,2)] show ?case by simp
qed simp

lemma at_rest:
  assumes "wakeups_ok S p" "\<And>ev. worker_event ev p \<Longrightarrow> pool_step S ev p = None" "0 < m_worker_count p"
  shows "pool_wait_returns S 0 p"
proof -
  have rest: "a = Asleep \<or> a = Gone" if a: "a \<in> set (worker_threads p)" for a
  proof -
    obtain w where w: "w < length (worker_threads p)" "worker_threads p ! w = a"
      using a by (auto simp: in_set_conv_nth)
    show ?thesis
      using w assms(2) [of "Enter w"] assms(2) [of "Wake w"] assms(2) [of "Return w"]
        assms(2) [of "Destruct w"] assms(2) [of "Died 0 w"]
      by (cases a) (auto simp: worker_event_def when_def worker_is_def)
  qed
  have "workers_that awake p = 0" "workers_that about_to_fetch p = 0"
    using rest by (force simp: workers_that_def filter_empty_conv)+
  moreover have "Asleep \<in> set (worker_threads p)"
  proof -
    have "workers_that live p \<noteq> 0" using assms(1,3) by (simp add: wakeups_ok_def counters_ok_def)
    then obtain a where "a \<in> set (worker_threads p)" "live a"
      by (auto simp: workers_that_def filter_empty_conv)
    then show ?thesis using rest [of a] by auto
  qed
  ultimately show ?thesis
    using assms(1) size_zero [of "m_scheduler p"]
    by (simp add: pool_wait_returns_def wakeups_ok_def counters_ok_def)
qed

end

end
