(* ===== verification/Pool_Future.thy ===== *)
theory Pool_Future
  imports Thread_Pool
begin

section \<open>Futures\<close>

text \<open>
  \<open>detail/future.hpp\<close> and \<open>future.hpp\<close>: the shared state of a future and the task object
  that computes it. The members are volatile and most are accessed without the monitor, so
  every access of the task and every call of a client is a step of its own. \<open>m_executing\<close>
  is not initialised by the constructor: its first value is a parameter. A result that has
  not been assigned is \<open>None\<close>.
\<close>

record 'r future_impl =
  m_ready :: bool
  m_result :: "'r option"
  m_is_cancelled :: bool
  m_executing :: bool

definition future_impl_new :: "bool \<Rightarrow> 'r future_impl" where
  "future_impl_new garbage = \<lparr>m_ready = False, m_result = None, m_is_cancelled = False, m_executing = garbage\<rparr>"

definition future_ready :: "'r future_impl \<Rightarrow> bool" where
  "future_ready f = m_ready f"

definition future_wait_returns :: "'r future_impl \<Rightarrow> bool" where
  "future_wait_returns f = m_ready f"

fun future_timed_wait :: "'r future_impl list \<Rightarrow> bool" where
  "future_timed_wait [] = False"
| "future_timed_wait (f # fs) = (if m_ready f then True else future_timed_wait fs)"

definition future_get :: "'r future_impl \<Rightarrow> 'r outcome" where
  "future_get f =
     (if future_wait_returns f then
        case m_result f of Some r \<Rightarrow> Inr r | None \<Rightarrow> Inl (Undefined ''result not assigned'')
      else Inl Waits)"

definition future_set_value :: "'r \<Rightarrow> 'r future_impl \<Rightarrow> 'r future_impl" where
  "future_set_value r f =
     (if \<not> m_ready f \<and> \<not> m_is_cancelled f then f\<lparr>m_result := Some r, m_ready := True\<rparr> else f)"

definition future_cancel :: "'r future_impl \<Rightarrow> 'r future_impl \<times> bool" where
  "future_cancel f =
     (if \<not> m_ready f \<or> m_executing f then (f\<lparr>m_is_cancelled := True\<rparr>, True) else (f, False))"

definition future_is_cancelled :: "'r future_impl \<Rightarrow> bool" where
  "future_is_cancelled f = m_is_cancelled f"

definition set_execution_status :: "bool \<Rightarrow> 'r future_impl \<Rightarrow> 'r future_impl" where
  "set_execution_status executing f = f\<lparr>m_executing := executing\<rparr>"


subsection \<open>The task of a future\<close>

text \<open>
  \<open>future_impl_task_func::operator()\<close>, one statement per step. \<open>fo\<close> is the function: its
  result, or \<open>None\<close> for an empty function object.
\<close>

datatype 'r task_at = T_begin | T_check | T_call | T_store 'r | T_clear | T_done

fun future_task_step :: "'r option \<Rightarrow> 'r task_at \<times> 'r future_impl \<Rightarrow> ('r task_at \<times> 'r future_impl) option" where
  "future_task_step None (T_begin, f) = Some (T_done, f)"
| "future_task_step (Some r) (T_begin, f) = Some (T_check, set_execution_status True f)"
| "future_task_step fo (T_check, f) = Some (if future_is_cancelled f then T_clear else T_call, f)"
| "future_task_step (Some r) (T_call, f) = Some (T_store r, f)"
| "future_task_step None (T_call, f) = None"
| "future_task_step fo (T_store r, f) = Some (T_clear, future_set_value r f)"
| "future_task_step fo (T_clear, f) = Some (T_done, set_execution_status False f)"
| "future_task_step fo (T_done, f) = None"

datatype future_event = Task_step | Cancel

fun future_step ::
    "'r option \<Rightarrow> future_event \<Rightarrow> 'r task_at \<times> 'r future_impl \<Rightarrow> ('r task_at \<times> 'r future_impl) option" where
  "future_step fo Task_step s = future_task_step fo s"
| "future_step fo Cancel (a, f) = Some (a, fst (future_cancel f))"

fun future_run ::
    "'r option \<Rightarrow> future_event list \<Rightarrow> 'r task_at \<times> 'r future_impl \<Rightarrow> ('r task_at \<times> 'r future_impl) option" where
  "future_run fo [] s = Some s"
| "future_run fo (ev # evs) s = (case future_step fo ev s of None \<Rightarrow> None | Some s' \<Rightarrow> future_run fo evs s')"

text \<open>
  \<open>schedule(pool, function)\<close> of \<open>future.hpp\<close>: the state of the future and the task handed
  to the pool.
\<close>

definition future_schedule ::
    "('e, 'f, 's) policy \<Rightarrow> ('r future_impl \<Rightarrow> 'e) \<Rightarrow> bool \<Rightarrow> nat \<Rightarrow> ('e, 'f, 's) pool_core
     \<Rightarrow> 'r future_impl \<times> ('e, 'f, 's) pool_core" where
  "future_schedule S task garbage k p =
     (let impl = future_impl_new garbage in (impl, fst (pool_schedule S k (task impl) p)))"


subsection \<open>What a future delivers\<close>

definition future_settled :: "'r option \<Rightarrow> 'r future_impl \<Rightarrow> bool" where
  "future_settled fo f \<longleftrightarrow> (if m_ready f then m_result f = fo else m_is_cancelled f)"

fun future_ok :: "'r option \<Rightarrow> 'r task_at \<times> 'r future_impl \<Rightarrow> bool" where
  "future_ok fo (T_begin, f) = (\<not> m_ready f)"
| "future_ok fo (T_check, f) = (\<not> m_ready f \<and> fo \<noteq> None)"
| "future_ok fo (T_call, f) = (\<not> m_ready f \<and> fo \<noteq> None)"
| "future_ok fo (T_store r, f) = (\<not> m_ready f \<and> fo = Some r)"
| "future_ok fo (T_clear, f) = (fo \<noteq> None \<and> future_settled fo f)"
| "future_ok fo (T_done, f) = (if fo = None then \<not> m_ready f else future_settled fo f)"

lemma future_ok_cancel: "future_ok fo (a, f) \<Longrightarrow> future_ok fo (a, fst (future_cancel f))"
  by (cases a) (auto simp: future_cancel_def future_settled_def)

lemma future_ok_task: "future_ok fo (a, f) \<Longrightarrow> future_task_step fo (a, f) = Some s' \<Longrightarrow> future_ok fo s'"
  by (induction fo "(a, f)" rule: future_task_step.induct)
    (auto simp: future_settled_def future_set_value_def set_execution_status_def future_is_cancelled_def)

lemma future_ok_step: "future_ok fo s \<Longrightarrow> future_step fo ev s = Some s' \<Longrightarrow> future_ok fo s'"
  by (cases ev; cases s) (auto simp: future_ok_cancel dest: future_ok_task)

lemma future_ok_run: "future_run fo evs s = Some s' \<Longrightarrow> future_ok fo s \<Longrightarrow> future_ok fo s'"
  by (induction evs arbitrary: s) (auto split: option.splits dest: future_ok_step)

lemma future_ok_new: "future_ok fo (T_begin, future_impl_new g)"
  by (simp add: future_impl_new_def)

definition never_ready :: "'r task_at \<times> 'r future_impl \<Rightarrow> bool" where
  "never_ready s = (\<not> m_ready (snd s) \<and> m_is_cancelled (snd s))"

lemma never_ready_task:
  "never_ready (a, f) \<Longrightarrow> future_task_step fo (a, f) = Some s' \<Longrightarrow> never_ready s'"
  by (induction fo "(a, f)" rule: future_task_step.induct)
    (auto simp: never_ready_def future_set_value_def set_execution_status_def)

lemma never_ready_step: "never_ready s \<Longrightarrow> future_step fo ev s = Some s' \<Longrightarrow> never_ready s'"
proof (cases ev)
  case Task_step
  assume "never_ready s" "future_step fo ev s = Some s'"
  then show ?thesis using never_ready_task [of "fst s" "snd s" fo s'] Task_step by simp
next
  case Cancel
  assume "never_ready s" "future_step fo ev s = Some s'"
  then show ?thesis using Cancel by (cases s) (auto simp: never_ready_def future_cancel_def)
qed

lemma never_ready_run: "future_run fo evs s = Some s' \<Longrightarrow> never_ready s \<Longrightarrow> never_ready s'"
  by (induction evs arbitrary: s) (auto split: option.splits dest: never_ready_step)

end
