(* ===== verification/Pool_Properties.thy ===== *)
theory Pool_Properties
  imports Pool_Progress Pool_Future
begin

section \<open>Properties of the thread pool\<close>

text \<open>
  The statements are about the pool the server and the cache use: first in, first out, a
  fixed number of threads. \<open>thread_pool_new fifo_scheduler [] g n\<close> is a pool of \<open>n\<close>
  threads on a system that grants \<open>g\<close>.
\<close>

abbreviation fifo_pool :: "nat \<Rightarrow> nat \<Rightarrow> ('f option, 'f, 'f option list) pool_core" where
  "fifo_pool g n \<equiv> thread_pool_new fifo_scheduler [] g n"

abbreviation pool_2 :: "(nat option, nat, nat option list) pool_core" where
  "pool_2 \<equiv> fifo_pool 2 2"

lemmas pool_defs = thread_pool_new_def static_size_init_def pool_core_new_def pool_resize_def Let_def
  create_and_attach_def when_def worker_is_def execute_task_enter_def execute_task_wake_def
  execute_task_loop_def set_worker_def pool_schedule_def notify_one_worker_def notify_all_workers_def
  notify_may_pick_def worker_destructed_def note_terminated_def terminate_begin_def pool_clear_def

text \<open>After any sequence of client calls and worker steps
  the counters of the pool are the numbers of threads that have not left it and of those that are
  neither asleep nor about to wake; so neither is ever decremented at 0.\<close>

lemma pool_counters:
  assumes "pool_run fifo_scheduler evs (fifo_pool g n) = Some p"
  shows "pool_size p = length (filter live (worker_threads p))
       \<and> pool_active p = length (filter awake (worker_threads p))
       \<and> pool_active p \<le> pool_size p"
proof -
  have c: "counters_ok p" by (rule counters_run [OF assms counters_thread_pool])
  have "length (filter awake ws) \<le> length (filter live ws)" for ws :: "'a worker_at list"
  proof (induction ws)
    case (Cons a ws)
    then show ?case by (cases a) auto
  qed simp
  then show ?thesis using c by (simp add: counters_ok_def workers_that_def pool_size_def pool_active_def)
qed

lemma pool_counters_witness:
  "\<exists>p. pool_run fifo_scheduler [Enter 0, Schedule 0 (Some 7), Wake 0, Enter 1] pool_2 = Some p
     \<and> pool_size p = 2 \<and> pool_active p = 1"
proof -
  have "\<exists>p. pool_run fifo_scheduler [Enter 0, Schedule 0 (Some 7), Wake 0, Enter 1] pool_2 = Some p
     \<and> worker_threads p = [Running (Some 7), Asleep]"
    by (simp add: pool_defs numeral_2_eq_2)
  then obtain p where p: "pool_run fifo_scheduler [Enter 0, Schedule 0 (Some 7), Wake 0, Enter 1] pool_2 = Some p"
    and w: "worker_threads p = [Running (Some 7), Asleep]" by blast
  from pool_counters [OF p] w p show ?thesis by auto
qed

text \<open>C29: pool_refines_queue. Every step of a pool, seen as the list of tasks handed to workers and the
  list of pending tasks, is a step of an unbounded queue: a scheduled task goes to the end, a worker takes
  the front or nothing, \<open>clear\<close> drops what is pending, and nothing else changes either list.\<close>

lemma pool_refines_queue:
  assumes "pool_step fifo_scheduler ev p = Some p'"
  shows "queue_spec ev (m_started p, m_scheduler p) (m_started p', m_scheduler p')"
  using fifo.step_refines [OF assms] by (simp add: fifo.abs_queue_def)

lemma pool_refines_queue_witness:
  "\<exists>p'. pool_step fifo_scheduler (Schedule 0 (Some 7)) pool_2 = Some p'
     \<and> queue_spec (Schedule 0 (Some 7)) (m_started pool_2, m_scheduler pool_2) (m_started p', m_scheduler p')"
proof -
  have "\<exists>p'. pool_step fifo_scheduler (Schedule 0 (Some 7)) pool_2 = Some p'"
    by (simp add: pool_defs numeral_2_eq_2)
  then obtain p' where "pool_step fifo_scheduler (Schedule 0 (Some 7)) pool_2 = Some p'" ..
  with pool_refines_queue [OF this] show ?thesis by blast
qed

text \<open>C30: pool_wait_means_done. When \<open>wait()\<close> returns and nobody cleared the pool, the tasks the
  workers took are exactly the tasks scheduled so far, each once and in the order they were scheduled, and
  none of them is still running.\<close>

lemma pool_wait_means_done:
  assumes "pool_run fifo_scheduler evs (fifo_pool g n) = Some p" "Clear_pending \<notin> set evs"
    and "pool_wait_returns fifo_scheduler 0 p"
  shows "m_started p = scheduled_tasks evs \<and> (\<forall>a\<in>set (worker_threads p). \<not> running a)"
proof -
  have "m_started (fifo_pool g n) = []" "m_scheduler (fifo_pool g n) = []"
    using fifo.new_has_no_tasks [where ?s0.0 = "[]"] by auto
  moreover have "m_scheduler p = []" using assms(3) by (simp add: pool_wait_returns_def)
  ultimately have "m_started p = scheduled_tasks evs"
    using fifo.order_run [OF assms(1,2)] by simp
  moreover have "counters_ok p" by (rule counters_run [OF assms(1) counters_thread_pool])
  ultimately show ?thesis using fifo.nothing_runs [OF _ assms(3)] by blast
qed

lemma pool_wait_means_done_witness:
  "\<exists>p. pool_run fifo_scheduler [Schedule 0 (Some 7), Schedule 0 (Some 8), Enter 0, Enter 1, Return 0, Enter 0, Return 1, Enter 1] pool_2
     = Some p \<and> m_started p = [Some 7, Some 8]"
proof -
  let ?evs = "[Schedule 0 (Some 7), Schedule 0 (Some 8), Enter 0, Enter 1, Return 0, Enter 0, Return 1, Enter 1]"
  have "\<exists>p. pool_run fifo_scheduler ?evs pool_2 = Some p \<and> pool_wait_returns fifo_scheduler 0 p"
    by (simp add: pool_defs numeral_2_eq_2 pool_wait_returns_def)
  then obtain p where "pool_run fifo_scheduler ?evs pool_2 = Some p" "pool_wait_returns fifo_scheduler 0 p"
    by blast
  with pool_wait_means_done [OF this(1) _ this(2)] show ?thesis by simp
qed

text \<open>C31: pool_comes_to_rest. From any state a pool reaches while nobody resizes or terminates it, the
  workers alone can take at most three steps per pending task and three per thread, and once none of them can
  take a step \<open>wait()\<close> returns: no task stays pending behind a lost wake-up, whatever tasks throw,
  as long as one thread is left.\<close>

lemma pool_comes_to_rest:
  assumes "pool_run fifo_scheduler evs (fifo_pool g n) = Some p" "\<forall>ev\<in>set evs. steady ev"
    and "worker_run fifo_scheduler ws p = Some p'"
  shows "length ws \<le> 3 * pool_pending fifo_scheduler p + 3 * length (worker_threads p)
    \<and> ((\<forall>ev. worker_event ev p' \<longrightarrow> pool_step fifo_scheduler ev p' = None) \<and> 0 < pool_size p'
        \<longrightarrow> pool_wait_returns fifo_scheduler 0 p')"
proof -
  have "wakeups_ok fifo_scheduler p" by (rule fifo.wakeups_run [OF assms(1,2) wakeups_new])
  from fifo.work_run [OF assms(3) this]
  have r: "wakeups_ok fifo_scheduler p'" "length ws \<le> pool_work fifo_scheduler p" by simp_all
  have "sum_list (map work_left as) \<le> 3 * length as" for as :: "'a worker_at list"
  proof (induction as)
    case (Cons a as)
    then show ?case by (cases a) auto
  qed simp
  with r(2) have "length ws \<le> 3 * pool_pending fifo_scheduler p + 3 * length (worker_threads p)"
    by (auto simp: pool_work_def pool_pending_def intro: order_trans)
  then show ?thesis using fifo.at_rest [OF r(1)] by (auto simp: pool_size_def)
qed

lemma pool_comes_to_rest_witness:
  "\<exists>p p'. pool_run fifo_scheduler [Enter 0, Enter 1, Schedule 1 (Some 7)] pool_2 = Some p
     \<and> worker_run fifo_scheduler [Wake 1, Return 1, Enter 1] p = Some p'
     \<and> length [Wake 1, Return 1, Enter (1::nat)] \<le> 3 * pool_pending fifo_scheduler p + 3 * length (worker_threads p)"
proof -
  have "\<exists>p p'. pool_run fifo_scheduler [Enter 0, Enter 1, Schedule 1 (Some 7)] pool_2 = Some p
     \<and> worker_run fifo_scheduler [Wake 1, Return 1, Enter 1] p = Some p'"
    by (simp add: pool_defs numeral_2_eq_2 worker_event_def)
  then obtain p p' where "pool_run fifo_scheduler [Enter 0, Enter 1, Schedule 1 (Some 7)] pool_2 = Some p"
    and "worker_run fifo_scheduler [Wake 1, Return 1, Enter 1] p = Some p'" by blast
  with pool_comes_to_rest [OF this(1) _ this(2)] show ?thesis by (auto simp: steady_def)
qed

text \<open>\<open>execute_task\<close> decides to end a worker by comparing the counters, but the
  count is only decremented later, in \<open>worker_destructed\<close>: after \<open>resize(1)\<close> both workers of a pool
  of two can leave, so a pool whose target is one thread has none and a pending task nobody will run.\<close>

lemma pool_shrink_race:
  "\<exists>p. pool_run fifo_scheduler [Resize 0 1, Enter 0, Enter 1, Destruct 0, Destruct 1, Schedule 0 t] (fifo_pool 2 2) = Some p
     \<and> m_target_worker_count p = 1 \<and> pool_size p = 0 \<and> worker_threads p = [Gone, Gone]
     \<and> pool_pending fifo_scheduler p = 1 \<and> \<not> pool_wait_returns fifo_scheduler 0 p"
  by (simp add: pool_defs numeral_2_eq_2 pool_size_def pool_pending_def pool_wait_returns_def)

lemma not_terminated_run:
  "pool_run S evs p = Some p' \<Longrightarrow> Terminate \<notin> set evs \<Longrightarrow>
   \<not> m_terminate_all_workers p \<Longrightarrow> m_terminated_workers p = [] \<Longrightarrow>
   \<not> m_terminate_all_workers p' \<and> m_terminated_workers p' = []"
proof (induction evs arbitrary: p)
  case (Cons ev evs)
  then obtain p1 where p1: "pool_step S ev p = Some p1" "pool_run S evs p1 = Some p'"
    by (auto split: option.splits)
  have "\<not> m_terminate_all_workers p1 \<and> m_terminated_workers p1 = []"
    using p1(1) Cons.prems(2-4)
    by (cases ev)
      (auto simp: when_def pool_schedule_def execute_task_enter_def execute_task_wake_def execute_task_loop_def
        worker_destructed_def worker_died_unexpectedly_def static_size_died_def pool_clear_def Let_def
        split: if_splits prod.splits)
  then show ?case using Cons.IH [OF p1(2)] Cons.prems(2) by auto
qed simp

text \<open>The policy documented as waiting for the termination of the workers does not:
  when the wait for the tasks returns, no worker is active, so \<open>terminate_all_workers(true)\<close> leaves its loop
  at once, finds no terminated worker to join and returns with every thread still alive.\<close>

lemma pool_shutdown_joins_nobody:
  assumes "pool_run fifo_scheduler evs (fifo_pool g n) = Some p" "Terminate \<notin> set evs"
    and "shutdown_wait_for_all_tasks fifo_scheduler p = Some (joined, p')"
  shows "joined = [] \<and> pool_size p' = pool_size p \<and> pool_size p' = length (filter live (worker_threads p'))"
proof -
  have t: "m_terminated_workers p = []"
    using not_terminated_run [OF assms(1,2)]
    by (simp add: thread_pool_new_def static_size_init_def pool_core_new_def)
  have c: "counters_ok (terminate_begin p)"
    by (rule counters_step [OF counters_run [OF assms(1) counters_thread_pool], of fifo_scheduler Terminate]) simp
  have p': "joined = m_terminated_workers p" "p' = (terminate_begin p)\<lparr>m_terminated_workers := []\<rparr>"
    using assms(3)
    by (auto simp: shutdown_wait_for_all_tasks_def terminate_all_workers_def terminate_join_def terminate_begin_def
        split: if_splits)
  show ?thesis
    using p' t c by (simp add: pool_size_def counters_ok_def workers_that_def) (simp add: terminate_begin_def)
qed

lemma pool_shutdown_joins_nobody_witness:
  "\<exists>p joined p'. pool_run fifo_scheduler [Enter 0, Enter 1] pool_2 = Some p
     \<and> shutdown_wait_for_all_tasks fifo_scheduler p = Some (joined, p') \<and> joined = [] \<and> pool_size p = 2"
proof -
  have "\<exists>p joined p'. pool_run fifo_scheduler [Enter 0, Enter 1] pool_2 = Some p \<and> pool_size p = 2
     \<and> shutdown_wait_for_all_tasks fifo_scheduler p = Some (joined, p')"
    by (simp add: pool_defs numeral_2_eq_2 pool_size_def shutdown_wait_for_all_tasks_def
        terminate_all_workers_def terminate_join_def pool_wait_returns_def)
  then obtain p joined p' where "pool_run fifo_scheduler [Enter 0, Enter 1] pool_2 = Some p" "pool_size p = 2"
    and "shutdown_wait_for_all_tasks fifo_scheduler p = Some (joined, p')" by blast
  with pool_shutdown_joins_nobody [OF this(1) _ this(3)] show ?thesis by auto
qed

text \<open>Once the task of a future has ended, \<open>get()\<close> returns what the function
  returned unless somebody cancelled the future; it never returns anything else; and the
  uninitialised \<open>m_executing\<close> has no influence on it.\<close>

lemma future_delivers:
  assumes "future_run (Some r) evs (T_begin, future_impl_new garbage) = Some (a, f)"
  shows "(a = T_done \<and> \<not> future_is_cancelled f \<longrightarrow> future_get f = Inr r)
       \<and> (future_get f = Inr r' \<longrightarrow> r' = r)"
proof -
  have ok: "future_ok (Some r) (a, f)" by (rule future_ok_run [OF assms future_ok_new])
  have "m_ready f \<Longrightarrow> m_result f = Some r" using ok by (cases a) (auto simp: future_settled_def)
  moreover have "a = T_done \<Longrightarrow> m_ready f \<or> m_is_cancelled f" using ok by (auto simp: future_settled_def split: if_splits)
  ultimately show ?thesis by (auto simp: future_get_def future_wait_returns_def future_is_cancelled_def)
qed

lemma future_delivers_witness:
  "\<exists>f. future_run (Some (5::nat)) [Task_step, Task_step, Task_step, Task_step, Task_step]
         (T_begin, future_impl_new True) = Some (T_done, f) \<and> future_get f = Inr 5"
proof -
  have "\<exists>f. future_run (Some (5::nat)) [Task_step, Task_step, Task_step, Task_step, Task_step]
         (T_begin, future_impl_new True) = Some (T_done, f) \<and> \<not> future_is_cancelled f"
    by (simp add: future_impl_new_def set_execution_status_def future_is_cancelled_def future_set_value_def)
  then obtain f where f: "future_run (Some (5::nat)) [Task_step, Task_step, Task_step, Task_step, Task_step]
         (T_begin, future_impl_new True) = Some (T_done, f)" and "\<not> future_is_cancelled f" by (elim exE conjE)
  then have "future_get f = Inr 5" using future_delivers [OF f, of 5] by simp
  with f show ?thesis by (intro exI conjI)
qed

text \<open>A \<open>cancel()\<close> that reports success before the value is stored, even
  while the function is being executed, makes every later \<open>get()\<close> and \<open>wait()\<close> block for
  ever: the function's value is dropped and nothing makes the future ready.\<close>

lemma future_cancel_blocks_get:
  assumes "\<not> future_ready f" "future_run fo evs (a, fst (future_cancel f)) = Some (a', f')"
  shows "snd (future_cancel f) \<and> future_get f' = Inl Waits"
proof -
  have "never_ready (a, fst (future_cancel f))"
    using assms(1) by (simp add: never_ready_def future_cancel_def future_ready_def)
  from never_ready_run [OF assms(2) this] show ?thesis
    using assms(1) by (simp add: never_ready_def future_get_def future_wait_returns_def future_cancel_def future_ready_def)
qed

lemma future_cancel_blocks_get_witness:
  "\<exists>f'. future_run (Some (5::nat)) [Task_step, Task_step, Task_step]
         (T_call, fst (future_cancel (set_execution_status True (future_impl_new False)))) = Some (T_done, f')
     \<and> future_get f' = Inl Waits"
proof -
  let ?f = "set_execution_status True (future_impl_new False) :: nat future_impl"
  have n: "\<not> future_ready ?f" by (simp add: future_ready_def set_execution_status_def future_impl_new_def)
  have "\<exists>f'. future_run (Some (5::nat)) [Task_step, Task_step, Task_step] (T_call, fst (future_cancel ?f))
      = Some (T_done, f')" by simp
  then obtain f' where f': "future_run (Some (5::nat)) [Task_step, Task_step, Task_step] (T_call, fst (future_cancel ?f))
      = Some (T_done, f')" by (elim exE)
  from future_cancel_blocks_get [OF n f'] have "future_get f' = Inl Waits" by (rule conjunct2)
  with f' show ?thesis by (intro exI conjI)
qed

end
