(* ===== verification/Zmq_Z85.thy ===== *)
theory Zmq_Z85
  imports Mog_Prelude
begin

section \<open>The Z85 codec of ZeroMQ\<close>

text \<open>
  \<open>zmq_utils.cpp\<close>: \<open>zmq_z85_encode\<close> and \<open>zmq_z85_decode\<close> with their tables. Strings are
  byte lists that end at their first zero byte; the result of a call is the bytes it stores
  at \<open>dest\<close>, or \<open>None\<close> where it returns NULL. The decoder's table is indexed with the
  character less 32: a character outside 32..127 reads outside the table.
\<close>

definition z85_encoder :: "byte list" where
  "z85_encoder = map of_char
     ''0123456789abcdefghijklmnopqrstuvwxyzABCDEFGHIJKLMNOPQRSTUVWXYZ.-:+=^!/*?&<>()[]{}@%$#''"

definition z85_decoder :: "byte list" where
  "z85_decoder =
   [0x00, 0x44, 0x00, 0x54, 0x53, 0x52, 0x48, 0x00,
    0x4B, 0x4C, 0x46, 0x41, 0x00, 0x3F, 0x3E, 0x45,
    0x00, 0x01, 0x02, 0x03, 0x04, 0x05, 0x06, 0x07,
    0x08, 0x09, 0x40, 0x00, 0x49, 0x42, 0x4A, 0x47,
    0x51, 0x24, 0x25, 0x26, 0x27, 0x28, 0x29, 0x2A,
    0x2B, 0x2C, 0x2D, 0x2E, 0x2F, 0x30, 0x31, 0x32,
    0x33, 0x34, 0x35, 0x36, 0x37, 0x38, 0x39, 0x3A,
    0x3B, 0x3C, 0x3D, 0x4D, 0x00, 0x4E, 0x43, 0x00,
    0x00, 0x0A, 0x0B, 0x0C, 0x0D, 0x0E, 0x0F, 0x10,
    0x11, 0x12, 0x13, 0x14, 0x15, 0x16, 0x17, 0x18,
    0x19, 0x1A, 0x1B, 0x1C, 0x1D, 0x1E, 0x1F, 0x20,
    0x21, 0x22, 0x23, 0x4F, 0x00, 0x50, 0x00, 0x00]"

function base_digits :: "32 word \<Rightarrow> 32 word \<Rightarrow> 32 word \<Rightarrow> 32 word list" where
  "base_digits base value divisor =
     (if divisor = 0 \<or> base < 2 then []
      else (value div divisor mod base) # base_digits base value (divisor div base))"
  by pat_completeness auto
termination
proof (relation "measure (\<lambda>(b, v, d). unat d)")
  fix b v d :: "32 word"
  assume a: "\<not> (d = 0 \<or> b < 2)"
  then have "unat b \<ge> 2" by (simp add: not_less word_le_nat_alt)
  moreover have "0 < unat d" using a by (simp add: unat_gt_0)
  ultimately have "unat d div unat b < unat d" by (intro div_less_dividend) auto
  then show "((b, v, d div b), b, v, d) \<in> measure (\<lambda>(b, v, d). unat d)"
    by (simp add: unat_div)
qed simp

declare base_digits.simps [simp del]

fun z85_encode_loop :: "byte list \<Rightarrow> nat \<Rightarrow> 32 word \<Rightarrow> byte list \<Rightarrow> byte list" where
  "z85_encode_loop [] byte_nbr value dest = dest"
| "z85_encode_loop (b # data) byte_nbr value dest =
     (let value = value * 256 + ucast b; byte_nbr = byte_nbr + 1
      in if byte_nbr mod 4 = 0 then
           z85_encode_loop data byte_nbr 0
             (dest @ map (\<lambda>i. z85_encoder ! unat i) (base_digits 85 value (85 * 85 * 85 * 85)))
         else z85_encode_loop data byte_nbr value dest)"

definition zmq_z85_encode :: "byte list \<Rightarrow> byte list option" where
  "zmq_z85_encode data =
     (if length data mod 4 \<noteq> 0 then None else Some (z85_encode_loop data 0 0 [] @ [0]))"

definition c_str :: "byte list \<Rightarrow> byte list" where
  "c_str s = takeWhile (\<lambda>c. c \<noteq> 0) s"

definition z85_decode_char :: "byte \<Rightarrow> byte outcome" where
  "z85_decode_char c =
     (if 32 \<le> unat c \<and> unat c - 32 < length z85_decoder then Inr (z85_decoder ! (unat c - 32))
      else Inl (Undefined ''read outside the table of the decoder''))"

fun z85_decode_loop :: "byte list \<Rightarrow> nat \<Rightarrow> 32 word \<Rightarrow> byte list \<Rightarrow> byte list outcome" where
  "z85_decode_loop [] char_nbr value dest = Inr dest"
| "z85_decode_loop (c # cs) char_nbr value dest =
     and_then (z85_decode_char c) (\<lambda>x.
       let value = value * 85 + ucast x; char_nbr = char_nbr + 1
       in if char_nbr mod 5 = 0 then
            z85_decode_loop cs char_nbr 0
              (dest @ map ucast (base_digits 256 value (256 * 256 * 256)))
          else z85_decode_loop cs char_nbr value dest)"

definition zmq_z85_decode :: "byte list \<Rightarrow> byte list option outcome" where
  "zmq_z85_decode string =
     (if 0 \<notin> set string then Inl (Undefined ''strlen past the end of a buffer'')
      else let s = c_str string
      in if length s mod 5 \<noteq> 0 then Inr None
         else and_then (z85_decode_loop s 0 0 []) (\<lambda>dest. Inr (Some dest)))"


subsection \<open>Digits\<close>

lemma unat_lt_32: "unat v < 4294967296" for v :: "32 word"
proof -
  have "unat v < 2 ^ LENGTH(32)" by (rule unsigned_less)
  then show ?thesis by simp
qed

lemma unat_lt_8: "unat b < 256" for b :: byte
proof -
  have "unat b < 2 ^ LENGTH(8)" by (rule unsigned_less)
  then show ?thesis by simp
qed

lemma unat_ucast_up: "unat (ucast b :: 32 word) = unat b" for b :: byte
  using unat_lt_8 [of b] by (simp add: unsigned_ucast_eq take_bit_nat_eq_self)

lemma unat_ucast_down: "unat (ucast w :: byte) = unat w mod 256" for w :: "32 word"
  by (simp add: unsigned_ucast_eq take_bit_eq_mod)

lemma base_85: "base_digits 85 v 52200625 =
  [v div 52200625 mod 85, v div 614125 mod 85, v div 7225 mod 85, v div 85 mod 85, v mod 85]"
  by (simp add: base_digits.simps [of 85])

lemma base_256: "base_digits 256 v 16777216 =
  [v div 16777216 mod 256, v div 65536 mod 256, v div 256 mod 256, v mod 256]"
  by (simp add: base_digits.simps [of 256])

lemma z85_encoder_bytes: "z85_encoder =
    [48, 49, 50, 51, 52, 53, 54, 55, 56, 57, 97, 98, 99, 100, 101, 102, 103, 104, 105, 106,
     107, 108, 109, 110, 111, 112, 113, 114, 115, 116, 117, 118, 119, 120, 121, 122, 65, 66,
     67, 68, 69, 70, 71, 72, 73, 74, 75, 76, 77, 78, 79, 80, 81, 82, 83, 84, 85, 86, 87, 88,
     89, 90, 46, 45, 58, 43, 61, 94, 33, 47, 42, 63, 38, 60, 62, 40, 41, 91, 93, 123, 125, 64,
     37, 36, 35]"
  by (simp add: z85_encoder_def)

lemma upt_85: "[0..<85] =
    [0, 1, 2, 3, 4, 5, 6, 7, 8, 9, 10, 11, 12, 13, 14, 15, 16, 17, 18, 19,
     20, 21, 22, 23, 24, 25, 26, 27, 28, 29, 30, 31, 32, 33, 34, 35, 36, 37, 38, 39,
     40, 41, 42, 43, 44, 45, 46, 47, 48, 49, 50, 51, 52, 53, 54, 55, 56, 57, 58, 59,
     60, 61, 62, 63, 64, 65, 66, 67, 68, 69, 70, 71, 72, 73, 74, 75, 76, 77, 78, 79,
     80, 81, 82, 83, 84]"
  by code_simp

lemma z85_tables_list: "map z85_decode_char z85_encoder = map (\<lambda>i. Inr (of_nat i)) [0..<85]"
  by (simp add: z85_encoder_bytes z85_decode_char_def z85_decoder_def upt_85)

lemma z85_encoder_facts: "length z85_encoder = 85" "0 \<notin> set z85_encoder"
  by (simp_all add: z85_encoder_bytes)

lemma z85_tables:
  assumes "i < 85"
  shows "z85_decode_char (z85_encoder ! i) = Inr (of_nat i)" "z85_encoder ! i \<noteq> 0"
proof -
  show "z85_decode_char (z85_encoder ! i) = Inr (of_nat i)"
    using arg_cong [OF z85_tables_list, of "\<lambda>xs. xs ! i"] assms z85_encoder_facts(1) by simp
  show "z85_encoder ! i \<noteq> 0"
    using assms z85_encoder_facts by (metis nth_mem)
qed

lemma digit_step: "((n div (85 * k)) * 85 + (n div k) mod 85 :: nat) = n div k"
  by (metis div_mult_mod_eq div_mult2_eq mult.commute)

definition z85_group :: "32 word \<Rightarrow> byte list" where
  "z85_group v = map (\<lambda>i. z85_encoder ! unat i) (base_digits 85 v 52200625)"

lemma decode_digits:
  fixes v :: "32 word"
  defines "n \<equiv> unat v"
  shows "((((of_nat (n div 52200625) * 85 + of_nat (n div 614125 mod 85)) * 85
     + of_nat (n div 7225 mod 85)) * 85 + of_nat (n div 85 mod 85)) * 85 + of_nat (n mod 85) :: 32 word) = v"
proof -
  have s: "(of_nat (n div (85 * k)) * 85 + of_nat (n div k mod 85) :: 32 word) = of_nat (n div k)" for k
    using arg_cong [OF digit_step [of n k], of "of_nat :: nat \<Rightarrow> 32 word"] by simp
  show ?thesis
    using s [of 614125] s [of 7225] s [of 85] s [of 1] by (simp add: n_def)
qed

lemma decode_group:
  "z85_decode_loop (z85_group v @ cs) (5 * k) 0 dest
     = z85_decode_loop cs (5 * Suc k) 0 (dest @ map ucast (base_digits 256 v 16777216))"
proof -
  have lt: "unat v div 52200625 < 85"
    using unat_lt_32 [of v] by (simp add: div_less_iff_less_mult)
  have m: "Suc (5 * k) mod 5 = 1" "Suc (Suc (5 * k)) mod 5 = 2" "Suc (Suc (Suc (5 * k))) mod 5 = 3"
    "Suc (Suc (Suc (Suc (5 * k)))) mod 5 = 4" "Suc (Suc (Suc (Suc (Suc (5 * k))))) mod 5 = 0"
    by presburger+
  have u: "(ucast (of_nat i :: byte) :: 32 word) = of_nat i" if "i < 85" for i
    using that by (simp add: ucast_eq unat_of_nat word_uint_eq_iff uint_nat)
  have e: "5 * Suc k = Suc (Suc (Suc (Suc (Suc (5 * k)))))" by simp
  show ?thesis
    using lt decode_digits [of v] unfolding e
    by (simp add: z85_group_def base_85 unat_div unat_mod z85_tables u m Let_def)
qed

lemma nat_bytes:
  fixes a b c d :: nat
  assumes "a < 256" "b < 256" "c < 256" "d < 256" "n = ((a * 256 + b) * 256 + c) * 256 + d"
  shows "n div 16777216 mod 256 = a" "n div 65536 mod 256 = b" "n div 256 mod 256 = c" "n mod 256 = d"
proof -
  have s: "(x * 256 + y) div 256 = x" "(x * 256 + y) mod 256 = y" if "y < 256" for x y :: nat
    using that by simp_all
  have n: "n div 256 = (a * 256 + b) * 256 + c" "n mod 256 = d"
    unfolding assms(5) by (rule s [OF assms(4)])+
  have m: "n div 256 div 256 = a * 256 + b" "n div 256 mod 256 = c"
    unfolding n(1) by (rule s [OF assms(3)])+
  have l: "n div 256 div 256 div 256 = a" "n div 256 div 256 mod 256 = b"
    unfolding m(1) by (rule s [OF assms(2)])+
  have "n div 65536 = n div 256 div 256" "n div 16777216 = n div 256 div 256 div 256"
    by (simp_all add: div_mult2_eq [symmetric])
  with n m l assms(1) show "n div 16777216 mod 256 = a" "n div 65536 mod 256 = b"
      "n div 256 mod 256 = c" "n mod 256 = d"
    by simp_all
qed

lemma group_bytes:
  fixes a b c d :: byte
  defines "v \<equiv> ((ucast a * 256 + ucast b) * 256 + ucast c) * 256 + ucast d :: 32 word"
  shows "map ucast (base_digits 256 v 16777216) = [a, b, c, d]"
proof -
  have l: "unat a < 256" "unat b < 256" "unat c < 256" "unat d < 256"
    by (rule unat_lt_8)+
  have v: "unat v = ((unat a * 256 + unat b) * 256 + unat c) * 256 + unat d"
    using l by (simp add: v_def unat_word_ariths unat_ucast_up)
  have byte: "(ucast (w mod 256) :: byte) = x" if "unat w mod 256 = unat x" for w :: "32 word" and x :: byte
    using that by (simp add: word_unat_eq_iff unat_ucast_down unat_mod)
  show ?thesis
    using nat_bytes [OF l v] unfolding base_256 by (simp add: byte unat_div)
qed


subsection \<open>Round trip\<close>

lemma encode_group:
  "z85_encode_loop (a # b # c # d # rest) (4 * k) 0 dest
     = z85_encode_loop rest (4 * Suc k) 0
         (dest @ z85_group (((ucast a * 256 + ucast b) * 256 + ucast c) * 256 + ucast d))"
proof -
  have m: "Suc (4 * k) mod 4 = 1" "Suc (Suc (4 * k)) mod 4 = 2" "Suc (Suc (Suc (4 * k))) mod 4 = 3"
    "Suc (Suc (Suc (Suc (4 * k)))) mod 4 = 0"
    by presburger+
  have e: "4 * Suc k = Suc (Suc (Suc (Suc (4 * k))))" by simp
  show ?thesis unfolding e by (simp add: m z85_group_def Let_def)
qed

lemma length_z85_group [simp]: "length (z85_group v) = 5"
  by (simp add: z85_group_def base_85)

lemma z85_group_nonzero: "0 \<notin> set (z85_group v)"
proof -
  have "unat v div 52200625 < 85" using unat_lt_32 [of v] by (simp add: div_less_iff_less_mult)
  then show ?thesis
    using z85_tables(2) by (auto simp: z85_group_def base_85 unat_div unat_mod dest: sym)
qed

fun z85_groups :: "byte list \<Rightarrow> byte list" where
  "z85_groups (a # b # c # d # rest) =
     z85_group (((ucast a * 256 + ucast b) * 256 + ucast c) * 256 + ucast d) @ z85_groups rest"
| "z85_groups _ = []"

lemma encode_groups:
  "length data mod 4 = 0 \<Longrightarrow> z85_encode_loop data (4 * k) 0 dest = dest @ z85_groups data"
proof (induction data arbitrary: k dest rule: z85_groups.induct)
  case (1 a b c d rest)
  then have "length rest mod 4 = 0" by simp
  from "1.IH" [OF this, of "Suc k"] show ?case by (simp only: encode_group z85_groups.simps append_assoc)
qed auto

lemma decode_groups:
  "length data mod 4 = 0 \<Longrightarrow> z85_decode_loop (z85_groups data) (5 * k) 0 dest = Inr (dest @ data)"
proof (induction data arbitrary: k dest rule: z85_groups.induct)
  case (1 a b c d rest)
  then have "length rest mod 4 = 0" by simp
  from "1.IH" [OF this, of "Suc k"] show ?case
    by (simp only: z85_groups.simps decode_group group_bytes append_assoc) simp
qed auto

lemma z85_groups_facts: "length data mod 4 = 0 \<Longrightarrow> length (z85_groups data) = 5 * (length data div 4)"
  "0 \<notin> set (z85_groups data)"
proof (induction data rule: z85_groups.induct)
  case (1 a b c d rest)
  { case 1 then show ?case using "1.IH"(1) by simp }
  { case 2 then show ?case using "1.IH"(2) z85_group_nonzero by simp }
qed auto

lemma c_str_terminated [simp]: "0 \<notin> set s \<Longrightarrow> c_str (s @ 0 # t) = s"
  by (simp add: c_str_def takeWhile_append2 takeWhile_tail) (metis (mono_tags, lifting) takeWhile_eq_all_conv)

lemma encode_result:
  assumes "length data mod 4 = 0"
  shows "zmq_z85_encode data = Some (z85_groups data @ [0])"
  using encode_groups [OF assms, of 0 "[]"] assms by (simp add: zmq_z85_encode_def)

lemma decode_result:
  assumes "length data mod 4 = 0"
  shows "zmq_z85_decode (z85_groups data @ 0 # t) = Inr (Some data)"
  using decode_groups [OF assms, of 0 "[]"] z85_groups_facts [of data] assms
  by (simp add: zmq_z85_decode_def Let_def)

end
