(* ===== verification/Zmq_Options.thy ===== *)
theory Zmq_Options
  imports Zmq_Z85 Little_Endian
begin

section \<open>Options of a ZeroMQ socket\<close>

text \<open>
  \<open>options.hpp\<close> and \<open>options.cpp\<close>: the \<open>options_t\<close> of a socket, its constructor,
  \<open>setsockopt\<close> and \<open>getsockopt\<close>. C \<open>int\<close>s are \<open>int\<close>; the type invariant below shows them
  in range. An argument \<open>optval_\<close> is a buffer or NULL. \<open>None\<close> as the result of a call is
  \<open>-1\<close> with \<open>errno = EINVAL\<close>, the only error there is. What the build decides by macros
  (libsodium, GSSAPI, peer credentials, the militant mode) is the record \<open>build\<close>;
  \<open>tcp_address_mask_t::resolve\<close>, which asks the resolver of the system, is a parameter of
  the model, as is the type of its results.
\<close>

record 'm build =
  have_libsodium :: bool
  have_gssapi :: bool
  have_so_peercred :: bool
  act_militant :: bool
  mask_resolve :: "byte list \<Rightarrow> bool \<Rightarrow> 'm option"

datatype sockopt =
  ZMQ_AFFINITY | ZMQ_IDENTITY | ZMQ_RATE | ZMQ_RECOVERY_IVL | ZMQ_SNDBUF | ZMQ_RCVBUF | ZMQ_TYPE
| ZMQ_LINGER | ZMQ_RECONNECT_IVL | ZMQ_BACKLOG | ZMQ_RECONNECT_IVL_MAX | ZMQ_MAXMSGSIZE
| ZMQ_SNDHWM | ZMQ_RCVHWM | ZMQ_MULTICAST_HOPS | ZMQ_RCVTIMEO | ZMQ_SNDTIMEO | ZMQ_TCP_KEEPALIVE
| ZMQ_TCP_KEEPALIVE_CNT | ZMQ_TCP_KEEPALIVE_IDLE | ZMQ_TCP_KEEPALIVE_INTVL | ZMQ_IMMEDIATE
| ZMQ_IPV6 | ZMQ_MECHANISM | ZMQ_PLAIN_SERVER | ZMQ_PLAIN_USERNAME | ZMQ_PLAIN_PASSWORD
| ZMQ_CURVE_SERVER | ZMQ_CURVE_PUBLICKEY | ZMQ_CURVE_SECRETKEY | ZMQ_CURVE_SERVERKEY | ZMQ_CONFLATE
| ZMQ_ZAP_DOMAIN | ZMQ_TOS | ZMQ_GSSAPI_SERVER | ZMQ_GSSAPI_PRINCIPAL | ZMQ_GSSAPI_SERVICE_PRINCIPAL
| ZMQ_GSSAPI_PLAINTEXT | ZMQ_HANDSHAKE_IVL | ZMQ_SOCKS_PROXY | ZMQ_TCP_ACCEPT_FILTER
| ZMQ_IPC_FILTER_PID | ZMQ_IPC_FILTER_UID | ZMQ_IPC_FILTER_GID | ZMQ_IPV4ONLY | Other_option int

abbreviation ZMQ_NULL :: int where "ZMQ_NULL \<equiv> 0"
abbreviation ZMQ_PLAIN :: int where "ZMQ_PLAIN \<equiv> 1"
abbreviation ZMQ_CURVE :: int where "ZMQ_CURVE \<equiv> 2"
abbreviation ZMQ_GSSAPI :: int where "ZMQ_GSSAPI \<equiv> 3"
abbreviation CURVE_KEYSIZE :: nat where "CURVE_KEYSIZE \<equiv> 32"
abbreviation CURVE_KEYSIZE_Z85 :: nat where "CURVE_KEYSIZE_Z85 \<equiv> 40"

record 'm options_t =
  o_sndhwm :: int
  o_rcvhwm :: int
  o_affinity :: "64 word"
  o_identity_size :: int
  o_identity :: "byte list"
  o_rate :: int
  o_recovery_ivl :: int
  o_multicast_hops :: int
  o_sndbuf :: int
  o_rcvbuf :: int
  o_tos :: int
  o_type :: int
  o_linger :: int
  o_reconnect_ivl :: int
  o_reconnect_ivl_max :: int
  o_backlog :: int
  o_maxmsgsize :: int
  o_rcvtimeo :: int
  o_sndtimeo :: int
  o_ipv6 :: bool
  o_immediate :: int
  o_filter :: bool
  o_recv_identity :: bool
  o_raw_sock :: bool
  o_socks_proxy_address :: "byte list"
  o_tcp_keepalive :: int
  o_tcp_keepalive_cnt :: int
  o_tcp_keepalive_idle :: int
  o_tcp_keepalive_intvl :: int
  o_tcp_accept_filters :: "'m list"
  o_zap_ipc_creds :: bool
  o_ipc_uid_accept_filters :: "int set"
  o_ipc_gid_accept_filters :: "int set"
  o_ipc_pid_accept_filters :: "int set"
  o_mechanism :: int
  o_as_server :: int
  o_zap_domain :: "byte list"
  o_plain_username :: "byte list"
  o_plain_password :: "byte list"
  o_curve_public_key :: "byte list"
  o_curve_secret_key :: "byte list"
  o_curve_server_key :: "byte list"
  o_gss_principal :: "byte list"
  o_gss_service_principal :: "byte list"
  o_gss_plaintext :: bool
  o_socket_id :: int
  o_conflate :: bool
  o_handshake_ivl :: int

text \<open>The arrays are not initialised by the constructor: their contents are parameters.\<close>

definition options_new :: "byte list \<Rightarrow> byte list \<Rightarrow> byte list \<Rightarrow> byte list \<Rightarrow> 'm options_t" where
  "options_new garbage_id garbage_pk garbage_sk garbage_vk =
    \<lparr>o_sndhwm = 1000, o_rcvhwm = 1000, o_affinity = 0, o_identity_size = 0, o_identity = garbage_id,
     o_rate = 100, o_recovery_ivl = 10000, o_multicast_hops = 1, o_sndbuf = 0, o_rcvbuf = 0, o_tos = 0,
     o_type = -1, o_linger = -1, o_reconnect_ivl = 100, o_reconnect_ivl_max = 0, o_backlog = 100,
     o_maxmsgsize = -1, o_rcvtimeo = -1, o_sndtimeo = -1, o_ipv6 = False, o_immediate = 0,
     o_filter = False, o_recv_identity = False, o_raw_sock = False, o_socks_proxy_address = [],
     o_tcp_keepalive = -1, o_tcp_keepalive_cnt = -1, o_tcp_keepalive_idle = -1,
     o_tcp_keepalive_intvl = -1, o_tcp_accept_filters = [], o_zap_ipc_creds = False,
     o_ipc_uid_accept_filters = {}, o_ipc_gid_accept_filters = {}, o_ipc_pid_accept_filters = {},
     o_mechanism = ZMQ_NULL, o_as_server = 0, o_zap_domain = [], o_plain_username = [],
     o_plain_password = [], o_curve_public_key = garbage_pk, o_curve_secret_key = garbage_sk,
     o_curve_server_key = garbage_vk, o_gss_principal = [], o_gss_service_principal = [],
     o_gss_plaintext = False, o_socket_id = 0, o_conflate = False, o_handshake_ivl = 30000\<rparr>"


subsection \<open>setsockopt\<close>

type_synonym 'm set_result = "'m options_t option outcome"

definition opt_read :: "nat \<Rightarrow> byte list option \<Rightarrow> byte list outcome" where
  "opt_read n optval =
     (case optval of
        None \<Rightarrow> if n = 0 then Inr [] else Inl (Undefined ''null pointer'')
      | Some b \<Rightarrow> buf_read 0 n b)"

definition opt_int :: "nat \<Rightarrow> byte list option \<Rightarrow> int outcome" where
  "opt_int len optval =
     (if len = 4 then and_then (opt_read 4 optval) (\<lambda>bs. Inr (int32_value bs)) else Inr 0)"

definition accept :: "bool \<Rightarrow> 'm options_t \<Rightarrow> 'm set_result option" where
  "accept b o' = Some (Inr (if b then Some o' else None))"

definition accept_bytes ::
    "bool \<Rightarrow> nat \<Rightarrow> byte list option \<Rightarrow> (byte list \<Rightarrow> 'm options_t) \<Rightarrow> 'm set_result option" where
  "accept_bytes b len optval upd =
     Some (if b then and_then (opt_read len optval) (\<lambda>bs. Inr (Some (upd bs))) else Inr None)"

text \<open>
  The cases of the switch in groups; \<open>None\<close> means that an option is not in the group. The
  first: high-water marks, identity, multicast, buffers, reconnection.
\<close>

definition set_basic ::
    "sockopt \<Rightarrow> bool \<Rightarrow> int \<Rightarrow> nat \<Rightarrow> byte list option \<Rightarrow> 'm options_t \<Rightarrow> 'm set_result option" where
  "set_basic so is_int v len x opt = (case so of
      ZMQ_SNDHWM \<Rightarrow> accept (is_int \<and> v \<ge> 0) (opt\<lparr>o_sndhwm := v\<rparr>)
    | ZMQ_RCVHWM \<Rightarrow> accept (is_int \<and> v \<ge> 0) (opt\<lparr>o_rcvhwm := v\<rparr>)
    | ZMQ_AFFINITY \<Rightarrow> accept_bytes (len = 8) 8 x (\<lambda>bs. opt\<lparr>o_affinity := word_of_int (le_value bs)\<rparr>)
    | ZMQ_IDENTITY \<Rightarrow> (Some (if len > 0 \<and> len < 256 then
             and_then (opt_read len x) (\<lambda>bs.
             and_then (buf_write 0 bs (o_identity opt)) (\<lambda>identity.
               Inr (Some (opt\<lparr>o_identity_size := int len, o_identity := identity\<rparr>))))
           else Inr None))
    | ZMQ_RATE \<Rightarrow> accept (is_int \<and> v > 0) (opt\<lparr>o_rate := v\<rparr>)
    | ZMQ_RECOVERY_IVL \<Rightarrow> accept (is_int \<and> v \<ge> 0) (opt\<lparr>o_recovery_ivl := v\<rparr>)
    | ZMQ_SNDBUF \<Rightarrow> accept (is_int \<and> v \<ge> 0) (opt\<lparr>o_sndbuf := v\<rparr>)
    | ZMQ_RCVBUF \<Rightarrow> accept (is_int \<and> v \<ge> 0) (opt\<lparr>o_rcvbuf := v\<rparr>)
    | ZMQ_TOS \<Rightarrow> accept (is_int \<and> v \<ge> 0) (opt\<lparr>o_tos := v\<rparr>)
    | ZMQ_LINGER \<Rightarrow> accept (is_int \<and> v \<ge> -1) (opt\<lparr>o_linger := v\<rparr>)
    | ZMQ_RECONNECT_IVL \<Rightarrow> accept (is_int \<and> v \<ge> -1) (opt\<lparr>o_reconnect_ivl := v\<rparr>)
    | ZMQ_RECONNECT_IVL_MAX \<Rightarrow> accept (is_int \<and> v \<ge> 0) (opt\<lparr>o_reconnect_ivl_max := v\<rparr>)
    | ZMQ_BACKLOG \<Rightarrow> accept (is_int \<and> v \<ge> 0) (opt\<lparr>o_backlog := v\<rparr>)
    | ZMQ_MAXMSGSIZE \<Rightarrow> accept_bytes (len = 8) 8 x (\<lambda>bs. opt\<lparr>o_maxmsgsize := int64_value bs\<rparr>)
    | ZMQ_MULTICAST_HOPS \<Rightarrow> accept (is_int \<and> v > 0) (opt\<lparr>o_multicast_hops := v\<rparr>)
    | ZMQ_RCVTIMEO \<Rightarrow> accept (is_int \<and> v \<ge> -1) (opt\<lparr>o_rcvtimeo := v\<rparr>)
    | ZMQ_SNDTIMEO \<Rightarrow> accept (is_int \<and> v \<ge> -1) (opt\<lparr>o_sndtimeo := v\<rparr>)
    | _ \<Rightarrow> None)"

text \<open>The address family, the proxy, the settings of TCP connections.\<close>

definition set_tcp ::
    "sockopt \<Rightarrow> bool \<Rightarrow> int \<Rightarrow> nat \<Rightarrow> byte list option \<Rightarrow> 'm options_t \<Rightarrow> 'm set_result option" where
  "set_tcp so is_int v len x opt = (case so of
      ZMQ_IPV4ONLY \<Rightarrow> accept (is_int \<and> (v = 0 \<or> v = 1)) (opt\<lparr>o_ipv6 := (v = 0)\<rparr>)
    | ZMQ_IPV6 \<Rightarrow> accept (is_int \<and> (v = 0 \<or> v = 1)) (opt\<lparr>o_ipv6 := (v \<noteq> 0)\<rparr>)
    | ZMQ_SOCKS_PROXY \<Rightarrow> (if x = None \<and> len = 0 then accept True (opt\<lparr>o_socks_proxy_address := []\<rparr>)
      else accept_bytes (x \<noteq> None \<and> len > 0) len x (\<lambda>bs. opt\<lparr>o_socks_proxy_address := bs\<rparr>))
    | ZMQ_TCP_KEEPALIVE \<Rightarrow> accept (is_int \<and> (v = -1 \<or> v = 0 \<or> v = 1)) (opt\<lparr>o_tcp_keepalive := v\<rparr>)
    | ZMQ_TCP_KEEPALIVE_CNT \<Rightarrow> accept (is_int \<and> (v = -1 \<or> v \<ge> 0)) (opt\<lparr>o_tcp_keepalive_cnt := v\<rparr>)
    | ZMQ_TCP_KEEPALIVE_IDLE \<Rightarrow> accept (is_int \<and> (v = -1 \<or> v \<ge> 0)) (opt\<lparr>o_tcp_keepalive_idle := v\<rparr>)
    | ZMQ_TCP_KEEPALIVE_INTVL \<Rightarrow> accept (is_int \<and> (v = -1 \<or> v \<ge> 0)) (opt\<lparr>o_tcp_keepalive_intvl := v\<rparr>)
    | ZMQ_IMMEDIATE \<Rightarrow> accept (is_int \<and> (v = 0 \<or> v = 1)) (opt\<lparr>o_immediate := v\<rparr>)
    | _ \<Rightarrow> None)"

text \<open>The accept filters.\<close>

definition add_tcp_filter ::
    "'m build \<Rightarrow> nat \<Rightarrow> byte list option \<Rightarrow> 'm options_t \<Rightarrow> 'm set_result" where
  "add_tcp_filter B len x opt =
     and_then (opt_read 1 x) (\<lambda>c.
       if c ! 0 = 0 then Inr None
       else and_then (opt_read len x) (\<lambda>filter_str.
         case mask_resolve B (c_str (filter_str @ [0])) (o_ipv6 opt) of
           None \<Rightarrow> Inr None
         | Some m \<Rightarrow> Inr (Some (opt\<lparr>o_tcp_accept_filters := o_tcp_accept_filters opt @ [m]\<rparr>))))"

definition set_filter ::
    "'m build \<Rightarrow> sockopt \<Rightarrow> nat \<Rightarrow> byte list option \<Rightarrow> 'm options_t \<Rightarrow> 'm set_result option" where
  "set_filter B so len x opt = (case so of
      ZMQ_TCP_ACCEPT_FILTER \<Rightarrow> (if len = 0 \<and> x = None then accept True (opt\<lparr>o_tcp_accept_filters := []\<rparr>)
      else if len > 0 \<and> len < 256 \<and> x \<noteq> None then Some (add_tcp_filter B len x opt)
      else accept False opt)
    | ZMQ_IPC_FILTER_UID \<Rightarrow> (if \<not> have_so_peercred B then None
      else if len = 0 \<and> x = None then accept True (opt\<lparr>o_ipc_uid_accept_filters := {}\<rparr>)
      else accept_bytes (len = 4 \<and> x \<noteq> None) 4 x
             (\<lambda>bs. opt\<lparr>o_ipc_uid_accept_filters := insert (le_value bs) (o_ipc_uid_accept_filters opt)\<rparr>))
    | ZMQ_IPC_FILTER_GID \<Rightarrow> (if \<not> have_so_peercred B then None
      else if len = 0 \<and> x = None then accept True (opt\<lparr>o_ipc_gid_accept_filters := {}\<rparr>)
      else accept_bytes (len = 4 \<and> x \<noteq> None) 4 x
             (\<lambda>bs. opt\<lparr>o_ipc_gid_accept_filters := insert (le_value bs) (o_ipc_gid_accept_filters opt)\<rparr>))
    | ZMQ_IPC_FILTER_PID \<Rightarrow> (if \<not> have_so_peercred B then None
      else if len = 0 \<and> x = None then accept True (opt\<lparr>o_ipc_pid_accept_filters := {}\<rparr>)
      else accept_bytes (len = 4 \<and> x \<noteq> None) 4 x
             (\<lambda>bs. opt\<lparr>o_ipc_pid_accept_filters := insert (int32_value bs) (o_ipc_pid_accept_filters opt)\<rparr>))
    | _ \<Rightarrow> None)"

text \<open>The PLAIN mechanism and the ZAP domain.\<close>

definition set_plain ::
    "sockopt \<Rightarrow> bool \<Rightarrow> int \<Rightarrow> nat \<Rightarrow> byte list option \<Rightarrow> 'm options_t \<Rightarrow> 'm set_result option" where
  "set_plain so is_int v len x opt = (case so of
      ZMQ_PLAIN_SERVER \<Rightarrow> (accept (is_int \<and> (v = 0 \<or> v = 1))
       (opt\<lparr>o_as_server := v, o_mechanism := (if v \<noteq> 0 then ZMQ_PLAIN else ZMQ_NULL)\<rparr>))
    | ZMQ_PLAIN_USERNAME \<Rightarrow> (if len = 0 \<and> x = None then accept True (opt\<lparr>o_mechanism := ZMQ_NULL\<rparr>)
      else accept_bytes (len > 0 \<and> len < 256 \<and> x \<noteq> None) len x
             (\<lambda>bs. opt\<lparr>o_plain_username := bs, o_as_server := 0, o_mechanism := ZMQ_PLAIN\<rparr>))
    | ZMQ_PLAIN_PASSWORD \<Rightarrow> (if len = 0 \<and> x = None then accept True (opt\<lparr>o_mechanism := ZMQ_NULL\<rparr>)
      else accept_bytes (len > 0 \<and> len < 256 \<and> x \<noteq> None) len x
             (\<lambda>bs. opt\<lparr>o_plain_password := bs, o_as_server := 0, o_mechanism := ZMQ_PLAIN\<rparr>))
    | ZMQ_ZAP_DOMAIN \<Rightarrow> accept_bytes (len < 256) len x (\<lambda>bs. opt\<lparr>o_zap_domain := bs\<rparr>)
    | _ \<Rightarrow> None)"

text \<open>
  The CURVE mechanism. The three keys are set in the same way: from 32 bytes, from a Z85
  string of 41 bytes with its terminator, or from 40 characters without one. The result of
  the decoder is not looked at: where it refuses the string the key stays as it is.
\<close>

definition decode_key :: "byte list \<Rightarrow> byte list \<Rightarrow> byte list outcome" where
  "decode_key string key =
     and_then (zmq_z85_decode string) (\<lambda>r.
       case r of None \<Rightarrow> Inr key | Some dest \<Rightarrow> buf_write 0 dest key)"

definition set_curve_key :: "nat \<Rightarrow> byte list option \<Rightarrow> byte list \<Rightarrow> byte list option outcome" where
  "set_curve_key len x key =
     (if len = CURVE_KEYSIZE then and_then (opt_read CURVE_KEYSIZE x) (\<lambda>bs. Inr (Some bs))
      else if len = CURVE_KEYSIZE_Z85 + 1 then
        (case x of None \<Rightarrow> Inl (Undefined ''null pointer'')
         | Some string \<Rightarrow> and_then (decode_key string key) (\<lambda>k. Inr (Some k)))
      else if len = CURVE_KEYSIZE_Z85 then
        and_then (opt_read CURVE_KEYSIZE_Z85 x) (\<lambda>bs.
        and_then (decode_key (bs @ [0]) key) (\<lambda>k. Inr (Some k)))
      else Inr None)"

definition accept_key ::
    "byte list option outcome \<Rightarrow> (byte list \<Rightarrow> 'm options_t) \<Rightarrow> 'm set_result option" where
  "accept_key r upd =
     Some (and_then r (\<lambda>k. Inr (case k of None \<Rightarrow> None | Some key \<Rightarrow> Some (upd key))))"

definition set_curve ::
    "'m build \<Rightarrow> sockopt \<Rightarrow> bool \<Rightarrow> int \<Rightarrow> nat \<Rightarrow> byte list option \<Rightarrow> 'm options_t \<Rightarrow> 'm set_result option" where
  "set_curve B so is_int v len x opt = (case so of
      ZMQ_CURVE_SERVER \<Rightarrow> (if have_libsodium B then
        accept (is_int \<and> (v = 0 \<or> v = 1))
          (opt\<lparr>o_as_server := v, o_mechanism := (if v \<noteq> 0 then ZMQ_CURVE else ZMQ_NULL)\<rparr>)
      else None)
    | ZMQ_CURVE_PUBLICKEY \<Rightarrow> (if have_libsodium B then
        accept_key (set_curve_key len x (o_curve_public_key opt))
          (\<lambda>key. opt\<lparr>o_curve_public_key := key, o_mechanism := ZMQ_CURVE\<rparr>)
      else None)
    | ZMQ_CURVE_SECRETKEY \<Rightarrow> (if have_libsodium B then
        accept_key (set_curve_key len x (o_curve_secret_key opt))
          (\<lambda>key. opt\<lparr>o_curve_secret_key := key, o_mechanism := ZMQ_CURVE\<rparr>)
      else None)
    | ZMQ_CURVE_SERVERKEY \<Rightarrow> (if have_libsodium B then
        accept_key (set_curve_key len x (o_curve_server_key opt))
          (\<lambda>key. opt\<lparr>o_curve_server_key := key, o_mechanism := ZMQ_CURVE, o_as_server := 0\<rparr>)
      else None)
    | _ \<Rightarrow> None)"

text \<open>Conflation, the GSSAPI mechanism, the handshake.\<close>

definition set_gssapi ::
    "'m build \<Rightarrow> sockopt \<Rightarrow> bool \<Rightarrow> int \<Rightarrow> nat \<Rightarrow> byte list option \<Rightarrow> 'm options_t \<Rightarrow> 'm set_result option" where
  "set_gssapi B so is_int v len x opt = (case so of
      ZMQ_CONFLATE \<Rightarrow> accept (is_int \<and> (v = 0 \<or> v = 1)) (opt\<lparr>o_conflate := (v \<noteq> 0)\<rparr>)
    | ZMQ_GSSAPI_SERVER \<Rightarrow> (if have_gssapi B then
        accept (is_int \<and> (v = 0 \<or> v = 1)) (opt\<lparr>o_as_server := v, o_mechanism := ZMQ_GSSAPI\<rparr>)
      else None)
    | ZMQ_GSSAPI_PRINCIPAL \<Rightarrow> (if have_gssapi B then
        accept_bytes (len > 0 \<and> len < 256 \<and> x \<noteq> None) len x
          (\<lambda>bs. opt\<lparr>o_gss_principal := bs, o_mechanism := ZMQ_GSSAPI\<rparr>)
      else None)
    | ZMQ_GSSAPI_SERVICE_PRINCIPAL \<Rightarrow> (if have_gssapi B then
        accept_bytes (len > 0 \<and> len < 256 \<and> x \<noteq> None) len x
          (\<lambda>bs. opt\<lparr>o_gss_service_principal := bs, o_mechanism := ZMQ_GSSAPI, o_as_server := 0\<rparr>)
      else None)
    | ZMQ_GSSAPI_PLAINTEXT \<Rightarrow> (if have_gssapi B then
        accept (is_int \<and> (v = 0 \<or> v = 1)) (opt\<lparr>o_gss_plaintext := (v \<noteq> 0)\<rparr>)
      else None)
    | ZMQ_HANDSHAKE_IVL \<Rightarrow> accept (is_int \<and> v \<ge> 0) (opt\<lparr>o_handshake_ivl := v\<rparr>)
    | _ \<Rightarrow> None)"

definition or_else :: "'a option \<Rightarrow> 'a option \<Rightarrow> 'a option" where
  "or_else a b = (case a of None \<Rightarrow> b | Some x \<Rightarrow> Some x)"

definition set_case ::
    "'m build \<Rightarrow> sockopt \<Rightarrow> bool \<Rightarrow> int \<Rightarrow> nat \<Rightarrow> byte list option \<Rightarrow> 'm options_t \<Rightarrow> 'm set_result option" where
  "set_case B so is_int v len x opt =
     or_else (set_basic so is_int v len x opt)
    (or_else (set_tcp so is_int v len x opt)
    (or_else (set_filter B so len x opt)
    (or_else (set_plain so is_int v len x opt)
    (or_else (set_curve B so is_int v len x opt)
             (set_gssapi B so is_int v len x opt)))))"

definition sockopt_error :: "'m build \<Rightarrow> bool \<Rightarrow> 'b option outcome" where
  "sockopt_error B malformed =
     (if act_militant B \<and> malformed then Inl (Fatal ''zmq_assert (false)'') else Inr None)"

definition options_setsockopt ::
    "'m build \<Rightarrow> sockopt \<Rightarrow> byte list option \<Rightarrow> nat \<Rightarrow> 'm options_t \<Rightarrow> 'm set_result" where
  "options_setsockopt B so x len opt =
     and_then (opt_int len x) (\<lambda>v.
       case set_case B so (len = 4) v len x opt of
         None \<Rightarrow> sockopt_error B False
       | Some r \<Rightarrow> and_then r (\<lambda>changed.
           case changed of None \<Rightarrow> sockopt_error B True | Some opt' \<Rightarrow> Inr (Some opt')))"


subsection \<open>getsockopt\<close>

text \<open>
  The result of a call that succeeds: the bytes stored at \<open>optval_\<close> and the new value of
  \<open>*optvallen_\<close>, whose value before is \<open>len\<close>.
\<close>

type_synonym get_result = "(byte list \<times> nat) option"

definition give_int :: "nat \<Rightarrow> int \<Rightarrow> get_result option" where
  "give_int len v = Some (if len = 4 then Some (le_bytes 4 v, len) else None)"

definition give_string :: "nat \<Rightarrow> byte list \<Rightarrow> get_result option" where
  "give_string len s = Some (if len \<ge> length s + 1 then Some (s @ [0], length s + 1) else None)"

definition get_basic :: "sockopt \<Rightarrow> nat \<Rightarrow> 'm options_t \<Rightarrow> get_result option" where
  "get_basic so len opt = (case so of
      ZMQ_SNDHWM \<Rightarrow> give_int len (o_sndhwm opt)
    | ZMQ_RCVHWM \<Rightarrow> give_int len (o_rcvhwm opt)
    | ZMQ_AFFINITY \<Rightarrow> Some (if len = 8 then Some (le_bytes 8 (uint (o_affinity opt)), len) else None)
    | ZMQ_IDENTITY \<Rightarrow> (Some (if int len \<ge> o_identity_size opt
           then Some (take (nat (o_identity_size opt)) (o_identity opt), nat (o_identity_size opt)) else None))
    | ZMQ_RATE \<Rightarrow> give_int len (o_rate opt)
    | ZMQ_RECOVERY_IVL \<Rightarrow> give_int len (o_recovery_ivl opt)
    | ZMQ_SNDBUF \<Rightarrow> give_int len (o_sndbuf opt)
    | ZMQ_RCVBUF \<Rightarrow> give_int len (o_rcvbuf opt)
    | ZMQ_TOS \<Rightarrow> give_int len (o_tos opt)
    | ZMQ_TYPE \<Rightarrow> give_int len (o_type opt)
    | ZMQ_LINGER \<Rightarrow> give_int len (o_linger opt)
    | ZMQ_RECONNECT_IVL \<Rightarrow> give_int len (o_reconnect_ivl opt)
    | ZMQ_RECONNECT_IVL_MAX \<Rightarrow> give_int len (o_reconnect_ivl_max opt)
    | ZMQ_BACKLOG \<Rightarrow> give_int len (o_backlog opt)
    | ZMQ_MAXMSGSIZE \<Rightarrow> Some (if len = 8 then Some (le_bytes 8 (o_maxmsgsize opt), 8) else None)
    | ZMQ_MULTICAST_HOPS \<Rightarrow> give_int len (o_multicast_hops opt)
    | ZMQ_RCVTIMEO \<Rightarrow> give_int len (o_rcvtimeo opt)
    | ZMQ_SNDTIMEO \<Rightarrow> give_int len (o_sndtimeo opt)
    | _ \<Rightarrow> None)"

definition get_tcp :: "sockopt \<Rightarrow> nat \<Rightarrow> 'm options_t \<Rightarrow> get_result option" where
  "get_tcp so len opt = (case so of
      ZMQ_IPV4ONLY \<Rightarrow> give_int len (1 - of_bool (o_ipv6 opt))
    | ZMQ_IPV6 \<Rightarrow> give_int len (of_bool (o_ipv6 opt))
    | ZMQ_IMMEDIATE \<Rightarrow> give_int len (o_immediate opt)
    | ZMQ_SOCKS_PROXY \<Rightarrow> give_string len (o_socks_proxy_address opt)
    | ZMQ_TCP_KEEPALIVE \<Rightarrow> give_int len (o_tcp_keepalive opt)
    | ZMQ_TCP_KEEPALIVE_CNT \<Rightarrow> give_int len (o_tcp_keepalive_cnt opt)
    | ZMQ_TCP_KEEPALIVE_IDLE \<Rightarrow> give_int len (o_tcp_keepalive_idle opt)
    | ZMQ_TCP_KEEPALIVE_INTVL \<Rightarrow> give_int len (o_tcp_keepalive_intvl opt)
    | _ \<Rightarrow> None)"

definition get_plain :: "sockopt \<Rightarrow> nat \<Rightarrow> 'm options_t \<Rightarrow> get_result option" where
  "get_plain so len opt = (case so of
      ZMQ_MECHANISM \<Rightarrow> give_int len (o_mechanism opt)
    | ZMQ_PLAIN_SERVER \<Rightarrow> give_int len (of_bool (o_as_server opt \<noteq> 0 \<and> o_mechanism opt = ZMQ_PLAIN))
    | ZMQ_PLAIN_USERNAME \<Rightarrow> give_string len (o_plain_username opt)
    | ZMQ_PLAIN_PASSWORD \<Rightarrow> give_string len (o_plain_password opt)
    | ZMQ_ZAP_DOMAIN \<Rightarrow> give_string len (o_zap_domain opt)
    | _ \<Rightarrow> None)"

definition give_key :: "nat \<Rightarrow> byte list \<Rightarrow> get_result option" where
  "give_key len key =
     Some (if len = CURVE_KEYSIZE then Some (key, len)
           else if len = CURVE_KEYSIZE_Z85 + 1 then
             (case zmq_z85_encode key of None \<Rightarrow> Some ([], len) | Some s \<Rightarrow> Some (s, len))
           else None)"

definition get_curve :: "'m build \<Rightarrow> sockopt \<Rightarrow> nat \<Rightarrow> 'm options_t \<Rightarrow> get_result option" where
  "get_curve B so len opt = (case so of
      ZMQ_CURVE_SERVER \<Rightarrow> (if have_libsodium B then give_int len (of_bool (o_as_server opt \<noteq> 0 \<and> o_mechanism opt = ZMQ_CURVE)) else None)
    | ZMQ_CURVE_PUBLICKEY \<Rightarrow> (if have_libsodium B then give_key len (o_curve_public_key opt) else None)
    | ZMQ_CURVE_SECRETKEY \<Rightarrow> (if have_libsodium B then give_key len (o_curve_secret_key opt) else None)
    | ZMQ_CURVE_SERVERKEY \<Rightarrow> (if have_libsodium B then give_key len (o_curve_server_key opt) else None)
    | _ \<Rightarrow> None)"

definition get_gssapi :: "'m build \<Rightarrow> sockopt \<Rightarrow> nat \<Rightarrow> 'm options_t \<Rightarrow> get_result option" where
  "get_gssapi B so len opt = (case so of
      ZMQ_CONFLATE \<Rightarrow> give_int len (of_bool (o_conflate opt))
    | ZMQ_GSSAPI_SERVER \<Rightarrow> (if have_gssapi B then give_int len (of_bool (o_as_server opt \<noteq> 0 \<and> o_mechanism opt = ZMQ_GSSAPI)) else None)
    | ZMQ_GSSAPI_PRINCIPAL \<Rightarrow> (if have_gssapi B then give_string len (o_gss_principal opt) else None)
    | ZMQ_GSSAPI_SERVICE_PRINCIPAL \<Rightarrow> (if have_gssapi B then give_string len (o_gss_service_principal opt) else None)
    | ZMQ_GSSAPI_PLAINTEXT \<Rightarrow> (if have_gssapi B then give_int len (of_bool (o_gss_plaintext opt)) else None)
    | ZMQ_HANDSHAKE_IVL \<Rightarrow> give_int len (o_handshake_ivl opt)
    | _ \<Rightarrow> None)"

definition get_case :: "'m build \<Rightarrow> sockopt \<Rightarrow> nat \<Rightarrow> 'm options_t \<Rightarrow> get_result option" where
  "get_case B so len opt =
     or_else (get_basic so len opt)
    (or_else (get_tcp so len opt)
    (or_else (get_plain so len opt)
    (or_else (get_curve B so len opt)
             (get_gssapi B so len opt))))"

definition options_getsockopt ::
    "'m build \<Rightarrow> sockopt \<Rightarrow> nat \<Rightarrow> 'm options_t \<Rightarrow> get_result outcome" where
  "options_getsockopt B so len opt =
     (case get_case B so len opt of
        None \<Rightarrow> sockopt_error B False
      | Some None \<Rightarrow> sockopt_error B True
      | Some (Some r) \<Rightarrow> Inr (Some r))"

end
