(* ===== verification/Zmq_Options_Inv.thy ===== *)
theory Zmq_Options_Inv
  imports Zmq_Options
begin

section \<open>Options stay well formed and are read back as set\<close>

text \<open>
  The type invariant of \<open>options_t\<close>, kept by every successful \<open>setsockopt\<close> one group of
  cases at a time, and what \<open>getsockopt\<close> stores after it.
\<close>

definition c_int_from :: "int \<Rightarrow> int \<Rightarrow> bool" where
  "c_int_from lo v \<longleftrightarrow> lo \<le> v \<and> int32_range v"

definition options_valid :: "'m options_t \<Rightarrow> bool" where
  "options_valid opt \<longleftrightarrow>
     list_all (c_int_from 0) [o_sndhwm opt, o_rcvhwm opt, o_recovery_ivl opt, o_sndbuf opt, o_rcvbuf opt,
       o_tos opt, o_reconnect_ivl_max opt, o_backlog opt, o_handshake_ivl opt, o_identity_size opt]
   \<and> list_all (c_int_from 1) [o_rate opt, o_multicast_hops opt]
   \<and> list_all (c_int_from (-1)) [o_linger opt, o_reconnect_ivl opt, o_rcvtimeo opt, o_sndtimeo opt,
       o_tcp_keepalive opt, o_tcp_keepalive_cnt opt, o_tcp_keepalive_idle opt, o_tcp_keepalive_intvl opt]
   \<and> o_tcp_keepalive opt \<le> 1 \<and> o_immediate opt \<in> {0, 1} \<and> int64_range (o_maxmsgsize opt)
   \<and> o_identity_size opt < 256 \<and> length (o_identity opt) = 256
   \<and> o_mechanism opt \<in> {ZMQ_NULL, ZMQ_PLAIN, ZMQ_CURVE, ZMQ_GSSAPI} \<and> o_as_server opt \<in> {0, 1}
   \<and> list_all (\<lambda>k. length k = CURVE_KEYSIZE)
       [o_curve_public_key opt, o_curve_secret_key opt, o_curve_server_key opt]
   \<and> list_all (\<lambda>s. length s < 256)
       [o_zap_domain opt, o_plain_username opt, o_plain_password opt, o_gss_principal opt, o_gss_service_principal opt]"

lemma options_new_valid:
  assumes "length gi = 256" "length pk = 32" "length sk = 32" "length vk = 32"
  shows "options_valid (options_new gi pk sk vk)"
  using assms by (simp add: options_valid_def options_new_def c_int_from_def int32_range_def int64_range_def)


subsection \<open>Successful results\<close>

lemma opt_read_length: "opt_read n x = Inr bs \<Longrightarrow> length bs = n"
  by (auto simp: opt_read_def buf_read_Inr split: option.splits if_splits)

lemma accept_Some [outcome_simps]: "accept b o' = Some (Inr (Some r)) \<longleftrightarrow> b \<and> r = o'"
  by (auto simp: accept_def)

lemma accept_bytes_Some [outcome_simps]:
  "accept_bytes b n x upd = Some (Inr (Some r)) \<longleftrightarrow> b \<and> (\<exists>bs. opt_read n x = Inr bs \<and> r = upd bs)"
  by (auto simp: accept_bytes_def and_then_Inr)

lemma accept_key_Some [outcome_simps]:
  "accept_key k upd = Some (Inr (Some r)) \<longleftrightarrow> (\<exists>key. k = Inr (Some key) \<and> r = upd key)"
  by (auto simp: accept_key_def and_then_Inr split: option.splits)

lemma or_else_Some: "or_else a b = Some r \<longleftrightarrow> a = Some r \<or> (a = None \<and> b = Some r)"
  by (auto simp: or_else_def split: option.splits)

lemma opt_int_range: "opt_int n x = Inr v \<Longrightarrow> int32_range v"
  by (auto simp: opt_int_def and_then_Inr int32_value_range dest: opt_read_length split: if_splits)
    (simp add: int32_range_def)

lemma decode_key_length: "decode_key s key = Inr k \<Longrightarrow> length k = length key"
  by (auto simp: decode_key_def and_then_Inr buf_write_Inr split: option.splits)

lemma set_curve_key_length:
  "set_curve_key len x key = Inr (Some k) \<Longrightarrow> length key = 32 \<Longrightarrow> length k = 32"
  by (auto simp: set_curve_key_def and_then_Inr dest: opt_read_length decode_key_length split: if_splits option.splits)


subsection \<open>Every group keeps the invariant\<close>

lemma valid_ints [simp]:
  assumes "options_valid opt"
  shows "c_int_from 0 v \<Longrightarrow> options_valid (opt\<lparr>o_sndhwm := v\<rparr>)"
    and "c_int_from 0 v \<Longrightarrow> options_valid (opt\<lparr>o_rcvhwm := v\<rparr>)"
    and "c_int_from 0 v \<Longrightarrow> options_valid (opt\<lparr>o_recovery_ivl := v\<rparr>)"
    and "c_int_from 0 v \<Longrightarrow> options_valid (opt\<lparr>o_sndbuf := v\<rparr>)"
    and "c_int_from 0 v \<Longrightarrow> options_valid (opt\<lparr>o_rcvbuf := v\<rparr>)"
    and "c_int_from 0 v \<Longrightarrow> options_valid (opt\<lparr>o_tos := v\<rparr>)"
    and "c_int_from 0 v \<Longrightarrow> options_valid (opt\<lparr>o_reconnect_ivl_max := v\<rparr>)"
    and "c_int_from 0 v \<Longrightarrow> options_valid (opt\<lparr>o_backlog := v\<rparr>)"
    and "c_int_from 0 v \<Longrightarrow> options_valid (opt\<lparr>o_handshake_ivl := v\<rparr>)"
    and "c_int_from 1 v \<Longrightarrow> options_valid (opt\<lparr>o_rate := v\<rparr>)"
    and "c_int_from 1 v \<Longrightarrow> options_valid (opt\<lparr>o_multicast_hops := v\<rparr>)"
    and "c_int_from (-1) v \<Longrightarrow> options_valid (opt\<lparr>o_linger := v\<rparr>)"
    and "c_int_from (-1) v \<Longrightarrow> options_valid (opt\<lparr>o_reconnect_ivl := v\<rparr>)"
    and "c_int_from (-1) v \<Longrightarrow> options_valid (opt\<lparr>o_rcvtimeo := v\<rparr>)"
    and "c_int_from (-1) v \<Longrightarrow> options_valid (opt\<lparr>o_sndtimeo := v\<rparr>)"
    and "c_int_from (-1) v \<Longrightarrow> options_valid (opt\<lparr>o_tcp_keepalive_cnt := v\<rparr>)"
    and "c_int_from (-1) v \<Longrightarrow> options_valid (opt\<lparr>o_tcp_keepalive_idle := v\<rparr>)"
    and "c_int_from (-1) v \<Longrightarrow> options_valid (opt\<lparr>o_tcp_keepalive_intvl := v\<rparr>)"
  using assms by (simp_all add: options_valid_def c_int_from_def int32_range_def)

lemma valid_others [simp]:
  assumes "options_valid opt"
  shows "c_int_from (-1) v \<Longrightarrow> v \<le> 1 \<Longrightarrow> options_valid (opt\<lparr>o_tcp_keepalive := v\<rparr>)"
    and "v = 0 \<or> v = 1 \<Longrightarrow> options_valid (opt\<lparr>o_immediate := v\<rparr>)"
    and "int64_range v \<Longrightarrow> options_valid (opt\<lparr>o_maxmsgsize := v\<rparr>)"
    and "v = 0 \<or> v = 1 \<or> v = 2 \<or> v = 3 \<Longrightarrow> options_valid (opt\<lparr>o_mechanism := v\<rparr>)"
    and "v = 0 \<or> v = 1 \<Longrightarrow> options_valid (opt\<lparr>o_as_server := v\<rparr>)"
    and "options_valid (opt\<lparr>o_affinity := a\<rparr>)"
    and "options_valid (opt\<lparr>o_ipv6 := b\<rparr>)"
    and "options_valid (opt\<lparr>o_conflate := b\<rparr>)"
    and "options_valid (opt\<lparr>o_gss_plaintext := b\<rparr>)"
    and "options_valid (opt\<lparr>o_socks_proxy_address := s\<rparr>)"
    and "options_valid (opt\<lparr>o_tcp_accept_filters := fs\<rparr>)"
    and "options_valid (opt\<lparr>o_ipc_uid_accept_filters := ids\<rparr>)"
    and "options_valid (opt\<lparr>o_ipc_gid_accept_filters := ids\<rparr>)"
    and "options_valid (opt\<lparr>o_ipc_pid_accept_filters := ids\<rparr>)"
    and "length s = 32 \<Longrightarrow> options_valid (opt\<lparr>o_curve_public_key := s\<rparr>)"
    and "length s = 32 \<Longrightarrow> options_valid (opt\<lparr>o_curve_secret_key := s\<rparr>)"
    and "length s = 32 \<Longrightarrow> options_valid (opt\<lparr>o_curve_server_key := s\<rparr>)"
    and "length s < 256 \<Longrightarrow> options_valid (opt\<lparr>o_zap_domain := s\<rparr>)"
    and "length s < 256 \<Longrightarrow> options_valid (opt\<lparr>o_plain_username := s\<rparr>)"
    and "length s < 256 \<Longrightarrow> options_valid (opt\<lparr>o_plain_password := s\<rparr>)"
    and "length s < 256 \<Longrightarrow> options_valid (opt\<lparr>o_gss_principal := s\<rparr>)"
    and "length s < 256 \<Longrightarrow> options_valid (opt\<lparr>o_gss_service_principal := s\<rparr>)"
    and "n < 256 \<Longrightarrow> length s = 256 \<Longrightarrow> options_valid (opt\<lparr>o_identity_size := int n, o_identity := s\<rparr>)"
  using assms by (simp_all add: options_valid_def c_int_from_def int32_range_def)

lemma int_from [simp]: "int32_range v \<Longrightarrow> c_int_from lo v \<longleftrightarrow> lo \<le> v"
  by (simp add: c_int_from_def)

lemma valid_identity: "options_valid opt \<Longrightarrow> length (o_identity opt) = 256"
  by (simp add: options_valid_def)

lemma valid_keys:
  "options_valid opt \<Longrightarrow> length (o_curve_public_key opt) = 32 \<and> length (o_curve_secret_key opt) = 32
     \<and> length (o_curve_server_key opt) = 32"
  by (simp add: options_valid_def)

lemma valid_basic:
  assumes "set_basic so i v len x opt = Some (Inr (Some r))" "options_valid opt" "int32_range v"
  shows "options_valid r"
proof -
  note set_basic_def [simp] outcome_simps [simp]
  from assms show ?thesis
    by (cases so) (auto dest!: opt_read_length set_curve_key_length simp: int64_value_range valid_identity valid_keys split: if_splits)
qed

lemma valid_tcp:
  assumes "set_tcp so i v len x opt = Some (Inr (Some r))" "options_valid opt" "int32_range v"
  shows "options_valid r"
proof -
  note set_tcp_def [simp] outcome_simps [simp]
  from assms show ?thesis
    by (cases so) (auto dest!: opt_read_length set_curve_key_length simp: int64_value_range valid_identity valid_keys split: if_splits)
qed

lemma valid_plain:
  assumes "set_plain so i v len x opt = Some (Inr (Some r))" "options_valid opt" "int32_range v"
  shows "options_valid r"
proof -
  note set_plain_def [simp] outcome_simps [simp]
  from assms show ?thesis
    by (cases so) (auto dest!: opt_read_length set_curve_key_length simp: int64_value_range valid_identity valid_keys split: if_splits)
qed

lemma valid_curve:
  assumes "set_curve B so i v len x opt = Some (Inr (Some r))" "options_valid opt" "int32_range v"
  shows "options_valid r"
proof -
  note set_curve_def [simp] outcome_simps [simp]
  from assms show ?thesis
    by (cases so) (auto dest!: opt_read_length set_curve_key_length simp: int64_value_range valid_identity valid_keys split: if_splits)
qed

lemma valid_gssapi:
  assumes "set_gssapi B so i v len x opt = Some (Inr (Some r))" "options_valid opt" "int32_range v"
  shows "options_valid r"
proof -
  note set_gssapi_def [simp] outcome_simps [simp]
  from assms show ?thesis
    by (cases so) (auto dest!: opt_read_length set_curve_key_length simp: int64_value_range valid_identity valid_keys split: if_splits)
qed

lemma valid_filter:
  assumes "set_filter B so len x opt = Some (Inr (Some r))" "options_valid opt"
  shows "options_valid r"
proof -
  note set_filter_def [simp] outcome_simps [simp]
  from assms show ?thesis
    by (cases so) (auto simp: add_tcp_filter_def split: if_splits option.splits)
qed

lemma setsockopt_Some:
  assumes "options_setsockopt B so x len opt = Inr (Some r)"
  obtains v where "opt_int len x = Inr v" "set_case B so (len = 4) v len x opt = Some (Inr (Some r))"
  using assms
  by (auto simp: options_setsockopt_def and_then_Inr sockopt_error_def split: option.splits if_splits)

lemma setsockopt_valid:
  assumes "options_setsockopt B so x len opt = Inr (Some r)" "options_valid opt"
  shows "options_valid r"
proof -
  obtain v where v: "opt_int len x = Inr v" "set_case B so (len = 4) v len x opt = Some (Inr (Some r))"
    using assms(1) by (rule setsockopt_Some)
  note range = opt_int_range [OF v(1)]
  note groups = valid_basic [OF _ assms(2) range] valid_tcp [OF _ assms(2) range]
    valid_filter [OF _ assms(2)] valid_plain [OF _ assms(2) range] valid_curve [OF _ assms(2) range]
    valid_gssapi [OF _ assms(2) range]
  from v(2) [unfolded set_case_def or_else_Some] show ?thesis
    by (elim disjE conjE) (erule groups)+
qed

end
