(* ===== verification/Zmq_Options_Properties.thy ===== *)
theory Zmq_Options_Properties
  imports Zmq_Options_Inv
begin

section \<open>Properties of the socket options\<close>

text \<open>
  Round trips through \<open>setsockopt\<close> and \<open>getsockopt\<close> and through the Z85 codec, the type
  invariant, the bound on what \<open>getsockopt\<close> stores, and the one place where a malformed
  value is accepted.
\<close>

definition string_option :: "sockopt \<Rightarrow> bool" where
  "string_option so \<longleftrightarrow> so \<in> {ZMQ_SOCKS_PROXY, ZMQ_PLAIN_USERNAME, ZMQ_PLAIN_PASSWORD, ZMQ_ZAP_DOMAIN,
     ZMQ_GSSAPI_PRINCIPAL, ZMQ_GSSAPI_SERVICE_PRINCIPAL}"

definition filter_option :: "sockopt \<Rightarrow> bool" where
  "filter_option so \<longleftrightarrow> so \<in> {ZMQ_TCP_ACCEPT_FILTER, ZMQ_IPC_FILTER_UID, ZMQ_IPC_FILTER_GID, ZMQ_IPC_FILTER_PID}"

definition key_option :: "sockopt \<Rightarrow> bool" where
  "key_option so \<longleftrightarrow> so \<in> {ZMQ_CURVE_PUBLICKEY, ZMQ_CURVE_SECRETKEY, ZMQ_CURVE_SERVERKEY}"

definition room_for :: "sockopt \<Rightarrow> nat \<Rightarrow> nat" where
  "room_for so len = (if string_option so then len + 1 else len)"

definition read_back :: "sockopt \<Rightarrow> byte list \<Rightarrow> byte list" where
  "read_back so bs = (if string_option so then bs @ [0] else bs)"

lemmas option_kinds = string_option_def filter_option_def key_option_def room_for_def read_back_def


subsection \<open>Reading back\<close>

lemma opt_read_Some: "opt_read n (Some val) = Inr bs \<longleftrightarrow> n \<le> length val \<and> bs = take n val"
  by (auto simp: opt_read_def buf_read_def)

lemma opt_int_bytes: "opt_int 4 (Some val) = Inr v \<Longrightarrow> le_bytes 4 v = take 4 val"
  by (auto simp: opt_int_def and_then_Inr opt_read_Some)

lemma affinity_bytes: "length bs = 8 \<Longrightarrow> le_bytes 8 (uint (word_of_int (le_value bs) :: 64 word)) = bs"
  using le_value_bounds [of bs] le_bytes_le_value [of bs] by (simp add: uint_word_of_int)

lemma of_bool_01: "(v :: int) = 0 \<or> v = 1 \<Longrightarrow> of_bool (v \<noteq> 0) = v"
  by auto

lemma back_basic:
  assumes "set_basic so (len = 4) v len (Some val) opt = Some (Inr (Some r))" "opt_int len (Some val) = Inr v"
  shows "get_case B so (room_for so len) r = Some (Some (read_back so (take len val), room_for so len))"
proof -
  note set_basic_def [simp] outcome_simps [simp] get_case_def [simp] get_basic_def [simp] or_else_def [simp]
    give_int_def [simp] option_kinds [simp] opt_read_Some [simp] opt_int_bytes [simp] affinity_bytes [simp]
  from assms show ?thesis by (cases so) (auto split: if_splits)
qed

lemma back_tcp:
  assumes "set_tcp so (len = 4) v len (Some val) opt = Some (Inr (Some r))" "opt_int len (Some val) = Inr v"
  shows "get_case B so (room_for so len) r = Some (Some (read_back so (take len val), room_for so len))"
proof -
  note set_tcp_def [simp] outcome_simps [simp] get_case_def [simp] get_basic_def [simp] get_tcp_def [simp]
    or_else_def [simp] give_int_def [simp] give_string_def [simp] option_kinds [simp] opt_read_Some [simp]
  from assms opt_int_bytes [of val v] show ?thesis by (cases so) (auto split: if_splits)
qed

lemma back_plain:
  assumes "set_plain so (len = 4) v len (Some val) opt = Some (Inr (Some r))" "opt_int len (Some val) = Inr v"
  shows "get_case B so (room_for so len) r = Some (Some (read_back so (take len val), room_for so len))"
proof -
  note set_plain_def [simp] outcome_simps [simp] get_case_def [simp] get_basic_def [simp] get_tcp_def [simp]
    get_plain_def [simp] or_else_def [simp] give_int_def [simp] give_string_def [simp] option_kinds [simp] opt_read_Some [simp]
  from assms opt_int_bytes [of val v] show ?thesis by (cases so) (auto split: if_splits)
qed

lemma back_curve:
  assumes "set_curve B so (len = 4) v len (Some val) opt = Some (Inr (Some r))" "opt_int len (Some val) = Inr v"
    "key_option so \<Longrightarrow> len = 32"
  shows "get_case B so (room_for so len) r = Some (Some (read_back so (take len val), room_for so len))"
proof -
  note set_curve_def [simp] outcome_simps [simp] get_case_def [simp] get_basic_def [simp] get_tcp_def [simp]
    get_plain_def [simp] get_curve_def [simp] or_else_def [simp] give_int_def [simp] give_key_def [simp]
    set_curve_key_def [simp] option_kinds [simp] opt_read_Some [simp]
  from assms opt_int_bytes [of val v] show ?thesis by (cases so) (auto split: if_splits)
qed

lemma back_gssapi:
  assumes "set_gssapi B so (len = 4) v len (Some val) opt = Some (Inr (Some r))" "opt_int len (Some val) = Inr v"
  shows "get_case B so (room_for so len) r = Some (Some (read_back so (take len val), room_for so len))"
proof -
  note set_gssapi_def [simp] outcome_simps [simp] get_case_def [simp] get_basic_def [simp] get_tcp_def [simp]
    get_plain_def [simp] get_curve_def [simp] get_gssapi_def [simp] or_else_def [simp] give_int_def [simp]
    give_string_def [simp] option_kinds [simp] opt_read_Some [simp]
  from assms opt_int_bytes [of val v] show ?thesis by (cases so) (auto split: if_splits)
qed

lemma filter_group: "set_filter B so len x opt = Some r \<Longrightarrow> filter_option so"
  by (cases so) (auto simp: set_filter_def filter_option_def)

text \<open>C32: sockopt_roundtrip. Every option that \<open>setsockopt\<close> accepts, other than the accept
  filters nobody can read, is read back as it was set: \<open>getsockopt\<close> with a buffer of the same length
  (one more for a string, which gets its terminator) stores the same bytes and that length. Keys are
  meant in their binary form.\<close>

lemma sockopt_roundtrip:
  assumes "options_setsockopt B so (Some val) len opt = Inr (Some opt')"
    and "\<not> filter_option so" "key_option so \<Longrightarrow> len = CURVE_KEYSIZE"
  shows "options_getsockopt B so (room_for so len) opt'
       = Inr (Some (read_back so (take len val), room_for so len))"
proof -
  obtain v where v: "opt_int len (Some val) = Inr v"
      "set_case B so (len = 4) v len (Some val) opt = Some (Inr (Some opt'))"
    using assms(1) by (rule setsockopt_Some)
  have "get_case B so (room_for so len) opt' = Some (Some (read_back so (take len val), room_for so len))"
    using v(2) [unfolded set_case_def or_else_Some]
  proof (elim disjE conjE)
    assume "set_filter B so len (Some val) opt = Some (Inr (Some opt'))"
    then show ?thesis using filter_group assms(2) by blast
  next
    assume "set_curve B so (len = 4) v len (Some val) opt = Some (Inr (Some opt'))"
    then show ?thesis using v(1) assms(3) by (rule back_curve)
  qed (rule back_basic [OF _ v(1)] back_tcp [OF _ v(1)] back_plain [OF _ v(1)] back_gssapi [OF _ v(1)], assumption)+
  then show ?thesis by (simp add: options_getsockopt_def)
qed

definition default_build :: "nat build" where
  "default_build = \<lparr>have_libsodium = True, have_gssapi = False, have_so_peercred = True, act_militant = False,
     mask_resolve = (\<lambda>s v6. Some (length s))\<rparr>"

abbreviation default_options :: "nat options_t" where
  "default_options \<equiv> options_new (replicate 256 0) (replicate 32 0) (replicate 32 0) (replicate 32 0)"

lemma sockopt_roundtrip_witness:
  "\<exists>opt'. options_setsockopt default_build ZMQ_LINGER (Some [0x10, 0x27, 0, 0]) 4 default_options = Inr (Some opt')
     \<and> options_getsockopt default_build ZMQ_LINGER 4 opt' = Inr (Some ([0x10, 0x27, 0, 0], 4))"
proof -
  have "\<exists>opt'. options_setsockopt default_build ZMQ_LINGER (Some [0x10, 0x27, 0, 0]) 4 default_options = Inr (Some opt')"
    by (simp add: options_setsockopt_def opt_int_def opt_read_def buf_read_def set_case_def or_else_def set_basic_def
        accept_def int32_value_def)
  then obtain opt' where s: "options_setsockopt default_build ZMQ_LINGER (Some [0x10, 0x27, 0, 0]) 4 default_options = Inr (Some opt')"
    by (elim exE)
  from sockopt_roundtrip [OF s] have "options_getsockopt default_build ZMQ_LINGER 4 opt' = Inr (Some ([0x10, 0x27, 0, 0], 4))"
    by (simp add: option_kinds)
  with s show ?thesis by (intro exI conjI)
qed

text \<open>C33: options_stay_valid. The constructor makes well-formed options, and \<open>setsockopt\<close>,
  whatever it is called with, keeps them so: every number in its range and at its width, the flags 0 or 1, the
  mechanism one of the four, the identity and the keys in arrays of their sizes, the strings below 256 bytes.\<close>

lemma options_stay_valid:
  assumes "options_setsockopt B so x len opt = Inr (Some opt')"
    and "options_valid opt \<or> opt = options_new gi pk sk vk \<and> length gi = 256 \<and> length pk = 32 \<and> length sk = 32 \<and> length vk = 32"
  shows "options_valid opt'"
  using assms(2) setsockopt_valid [OF assms(1)] options_new_valid by blast

lemma options_stay_valid_witness:
  "\<exists>opt'. options_setsockopt default_build ZMQ_RATE (Some [5, 0, 0, 0]) 4 default_options = Inr (Some opt') \<and> options_valid opt'"
proof -
  have "\<exists>opt'. options_setsockopt default_build ZMQ_RATE (Some [5, 0, 0, 0]) 4 default_options = Inr (Some opt')"
    by (simp add: options_setsockopt_def opt_int_def opt_read_def buf_read_def set_case_def or_else_def set_basic_def
        accept_def int32_value_def)
  then obtain opt' where s: "options_setsockopt default_build ZMQ_RATE (Some [5, 0, 0, 0]) 4 default_options = Inr (Some opt')"
    by (elim exE)
  from options_stay_valid [OF s, of "replicate 256 0" "replicate 32 0" "replicate 32 0" "replicate 32 0"]
  have "options_valid opt'" by (simp only: length_replicate) simp
  with s show ?thesis by (intro exI conjI)
qed


subsection \<open>The size of what is read\<close>

lemma give_int_fits: "give_int len v = Some (Some (bs, n)) \<Longrightarrow> length bs = n \<and> n \<le> len"
  by (auto simp: give_int_def split: if_splits)

lemma give_string_fits: "give_string len s = Some (Some (bs, n)) \<Longrightarrow> length bs = n \<and> n \<le> len"
  by (auto simp: give_string_def split: if_splits)

lemma give_key_fits: "length key = 32 \<Longrightarrow> give_key len key = Some (Some (bs, n)) \<Longrightarrow> length bs = n \<and> n \<le> len"
  using encode_result [of key] z85_groups_facts(1) [of key]
  by (auto simp: give_key_def split: if_splits)

lemma valid_identity_size: "options_valid opt \<Longrightarrow> 0 \<le> o_identity_size opt \<and> o_identity_size opt \<le> 256"
  by (simp add: options_valid_def c_int_from_def)

lemmas gets_fit = give_int_fits give_string_fits give_key_fits

text \<open>\<open>getsockopt\<close> never stores more bytes than the caller's
  \<open>*optvallen_\<close> says there is room for, and leaves in \<open>*optvallen_\<close> the number it stored.\<close>

lemma getsockopt_fits:
  assumes "options_getsockopt B so len opt = Inr (Some (bs, n))" "options_valid opt"
  shows "length bs = n \<and> n \<le> len"
proof -
  have g: "get_case B so len opt = Some (Some (bs, n))"
    using assms(1) by (auto simp: options_getsockopt_def sockopt_error_def split: option.splits if_splits)
  note get_basic_def [simp] get_tcp_def [simp] get_plain_def [simp] get_curve_def [simp] get_gssapi_def [simp]
  have "length bs = n \<and> n \<le> len" if "get_basic so len opt = Some (Some (bs, n))"
    using that valid_identity_size [OF assms(2)] valid_identity [OF assms(2)]
    by (cases so) (auto dest: gets_fit split: if_splits)
  moreover have "length bs = n \<and> n \<le> len" if "get_tcp so len opt = Some (Some (bs, n))"
    using that by (cases so) (auto dest: gets_fit)
  moreover have "length bs = n \<and> n \<le> len" if "get_plain so len opt = Some (Some (bs, n))"
    using that by (cases so) (auto dest: gets_fit)
  moreover have "length bs = n \<and> n \<le> len" if "get_curve B so len opt = Some (Some (bs, n))"
    using that valid_keys [OF assms(2)] by (cases so) (auto dest: gets_fit split: if_splits)
  moreover have "length bs = n \<and> n \<le> len" if "get_gssapi B so len opt = Some (Some (bs, n))"
    using that by (cases so) (auto dest: gets_fit split: if_splits)
  ultimately show ?thesis using g [unfolded get_case_def or_else_Some] by (elim disjE conjE) simp_all
qed

lemma le_bytes_4: "le_bytes 4 x = [word_of_int x, word_of_int (x div 256), word_of_int (x div 256 div 256),
    word_of_int (x div 256 div 256 div 256)]"
  by (simp add: numeral_eq_Suc)

lemma getsockopt_fits_witness:
  "options_getsockopt default_build ZMQ_SNDHWM 4 default_options = Inr (Some ([0xE8, 3, 0, 0], 4))
     \<and> length [0xE8, 3, 0, 0 :: byte] \<le> 4"
proof -
  have g: "options_getsockopt default_build ZMQ_SNDHWM 4 default_options = Inr (Some ([0xE8, 3, 0, 0], 4))"
    by (simp add: options_getsockopt_def get_case_def or_else_def get_basic_def give_int_def options_new_def
        le_bytes_4)
  have "options_valid default_options" by (rule options_new_valid) (simp_all only: length_replicate)
  from getsockopt_fits [OF g this] g show ?thesis by simp
qed


subsection \<open>Z85\<close>


text \<open>\<open>setsockopt\<close> does not look at the result of the decoder: a server
  key of 41 bytes that is no Z85 string is accepted, the socket is switched to CURVE and keeps whatever key it had,
  which for a new socket is uninitialised memory.\<close>

lemma curve_malformed_key_accepted:
  assumes "have_libsodium B" "0 \<in> set val" "length (c_str val) mod 5 \<noteq> 0"
  shows "options_setsockopt B ZMQ_CURVE_SERVERKEY (Some val) 41 opt
       = Inr (Some (opt\<lparr>o_curve_server_key := o_curve_server_key opt, o_mechanism := ZMQ_CURVE, o_as_server := 0\<rparr>))"
  using assms
  by (simp add: options_setsockopt_def opt_int_def set_case_def or_else_def set_basic_def set_tcp_def set_filter_def
      set_plain_def set_curve_def accept_key_def set_curve_key_def decode_key_def zmq_z85_decode_def Let_def)

lemma curve_malformed_key_accepted_witness:
  "\<exists>opt'. options_setsockopt default_build ZMQ_CURVE_SERVERKEY (Some ([48, 48, 48, 48, 0] @ replicate 36 0)) 41 default_options
       = Inr (Some opt') \<and> o_mechanism opt' = ZMQ_CURVE"
proof -
  let ?val = "[48, 48, 48, 48, 0] @ replicate 36 0 :: byte list"
  have "c_str ?val = [48, 48, 48, 48]" by (simp add: c_str_def)
  then have l: "length (c_str ?val) mod 5 \<noteq> 0" by simp
  have "have_libsodium default_build" "0 \<in> set ?val" by (simp_all add: default_build_def)
  from curve_malformed_key_accepted [OF this l, of default_options] show ?thesis by simp
qed

end
