(* ===== verification/Zmq_Ypipe.thy ===== *)
theory Zmq_Ypipe
  imports Mog_Prelude
begin

section \<open>The lock-free pipe of ZeroMQ\<close>

text \<open>
  \<open>ypipe.hpp\<close>: the queue between the thread that writes to a pipe and the one that reads
  from it. A pointer into the queue is a position, counted from the first item ever written;
  the items written and not taken back are \<open>yp_items\<close>, so the terminator (\<open>queue.back ()\<close>)
  is at their length and \<open>queue.front ()\<close> at \<open>yp_front\<close>. The pointers \<open>w\<close>, \<open>r\<close>, \<open>f\<close>, \<open>c\<close>
  always point between front and back, so positions stand for addresses although chunks of
  memory are reused. \<open>c\<close> and \<open>r\<close> may be NULL. A call of the writer and a call of the reader
  meet only in the compare-and-swap on \<open>c\<close>, so each call is a step; when the swap of \<open>flush\<close>
  fails the reader is asleep and does not call again before \<open>flush\<close> has returned.
\<close>

record 'a ypipe =
  yp_items :: "'a list"
  yp_front :: nat
  yp_w :: nat
  yp_r :: "nat option"
  yp_f :: nat
  yp_c :: "nat option"

definition ypipe_new :: "'a ypipe" where
  "ypipe_new = \<lparr>yp_items = [], yp_front = 0, yp_w = 0, yp_r = Some 0, yp_f = 0, yp_c = Some 0\<rparr>"

abbreviation yp_back :: "'a ypipe \<Rightarrow> nat" where
  "yp_back y \<equiv> length (yp_items y)"

definition ypipe_write :: "'a \<Rightarrow> bool \<Rightarrow> 'a ypipe \<Rightarrow> 'a ypipe" where
  "ypipe_write v incomplete y =
     (let y1 = y\<lparr>yp_items := yp_items y @ [v]\<rparr>
      in if \<not> incomplete then y1\<lparr>yp_f := yp_back y1\<rparr> else y1)"

definition ypipe_unwrite :: "'a ypipe \<Rightarrow> 'a option \<times> 'a ypipe" where
  "ypipe_unwrite y =
     (if yp_f y = yp_back y then (None, y)
      else (Some (last (yp_items y)), y\<lparr>yp_items := butlast (yp_items y)\<rparr>))"

text \<open>\<open>atomic_ptr_t::cas\<close>: the old value, and the new one where the old was as expected.\<close>

definition cas :: "nat option \<Rightarrow> nat option \<Rightarrow> nat option \<Rightarrow> nat option \<times> nat option" where
  "cas c expected new = (c, if c = expected then new else c)"

definition ypipe_flush :: "'a ypipe \<Rightarrow> bool \<times> 'a ypipe" where
  "ypipe_flush y =
     (if yp_w y = yp_f y then (True, y)
      else let (old, c) = cas (yp_c y) (Some (yp_w y)) (Some (yp_f y))
           in if old \<noteq> Some (yp_w y) then (False, y\<lparr>yp_c := Some (yp_f y), yp_w := yp_f y\<rparr>)
              else (True, y\<lparr>yp_c := c, yp_w := yp_f y\<rparr>))"

definition ypipe_check_read :: "'a ypipe \<Rightarrow> bool \<times> 'a ypipe" where
  "ypipe_check_read y =
     (if Some (yp_front y) \<noteq> yp_r y \<and> yp_r y \<noteq> None then (True, y)
      else let (r, c) = cas (yp_c y) (Some (yp_front y)) None; y1 = y\<lparr>yp_r := r, yp_c := c\<rparr>
           in if Some (yp_front y) = r \<or> r = None then (False, y1) else (True, y1))"

definition ypipe_read :: "'a ypipe \<Rightarrow> 'a option \<times> 'a ypipe" where
  "ypipe_read y =
     (case ypipe_check_read y of
        (False, y1) \<Rightarrow> (None, y1)
      | (True, y1) \<Rightarrow> (Some (yp_items y1 ! yp_front y1), y1\<lparr>yp_front := yp_front y1 + 1\<rparr>))"

definition ypipe_probe :: "('a \<Rightarrow> bool) \<Rightarrow> 'a ypipe \<Rightarrow> (bool \<times> 'a ypipe) outcome" where
  "ypipe_probe fn y =
     (case ypipe_check_read y of
        (False, y1) \<Rightarrow> Inl (Fatal ''zmq_assert (rc)'')
      | (True, y1) \<Rightarrow> Inr (fn (yp_items y1 ! yp_front y1), y1))"


subsection \<open>What a pipe promises\<close>

text \<open>
  The contract of a pipe for its two users: the items the reader can have, those that are
  complete but not flushed, those of an item not completed yet, and whether the reader sleeps.
\<close>

record 'a message_pipe =
  mp_ready :: "'a list"
  mp_complete :: "'a list"
  mp_partial :: "'a list"
  mp_asleep :: bool

definition mp_write :: "'a \<Rightarrow> bool \<Rightarrow> 'a message_pipe \<Rightarrow> 'a message_pipe" where
  "mp_write v incomplete m =
     (if incomplete then m\<lparr>mp_partial := mp_partial m @ [v]\<rparr>
      else m\<lparr>mp_complete := mp_complete m @ mp_partial m @ [v], mp_partial := []\<rparr>)"

definition mp_unwrite :: "'a message_pipe \<Rightarrow> 'a option \<times> 'a message_pipe" where
  "mp_unwrite m =
     (if mp_partial m = [] then (None, m)
      else (Some (last (mp_partial m)), m\<lparr>mp_partial := butlast (mp_partial m)\<rparr>))"

definition mp_flush :: "'a message_pipe \<Rightarrow> bool \<times> 'a message_pipe" where
  "mp_flush m =
     (if mp_complete m = [] then (True, m)
      else (\<not> mp_asleep m, m\<lparr>mp_ready := mp_ready m @ mp_complete m, mp_complete := [], mp_asleep := False\<rparr>))"

definition mp_check_read :: "'a message_pipe \<Rightarrow> bool \<times> 'a message_pipe" where
  "mp_check_read m = (if mp_ready m \<noteq> [] then (True, m) else (False, m\<lparr>mp_asleep := True\<rparr>))"

definition mp_read :: "'a message_pipe \<Rightarrow> 'a option \<times> 'a message_pipe" where
  "mp_read m =
     (if mp_ready m \<noteq> [] then (Some (hd (mp_ready m)), m\<lparr>mp_ready := tl (mp_ready m)\<rparr>)
      else (None, m\<lparr>mp_asleep := True\<rparr>))"


subsection \<open>Invariant and abstraction\<close>

definition ypipe_ok :: "'a ypipe \<Rightarrow> bool" where
  "ypipe_ok y \<longleftrightarrow> yp_front y \<le> yp_w y \<and> yp_w y \<le> yp_f y \<and> yp_f y \<le> yp_back y
     \<and> (\<forall>x. yp_c y = Some x \<longrightarrow> x = yp_w y) \<and> (yp_c y = None \<longrightarrow> yp_w y = yp_front y)
     \<and> (\<forall>x. yp_r y = Some x \<longrightarrow> yp_front y \<le> x \<and> x \<le> yp_w y)"

definition pipe_of :: "'a ypipe \<Rightarrow> 'a message_pipe" where
  "pipe_of y =
     \<lparr>mp_ready = drop (yp_front y) (take (yp_w y) (yp_items y)),
      mp_complete = drop (yp_w y) (take (yp_f y) (yp_items y)),
      mp_partial = drop (yp_f y) (yp_items y),
      mp_asleep = (yp_c y = None)\<rparr>"

lemma ypipe_new_ok: "ypipe_ok ypipe_new"
  by (simp add: ypipe_ok_def ypipe_new_def)

lemma write_refines:
  assumes "ypipe_ok y"
  shows "ypipe_ok (ypipe_write v i y) \<and> pipe_of (ypipe_write v i y) = mp_write v i (pipe_of y)"
proof -
  have "yp_w y \<le> yp_back y" "yp_f y \<le> yp_back y" using assms by (auto simp: ypipe_ok_def)
  moreover have "drop (yp_w y) (take (yp_f y) (yp_items y)) @ drop (yp_f y) (yp_items y) = drop (yp_w y) (yp_items y)"
  proof -
    have "drop (yp_w y) (take (yp_f y) (yp_items y) @ drop (yp_f y) (yp_items y))
        = drop (yp_w y) (take (yp_f y) (yp_items y)) @ drop (yp_f y) (yp_items y)"
      using assms by (simp add: ypipe_ok_def del: append_take_drop_id)
    then show ?thesis by simp
  qed
  ultimately show ?thesis
    using assms
    by (auto simp: ypipe_write_def mp_write_def pipe_of_def ypipe_ok_def Let_def)
qed

lemma unwrite_refines:
  assumes "ypipe_ok y" "ypipe_unwrite y = (v, y')"
  shows "ypipe_ok y' \<and> mp_unwrite (pipe_of y) = (v, pipe_of y')"
proof (cases "yp_f y = yp_back y")
  case True
  then show ?thesis using assms by (simp add: ypipe_unwrite_def mp_unwrite_def pipe_of_def)
next
  case False
  then have lt: "yp_f y < yp_back y" using assms(1) by (simp add: ypipe_ok_def)
  then have "drop (yp_f y) (butlast (yp_items y)) = butlast (drop (yp_f y) (yp_items y))"
    "take (yp_f y) (butlast (yp_items y)) = take (yp_f y) (yp_items y)"
    "take (yp_w y) (butlast (yp_items y)) = take (yp_w y) (yp_items y)"
    using assms(1) by (auto simp: butlast_drop take_butlast ypipe_ok_def)
  then show ?thesis
    using assms lt by (auto simp: ypipe_unwrite_def mp_unwrite_def pipe_of_def ypipe_ok_def)
qed

lemma flush_refines:
  assumes "ypipe_ok y" "ypipe_flush y = (b, y')"
  shows "ypipe_ok y' \<and> mp_flush (pipe_of y) = (b, pipe_of y')"
proof -
  have le: "yp_front y \<le> yp_w y" "yp_w y \<le> yp_f y" "yp_f y \<le> yp_back y"
    using assms(1) by (auto simp: ypipe_ok_def)
  have "drop (yp_front y) (take (yp_f y) (yp_items y))
      = drop (yp_front y) (take (yp_w y) (yp_items y)) @ drop (yp_w y) (take (yp_f y) (yp_items y))"
  proof -
    have "take (yp_f y) (yp_items y) = take (yp_w y) (yp_items y) @ drop (yp_w y) (take (yp_f y) (yp_items y))"
      using le by (metis append_take_drop_id min.absorb1 take_take)
    then have "drop (yp_front y) (take (yp_f y) (yp_items y))
        = drop (yp_front y) (take (yp_w y) (yp_items y) @ drop (yp_w y) (take (yp_f y) (yp_items y)))"
      by simp
    then show ?thesis using le by simp
  qed
  then show ?thesis
    using assms le
    by (cases "yp_c y") (auto simp: ypipe_flush_def cas_def mp_flush_def pipe_of_def ypipe_ok_def split: if_splits)
qed

lemma check_read_refines:
  assumes "ypipe_ok y" "ypipe_check_read y = (b, y')"
  shows "ypipe_ok y' \<and> mp_check_read (pipe_of y) = (b, pipe_of y')
     \<and> yp_items y' = yp_items y \<and> yp_front y' = yp_front y 
     \<and> (b \<longrightarrow> (\<exists>x. yp_r y' = Some x \<and> yp_front y < x \<and> x \<le> yp_w y'))"
  using assms
  by (cases "yp_c y"; cases "yp_r y")
    (auto simp: ypipe_check_read_def cas_def mp_check_read_def pipe_of_def ypipe_ok_def split: if_splits)

lemma read_refines:
  assumes "ypipe_ok y" "ypipe_read y = (v, y')"
  shows "ypipe_ok y' \<and> mp_read (pipe_of y) = (v, pipe_of y')"
proof -
  obtain b y1 where c: "ypipe_check_read y = (b, y1)" by (cases "ypipe_check_read y")
  note r = check_read_refines [OF assms(1) c]
  show ?thesis
  proof (cases b)
    case False
    then show ?thesis
      using assms(2) c r by (auto simp: ypipe_read_def mp_read_def mp_check_read_def split: if_splits)
  next
    case True
    have y': "v = Some (yp_items y1 ! yp_front y1)" "y' = y1\<lparr>yp_front := yp_front y1 + 1\<rparr>"
      using assms(2) c True by (auto simp: ypipe_read_def)
    have lt: "yp_front y1 < length (take (yp_w y1) (yp_items y1))"
      using r True by (auto simp: ypipe_ok_def)
    have "yp_c y1 \<noteq> None" using r True by (auto simp: ypipe_ok_def)
    then have "ypipe_ok y'"
      using r True lt by (auto simp: y' ypipe_ok_def)
    moreover have "pipe_of y = pipe_of y1" "mp_ready (pipe_of y) \<noteq> []"
      using r True by (auto simp: mp_check_read_def split: if_splits)
    moreover have "mp_ready (pipe_of y1) = (yp_items y1 ! yp_front y1) # mp_ready (pipe_of y')"
      using Cons_nth_drop_Suc [OF lt] lt by (simp add: pipe_of_def y')
    ultimately show ?thesis using y' by (simp add: mp_read_def pipe_of_def)
  qed
qed

end
