(* ===== verification/Zmq_Pipe.thy ===== *)
theory Zmq_Pipe
  imports Zmq_Ypipe "HOL-Library.Signed_Division"
begin

section \<open>Pipes between ZeroMQ sockets and sessions\<close>

text \<open>
  \<open>pipe.hpp\<close> and \<open>pipe.cpp\<close>: one end of a pair of pipes. An operation takes the end and the
  \<open>ypipe\<close> it works on and returns them with the commands it sends to its peer and the events
  it raises at its sink. \<open>pe_outpipe\<close> says that the pointer \<open>outpipe\<close> is not NULL,
  \<open>pe_alive\<close> that the object is not deleted. The 64-bit message counters are naturals. A failed
  assertion is \<open>Fatal\<close>. Of a message the model has its flags and its data. The reconnection of
  a session (\<open>hiccup\<close>) and conflating pipes are not modelled.
\<close>

record zmsg =
  msg_more :: bool
  msg_identity :: bool
  msg_credential :: bool
  msg_delimiter :: bool
  msg_data :: "byte list"

datatype pipe_state =
  P_active | P_delimiter_received | P_waiting_for_delimiter | P_term_ack_sent | P_term_req_sent1 | P_term_req_sent2

datatype pipe_cmd = Activate_read | Activate_write nat | Pipe_term | Pipe_term_ack

datatype sink_event = Read_activated | Write_activated | Pipe_terminated

record pipe_end =
  pe_in_active :: bool
  pe_out_active :: bool
  pe_hwm :: int
  pe_lwm :: int
  pe_msgs_read :: nat
  pe_msgs_written :: nat
  pe_peers_msgs_read :: nat
  pe_state :: pipe_state
  pe_delay :: bool
  pe_outpipe :: bool
  pe_credential :: "byte list"
  pe_alive :: bool

definition max_wm_delta :: int where
  "max_wm_delta = 1024"

definition compute_lwm :: "int \<Rightarrow> int" where
  "compute_lwm hwm = (if hwm > max_wm_delta * 2 then hwm - max_wm_delta else (hwm + 1) sdiv 2)"

definition pipe_new :: "int \<Rightarrow> int \<Rightarrow> pipe_end" where
  "pipe_new inhwm outhwm =
     \<lparr>pe_in_active = True, pe_out_active = True, pe_hwm = outhwm, pe_lwm = compute_lwm inhwm,
      pe_msgs_read = 0, pe_msgs_written = 0, pe_peers_msgs_read = 0, pe_state = P_active, pe_delay = True,
      pe_outpipe = True, pe_credential = [], pe_alive = True\<rparr>"

definition may_read :: "pipe_end \<Rightarrow> bool" where
  "may_read e = (pe_in_active e \<and> pe_state e \<in> {P_active, P_waiting_for_delimiter})"

definition process_delimiter :: "pipe_end \<Rightarrow> (pipe_end \<times> pipe_cmd list) outcome" where
  "process_delimiter e =
     check (pe_state e \<in> {P_active, P_waiting_for_delimiter}) (Fatal ''zmq_assert'')
       (if pe_state e = P_active then Inr (e\<lparr>pe_state := P_delimiter_received\<rparr>, [])
        else Inr (e\<lparr>pe_outpipe := False, pe_state := P_term_ack_sent\<rparr>, [Pipe_term_ack]))"

definition pipe_check_read ::
    "pipe_end \<Rightarrow> zmsg ypipe \<Rightarrow> (bool \<times> pipe_end \<times> zmsg ypipe \<times> pipe_cmd list) outcome" where
  "pipe_check_read e y =
     (if \<not> may_read e then Inr (False, e, y, [])
      else case ypipe_check_read y of
          (False, y1) \<Rightarrow> Inr (False, e\<lparr>pe_in_active := False\<rparr>, y1, [])
        | (True, y1) \<Rightarrow>
            and_then (ypipe_probe msg_delimiter y1) (\<lambda>(d, y2).
              if d then
                (case ypipe_read y2 of
                   (None, y3) \<Rightarrow> Inl (Fatal ''zmq_assert (ok)'')
                 | (Some m, y3) \<Rightarrow> and_then (process_delimiter e) (\<lambda>(e', cs). Inr (False, e', y3, cs)))
              else Inr (True, e, y2, [])))"

definition pipe_read_msg ::
    "zmsg \<Rightarrow> pipe_end \<Rightarrow> zmsg ypipe \<Rightarrow> (zmsg option \<times> pipe_end \<times> zmsg ypipe \<times> pipe_cmd list) outcome" where
  "pipe_read_msg m e y =
     (if msg_delimiter m then and_then (process_delimiter e) (\<lambda>(e', cs). Inr (None, e', y, cs))
      else let e1 = (if \<not> msg_more m \<and> \<not> msg_identity m then e\<lparr>pe_msgs_read := pe_msgs_read e + 1\<rparr> else e)
           in Inr (Some m, e1, y,
                   if pe_lwm e1 > 0 \<and> int (pe_msgs_read e1) mod pe_lwm e1 = 0
                   then [Activate_write (pe_msgs_read e1)] else []))"

text \<open>
  The loop over credentials is bounded by a fuel; a pipe holds no more messages than have
  been written to it, so this many rounds are enough (\<open>read_loop_spec\<close>).
\<close>

fun pipe_read_loop ::
    "nat \<Rightarrow> pipe_end \<Rightarrow> zmsg ypipe \<Rightarrow> (zmsg option \<times> pipe_end \<times> zmsg ypipe \<times> pipe_cmd list) outcome" where
  "pipe_read_loop 0 e y = Inl Waits"
| "pipe_read_loop (Suc fuel) e y =
     (case ypipe_read y of
        (None, y1) \<Rightarrow> Inr (None, e\<lparr>pe_in_active := False\<rparr>, y1, [])
      | (Some m, y1) \<Rightarrow>
          if msg_credential m then pipe_read_loop fuel (e\<lparr>pe_credential := msg_data m\<rparr>) y1
          else pipe_read_msg m e y1)"

definition pipe_read ::
    "pipe_end \<Rightarrow> zmsg ypipe \<Rightarrow> (zmsg option \<times> pipe_end \<times> zmsg ypipe \<times> pipe_cmd list) outcome" where
  "pipe_read e y = (if \<not> may_read e then Inr (None, e, y, []) else pipe_read_loop (Suc (yp_back y)) e y)"

definition pipe_full :: "pipe_end \<Rightarrow> bool" where
  "pipe_full e = (pe_hwm e > 0 \<and> int (pe_msgs_written e) - int (pe_peers_msgs_read e) = pe_hwm e)"

definition pipe_check_write :: "pipe_end \<Rightarrow> bool \<times> pipe_end" where
  "pipe_check_write e =
     (if \<not> pe_out_active e \<or> pe_state e \<noteq> P_active then (False, e)
      else if pipe_full e then (False, e\<lparr>pe_out_active := False\<rparr>)
      else (True, e))"

definition pipe_write :: "zmsg \<Rightarrow> pipe_end \<Rightarrow> zmsg ypipe \<Rightarrow> bool \<times> pipe_end \<times> zmsg ypipe" where
  "pipe_write m e y =
     (case pipe_check_write e of
        (False, e1) \<Rightarrow> (False, e1, y)
      | (True, e1) \<Rightarrow>
          (True, if \<not> msg_more m \<and> \<not> msg_identity m then e1\<lparr>pe_msgs_written := pe_msgs_written e1 + 1\<rparr> else e1,
           ypipe_write m (msg_more m) y))"

fun rollback_loop :: "nat \<Rightarrow> zmsg ypipe \<Rightarrow> zmsg ypipe outcome" where
  "rollback_loop 0 y = Inl Waits"
| "rollback_loop (Suc fuel) y =
     (case ypipe_unwrite y of
        (None, y1) \<Rightarrow> Inr y1
      | (Some m, y1) \<Rightarrow> check (msg_more m) (Fatal ''zmq_assert (msg.flags () & msg_t::more)'') (rollback_loop fuel y1))"

definition pipe_rollback :: "pipe_end \<Rightarrow> zmsg ypipe \<Rightarrow> zmsg ypipe outcome" where
  "pipe_rollback e y = (if pe_outpipe e then rollback_loop (Suc (yp_back y)) y else Inr y)"

definition pipe_flush :: "pipe_end \<Rightarrow> zmsg ypipe \<Rightarrow> zmsg ypipe \<times> pipe_cmd list" where
  "pipe_flush e y =
     (if pe_state e = P_term_ack_sent then (y, [])
      else if pe_outpipe e then
        (case ypipe_flush y of (awake, y1) \<Rightarrow> (y1, if \<not> awake then [Activate_read] else []))
      else (y, []))"

definition set_nodelay :: "pipe_end \<Rightarrow> pipe_end" where
  "set_nodelay e = e\<lparr>pe_delay := False\<rparr>"

definition set_hwms :: "int \<Rightarrow> int \<Rightarrow> pipe_end \<Rightarrow> pipe_end" where
  "set_hwms inhwm outhwm e = e\<lparr>pe_lwm := compute_lwm inhwm, pe_hwm := outhwm\<rparr>"

definition check_hwm :: "pipe_end \<Rightarrow> bool" where
  "check_hwm e =
     (\<not> (pe_hwm e > 0 \<and> int (pe_msgs_written e) - int (pe_peers_msgs_read e) \<ge> pe_hwm e - 1))"


subsection \<open>Commands of the peer\<close>

definition process_activate_read :: "pipe_end \<Rightarrow> pipe_end \<times> sink_event list" where
  "process_activate_read e =
     (if \<not> pe_in_active e \<and> pe_state e \<in> {P_active, P_waiting_for_delimiter}
      then (e\<lparr>pe_in_active := True\<rparr>, [Read_activated]) else (e, []))"

definition process_activate_write :: "nat \<Rightarrow> pipe_end \<Rightarrow> pipe_end \<times> sink_event list" where
  "process_activate_write n e =
     (let e1 = e\<lparr>pe_peers_msgs_read := n\<rparr>
      in if \<not> pe_out_active e1 \<and> pe_state e1 = P_active
         then (e1\<lparr>pe_out_active := True\<rparr>, [Write_activated]) else (e1, []))"

definition process_pipe_term :: "pipe_end \<Rightarrow> (pipe_end \<times> pipe_cmd list) outcome" where
  "process_pipe_term e =
     check (pe_state e \<in> {P_active, P_delimiter_received, P_term_req_sent1}) (Fatal ''zmq_assert'')
       (if pe_state e = P_active then
          if pe_delay e then Inr (e\<lparr>pe_state := P_waiting_for_delimiter\<rparr>, [])
          else Inr (e\<lparr>pe_state := P_term_ack_sent, pe_outpipe := False\<rparr>, [Pipe_term_ack])
        else if pe_state e = P_delimiter_received then
          Inr (e\<lparr>pe_state := P_term_ack_sent, pe_outpipe := False\<rparr>, [Pipe_term_ack])
        else Inr (e\<lparr>pe_state := P_term_req_sent2, pe_outpipe := False\<rparr>, [Pipe_term_ack]))"

definition process_pipe_term_ack :: "pipe_end \<Rightarrow> (pipe_end \<times> pipe_cmd list \<times> sink_event list) outcome" where
  "process_pipe_term_ack e =
     (if pe_state e = P_term_req_sent1
      then Inr (e\<lparr>pe_outpipe := False, pe_alive := False\<rparr>, [Pipe_term_ack], [Pipe_terminated])
      else check (pe_state e \<in> {P_term_ack_sent, P_term_req_sent2}) (Fatal ''zmq_assert'')
             (Inr (e\<lparr>pe_alive := False\<rparr>, [], [Pipe_terminated])))"


subsection \<open>Termination\<close>

text \<open>
  \<open>terminate\<close>: first what the states decide, \<open>None\<close> where the call returns early; then the
  delimiter is written behind what is complete in the outbound pipe.
\<close>

definition terminate_state :: "pipe_end \<Rightarrow> (pipe_end \<times> pipe_cmd list) option" where
  "terminate_state e =
     (if pe_state e \<in> {P_term_req_sent1, P_term_req_sent2, P_term_ack_sent} then None
      else if pe_state e \<in> {P_active, P_delimiter_received} then
        Some (e\<lparr>pe_state := P_term_req_sent1\<rparr>, [Pipe_term])
      else if \<not> pe_delay e then Some (e\<lparr>pe_outpipe := False, pe_state := P_term_ack_sent\<rparr>, [Pipe_term_ack])
      else Some (e, []))"

definition delimiter_msg :: zmsg where
  "delimiter_msg = \<lparr>msg_more = False, msg_identity = False, msg_credential = False, msg_delimiter = True, msg_data = []\<rparr>"

definition pipe_terminate ::
    "bool \<Rightarrow> pipe_end \<Rightarrow> zmsg ypipe \<Rightarrow> (pipe_end \<times> zmsg ypipe \<times> pipe_cmd list) outcome" where
  "pipe_terminate delay e y =
     (case terminate_state (e\<lparr>pe_delay := delay\<rparr>) of
        None \<Rightarrow> Inr (e\<lparr>pe_delay := delay\<rparr>, y, [])
      | Some (e1, cs) \<Rightarrow>
          (let e2 = e1\<lparr>pe_out_active := False\<rparr>
           in if pe_outpipe e2 then
                and_then (pipe_rollback e2 y) (\<lambda>y1.
                  case pipe_flush e2 (ypipe_write delimiter_msg False y1) of
                    (y2, cs') \<Rightarrow> Inr (e2, y2, cs @ cs'))
              else Inr (e2, y, cs)))"


subsection \<open>A pair of pipes\<close>

text \<open>
  The two ends of a pair are \<open>True\<close> and \<open>False\<close>. \<open>pp_in b\<close> is the pipe end \<open>b\<close> reads and its
  peer writes; \<open>pp_box b\<close> the commands on their way to \<open>b\<close>, delivered in order. A user calls only
  ends that are not deleted, and writes no delimiters.
\<close>

record pipe_pair =
  pp_end :: "bool \<Rightarrow> pipe_end"
  pp_in :: "bool \<Rightarrow> zmsg ypipe"
  pp_box :: "bool \<Rightarrow> pipe_cmd list"

definition pipepair :: "int \<Rightarrow> int \<Rightarrow> pipe_pair" where
  "pipepair hwm0 hwm1 =
     \<lparr>pp_end = (\<lambda>b. if b then pipe_new hwm0 hwm1 else pipe_new hwm1 hwm0),
      pp_in = (\<lambda>b. ypipe_new), pp_box = (\<lambda>b. [])\<rparr>"

datatype pair_event =
  Read bool | Check_read bool | Write bool zmsg | Check_write bool | Rollback bool | Flush bool
| Terminate_pipe bool bool | Nodelay bool | Deliver bool

definition send_peer :: "bool \<Rightarrow> pipe_cmd list \<Rightarrow> pipe_pair \<Rightarrow> pipe_pair" where
  "send_peer b cs s = s\<lparr>pp_box := (pp_box s)(\<not> b := pp_box s (\<not> b) @ cs)\<rparr>"

definition set_end :: "bool \<Rightarrow> pipe_end \<Rightarrow> pipe_pair \<Rightarrow> pipe_pair" where
  "set_end b e s = s\<lparr>pp_end := (pp_end s)(b := e)\<rparr>"

definition set_in :: "bool \<Rightarrow> zmsg ypipe \<Rightarrow> pipe_pair \<Rightarrow> pipe_pair" where
  "set_in b y s = s\<lparr>pp_in := (pp_in s)(b := y)\<rparr>"

definition pair_deliver :: "bool \<Rightarrow> pipe_cmd \<Rightarrow> pipe_pair \<Rightarrow> pipe_pair outcome" where
  "pair_deliver b c s =
     (let e = pp_end s b in
      case c of
        Activate_read \<Rightarrow> Inr (set_end b (fst (process_activate_read e)) s)
      | Activate_write n \<Rightarrow> Inr (set_end b (fst (process_activate_write n e)) s)
      | Pipe_term \<Rightarrow> and_then (process_pipe_term e) (\<lambda>(e', cs). Inr (send_peer b cs (set_end b e' s)))
      | Pipe_term_ack \<Rightarrow>
          and_then (process_pipe_term_ack e) (\<lambda>(e', cs, evs). Inr (send_peer b cs (set_end b e' s))))"

fun pair_step :: "pair_event \<Rightarrow> pipe_pair \<Rightarrow> pipe_pair outcome" where
  "pair_step (Read b) s =
     and_then (pipe_read (pp_end s b) (pp_in s b)) (\<lambda>(m, e, y, cs).
       Inr (send_peer b cs (set_in b y (set_end b e s))))"
| "pair_step (Check_read b) s =
     and_then (pipe_check_read (pp_end s b) (pp_in s b)) (\<lambda>(ok, e, y, cs).
       Inr (send_peer b cs (set_in b y (set_end b e s))))"
| "pair_step (Write b m) s =
     (case pipe_write m (pp_end s b) (pp_in s (\<not> b)) of
        (ok, e, y) \<Rightarrow> Inr (set_in (\<not> b) y (set_end b e s)))"
| "pair_step (Check_write b) s = Inr (set_end b (snd (pipe_check_write (pp_end s b))) s)"
| "pair_step (Rollback b) s =
     and_then (pipe_rollback (pp_end s b) (pp_in s (\<not> b))) (\<lambda>y. Inr (set_in (\<not> b) y s))"
| "pair_step (Flush b) s =
     (case pipe_flush (pp_end s b) (pp_in s (\<not> b)) of (y, cs) \<Rightarrow> Inr (send_peer b cs (set_in (\<not> b) y s)))"
| "pair_step (Terminate_pipe b delay) s =
     and_then (pipe_terminate delay (pp_end s b) (pp_in s (\<not> b))) (\<lambda>(e, y, cs).
       Inr (send_peer b cs (set_in (\<not> b) y (set_end b e s))))"
| "pair_step (Nodelay b) s = Inr (set_end b (set_nodelay (pp_end s b)) s)"
| "pair_step (Deliver b) s =
     (case pp_box s b of
        [] \<Rightarrow> Inr s
      | c # cs \<Rightarrow> pair_deliver b c (s\<lparr>pp_box := (pp_box s)(b := cs)\<rparr>))"

fun pair_enabled :: "pair_event \<Rightarrow> pipe_pair \<Rightarrow> bool" where
  "pair_enabled (Read b) s = pe_alive (pp_end s b)"
| "pair_enabled (Check_read b) s = pe_alive (pp_end s b)"
| "pair_enabled (Write b m) s = (pe_alive (pp_end s b) \<and> \<not> msg_delimiter m)"
| "pair_enabled (Check_write b) s = pe_alive (pp_end s b)"
| "pair_enabled (Rollback b) s = pe_alive (pp_end s b)"
| "pair_enabled (Flush b) s = pe_alive (pp_end s b)"
| "pair_enabled (Terminate_pipe b d) s = pe_alive (pp_end s b)"
| "pair_enabled (Nodelay b) s = pe_alive (pp_end s b)"
| "pair_enabled (Deliver b) s = (pp_box s b \<noteq> [])"

inductive pair_reaches :: "pipe_pair \<Rightarrow> pipe_pair \<Rightarrow> bool" for s0 where
  pair_start: "pair_reaches s0 s0"
| pair_next: "pair_reaches s0 s \<Longrightarrow> pair_enabled ev s \<Longrightarrow> pair_step ev s = Inr s' \<Longrightarrow> pair_reaches s0 s'"

inductive_cases pair_reachesE: "pair_reaches s0 s"

end
