(* ===== verification/Zmq_Pipe_Ops.thy ===== *)
theory Zmq_Pipe_Ops
  imports Zmq_Pipe
begin

section \<open>What the operations of a pipe end do\<close>

text \<open>
  Each operation of \<open>Zmq_Pipe\<close> over the abstract pipe of \<open>Zmq_Ypipe\<close>: the loops have enough
  fuel, the assertions about the pipe hold, and the effect on ready, complete and partial
  messages is stated. Then the bookkeeping of the termination protocol: what an end has sent
  and received is a function of its state.
\<close>

lemmas pipe_of_simps = mp_read_def mp_check_read_def mp_write_def mp_flush_def mp_unwrite_def

lemma ypipe_read_cases:
  assumes "ypipe_ok y"
  shows "(\<exists>y'. mp_ready (pipe_of y) = [] \<and> ypipe_read y = (None, y') \<and> ypipe_ok y'
            \<and> pipe_of y' = (pipe_of y)\<lparr>mp_asleep := True\<rparr>)
       \<or> (\<exists>m ms y'. mp_ready (pipe_of y) = m # ms \<and> ypipe_read y = (Some m, y') \<and> ypipe_ok y'
            \<and> pipe_of y' = (pipe_of y)\<lparr>mp_ready := ms\<rparr>)"
proof -
  obtain v y' where r: "ypipe_read y = (v, y')" by (cases "ypipe_read y")
  from read_refines [OF assms r] r show ?thesis
    by (cases "mp_ready (pipe_of y)") (auto simp: mp_read_def)
qed

lemma ypipe_check_read_cases:
  assumes "ypipe_ok y"
  shows "(\<exists>y'. mp_ready (pipe_of y) = [] \<and> ypipe_check_read y = (False, y') \<and> ypipe_ok y'
            \<and> pipe_of y' = (pipe_of y)\<lparr>mp_asleep := True\<rparr>)
       \<or> (\<exists>y'. mp_ready (pipe_of y) \<noteq> [] \<and> ypipe_check_read y = (True, y') \<and> ypipe_ok y'
            \<and> pipe_of y' = pipe_of y \<and> yp_items y' ! yp_front y' = hd (mp_ready (pipe_of y)))"
proof -
  obtain v y' where r: "ypipe_check_read y = (v, y')" by (cases "ypipe_check_read y")
  from check_read_refines [OF assms r] r show ?thesis
    by (auto simp: mp_check_read_def pipe_of_def hd_drop_conv_nth ypipe_ok_def split: if_splits)
qed

lemma ready_le_back: "length (mp_ready (pipe_of y)) \<le> yp_back y"
  by (simp add: pipe_of_def)

lemma partial_le_back: "length (mp_partial (pipe_of y)) \<le> yp_back y"
  by (simp add: pipe_of_def)


subsection \<open>Reading\<close>

definition credentials :: "zmsg list \<Rightarrow> byte list \<Rightarrow> byte list" where
  "credentials ms c = (case takeWhile msg_credential ms of [] \<Rightarrow> c | cs \<Rightarrow> msg_data (last cs))"

lemma credentials_simps:
  "credentials [] c = c"
  "credentials (m # ms) c = (if msg_credential m then credentials ms (msg_data m) else c)"
  by (auto simp: credentials_def split: list.splits)

lemma read_loop_spec:
  "ypipe_ok y \<Longrightarrow> length (mp_ready (pipe_of y)) < fuel \<Longrightarrow>
   \<exists>y'. ypipe_ok y' \<and> mp_complete (pipe_of y') = mp_complete (pipe_of y)
      \<and> mp_partial (pipe_of y') = mp_partial (pipe_of y)
      \<and> (case dropWhile msg_credential (mp_ready (pipe_of y)) of
           [] \<Rightarrow> mp_ready (pipe_of y') = [] \<and> mp_asleep (pipe_of y')
              \<and> pipe_read_loop fuel e y
                 = Inr (None, e\<lparr>pe_credential := credentials (mp_ready (pipe_of y)) (pe_credential e),
                                pe_in_active := False\<rparr>, y', [])
         | m # ms \<Rightarrow> mp_ready (pipe_of y') = ms \<and> mp_asleep (pipe_of y') = mp_asleep (pipe_of y)
              \<and> pipe_read_loop fuel e y
                 = pipe_read_msg m (e\<lparr>pe_credential := credentials (mp_ready (pipe_of y)) (pe_credential e)\<rparr>) y')"
proof (induction fuel arbitrary: y e)
  case (Suc fuel)
  consider (none) y1 where "mp_ready (pipe_of y) = []" "ypipe_read y = (None, y1)" "ypipe_ok y1"
      "pipe_of y1 = (pipe_of y)\<lparr>mp_asleep := True\<rparr>"
    | (some) m ms y1 where "mp_ready (pipe_of y) = m # ms" "ypipe_read y = (Some m, y1)" "ypipe_ok y1"
      "pipe_of y1 = (pipe_of y)\<lparr>mp_ready := ms\<rparr>"
    using ypipe_read_cases [OF Suc.prems(1)] by blast
  then show ?case
  proof cases
    case none
    then show ?thesis by (auto simp: credentials_simps)
  next
    case some
    show ?thesis
    proof (cases "msg_credential m")
      case True
      have "length (mp_ready (pipe_of y1)) < fuel" using some Suc.prems(2) by simp
      from Suc.IH [OF some(3) this, of "e\<lparr>pe_credential := msg_data m\<rparr>"]
      show ?thesis
        using some True by (cases "dropWhile msg_credential ms") (auto simp: credentials_simps simp del: dropWhile_eq_Nil_conv)
    next
      case False
      then show ?thesis using some by (auto simp: credentials_simps)
    qed
  qed
qed simp


subsection \<open>Rolling back and flushing\<close>

lemma rollback_loop_spec:
  "ypipe_ok y \<Longrightarrow> length (mp_partial (pipe_of y)) < fuel \<Longrightarrow> \<forall>m\<in>set (mp_partial (pipe_of y)). msg_more m \<Longrightarrow>
   \<exists>y'. rollback_loop fuel y = Inr y' \<and> ypipe_ok y' \<and> pipe_of y' = (pipe_of y)\<lparr>mp_partial := []\<rparr>"
proof (induction fuel arbitrary: y)
  case (Suc fuel)
  obtain v y1 where u: "ypipe_unwrite y = (v, y1)" by (cases "ypipe_unwrite y")
  note r = unwrite_refines [OF Suc.prems(1) u]
  show ?case
  proof (cases "mp_partial (pipe_of y) = []")
    case True
    then have "v = None" "pipe_of y1 = pipe_of y" using r by (auto simp: mp_unwrite_def)
    then show ?thesis using u r True by (intro exI [of _ y1]) simp
  next
    case False
    then have v: "v = Some (last (mp_partial (pipe_of y)))"
      and y1: "pipe_of y1 = (pipe_of y)\<lparr>mp_partial := butlast (mp_partial (pipe_of y))\<rparr>"
      using r by (auto simp: mp_unwrite_def)
    have "0 < length (mp_partial (pipe_of y))" using False by simp
    then have len: "length (mp_partial (pipe_of y1)) < fuel"
      using y1 Suc.prems(2) by (simp del: length_greater_0_conv)
    have more: "\<forall>m\<in>set (mp_partial (pipe_of y1)). msg_more m"
      using y1 Suc.prems(3) by (auto dest: in_set_butlastD)
    have "ypipe_ok y1" using r by simp
    from Suc.IH [OF this len more] show ?thesis
      using u v y1 Suc.prems(3) False by (simp add: check_def)
  qed
qed simp

lemma pipe_rollback_spec:
  assumes "ypipe_ok y" "\<forall>m\<in>set (mp_partial (pipe_of y)). msg_more m"
  shows "\<exists>y'. pipe_rollback e y = Inr y' \<and> ypipe_ok y'
     \<and> pipe_of y' = (if pe_outpipe e then (pipe_of y)\<lparr>mp_partial := []\<rparr> else pipe_of y)"
  using rollback_loop_spec [OF assms(1) _ assms(2), of "Suc (yp_back y)"] partial_le_back [of y] assms(1)
  by (auto simp: pipe_rollback_def)

lemma pipe_flush_spec:
  assumes "ypipe_ok y" "pipe_flush e y = (y', cs)"
  shows "ypipe_ok y' \<and> mp_partial (pipe_of y') = mp_partial (pipe_of y)
     \<and> mp_ready (pipe_of y') @ mp_complete (pipe_of y') = mp_ready (pipe_of y) @ mp_complete (pipe_of y)
     \<and> (\<exists>ms. mp_ready (pipe_of y') = mp_ready (pipe_of y) @ ms)
     \<and> (pe_outpipe e \<and> pe_state e \<noteq> P_term_ack_sent \<longrightarrow> mp_complete (pipe_of y') = [])
     \<and> set cs \<subseteq> {Activate_read} \<and> (cs \<noteq> [] \<longrightarrow> pe_outpipe e \<and> pe_state e \<noteq> P_term_ack_sent)"
proof -
  obtain b y1 where f: "ypipe_flush y = (b, y1)" by (cases "ypipe_flush y")
  have y1: "ypipe_ok y1" "pipe_of y1 = snd (mp_flush (pipe_of y))"
    using flush_refines [OF assms(1) f] by simp_all
  have y': "y' = (if pe_outpipe e \<and> pe_state e \<noteq> P_term_ack_sent then y1 else y)"
    "cs = (if pe_outpipe e \<and> pe_state e \<noteq> P_term_ack_sent \<and> \<not> b then [Activate_read] else [])"
    using assms(2) f by (auto simp: pipe_flush_def split: if_splits)
  show ?thesis
    using assms(1) y1 by (auto simp: y' mp_flush_def split: if_splits)
qed


subsection \<open>The protocol of termination\<close>

text \<open>The commands of the protocol an end has sent to its peer, and those it has received.\<close>

fun is_term :: "pipe_cmd \<Rightarrow> bool" where
  "is_term Pipe_term = True"
| "is_term Pipe_term_ack = True"
| "is_term _ = False"

definition sent :: "pipe_end \<Rightarrow> pipe_cmd list" where
  "sent e = (case pe_state e of
      P_term_ack_sent \<Rightarrow> [Pipe_term_ack]
    | P_term_req_sent1 \<Rightarrow> if pe_alive e then [Pipe_term] else [Pipe_term, Pipe_term_ack]
    | P_term_req_sent2 \<Rightarrow> [Pipe_term, Pipe_term_ack]
    | _ \<Rightarrow> [])"

definition recvd :: "pipe_end \<Rightarrow> pipe_cmd list" where
  "recvd e = (case pe_state e of
      P_waiting_for_delimiter \<Rightarrow> [Pipe_term]
    | P_term_ack_sent \<Rightarrow> if pe_alive e then [Pipe_term] else [Pipe_term, Pipe_term_ack]
    | P_term_req_sent1 \<Rightarrow> if pe_alive e then [] else [Pipe_term_ack]
    | P_term_req_sent2 \<Rightarrow> if pe_alive e then [Pipe_term] else [Pipe_term, Pipe_term_ack]
    | _ \<Rightarrow> [])"

definition end_ok :: "pipe_end \<Rightarrow> bool" where
  "end_ok e \<longleftrightarrow>
     (pe_outpipe e \<longleftrightarrow> pe_alive e \<and> pe_state e \<in> {P_active, P_delimiter_received, P_waiting_for_delimiter, P_term_req_sent1})
   \<and> (\<not> pe_alive e \<longrightarrow> pe_state e \<in> {P_term_ack_sent, P_term_req_sent1, P_term_req_sent2})"

fun ack_final :: "pipe_cmd list \<Rightarrow> bool" where
  "ack_final [] = True"
| "ack_final (c # cs) = (if c = Pipe_term_ack then cs = [] else ack_final cs)"

lemma ack_final_append: "Pipe_term_ack \<notin> set cs \<Longrightarrow> ack_final (cs @ ds) = ack_final ds"
  by (induction cs) auto

lemma ack_final_activations: "set cs \<subseteq> {Activate_read} \<Longrightarrow> ack_final (ds @ cs) = ack_final ds \<or> cs \<noteq> []"
  by (cases cs) auto

text \<open>What every operation a user calls does to an end, and the commands it sends.\<close>

definition op_ok :: "pipe_end \<Rightarrow> pipe_end \<Rightarrow> pipe_cmd list \<Rightarrow> bool" where
  "op_ok e e' cs \<longleftrightarrow> end_ok e' \<and> sent e' = sent e @ filter is_term cs \<and> recvd e' = recvd e
     \<and> pe_alive e' = pe_alive e \<and> ack_final cs \<and> (Pipe_term_ack \<in> set (sent e) \<longrightarrow> cs = [])"

lemmas protocol_simps = op_ok_def end_ok_def sent_def recvd_def

lemma op_ok_same:
  assumes "end_ok e" "pe_state e' = pe_state e" "pe_alive e' = pe_alive e" "pe_outpipe e' = pe_outpipe e"
    "\<forall>c\<in>set cs. \<not> is_term c" "Pipe_term_ack \<in> set (sent e) \<longrightarrow> cs = []"
  shows "op_ok e e' cs"
proof -
  have "filter is_term cs = []" using assms(5) by (simp add: filter_empty_conv)
  moreover have "ack_final cs" using assms(5) by (induction cs) auto
  ultimately show ?thesis using assms by (simp add: protocol_simps)
qed

lemma op_ok_refl: "end_ok e \<Longrightarrow> op_ok e e []"
  by (rule op_ok_same) simp_all

lemma op_ok_delimiter:
  assumes "end_ok e" "pe_alive e" "pe_state e \<in> {P_active, P_waiting_for_delimiter}"
  shows "\<exists>e' cs. process_delimiter e = Inr (e', cs) \<and> op_ok e e' cs
     \<and> pe_state e' = (if pe_state e = P_active then P_delimiter_received else P_term_ack_sent)"
  using assms by (auto simp: process_delimiter_def check_def protocol_simps)

lemma may_read_not_acked: "may_read e \<Longrightarrow> Pipe_term_ack \<notin> set (sent e)"
  by (auto simp: may_read_def sent_def)

end
