(* ===== verification/Zmq_Pipe_Inv.thy ===== *)
theory Zmq_Pipe_Inv
  imports Zmq_Pipe_Ops
begin

section \<open>The termination of a pair of pipes\<close>

text \<open>
  The invariant of a pair under any interleaving of calls at both ends and deliveries of
  commands: what an end has sent of the protocol is what its peer has received and what is on
  the way; an acknowledgement is the last command on its way, and nothing is on its way to a
  deleted end; an end that waits for a delimiter finds one among its readable messages.
\<close>

definition all_msgs :: "zmsg ypipe \<Rightarrow> zmsg list" where
  "all_msgs y = mp_ready (pipe_of y) @ mp_complete (pipe_of y) @ mp_partial (pipe_of y)"

definition in_ok :: "zmsg ypipe \<Rightarrow> bool" where
  "in_ok y \<longleftrightarrow> ypipe_ok y \<and> (\<forall>m\<in>set (mp_partial (pipe_of y)). msg_more m)
     \<and> (\<forall>m\<in>set (all_msgs y). msg_delimiter m \<longrightarrow> \<not> msg_credential m)"

definition has_delimiter :: "zmsg list \<Rightarrow> bool" where
  "has_delimiter ms \<longleftrightarrow> (\<exists>m\<in>set ms. msg_delimiter m)"

lemma has_delimiter_simps [simp]:
  "\<not> has_delimiter []"
  "has_delimiter (m # ms) \<longleftrightarrow> msg_delimiter m \<or> has_delimiter ms"
  "has_delimiter (xs @ ys) \<longleftrightarrow> has_delimiter xs \<or> has_delimiter ys"
  by (auto simp: has_delimiter_def)


subsection \<open>Calls at one end\<close>

definition read_effect :: "pipe_end \<Rightarrow> zmsg ypipe \<Rightarrow> pipe_end \<Rightarrow> zmsg ypipe \<Rightarrow> pipe_cmd list \<Rightarrow> bool" where
  "read_effect e y e' y' cs \<longleftrightarrow> op_ok e e' cs \<and> ypipe_ok y'
     \<and> mp_complete (pipe_of y') = mp_complete (pipe_of y) \<and> mp_partial (pipe_of y') = mp_partial (pipe_of y)
     \<and> (\<exists>taken. mp_ready (pipe_of y) = taken @ mp_ready (pipe_of y') \<and>
          (if has_delimiter taken
           then pe_state e \<in> {P_active, P_waiting_for_delimiter}
              \<and> pe_state e' = (if pe_state e = P_active then P_delimiter_received else P_term_ack_sent)
           else pe_state e' = pe_state e))"

lemma read_msg_effect:
  assumes "end_ok e" "pe_alive e" "may_read e" "\<not> msg_credential m"
  shows "\<exists>v e' cs. pipe_read_msg m (e\<lparr>pe_credential := c\<rparr>) y = Inr (v, e', y, cs) \<and> op_ok e e' cs
     \<and> (if msg_delimiter m
        then pe_state e' = (if pe_state e = P_active then P_delimiter_received else P_term_ack_sent)
        else pe_state e' = pe_state e)"
proof (cases "msg_delimiter m")
  case True
  let ?e = "e\<lparr>pe_credential := c\<rparr>"
  have "end_ok ?e" "pe_alive ?e" "pe_state ?e \<in> {P_active, P_waiting_for_delimiter}"
    using assms by (simp_all add: end_ok_def may_read_def)
  from op_ok_delimiter [OF this] obtain e' cs where d: "process_delimiter ?e = Inr (e', cs)" "op_ok ?e e' cs"
      "pe_state e' = (if pe_state e = P_active then P_delimiter_received else P_term_ack_sent)"
    by (elim exE conjE) simp
  have "sent ?e = sent e" "recvd ?e = recvd e" by (simp_all add: sent_def recvd_def)
  then have "op_ok e e' cs" using d(2) by (simp add: op_ok_def)
  then show ?thesis using d True by (simp add: pipe_read_msg_def)
next
  case False
  define e' where "e' = (if \<not> msg_more m \<and> \<not> msg_identity m
     then e\<lparr>pe_credential := c, pe_msgs_read := pe_msgs_read e + 1\<rparr> else e\<lparr>pe_credential := c\<rparr>)"
  define cs where "cs = (if pe_lwm e' > 0 \<and> int (pe_msgs_read e') mod pe_lwm e' = 0
     then [Activate_write (pe_msgs_read e')] else [])"
  have "pipe_read_msg m (e\<lparr>pe_credential := c\<rparr>) y = Inr (Some m, e', y, cs)"
    using False by (simp add: pipe_read_msg_def e'_def cs_def Let_def)
  moreover have "op_ok e e' cs"
    by (rule op_ok_same) (use assms may_read_not_acked in \<open>auto simp: e'_def cs_def\<close>)
  moreover have "pe_state e' = pe_state e" by (simp add: e'_def)
  ultimately show ?thesis using False by auto
qed

lemma pipe_read_effect:
  assumes "end_ok e" "pe_alive e" "in_ok y"
  shows "\<exists>v e' y' cs. pipe_read e y = Inr (v, e', y', cs) \<and> read_effect e y e' y' cs"
proof (cases "may_read e")
  case False
  then show ?thesis
    using assms by (auto simp: pipe_read_def read_effect_def op_ok_refl in_ok_def intro!: exI [of _ "[]"])
next
  case True
  define ms where "ms = dropWhile msg_credential (mp_ready (pipe_of y))"
  define tw where "tw = takeWhile msg_credential (mp_ready (pipe_of y))"
  define c where "c = credentials (mp_ready (pipe_of y)) (pe_credential e)"
  have split: "mp_ready (pipe_of y) = tw @ ms" by (simp add: tw_def ms_def)
  have "\<forall>m\<in>set tw. msg_credential m" by (auto simp: tw_def dest: set_takeWhileD)
  then have tw: "\<not> has_delimiter tw"
    using assms(3) split by (auto simp: in_ok_def all_msgs_def has_delimiter_def)
  have pr: "pipe_read e y = pipe_read_loop (Suc (yp_back y)) e y" using True by (simp add: pipe_read_def)
  have "ypipe_ok y" using assms(3) by (simp add: in_ok_def)
  moreover have "length (mp_ready (pipe_of y)) < Suc (yp_back y)" using ready_le_back [of y] by simp
  ultimately have "\<exists>y'. ypipe_ok y' \<and> mp_complete (pipe_of y') = mp_complete (pipe_of y)
      \<and> mp_partial (pipe_of y') = mp_partial (pipe_of y) \<and> (case ms of
           [] \<Rightarrow> mp_ready (pipe_of y') = [] \<and> mp_asleep (pipe_of y')
              \<and> pipe_read e y = Inr (None, e\<lparr>pe_credential := c, pe_in_active := False\<rparr>, y', [])
         | m # rest \<Rightarrow> mp_ready (pipe_of y') = rest \<and> mp_asleep (pipe_of y') = mp_asleep (pipe_of y)
              \<and> pipe_read e y = pipe_read_msg m (e\<lparr>pe_credential := c\<rparr>) y')"
    unfolding ms_def c_def pr by (rule read_loop_spec)
  then obtain y' where y': "ypipe_ok y'" "mp_complete (pipe_of y') = mp_complete (pipe_of y)"
      "mp_partial (pipe_of y') = mp_partial (pipe_of y)"
    and res: "case ms of
           [] \<Rightarrow> mp_ready (pipe_of y') = [] \<and> mp_asleep (pipe_of y')
              \<and> pipe_read e y = Inr (None, e\<lparr>pe_credential := c, pe_in_active := False\<rparr>, y', [])
         | m # rest \<Rightarrow> mp_ready (pipe_of y') = rest \<and> mp_asleep (pipe_of y') = mp_asleep (pipe_of y)
              \<and> pipe_read e y = pipe_read_msg m (e\<lparr>pe_credential := c\<rparr>) y'"
    by (elim exE conjE)
  show ?thesis
  proof (cases ms)
    case Nil
    have "op_ok e (e\<lparr>pe_credential := c, pe_in_active := False\<rparr>) []"
      by (rule op_ok_same) (use assms in auto)
    then show ?thesis using Nil res y' split tw by (auto simp: read_effect_def)
  next
    case (Cons m rest)
    have m: "\<not> msg_credential m" using Cons hd_dropWhile [of msg_credential] by (metis list.distinct(1) list.sel(1) ms_def)
    obtain v e' cs where r: "pipe_read_msg m (e\<lparr>pe_credential := c\<rparr>) y' = Inr (v, e', y', cs)" "op_ok e e' cs"
        "if msg_delimiter m
        then pe_state e' = (if pe_state e = P_active then P_delimiter_received else P_term_ack_sent)
        else pe_state e' = pe_state e"
      using read_msg_effect [OF assms(1,2) True m] by blast
    have "mp_ready (pipe_of y) = (tw @ [m]) @ mp_ready (pipe_of y')" using split Cons res by simp
    moreover have "has_delimiter (tw @ [m]) \<longleftrightarrow> msg_delimiter m" using tw by simp
    ultimately have "read_effect e y e' y' cs"
      using r(2,3) y' True by (auto simp: read_effect_def may_read_def split: if_splits)
    then show ?thesis using res Cons r(1) by auto
  qed
qed

lemma pipe_check_read_effect:
  assumes "end_ok e" "pe_alive e" "in_ok y"
  shows "\<exists>v e' y' cs. pipe_check_read e y = Inr (v, e', y', cs) \<and> read_effect e y e' y' cs"
proof (cases "may_read e")
  case False
  then show ?thesis
    using assms by (auto simp: pipe_check_read_def read_effect_def op_ok_refl in_ok_def intro!: exI [of _ "[]"])
next
  case True
  have y: "ypipe_ok y" using assms(3) by (simp add: in_ok_def)
  show ?thesis
  proof (cases "mp_ready (pipe_of y)")
    case Nil
    then obtain y1 where "ypipe_check_read y = (False, y1)" "ypipe_ok y1" "pipe_of y1 = (pipe_of y)\<lparr>mp_asleep := True\<rparr>"
      using ypipe_check_read_cases [OF y] by auto
    moreover have "op_ok e (e\<lparr>pe_in_active := False\<rparr>) []" by (rule op_ok_same) (use assms in auto)
    ultimately show ?thesis using True Nil by (auto simp: pipe_check_read_def read_effect_def)
  next
    case (Cons m rest)
    obtain y1 where y1: "ypipe_check_read y = (True, y1)" "ypipe_ok y1" "pipe_of y1 = pipe_of y"
      using ypipe_check_read_cases [OF y] Cons by auto
    obtain y2 where y2: "ypipe_check_read y1 = (True, y2)" "ypipe_ok y2" "pipe_of y2 = pipe_of y1"
        "yp_items y2 ! yp_front y2 = m"
      using ypipe_check_read_cases [OF y1(2)] y1(3) Cons by auto
    obtain y3 where y3: "ypipe_read y2 = (Some m, y3)" "ypipe_ok y3" "pipe_of y3 = (pipe_of y2)\<lparr>mp_ready := rest\<rparr>"
      using ypipe_read_cases [OF y2(2)] y2(3) y1(3) Cons by auto
    have probe: "ypipe_probe msg_delimiter y1 = Inr (msg_delimiter m, y2)"
      using y2 by (simp add: ypipe_probe_def)
    show ?thesis
    proof (cases "msg_delimiter m")
      case False
      then show ?thesis
        using True y1 y2 probe op_ok_refl [OF assms(1)]
        by (auto simp: pipe_check_read_def read_effect_def intro!: exI [of _ "[]"])
    next
      case d: True
      obtain e' cs where e': "process_delimiter e = Inr (e', cs)" "op_ok e e' cs"
          "pe_state e' = (if pe_state e = P_active then P_delimiter_received else P_term_ack_sent)"
        using op_ok_delimiter [OF assms(1,2)] True by (auto simp: may_read_def)
      have "read_effect e y e' y3 cs"
        using e' y3 y2(3) y1(3) Cons d True
        by (auto simp: read_effect_def may_read_def intro!: exI [of _ "[m]"])
      then show ?thesis using True y1 probe d y3 e' by (auto simp: pipe_check_read_def)
    qed
  qed
qed

definition write_effect :: "pipe_end \<Rightarrow> zmsg ypipe \<Rightarrow> pipe_end \<Rightarrow> zmsg ypipe \<Rightarrow> pipe_cmd list \<Rightarrow> bool" where
  "write_effect e y e' y' cs \<longleftrightarrow> op_ok e e' cs \<and> in_ok y' \<and> pe_state e' = pe_state e
     \<and> (has_delimiter (all_msgs y') \<longrightarrow> has_delimiter (all_msgs y))
     \<and> (\<exists>ms. mp_ready (pipe_of y') = mp_ready (pipe_of y) @ ms)"

lemma pipe_write_effect:
  assumes "end_ok e" "in_ok y" "\<not> msg_delimiter m" "pipe_write m e y = (ok, e', y')"
  shows "write_effect e y e' y' []"
proof -
  have st: "pe_state e' = pe_state e" "pe_alive e' = pe_alive e" "pe_outpipe e' = pe_outpipe e"
    and y': "y' = y \<or> y' = ypipe_write m (msg_more m) y"
    using assms(4) by (auto simp: pipe_write_def pipe_check_write_def split: if_splits)
  have "op_ok e e' []" by (rule op_ok_same [OF assms(1) st]) simp_all
  moreover have "in_ok y' \<and> (has_delimiter (all_msgs y') \<longrightarrow> has_delimiter (all_msgs y))
      \<and> mp_ready (pipe_of y') = mp_ready (pipe_of y)"
    using y'
  proof
    assume w: "y' = ypipe_write m (msg_more m) y"
    have "ypipe_ok y" using assms(2) by (simp add: in_ok_def)
    from write_refines [OF this, of m "msg_more m"]
    show ?thesis using assms(2,3) by (auto simp: w in_ok_def all_msgs_def mp_write_def)
  qed (use assms(2) in simp)
  ultimately show ?thesis using st by (auto simp: write_effect_def intro: exI [of _ "[]"])
qed

lemma pipe_check_write_same:
  "pe_state (snd (pipe_check_write e)) = pe_state e" "pe_alive (snd (pipe_check_write e)) = pe_alive e"
  "pe_outpipe (snd (pipe_check_write e)) = pe_outpipe e"
  by (simp_all add: pipe_check_write_def)

lemma pipe_rollback_effect:
  assumes "end_ok e" "in_ok y"
  shows "\<exists>y'. pipe_rollback e y = Inr y' \<and> write_effect e y e y' []"
proof -
  obtain y' where y': "pipe_rollback e y = Inr y'" "ypipe_ok y'"
      "pipe_of y' = (if pe_outpipe e then (pipe_of y)\<lparr>mp_partial := []\<rparr> else pipe_of y)"
    using pipe_rollback_spec [of y e] assms(2) by (auto simp: in_ok_def)
  have "write_effect e y e y' []"
    using y'(2,3) assms op_ok_refl [OF assms(1)]
    by (auto simp: write_effect_def in_ok_def all_msgs_def intro!: exI [of _ "[]"])
  then show ?thesis using y'(1) by blast
qed

lemma flush_all: "ypipe_ok y \<Longrightarrow> pipe_flush e y = (y', cs) \<Longrightarrow> all_msgs y' = all_msgs y"
  using pipe_flush_spec [of y e y' cs] by (simp add: all_msgs_def)

lemma pipe_flush_effect:
  assumes "end_ok e" "pe_alive e" "in_ok y" "pipe_flush e y = (y', cs)"
  shows "write_effect e y e y' cs"
proof -
  have y: "ypipe_ok y" using assms(3) by (simp add: in_ok_def)
  note f = pipe_flush_spec [OF y assms(4)] flush_all [OF y assms(4)]
  have "Pipe_term_ack \<in> set (sent e) \<longrightarrow> cs = []"
    using f assms(1,2) by (auto simp: end_ok_def sent_def split: pipe_state.splits if_splits)
  then have "op_ok e e cs" using f by (intro op_ok_same [OF assms(1)]) auto
  then show ?thesis using f assms(3) by (auto simp: write_effect_def in_ok_def)
qed

text \<open>\<open>terminate\<close>, whose state change depends on where the termination stands.\<close>

definition terminate_effect :: "pipe_end \<Rightarrow> zmsg ypipe \<Rightarrow> pipe_end \<Rightarrow> zmsg ypipe \<Rightarrow> pipe_cmd list \<Rightarrow> bool" where
  "terminate_effect e y e' y' cs \<longleftrightarrow> op_ok e e' cs \<and> in_ok y'
     \<and> (\<exists>ms. mp_ready (pipe_of y') = mp_ready (pipe_of y) @ ms)
     \<and> (pe_state e \<in> {P_active, P_delimiter_received} \<longrightarrow>
          pe_state e' = P_term_req_sent1 \<and> has_delimiter (mp_ready (pipe_of y')))
     \<and> (pe_state e = P_waiting_for_delimiter \<longrightarrow> pe_state e' \<in> {P_waiting_for_delimiter, P_term_ack_sent})
     \<and> (pe_state e \<notin> {P_active, P_delimiter_received, P_waiting_for_delimiter} \<longrightarrow>
          pe_state e' = pe_state e \<and> y' = y)"

lemma delimiter_written:
  assumes "in_ok y" "pe_outpipe e" "pe_state e \<noteq> P_term_ack_sent"
  shows "\<exists>y1 y2 cs. pipe_rollback e y = Inr y1 \<and> pipe_flush e (ypipe_write delimiter_msg False y1) = (y2, cs)
     \<and> in_ok y2 \<and> (\<exists>ms. mp_ready (pipe_of y2) = mp_ready (pipe_of y) @ ms) \<and> has_delimiter (mp_ready (pipe_of y2))
     \<and> set cs \<subseteq> {Activate_read}"
proof -
  obtain y1 where y1: "pipe_rollback e y = Inr y1" "ypipe_ok y1" "pipe_of y1 = (pipe_of y)\<lparr>mp_partial := []\<rparr>"
    using pipe_rollback_spec [of y e] assms by (auto simp: in_ok_def)
  define w where "w = ypipe_write delimiter_msg False y1"
  have w: "ypipe_ok w" "pipe_of w = (pipe_of y)\<lparr>mp_complete := mp_complete (pipe_of y) @ [delimiter_msg], mp_partial := []\<rparr>"
    using write_refines [OF y1(2), of delimiter_msg False] y1(3) by (simp_all add: w_def mp_write_def)
  obtain y2 cs where f: "pipe_flush e w = (y2, cs)" by (cases "pipe_flush e w")
  note spec = pipe_flush_spec [OF w(1) f] flush_all [OF w(1) f]
  have "mp_complete (pipe_of y2) = []" using spec(1) assms(2,3) by blast
  moreover have "mp_ready (pipe_of y2) @ mp_complete (pipe_of y2)
      = mp_ready (pipe_of y) @ mp_complete (pipe_of y) @ [delimiter_msg]"
    using spec(1) w(2) by simp
  ultimately have "mp_ready (pipe_of y2) = mp_ready (pipe_of y) @ mp_complete (pipe_of y) @ [delimiter_msg]"
    by simp
  moreover have "in_ok y2"
    using spec assms(1) w(2) by (auto simp: in_ok_def all_msgs_def delimiter_msg_def)
  ultimately show ?thesis
    using y1(1) f spec by (auto simp: w_def delimiter_msg_def)
qed

lemma pipe_terminate_effect:
  assumes "end_ok e" "pe_alive e" "in_ok y"
  shows "\<exists>e' y' cs. pipe_terminate d e y = Inr (e', y', cs) \<and> terminate_effect e y e' y' cs"
proof (cases "terminate_state (e\<lparr>pe_delay := d\<rparr>)")
  case None
  then have "pe_state e \<notin> {P_active, P_delimiter_received, P_waiting_for_delimiter}"
    by (auto simp: terminate_state_def split: if_splits)
  moreover have "op_ok e (e\<lparr>pe_delay := d\<rparr>) []" by (rule op_ok_same [OF assms(1)]) simp_all
  ultimately show ?thesis
    using None assms(3) by (auto simp: pipe_terminate_def terminate_effect_def)
next
  case (Some r)
  obtain e1 cs where r: "r = (e1, cs)" by (cases r)
  define e2 where "e2 = e1\<lparr>pe_out_active := False\<rparr>"
  have st: "(pe_state e \<in> {P_active, P_delimiter_received} \<and> pe_state e2 = P_term_req_sent1 \<and> pe_outpipe e2
        \<and> cs = [Pipe_term])
     \<or> (pe_state e = P_waiting_for_delimiter \<and> pe_state e2 = P_term_ack_sent \<and> \<not> pe_outpipe e2 \<and> cs = [Pipe_term_ack])
     \<or> (pe_state e = P_waiting_for_delimiter \<and> pe_state e2 = P_waiting_for_delimiter \<and> pe_outpipe e2 \<and> cs = [])"
    and al: "pe_alive e2"
    using Some assms(1,2) unfolding r
    by (cases "pe_state e"; auto simp: terminate_state_def e2_def end_ok_def split: if_splits)+
  show ?thesis
  proof (cases "pe_outpipe e2")
    case True
    have "pe_state e2 \<noteq> P_term_ack_sent" using st True by auto
    from delimiter_written [OF assms(3) True this] obtain y1 y2 cs' where
      d: "pipe_rollback e2 y = Inr y1" "pipe_flush e2 (ypipe_write delimiter_msg False y1) = (y2, cs')"
        "in_ok y2" "\<exists>ms. mp_ready (pipe_of y2) = mp_ready (pipe_of y) @ ms" "has_delimiter (mp_ready (pipe_of y2))"
        "set cs' \<subseteq> {Activate_read}" by blast
    have "filter is_term cs' = []" "ack_final cs'" using d(6) by (induction cs') auto
    then have "op_ok e e2 (cs @ cs')"
      using st True assms(1,2) al by (auto simp: protocol_simps split: if_splits)
    then have "terminate_effect e y e2 y2 (cs @ cs')"
      using st True d by (auto simp: terminate_effect_def)
    moreover have "pipe_terminate d e y = Inr (e2, y2, cs @ cs')"
      using Some r True d(1,2) unfolding pipe_terminate_def by (simp only: e2_def [symmetric] option.case Let_def prod.case) simp
    ultimately show ?thesis by blast
  next
    case False
    then have s: "pe_state e = P_waiting_for_delimiter" "pe_state e2 = P_term_ack_sent" "cs = [Pipe_term_ack]"
      using st by auto
    then have "op_ok e e2 cs" using assms(1,2) al False by (auto simp: protocol_simps)
    then have "terminate_effect e y e2 y cs" using s assms(3) by (simp add: terminate_effect_def)
    moreover have "pipe_terminate d e y = Inr (e2, y, cs)"
      using Some r False unfolding pipe_terminate_def by (simp only: e2_def [symmetric] option.case Let_def prod.case) simp
    ultimately show ?thesis by blast
  qed
qed

end
