(* ===== verification/Zmq_Pipe_Pair.thy ===== *)
theory Zmq_Pipe_Pair
  imports Zmq_Pipe_Inv
begin

section \<open>The invariant of a pair of pipes\<close>

text \<open>
  The protocol between the two ends and where the delimiters are, kept by every step.
\<close>

definition link_ok :: "pipe_pair \<Rightarrow> bool \<Rightarrow> bool" where
  "link_ok s b \<longleftrightarrow> end_ok (pp_end s b)
     \<and> sent (pp_end s (\<not> b)) = recvd (pp_end s b) @ filter is_term (pp_box s b)
     \<and> ack_final (pp_box s b) \<and> (\<not> pe_alive (pp_end s b) \<longrightarrow> pp_box s b = [])"

definition delims_ok :: "pipe_pair \<Rightarrow> bool \<Rightarrow> bool" where
  "delims_ok s b \<longleftrightarrow> in_ok (pp_in s b)
     \<and> (pe_state (pp_end s b) \<in> {P_active, P_waiting_for_delimiter} \<and> pe_state (pp_end s (\<not> b)) = P_term_req_sent1
          \<longrightarrow> has_delimiter (mp_ready (pipe_of (pp_in s b))))
     \<and> (pe_state (pp_end s b) = P_active \<and> has_delimiter (all_msgs (pp_in s b)) \<longrightarrow> sent (pp_end s (\<not> b)) \<noteq> [])
     \<and> (pe_state (pp_end s b) = P_delimiter_received \<longrightarrow> sent (pp_end s (\<not> b)) \<noteq> [])"

definition pair_inv :: "pipe_pair \<Rightarrow> bool" where
  "pair_inv s \<longleftrightarrow> (\<forall>b. link_ok s b \<and> delims_ok s b)"

lemma pair_projections [simp]:
  "pp_end (send_peer b cs s) = pp_end s" "pp_in (send_peer b cs s) = pp_in s"
  "pp_box (send_peer b cs s) = (pp_box s)(\<not> b := pp_box s (\<not> b) @ cs)"
  "pp_end (set_end b e s) = (pp_end s)(b := e)" "pp_in (set_end b e s) = pp_in s" "pp_box (set_end b e s) = pp_box s"
  "pp_end (set_in b y s) = pp_end s" "pp_in (set_in b y s) = (pp_in s)(b := y)" "pp_box (set_in b y s) = pp_box s"
  by (simp_all add: send_peer_def set_end_def set_in_def)

lemma send_nothing [simp]: "send_peer b [] s = s"
  by (cases s) (simp add: send_peer_def)

lemma set_in_same [simp]: "set_in b (pp_in s b) (set_end d e s) = set_end d e s" "set_in b (pp_in s b) s = s"
  by (cases s; simp add: set_in_def set_end_def)+

lemma set_end_same [simp]: "set_end b (pp_end s b) s = s"
  by (cases s) (simp add: set_end_def)

lemma pairD: "pair_inv s \<Longrightarrow> end_ok (pp_end s b)" "pair_inv s \<Longrightarrow> in_ok (pp_in s b)"
  by (simp_all add: pair_inv_def link_ok_def delims_ok_def)

lemma pair_invI:
  assumes "\<And>c. link_ok s c" "delims_ok s b" "delims_ok s (\<not> b)"
  shows "pair_inv s"
proof -
  have "delims_ok s c" for c using assms(2,3) by (cases "c = b") auto
  then show ?thesis using assms(1) by (simp add: pair_inv_def)
qed

lemma new_pair_inv: "pair_inv (pipepair h0 h1)"
proof -
  have "in_ok ypipe_new"
    by (simp add: in_ok_def all_msgs_def ypipe_new_ok pipe_of_def) (simp add: ypipe_new_def)
  moreover have "all_msgs ypipe_new = []" by (simp add: all_msgs_def pipe_of_def ypipe_new_def)
  ultimately show ?thesis
    by (auto simp: pair_inv_def link_ok_def delims_ok_def pipepair_def pipe_new_def end_ok_def sent_def recvd_def)
qed


subsection \<open>Calls\<close>

lemma ack_in_sent: "pair_inv s \<Longrightarrow> Pipe_term_ack \<in> set (pp_box s (\<not> b)) \<Longrightarrow> Pipe_term_ack \<in> set (sent (pp_end s b))"
proof -
  assume a: "pair_inv s" "Pipe_term_ack \<in> set (pp_box s (\<not> b))"
  then have "sent (pp_end s b) = recvd (pp_end s (\<not> b)) @ filter is_term (pp_box s (\<not> b))"
    by (auto simp: pair_inv_def link_ok_def dest: spec [of _ "\<not> b"])
  with a(2) show ?thesis by simp
qed

lemma dead_acked: "pair_inv s \<Longrightarrow> \<not> pe_alive (pp_end s (\<not> b)) \<Longrightarrow> Pipe_term_ack \<in> set (sent (pp_end s b))"
proof -
  assume a: "pair_inv s" "\<not> pe_alive (pp_end s (\<not> b))"
  have "end_ok (pp_end s (\<not> b))" "sent (pp_end s b) = recvd (pp_end s (\<not> b)) @ filter is_term (pp_box s (\<not> b))"
    using a(1) by (auto simp: pair_inv_def link_ok_def dest: spec [of _ "\<not> b"])
  with a(2) show ?thesis by (auto simp: end_ok_def recvd_def)
qed

lemma link_call:
  assumes "pair_inv s" "op_ok (pp_end s b) e' cs"
    and "pp_end s' = (pp_end s)(b := e')" "pp_box s' = (pp_box s)(\<not> b := pp_box s (\<not> b) @ cs)"
  shows "link_ok s' c"
proof (cases "c = b")
  case True
  have "link_ok s b" using assms(1) by (simp add: pair_inv_def)
  then show ?thesis using assms(2-4) True by (auto simp: link_ok_def op_ok_def)
next
  case False
  then have c: "c = (\<not> b)" by simp
  have l: "link_ok s (\<not> b)" using assms(1) by (simp add: pair_inv_def)
  show ?thesis
  proof (cases "cs = []")
    case True
    then show ?thesis using l assms(2-4) c by (auto simp: link_ok_def op_ok_def)
  next
    case False
    then have "Pipe_term_ack \<notin> set (sent (pp_end s b))" using assms(2) by (auto simp: op_ok_def)
    then have "Pipe_term_ack \<notin> set (pp_box s (\<not> b))" "pe_alive (pp_end s (\<not> b))"
      using ack_in_sent [OF assms(1)] dead_acked [OF assms(1)] by blast+
    then show ?thesis
      using l assms(2-4) c by (auto simp: link_ok_def op_ok_def ack_final_append)
  qed
qed

lemma sent_grows: "op_ok e e' cs \<Longrightarrow> sent e \<noteq> [] \<Longrightarrow> sent e' \<noteq> []"
  by (simp add: op_ok_def)

lemma inv_read:
  assumes "pair_inv s" "read_effect (pp_end s b) (pp_in s b) e' y' cs"
  shows "pair_inv (send_peer b cs (set_in b y' (set_end b e' s)))" (is "pair_inv ?s")
proof -
  have op: "op_ok (pp_end s b) e' cs" using assms(2) by (simp add: read_effect_def)
  have link: "link_ok ?s c" for c by (rule link_call [OF assms(1) op]) simp_all
  obtain taken where t: "mp_ready (pipe_of (pp_in s b)) = taken @ mp_ready (pipe_of y')"
      "if has_delimiter taken
       then pe_state (pp_end s b) \<in> {P_active, P_waiting_for_delimiter}
          \<and> pe_state e' = (if pe_state (pp_end s b) = P_active then P_delimiter_received else P_term_ack_sent)
       else pe_state e' = pe_state (pp_end s b)"
    using assms(2) by (auto simp: read_effect_def)
  have d: "delims_ok s b" "delims_ok s (\<not> b)" using assms(1) by (simp_all add: pair_inv_def)
  have all: "all_msgs (pp_in s b) = taken @ all_msgs y'"
    using t(1) assms(2) by (simp add: all_msgs_def read_effect_def)
  have "in_ok y'" using d(1) assms(2) all by (auto simp: delims_ok_def in_ok_def read_effect_def)
  then have "delims_ok ?s b"
    using d(1) t all by (auto simp: delims_ok_def split: if_splits)
  moreover have "delims_ok ?s (\<not> b)"
    using d(2) t(2) sent_grows [OF op] by (auto simp: delims_ok_def split: if_splits)
  ultimately show ?thesis
    using link pair_invI [of ?s b] by blast
qed

lemma inv_write:
  assumes "pair_inv s" "write_effect (pp_end s b) (pp_in s (\<not> b)) e' y' cs"
  shows "pair_inv (send_peer b cs (set_in (\<not> b) y' (set_end b e' s)))" (is "pair_inv ?s")
proof -
  have op: "op_ok (pp_end s b) e' cs" using assms(2) by (simp add: write_effect_def)
  have link: "link_ok ?s c" for c by (rule link_call [OF assms(1) op]) simp_all
  have d: "delims_ok s b" "delims_ok s (\<not> b)" using assms(1) by (simp_all add: pair_inv_def)
  have "delims_ok ?s b" using d(1) assms(2) by (auto simp: delims_ok_def write_effect_def)
  moreover have "delims_ok ?s (\<not> b)"
    using d(2) assms(2) sent_grows [OF op] by (auto simp: delims_ok_def write_effect_def)
  ultimately show ?thesis
    using link pair_invI [of ?s b] by blast
qed

lemma inv_terminate:
  assumes "pair_inv s" "terminate_effect (pp_end s b) (pp_in s (\<not> b)) e' y' cs"
  shows "pair_inv (send_peer b cs (set_in (\<not> b) y' (set_end b e' s)))" (is "pair_inv ?s")
proof -
  have op: "op_ok (pp_end s b) e' cs" using assms(2) by (simp add: terminate_effect_def)
  have link: "link_ok ?s c" for c by (rule link_call [OF assms(1) op]) simp_all
  have d: "delims_ok s b" "delims_ok s (\<not> b)" using assms(1) by (simp_all add: pair_inv_def)
  have l: "link_ok s b" using assms(1) by (simp add: pair_inv_def)
  have in': "in_ok y'" using assms(2) by (simp add: terminate_effect_def)
  obtain ms where ms: "mp_ready (pipe_of y') = mp_ready (pipe_of (pp_in s (\<not> b))) @ ms"
    using assms(2) by (auto simp: terminate_effect_def)
  consider (ask) "pe_state (pp_end s b) \<in> {P_active, P_delimiter_received}" "pe_state e' = P_term_req_sent1"
      "has_delimiter (mp_ready (pipe_of y'))"
    | (wait) "pe_state (pp_end s b) = P_waiting_for_delimiter" "pe_state e' \<in> {P_waiting_for_delimiter, P_term_ack_sent}"
    | (late) "pe_state e' = pe_state (pp_end s b)" "y' = pp_in s (\<not> b)"
    using assms(2) by (auto simp: terminate_effect_def)
  then have "delims_ok ?s b \<and> delims_ok ?s (\<not> b)"
  proof cases
    case ask
    have "end_ok e'" using op by (simp add: op_ok_def)
    then have "sent e' \<noteq> []" using ask(2) by (simp add: sent_def)
    then show ?thesis using d ask in' ms by (auto simp: delims_ok_def)
  next
    case wait
    have "recvd (pp_end s b) = [Pipe_term]" using wait(1) by (simp add: recvd_def)
    then have "sent (pp_end s (\<not> b)) \<noteq> []" using l by (simp add: link_ok_def)
    then have "pe_state (pp_end s (\<not> b)) \<notin> {P_active, P_delimiter_received, P_waiting_for_delimiter}"
      by (auto simp: sent_def)
    then show ?thesis using d wait in' by (auto simp: delims_ok_def)
  next
    case late
    then show ?thesis using d in' sent_grows [OF op] by (auto simp: delims_ok_def)
  qed
  then show ?thesis
    using link pair_invI [of ?s b] by blast
qed


subsection \<open>Deliveries\<close>

lemma link_deliver:
  assumes "pair_inv s" "pp_box s b = c # cs"
    and "pp_end s' = (pp_end s)(b := e')" "pp_box s' = (pp_box s)(b := cs, \<not> b := pp_box s (\<not> b) @ cs')"
    and e': "end_ok e'" "recvd e' = recvd (pp_end s b) @ filter is_term [c]"
      "sent e' = sent (pp_end s b) @ filter is_term cs'" "ack_final cs'"
      "cs' \<noteq> [] \<longrightarrow> Pipe_term_ack \<notin> set (sent (pp_end s b))" "\<not> pe_alive e' \<longrightarrow> cs = []"
  shows "link_ok s' d"
proof (cases "d = b")
  case True
  have "link_ok s b" using assms(1) by (simp add: pair_inv_def)
  then show ?thesis using assms True by (auto simp: link_ok_def split: if_splits)
next
  case False
  then have d: "d = (\<not> b)" by simp
  have l: "link_ok s (\<not> b)" using assms(1) by (simp add: pair_inv_def)
  show ?thesis
  proof (cases "cs' = []")
    case True
    then show ?thesis using l assms(3,4) e' d by (auto simp: link_ok_def)
  next
    case False
    then have "Pipe_term_ack \<notin> set (pp_box s (\<not> b))" "pe_alive (pp_end s (\<not> b))"
      using e'(5) ack_in_sent [OF assms(1)] dead_acked [OF assms(1)] by blast+
    then show ?thesis using l assms(3,4) e' d by (auto simp: link_ok_def ack_final_append)
  qed
qed

lemma delims_deliver:
  assumes "pair_inv s" "pp_end s' = (pp_end s)(b := e')" "pp_in s' = pp_in s"
    and "sent (pp_end s b) \<noteq> [] \<Longrightarrow> sent e' \<noteq> []"
    and "pe_state e' = pe_state (pp_end s b)
       \<or> pe_state (pp_end s b) = P_active \<and> pe_state e' = P_waiting_for_delimiter
       \<or> pe_state e' \<in> {P_term_ack_sent, P_term_req_sent2}"
  shows "delims_ok s' b \<and> delims_ok s' (\<not> b)"
proof -
  have d: "delims_ok s b" "delims_ok s (\<not> b)" using assms(1) by (simp_all add: pair_inv_def)
  from assms(5) show ?thesis
  proof (elim disjE)
    assume "pe_state e' = pe_state (pp_end s b)"
    then show ?thesis using d assms(2-4) by (simp add: delims_ok_def)
  next
    assume "pe_state (pp_end s b) = P_active \<and> pe_state e' = P_waiting_for_delimiter"
    then show ?thesis using d assms(2-4) by (simp add: delims_ok_def)
  next
    assume "pe_state e' \<in> {P_term_ack_sent, P_term_req_sent2}"
    then have "pe_state e' \<noteq> P_active" "pe_state e' \<noteq> P_waiting_for_delimiter" "pe_state e' \<noteq> P_delimiter_received"
      "pe_state e' \<noteq> P_term_req_sent1" by auto
    then show ?thesis using d assms(2-4) by (simp add: delims_ok_def)
  qed
qed

lemma box_head:
  assumes "pair_inv s" "pp_box s b = c # cs"
  shows "sent (pp_end s (\<not> b)) = recvd (pp_end s b) @ filter is_term (c # cs)" "pe_alive (pp_end s b)"
    "end_ok (pp_end s b)" "ack_final (c # cs)"
  using assms by (auto simp: pair_inv_def link_ok_def dest: spec [of _ b])

lemma term_expected:
  assumes "pair_inv s" "pp_box s b = Pipe_term # cs"
  shows "pe_state (pp_end s b) \<in> {P_active, P_delimiter_received, P_term_req_sent1}"
  using box_head [OF assms]
  by (auto simp: sent_def recvd_def split: pipe_state.splits if_splits)

lemma ack_expected:
  assumes "pair_inv s" "pp_box s b = Pipe_term_ack # cs"
  shows "pe_state (pp_end s b) \<in> {P_term_req_sent1, P_term_req_sent2, P_term_ack_sent}"
proof (rule ccontr)
  assume n: "pe_state (pp_end s b) \<notin> {P_term_req_sent1, P_term_req_sent2, P_term_ack_sent}"
  note h = box_head [OF assms]
  have "sent (pp_end s b) = []" using n by (auto simp: sent_def split: pipe_state.splits)
  moreover have "sent (pp_end s b) = recvd (pp_end s (\<not> b)) @ filter is_term (pp_box s (\<not> b))"
    using assms(1) by (auto simp: pair_inv_def link_ok_def dest: spec [of _ "\<not> b"])
  ultimately have "recvd (pp_end s (\<not> b)) = []" by simp
  moreover have "Pipe_term_ack \<in> set (sent (pp_end s (\<not> b)))" using h(1) by simp
  ultimately show False
    by (auto simp: sent_def recvd_def split: pipe_state.splits if_splits)
qed

lemma inv_deliver:
  assumes inv: "pair_inv s" and box: "pp_box s b = c # cs"
  shows "\<exists>s'. pair_deliver b c (s\<lparr>pp_box := (pp_box s)(b := cs)\<rparr>) = Inr s' \<and> pair_inv s'"
proof -
  let ?e = "pp_end s b" and ?s0 = "s\<lparr>pp_box := (pp_box s)(b := cs)\<rparr>"
  note h = box_head [OF inv box]
  have go: "pair_inv (send_peer b cs' (set_end b e' ?s0))"
    if "end_ok e'" "recvd e' = recvd ?e @ filter is_term [c]" "sent e' = sent ?e @ filter is_term cs'" "ack_final cs'"
      "cs' \<noteq> [] \<longrightarrow> Pipe_term_ack \<notin> set (sent ?e)" "\<not> pe_alive e' \<longrightarrow> cs = []"
      "pe_state e' = pe_state ?e \<or> pe_state ?e = P_active \<and> pe_state e' = P_waiting_for_delimiter
       \<or> pe_state e' \<in> {P_term_ack_sent, P_term_req_sent2}"
    for e' cs'
  proof (rule pair_invI [of _ b])
    show "link_ok (send_peer b cs' (set_end b e' ?s0)) d" for d
      by (rule link_deliver [OF inv box _ _ that(1-6)]) auto
    have "delims_ok (send_peer b cs' (set_end b e' ?s0)) b \<and> delims_ok (send_peer b cs' (set_end b e' ?s0)) (\<not> b)"
      by (rule delims_deliver [OF inv, of _ b e']) (use that(3,7) in simp_all)
    then show "delims_ok (send_peer b cs' (set_end b e' ?s0)) b"
      "delims_ok (send_peer b cs' (set_end b e' ?s0)) (\<not> b)" by simp_all
  qed
  show ?thesis
  proof (cases c)
    case Activate_read
    have "pair_inv (send_peer b [] (set_end b (fst (process_activate_read ?e)) ?s0))"
      by (rule go) (use h Activate_read in \<open>auto simp: process_activate_read_def end_ok_def sent_def recvd_def\<close>)
    then show ?thesis using Activate_read by (simp add: pair_deliver_def Let_def)
  next
    case (Activate_write n)
    have "pair_inv (send_peer b [] (set_end b (fst (process_activate_write n ?e)) ?s0))"
      by (rule go) (use h Activate_write in \<open>auto simp: process_activate_write_def Let_def end_ok_def sent_def recvd_def\<close>)
    then show ?thesis using Activate_write by (simp add: pair_deliver_def Let_def)
  next
    case Pipe_term
    have st: "pe_state ?e \<in> {P_active, P_delimiter_received, P_term_req_sent1}"
      using term_expected [OF inv] box Pipe_term by simp
    then obtain e' cs' where p: "process_pipe_term ?e = Inr (e', cs')"
      by (cases "pe_delay ?e") (auto simp: process_pipe_term_def check_def)
    have "pair_inv (send_peer b cs' (set_end b e' ?s0))"
      by (rule go)
        (use p st h Pipe_term in \<open>auto simp: process_pipe_term_def check_def end_ok_def sent_def recvd_def split: if_splits\<close>)
    then show ?thesis using Pipe_term p by (simp add: pair_deliver_def Let_def)
  next
    case Pipe_term_ack
    have st: "pe_state ?e \<in> {P_term_req_sent1, P_term_req_sent2, P_term_ack_sent}"
      using ack_expected [OF inv] box Pipe_term_ack by simp
    have cs: "cs = []" using h(4) Pipe_term_ack by simp
    obtain e' cs' evs where p: "process_pipe_term_ack ?e = Inr (e', cs', evs)"
      using st by (auto simp: process_pipe_term_ack_def check_def)
    have "pair_inv (send_peer b cs' (set_end b e' ?s0))"
      by (rule go)
        (use p st h cs Pipe_term_ack in
          \<open>auto simp: process_pipe_term_ack_def check_def end_ok_def sent_def recvd_def split: if_splits\<close>)
    then show ?thesis using Pipe_term_ack p by (simp add: pair_deliver_def Let_def)
  qed
qed

lemma inv_same_end:
  assumes "pair_inv s" "pe_state e' = pe_state (pp_end s b)" "pe_alive e' = pe_alive (pp_end s b)"
    "pe_outpipe e' = pe_outpipe (pp_end s b)"
  shows "pair_inv (set_end b e' s)"
proof -
  have "op_ok (pp_end s b) e' []"
    using pairD [OF assms(1)] assms(2-4) by (intro op_ok_same) auto
  then have w: "write_effect (pp_end s b) (pp_in s (\<not> b)) e' (pp_in s (\<not> b)) []"
    using pairD [OF assms(1)] assms(2) by (auto simp: write_effect_def)
  show ?thesis using inv_write [OF assms(1) w] by simp
qed

text \<open>Every step that may be taken succeeds and keeps the invariant.\<close>

lemma pair_step_inv:
  assumes inv: "pair_inv s" and en: "pair_enabled ev s"
  shows "\<exists>s'. pair_step ev s = Inr s' \<and> pair_inv s'"
proof (cases ev)
  case (Read b)
  then show ?thesis
    using pipe_read_effect [OF pairD(1) [OF inv] _ pairD(2) [OF inv], of b b] en inv_read [OF inv] by fastforce
next
  case (Check_read b)
  then show ?thesis
    using pipe_check_read_effect [OF pairD(1) [OF inv] _ pairD(2) [OF inv], of b b] en inv_read [OF inv] by fastforce
next
  case (Write b m)
  obtain ok e' y' where w: "pipe_write m (pp_end s b) (pp_in s (\<not> b)) = (ok, e', y')"
    by (cases "pipe_write m (pp_end s b) (pp_in s (\<not> b))")
  have eff: "write_effect (pp_end s b) (pp_in s (\<not> b)) e' y' []"
    by (rule pipe_write_effect [OF pairD(1) [OF inv] pairD(2) [OF inv] _ w]) (use en Write in simp)
  show ?thesis using inv_write [OF inv eff] w Write by simp
next
  case (Check_write b)
  then show ?thesis using inv_same_end [OF inv] by (simp add: pipe_check_write_same)
next
  case (Rollback b)
  obtain y' where r: "pipe_rollback (pp_end s b) (pp_in s (\<not> b)) = Inr y'"
      "write_effect (pp_end s b) (pp_in s (\<not> b)) (pp_end s b) y' []"
    using pipe_rollback_effect [OF pairD(1) [OF inv] pairD(2) [OF inv]] by blast
  show ?thesis using inv_write [OF inv r(2)] r(1) Rollback by simp
next
  case (Flush b)
  obtain y' cs where f: "pipe_flush (pp_end s b) (pp_in s (\<not> b)) = (y', cs)"
    by (cases "pipe_flush (pp_end s b) (pp_in s (\<not> b))")
  have eff: "write_effect (pp_end s b) (pp_in s (\<not> b)) (pp_end s b) y' cs"
    by (rule pipe_flush_effect [OF pairD(1) [OF inv] _ pairD(2) [OF inv] f]) (use en Flush in simp)
  show ?thesis using inv_write [OF inv eff] f Flush by simp
next
  case (Terminate_pipe b d)
  then obtain e' y' cs where "pipe_terminate d (pp_end s b) (pp_in s (\<not> b)) = Inr (e', y', cs)"
      "terminate_effect (pp_end s b) (pp_in s (\<not> b)) e' y' cs"
    using pipe_terminate_effect [OF pairD(1) [OF inv, of b] _ pairD(2) [OF inv, of "\<not> b"], of d] en by auto
  then show ?thesis using inv_terminate [OF inv] Terminate_pipe by simp
next
  case (Nodelay b)
  then show ?thesis using inv_same_end [OF inv] by (simp add: set_nodelay_def)
next
  case (Deliver b)
  then obtain c cs where "pp_box s b = c # cs" using en by (cases "pp_box s b") auto
  then show ?thesis using inv_deliver [OF inv] Deliver by simp
qed

lemma pair_reaches_inv: "pair_reaches (pipepair h0 h1) s \<Longrightarrow> pair_inv s"
proof (induction rule: pair_reaches.induct)
  case pair_start
  show ?case by (rule new_pair_inv)
next
  case (pair_next s ev s')
  then show ?case using pair_step_inv [of s ev] by auto
qed

end
