(* ===== verification/Zmq_Pipe_Flow.thy ===== *)
theory Zmq_Pipe_Flow
  imports Zmq_Pipe_Pair
begin

section \<open>Flow control of a pipe\<close>

text \<open>
  The high-water mark bounds the messages on their way, and a writer that met it is told when
  the reader has caught up: the number of messages read that it knows of, or that a command on
  its way brings, is at least the last multiple of the low-water mark. Credentials are left out:
  they are counted when written and not when read.
\<close>

definition counted :: "zmsg \<Rightarrow> bool" where
  "counted m \<longleftrightarrow> \<not> msg_more m \<and> \<not> msg_identity m \<and> \<not> msg_delimiter m"

definition in_flight :: "zmsg ypipe \<Rightarrow> nat" where
  "in_flight y = length (filter counted (all_msgs y))"

definition no_credentials :: "zmsg ypipe \<Rightarrow> bool" where
  "no_credentials y \<longleftrightarrow> (\<forall>m\<in>set (all_msgs y). \<not> msg_credential m)"


subsection \<open>Acknowledgements on their way\<close>

fun acks_between :: "nat \<Rightarrow> nat \<Rightarrow> pipe_cmd list \<Rightarrow> bool" where
  "acks_between lo hi [] = (lo \<le> hi)"
| "acks_between lo hi (Activate_write n # cs) = (lo \<le> n \<and> acks_between n hi cs)"
| "acks_between lo hi (_ # cs) = acks_between lo hi cs"

fun latest_ack :: "nat \<Rightarrow> pipe_cmd list \<Rightarrow> nat" where
  "latest_ack lo [] = lo"
| "latest_ack lo (Activate_write n # cs) = latest_ack n cs"
| "latest_ack lo (_ # cs) = latest_ack lo cs"

fun silent :: "pipe_cmd list \<Rightarrow> bool" where
  "silent [] = True"
| "silent (Activate_write n # cs) = False"
| "silent (_ # cs) = silent cs"

lemma silent_append [simp]: "silent (cs @ ds) \<longleftrightarrow> silent cs \<and> silent ds"
  by (induction cs rule: silent.induct) auto

lemma silent_wake: "set cs \<subseteq> {Activate_read} \<Longrightarrow> silent cs"
  by (induction cs) auto

lemma latest_append: "latest_ack lo (cs @ ds) = latest_ack (latest_ack lo cs) ds"
  by (induction lo cs rule: latest_ack.induct) auto

lemma latest_silent: "silent cs \<Longrightarrow> latest_ack lo cs = lo"
  by (induction cs rule: silent.induct) auto

lemma acks_append: "acks_between lo hi (cs @ ds) \<longleftrightarrow>
    acks_between lo (latest_ack lo cs) cs \<and> acks_between (latest_ack lo cs) hi ds"
  by (induction lo hi cs rule: acks_between.induct) (auto dest: acks_between.elims)

lemma acks_silent: "silent cs \<Longrightarrow> acks_between lo hi cs = (lo \<le> hi)"
  by (induction cs rule: silent.induct) auto

lemma acks_split:
  assumes "acks_between lo hi cs"
  shows "acks_between lo (latest_ack lo cs) cs" "latest_ack lo cs \<le> hi"
  using assms by (induction lo hi cs rule: acks_between.induct) auto

lemma div_int_Suc:
  assumes "0 < (d::int)" "int (Suc n) mod d \<noteq> 0"
  shows "int (Suc n) div d = int n div d"
proof -
  define k where "k = nat d"
  have d: "d = int k" using assms(1) by (simp add: k_def)
  have "int (Suc n mod k) \<noteq> 0" using assms(2) unfolding d zmod_int .
  then have "Suc n div k = n div k" by (simp add: div_Suc)
  then show ?thesis unfolding d by (simp only: zdiv_int [symmetric])
qed

lemma acks_le: "acks_between lo hi cs \<Longrightarrow> lo \<le> latest_ack lo cs \<and> latest_ack lo cs \<le> hi"
  by (induction lo hi cs rule: acks_between.induct) auto

lemma latest_in: "latest_ack lo cs \<noteq> lo \<Longrightarrow> Activate_write (latest_ack lo cs) \<in> set cs"
proof (induction lo cs rule: latest_ack.induct)
  case (2 lo n cs)
  then show ?case by (cases "latest_ack n cs = n") auto
qed auto


subsection \<open>One direction\<close>

text \<open>From the writing end \<open>a\<close> to the reading end \<open>r\<close>; the box is that of the writer.\<close>

definition flow :: "pipe_end \<Rightarrow> pipe_end \<Rightarrow> zmsg ypipe \<Rightarrow> pipe_cmd list \<Rightarrow> bool" where
  "flow a r y box \<longleftrightarrow>
     pe_msgs_read r + in_flight y = pe_msgs_written a \<and> no_credentials y
   \<and> acks_between (pe_peers_msgs_read a) (pe_msgs_read r) box \<and> compute_lwm (pe_hwm a) = pe_lwm r
   \<and> (pe_hwm a > 0 \<longrightarrow> int (pe_msgs_written a) - int (pe_peers_msgs_read a) \<le> pe_hwm a
        \<and> int (pe_msgs_read r) div pe_lwm r * pe_lwm r \<le> int (latest_ack (pe_peers_msgs_read a) box))
   \<and> (pe_state a = P_active \<and> \<not> pe_out_active a \<longrightarrow> pipe_full a)"

lemma lwm_bounds: "hwm > 0 \<Longrightarrow> 0 < compute_lwm hwm \<and> compute_lwm hwm \<le> hwm"
  by (auto simp: compute_lwm_def max_wm_delta_def signed_divide_int_def)

lemma flow_new: "flow (pp_end (pipepair h0 h1) b) (pp_end (pipepair h0 h1) (\<not> b)) (pp_in (pipepair h0 h1) (\<not> b)) []"
  by (cases b) (simp_all add: flow_def pipepair_def pipe_new_def in_flight_def no_credentials_def all_msgs_def pipe_of_def
      ypipe_new_def)

definition same_writer :: "pipe_end \<Rightarrow> pipe_end \<Rightarrow> bool" where
  "same_writer a a' \<longleftrightarrow> pe_msgs_written a' = pe_msgs_written a \<and> pe_peers_msgs_read a' = pe_peers_msgs_read a
     \<and> pe_hwm a' = pe_hwm a
     \<and> (pe_state a' = P_active \<longrightarrow> pe_state a = P_active \<and> (\<not> pe_out_active a' \<longrightarrow> \<not> pe_out_active a \<or> pipe_full a))"

definition same_reader :: "pipe_end \<Rightarrow> pipe_end \<Rightarrow> bool" where
  "same_reader r r' \<longleftrightarrow> pe_msgs_read r' = pe_msgs_read r \<and> pe_lwm r' = pe_lwm r"

definition same_pipe :: "zmsg ypipe \<Rightarrow> zmsg ypipe \<Rightarrow> bool" where
  "same_pipe y y' \<longleftrightarrow> in_flight y' = in_flight y \<and> (no_credentials y \<longrightarrow> no_credentials y')"

lemma same_refl [simp]: "same_writer a a" "same_reader a a" "same_pipe y y"
  by (simp_all add: same_writer_def same_reader_def same_pipe_def)

lemma flow_frame:
  assumes f: "flow a r y box" and s: "same_writer a a'" "same_reader r r'" "same_pipe y y'" "silent cs"
  shows "flow a' r' y' (box @ cs)"
proof -
  have full: "pipe_full a' = pipe_full a" using s(1) by (simp add: same_writer_def pipe_full_def)
  have "acks_between (pe_peers_msgs_read a) (pe_msgs_read r) box" using f by (simp add: flow_def)
  note ab = acks_split [OF this]
  have acks: "acks_between (pe_peers_msgs_read a) (pe_msgs_read r) (box @ cs)"
    using s(4) ab by (simp add: acks_append acks_silent)
  have latest: "latest_ack (pe_peers_msgs_read a) (box @ cs) = latest_ack (pe_peers_msgs_read a) box"
    using s(4) by (simp add: latest_append latest_silent)
  have out: "pe_state a' = P_active \<and> \<not> pe_out_active a' \<longrightarrow> pipe_full a'"
    using f s(1) full by (auto simp: flow_def same_writer_def)
  have eqs: "pe_msgs_written a' = pe_msgs_written a" "pe_peers_msgs_read a' = pe_peers_msgs_read a" "pe_hwm a' = pe_hwm a"
      "pe_msgs_read r' = pe_msgs_read r" "pe_lwm r' = pe_lwm r" "in_flight y' = in_flight y"
    using s by (simp_all add: same_writer_def same_reader_def same_pipe_def)
  have "no_credentials y'" using f s(3) by (simp add: flow_def same_pipe_def)
  then show ?thesis
    using f acks out unfolding flow_def eqs latest by blast
qed

lemma flow_read_one:
  assumes f: "flow a r y box" and y': "in_flight y = Suc (in_flight y')" "no_credentials y'"
    and r': "pe_msgs_read r' = Suc (pe_msgs_read r)" "pe_lwm r' = pe_lwm r"
    and cs: "cs = (if pe_lwm r' > 0 \<and> int (pe_msgs_read r') mod pe_lwm r' = 0 then [Activate_write (pe_msgs_read r')] else [])"
  shows "flow a r' y' (box @ cs)"
proof -
  define p where "p = pe_peers_msgs_read a"
  define n where "n = pe_msgs_read r"
  have "acks_between p n box" using f by (simp add: flow_def p_def n_def)
  note b = acks_split [OF this]
  have acks: "acks_between p (Suc n) (box @ cs)" using r' cs b by (simp add: acks_append n_def)
  have "int (Suc n) div pe_lwm r * pe_lwm r \<le> int (latest_ack p (box @ cs))" if "pe_hwm a > 0"
  proof (cases "int (Suc n) mod pe_lwm r = 0")
    case True
    have "pe_lwm r > 0" using f that lwm_bounds [of "pe_hwm a"] by (simp add: flow_def)
    then have "latest_ack p (box @ cs) = Suc n" using True r' cs by (simp add: latest_append n_def)
    moreover have "int (Suc n) div pe_lwm r * pe_lwm r \<le> int (Suc n)"
      using minus_mod_eq_div_mult [of "int (Suc n)" "pe_lwm r"] True by simp
    ultimately show ?thesis by simp
  next
    case False
    have "pe_lwm r > 0" using f that lwm_bounds [of "pe_hwm a"] by (simp add: flow_def)
    then have "int (Suc n) div pe_lwm r = int n div pe_lwm r" using div_int_Suc False by simp
    moreover have "cs = []" using False r' cs by (simp add: n_def)
    moreover have "int n div pe_lwm r * pe_lwm r \<le> int (latest_ack p box)"
      using f that unfolding flow_def n_def p_def by blast
    ultimately show ?thesis by simp
  qed
  then show ?thesis using f y' r' acks by (simp add: flow_def n_def p_def)
qed

lemma flow_write_one:
  assumes f: "flow a r y box" and y': "in_flight y' = Suc (in_flight y)" "no_credentials y'"
    and a: "\<not> pipe_full a" "a' = a\<lparr>pe_msgs_written := pe_msgs_written a + 1\<rparr>" "pe_out_active a"
  shows "flow a' r y' box"
proof -
  have "pe_hwm a > 0 \<longrightarrow> int (pe_msgs_written a) - int (pe_peers_msgs_read a) < pe_hwm a"
    using f a(1) by (auto simp: flow_def pipe_full_def)
  then show ?thesis using f y' a(2,3) by (auto simp: flow_def)
qed

lemma flow_ack:
  assumes f: "flow a r y (Activate_write n # box)"
  shows "flow (fst (process_activate_write n a)) r y box"
proof -
  have le: "pe_peers_msgs_read a \<le> n" and acks: "acks_between n (pe_msgs_read r) box"
    using f by (simp_all add: flow_def)
  have flds: "pe_msgs_written (fst (process_activate_write n a)) = pe_msgs_written a"
    "pe_peers_msgs_read (fst (process_activate_write n a)) = n"
    "pe_hwm (fst (process_activate_write n a)) = pe_hwm a"
    "pe_state (fst (process_activate_write n a)) = P_active \<longrightarrow> pe_out_active (fst (process_activate_write n a))"
    by (simp_all add: process_activate_write_def Let_def)
  have "pe_hwm a > 0 \<longrightarrow> int (pe_msgs_written a) - int n \<le> pe_hwm a"
    using f le by (auto simp: flow_def)
  moreover have "pe_hwm a > 0 \<longrightarrow> int (pe_msgs_read r) div pe_lwm r * pe_lwm r \<le> int (latest_ack n box)"
    using f by (simp add: flow_def)
  ultimately show ?thesis
    using f acks flds(4) unfolding flow_def flds(1-3) by blast
qed

lemma flow_command:
  assumes "flow a r y (c # box)" "\<forall>n. c \<noteq> Activate_write n" "same_writer a a'"
  shows "flow a' r y box"
proof -
  have "acks_between lo hi (c # box) = acks_between lo hi box" "latest_ack lo (c # box) = latest_ack lo box" for lo hi
    using assms(2) by (cases c; simp)+
  then have "flow a r y box" using assms(1) by (simp add: flow_def)
  from flow_frame [OF this assms(3), of r y "[]"] show ?thesis by simp
qed


subsection \<open>What the calls do to the flow\<close>

lemma process_delimiter_flow:
  "process_delimiter e = Inr (e', cs) \<Longrightarrow> same_writer e e' \<and> same_reader e e' \<and> silent cs"
  by (auto simp: process_delimiter_def check_def same_writer_def same_reader_def split: if_splits)

lemma same_writer_credential: "same_writer (e\<lparr>pe_credential := c\<rparr>) e' = same_writer e e'"
  "same_reader (e\<lparr>pe_credential := c\<rparr>) e' = same_reader e e'"
  by (simp_all add: same_writer_def same_reader_def pipe_full_def)

lemma terminate_state_flow:
  "terminate_state e = Some (e', cs) \<Longrightarrow>
     same_writer e (e'\<lparr>pe_out_active := b\<rparr>) \<and> same_reader e e' \<and> silent cs \<and> pe_state e' \<noteq> P_active"
  by (cases "pe_state e") (auto simp: terminate_state_def same_writer_def same_reader_def split: if_splits)

lemma same_pipe_flush:
  assumes "ypipe_ok y" "pipe_flush e y = (y', cs)"
  shows "same_pipe y y' \<and> silent cs"
  using pipe_flush_spec [OF assms] flush_all [OF assms]
  by (auto simp: same_pipe_def in_flight_def no_credentials_def intro: silent_wake)

lemma same_pipe_rollback:
  assumes "in_ok y" "pipe_rollback e y = Inr y'"
  shows "same_pipe y y' \<and> ypipe_ok y'"
proof -
  have p: "ypipe_ok y" "\<forall>m\<in>set (mp_partial (pipe_of y)). msg_more m" using assms(1) by (simp_all add: in_ok_def)
  have z: "ypipe_ok y'" "pipe_of y' = (if pe_outpipe e then (pipe_of y)\<lparr>mp_partial := []\<rparr> else pipe_of y)"
    using pipe_rollback_spec [OF p, of e] assms(2) by auto
  have "filter counted (mp_partial (pipe_of y)) = []" using p(2) by (auto simp: counted_def filter_empty_conv)
  then show ?thesis
    using z by (auto simp: same_pipe_def in_flight_def no_credentials_def all_msgs_def)
qed

lemma same_pipe_delimiter:
  assumes "ypipe_ok y"
  shows "same_pipe y (ypipe_write delimiter_msg False y)"
  using write_refines [OF assms, of delimiter_msg False]
  by (auto simp: same_pipe_def in_flight_def no_credentials_def all_msgs_def mp_write_def counted_def delimiter_msg_def)

lemma same_pipe_trans: "same_pipe x y \<Longrightarrow> same_pipe y z \<Longrightarrow> same_pipe x z"
  by (simp add: same_pipe_def)

lemma flow_again:
  assumes "flow a r y box"
  shows "flow a r y (box @ [Activate_write (pe_msgs_read r)])"
proof -
  define p where "p = pe_peers_msgs_read a"
  have "acks_between p (pe_msgs_read r) box" using assms by (simp add: flow_def p_def)
  note b = acks_split [OF this]
  have acks: "acks_between p (pe_msgs_read r) (box @ [Activate_write (pe_msgs_read r)])"
    using b by (simp add: acks_append)
  have "int (pe_msgs_read r) div pe_lwm r * pe_lwm r \<le> int (pe_msgs_read r)" if "pe_hwm a > 0"
  proof -
    have "pe_lwm r > 0" using assms that lwm_bounds [of "pe_hwm a"] by (simp add: flow_def)
    then show ?thesis
      using minus_mod_eq_div_mult [of "int (pe_msgs_read r)" "pe_lwm r"] pos_mod_sign [of "pe_lwm r" "int (pe_msgs_read r)"]
      by linarith
  qed
  then show ?thesis using assms acks by (simp add: flow_def p_def latest_append)
qed

definition read_flow :: "pipe_end \<Rightarrow> zmsg ypipe \<Rightarrow> pipe_end \<Rightarrow> zmsg ypipe \<Rightarrow> pipe_cmd list \<Rightarrow> bool" where
  "read_flow e y e' y' cs \<longleftrightarrow> same_writer e e' \<and>
     (same_reader e e' \<and> same_pipe y y' \<and> (silent cs \<or> cs = [Activate_write (pe_msgs_read e)])
    \<or> in_flight y = Suc (in_flight y') \<and> no_credentials y' \<and> pe_msgs_read e' = Suc (pe_msgs_read e) \<and> pe_lwm e' = pe_lwm e
      \<and> cs = (if pe_lwm e' > 0 \<and> int (pe_msgs_read e') mod pe_lwm e' = 0 then [Activate_write (pe_msgs_read e')] else []))"

lemma flow_read:
  assumes "flow a e y box" "read_flow e y e' y' cs"
  shows "flow a e' y' (box @ cs)"
proof -
  from assms(2) consider
      (quiet) "same_reader e e'" "same_pipe y y'" "silent cs"
    | (again) "same_reader e e'" "same_pipe y y'" "cs = [Activate_write (pe_msgs_read e)]"
    | (one) "in_flight y = Suc (in_flight y')" "no_credentials y'" "pe_msgs_read e' = Suc (pe_msgs_read e)" "pe_lwm e' = pe_lwm e"
      "cs = (if pe_lwm e' > 0 \<and> int (pe_msgs_read e') mod pe_lwm e' = 0 then [Activate_write (pe_msgs_read e')] else [])"
    unfolding read_flow_def by blast
  then show ?thesis
  proof cases
    case quiet
    then show ?thesis using flow_frame [OF assms(1)] by simp
  next
    case again
    then show ?thesis using flow_frame [OF flow_again [OF assms(1)], of a e' y' "[]"] by simp
  next
    case one
    then show ?thesis by (rule flow_read_one [OF assms(1)])
  qed
qed

lemma read_msg_flow:
  assumes m: "pipe_read_msg m e y1 = Inr (v, e', y', cs)" and y: "mp_ready (pipe_of y) = m # mp_ready (pipe_of y1)"
    "mp_complete (pipe_of y1) = mp_complete (pipe_of y)" "mp_partial (pipe_of y1) = mp_partial (pipe_of y)"
    "no_credentials y"
  shows "read_flow e y e' y' cs"
proof -
  have all: "all_msgs y = m # all_msgs y1" using y by (simp add: all_msgs_def)
  then have nc: "no_credentials y1" and fl: "in_flight y = (if counted m then 1 else 0) + in_flight y1"
    using y(4) by (simp_all add: no_credentials_def in_flight_def)
  have y': "y' = y1" using m by (auto simp: pipe_read_msg_def and_then_def Let_def split: if_splits sum.splits)
  show ?thesis
  proof (cases "msg_delimiter m")
    case True
    then have "process_delimiter e = Inr (e', cs)" using m
      by (auto simp: pipe_read_msg_def and_then_def split: sum.splits)
    from process_delimiter_flow [OF this] show ?thesis
      using True nc fl y' by (simp add: read_flow_def same_pipe_def counted_def)
  next
    case del: False
    show ?thesis
    proof (cases "counted m")
      case True
      then have e': "e' = e\<lparr>pe_msgs_read := pe_msgs_read e + 1\<rparr>"
        "cs = (if pe_lwm e' > 0 \<and> int (pe_msgs_read e') mod pe_lwm e' = 0 then [Activate_write (pe_msgs_read e')] else [])"
        using m del by (auto simp: pipe_read_msg_def counted_def Let_def)
      show ?thesis
        unfolding read_flow_def e'(2) using True nc fl y' by (simp add: e'(1) same_writer_def pipe_full_def)
    next
      case False
      then have "e' = e" "silent cs \<or> cs = [Activate_write (pe_msgs_read e)]"
        using m del by (auto simp: pipe_read_msg_def counted_def Let_def split: if_splits)
      then show ?thesis using False nc fl y' by (simp add: read_flow_def same_pipe_def)
    qed
  qed
qed

lemma pipe_read_flow:
  assumes "pipe_read e y = Inr (v, e', y', cs)" "ypipe_ok y" "no_credentials y"
  shows "read_flow e y e' y' cs"
proof (cases "may_read e")
  case False
  then show ?thesis using assms by (simp add: pipe_read_def read_flow_def)
next
  case True
  then have loop: "pipe_read_loop (Suc (yp_back y)) e y = Inr (v, e', y', cs)" using assms(1) by (simp add: pipe_read_def)
  show ?thesis
    using ypipe_read_cases [OF assms(2)]
  proof (elim disjE exE conjE)
    fix y1 assume n: "mp_ready (pipe_of y) = []" "ypipe_read y = (None, y1)" "pipe_of y1 = (pipe_of y)\<lparr>mp_asleep := True\<rparr>"
    then have "e' = e\<lparr>pe_in_active := False\<rparr>" "y' = y1" "cs = []" using loop by auto
    then show ?thesis using n assms(3)
      by (simp add: read_flow_def same_writer_def same_reader_def same_pipe_def no_credentials_def in_flight_def all_msgs_def
          pipe_full_def)
  next
    fix m ms y1 assume s: "mp_ready (pipe_of y) = m # ms" "ypipe_read y = (Some m, y1)" "pipe_of y1 = (pipe_of y)\<lparr>mp_ready := ms\<rparr>"
    have "\<not> msg_credential m" using assms(3) s(1) by (simp add: no_credentials_def all_msgs_def)
    then have "pipe_read_msg m e y1 = Inr (v, e', y', cs)" using loop s(2) by simp
    then show ?thesis by (rule read_msg_flow) (use s assms(3) in simp_all)
  qed
qed

lemma pipe_check_read_flow:
  assumes "pipe_check_read e y = Inr (v, e', y', cs)" "ypipe_ok y" "no_credentials y"
  shows "read_flow e y e' y' cs"
proof (cases "may_read e")
  case False
  then show ?thesis using assms by (simp add: pipe_check_read_def read_flow_def)
next
  case may: True
  show ?thesis
    using ypipe_check_read_cases [OF assms(2)]
  proof (elim disjE exE conjE)
    fix y1 assume n: "mp_ready (pipe_of y) = []" "ypipe_check_read y = (False, y1)"
        "pipe_of y1 = (pipe_of y)\<lparr>mp_asleep := True\<rparr>"
    then have "e' = e\<lparr>pe_in_active := False\<rparr>" "y' = y1" "cs = []"
      using assms(1) may by (auto simp: pipe_check_read_def)
    then show ?thesis using n assms(3)
      by (simp add: read_flow_def same_writer_def same_reader_def same_pipe_def no_credentials_def in_flight_def all_msgs_def
          pipe_full_def)
  next
    fix y1 assume s: "mp_ready (pipe_of y) \<noteq> []" "ypipe_check_read y = (True, y1)" "ypipe_ok y1" "pipe_of y1 = pipe_of y"
    obtain m ms where ms: "mp_ready (pipe_of y) = m # ms" using s(1) by (cases "mp_ready (pipe_of y)") auto
    obtain y2 where y2: "ypipe_check_read y1 = (True, y2)" "ypipe_ok y2" "pipe_of y2 = pipe_of y1"
        "yp_items y2 ! yp_front y2 = m"
      using ypipe_check_read_cases [OF s(3)] s(4) ms by auto
    obtain y3 where y3: "ypipe_read y2 = (Some m, y3)" "pipe_of y3 = (pipe_of y2)\<lparr>mp_ready := ms\<rparr>"
      using ypipe_read_cases [OF y2(2)] y2(3) s(4) ms by auto
    have probe: "ypipe_probe msg_delimiter y1 = Inr (msg_delimiter m, y2)" using y2 by (simp add: ypipe_probe_def)
    show ?thesis
    proof (cases "msg_delimiter m")
      case False
      then have "e' = e" "y' = y2" "cs = []" using assms(1) may s(2) probe by (auto simp: pipe_check_read_def)
      then show ?thesis using y2(3) s(4) assms(3)
        by (simp add: read_flow_def same_pipe_def no_credentials_def in_flight_def all_msgs_def)
    next
      case True
      then have "pipe_read_msg m e y3 = Inr (None, e', y', cs)"
        using assms(1) may s(2) probe y3(1)
        by (auto simp: pipe_check_read_def pipe_read_msg_def and_then_def split: sum.splits)
      then show ?thesis by (rule read_msg_flow) (use ms y3(2) y2(3) s(4) assms(3) in simp_all)
    qed
  qed
qed

lemma pipe_write_flow:
  assumes w: "pipe_write m e y = (ok, e', y')" and f: "flow e r y box"
    and y: "ypipe_ok y" "\<not> msg_credential m" "\<not> msg_delimiter m"
  shows "flow e' r y' box"
proof (cases "fst (pipe_check_write e)")
  case False
  then have "e' = snd (pipe_check_write e)" "y' = y" using w by (auto simp: pipe_write_def split: prod.splits if_splits)
  moreover have "same_writer e (snd (pipe_check_write e))"
    by (simp add: pipe_check_write_def same_writer_def)
  ultimately show ?thesis using flow_frame [OF f, of e' r y "[]"] by simp
next
  case True
  then have c: "pipe_check_write e = (True, e)" "\<not> pipe_full e" "pe_out_active e"
    by (auto simp: pipe_check_write_def split: if_splits)
  note wr = write_refines [OF y(1), of m "msg_more m"]
  have nc: "no_credentials (ypipe_write m (msg_more m) y)"
    using f y(2) wr by (auto simp: flow_def no_credentials_def all_msgs_def mp_write_def)
  show ?thesis
  proof (cases "counted m")
    case True
    then have "e' = e\<lparr>pe_msgs_written := pe_msgs_written e + 1\<rparr>" "y' = ypipe_write m (msg_more m) y"
      using w c(1) by (auto simp: pipe_write_def counted_def)
    moreover have "in_flight (ypipe_write m (msg_more m) y) = Suc (in_flight y)"
      using wr True by (simp add: in_flight_def all_msgs_def mp_write_def counted_def)
    ultimately show ?thesis using flow_write_one [OF f] nc c(2,3) by blast
  next
    case False
    then have "e' = e" "y' = ypipe_write m (msg_more m) y"
      using w c(1) y(3) by (auto simp: pipe_write_def counted_def)
    moreover have "same_pipe y (ypipe_write m (msg_more m) y)"
      using wr False nc by (simp add: same_pipe_def in_flight_def all_msgs_def mp_write_def)
    ultimately show ?thesis using flow_frame [OF f, of e r y' "[]"] by simp
  qed
qed

lemma pipe_write_reader: "pipe_write m e y = (ok, e', y') \<Longrightarrow> same_reader e e'"
  by (auto simp: pipe_write_def pipe_check_write_def same_reader_def split: if_splits)

lemma pipe_terminate_flow:
  assumes t: "pipe_terminate d e y = Inr (e', y', cs)" and y: "in_ok y"
  shows "same_writer e e' \<and> same_reader e e' \<and> same_pipe y y' \<and> silent cs"
proof (cases "terminate_state (e\<lparr>pe_delay := d\<rparr>)")
  case None
  then show ?thesis using t by (auto simp: pipe_terminate_def same_writer_def same_reader_def)
next
  case (Some r)
  obtain e1 cs1 where r: "r = (e1, cs1)" by (cases r)
  define e2 where "e2 = e1\<lparr>pe_out_active := False\<rparr>"
  have s: "same_writer e e2" "same_reader e e2" "silent cs1"
    using terminate_state_flow [of "e\<lparr>pe_delay := d\<rparr>" e1 cs1 False] Some r
    by (auto simp: e2_def same_writer_def same_reader_def pipe_full_def)
  have t': "(if pe_outpipe e2 then
       and_then (pipe_rollback e2 y) (\<lambda>y1. case pipe_flush e2 (ypipe_write delimiter_msg False y1) of (y2, cs') \<Rightarrow> Inr (e2, y2, cs1 @ cs'))
     else Inr (e2, y, cs1)) = (Inr (e', y', cs) :: (pipe_end \<times> zmsg ypipe \<times> pipe_cmd list) outcome)"
    using t Some r unfolding pipe_terminate_def by (simp only: e2_def option.case Let_def prod.case)
  show ?thesis
  proof (cases "pe_outpipe e2")
    case True
    obtain y1 where r1: "pipe_rollback e2 y = Inr y1"
      using pipe_rollback_spec [of y e2] y by (auto simp: in_ok_def)
    obtain y2 cs2 where f2: "pipe_flush e2 (ypipe_write delimiter_msg False y1) = (y2, cs2)"
      by (cases "pipe_flush e2 (ypipe_write delimiter_msg False y1)")
    from t' True r1 f2 have y1: "pipe_rollback e2 y = Inr y1"
        "pipe_flush e2 (ypipe_write delimiter_msg False y1) = (y', cs2)" "e' = e2" "cs = cs1 @ cs2"
      by simp_all
    note a = same_pipe_rollback [OF y y1(1)]
    then have ok: "ypipe_ok y1" by simp
    note b = same_pipe_delimiter [OF ok]
    have "ypipe_ok (ypipe_write delimiter_msg False y1)" using write_refines [OF ok] by blast
    from same_pipe_flush [OF this y1(2)] show ?thesis
      using a b s y1(3,4) by (auto intro: same_pipe_trans)
  next
    case False
    then show ?thesis using t' s by auto
  qed
qed


subsection \<open>The flow in both directions\<close>

definition flow_ok :: "pipe_pair \<Rightarrow> bool \<Rightarrow> bool" where
  "flow_ok s b \<longleftrightarrow> flow (pp_end s b) (pp_end s (\<not> b)) (pp_in s (\<not> b)) (pp_box s b)"

lemma flow_pairI: "flow_ok s b \<Longrightarrow> flow_ok s (\<not> b) \<Longrightarrow> \<forall>c. flow_ok s c"
  by (cases b) (auto simp: all_bool_eq)

lemma flow_call:
  assumes "\<forall>c. flow_ok s c" "same_writer (pp_end s b) e'" "same_reader (pp_end s b) e'"
    "same_pipe (pp_in s (\<not> b)) y'" "silent cs"
  shows "\<forall>c. flow_ok (send_peer b cs (set_in (\<not> b) y' (set_end b e' s))) c"
proof (rule flow_pairI)
  have f: "flow_ok s b" "flow_ok s (\<not> b)" using assms(1) by blast+
  show "flow_ok (send_peer b cs (set_in (\<not> b) y' (set_end b e' s))) b"
    using flow_frame [OF f(1) [unfolded flow_ok_def] assms(2) same_refl(2) assms(4), of "[]"] by (simp add: flow_ok_def)
  show "flow_ok (send_peer b cs (set_in (\<not> b) y' (set_end b e' s))) (\<not> b)"
    using flow_frame [OF f(2) [unfolded flow_ok_def] same_refl(1) _ same_refl(3) assms(5)] assms(3)
    by (simp add: flow_ok_def)
qed

lemma flow_reads:
  assumes "\<forall>c. flow_ok s c" "read_flow (pp_end s b) (pp_in s b) e' y' cs"
  shows "\<forall>c. flow_ok (send_peer b cs (set_in b y' (set_end b e' s))) c"
proof (rule flow_pairI)
  have f: "flow_ok s b" "flow_ok s (\<not> b)" using assms(1) by blast+
  have w: "same_writer (pp_end s b) e'" using assms(2) by (simp add: read_flow_def)
  show "flow_ok (send_peer b cs (set_in b y' (set_end b e' s))) b"
    using flow_frame [OF f(1) [unfolded flow_ok_def] w same_refl(2,3), of "[]"] by (simp add: flow_ok_def)
  have "flow (pp_end s (\<not> b)) (pp_end s b) (pp_in s b) (pp_box s (\<not> b))" using f(2) by (simp add: flow_ok_def)
  from flow_read [OF this assms(2)] show "flow_ok (send_peer b cs (set_in b y' (set_end b e' s))) (\<not> b)"
    by (simp add: flow_ok_def)
qed

lemma flow_writes:
  assumes "\<forall>c. flow_ok s c" "flow e' (pp_end s (\<not> b)) y' (pp_box s b)" "same_reader (pp_end s b) e'"
  shows "\<forall>c. flow_ok (set_in (\<not> b) y' (set_end b e' s)) c"
proof (rule flow_pairI)
  have f: "flow_ok s (\<not> b)" using assms(1) by blast
  show "flow_ok (set_in (\<not> b) y' (set_end b e' s)) b" using assms(2) by (simp add: flow_ok_def)
  show "flow_ok (set_in (\<not> b) y' (set_end b e' s)) (\<not> b)"
    using flow_frame [OF f [unfolded flow_ok_def] same_refl(1) _ same_refl(3), of e' "[]"] assms(3)
    by (simp add: flow_ok_def)
qed

lemma flow_delivery:
  assumes all: "\<forall>c. flow_ok s c" and box: "pp_box s b = c # cs"
    and e': "same_reader (pp_end s b) e'"
      "\<forall>r y. flow (pp_end s b) r y (c # cs) \<longrightarrow> flow e' r y cs" and sil: "silent cs'"
  shows "\<forall>d. flow_ok (send_peer b cs' (set_end b e' (s\<lparr>pp_box := (pp_box s)(b := cs)\<rparr>))) d"
proof (rule flow_pairI)
  let ?s = "send_peer b cs' (set_end b e' (s\<lparr>pp_box := (pp_box s)(b := cs)\<rparr>))"
  have f: "flow_ok s b" "flow_ok s (\<not> b)" using all by blast+
  show "flow_ok ?s b" using f(1) box e'(2) by (simp add: flow_ok_def)
  show "flow_ok ?s (\<not> b)"
    using flow_frame [OF f(2) [unfolded flow_ok_def] same_refl(1) _ same_refl(3) sil] e'(1) by (simp add: flow_ok_def)
qed

lemma silent_replies:
  "process_pipe_term e = Inr (e', cs) \<Longrightarrow> same_writer e e' \<and> same_reader e e' \<and> silent cs"
  "process_pipe_term_ack e = Inr (e', cs, evs) \<Longrightarrow> same_writer e e' \<and> same_reader e e' \<and> silent cs"
  "same_writer e (fst (process_activate_read e)) \<and> same_reader e (fst (process_activate_read e))"
  "same_reader e (fst (process_activate_write n e))"
  by (auto simp: process_pipe_term_def process_pipe_term_ack_def process_activate_read_def process_activate_write_def
      check_def same_writer_def same_reader_def Let_def split: if_splits)

lemma flow_deliver:
  assumes all: "\<forall>c. flow_ok s c" and box: "pp_box s b = c # cs"
    and d: "pair_deliver b c (s\<lparr>pp_box := (pp_box s)(b := cs)\<rparr>) = Inr s'"
  shows "\<forall>c. flow_ok s' c"
proof -
  let ?e = "pp_end s b" and ?s0 = "s\<lparr>pp_box := (pp_box s)(b := cs)\<rparr>"
  have keep: "\<forall>r y. flow ?e r y (c # cs) \<longrightarrow> flow e' r y cs" if "same_writer ?e e'" "\<forall>n. c \<noteq> Activate_write n" for e'
    using flow_command that by blast
  show ?thesis
  proof (cases c)
    case Activate_read
    then have s': "s' = send_peer b [] (set_end b (fst (process_activate_read ?e)) ?s0)"
      using d by (simp add: pair_deliver_def Let_def)
    show ?thesis unfolding s'
      by (rule flow_delivery [OF all box]) (use silent_replies(3) keep Activate_read in auto)
  next
    case (Activate_write n)
    then have s': "s' = send_peer b [] (set_end b (fst (process_activate_write n ?e)) ?s0)"
      using d by (simp add: pair_deliver_def Let_def)
    show ?thesis unfolding s'
      by (rule flow_delivery [OF all box]) (use silent_replies(4) flow_ack Activate_write in auto)
  next
    case Pipe_term
    then obtain e' cs' where p: "process_pipe_term ?e = Inr (e', cs')" and s': "s' = send_peer b cs' (set_end b e' ?s0)"
      using d by (auto simp: pair_deliver_def Let_def and_then_def split: sum.splits)
    show ?thesis unfolding s'
      by (rule flow_delivery [OF all box]) (use silent_replies(1) [OF p] keep Pipe_term in auto)
  next
    case Pipe_term_ack
    then obtain e' cs' evs where p: "process_pipe_term_ack ?e = Inr (e', cs', evs)"
        and s': "s' = send_peer b cs' (set_end b e' ?s0)"
      using d by (auto simp: pair_deliver_def Let_def and_then_def split: sum.splits)
    show ?thesis unfolding s'
      by (rule flow_delivery [OF all box]) (use silent_replies(2) [OF p] keep Pipe_term_ack in auto)
  qed
qed

fun writes_credential :: "pair_event \<Rightarrow> bool" where
  "writes_credential (Write b m) = msg_credential m"
| "writes_credential _ = False"

lemma flow_step:
  assumes inv: "pair_inv s" and f: "\<forall>c. flow_ok s c" and en: "pair_enabled ev s" "\<not> writes_credential ev"
    and step: "pair_step ev s = Inr s'"
  shows "\<forall>c. flow_ok s' c"
proof -
  have ok: "in_ok (pp_in s b)" "ypipe_ok (pp_in s b)" "no_credentials (pp_in s b)" for b
    using pairD(2) [OF inv, of b] spec [OF f, of "\<not> b"] by (simp_all add: in_ok_def flow_ok_def flow_def)
  show ?thesis
  proof (cases ev)
    case (Read b)
    then obtain v e' y' cs where "pipe_read (pp_end s b) (pp_in s b) = Inr (v, e', y', cs)"
        "s' = send_peer b cs (set_in b y' (set_end b e' s))"
      using step by (auto simp: and_then_def split: sum.splits)
    then show ?thesis using flow_reads [OF f pipe_read_flow] ok by blast
  next
    case (Check_read b)
    then obtain v e' y' cs where "pipe_check_read (pp_end s b) (pp_in s b) = Inr (v, e', y', cs)"
        "s' = send_peer b cs (set_in b y' (set_end b e' s))"
      using step by (auto simp: and_then_def split: sum.splits)
    then show ?thesis using flow_reads [OF f pipe_check_read_flow] ok by blast
  next
    case (Write b m)
    obtain r e' y' where w: "pipe_write m (pp_end s b) (pp_in s (\<not> b)) = (r, e', y')"
      by (cases "pipe_write m (pp_end s b) (pp_in s (\<not> b))")
    then have s': "s' = set_in (\<not> b) y' (set_end b e' s)" using step Write by simp
    have "flow (pp_end s b) (pp_end s (\<not> b)) (pp_in s (\<not> b)) (pp_box s b)" using f by (simp add: flow_ok_def)
    from pipe_write_flow [OF w this ok(2)] show ?thesis
      unfolding s' using flow_writes [OF f] pipe_write_reader [OF w] en Write by simp
  next
    case (Check_write b)
    then have s': "s' = set_end b (snd (pipe_check_write (pp_end s b))) s" using step by simp
    have "same_writer (pp_end s b) (snd (pipe_check_write (pp_end s b)))"
      "same_reader (pp_end s b) (snd (pipe_check_write (pp_end s b)))"
      by (simp_all add: pipe_check_write_def same_writer_def same_reader_def)
    from flow_call [OF f this same_refl(3), of "[]"] show ?thesis by (simp add: s')
  next
    case (Rollback b)
    then obtain y' where y': "pipe_rollback (pp_end s b) (pp_in s (\<not> b)) = Inr y'" "s' = set_in (\<not> b) y' s"
      using step by (auto simp: and_then_def split: sum.splits)
    have "same_pipe (pp_in s (\<not> b)) y'" using same_pipe_rollback [OF ok(1) y'(1)] by simp
    from flow_call [OF f same_refl(1,2) this, of "[]"] show ?thesis by (simp add: y'(2))
  next
    case (Flush b)
    obtain y' cs where y': "pipe_flush (pp_end s b) (pp_in s (\<not> b)) = (y', cs)"
      by (cases "pipe_flush (pp_end s b) (pp_in s (\<not> b))")
    then have s': "s' = send_peer b cs (set_in (\<not> b) y' s)" using step Flush by simp
    have "same_pipe (pp_in s (\<not> b)) y'" "silent cs" using same_pipe_flush [OF ok(2) y'] by simp_all
    from flow_call [OF f same_refl(1,2) this] show ?thesis by (simp add: s')
  next
    case (Terminate_pipe b d)
    then obtain e' y' cs where t: "pipe_terminate d (pp_end s b) (pp_in s (\<not> b)) = Inr (e', y', cs)"
        and s': "s' = send_peer b cs (set_in (\<not> b) y' (set_end b e' s))"
      using step by (auto simp: and_then_def split: sum.splits)
    show ?thesis unfolding s' using flow_call [OF f] pipe_terminate_flow [OF t ok(1)] by blast
  next
    case (Nodelay b)
    then have s': "s' = set_end b (set_nodelay (pp_end s b)) s" using step by simp
    have "same_writer (pp_end s b) (set_nodelay (pp_end s b))" "same_reader (pp_end s b) (set_nodelay (pp_end s b))"
      by (simp_all add: set_nodelay_def same_writer_def same_reader_def)
    from flow_call [OF f this same_refl(3), of "[]"] show ?thesis by (simp add: s')
  next
    case (Deliver b)
    then obtain c cs where c: "pp_box s b = c # cs" using en by (cases "pp_box s b") auto
    then have "pair_deliver b c (s\<lparr>pp_box := (pp_box s)(b := cs)\<rparr>) = Inr s'" using step Deliver by simp
    then show ?thesis by (rule flow_deliver [OF f c])
  qed
qed


subsection \<open>Runs\<close>

fun pair_run :: "pair_event list \<Rightarrow> pipe_pair \<Rightarrow> pipe_pair outcome" where
  "pair_run [] s = Inr s"
| "pair_run (ev # evs) s =
     check (pair_enabled ev s) (Fatal ''not enabled'') (and_then (pair_step ev s) (pair_run evs))"

lemma run_step:
  "pair_run (ev # evs) s = Inr s' \<Longrightarrow> \<exists>s1. pair_enabled ev s \<and> pair_step ev s = Inr s1 \<and> pair_run evs s1 = Inr s'"
  by (auto simp: check_def and_then_def split: if_splits sum.splits)

lemma run_reaches: "pair_reaches s0 s \<Longrightarrow> pair_run evs s = Inr s' \<Longrightarrow> pair_reaches s0 s'"
proof (induction evs arbitrary: s)
  case (Cons ev evs)
  then obtain s1 where "pair_enabled ev s" "pair_step ev s = Inr s1" "pair_run evs s1 = Inr s'"
    using run_step by blast
  then show ?case using Cons.IH [of s1] Cons.prems(1) by (blast intro: pair_next)
qed simp

lemma run_flow:
  "pair_run evs s = Inr s' \<Longrightarrow> pair_inv s \<Longrightarrow> \<forall>c. flow_ok s c \<Longrightarrow> \<forall>ev\<in>set evs. \<not> writes_credential ev \<Longrightarrow> \<forall>c. flow_ok s' c"
proof (induction evs arbitrary: s)
  case (Cons ev evs)
  obtain s1 where s1: "pair_enabled ev s" "pair_step ev s = Inr s1" "pair_run evs s1 = Inr s'"
    using run_step [OF Cons.prems(1)] by blast
  have "pair_inv s1" using pair_step_inv [OF Cons.prems(2) s1(1)] s1(2) by auto
  moreover have "\<forall>c. flow_ok s1 c" using flow_step [OF Cons.prems(2,3) s1(1) _ s1(2)] Cons.prems(4) by simp
  ultimately show ?case using Cons.IH [OF s1(3)] Cons.prems(4) by simp
qed simp

text \<open>A blocked writer whose reader has fewer than high minus low messages left will be woken.\<close>

lemma flow_wakes:
  assumes "flow a r y box" "pe_hwm a > 0" "pipe_full a" "int (in_flight y) \<le> pe_hwm a - pe_lwm r"
  shows "\<exists>n. Activate_write n \<in> set box \<and> n > pe_peers_msgs_read a"
proof -
  define l where "l = latest_ack (pe_peers_msgs_read a) box"
  have lwm: "pe_lwm r > 0" using assms(1,2) lwm_bounds [of "pe_hwm a"] by (simp add: flow_def)
  have "int (pe_msgs_read r) div pe_lwm r * pe_lwm r \<le> int l" using assms(1,2) by (simp add: flow_def l_def)
  then have "int (pe_msgs_read r) - pe_lwm r < int l"
    using minus_mod_eq_div_mult [of "int (pe_msgs_read r)" "pe_lwm r"] pos_mod_bound [OF lwm, of "int (pe_msgs_read r)"]
    by linarith
  moreover have "int (pe_msgs_read r) + int (in_flight y) - int (pe_peers_msgs_read a) = pe_hwm a"
    using assms(1,3) by (auto simp: flow_def pipe_full_def)
  ultimately have "l > pe_peers_msgs_read a" using assms(4) by linarith
  then show ?thesis using latest_in [of "pe_peers_msgs_read a" box] by (auto simp: l_def)
qed

end
