(* ===== verification/Zmq_Pipe_Properties.thy ===== *)
theory Zmq_Pipe_Properties
  imports Zmq_Pipe_Flow
begin

section \<open>Properties of ZeroMQ's pipes\<close>

text \<open>
  The lock-free queue implements its contract; the commands of two pipe ends never meet a failed
  assertion or a deleted object; and a termination that came to rest ended for both ends.
\<close>

text \<open>Messages of one part, and parts of longer ones.\<close>

definition plain_msg :: "byte list \<Rightarrow> zmsg" where
  "plain_msg d = \<lparr>msg_more = False, msg_identity = False, msg_credential = False, msg_delimiter = False, msg_data = d\<rparr>"

definition part_msg :: "byte list \<Rightarrow> zmsg" where
  "part_msg d = (plain_msg d)\<lparr>msg_more := True\<rparr>"

lemmas run_simps = pipepair_def pipe_new_def compute_lwm_def max_wm_delta_def check_def and_then_def
  pipe_write_def pipe_check_write_def pipe_full_def plain_msg_def part_msg_def ypipe_new_def ypipe_write_def
  ypipe_unwrite_def pipe_flush_def ypipe_flush_def cas_def pipe_terminate_def terminate_state_def
  pipe_rollback_def delimiter_msg_def pair_deliver_def process_activate_read_def process_activate_write_def
  process_pipe_term_def process_pipe_term_ack_def pipe_read_def may_read_def ypipe_read_def ypipe_check_read_def
  pipe_read_msg_def process_delimiter_def Let_def

lemmas dead_ends = dead_acked end_ok_def sent_def

lemma dead_pipe_unused:
  assumes "pair_inv s" "\<not> pe_alive (pp_end s b)"
  shows "pp_box s b = [] \<and> \<not> pe_outpipe (pp_end s (\<not> b))"
proof -
  have "Pipe_term_ack \<in> set (sent (pp_end s (\<not> b)))" using dead_acked [OF assms(1), of "\<not> b"] assms(2) by simp
  moreover have "end_ok (pp_end s (\<not> b))" using pairD(1) [OF assms(1)] .
  ultimately have "\<not> pe_outpipe (pp_end s (\<not> b))"
    by (auto simp: end_ok_def sent_def split: pipe_state.splits if_splits)
  then show ?thesis using assms by (auto simp: pair_inv_def link_ok_def)
qed

text \<open>With nothing on its way, what one end has sent is what the other has received.\<close>

lemma quiet_ends:
  assumes "pair_inv s" "pp_box s True = []" "pp_box s False = []"
  shows "sent (pp_end s (\<not> b)) = recvd (pp_end s b)" "end_ok (pp_end s b)" "delims_ok s b"
proof -
  have "pp_box s b = []" using assms(2,3) by (cases b) auto
  then show "sent (pp_end s (\<not> b)) = recvd (pp_end s b)" "end_ok (pp_end s b)" "delims_ok s b"
    using assms(1) by (auto simp: pair_inv_def link_ok_def dest: spec [of _ b])
qed

lemma quiet_states:
  assumes "end_ok d" "end_ok e" "sent d = recvd e" "sent e = recvd d" "pe_state e \<noteq> P_active \<or> pe_state d \<noteq> P_active"
  shows "(\<not> pe_alive d \<and> \<not> pe_alive e)
     \<or> (pe_state d = P_waiting_for_delimiter \<and> pe_alive d \<and> pe_state e = P_term_req_sent1)
     \<or> (pe_state e = P_waiting_for_delimiter \<and> pe_alive e \<and> pe_state d = P_term_req_sent1)
     \<or> (pe_state e = P_delimiter_received \<and> sent d = []) \<or> (pe_state d = P_delimiter_received \<and> sent e = [])"
  using assms
  by (cases "pe_state d"; cases "pe_state e"; cases "pe_alive d"; cases "pe_alive e")
    (simp_all add: end_ok_def sent_def recvd_def)

text \<open>C35: ypipe_refines_contract. Every operation of \<open>ypipe_t\<close> keeps its pointers in order and does on
  the message lists what the contract of a pipe says: writing completes or extends the message under
  construction, \<open>unwrite\<close> takes back only parts of it, \<open>flush\<close> hands the complete messages over, all at
  once, and reports a sleeping reader, reading is in order and puts the reader to sleep on an empty pipe.\<close>

theorem ypipe_refines_contract:
  assumes "ypipe_ok y"
  shows "ypipe_ok (ypipe_write v i y) \<and> pipe_of (ypipe_write v i y) = mp_write v i (pipe_of y)
    \<and> ypipe_ok (snd (ypipe_unwrite y)) \<and> map_prod id pipe_of (ypipe_unwrite y) = mp_unwrite (pipe_of y)
    \<and> ypipe_ok (snd (ypipe_flush y)) \<and> map_prod id pipe_of (ypipe_flush y) = mp_flush (pipe_of y)
    \<and> ypipe_ok (snd (ypipe_check_read y)) \<and> map_prod id pipe_of (ypipe_check_read y) = mp_check_read (pipe_of y)
    \<and> ypipe_ok (snd (ypipe_read y)) \<and> map_prod id pipe_of (ypipe_read y) = mp_read (pipe_of y)"
proof -
  have "ypipe_ok (snd (ypipe_unwrite y)) \<and> map_prod id pipe_of (ypipe_unwrite y) = mp_unwrite (pipe_of y)"
    using unwrite_refines [OF assms] by (cases "ypipe_unwrite y") simp
  moreover have "ypipe_ok (snd (ypipe_flush y)) \<and> map_prod id pipe_of (ypipe_flush y) = mp_flush (pipe_of y)"
    using flush_refines [OF assms] by (cases "ypipe_flush y") simp
  moreover have "ypipe_ok (snd (ypipe_check_read y))
      \<and> map_prod id pipe_of (ypipe_check_read y) = mp_check_read (pipe_of y)"
    using check_read_refines [OF assms] by (cases "ypipe_check_read y") simp
  moreover have "ypipe_ok (snd (ypipe_read y)) \<and> map_prod id pipe_of (ypipe_read y) = mp_read (pipe_of y)"
    using read_refines [OF assms] by (cases "ypipe_read y") simp
  ultimately show ?thesis using write_refines [OF assms] by simp
qed

lemma ypipe_refines_contract_witness:
  "map_prod id pipe_of (ypipe_flush (ypipe_write (1::nat) False (snd (ypipe_read ypipe_new))))
     = (False, \<lparr>mp_ready = [1], mp_complete = [], mp_partial = [], mp_asleep = False\<rparr>)"
proof -
  define y where "y = ypipe_write (1::nat) False (snd (ypipe_read ypipe_new))"
  have "ypipe_ok y" "pipe_of y = \<lparr>mp_ready = [], mp_complete = [1], mp_partial = [], mp_asleep = True\<rparr>"
    by (simp_all add: y_def ypipe_ok_def pipe_of_def ypipe_write_def ypipe_read_def ypipe_check_read_def ypipe_new_def cas_def)
  moreover from this(1) have "map_prod id pipe_of (ypipe_flush y) = mp_flush (pipe_of y)"
    using ypipe_refines_contract [of y] by blast
  ultimately show ?thesis unfolding y_def [symmetric] by (simp add: mp_flush_def)
qed

text \<open>C36: pipe_protocol_safe. In any interleaving of calls on the two ends of a pipe pair and deliveries of
  their commands, no operation meets a failed assertion or runs for ever, no command is on its way to a
  deleted end, and no end holds a pointer to a pipe its peer has deleted.\<close>

theorem pipe_protocol_safe:
  assumes "pair_reaches (pipepair hwm0 hwm1) s"
  shows "(pair_enabled ev s \<longrightarrow> (\<exists>s'. pair_step ev s = Inr s'))
    \<and> (\<forall>b. \<not> pe_alive (pp_end s b) \<longrightarrow> pp_box s b = [] \<and> \<not> pe_outpipe (pp_end s (\<not> b)))"
  using pair_step_inv [OF pair_reaches_inv [OF assms], of ev] dead_pipe_unused [OF pair_reaches_inv [OF assms]] by blast

lemma pipe_protocol_safe_witness:
  "\<exists>s. pair_run [Write True (plain_msg [1]), Flush True, Terminate_pipe True True] (pipepair 1 1) = Inr s
     \<and> pp_box s False = [Pipe_term] \<and> (\<exists>s'. pair_step (Deliver False) s = Inr s')"
proof -
  obtain s where s: "pair_run [Write True (plain_msg [1]), Flush True, Terminate_pipe True True] (pipepair 1 1) = Inr s"
      "pp_box s False = [Pipe_term]"
    by (simp add: run_simps eval_nat_numeral)
  have "pair_reaches (pipepair 1 1) s" using run_reaches [OF pair_start s(1)] .
  from pipe_protocol_safe [OF this, of "Deliver False"] s show ?thesis by simp
qed

text \<open>C37: pipe_termination_ends. Once no command is on its way and an end has left the active state, both ends
  are deleted, or an end is waiting for its user to read the messages in front of a delimiter that is
  in its pipe: a termination is never stuck on the protocol.\<close>

theorem pipe_termination_ends:
  assumes "pair_reaches (pipepair hwm0 hwm1) s" "pp_box s True = []" "pp_box s False = []"
    and "pe_state (pp_end s b) \<noteq> P_active"
  shows "(\<forall>c. \<not> pe_alive (pp_end s c))
    \<or> (\<exists>c. pe_alive (pp_end s c) \<and> pe_state (pp_end s c) = P_waiting_for_delimiter
         \<and> has_delimiter (mp_ready (pipe_of (pp_in s c))))"
proof -
  have inv: "pair_inv s" by (rule pair_reaches_inv [OF assms(1)])
  note q = quiet_ends [OF inv assms(2,3)]
  have all: "(\<forall>c. P c) = (P b \<and> P (\<not> b))" for P by (cases b) (auto simp: all_bool_eq)
  have d: "delims_ok s b" "delims_ok s (\<not> b)" by (rule q(3))+
  have "sent (pp_end s b) = recvd (pp_end s (\<not> b))" using q(1) [of "\<not> b"] by simp
  from quiet_states [OF q(2) [of "\<not> b"] q(2) [of b] q(1) [of b] this] assms(4) show ?thesis
    using d unfolding all by (auto simp: delims_ok_def)
qed

lemma pipe_termination_ends_witness:
  "\<exists>s. pair_run [Write True (plain_msg [1]), Flush True, Terminate_pipe True True, Deliver False] (pipepair 1 1) = Inr s
     \<and> has_delimiter (mp_ready (pipe_of (pp_in s False)))"
proof -
  obtain s where s: "pair_run [Write True (plain_msg [1]), Flush True, Terminate_pipe True True, Deliver False]
        (pipepair 1 1) = Inr s"
      "pp_box s True = []" "pp_box s False = []" "pe_state (pp_end s True) = P_term_req_sent1"
      "pe_state (pp_end s False) = P_waiting_for_delimiter" "pe_alive (pp_end s True)"
    by (simp add: run_simps eval_nat_numeral)
  have r: "pair_reaches (pipepair 1 1) s" using run_reaches [OF pair_start s(1)] .
  have "pe_state (pp_end s True) \<noteq> P_active" using s(4) by simp
  from pipe_termination_ends [OF r s(2,3) this]
  obtain c where "pe_state (pp_end s c) = P_waiting_for_delimiter" "has_delimiter (mp_ready (pipe_of (pp_in s c)))"
    using s(6) by blast
  then show ?thesis using s by (cases c) auto
qed

text \<open>C38: pipe_flow_control. Unless credentials are written, the complete messages on their way to a reader never
  outnumber the writer's high-water mark, and a writer blocked by it has a command on its way that raises
  the number of messages it knows to be read, once no more than the difference of the two marks is left to read.\<close>

theorem pipe_flow_control:
  assumes "pair_run evs (pipepair hwm0 hwm1) = Inr s" "\<forall>ev\<in>set evs. \<not> writes_credential ev"
    and "pe_hwm (pp_end s b) > 0"
  shows "int (in_flight (pp_in s (\<not> b))) \<le> pe_hwm (pp_end s b)
    \<and> (pe_state (pp_end s b) = P_active \<and> \<not> pe_out_active (pp_end s b)
        \<and> int (in_flight (pp_in s (\<not> b))) \<le> pe_hwm (pp_end s b) - pe_lwm (pp_end s (\<not> b))
       \<longrightarrow> (\<exists>n. Activate_write n \<in> set (pp_box s b) \<and> n > pe_peers_msgs_read (pp_end s b)))"
proof -
  have "\<forall>c. flow_ok (pipepair hwm0 hwm1) c" using flow_new by (simp add: flow_ok_def pipepair_def)
  from run_flow [OF assms(1) new_pair_inv this assms(2)]
  have f: "flow (pp_end s b) (pp_end s (\<not> b)) (pp_in s (\<not> b)) (pp_box s b)" by (simp add: flow_ok_def)
  then have "pe_peers_msgs_read (pp_end s b) \<le> pe_msgs_read (pp_end s (\<not> b))"
    using acks_le by (fastforce simp: flow_def)
  then have "int (in_flight (pp_in s (\<not> b))) \<le> pe_hwm (pp_end s b)" using f assms(3) by (auto simp: flow_def)
  moreover have "pe_state (pp_end s b) = P_active \<and> \<not> pe_out_active (pp_end s b) \<longrightarrow> pipe_full (pp_end s b)"
    using f by (simp add: flow_def)
  ultimately show ?thesis using flow_wakes [OF f assms(3)] by blast
qed

lemma pipe_flow_control_witness:
  "\<exists>s n. pair_run [Write True (plain_msg [1]), Flush True, Write True (plain_msg [2]), Read False] (pipepair 1 1) = Inr s
     \<and> Activate_write n \<in> set (pp_box s True) \<and> n > 0"
proof -
  let ?evs = "[Write True (plain_msg [1]), Flush True, Write True (plain_msg [2]), Read False]"
  obtain s where s: "pair_run ?evs (pipepair 1 1) = Inr s" "pe_hwm (pp_end s True) = 1" "pe_lwm (pp_end s False) = 1"
      "pe_state (pp_end s True) = P_active" "\<not> pe_out_active (pp_end s True)" "in_flight (pp_in s False) = 0"
      "pe_peers_msgs_read (pp_end s True) = 0"
    by (simp add: run_simps eval_nat_numeral in_flight_def all_msgs_def pipe_of_def signed_divide_int_def)
  have "\<forall>ev\<in>set ?evs. \<not> writes_credential ev" by (simp add: plain_msg_def)
  from pipe_flow_control [OF s(1) this, of True] s show ?thesis by auto
qed

text \<open>A credential is counted when it is written and never when it is read: with a
  high-water mark of one the writer stays blocked although the pipe is empty and no command is on its way.\<close>

theorem credential_blocks_writer:
  "\<exists>s. pair_run [Write True ((plain_msg d)\<lparr>msg_credential := True\<rparr>), Flush True, Read False] (pipepair 1 1) = Inr s
     \<and> all_msgs (pp_in s False) = [] \<and> pp_box s True = [] \<and> pp_box s False = []
     \<and> pe_credential (pp_end s False) = d \<and> fst (pipe_check_write (pp_end s True)) = False"
  by (simp add: run_simps eval_nat_numeral all_msgs_def pipe_of_def)

text \<open>Lowering the high-water mark with \<open>set_hwms\<close> below the messages
  on their way lifts the bound: the test is for equality, so the next write succeeds whatever the mark,
  while \<open>check_hwm\<close> says that the pipe is full.\<close>

theorem lowered_mark_is_no_bound:
  assumes "0 < outhwm" "outhwm < int (pe_msgs_written e) - int (pe_peers_msgs_read e)"
    and "pe_out_active e" "pe_state e = P_active"
  shows "fst (pipe_write m (set_hwms inhwm outhwm e) y) \<and> \<not> check_hwm (set_hwms inhwm outhwm e)"
  using assms by (simp add: pipe_write_def pipe_check_write_def pipe_full_def set_hwms_def check_hwm_def)

lemma lowered_mark_is_no_bound_witness:
  "\<exists>e. pe_hwm e = 5 \<and> pe_msgs_written e = 4 \<and> fst (pipe_write (plain_msg []) (set_hwms 2 2 e) ypipe_new)"
proof -
  define e where "e = (pipe_new 5 5)\<lparr>pe_msgs_written := 4\<rparr>"
  have "fst (pipe_write (plain_msg []) (set_hwms 2 2 e) ypipe_new)"
    using lowered_mark_is_no_bound [of 2 e "plain_msg []" 2 ypipe_new] by (simp add: e_def pipe_new_def)
  then show ?thesis by (intro exI [of _ e]) (simp add: e_def pipe_new_def)
qed

end
