(* ===== verification/Zmq_Array.thy ===== *)
theory Zmq_Array
  imports Mog_Prelude
begin

section \<open>Arrays of pipes that know their place\<close>

text \<open>
  \<open>array.hpp\<close>: a vector of pointers whose items carry their own index, so that an item is found,
  swapped and removed in constant time. Pointers are numbers; \<open>pa_slot\<close> is the field
  \<open>array_index\<close> of the items for this array, \<open>None\<close> for its initial -1. The pointers are never NULL.
\<close>

record ptr_array =
  pa_items :: "nat list"
  pa_slot :: "nat \<Rightarrow> nat option"

definition array_new :: ptr_array where
  "array_new = \<lparr>pa_items = [], pa_slot = (\<lambda>p. None)\<rparr>"

definition array_at :: "nat \<Rightarrow> ptr_array \<Rightarrow> nat outcome" where
  "array_at i a =
     (if i < length (pa_items a) then Inr (pa_items a ! i) else Inl (Undefined ''items [index_]''))"

definition array_push_back :: "nat \<Rightarrow> ptr_array \<Rightarrow> ptr_array" where
  "array_push_back p a =
     \<lparr>pa_items = pa_items a @ [p], pa_slot = (pa_slot a)(p := Some (length (pa_items a)))\<rparr>"

definition array_index :: "nat \<Rightarrow> ptr_array \<Rightarrow> nat outcome" where
  "array_index p a =
     (case pa_slot a p of None \<Rightarrow> Inl (Undefined ''array_index of an item that is in no array'') | Some i \<Rightarrow> Inr i)"

definition array_erase_at :: "nat \<Rightarrow> ptr_array \<Rightarrow> ptr_array outcome" where
  "array_erase_at i a =
     check (i < length (pa_items a)) (Undefined ''items [index_]'')
       (let back = last (pa_items a)
        in Inr \<lparr>pa_items = butlast ((pa_items a)[i := back]), pa_slot = (pa_slot a)(back := Some i)\<rparr>)"

definition array_erase :: "nat \<Rightarrow> ptr_array \<Rightarrow> ptr_array outcome" where
  "array_erase p a = and_then (array_index p a) (\<lambda>i. array_erase_at i a)"

definition array_swap :: "nat \<Rightarrow> nat \<Rightarrow> ptr_array \<Rightarrow> ptr_array outcome" where
  "array_swap i j a =
     check (i < length (pa_items a) \<and> j < length (pa_items a)) (Undefined ''items [index_]'')
       (let p = pa_items a ! i; q = pa_items a ! j
        in Inr \<lparr>pa_items = (pa_items a)[i := q, j := p], pa_slot = (pa_slot a)(p := Some j, q := Some i)\<rparr>)"


subsection \<open>Every item knows its place\<close>

definition array_ok :: "ptr_array \<Rightarrow> bool" where
  "array_ok a \<longleftrightarrow> distinct (pa_items a) \<and> (\<forall>i < length (pa_items a). pa_slot a (pa_items a ! i) = Some i)"

lemma array_new_ok: "array_ok array_new"
  by (simp add: array_ok_def array_new_def)

lemma array_index_of: "array_ok a \<Longrightarrow> i < length (pa_items a) \<Longrightarrow> array_index (pa_items a ! i) a = Inr i"
  by (simp add: array_ok_def array_index_def)

lemma array_position:
  assumes "array_ok a" "p \<in> set (pa_items a)"
  obtains i where "i < length (pa_items a)" "pa_items a ! i = p" "array_index p a = Inr i"
  using assms by (metis in_set_conv_nth array_index_of)

lemma push_back_ok:
  assumes "array_ok a" "p \<notin> set (pa_items a)"
  shows "array_ok (array_push_back p a)"
  using assms by (auto simp: array_ok_def array_push_back_def nth_append less_Suc_eq)

lemma swap_list_set: "i < length xs \<Longrightarrow> j < length xs \<Longrightarrow> set (xs[i := xs ! j, j := xs ! i]) = set xs"
  using set_swap by blast

lemma swap_list_distinct: "i < length xs \<Longrightarrow> j < length xs \<Longrightarrow> distinct (xs[i := xs ! j, j := xs ! i]) = distinct xs"
  using distinct_swap by blast

lemma swap_list_nth:
  "i < length xs \<Longrightarrow> j < length xs \<Longrightarrow> k < length xs \<Longrightarrow>
     xs[i := xs ! j, j := xs ! i] ! k = (if k = i then xs ! j else if k = j then xs ! i else xs ! k)"
  by (auto simp: nth_list_update)

lemma array_swap_ok:
  assumes "array_ok a" "i < length (pa_items a)" "j < length (pa_items a)"
  shows "\<exists>a'. array_swap i j a = Inr a' \<and> array_ok a'
     \<and> pa_items a' = (pa_items a)[i := pa_items a ! j, j := pa_items a ! i]"
proof -
  let ?a = "\<lparr>pa_items = (pa_items a)[i := pa_items a ! j, j := pa_items a ! i],
             pa_slot = (pa_slot a)(pa_items a ! i := Some j, pa_items a ! j := Some i)\<rparr>"
  have "pa_slot ?a (pa_items ?a ! k) = Some k" if "k < length (pa_items a)" for k
    using assms that by (auto simp: array_ok_def swap_list_nth nth_eq_iff_index_eq)
  then have "array_ok ?a" using assms by (simp add: array_ok_def swap_list_distinct)
  moreover have "array_swap i j a = Inr ?a" using assms by (simp add: array_swap_def Let_def)
  ultimately show ?thesis by auto
qed

text \<open>Removing an item puts the last one into its place.\<close>

lemma array_erase_ok:
  assumes "array_ok a" "i < length (pa_items a)"
  shows "\<exists>a'. array_erase (pa_items a ! i) a = Inr a' \<and> array_ok a'
     \<and> pa_items a' = butlast ((pa_items a)[i := last (pa_items a)])"
proof -
  let ?xs = "pa_items a" and ?n = "length (pa_items a) - 1"
  have ne: "?xs \<noteq> []" using assms(2) by auto
  then have last: "last ?xs = ?xs ! ?n" and n: "?n < length ?xs" by (simp_all add: last_conv_nth)
  let ?ys = "butlast (?xs[i := ?xs ! ?n])"
  have nth: "?ys ! k = (if k = i then ?xs ! ?n else ?xs ! k)" if "k < ?n" for k
    using that assms(2) by (simp add: nth_butlast nth_list_update)
  have len: "length ?ys = ?n" by simp
  have "distinct ?ys"
    unfolding distinct_conv_nth len using assms n nth
    by (auto simp: array_ok_def nth_eq_iff_index_eq)
  moreover have "((pa_slot a)(?xs ! ?n := Some i)) (?ys ! k) = Some k" if "k < ?n" for k
    using assms that n nth [OF that] by (auto simp: array_ok_def nth_eq_iff_index_eq)
  ultimately have "array_ok \<lparr>pa_items = ?ys, pa_slot = (pa_slot a)(?xs ! ?n := Some i)\<rparr>"
    by (simp add: array_ok_def len)
  moreover have "array_erase (?xs ! i) a = Inr \<lparr>pa_items = ?ys, pa_slot = (pa_slot a)(?xs ! ?n := Some i)\<rparr>"
    using assms by (simp add: array_erase_def array_index_of array_erase_at_def last Let_def)
  ultimately show ?thesis by (auto simp: last)
qed

end
