(* ===== verification/Zmq_Balance.thy ===== *)
theory Zmq_Balance
  imports Zmq_Array Zmq_Pipe
begin

section \<open>Load balancing and fair queueing\<close>

text \<open>
  \<open>lb.{hpp,cpp}\<close> and \<open>fq.{hpp,cpp}\<close>: the outbound and the inbound pipes of a socket. Pipes are
  numbered; \<open>ports\<close> gives for each the socket's end, the queue it reads and the one it writes,
  the commands it has sent to its peer and the identity stored with it. The active pipes are at
  the beginning of the array. A result \<open>Some e\<close> is the return value -1 with \<open>errno = e\<close>; a
  message given away is not returned, a message received is \<open>None\<close> where there is none.
\<close>

datatype errno = Eagain | Efsm | Ehostunreach | Efault | Einval | Eterm

record port =
  po_end :: pipe_end
  po_in :: "zmsg ypipe"
  po_out :: "zmsg ypipe"
  po_sent :: "pipe_cmd list"
  po_identity :: "byte list"

type_synonym ports = "nat \<Rightarrow> port"

definition port_write :: "zmsg \<Rightarrow> port \<Rightarrow> bool \<times> port" where
  "port_write m p =
     (case pipe_write m (po_end p) (po_out p) of (ok, e, y) \<Rightarrow> (ok, p\<lparr>po_end := e, po_out := y\<rparr>))"

definition port_check_write :: "port \<Rightarrow> bool \<times> port" where
  "port_check_write p = (case pipe_check_write (po_end p) of (ok, e) \<Rightarrow> (ok, p\<lparr>po_end := e\<rparr>))"

definition port_flush :: "port \<Rightarrow> port" where
  "port_flush p =
     (case pipe_flush (po_end p) (po_out p) of (y, cs) \<Rightarrow> p\<lparr>po_out := y, po_sent := po_sent p @ cs\<rparr>)"

definition port_rollback :: "port \<Rightarrow> port outcome" where
  "port_rollback p = and_then (pipe_rollback (po_end p) (po_out p)) (\<lambda>y. Inr (p\<lparr>po_out := y\<rparr>))"

definition port_terminate :: "bool \<Rightarrow> port \<Rightarrow> port outcome" where
  "port_terminate delay p =
     and_then (pipe_terminate delay (po_end p) (po_out p)) (\<lambda>(e, y, cs).
       Inr (p\<lparr>po_end := e, po_out := y, po_sent := po_sent p @ cs\<rparr>))"

definition port_read :: "port \<Rightarrow> (zmsg option \<times> port) outcome" where
  "port_read p =
     and_then (pipe_read (po_end p) (po_in p)) (\<lambda>(m, e, y, cs).
       Inr (m, p\<lparr>po_end := e, po_in := y, po_sent := po_sent p @ cs\<rparr>))"

definition port_check_read :: "port \<Rightarrow> (bool \<times> port) outcome" where
  "port_check_read p =
     and_then (pipe_check_read (po_end p) (po_in p)) (\<lambda>(ok, e, y, cs).
       Inr (ok, p\<lparr>po_end := e, po_in := y, po_sent := po_sent p @ cs\<rparr>))"

lemma and_then_cong [fundef_cong]:
  "r = r' \<Longrightarrow> (\<And>x. r' = Inr x \<Longrightarrow> f x = g x) \<Longrightarrow> and_then r f = and_then r' g"
  by (cases r') auto


subsection \<open>Load balancing\<close>

record lb =
  lb_pipes :: ptr_array
  lb_active :: nat
  lb_current :: nat
  lb_more :: bool
  lb_dropping :: bool

definition lb_new :: lb where
  "lb_new = \<lparr>lb_pipes = array_new, lb_active = 0, lb_current = 0, lb_more = False, lb_dropping = False\<rparr>"

definition lb_activated :: "nat \<Rightarrow> lb \<Rightarrow> lb outcome" where
  "lb_activated p l =
     and_then (array_index p (lb_pipes l)) (\<lambda>i.
       and_then (array_swap i (lb_active l) (lb_pipes l)) (\<lambda>a.
         Inr (l\<lparr>lb_pipes := a, lb_active := lb_active l + 1\<rparr>)))"

definition lb_attach :: "nat \<Rightarrow> lb \<Rightarrow> lb outcome" where
  "lb_attach p l = lb_activated p (l\<lparr>lb_pipes := array_push_back p (lb_pipes l)\<rparr>)"

definition lb_pipe_terminated :: "nat \<Rightarrow> lb \<Rightarrow> lb outcome" where
  "lb_pipe_terminated p l =
     and_then (array_index p (lb_pipes l)) (\<lambda>index.
       let l1 = (if index = lb_current l \<and> lb_more l then l\<lparr>lb_dropping := True\<rparr> else l)
       in and_then
            (if index < lb_active l1 then
               let active = lb_active l1 - 1
               in and_then (array_swap index active (lb_pipes l1)) (\<lambda>a.
                    Inr (l1\<lparr>lb_pipes := a, lb_active := active,
                            lb_current := (if lb_current l1 = active then 0 else lb_current l1)\<rparr>))
             else Inr l1)
            (\<lambda>l2. and_then (array_erase p (lb_pipes l2)) (\<lambda>a. Inr (l2\<lparr>lb_pipes := a\<rparr>))))"

text \<open>\<open>active--\<close> and the choice of the next pipe when the current one cannot be written to.\<close>

definition lb_skip :: "lb \<Rightarrow> lb outcome" where
  "lb_skip l =
     (let active = lb_active l - 1
      in if lb_current l < active then
           and_then (array_swap (lb_current l) active (lb_pipes l)) (\<lambda>a. Inr (l\<lparr>lb_pipes := a, lb_active := active\<rparr>))
         else Inr (l\<lparr>lb_active := active, lb_current := 0\<rparr>))"

lemma lb_skip_active: "lb_skip l = Inr l' \<Longrightarrow> lb_active l' = lb_active l - 1"
  by (auto simp: lb_skip_def Let_def outcome_simps split: if_splits)

text \<open>The loop of \<open>sendpipe\<close> returns the pipe the message was written to.\<close>

function lb_send_loop :: "zmsg \<Rightarrow> lb \<Rightarrow> ports \<Rightarrow> (nat option \<times> lb \<times> ports) outcome" where
  "lb_send_loop m l ps =
     (if lb_active l = 0 then Inr (None, l, ps)
      else and_then (array_at (lb_current l) (lb_pipes l)) (\<lambda>p.
        let (ok, q) = port_write m (ps p)
        in if ok then Inr (Some p, l, ps(p := q))
           else check (\<not> lb_more l) (Fatal ''zmq_assert (!more)'')
             (and_then (lb_skip l) (\<lambda>l'. lb_send_loop m l' (ps(p := q))))))"
  by auto
termination
  by (relation "measure (\<lambda>(m, l, ps). lb_active l)") (auto dest: lb_skip_active)

declare lb_send_loop.simps [simp del]

definition lb_sendpipe :: "zmsg \<Rightarrow> lb \<Rightarrow> ports \<Rightarrow> (errno option \<times> nat option \<times> lb \<times> ports) outcome" where
  "lb_sendpipe m l ps =
     (if lb_dropping l then Inr (None, None, l\<lparr>lb_more := msg_more m, lb_dropping := msg_more m\<rparr>, ps)
      else and_then (lb_send_loop m l ps) (\<lambda>(pipe, l1, ps1).
        if lb_active l1 = 0 then Inr (Some Eagain, pipe, l1, ps1)
        else let l2 = l1\<lparr>lb_more := msg_more m\<rparr>
             in if lb_more l2 then Inr (None, pipe, l2, ps1)
                else and_then (array_at (lb_current l2) (lb_pipes l2)) (\<lambda>p.
                  Inr (None, pipe, l2\<lparr>lb_current := (lb_current l2 + 1) mod lb_active l2\<rparr>,
                       ps1(p := port_flush (ps1 p))))))"

definition lb_send :: "zmsg \<Rightarrow> lb \<Rightarrow> ports \<Rightarrow> (errno option \<times> lb \<times> ports) outcome" where
  "lb_send m l ps = and_then (lb_sendpipe m l ps) (\<lambda>(rc, _, l', ps'). Inr (rc, l', ps'))"

text \<open>\<open>has_out\<close>, whose loop swaps unconditionally.\<close>

definition lb_deactivate :: "lb \<Rightarrow> lb outcome" where
  "lb_deactivate l =
     (let active = lb_active l - 1
      in and_then (array_swap (lb_current l) active (lb_pipes l)) (\<lambda>a.
           Inr (l\<lparr>lb_pipes := a, lb_active := active,
                  lb_current := (if lb_current l = active then 0 else lb_current l)\<rparr>)))"

lemma lb_deactivate_active: "lb_deactivate l = Inr l' \<Longrightarrow> lb_active l' = lb_active l - 1"
  by (auto simp: lb_deactivate_def Let_def outcome_simps)

function lb_out_loop :: "lb \<Rightarrow> ports \<Rightarrow> (bool \<times> lb \<times> ports) outcome" where
  "lb_out_loop l ps =
     (if lb_active l = 0 then Inr (False, l, ps)
      else and_then (array_at (lb_current l) (lb_pipes l)) (\<lambda>p.
        let (ok, q) = port_check_write (ps p)
        in if ok then Inr (True, l, ps(p := q))
           else and_then (lb_deactivate l) (\<lambda>l'. lb_out_loop l' (ps(p := q)))))"
  by auto
termination
  by (relation "measure (\<lambda>(l, ps). lb_active l)") (auto dest: lb_deactivate_active)

declare lb_out_loop.simps [simp del]

definition lb_has_out :: "lb \<Rightarrow> ports \<Rightarrow> (bool \<times> lb \<times> ports) outcome" where
  "lb_has_out l ps = (if lb_more l then Inr (True, l, ps) else lb_out_loop l ps)"


subsection \<open>Fair queueing\<close>

record fq =
  fq_pipes :: ptr_array
  fq_active :: nat
  fq_last_in :: "nat option"
  fq_current :: nat
  fq_more :: bool
  fq_saved_credential :: "byte list"

definition fq_new :: fq where
  "fq_new = \<lparr>fq_pipes = array_new, fq_active = 0, fq_last_in = None, fq_current = 0, fq_more = False,
             fq_saved_credential = []\<rparr>"

definition fq_attach :: "nat \<Rightarrow> fq \<Rightarrow> fq outcome" where
  "fq_attach p f =
     (let a = array_push_back p (fq_pipes f)
      in and_then (array_swap (fq_active f) (length (pa_items a) - 1) a) (\<lambda>a'.
           Inr (f\<lparr>fq_pipes := a', fq_active := fq_active f + 1\<rparr>)))"

definition fq_activated :: "nat \<Rightarrow> fq \<Rightarrow> fq outcome" where
  "fq_activated p f =
     and_then (array_index p (fq_pipes f)) (\<lambda>i.
       and_then (array_swap i (fq_active f) (fq_pipes f)) (\<lambda>a.
         Inr (f\<lparr>fq_pipes := a, fq_active := fq_active f + 1\<rparr>)))"

definition fq_pipe_terminated :: "nat \<Rightarrow> fq \<Rightarrow> ports \<Rightarrow> fq outcome" where
  "fq_pipe_terminated p f ps =
     and_then (array_index p (fq_pipes f)) (\<lambda>index.
       and_then
         (if index < fq_active f then
            let active = fq_active f - 1
            in and_then (array_swap index active (fq_pipes f)) (\<lambda>a.
                 Inr (f\<lparr>fq_pipes := a, fq_active := active,
                        fq_current := (if fq_current f = active then 0 else fq_current f)\<rparr>))
          else Inr f)
         (\<lambda>f1. and_then (array_erase p (fq_pipes f1)) (\<lambda>a.
            let f2 = f1\<lparr>fq_pipes := a\<rparr>
            in Inr (if fq_last_in f2 = Some p
                    then f2\<lparr>fq_saved_credential := pe_credential (po_end (ps p)), fq_last_in := None\<rparr> else f2))))"

definition fq_deactivate :: "fq \<Rightarrow> fq outcome" where
  "fq_deactivate f =
     (let active = fq_active f - 1
      in and_then (array_swap (fq_current f) active (fq_pipes f)) (\<lambda>a.
           Inr (f\<lparr>fq_pipes := a, fq_active := active,
                  fq_current := (if fq_current f = active then 0 else fq_current f)\<rparr>)))"

lemma fq_deactivate_active: "fq_deactivate f = Inr f' \<Longrightarrow> fq_active f' = fq_active f - 1"
  by (auto simp: fq_deactivate_def Let_def outcome_simps)

function fq_recvpipe :: "fq \<Rightarrow> ports \<Rightarrow> ((zmsg \<times> nat) option \<times> fq \<times> ports) outcome" where
  "fq_recvpipe f ps =
     (if fq_active f = 0 then Inr (None, f, ps)
      else and_then (array_at (fq_current f) (fq_pipes f)) (\<lambda>p.
        and_then (port_read (ps p)) (\<lambda>(fetched, q).
          case fetched of
            Some m \<Rightarrow>
              let f1 = f\<lparr>fq_more := msg_more m\<rparr>
              in Inr (Some (m, p),
                      if \<not> fq_more f1
                      then f1\<lparr>fq_last_in := Some p, fq_current := (fq_current f1 + 1) mod fq_active f1\<rparr> else f1,
                      ps(p := q))
          | None \<Rightarrow>
              check (\<not> fq_more f) (Fatal ''zmq_assert (!more)'')
                (and_then (fq_deactivate f) (\<lambda>f'. fq_recvpipe f' (ps(p := q)))))))"
  by auto
termination
  by (relation "measure (\<lambda>(f, ps). fq_active f)") (auto dest: fq_deactivate_active)

declare fq_recvpipe.simps [simp del]

definition fq_recv :: "fq \<Rightarrow> ports \<Rightarrow> (zmsg option \<times> fq \<times> ports) outcome" where
  "fq_recv f ps = and_then (fq_recvpipe f ps) (\<lambda>(r, f', ps'). Inr (map_option fst r, f', ps'))"

function fq_in_loop :: "fq \<Rightarrow> ports \<Rightarrow> (bool \<times> fq \<times> ports) outcome" where
  "fq_in_loop f ps =
     (if fq_active f = 0 then Inr (False, f, ps)
      else and_then (array_at (fq_current f) (fq_pipes f)) (\<lambda>p.
        and_then (port_check_read (ps p)) (\<lambda>(ok, q).
          if ok then Inr (True, f, ps(p := q))
          else and_then (fq_deactivate f) (\<lambda>f'. fq_in_loop f' (ps(p := q))))))"
  by auto
termination
  by (relation "measure (\<lambda>(f, ps). fq_active f)") (auto dest: fq_deactivate_active)

declare fq_in_loop.simps [simp del]

definition fq_has_in :: "fq \<Rightarrow> ports \<Rightarrow> (bool \<times> fq \<times> ports) outcome" where
  "fq_has_in f ps = (if fq_more f then Inr (True, f, ps) else fq_in_loop f ps)"

definition fq_get_credential :: "fq \<Rightarrow> ports \<Rightarrow> byte list" where
  "fq_get_credential f ps =
     (case fq_last_in f of Some p \<Rightarrow> pe_credential (po_end (ps p)) | None \<Rightarrow> fq_saved_credential f)"

end
