(* ===== verification/Zmq_Sockets.thy ===== *)
theory Zmq_Sockets
  imports Zmq_Balance Little_Endian
begin

section \<open>DEALER, REQ, ROUTER and REP sockets\<close>

text \<open>
  \<open>dealer.cpp\<close>, \<open>req.cpp\<close>, \<open>router.cpp\<close> and \<open>rep.cpp\<close> over the pipes of \<open>Zmq_Balance\<close>: the
  sockets of the server (ROUTER and DEALER around the proxy, REP in the workers) and of the
  client (REQ). An operation takes the socket and its ports and returns them with the result;
  \<open>Some e\<close> is -1 with \<open>errno = e\<close>. A failed \<open>errno_assert\<close> is \<open>Fatal\<close>. The frame with the request
  identity points to \<open>request_id\<close> in the source and has its value here.
\<close>

definition msg_of :: "bool \<Rightarrow> byte list \<Rightarrow> zmsg" where
  "msg_of parts d = \<lparr>msg_more = parts, msg_identity = False, msg_credential = False, msg_delimiter = False, msg_data = d\<rparr>"

text \<open>\<open>put_uint32\<close> of \<open>wire.hpp\<close>.\<close>

definition put_uint32 :: "32 word \<Rightarrow> byte list" where
  "put_uint32 v = [ucast (drop_bit 24 v), ucast (drop_bit 16 v), ucast (drop_bit 8 v), ucast v]"

text \<open>
  Receiving until a message is wanted, which several loops do. A fuel bounds the messages
  that are thrown away; as many as the queues have items are enough.
\<close>

fun recv_until :: "(zmsg \<Rightarrow> nat \<Rightarrow> bool) \<Rightarrow> nat \<Rightarrow> fq \<Rightarrow> ports \<Rightarrow> ((zmsg \<times> nat) option \<times> fq \<times> ports) outcome" where
  "recv_until P 0 f ps = Inl Waits"
| "recv_until P (Suc fuel) f ps =
     and_then (fq_recvpipe f ps) (\<lambda>(r, f1, ps1).
       case r of
         None \<Rightarrow> Inr (None, f1, ps1)
       | Some (m, p) \<Rightarrow> if P m p then Inr (r, f1, ps1) else recv_until P fuel f1 ps1)"

definition queued :: "fq \<Rightarrow> ports \<Rightarrow> nat" where
  "queued f ps = sum_list (map (\<lambda>p. yp_back (po_in (ps p))) (pa_items (fq_pipes f)))"


subsection \<open>DEALER\<close>

record dealer =
  dl_fq :: fq
  dl_lb :: lb
  dl_probe_router :: bool

definition dealer_new :: dealer where
  "dealer_new = \<lparr>dl_fq = fq_new, dl_lb = lb_new, dl_probe_router = False\<rparr>"

definition probe :: "port \<Rightarrow> port" where
  "probe q = port_flush (snd (port_write (msg_of False []) q))"

definition dealer_xattach_pipe :: "nat \<Rightarrow> dealer \<Rightarrow> ports \<Rightarrow> (dealer \<times> ports) outcome" where
  "dealer_xattach_pipe p d ps =
     (let ps1 = (if dl_probe_router d then ps(p := probe (ps p)) else ps)
      in and_then (fq_attach p (dl_fq d)) (\<lambda>f.
         and_then (lb_attach p (dl_lb d)) (\<lambda>l. Inr (d\<lparr>dl_fq := f, dl_lb := l\<rparr>, ps1))))"

definition ZMQ_ROUTER_MANDATORY :: int where "ZMQ_ROUTER_MANDATORY = 33"
definition ZMQ_ROUTER_RAW :: int where "ZMQ_ROUTER_RAW = 41"
definition ZMQ_PROBE_ROUTER :: int where "ZMQ_PROBE_ROUTER = 51"
definition ZMQ_REQ_CORRELATE :: int where "ZMQ_REQ_CORRELATE = 52"
definition ZMQ_REQ_RELAXED :: int where "ZMQ_REQ_RELAXED = 53"
definition ZMQ_ROUTER_HANDOVER :: int where "ZMQ_ROUTER_HANDOVER = 56"
definition ZMQ_CONNECT_RID :: int where "ZMQ_CONNECT_RID = 61"

text \<open>The value of an option that must be an \<open>int\<close> and not negative.\<close>

definition flag_value :: "byte list \<Rightarrow> bool option" where
  "flag_value optval = (if length optval = 4 \<and> int32_value optval \<ge> 0 then Some (int32_value optval \<noteq> 0) else None)"

definition dealer_xsetsockopt :: "int \<Rightarrow> byte list \<Rightarrow> dealer \<Rightarrow> errno option \<times> dealer" where
  "dealer_xsetsockopt option optval d =
     (if option = ZMQ_PROBE_ROUTER then
        (case flag_value optval of Some b \<Rightarrow> (None, d\<lparr>dl_probe_router := b\<rparr>) | None \<Rightarrow> (Some Einval, d))
      else (Some Einval, d))"

definition dealer_sendpipe :: "zmsg \<Rightarrow> dealer \<Rightarrow> ports \<Rightarrow> (errno option \<times> nat option \<times> dealer \<times> ports) outcome" where
  "dealer_sendpipe m d ps =
     and_then (lb_sendpipe m (dl_lb d) ps) (\<lambda>(rc, pipe, l, ps'). Inr (rc, pipe, d\<lparr>dl_lb := l\<rparr>, ps'))"

definition dealer_xsend :: "zmsg \<Rightarrow> dealer \<Rightarrow> ports \<Rightarrow> (errno option \<times> dealer \<times> ports) outcome" where
  "dealer_xsend m d ps = and_then (dealer_sendpipe m d ps) (\<lambda>(rc, _, d', ps'). Inr (rc, d', ps'))"

definition dealer_recvpipe :: "dealer \<Rightarrow> ports \<Rightarrow> ((zmsg \<times> nat) option \<times> dealer \<times> ports) outcome" where
  "dealer_recvpipe d ps =
     and_then (fq_recvpipe (dl_fq d) ps) (\<lambda>(r, f, ps'). Inr (r, d\<lparr>dl_fq := f\<rparr>, ps'))"

definition dealer_xrecv :: "dealer \<Rightarrow> ports \<Rightarrow> (zmsg option \<times> dealer \<times> ports) outcome" where
  "dealer_xrecv d ps = and_then (dealer_recvpipe d ps) (\<lambda>(r, d', ps'). Inr (map_option fst r, d', ps'))"

definition dealer_xhas_in :: "dealer \<Rightarrow> ports \<Rightarrow> (bool \<times> dealer \<times> ports) outcome" where
  "dealer_xhas_in d ps = and_then (fq_has_in (dl_fq d) ps) (\<lambda>(b, f, ps'). Inr (b, d\<lparr>dl_fq := f\<rparr>, ps'))"

definition dealer_xhas_out :: "dealer \<Rightarrow> ports \<Rightarrow> (bool \<times> dealer \<times> ports) outcome" where
  "dealer_xhas_out d ps = and_then (lb_has_out (dl_lb d) ps) (\<lambda>(b, l, ps'). Inr (b, d\<lparr>dl_lb := l\<rparr>, ps'))"

definition dealer_xread_activated :: "nat \<Rightarrow> dealer \<Rightarrow> dealer outcome" where
  "dealer_xread_activated p d = and_then (fq_activated p (dl_fq d)) (\<lambda>f. Inr (d\<lparr>dl_fq := f\<rparr>))"

definition dealer_xwrite_activated :: "nat \<Rightarrow> dealer \<Rightarrow> dealer outcome" where
  "dealer_xwrite_activated p d = and_then (lb_activated p (dl_lb d)) (\<lambda>l. Inr (d\<lparr>dl_lb := l\<rparr>))"

definition dealer_xpipe_terminated :: "nat \<Rightarrow> dealer \<Rightarrow> ports \<Rightarrow> dealer outcome" where
  "dealer_xpipe_terminated p d ps =
     and_then (fq_pipe_terminated p (dl_fq d) ps) (\<lambda>f.
     and_then (lb_pipe_terminated p (dl_lb d)) (\<lambda>l. Inr (d\<lparr>dl_fq := f, dl_lb := l\<rparr>)))"


subsection \<open>REQ\<close>

record req =
  rq_dealer :: dealer
  rq_receiving_reply :: bool
  rq_message_begins :: bool
  rq_reply_pipe :: "nat option"
  rq_id_frames :: bool
  rq_request_id :: "32 word"
  rq_strict :: bool

text \<open>The argument is \<open>generate_random ()\<close>.\<close>

definition req_new :: "32 word \<Rightarrow> req" where
  "req_new random =
     \<lparr>rq_dealer = dealer_new, rq_receiving_reply = False, rq_message_begins = True, rq_reply_pipe = None,
      rq_id_frames = False, rq_request_id = random, rq_strict = True\<rparr>"

text \<open>A 32-bit number in memory; the machine is little-endian.\<close>

definition id_bytes :: "32 word \<Rightarrow> byte list" where
  "id_bytes v = rev (put_uint32 v)"

text \<open>\<open>sendpipe\<close> with \<open>&reply_pipe\<close> as its out parameter.\<close>

definition req_sendpipe :: "zmsg \<Rightarrow> req \<Rightarrow> ports \<Rightarrow> (errno option \<times> req \<times> ports) outcome" where
  "req_sendpipe m r ps =
     and_then (dealer_sendpipe m (rq_dealer r) ps) (\<lambda>(rc, pipe, d, ps').
       Inr (rc, r\<lparr>rq_dealer := d, rq_reply_pipe := (case pipe of None \<Rightarrow> rq_reply_pipe r | Some p \<Rightarrow> Some p)\<rparr>, ps'))"

definition req_set_fq :: "fq \<Rightarrow> req \<Rightarrow> req" where
  "req_set_fq f r = r\<lparr>rq_dealer := (rq_dealer r)\<lparr>dl_fq := f\<rparr>\<rparr>"

definition req_fq :: "req \<Rightarrow> fq" where
  "req_fq r = dl_fq (rq_dealer r)"

definition req_begin :: "req \<Rightarrow> ports \<Rightarrow> (errno option \<times> req \<times> ports) outcome" where
  "req_begin r ps =
     (let r0 = r\<lparr>rq_reply_pipe := None\<rparr>
      in and_then
           (if rq_id_frames r0 then
              let r1 = r0\<lparr>rq_request_id := rq_request_id r0 + 1\<rparr>
              in req_sendpipe (msg_of True (id_bytes (rq_request_id r1))) r1 ps
            else Inr (None, r0, ps))
           (\<lambda>(rc, r2, ps2).
              if rc \<noteq> None then Inr (rc, r2, ps2)
              else and_then (req_sendpipe (msg_of True []) r2 ps2) (\<lambda>(rc, r3, ps3).
                if rc \<noteq> None then Inr (rc, r3, ps3)
                else check (rq_reply_pipe r3 \<noteq> None) (Fatal ''zmq_assert (reply_pipe)'')
                  (let r4 = r3\<lparr>rq_message_begins := False\<rparr>
                   in and_then (recv_until (\<lambda>m p. False) (Suc (queued (req_fq r4) ps3)) (req_fq r4) ps3) (\<lambda>(_, f, ps4).
                        Inr (None, req_set_fq f r4, ps4))))))"

definition req_xsend :: "zmsg \<Rightarrow> req \<Rightarrow> ports \<Rightarrow> (errno option \<times> req \<times> ports) outcome" where
  "req_xsend m r ps =
     (if rq_receiving_reply r \<and> rq_strict r then Inr (Some Efsm, r, ps)
      else and_then
        (if rq_receiving_reply r then
           and_then
             (case rq_reply_pipe r of
                None \<Rightarrow> Inr ps
              | Some p \<Rightarrow> and_then (port_terminate False (ps p)) (\<lambda>q. Inr (ps(p := q))))
             (\<lambda>ps1. Inr (r\<lparr>rq_receiving_reply := False, rq_message_begins := True\<rparr>, ps1))
         else Inr (r, ps))
        (\<lambda>(r1, ps1).
           and_then (if rq_message_begins r1 then req_begin r1 ps1 else Inr (None, r1, ps1)) (\<lambda>(rc, r2, ps2).
             if rc \<noteq> None then Inr (rc, r2, ps2)
             else and_then (dealer_xsend m (rq_dealer r2) ps2) (\<lambda>(rc, d, ps3).
               let r3 = r2\<lparr>rq_dealer := d\<rparr>
               in if rc \<noteq> None then Inr (rc, r3, ps3)
                  else if \<not> msg_more m
                  then Inr (None, r3\<lparr>rq_receiving_reply := True, rq_message_begins := True\<rparr>, ps3)
                  else Inr (None, r3, ps3)))))"

definition recv_reply_pipe :: "req \<Rightarrow> ports \<Rightarrow> (zmsg option \<times> req \<times> ports) outcome" where
  "recv_reply_pipe r ps =
     and_then (recv_until (\<lambda>m p. rq_reply_pipe r = None \<or> Some p = rq_reply_pipe r)
                 (Suc (queued (req_fq r) ps)) (req_fq r) ps) (\<lambda>(x, f, ps').
       Inr (map_option fst x, req_set_fq f r, ps'))"

text \<open>Skipping the remaining frames of a message.\<close>

fun req_skip :: "nat \<Rightarrow> zmsg \<Rightarrow> req \<Rightarrow> ports \<Rightarrow> (req \<times> ports) outcome" where
  "req_skip 0 m r ps = Inl Waits"
| "req_skip (Suc fuel) m r ps =
     (if msg_more m then
        and_then (recv_reply_pipe r ps) (\<lambda>(x, r1, ps1).
          case x of None \<Rightarrow> Inl (Fatal ''errno_assert (rc == 0)'') | Some m1 \<Rightarrow> req_skip fuel m1 r1 ps1)
      else Inr (r, ps))"

text \<open>\<open>while (message_begins)\<close>; the result tells whether a message began.\<close>

fun req_reply_loop :: "nat \<Rightarrow> req \<Rightarrow> ports \<Rightarrow> (bool \<times> req \<times> ports) outcome" where
  "req_reply_loop 0 r ps = Inl Waits"
| "req_reply_loop (Suc fuel) r ps =
     (if \<not> rq_message_begins r then Inr (True, r, ps)
      else and_then
        (if rq_id_frames r then
           and_then (recv_reply_pipe r ps) (\<lambda>(x, r1, ps1).
             case x of
               None \<Rightarrow> Inr (None, r1, ps1)
             | Some m \<Rightarrow>
                 if \<not> msg_more m \<or> length (msg_data m) \<noteq> 4 \<or> msg_data m \<noteq> id_bytes (rq_request_id r1)
                 then and_then (req_skip fuel m r1 ps1) (\<lambda>(r2, ps2). Inr (Some False, r2, ps2))
                 else Inr (Some True, r1, ps1))
         else Inr (Some True, r, ps))
        (\<lambda>(go, r1, ps1).
           case go of
             None \<Rightarrow> Inr (False, r1, ps1)
           | Some False \<Rightarrow> req_reply_loop fuel r1 ps1
           | Some True \<Rightarrow>
               and_then (recv_reply_pipe r1 ps1) (\<lambda>(x, r2, ps2).
                 case x of
                   None \<Rightarrow> Inr (False, r2, ps2)
                 | Some m \<Rightarrow>
                     if \<not> msg_more m \<or> msg_data m \<noteq> []
                     then and_then (req_skip fuel m r2 ps2) (\<lambda>(r3, ps3). req_reply_loop fuel r3 ps3)
                     else req_reply_loop fuel (r2\<lparr>rq_message_begins := False\<rparr>) ps2)))"

datatype received = Got zmsg | Failed errno

definition req_xrecv :: "req \<Rightarrow> ports \<Rightarrow> (received \<times> req \<times> ports) outcome" where
  "req_xrecv r ps =
     (if \<not> rq_receiving_reply r then Inr (Failed Efsm, r, ps)
      else and_then (req_reply_loop (queued (req_fq r) ps + 3) r ps) (\<lambda>(began, r1, ps1).
        if \<not> began then Inr (Failed Eagain, r1, ps1)
        else and_then (recv_reply_pipe r1 ps1) (\<lambda>(x, r2, ps2).
          case x of
            None \<Rightarrow> Inr (Failed Eagain, r2, ps2)
          | Some m \<Rightarrow>
              Inr (Got m, if \<not> msg_more m then r2\<lparr>rq_receiving_reply := False, rq_message_begins := True\<rparr> else r2, ps2))))"

definition req_xhas_in :: "req \<Rightarrow> ports \<Rightarrow> (bool \<times> req \<times> ports) outcome" where
  "req_xhas_in r ps =
     (if \<not> rq_receiving_reply r then Inr (False, r, ps)
      else and_then (dealer_xhas_in (rq_dealer r) ps) (\<lambda>(b, d, ps'). Inr (b, r\<lparr>rq_dealer := d\<rparr>, ps')))"

definition req_xhas_out :: "req \<Rightarrow> ports \<Rightarrow> (bool \<times> req \<times> ports) outcome" where
  "req_xhas_out r ps =
     (if rq_receiving_reply r then Inr (False, r, ps)
      else and_then (dealer_xhas_out (rq_dealer r) ps) (\<lambda>(b, d, ps'). Inr (b, r\<lparr>rq_dealer := d\<rparr>, ps')))"

definition req_xsetsockopt :: "int \<Rightarrow> byte list \<Rightarrow> req \<Rightarrow> errno option \<times> req" where
  "req_xsetsockopt option optval r =
     (case (if option = ZMQ_REQ_CORRELATE then map_option (\<lambda>b. r\<lparr>rq_id_frames := b\<rparr>) (flag_value optval)
            else if option = ZMQ_REQ_RELAXED then map_option (\<lambda>b. r\<lparr>rq_strict := \<not> b\<rparr>) (flag_value optval)
            else None) of
        Some r' \<Rightarrow> (None, r')
      | None \<Rightarrow> (case dealer_xsetsockopt option optval (rq_dealer r) of (rc, d) \<Rightarrow> (rc, r\<lparr>rq_dealer := d\<rparr>)))"

definition req_xpipe_terminated :: "nat \<Rightarrow> req \<Rightarrow> ports \<Rightarrow> req outcome" where
  "req_xpipe_terminated p r ps =
     (let r1 = (if rq_reply_pipe r = Some p then r\<lparr>rq_reply_pipe := None\<rparr> else r)
      in and_then (dealer_xpipe_terminated p (rq_dealer r1) ps) (\<lambda>d. Inr (r1\<lparr>rq_dealer := d\<rparr>)))"

text \<open>What \<open>req_session_t::push_msg\<close> lets through to the socket.\<close>

datatype req_session_state = S_bottom | S_body

definition flags_more :: "zmsg \<Rightarrow> bool" where
  "flags_more m \<longleftrightarrow> msg_more m \<and> \<not> msg_identity m \<and> \<not> msg_credential m"

definition flags_none :: "zmsg \<Rightarrow> bool" where
  "flags_none m \<longleftrightarrow> \<not> msg_more m \<and> \<not> msg_identity m \<and> \<not> msg_credential m"

text \<open>\<open>push\<close> is \<open>session_base_t::push_msg\<close>, which writes to the pipe of the socket.\<close>

definition req_session_push_msg ::
    "(zmsg \<Rightarrow> errno option) \<Rightarrow> zmsg \<Rightarrow> req_session_state \<Rightarrow> errno option \<times> req_session_state" where
  "req_session_push_msg push m st =
     (case st of
        S_bottom \<Rightarrow> if flags_more m \<and> msg_data m = [] then (push m, S_body) else (Some Efault, st)
      | S_body \<Rightarrow>
          if flags_more m then (push m, st)
          else if flags_none m then (push m, S_bottom) else (Some Efault, st))"

definition req_session_reset :: "req_session_state \<Rightarrow> req_session_state" where
  "req_session_reset st = S_bottom"

end
