(* ===== verification/Zmq_Router.thy ===== *)
theory Zmq_Router
  imports Zmq_Sockets
begin

section \<open>ROUTER and REP sockets, and the proxy between two sockets\<close>

text \<open>
  \<open>router.cpp\<close>, \<open>rep.cpp\<close> and \<open>proxy.cpp\<close>. The map from identities to outbound pipes is an
  association list with distinct keys. \<open>rt_recv_identity\<close> and \<open>rt_options_raw\<close> are the members of
  \<open>options\<close> the class sets.
\<close>

record router =
  rt_fq :: fq
  rt_prefetched :: bool
  rt_identity_sent :: bool
  rt_prefetched_id :: zmsg
  rt_prefetched_msg :: zmsg
  rt_more_in :: bool
  rt_anonymous :: "nat set"
  rt_outpipes :: "(byte list \<times> nat \<times> bool) list"
  rt_current_out :: "nat option"
  rt_more_out :: bool
  rt_next_rid :: "32 word"
  rt_mandatory :: bool
  rt_raw_sock :: bool
  rt_probe_router :: bool
  rt_handover :: bool
  rt_connect_rid :: "byte list"
  rt_recv_identity :: bool
  rt_options_raw :: bool

definition router_new :: "32 word \<Rightarrow> router" where
  "router_new random =
     \<lparr>rt_fq = fq_new, rt_prefetched = False, rt_identity_sent = False, rt_prefetched_id = msg_of False [],
      rt_prefetched_msg = msg_of False [], rt_more_in = False, rt_anonymous = {}, rt_outpipes = [],
      rt_current_out = None, rt_more_out = False, rt_next_rid = random, rt_mandatory = False, rt_raw_sock = False,
      rt_probe_router = False, rt_handover = False, rt_connect_rid = [], rt_recv_identity = True,
      rt_options_raw = False\<rparr>"


subsection \<open>Peers\<close>

definition generated_id :: "32 word \<Rightarrow> byte list" where
  "generated_id rid = 0 # put_uint32 rid"

text \<open>The record of a new pipe in the lookup table; the identity must be new.\<close>

definition add_outpipe :: "byte list \<Rightarrow> nat \<Rightarrow> bool \<Rightarrow> router \<Rightarrow> router outcome" where
  "add_outpipe identity p active r =
     check (map_of (rt_outpipes r) identity = None) (Fatal ''zmq_assert (ok)'')
       (Inr (r\<lparr>rt_outpipes := AList.update identity (p, active) (rt_outpipes r)\<rparr>))"

definition set_identity :: "byte list \<Rightarrow> port \<Rightarrow> port" where
  "set_identity identity q = q\<lparr>po_identity := identity\<rparr>"

text \<open>A peer that brings an identity in use takes it over, and the pipe that had it is closed.\<close>

definition router_handover :: "byte list \<Rightarrow> router \<Rightarrow> ports \<Rightarrow> (router \<times> ports) outcome" where
  "router_handover identity r ps =
     (case map_of (rt_outpipes r) identity of
        None \<Rightarrow> Inr (r, ps)
      | Some (old, active) \<Rightarrow>
          let new_identity = generated_id (rt_next_rid r);
              r1 = r\<lparr>rt_next_rid := rt_next_rid r + 1\<rparr>;
              ps1 = ps(old := set_identity new_identity (ps old))
          in and_then (add_outpipe new_identity old active r1) (\<lambda>r2.
               let r3 = r2\<lparr>rt_outpipes := AList.delete identity (rt_outpipes r2)\<rparr>
               in and_then (port_terminate True (ps1 old)) (\<lambda>q. Inr (r3, ps1(old := q)))))"

text \<open>What identity a new pipe gets; \<open>None\<close> where the peer stays unidentified.\<close>

definition router_identity :: "nat \<Rightarrow> router \<Rightarrow> ports \<Rightarrow> (byte list option \<times> router \<times> ports) outcome" where
  "router_identity p r ps =
     (if rt_connect_rid r \<noteq> [] then
        let r1 = r\<lparr>rt_connect_rid := []\<rparr>
        in check (map_of (rt_outpipes r1) (rt_connect_rid r) = None) (Fatal ''zmq_assert(false)'')
             (Inr (Some (rt_connect_rid r), r1, ps))
      else if rt_options_raw r then
        Inr (Some (generated_id (rt_next_rid r)), r\<lparr>rt_next_rid := rt_next_rid r + 1\<rparr>, ps)
      else and_then (port_read (ps p)) (\<lambda>(x, q).
        let ps1 = ps(p := q)
        in case x of
             None \<Rightarrow> Inr (None, r, ps1)
           | Some m \<Rightarrow>
               if msg_data m = [] then
                 Inr (Some (generated_id (rt_next_rid r)), r\<lparr>rt_next_rid := rt_next_rid r + 1\<rparr>, ps1)
               else if map_of (rt_outpipes r) (msg_data m) \<noteq> None then
                 (if \<not> rt_handover r then Inr (None, r, ps1)
                  else and_then (router_handover (msg_data m) r ps1) (\<lambda>(r2, ps2). Inr (Some (msg_data m), r2, ps2)))
               else Inr (Some (msg_data m), r, ps1)))"

definition identify_peer :: "nat \<Rightarrow> router \<Rightarrow> ports \<Rightarrow> (bool \<times> router \<times> ports) outcome" where
  "identify_peer p r ps =
     and_then (router_identity p r ps) (\<lambda>(x, r1, ps1).
       case x of
         None \<Rightarrow> Inr (False, r1, ps1)
       | Some identity \<Rightarrow>
           and_then (add_outpipe identity p True r1) (\<lambda>r2.
             Inr (True, r2, ps1(p := set_identity identity (ps1 p)))))"

definition router_xattach_pipe :: "nat \<Rightarrow> router \<Rightarrow> ports \<Rightarrow> (router \<times> ports) outcome" where
  "router_xattach_pipe p r ps =
     (let ps1 = (if rt_probe_router r then ps(p := probe (ps p)) else ps)
      in and_then (identify_peer p r ps1) (\<lambda>(identity_ok, r1, ps2).
           if identity_ok then and_then (fq_attach p (rt_fq r1)) (\<lambda>f. Inr (r1\<lparr>rt_fq := f\<rparr>, ps2))
           else Inr (r1\<lparr>rt_anonymous := insert p (rt_anonymous r1)\<rparr>, ps2)))"

definition router_xsetsockopt :: "int \<Rightarrow> byte list \<Rightarrow> router \<Rightarrow> errno option \<times> router" where
  "router_xsetsockopt option optval r =
     (case (if option = ZMQ_CONNECT_RID then
              (if optval \<noteq> [] then Some (r\<lparr>rt_connect_rid := optval\<rparr>) else None)
            else if option = ZMQ_ROUTER_RAW then
              map_option (\<lambda>b. if b then r\<lparr>rt_raw_sock := True, rt_recv_identity := False, rt_options_raw := True\<rparr>
                              else r\<lparr>rt_raw_sock := False\<rparr>) (flag_value optval)
            else if option = ZMQ_ROUTER_MANDATORY then map_option (\<lambda>b. r\<lparr>rt_mandatory := b\<rparr>) (flag_value optval)
            else if option = ZMQ_PROBE_ROUTER then map_option (\<lambda>b. r\<lparr>rt_probe_router := b\<rparr>) (flag_value optval)
            else if option = ZMQ_ROUTER_HANDOVER then map_option (\<lambda>b. r\<lparr>rt_handover := b\<rparr>) (flag_value optval)
            else None) of
        Some r' \<Rightarrow> (None, r')
      | None \<Rightarrow> (Some Einval, r))"

definition router_xpipe_terminated :: "nat \<Rightarrow> router \<Rightarrow> ports \<Rightarrow> router outcome" where
  "router_xpipe_terminated p r ps =
     (if p \<in> rt_anonymous r then Inr (r\<lparr>rt_anonymous := rt_anonymous r - {p}\<rparr>)
      else check (map_of (rt_outpipes r) (po_identity (ps p)) \<noteq> None) (Fatal ''zmq_assert (it != outpipes.end ())'')
        (let r1 = r\<lparr>rt_outpipes := AList.delete (po_identity (ps p)) (rt_outpipes r)\<rparr>
         in and_then (fq_pipe_terminated p (rt_fq r1) ps) (\<lambda>f.
              Inr (r1\<lparr>rt_fq := f, rt_current_out := (if rt_current_out r1 = Some p then None else rt_current_out r1)\<rparr>))))"

definition router_xread_activated :: "nat \<Rightarrow> router \<Rightarrow> ports \<Rightarrow> (router \<times> ports) outcome" where
  "router_xread_activated p r ps =
     (if p \<notin> rt_anonymous r then and_then (fq_activated p (rt_fq r)) (\<lambda>f. Inr (r\<lparr>rt_fq := f\<rparr>, ps))
      else and_then (identify_peer p r ps) (\<lambda>(identity_ok, r1, ps1).
        if identity_ok then
          and_then (fq_attach p (rt_fq r1)) (\<lambda>f. Inr (r1\<lparr>rt_anonymous := rt_anonymous r1 - {p}, rt_fq := f\<rparr>, ps1))
        else Inr (r1, ps1)))"

fun activate_outpipe :: "nat \<Rightarrow> (byte list \<times> nat \<times> bool) list \<Rightarrow> (byte list \<times> nat \<times> bool) list outcome" where
  "activate_outpipe p [] = Inl (Fatal ''zmq_assert (it != outpipes.end ())'')"
| "activate_outpipe p ((identity, q, active) # rest) =
     (if q = p then check (\<not> active) (Fatal ''zmq_assert (!it->second.active)'') (Inr ((identity, q, True) # rest))
      else and_then (activate_outpipe p rest) (\<lambda>rest'. Inr ((identity, q, active) # rest')))"

definition router_xwrite_activated :: "nat \<Rightarrow> router \<Rightarrow> router outcome" where
  "router_xwrite_activated p r =
     and_then (activate_outpipe p (rt_outpipes r)) (\<lambda>os. Inr (r\<lparr>rt_outpipes := os\<rparr>))"


subsection \<open>Sending\<close>

text \<open>The prefix that names the peer.\<close>

definition router_prefix :: "zmsg \<Rightarrow> router \<Rightarrow> ports \<Rightarrow> (errno option \<times> router \<times> ports) outcome" where
  "router_prefix m r ps =
     check (rt_current_out r = None) (Fatal ''zmq_assert (!current_out)'')
       (if \<not> msg_more m then Inr (None, r, ps)
        else let r1 = r\<lparr>rt_more_out := True\<rparr>
             in case map_of (rt_outpipes r1) (msg_data m) of
                  Some (p, active) \<Rightarrow>
                    (case port_check_write (ps p) of
                       (True, q) \<Rightarrow> Inr (None, r1\<lparr>rt_current_out := Some p\<rparr>, ps(p := q))
                     | (False, q) \<Rightarrow>
                         let r2 = r1\<lparr>rt_outpipes := AList.update (msg_data m) (p, False) (rt_outpipes r1)\<rparr>
                         in if rt_mandatory r2 then Inr (Some Eagain, r2\<lparr>rt_more_out := False\<rparr>, ps(p := q))
                            else Inr (None, r2, ps(p := q)))
                | None \<Rightarrow>
                    if rt_mandatory r1 then Inr (Some Ehostunreach, r1\<lparr>rt_more_out := False\<rparr>, ps)
                    else Inr (None, r1, ps))"

definition router_xsend :: "zmsg \<Rightarrow> router \<Rightarrow> ports \<Rightarrow> (errno option \<times> router \<times> ports) outcome" where
  "router_xsend msg r ps =
     (if \<not> rt_more_out r then router_prefix msg r ps
      else let m = (if rt_options_raw r then msg\<lparr>msg_more := False\<rparr> else msg);
               r1 = r\<lparr>rt_more_out := msg_more m\<rparr>
           in case rt_current_out r1 of
                None \<Rightarrow> Inr (None, r1, ps)
              | Some p \<Rightarrow>
                  if rt_raw_sock r1 \<and> msg_data m = [] then
                    and_then (port_terminate False (ps p)) (\<lambda>q. Inr (None, r1\<lparr>rt_current_out := None\<rparr>, ps(p := q)))
                  else
                    (case port_write m (ps p) of
                       (False, q) \<Rightarrow> Inr (None, r1\<lparr>rt_current_out := None\<rparr>, ps(p := q))
                     | (True, q) \<Rightarrow>
                         if \<not> rt_more_out r1
                         then Inr (None, r1\<lparr>rt_current_out := None\<rparr>, ps(p := port_flush q))
                         else Inr (None, r1, ps(p := q))))"

definition router_rollback :: "router \<Rightarrow> ports \<Rightarrow> (router \<times> ports) outcome" where
  "router_rollback r ps =
     (case rt_current_out r of
        None \<Rightarrow> Inr (r, ps)
      | Some p \<Rightarrow> and_then (port_rollback (ps p)) (\<lambda>q. Inr (r\<lparr>rt_current_out := None, rt_more_out := False\<rparr>, ps(p := q))))"


subsection \<open>Receiving\<close>

text \<open>The next message that is not the identity of a peer that connected again.\<close>

definition router_next :: "router \<Rightarrow> ports \<Rightarrow> ((zmsg \<times> nat) option \<times> router \<times> ports) outcome" where
  "router_next r ps =
     and_then (recv_until (\<lambda>m p. \<not> msg_identity m) (Suc (queued (rt_fq r) ps)) (rt_fq r) ps) (\<lambda>(x, f, ps').
       Inr (x, r\<lparr>rt_fq := f\<rparr>, ps'))"

definition router_xrecv :: "router \<Rightarrow> ports \<Rightarrow> (zmsg option \<times> router \<times> ports) outcome" where
  "router_xrecv r ps =
     (if rt_prefetched r then
        let (m, r1) = (if \<not> rt_identity_sent r then (rt_prefetched_id r, r\<lparr>rt_identity_sent := True\<rparr>)
                       else (rt_prefetched_msg r, r\<lparr>rt_prefetched := False\<rparr>))
        in Inr (Some m, r1\<lparr>rt_more_in := msg_more m\<rparr>, ps)
      else and_then (router_next r ps) (\<lambda>(x, r1, ps1).
        case x of
          None \<Rightarrow> Inr (None, r1, ps1)
        | Some (m, p) \<Rightarrow>
            if rt_more_in r1 then Inr (Some m, r1\<lparr>rt_more_in := msg_more m\<rparr>, ps1)
            else Inr (Some (msg_of True (po_identity (ps1 p))),
                      r1\<lparr>rt_prefetched_msg := m, rt_prefetched := True, rt_identity_sent := True\<rparr>, ps1)))"

definition router_xhas_in :: "router \<Rightarrow> ports \<Rightarrow> (bool \<times> router \<times> ports) outcome" where
  "router_xhas_in r ps =
     (if rt_more_in r \<or> rt_prefetched r then Inr (True, r, ps)
      else and_then (router_next r ps) (\<lambda>(x, r1, ps1).
        case x of
          None \<Rightarrow> Inr (False, r1, ps1)
        | Some (m, p) \<Rightarrow>
            Inr (True, r1\<lparr>rt_prefetched_msg := m, rt_prefetched_id := msg_of True (po_identity (ps1 p)),
                          rt_prefetched := True, rt_identity_sent := False\<rparr>, ps1)))"

definition router_xhas_out :: "router \<Rightarrow> bool" where
  "router_xhas_out r = True"


subsection \<open>REP\<close>

record rep =
  rp_router :: router
  rp_sending_reply :: bool
  rp_request_begins :: bool

definition rep_new :: "32 word \<Rightarrow> rep" where
  "rep_new random = \<lparr>rp_router = router_new random, rp_sending_reply = False, rp_request_begins = True\<rparr>"

definition rep_xsend :: "zmsg \<Rightarrow> rep \<Rightarrow> ports \<Rightarrow> (errno option \<times> rep \<times> ports) outcome" where
  "rep_xsend m r ps =
     (if \<not> rp_sending_reply r then Inr (Some Efsm, r, ps)
      else and_then (router_xsend m (rp_router r) ps) (\<lambda>(rc, rt, ps').
        let r1 = r\<lparr>rp_router := rt\<rparr>
        in if rc \<noteq> None then Inr (rc, r1, ps')
           else Inr (None, if \<not> msg_more m then r1\<lparr>rp_sending_reply := False\<rparr> else r1, ps')))"

text \<open>The labels of a request are copied to the reply pipe; the result tells whether the request began.\<close>

fun rep_labels :: "nat \<Rightarrow> rep \<Rightarrow> ports \<Rightarrow> (bool \<times> rep \<times> ports) outcome" where
  "rep_labels 0 r ps = Inl Waits"
| "rep_labels (Suc fuel) r ps =
     and_then (router_xrecv (rp_router r) ps) (\<lambda>(x, rt, ps1).
       let r1 = r\<lparr>rp_router := rt\<rparr>
       in case x of
            None \<Rightarrow> Inr (False, r1, ps1)
          | Some m \<Rightarrow>
              if msg_more m then
                and_then (router_xsend m rt ps1) (\<lambda>(rc, rt2, ps2).
                  check (rc = None) (Fatal ''errno_assert (rc == 0)'')
                    (let r2 = r1\<lparr>rp_router := rt2\<rparr>
                     in if msg_data m = [] then Inr (True, r2\<lparr>rp_request_begins := False\<rparr>, ps2)
                        else rep_labels fuel r2 ps2))
              else and_then (router_rollback rt ps1) (\<lambda>(rt2, ps2). rep_labels fuel (r1\<lparr>rp_router := rt2\<rparr>) ps2))"

definition rep_xrecv :: "rep \<Rightarrow> ports \<Rightarrow> (received \<times> rep \<times> ports) outcome" where
  "rep_xrecv r ps =
     (if rp_sending_reply r then Inr (Failed Efsm, r, ps)
      else and_then
        (if rp_request_begins r then rep_labels (2 * queued (rt_fq (rp_router r)) ps + 3) r ps else Inr (True, r, ps))
        (\<lambda>(began, r1, ps1).
           if \<not> began then Inr (Failed Eagain, r1, ps1)
           else and_then (router_xrecv (rp_router r1) ps1) (\<lambda>(x, rt, ps2).
             let r2 = r1\<lparr>rp_router := rt\<rparr>
             in case x of
                  None \<Rightarrow> Inr (Failed Eagain, r2, ps2)
                | Some m \<Rightarrow>
                    Inr (Got m, if \<not> msg_more m then r2\<lparr>rp_sending_reply := True, rp_request_begins := True\<rparr> else r2,
                         ps2))))"

definition rep_xhas_in :: "rep \<Rightarrow> ports \<Rightarrow> (bool \<times> rep \<times> ports) outcome" where
  "rep_xhas_in r ps =
     (if rp_sending_reply r then Inr (False, r, ps)
      else and_then (router_xhas_in (rp_router r) ps) (\<lambda>(b, rt, ps'). Inr (b, r\<lparr>rp_router := rt\<rparr>, ps')))"

definition rep_xhas_out :: "rep \<Rightarrow> bool" where
  "rep_xhas_out r = (if \<not> rp_sending_reply r then False else router_xhas_out (rp_router r))"

end
