(* ===== verification/Zmq_Proxy.thy ===== *)
theory Zmq_Proxy
  imports Zmq_Router
begin

section \<open>The proxy between two sockets\<close>

text \<open>
  \<open>proxy.cpp\<close>, with \<open>send\<close>, \<open>recv\<close> and the two options it needs of \<open>socket_base.cpp\<close>. The server runs it
  between the ROUTER its clients connect to and the DEALER of its workers. \<open>process_commands\<close> is the
  parameter \<open>commands\<close>. A call that would wait for a command is \<open>Waits\<close>: the loops of
  \<open>send\<close> and \<open>recv\<close> that try again after a command are not modelled, nor is a timeout. Messages are valid.
\<close>

subsection \<open>Sending and receiving\<close>

record 's socket_base =
  sb_ctx_terminated :: bool
  sb_ticks :: nat
  sb_rcvmore :: bool
  sb_sndtimeo :: int
  sb_rcvtimeo :: int
  sb_recv_identity :: bool
  sb_impl :: 's

type_synonym 's commands = "'s \<Rightarrow> (errno option \<times> 's) outcome"

definition inbound_poll_rate :: nat where
  "inbound_poll_rate = 100"

definition socket_send ::
    "'s commands \<Rightarrow> (zmsg \<Rightarrow> 's \<Rightarrow> (errno option \<times> 's) outcome) \<Rightarrow> bool \<Rightarrow> bool \<Rightarrow> zmsg \<Rightarrow> 's socket_base
      \<Rightarrow> (errno option \<times> 's socket_base) outcome" where
  "socket_send commands xsend dontwait sndmore m s =
     (if sb_ctx_terminated s then Inr (Some Eterm, s)
      else and_then (commands (sb_impl s)) (\<lambda>(rc, i).
        if rc \<noteq> None then Inr (rc, s\<lparr>sb_impl := i\<rparr>)
        else and_then (xsend (m\<lparr>msg_more := sndmore\<rparr>) i) (\<lambda>(rc, i').
          if rc \<noteq> Some Eagain \<or> dontwait \<or> sb_sndtimeo s = 0 then Inr (rc, s\<lparr>sb_impl := i'\<rparr>) else Inl Waits)))"

definition extract_flags :: "zmsg \<Rightarrow> 's socket_base \<Rightarrow> (received \<times> 's socket_base) outcome" where
  "extract_flags m s =
     check (msg_identity m \<longrightarrow> sb_recv_identity s) (Fatal ''zmq_assert (options.recv_identity)'')
       (Inr (Got m, s\<lparr>sb_rcvmore := msg_more m\<rparr>))"

text \<open>Commands, and then \<open>ticks = 0\<close>.\<close>

definition commands_now :: "'s commands \<Rightarrow> 's socket_base \<Rightarrow> (errno option \<times> 's socket_base) outcome" where
  "commands_now commands s =
     and_then (commands (sb_impl s)) (\<lambda>(rc, i).
       Inr (rc, if rc = None then s\<lparr>sb_impl := i, sb_ticks := 0\<rparr> else s\<lparr>sb_impl := i\<rparr>))"

definition socket_recv ::
    "'s commands \<Rightarrow> ('s \<Rightarrow> (received \<times> 's) outcome) \<Rightarrow> bool \<Rightarrow> 's socket_base \<Rightarrow> (received \<times> 's socket_base) outcome" where
  "socket_recv commands xrecv dontwait s =
     (if sb_ctx_terminated s then Inr (Failed Eterm, s)
      else let s0 = s\<lparr>sb_ticks := sb_ticks s + 1\<rparr>
        in and_then (if sb_ticks s0 = inbound_poll_rate then commands_now commands s0 else Inr (None, s0)) (\<lambda>(rc, s1).
          case rc of
            Some e \<Rightarrow> Inr (Failed e, s1)
          | None \<Rightarrow>
              and_then (xrecv (sb_impl s1)) (\<lambda>(x, i).
                let s2 = s1\<lparr>sb_impl := i\<rparr>
                in case x of
                     Got m \<Rightarrow> extract_flags m s2
                   | Failed e \<Rightarrow>
                       if e \<noteq> Eagain then Inr (Failed e, s2)
                       else if dontwait \<or> sb_rcvtimeo s2 = 0 then
                         and_then (commands_now commands s2) (\<lambda>(rc, s3).
                           case rc of
                             Some e \<Rightarrow> Inr (Failed e, s3)
                           | None \<Rightarrow> and_then (xrecv (sb_impl s3)) (\<lambda>(y, i).
                               case y of Got m \<Rightarrow> extract_flags m (s3\<lparr>sb_impl := i\<rparr>)
                               | Failed e \<Rightarrow> Inr (Failed e, s3\<lparr>sb_impl := i\<rparr>)))
                       else Inl Waits)))"

text \<open>\<open>getsockopt\<close> of \<open>ZMQ_RCVMORE\<close> and \<open>ZMQ_EVENTS\<close>; the result of the latter is POLLIN and POLLOUT.\<close>

definition socket_rcvmore :: "'s socket_base \<Rightarrow> bool option" where
  "socket_rcvmore s = (if sb_ctx_terminated s then None else Some (sb_rcvmore s))"

definition socket_events ::
    "'s commands \<Rightarrow> ('s \<Rightarrow> (bool \<times> 's) outcome) \<Rightarrow> ('s \<Rightarrow> (bool \<times> 's) outcome) \<Rightarrow> 's socket_base
      \<Rightarrow> ((bool \<times> bool) option \<times> 's socket_base) outcome" where
  "socket_events commands xhas_in xhas_out s =
     (if sb_ctx_terminated s then Inr (None, s)
      else and_then (commands (sb_impl s)) (\<lambda>(rc, i).
        case rc of
          Some e \<Rightarrow> if e = Eterm then Inr (None, s\<lparr>sb_impl := i\<rparr>) else Inl (Fatal ''errno_assert (rc == 0)'')
        | None \<Rightarrow>
            and_then (xhas_out i) (\<lambda>(out, i1).
            and_then (xhas_in i1) (\<lambda>(inp, i2). Inr (Some (inp, out), s\<lparr>sb_impl := i2\<rparr>)))))"


subsection \<open>The proxy\<close>

text \<open>What the proxy calls of a socket.\<close>

record 's zsocket =
  zs_recv :: "'s \<Rightarrow> (received \<times> 's) outcome"
  zs_rcvmore :: "'s \<Rightarrow> bool option"
  zs_send :: "bool \<Rightarrow> zmsg \<Rightarrow> 's \<Rightarrow> (errno option \<times> 's) outcome"
  zs_events :: "'s \<Rightarrow> ((bool \<times> bool) option \<times> 's) outcome"

text \<open>The result tells whether the call returned 0.\<close>

definition capture :: "'c zsocket option \<Rightarrow> zmsg \<Rightarrow> bool \<Rightarrow> 'c \<Rightarrow> (bool \<times> 'c) outcome" where
  "capture C m parts c =
     (case C of
        None \<Rightarrow> Inr (True, c)
      | Some sock \<Rightarrow> and_then (zs_send sock parts m c) (\<lambda>(rc, c'). Inr (rc = None, c')))"

text \<open>
  The loop of \<open>forward\<close> ends with the last part of a message; a fuel bounds the parts.
\<close>

fun forward ::
    "nat \<Rightarrow> 'f zsocket \<Rightarrow> 't zsocket \<Rightarrow> 'c zsocket option \<Rightarrow> 'f \<Rightarrow> 't \<Rightarrow> 'c \<Rightarrow> (bool \<times> 'f \<times> 't \<times> 'c) outcome" where
  "forward 0 F T C f t c = Inl Waits"
| "forward (Suc fuel) F T C f t c =
     and_then (zs_recv F f) (\<lambda>(x, f1).
       case x of
         Failed e \<Rightarrow> Inr (False, f1, t, c)
       | Got m \<Rightarrow>
           (case zs_rcvmore F f1 of
              None \<Rightarrow> Inr (False, f1, t, c)
            | Some parts \<Rightarrow>
                and_then (capture C m parts c) (\<lambda>(ok, c1).
                  if \<not> ok then Inr (False, f1, t, c1)
                  else and_then (zs_send T parts m t) (\<lambda>(rc, t1).
                    if rc \<noteq> None then Inr (False, f1, t1, c1)
                    else if \<not> parts then Inr (True, f1, t1, c1)
                    else forward fuel F T C f1 t1 c1))))"

datatype proxy_mode = Proxy_active | Proxy_paused | Proxy_terminated

record ('f, 'b, 'c, 'k) proxy =
  px_frontend :: 'f
  px_backend :: 'b
  px_capture :: 'c
  px_control :: 'k
  px_mode :: proxy_mode

definition command_bytes :: "string \<Rightarrow> byte list" where
  "command_bytes s = map of_char s"

definition proxy_control ::
    "'k zsocket \<Rightarrow> 'c zsocket option \<Rightarrow> ('f, 'b, 'c, 'k) proxy \<Rightarrow> (bool \<times> ('f, 'b, 'c, 'k) proxy) outcome" where
  "proxy_control K C st =
     and_then (zs_recv K (px_control st)) (\<lambda>(x, k).
       let st1 = st\<lparr>px_control := k\<rparr>
       in case x of
            Failed e \<Rightarrow> Inr (False, st1)
          | Got m \<Rightarrow>
              if zs_rcvmore K k \<noteq> Some False then Inr (False, st1)
              else and_then (capture C m False (px_capture st1)) (\<lambda>(ok, c).
                let st2 = st1\<lparr>px_capture := c\<rparr>
                in if \<not> ok then Inr (False, st2)
                   else if msg_data m = command_bytes ''PAUSE'' then Inr (True, st2\<lparr>px_mode := Proxy_paused\<rparr>)
                   else if msg_data m = command_bytes ''RESUME'' then Inr (True, st2\<lparr>px_mode := Proxy_active\<rparr>)
                   else if msg_data m = command_bytes ''TERMINATE'' then Inr (True, st2\<lparr>px_mode := Proxy_terminated\<rparr>)
                   else Inl (Fatal ''zmq_assert (false)'')))"

text \<open>
  One round of the loop; the result is \<open>None\<close> when the loop goes on and otherwise what \<open>proxy\<close> returns.
  Frontend and backend are different sockets. \<open>zmq_poll\<close> asks each socket for its events.
\<close>

definition poll_socket :: "'s zsocket \<Rightarrow> 's \<Rightarrow> ((bool \<times> bool) option \<times> 's) outcome" where
  "poll_socket S s = zs_events S s"

definition proxy_forward ::
    "nat \<Rightarrow> 'f zsocket \<Rightarrow> 'b zsocket \<Rightarrow> 'c zsocket option \<Rightarrow> bool \<Rightarrow> bool \<Rightarrow> bool \<Rightarrow> bool \<Rightarrow> ('f, 'b, 'c, 'k) proxy
      \<Rightarrow> (int option \<times> ('f, 'b, 'c, 'k) proxy) outcome" where
  "proxy_forward fuel F B C in0 in1 out0 out1 st =
     and_then
       (if px_mode st = Proxy_active \<and> in0 \<and> out1 then
          and_then (forward fuel F B C (px_frontend st) (px_backend st) (px_capture st)) (\<lambda>(ok, f, b, c).
            Inr (ok, st\<lparr>px_frontend := f, px_backend := b, px_capture := c\<rparr>))
        else Inr (True, st))
       (\<lambda>(ok, st1).
          if \<not> ok then Inr (Some (-1), st1)
          else and_then
            (if px_mode st1 = Proxy_active \<and> in1 \<and> out0 then
               and_then (forward fuel B F C (px_backend st1) (px_frontend st1) (px_capture st1)) (\<lambda>(ok, b, f, c).
                 Inr (ok, st1\<lparr>px_frontend := f, px_backend := b, px_capture := c\<rparr>))
             else Inr (True, st1))
            (\<lambda>(ok, st2).
               if \<not> ok then Inr (Some (-1), st2)
               else Inr (if px_mode st2 = Proxy_terminated then Some 0 else None, st2)))"

definition proxy_round ::
    "nat \<Rightarrow> 'f zsocket \<Rightarrow> 'b zsocket \<Rightarrow> 'c zsocket option \<Rightarrow> 'k zsocket option \<Rightarrow> ('f, 'b, 'c, 'k) proxy
      \<Rightarrow> (int option \<times> ('f, 'b, 'c, 'k) proxy) outcome" where
  "proxy_round fuel F B C K st =
     and_then (poll_socket F (px_frontend st)) (\<lambda>(ev0, f1).
     and_then (poll_socket B (px_backend st)) (\<lambda>(ev1, b1).
     and_then (case K of None \<Rightarrow> Inr (Some (False, False), px_control st) | Some k \<Rightarrow> poll_socket k (px_control st)) (\<lambda>(ev2, k1).
       let st1 = st\<lparr>px_frontend := f1, px_backend := b1, px_control := k1\<rparr>
       in case (ev0, ev1, ev2) of
            (Some (in0, _), Some (in1, _), Some (in2, _)) \<Rightarrow>
              if \<not> in0 \<and> \<not> in1 \<and> \<not> in2 then Inl Waits
              else
                and_then (poll_socket F f1) (\<lambda>(evo0, f2).
                and_then (poll_socket B b1) (\<lambda>(evo1, b2).
                  let st2 = st1\<lparr>px_frontend := f2, px_backend := b2\<rparr>
                  in case (evo0, evo1) of
                       (Some (_, out0), Some (_, out1)) \<Rightarrow>
                         and_then
                           (case K of Some k \<Rightarrow> if in2 then proxy_control k C st2 else Inr (True, st2) | None \<Rightarrow> Inr (True, st2))
                           (\<lambda>(ok, st3).
                              if \<not> ok then Inr (Some (-1), st3)
                              else proxy_forward fuel F B C in0 in1 out0 out1 st3)
                     | _ \<Rightarrow> Inr (Some (-1), st2)))
          | _ \<Rightarrow> Inr (Some (-1), st1))))"

text \<open>The sockets of the server.\<close>

definition as_received :: "(zmsg option \<times> 's \<times> ports) outcome \<Rightarrow> (received \<times> 's \<times> ports) outcome" where
  "as_received r = and_then r (\<lambda>(x, s). Inr (case x of None \<Rightarrow> Failed Eagain | Some m \<Rightarrow> Got m, s))"

definition router_socket :: "(router \<times> ports) commands \<Rightarrow> (router \<times> ports) socket_base zsocket" where
  "router_socket commands =
     \<lparr>zs_recv = socket_recv commands (\<lambda>(r, ps). as_received (router_xrecv r ps)) False,
      zs_rcvmore = socket_rcvmore,
      zs_send = (\<lambda>parts. socket_send commands (\<lambda>m (r, ps). router_xsend m r ps) False parts),
      zs_events = socket_events commands (\<lambda>(r, ps). router_xhas_in r ps) (\<lambda>(r, ps). Inr (router_xhas_out r, r, ps))\<rparr>"

definition dealer_socket :: "(dealer \<times> ports) commands \<Rightarrow> (dealer \<times> ports) socket_base zsocket" where
  "dealer_socket commands =
     \<lparr>zs_recv = socket_recv commands (\<lambda>(d, ps). as_received (dealer_xrecv d ps)) False,
      zs_rcvmore = socket_rcvmore,
      zs_send = (\<lambda>parts. socket_send commands (\<lambda>m (d, ps). dealer_xsend m d ps) False parts),
      zs_events = socket_events commands (\<lambda>(d, ps). dealer_xhas_in d ps) (\<lambda>(d, ps). dealer_xhas_out d ps)\<rparr>"

end
