(* ===== verification/Zmq_Balance_Inv.thy ===== *)
theory Zmq_Balance_Inv
  imports Zmq_Balance Zmq_Pipe_Inv
begin

section \<open>The active pipes of a socket\<close>

text \<open>
  What \<open>lb_t\<close> and \<open>fq_t\<close> share: an array whose first pipes are the active ones and a position
  among them. Activating, deactivating and removing a pipe keep the array and change the
  set of active pipes as they should.
\<close>

definition ring_ok :: "ptr_array \<Rightarrow> nat \<Rightarrow> nat \<Rightarrow> bool" where
  "ring_ok a n c \<longleftrightarrow> array_ok a \<and> n \<le> length (pa_items a) \<and> (if n = 0 then c = 0 else c < n)"

definition active_pipes :: "ptr_array \<Rightarrow> nat \<Rightarrow> nat set" where
  "active_pipes a n = set (take n (pa_items a))"

lemma fill_gap:
  assumes "i < (n::nat)"
  shows "(\<exists>k < n - 1. (if k = i then f (n - 1) else f k) = x) \<longleftrightarrow> (\<exists>k < n. k \<noteq> i \<and> f k = x)"
proof
  assume "\<exists>k < n - 1. (if k = i then f (n - 1) else f k) = x"
  then obtain k where k: "k < n - 1" "(if k = i then f (n - 1) else f k) = x" by blast
  show "\<exists>k < n. k \<noteq> i \<and> f k = x"
  proof (cases "k = i")
    case True
    then have "n - 1 < n \<and> n - 1 \<noteq> i \<and> f (n - 1) = x" using k by simp
    then show ?thesis by blast
  next
    case False
    then have "k < n \<and> k \<noteq> i \<and> f k = x" using k by simp
    then show ?thesis by blast
  qed
next
  assume "\<exists>k < n. k \<noteq> i \<and> f k = x"
  then obtain k where k: "k < n" "k \<noteq> i" "f k = x" by blast
  show "\<exists>k < n - 1. (if k = i then f (n - 1) else f k) = x"
  proof (cases "k = n - 1")
    case True
    then have "i < n - 1 \<and> (if i = i then f (n - 1) else f i) = x" using k assms by simp
    then show ?thesis by blast
  next
    case False
    then have "k < n - 1 \<and> (if k = i then f (n - 1) else f k) = x" using k by simp
    then show ?thesis by blast
  qed
qed

lemma distinct_gap:
  assumes "distinct xs" "n \<le> length xs" "i < n"
  shows "(\<exists>k < n. k \<noteq> i \<and> xs ! k = x) \<longleftrightarrow> (\<exists>k < n. xs ! k = x) \<and> x \<noteq> xs ! i"
proof -
  have "xs ! k = xs ! i \<longleftrightarrow> k = i" if "k < n" for k
    using assms that by (simp add: nth_eq_iff_index_eq)
  then show ?thesis by metis
qed

lemma active_iff: "n \<le> length (pa_items a) \<Longrightarrow> p \<in> active_pipes a n \<longleftrightarrow> (\<exists>i<n. pa_items a ! i = p)"
  by (auto simp: active_pipes_def in_set_conv_nth)

lemma active_at: "array_ok a \<Longrightarrow> i < length (pa_items a) \<Longrightarrow> n \<le> length (pa_items a) \<Longrightarrow> pa_items a ! i \<in> active_pipes a n \<longleftrightarrow> i < n"
  by (auto simp: active_iff array_ok_def nth_eq_iff_index_eq)

lemma ring_current: "ring_ok a n c \<Longrightarrow> 0 < n \<Longrightarrow> array_at c a = Inr (pa_items a ! c) \<and> pa_items a ! c \<in> active_pipes a n"
  by (auto simp: ring_ok_def array_at_def active_iff)

lemma ring_activate:
  assumes "ring_ok a n c" "p \<in> set (pa_items a)" "p \<notin> active_pipes a n"
  shows "\<exists>i a'. array_index p a = Inr i \<and> array_swap i n a = Inr a' \<and> ring_ok a' (n + 1) c
     \<and> set (pa_items a') = set (pa_items a) \<and> active_pipes a' (n + 1) = insert p (active_pipes a n)"
proof -
  have ok: "array_ok a" "n \<le> length (pa_items a)" using assms(1) by (simp_all add: ring_ok_def)
  obtain i where i: "i < length (pa_items a)" "pa_items a ! i = p" "array_index p a = Inr i"
    using array_position [OF ok(1) assms(2)] by blast
  have ni: "n \<le> i" using i(1,2) assms(3) ok by (auto simp: active_iff not_less)
  then have n: "n < length (pa_items a)" using i(1) by simp
  obtain a' where a': "array_swap i n a = Inr a'" "array_ok a'"
      "pa_items a' = (pa_items a)[i := pa_items a ! n, n := pa_items a ! i]"
    using array_swap_ok [OF ok(1) i(1) n] by blast
  have s: "set (pa_items a') = set (pa_items a)" unfolding a'(3) by (rule swap_list_set [OF i(1) n])
  have nth: "pa_items a' ! k = (if k = n then p else pa_items a ! k)" if "k < n + 1" for k
    unfolding a'(3) using that ni n i by (subst swap_list_nth) auto
  have len: "length (pa_items a') = length (pa_items a)" using a'(3) by simp
  have r: "ring_ok a' (n + 1) c" using assms(1) a'(2) n len by (auto simp: ring_ok_def split: if_splits)
  have "active_pipes a' (n + 1) = insert p (active_pipes a n)"
  proof (rule set_eqI)
    fix x
    have "x \<in> active_pipes a' (n + 1) \<longleftrightarrow> (\<exists>k < n + 1. pa_items a' ! k = x)" using active_iff n len by simp
    also have "\<dots> \<longleftrightarrow> x = p \<or> (\<exists>k < n. pa_items a ! k = x)" using nth by (auto simp: less_Suc_eq)
    finally show "x \<in> active_pipes a' (n + 1) \<longleftrightarrow> x \<in> insert p (active_pipes a n)" using active_iff ok by simp
  qed
  then show ?thesis using i(3) a'(1) r s by blast
qed

text \<open>The pipe at position \<open>i\<close> changes places with the last active one.\<close>

lemma ring_swap_out:
  assumes "ring_ok a n c" "i < n"
  shows "\<exists>a'. array_swap i (n - 1) a = Inr a' \<and> ring_ok a' (n - 1) (if c = n - 1 then 0 else c)
     \<and> pa_items a' = (pa_items a)[i := pa_items a ! (n - 1), n - 1 := pa_items a ! i]
     \<and> set (pa_items a') = set (pa_items a) \<and> active_pipes a' (n - 1) = active_pipes a n - {pa_items a ! i}"
proof -
  have ok: "array_ok a" "n \<le> length (pa_items a)" using assms(1) by (simp_all add: ring_ok_def)
  have dist: "distinct (pa_items a)" using ok(1) by (simp add: array_ok_def)
  have i: "i < length (pa_items a)" and n: "n - 1 < length (pa_items a)" using assms(2) ok(2) by simp_all
  obtain a' where a': "array_swap i (n - 1) a = Inr a'" "array_ok a'"
      "pa_items a' = (pa_items a)[i := pa_items a ! (n - 1), n - 1 := pa_items a ! i]"
    using array_swap_ok [OF ok(1) i n] by blast
  have s: "set (pa_items a') = set (pa_items a)" unfolding a'(3) by (rule swap_list_set [OF i n])
  have nth: "pa_items a' ! k = (if k = i then pa_items a ! (n - 1) else pa_items a ! k)" if "k < n - 1" for k
    unfolding a'(3) using that n i by (subst swap_list_nth) auto
  have len: "length (pa_items a') = length (pa_items a)" using a'(3) by simp
  have r: "ring_ok a' (n - 1) (if c = n - 1 then 0 else c)"
    using assms a'(2) n len by (auto simp: ring_ok_def split: if_splits)
  have "active_pipes a' (n - 1) = active_pipes a n - {pa_items a ! i}"
  proof (rule set_eqI)
    fix x
    have "x \<in> active_pipes a' (n - 1) \<longleftrightarrow> (\<exists>k < n - 1. pa_items a' ! k = x)" using active_iff n len by simp
    also have "\<dots> \<longleftrightarrow> (\<exists>k < n - 1. (if k = i then pa_items a ! (n - 1) else pa_items a ! k) = x)" using nth by auto
    also have "\<dots> \<longleftrightarrow> (\<exists>k < n. pa_items a ! k = x) \<and> x \<noteq> pa_items a ! i"
      unfolding fill_gap [OF assms(2)] by (rule distinct_gap [OF dist ok(2) assms(2)])
    also have "\<dots> \<longleftrightarrow> x \<in> active_pipes a n - {pa_items a ! i}" using active_iff [OF ok(2)] by simp
    finally show "x \<in> active_pipes a' (n - 1) \<longleftrightarrow> x \<in> active_pipes a n - {pa_items a ! i}" .
  qed
  then show ?thesis using a' r s by blast
qed

text \<open>Removing a pipe that is not active.\<close>

lemma ring_erase:
  assumes "ring_ok a n c" "p \<in> set (pa_items a)" "p \<notin> active_pipes a n"
  shows "\<exists>a'. array_erase p a = Inr a' \<and> ring_ok a' n c \<and> set (pa_items a') = set (pa_items a) - {p}
     \<and> take n (pa_items a') = take n (pa_items a)"
proof -
  have ok: "array_ok a" "n \<le> length (pa_items a)" using assms(1) by (simp_all add: ring_ok_def)
  obtain i where i: "i < length (pa_items a)" "pa_items a ! i = p"
    using assms(2) by (auto simp: in_set_conv_nth)
  have ni: "n \<le> i" using i assms(3) ok by (auto simp: active_iff not_less)
  have dist: "distinct (pa_items a)" using ok(1) by (simp add: array_ok_def)
  define m where "m = length (pa_items a) - 1"
  have ne: "pa_items a \<noteq> []" using i by auto
  obtain a' where a': "array_erase p a = Inr a'" "array_ok a'" "pa_items a' = butlast ((pa_items a)[i := last (pa_items a)])"
    using array_erase_ok [OF ok(1) i(1)] i(2) by blast
  have len: "length (pa_items a') = m" using a'(3) by (simp add: m_def)
  have nth: "pa_items a' ! k = (if k = i then pa_items a ! m else pa_items a ! k)" if "k < m" for k
    unfolding a'(3) using that i(1) by (simp add: m_def nth_butlast nth_list_update last_conv_nth [OF ne])
  have "take n (pa_items a') = take n (pa_items a)"
    by (rule nth_equalityI) (use ni i(1) len nth ok(2) in \<open>auto simp: m_def\<close>)
  moreover have "set (pa_items a') = set (pa_items a) - {p}"
  proof (rule set_eqI)
    fix x
    have "x \<in> set (pa_items a') \<longleftrightarrow> (\<exists>k < m. (if k = i then pa_items a ! m else pa_items a ! k) = x)"
      using len nth by (auto simp: in_set_conv_nth)
    also have "\<dots> \<longleftrightarrow> (\<exists>k < length (pa_items a). pa_items a ! k = x) \<and> x \<noteq> pa_items a ! i"
      unfolding m_def fill_gap [OF i(1)] by (rule distinct_gap [OF dist order.refl i(1)])
    also have "\<dots> \<longleftrightarrow> x \<in> set (pa_items a) - {p}" using i(2) by (auto simp: in_set_conv_nth)
    finally show "x \<in> set (pa_items a') \<longleftrightarrow> x \<in> set (pa_items a) - {p}" .
  qed
  moreover have "ring_ok a' n c" using assms(1) a'(2) len ni i(1) by (auto simp: ring_ok_def m_def)
  ultimately show ?thesis using a'(1) by blast
qed

lemma ring_push: "ring_ok a n c \<Longrightarrow> p \<notin> set (pa_items a) \<Longrightarrow>
    ring_ok (array_push_back p a) n c \<and> set (pa_items (array_push_back p a)) = insert p (set (pa_items a))
  \<and> active_pipes (array_push_back p a) n = active_pipes a n"
  using push_back_ok [of a p] by (auto simp: ring_ok_def array_push_back_def active_pipes_def)


subsection \<open>Load balancing keeps its array\<close>

abbreviation lb_items :: "lb \<Rightarrow> nat set" where
  "lb_items l \<equiv> set (pa_items (lb_pipes l))"

definition lb_active_pipes :: "lb \<Rightarrow> nat set" where
  "lb_active_pipes l = active_pipes (lb_pipes l) (lb_active l)"

definition lb_current_pipe :: "lb \<Rightarrow> nat" where
  "lb_current_pipe l = pa_items (lb_pipes l) ! lb_current l"

definition lb_ok :: "lb \<Rightarrow> bool" where
  "lb_ok l \<longleftrightarrow> ring_ok (lb_pipes l) (lb_active l) (lb_current l)"

lemma lb_new_ok: "lb_ok lb_new"
  by (simp add: lb_ok_def lb_new_def ring_ok_def array_new_ok)

lemma lb_activated_ok:
  assumes "lb_ok l" "p \<in> lb_items l" "p \<notin> lb_active_pipes l"
  shows "\<exists>l'. lb_activated p l = Inr l' \<and> lb_ok l' \<and> lb_items l' = lb_items l
     \<and> lb_active_pipes l' = insert p (lb_active_pipes l) \<and> lb_more l' = lb_more l \<and> lb_dropping l' = lb_dropping l"
proof -
  obtain i a' where "array_index p (lb_pipes l) = Inr i" "array_swap i (lb_active l) (lb_pipes l) = Inr a'"
      "ring_ok a' (lb_active l + 1) (lb_current l)" "set (pa_items a') = lb_items l"
      "active_pipes a' (lb_active l + 1) = insert p (lb_active_pipes l)"
    using ring_activate [OF assms(1) [unfolded lb_ok_def] assms(2) assms(3) [unfolded lb_active_pipes_def]]
    unfolding lb_active_pipes_def by (elim exE conjE)
  then show ?thesis by (simp add: lb_activated_def lb_ok_def lb_active_pipes_def)
qed

lemma lb_attach_ok:
  assumes "lb_ok l" "p \<notin> lb_items l"
  shows "\<exists>l'. lb_attach p l = Inr l' \<and> lb_ok l' \<and> lb_items l' = insert p (lb_items l)
     \<and> lb_active_pipes l' = insert p (lb_active_pipes l) \<and> lb_more l' = lb_more l \<and> lb_dropping l' = lb_dropping l"
proof -
  let ?l = "l\<lparr>lb_pipes := array_push_back p (lb_pipes l)\<rparr>"
  have r: "lb_ok ?l" "lb_items ?l = insert p (lb_items l)" "lb_active_pipes ?l = lb_active_pipes l"
    using ring_push [OF assms(1) [unfolded lb_ok_def] assms(2)] by (simp_all add: lb_ok_def lb_active_pipes_def)
  have "p \<notin> lb_active_pipes ?l"
    using assms(2) unfolding r(3) by (auto simp: lb_active_pipes_def active_pipes_def dest: in_set_takeD)
  then show ?thesis using lb_activated_ok [OF r(1), of p] r by (simp add: lb_attach_def)
qed

lemma lb_deactivate_ok:
  assumes "lb_ok l" "0 < lb_active l"
  shows "\<exists>l'. lb_deactivate l = Inr l' \<and> lb_ok l' \<and> lb_items l' = lb_items l
     \<and> lb_active_pipes l' = lb_active_pipes l - {lb_current_pipe l} \<and> lb_more l' = lb_more l \<and> lb_dropping l' = lb_dropping l"
proof -
  have "lb_current l < lb_active l" using assms by (simp add: lb_ok_def ring_ok_def)
  from ring_swap_out [OF assms(1) [unfolded lb_ok_def] this] show ?thesis
    by (auto simp: lb_deactivate_def Let_def lb_ok_def lb_active_pipes_def lb_current_pipe_def)
qed

lemma lb_skip_ok:
  assumes "lb_ok l" "0 < lb_active l"
  shows "\<exists>l'. lb_skip l = Inr l' \<and> lb_ok l' \<and> lb_items l' = lb_items l
     \<and> lb_active_pipes l' = lb_active_pipes l - {lb_current_pipe l} \<and> lb_more l' = lb_more l \<and> lb_dropping l' = lb_dropping l"
proof (cases "lb_current l < lb_active l - 1")
  case True
  then have "lb_skip l = lb_deactivate l" by (simp add: lb_skip_def lb_deactivate_def Let_def)
  then show ?thesis using lb_deactivate_ok [OF assms] by simp
next
  case False
  let ?n = "lb_active l - 1"
  have c: "lb_current l = ?n" and r: "ring_ok (lb_pipes l) (lb_active l) (lb_current l)"
    using assms False by (auto simp: lb_ok_def ring_ok_def)
  have n: "?n < length (pa_items (lb_pipes l))" "?n < lb_active l" using r assms(2) by (auto simp: ring_ok_def)
  from ring_swap_out [OF r n(2)] c have "active_pipes (lb_pipes l) ?n = lb_active_pipes l - {lb_current_pipe l}"
    by (auto simp: lb_active_pipes_def lb_current_pipe_def active_pipes_def)
  moreover have "ring_ok (lb_pipes l) ?n 0" using r assms(2) by (auto simp: ring_ok_def)
  ultimately show ?thesis using False by (simp add: lb_skip_def Let_def lb_ok_def lb_active_pipes_def)
qed

lemma lb_pipe_terminated_ok:
  assumes "lb_ok l" "p \<in> lb_items l"
  shows "\<exists>l'. lb_pipe_terminated p l = Inr l' \<and> lb_ok l' \<and> lb_items l' = lb_items l - {p}
     \<and> lb_active_pipes l' = lb_active_pipes l - {p} \<and> lb_more l' = lb_more l
     \<and> (lb_dropping l' \<longleftrightarrow> lb_dropping l \<or> lb_more l \<and> p = lb_current_pipe l)"
proof -
  have r: "ring_ok (lb_pipes l) (lb_active l) (lb_current l)" using assms(1) by (simp add: lb_ok_def)
  then have ok: "array_ok (lb_pipes l)" "lb_active l \<le> length (pa_items (lb_pipes l))" by (simp_all add: ring_ok_def)
  obtain i where i: "i < length (pa_items (lb_pipes l))" "pa_items (lb_pipes l) ! i = p" "array_index p (lb_pipes l) = Inr i"
    using array_position [OF ok(1) assms(2)] by blast
  define l1 where "l1 = (if i = lb_current l \<and> lb_more l then l\<lparr>lb_dropping := True\<rparr> else l)"
  have l1: "lb_pipes l1 = lb_pipes l" "lb_active l1 = lb_active l" "lb_current l1 = lb_current l" "lb_more l1 = lb_more l"
    "lb_dropping l1 \<longleftrightarrow> lb_dropping l \<or> i = lb_current l \<and> lb_more l"
    by (auto simp: l1_def)
  have "lb_current l < length (pa_items (lb_pipes l))"
    using r i(1) by (cases "lb_active l = 0") (auto simp: ring_ok_def)
  then have cur: "i = lb_current l \<longleftrightarrow> p = lb_current_pipe l"
    using ok(1) i(1,2) by (auto simp: lb_current_pipe_def array_ok_def nth_eq_iff_index_eq)
  have unf: "lb_pipe_terminated p l =
      and_then (if i < lb_active l1 then and_then (array_swap i (lb_active l1 - 1) (lb_pipes l1)) (\<lambda>a.
           Inr (l1\<lparr>lb_pipes := a, lb_active := lb_active l1 - 1,
                   lb_current := (if lb_current l1 = lb_active l1 - 1 then 0 else lb_current l1)\<rparr>))
         else Inr l1) (\<lambda>l2. and_then (array_erase p (lb_pipes l2)) (\<lambda>a. Inr (l2\<lparr>lb_pipes := a\<rparr>)))"
    using i(3) by (simp add: lb_pipe_terminated_def l1_def Let_def)
  show ?thesis
  proof (cases "i < lb_active l")
    case True
    obtain a' where a': "array_swap i (lb_active l - 1) (lb_pipes l) = Inr a'"
        "ring_ok a' (lb_active l - 1) (if lb_current l = lb_active l - 1 then 0 else lb_current l)"
        "set (pa_items a') = lb_items l" "active_pipes a' (lb_active l - 1) = lb_active_pipes l - {p}"
      using ring_swap_out [OF r True] i(2) unfolding lb_active_pipes_def by (elim exE conjE) simp
    have "p \<in> set (pa_items a')" "p \<notin> active_pipes a' (lb_active l - 1)" using a'(3,4) assms(2) by simp_all
    from ring_erase [OF a'(2) this] obtain b where b: "array_erase p a' = Inr b"
        "ring_ok b (lb_active l - 1) (if lb_current l = lb_active l - 1 then 0 else lb_current l)"
        "set (pa_items b) = set (pa_items a') - {p}" "take (lb_active l - 1) (pa_items b) = take (lb_active l - 1) (pa_items a')"
      by blast
    show ?thesis
      unfolding unf using True l1 a' b cur by (auto simp: lb_ok_def lb_active_pipes_def active_pipes_def)
  next
    case False
    then have np: "p \<notin> active_pipes (lb_pipes l) (lb_active l)" using active_at [OF ok(1) i(1) ok(2)] i(2) by simp
    from ring_erase [OF r assms(2) this] obtain b where "array_erase p (lb_pipes l) = Inr b"
        "ring_ok b (lb_active l) (lb_current l)" "set (pa_items b) = lb_items l - {p}"
        "take (lb_active l) (pa_items b) = take (lb_active l) (pa_items (lb_pipes l))"
      by blast
    then show ?thesis
      unfolding unf using False l1 np cur by (auto simp: lb_ok_def lb_active_pipes_def active_pipes_def)
  qed
qed


subsection \<open>Sending\<close>

definition can_write :: "port \<Rightarrow> bool" where
  "can_write q \<longleftrightarrow> fst (port_check_write q)"

text \<open>What an end keeps when it is written to.\<close>

definition read_side :: "pipe_end \<Rightarrow> bool \<times> pipe_state \<times> bool \<times> bool" where
  "read_side e = (pe_in_active e, pe_state e, pe_alive e, pe_outpipe e)"

definition same_queues :: "port \<Rightarrow> port \<Rightarrow> bool" where
  "same_queues p q \<longleftrightarrow> po_in q = po_in p \<and> po_out q = po_out p \<and> po_sent q = po_sent p \<and> po_identity q = po_identity p
     \<and> read_side (po_end q) = read_side (po_end p)"

lemma same_queues_refl [simp]: "same_queues p p"
  by (simp add: same_queues_def)

lemma same_queues_trans: "same_queues p q \<Longrightarrow> same_queues q r \<Longrightarrow> same_queues p r"
  by (simp add: same_queues_def)

lemma can_write_iff: "can_write q \<longleftrightarrow> pe_out_active (po_end q) \<and> pe_state (po_end q) = P_active \<and> \<not> pipe_full (po_end q)"
  by (auto simp: can_write_def port_check_write_def pipe_check_write_def split: if_splits)

lemma port_write_ok: "fst (port_write m q) = can_write q"
  by (auto simp: port_write_def pipe_write_def can_write_def port_check_write_def split: prod.splits bool.splits)

lemma port_write_refused: "\<not> can_write q \<Longrightarrow> same_queues q (snd (port_write m q))"
  using port_write_ok [of m q]
  by (auto simp: port_write_def pipe_write_def same_queues_def read_side_def pipe_check_write_def
      split: prod.splits bool.splits if_splits)

lemma port_write_done:
  assumes "can_write q"
  shows "po_out (snd (port_write m q)) = ypipe_write m (msg_more m) (po_out q)"
    "po_in (snd (port_write m q)) = po_in q" "po_sent (snd (port_write m q)) = po_sent q"
    "po_identity (snd (port_write m q)) = po_identity q"
    "pe_state (po_end (snd (port_write m q))) = pe_state (po_end q)"
    "pe_outpipe (po_end (snd (port_write m q))) = pe_outpipe (po_end q)"
    "msg_more m \<Longrightarrow> can_write (snd (port_write m q))"
  using assms
  by (auto simp: port_write_def pipe_write_def pipe_check_write_def can_write_iff pipe_full_def)

text \<open>The message goes to an active pipe that takes it; those that did not are no longer active.\<close>

definition sent_by :: "zmsg \<Rightarrow> lb \<Rightarrow> ports \<Rightarrow> nat option \<Rightarrow> lb \<Rightarrow> ports \<Rightarrow> bool" where
  "sent_by m l ps pipe l' ps' \<longleftrightarrow>
     lb_ok l' \<and> lb_items l' = lb_items l \<and> lb_dropping l' = lb_dropping l
   \<and> lb_active_pipes l' \<subseteq> lb_active_pipes l
   \<and> (\<forall>q \<in> lb_active_pipes l - lb_active_pipes l'. \<not> can_write (ps q))
   \<and> (\<forall>q. Some q \<noteq> pipe \<longrightarrow> same_queues (ps q) (ps' q))
   \<and> (\<forall>q. q \<notin> lb_active_pipes l \<longrightarrow> ps' q = ps q)
   \<and> (case pipe of
        None \<Rightarrow> lb_active l' = 0
      | Some p \<Rightarrow> p \<in> lb_active_pipes l' \<and> lb_current_pipe l' = p \<and> 0 < lb_active l' \<and> can_write (ps p)
                  \<and> ps' p = snd (port_write m (ps p)))"

lemma sent_by_later:
  assumes s: "sent_by m l1 (ps(p := q)) pipe l' ps'"
    and l1: "lb_items l1 = lb_items l" "lb_dropping l1 = lb_dropping l" "lb_active_pipes l1 = lb_active_pipes l - {p}"
    and p: "p \<in> lb_active_pipes l" "\<not> can_write (ps p)" "same_queues (ps p) q"
  shows "sent_by m l ps pipe l' ps'"
proof -
  have a: "lb_ok l'" "lb_items l' = lb_items l" "lb_dropping l' = lb_dropping l" "lb_active_pipes l' \<subseteq> lb_active_pipes l"
    "p \<notin> lb_active_pipes l'"
    using s l1 by (auto simp: sent_by_def)
  have b: "\<not> can_write (ps x)" if "x \<in> lb_active_pipes l - lb_active_pipes l'" for x
  proof (cases "x = p")
    case False
    then have "x \<in> lb_active_pipes l1 - lb_active_pipes l'" using that l1(3) by simp
    then have "\<not> can_write ((ps(p := q)) x)" using s unfolding sent_by_def by blast
    then show ?thesis using False by simp
  qed (use p in simp)
  have c: "same_queues (ps x) (ps' x)" if "Some x \<noteq> pipe" for x
  proof -
    have "same_queues ((ps(p := q)) x) (ps' x)" using s that unfolding sent_by_def by blast
    then show ?thesis using p(3) same_queues_trans by (cases "x = p") auto
  qed
  have d: "ps' x = ps x" if "x \<notin> lb_active_pipes l" for x
  proof -
    have "x \<notin> lb_active_pipes l1" "x \<noteq> p" using that l1(3) p(1) by auto
    then show ?thesis using s by (auto simp: sent_by_def)
  qed
  have "case pipe of None \<Rightarrow> lb_active l' = 0
      | Some x \<Rightarrow> x \<in> lb_active_pipes l' \<and> lb_current_pipe l' = x \<and> 0 < lb_active l' \<and> can_write (ps x)
                  \<and> ps' x = snd (port_write m (ps x))"
  proof (cases pipe)
    case (Some x)
    then have "x \<in> lb_active_pipes l'" using s by (simp add: sent_by_def)
    then have "x \<noteq> p" using a(5) by blast
    then show ?thesis using s Some by (simp add: sent_by_def)
  qed (use s in \<open>simp add: sent_by_def\<close>)
  then show ?thesis unfolding sent_by_def using a b c d by blast
qed

lemma current_active:
  "lb_ok l \<Longrightarrow> 0 < lb_active l \<Longrightarrow> array_at (lb_current l) (lb_pipes l) = Inr (lb_current_pipe l) \<and> lb_current_pipe l \<in> lb_active_pipes l"
  using ring_current by (simp add: lb_ok_def lb_current_pipe_def lb_active_pipes_def)

lemma send_loop_spec:
  "lb_ok l \<Longrightarrow> \<not> lb_more l \<Longrightarrow>
     \<exists>pipe l' ps'. lb_send_loop m l ps = Inr (pipe, l', ps') \<and> sent_by m l ps pipe l' ps' \<and> \<not> lb_more l'"
proof (induction "lb_active l" arbitrary: l ps)
  case 0
  have "lb_send_loop m l ps = Inr (None, l, ps)" using 0(1) by (subst lb_send_loop.simps) simp
  then show ?case using 0 by (simp add: sent_by_def)
next
  case (Suc n)
  let ?p = "lb_current_pipe l"
  have c: "array_at (lb_current l) (lb_pipes l) = Inr ?p" "?p \<in> lb_active_pipes l" and pos: "0 < lb_active l"
    using current_active [OF Suc.prems(1)] Suc.hyps(2) by simp_all
  obtain ok q where w: "port_write m (ps ?p) = (ok, q)" by (cases "port_write m (ps ?p)")
  show ?case
  proof (cases ok)
    case True
    then have "lb_send_loop m l ps = Inr (Some ?p, l, ps(?p := q))"
      using c w pos by (subst lb_send_loop.simps) (simp add: Let_def)
    moreover have "can_write (ps ?p)" using port_write_ok [of m "ps ?p"] w True by simp
    ultimately show ?thesis using Suc.prems c pos w by (simp add: sent_by_def)
  next
    case False
    obtain l1 where l1: "lb_skip l = Inr l1" "lb_ok l1" "lb_items l1 = lb_items l"
        "lb_active_pipes l1 = lb_active_pipes l - {?p}" "lb_more l1 = lb_more l" "lb_dropping l1 = lb_dropping l"
      using lb_skip_ok [OF Suc.prems(1) pos] by blast
    have "n = lb_active l1" using lb_skip_active [OF l1(1)] Suc.hyps(2) by simp
    from Suc.hyps(1) [OF this l1(2)] obtain pipe l' ps' where
      r: "lb_send_loop m l1 (ps(?p := q)) = Inr (pipe, l', ps')" "sent_by m l1 (ps(?p := q)) pipe l' ps'" "\<not> lb_more l'"
      using Suc.prems(2) l1(5) by blast
    have "lb_send_loop m l ps = Inr (pipe, l', ps')"
      using c w pos False l1(1) Suc.prems(2) r(1) by (subst lb_send_loop.simps) (simp add: Let_def)
    moreover have nw: "\<not> can_write (ps ?p)" using port_write_ok [of m "ps ?p"] w False by simp
    then have sq: "same_queues (ps ?p) q" using port_write_refused [of "ps ?p" m] w by simp
    have "sent_by m l ps pipe l' ps'"
      by (rule sent_by_later [OF r(2) l1(3,6,4) c(2) nw sq])
    ultimately show ?thesis using r(3) by blast
  qed
qed

text \<open>What is left to do when a part has been written: flush and move on after the last one.\<close>

definition after_part :: "zmsg \<Rightarrow> port \<Rightarrow> port" where
  "after_part m q = (if msg_more m then snd (port_write m q) else port_flush (snd (port_write m q)))"

definition lb_written :: "zmsg \<Rightarrow> nat \<Rightarrow> lb \<Rightarrow> ports \<Rightarrow> lb \<Rightarrow> ports \<Rightarrow> bool" where
  "lb_written m p l ps l' ps' \<longleftrightarrow>
     lb_ok l' \<and> lb_items l' = lb_items l \<and> \<not> lb_dropping l' \<and> lb_more l' = msg_more m \<and> lb_active_pipes l' \<subseteq> lb_active_pipes l
   \<and> p \<in> lb_active_pipes l' \<and> 0 < lb_active l' \<and> (msg_more m \<longrightarrow> lb_current_pipe l' = p)
   \<and> can_write (ps p) \<and> ps' p = after_part m (ps p) \<and> (\<forall>q. q \<noteq> p \<longrightarrow> same_queues (ps q) (ps' q))"

lemma advance_ok: "lb_ok l \<Longrightarrow> 0 < lb_active l \<Longrightarrow> lb_ok (l\<lparr>lb_current := (lb_current l + 1) mod lb_active l\<rparr>)"
  by (simp add: lb_ok_def ring_ok_def)

lemma sendpipe_first:
  assumes "lb_ok l" "\<not> lb_more l" "\<not> lb_dropping l" "\<exists>p \<in> lb_active_pipes l. can_write (ps p)"
  shows "\<exists>p l' ps'. lb_sendpipe m l ps = Inr (None, Some p, l', ps') \<and> lb_written m p l ps l' ps'"
proof -
  obtain pipe l1 ps1 where r: "lb_send_loop m l ps = Inr (pipe, l1, ps1)" "sent_by m l ps pipe l1 ps1" "\<not> lb_more l1"
    using send_loop_spec [OF assms(1,2)] by blast
  have "pipe \<noteq> None"
  proof
    assume "pipe = None"
    then have "lb_active l1 = 0" using r(2) by (simp add: sent_by_def)
    then have "lb_active_pipes l1 = {}" by (simp add: lb_active_pipes_def active_pipes_def)
    then show False using r(2) assms(4) by (auto simp: sent_by_def)
  qed
  then obtain p where p: "pipe = Some p" by blast
  have f: "lb_ok l1" "lb_items l1 = lb_items l" "lb_dropping l1 = lb_dropping l" "lb_active_pipes l1 \<subseteq> lb_active_pipes l"
    "p \<in> lb_active_pipes l1" "lb_current_pipe l1 = p" "0 < lb_active l1" "can_write (ps p)" "ps1 p = snd (port_write m (ps p))"
    "\<forall>q. q \<noteq> p \<longrightarrow> same_queues (ps q) (ps1 q)"
    using r(2) unfolding sent_by_def p by simp_all
  have at: "array_at (lb_current l1) (lb_pipes l1) = Inr p" using current_active [OF f(1,7)] f(6) by simp
  show ?thesis
  proof (cases "msg_more m")
    case True
    then have "lb_sendpipe m l ps = Inr (None, Some p, l1\<lparr>lb_more := True\<rparr>, ps1)"
      using assms(3) r(1) f(7) by (simp add: lb_sendpipe_def Let_def p)
    moreover have "lb_written m p l ps (l1\<lparr>lb_more := True\<rparr>) ps1"
      using f True assms(3) by (simp add: lb_written_def after_part_def lb_ok_def lb_active_pipes_def lb_current_pipe_def)
    ultimately show ?thesis by blast
  next
    case False
    let ?l = "l1\<lparr>lb_more := False, lb_current := (lb_current l1 + 1) mod lb_active l1\<rparr>"
    have "lb_sendpipe m l ps = Inr (None, Some p, ?l, ps1(p := port_flush (ps1 p)))"
      using assms(3) r(1) f(7) at False by (simp add: lb_sendpipe_def Let_def p)
    moreover have "lb_written m p l ps ?l (ps1(p := port_flush (ps1 p)))"
      using f False assms(3) advance_ok [OF f(1,7)]
      by (simp add: lb_written_def after_part_def lb_ok_def lb_active_pipes_def)
    ultimately show ?thesis by blast
  qed
qed

lemma sendpipe_again:
  assumes "lb_ok l" "\<not> lb_more l" "\<not> lb_dropping l" "\<forall>p \<in> lb_active_pipes l. \<not> can_write (ps p)"
  shows "\<exists>l' ps'. lb_sendpipe m l ps = Inr (Some Eagain, None, l', ps') \<and> lb_ok l' \<and> lb_items l' = lb_items l
     \<and> lb_active l' = 0 \<and> \<not> lb_more l' \<and> (\<forall>q. same_queues (ps q) (ps' q))"
proof -
  obtain pipe l1 ps1 where r: "lb_send_loop m l ps = Inr (pipe, l1, ps1)" "sent_by m l ps pipe l1 ps1" "\<not> lb_more l1"
    using send_loop_spec [OF assms(1,2)] by blast
  have "pipe = None" using r(2) assms(4) by (cases pipe) (auto simp: sent_by_def)
  then show ?thesis using r assms(3) by (auto simp: sent_by_def lb_sendpipe_def)
qed

text \<open>The parts that follow.\<close>

lemma sendpipe_next:
  assumes "lb_ok l" "lb_more l" "\<not> lb_dropping l" "0 < lb_active l" "can_write (ps (lb_current_pipe l))"
  shows "\<exists>l' ps'. lb_sendpipe m l ps = Inr (None, Some (lb_current_pipe l), l', ps')
     \<and> lb_written m (lb_current_pipe l) l ps l' ps'"
proof -
  let ?p = "lb_current_pipe l"
  have c: "array_at (lb_current l) (lb_pipes l) = Inr ?p" "?p \<in> lb_active_pipes l"
    using current_active [OF assms(1,4)] by simp_all
  obtain q where w: "port_write m (ps ?p) = (True, q)"
    using port_write_ok [of m "ps ?p"] assms(5) by (cases "port_write m (ps ?p)") auto
  have loop: "lb_send_loop m l ps = Inr (Some ?p, l, ps(?p := q))"
    using c w assms(4) by (subst lb_send_loop.simps) (simp add: Let_def)
  show ?thesis
  proof (cases "msg_more m")
    case True
    then have "lb_sendpipe m l ps = Inr (None, Some ?p, l\<lparr>lb_more := True\<rparr>, ps(?p := q))"
      using assms(3,4) loop by (simp add: lb_sendpipe_def Let_def)
    moreover have "lb_written m ?p l ps (l\<lparr>lb_more := True\<rparr>) (ps(?p := q))"
      using assms True c(2) w by (simp add: lb_written_def after_part_def lb_ok_def lb_active_pipes_def lb_current_pipe_def)
    ultimately show ?thesis by blast
  next
    case False
    let ?l = "l\<lparr>lb_more := False, lb_current := (lb_current l + 1) mod lb_active l\<rparr>"
    have "lb_sendpipe m l ps = Inr (None, Some ?p, ?l, ps(?p := port_flush q))"
      using assms(3,4) loop c(1) False by (simp add: lb_sendpipe_def Let_def)
    moreover have "lb_written m ?p l ps ?l (ps(?p := port_flush q))"
      using assms False c(2) w advance_ok [OF assms(1,4)]
      by (simp add: lb_written_def after_part_def lb_ok_def lb_active_pipes_def)
    ultimately show ?thesis by blast
  qed
qed


subsection \<open>Whole messages\<close>

text \<open>A caller sends the parts of a message one after the other; the pipes they went to.\<close>

fun lb_send_parts :: "zmsg list \<Rightarrow> lb \<Rightarrow> ports \<Rightarrow> (nat list \<times> lb \<times> ports) outcome" where
  "lb_send_parts [] l ps = Inr ([], l, ps)"
| "lb_send_parts (m # ms) l ps =
     and_then (lb_sendpipe m l ps) (\<lambda>(rc, pipe, l1, ps1).
       case pipe of None \<Rightarrow> Inl Waits
       | Some p \<Rightarrow> and_then (lb_send_parts ms l1 ps1) (\<lambda>(pipes, l2, ps2). Inr (p # pipes, l2, ps2)))"

fun is_message :: "zmsg list \<Rightarrow> bool" where
  "is_message [] = False"
| "is_message [m] = (\<not> msg_more m)"
| "is_message (m # ms) = (msg_more m \<and> is_message ms)"

lemma is_message_Cons: "is_message (m # ms) = (if msg_more m then is_message ms else ms = [])"
  by (cases ms) auto

lemma all_msgs_write: "ypipe_ok y \<Longrightarrow> all_msgs (ypipe_write m b y) = all_msgs y @ [m]"
  using write_refines [of y m b] by (simp add: all_msgs_def mp_write_def)

definition sends_ok :: "port \<Rightarrow> bool" where
  "sends_ok q \<longleftrightarrow> ypipe_ok (po_out q) \<and> pe_outpipe (po_end q)"

lemma after_part_out:
  assumes "can_write q" "sends_ok q"
  shows "all_msgs (po_out (after_part m q)) = all_msgs (po_out q) @ [m]"
    "ypipe_ok (po_out (after_part m q))" "pe_outpipe (po_end (after_part m q))" "po_in (after_part m q) = po_in q"
    "po_identity (after_part m q) = po_identity q"
    "read_side (po_end (after_part m q)) = read_side (po_end q)"
    "msg_more m \<Longrightarrow> can_write (after_part m q)"
    "\<not> msg_more m \<Longrightarrow> mp_ready (pipe_of (po_out (after_part m q))) = all_msgs (po_out q) @ [m]"
proof -
  define q1 where "q1 = snd (port_write m q)"
  have y: "ypipe_ok (po_out q)" using assms(2) by (simp add: sends_ok_def)
  have o1: "po_out q1 = ypipe_write m (msg_more m) (po_out q)" "po_in q1 = po_in q" "po_identity q1 = po_identity q"
    "pe_state (po_end q1) = P_active" "pe_outpipe (po_end q1)"
    using port_write_done [OF assms(1), of m] assms by (simp_all add: q1_def can_write_iff sends_ok_def)
  note w = write_refines [OF y, of m "msg_more m"] all_msgs_write [OF y, of m "msg_more m"]
  have y1: "ypipe_ok (po_out q1)" and all1: "all_msgs (po_out q1) = all_msgs (po_out q) @ [m]" using w o1 by simp_all
  obtain y' cs where f: "pipe_flush (po_end q1) (po_out q1) = (y', cs)" by (cases "pipe_flush (po_end q1) (po_out q1)")
  note spec = pipe_flush_spec [OF y1 f] flush_all [OF y1 f]
  have fl: "po_out (port_flush q1) = y'" "po_end (port_flush q1) = po_end q1" "po_in (port_flush q1) = po_in q1"
    "po_identity (port_flush q1) = po_identity q1"
    using f by (simp_all add: port_flush_def)
  show "all_msgs (po_out (after_part m q)) = all_msgs (po_out q) @ [m]"
    using all1 spec fl by (simp add: after_part_def q1_def [symmetric])
  show "ypipe_ok (po_out (after_part m q))" using y1 spec fl by (simp add: after_part_def q1_def [symmetric])
  show "pe_outpipe (po_end (after_part m q))" using o1 fl by (simp add: after_part_def q1_def [symmetric])
  show "po_in (after_part m q) = po_in q" using o1 fl by (simp add: after_part_def q1_def [symmetric])
  show "po_identity (after_part m q) = po_identity q" using o1 fl by (simp add: after_part_def q1_def [symmetric])
  have "read_side (po_end q1) = read_side (po_end q)"
    using assms(1) by (auto simp: q1_def port_write_def pipe_write_def pipe_check_write_def can_write_iff read_side_def)
  then show "read_side (po_end (after_part m q)) = read_side (po_end q)" using fl by (simp add: after_part_def q1_def [symmetric])
  show "can_write (after_part m q)" if "msg_more m"
    using port_write_done(7) [OF assms(1) that] that by (simp add: after_part_def)
  show "mp_ready (pipe_of (po_out (after_part m q))) = all_msgs (po_out q) @ [m]" if "\<not> msg_more m"
  proof -
    have "mp_partial (pipe_of (po_out q1)) = []" using w o1(1) that by (simp add: mp_write_def)
    then have "mp_partial (pipe_of y') = []" "mp_complete (pipe_of y') = []" using spec o1(4,5) by simp_all
    then have "mp_ready (pipe_of y') = all_msgs y'" by (simp add: all_msgs_def)
    then show ?thesis using that fl spec all1 by (simp add: after_part_def q1_def [symmetric])
  qed
qed

lemma send_rest:
  "is_message ms \<Longrightarrow> lb_ok l \<Longrightarrow> lb_more l \<Longrightarrow> \<not> lb_dropping l \<Longrightarrow> 0 < lb_active l \<Longrightarrow> lb_current_pipe l = p \<Longrightarrow>
   can_write (ps p) \<Longrightarrow> sends_ok (ps p) \<Longrightarrow>
   \<exists>l' ps'. lb_send_parts ms l ps = Inr (replicate (length ms) p, l', ps') \<and> lb_ok l' \<and> lb_items l' = lb_items l
     \<and> \<not> lb_more l' \<and> \<not> lb_dropping l'
     \<and> mp_ready (pipe_of (po_out (ps' p))) = all_msgs (po_out (ps p)) @ ms \<and> (\<forall>q. q \<noteq> p \<longrightarrow> same_queues (ps q) (ps' q))"
proof (induction ms arbitrary: l ps)
  case (Cons m ms)
  note prem = Cons.prems
  obtain l1 ps1 where s: "lb_sendpipe m l ps = Inr (None, Some p, l1, ps1)" "lb_written m p l ps l1 ps1"
    using sendpipe_next [OF prem(2-5), of ps m] prem(6,7) by auto
  have w: "lb_ok l1" "lb_items l1 = lb_items l" "\<not> lb_dropping l1" "lb_more l1 = msg_more m" "0 < lb_active l1"
    "msg_more m \<longrightarrow> lb_current_pipe l1 = p" "ps1 p = after_part m (ps p)" "\<forall>q. q \<noteq> p \<longrightarrow> same_queues (ps q) (ps1 q)"
    using s(2) by (simp_all add: lb_written_def)
  note a = after_part_out [OF prem(7,8), of m]
  show ?case
  proof (cases "msg_more m")
    case True
    have "is_message ms" "lb_more l1" "lb_current_pipe l1 = p" "can_write (ps1 p)" "sends_ok (ps1 p)"
      using True prem(1) w a by (simp_all add: is_message_Cons sends_ok_def)
    from Cons.IH [of l1 ps1, OF this(1) w(1) this(2) w(3,5) this(3-5)] obtain l' ps' where
      r: "lb_send_parts ms l1 ps1 = Inr (replicate (length ms) p, l', ps')" "lb_ok l'" "lb_items l' = lb_items l1"
        "\<not> lb_more l'" "\<not> lb_dropping l'"
        "mp_ready (pipe_of (po_out (ps' p))) = all_msgs (po_out (ps1 p)) @ ms"
        "\<forall>q. q \<noteq> p \<longrightarrow> same_queues (ps1 q) (ps' q)" by blast
    have "\<forall>q. q \<noteq> p \<longrightarrow> same_queues (ps q) (ps' q)" using w(8) r(7) same_queues_trans by blast
    then show ?thesis using s(1) r w(2,7) a(1) by auto
  next
    case False
    then have "ms = []" using prem(1) by (simp add: is_message_Cons)
    then show ?thesis using s(1) w a(8) False by auto
  qed
qed simp

text \<open>All parts of a message go to one pipe, and are flushed as one.\<close>

lemma send_message:
  assumes "is_message ms" "lb_ok l" "\<not> lb_more l" "\<not> lb_dropping l" "\<exists>p \<in> lb_active_pipes l. can_write (ps p)"
    "\<forall>p \<in> lb_items l. sends_ok (ps p)"
  shows "\<exists>p l' ps'. lb_send_parts ms l ps = Inr (replicate (length ms) p, l', ps') \<and> p \<in> lb_active_pipes l \<and> can_write (ps p)
     \<and> lb_ok l' \<and> lb_items l' = lb_items l \<and> \<not> lb_more l' \<and> \<not> lb_dropping l'
     \<and> mp_ready (pipe_of (po_out (ps' p))) = all_msgs (po_out (ps p)) @ ms \<and> (\<forall>q. q \<noteq> p \<longrightarrow> same_queues (ps q) (ps' q))"
proof -
  obtain m rest where ms: "ms = m # rest" using assms(1) by (cases ms) auto
  obtain p l1 ps1 where s: "lb_sendpipe m l ps = Inr (None, Some p, l1, ps1)" "lb_written m p l ps l1 ps1"
    using sendpipe_first [OF assms(2-5)] by blast
  have w: "lb_ok l1" "lb_items l1 = lb_items l" "\<not> lb_dropping l1" "lb_more l1 = msg_more m" "0 < lb_active l1"
    "msg_more m \<longrightarrow> lb_current_pipe l1 = p" "ps1 p = after_part m (ps p)" "\<forall>q. q \<noteq> p \<longrightarrow> same_queues (ps q) (ps1 q)"
    "can_write (ps p)" "p \<in> lb_active_pipes l"
    using s(2) by (auto simp: lb_written_def)
  have "p \<in> lb_items l" using w(10) by (auto simp: lb_active_pipes_def active_pipes_def dest: in_set_takeD)
  then have so: "sends_ok (ps p)" using assms(6) by blast
  note a = after_part_out [OF w(9) so, of m]
  show ?thesis
  proof (cases "msg_more m")
    case True
    have "is_message rest" "lb_more l1" "lb_current_pipe l1 = p" "can_write (ps1 p)" "sends_ok (ps1 p)"
      using True assms(1) w a ms by (simp_all add: is_message_Cons sends_ok_def)
    from send_rest [where ps = ps1, OF this(1) w(1) this(2) w(3,5) this(3-5)] obtain l' ps' where
      r: "lb_send_parts rest l1 ps1 = Inr (replicate (length rest) p, l', ps')" "lb_ok l'" "lb_items l' = lb_items l1"
        "\<not> lb_more l'" "\<not> lb_dropping l'"
        "mp_ready (pipe_of (po_out (ps' p))) = all_msgs (po_out (ps1 p)) @ rest"
        "\<forall>q. q \<noteq> p \<longrightarrow> same_queues (ps1 q) (ps' q)" by blast
    have "\<forall>q. q \<noteq> p \<longrightarrow> same_queues (ps q) (ps' q)" using w(8) r(7) same_queues_trans by blast
    then show ?thesis using s(1) r w a(1) ms by auto
  next
    case False
    then have "rest = []" using assms(1) ms by (simp add: is_message_Cons)
    then show ?thesis using s(1) w a(8) False ms by auto
  qed
qed

end
