(* ===== verification/Zmq_Fair_Queue.thy ===== *)
theory Zmq_Fair_Queue
  imports Zmq_Balance_Inv
begin

section \<open>Fair queueing\<close>

text \<open>
  What \<open>fq_t\<close> delivers: the message a port offers is the first in its pipe that is no
  credential; \<open>recvpipe\<close> takes one from an active pipe that offers one, goes on from pipe to pipe
  after the last part, and fails only when no active pipe offers anything.
\<close>

subsection \<open>What a port offers\<close>

definition reads_ok :: "port \<Rightarrow> bool" where
  "reads_ok q \<longleftrightarrow> end_ok (po_end q) \<and> pe_alive (po_end q) \<and> in_ok (po_in q)"

definition after_credentials :: "port \<Rightarrow> zmsg list" where
  "after_credentials q = dropWhile msg_credential (mp_ready (pipe_of (po_in q)))"

definition offered :: "port \<Rightarrow> zmsg option" where
  "offered q =
     (if \<not> may_read (po_end q) then None
      else case after_credentials q of [] \<Rightarrow> None | m # ms \<Rightarrow> if msg_delimiter m then None else Some m)"

lemma op_ok_ends: "op_ok e e' cs \<Longrightarrow> end_ok e' \<and> pe_alive e' = pe_alive e"
  by (simp add: op_ok_def)

lemma read_effect_in_ok:
  assumes "in_ok y" "read_effect e y e' y' cs"
  shows "in_ok y'"
proof -
  obtain taken where t: "mp_ready (pipe_of y) = taken @ mp_ready (pipe_of y')" using assms(2) by (auto simp: read_effect_def)
  have "all_msgs y = taken @ all_msgs y'" using t assms(2) by (simp add: all_msgs_def read_effect_def)
  then show ?thesis using assms by (auto simp: in_ok_def read_effect_def)
qed

lemma read_msg_plain:
  "pipe_read_msg m (e\<lparr>pe_credential := c\<rparr>) y = Inr (v, e', y', cs) \<Longrightarrow> \<not> msg_delimiter m \<Longrightarrow>
     v = Some m \<and> y' = y \<and> may_read e' = may_read e"
  by (cases "msg_more m"; cases "msg_identity m") (auto simp: pipe_read_msg_def Let_def may_read_def)

text \<open>Reading does not touch what writing depends on, but for the state.\<close>

definition writer_fields :: "pipe_end \<Rightarrow> bool \<times> int \<times> nat \<times> nat" where
  "writer_fields e = (pe_out_active e, pe_hwm e, pe_msgs_written e, pe_peers_msgs_read e)"

lemma delimiter_writer_fields: "process_delimiter e = Inr (e', cs) \<Longrightarrow> writer_fields e' = writer_fields e"
  by (auto simp: process_delimiter_def check_def writer_fields_def split: if_splits)

lemma read_loop_writer_fields:
  "pipe_read_loop fuel e y = Inr (v, e', y', cs) \<Longrightarrow> writer_fields e' = writer_fields e"
proof (induction fuel e y rule: pipe_read_loop.induct)
  case (2 fuel e y)
  obtain r y1 where r: "ypipe_read y = (r, y1)" by (cases "ypipe_read y")
  show ?case
  proof (cases r)
    case None
    then show ?thesis using 2 r by (auto simp: writer_fields_def)
  next
    case (Some m)
    show ?thesis
    proof (cases "msg_credential m")
      case True
      then have "writer_fields e' = writer_fields (e\<lparr>pe_credential := msg_data m\<rparr>)" using 2 r Some by auto
      then show ?thesis by (simp add: writer_fields_def)
    next
      case False
      then have m: "pipe_read_msg m e y1 = Inr (v, e', y', cs)" using 2 r Some by simp
      show ?thesis
      proof (cases "msg_delimiter m")
        case True
        then have "process_delimiter e = Inr (e', cs)" using m by (auto simp: pipe_read_msg_def outcome_simps)
        then show ?thesis by (rule delimiter_writer_fields)
      next
        case False
        then have "e' = (if \<not> msg_more m \<and> \<not> msg_identity m then e\<lparr>pe_msgs_read := pe_msgs_read e + 1\<rparr> else e)"
          using m unfolding pipe_read_msg_def Let_def by simp
        then show ?thesis by (simp add: writer_fields_def)
      qed
    qed
  qed
qed simp

lemma read_writer_fields: "pipe_read e y = Inr (v, e', y', cs) \<Longrightarrow> writer_fields e' = writer_fields e"
  using read_loop_writer_fields by (auto simp: pipe_read_def simp del: pipe_read_loop.simps split: if_splits)

lemma port_read_spec:
  assumes "reads_ok q"
  shows "\<exists>q'. port_read q = Inr (offered q, q') \<and> reads_ok q' \<and> po_out q' = po_out q \<and> po_identity q' = po_identity q
     \<and> (offered q \<noteq> None \<longrightarrow> after_credentials q = the (offered q) # mp_ready (pipe_of (po_in q'))
          \<and> may_read (po_end q'))
     \<and> (\<exists>taken. mp_ready (pipe_of (po_in q)) = taken @ mp_ready (pipe_of (po_in q')))
     \<and> (can_write q \<and> \<not> has_delimiter (mp_ready (pipe_of (po_in q))) \<longrightarrow> can_write q')"
proof -
  have r: "end_ok (po_end q)" "pe_alive (po_end q)" "in_ok (po_in q)" using assms by (simp_all add: reads_ok_def)
  obtain v e' y' cs where p: "pipe_read (po_end q) (po_in q) = Inr (v, e', y', cs)" "read_effect (po_end q) (po_in q) e' y' cs"
    using pipe_read_effect [OF r] by (elim exE conjE)
  let ?q = "q\<lparr>po_end := e', po_in := y', po_sent := po_sent q @ cs\<rparr>"
  have pr: "port_read q = Inr (v, ?q)" using p(1) by (simp add: port_read_def)
  have "op_ok (po_end q) e' cs" using p(2) by (simp add: read_effect_def)
  then have ok: "reads_ok ?q"
    using r op_ok_ends read_effect_in_ok [OF r(3) p(2)] by (simp add: reads_ok_def)
  have "v = offered q \<and> (offered q \<noteq> None \<longrightarrow> after_credentials q = the (offered q) # mp_ready (pipe_of y') \<and> may_read e')"
  proof (cases "may_read (po_end q)")
    case False
    then show ?thesis using p(1) by (simp add: pipe_read_def offered_def)
  next
    case True
    have loop: "pipe_read_loop (Suc (yp_back (po_in q))) (po_end q) (po_in q) = Inr (v, e', y', cs)"
      using p(1) True by (simp add: pipe_read_def)
    have a: "ypipe_ok (po_in q)" using r(3) by (simp add: in_ok_def)
    have b: "length (mp_ready (pipe_of (po_in q))) < Suc (yp_back (po_in q))"
      using ready_le_back [of "po_in q"] by simp
    from read_loop_spec [OF a b, of "po_end q"] obtain y1 where y1: "case after_credentials q of
           [] \<Rightarrow> mp_ready (pipe_of y1) = [] \<and> mp_asleep (pipe_of y1)
              \<and> pipe_read_loop (Suc (yp_back (po_in q))) (po_end q) (po_in q)
                 = Inr (None, (po_end q)\<lparr>pe_credential := credentials (mp_ready (pipe_of (po_in q))) (pe_credential (po_end q)),
                                pe_in_active := False\<rparr>, y1, [])
         | m # ms \<Rightarrow> mp_ready (pipe_of y1) = ms \<and> mp_asleep (pipe_of y1) = mp_asleep (pipe_of (po_in q))
              \<and> pipe_read_loop (Suc (yp_back (po_in q))) (po_end q) (po_in q)
                 = pipe_read_msg m ((po_end q)\<lparr>pe_credential :=
                     credentials (mp_ready (pipe_of (po_in q))) (pe_credential (po_end q))\<rparr>) y1"
      unfolding after_credentials_def
      by (elim exE conjE)
    show ?thesis
    proof (cases "after_credentials q")
      case Nil
      then show ?thesis using y1 loop True by (simp add: offered_def)
    next
      case (Cons m ms)
      then have m: "pipe_read_msg m ((po_end q)\<lparr>pe_credential :=
            credentials (mp_ready (pipe_of (po_in q))) (pe_credential (po_end q))\<rparr>) y1 = Inr (v, e', y', cs)"
        and ms: "mp_ready (pipe_of y1) = ms" using y1 loop by simp_all
      show ?thesis
      proof (cases "msg_delimiter m")
        case True
        then have "v = None" using m by (auto simp: pipe_read_msg_def outcome_simps)
        then show ?thesis using True Cons by (simp add: offered_def)
      next
        case False
        have "v = Some m" "y' = y1" "may_read e' = may_read (po_end q)" using read_msg_plain [OF m False] by simp_all
        then show ?thesis using False Cons ms True by (simp add: offered_def)
      qed
    qed
  qed
  moreover have "\<exists>taken. mp_ready (pipe_of (po_in q)) = taken @ mp_ready (pipe_of y')"
    using p(2) unfolding read_effect_def by blast
  moreover have "can_write ?q" if "can_write q" "\<not> has_delimiter (mp_ready (pipe_of (po_in q)))"
  proof -
    obtain taken where t: "mp_ready (pipe_of (po_in q)) = taken @ mp_ready (pipe_of y')"
        "if has_delimiter taken
         then pe_state (po_end q) \<in> {P_active, P_waiting_for_delimiter}
            \<and> pe_state e' = (if pe_state (po_end q) = P_active then P_delimiter_received else P_term_ack_sent)
         else pe_state e' = pe_state (po_end q)"
      using p(2) by (auto simp: read_effect_def)
    then have "pe_state e' = pe_state (po_end q)" using that(2) by simp
    then show ?thesis using that(1) read_writer_fields [OF p(1)] by (simp add: can_write_iff writer_fields_def pipe_full_def)
  qed
  ultimately show ?thesis using pr ok by (intro exI [of _ ?q]) simp
qed


subsection \<open>The array of inbound pipes\<close>

abbreviation fq_items :: "fq \<Rightarrow> nat set" where
  "fq_items f \<equiv> set (pa_items (fq_pipes f))"

definition fq_active_pipes :: "fq \<Rightarrow> nat set" where
  "fq_active_pipes f = active_pipes (fq_pipes f) (fq_active f)"

definition fq_current_pipe :: "fq \<Rightarrow> nat" where
  "fq_current_pipe f = pa_items (fq_pipes f) ! fq_current f"

definition fq_ok :: "fq \<Rightarrow> bool" where
  "fq_ok f \<longleftrightarrow> ring_ok (fq_pipes f) (fq_active f) (fq_current f)"

lemma fq_new_ok: "fq_ok fq_new"
  by (simp add: fq_ok_def fq_new_def ring_ok_def array_new_ok)

lemma fq_activated_ok:
  assumes "fq_ok f" "p \<in> fq_items f" "p \<notin> fq_active_pipes f"
  shows "\<exists>f'. fq_activated p f = Inr f' \<and> fq_ok f' \<and> fq_items f' = fq_items f
     \<and> fq_active_pipes f' = insert p (fq_active_pipes f) \<and> fq_more f' = fq_more f"
proof -
  obtain i a' where "array_index p (fq_pipes f) = Inr i" "array_swap i (fq_active f) (fq_pipes f) = Inr a'"
      "ring_ok a' (fq_active f + 1) (fq_current f)" "set (pa_items a') = fq_items f"
      "active_pipes a' (fq_active f + 1) = insert p (fq_active_pipes f)"
    using ring_activate [OF assms(1) [unfolded fq_ok_def] assms(2) assms(3) [unfolded fq_active_pipes_def]]
    unfolding fq_active_pipes_def by (elim exE conjE)
  then show ?thesis by (simp add: fq_activated_def fq_ok_def fq_active_pipes_def)
qed

text \<open>\<open>attach\<close> swaps the other way round than \<open>activated\<close>, with the same result.\<close>

lemma array_swap_sym:
  assumes "array_ok a" "i < length (pa_items a)" "j < length (pa_items a)"
  shows "array_swap i j a = array_swap j i a"
proof (cases "i = j")
  case False
  then have "pa_items a ! i \<noteq> pa_items a ! j" using assms by (simp add: array_ok_def nth_eq_iff_index_eq)
  then show ?thesis using assms False by (simp add: array_swap_def Let_def list_update_swap fun_upd_twist)
qed simp

lemma fq_attach_ok:
  assumes "fq_ok f" "p \<notin> fq_items f"
  shows "\<exists>f'. fq_attach p f = Inr f' \<and> fq_ok f' \<and> fq_items f' = insert p (fq_items f)
     \<and> fq_active_pipes f' = insert p (fq_active_pipes f) \<and> fq_more f' = fq_more f"
proof -
  let ?a = "array_push_back p (fq_pipes f)"
  let ?f = "f\<lparr>fq_pipes := ?a\<rparr>"
  have r: "fq_ok ?f" "fq_items ?f = insert p (fq_items f)" "fq_active_pipes ?f = fq_active_pipes f"
    using ring_push [OF assms(1) [unfolded fq_ok_def] assms(2)] by (simp_all add: fq_ok_def fq_active_pipes_def)
  have n: "p \<notin> fq_active_pipes ?f" unfolding r(3) using assms(2)
    by (auto simp: fq_active_pipes_def active_pipes_def dest: in_set_takeD)
  obtain f' where f': "fq_activated p ?f = Inr f'" "fq_ok f'" "fq_items f' = fq_items ?f"
      "fq_active_pipes f' = insert p (fq_active_pipes ?f)" "fq_more f' = fq_more f"
    using fq_activated_ok [OF r(1) _ n] r(2) by auto
  have ok: "array_ok ?a" "fq_active f < length (pa_items ?a)"
    using r(1) assms(1) by (auto simp: fq_ok_def ring_ok_def array_push_back_def)
  have "array_index p ?a = Inr (length (pa_items (fq_pipes f)))" by (simp add: array_index_def array_push_back_def)
  moreover have "array_swap (fq_active f) (length (pa_items ?a) - 1) ?a = array_swap (length (pa_items (fq_pipes f))) (fq_active f) ?a"
    using array_swap_sym [OF ok(1) _ ok(2), of "length (pa_items (fq_pipes f))"] by (simp add: array_push_back_def)
  ultimately have "fq_attach p f = fq_activated p ?f" by (simp add: fq_attach_def fq_activated_def Let_def)
  then show ?thesis using f' r by simp
qed

lemma fq_deactivate_ok:
  assumes "fq_ok f" "0 < fq_active f"
  shows "\<exists>f'. fq_deactivate f = Inr f' \<and> fq_ok f' \<and> fq_items f' = fq_items f
     \<and> fq_active_pipes f' = fq_active_pipes f - {fq_current_pipe f} \<and> fq_more f' = fq_more f"
proof -
  have "fq_current f < fq_active f" using assms by (simp add: fq_ok_def ring_ok_def)
  from ring_swap_out [OF assms(1) [unfolded fq_ok_def] this] show ?thesis
    by (auto simp: fq_deactivate_def Let_def fq_ok_def fq_active_pipes_def fq_current_pipe_def)
qed

lemma fq_pipe_terminated_ok:
  assumes "fq_ok f" "p \<in> fq_items f"
  shows "\<exists>f'. fq_pipe_terminated p f ps = Inr f' \<and> fq_ok f' \<and> fq_items f' = fq_items f - {p}
     \<and> fq_active_pipes f' = fq_active_pipes f - {p} \<and> fq_more f' = fq_more f \<and> fq_last_in f' \<noteq> Some p
     \<and> fq_get_credential f' ps = fq_get_credential f ps"
proof -
  have r: "ring_ok (fq_pipes f) (fq_active f) (fq_current f)" using assms(1) by (simp add: fq_ok_def)
  then have ok: "array_ok (fq_pipes f)" "fq_active f \<le> length (pa_items (fq_pipes f))" by (simp_all add: ring_ok_def)
  obtain i where i: "i < length (pa_items (fq_pipes f))" "pa_items (fq_pipes f) ! i = p" "array_index p (fq_pipes f) = Inr i"
    using array_position [OF ok(1) assms(2)] by blast
  show ?thesis
  proof (cases "i < fq_active f")
    case True
    obtain a' where a': "array_swap i (fq_active f - 1) (fq_pipes f) = Inr a'"
        "ring_ok a' (fq_active f - 1) (if fq_current f = fq_active f - 1 then 0 else fq_current f)"
        "set (pa_items a') = fq_items f" "active_pipes a' (fq_active f - 1) = fq_active_pipes f - {p}"
      using ring_swap_out [OF r True] i(2) unfolding fq_active_pipes_def by (elim exE conjE) simp
    have "p \<in> set (pa_items a')" "p \<notin> active_pipes a' (fq_active f - 1)" using a'(3,4) assms(2) by simp_all
    from ring_erase [OF a'(2) this] obtain b where b: "array_erase p a' = Inr b"
        "ring_ok b (fq_active f - 1) (if fq_current f = fq_active f - 1 then 0 else fq_current f)"
        "set (pa_items b) = set (pa_items a') - {p}" "take (fq_active f - 1) (pa_items b) = take (fq_active f - 1) (pa_items a')"
      by blast
    show ?thesis
      using True i(3) a' b
      by (auto simp: fq_pipe_terminated_def Let_def fq_ok_def fq_active_pipes_def active_pipes_def fq_get_credential_def
          split: option.splits)
  next
    case False
    then have np: "p \<notin> active_pipes (fq_pipes f) (fq_active f)" using active_at [OF ok(1) i(1) ok(2)] i(2) by simp
    from ring_erase [OF r assms(2) this] obtain b where b: "array_erase p (fq_pipes f) = Inr b"
        "ring_ok b (fq_active f) (fq_current f)" "set (pa_items b) = fq_items f - {p}"
        "take (fq_active f) (pa_items b) = take (fq_active f) (pa_items (fq_pipes f))"
      by blast
    show ?thesis
      using False i(3) b np
      by (auto simp: fq_pipe_terminated_def Let_def fq_ok_def fq_active_pipes_def active_pipes_def fq_get_credential_def
          split: option.splits)
  qed
qed


subsection \<open>Receiving\<close>

definition took :: "fq \<Rightarrow> ports \<Rightarrow> (zmsg \<times> nat) option \<Rightarrow> fq \<Rightarrow> ports \<Rightarrow> bool" where
  "took f ps r f' ps' \<longleftrightarrow>
     fq_ok f' \<and> fq_items f' = fq_items f \<and> fq_active_pipes f' \<subseteq> fq_active_pipes f
   \<and> (\<forall>q \<in> fq_active_pipes f - fq_active_pipes f'. offered (ps q) = None)
   \<and> (\<forall>q \<in> fq_items f. reads_ok (ps' q))
   \<and> (\<forall>q. po_out (ps' q) = po_out (ps q) \<and> po_identity (ps' q) = po_identity (ps q))
   \<and> (\<forall>q. \<exists>taken. mp_ready (pipe_of (po_in (ps q))) = taken @ mp_ready (pipe_of (po_in (ps' q))))
   \<and> (\<forall>q. can_write (ps q) \<and> \<not> has_delimiter (mp_ready (pipe_of (po_in (ps q)))) \<longrightarrow> can_write (ps' q))
   \<and> (\<forall>q. q \<notin> fq_active_pipes f - fq_active_pipes f' \<and> Some q \<noteq> map_option snd r \<longrightarrow> ps' q = ps q)
   \<and> (case r of
        None \<Rightarrow> fq_active f' = 0 \<and> \<not> fq_more f'
      | Some (m, p) \<Rightarrow> p \<in> fq_active_pipes f' \<and> offered (ps p) = Some m \<and> fq_more f' = msg_more m
          \<and> (msg_more m \<longrightarrow> fq_current_pipe f' = p) \<and> 0 < fq_active f' \<and> (\<not> msg_more m \<longrightarrow> fq_last_in f' = Some p)
          \<and> after_credentials (ps p) = m # mp_ready (pipe_of (po_in (ps' p))) \<and> may_read (po_end (ps' p)))"

lemma fq_current_active:
  "fq_ok f \<Longrightarrow> 0 < fq_active f \<Longrightarrow> array_at (fq_current f) (fq_pipes f) = Inr (fq_current_pipe f) \<and> fq_current_pipe f \<in> fq_active_pipes f"
  using ring_current by (simp add: fq_ok_def fq_current_pipe_def fq_active_pipes_def)

lemma active_in_items: "fq_active_pipes f \<subseteq> fq_items f"
  by (auto simp: fq_active_pipes_def active_pipes_def dest: in_set_takeD)

lemma took_now:
  assumes f: "fq_ok f" "\<forall>p \<in> fq_items f. reads_ok (ps p)" "0 < fq_active f" "offered (ps (fq_current_pipe f)) = Some m"
  shows "\<exists>f' ps'. fq_recvpipe f ps = Inr (Some (m, fq_current_pipe f), f', ps') \<and> took f ps (Some (m, fq_current_pipe f)) f' ps'
     \<and> fq_pipes f' = fq_pipes f \<and> fq_active f' = fq_active f
     \<and> (\<not> msg_more m \<longrightarrow> fq_current f' = (fq_current f + 1) mod fq_active f)"
proof -
  let ?p = "fq_current_pipe f"
  have c: "array_at (fq_current f) (fq_pipes f) = Inr ?p" "?p \<in> fq_active_pipes f"
    using fq_current_active [OF f(1,3)] by simp_all
  have "reads_ok (ps ?p)" using c(2) f(2) active_in_items by blast
  from port_read_spec [OF this] obtain q where
    q: "port_read (ps ?p) = Inr (Some m, q)" "reads_ok q" "po_out q = po_out (ps ?p)" "po_identity q = po_identity (ps ?p)"
      "after_credentials (ps ?p) = m # mp_ready (pipe_of (po_in q))" "may_read (po_end q)"
      "\<exists>taken. mp_ready (pipe_of (po_in (ps ?p))) = taken @ mp_ready (pipe_of (po_in q))"
      "can_write (ps ?p) \<and> \<not> has_delimiter (mp_ready (pipe_of (po_in (ps ?p)))) \<longrightarrow> can_write q"
    unfolding f(4) by auto
  define f1 where "f1 = f\<lparr>fq_more := msg_more m\<rparr>"
  define f' where "f' = (if \<not> msg_more m then f1\<lparr>fq_last_in := Some ?p, fq_current := (fq_current f1 + 1) mod fq_active f1\<rparr> else f1)"
  have run: "fq_recvpipe f ps = Inr (Some (m, ?p), f', ps(?p := q))"
    using c(1) q(1) f(3) by (subst fq_recvpipe.simps) (simp add: Let_def f'_def f1_def)
  have f': "fq_pipes f' = fq_pipes f" "fq_active f' = fq_active f" "fq_more f' = msg_more m"
    "msg_more m \<longrightarrow> fq_current f' = fq_current f" "\<not> msg_more m \<longrightarrow> fq_last_in f' = Some ?p"
    "\<not> msg_more m \<longrightarrow> fq_current f' = (fq_current f + 1) mod fq_active f"
    by (simp_all add: f'_def f1_def)
  have "fq_current f' < fq_active f"
    using f' f(1,3) by (cases "msg_more m") (simp_all add: fq_ok_def ring_ok_def)
  then have "fq_ok f'" using f(1,3) f'(1,2) by (simp add: fq_ok_def ring_ok_def)
  moreover have "fq_active_pipes f' = fq_active_pipes f" by (simp add: fq_active_pipes_def f')
  ultimately have "took f ps (Some (m, ?p)) f' (ps(?p := q))"
    using f c(2) q f' by (simp add: took_def fq_current_pipe_def)
  then show ?thesis using run f'(1,2,6) by blast
qed

lemma took_later:
  assumes t: "took f1 (ps(p := q)) r f' ps'"
    and f1: "fq_items f1 = fq_items f" "fq_active_pipes f1 = fq_active_pipes f - {p}"
    and p: "p \<in> fq_active_pipes f" "offered (ps p) = None" "po_out q = po_out (ps p)" "po_identity q = po_identity (ps p)"
      "\<exists>taken. mp_ready (pipe_of (po_in (ps p))) = taken @ mp_ready (pipe_of (po_in q))"
      "can_write (ps p) \<and> \<not> has_delimiter (mp_ready (pipe_of (po_in (ps p)))) \<longrightarrow> can_write q"
  shows "took f ps r f' ps'"
proof -
  have a: "fq_ok f'" "fq_items f' = fq_items f" "fq_active_pipes f' \<subseteq> fq_active_pipes f" "p \<notin> fq_active_pipes f'"
    "\<forall>x \<in> fq_items f. reads_ok (ps' x)"
    using t f1 by (auto simp: took_def)
  have b: "offered (ps x) = None" if "x \<in> fq_active_pipes f - fq_active_pipes f'" for x
  proof (cases "x = p")
    case False
    then have "x \<in> fq_active_pipes f1 - fq_active_pipes f'" using that f1(2) by simp
    then have "offered ((ps(p := q)) x) = None" using t unfolding took_def by blast
    then show ?thesis using False by simp
  qed (use p in simp)
  have c: "po_out (ps' x) = po_out (ps x) \<and> po_identity (ps' x) = po_identity (ps x)" for x
  proof -
    have "po_out (ps' x) = po_out ((ps(p := q)) x) \<and> po_identity (ps' x) = po_identity ((ps(p := q)) x)"
      using t unfolding took_def by blast
    then show ?thesis using p by (cases "x = p") simp_all
  qed
  have e: "\<exists>taken. mp_ready (pipe_of (po_in (ps x))) = taken @ mp_ready (pipe_of (po_in (ps' x)))" for x
  proof -
    have t': "\<exists>taken. mp_ready (pipe_of (po_in ((ps(p := q)) x))) = taken @ mp_ready (pipe_of (po_in (ps' x)))"
      using t unfolding took_def by blast
    show ?thesis
    proof (cases "x = p")
      case True
      then show ?thesis using t' p(5) by (metis append.assoc fun_upd_same)
    qed (use t' in simp)
  qed
  have g: "can_write (ps' x)" if "can_write (ps x)" "\<not> has_delimiter (mp_ready (pipe_of (po_in (ps x))))" for x
  proof -
    have t': "can_write ((ps(p := q)) x) \<and> \<not> has_delimiter (mp_ready (pipe_of (po_in ((ps(p := q)) x)))) \<longrightarrow> can_write (ps' x)"
      using t unfolding took_def by blast
    show ?thesis
    proof (cases "x = p")
      case True
      then have "\<not> has_delimiter (mp_ready (pipe_of (po_in q)))" using that(2) p(5) by auto
      then show ?thesis using True that t' p(6) by simp
    qed (use that t' in simp)
  qed
  have d: "ps' x = ps x" if "x \<notin> fq_active_pipes f - fq_active_pipes f'" "Some x \<noteq> map_option snd r" for x
  proof -
    have "x \<noteq> p" "x \<notin> fq_active_pipes f1 - fq_active_pipes f'" using that f1(2) p(1) a(4) by auto
    then have "ps' x = (ps(p := q)) x" using t that(2) unfolding took_def by blast
    then show ?thesis using \<open>x \<noteq> p\<close> by simp
  qed
  have "case r of None \<Rightarrow> fq_active f' = 0 \<and> \<not> fq_more f'
      | Some (m, x) \<Rightarrow> x \<in> fq_active_pipes f' \<and> offered (ps x) = Some m \<and> fq_more f' = msg_more m
          \<and> (msg_more m \<longrightarrow> fq_current_pipe f' = x) \<and> 0 < fq_active f' \<and> (\<not> msg_more m \<longrightarrow> fq_last_in f' = Some x)
          \<and> after_credentials (ps x) = m # mp_ready (pipe_of (po_in (ps' x))) \<and> may_read (po_end (ps' x))"
  proof (cases r)
    case (Some mx)
    obtain m x where mx: "mx = (m, x)" by (cases mx)
    have "x \<in> fq_active_pipes f'" using t Some mx by (simp add: took_def)
    then have "x \<noteq> p" using a(4) by blast
    then show ?thesis using t Some mx by (simp add: took_def)
  qed (use t in \<open>simp add: took_def\<close>)
  then show ?thesis unfolding took_def using a b c d e g by blast
qed

lemma fq_recv_spec:
  "fq_ok f \<Longrightarrow> \<forall>p \<in> fq_items f. reads_ok (ps p) \<Longrightarrow> (fq_more f \<longrightarrow> 0 < fq_active f \<and> offered (ps (fq_current_pipe f)) \<noteq> None) \<Longrightarrow>
     \<exists>r f' ps'. fq_recvpipe f ps = Inr (r, f', ps') \<and> took f ps r f' ps'"
proof (induction "fq_active f" arbitrary: f ps)
  case 0
  then have "fq_recvpipe f ps = Inr (None, f, ps)" by (subst fq_recvpipe.simps) simp
  then show ?case using 0 by (simp add: took_def)
next
  case (Suc n)
  let ?p = "fq_current_pipe f"
  have pos: "0 < fq_active f" using Suc.hyps(2) by simp
  show ?case
  proof (cases "offered (ps ?p)")
    case (Some m)
    then show ?thesis using took_now [OF Suc.prems(1,2) pos Some] by blast
  next
    case None
    then have nm: "\<not> fq_more f" using Suc.prems(3) by blast
    have c: "array_at (fq_current f) (fq_pipes f) = Inr ?p" "?p \<in> fq_active_pipes f"
      using fq_current_active [OF Suc.prems(1) pos] by simp_all
    have "reads_ok (ps ?p)" using c(2) Suc.prems(2) active_in_items by blast
    from port_read_spec [OF this] obtain q where
      q: "port_read (ps ?p) = Inr (None, q)" "reads_ok q" "po_out q = po_out (ps ?p)" "po_identity q = po_identity (ps ?p)"
        "\<exists>taken. mp_ready (pipe_of (po_in (ps ?p))) = taken @ mp_ready (pipe_of (po_in q))"
        "can_write (ps ?p) \<and> \<not> has_delimiter (mp_ready (pipe_of (po_in (ps ?p)))) \<longrightarrow> can_write q"
      unfolding None by blast
    obtain f1 where f1: "fq_deactivate f = Inr f1" "fq_ok f1" "fq_items f1 = fq_items f"
        "fq_active_pipes f1 = fq_active_pipes f - {?p}" "fq_more f1 = fq_more f"
      using fq_deactivate_ok [OF Suc.prems(1) pos] by blast
    have "n = fq_active f1" using fq_deactivate_active [OF f1(1)] Suc.hyps(2) by simp
    moreover have "\<forall>p \<in> fq_items f1. reads_ok ((ps(?p := q)) p)" using f1(3) Suc.prems(2) q(2) by simp
    ultimately obtain r f' ps' where r: "fq_recvpipe f1 (ps(?p := q)) = Inr (r, f', ps')" "took f1 (ps(?p := q)) r f' ps'"
      using Suc.hyps(1) [OF _ f1(2), of "ps(?p := q)"] f1(5) nm by blast
    have "fq_recvpipe f ps = Inr (r, f', ps')"
      using c(1) q(1) pos nm f1(1) r(1) by (subst fq_recvpipe.simps) simp
    moreover have "took f ps r f' ps'" by (rule took_later [OF r(2) f1(3,4) c(2) None q(3,4,5,6)])
    ultimately show ?thesis by blast
  qed
qed


subsection \<open>Fairness\<close>

fun fq_recv_many :: "nat \<Rightarrow> fq \<Rightarrow> ports \<Rightarrow> (nat list \<times> fq \<times> ports) outcome" where
  "fq_recv_many 0 f ps = Inr ([], f, ps)"
| "fq_recv_many (Suc k) f ps =
     and_then (fq_recvpipe f ps) (\<lambda>(r, f1, ps1).
       case r of None \<Rightarrow> Inl Waits
       | Some (m, p) \<Rightarrow> and_then (fq_recv_many k f1 ps1) (\<lambda>(pipes, f2, ps2). Inr (p # pipes, f2, ps2)))"

definition fq_turn :: "fq \<Rightarrow> nat \<Rightarrow> nat" where
  "fq_turn f i = pa_items (fq_pipes f) ! ((fq_current f + i) mod fq_active f)"

lemma turn_mod:
  assumes "(c + i) mod n = (c + j) mod n" "c < n" "i < n" "j < (n::nat)"
  shows "i = j"
proof -
  have "(c + k) mod n = (if c + k < n then c + k else c + k - n)" if "k < n" for k
    using that assms(2) by (simp add: mod_if)
  then show ?thesis using assms by (auto split: if_splits)
qed

lemma fq_turn_inj:
  assumes "fq_ok f" "i < fq_active f" "j < fq_active f" "fq_turn f i = fq_turn f j"
  shows "i = j"
proof -
  have d: "distinct (pa_items (fq_pipes f))" "fq_active f \<le> length (pa_items (fq_pipes f))" "0 < fq_active f"
    using assms by (auto simp: fq_ok_def ring_ok_def array_ok_def)
  have "(fq_current f + i) mod fq_active f < length (pa_items (fq_pipes f))"
    "(fq_current f + j) mod fq_active f < length (pa_items (fq_pipes f))"
    using d(2,3) by (meson mod_less_divisor order_less_le_trans)+
  then have "(fq_current f + i) mod fq_active f = (fq_current f + j) mod fq_active f"
    using assms(4) d(1) by (simp add: fq_turn_def nth_eq_iff_index_eq)
  moreover have "fq_current f < fq_active f" using assms(1) d(3) by (simp add: fq_ok_def ring_ok_def)
  ultimately show ?thesis using turn_mod assms(2,3) by blast
qed

lemma fq_round:
  "fq_ok f \<Longrightarrow> \<forall>p \<in> fq_items f. reads_ok (ps p) \<Longrightarrow> k \<le> fq_active f \<Longrightarrow>
   \<forall>i < k. \<exists>m. offered (ps (fq_turn f i)) = Some m \<and> \<not> msg_more m \<Longrightarrow>
     \<exists>f' ps'. fq_recv_many k f ps = Inr (map (fq_turn f) [0..<k], f', ps')"
proof (induction k arbitrary: f ps)
  case (Suc k)
  have pos: "0 < fq_active f" using Suc.prems(3) by simp
  have cur: "fq_turn f 0 = fq_current_pipe f"
    using Suc.prems(1) pos by (simp add: fq_turn_def fq_current_pipe_def fq_ok_def ring_ok_def)
  obtain m where m: "offered (ps (fq_current_pipe f)) = Some m" "\<not> msg_more m"
    using Suc.prems(4) cur by (metis zero_less_Suc)
  obtain f1 ps1 where r: "fq_recvpipe f ps = Inr (Some (m, fq_current_pipe f), f1, ps1)"
      "took f ps (Some (m, fq_current_pipe f)) f1 ps1" "fq_pipes f1 = fq_pipes f" "fq_active f1 = fq_active f"
      "fq_current f1 = (fq_current f + 1) mod fq_active f"
    using took_now [OF Suc.prems(1,2) pos m(1)] m(2) by blast
  have turn: "fq_turn f1 i = fq_turn f (Suc i)" for i
    using r(3-5) by (simp add: fq_turn_def mod_simps)
  have "ps1 (fq_turn f (Suc i)) = ps (fq_turn f (Suc i))" if "i < k" for i
  proof -
    have "fq_turn f (Suc i) \<noteq> fq_turn f 0" using fq_turn_inj [OF Suc.prems(1), of "Suc i" 0] that Suc.prems(3) pos by auto
    moreover have "fq_active_pipes f1 = fq_active_pipes f" using r(3,4) by (simp add: fq_active_pipes_def)
    ultimately show ?thesis using r(2) cur by (simp add: took_def)
  qed
  then have "\<forall>i < k. \<exists>m. offered (ps1 (fq_turn f1 i)) = Some m \<and> \<not> msg_more m" using Suc.prems(4) turn by simp
  moreover have "fq_ok f1" "\<forall>p \<in> fq_items f1. reads_ok (ps1 p)" "k \<le> fq_active f1"
    using r(2,4) Suc.prems(3) by (simp_all add: took_def)
  ultimately obtain f' ps' where "fq_recv_many k f1 ps1 = Inr (map (fq_turn f1) [0..<k], f', ps')" using Suc.IH by blast
  moreover have "fq_current_pipe f # map (fq_turn f1) [0..<k] = map (fq_turn f) [0..<Suc k]"
    using turn cur by (simp add: map_upt_Suc del: upt_Suc)
  ultimately show ?case using r(1) by simp
qed simp

end
