(* ===== verification/Zmq_Sockets_Inv.thy ===== *)
theory Zmq_Sockets_Inv
  imports Zmq_Fair_Queue Zmq_Router
begin

section \<open>Whole messages through the sockets\<close>

text \<open>
  A pipe is flushed only at the end of a message, so what a reader finds are whole messages
  (\<open>whole\<close>), and after a part that is followed by others the next one is there. Under this
  invariant no assertion of \<open>fq_t\<close> fails and every receiving loop ends.
\<close>

fun whole :: "zmsg list \<Rightarrow> bool" where
  "whole [] = True"
| "whole (m # ms) =
     (whole ms \<and> (msg_more m \<longrightarrow> (\<exists>n ns. ms = n # ns \<and> \<not> msg_delimiter n \<and> \<not> msg_credential n)))"

lemma whole_suffix: "whole (xs @ ys) \<Longrightarrow> whole ys"
  by (induction xs) auto

lemma whole_append: "whole xs \<Longrightarrow> whole ys \<Longrightarrow> whole (xs @ ys)"
  by (induction xs) auto

lemma whole_message:
  "is_message ms \<Longrightarrow> \<forall>m \<in> set ms. \<not> msg_delimiter m \<and> \<not> msg_credential m \<Longrightarrow> whole ms"
proof (induction ms)
  case (Cons m ms)
  then show ?case by (cases ms) (auto simp: is_message_Cons split: if_splits)
qed simp

abbreviation ready :: "port \<Rightarrow> zmsg list" where
  "ready q \<equiv> mp_ready (pipe_of (po_in q))"

definition continues :: "port \<Rightarrow> bool" where
  "continues q \<longleftrightarrow> may_read (po_end q)
     \<and> (\<exists>m ms. ready q = m # ms \<and> \<not> msg_delimiter m \<and> \<not> msg_credential m)"

definition fq_inv :: "fq \<Rightarrow> ports \<Rightarrow> bool" where
  "fq_inv f ps \<longleftrightarrow> fq_ok f \<and> (\<forall>p \<in> fq_items f. reads_ok (ps p) \<and> whole (ready (ps p)))
     \<and> (fq_more f \<longrightarrow> 0 < fq_active f \<and> continues (ps (fq_current_pipe f)))"

definition to_read :: "fq \<Rightarrow> ports \<Rightarrow> nat" where
  "to_read f ps = (\<Sum>p \<in> fq_items f. length (ready (ps p)))"

lemma to_read_queued: "fq_ok f \<Longrightarrow> to_read f ps \<le> queued f ps"
proof -
  assume "fq_ok f"
  then have "distinct (pa_items (fq_pipes f))" by (simp add: fq_ok_def ring_ok_def array_ok_def)
  then have "queued f ps = (\<Sum>p \<in> fq_items f. yp_back (po_in (ps p)))"
    by (simp add: queued_def sum_list_distinct_conv_sum_set)
  then show ?thesis unfolding to_read_def by (simp only:) (rule sum_mono, rule ready_le_back)
qed

lemma continues_offers: "continues q \<Longrightarrow> offered q \<noteq> None"
  by (auto simp: continues_def offered_def after_credentials_def)

text \<open>What receiving leaves alone: what was written, and whether more can be.\<close>

definition untouched :: "ports \<Rightarrow> ports \<Rightarrow> bool" where
  "untouched ps ps' \<longleftrightarrow> (\<forall>q. po_out (ps' q) = po_out (ps q) \<and> po_identity (ps' q) = po_identity (ps q)
     \<and> (\<exists>taken. ready (ps q) = taken @ ready (ps' q))
     \<and> (can_write (ps q) \<and> \<not> has_delimiter (ready (ps q)) \<longrightarrow> can_write (ps' q)))"

lemma untouchedD:
  assumes "untouched ps ps'"
  shows "po_out (ps' q) = po_out (ps q)" "po_identity (ps' q) = po_identity (ps q)"
    "\<exists>taken. ready (ps q) = taken @ ready (ps' q)"
    "can_write (ps q) \<Longrightarrow> \<not> has_delimiter (ready (ps q)) \<Longrightarrow> can_write (ps' q)"
    "\<not> has_delimiter (ready (ps q)) \<Longrightarrow> \<not> has_delimiter (ready (ps' q))"
proof -
  show s: "\<exists>taken. ready (ps q) = taken @ ready (ps' q)" using assms unfolding untouched_def by blast
  then obtain taken where "ready (ps q) = taken @ ready (ps' q)" by blast
  then show "\<not> has_delimiter (ready (ps q)) \<Longrightarrow> \<not> has_delimiter (ready (ps' q))" by simp
qed (use assms in \<open>auto simp: untouched_def\<close>)

lemma untouched_refl [simp]: "untouched ps ps"
  by (simp add: untouched_def)

lemma untouched_trans:
  assumes "untouched a b" "untouched b c"
  shows "untouched a c"
  unfolding untouched_def
proof (intro allI conjI impI)
  fix q
  note ab = untouchedD [OF assms(1), of q] and bc = untouchedD [OF assms(2), of q]
  show "po_out (c q) = po_out (a q)" "po_identity (c q) = po_identity (a q)" using ab(1,2) bc(1,2) by simp_all
  show "\<exists>taken. ready (a q) = taken @ ready (c q)" using ab(3) bc(3) by (metis append.assoc)
  show "can_write (c q)" if "can_write (a q) \<and> \<not> has_delimiter (ready (a q))" using that ab(4,5) bc(4) by blast
qed

lemma took_inv:
  assumes inv: "fq_inv f ps" and t: "took f ps r f' ps'"
  shows "fq_inv f' ps' \<and> untouched ps ps' \<and> to_read f' ps' \<le> to_read f ps \<and> (r \<noteq> None \<longrightarrow> to_read f' ps' < to_read f ps)
    \<and> (\<forall>m p. r = Some (m, p) \<longrightarrow> (\<exists>xs. ready (ps p) = xs @ m # ready (ps' p)))"
proof -
  have it: "fq_items f' = fq_items f" "fq_ok f'" "\<forall>q \<in> fq_items f. reads_ok (ps' q)" using t by (simp_all add: took_def)
  have suf: "\<exists>taken. ready (ps q) = taken @ ready (ps' q)" for q
    using t unfolding took_def by blast
  have wh: "whole (ready (ps' q))" if "q \<in> fq_items f" for q
    using suf [of q] inv that whole_suffix by (auto simp: fq_inv_def)
  have len: "length (ready (ps' q)) \<le> length (ready (ps q))" for q
    using suf [of q] by auto
  have le: "to_read f' ps' \<le> to_read f ps" unfolding to_read_def it(1) using len by (simp add: sum_mono)
  have un: "untouched ps ps'" using t unfolding took_def untouched_def by blast
  show ?thesis
  proof (cases r)
    case None
    then have "\<not> fq_more f'" using t by (simp add: took_def)
    then show ?thesis using it wh le un None by (simp add: fq_inv_def)
  next
    case (Some mp)
    obtain m p where mp: "mp = (m, p)" by (cases mp)
    have p: "p \<in> fq_active_pipes f'" "fq_more f' = msg_more m" "msg_more m \<longrightarrow> fq_current_pipe f' = p" "0 < fq_active f'"
      "after_credentials (ps p) = m # ready (ps' p)" "may_read (po_end (ps' p))"
      using t unfolding took_def Some mp by simp_all
    have pi: "p \<in> fq_items f" using p(1) active_in_items it(1) by blast
    have split: "ready (ps p)
        = takeWhile msg_credential (ready (ps p)) @ m # ready (ps' p)"
      using p(5) takeWhile_dropWhile_id [of msg_credential "ready (ps p)"]
      by (simp add: after_credentials_def del: takeWhile_dropWhile_id)
    then have "whole (m # ready (ps' p))"
      using inv pi whole_suffix by (metis fq_inv_def)
    then have "msg_more m \<longrightarrow> continues (ps' p)" using p(6) by (auto simp: continues_def)
    then have "fq_inv f' ps'" using it wh p(2-4) by (simp add: fq_inv_def)
    moreover have "length (ready (ps' p)) < length (ready (ps p))"
      by (subst split) simp
    then have "to_read f' ps' < to_read f ps"
      unfolding to_read_def it(1) using len pi by (intro sum_strict_mono_ex1) auto
    ultimately show ?thesis using le un split by (auto simp: Some mp)
  qed
qed

definition recv_result :: "(zmsg \<Rightarrow> nat \<Rightarrow> bool) \<Rightarrow> fq \<Rightarrow> ports \<Rightarrow> (zmsg \<times> nat) option \<Rightarrow> fq \<Rightarrow> ports \<Rightarrow> bool" where
  "recv_result P f ps x f' ps' \<longleftrightarrow> fq_inv f' ps' \<and> fq_items f' = fq_items f \<and> untouched ps ps' \<and> to_read f' ps' \<le> to_read f ps
     \<and> (case x of
          None \<Rightarrow> \<not> fq_more f'
        | Some (m, p) \<Rightarrow> P m p \<and> p \<in> fq_items f \<and> fq_more f' = msg_more m \<and> (msg_more m \<longrightarrow> fq_current_pipe f' = p)
            \<and> to_read f' ps' < to_read f ps \<and> (\<exists>xs. ready (ps p) = xs @ m # ready (ps' p)))"

lemma recv_result_later:
  assumes "recv_result P f1 ps1 x f' ps'" "fq_items f1 = fq_items f" "untouched ps ps1" "to_read f1 ps1 \<le> to_read f ps"
  shows "recv_result P f ps x f' ps'"
proof -
  have un: "untouched ps ps'" using assms(1,3) untouched_trans unfolding recv_result_def by blast
  show ?thesis
  proof (cases x)
    case None
    then show ?thesis using assms un by (simp add: recv_result_def)
  next
    case (Some mp)
    obtain m p where mp: "mp = (m, p)" by (cases mp)
    obtain taken where "ready (ps p) = taken @ ready (ps1 p)" using untouchedD(3) [OF assms(3)] by blast
    moreover obtain xs where "ready (ps1 p) = xs @ m # ready (ps' p)"
      using assms(1) unfolding recv_result_def Some mp by auto
    ultimately have "ready (ps p) = (taken @ xs) @ m # ready (ps' p)" by simp
    then have "\<exists>xs. ready (ps p) = xs @ m # ready (ps' p)" by (rule exI)
    then show ?thesis using assms un unfolding recv_result_def Some mp by simp
  qed
qed

lemma recv_until_spec:
  "fq_inv f ps \<Longrightarrow> to_read f ps < fuel \<Longrightarrow> \<exists>x f' ps'. recv_until P fuel f ps = Inr (x, f', ps') \<and> recv_result P f ps x f' ps'"
proof (induction fuel arbitrary: f ps)
  case (Suc fuel)
  have "\<forall>p \<in> fq_items f. reads_ok (ps p)" "fq_ok f"
    "fq_more f \<longrightarrow> 0 < fq_active f \<and> offered (ps (fq_current_pipe f)) \<noteq> None"
    using Suc.prems(1) continues_offers by (auto simp: fq_inv_def)
  from fq_recv_spec [OF this(2,1,3)] obtain r f1 ps1 where
    r: "fq_recvpipe f ps = Inr (r, f1, ps1)" "took f ps r f1 ps1" by blast
  note inv = took_inv [OF Suc.prems(1) r(2)]
  have it: "fq_items f1 = fq_items f" using r(2) by (simp add: took_def)
  show ?case
  proof (cases r)
    case None
    then have "recv_result P f ps None f1 ps1" using inv it r(2) by (simp add: recv_result_def took_def)
    then show ?thesis using r(1) None by auto
  next
    case (Some mp)
    obtain m p where mp: "mp = (m, p)" by (cases mp)
    have p: "p \<in> fq_items f" "fq_more f1 = msg_more m" "msg_more m \<longrightarrow> fq_current_pipe f1 = p"
      using r(2) active_in_items [of f1] it unfolding took_def Some mp by auto
    show ?thesis
    proof (cases "P m p")
      case True
      then have "recv_result P f ps (Some (m, p)) f1 ps1" using inv it p Some mp True by (simp add: recv_result_def)
      then show ?thesis using r(1) Some mp True by auto
    next
      case False
      have "to_read f1 ps1 < fuel" using inv Some Suc.prems(2) by simp
      from Suc.IH [OF _ this] inv obtain x f' ps' where
        x: "recv_until P fuel f1 ps1 = Inr (x, f', ps')" "recv_result P f1 ps1 x f' ps'" by blast
      have "recv_result P f ps x f' ps'" by (rule recv_result_later [OF x(2)]) (use it inv Some in simp_all)
      then show ?thesis using x(1) r(1) Some mp False by auto
    qed
  qed
qed simp

lemma recv_until_enough:
  "fq_inv f ps \<Longrightarrow> \<exists>x f' ps'. recv_until P (Suc (queued f ps)) f ps = Inr (x, f', ps') \<and> recv_result P f ps x f' ps'"
  using recv_until_spec [of f ps "Suc (queued f ps)" P] to_read_queued [of f ps] by (auto simp: fq_inv_def)


text \<open>In the middle of a message the next part comes, from the same pipe.\<close>

lemma recv_continue:
  assumes "fq_inv f ps" "fq_more f" "P (hd (ready (ps (fq_current_pipe f)))) (fq_current_pipe f)"
  shows "\<exists>m f' ps'. recv_until P (Suc (queued f ps)) f ps = Inr (Some (m, fq_current_pipe f), f', ps')
     \<and> recv_result P f ps (Some (m, fq_current_pipe f)) f' ps'
     \<and> ready (ps (fq_current_pipe f)) = m # ready (ps' (fq_current_pipe f))"
proof -
  let ?p = "fq_current_pipe f"
  have f: "fq_ok f" "\<forall>p \<in> fq_items f. reads_ok (ps p)" "0 < fq_active f" "continues (ps ?p)"
    using assms(1,2) by (auto simp: fq_inv_def)
  obtain m ms where m: "ready (ps ?p) = m # ms" "\<not> msg_delimiter m" "\<not> msg_credential m" "offered (ps ?p) = Some m"
    using f(4) by (auto simp: continues_def offered_def after_credentials_def)
  obtain f' ps' where r: "fq_recvpipe f ps = Inr (Some (m, ?p), f', ps')" "took f ps (Some (m, ?p)) f' ps'"
    using took_now [OF f(1-3) m(4)] by blast
  have "after_credentials (ps ?p) = m # ready (ps' ?p)" using r(2) by (simp add: took_def)
  then have rest: "ready (ps ?p) = m # ready (ps' ?p)" using m by (simp add: after_credentials_def)
  have run: "recv_until P (Suc (queued f ps)) f ps = Inr (Some (m, ?p), f', ps')" using r(1) assms(3) m(1) by simp
  obtain x f2 ps2 where "recv_until P (Suc (queued f ps)) f ps = Inr (x, f2, ps2)" "recv_result P f ps x f2 ps2"
    using recv_until_enough [OF assms(1)] by blast
  then show ?thesis using run rest by auto
qed

end
