(* ===== verification/Zmq_Req.thy ===== *)
theory Zmq_Req
  imports Zmq_Sockets_Inv
begin

section \<open>Requests and replies of a REQ socket\<close>

text \<open>
  What \<open>req_t\<close> sends for a request and which messages it takes for the reply, over whole messages in
  its pipes.
\<close>

abbreviation req_lb :: "req \<Rightarrow> lb" where
  "req_lb r \<equiv> dl_lb (rq_dealer r)"

text \<open>The frames in front of a request.\<close>

definition envelope :: "req \<Rightarrow> zmsg list" where
  "envelope r = (if rq_id_frames r then [msg_of True (id_bytes (rq_request_id r + 1))] else []) @ [msg_of True []]"

text \<open>Every pipe is in both lists, and what is written is in order.\<close>

definition req_ok :: "req \<Rightarrow> ports \<Rightarrow> bool" where
  "req_ok r ps \<longleftrightarrow> fq_inv (req_fq r) ps \<and> lb_ok (req_lb r) \<and> lb_items (req_lb r) = fq_items (req_fq r)
     \<and> (\<forall>p \<in> fq_items (req_fq r). ypipe_ok (po_out (ps p)))"

definition no_delimiters :: "req \<Rightarrow> ports \<Rightarrow> bool" where
  "no_delimiters r ps \<longleftrightarrow> (\<forall>p \<in> fq_items (req_fq r). \<not> has_delimiter (ready (ps p)))"

lemma length_id_bytes [simp]: "length (id_bytes v) = 4"
  by (simp add: id_bytes_def put_uint32_def)

lemma req_fq_simps [simp]:
  "req_fq (req_set_fq f r) = f" "req_lb (req_set_fq f r) = req_lb r" "rq_reply_pipe (req_set_fq f r) = rq_reply_pipe r"
  "rq_receiving_reply (req_set_fq f r) = rq_receiving_reply r" "rq_message_begins (req_set_fq f r) = rq_message_begins r"
  "rq_id_frames (req_set_fq f r) = rq_id_frames r" "rq_request_id (req_set_fq f r) = rq_request_id r"
  "rq_strict (req_set_fq f r) = rq_strict r"
  by (simp_all add: req_set_fq_def req_fq_def)

lemma sends_okI: "reads_ok q \<Longrightarrow> can_write q \<Longrightarrow> ypipe_ok (po_out q) \<Longrightarrow> sends_ok q"
  by (simp add: sends_ok_def reads_ok_def can_write_iff end_ok_def)

text \<open>A frame has been written to \<open>p\<close>; the frames of a message so far are \<open>w\<close>.\<close>

definition writing :: "nat \<Rightarrow> zmsg list \<Rightarrow> req \<Rightarrow> ports \<Rightarrow> req \<Rightarrow> ports \<Rightarrow> bool" where
  "writing p w r0 ps0 r ps \<longleftrightarrow>
     lb_ok (req_lb r) \<and> lb_items (req_lb r) = lb_items (req_lb r0) \<and> \<not> lb_dropping (req_lb r) \<and> lb_more (req_lb r)
   \<and> 0 < lb_active (req_lb r) \<and> lb_current_pipe (req_lb r) = p \<and> p \<in> lb_active_pipes (req_lb r0) \<and> can_write (ps0 p)
   \<and> can_write (ps p) \<and> sends_ok (ps p) \<and> all_msgs (po_out (ps p)) = all_msgs (po_out (ps0 p)) @ w
   \<and> (\<forall>q. q \<noteq> p \<longrightarrow> po_out (ps q) = po_out (ps0 q)) \<and> (\<forall>q. po_in (ps q) = po_in (ps0 q) \<and> po_identity (ps q) = po_identity (ps0 q) \<and> read_side (po_end (ps q)) = read_side (po_end (ps0 q)))
   \<and> rq_reply_pipe r = Some p \<and> req_fq r = req_fq r0 \<and> rq_id_frames r = rq_id_frames r0"

lemma lb_written_more:
  assumes w: "lb_written m p (req_lb r) ps l ps'" and m: "msg_more m" and so: "sends_ok (ps p)"
  shows "writing p [m] r ps (r\<lparr>rq_dealer := (rq_dealer r)\<lparr>dl_lb := l\<rparr>, rq_reply_pipe := Some p\<rparr>) ps'"
proof -
  have c: "can_write (ps p)" "ps' p = after_part m (ps p)" "\<forall>q. q \<noteq> p \<longrightarrow> same_queues (ps q) (ps' q)"
    using w by (simp_all add: lb_written_def)
  note a = after_part_out [OF c(1) so, of m]
  have "po_in (ps' q) = po_in (ps q) \<and> po_identity (ps' q) = po_identity (ps q)
      \<and> read_side (po_end (ps' q)) = read_side (po_end (ps q))" for q
    using a(4-6) c(2,3) by (cases "q = p") (auto simp: same_queues_def)
  moreover have "can_write (ps' p)" "sends_ok (ps' p)" using a m c(2) by (simp_all add: sends_ok_def)
  ultimately show ?thesis
    using w a(1) m c by (auto simp: writing_def lb_written_def req_fq_def same_queues_def)
qed

lemma req_send_first:
  assumes "lb_ok (req_lb r)" "\<not> lb_more (req_lb r)" "\<not> lb_dropping (req_lb r)"
    "\<exists>p \<in> lb_active_pipes (req_lb r). can_write (ps p)" "\<forall>p \<in> lb_items (req_lb r). can_write (ps p) \<longrightarrow> sends_ok (ps p)"
    "msg_more m"
  shows "\<exists>p r' ps'. req_sendpipe m r ps = Inr (None, r', ps') \<and> writing p [m] r ps r' ps'
     \<and> rq_message_begins r' = rq_message_begins r \<and> rq_receiving_reply r' = rq_receiving_reply r
     \<and> rq_request_id r' = rq_request_id r \<and> rq_strict r' = rq_strict r"
proof -
  obtain p l ps' where s: "lb_sendpipe m (req_lb r) ps = Inr (None, Some p, l, ps')" "lb_written m p (req_lb r) ps l ps'"
    using sendpipe_first [OF assms(1-4)] by blast
  have p: "p \<in> lb_items (req_lb r)" "can_write (ps p)"
    using s(2) by (auto simp: lb_written_def lb_active_pipes_def active_pipes_def dest: in_set_takeD)
  let ?r = "r\<lparr>rq_dealer := (rq_dealer r)\<lparr>dl_lb := l\<rparr>, rq_reply_pipe := Some p\<rparr>"
  have "writing p [m] r ps ?r ps'" using lb_written_more [OF s(2) assms(6)] p assms(5) by blast
  moreover have "req_sendpipe m r ps = Inr (None, ?r, ps')"
    using s(1) by (simp add: req_sendpipe_def dealer_sendpipe_def)
  ultimately show ?thesis by (intro exI [of _ p] exI [of _ ?r] exI [of _ ps']) simp
qed

lemma req_send_next:
  assumes w: "writing p w r0 ps0 r ps" and m: "msg_more m"
  shows "\<exists>r' ps'. req_sendpipe m r ps = Inr (None, r', ps') \<and> writing p (w @ [m]) r0 ps0 r' ps'
     \<and> rq_message_begins r' = rq_message_begins r \<and> rq_receiving_reply r' = rq_receiving_reply r
     \<and> rq_request_id r' = rq_request_id r \<and> rq_strict r' = rq_strict r"
proof -
  have l: "lb_ok (req_lb r)" "lb_more (req_lb r)" "\<not> lb_dropping (req_lb r)" "0 < lb_active (req_lb r)"
    "lb_current_pipe (req_lb r) = p" "can_write (ps p)" "sends_ok (ps p)"
    using w by (simp_all add: writing_def)
  obtain l' ps' where s: "lb_sendpipe m (req_lb r) ps = Inr (None, Some p, l', ps')" "lb_written m p (req_lb r) ps l' ps'"
    using sendpipe_next [OF l(1-4), of ps m] l(5,6) by auto
  let ?r = "r\<lparr>rq_dealer := (rq_dealer r)\<lparr>dl_lb := l'\<rparr>, rq_reply_pipe := Some p\<rparr>"
  have "writing p [m] r ps ?r ps'" using lb_written_more [OF s(2) m l(7)] .
  then have "writing p (w @ [m]) r0 ps0 ?r ps'" using w by (auto simp: writing_def)
  moreover have "req_sendpipe m r ps = Inr (None, ?r, ps')"
    using s(1) by (simp add: req_sendpipe_def dealer_sendpipe_def)
  ultimately show ?thesis by (intro exI [of _ ?r] exI [of _ ps']) simp
qed

lemma writing_untouched:
  assumes w: "writing p w r0 ps0 r ps" and u: "untouched ps ps'" and d: "\<not> has_delimiter (ready (ps p))"
    and ro: "reads_ok (ps' p)"
  shows "can_write (ps' p)" "sends_ok (ps' p)" "all_msgs (po_out (ps' p)) = all_msgs (po_out (ps0 p)) @ w"
    "q \<noteq> p \<Longrightarrow> po_out (ps' q) = po_out (ps0 q)"
proof -
  show c: "can_write (ps' p)" using w untouchedD(4) [OF u _ d] by (simp add: writing_def)
  have "ypipe_ok (po_out (ps' p))" using w untouchedD(1) [OF u] by (simp add: writing_def sends_ok_def)
  then show "sends_ok (ps' p)" using sends_okI [OF ro c] by simp
  show "all_msgs (po_out (ps' p)) = all_msgs (po_out (ps0 p)) @ w" "q \<noteq> p \<Longrightarrow> po_out (ps' q) = po_out (ps0 q)"
    using w untouchedD(1) [OF u] by (simp_all add: writing_def)
qed


lemma reading_same:
  assumes "po_in q' = po_in q" "read_side (po_end q') = read_side (po_end q)"
  shows "reads_ok q' = reads_ok q" "continues q' = continues q"
  using assms by (simp_all add: reads_ok_def continues_def end_ok_def may_read_def read_side_def)

lemma fq_inv_same:
  assumes "fq_inv f ps" "\<And>q. po_in (ps' q) = po_in (ps q) \<and> read_side (po_end (ps' q)) = read_side (po_end (ps q))"
  shows "fq_inv f ps'"
proof -
  have "reads_ok (ps' q) = reads_ok (ps q)" "continues (ps' q) = continues (ps q)" "ready (ps' q) = ready (ps q)" for q
    using reading_same [of "ps' q" "ps q"] assms(2) [of q] by simp_all
  then show ?thesis using assms(1) by (simp add: fq_inv_def)
qed

definition request_begun :: "nat \<Rightarrow> zmsg list \<Rightarrow> req \<Rightarrow> ports \<Rightarrow> req \<Rightarrow> ports \<Rightarrow> bool" where
  "request_begun p w r0 ps0 r ps \<longleftrightarrow>
     lb_ok (req_lb r) \<and> lb_items (req_lb r) = lb_items (req_lb r0) \<and> \<not> lb_dropping (req_lb r) \<and> lb_more (req_lb r)
   \<and> 0 < lb_active (req_lb r) \<and> lb_current_pipe (req_lb r) = p \<and> p \<in> lb_active_pipes (req_lb r0) \<and> can_write (ps0 p)
   \<and> can_write (ps p) \<and> sends_ok (ps p) \<and> all_msgs (po_out (ps p)) = all_msgs (po_out (ps0 p)) @ w
   \<and> (\<forall>q. q \<noteq> p \<longrightarrow> po_out (ps q) = po_out (ps0 q))
   \<and> fq_inv (req_fq r) ps \<and> fq_items (req_fq r) = fq_items (req_fq r0) \<and> \<not> fq_more (req_fq r)
   \<and> rq_reply_pipe r = Some p \<and> \<not> rq_message_begins r \<and> rq_receiving_reply r = rq_receiving_reply r0"

lemma begin_written:
  assumes ok: "req_ok r0 ps0" "no_delimiters r0 ps0" and w: "writing p w r0 ps0 r ps"
    and r: "rq_message_begins r = b" "rq_receiving_reply r = rq_receiving_reply r0"
  shows "\<exists>f ps'. recv_until (\<lambda>m p. False) (Suc (queued (req_fq r) ps)) (req_fq r) ps = Inr (None, f, ps')
     \<and> request_begun p w r0 ps0 (req_set_fq f (r\<lparr>rq_message_begins := False\<rparr>)) ps'"
proof -
  have fq: "req_fq r = req_fq r0" using w by (simp add: writing_def)
  have same: "po_in (ps q) = po_in (ps0 q) \<and> read_side (po_end (ps q)) = read_side (po_end (ps0 q))" for q
    using w by (simp add: writing_def)
  have inv: "fq_inv (req_fq r) ps" unfolding fq by (rule fq_inv_same [OF _ same]) (use ok(1) in \<open>simp add: req_ok_def\<close>)
  obtain x f ps' where f: "recv_until (\<lambda>m p. False) (Suc (queued (req_fq r) ps)) (req_fq r) ps = Inr (x, f, ps')"
      "recv_result (\<lambda>m p. False) (req_fq r) ps x f ps'"
    using recv_until_enough [OF inv] by blast
  have x: "x = None" using f(2) by (auto simp: recv_result_def split: option.splits)
  have res: "fq_inv f ps'" "fq_items f = fq_items (req_fq r0)" "untouched ps ps'" "\<not> fq_more f"
    using f(2) unfolding recv_result_def x fq by simp_all
  have p: "p \<in> fq_items (req_fq r0)"
    using w ok(1) by (auto simp: writing_def req_ok_def lb_active_pipes_def active_pipes_def dest: in_set_takeD)
  have "\<not> has_delimiter (ready (ps p))" using ok(2) p same by (simp add: no_delimiters_def)
  moreover have "reads_ok (ps' p)" using res(1,2) p by (simp add: fq_inv_def)
  ultimately have "can_write (ps' p)" "sends_ok (ps' p)" "all_msgs (po_out (ps' p)) = all_msgs (po_out (ps0 p)) @ w"
    "\<forall>q. q \<noteq> p \<longrightarrow> po_out (ps' q) = po_out (ps0 q)"
    using writing_untouched [OF w res(3)] by blast+
  then have "request_begun p w r0 ps0 (req_set_fq f (r\<lparr>rq_message_begins := False\<rparr>)) ps'"
    using w res r by (simp add: request_begun_def writing_def req_set_fq_def req_fq_def)
  then show ?thesis using f(1) x by blast
qed

lemma req_begin_spec:
  assumes ok: "req_ok r ps" "no_delimiters r ps" and l: "\<not> lb_more (req_lb r)" "\<not> lb_dropping (req_lb r)"
    "\<exists>p \<in> lb_active_pipes (req_lb r). can_write (ps p)"
  shows "\<exists>p r' ps'. req_begin r ps = Inr (None, r', ps') \<and> request_begun p (envelope r) r ps r' ps'"
proof -
  let ?r0 = "r\<lparr>rq_reply_pipe := None\<rparr>"
  have so: "\<forall>p \<in> lb_items (req_lb r). can_write (ps p) \<longrightarrow> sends_ok (ps p)"
    using ok(1) sends_okI by (simp add: req_ok_def fq_inv_def)
  have lbok: "lb_ok (req_lb r)" using ok(1) by (simp add: req_ok_def)
  have fin: "\<exists>p r' ps'. req_begin r ps = Inr (None, r', ps') \<and> request_begun p (envelope r) r ps r' ps'"
    if "(if rq_id_frames ?r0 then
              let r1 = ?r0\<lparr>rq_request_id := rq_request_id ?r0 + 1\<rparr>
              in req_sendpipe (msg_of True (id_bytes (rq_request_id r1))) r1 ps
            else Inr (None, ?r0, ps)) = Inr (None, r2, ps2)"
      "req_sendpipe (msg_of True []) r2 ps2 = Inr (None, r3, ps3)" "writing p (envelope r) r ps r3 ps3"
      "rq_receiving_reply r3 = rq_receiving_reply r" for r2 ps2 r3 ps3 p
  proof -
    note g = that
    obtain f ps' where f: "recv_until (\<lambda>m p. False) (Suc (queued (req_fq r3) ps3)) (req_fq r3) ps3 = Inr (None, f, ps')"
        "request_begun p (envelope r) r ps (req_set_fq f (r3\<lparr>rq_message_begins := False\<rparr>)) ps'"
      using begin_written [OF ok g(3) refl g(4)] by blast
    have rp: "rq_reply_pipe r3 \<noteq> None" and fq3: "req_fq (r3\<lparr>rq_message_begins := False\<rparr>) = req_fq r3"
      using g(3) by (simp_all add: writing_def req_fq_def)
    have "req_begin r ps = Inr (None, req_set_fq f (r3\<lparr>rq_message_begins := False\<rparr>), ps')"
      unfolding req_begin_def Let_def
      using g(1,2) f(1) rp unfolding Let_def by (simp add: fq3 del: recv_until.simps)
    then show ?thesis using f(2) by blast
  qed
  show ?thesis
  proof (cases "rq_id_frames r")
    case False
    have "lb_ok (req_lb ?r0)" "\<not> lb_more (req_lb ?r0)" "\<not> lb_dropping (req_lb ?r0)"
      "\<exists>p \<in> lb_active_pipes (req_lb ?r0). can_write (ps p)" "\<forall>p \<in> lb_items (req_lb ?r0). can_write (ps p) \<longrightarrow> sends_ok (ps p)"
      using lbok l so by simp_all
    from req_send_first [OF this, of "msg_of True []"] obtain p r3 ps3 where
      s: "req_sendpipe (msg_of True []) ?r0 ps = Inr (None, r3, ps3)" "writing p [msg_of True []] ?r0 ps r3 ps3"
        "rq_receiving_reply r3 = rq_receiving_reply r"
      by (auto simp: msg_of_def)
    have "writing p (envelope r) r ps r3 ps3" using s(2) False by (simp add: writing_def envelope_def req_fq_def)
    then show ?thesis using fin [OF _ s(1) _ s(3)] False by simp
  next
    case True
    let ?r1 = "?r0\<lparr>rq_request_id := rq_request_id ?r0 + 1\<rparr>" and ?id = "msg_of True (id_bytes (rq_request_id r + 1))"
    have "lb_ok (req_lb ?r1)" "\<not> lb_more (req_lb ?r1)" "\<not> lb_dropping (req_lb ?r1)"
      "\<exists>p \<in> lb_active_pipes (req_lb ?r1). can_write (ps p)" "\<forall>p \<in> lb_items (req_lb ?r1). can_write (ps p) \<longrightarrow> sends_ok (ps p)"
      using lbok l so by simp_all
    from req_send_first [OF this, of ?id] obtain p r2 ps2 where
      s: "req_sendpipe ?id ?r1 ps = Inr (None, r2, ps2)" "writing p [?id] ?r1 ps r2 ps2"
        "rq_receiving_reply r2 = rq_receiving_reply r"
      by (auto simp: msg_of_def)
    obtain r3 ps3 where n: "req_sendpipe (msg_of True []) r2 ps2 = Inr (None, r3, ps3)"
        "writing p ([?id] @ [msg_of True []]) ?r1 ps r3 ps3" "rq_receiving_reply r3 = rq_receiving_reply r2"
      using req_send_next [OF s(2), of "msg_of True []"] by (auto simp: msg_of_def)
    have "writing p (envelope r) r ps r3 ps3" using n(2) True by (simp add: writing_def envelope_def req_fq_def)
    then show ?thesis using fin [OF _ n(1)] s(1,3) n(3) True by simp
  qed
qed


text \<open>A request of one part, with its envelope.\<close>

lemma req_xsend_spec:
  assumes ok: "req_ok r ps" "no_delimiters r ps" and l: "\<not> lb_more (req_lb r)" "\<not> lb_dropping (req_lb r)"
    "\<exists>p \<in> lb_active_pipes (req_lb r). can_write (ps p)"
    and r: "\<not> rq_receiving_reply r" "rq_message_begins r" "\<not> msg_more m"
  shows "\<exists>p r' ps'. req_xsend m r ps = Inr (None, r', ps') \<and> rq_receiving_reply r' \<and> rq_message_begins r'
     \<and> rq_reply_pipe r' = Some p \<and> p \<in> lb_active_pipes (req_lb r) \<and> can_write (ps p)
     \<and> mp_ready (pipe_of (po_out (ps' p))) = all_msgs (po_out (ps p)) @ envelope r @ [m]
     \<and> (\<forall>q. q \<noteq> p \<longrightarrow> po_out (ps' q) = po_out (ps q)) \<and> req_ok r' ps' \<and> \<not> fq_more (req_fq r')
     \<and> \<not> lb_more (req_lb r') \<and> \<not> lb_dropping (req_lb r')"
proof -
  obtain p r1 ps1 where b: "req_begin r ps = Inr (None, r1, ps1)" "request_begun p (envelope r) r ps r1 ps1"
    using req_begin_spec [OF ok l] by blast
  have g: "lb_ok (req_lb r1)" "lb_more (req_lb r1)" "\<not> lb_dropping (req_lb r1)" "0 < lb_active (req_lb r1)"
    "lb_current_pipe (req_lb r1) = p" "can_write (ps1 p)" "sends_ok (ps1 p)" "lb_items (req_lb r1) = lb_items (req_lb r)"
    "all_msgs (po_out (ps1 p)) = all_msgs (po_out (ps p)) @ envelope r" "\<forall>q. q \<noteq> p \<longrightarrow> po_out (ps1 q) = po_out (ps q)"
    "fq_inv (req_fq r1) ps1" "fq_items (req_fq r1) = fq_items (req_fq r)" "\<not> fq_more (req_fq r1)" "rq_reply_pipe r1 = Some p"
    "p \<in> lb_active_pipes (req_lb r)" "can_write (ps p)"
    using b(2) by (simp_all add: request_begun_def)
  obtain l2 ps2 where s: "lb_sendpipe m (req_lb r1) ps1 = Inr (None, Some p, l2, ps2)" "lb_written m p (req_lb r1) ps1 l2 ps2"
    using sendpipe_next [OF g(1-4), of ps1 m] g(5,6) by auto
  have w: "lb_ok l2" "lb_items l2 = lb_items (req_lb r1)" "\<not> lb_dropping l2" "lb_more l2 = msg_more m" "ps2 p = after_part m (ps1 p)"
    "\<forall>q. q \<noteq> p \<longrightarrow> same_queues (ps1 q) (ps2 q)"
    using s(2) by (simp_all add: lb_written_def)
  note a = after_part_out [OF g(6,7), of m]
  let ?r = "r1\<lparr>rq_dealer := (rq_dealer r1)\<lparr>dl_lb := l2\<rparr>, rq_receiving_reply := True, rq_message_begins := True\<rparr>"
  have run: "req_xsend m r ps = Inr (None, ?r, ps2)"
    using r b(1) s(1) by (simp add: req_xsend_def dealer_xsend_def dealer_sendpipe_def Let_def)
  have "fq_inv (req_fq r1) ps2"
  proof (rule fq_inv_same [OF g(11)])
    show "po_in (ps2 q) = po_in (ps1 q) \<and> read_side (po_end (ps2 q)) = read_side (po_end (ps1 q))" for q
      using w(5,6) a(4,6) by (cases "q = p") (auto simp: same_queues_def)
  qed
  moreover have "ypipe_ok (po_out (ps2 q))" if "q \<in> fq_items (req_fq r)" for q
    using that ok(1) w(5,6) a(2) g(10) by (cases "q = p") (auto simp: req_ok_def same_queues_def)
  ultimately have "req_ok ?r ps2" using w(1,2) g(8,12) ok(1) by (simp add: req_ok_def req_fq_def)
  moreover have "\<forall>q. q \<noteq> p \<longrightarrow> po_out (ps2 q) = po_out (ps q)" using w(6) g(10) by (simp add: same_queues_def)
  moreover have "mp_ready (pipe_of (po_out (ps2 p))) = all_msgs (po_out (ps p)) @ envelope r @ [m]"
    using a(8) r(3) w(5) g(9) by simp
  ultimately show ?thesis
    using run g(13-16) w(3,4) r(3) by (intro exI [of _ p] exI [of _ ?r] exI [of _ ps2]) (simp add: req_fq_def)
qed


subsection \<open>The reply\<close>

definition allowed :: "req \<Rightarrow> nat \<Rightarrow> bool" where
  "allowed r q \<longleftrightarrow> rq_reply_pipe r = None \<or> Some q = rq_reply_pipe r"

lemma req_set_twice [simp]: "req_set_fq f (req_set_fq g r) = req_set_fq f r"
  by (simp add: req_set_fq_def)

lemma allowed_set [simp]: "allowed (req_set_fq f r) q = allowed r q"
  by (simp add: allowed_def)

definition in_message :: "req \<Rightarrow> ports \<Rightarrow> bool" where
  "in_message r ps \<longleftrightarrow> fq_inv (req_fq r) ps \<and> (fq_more (req_fq r) \<longrightarrow> allowed r (fq_current_pipe (req_fq r)))"

text \<open>One frame for the reply, or none.\<close>

definition reply_frame :: "req \<Rightarrow> ports \<Rightarrow> zmsg option \<Rightarrow> fq \<Rightarrow> ports \<Rightarrow> bool" where
  "reply_frame r ps x f ps' \<longleftrightarrow> in_message (req_set_fq f r) ps' \<and> untouched ps ps' \<and> fq_items f = fq_items (req_fq r)
     \<and> to_read f ps' \<le> to_read (req_fq r) ps
     \<and> (case x of
          None \<Rightarrow> \<not> fq_more f
        | Some m \<Rightarrow> fq_more f = msg_more m \<and> to_read f ps' < to_read (req_fq r) ps
            \<and> (\<exists>q xs. allowed r q \<and> q \<in> fq_items f \<and> ready (ps q) = xs @ m # ready (ps' q) \<and> (msg_more m \<longrightarrow> fq_current_pipe f = q)))"

lemma recv_reply_spec:
  assumes "in_message r ps"
  shows "\<exists>x f ps'. recv_reply_pipe r ps = Inr (x, req_set_fq f r, ps') \<and> reply_frame r ps x f ps'"
proof -
  let ?P = "\<lambda>m p. rq_reply_pipe r = None \<or> Some p = rq_reply_pipe r"
  have inv: "fq_inv (req_fq r) ps" using assms by (simp add: in_message_def)
  obtain x f ps' where r: "recv_until ?P (Suc (queued (req_fq r) ps)) (req_fq r) ps = Inr (x, f, ps')"
      "recv_result ?P (req_fq r) ps x f ps'"
    using recv_until_enough [OF inv] by blast
  have run: "recv_reply_pipe r ps = Inr (map_option fst x, req_set_fq f r, ps')"
    using r(1) by (simp add: recv_reply_pipe_def del: recv_until.simps)
  have "reply_frame r ps (map_option fst x) f ps'"
  proof (cases x)
    case None
    then show ?thesis using r(2) by (simp add: reply_frame_def recv_result_def in_message_def)
  next
    case (Some mq)
    obtain m q where mq: "mq = (m, q)" by (cases mq)
    have "allowed r q" "q \<in> fq_items (req_fq r)" "fq_more f = msg_more m" "msg_more m \<longrightarrow> fq_current_pipe f = q"
      "to_read f ps' < to_read (req_fq r) ps" "\<exists>xs. ready (ps q) = xs @ m # ready (ps' q)" "fq_inv f ps'"
      "fq_items f = fq_items (req_fq r)" "untouched ps ps'"
      using r(2) unfolding recv_result_def Some mq by (simp_all add: allowed_def)
    then show ?thesis unfolding reply_frame_def Some mq by (auto simp: in_message_def)
  qed
  then show ?thesis using run by blast
qed

text \<open>In the middle of a message there is a next frame.\<close>

lemma recv_reply_next:
  assumes "in_message r ps" "fq_more (req_fq r)"
  shows "\<exists>m f ps'. recv_reply_pipe r ps = Inr (Some m, req_set_fq f r, ps') \<and> reply_frame r ps (Some m) f ps'
     \<and> ready (ps (fq_current_pipe (req_fq r))) = m # ready (ps' (fq_current_pipe (req_fq r)))
     \<and> (msg_more m \<longrightarrow> fq_current_pipe f = fq_current_pipe (req_fq r))"
proof -
  let ?P = "\<lambda>m p. rq_reply_pipe r = None \<or> Some p = rq_reply_pipe r"
  have inv: "fq_inv (req_fq r) ps" and al: "allowed r (fq_current_pipe (req_fq r))" using assms by (simp_all add: in_message_def)
  obtain m f ps' where c: "recv_until ?P (Suc (queued (req_fq r) ps)) (req_fq r) ps = Inr (Some (m, fq_current_pipe (req_fq r)), f, ps')"
      "ready (ps (fq_current_pipe (req_fq r))) = m # ready (ps' (fq_current_pipe (req_fq r)))"
      "recv_result ?P (req_fq r) ps (Some (m, fq_current_pipe (req_fq r))) f ps'"
    using recv_continue [OF inv assms(2), of ?P] al unfolding allowed_def by blast
  have same: "msg_more m \<longrightarrow> fq_current_pipe f = fq_current_pipe (req_fq r)" using c(3) by (simp add: recv_result_def)
  have run: "recv_reply_pipe r ps = Inr (Some m, req_set_fq f r, ps')"
    using c(1) by (simp add: recv_reply_pipe_def del: recv_until.simps)
  obtain x g ps2 where g: "recv_reply_pipe r ps = Inr (x, req_set_fq g r, ps2)" "reply_frame r ps x g ps2"
    using recv_reply_spec [OF assms(1)] by blast
  have "req_set_fq g r = req_set_fq f r" using g(1) run by simp
  then have "g = f" by (metis req_fq_simps(1))
  then show ?thesis using g run c(2) same by auto
qed


lemma req_skip_spec:
  "in_message r ps \<Longrightarrow> fq_more (req_fq r) = msg_more m \<Longrightarrow> to_read (req_fq r) ps < fuel \<Longrightarrow>
     \<exists>f ps'. req_skip fuel m r ps = Inr (req_set_fq f r, ps') \<and> in_message (req_set_fq f r) ps' \<and> \<not> fq_more f \<and> untouched ps ps'
       \<and> fq_items f = fq_items (req_fq r) \<and> to_read f ps' \<le> to_read (req_fq r) ps"
proof (induction fuel arbitrary: m r ps)
  case (Suc fuel)
  show ?case
  proof (cases "msg_more m")
    case False
    have "r = req_set_fq (req_fq r) r" by (simp add: req_set_fq_def req_fq_def)
    then show ?thesis
      using Suc.prems False by (intro exI [of _ "req_fq r"] exI [of _ ps]) simp
  next
    case True
    then have more: "fq_more (req_fq r)" using Suc.prems(2) by simp
    from recv_reply_next [OF Suc.prems(1) more] obtain m1 f1 ps1 where
      r: "recv_reply_pipe r ps = Inr (Some m1, req_set_fq f1 r, ps1)" "reply_frame r ps (Some m1) f1 ps1"
      by blast
    have g: "in_message (req_set_fq f1 r) ps1" "fq_more f1 = msg_more m1" "to_read f1 ps1 < fuel" "untouched ps ps1"
      "fq_items f1 = fq_items (req_fq r)" "to_read f1 ps1 \<le> to_read (req_fq r) ps"
      using r(2) Suc.prems(3) by (auto simp: reply_frame_def)
    have "fq_more (req_fq (req_set_fq f1 r)) = msg_more m1" "to_read (req_fq (req_set_fq f1 r)) ps1 < fuel" using g(2,3) by simp_all
    from Suc.IH [OF g(1) this] obtain f ps' where
      f: "req_skip fuel m1 (req_set_fq f1 r) ps1 = Inr (req_set_fq f r, ps')" "in_message (req_set_fq f r) ps'" "\<not> fq_more f"
        "untouched ps1 ps'" "fq_items f = fq_items f1" "to_read f ps' \<le> to_read f1 ps1"
      by auto
    have "req_skip (Suc fuel) m r ps = Inr (req_set_fq f r, ps')" using r(1) f(1) True by simp
    moreover have "untouched ps ps'" using untouched_trans [OF g(4) f(4)] .
    ultimately show ?thesis using f g by auto
  qed
qed simp

definition reply_envelope :: "req \<Rightarrow> zmsg list \<Rightarrow> bool" where
  "reply_envelope r es \<longleftrightarrow> (\<forall>m \<in> set es. msg_more m)
     \<and> map msg_data es = (if rq_id_frames r then [id_bytes (rq_request_id r)] else []) @ [[]]"

definition reply_begun :: "req \<Rightarrow> ports \<Rightarrow> bool \<Rightarrow> req \<Rightarrow> ports \<Rightarrow> bool" where
  "reply_begun r ps began r' ps' \<longleftrightarrow>
     in_message r' ps' \<and> untouched ps ps' \<and> fq_items (req_fq r') = fq_items (req_fq r)
   \<and> r' = req_set_fq (req_fq r') (if began then r\<lparr>rq_message_begins := False\<rparr> else r)
   \<and> fq_more (req_fq r') = began
   \<and> (began \<longrightarrow> (\<exists>q xs es. q \<in> fq_items (req_fq r) \<and> allowed r q \<and> fq_current_pipe (req_fq r') = q
        \<and> reply_envelope r es \<and> ready (ps q) = xs @ es @ ready (ps' q)))"

lemma reply_begun_later:
  assumes b: "reply_begun (req_set_fq f r) ps1 began r' ps'" and u: "untouched ps ps1" "fq_items f = fq_items (req_fq r)"
  shows "reply_begun r ps began r' ps'"
proof -
  have env: "reply_envelope (req_set_fq f r) es = reply_envelope r es" for es by (simp add: reply_envelope_def)
  have r': "r' = req_set_fq (req_fq r') (if began then r\<lparr>rq_message_begins := False\<rparr> else r)"
  proof -
    have "r' = req_set_fq (req_fq r') (if began then (req_set_fq f r)\<lparr>rq_message_begins := False\<rparr> else req_set_fq f r)"
      using b unfolding reply_begun_def by blast
    also have "\<dots> = req_set_fq (req_fq r') (if began then r\<lparr>rq_message_begins := False\<rparr> else r)"
      by (simp add: req_set_fq_def)
    finally show ?thesis .
  qed
  have "\<exists>q xs es. q \<in> fq_items (req_fq r) \<and> allowed r q \<and> fq_current_pipe (req_fq r') = q
        \<and> reply_envelope r es \<and> ready (ps q) = xs @ es @ ready (ps' q)" if bg: began
  proof -
    obtain q xs es where q: "q \<in> fq_items f" "allowed r q" "fq_current_pipe (req_fq r') = q" "reply_envelope r es"
        "ready (ps1 q) = xs @ es @ ready (ps' q)"
      using b bg unfolding reply_begun_def env by auto
    obtain taken where "ready (ps q) = taken @ ready (ps1 q)" using untouchedD(3) [OF u(1)] by blast
    then have "ready (ps q) = (taken @ xs) @ es @ ready (ps' q)" using q(5) by simp
    then show ?thesis using q u(2) by blast
  qed
  moreover have "untouched ps ps'" using b u(1) untouched_trans unfolding reply_begun_def by blast
  ultimately show ?thesis using b u(2) r' unfolding reply_begun_def by simp
qed

text \<open>The last step of the search: the frame that must be empty.\<close>

lemma reply_bottom:
  assumes inm: "in_message r1 ps1" and rec: "recv_reply_pipe r1 ps1 = Inr (Some m, req_set_fq f r1, ps2)" "reply_frame r1 ps1 (Some m) f ps2"
    and m: "msg_more m" "msg_data m = []"
    and es: "\<exists>q. allowed r1 q \<and> q \<in> fq_items f \<and> fq_current_pipe f = q \<and> (\<exists>xs es. reply_envelope r1 (es @ [m]) \<and> ready (ps q) = xs @ es @ m # ready (ps2 q))"
    and u: "untouched ps ps1" "r1 = req_set_fq (req_fq r1) r" "fq_items (req_fq r1) = fq_items (req_fq r)"
  shows "reply_begun r ps True ((req_set_fq f r1)\<lparr>rq_message_begins := False\<rparr>) ps2"
proof -
  let ?r = "(req_set_fq f r1)\<lparr>rq_message_begins := False\<rparr>"
  have fr: "in_message (req_set_fq f r1) ps2" "untouched ps1 ps2" "fq_items f = fq_items (req_fq r1)" "fq_more f"
    using rec(2) m(1) by (simp_all add: reply_frame_def)
  have fq: "req_fq ?r = f" by (simp add: req_fq_def req_set_fq_def)
  have r: "?r = req_set_fq (req_fq ?r) (r\<lparr>rq_message_begins := False\<rparr>)"
    unfolding fq by (subst u(2)) (simp add: req_set_fq_def)
  have al: "allowed ?r q = allowed r q" "reply_envelope r1 es = reply_envelope r es" "allowed r1 q = allowed r q" for q es
    by (simp_all add: allowed_def reply_envelope_def) (subst u(2), simp)+
  obtain q xs es' where q: "allowed r q" "q \<in> fq_items f" "fq_current_pipe f = q" "reply_envelope r (es' @ [m])"
      "ready (ps q) = xs @ es' @ m # ready (ps2 q)"
    using es unfolding al by blast
  have "ready (ps q) = xs @ (es' @ [m]) @ ready (ps2 q)" using q(5) by simp
  then have "\<exists>q xs es. q \<in> fq_items (req_fq r) \<and> allowed r q \<and> fq_current_pipe (req_fq ?r) = q
        \<and> reply_envelope r es \<and> ready (ps q) = xs @ es @ ready (ps2 q)"
    using q fr(3) u(3) unfolding fq by blast
  moreover have "in_message ?r ps2" using fr(1) fq al by (simp add: in_message_def)
  ultimately show ?thesis
    using untouched_trans [OF u(1) fr(2)] fr(3,4) u(3) r unfolding reply_begun_def fq by simp
qed


lemma req_self: "r = req_set_fq (req_fq r) r"
  by (simp add: req_set_fq_def req_fq_def)

lemma reply_none:
  assumes "reply_frame r ps None f ps'"
  shows "reply_begun r ps False (req_set_fq f r) ps'"
  using assms by (simp add: reply_frame_def reply_begun_def)

text \<open>The part of an iteration after the frame with the request identity.\<close>

definition reply_check_bottom :: "nat \<Rightarrow> req \<Rightarrow> ports \<Rightarrow> (bool \<times> req \<times> ports) outcome" where
  "reply_check_bottom fuel r1 ps1 =
     and_then (recv_reply_pipe r1 ps1) (\<lambda>(x, r2, ps2).
       case x of
         None \<Rightarrow> Inr (False, r2, ps2)
       | Some m \<Rightarrow>
           if \<not> msg_more m \<or> msg_data m \<noteq> []
           then and_then (req_skip fuel m r2 ps2) (\<lambda>(r3, ps3). req_reply_loop fuel r3 ps3)
           else req_reply_loop fuel (r2\<lparr>rq_message_begins := False\<rparr>) ps2)"

lemma req_loop_spec:
  "in_message r ps \<Longrightarrow> \<not> fq_more (req_fq r) \<Longrightarrow> rq_message_begins r \<Longrightarrow> to_read (req_fq r) ps + 2 \<le> fuel \<Longrightarrow>
     \<exists>b r' ps'. req_reply_loop fuel r ps = Inr (b, r', ps') \<and> reply_begun r ps b r' ps'"
proof (induction fuel arbitrary: r ps)
  case (Suc fuel)
  note prem = Suc.prems
  have skip: "\<exists>b r' ps'. and_then (req_skip fuel m (req_set_fq f r) ps1) (\<lambda>(r3, ps3). req_reply_loop fuel r3 ps3) = Inr (b, r', ps')
      \<and> reply_begun r ps b r' ps'"
    if "in_message (req_set_fq f r) ps1" "fq_more f = msg_more m" "to_read f ps1 < to_read (req_fq r) ps" "untouched ps ps1"
      "fq_items f = fq_items (req_fq r)" for m f ps1
  proof -
    note g = that
    have "fq_more (req_fq (req_set_fq f r)) = msg_more m" "to_read (req_fq (req_set_fq f r)) ps1 < fuel" using g(2,3) prem(4) by simp_all
    from req_skip_spec [OF g(1) this] obtain f2 ps2 where
      s: "req_skip fuel m (req_set_fq f r) ps1 = Inr (req_set_fq f2 r, ps2)" "in_message (req_set_fq f2 r) ps2" "\<not> fq_more f2"
        "untouched ps1 ps2" "fq_items f2 = fq_items f" "to_read f2 ps2 \<le> to_read f ps1"
      by auto
    have "\<not> fq_more (req_fq (req_set_fq f2 r))" "rq_message_begins (req_set_fq f2 r)"
      "to_read (req_fq (req_set_fq f2 r)) ps2 + 2 \<le> fuel"
      using s(3,6) g(3) prem(3,4) by simp_all
    from Suc.IH [OF s(2) this] obtain b r' ps' where
      b: "req_reply_loop fuel (req_set_fq f2 r) ps2 = Inr (b, r', ps')" "reply_begun (req_set_fq f2 r) ps2 b r' ps'" by blast
    have "untouched ps ps2" using untouched_trans [OF g(4) s(4)] .
    then have "reply_begun r ps b r' ps'" using reply_begun_later [OF b(2)] s(5) g(5) by simp
    then show ?thesis using s(1) b(1) by auto
  qed
  have stop: "req_reply_loop fuel (r2\<lparr>rq_message_begins := False\<rparr>) ps2 = Inr (True, r2\<lparr>rq_message_begins := False\<rparr>, ps2)" for r2 ps2
    using prem(4) by (cases fuel) simp_all
  show ?case
  proof (cases "rq_id_frames r")
    case False
    then have unf: "req_reply_loop (Suc fuel) r ps = reply_check_bottom fuel r ps"
      using prem(3) by (simp add: reply_check_bottom_def)
    obtain x f ps1 where x: "recv_reply_pipe r ps = Inr (x, req_set_fq f r, ps1)" "reply_frame r ps x f ps1"
      using recv_reply_spec [OF prem(1)] by blast
    show ?thesis
    proof (cases x)
      case None
      then show ?thesis using x reply_none unfolding unf reply_check_bottom_def by auto
    next
      case (Some m)
      have fr: "in_message (req_set_fq f r) ps1" "fq_more f = msg_more m" "to_read f ps1 < to_read (req_fq r) ps" "untouched ps ps1"
        "fq_items f = fq_items (req_fq r)"
        using x(2) unfolding Some by (auto simp: reply_frame_def)
      show ?thesis
      proof (cases "\<not> msg_more m \<or> msg_data m \<noteq> []")
        case True
        then show ?thesis using skip [OF fr] x(1) Some unfolding unf reply_check_bottom_def by simp
      next
        case ok: False
        obtain q xs where q: "allowed r q" "q \<in> fq_items f" "ready (ps q) = xs @ m # ready (ps1 q)" "fq_current_pipe f = q"
          using x(2) ok unfolding Some by (auto simp: reply_frame_def)
        have "reply_begun r ps True ((req_set_fq f r)\<lparr>rq_message_begins := False\<rparr>) ps1"
        proof (rule reply_bottom [OF prem(1) x(1) [unfolded Some] x(2) [unfolded Some]])
          show "\<exists>q. allowed r q \<and> q \<in> fq_items f \<and> fq_current_pipe f = q
              \<and> (\<exists>xs es. reply_envelope r (es @ [m]) \<and> ready (ps q) = xs @ es @ m # ready (ps1 q))"
            using q ok False by (intro exI [of _ q] conjI exI [of _ xs] exI [of _ "[]"]) (simp_all add: reply_envelope_def)
        qed (use ok req_self in auto)
        then show ?thesis using x(1) Some ok stop unfolding unf reply_check_bottom_def by auto
      qed
    qed
  next
    case ids: True
    obtain x f ps1 where x: "recv_reply_pipe r ps = Inr (x, req_set_fq f r, ps1)" "reply_frame r ps x f ps1"
      using recv_reply_spec [OF prem(1)] by blast
    show ?thesis
    proof (cases x)
      case None
      then show ?thesis using x reply_none ids prem(3) by auto
    next
      case (Some m)
      have fr: "in_message (req_set_fq f r) ps1" "fq_more f = msg_more m" "to_read f ps1 < to_read (req_fq r) ps" "untouched ps ps1"
        "fq_items f = fq_items (req_fq r)"
        using x(2) unfolding Some by (auto simp: reply_frame_def)
      show ?thesis
      proof (cases "\<not> msg_more m \<or> length (msg_data m) \<noteq> 4 \<or> msg_data m \<noteq> id_bytes (rq_request_id r)")
        case True
        have "req_reply_loop (Suc fuel) r ps
            = and_then (req_skip fuel m (req_set_fq f r) ps1) (\<lambda>(r3, ps3). req_reply_loop fuel r3 ps3)"
          using x(1) Some True ids prem(3)
          by (cases "req_skip fuel m (req_set_fq f r) ps1") auto
        then show ?thesis using skip [OF fr] by simp
      next
        case ok: False
        then have unf: "req_reply_loop (Suc fuel) r ps = reply_check_bottom fuel (req_set_fq f r) ps1"
          using x(1) Some ids prem(3) length_id_bytes [of "rq_request_id r"] by (simp add: reply_check_bottom_def)
        obtain q xs where q: "allowed r q" "q \<in> fq_items f" "ready (ps q) = xs @ m # ready (ps1 q)" "fq_current_pipe f = q"
          using x(2) ok unfolding Some by (auto simp: reply_frame_def)
        have "fq_more (req_fq (req_set_fq f r))" using fr(2) ok by simp
        from recv_reply_next [OF fr(1) this] obtain m2 f2 ps2 where
          n: "recv_reply_pipe (req_set_fq f r) ps1 = Inr (Some m2, req_set_fq f2 (req_set_fq f r), ps2)"
            "reply_frame (req_set_fq f r) ps1 (Some m2) f2 ps2" "ready (ps1 q) = m2 # ready (ps2 q)"
            "msg_more m2 \<longrightarrow> fq_current_pipe f2 = q"
          using q(4) by auto
        have fr2: "in_message (req_set_fq f2 r) ps2" "fq_more f2 = msg_more m2" "to_read f2 ps2 < to_read (req_fq r) ps"
          "untouched ps1 ps2" "fq_items f2 = fq_items (req_fq r)"
          using n(2) fr(3,5) by (auto simp: reply_frame_def)
        show ?thesis
        proof (cases "\<not> msg_more m2 \<or> msg_data m2 \<noteq> []")
          case True
          have "untouched ps ps2" using untouched_trans [OF fr(4) fr2(4)] .
          then show ?thesis
            using skip [OF fr2(1-3) _ fr2(5)] n(1) True unfolding unf reply_check_bottom_def by simp
        next
          case ok2: False
          obtain q2 where q2: "allowed r q2" "q2 \<in> fq_items f2" "fq_current_pipe f2 = q2"
              "\<exists>xs. ready (ps1 q2) = xs @ m2 # ready (ps2 q2)"
            using n(2) ok2 by (auto simp: reply_frame_def)
          then have "q2 = q" using n(4) ok2 by simp
          have "reply_begun r ps True ((req_set_fq f2 (req_set_fq f r))\<lparr>rq_message_begins := False\<rparr>) ps2"
          proof (rule reply_bottom [OF fr(1) n(1,2)])
            show "\<exists>q. allowed (req_set_fq f r) q \<and> q \<in> fq_items f2 \<and> fq_current_pipe f2 = q
                \<and> (\<exists>xs es. reply_envelope (req_set_fq f r) (es @ [m2]) \<and> ready (ps q) = xs @ es @ m2 # ready (ps2 q))"
              using q q2 \<open>q2 = q\<close> ok ok2 ids n(3)
              by (intro exI [of _ q] conjI exI [of _ xs] exI [of _ "[m]"]) (simp_all add: reply_envelope_def)
          qed (use ok2 fr in auto)
          then show ?thesis using n(1) ok2 stop unfolding unf reply_check_bottom_def by auto
        qed
      qed
    qed
  qed
qed simp


lemma req_xrecv_spec:
  assumes "in_message r ps" "\<not> fq_more (req_fq r)" "rq_message_begins r" "rq_receiving_reply r"
  shows "\<exists>x r' ps'. req_xrecv r ps = Inr (x, r', ps') \<and> untouched ps ps' \<and> in_message r' ps'
     \<and> fq_items (req_fq r') = fq_items (req_fq r) \<and> req_lb r' = req_lb r \<and> rq_reply_pipe r' = rq_reply_pipe r
     \<and> (case x of
          Failed e \<Rightarrow> e = Eagain \<and> rq_receiving_reply r' \<and> rq_message_begins r' \<and> \<not> fq_more (req_fq r')
        | Got m \<Rightarrow> rq_receiving_reply r' = msg_more m \<and> rq_message_begins r' = (\<not> msg_more m) \<and> fq_more (req_fq r') = msg_more m
            \<and> (\<exists>q xs es. q \<in> fq_items (req_fq r) \<and> allowed r q \<and> reply_envelope r es \<and> ready (ps q) = xs @ es @ m # ready (ps' q)))"
proof -
  have "fq_ok (req_fq r)" using assms(1) by (simp add: in_message_def fq_inv_def)
  then have "to_read (req_fq r) ps + 2 \<le> queued (req_fq r) ps + 3" using to_read_queued [of "req_fq r" ps] by simp
  from req_loop_spec [OF assms(1-3) this] obtain b r1 ps1 where
    l: "req_reply_loop (queued (req_fq r) ps + 3) r ps = Inr (b, r1, ps1)" "reply_begun r ps b r1 ps1" by blast
  have g: "in_message r1 ps1" "untouched ps ps1" "fq_items (req_fq r1) = fq_items (req_fq r)" "fq_more (req_fq r1) = b"
    and r1: "r1 = req_set_fq (req_fq r1) (if b then r\<lparr>rq_message_begins := False\<rparr> else r)"
    using l(2) unfolding reply_begun_def by blast+
  have f1: "req_lb r1 = req_lb r" "rq_reply_pipe r1 = rq_reply_pipe r" "rq_receiving_reply r1"
    "rq_message_begins r1 = (\<not> b)"
    by (subst r1; use assms(3,4) in \<open>simp add: req_set_fq_def\<close>)+
  show ?thesis
  proof (cases b)
    case False
    then have "req_xrecv r ps = Inr (Failed Eagain, r1, ps1)"
      using assms(4) l(1) by (simp add: req_xrecv_def del: req_reply_loop.simps)
    then show ?thesis using g f1 False by auto
  next
    case True
    then have "fq_more (req_fq r1)" using g(4) by simp
    from recv_reply_next [OF g(1) this] obtain m f ps2 where
      n: "recv_reply_pipe r1 ps1 = Inr (Some m, req_set_fq f r1, ps2)" "reply_frame r1 ps1 (Some m) f ps2"
        "ready (ps1 (fq_current_pipe (req_fq r1))) = m # ready (ps2 (fq_current_pipe (req_fq r1)))" by blast
    have fr: "in_message (req_set_fq f r1) ps2" "fq_more f = msg_more m" "untouched ps1 ps2" "fq_items f = fq_items (req_fq r1)"
      using n(2) by (auto simp: reply_frame_def)
    define r2 where "r2 = (if \<not> msg_more m then (req_set_fq f r1)\<lparr>rq_receiving_reply := False, rq_message_begins := True\<rparr>
        else req_set_fq f r1)"
    have run: "req_xrecv r ps = Inr (Got m, r2, ps2)"
      using assms(4) l(1) True n(1) by (simp add: req_xrecv_def r2_def del: req_reply_loop.simps)
    have r2: "req_fq r2 = f" "req_lb r2 = req_lb r" "rq_reply_pipe r2 = rq_reply_pipe r"
      "rq_receiving_reply r2 = msg_more m" "rq_message_begins r2 = (\<not> msg_more m)"
      using f1 True by (simp_all add: r2_def req_set_fq_def req_fq_def)
    have im: "in_message r2 ps2" using fr(1) r2 f1(2) by (simp add: in_message_def allowed_def)
    obtain q xs es where q: "q \<in> fq_items (req_fq r)" "allowed r q" "fq_current_pipe (req_fq r1) = q" "reply_envelope r es"
        "ready (ps q) = xs @ es @ ready (ps1 q)"
      using l(2) True unfolding reply_begun_def by blast
    then have "ready (ps q) = xs @ es @ m # ready (ps2 q)" using n(3) by simp
    then show ?thesis
      using run im r2 q fr(2,4) g(3) untouched_trans [OF g(2) fr(3)]
      by (intro exI [of _ "Got m"] exI [of _ r2] exI [of _ ps2]) auto
  qed
qed

end
