(* ===== verification/Zmq_Rep.thy ===== *)
theory Zmq_Rep
  imports Zmq_Req
begin

section \<open>Routing of requests and replies\<close>

text \<open>
  \<open>router_t\<close> delivers the identity of a peer in front of each of its messages and takes the first frame
  of what it sends for the identity of the receiver; \<open>rep_t\<close> sends the frames in front of a
  request back to the peer it came from.
\<close>

subsection \<open>Reading from a ROUTER\<close>

text \<open>Between two messages, and within a message of the pipe \<open>p\<close>.\<close>

definition idle_read :: "router \<Rightarrow> ports \<Rightarrow> bool" where
  "idle_read rt ps \<longleftrightarrow> fq_inv (rt_fq rt) ps \<and> \<not> fq_more (rt_fq rt) \<and> \<not> rt_prefetched rt \<and> \<not> rt_more_in rt"

definition mid_read :: "router \<Rightarrow> ports \<Rightarrow> nat \<Rightarrow> bool" where
  "mid_read rt ps p \<longleftrightarrow> fq_inv (rt_fq rt) ps \<and> p \<in> fq_items (rt_fq rt) \<and> (fq_more (rt_fq rt) \<longrightarrow> fq_current_pipe (rt_fq rt) = p)
     \<and> (if rt_prefetched rt then rt_identity_sent rt \<and> fq_more (rt_fq rt) = msg_more (rt_prefetched_msg rt)
        else rt_more_in rt \<and> fq_more (rt_fq rt))"

definition frames :: "router \<Rightarrow> ports \<Rightarrow> nat \<Rightarrow> zmsg list" where
  "frames rt ps p = (if rt_prefetched rt then [rt_prefetched_msg rt] else []) @ ready (ps p)"

definition no_identities :: "fq \<Rightarrow> ports \<Rightarrow> bool" where
  "no_identities f ps \<longleftrightarrow> (\<forall>p \<in> fq_items f. \<forall>m \<in> set (ready (ps p)). \<not> msg_identity m)"

text \<open>What reading leaves of the state for writing.\<close>

definition same_writing :: "router \<Rightarrow> router \<Rightarrow> bool" where
  "same_writing rt rt' \<longleftrightarrow> rt_current_out rt' = rt_current_out rt \<and> rt_more_out rt' = rt_more_out rt \<and> rt_outpipes rt' = rt_outpipes rt
     \<and> rt_mandatory rt' = rt_mandatory rt \<and> rt_raw_sock rt' = rt_raw_sock rt \<and> rt_options_raw rt' = rt_options_raw rt
     \<and> fq_items (rt_fq rt') = fq_items (rt_fq rt)"

lemma no_identities_later:
  "no_identities f ps \<Longrightarrow> untouched ps ps' \<Longrightarrow> fq_items f' = fq_items f \<Longrightarrow> no_identities f' ps'"
  unfolding no_identities_def
proof (intro ballI)
  fix p m
  assume a: "\<forall>p\<in>fq_items f. \<forall>m\<in>set (ready (ps p)). \<not> msg_identity m" "untouched ps ps'" "fq_items f' = fq_items f"
    "p \<in> fq_items f'" "m \<in> set (ready (ps' p))"
  obtain taken where "ready (ps p) = taken @ ready (ps' p)" using untouchedD(3) [OF a(2)] by blast
  then have "m \<in> set (ready (ps p))" using a(5) by simp
  then show "\<not> msg_identity m" using a(1,3,4) by blast
qed

lemma router_read_next:
  assumes "mid_read rt ps p" "no_identities (rt_fq rt) ps"
  shows "\<exists>m rt' ps'. router_xrecv rt ps = Inr (Some m, rt', ps') \<and> untouched ps ps' \<and> frames rt ps p = m # frames rt' ps' p
     \<and> (if msg_more m then mid_read rt' ps' p else idle_read rt' ps') \<and> same_writing rt rt' \<and> \<not> rt_prefetched rt'
     \<and> to_read (rt_fq rt') ps' \<le> to_read (rt_fq rt) ps \<and> (\<not> rt_prefetched rt \<longrightarrow> to_read (rt_fq rt') ps' < to_read (rt_fq rt) ps)"
proof (cases "rt_prefetched rt")
  case True
  let ?m = "rt_prefetched_msg rt" and ?r = "rt\<lparr>rt_prefetched := False, rt_more_in := msg_more (rt_prefetched_msg rt)\<rparr>"
  have i: "rt_identity_sent rt" "fq_more (rt_fq rt) = msg_more ?m" using assms(1) True by (simp_all add: mid_read_def)
  have "router_xrecv rt ps = Inr (Some ?m, ?r, ps)" using True i by (simp add: router_xrecv_def)
  moreover have "if msg_more ?m then mid_read ?r ps p else idle_read ?r ps"
    using assms(1) i by (simp add: mid_read_def idle_read_def)
  moreover have "frames rt ps p = ?m # frames ?r ps p" using True by (simp add: frames_def)
  ultimately show ?thesis
    using True by (intro exI [of _ ?m] exI [of _ ?r] exI [of _ ps]) (simp add: same_writing_def)
next
  case False
  then have g: "fq_inv (rt_fq rt) ps" "rt_more_in rt" "fq_more (rt_fq rt)" "fq_current_pipe (rt_fq rt) = p" "p \<in> fq_items (rt_fq rt)"
    using assms(1) by (simp_all add: mid_read_def)
  have "ready (ps p) \<noteq> []" using g(1,3,4) by (auto simp: fq_inv_def continues_def)
  then have "\<not> msg_identity (hd (ready (ps p)))" using assms(2) g(5) by (auto simp: no_identities_def)
  then obtain m f ps' where c: "recv_until (\<lambda>m p. \<not> msg_identity m) (Suc (queued (rt_fq rt) ps)) (rt_fq rt) ps = Inr (Some (m, p), f, ps')"
      "recv_result (\<lambda>m p. \<not> msg_identity m) (rt_fq rt) ps (Some (m, p)) f ps'" "ready (ps p) = m # ready (ps' p)"
    using recv_continue [OF g(1,3), of "\<lambda>m p. \<not> msg_identity m"] g(4) by auto
  let ?r = "rt\<lparr>rt_fq := f, rt_more_in := msg_more m\<rparr>"
  have "router_xrecv rt ps = Inr (Some m, ?r, ps')"
    using False g(2) c(1) by (simp add: router_xrecv_def router_next_def del: recv_until.simps)
  moreover have res: "fq_inv f ps'" "fq_items f = fq_items (rt_fq rt)" "untouched ps ps'" "fq_more f = msg_more m"
    "msg_more m \<longrightarrow> fq_current_pipe f = p" "to_read f ps' < to_read (rt_fq rt) ps"
    using c(2) by (simp_all add: recv_result_def)
  moreover have "if msg_more m then mid_read ?r ps' p else idle_read ?r ps'"
    using res g(5) False by (simp add: mid_read_def idle_read_def)
  moreover have "frames rt ps p = m # frames ?r ps' p" using False c(3) by (simp add: frames_def)
  ultimately show ?thesis
    using False by (intro exI [of _ m] exI [of _ ?r] exI [of _ ps']) (simp add: same_writing_def)
qed

lemma router_read_first:
  assumes "idle_read rt ps"
  shows "\<exists>x rt' ps'. router_xrecv rt ps = Inr (x, rt', ps') \<and> untouched ps ps' \<and> same_writing rt rt'
     \<and> to_read (rt_fq rt') ps' \<le> to_read (rt_fq rt) ps
     \<and> (case x of
          None \<Rightarrow> idle_read rt' ps'
        | Some i \<Rightarrow> \<exists>p xs. i = msg_of True (po_identity (ps p)) \<and> p \<in> fq_items (rt_fq rt) \<and> mid_read rt' ps' p \<and> rt_prefetched rt'
            \<and> ready (ps p) = xs @ frames rt' ps' p \<and> to_read (rt_fq rt') ps' < to_read (rt_fq rt) ps)"
proof -
  have g: "fq_inv (rt_fq rt) ps" "\<not> rt_prefetched rt" "\<not> rt_more_in rt" "\<not> fq_more (rt_fq rt)"
    using assms by (simp_all add: idle_read_def)
  let ?P = "\<lambda>m p. \<not> msg_identity m"
  obtain x f ps' where r: "recv_until ?P (Suc (queued (rt_fq rt) ps)) (rt_fq rt) ps = Inr (x, f, ps')"
      "recv_result ?P (rt_fq rt) ps x f ps'"
    using recv_until_enough [OF g(1)] by blast
  have base: "fq_inv f ps'" "fq_items f = fq_items (rt_fq rt)" "untouched ps ps'" "to_read f ps' \<le> to_read (rt_fq rt) ps"
    using r(2) by (simp_all add: recv_result_def)
  show ?thesis
  proof (cases x)
    case None
    let ?r = "rt\<lparr>rt_fq := f\<rparr>"
    have "router_xrecv rt ps = Inr (None, ?r, ps')"
      using r(1) g None by (simp add: router_xrecv_def router_next_def del: recv_until.simps)
    moreover have "idle_read ?r ps'" using base(1) r(2) g None by (simp add: idle_read_def recv_result_def)
    ultimately show ?thesis
      using base by (intro exI [of _ None] exI [of _ ?r] exI [of _ ps']) (simp add: same_writing_def)
  next
    case (Some mp)
    obtain m p where mp: "mp = (m, p)" by (cases mp)
    let ?r = "rt\<lparr>rt_fq := f, rt_prefetched_msg := m, rt_prefetched := True, rt_identity_sent := True\<rparr>"
    have run: "router_xrecv rt ps = Inr (Some (msg_of True (po_identity (ps' p))), ?r, ps')"
      using r(1) g Some mp by (simp add: router_xrecv_def router_next_def del: recv_until.simps)
    have p: "p \<in> fq_items (rt_fq rt)" "fq_more f = msg_more m" "msg_more m \<longrightarrow> fq_current_pipe f = p"
      "to_read f ps' < to_read (rt_fq rt) ps" "\<exists>xs. ready (ps p) = xs @ m # ready (ps' p)"
      using r(2) unfolding recv_result_def Some mp by simp_all
    have "mid_read ?r ps' p" using base p by (simp add: mid_read_def)
    moreover obtain xs where "ready (ps p) = xs @ frames ?r ps' p" using p(5) by (auto simp: frames_def)
    moreover have "po_identity (ps' p) = po_identity (ps p)" using untouchedD(2) [OF base(3)] .
    ultimately show ?thesis
      using run base p(1,4)
      by (intro exI [of _ "Some (msg_of True (po_identity (ps' p)))"] exI [of _ ?r] exI [of _ ps'])
        (auto simp: same_writing_def)
  qed
qed


subsection \<open>Writing to a ROUTER\<close>

lemma check_write_same: "can_write q \<Longrightarrow> port_check_write q = (True, q)"
  by (auto simp: can_write_iff port_check_write_def pipe_check_write_def)

lemma check_write_refused:
  assumes "\<not> can_write q"
  shows "\<exists>q'. port_check_write q = (False, q') \<and> same_queues q q' \<and> \<not> can_write q'"
proof -
  obtain q' where c: "port_check_write q = (False, q')"
    using assms by (cases "port_check_write q") (auto simp: can_write_def)
  then have "same_queues q q' \<and> \<not> can_write q'"
    by (auto simp: port_check_write_def pipe_check_write_def same_queues_def read_side_def can_write_def split: if_splits)
  then show ?thesis using c by blast
qed

lemma router_send_prefix:
  assumes "\<not> rt_more_out rt" "rt_current_out rt = None" "map_of (rt_outpipes rt) i = Some (p, a)" "can_write (ps p)"
  shows "router_xsend (msg_of True i) rt ps = Inr (None, rt\<lparr>rt_more_out := True, rt_current_out := Some p\<rparr>, ps)"
  using assms check_write_same [OF assms(4)] by (simp add: router_xsend_def router_prefix_def msg_of_def Let_def)

lemma router_send_frame:
  assumes "rt_more_out rt" "rt_current_out rt = Some p" "can_write (ps p)" "\<not> rt_raw_sock rt" "\<not> rt_options_raw rt"
  shows "router_xsend m rt ps
     = Inr (None, rt\<lparr>rt_more_out := msg_more m, rt_current_out := (if msg_more m then Some p else None)\<rparr>,
            ps(p := after_part m (ps p)))"
proof -
  obtain q where "port_write m (ps p) = (True, q)" using port_write_ok [of m "ps p"] assms(3) by (cases "port_write m (ps p)") auto
  then show ?thesis using assms by (auto simp: router_xsend_def after_part_def Let_def)
qed



subsection \<open>A request and its labels\<close>

text \<open>
  \<open>psi\<close> are the ports before the request was received. All peers can be written to and are in the
  table of identities; nothing is half written.
\<close>

definition peers_ok :: "router \<Rightarrow> ports \<Rightarrow> bool" where
  "peers_ok rt ps \<longleftrightarrow> \<not> rt_raw_sock rt \<and> \<not> rt_options_raw rt \<and> no_identities (rt_fq rt) ps
     \<and> (\<forall>p \<in> fq_items (rt_fq rt). can_write (ps p) \<and> ypipe_ok (po_out (ps p)) \<and> \<not> has_delimiter (ready (ps p))
          \<and> po_identity (ps p) \<noteq> [] \<and> (\<exists>a. map_of (rt_outpipes rt) (po_identity (ps p)) = Some (p, a)))"

definition behind :: "ports \<Rightarrow> ports \<Rightarrow> bool" where
  "behind psi ps \<longleftrightarrow> (\<forall>q. \<exists>taken. ready (psi q) = taken @ ready (ps q))"

text \<open>The outbound pipes are as before, but that of \<open>p\<close> holds \<open>w\<close>, which is not complete.\<close>

definition holds_only :: "ports \<Rightarrow> router \<Rightarrow> ports \<Rightarrow> nat option \<Rightarrow> zmsg list \<Rightarrow> bool" where
  "holds_only psi rt ps x w \<longleftrightarrow>
     (\<forall>q \<in> fq_items (rt_fq rt). mp_partial (pipe_of (po_out (psi q))) = []
        \<and> pipe_of (po_out (ps q)) = (pipe_of (po_out (psi q)))\<lparr>mp_partial := (if Some q = x then w else [])\<rparr>)"

definition between :: "ports \<Rightarrow> router \<Rightarrow> ports \<Rightarrow> bool" where
  "between psi rt ps \<longleftrightarrow> peers_ok rt ps \<and> behind psi ps \<and> idle_read rt ps \<and> rt_current_out rt = None \<and> \<not> rt_more_out rt
     \<and> holds_only psi rt ps None []"

definition labelling :: "ports \<Rightarrow> nat \<Rightarrow> zmsg list \<Rightarrow> zmsg list \<Rightarrow> router \<Rightarrow> ports \<Rightarrow> bool" where
  "labelling psi p w b rt ps \<longleftrightarrow> peers_ok rt ps \<and> behind psi ps \<and> mid_read rt ps p
     \<and> rt_current_out rt = Some p \<and> rt_more_out rt \<and> (\<forall>m \<in> set w. msg_more m) \<and> holds_only psi rt ps (Some p) w
     \<and> (\<exists>xs. ready (psi p) = xs @ w @ b @ frames rt ps p)"

definition replying :: "ports \<Rightarrow> nat \<Rightarrow> zmsg list \<Rightarrow> router \<Rightarrow> ports \<Rightarrow> bool" where
  "replying psi p w rt ps \<longleftrightarrow> peers_ok rt ps \<and> idle_read rt ps \<and> p \<in> fq_items (rt_fq rt)
     \<and> rt_current_out rt = Some p \<and> rt_more_out rt \<and> holds_only psi rt ps (Some p) w"

lemma holds_only_read:
  assumes "holds_only psi rt ps x w" "untouched ps ps'" "fq_items (rt_fq rt') = fq_items (rt_fq rt)"
  shows "holds_only psi rt' ps' x w"
  using assms(1,3) untouchedD(1) [OF assms(2)] by (simp add: holds_only_def)

lemma holds_only_none: "holds_only psi rt ps (Some p) [] \<longleftrightarrow> holds_only psi rt ps None []"
  by (simp add: holds_only_def)

lemma behind_trans: "behind psi ps \<Longrightarrow> untouched ps ps' \<Longrightarrow> behind psi ps'"
  unfolding behind_def using untouchedD(3) by (metis append.assoc)

lemma peers_ok_read:
  assumes "peers_ok rt ps" "untouched ps ps'" "same_writing rt rt'"
  shows "peers_ok rt' ps'"
proof -
  have it: "fq_items (rt_fq rt') = fq_items (rt_fq rt)" using assms(3) by (simp add: same_writing_def)
  have "no_identities (rt_fq rt') ps'"
    using no_identities_later [OF _ assms(2) it] assms(1) by (simp add: peers_ok_def)
  then show ?thesis
    using assms(1,3) untouchedD [OF assms(2)] it by (simp add: peers_ok_def same_writing_def)
qed

lemma peers_ok_write:
  assumes "peers_ok rt ps" "can_write q" "ypipe_ok (po_out q)" "po_in q = po_in (ps p)" "po_identity q = po_identity (ps p)"
    "rt_fq rt' = rt_fq rt" "rt_outpipes rt' = rt_outpipes rt" "rt_raw_sock rt' = rt_raw_sock rt" "rt_options_raw rt' = rt_options_raw rt"
  shows "peers_ok rt' (ps(p := q))"
  using assms by (auto simp: peers_ok_def no_identities_def)

lemma behind_write: "behind psi ps \<Longrightarrow> po_in q = po_in (ps p) \<Longrightarrow> behind psi (ps(p := q))"
  by (auto simp: behind_def)

lemma fq_inv_write:
  assumes "fq_inv f ps" "po_in q = po_in (ps p)" "read_side (po_end q) = read_side (po_end (ps p))"
  shows "fq_inv f (ps(p := q))"
  by (rule fq_inv_same [OF assms(1)]) (use assms(2,3) in auto)

lemma read_states_write:
  assumes "po_in q = po_in (ps x)" "read_side (po_end q) = read_side (po_end (ps x))" "rt_fq rt' = rt_fq rt"
    "rt_prefetched rt' = rt_prefetched rt" "rt_identity_sent rt' = rt_identity_sent rt" "rt_more_in rt' = rt_more_in rt"
    "rt_prefetched_msg rt' = rt_prefetched_msg rt"
  shows "mid_read rt ps p \<Longrightarrow> mid_read rt' (ps(x := q)) p" "idle_read rt ps \<Longrightarrow> idle_read rt' (ps(x := q))"
    "frames rt' (ps(x := q)) p = frames rt ps p"
  using fq_inv_write [where f="rt_fq rt" and ps=ps and p=x and q=q, OF _ assms(1,2)] assms
  by (auto simp: mid_read_def idle_read_def frames_def)

text \<open>The identity of the peer begins the reply.\<close>

lemma labelling_begins:
  assumes b: "between psi rt ps"
    and r: "untouched ps ps'" "same_writing rt rt'" "p \<in> fq_items (rt_fq rt)" "mid_read rt' ps' p" "ready (ps p) = xs @ frames rt' ps' p"
  shows "\<exists>rt2. router_xsend (msg_of True (po_identity (ps p))) rt' ps' = Inr (None, rt2, ps') \<and> labelling psi p [] [] rt2 ps'
     \<and> rt_fq rt2 = rt_fq rt' \<and> rt_prefetched rt2 = rt_prefetched rt'"
proof -
  have pk: "peers_ok rt' ps'" using peers_ok_read [OF _ r(1,2)] b by (simp add: between_def)
  have it: "fq_items (rt_fq rt') = fq_items (rt_fq rt)" using r(2) by (simp add: same_writing_def)
  obtain a where a: "map_of (rt_outpipes rt') (po_identity (ps' p)) = Some (p, a)" and c: "can_write (ps' p)"
    using pk r(3) it by (auto simp: peers_ok_def)
  have id: "po_identity (ps' p) = po_identity (ps p)" using untouchedD(2) [OF r(1)] .
  let ?r = "rt'\<lparr>rt_more_out := True, rt_current_out := Some p\<rparr>"
  have "router_xsend (msg_of True (po_identity (ps p))) rt' ps' = Inr (None, ?r, ps')"
    using router_send_prefix [where ps=ps' and p=p and a=a and rt=rt' and i="po_identity (ps' p)", OF _ _ a c] b r(2) id
    by (simp add: between_def same_writing_def)
  moreover have "labelling psi p [] [] ?r ps'"
  proof -
    obtain taken where "ready (psi p) = taken @ ready (ps p)" using b by (auto simp: between_def behind_def)
    then have "ready (psi p) = (taken @ xs) @ frames ?r ps' p" using r(5) by (simp add: frames_def)
    moreover have "holds_only psi ?r ps' (Some p) []"
      unfolding holds_only_none by (rule holds_only_read [where ps=ps and rt=rt]) (use b r(1) it in \<open>simp_all add: between_def\<close>)
    moreover have "peers_ok ?r ps'" using pk by (simp add: peers_ok_def)
    moreover have "mid_read ?r ps' p" using r(4) by (simp add: mid_read_def)
    moreover have "behind psi ps'" using b r(1) by (auto simp: between_def intro: behind_trans)
    ultimately show ?thesis unfolding labelling_def by auto
  qed
  ultimately show ?thesis by auto
qed


lemma items_of_peers:
  assumes "fq_inv (rt_fq rt) ps" "peers_ok rt ps" "p \<in> fq_items (rt_fq rt)"
  shows "can_write (ps p)" "sends_ok (ps p)"
  using assms by (auto simp: peers_ok_def fq_inv_def reads_ok_def sends_ok_def end_ok_def can_write_iff)

lemma after_part_partial:
  assumes "can_write q" "ypipe_ok (po_out q)" "msg_more m"
  shows "pipe_of (po_out (after_part m q)) = (pipe_of (po_out q))\<lparr>mp_partial := mp_partial (pipe_of (po_out q)) @ [m]\<rparr>"
  using port_write_done(1) [OF assms(1), of m] write_refines [OF assms(2), of m True] assms(3)
  by (simp add: after_part_def mp_write_def)

lemma holds_only_more:
  assumes "holds_only psi rt ps (Some p) w" "pipe_of (po_out q) = (pipe_of (po_out (ps p)))\<lparr>mp_partial := w'\<rparr>"
    "rt_fq rt' = rt_fq rt"
  shows "holds_only psi rt' (ps(p := q)) (Some p) w'"
  using assms by (auto simp: holds_only_def)

text \<open>A part that is followed by others joins what the pipe \<open>p\<close> holds.\<close>

lemma writes_part:
  assumes inv: "fq_inv (rt_fq rt) ps" and pk: "peers_ok rt ps" and p: "p \<in> fq_items (rt_fq rt)"
    and o: "rt_more_out rt" "rt_current_out rt = Some p" "holds_only psi rt ps (Some p) w" and m: "msg_more m"
  shows "\<exists>q. router_xsend m rt ps = Inr (None, rt, ps(p := q)) \<and> peers_ok rt (ps(p := q)) \<and> po_in q = po_in (ps p)
     \<and> read_side (po_end q) = read_side (po_end (ps p)) \<and> holds_only psi rt (ps(p := q)) (Some p) (w @ [m])"
proof -
  let ?q = "after_part m (ps p)"
  note c = items_of_peers [OF inv pk p]
  note w = after_part_out [OF c, of m]
  have y: "ypipe_ok (po_out (ps p))" using c(2) by (simp add: sends_ok_def)
  have "rt\<lparr>rt_more_out := True, rt_current_out := Some p\<rparr> = rt" using o by simp
  then have "router_xsend m rt ps = Inr (None, rt, ps(p := ?q))"
    using router_send_frame [where ps=ps and p=p and m=m, OF o(1,2) c(1)] m pk by (simp add: peers_ok_def)
  moreover have "peers_ok rt (ps(p := ?q))" by (rule peers_ok_write [OF pk]) (use w m in simp_all)
  moreover have "mp_partial (pipe_of (po_out (ps p))) = w" using o(3) p by (simp add: holds_only_def)
  then have "holds_only psi rt (ps(p := ?q)) (Some p) (w @ [m])"
    by (intro holds_only_more [OF o(3)]) (use after_part_partial [OF c(1) y m] in simp_all)
  ultimately show ?thesis using w(4,6) by blast
qed

lemma reads_part:
  assumes "labelling psi p w b rt ps"
  shows "\<exists>m rt' ps'. router_xrecv rt ps = Inr (Some m, rt', ps') \<and> fq_inv (rt_fq rt') ps' \<and> fq_items (rt_fq rt') = fq_items (rt_fq rt)
     \<and> peers_ok rt' ps' \<and> behind psi ps' \<and> p \<in> fq_items (rt_fq rt')
     \<and> rt_more_out rt' \<and> rt_current_out rt' = Some p \<and> holds_only psi rt' ps' (Some p) w
     \<and> (\<exists>xs. ready (psi p) = xs @ w @ b @ m # frames rt' ps' p) \<and> (if msg_more m then mid_read rt' ps' p else idle_read rt' ps')
     \<and> \<not> rt_prefetched rt' \<and> to_read (rt_fq rt') ps' \<le> to_read (rt_fq rt) ps
     \<and> (\<not> rt_prefetched rt \<longrightarrow> to_read (rt_fq rt') ps' < to_read (rt_fq rt) ps)"
proof -
  have l: "peers_ok rt ps" "behind psi ps" "mid_read rt ps p" "rt_current_out rt = Some p" "rt_more_out rt"
    "holds_only psi rt ps (Some p) w" "\<exists>xs. ready (psi p) = xs @ w @ b @ frames rt ps p"
    using assms by (simp_all add: labelling_def)
  have "no_identities (rt_fq rt) ps" using l(1) by (simp add: peers_ok_def)
  from router_read_next [OF l(3) this] obtain m rt' ps' where r: "router_xrecv rt ps = Inr (Some m, rt', ps')" "untouched ps ps'"
      "frames rt ps p = m # frames rt' ps' p" "if msg_more m then mid_read rt' ps' p else idle_read rt' ps'" "same_writing rt rt'"
      "\<not> rt_prefetched rt'" "to_read (rt_fq rt') ps' \<le> to_read (rt_fq rt) ps"
      "\<not> rt_prefetched rt \<longrightarrow> to_read (rt_fq rt') ps' < to_read (rt_fq rt) ps"
    by blast
  have it: "fq_items (rt_fq rt') = fq_items (rt_fq rt)" using r(5) by (simp add: same_writing_def)
  have "fq_inv (rt_fq rt') ps'" using r(4) by (auto simp: mid_read_def idle_read_def split: if_splits)
  moreover have "peers_ok rt' ps'" by (rule peers_ok_read [OF l(1) r(2,5)])
  moreover have "behind psi ps'" by (rule behind_trans [OF l(2) r(2)])
  moreover have "holds_only psi rt' ps' (Some p) w" by (rule holds_only_read [OF l(6) r(2) it])
  moreover have "p \<in> fq_items (rt_fq rt')" using l(3) it by (simp add: mid_read_def)
  moreover have "rt_more_out rt'" "rt_current_out rt' = Some p" using l(4,5) r(5) by (simp_all add: same_writing_def)
  moreover have "\<exists>xs. ready (psi p) = xs @ w @ b @ m # frames rt' ps' p" using l(7) r(3) by simp
  ultimately show ?thesis using r it by blast
qed


text \<open>A label joins the reply, a malformed request takes the labels back.\<close>

lemma label_joins:
  assumes l: "labelling psi p w [] rt ps" and r: "router_xrecv rt ps = Inr (Some m, rt', ps')" and m: "msg_more m"
  shows "\<exists>ps2. router_xsend m rt' ps' = Inr (None, rt', ps2) \<and> labelling psi p (w @ [m]) [] rt' ps2
     \<and> to_read (rt_fq rt') ps2 = to_read (rt_fq rt') ps'"
proof -
  from reads_part [OF l] r m have s: "fq_inv (rt_fq rt') ps'" "peers_ok rt' ps'" "behind psi ps'" "p \<in> fq_items (rt_fq rt')"
    "rt_more_out rt'" "rt_current_out rt' = Some p" "holds_only psi rt' ps' (Some p) w"
    "\<exists>xs. ready (psi p) = xs @ w @ m # frames rt' ps' p" "mid_read rt' ps' p"
    by auto
  from writes_part [OF s(1,2,4,5,6,7) m] obtain q where q: "router_xsend m rt' ps' = Inr (None, rt', ps'(p := q))"
      "peers_ok rt' (ps'(p := q))" "po_in q = po_in (ps' p)" "read_side (po_end q) = read_side (po_end (ps' p))"
      "holds_only psi rt' (ps'(p := q)) (Some p) (w @ [m])" by blast
  note keep = read_states_write [where ps=ps' and x=p and q=q and rt=rt' and rt'=rt', OF q(3,4) refl refl refl refl refl]
  have "behind psi (ps'(p := q))" using s(3) q(3) by (rule behind_write)
  moreover have "\<exists>xs. ready (psi p) = xs @ (w @ [m]) @ [] @ frames rt' (ps'(p := q)) p" using s(8) keep(3) by simp
  moreover have "\<forall>m \<in> set (w @ [m]). msg_more m" using l m by (simp add: labelling_def)
  ultimately have "labelling psi p (w @ [m]) [] rt' (ps'(p := q))"
    using q(2,5) keep(1) s(5,6,9) unfolding labelling_def by blast
  moreover have "to_read (rt_fq rt') (ps'(p := q)) = to_read (rt_fq rt') ps'"
    unfolding to_read_def by (rule sum.cong) (use q(3) in auto)
  ultimately show ?thesis using q(1) by blast
qed

lemma labels_taken_back:
  assumes l: "labelling psi p w [] rt ps" and r: "router_xrecv rt ps = Inr (Some m, rt', ps')" and m: "\<not> msg_more m"
  shows "\<exists>rt2 ps2. router_rollback rt' ps' = Inr (rt2, ps2) \<and> between psi rt2 ps2
     \<and> rt_fq rt2 = rt_fq rt' \<and> rt_prefetched rt2 = rt_prefetched rt' \<and> to_read (rt_fq rt2) ps2 = to_read (rt_fq rt') ps'"
proof -
  from reads_part [OF l] r m have s: "fq_inv (rt_fq rt') ps'" "peers_ok rt' ps'" "behind psi ps'" "p \<in> fq_items (rt_fq rt')"
    "rt_more_out rt'" "rt_current_out rt' = Some p" "holds_only psi rt' ps' (Some p) w" "idle_read rt' ps'"
    by auto
  have c: "can_write (ps' p)" and y: "ypipe_ok (po_out (ps' p))" "pe_outpipe (po_end (ps' p))"
    using items_of_peers [OF s(1,2,4)] by (simp_all add: sends_ok_def)
  have part: "mp_partial (pipe_of (po_out (ps' p))) = w" using s(4,7) by (simp add: holds_only_def)
  then have "\<forall>m \<in> set (mp_partial (pipe_of (po_out (ps' p)))). msg_more m" using l by (simp add: labelling_def)
  from pipe_rollback_spec [OF y(1) this, of "po_end (ps' p)"] obtain y' where
    y': "pipe_rollback (po_end (ps' p)) (po_out (ps' p)) = Inr y'" "ypipe_ok y'"
      "pipe_of y' = (pipe_of (po_out (ps' p)))\<lparr>mp_partial := []\<rparr>" using y(2) by auto
  let ?q = "(ps' p)\<lparr>po_out := y'\<rparr>" and ?r = "rt'\<lparr>rt_current_out := None, rt_more_out := False\<rparr>"
  have run: "router_rollback rt' ps' = Inr (?r, ps'(p := ?q))"
    using s(6) y'(1) by (simp add: router_rollback_def port_rollback_def)
  have cw: "can_write ?q" using c by (simp add: can_write_iff pipe_full_def)
  have "peers_ok ?r (ps'(p := ?q))"
    by (rule peers_ok_write [where ps=ps' and rt=rt', OF s(2) cw]) (use y'(2) in simp_all)
  moreover have "behind psi (ps'(p := ?q))" using s(3) by (rule behind_write) simp
  moreover have "idle_read ?r (ps'(p := ?q))"
    by (rule read_states_write(2) [where ps=ps' and rt=rt', OF _ _ _ _ _ _ _ s(8)]) simp_all
  moreover have "holds_only psi ?r (ps'(p := ?q)) (Some p) []"
    by (rule holds_only_more [where ps=ps' and rt=rt', OF s(7)]) (use y'(3) in simp_all)
  ultimately have "between psi ?r (ps'(p := ?q))" by (simp add: between_def holds_only_none)
  moreover have "to_read (rt_fq ?r) (ps'(p := ?q)) = to_read (rt_fq rt') ps'"
    unfolding to_read_def by simp (rule sum.cong, auto)
  ultimately show ?thesis using run by auto
qed


subsection \<open>The loop over the labels\<close>

definition label_state :: "ports \<Rightarrow> router \<Rightarrow> ports \<Rightarrow> bool" where
  "label_state psi rt ps \<longleftrightarrow> between psi rt ps \<or> (\<exists>p w. labelling psi p w [] rt ps)"

definition left_to_do :: "router \<Rightarrow> ports \<Rightarrow> nat" where
  "left_to_do rt ps = 2 * to_read (rt_fq rt) ps + (if rt_prefetched rt then 1 else 0)"

lemma labels_from_label:
  assumes l: "labelling psi p w [] rt ps"
  shows "\<exists>m rt1 ps1. router_xrecv rt ps = Inr (Some m, rt1, ps1)
     \<and> (if msg_more m then \<exists>ps2. router_xsend m rt1 ps1 = Inr (None, rt1, ps2) \<and> labelling psi p (w @ [m]) [] rt1 ps2
            \<and> left_to_do rt1 ps2 < left_to_do rt ps
        else \<exists>rt2 ps2. router_rollback rt1 ps1 = Inr (rt2, ps2) \<and> between psi rt2 ps2 \<and> left_to_do rt2 ps2 < left_to_do rt ps)"
proof -
  from reads_part [OF l] obtain m rt1 ps1 where r: "router_xrecv rt ps = Inr (Some m, rt1, ps1)" "\<not> rt_prefetched rt1"
      "to_read (rt_fq rt1) ps1 \<le> to_read (rt_fq rt) ps"
      "\<not> rt_prefetched rt \<longrightarrow> to_read (rt_fq rt1) ps1 < to_read (rt_fq rt) ps" by blast
  have less: "left_to_do rt2 ps2 < left_to_do rt ps"
    if "rt_prefetched rt2 = rt_prefetched rt1" "to_read (rt_fq rt2) ps2 = to_read (rt_fq rt1) ps1" for rt2 ps2
    using that r(2-4) by (auto simp: left_to_do_def)
  show ?thesis
  proof (cases "msg_more m")
    case True
    from label_joins [OF l r(1) True] obtain ps2 where "router_xsend m rt1 ps1 = Inr (None, rt1, ps2)"
        "labelling psi p (w @ [m]) [] rt1 ps2" "to_read (rt_fq rt1) ps2 = to_read (rt_fq rt1) ps1" by blast
    then show ?thesis using r(1) True less [of rt1 ps2] by auto
  next
    case False
    from labels_taken_back [OF l r(1) False] obtain rt2 ps2 where "router_rollback rt1 ps1 = Inr (rt2, ps2)" "between psi rt2 ps2"
        "rt_prefetched rt2 = rt_prefetched rt1" "to_read (rt_fq rt2) ps2 = to_read (rt_fq rt1) ps1" by blast
    then show ?thesis using r(1) False less [of rt2 ps2] by auto
  qed
qed

lemma labels_from_idle:
  assumes b: "between psi rt ps"
  shows "(\<exists>rt1 ps1. router_xrecv rt ps = Inr (None, rt1, ps1) \<and> between psi rt1 ps1)
    \<or> (\<exists>m rt1 ps1 rt2 p. router_xrecv rt ps = Inr (Some m, rt1, ps1) \<and> msg_more m \<and> msg_data m \<noteq> []
          \<and> router_xsend m rt1 ps1 = Inr (None, rt2, ps1) \<and> labelling psi p [] [] rt2 ps1 \<and> left_to_do rt2 ps1 < left_to_do rt ps)"
proof -
  have i: "idle_read rt ps" using b by (simp add: between_def)
  from router_read_first [OF i] obtain x rt1 ps1 where r: "router_xrecv rt ps = Inr (x, rt1, ps1)" "untouched ps ps1"
      "same_writing rt rt1" "to_read (rt_fq rt1) ps1 \<le> to_read (rt_fq rt) ps"
      "case x of None \<Rightarrow> idle_read rt1 ps1
        | Some i \<Rightarrow> \<exists>p xs. i = msg_of True (po_identity (ps p)) \<and> p \<in> fq_items (rt_fq rt) \<and> mid_read rt1 ps1 p \<and> rt_prefetched rt1
            \<and> ready (ps p) = xs @ frames rt1 ps1 p \<and> to_read (rt_fq rt1) ps1 < to_read (rt_fq rt) ps" by blast
  show ?thesis
  proof (cases x)
    case None
    have "peers_ok rt1 ps1" "behind psi ps1" "holds_only psi rt1 ps1 None []"
      using b peers_ok_read [OF _ r(2,3)] behind_trans [OF _ r(2)] holds_only_read [OF _ r(2), of psi rt None "[]" rt1] r(3)
      by (simp_all add: between_def same_writing_def)
    then have "between psi rt1 ps1" using b r(3,5) None by (simp add: between_def same_writing_def)
    then show ?thesis using r(1) None by blast
  next
    case (Some m)
    then obtain p xs where p: "m = msg_of True (po_identity (ps p))" "p \<in> fq_items (rt_fq rt)" "mid_read rt1 ps1 p" "rt_prefetched rt1"
      "ready (ps p) = xs @ frames rt1 ps1 p" "to_read (rt_fq rt1) ps1 < to_read (rt_fq rt) ps" using r(5) by auto
    from labelling_begins [OF b r(2,3) p(2,3,5)] obtain rt2 where l: "router_xsend m rt1 ps1 = Inr (None, rt2, ps1)"
        "labelling psi p [] [] rt2 ps1" "rt_fq rt2 = rt_fq rt1" unfolding p(1) by blast
    have "left_to_do rt2 ps1 < left_to_do rt ps" using p(6) l(3) by (simp add: left_to_do_def)
    moreover have "po_identity (ps p) \<noteq> []" using b p(2) by (simp add: between_def peers_ok_def)
    then have "msg_more m" "msg_data m \<noteq> []" using p(1) by (simp_all add: msg_of_def)
    ultimately show ?thesis using r(1) Some l by blast
  qed
qed

definition labels_result :: "ports \<Rightarrow> rep \<Rightarrow> bool \<Rightarrow> rep \<Rightarrow> ports \<Rightarrow> bool" where
  "labels_result psi r began r' ps' \<longleftrightarrow> rp_sending_reply r' = rp_sending_reply r
     \<and> (if began then \<not> rp_request_begins r'
            \<and> (\<exists>p w m. labelling psi p (w @ [m]) [] (rp_router r') ps' \<and> msg_data m = [])
        else between psi (rp_router r') ps' \<and> rp_request_begins r' = rp_request_begins r)"

lemma rep_labels_spec:
  "label_state psi (rp_router r) ps \<Longrightarrow> left_to_do (rp_router r) ps < fuel \<Longrightarrow>
     \<exists>began r' ps'. rep_labels fuel r ps = Inr (began, r', ps') \<and> labels_result psi r began r' ps'"
proof (induction fuel arbitrary: r ps)
  case (Suc fuel)
  have go: "\<exists>began r' ps'. rep_labels fuel (r\<lparr>rp_router := rt2\<rparr>) ps2 = Inr (began, r', ps') \<and> labels_result psi r began r' ps'"
    if "label_state psi rt2 ps2" "left_to_do rt2 ps2 < left_to_do (rp_router r) ps" for rt2 ps2
  proof -
    have "labels_result psi (r\<lparr>rp_router := rt2\<rparr>) = labels_result psi r" by (intro ext) (simp add: labels_result_def)
    then show ?thesis using Suc.IH [of "r\<lparr>rp_router := rt2\<rparr>" ps2] that Suc.prems(2) by simp
  qed
  show ?case
  proof (cases "between psi (rp_router r) ps")
    case True
    from labels_from_idle [OF True] show ?thesis
    proof (elim disjE exE conjE)
      fix rt1 ps1
      assume "router_xrecv (rp_router r) ps = Inr (None, rt1, ps1)" "between psi rt1 ps1"
      then show ?thesis by (auto simp: labels_result_def)
    next
      fix m rt1 ps1 rt2 p
      assume "router_xrecv (rp_router r) ps = Inr (Some m, rt1, ps1)" "msg_more m" "msg_data m \<noteq> []"
        "router_xsend m rt1 ps1 = Inr (None, rt2, ps1)" "labelling psi p [] [] rt2 ps1" "left_to_do rt2 ps1 < left_to_do (rp_router r) ps"
      then show ?thesis using go [of rt2 ps1] by (auto simp: label_state_def check_def Let_def)
    qed
  next
    case False
    then obtain p w where l: "labelling psi p w [] (rp_router r) ps" using Suc.prems(1) by (auto simp: label_state_def)
    from labels_from_label [OF l] obtain m rt1 ps1 where m: "router_xrecv (rp_router r) ps = Inr (Some m, rt1, ps1)"
        "if msg_more m then \<exists>ps2. router_xsend m rt1 ps1 = Inr (None, rt1, ps2) \<and> labelling psi p (w @ [m]) [] rt1 ps2
            \<and> left_to_do rt1 ps2 < left_to_do (rp_router r) ps
         else \<exists>rt2 ps2. router_rollback rt1 ps1 = Inr (rt2, ps2) \<and> between psi rt2 ps2
            \<and> left_to_do rt2 ps2 < left_to_do (rp_router r) ps" by blast
    show ?thesis
    proof (cases "msg_more m")
      case True
      then obtain ps2 where s: "router_xsend m rt1 ps1 = Inr (None, rt1, ps2)" "labelling psi p (w @ [m]) [] rt1 ps2"
          "left_to_do rt1 ps2 < left_to_do (rp_router r) ps" using m(2) by auto
      show ?thesis
      proof (cases "msg_data m = []")
        case t: True
        then have "rep_labels (Suc fuel) r ps = Inr (True, r\<lparr>rp_router := rt1, rp_request_begins := False\<rparr>, ps2)"
          using m(1) s(1) True by (simp add: check_def Let_def)
        then show ?thesis using s(2) t by (auto simp: labels_result_def)
      next
        case f: False
        then have "rep_labels (Suc fuel) r ps = rep_labels fuel (r\<lparr>rp_router := rt1\<rparr>) ps2"
          using m(1) s(1) True by (simp add: check_def Let_def)
        then show ?thesis using go [of rt1 ps2] s(2,3) by (auto simp: label_state_def)
      qed
    next
      case False
      then obtain rt2 ps2 where s: "router_rollback rt1 ps1 = Inr (rt2, ps2)" "between psi rt2 ps2"
          "left_to_do rt2 ps2 < left_to_do (rp_router r) ps" using m(2) by auto
      then show ?thesis using go [of rt2 ps2] m(1) False by (auto simp: label_state_def)
    qed
  qed
qed simp


subsection \<open>Whole requests and replies\<close>

text \<open>The fuel of \<open>xrecv\<close> is enough.\<close>

lemma rep_labels_enough:
  assumes "between psi (rp_router r) ps"
  shows "\<exists>began r' ps'. rep_labels (2 * queued (rt_fq (rp_router r)) ps + 3) r ps = Inr (began, r', ps')
     \<and> labels_result psi r began r' ps'"
proof -
  have "fq_ok (rt_fq (rp_router r))" using assms by (simp add: between_def idle_read_def fq_inv_def)
  then have "left_to_do (rp_router r) ps < 2 * queued (rt_fq (rp_router r)) ps + 3"
    using to_read_queued [of "rt_fq (rp_router r)" ps] by (simp add: left_to_do_def)
  then show ?thesis using rep_labels_spec assms by (simp add: label_state_def)
qed

text \<open>A socket that waits for a request, one that delivers the parts of one, and one that owes the reply.\<close>

definition awaits_request :: "ports \<Rightarrow> rep \<Rightarrow> ports \<Rightarrow> bool" where
  "awaits_request psi r ps \<longleftrightarrow> \<not> rp_sending_reply r \<and> rp_request_begins r \<and> between psi (rp_router r) ps"

definition delivers :: "ports \<Rightarrow> nat \<Rightarrow> zmsg list \<Rightarrow> zmsg list \<Rightarrow> rep \<Rightarrow> ports \<Rightarrow> bool" where
  "delivers psi p w b r ps \<longleftrightarrow> \<not> rp_sending_reply r \<and> \<not> rp_request_begins r \<and> labelling psi p w b (rp_router r) ps
     \<and> w \<noteq> [] \<and> msg_data (last w) = []"

definition owes_reply :: "ports \<Rightarrow> nat \<Rightarrow> zmsg list \<Rightarrow> zmsg list \<Rightarrow> rep \<Rightarrow> ports \<Rightarrow> bool" where
  "owes_reply psi p w b r ps \<longleftrightarrow> rp_sending_reply r \<and> rp_request_begins r \<and> replying psi p w (rp_router r) ps
     \<and> (\<forall>m \<in> set w. msg_more m) \<and> w \<noteq> [] \<and> msg_data (last w) = [] \<and> (\<exists>xs. ready (psi p) = xs @ w @ b @ ready (ps p))"

lemma rep_xrecv_part:
  assumes "delivers psi p w b r ps"
  shows "\<exists>m r' ps'. rep_xrecv r ps = Inr (Got m, r', ps')
     \<and> (if msg_more m then delivers psi p w (b @ [m]) r' ps' else owes_reply psi p w (b @ [m]) r' ps')"
proof -
  have d: "\<not> rp_sending_reply r" "\<not> rp_request_begins r" "labelling psi p w b (rp_router r) ps" "w \<noteq> []" "msg_data (last w) = []"
    using assms by (simp_all add: delivers_def)
  have w: "\<forall>m \<in> set w. msg_more m" using d(3) by (simp add: labelling_def)
  from reads_part [OF d(3)] obtain m rt' ps' where r: "router_xrecv (rp_router r) ps = Inr (Some m, rt', ps')"
      "fq_items (rt_fq rt') = fq_items (rt_fq (rp_router r))" "peers_ok rt' ps'" "behind psi ps'" "p \<in> fq_items (rt_fq rt')"
      "rt_more_out rt'" "rt_current_out rt' = Some p" "holds_only psi rt' ps' (Some p) w"
      "\<exists>xs. ready (psi p) = xs @ w @ b @ m # frames rt' ps' p" "if msg_more m then mid_read rt' ps' p else idle_read rt' ps'"
      "\<not> rt_prefetched rt'" by blast
  have fr: "frames rt' ps' p = ready (ps' p)" using r(11) by (simp add: frames_def)
  let ?r = "r\<lparr>rp_router := rt'\<rparr>"
  show ?thesis
  proof (cases "msg_more m")
    case True
    have "labelling psi p w (b @ [m]) rt' ps'" using r(3-10) w True by (simp add: labelling_def)
    then have "delivers psi p w (b @ [m]) ?r ps'" using d by (simp add: delivers_def)
    moreover have "rep_xrecv r ps = Inr (Got m, ?r, ps')" using d r(1) True by (simp add: rep_xrecv_def)
    ultimately show ?thesis using True by auto
  next
    case False
    let ?r2 = "?r\<lparr>rp_sending_reply := True, rp_request_begins := True\<rparr>"
    have "replying psi p w rt' ps'" using r(3-10) False by (simp add: replying_def)
    then have "owes_reply psi p w (b @ [m]) ?r2 ps'" using d w r(9) fr by (simp add: owes_reply_def)
    moreover have "rep_xrecv r ps = Inr (Got m, ?r2, ps')" using d r(1) False by (simp add: rep_xrecv_def)
    ultimately show ?thesis using False by auto
  qed
qed

lemma rep_xrecv_first:
  assumes "awaits_request psi r ps"
  shows "(\<exists>r' ps'. rep_xrecv r ps = Inr (Failed Eagain, r', ps') \<and> awaits_request psi r' ps')
    \<or> (\<exists>p w m r' ps'. rep_xrecv r ps = Inr (Got m, r', ps')
          \<and> (if msg_more m then delivers psi p w [m] r' ps' else owes_reply psi p w [m] r' ps'))"
proof -
  have a: "\<not> rp_sending_reply r" "rp_request_begins r" "between psi (rp_router r) ps"
    using assms by (simp_all add: awaits_request_def)
  from rep_labels_enough [OF a(3)] obtain began r1 ps1 where
    l: "rep_labels (2 * queued (rt_fq (rp_router r)) ps + 3) r ps = Inr (began, r1, ps1)" "labels_result psi r began r1 ps1"
    by blast
  show ?thesis
  proof (cases began)
    case False
    then have "rep_xrecv r ps = Inr (Failed Eagain, r1, ps1)" using a l(1) by (simp add: rep_xrecv_def)
    moreover have "awaits_request psi r1 ps1" using l(2) a False by (simp add: labels_result_def awaits_request_def)
    ultimately show ?thesis by blast
  next
    case True
    then obtain p w e where d: "delivers psi p (w @ [e]) [] r1 ps1" using l(2) a by (auto simp: labels_result_def delivers_def)
    then have "rep_xrecv r ps = rep_xrecv r1 ps1" using a l(1) True by (simp add: rep_xrecv_def delivers_def)
    then show ?thesis using rep_xrecv_part [OF d] unfolding append_Nil by metis
  qed
qed

text \<open>The user receives up to \<open>n\<close> parts.\<close>

fun rep_recv_parts :: "nat \<Rightarrow> rep \<Rightarrow> ports \<Rightarrow> (zmsg list \<times> rep \<times> ports) outcome" where
  "rep_recv_parts 0 r ps = Inr ([], r, ps)"
| "rep_recv_parts (Suc n) r ps =
     and_then (rep_xrecv r ps) (\<lambda>(x, r1, ps1).
       case x of
         Failed e \<Rightarrow> Inr ([], r1, ps1)
       | Got m \<Rightarrow> and_then (rep_recv_parts n r1 ps1) (\<lambda>(ms, r2, ps2). Inr (m # ms, r2, ps2)))"

lemma rep_recv_parts_owes:
  "owes_reply psi p w b r ps \<Longrightarrow> rep_recv_parts n r ps = Inr ([], r, ps)"
  by (cases n) (simp_all add: owes_reply_def rep_xrecv_def)

lemma rep_recv_parts_rest:
  "delivers psi p w b r ps \<Longrightarrow> rep_recv_parts n r ps = Inr (ms, r', ps') \<Longrightarrow> is_message ms \<Longrightarrow> owes_reply psi p w (b @ ms) r' ps'"
proof (induction n arbitrary: r ps b ms)
  case (Suc n)
  from rep_xrecv_part [OF Suc.prems(1)] obtain m r1 ps1 where m: "rep_xrecv r ps = Inr (Got m, r1, ps1)"
      "if msg_more m then delivers psi p w (b @ [m]) r1 ps1 else owes_reply psi p w (b @ [m]) r1 ps1" by blast
  then obtain ms1 where ms1: "rep_recv_parts n r1 ps1 = Inr (ms1, r', ps')" "ms = m # ms1"
    using Suc.prems(2) by (auto simp: outcome_simps)
  show ?case
  proof (cases "msg_more m")
    case True
    then show ?thesis using Suc.IH [OF _ ms1(1), of "b @ [m]"] m(2) Suc.prems(3) ms1(2) by (simp add: is_message_Cons)
  next
    case False
    then show ?thesis using rep_recv_parts_owes [where n=n] m(2) ms1 by auto
  qed
qed simp

lemma rep_recv_parts_message:
  assumes "awaits_request psi r ps" "rep_recv_parts n r ps = Inr (ms, r', ps')" "is_message ms"
  shows "\<exists>p w. owes_reply psi p w ms r' ps'"
proof (cases n)
  case (Suc k)
  from rep_xrecv_first [OF assms(1)] show ?thesis
  proof (elim disjE exE conjE)
    fix r1 ps1
    assume "rep_xrecv r ps = Inr (Failed Eagain, r1, ps1)"
    then show ?thesis using assms(2,3) Suc by simp
  next
    fix p w m r1 ps1
    assume m: "rep_xrecv r ps = Inr (Got m, r1, ps1)"
      "if msg_more m then delivers psi p w [m] r1 ps1 else owes_reply psi p w [m] r1 ps1"
    then obtain ms1 where ms1: "rep_recv_parts k r1 ps1 = Inr (ms1, r', ps')" "ms = m # ms1"
      using assms(2) Suc by (auto simp: outcome_simps)
    show ?thesis
    proof (cases "msg_more m")
      case True
      then have "owes_reply psi p w ([m] @ ms1) r' ps'"
        using rep_recv_parts_rest [OF _ ms1(1), of psi p w "[m]"] m(2) assms(3) ms1(2) by (simp add: is_message_Cons)
      then show ?thesis using ms1(2) by auto
    next
      case False
      then show ?thesis using rep_recv_parts_owes [where n=k] m(2) ms1 by auto
    qed
  qed
qed (use assms in simp)

text \<open>The parts of a reply join the labels; the last one makes them a message the peer can read.\<close>

lemma reply_part:
  assumes s: "rp_sending_reply r" "replying psi p w (rp_router r) ps" and m: "msg_more m"
  shows "\<exists>q. rep_xsend m r ps = Inr (None, r, ps(p := q)) \<and> replying psi p (w @ [m]) (rp_router r) (ps(p := q)) \<and> po_in q = po_in (ps p)"
proof -
  let ?rt = "rp_router r"
  have o: "peers_ok ?rt ps" "idle_read ?rt ps" "p \<in> fq_items (rt_fq ?rt)" "rt_current_out ?rt = Some p" "rt_more_out ?rt"
    "holds_only psi ?rt ps (Some p) w" using s(2) by (simp_all add: replying_def)
  have "fq_inv (rt_fq ?rt) ps" using o(2) by (simp add: idle_read_def)
  from writes_part [OF this o(1,3,5,4,6) m] obtain q where q: "router_xsend m ?rt ps = Inr (None, ?rt, ps(p := q))"
      "peers_ok ?rt (ps(p := q))" "po_in q = po_in (ps p)" "read_side (po_end q) = read_side (po_end (ps p))"
      "holds_only psi ?rt (ps(p := q)) (Some p) (w @ [m])" by blast
  have "idle_read ?rt (ps(p := q))"
    by (rule read_states_write(2) [where ps=ps and rt="?rt", OF q(3,4) refl refl refl refl refl o(2)])
  then have "replying psi p (w @ [m]) ?rt (ps(p := q))" using q(2,5) o by (simp add: replying_def)
  moreover have "rep_xsend m r ps = Inr (None, r, ps(p := q))" using s(1) q(1) m by (simp add: rep_xsend_def Let_def)
  ultimately show ?thesis using q(3) by blast
qed

lemma reply_last:
  assumes s: "rp_sending_reply r" "replying psi p w (rp_router r) ps" and m: "\<not> msg_more m"
  shows "\<exists>r' q. rep_xsend m r ps = Inr (None, r', ps(p := q)) \<and> \<not> rp_sending_reply r' \<and> rp_request_begins r' = rp_request_begins r
     \<and> po_in q = po_in (ps p) \<and> mp_ready (pipe_of (po_out q)) = all_msgs (po_out (psi p)) @ w @ [m]"
proof -
  let ?rt = "rp_router r" and ?q = "after_part m (ps p)"
  have o: "peers_ok ?rt ps" "idle_read ?rt ps" "p \<in> fq_items (rt_fq ?rt)" "rt_current_out ?rt = Some p" "rt_more_out ?rt"
    "holds_only psi ?rt ps (Some p) w" using s(2) by (simp_all add: replying_def)
  have "fq_inv (rt_fq ?rt) ps" using o(2) by (simp add: idle_read_def)
  note c = items_of_peers [OF this o(1,3)]
  have "router_xsend m ?rt ps = Inr (None, ?rt\<lparr>rt_more_out := False, rt_current_out := None\<rparr>, ps(p := ?q))"
    using router_send_frame [where ps=ps and p=p and m=m, OF o(5,4) c(1)] m o(1) by (simp add: peers_ok_def)
  then have "rep_xsend m r ps
      = Inr (None, r\<lparr>rp_router := ?rt\<lparr>rt_more_out := False, rt_current_out := None\<rparr>, rp_sending_reply := False\<rparr>, ps(p := ?q))"
    using s(1) m by (simp add: rep_xsend_def Let_def)
  moreover have "all_msgs (po_out (ps p)) = all_msgs (po_out (psi p)) @ w"
    using o(3,6) by (simp add: all_msgs_def holds_only_def)
  then have "mp_ready (pipe_of (po_out ?q)) = all_msgs (po_out (psi p)) @ w @ [m]"
    using after_part_out(8) [OF c m] by simp
  ultimately show ?thesis using after_part_out(4) [OF c, of m] by auto
qed

fun rep_send_parts :: "zmsg list \<Rightarrow> rep \<Rightarrow> ports \<Rightarrow> (errno option list \<times> rep \<times> ports) outcome" where
  "rep_send_parts [] r ps = Inr ([], r, ps)"
| "rep_send_parts (m # ms) r ps =
     and_then (rep_xsend m r ps) (\<lambda>(rc, r1, ps1).
       and_then (rep_send_parts ms r1 ps1) (\<lambda>(rcs, r2, ps2). Inr (rc # rcs, r2, ps2)))"

lemma rep_send_message:
  "rp_sending_reply r \<Longrightarrow> replying psi p w (rp_router r) ps \<Longrightarrow> is_message ms \<Longrightarrow>
   \<exists>r' ps'. rep_send_parts ms r ps = Inr (replicate (length ms) None, r', ps') \<and> \<not> rp_sending_reply r'
     \<and> rp_request_begins r' = rp_request_begins r
     \<and> po_in (ps' p) = po_in (ps p) \<and> mp_ready (pipe_of (po_out (ps' p))) = all_msgs (po_out (psi p)) @ w @ ms
     \<and> (\<forall>q. q \<noteq> p \<longrightarrow> ps' q = ps q)"
proof (induction ms arbitrary: ps w)
  case (Cons m ms)
  show ?case
  proof (cases "msg_more m")
    case True
    from reply_part [OF Cons.prems(1,2) True] obtain ps1 where
      q: "rep_xsend m r ps = Inr (None, r, ps1)" "replying psi p (w @ [m]) (rp_router r) ps1" "po_in (ps1 p) = po_in (ps p)"
        "\<forall>x. x \<noteq> p \<longrightarrow> ps1 x = ps x"
      by (metis fun_upd_def)
    have "is_message ms" using Cons.prems(3) True by (simp add: is_message_Cons)
    from Cons.IH [OF Cons.prems(1) q(2) this] q show ?thesis by auto
  next
    case False
    from reply_last [OF Cons.prems(1,2) False] obtain r' q where
      "rep_xsend m r ps = Inr (None, r', ps(p := q))" "\<not> rp_sending_reply r'" "rp_request_begins r' = rp_request_begins r"
      "po_in q = po_in (ps p)" "mp_ready (pipe_of (po_out q)) = all_msgs (po_out (psi p)) @ w @ [m]" by blast
    moreover have "ms = []" using Cons.prems(3) False by (simp add: is_message_Cons)
    ultimately show ?thesis by auto
  qed
qed simp

end
