(* ===== verification/Zmq_Proxy_Inv.thy ===== *)
theory Zmq_Proxy_Inv
  imports Zmq_Proxy Zmq_Rep
begin

section \<open>Whole messages through the proxy\<close>

text \<open>
  What \<open>forward\<close> does between a ROUTER and a DEALER when no command arrives meanwhile: a request goes,
  behind the identity of its peer, to one worker; a reply goes to the peer its first frame names, or nowhere.
\<close>

definition no_commands :: "'s commands" where
  "no_commands i = Inr (None, i)"

lemma recv_quiet:
  assumes "\<not> sb_ctx_terminated s" "xrecv (sb_impl s) = Inr (Got m, i)" "\<not> msg_identity m"
  shows "\<exists>s'. socket_recv no_commands xrecv dontwait s = Inr (Got m, s') \<and> sb_impl s' = i \<and> sb_rcvmore s' = msg_more m
     \<and> \<not> sb_ctx_terminated s'"
  using assms
  by (auto simp: socket_recv_def no_commands_def commands_now_def extract_flags_def check_def Let_def)

lemma send_quiet:
  assumes "\<not> sb_ctx_terminated s" "xsend m (sb_impl s) = Inr (None, i)"
  shows "socket_send no_commands xsend dontwait (msg_more m) m s = Inr (None, s\<lparr>sb_impl := i\<rparr>)"
  using assms by (simp add: socket_send_def no_commands_def)

abbreviation "frontend_socket \<equiv> router_socket no_commands"
abbreviation "backend_socket \<equiv> dealer_socket no_commands"

lemma router_recv_quiet:
  assumes "\<not> sb_ctx_terminated s" "sb_impl s = (rt, ps)" "router_xrecv rt ps = Inr (Some m, rt', ps')" "\<not> msg_identity m"
  shows "\<exists>s'. zs_recv frontend_socket s = Inr (Got m, s') \<and> sb_impl s' = (rt', ps') \<and> zs_rcvmore frontend_socket s' = Some (msg_more m)
     \<and> \<not> sb_ctx_terminated s'"
proof -
  have "(\<lambda>(r, ps). as_received (router_xrecv r ps)) (sb_impl s) = Inr (Got m, rt', ps')"
    using assms(2,3) by (simp add: as_received_def)
  from recv_quiet [where xrecv="\<lambda>(r, ps). as_received (router_xrecv r ps)", OF assms(1) this assms(4)]
  show ?thesis unfolding router_socket_def by (auto simp: socket_rcvmore_def)
qed

lemma dealer_recv_quiet:
  assumes "\<not> sb_ctx_terminated s" "sb_impl s = (d, ps)" "dealer_xrecv d ps = Inr (Some m, d', ps')" "\<not> msg_identity m"
  shows "\<exists>s'. zs_recv backend_socket s = Inr (Got m, s') \<and> sb_impl s' = (d', ps') \<and> zs_rcvmore backend_socket s' = Some (msg_more m)
     \<and> \<not> sb_ctx_terminated s'"
proof -
  have "(\<lambda>(r, ps). as_received (dealer_xrecv r ps)) (sb_impl s) = Inr (Got m, d', ps')"
    using assms(2,3) by (simp add: as_received_def)
  from recv_quiet [where xrecv="\<lambda>(r, ps). as_received (dealer_xrecv r ps)", OF assms(1) this assms(4)]
  show ?thesis unfolding dealer_socket_def by (auto simp: socket_rcvmore_def)
qed

lemma router_send_quiet:
  assumes "\<not> sb_ctx_terminated s" "sb_impl s = (rt, ps)" "router_xsend m rt ps = Inr (None, rt', ps')"
  shows "zs_send frontend_socket (msg_more m) m s = Inr (None, s\<lparr>sb_impl := (rt', ps')\<rparr>)"
  unfolding router_socket_def by (simp, rule send_quiet) (use assms in simp_all)

lemma dealer_send_quiet:
  assumes "\<not> sb_ctx_terminated s" "sb_impl s = (d, ps)" "dealer_xsend m d ps = Inr (None, d', ps')"
  shows "zs_send backend_socket (msg_more m) m s = Inr (None, s\<lparr>sb_impl := (d', ps')\<rparr>)"
  unfolding dealer_socket_def by (simp, rule send_quiet) (use assms in simp_all)

text \<open>One part goes over; then the loop goes on or ends.\<close>

lemma forward_part:
  assumes "zs_recv F f = Inr (Got m, f1)" "zs_rcvmore F f1 = Some (msg_more m)" "zs_send T (msg_more m) m t = Inr (None, t1)"
  shows "forward (Suc fuel) F T None f t c = (if msg_more m then forward fuel F T None f1 t1 c else Inr (True, f1, t1, c))"
  using assms by (simp add: capture_def)


subsection \<open>What the load balancer holds of a message\<close>

definition lb_holds :: "nat \<Rightarrow> zmsg list \<Rightarrow> lb \<Rightarrow> ports \<Rightarrow> lb \<Rightarrow> ports \<Rightarrow> bool" where
  "lb_holds q w l0 ps0 l ps \<longleftrightarrow>
     lb_ok l \<and> lb_items l = lb_items l0 \<and> \<not> lb_dropping l \<and> lb_more l \<and> 0 < lb_active l \<and> lb_current_pipe l = q
   \<and> q \<in> lb_active_pipes l0 \<and> can_write (ps0 q) \<and> can_write (ps q) \<and> sends_ok (ps q)
   \<and> all_msgs (po_out (ps q)) = all_msgs (po_out (ps0 q)) @ w
   \<and> po_in (ps q) = po_in (ps0 q) \<and> read_side (po_end (ps q)) = read_side (po_end (ps0 q))
   \<and> (\<forall>p. p \<noteq> q \<longrightarrow> same_queues (ps0 p) (ps p))"

text \<open>The whole message \<open>w\<close> can be read from \<open>q\<close>.\<close>

definition lb_sent :: "nat \<Rightarrow> zmsg list \<Rightarrow> lb \<Rightarrow> ports \<Rightarrow> lb \<Rightarrow> ports \<Rightarrow> bool" where
  "lb_sent q w l0 ps0 l ps \<longleftrightarrow>
     lb_ok l \<and> lb_items l = lb_items l0 \<and> \<not> lb_dropping l \<and> \<not> lb_more l \<and> q \<in> lb_active_pipes l0 \<and> can_write (ps0 q)
   \<and> ypipe_ok (po_out (ps q)) \<and> mp_ready (pipe_of (po_out (ps q))) = all_msgs (po_out (ps0 q)) @ w
   \<and> po_in (ps q) = po_in (ps0 q) \<and> read_side (po_end (ps q)) = read_side (po_end (ps0 q))
   \<and> (\<forall>p. p \<noteq> q \<longrightarrow> same_queues (ps0 p) (ps p))"

lemma lb_first:
  assumes "lb_ok l" "\<not> lb_more l" "\<not> lb_dropping l" "\<exists>p \<in> lb_active_pipes l. can_write (ps p)"
    "\<forall>p \<in> lb_items l. can_write (ps p) \<longrightarrow> sends_ok (ps p)" "msg_more m"
  shows "\<exists>q l' ps'. lb_sendpipe m l ps = Inr (None, Some q, l', ps') \<and> lb_holds q [m] l ps l' ps'"
proof -
  obtain q l' ps' where s: "lb_sendpipe m l ps = Inr (None, Some q, l', ps')" "lb_written m q l ps l' ps'"
    using sendpipe_first [OF assms(1-4)] by blast
  have q: "q \<in> lb_items l" "can_write (ps q)"
    using s(2) by (auto simp: lb_written_def lb_active_pipes_def active_pipes_def dest: in_set_takeD)
  then have so: "sends_ok (ps q)" using assms(5) by blast
  note a = after_part_out [OF q(2) so, of m]
  have "ps' q = after_part m (ps q)" using s(2) by (simp add: lb_written_def)
  then have "lb_holds q [m] l ps l' ps'"
    using s(2) a so assms(6) unfolding lb_written_def lb_holds_def by (auto simp: sends_ok_def)
  then show ?thesis using s(1) by blast
qed

lemma lb_next:
  assumes "lb_holds q w l0 ps0 l ps"
  shows "\<exists>l' ps'. lb_sendpipe m l ps = Inr (None, Some q, l', ps')
     \<and> (if msg_more m then lb_holds q (w @ [m]) l0 ps0 l' ps' else lb_sent q (w @ [m]) l0 ps0 l' ps')"
proof -
  have h: "lb_ok l" "lb_more l" "\<not> lb_dropping l" "0 < lb_active l" "lb_current_pipe l = q" "can_write (ps q)" "sends_ok (ps q)"
    "all_msgs (po_out (ps q)) = all_msgs (po_out (ps0 q)) @ w" "lb_items l = lb_items l0"
    "q \<in> lb_active_pipes l0" "can_write (ps0 q)" "po_in (ps q) = po_in (ps0 q)"
    "read_side (po_end (ps q)) = read_side (po_end (ps0 q))" "\<forall>p. p \<noteq> q \<longrightarrow> same_queues (ps0 p) (ps p)"
    using assms by (simp_all add: lb_holds_def)
  obtain l' ps' where s: "lb_sendpipe m l ps = Inr (None, Some q, l', ps')" "lb_written m q l ps l' ps'"
    using sendpipe_next [where ps=ps and m=m, OF h(1-4)] h(5,6) by blast
  note a = after_part_out [OF h(6,7), of m]
  have w: "ps' q = after_part m (ps q)" "lb_ok l'" "lb_items l' = lb_items l" "\<not> lb_dropping l'" "lb_more l' = msg_more m" "0 < lb_active l'"
    "msg_more m \<longrightarrow> lb_current_pipe l' = q" "\<forall>p. p \<noteq> q \<longrightarrow> same_queues (ps p) (ps' p)"
    using s(2) by (simp_all add: lb_written_def)
  have oth: "\<forall>p. p \<noteq> q \<longrightarrow> same_queues (ps0 p) (ps' p)" using h(14) w(8) same_queues_trans by blast
  show ?thesis
  proof (cases "msg_more m")
    case True
    then have "lb_holds q (w @ [m]) l0 ps0 l' ps'"
      using w a h oth unfolding lb_holds_def by (simp add: sends_ok_def)
    then show ?thesis using s(1) True by auto
  next
    case False
    then have "lb_sent q (w @ [m]) l0 ps0 l' ps'"
      using w a h oth unfolding lb_sent_def by simp
    then show ?thesis using s(1) False by auto
  qed
qed



subsection \<open>A request\<close>

text \<open>The state of a ROUTER after \<open>xhas_in\<close> found a message of the pipe \<open>p\<close>.\<close>

definition fetched :: "router \<Rightarrow> ports \<Rightarrow> nat \<Rightarrow> bool" where
  "fetched rt ps p \<longleftrightarrow> fq_inv (rt_fq rt) ps \<and> rt_prefetched rt \<and> \<not> rt_identity_sent rt \<and> \<not> rt_more_in rt \<and> p \<in> fq_items (rt_fq rt)
     \<and> rt_prefetched_id rt = msg_of True (po_identity (ps p)) \<and> fq_more (rt_fq rt) = msg_more (rt_prefetched_msg rt)
     \<and> (fq_more (rt_fq rt) \<longrightarrow> fq_current_pipe (rt_fq rt) = p) \<and> \<not> msg_identity (rt_prefetched_msg rt)"

lemma fetched_has_in: "fetched rt ps p \<Longrightarrow> router_xhas_in rt ps = Inr (True, rt, ps)"
  by (simp add: fetched_def router_xhas_in_def)

lemma router_has_in_spec:
  assumes "idle_read rt ps"
  shows "\<exists>b rt' ps'. router_xhas_in rt ps = Inr (b, rt', ps') \<and> untouched ps ps' \<and> same_writing rt rt'
     \<and> (if b then \<exists>p xs. fetched rt' ps' p \<and> ready (ps p) = xs @ frames rt' ps' p else idle_read rt' ps')"
proof -
  have g: "fq_inv (rt_fq rt) ps" "\<not> rt_prefetched rt" "\<not> rt_more_in rt" "\<not> fq_more (rt_fq rt)"
    using assms by (simp_all add: idle_read_def)
  let ?P = "\<lambda>m p. \<not> msg_identity m"
  obtain x f ps' where r: "recv_until ?P (Suc (queued (rt_fq rt) ps)) (rt_fq rt) ps = Inr (x, f, ps')"
      "recv_result ?P (rt_fq rt) ps x f ps'"
    using recv_until_enough [OF g(1)] by blast
  have base: "fq_inv f ps'" "fq_items f = fq_items (rt_fq rt)" "untouched ps ps'" using r(2) by (simp_all add: recv_result_def)
  show ?thesis
  proof (cases x)
    case None
    let ?r = "rt\<lparr>rt_fq := f\<rparr>"
    have "router_xhas_in rt ps = Inr (False, ?r, ps')"
      using r(1) g None by (simp add: router_xhas_in_def router_next_def del: recv_until.simps)
    moreover have "idle_read ?r ps'" using base(1) r(2) g None by (simp add: idle_read_def recv_result_def)
    ultimately show ?thesis
      using base by (intro exI [of _ False] exI [of _ ?r] exI [of _ ps']) (simp add: same_writing_def)
  next
    case (Some mp)
    obtain m p where mp: "mp = (m, p)" by (cases mp)
    let ?r = "rt\<lparr>rt_fq := f, rt_prefetched_msg := m, rt_prefetched_id := msg_of True (po_identity (ps' p)), rt_prefetched := True,
        rt_identity_sent := False\<rparr>"
    have "router_xhas_in rt ps = Inr (True, ?r, ps')"
      using r(1) g Some mp by (simp add: router_xhas_in_def router_next_def del: recv_until.simps)
    moreover have p: "p \<in> fq_items (rt_fq rt)" "fq_more f = msg_more m" "msg_more m \<longrightarrow> fq_current_pipe f = p"
      "\<not> msg_identity m" "\<exists>xs. ready (ps p) = xs @ m # ready (ps' p)"
      using r(2) unfolding recv_result_def Some mp by simp_all
    moreover have "fetched ?r ps' p" using base p g by (simp add: fetched_def)
    moreover obtain xs where "ready (ps p) = xs @ frames ?r ps' p" using p(5) by (auto simp: frames_def)
    ultimately show ?thesis
      using base by (intro exI [of _ True] exI [of _ ?r] exI [of _ ps']) (auto simp: same_writing_def)
  qed
qed

lemma fetched_read:
  assumes "fetched rt ps p"
  shows "\<exists>rt'. router_xrecv rt ps = Inr (Some (msg_of True (po_identity (ps p))), rt', ps) \<and> mid_read rt' ps p
     \<and> frames rt' ps p = frames rt ps p \<and> same_writing rt rt' \<and> rt_fq rt' = rt_fq rt"
  using assms
  by (intro exI [of _ "rt\<lparr>rt_identity_sent := True, rt_more_in := True\<rparr>"])
    (simp add: fetched_def router_xrecv_def mid_read_def frames_def same_writing_def msg_of_def)

lemma dealer_sends:
  assumes "lb_sendpipe m (dl_lb d) ps = Inr (None, x, l, ps')"
  shows "dealer_xsend m d ps = Inr (None, d\<lparr>dl_lb := l\<rparr>, ps')"
  using assms by (simp add: dealer_xsend_def dealer_sendpipe_def)

lemma mid_read_more: "mid_read rt ps p \<Longrightarrow> frames rt ps p \<noteq> []"
  by (auto simp: mid_read_def frames_def fq_inv_def continues_def)

text \<open>No frame of the queues has the identity flag, nor the prefetched one.\<close>

definition plain_frames :: "router \<Rightarrow> ports \<Rightarrow> bool" where
  "plain_frames rt ps \<longleftrightarrow> no_identities (rt_fq rt) ps \<and> (rt_prefetched rt \<longrightarrow> \<not> msg_identity (rt_prefetched_msg rt))"

lemma frames_plain: "plain_frames rt ps \<Longrightarrow> p \<in> fq_items (rt_fq rt) \<Longrightarrow> \<forall>m \<in> set (frames rt ps p). \<not> msg_identity m"
  by (auto simp: plain_frames_def no_identities_def frames_def)

lemma forward_request_rest:
  "\<not> sb_ctx_terminated s \<Longrightarrow> sb_impl s = (rt, fps) \<Longrightarrow> mid_read rt fps p \<Longrightarrow> plain_frames rt fps \<Longrightarrow> length (frames rt fps p) \<le> fuel \<Longrightarrow>
   \<not> sb_ctx_terminated t \<Longrightarrow> sb_impl t = (d, bps) \<Longrightarrow> lb_holds q w l0 ps0 (dl_lb d) bps \<Longrightarrow>
   \<exists>s' t' rt' fps' d' bps' es. forward fuel frontend_socket backend_socket None s t c = Inr (True, s', t', c)
     \<and> \<not> sb_ctx_terminated s' \<and> \<not> sb_ctx_terminated t' \<and> sb_impl s' = (rt', fps') \<and> sb_impl t' = (d', bps')
     \<and> is_message es \<and> frames rt fps p = es @ ready (fps' p) \<and> idle_read rt' fps' \<and> untouched fps fps' \<and> same_writing rt rt'
     \<and> lb_sent q (w @ es) l0 ps0 (dl_lb d') bps' \<and> dl_fq d' = dl_fq d"
proof (induction fuel arbitrary: s t rt fps d bps w)
  case 0
  then show ?case using mid_read_more by fastforce
next
  case (Suc fuel)
  note pr = Suc.prems
  from router_read_next [OF pr(3)] pr(4) obtain m rt1 fps1 where
    r: "router_xrecv rt fps = Inr (Some m, rt1, fps1)" "untouched fps fps1" "frames rt fps p = m # frames rt1 fps1 p"
      "if msg_more m then mid_read rt1 fps1 p else idle_read rt1 fps1" "same_writing rt rt1" "\<not> rt_prefetched rt1"
    by (auto simp: plain_frames_def)
  have pi: "p \<in> fq_items (rt_fq rt)" using pr(3) by (simp add: mid_read_def)
  have it: "fq_items (rt_fq rt1) = fq_items (rt_fq rt)" using r(5) by (simp add: same_writing_def)
  have "\<not> msg_identity m" using frames_plain [OF pr(4) pi] r(3) by simp
  from router_recv_quiet [OF pr(1,2) r(1) this] obtain s1 where
    s1: "zs_recv frontend_socket s = Inr (Got m, s1)" "sb_impl s1 = (rt1, fps1)" "zs_rcvmore frontend_socket s1 = Some (msg_more m)"
      "\<not> sb_ctx_terminated s1" by blast
  obtain l' bps1 where b: "lb_sendpipe m (dl_lb d) bps = Inr (None, Some q, l', bps1)"
      "if msg_more m then lb_holds q (w @ [m]) l0 ps0 l' bps1 else lb_sent q (w @ [m]) l0 ps0 l' bps1"
    using lb_next [OF pr(8), of m] by blast
  let ?d = "d\<lparr>dl_lb := l'\<rparr>" and ?t = "t\<lparr>sb_impl := (d\<lparr>dl_lb := l'\<rparr>, bps1)\<rparr>"
  have "zs_send backend_socket (msg_more m) m t = Inr (None, ?t)"
    by (rule dealer_send_quiet [OF pr(6,7) dealer_sends [OF b(1)]])
  note step = forward_part [where fuel=fuel and c=c, OF s1(1,3) this]
  show ?case
  proof (cases "msg_more m")
    case True
    have pl: "plain_frames rt1 fps1"
      using no_identities_later [OF _ r(2) it] pr(4) r(6) by (simp add: plain_frames_def)
    have "length (frames rt1 fps1 p) \<le> fuel" using pr(5) r(3) by simp
    from Suc.IH [where s=s1 and t="?t" and d="?d" and bps=bps1 and w="w @ [m]", OF s1(4,2) _ pl this] r(4) b(2) pr(6) True
    obtain s' t' rt' fps' d' bps' es where f: "forward fuel frontend_socket backend_socket None s1 ?t c = Inr (True, s', t', c)"
      "\<not> sb_ctx_terminated s'" "\<not> sb_ctx_terminated t'" "sb_impl s' = (rt', fps')" "sb_impl t' = (d', bps')"
      "is_message es" "frames rt1 fps1 p = es @ ready (fps' p)" "idle_read rt' fps'" "untouched fps1 fps'" "same_writing rt1 rt'"
      "lb_sent q (w @ m # es) l0 ps0 (dl_lb d') bps'" "dl_fq d' = dl_fq d" by auto
    have "untouched fps fps'" "same_writing rt rt'"
      using untouched_trans [OF r(2) f(9)] r(5) f(10) by (simp_all add: same_writing_def)
    moreover have "is_message (m # es)" using f(6) True by (simp add: is_message_Cons)
    ultimately show ?thesis using step f r(3) True
      by (intro exI [of _ s'] exI [of _ t'] exI [of _ rt'] exI [of _ fps'] exI [of _ d'] exI [of _ bps'] exI [of _ "m # es"]) simp
  next
    case False
    have "frames rt1 fps1 p = ready (fps1 p)" using r(6) by (simp add: frames_def)
    then show ?thesis using step s1 r b(2) pr(6) False
      by (intro exI [of _ s1] exI [of _ ?t] exI [of _ rt1] exI [of _ fps1] exI [of _ ?d] exI [of _ bps1] exI [of _ "[m]"]) simp
  qed
qed

lemma forward_request:
  assumes s: "\<not> sb_ctx_terminated s" "sb_impl s = (rt, fps)" "fetched rt fps p" "plain_frames rt fps"
    and fuel: "length (frames rt fps p) < fuel"
    and t: "\<not> sb_ctx_terminated t" "sb_impl t = (d, bps)" "lb_ok (dl_lb d)" "\<not> lb_more (dl_lb d)" "\<not> lb_dropping (dl_lb d)"
    "\<exists>q \<in> lb_active_pipes (dl_lb d). can_write (bps q)" "\<forall>q \<in> lb_items (dl_lb d). can_write (bps q) \<longrightarrow> sends_ok (bps q)"
  shows "\<exists>s' t' rt' fps' d' bps' q es. forward fuel frontend_socket backend_socket None s t c = Inr (True, s', t', c)
     \<and> \<not> sb_ctx_terminated s' \<and> \<not> sb_ctx_terminated t' \<and> sb_impl s' = (rt', fps') \<and> sb_impl t' = (d', bps')
     \<and> is_message es \<and> frames rt fps p = es @ ready (fps' p) \<and> idle_read rt' fps' \<and> untouched fps fps' \<and> same_writing rt rt'
     \<and> lb_sent q (msg_of True (po_identity (fps p)) # es) (dl_lb d) bps (dl_lb d') bps' \<and> dl_fq d' = dl_fq d"
proof -
  obtain k where k: "fuel = Suc k" using fuel by (cases fuel) auto
  let ?m = "msg_of True (po_identity (fps p))"
  obtain rt1 where r: "router_xrecv rt fps = Inr (Some ?m, rt1, fps)" "mid_read rt1 fps p" "frames rt1 fps p = frames rt fps p"
      "same_writing rt rt1" "rt_fq rt1 = rt_fq rt" using fetched_read [OF s(3)] by blast
  have m: "msg_more ?m" "\<not> msg_identity ?m" by (simp_all add: msg_of_def)
  from router_recv_quiet [OF s(1,2) r(1) m(2)] obtain s1 where
    s1: "zs_recv frontend_socket s = Inr (Got ?m, s1)" "sb_impl s1 = (rt1, fps)" "zs_rcvmore frontend_socket s1 = Some (msg_more ?m)"
      "\<not> sb_ctx_terminated s1" by blast
  obtain q l1 bps1 where b: "lb_sendpipe ?m (dl_lb d) bps = Inr (None, Some q, l1, bps1)" "lb_holds q [?m] (dl_lb d) bps l1 bps1"
    using lb_first [where ps=bps, OF t(3-7) m(1)] by blast
  let ?d = "d\<lparr>dl_lb := l1\<rparr>" and ?t = "t\<lparr>sb_impl := (d\<lparr>dl_lb := l1\<rparr>, bps1)\<rparr>"
  have "zs_send backend_socket (msg_more ?m) ?m t = Inr (None, ?t)"
    by (rule dealer_send_quiet [OF t(1,2) dealer_sends [OF b(1)]])
  note step = forward_part [where fuel=k and c=c, OF s1(1,3) this]
  have fr: "rt_prefetched rt" using s(3) by (simp add: fetched_def)
  have pl: "plain_frames rt1 fps"
    using s(3,4) r(3,5) by (auto simp: plain_frames_def frames_def split: if_splits)
  have len: "length (frames rt1 fps p) \<le> k" using fuel k r(3) by simp
  have "\<not> sb_ctx_terminated ?t" "sb_impl ?t = (?d, bps1)" "lb_holds q [?m] (dl_lb d) bps (dl_lb ?d) bps1" using t(1) b(2) by simp_all
  from forward_request_rest [where c=c, OF s1(4,2) r(2) pl len this] obtain s' t' rt' fps' d' bps' es where
    f: "forward k frontend_socket backend_socket None s1 ?t c = Inr (True, s', t', c)"
      "\<not> sb_ctx_terminated s'" "\<not> sb_ctx_terminated t'" "sb_impl s' = (rt', fps')" "sb_impl t' = (d', bps')"
      "is_message es" "frames rt fps p = es @ ready (fps' p)" "idle_read rt' fps'" "untouched fps fps'" "same_writing rt1 rt'"
      "lb_sent q (?m # es) (dl_lb d) bps (dl_lb d') bps'" "dl_fq d' = dl_fq d"
    unfolding r(3) by auto
  have "same_writing rt rt'" using r(4) f(10) by (simp add: same_writing_def)
  moreover have "forward fuel frontend_socket backend_socket None s t c = Inr (True, s', t', c)"
    unfolding k step using m(1) f(1) by simp
  ultimately show ?thesis using f by blast
qed



subsection \<open>A reply\<close>

definition same_reading :: "router \<Rightarrow> router \<Rightarrow> bool" where
  "same_reading rt rt' \<longleftrightarrow> rt_fq rt' = rt_fq rt \<and> rt_prefetched rt' = rt_prefetched rt \<and> rt_identity_sent rt' = rt_identity_sent rt
     \<and> rt_more_in rt' = rt_more_in rt \<and> rt_prefetched_msg rt' = rt_prefetched_msg rt \<and> rt_prefetched_id rt' = rt_prefetched_id rt
     \<and> rt_mandatory rt' = rt_mandatory rt \<and> rt_raw_sock rt' = rt_raw_sock rt \<and> rt_options_raw rt' = rt_options_raw rt"

text \<open>The pipe the first frame of a reply leads to.\<close>

definition reply_target :: "router \<Rightarrow> ports \<Rightarrow> zmsg \<Rightarrow> nat option" where
  "reply_target rt ps e =
     (case map_of (rt_outpipes rt) (msg_data e) of
        None \<Rightarrow> None
      | Some (p, a) \<Rightarrow> if can_write (ps p) then Some p else None)"

definition outpipes_known :: "router \<Rightarrow> bool" where
  "outpipes_known rt \<longleftrightarrow> (\<forall>i p a. map_of (rt_outpipes rt) i = Some (p, a) \<longrightarrow> p \<in> fq_items (rt_fq rt))"

text \<open>What stands where the reply goes; \<open>finished\<close> says that the message is complete.\<close>

definition router_wrote :: "bool \<Rightarrow> nat option \<Rightarrow> zmsg list \<Rightarrow> router \<Rightarrow> ports \<Rightarrow> router \<Rightarrow> ports \<Rightarrow> bool" where
  "router_wrote finished x w rt0 ps0 rt ps \<longleftrightarrow>
     same_reading rt0 rt \<and> outpipes_known rt \<and> rt_more_out rt = (\<not> finished) \<and> rt_current_out rt = (if finished then None else x)
   \<and> (\<forall>q. Some q \<noteq> x \<longrightarrow> same_queues (ps0 q) (ps q))
   \<and> (\<forall>p. x = Some p \<longrightarrow> ypipe_ok (po_out (ps p)) \<and> all_msgs (po_out (ps p)) = all_msgs (po_out (ps0 p)) @ w
        \<and> po_in (ps p) = po_in (ps0 p) \<and> po_identity (ps p) = po_identity (ps0 p)
        \<and> read_side (po_end (ps p)) = read_side (po_end (ps0 p))
        \<and> (if finished then mp_ready (pipe_of (po_out (ps p))) = all_msgs (po_out (ps0 p)) @ w
           else can_write (ps p) \<and> sends_ok (ps p)))"

lemma out_state_simps [simp]:
  "same_reading rt0 (rt\<lparr>rt_more_out := b\<rparr>) = same_reading rt0 rt" "same_reading rt0 (rt\<lparr>rt_current_out := x\<rparr>) = same_reading rt0 rt"
  "outpipes_known (rt\<lparr>rt_more_out := b\<rparr>) = outpipes_known rt" "outpipes_known (rt\<lparr>rt_current_out := x\<rparr>) = outpipes_known rt"
  by (simp_all add: same_reading_def outpipes_known_def)

lemma router_wrote_prefix:
  assumes r: "\<not> rt_more_out rt" "rt_current_out rt = None" "\<not> rt_mandatory rt" "outpipes_known rt"
    and so: "\<forall>p \<in> fq_items (rt_fq rt). can_write (ps p) \<longrightarrow> sends_ok (ps p)" and e: "msg_more e"
  shows "\<exists>rt' ps'. router_xsend e rt ps = Inr (None, rt', ps') \<and> router_wrote False (reply_target rt ps e) [] rt ps rt' ps'"
proof (cases "map_of (rt_outpipes rt) (msg_data e)")
  case None
  let ?r = "rt\<lparr>rt_more_out := True\<rparr>"
  have "router_xsend e rt ps = Inr (None, ?r, ps)"
    using r(1-3) None e by (simp add: router_xsend_def router_prefix_def check_def Let_def)
  moreover have "router_wrote False (reply_target rt ps e) [] rt ps ?r ps"
    using r None by (simp add: router_wrote_def same_reading_def reply_target_def outpipes_known_def)
  ultimately show ?thesis by blast
next
  case (Some pa)
  obtain p a where pa: "pa = (p, a)" by (cases pa)
  have pi: "p \<in> fq_items (rt_fq rt)" using r(4) Some pa by (auto simp: outpipes_known_def)
  show ?thesis
  proof (cases "can_write (ps p)")
    case True
    let ?r = "rt\<lparr>rt_more_out := True, rt_current_out := Some p\<rparr>"
    have "router_xsend e rt ps = Inr (None, ?r, ps)"
      using r(1,2) Some pa e check_write_same [OF True] by (simp add: router_xsend_def router_prefix_def check_def Let_def)
    moreover have "router_wrote False (reply_target rt ps e) [] rt ps ?r ps"
      using r Some pa True so pi
      by (simp add: router_wrote_def same_reading_def reply_target_def outpipes_known_def sends_ok_def)
    ultimately show ?thesis by blast
  next
    case False
    obtain q where c: "port_check_write (ps p) = (False, q)" and sq: "same_queues (ps p) q"
      using check_write_refused [OF False] by blast
    let ?r = "rt\<lparr>rt_more_out := True, rt_outpipes := AList.update (msg_data e) (p, False) (rt_outpipes rt)\<rparr>"
    have "router_xsend e rt ps = Inr (None, ?r, ps(p := q))"
      using r(1-3) Some pa e c by (simp add: router_xsend_def router_prefix_def check_def Let_def)
    moreover have "outpipes_known ?r" using r(4) pi by (auto simp: outpipes_known_def update_conv')
    then have "router_wrote False (reply_target rt ps e) [] rt ps ?r (ps(p := q))"
      using r Some pa False sq by (auto simp: router_wrote_def same_reading_def reply_target_def)
    ultimately show ?thesis by blast
  qed
qed

lemma router_wrote_next:
  assumes w: "router_wrote False x w rt0 ps0 rt ps" and raw: "\<not> rt_raw_sock rt0" "\<not> rt_options_raw rt0"
  shows "\<exists>rt' ps'. router_xsend m rt ps = Inr (None, rt', ps') \<and> router_wrote (\<not> msg_more m) x (w @ [m]) rt0 ps0 rt' ps'"
proof (cases x)
  case None
  let ?r = "rt\<lparr>rt_more_out := msg_more m\<rparr>"
  have g: "same_reading rt0 rt" "rt_more_out rt" "rt_current_out rt = None" using w None by (simp_all add: router_wrote_def)
  then have "router_xsend m rt ps = Inr (None, ?r, ps)"
    using raw by (simp add: router_xsend_def same_reading_def Let_def)
  moreover have "router_wrote (\<not> msg_more m) x (w @ [m]) rt0 ps0 ?r ps"
    using w None by (simp add: router_wrote_def)
  ultimately show ?thesis by blast
next
  case (Some p)
  have g: "same_reading rt0 rt" "rt_more_out rt" "rt_current_out rt = Some p" "can_write (ps p)" "sends_ok (ps p)"
    using w Some by (simp_all add: router_wrote_def)
  let ?r = "rt\<lparr>rt_more_out := msg_more m, rt_current_out := (if msg_more m then Some p else None)\<rparr>" and ?q = "after_part m (ps p)"
  have "router_xsend m rt ps = Inr (None, ?r, ps(p := ?q))"
    using router_send_frame [where ps=ps and p=p and m=m, OF g(2-4)] g(1) raw by (simp add: same_reading_def)
  moreover note a = after_part_out [OF g(4,5), of m]
  have "router_wrote (\<not> msg_more m) x (w @ [m]) rt0 ps0 ?r (ps(p := ?q))"
    using w Some a by (simp add: router_wrote_def sends_ok_def)
  ultimately show ?thesis by blast
qed

text \<open>Reading from a DEALER.\<close>

lemma recv_until_any: "recv_until (\<lambda>m p. True) (Suc n) f ps = fq_recvpipe f ps"
  by (cases "fq_recvpipe f ps") (auto split: option.splits)

lemma dealer_read_first:
  assumes "fq_inv (dl_fq d) ps" "\<exists>q \<in> fq_active_pipes (dl_fq d). offered (ps q) \<noteq> None" "\<not> fq_more (dl_fq d)"
  shows "\<exists>m q f ps'. dealer_xrecv d ps = Inr (Some m, d\<lparr>dl_fq := f\<rparr>, ps') \<and> recv_result (\<lambda>m p. True) (dl_fq d) ps (Some (m, q)) f ps'
     \<and> q \<in> fq_active_pipes (dl_fq d) \<and> after_credentials (ps q) = m # ready (ps' q)"
proof -
  have g: "fq_ok (dl_fq d)" "\<forall>p \<in> fq_items (dl_fq d). reads_ok (ps p)" using assms(1) by (simp_all add: fq_inv_def)
  from fq_recv_spec [OF g] assms(3) obtain r f ps' where r: "fq_recvpipe (dl_fq d) ps = Inr (r, f, ps')" "took (dl_fq d) ps r f ps'"
    by blast
  have "r \<noteq> None"
  proof
    assume "r = None"
    then have "fq_active f = 0" "\<forall>q \<in> fq_active_pipes (dl_fq d) - fq_active_pipes f. offered (ps q) = None"
      using r(2) by (simp_all add: took_def)
    then show False using assms(2) by (simp add: fq_active_pipes_def active_pipes_def)
  qed
  then obtain m q where mq: "r = Some (m, q)" by (cases r) auto
  obtain x f2 ps2 where "recv_until (\<lambda>m p. True) (Suc (queued (dl_fq d) ps)) (dl_fq d) ps = Inr (x, f2, ps2)"
      "recv_result (\<lambda>m p. True) (dl_fq d) ps x f2 ps2"
    using recv_until_enough [OF assms(1)] by blast
  then have "recv_result (\<lambda>m p. True) (dl_fq d) ps (Some (m, q)) f ps'" using r(1) mq unfolding recv_until_any by simp
  moreover have "dealer_xrecv d ps = Inr (Some m, d\<lparr>dl_fq := f\<rparr>, ps')"
    using r(1) mq by (simp add: dealer_xrecv_def dealer_recvpipe_def)
  moreover have "q \<in> fq_active_pipes (dl_fq d)" "after_credentials (ps q) = m # ready (ps' q)"
    using r(2) mq by (auto simp: took_def)
  ultimately show ?thesis by blast
qed

lemma dealer_read_next:
  assumes "fq_inv (dl_fq d) ps" "fq_more (dl_fq d)" "fq_current_pipe (dl_fq d) = q"
  shows "\<exists>m f ps'. dealer_xrecv d ps = Inr (Some m, d\<lparr>dl_fq := f\<rparr>, ps') \<and> recv_result (\<lambda>m p. True) (dl_fq d) ps (Some (m, q)) f ps'
     \<and> ready (ps q) = m # ready (ps' q)"
proof -
  obtain m f ps' where r: "recv_until (\<lambda>m p. True) (Suc (queued (dl_fq d) ps)) (dl_fq d) ps = Inr (Some (m, q), f, ps')"
      "recv_result (\<lambda>m p. True) (dl_fq d) ps (Some (m, q)) f ps'" "ready (ps q) = m # ready (ps' q)"
    using recv_continue [OF assms(1,2), of "\<lambda>m p. True"] assms(3) by auto
  have "dealer_xrecv d ps = Inr (Some m, d\<lparr>dl_fq := f\<rparr>, ps')"
    using r(1) unfolding recv_until_any by (simp add: dealer_xrecv_def dealer_recvpipe_def)
  then show ?thesis using r(2,3) by blast
qed


lemma dealer_fq_simps [simp]:
  "dl_lb (d\<lparr>dl_fq := f\<rparr>) = dl_lb d" "dl_fq (d\<lparr>dl_lb := l\<rparr>) = dl_fq d"
  by simp_all

lemma forward_reply_rest:
  "\<not> sb_ctx_terminated s \<Longrightarrow> sb_impl s = (d, bps) \<Longrightarrow> fq_inv (dl_fq d) bps \<Longrightarrow> fq_more (dl_fq d) \<Longrightarrow> fq_current_pipe (dl_fq d) = q \<Longrightarrow>
   no_identities (dl_fq d) bps \<Longrightarrow> q \<in> fq_items (dl_fq d) \<Longrightarrow> length (ready (bps q)) \<le> fuel \<Longrightarrow>
   \<not> sb_ctx_terminated t \<Longrightarrow> sb_impl t = (rt, fps) \<Longrightarrow> router_wrote False x w rt0 ps0 rt fps \<Longrightarrow>
   \<not> rt_raw_sock rt0 \<Longrightarrow> \<not> rt_options_raw rt0 \<Longrightarrow>
   \<exists>s' t' d' bps' rt' fps' es. forward fuel backend_socket frontend_socket None s t c = Inr (True, s', t', c)
     \<and> \<not> sb_ctx_terminated s' \<and> \<not> sb_ctx_terminated t' \<and> sb_impl s' = (d', bps') \<and> sb_impl t' = (rt', fps')
     \<and> is_message es \<and> ready (bps q) = es @ ready (bps' q) \<and> fq_inv (dl_fq d') bps' \<and> \<not> fq_more (dl_fq d')
     \<and> fq_items (dl_fq d') = fq_items (dl_fq d) \<and> untouched bps bps' \<and> dl_lb d' = dl_lb d
     \<and> router_wrote True x (w @ es) rt0 ps0 rt' fps'"
proof (induction fuel arbitrary: s t d bps rt fps w)
  case 0
  then have "ready (bps q) \<noteq> []" by (auto simp: fq_inv_def continues_def)
  then show ?case using 0 by simp
next
  case (Suc fuel)
  note pr = Suc.prems
  obtain m f bps1 where r: "dealer_xrecv d bps = Inr (Some m, d\<lparr>dl_fq := f\<rparr>, bps1)"
      "recv_result (\<lambda>m p. True) (dl_fq d) bps (Some (m, q)) f bps1" "ready (bps q) = m # ready (bps1 q)"
    using dealer_read_next [OF pr(3,4,5)] by blast
  have f: "fq_inv f bps1" "fq_items f = fq_items (dl_fq d)" "untouched bps bps1" "fq_more f = msg_more m"
    "msg_more m \<longrightarrow> fq_current_pipe f = q" using r(2) by (simp_all add: recv_result_def)
  have "\<not> msg_identity m" using pr(6,7) r(3) by (auto simp: no_identities_def)
  from dealer_recv_quiet [OF pr(1,2) r(1) this] obtain s1 where
    s1: "zs_recv backend_socket s = Inr (Got m, s1)" "sb_impl s1 = (d\<lparr>dl_fq := f\<rparr>, bps1)" "zs_rcvmore backend_socket s1 = Some (msg_more m)"
      "\<not> sb_ctx_terminated s1" by blast
  obtain rt1 fps1 where b: "router_xsend m rt fps = Inr (None, rt1, fps1)" "router_wrote (\<not> msg_more m) x (w @ [m]) rt0 ps0 rt1 fps1"
    using router_wrote_next [OF pr(11-13)] by blast
  let ?t = "t\<lparr>sb_impl := (rt1, fps1)\<rparr>"
  note step = forward_part [where fuel=fuel and c=c, OF s1(1,3) router_send_quiet [OF pr(9,10) b(1)]]
  show ?case
  proof (cases "msg_more m")
    case True
    have "no_identities f bps1" using no_identities_later [OF pr(6) f(3,2)] .
    with Suc.IH [where s=s1 and t="?t" and d="d\<lparr>dl_fq := f\<rparr>" and bps=bps1 and rt=rt1 and fps=fps1 and w="w @ [m]", OF s1(4,2)]
      f b(2) pr(7-9,12,13) r(3) True
    obtain s' t' d' bps' rt' fps' es where g: "forward fuel backend_socket frontend_socket None s1 ?t c = Inr (True, s', t', c)"
      "\<not> sb_ctx_terminated s'" "\<not> sb_ctx_terminated t'" "sb_impl s' = (d', bps')" "sb_impl t' = (rt', fps')"
      "is_message es" "ready (bps1 q) = es @ ready (bps' q)" "fq_inv (dl_fq d') bps'" "\<not> fq_more (dl_fq d')"
      "fq_items (dl_fq d') = fq_items f" "untouched bps1 bps'" "dl_lb d' = dl_lb d" "router_wrote True x (w @ m # es) rt0 ps0 rt' fps'"
      by auto
    have "untouched bps bps'" by (rule untouched_trans [OF f(3) g(11)])
    moreover have "is_message (m # es)" using g(6) True by (simp add: is_message_Cons)
    moreover have "ready (bps q) = (m # es) @ ready (bps' q)" using r(3) g(7) by simp
    moreover have "forward (Suc fuel) backend_socket frontend_socket None s t c = Inr (True, s', t', c)" using step True g(1) by simp
    moreover have "fq_items (dl_fq d') = fq_items (dl_fq d)" using g(10) f(2) by simp
    ultimately show ?thesis using g(2-5,8,9,12,13) by blast
  next
    case False
    have "is_message [m]" using False by simp
    moreover have "ready (bps q) = [m] @ ready (bps1 q)" using r(3) by simp
    moreover have "forward (Suc fuel) backend_socket frontend_socket None s t c = Inr (True, s1, ?t, c)" using step False by simp
    moreover have "router_wrote True x (w @ [m]) rt0 ps0 rt1 fps1" using b(2) False by simp
    moreover have "sb_impl ?t = (rt1, fps1)" "\<not> sb_ctx_terminated ?t" "\<not> fq_more (dl_fq (d\<lparr>dl_fq := f\<rparr>))"
      "fq_inv (dl_fq (d\<lparr>dl_fq := f\<rparr>)) bps1" "fq_items (dl_fq (d\<lparr>dl_fq := f\<rparr>)) = fq_items (dl_fq d)" "dl_lb (d\<lparr>dl_fq := f\<rparr>) = dl_lb d"
      using pr(9) f False by simp_all
    ultimately show ?thesis using s1(2,4) f(3) by blast
  qed
qed

text \<open>A reply of one frame is thrown away by the ROUTER.\<close>

definition reply_delivered :: "zmsg list \<Rightarrow> router \<Rightarrow> ports \<Rightarrow> router \<Rightarrow> ports \<Rightarrow> bool" where
  "reply_delivered es rt ps rt' ps' \<longleftrightarrow>
     (if tl es = [] then rt' = rt \<and> ps' = ps else router_wrote True (reply_target rt ps (hd es)) (tl es) rt ps rt' ps')"

lemma forward_reply:
  assumes s: "\<not> sb_ctx_terminated s" "sb_impl s = (d, bps)" "fq_inv (dl_fq d) bps" "\<not> fq_more (dl_fq d)" "no_identities (dl_fq d) bps"
      "\<exists>q \<in> fq_active_pipes (dl_fq d). offered (bps q) \<noteq> None"
    and fuel: "\<forall>q \<in> fq_items (dl_fq d). length (ready (bps q)) < fuel"
    and t: "\<not> sb_ctx_terminated t" "sb_impl t = (rt, fps)" "\<not> rt_more_out rt" "rt_current_out rt = None" "\<not> rt_mandatory rt"
      "outpipes_known rt" "\<not> rt_raw_sock rt" "\<not> rt_options_raw rt" "\<forall>p \<in> fq_items (rt_fq rt). can_write (fps p) \<longrightarrow> sends_ok (fps p)"
  shows "\<exists>s' t' d' bps' rt' fps' q es. forward fuel backend_socket frontend_socket None s t c = Inr (True, s', t', c)
     \<and> \<not> sb_ctx_terminated s' \<and> \<not> sb_ctx_terminated t' \<and> sb_impl s' = (d', bps') \<and> sb_impl t' = (rt', fps')
     \<and> q \<in> fq_active_pipes (dl_fq d) \<and> is_message es \<and> after_credentials (bps q) = es @ ready (bps' q)
     \<and> fq_inv (dl_fq d') bps' \<and> \<not> fq_more (dl_fq d') \<and> fq_items (dl_fq d') = fq_items (dl_fq d)
     \<and> untouched bps bps' \<and> dl_lb d' = dl_lb d \<and> reply_delivered es rt fps rt' fps'"
proof -
  obtain e q f bps1 where r: "dealer_xrecv d bps = Inr (Some e, d\<lparr>dl_fq := f\<rparr>, bps1)"
      "recv_result (\<lambda>m p. True) (dl_fq d) bps (Some (e, q)) f bps1" "q \<in> fq_active_pipes (dl_fq d)"
      "after_credentials (bps q) = e # ready (bps1 q)"
    using dealer_read_first [OF s(3,6,4)] by blast
  have f: "fq_inv f bps1" "fq_items f = fq_items (dl_fq d)" "untouched bps bps1" "fq_more f = msg_more e" "q \<in> fq_items (dl_fq d)"
    "msg_more e \<longrightarrow> fq_current_pipe f = q" "\<exists>xs. ready (bps q) = xs @ e # ready (bps1 q)" using r(2) by (simp_all add: recv_result_def)
  obtain xs where xs: "ready (bps q) = xs @ e # ready (bps1 q)" using f(7) by blast
  obtain k where k: "fuel = Suc k" using fuel f(5) by (cases fuel) auto
  have id: "\<not> msg_identity e" using s(5) f(5) xs by (auto simp: no_identities_def)
  from dealer_recv_quiet [OF s(1,2) r(1) id] obtain s1 where
    s1: "zs_recv backend_socket s = Inr (Got e, s1)" "sb_impl s1 = (d\<lparr>dl_fq := f\<rparr>, bps1)" "zs_rcvmore backend_socket s1 = Some (msg_more e)"
      "\<not> sb_ctx_terminated s1" by blast
  show ?thesis
  proof (cases "msg_more e")
    case False
    have "router_xsend e rt fps = Inr (None, rt, fps)"
      using t(3,4) False by (simp add: router_xsend_def router_prefix_def check_def)
    note step = forward_part [where fuel=k and c=c, OF s1(1,3) router_send_quiet [OF t(1,2) this]]
    let ?t = "t\<lparr>sb_impl := (rt, fps)\<rparr>"
    have "forward fuel backend_socket frontend_socket None s t c = Inr (True, s1, ?t, c)" unfolding k step using False by simp
    moreover have "is_message [e]" "reply_delivered [e] rt fps rt fps" using False by (simp_all add: reply_delivered_def)
    moreover have "after_credentials (bps q) = [e] @ ready (bps1 q)" using r(4) by simp
    moreover have "sb_impl ?t = (rt, fps)" "\<not> sb_ctx_terminated ?t" "\<not> fq_more (dl_fq (d\<lparr>dl_fq := f\<rparr>))"
      "fq_inv (dl_fq (d\<lparr>dl_fq := f\<rparr>)) bps1" "fq_items (dl_fq (d\<lparr>dl_fq := f\<rparr>)) = fq_items (dl_fq d)" "dl_lb (d\<lparr>dl_fq := f\<rparr>) = dl_lb d"
      using t(1) f False by simp_all
    ultimately show ?thesis using s1(2,4) f(3) r(3) by blast
  next
    case True
    obtain rt1 fps1 where b: "router_xsend e rt fps = Inr (None, rt1, fps1)" "router_wrote False (reply_target rt fps e) [] rt fps rt1 fps1"
      using router_wrote_prefix [OF t(3-6,9) True] by blast
    let ?t = "t\<lparr>sb_impl := (rt1, fps1)\<rparr>"
    note step = forward_part [where fuel=k and c=c, OF s1(1,3) router_send_quiet [OF t(1,2) b(1)]]
    have ni: "no_identities f bps1" using no_identities_later [OF s(5) f(3,2)] .
    have len: "length (ready (bps1 q)) \<le> k" using fuel f(5) xs k by (auto dest!: bspec [of _ _ q])
    let ?d = "d\<lparr>dl_fq := f\<rparr>"
    have d: "fq_inv (dl_fq ?d) bps1" "fq_more (dl_fq ?d)" "fq_current_pipe (dl_fq ?d) = q" "no_identities (dl_fq ?d) bps1"
        "q \<in> fq_items (dl_fq ?d)" "\<not> sb_ctx_terminated ?t" "sb_impl ?t = (rt1, fps1)"
      using f ni True t(1) by simp_all
    from forward_reply_rest [where c=c, OF s1(4,2) d(1-5) len d(6,7) b(2) t(7,8)]
    obtain s' t' d' bps' rt' fps' es where g: "forward k backend_socket frontend_socket None s1 ?t c = Inr (True, s', t', c)"
      "\<not> sb_ctx_terminated s'" "\<not> sb_ctx_terminated t'" "sb_impl s' = (d', bps')" "sb_impl t' = (rt', fps')"
      "is_message es" "ready (bps1 q) = es @ ready (bps' q)" "fq_inv (dl_fq d') bps'" "\<not> fq_more (dl_fq d')"
      "fq_items (dl_fq d') = fq_items f" "untouched bps1 bps'" "dl_lb d' = dl_lb d"
      "router_wrote True (reply_target rt fps e) es rt fps rt' fps'" by auto
    have "es \<noteq> []" using g(6) by auto
    then have "reply_delivered (e # es) rt fps rt' fps'" using g(13) by (simp add: reply_delivered_def)
    moreover have "is_message (e # es)" using g(6) True by (simp add: is_message_Cons)
    moreover have "after_credentials (bps q) = (e # es) @ ready (bps' q)" using r(4) g(7) by simp
    moreover have "forward fuel backend_socket frontend_socket None s t c = Inr (True, s', t', c)" unfolding k step using True g(1) by simp
    moreover have "untouched bps bps'" by (rule untouched_trans [OF f(3) g(11)])
    moreover have "fq_items (dl_fq d') = fq_items (dl_fq d)" using g(10) f(2) by simp
    ultimately show ?thesis using g(2-5,8,9,12) r(3) by blast
  qed
qed

end
