(* ===== verification/Zmq_Pipe_List.thy ===== *)
theory Zmq_Pipe_List
  imports Zmq_Fair_Queue
begin

section \<open>What load balancing and fair queueing share\<close>

text \<open>
  \<open>lb_t\<close> and \<open>fq_t\<close> keep the pipes of a socket in the same way and answer the same four events:
  a pipe is attached, wakes up, turns out to be dry or full, or ends. The locale \<open>pipe_list\<close> states
  what the operations promise; the lemmas on sequences of events are proved in it.
\<close>

datatype pipe_event = Attached nat | Woken nat | Dry | Gone nat

definition pipe_event_step ::
    "(nat \<Rightarrow> 's \<Rightarrow> 's outcome) \<Rightarrow> (nat \<Rightarrow> 's \<Rightarrow> 's outcome) \<Rightarrow> ('s \<Rightarrow> 's outcome) \<Rightarrow> (nat \<Rightarrow> 's \<Rightarrow> 's outcome)
      \<Rightarrow> pipe_event \<Rightarrow> 's \<Rightarrow> 's outcome" where
  "pipe_event_step attach activated deactivate terminated ev s =
     (case ev of Attached p \<Rightarrow> attach p s | Woken p \<Rightarrow> activated p s | Dry \<Rightarrow> deactivate s | Gone p \<Rightarrow> terminated p s)"

text \<open>An event that may happen, given the pipes and the active ones.\<close>

definition pipe_event_ok :: "pipe_event \<Rightarrow> nat set \<Rightarrow> nat set \<Rightarrow> bool" where
  "pipe_event_ok ev pipes active =
     (case ev of Attached p \<Rightarrow> p \<notin> pipes | Woken p \<Rightarrow> p \<in> pipes \<and> p \<notin> active | Dry \<Rightarrow> active \<noteq> {} | Gone p \<Rightarrow> p \<in> pipes)"

text \<open>Events that may not happen are left out.\<close>

fun pipe_events ::
    "('s \<Rightarrow> nat set) \<Rightarrow> ('s \<Rightarrow> nat set) \<Rightarrow> (pipe_event \<Rightarrow> 's \<Rightarrow> 's outcome) \<Rightarrow> pipe_event list \<Rightarrow> 's \<Rightarrow> 's outcome" where
  "pipe_events pipes active step [] s = Inr s"
| "pipe_events pipes active step (ev # evs) s =
     (if pipe_event_ok ev (pipes s) (active s)
      then and_then (step ev s) (pipe_events pipes active step evs)
      else pipe_events pipes active step evs s)"

fun attached_pipes :: "pipe_event list \<Rightarrow> nat set \<Rightarrow> nat set" where
  "attached_pipes [] P = P"
| "attached_pipes (Attached p # evs) P = attached_pipes evs (insert p P)"
| "attached_pipes (Gone p # evs) P = attached_pipes evs (P - {p})"
| "attached_pipes (_ # evs) P = attached_pipes evs P"

locale pipe_list =
  fixes ok :: "'s \<Rightarrow> bool" and pipes active :: "'s \<Rightarrow> nat set"
    and attach activated terminated :: "nat \<Rightarrow> 's \<Rightarrow> 's outcome" and deactivate :: "'s \<Rightarrow> 's outcome"
  assumes active_pipe: "ok s \<Longrightarrow> active s \<subseteq> pipes s"
    and attach_law: "ok s \<Longrightarrow> p \<notin> pipes s \<Longrightarrow>
      \<exists>s'. attach p s = Inr s' \<and> ok s' \<and> pipes s' = insert p (pipes s) \<and> active s' = insert p (active s)"
    and activated_law: "ok s \<Longrightarrow> p \<in> pipes s \<Longrightarrow> p \<notin> active s \<Longrightarrow>
      \<exists>s'. activated p s = Inr s' \<and> ok s' \<and> pipes s' = pipes s \<and> active s' = insert p (active s)"
    and deactivate_law: "ok s \<Longrightarrow> active s \<noteq> {} \<Longrightarrow>
      \<exists>s' p. deactivate s = Inr s' \<and> ok s' \<and> pipes s' = pipes s \<and> p \<in> active s \<and> active s' = active s - {p}"
    and terminated_law: "ok s \<Longrightarrow> p \<in> pipes s \<Longrightarrow>
      \<exists>s'. terminated p s = Inr s' \<and> ok s' \<and> pipes s' = pipes s - {p} \<and> active s' = active s - {p}"
begin

abbreviation event_step :: "pipe_event \<Rightarrow> 's \<Rightarrow> 's outcome" where
  "event_step \<equiv> pipe_event_step attach activated deactivate terminated"

lemma step_total:
  assumes "ok s" "pipe_event_ok ev (pipes s) (active s)"
  shows "\<exists>s'. event_step ev s = Inr s' \<and> ok s' \<and> pipes s' = attached_pipes [ev] (pipes s)"
proof (cases ev)
  case (Attached p)
  then show ?thesis using attach_law [OF assms(1), of p] assms(2) by (auto simp: pipe_event_step_def pipe_event_ok_def)
next
  case (Woken p)
  then show ?thesis using activated_law [OF assms(1), of p] assms(2) by (auto simp: pipe_event_step_def pipe_event_ok_def)
next
  case Dry
  then show ?thesis using deactivate_law [OF assms(1)] assms(2) by (auto simp: pipe_event_step_def pipe_event_ok_def)
next
  case (Gone p)
  then show ?thesis using terminated_law [OF assms(1), of p] assms(2) by (auto simp: pipe_event_step_def pipe_event_ok_def)
qed

lemma skipped_event: "ok s \<Longrightarrow> \<not> pipe_event_ok ev (pipes s) (active s) \<Longrightarrow> attached_pipes [ev] (pipes s) = pipes s"
  using active_pipe [of s] by (cases ev) (auto simp: pipe_event_ok_def)

lemma attached_pipes_Cons: "attached_pipes (ev # evs) P = attached_pipes evs (attached_pipes [ev] P)"
  by (cases ev) simp_all

lemma events_total:
  "ok s \<Longrightarrow> \<exists>s'. pipe_events pipes active event_step evs s = Inr s' \<and> ok s' \<and> pipes s' = attached_pipes evs (pipes s)
     \<and> active s' \<subseteq> pipes s'"
proof (induction evs arbitrary: s)
  case Nil
  then show ?case using active_pipe by simp
next
  case (Cons ev evs)
  show ?case
  proof (cases "pipe_event_ok ev (pipes s) (active s)")
    case True
    obtain s1 where s1: "event_step ev s = Inr s1" "ok s1" "pipes s1 = attached_pipes [ev] (pipes s)"
      using step_total [OF Cons.prems True] by blast
    then show ?thesis using Cons.IH [OF s1(2)] True attached_pipes_Cons [of ev evs "pipes s"] by simp
  next
    case False
    then show ?thesis
      using Cons.IH [OF Cons.prems] skipped_event [OF Cons.prems False] attached_pipes_Cons [of ev evs "pipes s"] by simp
  qed
qed

end

lemma lb_laws:
  assumes "lb_ok s"
  shows "lb_active_pipes s \<subseteq> lb_items s"
    "p \<notin> lb_items s \<Longrightarrow> \<exists>s'. lb_attach p s = Inr s' \<and> lb_ok s' \<and> lb_items s' = insert p (lb_items s)
       \<and> lb_active_pipes s' = insert p (lb_active_pipes s)"
    "p \<in> lb_items s \<Longrightarrow> p \<notin> lb_active_pipes s \<Longrightarrow> \<exists>s'. lb_activated p s = Inr s' \<and> lb_ok s' \<and> lb_items s' = lb_items s
       \<and> lb_active_pipes s' = insert p (lb_active_pipes s)"
    "p \<in> lb_items s \<Longrightarrow> \<exists>s'. lb_pipe_terminated p s = Inr s' \<and> lb_ok s' \<and> lb_items s' = lb_items s - {p}
       \<and> lb_active_pipes s' = lb_active_pipes s - {p}"
    "lb_active_pipes s \<noteq> {} \<Longrightarrow> \<exists>s' q. lb_deactivate s = Inr s' \<and> lb_ok s' \<and> lb_items s' = lb_items s \<and> q \<in> lb_active_pipes s
       \<and> lb_active_pipes s' = lb_active_pipes s - {q}"
proof -
  show "lb_active_pipes s \<subseteq> lb_items s" by (auto simp: lb_active_pipes_def active_pipes_def dest: in_set_takeD)
  have c: "0 < lb_active s" "lb_current_pipe s \<in> lb_active_pipes s" if "lb_active_pipes s \<noteq> {}"
    using that assms current_active [of s] by (cases "lb_active s = 0"; simp add: lb_active_pipes_def active_pipes_def)+
  show "lb_active_pipes s \<noteq> {} \<Longrightarrow> \<exists>s' q. lb_deactivate s = Inr s' \<and> lb_ok s' \<and> lb_items s' = lb_items s \<and> q \<in> lb_active_pipes s
       \<and> lb_active_pipes s' = lb_active_pipes s - {q}"
    using lb_deactivate_ok [OF assms c(1)] c(2) by blast
  show "p \<notin> lb_items s \<Longrightarrow> \<exists>s'. lb_attach p s = Inr s' \<and> lb_ok s' \<and> lb_items s' = insert p (lb_items s)
       \<and> lb_active_pipes s' = insert p (lb_active_pipes s)"
    using lb_attach_ok [OF assms, of p] by blast
  show "p \<in> lb_items s \<Longrightarrow> p \<notin> lb_active_pipes s \<Longrightarrow> \<exists>s'. lb_activated p s = Inr s' \<and> lb_ok s' \<and> lb_items s' = lb_items s
       \<and> lb_active_pipes s' = insert p (lb_active_pipes s)"
    using lb_activated_ok [OF assms, of p] by blast
  show "p \<in> lb_items s \<Longrightarrow> \<exists>s'. lb_pipe_terminated p s = Inr s' \<and> lb_ok s' \<and> lb_items s' = lb_items s - {p}
       \<and> lb_active_pipes s' = lb_active_pipes s - {p}"
    using lb_pipe_terminated_ok [OF assms, of p] by blast
qed

lemma lb_skip_law:
  assumes "lb_ok s" "lb_active_pipes s \<noteq> {}"
  shows "\<exists>s' q. lb_skip s = Inr s' \<and> lb_ok s' \<and> lb_items s' = lb_items s \<and> q \<in> lb_active_pipes s \<and> lb_active_pipes s' = lb_active_pipes s - {q}"
proof -
  have c: "0 < lb_active s" using assms by (cases "lb_active s = 0") (simp_all add: lb_active_pipes_def active_pipes_def)
  then have "lb_current_pipe s \<in> lb_active_pipes s" using current_active [OF assms(1)] by simp
  then show ?thesis using lb_skip_ok [OF assms(1) c] by blast
qed

lemma fq_laws:
  assumes "fq_ok s"
  shows "fq_active_pipes s \<subseteq> fq_items s"
    "p \<notin> fq_items s \<Longrightarrow> \<exists>s'. fq_attach p s = Inr s' \<and> fq_ok s' \<and> fq_items s' = insert p (fq_items s)
       \<and> fq_active_pipes s' = insert p (fq_active_pipes s)"
    "p \<in> fq_items s \<Longrightarrow> p \<notin> fq_active_pipes s \<Longrightarrow> \<exists>s'. fq_activated p s = Inr s' \<and> fq_ok s' \<and> fq_items s' = fq_items s
       \<and> fq_active_pipes s' = insert p (fq_active_pipes s)"
    "p \<in> fq_items s \<Longrightarrow> \<exists>s'. fq_pipe_terminated p s ps = Inr s' \<and> fq_ok s' \<and> fq_items s' = fq_items s - {p}
       \<and> fq_active_pipes s' = fq_active_pipes s - {p}"
    "fq_active_pipes s \<noteq> {} \<Longrightarrow> \<exists>s' q. fq_deactivate s = Inr s' \<and> fq_ok s' \<and> fq_items s' = fq_items s \<and> q \<in> fq_active_pipes s
       \<and> fq_active_pipes s' = fq_active_pipes s - {q}"
proof -
  show "fq_active_pipes s \<subseteq> fq_items s" by (auto simp: fq_active_pipes_def active_pipes_def dest: in_set_takeD)
  have c: "0 < fq_active s" "fq_current_pipe s \<in> fq_active_pipes s" if "fq_active_pipes s \<noteq> {}"
    using that assms fq_current_active [of s] by (cases "fq_active s = 0"; simp add: fq_active_pipes_def active_pipes_def)+
  show "fq_active_pipes s \<noteq> {} \<Longrightarrow> \<exists>s' q. fq_deactivate s = Inr s' \<and> fq_ok s' \<and> fq_items s' = fq_items s \<and> q \<in> fq_active_pipes s
       \<and> fq_active_pipes s' = fq_active_pipes s - {q}"
    using fq_deactivate_ok [OF assms c(1)] c(2) by blast
  show "p \<notin> fq_items s \<Longrightarrow> \<exists>s'. fq_attach p s = Inr s' \<and> fq_ok s' \<and> fq_items s' = insert p (fq_items s)
       \<and> fq_active_pipes s' = insert p (fq_active_pipes s)"
    using fq_attach_ok [OF assms, of p] by blast
  show "p \<in> fq_items s \<Longrightarrow> p \<notin> fq_active_pipes s \<Longrightarrow> \<exists>s'. fq_activated p s = Inr s' \<and> fq_ok s' \<and> fq_items s' = fq_items s
       \<and> fq_active_pipes s' = insert p (fq_active_pipes s)"
    using fq_activated_ok [OF assms, of p] by blast
  show "p \<in> fq_items s \<Longrightarrow> \<exists>s'. fq_pipe_terminated p s ps = Inr s' \<and> fq_ok s' \<and> fq_items s' = fq_items s - {p}
       \<and> fq_active_pipes s' = fq_active_pipes s - {p}"
    using fq_pipe_terminated_ok [OF assms, of p] by blast
qed

text \<open>\<open>sendpipe\<close> passes over a full pipe with \<open>lb_skip\<close>, \<open>has_out\<close> with \<open>lb_deactivate\<close>.\<close>

interpretation sending: pipe_list lb_ok lb_items lb_active_pipes lb_attach lb_activated lb_pipe_terminated lb_skip
  by unfold_locales (fact lb_laws lb_skip_law)+

interpretation polling: pipe_list lb_ok lb_items lb_active_pipes lb_attach lb_activated lb_pipe_terminated lb_deactivate
  by unfold_locales (fact lb_laws)+

interpretation receiving: pipe_list fq_ok fq_items fq_active_pipes fq_attach fq_activated "\<lambda>p f. fq_pipe_terminated p f ps" fq_deactivate
  for ps
  by unfold_locales (fact fq_laws)+


subsection \<open>The end of another pipe in the middle of a message\<close>

text \<open>
  Removing an active pipe puts the last active one into its place; when that was the current one,
  the first becomes current.
\<close>

lemma ring_loses_current:
  assumes r: "ring_ok a n c" and c: "c = n - 1" "0 < i" "i < c"
  shows "\<exists>a1 a2. array_index (pa_items a ! i) a = Inr i \<and> array_swap i (n - 1) a = Inr a1 \<and> array_erase (pa_items a ! i) a1 = Inr a2
     \<and> ring_ok a2 (n - 1) 0 \<and> pa_items a2 ! 0 = pa_items a ! 0 \<and> pa_items a ! 0 \<noteq> pa_items a ! c
     \<and> pa_items a ! c \<in> active_pipes a2 (n - 1)"
proof -
  have g: "array_ok a" "n \<le> length (pa_items a)" "c < length (pa_items a)" "i < n" "1 < n"
    using r c by (auto simp: ring_ok_def split: if_splits)
  obtain a1 where a1: "array_swap i (n - 1) a = Inr a1" "ring_ok a1 (n - 1) 0"
      "pa_items a1 = (pa_items a)[i := pa_items a ! (n - 1), n - 1 := pa_items a ! i]"
      "set (pa_items a1) = set (pa_items a)" "active_pipes a1 (n - 1) = active_pipes a n - {pa_items a ! i}"
    using ring_swap_out [OF r g(4)] c by auto
  have "pa_items a ! i \<in> set (pa_items a1)" using a1(4) g(2,4) by simp
  then obtain a2 where a2: "array_erase (pa_items a ! i) a1 = Inr a2" "ring_ok a2 (n - 1) 0"
      "take (n - 1) (pa_items a2) = take (n - 1) (pa_items a1)"
    using ring_erase [OF a1(2)] a1(5) by blast
  have "pa_items a2 ! 0 = pa_items a1 ! 0" using a2(3) g(5) by (metis nth_take zero_less_diff)
  also have "\<dots> = pa_items a ! 0" using a1(3) c g by (simp add: nth_list_update)
  finally have first: "pa_items a2 ! 0 = pa_items a ! 0" .
  have "k \<noteq> c \<Longrightarrow> k < length (pa_items a) \<Longrightarrow> pa_items a ! k \<noteq> pa_items a ! c" for k
    using g(1,3) by (simp add: array_ok_def nth_eq_iff_index_eq)
  from this [of 0] this [of i] have "pa_items a ! 0 \<noteq> pa_items a ! c" "pa_items a ! i \<noteq> pa_items a ! c"
    using c g by force+
  moreover have "pa_items a ! c \<in> active_pipes a n" using active_at [OF g(1,3,2)] c g(5) by simp
  moreover have "active_pipes a2 (n - 1) = active_pipes a1 (n - 1)" using a2(3) by (simp add: active_pipes_def)
  ultimately show ?thesis using a1(1,5) a2(1,2) first array_index_of [OF g(1), of i] g(2,4) by auto
qed

lemma lb_loses_current:
  assumes "lb_ok l" "lb_current l = lb_active l - 1" "0 < i" "i < lb_current l"
  shows "\<exists>l'. lb_pipe_terminated (pa_items (lb_pipes l) ! i) l = Inr l' \<and> lb_ok l'
     \<and> lb_current_pipe l' = pa_items (lb_pipes l) ! 0 \<and> lb_current_pipe l' \<noteq> lb_current_pipe l
     \<and> lb_current_pipe l \<in> lb_active_pipes l' \<and> 0 < lb_active l' \<and> lb_more l' = lb_more l \<and> lb_dropping l' = lb_dropping l"
proof -
  obtain a1 a2 where a: "array_index (pa_items (lb_pipes l) ! i) (lb_pipes l) = Inr i"
      "array_swap i (lb_active l - 1) (lb_pipes l) = Inr a1" "array_erase (pa_items (lb_pipes l) ! i) a1 = Inr a2"
      "ring_ok a2 (lb_active l - 1) 0" "pa_items a2 ! 0 = pa_items (lb_pipes l) ! 0"
      "pa_items (lb_pipes l) ! 0 \<noteq> pa_items (lb_pipes l) ! lb_current l"
      "pa_items (lb_pipes l) ! lb_current l \<in> active_pipes a2 (lb_active l - 1)"
    using ring_loses_current [OF assms(1) [unfolded lb_ok_def] assms(2-4)] by blast
  have "i < lb_active l" "i \<noteq> lb_current l" "1 < lb_active l" using assms(2-4) by auto
  then show ?thesis
    using a assms(2) by (simp add: lb_pipe_terminated_def Let_def lb_ok_def lb_current_pipe_def lb_active_pipes_def)
qed

lemma fq_loses_current:
  assumes "fq_ok f" "fq_current f = fq_active f - 1" "0 < i" "i < fq_current f"
  shows "\<exists>f'. fq_pipe_terminated (pa_items (fq_pipes f) ! i) f ps = Inr f' \<and> fq_ok f'
     \<and> fq_current_pipe f' = pa_items (fq_pipes f) ! 0 \<and> fq_current_pipe f' \<noteq> fq_current_pipe f
     \<and> fq_current_pipe f \<in> fq_active_pipes f' \<and> 0 < fq_active f' \<and> fq_more f' = fq_more f"
proof -
  obtain a1 a2 where a: "array_index (pa_items (fq_pipes f) ! i) (fq_pipes f) = Inr i"
      "array_swap i (fq_active f - 1) (fq_pipes f) = Inr a1" "array_erase (pa_items (fq_pipes f) ! i) a1 = Inr a2"
      "ring_ok a2 (fq_active f - 1) 0" "pa_items a2 ! 0 = pa_items (fq_pipes f) ! 0"
      "pa_items (fq_pipes f) ! 0 \<noteq> pa_items (fq_pipes f) ! fq_current f"
      "pa_items (fq_pipes f) ! fq_current f \<in> active_pipes a2 (fq_active f - 1)"
    using ring_loses_current [OF assms(1) [unfolded fq_ok_def] assms(2-4)] by blast
  have "i < fq_active f" "1 < fq_active f" using assms(2-4) by auto
  then show ?thesis
    using a assms(2) by (auto simp: fq_pipe_terminated_def Let_def fq_ok_def fq_current_pipe_def fq_active_pipes_def)
qed

end
