(* ===== verification/Zmq_Proxy_Round.thy ===== *)
theory Zmq_Proxy_Round
  imports Zmq_Proxy_Inv Zmq_Pipe_List
begin

section \<open>A round of the proxy\<close>

text \<open>
  Polling a socket with \<open>xhas_in\<close> and \<open>xhas_out\<close>, and the invariant that a round of the proxy of the server
  keeps: no message is half received or half sent when a round ends.
\<close>

subsection \<open>Polling\<close>

lemma pipe_check_read_value:
  assumes "ypipe_ok y" "pipe_check_read e y = Inr (v, e', y', cs)"
  shows "(v \<longleftrightarrow> may_read e \<and> (\<exists>m ms. mp_ready (pipe_of y) = m # ms \<and> \<not> msg_delimiter m))
     \<and> (v \<longrightarrow> e' = e \<and> pipe_of y' = pipe_of y) \<and> writer_fields e' = writer_fields e"
proof (cases "may_read e")
  case False
  then show ?thesis using assms by (simp add: pipe_check_read_def)
next
  case True
  show ?thesis
  proof (cases "mp_ready (pipe_of y)")
    case Nil
    then show ?thesis using ypipe_check_read_cases [OF assms(1)] assms(2) True
      by (auto simp: pipe_check_read_def writer_fields_def)
  next
    case (Cons m rest)
    obtain y1 where y1: "ypipe_check_read y = (True, y1)" "ypipe_ok y1" "pipe_of y1 = pipe_of y"
      using ypipe_check_read_cases [OF assms(1)] Cons by auto
    obtain y2 where y2: "ypipe_check_read y1 = (True, y2)" "ypipe_ok y2" "pipe_of y2 = pipe_of y1"
        "yp_items y2 ! yp_front y2 = m"
      using ypipe_check_read_cases [OF y1(2)] y1(3) Cons by auto
    have probe: "ypipe_probe msg_delimiter y1 = Inr (msg_delimiter m, y2)"
      using y2 by (simp add: ypipe_probe_def)
    show ?thesis
    proof (cases "msg_delimiter m")
      case False
      then show ?thesis using assms(2) True y1 y2 probe Cons by (auto simp: pipe_check_read_def)
    next
      case d: True
      obtain y3 where "ypipe_read y2 = (Some m, y3)"
        using ypipe_read_cases [OF y2(2)] y2(3) y1(3) Cons by auto
      then show ?thesis
        using assms(2) True y1 probe d Cons delimiter_writer_fields
        by (auto simp: pipe_check_read_def outcome_simps)
    qed
  qed
qed

definition readable :: "port \<Rightarrow> bool" where
  "readable q \<longleftrightarrow> may_read (po_end q) \<and> (\<exists>m ms. ready q = m # ms \<and> \<not> msg_delimiter m)"

lemma port_check_read_spec:
  assumes "reads_ok q"
  shows "\<exists>q'. port_check_read q = Inr (readable q, q') \<and> reads_ok q' \<and> po_out q' = po_out q \<and> po_identity q' = po_identity q
     \<and> (\<exists>taken. ready q = taken @ ready q') \<and> (can_write q \<and> \<not> has_delimiter (ready q) \<longrightarrow> can_write q')
     \<and> (readable q \<longrightarrow> readable q' \<and> ready q' = ready q \<and> read_side (po_end q') = read_side (po_end q))"
proof -
  have r: "end_ok (po_end q)" "pe_alive (po_end q)" "in_ok (po_in q)" "ypipe_ok (po_in q)" using assms by (simp_all add: reads_ok_def in_ok_def)
  obtain v e' y' cs where p: "pipe_check_read (po_end q) (po_in q) = Inr (v, e', y', cs)" "read_effect (po_end q) (po_in q) e' y' cs"
    using pipe_check_read_effect [OF r(1-3)] by (elim exE conjE)
  let ?q = "q\<lparr>po_end := e', po_in := y', po_sent := po_sent q @ cs\<rparr>"
  note v = pipe_check_read_value [OF r(4) p(1)]
  have vr: "v = readable q" using v by (simp add: readable_def)
  have run: "port_check_read q = Inr (readable q, ?q)" using p(1) vr by (simp add: port_check_read_def)
  have "op_ok (po_end q) e' cs" using p(2) by (simp add: read_effect_def)
  then have ok: "reads_ok ?q" using r op_ok_ends read_effect_in_ok [OF r(3) p(2)] by (simp add: reads_ok_def)
  obtain taken where t: "ready q = taken @ mp_ready (pipe_of y')"
      "if has_delimiter taken then pe_state (po_end q) \<in> {P_active, P_waiting_for_delimiter}
            \<and> pe_state e' = (if pe_state (po_end q) = P_active then P_delimiter_received else P_term_ack_sent)
       else pe_state e' = pe_state (po_end q)"
    using p(2) by (auto simp: read_effect_def)
  have "can_write ?q" if "can_write q" "\<not> has_delimiter (ready q)"
  proof -
    have "pe_state e' = pe_state (po_end q)" using that(2) t by simp
    then show ?thesis using that(1) v by (simp add: can_write_iff writer_fields_def pipe_full_def)
  qed
  moreover have "readable ?q \<and> ready ?q = ready q \<and> read_side (po_end ?q) = read_side (po_end q)" if "readable q"
    using v vr that by (simp add: readable_def)
  ultimately show ?thesis using run ok t(1) by (intro exI [of _ ?q]) auto
qed

lemma readable_offers: "\<forall>m \<in> set (ready q). \<not> msg_credential m \<Longrightarrow> readable q \<longleftrightarrow> offered q \<noteq> None"
  by (cases "ready q") (auto simp: readable_def offered_def after_credentials_def)

definition polled_in :: "fq \<Rightarrow> ports \<Rightarrow> bool \<Rightarrow> fq \<Rightarrow> ports \<Rightarrow> bool" where
  "polled_in f ps b f' ps' \<longleftrightarrow> fq_inv f' ps' \<and> fq_items f' = fq_items f \<and> \<not> fq_more f' \<and> untouched ps ps'
     \<and> (b \<longrightarrow> (\<exists>p \<in> fq_active_pipes f'. readable (ps' p))) \<and> ((\<exists>p \<in> fq_active_pipes f. readable (ps p)) \<longrightarrow> b)"

lemma fq_inv_port:
  assumes "fq_inv f ps" "\<not> fq_more f" "reads_ok q" "\<exists>taken. ready (ps p) = taken @ ready q"
  shows "fq_inv f (ps(p := q))"
proof -
  have "whole (ready q)" if "whole (ready (ps p))" using that assms(4) whole_suffix by auto
  then show ?thesis using assms(1-3) by (auto simp: fq_inv_def)
qed

lemma fq_in_loop_spec:
  "fq_inv f ps \<Longrightarrow> \<not> fq_more f \<Longrightarrow> \<exists>b f' ps'. fq_in_loop f ps = Inr (b, f', ps') \<and> polled_in f ps b f' ps'"
proof (induction "fq_active f" arbitrary: f ps)
  case 0
  then have "fq_in_loop f ps = Inr (False, f, ps)" by (subst fq_in_loop.simps) simp
  then show ?case using 0 by (auto simp: polled_in_def fq_active_pipes_def active_pipes_def)
next
  case (Suc n)
  have ok: "fq_ok f" "0 < fq_active f" using Suc.prems(1) Suc.hyps(2) by (simp_all add: fq_inv_def)
  let ?p = "fq_current_pipe f"
  have c: "array_at (fq_current f) (fq_pipes f) = Inr ?p" "?p \<in> fq_active_pipes f" using fq_current_active [OF ok] by simp_all
  then have "reads_ok (ps ?p)" using Suc.prems(1) active_in_items by (auto simp: fq_inv_def)
  from port_check_read_spec [OF this] obtain q where
    q: "port_check_read (ps ?p) = Inr (readable (ps ?p), q)" "reads_ok q" "po_out q = po_out (ps ?p)" "po_identity q = po_identity (ps ?p)"
      "\<exists>taken. ready (ps ?p) = taken @ ready q" "can_write (ps ?p) \<and> \<not> has_delimiter (ready (ps ?p)) \<longrightarrow> can_write q"
      "readable (ps ?p) \<longrightarrow> readable q" by blast
  let ?ps = "ps(?p := q)"
  have un: "untouched ps ?ps" using q(3-6) by (auto simp: untouched_def)
  have inv: "fq_inv f ?ps" by (rule fq_inv_port [OF Suc.prems q(2,5)])
  show ?case
  proof (cases "readable (ps ?p)")
    case True
    then have "fq_in_loop f ps = Inr (True, f, ?ps)" using c q(1) ok(2) by (subst fq_in_loop.simps) simp
    moreover have "polled_in f ps True f ?ps"
      using inv un Suc.prems(2) c(2) q(7) True unfolding polled_in_def by (intro conjI impI bexI [of _ ?p]) auto
    ultimately show ?thesis by blast
  next
    case False
    obtain f1 where f1: "fq_deactivate f = Inr f1" "fq_ok f1" "fq_items f1 = fq_items f" "fq_active_pipes f1 = fq_active_pipes f - {?p}"
        "fq_more f1 = fq_more f" using fq_deactivate_ok [OF ok] by blast
    have "fq_active f1 = n" using f1(1) Suc.hyps(2) fq_deactivate_active by fastforce
    moreover have "fq_inv f1 ?ps" using inv f1 Suc.prems(2) by (simp add: fq_inv_def)
    moreover have "\<not> fq_more f1" using f1(5) Suc.prems(2) by simp
    ultimately obtain b f' ps' where r: "fq_in_loop f1 ?ps = Inr (b, f', ps')" "polled_in f1 ?ps b f' ps'"
      using Suc.hyps(1) by blast
    have "fq_in_loop f ps = Inr (b, f', ps')" using c q(1) ok(2) False f1(1) r(1) by (subst fq_in_loop.simps) simp
    moreover have "untouched ps ps'" using untouched_trans [OF un] r(2) by (simp add: polled_in_def)
    moreover have "b" if "p \<in> fq_active_pipes f" "readable (ps p)" for p
      using that False r(2) f1(4) by (auto simp: polled_in_def)
    ultimately show ?thesis using r f1(3) by (auto simp: polled_in_def)
  qed
qed

definition polled_out :: "lb \<Rightarrow> ports \<Rightarrow> bool \<Rightarrow> lb \<Rightarrow> ports \<Rightarrow> bool" where
  "polled_out l ps b l' ps' \<longleftrightarrow> lb_ok l' \<and> lb_items l' = lb_items l \<and> lb_more l' = lb_more l \<and> lb_dropping l' = lb_dropping l
     \<and> (\<forall>q. same_queues (ps q) (ps' q)) \<and> (b \<longrightarrow> (\<exists>p \<in> lb_active_pipes l'. can_write (ps' p)))"

lemma lb_out_loop_spec:
  "lb_ok l \<Longrightarrow> \<exists>b l' ps'. lb_out_loop l ps = Inr (b, l', ps') \<and> polled_out l ps b l' ps'"
proof (induction "lb_active l" arbitrary: l ps)
  case 0
  then have "lb_out_loop l ps = Inr (False, l, ps)" by (subst lb_out_loop.simps) simp
  then show ?case using 0 by (auto simp: polled_out_def)
next
  case (Suc n)
  have pos: "0 < lb_active l" using Suc.hyps(2) by simp
  let ?p = "lb_current_pipe l"
  have c: "array_at (lb_current l) (lb_pipes l) = Inr ?p" "?p \<in> lb_active_pipes l" using current_active [OF Suc.prems pos] by simp_all
  show ?case
  proof (cases "can_write (ps ?p)")
    case True
    have "ps(?p := ps ?p) = ps" by simp
    then have "lb_out_loop l ps = Inr (True, l, ps)" using c(1) pos check_write_same [OF True] by (subst lb_out_loop.simps) simp
    then show ?thesis using Suc.prems c(2) True by (auto simp: polled_out_def)
  next
    case False
    obtain q where q: "port_check_write (ps ?p) = (False, q)" "same_queues (ps ?p) q" using check_write_refused [OF False] by blast
    obtain l1 where l1: "lb_deactivate l = Inr l1" "lb_ok l1" "lb_items l1 = lb_items l" "lb_more l1 = lb_more l" "lb_dropping l1 = lb_dropping l"
      using lb_deactivate_ok [OF Suc.prems pos] by blast
    have "lb_active l1 = n" using l1(1) Suc.hyps(2) lb_deactivate_active by fastforce
    then obtain b l' ps' where r: "lb_out_loop l1 (ps(?p := q)) = Inr (b, l', ps')" "polled_out l1 (ps(?p := q)) b l' ps'"
      using Suc.hyps(1) l1(2) by blast
    have "lb_out_loop l ps = Inr (b, l', ps')" using c(1) pos q(1) l1(1) r(1) by (subst lb_out_loop.simps) simp
    moreover have "same_queues (ps x) (ps' x)" for x
    proof -
      have "same_queues (ps x) ((ps(?p := q)) x)" using q(2) by simp
      moreover have "same_queues ((ps(?p := q)) x) (ps' x)" using r(2) by (simp add: polled_out_def)
      ultimately show ?thesis by (rule same_queues_trans)
    qed
    ultimately show ?thesis using r l1 by (auto simp: polled_out_def)
  qed
qed



subsection \<open>The state between two rounds\<close>

definition drained :: "ports \<Rightarrow> ports \<Rightarrow> bool" where
  "drained ps ps' \<longleftrightarrow> (\<forall>q. po_out (ps' q) = po_out (ps q) \<and> (\<exists>taken. ready (ps q) = taken @ ready (ps' q)))"

lemma drained_trans: "drained a b \<Longrightarrow> drained b c \<Longrightarrow> drained a c"
  unfolding drained_def by (metis append.assoc)

lemma untouched_drained: "untouched ps ps' \<Longrightarrow> drained ps ps'"
  by (auto simp: untouched_def drained_def)

lemma same_queues_drained: "(\<And>q. same_queues (ps q) (ps' q)) \<Longrightarrow> drained ps ps'"
  by (auto simp: same_queues_def drained_def)

definition sends_whole :: "router \<Rightarrow> bool" where
  "sends_whole rt \<longleftrightarrow> \<not> rt_more_out rt \<and> rt_current_out rt = None \<and> \<not> rt_mandatory rt \<and> outpipes_known rt
     \<and> \<not> rt_raw_sock rt \<and> \<not> rt_options_raw rt"

definition front_state :: "router \<Rightarrow> ports \<Rightarrow> bool" where
  "front_state rt ps \<longleftrightarrow> (idle_read rt ps \<or> (\<exists>p. fetched rt ps p)) \<and> plain_frames rt ps \<and> sends_whole rt
     \<and> (\<forall>p \<in> fq_items (rt_fq rt). ypipe_ok (po_out (ps p)))"

text \<open>No peer of the DEALER ends, and no message has the flags of a credential or an identity.\<close>

definition plain_queues :: "fq \<Rightarrow> ports \<Rightarrow> bool" where
  "plain_queues f ps \<longleftrightarrow> (\<forall>p \<in> fq_items f. \<forall>m \<in> set (ready (ps p)). \<not> msg_identity m \<and> \<not> msg_credential m \<and> \<not> msg_delimiter m)"

definition back_state :: "dealer \<Rightarrow> ports \<Rightarrow> bool" where
  "back_state d ps \<longleftrightarrow> fq_inv (dl_fq d) ps \<and> \<not> fq_more (dl_fq d) \<and> plain_queues (dl_fq d) ps
     \<and> lb_ok (dl_lb d) \<and> \<not> lb_more (dl_lb d) \<and> \<not> lb_dropping (dl_lb d) \<and> lb_items (dl_lb d) = fq_items (dl_fq d)
     \<and> (\<forall>p \<in> fq_items (dl_fq d). ypipe_ok (po_out (ps p)))"

lemma front_reads: "front_state rt ps \<Longrightarrow> fq_inv (rt_fq rt) ps"
  by (auto simp: front_state_def idle_read_def fetched_def)

lemma sends_ok_in:
  "fq_inv f ps \<Longrightarrow> \<forall>p \<in> fq_items f. ypipe_ok (po_out (ps p)) \<Longrightarrow> \<forall>p \<in> fq_items f. can_write (ps p) \<longrightarrow> sends_ok (ps p)"
  by (simp add: fq_inv_def sends_okI)

lemma plain_queues_later:
  "plain_queues f ps \<Longrightarrow> drained ps ps' \<Longrightarrow> fq_items f' = fq_items f \<Longrightarrow> plain_queues f' ps'"
  unfolding plain_queues_def drained_def by (metis UnCI set_append)

lemma plain_queues_parts:
  assumes "plain_queues f ps"
  shows "no_identities f ps" "p \<in> fq_items f \<Longrightarrow> \<not> has_delimiter (ready (ps p))"
    "p \<in> fq_items f \<Longrightarrow> \<forall>m \<in> set (ready (ps p)). \<not> msg_credential m"
  using assms by (auto simp: plain_queues_def no_identities_def has_delimiter_def)


subsection \<open>Polling the sockets\<close>

lemma front_poll:
  assumes "\<not> sb_ctx_terminated s" "sb_impl s = (rt, ps)" "front_state rt ps"
  shows "\<exists>b s' rt' ps'. zs_events frontend_socket s = Inr (Some (b, True), s') \<and> \<not> sb_ctx_terminated s' \<and> sb_impl s' = (rt', ps')
     \<and> front_state rt' ps' \<and> drained ps ps' \<and> fq_items (rt_fq rt') = fq_items (rt_fq rt) \<and> (b \<longrightarrow> (\<exists>p. fetched rt' ps' p))
     \<and> ((\<exists>p. fetched rt ps p) \<longrightarrow> b \<and> s' = s)"
proof -
  have ev: "zs_events frontend_socket s = Inr (Some (b, True), s\<lparr>sb_impl := (rt', ps')\<rparr>)"
    if "router_xhas_in rt ps = Inr (b, rt', ps')" for b rt' ps'
    using that assms(1,2) by (simp add: router_socket_def socket_events_def no_commands_def router_xhas_out_def)
  show ?thesis
  proof (cases "\<exists>p. fetched rt ps p")
    case True
    have "s\<lparr>sb_impl := (rt, ps)\<rparr> = s" using assms(2) by simp
    then have "zs_events frontend_socket s = Inr (Some (True, True), s)"
      using ev fetched_has_in True by metis
    then show ?thesis using True assms by (intro exI [of _ True] exI [of _ s] exI [of _ rt] exI [of _ ps]) (auto simp: drained_def)
  next
    case False
    then have idle: "idle_read rt ps" using assms(3) by (simp add: front_state_def)
    then obtain b rt' ps' where r: "router_xhas_in rt ps = Inr (b, rt', ps')" "untouched ps ps'" "same_writing rt rt'"
        "if b then \<exists>p xs. fetched rt' ps' p \<and> ready (ps p) = xs @ frames rt' ps' p else idle_read rt' ps'"
      using router_has_in_spec by blast
    have sw: "sends_whole rt'" "fq_items (rt_fq rt') = fq_items (rt_fq rt)"
      using assms(3) r(3) by (simp_all add: front_state_def sends_whole_def same_writing_def outpipes_known_def)
    have ni: "no_identities (rt_fq rt') ps'"
      using no_identities_later [OF _ r(2) sw(2)] assms(3) by (simp add: front_state_def plain_frames_def)
    have rd: "idle_read rt' ps' \<or> (\<exists>p. fetched rt' ps' p)" "rt_prefetched rt' \<longrightarrow> \<not> msg_identity (rt_prefetched_msg rt')"
      using r(4) by (auto simp: fetched_def idle_read_def split: if_splits)
    have "ypipe_ok (po_out (ps' p))" if "p \<in> fq_items (rt_fq rt')" for p
      using that assms(3) sw(2) untouchedD(1) [OF r(2), of p] by (simp add: front_state_def)
    then have "front_state rt' ps'" using ni rd sw(1) by (simp add: front_state_def plain_frames_def)
    then show ?thesis using ev [OF r(1)] r(4) sw(2) untouched_drained [OF r(2)] False assms(1)
      by (intro exI [of _ b] exI [of _ "s\<lparr>sb_impl := (rt', ps')\<rparr>"] exI [of _ rt'] exI [of _ ps']) (auto split: if_splits)
  qed
qed

definition answers :: "dealer \<Rightarrow> ports \<Rightarrow> bool" where
  "answers d ps \<longleftrightarrow> (\<exists>q \<in> fq_active_pipes (dl_fq d). readable (ps q))"

lemma back_poll:
  assumes "\<not> sb_ctx_terminated s" "sb_impl s = (d, ps)" "back_state d ps"
  shows "\<exists>b out s' d' ps'. zs_events backend_socket s = Inr (Some (b, out), s') \<and> \<not> sb_ctx_terminated s' \<and> sb_impl s' = (d', ps')
     \<and> back_state d' ps' \<and> drained ps ps' \<and> fq_items (dl_fq d') = fq_items (dl_fq d) \<and> (b \<longrightarrow> answers d' ps')
     \<and> (answers d ps \<longrightarrow> b) \<and> (out \<longrightarrow> (\<exists>p \<in> lb_active_pipes (dl_lb d'). can_write (ps' p)))"
proof -
  have bs: "fq_inv (dl_fq d) ps" "\<not> fq_more (dl_fq d)" "plain_queues (dl_fq d) ps" "lb_ok (dl_lb d)" "\<not> lb_more (dl_lb d)"
    "\<not> lb_dropping (dl_lb d)" "lb_items (dl_lb d) = fq_items (dl_fq d)" "\<forall>p \<in> fq_items (dl_fq d). ypipe_ok (po_out (ps p))"
    using assms(3) by (simp_all add: back_state_def)
  obtain out l ps1 where o: "lb_out_loop (dl_lb d) ps = Inr (out, l, ps1)" "polled_out (dl_lb d) ps out l ps1"
    using lb_out_loop_spec [OF bs(4)] by blast
  have sq: "same_queues (ps q) (ps1 q)" for q using o(2) by (simp add: polled_out_def)
  then have sq': "po_in (ps1 q) = po_in (ps q) \<and> read_side (po_end (ps1 q)) = read_side (po_end (ps q))" for q
    by (simp add: same_queues_def)
  have inv1: "fq_inv (dl_fq d) ps1" by (rule fq_inv_same [OF bs(1) sq'])
  have rd1: "readable (ps1 q) = readable (ps q)" for q
    using sq' [of q] by (simp add: readable_def may_read_def read_side_def)
  obtain b f ps2 where i: "fq_in_loop (dl_fq d) ps1 = Inr (b, f, ps2)" "polled_in (dl_fq d) ps1 b f ps2"
    using fq_in_loop_spec [OF inv1 bs(2)] by blast
  let ?d = "d\<lparr>dl_lb := l, dl_fq := f\<rparr>" and ?s = "s\<lparr>sb_impl := (d\<lparr>dl_lb := l, dl_fq := f\<rparr>, ps2)\<rparr>"
  have run: "zs_events backend_socket s = Inr (Some (b, out), ?s)"
    using o(1) i(1) assms(1,2) bs(2,5)
    by (simp add: dealer_socket_def socket_events_def no_commands_def dealer_xhas_out_def dealer_xhas_in_def lb_has_out_def fq_has_in_def)
  have dr: "drained ps ps2"
    by (rule drained_trans [OF same_queues_drained [OF sq] untouched_drained]) (use i(2) in \<open>simp add: polled_in_def\<close>)
  have it: "fq_items f = fq_items (dl_fq d)" "fq_inv f ps2" "\<not> fq_more f" "untouched ps1 ps2" using i(2) by (simp_all add: polled_in_def)
  have l: "lb_ok l" "lb_items l = lb_items (dl_lb d)" "\<not> lb_more l" "\<not> lb_dropping l" using o(2) bs(5,6) by (simp_all add: polled_out_def)
  have "ypipe_ok (po_out (ps2 p))" if "p \<in> fq_items (dl_fq d)" for p using dr bs(8) that by (simp add: drained_def)
  then have st: "back_state ?d ps2"
    using it l bs(7) plain_queues_later [OF bs(3) dr it(1)] by (simp add: back_state_def)
  have "\<exists>p \<in> lb_active_pipes l. can_write (ps2 p)" if "out"
  proof -
    obtain p where p: "p \<in> lb_active_pipes l" "can_write (ps1 p)" using o(2) \<open>out\<close> by (auto simp: polled_out_def)
    then have "p \<in> fq_items (dl_fq d)" using l(2) bs(7) by (auto simp: lb_active_pipes_def active_pipes_def dest: in_set_takeD)
    then have "\<not> has_delimiter (ready (ps1 p))" using plain_queues_parts(2) [OF bs(3)] sq' by simp
    then show ?thesis using untouchedD(4) [OF it(4) p(2)] p(1) by blast
  qed
  moreover have "b \<longrightarrow> answers ?d ps2" "answers d ps \<longrightarrow> b"
    using i(2) rd1 by (auto simp: polled_in_def answers_def)
  ultimately show ?thesis using run st dr it(1) assms(1)
    by (intro exI [of _ b] exI [of _ out] exI [of _ ?s] exI [of _ ?d] exI [of _ ps2]) simp
qed


subsection \<open>Forwarding\<close>

text \<open>At most one queue has more, and what it has more is a whole message.\<close>

definition gained :: "ports \<Rightarrow> ports \<Rightarrow> bool" where
  "gained ps ps' \<longleftrightarrow> (\<forall>q. po_out (ps' q) = po_out (ps q))
     \<or> (\<exists>q w. is_message w \<and> mp_ready (pipe_of (po_out (ps' q))) = all_msgs (po_out (ps q)) @ w
          \<and> (\<forall>p. p \<noteq> q \<longrightarrow> po_out (ps' p) = po_out (ps p)))"

lemma gained_drained:
  assumes "drained a b" "gained b c" "drained c e"
  shows "gained a e"
proof -
  have "po_out (b q) = po_out (a q)" "po_out (e q) = po_out (c q)" for q using assms(1,3) by (simp_all add: drained_def)
  then show ?thesis using assms(2) unfolding gained_def by simp
qed

lemma drained_gained: "drained ps ps' \<Longrightarrow> gained ps ps'"
  by (simp add: drained_def gained_def)

definition fits :: "fq \<Rightarrow> ports \<Rightarrow> nat \<Rightarrow> bool" where
  "fits f ps fuel \<longleftrightarrow> (\<forall>p \<in> fq_items f. Suc (length (ready (ps p))) < fuel)"

lemma fits_later:
  assumes "fits f ps n" "\<And>q. \<exists>taken. ready (ps q) = taken @ ready (ps' q)" "fq_items f' = fq_items f"
  shows "fits f' ps' n"
  unfolding fits_def
proof
  fix p assume "p \<in> fq_items f'"
  then have "Suc (length (ready (ps p))) < n" using assms(1,3) by (simp add: fits_def)
  moreover obtain taken where "ready (ps p) = taken @ ready (ps' p)" using assms(2) by blast
  ultimately show "Suc (length (ready (ps' p))) < n" by simp
qed

lemma fits_drained: "fits f ps n \<Longrightarrow> drained ps ps' \<Longrightarrow> fq_items f' = fq_items f \<Longrightarrow> fits f' ps' n"
  using fits_later by (auto simp: drained_def)

lemma round_request:
  assumes s: "\<not> sb_ctx_terminated s" "sb_impl s = (rt, fps)" "front_state rt fps" "fetched rt fps p" "fits (rt_fq rt) fps fuel"
    and t: "\<not> sb_ctx_terminated t" "sb_impl t = (d, bps)" "back_state d bps" "\<exists>q \<in> lb_active_pipes (dl_lb d). can_write (bps q)"
  shows "\<exists>s' t' rt' fps' d' bps'. forward fuel frontend_socket backend_socket None s t c = Inr (True, s', t', c)
     \<and> \<not> sb_ctx_terminated s' \<and> \<not> sb_ctx_terminated t' \<and> sb_impl s' = (rt', fps') \<and> sb_impl t' = (d', bps')
     \<and> front_state rt' fps' \<and> drained fps fps' \<and> fq_items (rt_fq rt') = fq_items (rt_fq rt)
     \<and> back_state d' bps' \<and> dl_fq d' = dl_fq d \<and> (\<forall>q. po_in (bps' q) = po_in (bps q)) \<and> (answers d bps \<longrightarrow> answers d' bps')
     \<and> gained bps bps'"
proof -
  have bs: "fq_inv (dl_fq d) bps" "\<not> fq_more (dl_fq d)" "plain_queues (dl_fq d) bps" "lb_ok (dl_lb d)" "\<not> lb_more (dl_lb d)"
    "\<not> lb_dropping (dl_lb d)" "lb_items (dl_lb d) = fq_items (dl_fq d)" "\<forall>p \<in> fq_items (dl_fq d). ypipe_ok (po_out (bps p))"
    using t(3) by (simp_all add: back_state_def)
  have pl: "plain_frames rt fps" using s(3) by (simp add: front_state_def)
  have "p \<in> fq_items (rt_fq rt)" using s(4) by (simp add: fetched_def)
  then have len: "length (frames rt fps p) < fuel" using s(5) by (auto simp: frames_def fits_def)
  have "\<forall>q \<in> lb_items (dl_lb d). can_write (bps q) \<longrightarrow> sends_ok (bps q)" using sends_ok_in [OF bs(1,8)] bs(7) by simp
  from forward_request [where c=c, OF s(1,2,4) pl len t(1,2) bs(4-6) t(4) this] obtain s' t' rt' fps' d' bps' q es where
    f: "forward fuel frontend_socket backend_socket None s t c = Inr (True, s', t', c)"
      "\<not> sb_ctx_terminated s'" "\<not> sb_ctx_terminated t'" "sb_impl s' = (rt', fps')" "sb_impl t' = (d', bps')"
      "is_message es" "idle_read rt' fps'" "untouched fps fps'" "same_writing rt rt'"
      "lb_sent q (msg_of True (po_identity (fps p)) # es) (dl_lb d) bps (dl_lb d') bps'" "dl_fq d' = dl_fq d"
    by (elim exE conjE) blast
  have it: "fq_items (rt_fq rt') = fq_items (rt_fq rt)" using f(9) by (simp add: same_writing_def)
  have sw: "sends_whole rt'"
    using s(3) f(9) by (simp add: front_state_def sends_whole_def same_writing_def outpipes_known_def)
  have "no_identities (rt_fq rt') fps'" using no_identities_later [OF _ f(8) it] pl by (simp add: plain_frames_def)
  then have "plain_frames rt' fps'" using f(7) by (simp add: plain_frames_def idle_read_def)
  moreover have "ypipe_ok (po_out (fps' p))" if "p \<in> fq_items (rt_fq rt')" for p
    using that s(3) it untouchedD(1) [OF f(8)] by (simp add: front_state_def)
  ultimately have fs: "front_state rt' fps'" using f(7) sw by (simp add: front_state_def)
  have b: "lb_ok (dl_lb d')" "lb_items (dl_lb d') = lb_items (dl_lb d)" "\<not> lb_dropping (dl_lb d')" "\<not> lb_more (dl_lb d')"
    "ypipe_ok (po_out (bps' q))" "\<forall>p. p \<noteq> q \<longrightarrow> same_queues (bps p) (bps' p)"
    "mp_ready (pipe_of (po_out (bps' q))) = all_msgs (po_out (bps q)) @ msg_of True (po_identity (fps p)) # es"
    using f(10) by (simp_all add: lb_sent_def)
  have same: "po_in (bps' x) = po_in (bps x) \<and> read_side (po_end (bps' x)) = read_side (po_end (bps x))" for x
    using f(10) by (cases "x = q") (auto simp: lb_sent_def same_queues_def)
  have oth: "po_out (bps' x) = po_out (bps x)" if "x \<noteq> q" for x using b(6) that by (simp add: same_queues_def)
  have "fq_inv (dl_fq d') bps'" unfolding f(11) by (rule fq_inv_same [OF bs(1) same])
  moreover have "plain_queues (dl_fq d') bps'" using bs(3) same f(11) by (simp add: plain_queues_def)
  moreover have "\<forall>x \<in> fq_items (dl_fq d'). ypipe_ok (po_out (bps' x))" using bs(8) b(5) oth f(11) by metis
  ultimately have bk: "back_state d' bps'" using b(1-4) bs(2,7) f(11) by (simp add: back_state_def)
  have "readable (bps' x) = readable (bps x)" for x
    using same [of x] by (simp add: readable_def may_read_def read_side_def)
  then have an: "answers d bps \<longrightarrow> answers d' bps'" using f(11) by (simp add: answers_def)
  have "is_message (msg_of True (po_identity (fps p)) # es)" using f(6) by (simp add: is_message_Cons msg_of_def)
  then have "gained bps bps'" using b(7) oth unfolding gained_def by blast
  then show ?thesis using f(1-5,11) fs untouched_drained [OF f(8)] it bk an same by blast
qed

lemma round_reply:
  assumes s: "\<not> sb_ctx_terminated s" "sb_impl s = (d, bps)" "back_state d bps" "answers d bps" "fits (dl_fq d) bps fuel"
    and t: "\<not> sb_ctx_terminated t" "sb_impl t = (rt, fps)" "front_state rt fps"
  shows "\<exists>s' t' d' bps' rt' fps'. forward fuel backend_socket frontend_socket None s t c = Inr (True, s', t', c)
     \<and> \<not> sb_ctx_terminated s' \<and> \<not> sb_ctx_terminated t' \<and> sb_impl s' = (d', bps') \<and> sb_impl t' = (rt', fps')
     \<and> back_state d' bps' \<and> drained bps bps' \<and> fq_items (dl_fq d') = fq_items (dl_fq d)
     \<and> front_state rt' fps' \<and> rt_fq rt' = rt_fq rt \<and> (\<forall>q. po_in (fps' q) = po_in (fps q)) \<and> gained fps fps'"
proof -
  have bs: "fq_inv (dl_fq d) bps" "\<not> fq_more (dl_fq d)" "plain_queues (dl_fq d) bps" "lb_ok (dl_lb d)" "\<not> lb_more (dl_lb d)"
    "\<not> lb_dropping (dl_lb d)" "lb_items (dl_lb d) = fq_items (dl_fq d)" "\<forall>p \<in> fq_items (dl_fq d). ypipe_ok (po_out (bps p))"
    using s(3) by (simp_all add: back_state_def)
  have ft: "\<not> rt_more_out rt" "rt_current_out rt = None" "\<not> rt_mandatory rt" "outpipes_known rt" "\<not> rt_raw_sock rt" "\<not> rt_options_raw rt"
    "plain_frames rt fps" "\<forall>p \<in> fq_items (rt_fq rt). ypipe_ok (po_out (fps p))"
    using t(3) by (simp_all add: front_state_def sends_whole_def)
  have off: "\<exists>q \<in> fq_active_pipes (dl_fq d). offered (bps q) \<noteq> None"
    using s(4) readable_offers plain_queues_parts(3) [OF bs(3)] active_in_items unfolding answers_def by blast
  have len: "\<forall>q \<in> fq_items (dl_fq d). length (ready (bps q)) < fuel" using s(5) by (auto simp: fits_def)
  from forward_reply [where c=c, OF s(1,2) bs(1,2) plain_queues_parts(1) [OF bs(3)] off len t(1,2) ft(1-6)
      sends_ok_in [OF front_reads [OF t(3)] ft(8)]] obtain s' t' d' bps' rt' fps' q es where
    f: "forward fuel backend_socket frontend_socket None s t c = Inr (True, s', t', c)"
      "\<not> sb_ctx_terminated s'" "\<not> sb_ctx_terminated t'" "sb_impl s' = (d', bps')" "sb_impl t' = (rt', fps')"
      "is_message es" "fq_inv (dl_fq d') bps'" "\<not> fq_more (dl_fq d')" "fq_items (dl_fq d') = fq_items (dl_fq d)"
      "untouched bps bps'" "dl_lb d' = dl_lb d" "reply_delivered es rt fps rt' fps'"
    by (elim exE conjE) blast
  note dr = untouched_drained [OF f(10)]
  have "plain_queues (dl_fq d') bps'" by (rule plain_queues_later [OF bs(3) dr f(9)])
  moreover have "\<forall>x \<in> fq_items (dl_fq d'). ypipe_ok (po_out (bps' x))" using bs(8) dr f(9) by (simp add: drained_def)
  ultimately have bk: "back_state d' bps'" using bs(4-7) f(7-9,11) by (simp add: back_state_def)
  have front: "front_state rt' fps' \<and> rt_fq rt' = rt_fq rt \<and> (\<forall>q. po_in (fps' q) = po_in (fps q)) \<and> gained fps fps'"
  proof (cases "tl es = []")
    case True
    then show ?thesis using f(12) t(3) by (simp add: reply_delivered_def gained_def)
  next
    case False
    define x where "x = reply_target rt fps (hd es)"
    have w: "router_wrote True x (tl es) rt fps rt' fps'" using f(12) False by (simp add: reply_delivered_def x_def)
    have r: "same_reading rt rt'" "outpipes_known rt'" "\<not> rt_more_out rt'" "rt_current_out rt' = None"
      using w by (simp_all add: router_wrote_def)
    have oth: "same_queues (fps q) (fps' q)" if "Some q \<noteq> x" for q using w that by (simp add: router_wrote_def)
    have here: "ypipe_ok (po_out (fps' p)) \<and> po_in (fps' p) = po_in (fps p) \<and> po_identity (fps' p) = po_identity (fps p)
        \<and> read_side (po_end (fps' p)) = read_side (po_end (fps p))
        \<and> mp_ready (pipe_of (po_out (fps' p))) = all_msgs (po_out (fps p)) @ tl es" if "x = Some p" for p
      using w that by (simp add: router_wrote_def)
    have same: "po_in (fps' q) = po_in (fps q) \<and> read_side (po_end (fps' q)) = read_side (po_end (fps q))" for q
      using oth [of q] here [of q] by (cases "x = Some q") (simp_all add: same_queues_def)
    have id: "po_identity (fps' q) = po_identity (fps q)" for q
      using oth [of q] here [of q] by (cases "x = Some q") (simp_all add: same_queues_def)
    have rd: "rt_fq rt' = rt_fq rt" "rt_prefetched rt' = rt_prefetched rt" "rt_identity_sent rt' = rt_identity_sent rt"
      "rt_more_in rt' = rt_more_in rt" "rt_prefetched_msg rt' = rt_prefetched_msg rt" "rt_prefetched_id rt' = rt_prefetched_id rt"
      "rt_mandatory rt' = rt_mandatory rt" "rt_raw_sock rt' = rt_raw_sock rt" "rt_options_raw rt' = rt_options_raw rt"
      using r(1) by (simp_all add: same_reading_def)
    have "fq_inv (rt_fq rt') fps'" unfolding rd(1) by (rule fq_inv_same [OF front_reads [OF t(3)] same])
    moreover have "idle_read rt fps \<or> (\<exists>p. fetched rt fps p)" using t(3) by (simp add: front_state_def)
    ultimately have "idle_read rt' fps' \<or> (\<exists>p. fetched rt' fps' p)" using rd id by (auto simp: idle_read_def fetched_def)
    moreover have "plain_frames rt' fps'" using ft(7) rd same by (simp add: plain_frames_def no_identities_def)
    moreover have "sends_whole rt'" using ft r rd by (simp add: sends_whole_def)
    moreover have "ypipe_ok (po_out (fps' p))" if "p \<in> fq_items (rt_fq rt')" for p
      using ft(8) that rd(1) oth [of p] here [of p] by (cases "x = Some p") (simp_all add: same_queues_def)
    ultimately have "front_state rt' fps'" by (simp add: front_state_def)
    moreover have "gained fps fps'"
    proof (cases x)
      case None
      then show ?thesis using oth by (simp add: gained_def same_queues_def)
    next
      case (Some p)
      have "is_message (tl es)" using f(6) False by (cases es) (auto simp: is_message_Cons split: if_splits)
      moreover have "\<forall>q. q \<noteq> p \<longrightarrow> po_out (fps' q) = po_out (fps q)" using oth Some by (simp add: same_queues_def)
      ultimately show ?thesis using here [OF Some] unfolding gained_def by blast
    qed
    ultimately show ?thesis using rd(1) same by blast
  qed
  show ?thesis using f(1-5,9) bk dr front by blast
qed


subsection \<open>A round\<close>

definition proxy_state :: "nat \<Rightarrow> ((router \<times> ports) socket_base, (dealer \<times> ports) socket_base, 'c, 'k) proxy \<Rightarrow> bool" where
  "proxy_state fuel st \<longleftrightarrow>
     \<not> sb_ctx_terminated (px_frontend st) \<and> \<not> sb_ctx_terminated (px_backend st) \<and> px_mode st = Proxy_active
   \<and> (case sb_impl (px_frontend st) of (rt, ps) \<Rightarrow> front_state rt ps \<and> fits (rt_fq rt) ps fuel)
   \<and> (case sb_impl (px_backend st) of (d, ps) \<Rightarrow> back_state d ps \<and> fits (dl_fq d) ps fuel)"

abbreviation "socket_ports s \<equiv> snd (sb_impl s)"

lemma proxy_forward_both:
  assumes m: "px_mode st = Proxy_active"
    and f: "\<not> sb_ctx_terminated (px_frontend st)" "sb_impl (px_frontend st) = (rt, fps)" "front_state rt fps" "fits (rt_fq rt) fps fuel"
      "in0 \<Longrightarrow> \<exists>p. fetched rt fps p"
    and b: "\<not> sb_ctx_terminated (px_backend st)" "sb_impl (px_backend st) = (d, bps)" "back_state d bps" "fits (dl_fq d) bps fuel"
      "in1 \<Longrightarrow> answers d bps" "out1 \<Longrightarrow> \<exists>q \<in> lb_active_pipes (dl_lb d). can_write (bps q)"
  shows "\<exists>st'. proxy_forward fuel frontend_socket backend_socket None in0 in1 True out1 st = Inr (None, st') \<and> proxy_state fuel st'
     \<and> gained fps (socket_ports (px_frontend st')) \<and> gained bps (socket_ports (px_backend st'))"
proof -
  let ?F = frontend_socket and ?B = backend_socket
  have "\<exists>s t rt1 fps1 d1 bps1. (if px_mode st = Proxy_active \<and> in0 \<and> out1 then
          and_then (forward fuel ?F ?B None (px_frontend st) (px_backend st) (px_capture st)) (\<lambda>(ok, f, b, c).
            Inr (ok, st\<lparr>px_frontend := f, px_backend := b, px_capture := c\<rparr>))
        else Inr (True, st)) = Inr (True, st\<lparr>px_frontend := s, px_backend := t\<rparr>)
     \<and> \<not> sb_ctx_terminated s \<and> \<not> sb_ctx_terminated t \<and> sb_impl s = (rt1, fps1) \<and> sb_impl t = (d1, bps1)
     \<and> front_state rt1 fps1 \<and> drained fps fps1 \<and> fq_items (rt_fq rt1) = fq_items (rt_fq rt)
     \<and> back_state d1 bps1 \<and> dl_fq d1 = dl_fq d \<and> (\<forall>q. po_in (bps1 q) = po_in (bps q)) \<and> (answers d bps \<longrightarrow> answers d1 bps1)
     \<and> gained bps bps1"
  proof (cases "in0 \<and> out1")
    case True
    then obtain p where p: "fetched rt fps p" using f(5) by blast
    have w: "\<exists>q \<in> lb_active_pipes (dl_lb d). can_write (bps q)" using b(6) True by blast
    from round_request [where c="px_capture st", OF f(1-3) p f(4) b(1-3) w] obtain s t rt1 fps1 d1 bps1 where
      r: "forward fuel ?F ?B None (px_frontend st) (px_backend st) (px_capture st) = Inr (True, s, t, px_capture st)"
        "\<not> sb_ctx_terminated s" "\<not> sb_ctx_terminated t" "sb_impl s = (rt1, fps1)" "sb_impl t = (d1, bps1)"
        "front_state rt1 fps1" "drained fps fps1" "fq_items (rt_fq rt1) = fq_items (rt_fq rt)" "back_state d1 bps1" "dl_fq d1 = dl_fq d"
        "\<forall>q. po_in (bps1 q) = po_in (bps q)" "answers d bps \<longrightarrow> answers d1 bps1" "gained bps bps1"
      by (elim exE conjE) blast
    have "st\<lparr>px_frontend := s, px_backend := t, px_capture := px_capture st\<rparr> = st\<lparr>px_frontend := s, px_backend := t\<rparr>" by simp
    then show ?thesis using r m True
      by (intro exI [of _ s] exI [of _ t] exI [of _ rt1] exI [of _ fps1] exI [of _ d1] exI [of _ bps1]) simp
  next
    case False
    have "st\<lparr>px_frontend := px_frontend st, px_backend := px_backend st\<rparr> = st" by simp
    moreover have "drained fps fps" "gained bps bps" by (simp_all add: drained_def gained_def)
    ultimately show ?thesis using False f b
      by (intro exI [of _ "px_frontend st"] exI [of _ "px_backend st"] exI [of _ rt] exI [of _ fps] exI [of _ d] exI [of _ bps]) auto
  qed
  then obtain s t rt1 fps1 d1 bps1 where one: "(if px_mode st = Proxy_active \<and> in0 \<and> out1 then
          and_then (forward fuel ?F ?B None (px_frontend st) (px_backend st) (px_capture st)) (\<lambda>(ok, f, b, c).
            Inr (ok, st\<lparr>px_frontend := f, px_backend := b, px_capture := c\<rparr>))
        else Inr (True, st)) = Inr (True, st\<lparr>px_frontend := s, px_backend := t\<rparr>)"
     "\<not> sb_ctx_terminated s" "\<not> sb_ctx_terminated t" "sb_impl s = (rt1, fps1)" "sb_impl t = (d1, bps1)"
     "front_state rt1 fps1" "drained fps fps1" "fq_items (rt_fq rt1) = fq_items (rt_fq rt)"
     "back_state d1 bps1" "dl_fq d1 = dl_fq d" "\<forall>q. po_in (bps1 q) = po_in (bps q)" "answers d bps \<longrightarrow> answers d1 bps1"
     "gained bps bps1" by (elim exE conjE) blast
  let ?st1 = "st\<lparr>px_frontend := s, px_backend := t\<rparr>"
  have ff: "fits (rt_fq rt1) fps1 fuel" by (rule fits_drained [OF f(4) one(7,8)])
  have fb: "fits (dl_fq d1) bps1 fuel" using b(4) one(10,11) by (simp add: fits_def)
  show ?thesis
  proof (cases in1)
    case True
    then have an: "answers d1 bps1" using b(5) one(12) by blast
    from round_reply [where c="px_capture st", OF one(3,5,9) an fb one(2,4,6)] obtain t2 s2 d2 bps2 rt2 fps2 where
      r: "forward fuel ?B ?F None t s (px_capture st) = Inr (True, t2, s2, px_capture st)"
        "\<not> sb_ctx_terminated t2" "\<not> sb_ctx_terminated s2" "sb_impl t2 = (d2, bps2)" "sb_impl s2 = (rt2, fps2)"
        "back_state d2 bps2" "drained bps1 bps2" "fq_items (dl_fq d2) = fq_items (dl_fq d1)"
        "front_state rt2 fps2" "rt_fq rt2 = rt_fq rt1" "\<forall>q. po_in (fps2 q) = po_in (fps1 q)" "gained fps1 fps2"
      by (elim exE conjE) blast
    let ?st2 = "?st1\<lparr>px_frontend := s2, px_backend := t2, px_capture := px_capture st\<rparr>"
    have run: "proxy_forward fuel ?F ?B None in0 in1 True out1 st = Inr (None, ?st2)"
      unfolding proxy_forward_def one(1) using True r(1) m by simp
    have "fits (rt_fq rt2) fps2 fuel" using ff r(10,11) by (simp add: fits_def)
    moreover have "fits (dl_fq d2) bps2 fuel" by (rule fits_drained [OF fb r(7,8)])
    ultimately have st: "proxy_state fuel ?st2" using r m by (simp add: proxy_state_def)
    have "drained fps2 fps2" "drained bps bps" by (simp_all add: drained_def)
    then have "gained fps fps2" "gained bps bps2"
      using gained_drained [OF one(7) r(12)] gained_drained [OF _ one(13) r(7)] by blast+
    then show ?thesis using run st r(4,5) by (intro exI [of _ ?st2]) simp
  next
    case False
    have run: "proxy_forward fuel ?F ?B None in0 in1 True out1 st = Inr (None, ?st1)"
      unfolding proxy_forward_def one(1) using False m by simp
    have "proxy_state fuel ?st1" using one ff fb m by (simp add: proxy_state_def)
    then show ?thesis using run one(4,5,13) drained_gained [OF one(7)] by (intro exI [of _ ?st1]) simp
  qed
qed

lemma proxy_round_keeps:
  assumes "proxy_state fuel st"
  shows "(proxy_round fuel frontend_socket backend_socket None None st = Inl Waits
        \<and> (case sb_impl (px_backend st) of (d, ps) \<Rightarrow> \<not> answers d ps))
     \<or> (\<exists>st'. proxy_round fuel frontend_socket backend_socket None None st = Inr (None, st') \<and> proxy_state fuel st'
        \<and> gained (socket_ports (px_frontend st)) (socket_ports (px_frontend st'))
        \<and> gained (socket_ports (px_backend st)) (socket_ports (px_backend st')))"
proof -
  let ?F = frontend_socket and ?B = backend_socket
  obtain rt fps where i: "sb_impl (px_frontend st) = (rt, fps)" by (cases "sb_impl (px_frontend st)")
  obtain d bps where j: "sb_impl (px_backend st) = (d, bps)" by (cases "sb_impl (px_backend st)")
  have a: "\<not> sb_ctx_terminated (px_frontend st)" "\<not> sb_ctx_terminated (px_backend st)" "px_mode st = Proxy_active"
    "front_state rt fps" "fits (rt_fq rt) fps fuel" "back_state d bps" "fits (dl_fq d) bps fuel"
    using assms i j by (simp_all add: proxy_state_def)
  obtain in0 f1 rt1 fps1 where f1: "zs_events ?F (px_frontend st) = Inr (Some (in0, True), f1)" "\<not> sb_ctx_terminated f1"
      "sb_impl f1 = (rt1, fps1)" "front_state rt1 fps1" "drained fps fps1" "fq_items (rt_fq rt1) = fq_items (rt_fq rt)"
      "in0 \<longrightarrow> (\<exists>p. fetched rt1 fps1 p)"
    using front_poll [OF a(1) i a(4)] by blast
  obtain in1 o1 b1 d1 bps1 where b1: "zs_events ?B (px_backend st) = Inr (Some (in1, o1), b1)" "\<not> sb_ctx_terminated b1"
      "sb_impl b1 = (d1, bps1)" "back_state d1 bps1" "drained bps bps1" "fq_items (dl_fq d1) = fq_items (dl_fq d)"
      "in1 \<longrightarrow> answers d1 bps1" "answers d bps \<longrightarrow> in1"
    using back_poll [OF a(2) j a(6)] by blast
  obtain in0' f2 rt2 fps2 where f2: "zs_events ?F f1 = Inr (Some (in0', True), f2)" "\<not> sb_ctx_terminated f2"
      "sb_impl f2 = (rt2, fps2)" "front_state rt2 fps2" "drained fps1 fps2" "fq_items (rt_fq rt2) = fq_items (rt_fq rt1)"
      "(\<exists>p. fetched rt1 fps1 p) \<longrightarrow> f2 = f1"
    using front_poll [OF f1(2-4)] by blast
  obtain in1' out1 b2 d2 bps2 where b2: "zs_events ?B b1 = Inr (Some (in1', out1), b2)" "\<not> sb_ctx_terminated b2"
      "sb_impl b2 = (d2, bps2)" "back_state d2 bps2" "drained bps1 bps2" "fq_items (dl_fq d2) = fq_items (dl_fq d1)"
      "in1' \<longrightarrow> answers d2 bps2" "answers d1 bps1 \<longrightarrow> in1'" "out1 \<longrightarrow> (\<exists>p \<in> lb_active_pipes (dl_lb d2). can_write (bps2 p))"
    using back_poll [OF b1(2-4)] by blast
  show ?thesis
  proof (cases "in0 \<or> in1")
    case False
    then have "proxy_round fuel ?F ?B None None st = Inl Waits"
      using f1(1) b1(1) by (simp add: proxy_round_def poll_socket_def Let_def)
    then show ?thesis using False b1(8) j by auto
  next
    case True
    let ?st2 = "st\<lparr>px_frontend := f2, px_backend := b2\<rparr>"
    have sts: "st\<lparr>px_frontend := f1, px_backend := b1, px_control := px_control st, px_frontend := f2, px_backend := b2\<rparr> = ?st2" by simp
    have fits: "fits (rt_fq rt2) fps2 fuel" "fits (dl_fq d2) bps2 fuel"
      using fits_drained [OF fits_drained [OF a(5) f1(5,6)] f2(5,6)] fits_drained [OF fits_drained [OF a(7) b1(5,6)] b2(5,6)] by simp_all
    have st2: "px_mode ?st2 = Proxy_active" "\<not> sb_ctx_terminated (px_frontend ?st2)" "sb_impl (px_frontend ?st2) = (rt2, fps2)"
      "\<not> sb_ctx_terminated (px_backend ?st2)" "sb_impl (px_backend ?st2) = (d2, bps2)"
      using a(3) f2(2,3) b2(2,3) by simp_all
    have in0: "\<exists>p. fetched rt2 fps2 p" if in0 using that f1(3,7) f2(3,7) by auto
    have in1: "answers d2 bps2" if in1 using that b1(7) b2(7,8) by blast
    have out: "\<exists>q \<in> lb_active_pipes (dl_lb d2). can_write (bps2 q)" if out1 using that b2(9) by blast
    obtain st' where st': "proxy_forward fuel ?F ?B None in0 in1 True out1 ?st2 = Inr (None, st')" "proxy_state fuel st'"
        "gained fps2 (socket_ports (px_frontend st'))" "gained bps2 (socket_ports (px_backend st'))"
      using proxy_forward_both [OF st2(1-3) f2(4) fits(1) in0 st2(4,5) b2(4) fits(2) in1 out] by blast
    have "proxy_round fuel ?F ?B None None st = Inr (None, st')"
      using f1(1) b1(1) f2(1) b2(1) True st'(1) sts by (auto simp: proxy_round_def poll_socket_def Let_def)
    moreover have "gained fps (socket_ports (px_frontend st'))" "gained bps (socket_ports (px_backend st'))"
      using gained_drained [OF drained_trans [OF f1(5) f2(5)] st'(3)] gained_drained [OF drained_trans [OF b1(5) b2(5)] st'(4)]
      by (simp_all add: drained_def)
    ultimately show ?thesis using st'(2) i j by auto
  qed
qed

end
