(* ===== verification/Zmq_Req_Reply.thy ===== *)
theory Zmq_Req_Reply
  imports Zmq_Req
begin

section \<open>A reply that is there is received\<close>

text \<open>
  The other half of \<open>req_xrecv_spec\<close>: when the reply is at the head of the pipe the request went
  to, \<open>xrecv\<close> does not return \<open>EAGAIN\<close>, whatever the other pipes hold.
\<close>

lemma recv_until_finds:
  "fq_inv f ps \<Longrightarrow> to_read f ps < fuel \<Longrightarrow> q \<in> fq_active_pipes f \<Longrightarrow> offered (ps q) = Some m \<Longrightarrow> \<forall>n p. P n p \<longleftrightarrow> p = q \<Longrightarrow>
     \<exists>f' ps'. recv_until P fuel f ps = Inr (Some (m, q), f', ps') \<and> after_credentials (ps q) = m # ready (ps' q)"
proof (induction fuel arbitrary: f ps)
  case (Suc fuel)
  have "\<forall>p \<in> fq_items f. reads_ok (ps p)" "fq_ok f"
    "fq_more f \<longrightarrow> 0 < fq_active f \<and> offered (ps (fq_current_pipe f)) \<noteq> None"
    using Suc.prems(1) continues_offers by (auto simp: fq_inv_def)
  from fq_recv_spec [OF this(2,1,3)] obtain r f1 ps1 where
    r: "fq_recvpipe f ps = Inr (r, f1, ps1)" "took f ps r f1 ps1" by blast
  have "\<forall>x \<in> fq_active_pipes f - fq_active_pipes f1. offered (ps x) = None" using r(2) by (simp add: took_def)
  then have act: "q \<in> fq_active_pipes f1" using Suc.prems(3,4) by (metis Diff_iff option.distinct(1))
  then have "fq_active f1 \<noteq> 0" by (metis active_pipes_def empty_iff fq_active_pipes_def list.set(1) take0)
  then obtain n p where np: "r = Some (n, p)" using r(2) by (cases r) (auto simp: took_def)
  have p: "offered (ps p) = Some n" "after_credentials (ps p) = n # ready (ps1 p)" using r(2) unfolding took_def np by simp_all
  show ?case
  proof (cases "p = q")
    case True
    then have "P n q" "n = m" using Suc.prems(4,5) p(1) by auto
    then show ?thesis using r(1) np p True by auto
  next
    case False
    have "ps1 q = ps q" using r(2) act False unfolding took_def np by auto
    then have off: "offered (ps1 q) = Some m" "after_credentials (ps1 q) = after_credentials (ps q)" using Suc.prems(4) by simp_all
    have "fq_inv f1 ps1" "to_read f1 ps1 < fuel" using took_inv [OF Suc.prems(1) r(2)] np Suc.prems(2) by auto
    from Suc.IH [OF this act off(1) Suc.prems(5)] obtain f' ps' where
      "recv_until P fuel f1 ps1 = Inr (Some (m, q), f', ps')" "after_credentials (ps q) = m # ready (ps' q)"
      unfolding off(2) by blast
    moreover have "\<not> P n p" using Suc.prems(5) False by blast
    ultimately show ?thesis using r(1) np by auto
  qed
qed simp

lemma recv_reply_first:
  assumes "in_message r ps" "rq_reply_pipe r = Some q" "q \<in> fq_active_pipes (req_fq r)" "may_read (po_end (ps q))"
    "ready (ps q) = m # ms" "\<not> msg_delimiter m" "\<not> msg_credential m"
  shows "\<exists>f ps'. recv_reply_pipe r ps = Inr (Some m, req_set_fq f r, ps') \<and> in_message (req_set_fq f r) ps'
     \<and> fq_more f = msg_more m \<and> (msg_more m \<longrightarrow> fq_current_pipe f = q) \<and> ready (ps' q) = ms"
proof -
  let ?P = "\<lambda>m p. rq_reply_pipe r = None \<or> Some p = rq_reply_pipe r"
  have inv: "fq_inv (req_fq r) ps" using assms(1) by (simp add: in_message_def)
  have off: "offered (ps q) = Some m" "after_credentials (ps q) = m # ms"
    using assms(4-7) by (simp_all add: offered_def after_credentials_def)
  have "fq_ok (req_fq r)" using inv by (simp add: fq_inv_def)
  then have "to_read (req_fq r) ps < Suc (queued (req_fq r) ps)" using to_read_queued [of "req_fq r" ps] by simp
  from recv_until_finds [OF inv this assms(3) off(1), of ?P] assms(2) obtain f ps' where
    u: "recv_until ?P (Suc (queued (req_fq r) ps)) (req_fq r) ps = Inr (Some (m, q), f, ps')" "ready (ps' q) = ms"
    using off(2) by auto
  obtain x g ps2 where "recv_until ?P (Suc (queued (req_fq r) ps)) (req_fq r) ps = Inr (x, g, ps2)"
      "recv_result ?P (req_fq r) ps x g ps2"
    using recv_until_enough [OF inv] by blast
  then have res: "recv_result ?P (req_fq r) ps (Some (m, q)) f ps'" using u(1) by simp
  have run: "recv_reply_pipe r ps = Inr (Some m, req_set_fq f r, ps')"
    using u(1) by (simp add: recv_reply_pipe_def del: recv_until.simps)
  have al: "allowed r q" using assms(2) by (simp add: allowed_def)
  have "fq_inv f ps'" "fq_more f = msg_more m" "msg_more m \<longrightarrow> fq_current_pipe f = q" using res unfolding recv_result_def by simp_all
  moreover from this al have "in_message (req_set_fq f r) ps'" by (simp add: in_message_def)
  ultimately show ?thesis using run u(2) by blast
qed

lemma req_receives:
  assumes im: "in_message r ps" and st: "rq_message_begins r" "rq_receiving_reply r"
    and q: "rq_reply_pipe r = Some q" "q \<in> fq_active_pipes (req_fq r)" "may_read (po_end (ps q))"
    and rd: "ready (ps q) = es @ m # ms" "reply_envelope r es" "\<forall>e \<in> set es. \<not> msg_delimiter e \<and> \<not> msg_credential e"
  shows "\<exists>r' ps'. req_xrecv r ps = Inr (Got m, r', ps') \<and> ready (ps' q) = ms"
proof -
  let ?n = "queued (req_fq r) ps"
  have begun: "\<exists>f1 ps1. req_reply_loop (?n + 3) r ps = Inr (True, (req_set_fq f1 r)\<lparr>rq_message_begins := False\<rparr>, ps1)
      \<and> in_message (req_set_fq f1 r) ps1 \<and> fq_more f1 \<and> fq_current_pipe f1 = q \<and> ready (ps1 q) = m # ms"
  proof (cases "rq_id_frames r")
    case False
    then obtain b where es: "es = [b]" "msg_more b" "msg_data b = []" using rd(2) by (cases es) (auto simp: reply_envelope_def)
    from recv_reply_first [OF im q, of b "m # ms"] rd es obtain f1 ps1 where
      f1: "recv_reply_pipe r ps = Inr (Some b, req_set_fq f1 r, ps1)" "in_message (req_set_fq f1 r) ps1" "fq_more f1"
        "fq_current_pipe f1 = q" "ready (ps1 q) = m # ms" by auto
    have "req_reply_loop (?n + 3) r ps = req_reply_loop (?n + 2) ((req_set_fq f1 r)\<lparr>rq_message_begins := False\<rparr>) ps1"
      using f1(1) es st(1) False by (simp add: numeral_3_eq_3 numeral_2_eq_2)
    then show ?thesis using f1 by (auto simp: numeral_2_eq_2)
  next
    case True
    then obtain i b where es: "es = [i, b]" "msg_more i" "msg_data i = id_bytes (rq_request_id r)" "msg_more b" "msg_data b = []"
      using rd(2) by (cases es; cases "tl es") (auto simp: reply_envelope_def)
    from recv_reply_first [OF im q, of i "b # m # ms"] rd es obtain f1 ps1 where
      f1: "recv_reply_pipe r ps = Inr (Some i, req_set_fq f1 r, ps1)" "in_message (req_set_fq f1 r) ps1" "fq_more f1"
        "fq_current_pipe f1 = q" "ready (ps1 q) = b # m # ms" by auto
    from recv_reply_next [OF f1(2)] f1(3-5) es obtain f2 ps2 where
      f2: "recv_reply_pipe (req_set_fq f1 r) ps1 = Inr (Some b, req_set_fq f2 r, ps2)" "in_message (req_set_fq f2 r) ps2" "fq_more f2"
        "fq_current_pipe f2 = q" "ready (ps2 q) = m # ms" by (auto simp: reply_frame_def)
    have "req_reply_loop (?n + 3) r ps = req_reply_loop (?n + 2) ((req_set_fq f2 r)\<lparr>rq_message_begins := False\<rparr>) ps2"
      using f1(1) f2(1) es st(1) True by (simp add: numeral_3_eq_3 numeral_2_eq_2)
    then show ?thesis using f2 by (auto simp: numeral_2_eq_2)
  qed
  then obtain f1 ps1 where l: "req_reply_loop (?n + 3) r ps = Inr (True, (req_set_fq f1 r)\<lparr>rq_message_begins := False\<rparr>, ps1)"
      "in_message (req_set_fq f1 r) ps1" "fq_more f1" "fq_current_pipe f1 = q" "ready (ps1 q) = m # ms" by blast
  let ?r = "(req_set_fq f1 r)\<lparr>rq_message_begins := False\<rparr>"
  have fq: "req_fq ?r = f1" by (simp add: req_fq_def req_set_fq_def)
  have "in_message ?r ps1" using l(2) unfolding in_message_def fq by (simp add: allowed_def)
  from recv_reply_next [OF this] l(3-5) obtain f2 ps2 where
    "recv_reply_pipe ?r ps1 = Inr (Some m, req_set_fq f2 ?r, ps2)" "ready (ps2 q) = ms" unfolding fq by auto
  then show ?thesis using l(1) st(2) by (simp add: req_xrecv_def del: req_reply_loop.simps)
qed

end
