(* ===== verification/Zmq_Socket_Properties.thy ===== *)
theory Zmq_Socket_Properties
  imports Zmq_Rep Zmq_Req_Reply Zmq_Pipe_List Zmq_Pipe_Properties
begin

section \<open>Properties of the sockets\<close>

text \<open>
  What load balancing, fair queueing, REQ and REP sockets guarantee over pipes that carry whole
  messages, and where they fail. Concrete ports for the witnesses come first.
\<close>

definition pipe_with :: "zmsg list \<Rightarrow> zmsg ypipe" where
  "pipe_with ms = snd (ypipe_flush (fold (\<lambda>m y. ypipe_write m (msg_more m) y) ms ypipe_new))"

definition port_with :: "byte list \<Rightarrow> zmsg list \<Rightarrow> port" where
  "port_with identity ms =
     \<lparr>po_end = pipe_new 10 10, po_in = pipe_with ms, po_out = ypipe_new, po_sent = [], po_identity = identity\<rparr>"

lemmas port_simps = port_with_def pipe_with_def pipe_new_def compute_lwm_def max_wm_delta_def ypipe_write_def ypipe_flush_def
  cas_def ypipe_new_def plain_msg_def part_msg_def msg_of_def Let_def

lemmas can_write_simps = can_write_iff pipe_full_def check_hwm_def

subsection \<open>Load balancing and fair queueing\<close>

text \<open>Whatever sequence of pipes being attached, waking up, running dry and ending a
  load balancer or a fair queue goes through, no array access is out of range, the array holds
  exactly the pipes attached and not ended, and the active ones are among them.\<close>

theorem balance_follows_pipes:
  "(\<exists>l. pipe_events lb_items lb_active_pipes (pipe_event_step lb_attach lb_activated lb_skip lb_pipe_terminated) evs lb_new = Inr l
     \<and> lb_ok l \<and> lb_items l = attached_pipes evs {} \<and> lb_active_pipes l \<subseteq> lb_items l)
   \<and> (\<exists>f. pipe_events fq_items fq_active_pipes
        (pipe_event_step fq_attach fq_activated fq_deactivate (\<lambda>p f. fq_pipe_terminated p f ps)) evs fq_new = Inr f
     \<and> fq_ok f \<and> fq_items f = attached_pipes evs {} \<and> fq_active_pipes f \<subseteq> fq_items f)"
proof -
  have "lb_items lb_new = {}" "fq_items fq_new = {}" by (simp_all add: lb_new_def fq_new_def array_new_def)
  then show ?thesis
    using sending.events_total [OF lb_new_ok, of evs] receiving.events_total [OF fq_new_ok, of ps evs] by simp
qed

text \<open>C39: lb_message_atomic. A message of any number of parts goes to one active pipe that can be written to,
  is complete and visible to its reader after the last part, and no other pipe changes.\<close>

theorem lb_message_atomic:
  assumes "is_message ms" "lb_ok l" "\<not> lb_more l" "\<not> lb_dropping l" "\<exists>p \<in> lb_active_pipes l. can_write (ps p)"
    "\<forall>p \<in> lb_items l. sends_ok (ps p)"
  shows "\<exists>p l' ps'. lb_send_parts ms l ps = Inr (replicate (length ms) p, l', ps') \<and> p \<in> lb_active_pipes l \<and> can_write (ps p)
     \<and> lb_ok l' \<and> lb_items l' = lb_items l \<and> \<not> lb_more l' \<and> \<not> lb_dropping l'
     \<and> mp_ready (pipe_of (po_out (ps' p))) = all_msgs (po_out (ps p)) @ ms \<and> (\<forall>q. q \<noteq> p \<longrightarrow> same_queues (ps q) (ps' q))"
  using assms by (rule send_message)

definition two_pipes :: lb where
  "two_pipes = lb_new\<lparr>lb_pipes := \<lparr>pa_items = [0, 1], pa_slot = [0 \<mapsto> 0, 1 \<mapsto> 1]\<rparr>, lb_active := 2\<rparr>"

lemma lb_message_atomic_witness:
  "\<exists>p l' ps'. lb_send_parts [part_msg [1], plain_msg [2]] two_pipes (\<lambda>p. port_with [] []) = Inr (replicate 2 p, l', ps')
     \<and> mp_ready (pipe_of (po_out (ps' p))) = [part_msg [1], plain_msg [2]]"
proof -
  have a: "array_ok (lb_pipes two_pipes)" by (auto simp: two_pipes_def array_ok_def less_Suc_eq numeral_2_eq_2)
  then have l: "lb_ok two_pipes" "\<not> lb_more two_pipes" "\<not> lb_dropping two_pipes" "0 \<in> lb_active_pipes two_pipes"
    by (simp_all add: two_pipes_def lb_ok_def ring_ok_def lb_new_def lb_active_pipes_def active_pipes_def)
  have w: "can_write (port_with [] [])" "sends_ok (port_with [] [])" "all_msgs (po_out (port_with [] [])) = []"
    by (simp_all add: can_write_simps port_simps sends_ok_def ypipe_ok_def all_msgs_def pipe_of_def)
  have m: "is_message [part_msg [1], plain_msg [2]]" by (simp add: port_simps)
  have "\<exists>p \<in> lb_active_pipes two_pipes. can_write (port_with [] [])" "\<forall>p \<in> lb_items two_pipes. sends_ok (port_with [] [])"
    using l(4) w by blast+
  then obtain p l' ps' where r: "lb_send_parts [part_msg [1], plain_msg [2]] two_pipes (\<lambda>p. port_with [] [])
        = Inr (replicate (length [part_msg [1], plain_msg [2]]) p, l', ps')"
      "mp_ready (pipe_of (po_out (ps' p))) = all_msgs (po_out (port_with [] [])) @ [part_msg [1], plain_msg [2]]"
    using lb_message_atomic [OF m l(1-3), of "\<lambda>p. port_with [] []"] by blast
  have "length [part_msg [1], plain_msg [2]] = 2" by simp
  then show ?thesis using r unfolding w(3) append_Nil by metis
qed

text \<open>When every active pipe offers a message of one part, the next \<open>n\<close> messages received from
  \<open>n\<close> active pipes come from all of them, in the order of the array beginning with the current one.\<close>

theorem fq_round_robin:
  assumes "fq_ok f" "\<forall>p \<in> fq_items f. reads_ok (ps p)"
    "\<forall>i < fq_active f. \<exists>m. offered (ps (fq_turn f i)) = Some m \<and> \<not> msg_more m"
  shows "\<exists>f' ps'. fq_recv_many (fq_active f) f ps = Inr (map (fq_turn f) [0..<fq_active f], f', ps')
     \<and> fq_turn f ` {0..<fq_active f} = fq_active_pipes f"
proof -
  have n: "fq_active f \<le> length (pa_items (fq_pipes f))" using assms(1) by (simp add: fq_ok_def ring_ok_def)
  have "fq_turn f i \<in> fq_active_pipes f" if "i < fq_active f" for i
    unfolding fq_active_pipes_def active_iff [OF n] fq_turn_def using that by (intro exI conjI) auto
  then have "fq_turn f ` {0..<fq_active f} \<subseteq> fq_active_pipes f" by auto
  moreover have "card (fq_turn f ` {0..<fq_active f}) = fq_active f"
    using fq_turn_inj [OF assms(1)] by (subst card_image) (auto simp: inj_on_def)
  moreover have "card (fq_active_pipes f) \<le> fq_active f"
    unfolding fq_active_pipes_def active_pipes_def by (rule order_trans [OF card_length]) simp
  ultimately have "fq_turn f ` {0..<fq_active f} = fq_active_pipes f"
    by (metis card_seteq finite_set fq_active_pipes_def active_pipes_def)
  then show ?thesis using fq_round [OF assms(1,2) _ assms(3)] by blast
qed


definition two_queues :: fq where
  "two_queues = fq_new\<lparr>fq_pipes := lb_pipes two_pipes, fq_active := 2, fq_current := 1\<rparr>"

lemma two_pipes_array: "array_ok \<lparr>pa_items = [0, 1], pa_slot = [0 \<mapsto> 0, 1 \<mapsto> 1]\<rparr>"
  by (auto simp: array_ok_def less_Suc_eq numeral_2_eq_2)

lemma fq_round_robin_witness:
  "\<exists>f' ps'. fq_recv_many 2 two_queues (\<lambda>p. port_with [] [plain_msg [of_nat p]]) = Inr ([1, 0], f', ps')"
proof -
  let ?ps = "\<lambda>p. port_with [] [plain_msg [of_nat p]]"
  have f: "fq_ok two_queues" "fq_active two_queues = 2"
    using two_pipes_array by (simp_all add: two_queues_def two_pipes_def fq_new_def fq_ok_def ring_ok_def)
  have "reads_ok (?ps p)" for p
    by (simp add: reads_ok_def port_simps end_ok_def in_ok_def ypipe_ok_def pipe_of_def all_msgs_def)
  moreover have "offered (?ps p) = Some (plain_msg [of_nat p])" for p
    by (simp add: offered_def after_credentials_def port_simps may_read_def pipe_of_def)
  moreover have "\<not> msg_more (plain_msg d)" for d by (simp add: plain_msg_def)
  moreover have "map (fq_turn two_queues) [0..<2] = [1, 0]"
    by (simp add: fq_turn_def two_queues_def two_pipes_def fq_new_def upt_rec numeral_2_eq_2)
  ultimately show ?thesis using fq_round_robin [OF f(1), of ?ps] unfolding f(2) by auto
qed


text \<open>When the last active pipe is current in the middle of a message and another one
  that is not the first ends, the rest of the message goes to the first pipe, although the pipe with the
  beginning of the message is still active.\<close>

theorem lb_splits_message:
  assumes "lb_ok l" "lb_more l" "\<not> lb_dropping l" "lb_current l = lb_active l - 1" "0 < i" "i < lb_current l"
    "can_write (ps (pa_items (lb_pipes l) ! 0))"
  shows "\<exists>l' l2 ps2. lb_pipe_terminated (pa_items (lb_pipes l) ! i) l = Inr l'
     \<and> lb_sendpipe m l' ps = Inr (None, Some (pa_items (lb_pipes l) ! 0), l2, ps2)
     \<and> pa_items (lb_pipes l) ! 0 \<noteq> lb_current_pipe l \<and> lb_current_pipe l \<in> lb_active_pipes l'
     \<and> ps2 (pa_items (lb_pipes l) ! 0) = after_part m (ps (pa_items (lb_pipes l) ! 0))"
proof -
  obtain l' where l': "lb_pipe_terminated (pa_items (lb_pipes l) ! i) l = Inr l'" "lb_ok l'"
      "lb_current_pipe l' = pa_items (lb_pipes l) ! 0" "lb_current_pipe l' \<noteq> lb_current_pipe l"
      "lb_current_pipe l \<in> lb_active_pipes l'" "0 < lb_active l'" "lb_more l' = lb_more l" "lb_dropping l' = lb_dropping l"
    using lb_loses_current [OF assms(1,4-6)] by blast
  have "lb_more l'" "\<not> lb_dropping l'" "can_write (ps (lb_current_pipe l'))" using l'(3,7,8) assms(2,3,7) by simp_all
  from sendpipe_next [where ps=ps and m=m, OF l'(2) this(1,2) l'(6) this(3)] obtain l2 ps2 where
    s: "lb_sendpipe m l' ps = Inr (None, Some (lb_current_pipe l'), l2, ps2)" "lb_written m (lb_current_pipe l') l' ps l2 ps2" by blast
  have "ps2 (lb_current_pipe l') = after_part m (ps (lb_current_pipe l'))" using s(2) by (simp add: lb_written_def)
  then show ?thesis using l'(1,3-5) s(1) by auto
qed

definition three_pipes :: lb where
  "three_pipes = \<lparr>lb_pipes = \<lparr>pa_items = [0, 1, 2], pa_slot = [0 \<mapsto> 0, 1 \<mapsto> 1, 2 \<mapsto> 2]\<rparr>, lb_active = 3, lb_current = 2,
     lb_more = True, lb_dropping = False\<rparr>"

lemma lb_splits_message_witness:
  "lb_current_pipe three_pipes = 2
   \<and> (\<exists>l' l2 ps2. lb_pipe_terminated 1 three_pipes = Inr l' \<and> 2 \<in> lb_active_pipes l'
        \<and> lb_sendpipe (plain_msg [2]) l' (\<lambda>p. port_with [] []) = Inr (None, Some 0, l2, ps2))"
proof -
  have "lb_ok three_pipes"
    by (auto simp: three_pipes_def lb_ok_def ring_ok_def array_ok_def less_Suc_eq numeral_3_eq_3)
  moreover have "can_write (port_with [] [])" by (simp add: can_write_simps port_simps)
  moreover have "lb_current three_pipes = 2" "lb_current three_pipes = lb_active three_pipes - 1" "lb_more three_pipes"
    "\<not> lb_dropping three_pipes" "pa_items (lb_pipes three_pipes) = [0, 1, 2]"
    by (simp_all add: three_pipes_def)
  ultimately show ?thesis
    using lb_splits_message [of three_pipes 1 "\<lambda>p. port_with [] []" "plain_msg [2]"] by (auto simp: lb_current_pipe_def)
qed

text \<open>A peer that goes away in the middle of a message makes the assertion on \<open>more\<close> fail.\<close>

lemma lb_part_aborts:
  assumes "lb_ok l" "lb_more l" "\<not> lb_dropping l" "0 < lb_active l" "\<not> can_write (ps (lb_current_pipe l))"
  shows "lb_sendpipe m l ps = Inl (Fatal ''zmq_assert (!more)'')"
proof -
  obtain q where "port_write m (ps (lb_current_pipe l)) = (False, q)"
    using port_write_ok [of m "ps (lb_current_pipe l)"] assms(5) by (cases "port_write m (ps (lb_current_pipe l))") auto
  then have "lb_send_loop m l ps = Inl (Fatal ''zmq_assert (!more)'')"
    using current_active [OF assms(1,4)] assms(2,4) by (subst lb_send_loop.simps) (simp add: check_def)
  then show ?thesis using assms(3) by (simp add: lb_sendpipe_def)
qed


subsection \<open>REQ\<close>

text \<open>A request of a REQ socket goes, behind its envelope, to one active pipe that can be
  written to and is complete there; until a reply came a strict socket refuses the next request, and a
  reply cannot be received before the request.\<close>

theorem req_sends_request:
  assumes "req_ok r ps" "no_delimiters r ps" "\<not> lb_more (req_lb r)" "\<not> lb_dropping (req_lb r)"
    "\<exists>p \<in> lb_active_pipes (req_lb r). can_write (ps p)" "\<not> rq_receiving_reply r" "rq_message_begins r" "\<not> msg_more m"
  shows "req_xrecv r ps = Inr (Failed Efsm, r, ps)
     \<and> (\<exists>p r' ps'. req_xsend m r ps = Inr (None, r', ps') \<and> p \<in> lb_active_pipes (req_lb r) \<and> can_write (ps p)
     \<and> mp_ready (pipe_of (po_out (ps' p))) = all_msgs (po_out (ps p)) @ envelope r @ [m]
     \<and> (\<forall>q. q \<noteq> p \<longrightarrow> po_out (ps' q) = po_out (ps q)) \<and> req_ok r' ps'
     \<and> rq_reply_pipe r' = Some p \<and> rq_receiving_reply r' \<and> rq_message_begins r'
     \<and> (\<forall>n. rq_strict r' \<longrightarrow> req_xsend n r' ps' = Inr (Some Efsm, r', ps')))"
proof -
  obtain p r' ps' where "req_xsend m r ps = Inr (None, r', ps')" "rq_receiving_reply r'" "rq_message_begins r'"
      "rq_reply_pipe r' = Some p" "p \<in> lb_active_pipes (req_lb r)" "can_write (ps p)"
      "mp_ready (pipe_of (po_out (ps' p))) = all_msgs (po_out (ps p)) @ envelope r @ [m]"
      "\<forall>q. q \<noteq> p \<longrightarrow> po_out (ps' q) = po_out (ps q)" "req_ok r' ps'"
    using req_xsend_spec [OF assms] by blast
  moreover from this(2) have "rq_strict r' \<longrightarrow> req_xsend n r' ps' = Inr (Some Efsm, r', ps')" for n by (simp add: req_xsend_def)
  ultimately show ?thesis using assms(6) by (auto simp: req_xrecv_def)
qed

definition req_with :: "bool \<Rightarrow> req" where
  "req_with waiting = (req_new 7)\<lparr>rq_dealer := \<lparr>dl_fq = fq_new\<lparr>fq_pipes := lb_pipes two_pipes, fq_active := 2\<rparr>, dl_lb = two_pipes,
       dl_probe_router = False\<rparr>, rq_receiving_reply := waiting, rq_reply_pipe := (if waiting then Some 1 else None)\<rparr>"

lemma req_with_facts:
  "lb_ok (req_lb (req_with b))" "lb_items (req_lb (req_with b)) = {0, 1}" "lb_active_pipes (req_lb (req_with b)) = {0, 1}"
  "fq_ok (req_fq (req_with b))" "fq_items (req_fq (req_with b)) = {0, 1}" "fq_active_pipes (req_fq (req_with b)) = {0, 1}"
  "\<not> fq_more (req_fq (req_with b))" "rq_message_begins (req_with b)" "\<not> rq_id_frames (req_with b)"
  using two_pipes_array
  by (simp_all add: req_with_def two_pipes_def lb_new_def fq_new_def req_new_def lb_ok_def fq_ok_def ring_ok_def req_fq_def
      lb_active_pipes_def fq_active_pipes_def active_pipes_def)

lemma empty_port: "reads_ok (port_with i [])" "can_write (port_with i [])" "ypipe_ok (po_out (port_with i []))"
  "ready (port_with i []) = []" "all_msgs (po_out (port_with i [])) = []"
  by (simp_all add: reads_ok_def can_write_simps port_simps end_ok_def in_ok_def ypipe_ok_def pipe_of_def all_msgs_def)

lemma req_sends_request_witness:
  "\<exists>p r' ps'. req_xsend (plain_msg [5]) (req_with False) (\<lambda>p. port_with [] []) = Inr (None, r', ps')
     \<and> mp_ready (pipe_of (po_out (ps' p))) = [msg_of True [], plain_msg [5]] \<and> rq_reply_pipe r' = Some p"
proof -
  let ?r = "req_with False" and ?ps = "\<lambda>p::nat. port_with [] []"
  have "fq_inv (req_fq ?r) ?ps" using req_with_facts [of False] empty_port by (simp add: fq_inv_def)
  then have "req_ok ?r ?ps" "no_delimiters ?r ?ps" "\<not> lb_more (req_lb ?r)" "\<not> lb_dropping (req_lb ?r)" "\<not> rq_receiving_reply ?r"
    using req_with_facts [of False] empty_port
    by (simp_all add: req_ok_def no_delimiters_def has_delimiter_def) (simp_all add: req_with_def two_pipes_def lb_new_def req_new_def)
  moreover have "\<exists>p \<in> lb_active_pipes (req_lb ?r). can_write (?ps p)" using req_with_facts(3) [of False] empty_port(2) by auto
  moreover have "\<not> msg_more (plain_msg [5])" "envelope ?r = [msg_of True []]"
    using req_with_facts(9) [of False] by (simp_all add: plain_msg_def envelope_def)
  ultimately show ?thesis
    using req_sends_request [of ?r ?ps "plain_msg [5]"] req_with_facts(8) [of False] empty_port(5) [of "[]"]
    by (metis append_Cons append_Nil)
qed



lemma plain_port:
  assumes "\<forall>m \<in> set ms. \<not> msg_delimiter m \<and> \<not> msg_credential m" "pipe_of (pipe_with ms) = \<lparr>mp_ready = ms, mp_complete = [], mp_partial = [], mp_asleep = False\<rparr>"
    "ypipe_ok (pipe_with ms)"
  shows "reads_ok (port_with i ms)" "can_write (port_with i ms)" "ypipe_ok (po_out (port_with i ms))" "ready (port_with i ms) = ms"
    "may_read (po_end (port_with i ms))"
  using assms by (simp_all add: reads_ok_def can_write_simps end_ok_def in_ok_def all_msgs_def port_with_def pipe_new_def
      ypipe_new_def ypipe_ok_def may_read_def)

definition reply_ports :: ports where
  "reply_ports p = (if p = 1 then port_with [] [msg_of True [], plain_msg [6]]
     else if p = 0 then port_with [] [msg_of True [], plain_msg [9]] else port_with [] [])"



subsection \<open>REP\<close>



text \<open>Steps of a run, for the witness.\<close>

lemma fq_recv_here:
  "0 < fq_active f \<Longrightarrow> fq_current f < length (pa_items (fq_pipes f)) \<Longrightarrow> port_read (ps (fq_current_pipe f)) = Inr (Some m, q) \<Longrightarrow>
   fq_recvpipe f ps = Inr (Some (m, fq_current_pipe f),
     if msg_more m then f\<lparr>fq_more := True\<rparr>
     else f\<lparr>fq_more := False, fq_last_in := Some (fq_current_pipe f), fq_current := (fq_current f + 1) mod fq_active f\<rparr>,
     ps(fq_current_pipe f := q))"
  by (subst fq_recvpipe.simps) (simp add: array_at_def fq_current_pipe_def Let_def)

lemma recv_until_here:
  "fq_recvpipe f ps = Inr (Some (m, p), f1, ps1) \<Longrightarrow> P m p \<Longrightarrow> recv_until P (Suc fuel) f ps = Inr (Some (m, p), f1, ps1)"
  by simp

lemma rep_label_step:
  "router_xrecv (rp_router r) ps = Inr (Some m, rt, ps1) \<Longrightarrow> msg_more m \<Longrightarrow> router_xsend m rt ps1 = Inr (None, rt2, ps2) \<Longrightarrow>
   rep_labels (Suc fuel) r ps = (if msg_data m = [] then Inr (True, r\<lparr>rp_router := rt2, rp_request_begins := False\<rparr>, ps2)
     else rep_labels fuel (r\<lparr>rp_router := rt2\<rparr>) ps2)"
  by (simp add: check_def Let_def)

lemma rep_rollback_step:
  "router_xrecv (rp_router r) ps = Inr (Some m, rt, ps1) \<Longrightarrow> \<not> msg_more m \<Longrightarrow> router_rollback rt ps1 = Inr (rt2, ps2) \<Longrightarrow>
   rep_labels (Suc fuel) r ps = rep_labels fuel (r\<lparr>rp_router := rt2\<rparr>) ps2"
  by simp

definition rep_start :: rep where
  "rep_start = (rep_new 0)\<lparr>rp_router := (router_new 0)\<lparr>rt_fq := fq_new\<lparr>fq_pipes := lb_pipes two_pipes, fq_active := 2\<rparr>,
     rt_outpipes := [([1], 0, True), ([2], 1, True)]\<rparr>\<rparr>"

definition request_ports :: ports where
  "request_ports p = (if p = 0 then port_with [1] [plain_msg [9]]
     else if p = 1 then port_with [2] [msg_of True [], plain_msg [6]] else port_with [] [])"

lemma rep_start_facts:
  "rt_fq (rp_router rep_start) = fq_new\<lparr>fq_pipes := lb_pipes two_pipes, fq_active := 2\<rparr>" "fq_items (rt_fq (rp_router rep_start)) = {0, 1}"
  "rt_outpipes (rp_router rep_start) = [([1], 0, True), ([2], 1, True)]" "\<not> rp_sending_reply rep_start" "rp_request_begins rep_start"
  "rt_current_out (rp_router rep_start) = None" "\<not> rt_more_out (rp_router rep_start)" "\<not> rt_prefetched (rp_router rep_start)"
  "\<not> rt_more_in (rp_router rep_start)" "\<not> rt_raw_sock (rp_router rep_start)" "\<not> rt_options_raw (rp_router rep_start)"
  by (simp_all add: rep_start_def rep_new_def router_new_def two_pipes_def lb_new_def)


text \<open>C40: rep_loses_reply. \<open>rollback\<close> of a ROUTER does nothing when the peer of the message could not be written to,
  and leaves the socket in the middle of a message. So after a malformed request of a peer whose pipe is
  full, the whole next message, the reply to somebody else's request, is accepted and written nowhere.\<close>

fun router_send_parts :: "zmsg list \<Rightarrow> router \<Rightarrow> ports \<Rightarrow> (errno option list \<times> router \<times> ports) outcome" where
  "router_send_parts [] r ps = Inr ([], r, ps)"
| "router_send_parts (m # ms) r ps =
     and_then (router_xsend m r ps) (\<lambda>(rc, r1, ps1).
       and_then (router_send_parts ms r1 ps1) (\<lambda>(rcs, r2, ps2). Inr (rc # rcs, r2, ps2)))"

lemma router_drops:
  "is_message ms \<Longrightarrow> rt_more_out rt \<Longrightarrow> rt_current_out rt = None \<Longrightarrow> \<not> rt_options_raw rt \<Longrightarrow>
     router_send_parts ms rt ps = Inr (replicate (length ms) None, rt\<lparr>rt_more_out := False\<rparr>, ps)"
proof (induction ms arbitrary: rt)
  case (Cons m ms)
  have run: "router_xsend m rt ps = Inr (None, rt\<lparr>rt_more_out := msg_more m\<rparr>, ps)"
    using Cons.prems(2-4) by (simp add: router_xsend_def Let_def)
  show ?case
  proof (cases "msg_more m")
    case True
    have "rt\<lparr>rt_more_out := True\<rparr> = rt" using Cons.prems(2) by simp
    moreover have "is_message ms" using Cons.prems(1) True by (simp add: is_message_Cons)
    ultimately show ?thesis using Cons.IH [OF _ Cons.prems(2-4)] run True by simp
  next
    case False
    moreover from this have "ms = []" using Cons.prems(1) by (simp add: is_message_Cons)
    ultimately show ?thesis using run by simp
  qed
qed simp

theorem rep_loses_reply:
  assumes "\<not> rt_more_out rt" "rt_current_out rt = None" "map_of (rt_outpipes rt) i = Some (p, a)" "\<not> can_write (ps p)"
    "\<not> rt_mandatory rt" "\<not> rt_options_raw rt" "is_message reply"
  shows "\<exists>rt1 ps1 rt2. router_xsend (msg_of True i) rt ps = Inr (None, rt1, ps1) \<and> (\<forall>q. same_queues (ps q) (ps1 q))
     \<and> router_rollback rt1 ps1 = Inr (rt1, ps1)
     \<and> router_send_parts reply rt1 ps1 = Inr (replicate (length reply) None, rt2, ps1)"
proof -
  obtain q where c: "port_check_write (ps p) = (False, q)" and sq: "same_queues (ps p) q"
    using check_write_refused [OF assms(4)] by blast
  let ?rt = "rt\<lparr>rt_more_out := True, rt_outpipes := AList.update i (p, False) (rt_outpipes rt)\<rparr>"
  have "router_xsend (msg_of True i) rt ps = Inr (None, ?rt, ps(p := q))"
    using assms(1-3,5) c by (simp add: router_xsend_def router_prefix_def check_def msg_of_def Let_def)
  moreover have "router_rollback ?rt (ps(p := q)) = Inr (?rt, ps(p := q))" using assms(2) by (simp add: router_rollback_def)
  moreover have "router_send_parts reply ?rt (ps(p := q)) = Inr (replicate (length reply) None, ?rt\<lparr>rt_more_out := False\<rparr>, ps(p := q))"
    by (rule router_drops [OF assms(7)]) (use assms(2,6) in simp_all)
  ultimately show ?thesis using sq by (intro exI [of _ ?rt] exI [of _ "ps(p := q)"] exI [of _ "?rt\<lparr>rt_more_out := False\<rparr>"]) auto
qed

lemma rep_loses_reply_witness:
  "\<exists>ps rt1 ps1 rt2. can_write (ps 1) \<and> router_xsend (msg_of True [1]) (rp_router rep_start) ps = Inr (None, rt1, ps1)
     \<and> router_rollback rt1 ps1 = Inr (rt1, ps1)
     \<and> router_send_parts [msg_of True [2], msg_of True [], plain_msg [7]] rt1 ps1 = Inr ([None, None, None], rt2, ps1)"
proof -
  let ?full = "(port_with [1] [])\<lparr>po_end := (pipe_new 1 1)\<lparr>pe_msgs_written := 1\<rparr>\<rparr>"
  let ?ps = "(\<lambda>p::nat. port_with [2] [])(0 := ?full)"
  have "\<not> can_write (?ps 0)" "can_write (?ps 1)" using empty_port(2) by (simp_all add: can_write_simps pipe_new_def)
  moreover have "is_message [msg_of True [2], msg_of True [], plain_msg [7]]" by (simp add: msg_of_def plain_msg_def)
  moreover have "map_of (rt_outpipes (rp_router rep_start)) [1] = Some (0, True)" "\<not> rt_mandatory (rp_router rep_start)"
    using rep_start_facts(3) by (simp_all add: rep_start_def rep_new_def router_new_def)
  moreover have "replicate (length [msg_of True [2], msg_of True [], plain_msg [7]]) None = [None, None, None]" by simp
  ultimately show ?thesis
    using rep_loses_reply [of "rp_router rep_start" "[1]" 0 True ?ps "[msg_of True [2], msg_of True [], plain_msg [7]]"]
      rep_start_facts(6,7,11) by (metis (no_types, lifting))
qed

end
