(* ===== verification/Zmq_Proxy_Properties.thy ===== *)
theory Zmq_Proxy_Properties
  imports Zmq_Proxy_Round Zmq_Socket_Properties
begin

section \<open>Properties of the proxy\<close>

text \<open>
  What the proxy between the ROUTER of the clients and the DEALER of the workers does with whole
  requests and replies, what a round of it keeps, and when it does not wait.
\<close>


definition front_with :: "zmsg list \<Rightarrow> (router \<times> ports) socket_base" where
  "front_with pending =
     \<lparr>sb_ctx_terminated = False, sb_ticks = 0, sb_rcvmore = False, sb_sndtimeo = -1, sb_rcvtimeo = -1, sb_recv_identity = False,
      sb_impl = (case pending of
          [] \<Rightarrow> (rp_router rep_start, \<lambda>p. port_with (if p = 0 then [1] else [2]) [])
        | m # ms \<Rightarrow> ((rp_router rep_start)\<lparr>rt_prefetched_msg := m, rt_prefetched_id := msg_of True [1], rt_prefetched := True\<rparr>,
            \<lambda>p. port_with (if p = 0 then [1] else [2]) []))\<rparr>"

definition worker_dealer :: dealer where
  "worker_dealer = \<lparr>dl_fq = fq_new\<lparr>fq_pipes := lb_pipes two_pipes, fq_active := 2\<rparr>, dl_lb = two_pipes, dl_probe_router = False\<rparr>"

definition back_with :: "zmsg list \<Rightarrow> (dealer \<times> ports) socket_base" where
  "back_with replies =
     \<lparr>sb_ctx_terminated = False, sb_ticks = 0, sb_rcvmore = False, sb_sndtimeo = -1, sb_rcvtimeo = -1, sb_recv_identity = False,
      sb_impl = (worker_dealer, \<lambda>p. port_with [] (if p = 1 then replies else []))\<rparr>"

lemma client_ports:
  "reads_ok (port_with i [])" "ready (port_with i []) = []" "ypipe_ok (po_out (port_with i []))" "can_write (port_with i [])"
  "po_identity (port_with i []) = i" "po_out (port_with i []) = ypipe_new"
  using empty_port by (simp_all add: port_with_def)

lemma router_ready:
  "fq_ok (rt_fq (rp_router rep_start))" "sends_whole (rp_router rep_start)" "\<not> fq_more (rt_fq (rp_router rep_start))"
proof -
  show "fq_ok (rt_fq (rp_router rep_start))" "\<not> fq_more (rt_fq (rp_router rep_start))"
    using two_pipes_array rep_start_facts(1) by (simp_all add: fq_ok_def ring_ok_def two_pipes_def lb_new_def fq_new_def)
  have "outpipes_known (rp_router rep_start)"
    using rep_start_facts(2,3) by (auto simp: outpipes_known_def split: if_splits)
  moreover have "\<not> rt_mandatory (rp_router rep_start)" by (simp add: rep_start_def rep_new_def router_new_def)
  ultimately show "sends_whole (rp_router rep_start)" using rep_start_facts by (simp add: sends_whole_def)
qed

lemma front_with_ok:
  "sb_impl (front_with []) = (rt, ps) \<Longrightarrow> front_state rt ps \<and> fits (rt_fq rt) ps 9"
  "sb_impl (front_with [plain_msg b]) = (rt, ps) \<Longrightarrow> front_state rt ps \<and> fits (rt_fq rt) ps 9 \<and> fetched rt ps 0
     \<and> frames rt ps 0 = [plain_msg b] \<and> po_identity (ps 0) = [1]"
proof -
  let ?rt = "rp_router rep_start"
  have inv: "fq_inv (rt_fq ?rt) (\<lambda>p. port_with (if p = 0 then [1] else [2]) [])"
    using router_ready(1,3) client_ports(1,2) by (simp add: fq_inv_def)
  have fits: "fits (rt_fq ?rt) (\<lambda>p. port_with (if p = 0 then [1] else [2]) []) 9" using client_ports(2) by (simp add: fits_def)
  have ni: "no_identities (rt_fq ?rt) (\<lambda>p. port_with (if p = 0 then [1] else [2]) [])" using client_ports(2) by (simp add: no_identities_def)
  have out: "\<forall>p \<in> fq_items (rt_fq ?rt). ypipe_ok (po_out (port_with (if p = 0 then [1] else [2]) []))" using client_ports(3) by blast
  {
    assume "sb_impl (front_with []) = (rt, ps)"
    then have r: "rt = ?rt" "ps = (\<lambda>p. port_with (if p = 0 then [1] else [2]) [])" by (simp_all add: front_with_def)
    have "idle_read rt ps" unfolding r idle_read_def using inv router_ready(3) rep_start_facts(8,9) by simp
    moreover have "plain_frames rt ps" unfolding r plain_frames_def using ni rep_start_facts(8) by simp
    ultimately show "front_state rt ps \<and> fits (rt_fq rt) ps 9"
      unfolding front_state_def using router_ready(2) out fits unfolding r by simp
  }
  {
    let ?r = "?rt\<lparr>rt_prefetched_msg := plain_msg b, rt_prefetched_id := msg_of True [1], rt_prefetched := True\<rparr>"
    assume "sb_impl (front_with [plain_msg b]) = (rt, ps)"
    then have r: "rt = ?r" "ps = (\<lambda>p. port_with (if p = 0 then [1] else [2]) [])" by (simp_all add: front_with_def)
    have m: "\<not> msg_more (plain_msg b)" "\<not> msg_identity (plain_msg b)" by (simp_all add: plain_msg_def)
    have idn: "po_identity (ps 0) = [1]" unfolding r using client_ports(5) by simp
    have "\<not> rt_identity_sent ?rt" by (simp add: rep_start_def rep_new_def router_new_def)
    then have f: "fetched rt ps 0"
      using inv m idn router_ready(3) rep_start_facts(2,9) unfolding fetched_def r by simp
    moreover have "plain_frames rt ps" unfolding r plain_frames_def using ni m by simp
    moreover have "sends_whole rt" using router_ready(2) unfolding r by (simp add: sends_whole_def outpipes_known_def)
    ultimately have "front_state rt ps" unfolding front_state_def using out unfolding r by auto
    moreover have "frames rt ps 0 = [plain_msg b]" unfolding r frames_def using client_ports(2) by simp
    ultimately show "front_state rt ps \<and> fits (rt_fq rt) ps 9 \<and> fetched rt ps 0
       \<and> frames rt ps 0 = [plain_msg b] \<and> po_identity (ps 0) = [1]"
      using f idn fits unfolding r by simp
  }
qed

lemma back_with_ok:
  assumes "sb_impl (back_with replies) = (d, ps)" "replies = [] \<or> replies = [msg_of True i, plain_msg b]"
  shows "back_state d ps" "fits (dl_fq d) ps 9" "\<exists>q \<in> lb_active_pipes (dl_lb d). can_write (ps q)"
    "replies \<noteq> [] \<longrightarrow> answers d ps" "ready (ps 0) = []" "ready (ps 1) = replies"
    "all_msgs (po_out (ps q)) = []"
proof -
  have d: "d = worker_dealer" "ps = (\<lambda>p. port_with [] (if p = 1 then replies else []))" using assms(1) by (simp_all add: back_with_def)
  have pipes: "pipe_of (pipe_with [msg_of True i, plain_msg b])
        = \<lparr>mp_ready = [msg_of True i, plain_msg b], mp_complete = [], mp_partial = [], mp_asleep = False\<rparr>"
      "ypipe_ok (pipe_with [msg_of True i, plain_msg b])"
      "\<forall>m \<in> set [msg_of True i, plain_msg b]. \<not> msg_delimiter m \<and> \<not> msg_credential m"
    by (simp_all add: port_simps pipe_of_def ypipe_ok_def)
  note full = plain_port [OF pipes(3,1,2)]
  have all: "reads_ok (ps q) \<and> can_write (ps q) \<and> ypipe_ok (po_out (ps q)) \<and> ready (ps q) = (if q = 1 then replies else [])
      \<and> po_out (ps q) = ypipe_new" for q
  proof (cases "q = 1 \<and> replies \<noteq> []")
    case True
    then have "ps q = port_with [] [msg_of True i, plain_msg b]" using assms(2) d(2) by simp
    moreover have "po_out (port_with [] [msg_of True i, plain_msg b]) = ypipe_new" by (simp add: port_with_def)
    ultimately show ?thesis using full [of "[]"] assms(2) True by auto
  next
    case False
    then have "ps q = port_with [] []" using d(2) by auto
    then show ?thesis using client_ports [of "[]"] False by auto
  qed
  have w: "whole [msg_of True i, plain_msg b]" by (simp add: msg_of_def plain_msg_def)
  have items: "fq_items (dl_fq d) = {0, 1}" "lb_items (dl_lb d) = {0, 1}" "lb_active_pipes (dl_lb d) = {0, 1}"
    "fq_active_pipes (dl_fq d) = {0, 1}" "fq_ok (dl_fq d)" "\<not> fq_more (dl_fq d)" "lb_ok (dl_lb d)" "\<not> lb_more (dl_lb d)" "\<not> lb_dropping (dl_lb d)"
    using two_pipes_array
    by (simp_all add: d(1) worker_dealer_def two_pipes_def lb_new_def fq_new_def lb_ok_def fq_ok_def ring_ok_def
        lb_active_pipes_def fq_active_pipes_def active_pipes_def)
  have rd: "reads_ok (ps q)" "ypipe_ok (po_out (ps q))" "can_write (ps q)" "ready (ps q) = (if q = 1 then replies else [])" for q
    using all by blast+
  have wr: "whole replies" "\<forall>m \<in> set replies. \<not> msg_identity m \<and> \<not> msg_credential m \<and> \<not> msg_delimiter m" "length replies < 8"
    using w assms(2) by (auto simp: msg_of_def plain_msg_def)
  have "fq_inv (dl_fq d) ps" unfolding fq_inv_def rd(4) using items(5,6) rd(1) wr(1) by simp
  moreover have "plain_queues (dl_fq d) ps" unfolding plain_queues_def rd(4) using wr(2) by simp
  ultimately show "back_state d ps" unfolding back_state_def using items(1,2,6-9) rd(2) by simp
  show "fits (dl_fq d) ps 9" unfolding fits_def rd(4) using wr(3) by simp
  show "\<exists>q \<in> lb_active_pipes (dl_lb d). can_write (ps q)" unfolding items(3) using rd(3) by blast
  show "ready (ps 0) = []" "ready (ps 1) = replies" unfolding rd(4) by simp_all
  show "all_msgs (po_out (ps q)) = []" using all by (simp add: all_msgs_def pipe_of_def ypipe_new_def)
  show "replies \<noteq> [] \<longrightarrow> answers d ps"
  proof
    assume "replies \<noteq> []"
    then have r: "replies = [msg_of True i, plain_msg b]" using assms(2) by simp
    then have "may_read (po_end (ps 1))" using full(5) by (simp add: d(2))
    then have "readable (ps 1)" using all [of 1] r by (simp add: readable_def msg_of_def)
    then show "answers d ps" using items by (auto simp: answers_def)
  qed
qed



text \<open>C18: proxy_forwards_reply. A reply at the head of an active pipe of the DEALER goes, without its first frame and
  as a whole, to the client whose identity that frame has, if it can be written to, and to nobody
  otherwise; nothing is written to any other client or to any worker.\<close>

theorem proxy_forwards_reply:
  assumes "\<not> sb_ctx_terminated s" "sb_impl s = (d, bps)" "back_state d bps" "answers d bps" "fits (dl_fq d) bps fuel"
    "\<not> sb_ctx_terminated t" "sb_impl t = (rt, fps)" "front_state rt fps"
  shows "\<exists>s' t' q e es. forward fuel backend_socket frontend_socket None s t c = Inr (True, s', t', c)
     \<and> q \<in> fq_active_pipes (dl_fq d) \<and> is_message (e # es) \<and> ready (bps q) = e # es @ ready (socket_ports s' q)
     \<and> (\<forall>x. po_out (socket_ports s' x) = po_out (bps x))
     \<and> (if es = [] \<or> reply_target rt fps e = None then \<forall>x. po_out (socket_ports t' x) = po_out (fps x)
        else \<exists>p. reply_target rt fps e = Some p \<and> can_write (fps p)
          \<and> mp_ready (pipe_of (po_out (socket_ports t' p))) = all_msgs (po_out (fps p)) @ es
          \<and> (\<forall>x. x \<noteq> p \<longrightarrow> po_out (socket_ports t' x) = po_out (fps x)))"
proof -
  have bs: "fq_inv (dl_fq d) bps" "\<not> fq_more (dl_fq d)" "plain_queues (dl_fq d) bps" using assms(3) by (simp_all add: back_state_def)
  have ft: "\<not> rt_more_out rt" "rt_current_out rt = None" "\<not> rt_mandatory rt" "outpipes_known rt" "\<not> rt_raw_sock rt" "\<not> rt_options_raw rt"
    "\<forall>p \<in> fq_items (rt_fq rt). ypipe_ok (po_out (fps p))"
    using assms(8) by (simp_all add: front_state_def sends_whole_def)
  have off: "\<exists>q \<in> fq_active_pipes (dl_fq d). offered (bps q) \<noteq> None"
    using assms(4) readable_offers plain_queues_parts(3) [OF bs(3)] active_in_items unfolding answers_def by blast
  have len: "\<forall>q \<in> fq_items (dl_fq d). length (ready (bps q)) < fuel" using assms(5) by (auto simp: fits_def)
  from forward_reply [where c=c, OF assms(1,2) bs(1,2) plain_queues_parts(1) [OF bs(3)] off len assms(6,7) ft(1-6)
      sends_ok_in [OF front_reads [OF assms(8)] ft(7)]] obtain s' t' d' bps' rt' fps' q ms where
    f: "forward fuel backend_socket frontend_socket None s t c = Inr (True, s', t', c)" "sb_impl s' = (d', bps')" "sb_impl t' = (rt', fps')"
      "q \<in> fq_active_pipes (dl_fq d)" "is_message ms" "after_credentials (bps q) = ms @ ready (bps' q)"
      "untouched bps bps'" "reply_delivered ms rt fps rt' fps'"
    by (elim exE conjE) blast
  obtain e es where ms: "ms = e # es" using f(5) by (cases ms) auto
  have "\<forall>m \<in> set (ready (bps q)). \<not> msg_credential m" using plain_queues_parts(3) [OF bs(3)] f(4) active_in_items by blast
  then have head: "ready (bps q) = e # es @ ready (bps' q)"
    using f(6) ms by (cases "ready (bps q)") (auto simp: after_credentials_def)
  have "if es = [] \<or> reply_target rt fps e = None then \<forall>x. po_out (fps' x) = po_out (fps x)
        else \<exists>p. reply_target rt fps e = Some p \<and> can_write (fps p)
          \<and> mp_ready (pipe_of (po_out (fps' p))) = all_msgs (po_out (fps p)) @ es \<and> (\<forall>x. x \<noteq> p \<longrightarrow> po_out (fps' x) = po_out (fps x))"
  proof (cases "es = []")
    case True
    then show ?thesis using f(8) ms by (simp add: reply_delivered_def)
  next
    case False
    then have w: "router_wrote True (reply_target rt fps e) es rt fps rt' fps'" using f(8) ms by (simp add: reply_delivered_def)
    show ?thesis
    proof (cases "reply_target rt fps e")
      case None
      then show ?thesis using w by (simp add: router_wrote_def same_queues_def)
    next
      case (Some p)
      then have "can_write (fps p)" by (auto simp: reply_target_def split: option.splits if_splits)
      then show ?thesis using w Some False by (simp add: router_wrote_def same_queues_def)
    qed
  qed
  then show ?thesis using f(1-5) ms head untouchedD(1) [OF f(7)]
    by (intro exI [of _ s'] exI [of _ t'] exI [of _ q] exI [of _ e] exI [of _ es]) simp
qed

lemma proxy_forwards_reply_witness:
  "\<exists>s' t'. forward 9 backend_socket frontend_socket None (back_with [msg_of True [1], plain_msg [7]]) (front_with []) () = Inr (True, s', t', ())
     \<and> mp_ready (pipe_of (po_out (socket_ports t' 0))) = [plain_msg [7]]"
proof -
  let ?s = "back_with [msg_of True [1], plain_msg [7]]"
  obtain rt fps where i: "sb_impl (front_with []) = (rt, fps)" by (cases "sb_impl (front_with [])")
  obtain d bps where j: "sb_impl ?s = (d, bps)" by (cases "sb_impl ?s")
  have f: "front_state rt fps" using front_with_ok(1) [OF i] by simp
  have b: "back_state d bps" "fits (dl_fq d) bps 9" "answers d bps" "ready (bps 0) = []" "ready (bps 1) = [msg_of True [1], plain_msg [7]]"
    using back_with_ok [OF j, of "[1]" "[7]"] by simp_all
  have t: "\<not> sb_ctx_terminated ?s" "\<not> sb_ctx_terminated (front_with [])" by (simp_all add: front_with_def back_with_def)
  obtain s' t' q e es where r: "forward 9 backend_socket frontend_socket None ?s (front_with []) () = Inr (True, s', t', ())"
      "q \<in> fq_active_pipes (dl_fq d)" "is_message (e # es)" "ready (bps q) = e # es @ ready (socket_ports s' q)"
      "if es = [] \<or> reply_target rt fps e = None then \<forall>x. po_out (socket_ports t' x) = po_out (fps x)
        else \<exists>p. reply_target rt fps e = Some p \<and> can_write (fps p)
          \<and> mp_ready (pipe_of (po_out (socket_ports t' p))) = all_msgs (po_out (fps p)) @ es
          \<and> (\<forall>x. x \<noteq> p \<longrightarrow> po_out (socket_ports t' x) = po_out (fps x))"
    using proxy_forwards_reply [where c="()", OF t(1) j b(1,3,2) t(2) i f] by (elim exE conjE) blast
  have d: "d = worker_dealer" using j by (simp add: back_with_def)
  have "fq_active_pipes (dl_fq d) = {0, 1}"
    unfolding d by (simp add: worker_dealer_def fq_active_pipes_def active_pipes_def two_pipes_def lb_new_def)
  moreover have "q \<noteq> 0" using r(4) b(4) by (metis list.discI)
  ultimately have "q = 1" using r(2) by simp
  then have ready: "e # es @ ready (socket_ports s' 1) = [msg_of True [1], plain_msg [7]]" using r(4) b(5) by simp
  then have e: "e = msg_of True [1]" and rest: "es @ ready (socket_ports s' 1) = [plain_msg [7]]" by simp_all
  have "msg_more e" unfolding e by (simp add: msg_of_def)
  then have "es \<noteq> []" using r(3) by auto
  then obtain x xs where x: "es = x # xs" by (cases es) auto
  have es: "e = msg_of True [1]" "es = [plain_msg [7]]" using e rest unfolding x by simp_all
  have front: "rt = rp_router rep_start" "fps = (\<lambda>p. port_with (if p = 0 then [1] else [2]) [])" using i by (simp_all add: front_with_def)
  have "map_of (rt_outpipes rt) [1] = Some (0, True)" unfolding front(1) rep_start_facts(3) by simp
  moreover have "can_write (fps 0)" unfolding front(2) by (rule client_ports)
  ultimately have "reply_target rt fps e = Some 0" unfolding es(1) by (simp add: reply_target_def msg_of_def)
  moreover have "all_msgs (po_out (fps 0)) = []" unfolding front(2) using empty_port(5) by simp
  ultimately show ?thesis using r(1,5) es(2) by auto
qed



definition proxy_with :: "zmsg list \<Rightarrow> zmsg list \<Rightarrow> ((router \<times> ports) socket_base, (dealer \<times> ports) socket_base, unit, unit) proxy" where
  "proxy_with requests replies =
     \<lparr>px_frontend = front_with requests, px_backend = back_with replies, px_capture = (), px_control = (), px_mode = Proxy_active\<rparr>"



text \<open>While a request waits and no worker can take it, no round of the proxy waits: each ends at once
  with nothing done and in the state it began with.\<close>

theorem proxy_spins:
  assumes "\<not> sb_ctx_terminated (px_frontend st)" "sb_impl (px_frontend st) = (rt, fps)" "fetched rt fps p"
    "\<not> sb_ctx_terminated (px_backend st)" "sb_impl (px_backend st) = (d, bps)" "\<not> lb_more (dl_lb d)" "lb_active (dl_lb d) = 0"
    "\<not> fq_more (dl_fq d)" "fq_active (dl_fq d) = 0" "px_mode st \<noteq> Proxy_terminated"
  shows "proxy_round fuel frontend_socket backend_socket None None st = Inr (None, st)"
proof -
  have same: "(px_frontend st)\<lparr>sb_impl := (rt, fps)\<rparr> = px_frontend st" "(px_backend st)\<lparr>sb_impl := (d, bps)\<rparr> = px_backend st"
    "d\<lparr>dl_lb := dl_lb d\<rparr> = d" "d\<lparr>dl_fq := dl_fq d\<rparr> = d" "st\<lparr>px_frontend := px_frontend st\<rparr> = st" "st\<lparr>px_backend := px_backend st\<rparr> = st"
    "st\<lparr>px_control := px_control st\<rparr> = st"
    using assms(2,5) by simp_all
  have f: "zs_events frontend_socket (px_frontend st) = Inr (Some (True, True), px_frontend st)"
    using fetched_has_in [OF assms(3)] assms(1,2) same(1)
    by (simp add: router_socket_def socket_events_def no_commands_def router_xhas_out_def)
  have "lb_out_loop (dl_lb d) bps = Inr (False, dl_lb d, bps)" using assms(7) by (subst lb_out_loop.simps) simp
  moreover have "fq_in_loop (dl_fq d) bps = Inr (False, dl_fq d, bps)" using assms(9) by (subst fq_in_loop.simps) simp
  ultimately have b: "zs_events backend_socket (px_backend st) = Inr (Some (False, False), px_backend st)"
    using assms(4-6,8) same(2)
    by (simp add: dealer_socket_def socket_events_def no_commands_def dealer_xhas_out_def dealer_xhas_in_def lb_has_out_def fq_has_in_def)
  show ?thesis
    using f b assms(10) by (simp add: proxy_round_def poll_socket_def proxy_forward_def Let_def)
qed

lemma proxy_spins_witness:
  "proxy_round 0 frontend_socket backend_socket None None
     ((proxy_with [plain_msg [5]] [])\<lparr>px_backend := (back_with [])\<lparr>sb_impl := (dealer_new, \<lambda>p. port_with [] [])\<rparr>\<rparr>)
   = Inr (None, (proxy_with [plain_msg [5]] [])\<lparr>px_backend := (back_with [])\<lparr>sb_impl := (dealer_new, \<lambda>p. port_with [] [])\<rparr>\<rparr>)"
proof -
  let ?st = "(proxy_with [plain_msg [5]] [])\<lparr>px_backend := (back_with [])\<lparr>sb_impl := (dealer_new, \<lambda>p. port_with [] [])\<rparr>\<rparr>"
  obtain rt fps where i: "sb_impl (front_with [plain_msg [5]]) = (rt, fps)" by (cases "sb_impl (front_with [plain_msg [5]])")
  have "sb_impl (px_frontend ?st) = (rt, fps)" "fetched rt fps 0" using i front_with_ok(2) [OF i] by (simp_all add: proxy_with_def)
  moreover have "\<not> sb_ctx_terminated (px_frontend ?st)" "\<not> sb_ctx_terminated (px_backend ?st)" "px_mode ?st \<noteq> Proxy_terminated"
    by (simp_all add: proxy_with_def front_with_def back_with_def)
  moreover have "sb_impl (px_backend ?st) = (dealer_new, \<lambda>p. port_with [] [])" by simp
  moreover have "\<not> lb_more (dl_lb dealer_new)" "lb_active (dl_lb dealer_new) = 0" "\<not> fq_more (dl_fq dealer_new)" "fq_active (dl_fq dealer_new) = 0"
    by (simp_all add: dealer_new_def lb_new_def fq_new_def)
  ultimately show ?thesis by (intro proxy_spins) 
qed

end
