(* ===== verification/Zmq_Framing.thy ===== *)
theory Zmq_Framing
  imports Mog_Prelude
begin

section \<open>Frames on a connection\<close>

text \<open>
  \<open>encoder.hpp\<close> and \<open>decoder.hpp\<close> with the framings of ZMTP/1.0 (\<open>v1_encoder.cpp\<close>, \<open>v1_decoder.cpp\<close>) and
  ZMTP/2.0 (\<open>v2_encoder.cpp\<close>, \<open>v2_decoder.cpp\<close>), \<open>init_size\<close> of \<open>msg.cpp\<close>, and the loops of
  \<open>stream_engine.cpp\<close> that call them. The machine has 64 bits. \<open>malloc\<close> is a parameter: the block it
  returns for a size, or \<open>None\<close>. A pointer is a buffer with an offset; the bytes of a short message, which
  its union holds, begin as zeros.
\<close>

subsection \<open>Messages\<close>

record wire_msg =
  wm_more :: bool
  wm_command :: bool
  wm_size :: nat
  wm_memory :: "byte list"

definition wm_data :: "wire_msg \<Rightarrow> byte list" where
  "wm_data m = take (wm_size m) (wm_memory m)"

definition max_vsm_size :: nat where
  "max_vsm_size = 64 - (8 + 8 + 3)"

definition content_size :: nat where
  "content_size = 8 + 8 + 8 + 8 + 8"

text \<open>\<open>None\<close> is -1 with \<open>ENOMEM\<close>. The header of the content stands at the beginning of the block.\<close>

definition init_size :: "(nat \<Rightarrow> byte list option) \<Rightarrow> nat \<Rightarrow> wire_msg option outcome" where
  "init_size malloc n =
     (if n \<le> max_vsm_size then
        Inr (Some \<lparr>wm_more = False, wm_command = False, wm_size = n, wm_memory = replicate max_vsm_size 0\<rparr>)
      else case malloc ((content_size + n) mod 2 ^ 64) of
             None \<Rightarrow> Inr None
           | Some block \<Rightarrow>
               check (content_size \<le> length block) (Undefined ''write past the end of a buffer'')
                 (Inr (Some \<lparr>wm_more = False, wm_command = False, wm_size = n, wm_memory = drop content_size block\<rparr>)))"

definition put_uint64 :: "64 word \<Rightarrow> byte list" where
  "put_uint64 v = map (\<lambda>k. ucast (drop_bit k v)) [56, 48, 40, 32, 24, 16, 8, 0]"

definition get_uint64 :: "byte list \<Rightarrow> 64 word" where
  "get_uint64 b = foldr or (map2 (\<lambda>k x. push_bit k (ucast x)) [56, 48, 40, 32, 24, 16, 8, 0] b) 0"


subsection \<open>Decoding\<close>

datatype place = Null | Tmpbuf nat | Message nat

datatype decode_error = Emsgsize | Enomem | Eproto

text \<open>What a step or \<open>decode\<close> returns: 0, 1, or -1 with \<open>errno\<close>.\<close>

datatype decoded = More_needed | Message_decoded | Not_decoded decode_error

record 'k decoder =
  dc_next :: 'k
  dc_read_pos :: place
  dc_to_read :: nat
  dc_bufsize :: nat
  dc_tmpbuf :: "byte list"
  dc_in_progress :: wire_msg
  dc_msg_flags :: "bool \<times> bool"
  dc_maxmsgsize :: int

definition empty_msg :: wire_msg where
  "empty_msg = \<lparr>wm_more = False, wm_command = False, wm_size = 0, wm_memory = replicate max_vsm_size 0\<rparr>"

definition next_step :: "place \<Rightarrow> nat \<Rightarrow> 'k \<Rightarrow> 'k decoder \<Rightarrow> 'k decoder" where
  "next_step read_pos to_read step d = d\<lparr>dc_read_pos := read_pos, dc_to_read := to_read, dc_next := step\<rparr>"

definition decoder_new :: "'k \<Rightarrow> nat \<Rightarrow> int \<Rightarrow> 'k decoder" where
  "decoder_new first bufsize maxmsgsize =
     \<lparr>dc_next = first, dc_read_pos = Tmpbuf 0, dc_to_read = 1, dc_bufsize = bufsize, dc_tmpbuf = replicate 8 0,
      dc_in_progress = empty_msg, dc_msg_flags = (False, False), dc_maxmsgsize = maxmsgsize\<rparr>"

text \<open>\<open>memcpy (read_pos, ..)\<close> and moving \<open>read_pos\<close>.\<close>

definition store :: "byte list \<Rightarrow> 'k decoder \<Rightarrow> 'k decoder outcome" where
  "store bs d =
     and_then
       (case dc_read_pos d of
          Null \<Rightarrow> check (bs = []) (Undefined ''memcpy to NULL'') (Inr d)
        | Tmpbuf off \<Rightarrow> and_then (buf_write off bs (dc_tmpbuf d)) (\<lambda>b. Inr (d\<lparr>dc_tmpbuf := b, dc_read_pos := Tmpbuf (off + length bs)\<rparr>))
        | Message off \<Rightarrow> and_then (buf_write off bs (wm_memory (dc_in_progress d))) (\<lambda>b.
            Inr (d\<lparr>dc_in_progress := (dc_in_progress d)\<lparr>wm_memory := b\<rparr>, dc_read_pos := Message (off + length bs)\<rparr>)))
       (\<lambda>d. Inr (d\<lparr>dc_to_read := dc_to_read d - length bs\<rparr>))"

type_synonym 'k step = "'k decoder \<Rightarrow> (decoded \<times> 'k decoder) outcome"

text \<open>The loop that runs the state machine while nothing is to be read; three steps come before a message.\<close>

fun run_steps :: "nat \<Rightarrow> 'k step \<Rightarrow> 'k decoder \<Rightarrow> (decoded \<times> 'k decoder) outcome" where
  "run_steps 0 step d = Inl Waits"
| "run_steps (Suc fuel) step d =
     (if dc_to_read d \<noteq> 0 then Inr (More_needed, d)
      else and_then (step d) (\<lambda>(rc, d'). if rc \<noteq> More_needed then Inr (rc, d') else run_steps fuel step d'))"

definition steps_fuel :: nat where "steps_fuel = 4"

fun decode_loop :: "nat \<Rightarrow> 'k step \<Rightarrow> byte list \<Rightarrow> 'k decoder \<Rightarrow> (decoded \<times> byte list \<times> 'k decoder) outcome" where
  "decode_loop 0 step data d = Inl Waits"
| "decode_loop (Suc fuel) step data d =
     (if data = [] then Inr (More_needed, [], d)
      else let to_copy = min (dc_to_read d) (length data)
        in and_then (store (take to_copy data) d) (\<lambda>d1.
           and_then (run_steps steps_fuel step d1) (\<lambda>(rc, d2).
             if rc \<noteq> More_needed then Inr (rc, drop to_copy data, d2)
             else decode_loop fuel step (drop to_copy data) d2)))"

text \<open>
  \<open>decode\<close>; the result has the bytes not used. With \<open>direct\<close> the caller has put the bytes at \<open>read_pos\<close>,
  as \<open>get_buffer\<close> told it to.
\<close>

definition decode :: "'k step \<Rightarrow> bool \<Rightarrow> byte list \<Rightarrow> 'k decoder \<Rightarrow> (decoded \<times> byte list \<times> 'k decoder) outcome" where
  "decode step direct data d =
     (if direct then
        check (length data \<le> dc_to_read d) (Fatal ''zmq_assert (size_ <= to_read)'')
          (and_then (store data d) (\<lambda>d1. and_then (run_steps steps_fuel step d1) (\<lambda>(rc, d2). Inr (rc, [], d2))))
      else decode_loop (Suc (length data)) step data d)"

definition get_buffer :: "'k decoder \<Rightarrow> bool \<times> nat" where
  "get_buffer d = (if dc_to_read d \<ge> dc_bufsize d then (True, dc_to_read d) else (False, dc_bufsize d))"

text \<open>ZMTP/2.0.\<close>

datatype v2_step = V2_flags_ready | V2_one_byte_size_ready | V2_eight_byte_size_ready | V2_message_ready

definition more_flag :: byte where "more_flag = 1"
definition large_flag :: byte where "large_flag = 2"
definition command_flag :: byte where "command_flag = 4"

text \<open>\<open>init_size\<close>, with \<open>init\<close> when it fails, and what both sizes have in common.\<close>

definition begin_message ::
    "(nat \<Rightarrow> byte list option) \<Rightarrow> nat \<Rightarrow> (wire_msg \<Rightarrow> 'k decoder \<Rightarrow> 'k decoder) \<Rightarrow> 'k decoder \<Rightarrow> (decoded \<times> 'k decoder) outcome" where
  "begin_message malloc n continue d =
     and_then (init_size malloc n) (\<lambda>x. case x of
         None \<Rightarrow> Inr (Not_decoded Enomem, d\<lparr>dc_in_progress := empty_msg\<rparr>)
       | Some m \<Rightarrow> Inr (More_needed, continue m d))"

definition v2_body :: "wire_msg \<Rightarrow> v2_step decoder \<Rightarrow> v2_step decoder" where
  "v2_body m d =
     next_step (Message 0) (wm_size m) V2_message_ready
       (d\<lparr>dc_in_progress := m\<lparr>wm_more := fst (dc_msg_flags d), wm_command := snd (dc_msg_flags d)\<rparr>\<rparr>)"

definition v2_size :: "(nat \<Rightarrow> byte list option) \<Rightarrow> nat \<Rightarrow> v2_step decoder \<Rightarrow> (decoded \<times> v2_step decoder) outcome" where
  "v2_size malloc n d =
     (if 0 \<le> dc_maxmsgsize d \<and> int n > dc_maxmsgsize d then Inr (Not_decoded Emsgsize, d)
      else begin_message malloc n v2_body d)"

definition v2_decoder_step :: "(nat \<Rightarrow> byte list option) \<Rightarrow> v2_step step" where
  "v2_decoder_step malloc d =
     (case dc_next d of
        V2_flags_ready \<Rightarrow>
          let flags = dc_tmpbuf d ! 0;
              d1 = d\<lparr>dc_msg_flags := (and flags more_flag \<noteq> 0, and flags command_flag \<noteq> 0)\<rparr>
          in Inr (More_needed, if and flags large_flag \<noteq> 0 then next_step (Tmpbuf 0) 8 V2_eight_byte_size_ready d1
                               else next_step (Tmpbuf 0) 1 V2_one_byte_size_ready d1)
      | V2_one_byte_size_ready \<Rightarrow> v2_size malloc (unat (dc_tmpbuf d ! 0)) d
      | V2_eight_byte_size_ready \<Rightarrow> v2_size malloc (unat (get_uint64 (dc_tmpbuf d))) d
      | V2_message_ready \<Rightarrow> Inr (Message_decoded, next_step (Tmpbuf 0) 1 V2_flags_ready d))"

text \<open>ZMTP/1.0. Of the flags on the wire only \<open>more\<close> is used.\<close>

datatype v1_step = V1_one_byte_size_ready | V1_eight_byte_size_ready | V1_flags_ready | V1_message_ready

definition v1_flags :: "wire_msg \<Rightarrow> v1_step decoder \<Rightarrow> v1_step decoder" where
  "v1_flags m d = next_step (Tmpbuf 0) 1 V1_flags_ready (d\<lparr>dc_in_progress := m\<rparr>)"

definition v1_size :: "(nat \<Rightarrow> byte list option) \<Rightarrow> nat \<Rightarrow> v1_step decoder \<Rightarrow> (decoded \<times> v1_step decoder) outcome" where
  "v1_size malloc n d =
     (if n = 0 then Inr (Not_decoded Eproto, d)
      else if 0 \<le> dc_maxmsgsize d \<and> int (n - 1) > dc_maxmsgsize d then Inr (Not_decoded Emsgsize, d)
      else begin_message malloc (n - 1) v1_flags d)"

definition v1_decoder_step :: "(nat \<Rightarrow> byte list option) \<Rightarrow> v1_step step" where
  "v1_decoder_step malloc d =
     (case dc_next d of
        V1_one_byte_size_ready \<Rightarrow>
          if dc_tmpbuf d ! 0 = 0xff then Inr (More_needed, next_step (Tmpbuf 0) 8 V1_eight_byte_size_ready d)
          else v1_size malloc (unat (dc_tmpbuf d ! 0)) d
      | V1_eight_byte_size_ready \<Rightarrow> v1_size malloc (unat (get_uint64 (dc_tmpbuf d))) d
      | V1_flags_ready \<Rightarrow>
          let m = (dc_in_progress d)\<lparr>wm_more := (and (dc_tmpbuf d ! 0) 1 \<noteq> 0)\<rparr>
          in Inr (More_needed, next_step (Message 0) (wm_size m) V1_message_ready (d\<lparr>dc_in_progress := m\<rparr>))
      | V1_message_ready \<Rightarrow> Inr (Message_decoded, next_step (Tmpbuf 0) 1 V1_one_byte_size_ready d))"


subsection \<open>Encoding\<close>

text \<open>\<open>en_out\<close> is the \<open>to_write\<close> bytes at \<open>write_pos\<close>.\<close>

record 'k encoder =
  en_next :: 'k
  en_out :: "byte list"
  en_new_msg_flag :: bool
  en_bufsize :: nat
  en_in_progress :: "wire_msg option"

datatype encoder_step = E_message_ready | E_size_ready

type_synonym frame_encoder = "encoder_step encoder"

definition encoder_new :: "nat \<Rightarrow> frame_encoder" where
  "encoder_new bufsize =
     \<lparr>en_next = E_message_ready, en_out = [], en_new_msg_flag = True, en_bufsize = bufsize, en_in_progress = None\<rparr>"

definition v2_header :: "wire_msg \<Rightarrow> byte list" where
  "v2_header m =
     (let flags = or (or (if wm_more m then more_flag else 0) (if wm_size m > 255 then large_flag else 0))
                     (if wm_command m then command_flag else 0)
      in if wm_size m > 255 then flags # put_uint64 (of_nat (wm_size m)) else [flags, of_nat (wm_size m)])"

definition v1_header :: "wire_msg \<Rightarrow> byte list" where
  "v1_header m =
     (let n = wm_size m + 1; flags = (if wm_more m then 1 else 0)
      in if n < 255 then [of_nat n, flags] else 0xff # put_uint64 (of_nat n) @ [flags])"

text \<open>Both encoders have the same two steps.\<close>

definition encoder_step :: "(wire_msg \<Rightarrow> byte list) \<Rightarrow> frame_encoder \<Rightarrow> frame_encoder outcome" where
  "encoder_step header e =
     (case en_in_progress e of
        None \<Rightarrow> Inl (Undefined ''in_progress is NULL'')
      | Some m \<Rightarrow>
          Inr (case en_next e of
                 E_message_ready \<Rightarrow> e\<lparr>en_out := header m, en_next := E_size_ready, en_new_msg_flag := False\<rparr>
               | E_size_ready \<Rightarrow> e\<lparr>en_out := wm_data m, en_next := E_message_ready, en_new_msg_flag := True\<rparr>))"

text \<open>
  The loop of \<open>encode\<close> with what it has written so far; \<open>own\<close> says that the encoder provides the
  buffer. An iteration that copies nothing is followed by the end of the loop.
\<close>

fun encode_loop ::
    "nat \<Rightarrow> (wire_msg \<Rightarrow> byte list) \<Rightarrow> bool \<Rightarrow> nat \<Rightarrow> byte list \<Rightarrow> frame_encoder \<Rightarrow> (byte list \<times> frame_encoder) outcome" where
  "encode_loop 0 header own room out e = Inl Waits"
| "encode_loop (Suc fuel) header own room out e =
     (if room \<le> length out then Inr (out, e)
      else if en_out e = [] \<and> en_new_msg_flag e then Inr (out, e\<lparr>en_in_progress := None\<rparr>)
      else and_then (if en_out e = [] then encoder_step header e else Inr e) (\<lambda>e1.
        if out = [] \<and> own \<and> room \<le> length (en_out e1) then Inr (en_out e1, e1\<lparr>en_out := []\<rparr>)
        else let to_copy = min (length (en_out e1)) (room - length out)
          in encode_loop fuel header own room (out @ take to_copy (en_out e1)) (e1\<lparr>en_out := drop to_copy (en_out e1)\<rparr>)))"

definition encode :: "(wire_msg \<Rightarrow> byte list) \<Rightarrow> bool \<Rightarrow> nat \<Rightarrow> frame_encoder \<Rightarrow> (byte list \<times> frame_encoder) outcome" where
  "encode header own room e =
     (let buffersize = (if own then en_bufsize e else room)
      in if en_in_progress e = None then Inr ([], e) else encode_loop (buffersize + 3) header own buffersize [] e)"

definition load_msg :: "(wire_msg \<Rightarrow> byte list) \<Rightarrow> wire_msg \<Rightarrow> frame_encoder \<Rightarrow> frame_encoder outcome" where
  "load_msg header m e =
     check (en_in_progress e = None) (Fatal ''zmq_assert (in_progress == NULL)'')
       (encoder_step header (e\<lparr>en_in_progress := Some m\<rparr>))"


subsection \<open>The engine\<close>

definition out_batch_size :: nat where "out_batch_size = 8192"
definition in_batch_size :: nat where "in_batch_size = 8192"

text \<open>
  A batch of \<open>out_event\<close>, from the messages that \<open>next_msg\<close> still has. \<open>null\<close> says that \<open>outpos\<close> is
  \<open>NULL\<close> yet, so that the encoder provides the buffer.
\<close>

fun out_batch_loop ::
    "(wire_msg \<Rightarrow> byte list) \<Rightarrow> bool \<Rightarrow> byte list \<Rightarrow> wire_msg list \<Rightarrow> frame_encoder \<Rightarrow> (byte list \<times> wire_msg list \<times> frame_encoder) outcome" where
  "out_batch_loop header null out [] e = Inr (out, [], e)"
| "out_batch_loop header null out (m # ms) e =
     (if out_batch_size \<le> length out then Inr (out, m # ms, e)
      else and_then (load_msg header m e) (\<lambda>e1.
        and_then (encode header null (out_batch_size - length out) e1) (\<lambda>(bs, e2).
          check (bs \<noteq> []) (Fatal ''zmq_assert (n > 0)'') (out_batch_loop header False (out @ bs) ms e2))))"

definition out_batch ::
    "(wire_msg \<Rightarrow> byte list) \<Rightarrow> wire_msg list \<Rightarrow> frame_encoder \<Rightarrow> (byte list \<times> wire_msg list \<times> frame_encoder) outcome" where
  "out_batch header ms e =
     and_then (encode header True 0 e) (\<lambda>(bs, e1). out_batch_loop header (en_in_progress e = None) bs ms e1)"

text \<open>
  \<open>in_event\<close>: \<open>tcp_read\<close> puts at most as many bytes as there is room for where \<open>get_buffer\<close> says; \<open>process_msg\<close>
  is given every message and accepts it.
\<close>

fun in_loop ::
    "nat \<Rightarrow> 'k step \<Rightarrow> bool \<Rightarrow> byte list \<Rightarrow> 'k decoder \<Rightarrow> wire_msg list \<Rightarrow> (decoded \<times> wire_msg list \<times> 'k decoder) outcome" where
  "in_loop 0 step direct data d ms = Inl Waits"
| "in_loop (Suc fuel) step direct data d ms =
     (if data = [] then Inr (More_needed, ms, d)
      else and_then (decode step direct data d) (\<lambda>(rc, rest, d').
        if rc \<noteq> Message_decoded then Inr (rc, ms, d')
        else in_loop fuel step False rest d' (ms @ [dc_in_progress d'])))"

definition in_event :: "'k step \<Rightarrow> nat \<Rightarrow> byte list \<Rightarrow> 'k decoder \<Rightarrow> (byte list \<times> decoded \<times> wire_msg list \<times> 'k decoder) outcome" where
  "in_event step available stream d =
     (let (direct, room) = get_buffer d; data = take (min available room) stream
      in and_then (in_loop (Suc (length data)) step direct data d []) (\<lambda>(rc, ms, d').
           Inr (drop (length data) stream, rc, ms, d')))"


text \<open>\<open>in_event\<close> each time the poller reports bytes, until the decoder refuses what it reads.\<close>

fun in_events ::
    "'k step \<Rightarrow> nat list \<Rightarrow> byte list \<Rightarrow> 'k decoder \<Rightarrow> wire_msg list \<Rightarrow> (byte list \<times> decoded \<times> wire_msg list \<times> 'k decoder) outcome" where
  "in_events step [] stream d ms = Inr (stream, More_needed, ms, d)"
| "in_events step (n # ns) stream d ms =
     and_then (in_event step n stream d) (\<lambda>(rest, rc, ms', d').
       case rc of
         Not_decoded e \<Rightarrow> Inr (rest, rc, ms @ ms', d')
       | _ \<Rightarrow> in_events step ns rest d' (ms @ ms'))"

text \<open>\<open>out_event\<close> each time the connection takes bytes.\<close>

fun out_events ::
    "nat \<Rightarrow> (wire_msg \<Rightarrow> byte list) \<Rightarrow> wire_msg list \<Rightarrow> frame_encoder \<Rightarrow> (byte list \<times> wire_msg list \<times> frame_encoder) outcome" where
  "out_events 0 header ms e = Inr ([], ms, e)"
| "out_events (Suc n) header ms e =
     and_then (out_batch header ms e) (\<lambda>(bs, ms1, e1).
     and_then (out_events n header ms1 e1) (\<lambda>(bs', ms2, e2). Inr (bs @ bs', ms2, e2)))"

end
