(* ===== verification/Zmq_Framing_Decode.thy ===== *)
theory Zmq_Framing_Decode
  imports Zmq_Framing
begin

section \<open>Decoding in pieces\<close>

text \<open>
  The interface of a framing: what each step of a decoder does when the field it waited for is
  complete. From it follows, for any way the bytes of whole frames arrive in pieces, that exactly
  the messages of those frames are delivered. Both framings interpret it.
\<close>

subsection \<open>Integers on the wire\<close>

lemma length_put_uint64 [simp]: "length (put_uint64 v) = 8"
  by (simp add: put_uint64_def)

lemma get_put_byte:
  fixes v :: "64 word"
  shows "or (push_bit k (ucast (ucast (drop_bit k v) :: byte))) (take_bit k v) = take_bit (k + 8) v"
proof (rule bit_word_eqI)
  fix n assume "n < LENGTH(64)"
  then show "bit (or (push_bit k (ucast (ucast (drop_bit k v) :: byte))) (take_bit k v)) n = bit (take_bit (k + 8) v) n"
    by (cases "n < k") (auto simp: bit_simps)
qed

lemma get_put_uint64 [simp]: "get_uint64 (put_uint64 v) = v"
proof -
  have "take_bit 0 v = 0" "take_bit 64 v = v" by (simp_all add: take_bit_word_eq_self)
  then show ?thesis
    using get_put_byte [of 0 v] get_put_byte [of 8 v] get_put_byte [of 16 v] get_put_byte [of 24 v]
      get_put_byte [of 32 v] get_put_byte [of 40 v] get_put_byte [of 48 v] get_put_byte [of 56 v]
    by (simp only: get_uint64_def put_uint64_def list.map zip.simps zip_Cons_Cons case_prod_conv foldr.simps
        o_apply id_apply add_0 numeral_plus_numeral semiring_norm num.simps) simp
qed

subsection \<open>A field that is being read\<close>

definition contents :: "wire_msg \<Rightarrow> bool \<times> bool \<times> byte list" where
  "contents m = (wm_more m, wm_command m, wm_data m)"

definition buffer_at :: "place \<Rightarrow> 'k decoder \<Rightarrow> byte list" where
  "buffer_at p d = (case p of Null \<Rightarrow> [] | Tmpbuf _ \<Rightarrow> dc_tmpbuf d | Message _ \<Rightarrow> wm_memory (dc_in_progress d))"

definition offset :: "place \<Rightarrow> nat" where
  "offset p = (case p of Null \<Rightarrow> 0 | Tmpbuf n \<Rightarrow> n | Message n \<Rightarrow> n)"

definition reading :: "'k decoder \<Rightarrow> byte list \<Rightarrow> nat \<Rightarrow> bool" where
  "reading d field off \<longleftrightarrow> dc_read_pos d \<noteq> Null \<and> offset (dc_read_pos d) = off \<and> off \<le> length field
     \<and> dc_to_read d = length field - off
     \<and> length field \<le> length (buffer_at (dc_read_pos d) d) \<and> take off (buffer_at (dc_read_pos d) d) = take off field"

text \<open>What storing bytes keeps.\<close>

definition same_control :: "'k decoder \<Rightarrow> 'k decoder \<Rightarrow> bool" where
  "same_control d d' \<longleftrightarrow> dc_next d' = dc_next d \<and> dc_bufsize d' = dc_bufsize d \<and> dc_msg_flags d' = dc_msg_flags d
     \<and> dc_maxmsgsize d' = dc_maxmsgsize d \<and> length (dc_tmpbuf d') = length (dc_tmpbuf d)
     \<and> (dc_read_pos d = Tmpbuf (offset (dc_read_pos d)) \<longleftrightarrow> dc_read_pos d' = Tmpbuf (offset (dc_read_pos d')))
     \<and> (dc_read_pos d = Message (offset (dc_read_pos d)) \<longleftrightarrow> dc_read_pos d' = Message (offset (dc_read_pos d')))
     \<and> wm_more (dc_in_progress d') = wm_more (dc_in_progress d) \<and> wm_command (dc_in_progress d') = wm_command (dc_in_progress d)
     \<and> wm_size (dc_in_progress d') = wm_size (dc_in_progress d)
     \<and> length (wm_memory (dc_in_progress d')) = length (wm_memory (dc_in_progress d))"

lemma store_reads:
  assumes "reading d field off" "bs = take k (drop off field)" "off + k \<le> length field"
  shows "\<exists>d'. store bs d = Inr d' \<and> reading d' field (off + k) \<and> same_control d d'"
proof -
  have l: "length bs = k" using assms(2,3) by simp
  have w: "buf_write off bs b = Inr (take off b @ bs @ drop (off + k) b)
      \<and> take (off + k) (take off b @ bs @ drop (off + k) b) = take (off + k) field" (is "?w \<and> _")
    if "length field \<le> length b" "take off b = take off field" for b
  proof -
    have "take (off + k) field = take off field @ bs" unfolding assms(2) by (simp add: take_add)
    then show ?thesis using that l assms(3) by simp
  qed
  show ?thesis
  proof (cases "dc_read_pos d")
    case Null
    then show ?thesis using assms(1) by (simp add: reading_def)
  next
    case (Tmpbuf n)
    then have "n = off" "length field \<le> length (dc_tmpbuf d)" "take off (dc_tmpbuf d) = take off field"
      using assms(1) by (simp_all add: reading_def offset_def buffer_at_def)
    then show ?thesis using w [of "dc_tmpbuf d"] Tmpbuf assms(1,3) l
      by (auto simp: store_def reading_def same_control_def offset_def buffer_at_def)
  next
    case (Message n)
    then have "n = off" "length field \<le> length (wm_memory (dc_in_progress d))" "take off (wm_memory (dc_in_progress d)) = take off field"
      using assms(1) by (simp_all add: reading_def offset_def buffer_at_def)
    then show ?thesis using w [of "wm_memory (dc_in_progress d)"] Message assms(1,3) l
      by (auto simp: store_def reading_def same_control_def offset_def buffer_at_def)
  qed
qed

lemma same_control_trans: "same_control a b \<Longrightarrow> same_control b c \<Longrightarrow> same_control a c"
  by (simp add: same_control_def)


subsection \<open>The interface of a framing\<close>

locale framing =
  fixes step :: "'k step"
    and rank :: "'k \<Rightarrow> nat"
    and frame :: "wire_msg \<Rightarrow> byte list"
    and sendable :: "wire_msg \<Rightarrow> bool"
    and idle :: "'k decoder \<Rightarrow> bool"
    and plan :: "'k decoder \<Rightarrow> byte list \<Rightarrow> byte list \<Rightarrow> wire_msg list \<Rightarrow> bool"
  assumes rank_bound: "0 < rank k \<and> rank k \<le> steps_fuel"
    and plan_same: "same_control d d' \<Longrightarrow> plan d field rest ms \<Longrightarrow> plan d' field rest ms"
    and idle_reads: "idle d \<Longrightarrow> dc_to_read d = 1"
    and idle_plan: "idle d \<Longrightarrow> sendable m \<Longrightarrow> \<forall>m \<in> set ms. sendable m \<Longrightarrow>
      \<exists>field rest. frame m @ concat (map frame ms) = field @ rest \<and> reading d field 0 \<and> plan d field rest (m # ms)"
    and plan_step: "plan d field rest ms \<Longrightarrow> reading d field (length field) \<Longrightarrow>
      \<exists>rc d'. step d = Inr (rc, d') \<and> dc_bufsize d' = dc_bufsize d
        \<and> (rc = More_needed \<and> rank (dc_next d') < rank (dc_next d)
             \<and> (\<exists>field' rest'. rest = field' @ rest' \<and> reading d' field' 0 \<and> plan d' field' rest' ms)
           \<or> rc = Message_decoded \<and> idle d'
             \<and> (\<exists>m ms'. ms = m # ms' \<and> contents (dc_in_progress d') = contents m \<and> (\<forall>m \<in> set ms'. sendable m)
                  \<and> rest = concat (map frame ms')))"
begin

text \<open>The bytes \<open>bs\<close> are what is left of the frames of \<open>ms\<close>.\<close>

definition expects :: "'k decoder \<Rightarrow> byte list \<Rightarrow> wire_msg list \<Rightarrow> bool" where
  "expects d bs ms \<longleftrightarrow>
     idle d \<and> bs = concat (map frame ms) \<and> (\<forall>m \<in> set ms. sendable m)
   \<or> (\<exists>field off rest. off < length field \<and> reading d field off \<and> plan d field rest ms \<and> bs = drop off field @ rest)"

definition decoded_to :: "decoded \<Rightarrow> 'k decoder \<Rightarrow> byte list \<Rightarrow> wire_msg list \<Rightarrow> bool" where
  "decoded_to rc d bs ms \<longleftrightarrow>
     rc = More_needed \<and> expects d bs ms
   \<or> rc = Message_decoded \<and> (\<exists>m ms'. ms = m # ms' \<and> contents (dc_in_progress d) = contents m \<and> expects d bs ms')"

lemma steps_from_complete:
  "plan d field rest ms \<Longrightarrow> reading d field (length field) \<Longrightarrow> rank (dc_next d) \<le> fuel \<Longrightarrow>
   \<exists>rc d'. run_steps fuel step d = Inr (rc, d') \<and> dc_bufsize d' = dc_bufsize d \<and> decoded_to rc d' rest ms"
proof (induction fuel arbitrary: d field rest)
  case 0
  then show ?case using rank_bound [of "dc_next d"] by simp
next
  case (Suc fuel)
  have z: "dc_to_read d = 0" using Suc.prems(2) by (simp add: reading_def)
  obtain rc d' where s: "step d = Inr (rc, d')" "dc_bufsize d' = dc_bufsize d"
    and o: "(rc = More_needed \<and> rank (dc_next d') < rank (dc_next d)
             \<and> (\<exists>field' rest'. rest = field' @ rest' \<and> reading d' field' 0 \<and> plan d' field' rest' ms)
           \<or> rc = Message_decoded \<and> idle d'
             \<and> (\<exists>m ms'. ms = m # ms' \<and> contents (dc_in_progress d') = contents m \<and> (\<forall>m \<in> set ms'. sendable m)
                  \<and> rest = concat (map frame ms')))"
    using plan_step [OF Suc.prems(1,2)] by blast
  show ?case
  proof (cases "rc = More_needed")
    case True
    then obtain field' rest' where f: "rest = field' @ rest'" "reading d' field' 0" "plan d' field' rest' ms" "rank (dc_next d') < rank (dc_next d)"
      using o by auto
    then have r: "rank (dc_next d') \<le> fuel" using Suc.prems(3) by simp
    have run: "run_steps (Suc fuel) step d = run_steps fuel step d'" using z s(1) True by simp
    show ?thesis
    proof (cases "field' = []")
      case True
      then have "reading d' field' (length field')" using f(2) by simp
      from Suc.IH [OF f(3) this r] show ?thesis using run s(2) f(1) True by auto
    next
      case False
      have "0 < fuel" using r rank_bound [of "dc_next d'"] by simp
      then obtain k where "fuel = Suc k" by (cases fuel) auto
      moreover have "dc_to_read d' \<noteq> 0" using f(2) False by (simp add: reading_def)
      ultimately have "run_steps fuel step d' = Inr (More_needed, d')" by simp
      moreover have "expects d' rest ms" unfolding expects_def
        using f False by (intro disjI2 exI [of _ field'] exI [of _ 0] exI [of _ rest']) simp
      ultimately show ?thesis using run s(2) by (auto simp: decoded_to_def)
    qed
  next
    case False
    then obtain m ms' where m: "rc = Message_decoded" "idle d'" "ms = m # ms'" "contents (dc_in_progress d') = contents m"
        "\<forall>m \<in> set ms'. sendable m" "rest = concat (map frame ms')"
      using o by auto
    have "run_steps (Suc fuel) step d = Inr (rc, d')" using z s(1) False by simp
    moreover have "expects d' rest ms'" using m by (simp add: expects_def)
    ultimately show ?thesis using m s(2) by (auto simp: decoded_to_def)
  qed
qed

text \<open>An idle decoder with bytes to come reads a field as well.\<close>

lemma expects_field:
  assumes "expects d bs ms" "bs \<noteq> []"
  shows "\<exists>field off rest. off < length field \<and> reading d field off \<and> plan d field rest ms \<and> bs = drop off field @ rest"
proof (cases "idle d \<and> bs = concat (map frame ms) \<and> (\<forall>m \<in> set ms. sendable m)")
  case True
  then obtain m ms' where m: "ms = m # ms'" using assms(2) by (cases ms) auto
  then obtain field rest where f: "bs = field @ rest" "reading d field 0" "plan d field rest ms"
    using idle_plan [of d m ms'] True by auto
  have "dc_to_read d = 1" using idle_reads True by blast
  then have "0 < length field" using f(2) by (auto simp: reading_def)
  then show ?thesis using f by (intro exI [of _ field] exI [of _ 0] exI [of _ rest]) simp
next
  case False
  then show ?thesis using assms(1) by (auto simp: expects_def)
qed

lemma expects_reads: "expects d bs ms \<Longrightarrow> 0 < dc_to_read d"
  by (auto simp: expects_def reading_def idle_reads)

text \<open>One copy and the steps after it.\<close>

lemma copy_then_steps:
  assumes "expects d (bs @ later) ms" "bs \<noteq> []" "length bs \<le> dc_to_read d"
  shows "\<exists>d1 rc d2. store bs d = Inr d1 \<and> run_steps steps_fuel step d1 = Inr (rc, d2) \<and> dc_bufsize d2 = dc_bufsize d
     \<and> decoded_to rc d2 later ms"
proof -
  obtain field off rest where f: "off < length field" "reading d field off" "plan d field rest ms" "bs @ later = drop off field @ rest"
    using expects_field [OF assms(1)] assms(2) by auto
  let ?k = "length bs"
  have k: "off + ?k \<le> length field" using assms(3) f(1,2) by (simp add: reading_def)
  have "take ?k (bs @ later) = take ?k (drop off field @ rest)" using f(4) by simp
  then have bs: "bs = take ?k (drop off field)" using k by simp
  have "drop ?k (bs @ later) = drop ?k (drop off field @ rest)" using f(4) by simp
  then have later: "later = drop (off + ?k) field @ rest" using k by (simp add: add.commute)
  obtain d1 where d1: "store bs d = Inr d1" "reading d1 field (off + ?k)" "same_control d d1"
    using store_reads [OF f(2) bs k] by blast
  have p: "plan d1 field rest ms" by (rule plan_same [OF d1(3) f(3)])
  have b: "dc_bufsize d1 = dc_bufsize d" using d1(3) by (simp add: same_control_def)
  show ?thesis
  proof (cases "off + ?k = length field")
    case True
    then have "reading d1 field (length field)" using d1(2) by simp
    from steps_from_complete [OF p this, of steps_fuel] rank_bound b show ?thesis using d1(1) later True by auto
  next
    case False
    then have l: "off + ?k < length field" using k by simp
    then have "dc_to_read d1 \<noteq> 0" using d1(2) by (simp add: reading_def)
    then have "run_steps steps_fuel step d1 = Inr (More_needed, d1)" by (simp add: steps_fuel_def eval_nat_numeral)
    moreover have "expects d1 later ms" unfolding expects_def
      using d1(2) p l later by (intro disjI2 exI [of _ field] exI [of _ "off + ?k"] exI [of _ rest]) simp
    ultimately show ?thesis using d1(1) b by (auto simp: decoded_to_def)
  qed
qed

lemma decode_loop_expects:
  "length data < fuel \<Longrightarrow> expects d (data @ later) ms \<Longrightarrow>
   \<exists>rc rest d'. decode_loop fuel step data d = Inr (rc, rest, d') \<and> dc_bufsize d' = dc_bufsize d
     \<and> decoded_to rc d' (rest @ later) ms \<and> (rc = More_needed \<longrightarrow> rest = []) \<and> (data \<noteq> [] \<longrightarrow> length rest < length data)"
proof (induction fuel arbitrary: data d)
  case (Suc fuel)
  show ?case
  proof (cases "data = []")
    case True
    then show ?thesis using Suc.prems(2) by (simp add: decoded_to_def)
  next
    case False
    let ?k = "min (dc_to_read d) (length data)"
    have k: "0 < ?k" using expects_reads [OF Suc.prems(2)] False by simp
    let ?bs = "take ?k data" and ?rest = "drop ?k data"
    have "expects d (?bs @ ?rest @ later) ms" using Suc.prems(2) by (metis append.assoc append_take_drop_id)
    moreover have "?bs \<noteq> []" "length ?bs \<le> dc_to_read d" using k False by auto
    ultimately obtain d1 rc d2 where r: "store ?bs d = Inr d1" "run_steps steps_fuel step d1 = Inr (rc, d2)"
        "dc_bufsize d2 = dc_bufsize d" "decoded_to rc d2 (?rest @ later) ms"
      using copy_then_steps by blast
    have less: "length ?rest < length data" using k False by simp
    show ?thesis
    proof (cases "rc = More_needed")
      case True
      have run: "decode_loop (Suc fuel) step data d = decode_loop fuel step ?rest d2"
        using False r(1,2) True by (simp add: Let_def)
      have e: "expects d2 (?rest @ later) ms" using r(4) True by (simp add: decoded_to_def)
      have "length ?rest < fuel" using less Suc.prems(1) by linarith
      from Suc.IH [OF this e] obtain rc' rest' d' where i: "decode_loop fuel step ?rest d2 = Inr (rc', rest', d')"
          "dc_bufsize d' = dc_bufsize d2" "decoded_to rc' d' (rest' @ later) ms" "rc' = More_needed \<longrightarrow> rest' = []"
          "?rest \<noteq> [] \<longrightarrow> length rest' < length ?rest" by (elim exE conjE) blast
      have "length rest' < length data"
      proof (cases "?rest = []")
        case True
        then have "rc' = More_needed" using i(1) by (cases fuel) auto
        then show ?thesis using i(4) False by simp
      next
        case False
        then show ?thesis using i(5) less by linarith
      qed
      then show ?thesis using run i(1-4) r(3) by auto
    next
      case no: False
      then have "decode_loop (Suc fuel) step data d = Inr (rc, ?rest, d2)" using False r(1,2) by (simp add: Let_def)
      then show ?thesis using r(3,4) no less by auto
    qed
  qed
qed simp

lemma decode_expects:
  assumes "expects d (data @ later) ms" "data \<noteq> []" "direct \<longrightarrow> length data \<le> dc_to_read d"
  shows "\<exists>rc rest d'. decode step direct data d = Inr (rc, rest, d') \<and> dc_bufsize d' = dc_bufsize d
     \<and> decoded_to rc d' (rest @ later) ms \<and> (rc = More_needed \<longrightarrow> rest = []) \<and> length rest < length data"
proof (cases direct)
  case True
  then have l: "length data \<le> dc_to_read d" using assms(3) by simp
  obtain d1 rc d2 where "store data d = Inr d1" "run_steps steps_fuel step d1 = Inr (rc, d2)"
      "dc_bufsize d2 = dc_bufsize d" "decoded_to rc d2 later ms"
    using copy_then_steps [OF assms(1,2) l] by blast
  then show ?thesis using True l assms(2) by (simp add: decode_def)
next
  case False
  then show ?thesis
    using decode_loop_expects [of data "Suc (length data)", OF _ assms(1)] assms(2)
    by (simp add: decode_def del: decode_loop.simps)
qed

lemma in_loop_expects:
  "length data < fuel \<Longrightarrow> expects d (data @ later) ms \<Longrightarrow> direct \<longrightarrow> length data \<le> dc_to_read d \<Longrightarrow>
   \<exists>got ms1 d' ms2. in_loop fuel step direct data d acc = Inr (More_needed, acc @ got, d') \<and> dc_bufsize d' = dc_bufsize d
     \<and> expects d' later ms2 \<and> ms = ms1 @ ms2 \<and> map contents got = map contents ms1"
proof (induction fuel arbitrary: data d direct acc ms)
  case (Suc fuel)
  show ?case
  proof (cases "data = []")
    case True
    then show ?thesis using Suc.prems(2)
      by (intro exI [of _ "[]"] exI [of _ d] exI [of _ ms]) simp
  next
    case False
    obtain rc rest d1 where r: "decode step direct data d = Inr (rc, rest, d1)" "dc_bufsize d1 = dc_bufsize d"
        "decoded_to rc d1 (rest @ later) ms" "rc = More_needed \<longrightarrow> rest = []" "length rest < length data"
      using decode_expects [OF Suc.prems(2) False Suc.prems(3)] by blast
    show ?thesis
    proof (cases "rc = More_needed")
      case True
      then have "in_loop (Suc fuel) step direct data d acc = Inr (More_needed, acc @ [], d1)" using False r(1) by simp
      moreover have "expects d1 later ms" using r(3,4) True by (simp add: decoded_to_def)
      ultimately show ?thesis using r(2) by (intro exI [of _ "[]"] exI [of _ d1] exI [of _ ms]) simp
    next
      case no: False
      then obtain m ms' where m: "rc = Message_decoded" "ms = m # ms'" "contents (dc_in_progress d1) = contents m"
          "expects d1 (rest @ later) ms'" using r(3) by (auto simp: decoded_to_def)
      have run: "in_loop (Suc fuel) step direct data d acc = in_loop fuel step False rest d1 (acc @ [dc_in_progress d1])"
        using False r(1) m(1) by simp
      have "length rest < fuel" using r(5) Suc.prems(1) by linarith
      from Suc.IH [OF this m(4), of False "acc @ [dc_in_progress d1]"] obtain got ms1 d' ms2 where
        i: "in_loop fuel step False rest d1 (acc @ [dc_in_progress d1]) = Inr (More_needed, (acc @ [dc_in_progress d1]) @ got, d')"
          "dc_bufsize d' = dc_bufsize d1" "expects d' later ms2" "ms' = ms1 @ ms2" "map contents got = map contents ms1" by auto
      then show ?thesis using run m(2,3) r(2)
        by (intro exI [of _ "dc_in_progress d1 # got"] exI [of _ "m # ms1"] exI [of _ d'] exI [of _ ms2]) simp
    qed
  qed
qed simp

lemma in_events_expects:
  "expects d stream ms \<Longrightarrow> 0 < dc_bufsize d \<Longrightarrow> \<forall>n \<in> set reads. 0 < n \<Longrightarrow> length stream \<le> length reads \<Longrightarrow>
   \<exists>got d'. in_events step reads stream d acc = Inr ([], More_needed, acc @ got, d') \<and> expects d' [] (drop (length got) ms)
     \<and> map contents got = map contents (take (length got) ms)"
proof (induction reads arbitrary: stream d acc ms)
  case Nil
  then show ?case by (intro exI [of _ "[]"] exI [of _ d]) simp
next
  case (Cons n reads)
  obtain direct room where g: "get_buffer d = (direct, room)" by (cases "get_buffer d")
  have room: "0 < room" "direct \<longrightarrow> room = dc_to_read d"
    using g expects_reads [OF Cons.prems(1)] Cons.prems(2) by (auto simp: get_buffer_def split: if_splits)
  let ?data = "take (min n room) stream"
  let ?rest = "drop (length ?data) stream"
  have split: "?data @ ?rest = stream" by (metis append_take_drop_id append_eq_conv_conj)
  then have e: "expects d (?data @ ?rest) ms" using Cons.prems(1) by simp
  have "direct \<longrightarrow> length ?data \<le> dc_to_read d" using room(2) by auto
  from in_loop_expects [where acc="[]", OF lessI e this] obtain got ms1 d1 ms2 where
    l: "in_loop (Suc (length ?data)) step direct ?data d [] = Inr (More_needed, got, d1)" "dc_bufsize d1 = dc_bufsize d"
      "expects d1 ?rest ms2" "ms = ms1 @ ms2" "map contents got = map contents ms1" by auto
  have run: "in_events step (n # reads) stream d acc = in_events step reads ?rest d1 (acc @ got)"
    using g l(1) by (simp add: in_event_def del: in_loop.simps)
  have "length ?rest \<le> length reads"
  proof (cases "stream = []")
    case False
    then have "0 < length ?data" using room(1) Cons.prems(3) by simp
    then have "length ?rest < length stream" using False by (simp only: length_drop) (metis diff_less length_greater_0_conv)
    then show ?thesis using Cons.prems(4) by simp
  qed simp
  from Cons.IH [OF l(3) _ _ this, of "acc @ got"] l(2) Cons.prems(2,3) obtain got' d' where
    i: "in_events step reads ?rest d1 (acc @ got) = Inr ([], More_needed, (acc @ got) @ got', d')" "expects d' [] (drop (length got') ms2)"
      "map contents got' = map contents (take (length got') ms2)" by auto
  have len: "length got = length ms1" using l(5) by (metis length_map)
  show ?case
    using run i l(4,5) len by (intro exI [of _ "got @ got'"] exI [of _ d']) simp
qed

lemma expects_nothing:
  assumes "expects d [] ms" "\<And>m. sendable m \<Longrightarrow> frame m \<noteq> []"
  shows "ms = []"
  using assms by (cases ms) (auto simp: expects_def)

end

end
