(* ===== verification/Zmq_Frames.thy ===== *)
theory Zmq_Frames
  imports Zmq_Framing_Decode
begin

section \<open>The two framings\<close>

text \<open>
  ZMTP/1.0 and ZMTP/2.0 as instances of the interface \<open>framing\<close>: which bytes each field of a frame has, and
  what the decoder does with them. Messages fit in memory and are not longer than the limit of the receiver.
\<close>

definition frame_of :: "(wire_msg \<Rightarrow> byte list) \<Rightarrow> wire_msg \<Rightarrow> byte list" where
  "frame_of header m = header m @ wm_data m"

definition sendable :: "(nat \<Rightarrow> byte list option) \<Rightarrow> int \<Rightarrow> wire_msg \<Rightarrow> bool" where
  "sendable malloc limit m \<longleftrightarrow>
     wm_size m \<le> length (wm_memory m) \<and> content_size + wm_size m < 2 ^ 64 \<and> (0 \<le> limit \<longrightarrow> int (wm_size m) \<le> limit)
   \<and> (max_vsm_size < wm_size m \<longrightarrow>
        (\<exists>block. malloc (content_size + wm_size m) = Some block \<and> length block = content_size + wm_size m))"

lemma init_size_sendable:
  assumes "sendable malloc limit m"
  shows "\<exists>x. init_size malloc (wm_size m) = Inr (Some x) \<and> \<not> wm_more x \<and> \<not> wm_command x \<and> wm_size x = wm_size m
     \<and> wm_size m \<le> length (wm_memory x)"
proof (cases "wm_size m \<le> max_vsm_size")
  case False
  then obtain block where "malloc (content_size + wm_size m) = Some block" "length block = content_size + wm_size m"
    using assms by (auto simp: sendable_def)
  moreover have "(content_size + wm_size m) mod 2 ^ 64 = content_size + wm_size m" using assms by (simp add: sendable_def)
  ultimately show ?thesis using False by (simp add: init_size_def)
qed (simp add: init_size_def)

lemma length_wm_data: "sendable malloc limit m \<Longrightarrow> length (wm_data m) = wm_size m"
  by (simp add: sendable_def wm_data_def)

abbreviation "in_tmpbuf d \<equiv> dc_read_pos d = Tmpbuf (offset (dc_read_pos d))"
abbreviation "in_message d \<equiv> dc_read_pos d = Message (offset (dc_read_pos d))"

lemma reading_complete:
  assumes "reading d field (length field)"
  shows "in_tmpbuf d \<Longrightarrow> take (length field) (dc_tmpbuf d) = field"
    "in_message d \<Longrightarrow> take (length field) (wm_memory (dc_in_progress d)) = field"
  using assms by (auto simp: reading_def buffer_at_def split: place.splits)

lemma reading_byte:
  assumes "reading d [b] 1" "in_tmpbuf d"
  shows "dc_tmpbuf d ! 0 = b"
proof -
  have "take 1 (dc_tmpbuf d) = [b]" using reading_complete(1) [of d "[b]"] assms by simp
  then show ?thesis by (cases "dc_tmpbuf d") auto
qed

lemma reading_next [simp]:
  "reading (next_step (Tmpbuf 0) n k d) field 0 \<longleftrightarrow> n = length field \<and> n \<le> length (dc_tmpbuf d)"
  "reading (next_step (Message 0) n k d) field 0 \<longleftrightarrow> n = length field \<and> n \<le> length (wm_memory (dc_in_progress d))"
  by (auto simp: reading_def next_step_def offset_def buffer_at_def)

lemma next_step_simps [simp]:
  "dc_next (next_step p n k d) = k" "dc_read_pos (next_step p n k d) = p" "dc_to_read (next_step p n k d) = n"
  "dc_bufsize (next_step p n k d) = dc_bufsize d" "dc_tmpbuf (next_step p n k d) = dc_tmpbuf d"
  "dc_in_progress (next_step p n k d) = dc_in_progress d" "dc_msg_flags (next_step p n k d) = dc_msg_flags d"
  "dc_maxmsgsize (next_step p n k d) = dc_maxmsgsize d"
  by (simp_all add: next_step_def)

lemma offset_simps [simp]: "offset (Tmpbuf n) = n" "offset (Message n) = n"
  by (simp_all add: offset_def)

lemma get_uint64_take:
  assumes "take 8 b = put_uint64 v"
  shows "get_uint64 b = v"
proof -
  have "get_uint64 (put_uint64 v @ drop 8 b) = get_uint64 (put_uint64 v)" by (simp add: get_uint64_def put_uint64_def)
  then show ?thesis using assms by (metis append_take_drop_id get_put_uint64)
qed


subsection \<open>ZMTP/2.0\<close>

definition v2_idle :: "int \<Rightarrow> v2_step decoder \<Rightarrow> bool" where
  "v2_idle limit d \<longleftrightarrow> dc_next d = V2_flags_ready \<and> dc_read_pos d = Tmpbuf 0 \<and> dc_to_read d = 1 \<and> length (dc_tmpbuf d) = 8
     \<and> dc_maxmsgsize d = limit"

definition v2_flags :: "wire_msg \<Rightarrow> byte" where
  "v2_flags m = hd (v2_header m)"

definition v2_size_field :: "wire_msg \<Rightarrow> byte list" where
  "v2_size_field m = tl (v2_header m)"

definition v2_plan ::
    "(nat \<Rightarrow> byte list option) \<Rightarrow> int \<Rightarrow> v2_step decoder \<Rightarrow> byte list \<Rightarrow> byte list \<Rightarrow> wire_msg list \<Rightarrow> bool" where
  "v2_plan malloc limit d field rest ms \<longleftrightarrow>
     length (dc_tmpbuf d) = 8 \<and> dc_maxmsgsize d = limit
   \<and> (\<exists>m ms'. ms = m # ms' \<and> (\<forall>m \<in> set ms. sendable malloc limit m)
      \<and> (let later = concat (map (frame_of v2_header) ms'); flags = (wm_more m, wm_command m)
         in case dc_next d of
              V2_flags_ready \<Rightarrow> in_tmpbuf d \<and> field = [v2_flags m] \<and> rest = v2_size_field m @ wm_data m @ later
            | V2_one_byte_size_ready \<Rightarrow>
                in_tmpbuf d \<and> dc_msg_flags d = flags \<and> wm_size m \<le> 255 \<and> field = v2_size_field m \<and> rest = wm_data m @ later
            | V2_eight_byte_size_ready \<Rightarrow>
                in_tmpbuf d \<and> dc_msg_flags d = flags \<and> 255 < wm_size m \<and> field = v2_size_field m \<and> rest = wm_data m @ later
            | V2_message_ready \<Rightarrow>
                in_message d \<and> (wm_more (dc_in_progress d), wm_command (dc_in_progress d)) = flags
              \<and> wm_size (dc_in_progress d) = wm_size m \<and> wm_size m \<le> length (wm_memory (dc_in_progress d))
              \<and> field = wm_data m \<and> rest = later))"

fun v2_rank :: "v2_step \<Rightarrow> nat" where
  "v2_rank V2_flags_ready = 3"
| "v2_rank V2_one_byte_size_ready = 2"
| "v2_rank V2_eight_byte_size_ready = 2"
| "v2_rank V2_message_ready = 1"

lemma v2_flags_bits:
  "and (v2_flags m) more_flag \<noteq> 0 \<longleftrightarrow> wm_more m" "and (v2_flags m) command_flag \<noteq> 0 \<longleftrightarrow> wm_command m"
  "and (v2_flags m) large_flag \<noteq> 0 \<longleftrightarrow> 255 < wm_size m"
  by (cases "wm_more m"; cases "wm_command m"; cases "255 < wm_size m";
      simp add: v2_flags_def v2_header_def more_flag_def command_flag_def large_flag_def Let_def)+

lemma v2_header_parts: "v2_header m = v2_flags m # v2_size_field m"
  "v2_size_field m = (if 255 < wm_size m then put_uint64 (of_nat (wm_size m)) else [of_nat (wm_size m)])"
  by (simp_all add: v2_flags_def v2_size_field_def v2_header_def Let_def)

lemma v2_size_step:
  assumes "sendable malloc limit m" "dc_maxmsgsize d = limit" "dc_msg_flags d = (wm_more m, wm_command m)"
    "length (dc_tmpbuf d) = 8" "\<forall>m \<in> set ms. sendable malloc limit m"
  shows "\<exists>d'. v2_size malloc (wm_size m) d = Inr (More_needed, d') \<and> dc_bufsize d' = dc_bufsize d \<and> dc_next d' = V2_message_ready
     \<and> reading d' (wm_data m) 0 \<and> v2_plan malloc limit d' (wm_data m) (concat (map (frame_of v2_header) ms)) (m # ms)"
proof -
  obtain x where x: "init_size malloc (wm_size m) = Inr (Some x)" "wm_size x = wm_size m" "wm_size m \<le> length (wm_memory x)"
    using init_size_sendable [OF assms(1)] by blast
  have "\<not> (0 \<le> limit \<and> limit < int (wm_size m))" using assms(1) by (auto simp: sendable_def)
  then have "v2_size malloc (wm_size m) d = Inr (More_needed, v2_body x d)"
    using x(1) assms(2) by (simp add: v2_size_def begin_message_def)
  moreover have "reading (v2_body x d) (wm_data m) 0" using x length_wm_data [OF assms(1)] by (simp add: v2_body_def)
  moreover have "v2_plan malloc limit (v2_body x d) (wm_data m) (concat (map (frame_of v2_header) ms)) (m # ms)"
    using assms x by (simp add: v2_plan_def v2_body_def Let_def)
  ultimately show ?thesis by (intro exI [of _ "v2_body x d"]) (simp add: v2_body_def)
qed

lemma unat_of_nat_small: "n < 256 \<Longrightarrow> unat (of_nat n :: byte) = n" "n < 2 ^ 64 \<Longrightarrow> unat (of_nat n :: 64 word) = n"
  by (simp_all add: unat_of_nat take_bit_eq_mod)

lemma unat_size: "wm_size m \<le> 255 \<Longrightarrow> unat (of_nat (wm_size m) :: byte) = wm_size m"
  "sendable malloc limit m \<Longrightarrow> unat (of_nat (wm_size m) :: 64 word) = wm_size m"
  by (simp_all add: unat_of_nat_small sendable_def)

lemma v2_plan_step:
  assumes p: "v2_plan malloc limit d field rest ms" and r: "reading d field (length field)"
  shows "\<exists>rc d'. v2_decoder_step malloc d = Inr (rc, d') \<and> dc_bufsize d' = dc_bufsize d
        \<and> (rc = More_needed \<and> v2_rank (dc_next d') < v2_rank (dc_next d)
             \<and> (\<exists>field' rest'. rest = field' @ rest' \<and> reading d' field' 0 \<and> v2_plan malloc limit d' field' rest' ms)
           \<or> rc = Message_decoded \<and> v2_idle limit d'
             \<and> (\<exists>m ms'. ms = m # ms' \<and> contents (dc_in_progress d') = contents m \<and> (\<forall>m \<in> set ms'. sendable malloc limit m)
                  \<and> rest = concat (map (frame_of v2_header) ms')))"
proof -
  obtain m ms' where m: "ms = m # ms'" "\<forall>m \<in> set ms. sendable malloc limit m" "length (dc_tmpbuf d) = 8" "dc_maxmsgsize d = limit"
    using p by (auto simp: v2_plan_def)
  have s: "sendable malloc limit m" "\<forall>m \<in> set ms'. sendable malloc limit m" using m(1,2) by simp_all
  let ?later = "concat (map (frame_of v2_header) ms')"
  show ?thesis
  proof (cases "dc_next d")
    case V2_flags_ready
    then have f: "in_tmpbuf d" "field = [v2_flags m]" "rest = v2_size_field m @ wm_data m @ ?later"
      using p m(1) by (simp_all add: v2_plan_def Let_def)
    have b: "dc_tmpbuf d ! 0 = v2_flags m" using reading_byte f(1,2) r by simp
    let ?d1 = "d\<lparr>dc_msg_flags := (wm_more m, wm_command m)\<rparr>"
    let ?d = "if 255 < wm_size m then next_step (Tmpbuf 0) 8 V2_eight_byte_size_ready ?d1
              else next_step (Tmpbuf 0) 1 V2_one_byte_size_ready ?d1"
    have "v2_decoder_step malloc d = Inr (More_needed, ?d)"
      unfolding v2_decoder_step_def using V2_flags_ready by (simp add: b v2_flags_bits Let_def)
    moreover have "reading ?d (v2_size_field m) 0" using m(3) by (simp add: v2_header_parts(2))
    moreover have "v2_plan malloc limit ?d (v2_size_field m) (wm_data m @ ?later) ms"
      using m by (simp add: v2_plan_def Let_def)
    moreover have "v2_rank (dc_next ?d) < v2_rank (dc_next d)" "dc_bufsize ?d = dc_bufsize d" using V2_flags_ready by simp_all
    ultimately show ?thesis using f(3) by blast
  next
    case V2_one_byte_size_ready
    then have f: "in_tmpbuf d" "dc_msg_flags d = (wm_more m, wm_command m)" "wm_size m \<le> 255" "field = v2_size_field m"
        "rest = wm_data m @ ?later"
      using p m(1) by (simp_all add: v2_plan_def Let_def)
    have "dc_tmpbuf d ! 0 = of_nat (wm_size m)" using reading_byte f(1,3,4) r by (simp add: v2_header_parts(2))
    then have "v2_decoder_step malloc d = v2_size malloc (wm_size m) d"
      unfolding v2_decoder_step_def using V2_one_byte_size_ready by (simp add: unat_size(1) [OF f(3)])
    then obtain d' where d': "v2_decoder_step malloc d = Inr (More_needed, d')" "dc_bufsize d' = dc_bufsize d"
        "dc_next d' = V2_message_ready" "reading d' (wm_data m) 0" "v2_plan malloc limit d' (wm_data m) ?later ms"
      using v2_size_step [OF s(1) m(4) f(2) m(3) s(2)] m(1) by auto
    then have "v2_rank (dc_next d') < v2_rank (dc_next d)" using V2_one_byte_size_ready by simp
    then show ?thesis using d' f(5) by blast
  next
    case V2_eight_byte_size_ready
    then have f: "in_tmpbuf d" "dc_msg_flags d = (wm_more m, wm_command m)" "255 < wm_size m" "field = v2_size_field m"
        "rest = wm_data m @ ?later"
      using p m(1) by (simp_all add: v2_plan_def Let_def)
    have "take 8 (dc_tmpbuf d) = put_uint64 (of_nat (wm_size m))"
      using reading_complete(1) [OF r f(1)] f(3,4) by (simp add: v2_header_parts(2))
    then have "get_uint64 (dc_tmpbuf d) = of_nat (wm_size m)" by (rule get_uint64_take)
    then have "v2_decoder_step malloc d = v2_size malloc (wm_size m) d"
      unfolding v2_decoder_step_def using V2_eight_byte_size_ready by (simp add: unat_size(2) [OF s(1)])
    then obtain d' where d': "v2_decoder_step malloc d = Inr (More_needed, d')" "dc_bufsize d' = dc_bufsize d"
        "dc_next d' = V2_message_ready" "reading d' (wm_data m) 0" "v2_plan malloc limit d' (wm_data m) ?later ms"
      using v2_size_step [OF s(1) m(4) f(2) m(3) s(2)] m(1) by auto
    then have "v2_rank (dc_next d') < v2_rank (dc_next d)" using V2_eight_byte_size_ready by simp
    then show ?thesis using d' f(5) by blast
  next
    case V2_message_ready
    then have f: "in_message d" "wm_more (dc_in_progress d) = wm_more m" "wm_command (dc_in_progress d) = wm_command m"
        "wm_size (dc_in_progress d) = wm_size m" "field = wm_data m" "rest = ?later"
      using p m(1) by (simp_all add: v2_plan_def Let_def)
    have "wm_data (dc_in_progress d) = wm_data m"
      using reading_complete(2) [OF r f(1)] f(4,5) length_wm_data [OF s(1)] by (simp add: wm_data_def)
    then have "contents (dc_in_progress d) = contents m" using f by (simp add: contents_def)
    moreover have "v2_decoder_step malloc d = Inr (Message_decoded, next_step (Tmpbuf 0) 1 V2_flags_ready d)"
      using V2_message_ready by (simp add: v2_decoder_step_def)
    moreover have "v2_idle limit (next_step (Tmpbuf 0) 1 V2_flags_ready d)" using m(3,4) by (simp add: v2_idle_def)
    ultimately show ?thesis using m(1) s(2) f(6)
      by (intro exI [of _ Message_decoded] exI [of _ "next_step (Tmpbuf 0) 1 V2_flags_ready d"]) simp
  qed
qed

lemma v2_plan_same: "same_control d d' \<Longrightarrow> v2_plan malloc limit d field rest ms \<Longrightarrow> v2_plan malloc limit d' field rest ms"
  unfolding v2_plan_def same_control_def by (cases "dc_next d") (auto simp: Let_def)

interpretation v2: framing "v2_decoder_step malloc" v2_rank "frame_of v2_header" "sendable malloc limit" "v2_idle limit" "v2_plan malloc limit"
  for malloc limit
proof
  fix k show "0 < v2_rank k \<and> v2_rank k \<le> steps_fuel" by (cases k) (simp_all add: steps_fuel_def)
next
  fix d :: "v2_step decoder" assume "v2_idle limit d" then show "dc_to_read d = 1" by (simp add: v2_idle_def)
next
  fix d :: "v2_step decoder" and m ms
  assume "v2_idle limit d" "sendable malloc limit m" "\<forall>m \<in> set ms. sendable malloc limit m"
  then show "\<exists>field rest. frame_of v2_header m @ concat (map (frame_of v2_header) ms) = field @ rest \<and> reading d field 0
      \<and> v2_plan malloc limit d field rest (m # ms)"
    by (intro exI [of _ "[v2_flags m]"] exI [of _ "v2_size_field m @ wm_data m @ concat (map (frame_of v2_header) ms)"])
      (simp add: frame_of_def v2_header_parts(1) v2_idle_def v2_plan_def reading_def buffer_at_def)
qed (rule v2_plan_same v2_plan_step; assumption)+


subsection \<open>ZMTP/1.0\<close>

text \<open>This framing has no command frames.\<close>

definition v1_sendable :: "(nat \<Rightarrow> byte list option) \<Rightarrow> int \<Rightarrow> wire_msg \<Rightarrow> bool" where
  "v1_sendable malloc limit m \<longleftrightarrow> sendable malloc limit m \<and> \<not> wm_command m"

definition v1_idle :: "int \<Rightarrow> v1_step decoder \<Rightarrow> bool" where
  "v1_idle limit d \<longleftrightarrow> dc_next d = V1_one_byte_size_ready \<and> dc_read_pos d = Tmpbuf 0 \<and> dc_to_read d = 1 \<and> length (dc_tmpbuf d) = 8
     \<and> dc_maxmsgsize d = limit"

definition v1_first :: "wire_msg \<Rightarrow> byte" where
  "v1_first m = (if wm_size m + 1 < 255 then of_nat (wm_size m + 1) else 0xff)"

definition v1_long :: "wire_msg \<Rightarrow> byte list" where
  "v1_long m = (if wm_size m + 1 < 255 then [] else put_uint64 (of_nat (wm_size m + 1)))"

definition v1_flag :: "wire_msg \<Rightarrow> byte" where
  "v1_flag m = (if wm_more m then 1 else 0)"

lemma v1_header_parts: "v1_header m = v1_first m # v1_long m @ [v1_flag m]"
  by (simp add: v1_header_def v1_first_def v1_long_def v1_flag_def Let_def)

definition v1_plan ::
    "(nat \<Rightarrow> byte list option) \<Rightarrow> int \<Rightarrow> v1_step decoder \<Rightarrow> byte list \<Rightarrow> byte list \<Rightarrow> wire_msg list \<Rightarrow> bool" where
  "v1_plan malloc limit d field rest ms \<longleftrightarrow>
     length (dc_tmpbuf d) = 8 \<and> dc_maxmsgsize d = limit
   \<and> (\<exists>m ms'. ms = m # ms' \<and> (\<forall>m \<in> set ms. v1_sendable malloc limit m)
      \<and> (let later = concat (map (frame_of v1_header) ms')
         in case dc_next d of
              V1_one_byte_size_ready \<Rightarrow> in_tmpbuf d \<and> field = [v1_first m] \<and> rest = v1_long m @ v1_flag m # wm_data m @ later
            | V1_eight_byte_size_ready \<Rightarrow>
                in_tmpbuf d \<and> 255 \<le> wm_size m + 1 \<and> field = v1_long m \<and> rest = v1_flag m # wm_data m @ later
            | V1_flags_ready \<Rightarrow>
                in_tmpbuf d \<and> \<not> wm_command (dc_in_progress d) \<and> wm_size (dc_in_progress d) = wm_size m
              \<and> wm_size m \<le> length (wm_memory (dc_in_progress d)) \<and> field = [v1_flag m] \<and> rest = wm_data m @ later
            | V1_message_ready \<Rightarrow>
                in_message d \<and> wm_more (dc_in_progress d) = wm_more m \<and> \<not> wm_command (dc_in_progress d)
              \<and> wm_size (dc_in_progress d) = wm_size m \<and> wm_size m \<le> length (wm_memory (dc_in_progress d))
              \<and> field = wm_data m \<and> rest = later))"

fun v1_rank :: "v1_step \<Rightarrow> nat" where
  "v1_rank V1_one_byte_size_ready = 4"
| "v1_rank V1_eight_byte_size_ready = 3"
| "v1_rank V1_flags_ready = 2"
| "v1_rank V1_message_ready = 1"

lemma v1_length: "v1_sendable malloc limit m \<Longrightarrow> length (wm_data m) = wm_size m"
  by (auto simp: v1_sendable_def intro: length_wm_data)

lemma v1_size_step:
  assumes "v1_sendable malloc limit m" "dc_maxmsgsize d = limit" "length (dc_tmpbuf d) = 8" "\<forall>m \<in> set ms. v1_sendable malloc limit m"
  shows "\<exists>d'. v1_size malloc (wm_size m + 1) d = Inr (More_needed, d') \<and> dc_bufsize d' = dc_bufsize d \<and> dc_next d' = V1_flags_ready
     \<and> reading d' [v1_flag m] 0
     \<and> v1_plan malloc limit d' [v1_flag m] (wm_data m @ concat (map (frame_of v1_header) ms)) (m # ms)"
proof -
  have s: "sendable malloc limit m" using assms(1) by (simp add: v1_sendable_def)
  obtain x where x: "init_size malloc (wm_size m) = Inr (Some x)" "wm_size x = wm_size m" "wm_size m \<le> length (wm_memory x)"
      "\<not> wm_command x"
    using init_size_sendable [OF s] by blast
  have "\<not> (0 \<le> limit \<and> limit < int (wm_size m))" using s by (auto simp: sendable_def)
  then have "v1_size malloc (wm_size m + 1) d = Inr (More_needed, v1_flags x d)"
    using x(1) assms(2) by (simp add: v1_size_def begin_message_def)
  moreover have "reading (v1_flags x d) [v1_flag m] 0" using assms(3) by (simp add: v1_flags_def)
  moreover have "v1_plan malloc limit (v1_flags x d) [v1_flag m] (wm_data m @ concat (map (frame_of v1_header) ms)) (m # ms)"
    using assms x by (simp add: v1_plan_def v1_flags_def Let_def)
  ultimately show ?thesis by (intro exI [of _ "v1_flags x d"]) (simp add: v1_flags_def)
qed

lemma v1_first_value:
  assumes "wm_size m + 1 < 255"
  shows "unat (v1_first m) = wm_size m + 1" "v1_first m \<noteq> 0xff"
proof -
  show u: "unat (v1_first m) = wm_size m + 1"
    unfolding v1_first_def if_P [OF assms] by (rule unat_of_nat_small) (use assms in linarith)
  have "unat (0xff :: byte) = 255" by simp
  then show "v1_first m \<noteq> 0xff" using u assms by (metis less_irrefl_nat)
qed

lemma v1_plan_step:
  assumes p: "v1_plan malloc limit d field rest ms" and r: "reading d field (length field)"
  shows "\<exists>rc d'. v1_decoder_step malloc d = Inr (rc, d') \<and> dc_bufsize d' = dc_bufsize d
        \<and> (rc = More_needed \<and> v1_rank (dc_next d') < v1_rank (dc_next d)
             \<and> (\<exists>field' rest'. rest = field' @ rest' \<and> reading d' field' 0 \<and> v1_plan malloc limit d' field' rest' ms)
           \<or> rc = Message_decoded \<and> v1_idle limit d'
             \<and> (\<exists>m ms'. ms = m # ms' \<and> contents (dc_in_progress d') = contents m \<and> (\<forall>m \<in> set ms'. v1_sendable malloc limit m)
                  \<and> rest = concat (map (frame_of v1_header) ms')))"
proof -
  obtain m ms' where m: "ms = m # ms'" "\<forall>m \<in> set ms. v1_sendable malloc limit m" "length (dc_tmpbuf d) = 8" "dc_maxmsgsize d = limit"
    using p by (auto simp: v1_plan_def)
  have s: "v1_sendable malloc limit m" "\<forall>m \<in> set ms'. v1_sendable malloc limit m" using m(1,2) by simp_all
  let ?later = "concat (map (frame_of v1_header) ms')"
  have size: ?thesis if run: "v1_decoder_step malloc d = v1_size malloc (wm_size m + 1) d" and rest: "rest = v1_flag m # wm_data m @ ?later"
    and rank: "v1_rank V1_flags_ready < v1_rank (dc_next d)"
  proof -
    obtain d' where d': "v1_decoder_step malloc d = Inr (More_needed, d')" "dc_bufsize d' = dc_bufsize d"
        "dc_next d' = V1_flags_ready" "reading d' [v1_flag m] 0" "v1_plan malloc limit d' [v1_flag m] (wm_data m @ ?later) ms"
      using v1_size_step [OF s(1) m(4,3) s(2)] m(1) run by auto
    moreover have "rest = [v1_flag m] @ wm_data m @ ?later" using rest by simp
    ultimately show ?thesis using rank by metis
  qed
  show ?thesis
  proof (cases "dc_next d")
    case V1_one_byte_size_ready
    then have f: "in_tmpbuf d" "field = [v1_first m]" "rest = v1_long m @ v1_flag m # wm_data m @ ?later"
      using p m(1) by (simp_all add: v1_plan_def Let_def)
    have b: "dc_tmpbuf d ! 0 = v1_first m" using reading_byte f(1,2) r by simp
    show ?thesis
    proof (cases "wm_size m + 1 < 255")
      case True
      then have "v1_decoder_step malloc d = v1_size malloc (wm_size m + 1) d"
        unfolding v1_decoder_step_def using V1_one_byte_size_ready v1_first_value [OF True] by (simp add: b)
      then show ?thesis using size f(3) True V1_one_byte_size_ready by (simp add: v1_long_def)
    next
      case False
      let ?d = "next_step (Tmpbuf 0) 8 V1_eight_byte_size_ready d"
      have "v1_first m = 0xff" using False by (simp add: v1_first_def)
      then have "v1_decoder_step malloc d = Inr (More_needed, ?d)"
        unfolding v1_decoder_step_def using V1_one_byte_size_ready by (simp add: b)
      moreover have "reading ?d (v1_long m) 0" using m(3) False by (simp add: v1_long_def)
      moreover have "v1_plan malloc limit ?d (v1_long m) (v1_flag m # wm_data m @ ?later) ms"
        using m False by (simp add: v1_plan_def Let_def)
      moreover have "v1_rank (dc_next ?d) < v1_rank (dc_next d)" "dc_bufsize ?d = dc_bufsize d" using V1_one_byte_size_ready by simp_all
      ultimately show ?thesis using f(3) by blast
    qed
  next
    case V1_eight_byte_size_ready
    then have f: "in_tmpbuf d" "255 \<le> wm_size m + 1" "field = v1_long m" "rest = v1_flag m # wm_data m @ ?later"
      using p m(1) by (simp_all add: v1_plan_def Let_def)
    have "take 8 (dc_tmpbuf d) = put_uint64 (of_nat (wm_size m + 1))"
      using reading_complete(1) [OF r f(1)] f(2,3) by (simp add: v1_long_def)
    then have "get_uint64 (dc_tmpbuf d) = of_nat (wm_size m + 1)" by (rule get_uint64_take)
    moreover have "unat (of_nat (wm_size m + 1) :: 64 word) = wm_size m + 1"
      using s(1) by (intro unat_of_nat_small) (simp add: v1_sendable_def sendable_def content_size_def)
    ultimately have "v1_decoder_step malloc d = v1_size malloc (wm_size m + 1) d"
      unfolding v1_decoder_step_def using V1_eight_byte_size_ready by simp
    then show ?thesis using size f(4) V1_eight_byte_size_ready by simp
  next
    case V1_flags_ready
    then have f: "in_tmpbuf d" "\<not> wm_command (dc_in_progress d)" "wm_size (dc_in_progress d) = wm_size m"
        "wm_size m \<le> length (wm_memory (dc_in_progress d))" "field = [v1_flag m]" "rest = wm_data m @ ?later"
      using p m(1) by (simp_all add: v1_plan_def Let_def)
    have b: "dc_tmpbuf d ! 0 = v1_flag m" using reading_byte f(1,5) r by simp
    let ?m = "(dc_in_progress d)\<lparr>wm_more := wm_more m\<rparr>"
    let ?d = "next_step (Message 0) (wm_size m) V1_message_ready (d\<lparr>dc_in_progress := ?m\<rparr>)"
    have "(and (v1_flag m) 1 \<noteq> 0) = wm_more m" by (simp add: v1_flag_def)
    then have "v1_decoder_step malloc d = Inr (More_needed, ?d)"
      unfolding v1_decoder_step_def using V1_flags_ready by (simp add: b f(3) Let_def)
    moreover have "reading ?d (wm_data m) 0" using f(4) v1_length [OF s(1)] by simp
    moreover have "v1_plan malloc limit ?d (wm_data m) ?later ms" using m f(2-4) by (simp add: v1_plan_def Let_def)
    moreover have "v1_rank (dc_next ?d) < v1_rank (dc_next d)" "dc_bufsize ?d = dc_bufsize d" using V1_flags_ready by simp_all
    ultimately show ?thesis using f(6) by blast
  next
    case V1_message_ready
    then have f: "in_message d" "wm_more (dc_in_progress d) = wm_more m" "\<not> wm_command (dc_in_progress d)"
        "wm_size (dc_in_progress d) = wm_size m" "field = wm_data m" "rest = ?later"
      using p m(1) by (simp_all add: v1_plan_def Let_def)
    have "wm_data (dc_in_progress d) = wm_data m"
      using reading_complete(2) [OF r f(1)] f(4,5) v1_length [OF s(1)] by (simp add: wm_data_def)
    then have "contents (dc_in_progress d) = contents m" using f s(1) by (simp add: contents_def v1_sendable_def)
    moreover have "v1_decoder_step malloc d = Inr (Message_decoded, next_step (Tmpbuf 0) 1 V1_one_byte_size_ready d)"
      using V1_message_ready by (simp add: v1_decoder_step_def)
    moreover have "v1_idle limit (next_step (Tmpbuf 0) 1 V1_one_byte_size_ready d)" using m(3,4) by (simp add: v1_idle_def)
    ultimately show ?thesis using m(1) s(2) f(6)
      by (intro exI [of _ Message_decoded] exI [of _ "next_step (Tmpbuf 0) 1 V1_one_byte_size_ready d"]) simp
  qed
qed

lemma v1_plan_same: "same_control d d' \<Longrightarrow> v1_plan malloc limit d field rest ms \<Longrightarrow> v1_plan malloc limit d' field rest ms"
  unfolding v1_plan_def same_control_def by (cases "dc_next d") (auto simp: Let_def)

interpretation v1: framing "v1_decoder_step malloc" v1_rank "frame_of v1_header" "v1_sendable malloc limit" "v1_idle limit" "v1_plan malloc limit"
  for malloc limit
proof
  fix k show "0 < v1_rank k \<and> v1_rank k \<le> steps_fuel" by (cases k) (simp_all add: steps_fuel_def)
next
  fix d :: "v1_step decoder" assume "v1_idle limit d" then show "dc_to_read d = 1" by (simp add: v1_idle_def)
next
  fix d :: "v1_step decoder" and m ms
  assume "v1_idle limit d" "v1_sendable malloc limit m" "\<forall>m \<in> set ms. v1_sendable malloc limit m"
  then show "\<exists>field rest. frame_of v1_header m @ concat (map (frame_of v1_header) ms) = field @ rest \<and> reading d field 0
      \<and> v1_plan malloc limit d field rest (m # ms)"
    by (intro exI [of _ "[v1_first m]"] exI [of _ "v1_long m @ v1_flag m # wm_data m @ concat (map (frame_of v1_header) ms)"])
      (simp add: frame_of_def v1_header_parts v1_idle_def v1_plan_def reading_def buffer_at_def)
qed (rule v1_plan_same v1_plan_step; assumption)+


subsection \<open>All messages arrive\<close>

text \<open>From the start of a connection, however the bytes arrive.\<close>

lemma v2_frames_decoded:
  assumes "\<forall>m \<in> set ms. sendable malloc limit m" "0 < bufsize" "\<forall>n \<in> set reads. 0 < n"
    "length (concat (map (frame_of v2_header) ms)) \<le> length reads"
  shows "\<exists>got d. in_events (v2_decoder_step malloc) reads (concat (map (frame_of v2_header) ms)) (decoder_new V2_flags_ready bufsize limit) []
      = Inr ([], More_needed, got, d) \<and> map contents got = map contents ms"
proof -
  let ?d = "decoder_new V2_flags_ready bufsize limit"
  have idle: "v2_idle limit ?d" by (simp add: v2_idle_def decoder_new_def)
  have "v2.expects malloc limit ?d (concat (map (frame_of v2_header) ms)) ms" using assms(1) idle by (simp add: v2.expects_def)
  moreover have "0 < dc_bufsize ?d" using assms(2) by (simp add: decoder_new_def)
  ultimately obtain got d where r: "in_events (v2_decoder_step malloc) reads (concat (map (frame_of v2_header) ms)) ?d [] = Inr ([], More_needed, [] @ got, d)"
      "v2.expects malloc limit d [] (drop (length got) ms)" "map contents got = map contents (take (length got) ms)"
    using v2.in_events_expects [OF _ _ assms(3,4), where acc="[]"] by blast
  have "frame_of v2_header m \<noteq> []" for m by (simp add: frame_of_def v2_header_parts)
  then have "drop (length got) ms = []" using v2.expects_nothing [OF r(2)] by blast
  then show ?thesis using r by auto
qed

lemma v1_frames_decoded:
  assumes "\<forall>m \<in> set ms. v1_sendable malloc limit m" "0 < bufsize" "\<forall>n \<in> set reads. 0 < n"
    "length (concat (map (frame_of v1_header) ms)) \<le> length reads"
  shows "\<exists>got d. in_events (v1_decoder_step malloc) reads (concat (map (frame_of v1_header) ms)) (decoder_new V1_one_byte_size_ready bufsize limit) []
      = Inr ([], More_needed, got, d) \<and> map contents got = map contents ms"
proof -
  let ?d = "decoder_new V1_one_byte_size_ready bufsize limit"
  have idle: "v1_idle limit ?d" by (simp add: v1_idle_def decoder_new_def)
  have "v1.expects malloc limit ?d (concat (map (frame_of v1_header) ms)) ms" using assms(1) idle by (simp add: v1.expects_def)
  moreover have "0 < dc_bufsize ?d" using assms(2) by (simp add: decoder_new_def)
  ultimately obtain got d where r: "in_events (v1_decoder_step malloc) reads (concat (map (frame_of v1_header) ms)) ?d [] = Inr ([], More_needed, [] @ got, d)"
      "v1.expects malloc limit d [] (drop (length got) ms)" "map contents got = map contents (take (length got) ms)"
    using v1.in_events_expects [OF _ _ assms(3,4), where acc="[]"] by blast
  have "frame_of v1_header m \<noteq> []" for m by (simp add: frame_of_def v1_header_parts)
  then have "drop (length got) ms = []" using v1.expects_nothing [OF r(2)] by blast
  then show ?thesis using r by auto
qed

end
