(* ===== verification/Zmq_Framing_Encode.thy ===== *)
theory Zmq_Framing_Encode
  imports Zmq_Frames
begin

section \<open>Encoding in batches\<close>

text \<open>What the encoder still owes of its message, and that no batch loses or repeats a byte.\<close>

definition owed :: "frame_encoder \<Rightarrow> byte list" where
  "owed e = (case en_in_progress e of None \<Rightarrow> [] | Some m \<Rightarrow> en_out e @ (if en_new_msg_flag e then [] else wm_data m))"

definition encoder_ok :: "frame_encoder \<Rightarrow> bool" where
  "encoder_ok e \<longleftrightarrow> en_bufsize e = out_batch_size \<and> (en_next e = E_message_ready \<longleftrightarrow> en_new_msg_flag e)
     \<and> (en_in_progress e = None \<longrightarrow> en_out e = [] \<and> en_new_msg_flag e)"

definition steps_left :: "frame_encoder \<Rightarrow> nat" where
  "steps_left e = (if en_new_msg_flag e then 0 else 1)"

definition encoded :: "frame_encoder \<Rightarrow> nat \<Rightarrow> byte list \<Rightarrow> byte list \<Rightarrow> frame_encoder \<Rightarrow> bool" where
  "encoded e room out bs e' \<longleftrightarrow> encoder_ok e' \<and> bs @ owed e' = owed e
     \<and> (length (out @ bs) < room \<longrightarrow> en_in_progress e' = None) \<and> (length out < room \<and> owed e \<noteq> [] \<longrightarrow> bs \<noteq> [])"

lemma encoded_more:
  assumes "encoded e1 room (out @ bs) bs' e'" "bs @ owed e1 = owed e" "length out < room \<and> owed e \<noteq> [] \<longrightarrow> bs @ bs' \<noteq> []"
  shows "encoded e room out (bs @ bs') e'"
  using assms by (auto simp: encoded_def)

lemma encode_loop_spec:
  "encoder_ok e \<Longrightarrow> en_in_progress e = Some m \<Longrightarrow> room - length out + steps_left e < fuel \<Longrightarrow>
   \<exists>bs e'. encode_loop fuel header own room out e = Inr (out @ bs, e') \<and> encoded e room out bs e'"
proof (induction fuel arbitrary: out e)
  case (Suc fuel)
  note ok = Suc.prems(1,2)
  show ?case
  proof (cases "length out < room")
    case False
    then show ?thesis using ok by (intro exI [of _ "[]"] exI [of _ e]) (simp add: encoded_def)
  next
    case room: True
    show ?thesis
    proof (cases "en_out e = [] \<and> en_new_msg_flag e")
      case True
      then show ?thesis using room ok
        by (intro exI [of _ "[]"] exI [of _ "e\<lparr>en_in_progress := None\<rparr>"]) (auto simp: encoded_def encoder_ok_def owed_def)
    next
      case False
      obtain e1 where e1: "(if en_out e = [] then encoder_step header e else Inr e) = Inr e1" "encoder_ok e1" "en_in_progress e1 = Some m"
          "owed e1 = owed e" "en_out e1 = [] \<longrightarrow> owed e = []" "en_out e1 = [] \<longrightarrow> steps_left e1 < steps_left e"
          "steps_left e1 \<le> steps_left e"
      proof (cases "en_out e = []")
        case True
        then have "en_next e = E_size_ready" "\<not> en_new_msg_flag e" using False ok(1)
          by (cases "en_next e"; auto simp: encoder_ok_def)+
        then show ?thesis using that [of "e\<lparr>en_out := wm_data m, en_next := E_message_ready, en_new_msg_flag := True\<rparr>"] True ok
          by (simp add: encoder_step_def encoder_ok_def owed_def steps_left_def)
      qed (use that [of e] ok in simp)
      show ?thesis
      proof (cases "out = [] \<and> own \<and> room \<le> length (en_out e1)")
        case True
        let ?e = "e1\<lparr>en_out := []\<rparr>"
        have "encode_loop (Suc fuel) header own room out e = Inr (out @ en_out e1, ?e)" using room False e1(1) True by auto
        moreover have "en_out e1 @ owed ?e = owed e" using e1(3,4) by (simp add: owed_def)
        moreover have "encoder_ok ?e" using e1(2) by (simp add: encoder_ok_def)
        ultimately show ?thesis using True room
          by (intro exI [of _ "en_out e1"] exI [of _ ?e]) (auto simp: encoded_def)
      next
        case no: False
        let ?k = "min (length (en_out e1)) (room - length out)"
        let ?bs = "take ?k (en_out e1)" and ?e = "e1\<lparr>en_out := drop ?k (en_out e1)\<rparr>"
        have run: "encode_loop (Suc fuel) header own room out e = encode_loop fuel header own room (out @ ?bs) ?e"
          using room False e1(1) no by (auto simp: Let_def)
        have ow: "?bs @ owed ?e = owed e" using e1(3) unfolding e1(4) [symmetric] by (simp add: owed_def flip: append_assoc)
        have ok': "encoder_ok ?e" "en_in_progress ?e = Some m" using e1(2,3) by (simp_all add: encoder_ok_def)
        have st: "steps_left ?e = steps_left e1" by (simp add: steps_left_def)
        have "room - length (out @ ?bs) + steps_left ?e < room - length out + steps_left e"
        proof (cases "en_out e1 = []")
          case True
          then show ?thesis using e1(6) st by simp
        next
          case False
          then have "0 < ?k" "length ?bs = ?k" using room by auto
          then show ?thesis using room e1(7) st by (simp only: length_append) linarith
        qed
        then have "room - length (out @ ?bs) + steps_left ?e < fuel" using Suc.prems(3) by linarith
        from Suc.IH [OF ok' this] obtain bs' e' where i: "encode_loop fuel header own room (out @ ?bs) ?e = Inr ((out @ ?bs) @ bs', e')"
            "encoded ?e room (out @ ?bs) bs' e'" by blast
        have "?bs @ bs' \<noteq> []" if "owed e \<noteq> []" using that e1(5) room by auto
        then have "encoded e room out (?bs @ bs') e'" using encoded_more [OF i(2) ow] by blast
        then show ?thesis using run i(1) by (intro exI [of _ "?bs @ bs'"] exI [of _ e']) simp
      qed
    qed
  qed
qed simp

lemma encode_spec:
  assumes "encoder_ok e" "room = (if own then out_batch_size else n)" "room = out_batch_size - length out" "length out < out_batch_size"
  shows "\<exists>bs e'. encode header own n e = Inr (bs, e') \<and> encoded e out_batch_size out bs e'"
proof (cases "en_in_progress e")
  case None
  then show ?thesis using assms(1) by (simp add: encode_def encoded_def owed_def)
next
  case (Some m)
  have "room - length [] + steps_left e < room + 3" by (simp add: steps_left_def)
  from encode_loop_spec [OF assms(1) Some this, of header own] obtain bs e' where
    r: "encode_loop (room + 3) header own room [] e = Inr (bs, e')" "encoded e room [] bs e'" by auto
  have "encode header own n e = Inr (bs, e')"
    using r(1) Some assms(1,2) by (cases own) (simp_all add: encode_def encoder_ok_def Let_def del: encode_loop.simps)
  moreover have "encoded e out_batch_size out bs e'" using r(2) assms(3,4) by (auto simp: encoded_def)
  ultimately show ?thesis by blast
qed

abbreviation "frames_of header ms \<equiv> concat (map (frame_of header) ms)"

definition batched :: "(wire_msg \<Rightarrow> byte list) \<Rightarrow> frame_encoder \<Rightarrow> wire_msg list \<Rightarrow> byte list \<Rightarrow> byte list \<Rightarrow> wire_msg list \<Rightarrow> frame_encoder \<Rightarrow> bool" where
  "batched header e ms out bs ms' e' \<longleftrightarrow> encoder_ok e' \<and> bs @ owed e' @ frames_of header ms' = owed e @ frames_of header ms
     \<and> (length (out @ bs) < out_batch_size \<longrightarrow> en_in_progress e' = None \<and> ms' = [])"

lemma out_batch_loop_spec:
  assumes header: "\<forall>m. header m \<noteq> []"
  shows "encoder_ok e \<Longrightarrow> (length out < out_batch_size \<longrightarrow> en_in_progress e = None) \<Longrightarrow> (null \<longrightarrow> out = []) \<Longrightarrow>
     \<exists>bs ms' e'. out_batch_loop header null out ms e = Inr (out @ bs, ms', e') \<and> batched header e ms out bs ms' e'"
proof (induction ms arbitrary: null out e)
  case Nil
  then show ?case by (intro exI [of _ "[]"] exI [of _ e]) (simp add: batched_def)
next
  case (Cons m ms)
  show ?case
  proof (cases "length out < out_batch_size")
    case False
    then show ?thesis using Cons.prems(1) by (intro exI [of _ "[]"] exI [of _ "m # ms"] exI [of _ e]) (simp add: batched_def)
  next
    case True
    then have e: "en_in_progress e = None" "en_out e = []" "en_new_msg_flag e" "en_next e = E_message_ready" "en_bufsize e = out_batch_size"
      using Cons.prems(1,2) by (auto simp: encoder_ok_def)
    let ?e = "e\<lparr>en_in_progress := Some m, en_out := header m, en_next := E_size_ready, en_new_msg_flag := False\<rparr>"
    have load: "load_msg header m e = Inr ?e" using e by (simp add: load_msg_def encoder_step_def)
    have ok: "encoder_ok ?e" and ow: "owed ?e = frame_of header m" using e by (simp_all add: encoder_ok_def owed_def frame_of_def)
    have "owed ?e \<noteq> []" using ow header by (simp add: frame_of_def)
    obtain bs1 e1 where r: "encode header null (out_batch_size - length out) ?e = Inr (bs1, e1)" "encoded ?e out_batch_size out bs1 e1"
      using encode_spec [OF ok refl, of null "out_batch_size - length out" out header] Cons.prems(3) True by (cases null) auto
    have bs1: "bs1 \<noteq> []" "encoder_ok e1" "bs1 @ owed e1 = frame_of header m" "length (out @ bs1) < out_batch_size \<longrightarrow> en_in_progress e1 = None"
      using r(2) True \<open>owed ?e \<noteq> []\<close> ow by (auto simp: encoded_def)
    from Cons.IH [OF bs1(2,4), of False] obtain bs2 ms' e' where
      i: "out_batch_loop header False (out @ bs1) ms e1 = Inr ((out @ bs1) @ bs2, ms', e')" "batched header e1 ms (out @ bs1) bs2 ms' e'" by auto
    have "out_batch_loop header null out (m # ms) e = Inr (out @ bs1 @ bs2, ms', e')"
      using True load r(1) bs1(1) i(1) by simp
    moreover have "batched header e (m # ms) out (bs1 @ bs2) ms' e'"
      using i(2) bs1(3) e(1) by (auto simp: batched_def owed_def)
    ultimately show ?thesis by blast
  qed
qed

lemma out_batch_spec:
  assumes "\<forall>m. header m \<noteq> []" "encoder_ok e"
  shows "\<exists>bs ms' e'. out_batch header ms e = Inr (bs, ms', e') \<and> batched header e ms [] bs ms' e'"
proof -
  obtain bs e1 where r: "encode header True 0 e = Inr (bs, e1)" "encoded e out_batch_size [] bs e1"
    using encode_spec [OF assms(2) refl, of True 0 "[]" header] by (auto simp: out_batch_size_def)
  have b: "encoder_ok e1" "bs @ owed e1 = owed e" "length bs < out_batch_size \<longrightarrow> en_in_progress e1 = None" using r(2) by (auto simp: encoded_def)
  have "en_in_progress e = None \<longrightarrow> bs = []" using b(2) by (auto simp: owed_def)
  from out_batch_loop_spec [OF assms(1) b(1,3) this, of ms] obtain bs' ms' e' where
    i: "out_batch_loop header (en_in_progress e = None) bs ms e1 = Inr (bs @ bs', ms', e')" "batched header e1 ms bs bs' ms' e'" by blast
  have "batched header e ms [] (bs @ bs') ms' e'" using i(2) b(2) by (auto simp: batched_def)
  then show ?thesis using r(1) i(1) by (simp add: out_batch_def)
qed

lemma out_events_spec:
  assumes "\<forall>m. header m \<noteq> []"
  shows "encoder_ok e \<Longrightarrow> \<exists>bs ms' e'. out_events n header ms e = Inr (bs, ms', e') \<and> encoder_ok e'
     \<and> bs @ owed e' @ frames_of header ms' = owed e @ frames_of header ms
     \<and> (length (owed e @ frames_of header ms) < n \<longrightarrow> ms' = [] \<and> owed e' = [])"
proof (induction n arbitrary: ms e)
  case 0
  then show ?case by (intro exI [of _ "[]"] exI [of _ ms] exI [of _ e]) simp
next
  case (Suc n)
  obtain bs ms1 e1 where r: "out_batch header ms e = Inr (bs, ms1, e1)" "batched header e ms [] bs ms1 e1"
    using out_batch_spec [OF assms Suc.prems] by blast
  have b: "encoder_ok e1" "bs @ owed e1 @ frames_of header ms1 = owed e @ frames_of header ms"
    "length bs < out_batch_size \<longrightarrow> en_in_progress e1 = None \<and> ms1 = []" using r(2) by (simp_all add: batched_def)
  obtain bs' ms' e' where i: "out_events n header ms1 e1 = Inr (bs', ms', e')" "encoder_ok e'"
      "bs' @ owed e' @ frames_of header ms' = owed e1 @ frames_of header ms1"
      "length (owed e1 @ frames_of header ms1) < n \<longrightarrow> ms' = [] \<and> owed e' = []"
    using Suc.IH [OF b(1)] by blast
  have "ms' = [] \<and> owed e' = []" if l: "length (owed e @ frames_of header ms) < Suc n"
  proof (cases "bs = []")
    case True
    then have "owed e1 @ frames_of header ms1 = []" using b(3) by (simp add: out_batch_size_def owed_def)
    then have z: "owed e' @ frames_of header ms' = []" using i(3) by (metis append_is_Nil_conv)
    then have "ms' = []" using assms by (cases ms') (simp_all add: frame_of_def)
    then show ?thesis using z by simp
  next
    case False
    then have "0 < length bs" by simp
    moreover have "length bs + length (owed e1 @ frames_of header ms1) = length (owed e @ frames_of header ms)"
      using b(2) by (metis length_append)
    ultimately have "length (owed e1 @ frames_of header ms1) < n" using l by linarith
    then show ?thesis using i(4) by blast
  qed
  moreover have "(bs @ bs') @ owed e' @ frames_of header ms' = owed e @ frames_of header ms" using i(3) b(2) by (metis append.assoc)
  moreover have "out_events (Suc n) header ms e = Inr (bs @ bs', ms', e')" using r(1) i(1) by simp
  ultimately show ?case using i(2) by blast
qed

lemma frames_sent:
  assumes "\<forall>m. header m \<noteq> []" "length (frames_of header ms) < n"
  shows "\<exists>e. out_events n header ms (encoder_new out_batch_size) = Inr (frames_of header ms, [], e)"
proof -
  have "encoder_ok (encoder_new out_batch_size)" "owed (encoder_new out_batch_size) = []"
    by (simp_all add: encoder_new_def encoder_ok_def owed_def)
  then show ?thesis using out_events_spec [where e="encoder_new out_batch_size" and ms=ms and n=n, OF assms(1)] assms(2) by auto
qed

end
