(* ===== verification/Zmq_Framing_Properties.thy ===== *)
theory Zmq_Framing_Properties
  imports Zmq_Framing_Encode
begin

section \<open>Properties of the framings\<close>

text \<open>
  What is sent over a connection arrives, for both framings; what a decoder does with a frame
  that is longer than the receiver allows, and with one whose length overflows.
\<close>

text \<open>C20: frames_arrive. Messages that fit, encoded in the batches of \<open>out_event\<close> and read by \<open>in_event\<close> in
  pieces of any sizes, some of them directly into the message, are delivered by the decoder of the other
  side: all of them, in order, with their flags and bytes, in ZMTP/2.0 as in ZMTP/1.0.\<close>

theorem frames_arrive:
  assumes "\<forall>m \<in> set ms. sendable malloc limit m" "\<forall>n \<in> set reads. 0 < n"
    "length (frames_of v2_header ms) < batches" "length (frames_of v2_header ms) \<le> length reads"
    "length (frames_of v1_header ms) < batches" "length (frames_of v1_header ms) \<le> length reads"
  shows "(\<exists>bs e got d. out_events batches v2_header ms (encoder_new out_batch_size) = Inr (bs, [], e)
     \<and> in_events (v2_decoder_step malloc) reads bs (decoder_new V2_flags_ready in_batch_size limit) [] = Inr ([], More_needed, got, d)
     \<and> map contents got = map contents ms)
   \<and> ((\<forall>m \<in> set ms. \<not> wm_command m) \<longrightarrow>
     (\<exists>bs e got d. out_events batches v1_header ms (encoder_new out_batch_size) = Inr (bs, [], e)
     \<and> in_events (v1_decoder_step malloc) reads bs (decoder_new V1_one_byte_size_ready in_batch_size limit) [] = Inr ([], More_needed, got, d)
     \<and> map contents got = map contents ms))"
proof (intro conjI impI)
  have size: "0 < in_batch_size" by (simp add: in_batch_size_def)
  have "\<forall>m. v2_header m \<noteq> []" "\<forall>m. v1_header m \<noteq> []" by (simp_all add: v2_header_parts(1) v1_header_parts)
  then have sent: "\<exists>e. out_events batches v2_header ms (encoder_new out_batch_size) = Inr (frames_of v2_header ms, [], e)"
      "\<exists>e. out_events batches v1_header ms (encoder_new out_batch_size) = Inr (frames_of v1_header ms, [], e)"
    using frames_sent assms(3,5) by blast+
  show "\<exists>bs e got d. out_events batches v2_header ms (encoder_new out_batch_size) = Inr (bs, [], e)
     \<and> in_events (v2_decoder_step malloc) reads bs (decoder_new V2_flags_ready in_batch_size limit) [] = Inr ([], More_needed, got, d)
     \<and> map contents got = map contents ms"
    using sent(1) v2_frames_decoded [OF assms(1) size assms(2,4)] by blast
  assume "\<forall>m \<in> set ms. \<not> wm_command m"
  then have "\<forall>m \<in> set ms. v1_sendable malloc limit m" using assms(1) by (simp add: v1_sendable_def)
  then show "\<exists>bs e got d. out_events batches v1_header ms (encoder_new out_batch_size) = Inr (bs, [], e)
     \<and> in_events (v1_decoder_step malloc) reads bs (decoder_new V1_one_byte_size_ready in_batch_size limit) [] = Inr ([], More_needed, got, d)
     \<and> map contents got = map contents ms"
    using sent(2) v1_frames_decoded [OF _ size assms(2,6)] by blast
qed

definition some_malloc :: "nat \<Rightarrow> byte list option" where
  "some_malloc n = (if n < 1000 then Some (replicate n 7) else None)"

definition wire_msg_of :: "bool \<Rightarrow> byte list \<Rightarrow> wire_msg" where
  "wire_msg_of parts bs = \<lparr>wm_more = parts, wm_command = False, wm_size = length bs, wm_memory = bs\<rparr>"

lemma frames_arrive_witness:
  "\<exists>bs e got d. out_events 500 v2_header [wire_msg_of True [1], wire_msg_of False (replicate 300 2)] (encoder_new out_batch_size) = Inr (bs, [], e)
     \<and> in_events (v2_decoder_step some_malloc) (replicate 500 3) bs (decoder_new V2_flags_ready in_batch_size 300) []
        = Inr ([], More_needed, got, d)
     \<and> map contents got = [(True, False, [1]), (False, False, replicate 300 2)]"
proof -
  let ?ms = "[wire_msg_of True [1], wire_msg_of False (replicate 300 2)]"
  have s: "\<forall>m \<in> set ?ms. sendable some_malloc 300 m"
    by (simp add: sendable_def wire_msg_of_def some_malloc_def content_size_def max_vsm_size_def)
  have r: "\<forall>n \<in> set (replicate 500 (3::nat)). 0 < n" by simp
  have l: "length (frames_of v2_header ?ms) < 500" "length (frames_of v1_header ?ms) < 500"
    "length (frames_of v2_header ?ms) \<le> length (replicate 500 (3::nat))" "length (frames_of v1_header ?ms) \<le> length (replicate 500 (3::nat))"
    by (simp_all add: frame_of_def v2_header_def v1_header_def wire_msg_of_def wm_data_def Let_def)
  have c: "map contents ?ms = [(True, False, [1]), (False, False, replicate 300 2)]"
    by (simp add: contents_def wire_msg_of_def wm_data_def)
  show ?thesis using frames_arrive [OF s r l(1,3,2,4), THEN conjunct1] unfolding c .
qed


text \<open>The decoder up to the length of a large frame.\<close>

lemma large_length_read:
  "\<exists>d. dc_maxmsgsize d = limit \<and> dc_in_progress d = empty_msg
     \<and> (\<forall>e. v2_size malloc (unat v) d = Inl e \<longrightarrow>
          decode (v2_decoder_step malloc) False (large_flag # put_uint64 v @ later) (decoder_new V2_flags_ready in_batch_size limit) = Inl e)
     \<and> (\<forall>e d'. v2_size malloc (unat v) d = Inr (Not_decoded e, d') \<longrightarrow>
          decode (v2_decoder_step malloc) False (large_flag # put_uint64 v @ later) (decoder_new V2_flags_ready in_batch_size limit)
            = Inr (Not_decoded e, later, d'))"
proof -
  let ?d = "decoder_new V2_flags_ready in_batch_size limit :: v2_step decoder"
  let ?step = "v2_decoder_step malloc" and ?data = "put_uint64 v @ later"
  let ?read = "?d\<lparr>dc_read_pos := Tmpbuf 1, dc_to_read := 0, dc_tmpbuf := large_flag # replicate 7 0\<rparr>"
  let ?d1 = "?d\<lparr>dc_read_pos := Tmpbuf 0, dc_to_read := 8, dc_next := V2_eight_byte_size_ready, dc_tmpbuf := large_flag # replicate 7 0,
      dc_msg_flags := (False, False)\<rparr>"
  let ?d2 = "?d1\<lparr>dc_read_pos := Tmpbuf 8, dc_to_read := 0, dc_tmpbuf := put_uint64 v\<rparr>"
  have fl1: "and large_flag more_flag = 0" by (simp add: large_flag_def more_flag_def)
  have fl2: "and large_flag command_flag = 0" by (simp add: large_flag_def command_flag_def)
  have fl3: "large_flag \<noteq> 0" by (simp add: large_flag_def)
  have st1: "store [large_flag] ?d = Inr ?read" by (simp add: store_def decoder_new_def del: replicate.simps)
  have run1: "run_steps steps_fuel ?step ?read = Inr (More_needed, ?d1)"
    by (simp add: steps_fuel_def eval_nat_numeral v2_decoder_step_def decoder_new_def fl1 fl2 fl3 next_step_def Let_def)
  have st2: "store (put_uint64 v) ?d1 = Inr ?d2" by (simp add: store_def decoder_new_def)
  have step2: "?step ?d2 = v2_size malloc (unat v) ?d2" by (simp add: v2_decoder_step_def)
  have one: "decode ?step False (large_flag # ?data) ?d = decode_loop (length (large_flag # ?data)) ?step ?data ?d1"
  proof -
    have k: "min (dc_to_read ?d) (length (large_flag # ?data)) = 1" by (simp add: decoder_new_def)
    have t: "take 1 (large_flag # ?data) = [large_flag]" "drop 1 (large_flag # ?data) = ?data" by simp_all
    show ?thesis
      by (simp only: decode_def decode_loop.simps(2) Let_def k t st1 run1 and_then_simps case_prod_conv list.distinct simp_thms if_False)
  qed
  have ne: "?data \<noteq> []" by (simp add: put_uint64_def)
  have k: "min (dc_to_read ?d1) (length ?data) = 8" "take 8 ?data = put_uint64 v" "drop 8 ?data = later" by simp_all
  have two: "decode_loop (length (large_flag # ?data)) ?step ?data ?d1
      = and_then (run_steps steps_fuel ?step ?d2) (\<lambda>(rc, d). if rc \<noteq> More_needed then Inr (rc, later, d) else decode_loop (length ?data) ?step later d)"
    unfolding list.size(4) Nat.add_0_right add_Suc_right decode_loop.simps(2) k Let_def st2
    by (simp only: ne if_False and_then_simps)
  have steps: "run_steps steps_fuel ?step ?d2 = and_then (v2_size malloc (unat v) ?d2)
      (\<lambda>(rc, d'). if rc \<noteq> More_needed then Inr (rc, d') else run_steps 3 ?step d')"
  proof -
    have f: "steps_fuel = Suc 3" by (simp add: steps_fuel_def)
    show ?thesis unfolding step2 [symmetric] f run_steps.simps(2) by simp
  qed
  show ?thesis unfolding one two steps
    by (intro exI [of _ ?d2]) (auto simp: decoder_new_def)
qed

text \<open>C21: length_overflow. A frame of ZMTP/2.0 with a length within 40 bytes of the end of 64 bits, from a peer to
  a receiver without a limit on message sizes, makes \<open>init_size\<close> ask for a block of fewer bytes than the header
  it then writes into it: the addition of the sizes wraps around.\<close>

theorem length_overflow:
  assumes "\<forall>n. \<exists>block. malloc n = Some block \<and> length block = n" "2 ^ 64 - content_size \<le> unat v" "limit < 0"
  shows "decode (v2_decoder_step malloc) False (large_flag # put_uint64 v @ later) (decoder_new V2_flags_ready in_batch_size limit)
     = Inl (Undefined ''write past the end of a buffer'')"
proof -
  let ?n = "(content_size + unat v) mod 2 ^ 64"
  have "unat v < 2 ^ 64" using unsigned_less [of v] by simp
  then have "?n = content_size + unat v - 2 ^ 64" "content_size + unat v - 2 ^ 64 < content_size"
    using assms(2) by (simp_all add: content_size_def le_mod_geq)
  then have n: "?n < content_size" by linarith
  obtain block where b: "malloc ?n = Some block" "length block = ?n" using assms(1) by blast
  have "\<not> unat v \<le> max_vsm_size" using assms(2) by (simp add: content_size_def max_vsm_size_def)
  then have i: "init_size malloc (unat v) = Inl (Undefined ''write past the end of a buffer'')"
    using b n by (simp add: init_size_def check_def)
  obtain d where d: "dc_maxmsgsize d = limit" "\<forall>e. v2_size malloc (unat v) d = Inl e \<longrightarrow>
      decode (v2_decoder_step malloc) False (large_flag # put_uint64 v @ later) (decoder_new V2_flags_ready in_batch_size limit) = Inl e"
    using large_length_read [of limit malloc v later] by blast
  have "v2_size malloc (unat v) d = Inl (Undefined ''write past the end of a buffer'')"
    using i d(1) assms(3) by (simp add: v2_size_def begin_message_def)
  then show ?thesis using d(2) by blast
qed

lemma all_ones: "put_uint64 0xffffffffffffffff = [0xff, 0xff, 0xff, 0xff, 0xff, 0xff, 0xff, 0xff]"
  by (simp add: put_uint64_def)

lemma length_overflow_witness:
  "decode (v2_decoder_step (\<lambda>n. Some (replicate n 0))) False [2, 0xff, 0xff, 0xff, 0xff, 0xff, 0xff, 0xff, 0xff]
     (decoder_new V2_flags_ready in_batch_size (-1)) = Inl (Undefined ''write past the end of a buffer'')"
proof -
  have b: "large_flag # put_uint64 0xffffffffffffffff @ [] = [2, 0xff, 0xff, 0xff, 0xff, 0xff, 0xff, 0xff, 0xff]"
    unfolding all_ones by (simp add: large_flag_def)
  have "2 ^ 64 - content_size \<le> unat (0xffffffffffffffff :: 64 word)" by (simp add: content_size_def)
  then show ?thesis using length_overflow [of "\<lambda>n. Some (replicate n 0)" "0xffffffffffffffff" "-1" "[]"] unfolding b by simp
qed


text \<open>A frame of ZMTP/2.0 whose length is above the limit of the receiver ends the decoding with
  \<open>EMSGSIZE\<close> when its length has been read: no byte after it is used, and memory is not asked for.\<close>

theorem long_frames_refused:
  assumes "0 \<le> limit" "limit < int (unat v)"
  shows "\<exists>d. dc_in_progress d = empty_msg
     \<and> decode (v2_decoder_step malloc) False (large_flag # put_uint64 v @ later) (decoder_new V2_flags_ready in_batch_size limit)
       = Inr (Not_decoded Emsgsize, later, d)"
proof -
  obtain d where d: "dc_maxmsgsize d = limit" "dc_in_progress d = empty_msg"
      "\<forall>e d'. v2_size malloc (unat v) d = Inr (Not_decoded e, d') \<longrightarrow>
          decode (v2_decoder_step malloc) False (large_flag # put_uint64 v @ later) (decoder_new V2_flags_ready in_batch_size limit)
            = Inr (Not_decoded e, later, d')"
    using large_length_read [of limit malloc v later] by blast
  have "v2_size malloc (unat v) d = Inr (Not_decoded Emsgsize, d)" using d(1) assms by (simp add: v2_size_def)
  then show ?thesis using d(2,3) by blast
qed

lemma long_frames_refused_witness:
  "\<exists>d. decode (v2_decoder_step some_malloc) False [2, 0xff, 0xff, 0xff, 0xff, 0xff, 0xff, 0xff, 0xff, 5]
     (decoder_new V2_flags_ready in_batch_size 1000) = Inr (Not_decoded Emsgsize, [5], d)"
proof -
  have b: "large_flag # put_uint64 0xffffffffffffffff @ [5] = [2, 0xff, 0xff, 0xff, 0xff, 0xff, 0xff, 0xff, 0xff, 5]"
    unfolding all_ones by (simp add: large_flag_def)
  have "(1000::int) < int (unat (0xffffffffffffffff :: 64 word))" by simp
  then show ?thesis using long_frames_refused [of 1000 "0xffffffffffffffff" some_malloc "[5]"] unfolding b by auto
qed

end
