(* ===== verification/Zmq_Handshake.thy ===== *)
theory Zmq_Handshake
  imports Zmq_Options Zmq_Sockets Zmq_Framing_Decode
begin

section \<open>The handshake of a connection\<close>

text \<open>
  The greeting of \<open>stream_engine.cpp\<close>, which settles the protocol version and the security mechanism, and
  the NULL mechanism (\<open>mechanism.cpp\<close>, \<open>null_mechanism.cpp\<close>), the one the program uses, with its
  requests to a ZAP handler. \<open>init_size\<close> of a short message succeeds. A command is its bytes; the pipe to
  the ZAP handler is the list of the frames written to it and of those waiting in it.
\<close>

definition ascii :: "string \<Rightarrow> byte list" where
  "ascii s = map of_char s"

definition get_uint32 :: "byte list \<Rightarrow> 32 word" where
  "get_uint32 b = foldr or (map2 (\<lambda>k x. push_bit k (ucast x)) [24, 16, 8, 0] b) 0"

datatype handshake_error = H_again | H_proto | H_inval | H_fsm


subsection \<open>Metadata\<close>

type_synonym properties = "(byte list \<times> byte list) list"

text \<open>\<open>insert\<close> of a \<open>std::map\<close> keeps the value of a key that is there.\<close>

definition insert_property :: "byte list \<Rightarrow> byte list \<Rightarrow> properties \<Rightarrow> properties" where
  "insert_property name v ps = (if map_of ps name = None then ps @ [(name, v)] else ps)"

record 'm null_mechanism =
  nm_options :: "'m options_t"
  nm_peer_address :: "byte list"
  nm_identity :: "byte list"
  nm_user_id :: "byte list"
  nm_zap_properties :: properties
  nm_zmtp_properties :: properties
  nm_status_code :: "byte list"
  nm_ready_command_sent :: bool
  nm_error_command_sent :: bool
  nm_ready_command_received :: bool
  nm_error_command_received :: bool
  nm_zap_connected :: bool
  nm_zap_request_sent :: bool
  nm_zap_reply_received :: bool
  nm_zap_out :: "zmsg list"
  nm_zap_in :: "zmsg list"

definition set_peer_identity :: "byte list \<Rightarrow> 'm null_mechanism \<Rightarrow> 'm null_mechanism" where
  "set_peer_identity i m = m\<lparr>nm_identity := i\<rparr>"

definition peer_identity :: "'m null_mechanism \<Rightarrow> zmsg" where
  "peer_identity m = (msg_of False (nm_identity m))\<lparr>msg_identity := True\<rparr>"

definition set_user_id :: "byte list \<Rightarrow> 'm null_mechanism \<Rightarrow> 'm null_mechanism" where
  "set_user_id i m = m\<lparr>nm_user_id := i, nm_zap_properties := insert_property (ascii ''User-Id'') i (nm_zap_properties m)\<rparr>"

definition ZMQ_PAIR :: int where "ZMQ_PAIR = 0"
definition ZMQ_PUB :: int where "ZMQ_PUB = 1"
definition ZMQ_SUB :: int where "ZMQ_SUB = 2"
definition ZMQ_REQ :: int where "ZMQ_REQ = 3"
definition ZMQ_REP :: int where "ZMQ_REP = 4"
definition ZMQ_DEALER :: int where "ZMQ_DEALER = 5"
definition ZMQ_ROUTER :: int where "ZMQ_ROUTER = 6"
definition ZMQ_PULL :: int where "ZMQ_PULL = 7"
definition ZMQ_PUSH :: int where "ZMQ_PUSH = 8"
definition ZMQ_XPUB :: int where "ZMQ_XPUB = 9"
definition ZMQ_XSUB :: int where "ZMQ_XSUB = 10"

definition socket_names :: "string list" where
  "socket_names = [''PAIR'', ''PUB'', ''SUB'', ''REQ'', ''REP'', ''DEALER'', ''ROUTER'', ''PULL'', ''PUSH'', ''XPUB'', ''XSUB'', ''STREAM'']"

definition socket_type_string :: "int \<Rightarrow> string outcome" where
  "socket_type_string t =
     check (0 \<le> t \<and> t \<le> 10) (Fatal ''zmq_assert (socket_type >= 0 && socket_type <= 10)'') (Inr (socket_names ! nat t))"

definition allowed_peers :: "int \<Rightarrow> string list" where
  "allowed_peers t =
     (if t = ZMQ_REQ then [''REP'', ''ROUTER'']
      else if t = ZMQ_REP then [''REQ'', ''DEALER'']
      else if t = ZMQ_DEALER then [''REP'', ''DEALER'', ''ROUTER'']
      else if t = ZMQ_ROUTER then [''REQ'', ''DEALER'', ''ROUTER'']
      else if t = ZMQ_PUSH then [''PULL'']
      else if t = ZMQ_PULL then [''PUSH'']
      else if t = ZMQ_PUB then [''SUB'', ''XSUB'']
      else if t = ZMQ_SUB then [''PUB'', ''XPUB'']
      else if t = ZMQ_XPUB then [''SUB'', ''XSUB'']
      else if t = ZMQ_XSUB then [''PUB'', ''XPUB'']
      else if t = ZMQ_PAIR then [''PAIR'']
      else [])"

definition check_socket_type :: "int \<Rightarrow> byte list \<Rightarrow> bool" where
  "check_socket_type t name \<longleftrightarrow> (\<exists>s \<in> set (allowed_peers t). name = ascii s)"

text \<open>\<open>add_property\<close> writes at an offset of the command buffer; the result has the offset after it.\<close>

definition add_property :: "nat \<Rightarrow> string \<Rightarrow> byte list \<Rightarrow> byte list \<Rightarrow> (nat \<times> byte list) outcome" where
  "add_property ptr name v buf =
     check (length name \<le> 255) (Fatal ''zmq_assert (name_len <= 255)'')
       (check (length v \<le> 0x7FFFFFFF) (Fatal ''zmq_assert (value_len <= 0x7FFFFFFF)'')
         (and_then (buf_write ptr (of_nat (length name) # ascii name @ put_uint32 (of_nat (length v)) @ v) buf)
           (\<lambda>b. Inr (ptr + 1 + length name + 4 + length v, b))))"

definition apply_property :: "bool \<Rightarrow> byte list \<Rightarrow> byte list \<Rightarrow> 'm null_mechanism \<Rightarrow> handshake_error option \<times> 'm null_mechanism" where
  "apply_property zap_flag name v m =
     (if name = ascii ''Identity'' \<and> o_recv_identity (nm_options m) \<or> name \<noteq> ascii ''Socket-Type''
         \<or> check_socket_type (o_type (nm_options m)) v
      then let m1 = (if name = ascii ''Identity'' \<and> o_recv_identity (nm_options m) then set_peer_identity v m else m)
        in (None, if zap_flag then m1\<lparr>nm_zap_properties := insert_property name v (nm_zap_properties m1)\<rparr>
                  else m1\<lparr>nm_zmtp_properties := insert_property name v (nm_zmtp_properties m1)\<rparr>)
      else (Some H_inval, m))"

text \<open>The end of \<open>parse_metadata\<close>, with the bytes left.\<close>

definition metadata_end :: "byte list \<Rightarrow> 'm null_mechanism \<Rightarrow> handshake_error option \<times> 'm null_mechanism" where
  "metadata_end left m = (if left \<noteq> [] then Some H_proto else None, m)"

function parse_metadata :: "bool \<Rightarrow> byte list \<Rightarrow> 'm null_mechanism \<Rightarrow> handshake_error option \<times> 'm null_mechanism" where
  "parse_metadata zap_flag bs m =
     (if length bs \<le> 1 then metadata_end bs m
      else let name_length = unat (hd bs); r1 = tl bs
        in if length r1 < name_length then metadata_end r1 m
           else let name = take name_length r1; r2 = drop name_length r1
             in if length r2 < 4 then metadata_end r2 m
                else let value_length = unat (get_uint32 r2); r3 = drop 4 r2
                  in if length r3 < value_length then metadata_end r3 m
                     else case apply_property zap_flag name (take value_length r3) m of
                            (Some e, m') \<Rightarrow> (Some e, m')
                          | (None, m') \<Rightarrow> parse_metadata zap_flag (drop value_length r3) m')"
  by auto
termination by (relation "measure (\<lambda>(z, bs, m). length bs)") auto

declare parse_metadata.simps [simp del]


subsection \<open>The NULL mechanism\<close>

definition null_mechanism_new :: "bool \<Rightarrow> byte list \<Rightarrow> byte list \<Rightarrow> 'm options_t \<Rightarrow> 'm null_mechanism" where
  "null_mechanism_new zap_connect status_code peer_address opt =
     \<lparr>nm_options = opt, nm_peer_address = peer_address, nm_identity = [], nm_user_id = [], nm_zap_properties = [],
      nm_zmtp_properties = [], nm_status_code = status_code, nm_ready_command_sent = False, nm_error_command_sent = False,
      nm_ready_command_received = False, nm_error_command_received = False,
      nm_zap_connected = (o_zap_domain opt \<noteq> [] \<and> zap_connect), nm_zap_request_sent = False, nm_zap_reply_received = False,
      nm_zap_out = [], nm_zap_in = []\<rparr>"

definition own_identity :: "'m options_t \<Rightarrow> byte list" where
  "own_identity opt = take (nat (o_identity_size opt)) (o_identity opt)"

definition send_zap_request :: "'m null_mechanism \<Rightarrow> 'm null_mechanism" where
  "send_zap_request m =
     m\<lparr>nm_zap_out := nm_zap_out m @
        [msg_of True [], msg_of True (ascii ''1.0''), msg_of True (ascii ''1''), msg_of True (o_zap_domain (nm_options m)),
         msg_of True (nm_peer_address m), msg_of True (own_identity (nm_options m)), msg_of False (ascii ''NULL'')]\<rparr>"

text \<open>Seven frames of the pipe to the ZAP handler; a frame that was read is gone.\<close>

fun read_zap_frames :: "nat \<Rightarrow> zmsg list \<Rightarrow> (handshake_error option \<times> zmsg list \<times> zmsg list)" where
  "read_zap_frames 0 q = (None, [], q)"
| "read_zap_frames (Suc n) [] = (Some H_again, [], [])"
| "read_zap_frames (Suc n) (m # q) =
     (if msg_more m = (n = 0) then (Some H_proto, [m], q)
      else case read_zap_frames n q of (e, ms, q') \<Rightarrow> (e, m # ms, q'))"

definition receive_and_process_zap_reply :: "'m null_mechanism \<Rightarrow> handshake_error option \<times> 'm null_mechanism" where
  "receive_and_process_zap_reply m =
     (case read_zap_frames 7 (nm_zap_in m) of
        (Some e, ms, q) \<Rightarrow> (Some e, m\<lparr>nm_zap_in := q\<rparr>)
      | (None, ms, q) \<Rightarrow>
          let m1 = m\<lparr>nm_zap_in := q\<rparr>; d = map msg_data ms
          in if d ! 0 \<noteq> [] \<or> d ! 1 \<noteq> ascii ''1.0'' \<or> d ! 2 \<noteq> ascii ''1'' \<or> length (d ! 3) \<noteq> 3 then (Some H_proto, m1)
             else parse_metadata True (d ! 6) (set_user_id (d ! 5) (m1\<lparr>nm_status_code := d ! 3\<rparr>)))"

text \<open>The command to send, or why there is none.\<close>

definition command_buffer_size :: nat where "command_buffer_size = 512"

definition ready_command :: "'m options_t \<Rightarrow> byte list outcome" where
  "ready_command opt =
     and_then (buf_write 0 (5 # ascii ''READY'') (replicate command_buffer_size 0)) (\<lambda>b0.
     and_then (socket_type_string (o_type opt)) (\<lambda>socket_type.
     and_then (add_property 6 ''Socket-Type'' (ascii socket_type) b0) (\<lambda>(ptr, b1).
     and_then (if o_type opt = ZMQ_REQ \<or> o_type opt = ZMQ_DEALER \<or> o_type opt = ZMQ_ROUTER
               then add_property ptr ''Identity'' (own_identity opt) b1 else Inr (ptr, b1)) (\<lambda>(command_size, b2).
       buf_read 0 command_size b2))))"

definition next_handshake_command :: "'m null_mechanism \<Rightarrow> ((handshake_error + byte list) \<times> 'm null_mechanism) outcome" where
  "next_handshake_command m =
     (if nm_ready_command_sent m \<or> nm_error_command_sent m then Inr (Inl H_again, m)
      else let (wait, m1) =
          (if nm_zap_connected m \<and> \<not> nm_zap_reply_received m then
             if nm_zap_request_sent m then (Some H_again, m)
             else case receive_and_process_zap_reply ((send_zap_request m)\<lparr>nm_zap_request_sent := True\<rparr>) of
                    (Some e, m') \<Rightarrow> (Some e, m')
                  | (None, m') \<Rightarrow> (None, m'\<lparr>nm_zap_reply_received := True\<rparr>)
           else (None, m))
        in case wait of
             Some e \<Rightarrow> Inr (Inl e, m1)
           | None \<Rightarrow>
               if nm_zap_reply_received m1 \<and> nm_status_code m1 \<noteq> ascii ''200'' then
                 Inr (Inr (5 # ascii ''ERROR'' @ 3 # nm_status_code m1), m1\<lparr>nm_error_command_sent := True\<rparr>)
               else and_then (ready_command (nm_options m1)) (\<lambda>c. Inr (Inr c, m1\<lparr>nm_ready_command_sent := True\<rparr>)))"

definition process_ready_command :: "byte list \<Rightarrow> 'm null_mechanism \<Rightarrow> handshake_error option \<times> 'm null_mechanism" where
  "process_ready_command c m = parse_metadata False (drop 6 c) (m\<lparr>nm_ready_command_received := True\<rparr>)"

definition process_error_command :: "byte list \<Rightarrow> 'm null_mechanism \<Rightarrow> handshake_error option \<times> 'm null_mechanism" where
  "process_error_command c m =
     (if length c < 7 then (Some H_proto, m)
      else if unat (c ! 6) > length c - 7 then (Some H_proto, m)
      else (None, m\<lparr>nm_error_command_received := True\<rparr>))"

definition process_handshake_command :: "byte list \<Rightarrow> 'm null_mechanism \<Rightarrow> handshake_error option \<times> 'm null_mechanism" where
  "process_handshake_command c m =
     (if nm_ready_command_received m \<or> nm_error_command_received m then (Some H_proto, m)
      else if 6 \<le> length c \<and> take 6 c = 5 # ascii ''READY'' then process_ready_command c m
      else if 6 \<le> length c \<and> take 6 c = 5 # ascii ''ERROR'' then process_error_command c m
      else (Some H_proto, m))"

definition zap_msg_available :: "'m null_mechanism \<Rightarrow> handshake_error option \<times> 'm null_mechanism" where
  "zap_msg_available m =
     (if nm_zap_reply_received m then (Some H_fsm, m)
      else case receive_and_process_zap_reply m of
             (None, m') \<Rightarrow> (None, m'\<lparr>nm_zap_reply_received := True\<rparr>)
           | (Some e, m') \<Rightarrow> (Some e, m'))"

datatype status_t = M_handshaking | M_ready | M_error

definition mechanism_status :: "'m null_mechanism \<Rightarrow> status_t" where
  "mechanism_status m =
     (if nm_ready_command_sent m \<and> nm_ready_command_received m then M_ready
      else if (nm_ready_command_sent m \<or> nm_error_command_sent m) \<and> (nm_ready_command_received m \<or> nm_error_command_received m)
      then M_error else M_handshaking)"


subsection \<open>The greeting\<close>

definition signature_size :: nat where "signature_size = 10"
definition v2_greeting_size :: nat where "v2_greeting_size = 12"
definition v3_greeting_size :: nat where "v3_greeting_size = 64"
definition ZMTP_1_0 :: byte where "ZMTP_1_0 = 0"
definition ZMTP_2_0 :: byte where "ZMTP_2_0 = 1"

text \<open>\<open>gr_sent\<close> is \<open>greeting_send\<close> up to \<open>outpos + outsize\<close>, \<open>gr_recv\<close> the bytes read of \<open>greeting_recv\<close>.\<close>

record 'm greeting =
  gr_options :: "'m options_t"
  gr_size :: nat
  gr_recv :: "byte list"
  gr_sent :: "byte list"

definition greeting_new :: "'m options_t \<Rightarrow> 'm greeting" where
  "greeting_new opt =
     \<lparr>gr_options = opt, gr_size = v2_greeting_size, gr_recv = [],
      gr_sent = 0xff # put_uint64 (word_of_int (o_identity_size opt + 1)) @ [0x7f]\<rparr>"

definition padded :: "nat \<Rightarrow> string \<Rightarrow> byte list" where
  "padded n s = ascii s @ replicate (n - length s) 0"

definition mechanism_name :: "int \<Rightarrow> string outcome" where
  "mechanism_name m =
     (if m = ZMQ_NULL then Inr ''NULL'' else if m = ZMQ_PLAIN then Inr ''PLAIN'' else if m = ZMQ_GSSAPI then Inr ''GSSAPI''
      else if m = ZMQ_CURVE then Inr ''CURVE'' else Inl (Fatal ''zmq_assert (options.mechanism == ..)''))"

text \<open>What is sent once the peer has shown that it has versions.\<close>

definition send_version :: "'m greeting \<Rightarrow> 'm greeting outcome" where
  "send_version g =
     (let g1 = (if length (gr_sent g) = signature_size then g\<lparr>gr_sent := gr_sent g @ [3]\<rparr> else g)
      in if signature_size < length (gr_recv g1) \<and> length (gr_sent g1) = signature_size + 1 then
           if gr_recv g1 ! 10 = ZMTP_1_0 \<or> gr_recv g1 ! 10 = ZMTP_2_0 then
             Inr (g1\<lparr>gr_sent := gr_sent g1 @ [word_of_int (o_type (gr_options g1))]\<rparr>)
           else and_then (mechanism_name (o_mechanism (gr_options g1))) (\<lambda>name.
             Inr (g1\<lparr>gr_sent := gr_sent g1 @ 0 # padded 20 name @ replicate 32 0, gr_size := v3_greeting_size\<rparr>))
         else Inr g1)"

definition unversioned :: "'m greeting \<Rightarrow> bool" where
  "unversioned g \<longleftrightarrow> gr_recv g ! 0 \<noteq> 0xff \<or> signature_size \<le> length (gr_recv g) \<and> and (gr_recv g ! 9) 1 = 0"

text \<open>One iteration of \<open>handshake\<close>, with what \<open>tcp_read\<close> returned; the result tells whether the loop ends.\<close>

definition handshake_read :: "byte list \<Rightarrow> 'm greeting \<Rightarrow> (bool \<times> 'm greeting) outcome" where
  "handshake_read chunk g =
     (let g1 = g\<lparr>gr_recv := gr_recv g @ chunk\<rparr>
      in if unversioned g1 then Inr (True, g1)
         else if length (gr_recv g1) < signature_size then Inr (False, g1)
         else and_then (send_version g1) (\<lambda>g2. Inr (gr_size g2 \<le> length (gr_recv g2), g2)))"

datatype protocol = P_rejected | P_unversioned | P_zmtp_1 | P_zmtp_2 | P_zmtp_3 int

definition zap_enabled :: "'m options_t \<Rightarrow> bool" where
  "zap_enabled opt \<longleftrightarrow> o_mechanism opt \<noteq> ZMQ_NULL \<or> o_mechanism opt = ZMQ_NULL \<and> o_zap_domain opt \<noteq> []"

text \<open>What the rest of \<open>handshake\<close> decides; \<open>built_with\<close> says which mechanisms are compiled in.\<close>

definition select_protocol :: "(int \<Rightarrow> bool) \<Rightarrow> 'm greeting \<Rightarrow> protocol" where
  "select_protocol built_with g =
     (let opt = gr_options g
      in if unversioned g then if zap_enabled opt then P_rejected else P_unversioned
         else if gr_recv g ! 10 = ZMTP_1_0 then if zap_enabled opt then P_rejected else P_zmtp_1
         else if gr_recv g ! 10 = ZMTP_2_0 then if zap_enabled opt then P_rejected else P_zmtp_2
         else case mechanism_name (o_mechanism opt) of
                Inr name \<Rightarrow> if built_with (o_mechanism opt) \<and> take 20 (drop 12 (gr_recv g)) = padded 20 name
                             then P_zmtp_3 (o_mechanism opt) else P_rejected
              | Inl _ \<Rightarrow> P_rejected)"

end
