(* ===== verification/Zmq_Engine.thy ===== *)
theory Zmq_Engine
  imports Zmq_Handshake
begin

section \<open>An engine and its session\<close>

text \<open>
  The messages of an engine (\<open>stream_engine.cpp\<close>): \<open>next_msg\<close> and \<open>process_msg\<close> are the member
  functions an engine calls for the next message to send and for each message received, and
  change in the course of a connection. The session (\<open>session_base.cpp\<close>) is what its pipe has for the engine to
  pull, how many messages the pipe has room for, and what has been pushed. Mechanisms other than
  NULL, raw sockets and the metadata attached to messages are left out; \<open>encode\<close> and \<open>decode\<close> of NULL
  do nothing. Failing calls end the engine (\<open>error\<close>), apart from \<open>EAGAIN\<close>, after which
  the same message is offered again; calls of \<open>restart_output\<close> are calls of \<open>next_msg\<close> to come.
\<close>

datatype next_handler = Identity_msg | Next_handshake_command | Pull_msg_from_session | Pull_and_encode

datatype process_handler = Process_identity_msg | Process_handshake_command | Push_msg_to_session | Write_credential
  | Decode_and_push | Push_one_then_decode_and_push | Write_subscription_msg

record 'm engine =
  en_options :: "'m options_t"
  en_peer_address :: "byte list"
  en_mechanism :: "'m null_mechanism option"
  en_next_msg :: next_handler
  en_process_msg :: process_handler
  en_subscription_required :: bool
  en_metadata :: "properties option"
  se_out :: "zmsg list"
  se_incomplete_in :: bool
  se_room :: nat
  se_pushed :: "zmsg list"


subsection \<open>The session\<close>

definition pull_msg :: "'m engine \<Rightarrow> (handshake_error + bool \<times> zmsg) \<times> 'm engine" where
  "pull_msg e =
     (case se_out e of
        [] \<Rightarrow> (Inl H_again, e)
      | m # q \<Rightarrow> (Inr (False, m), e\<lparr>se_out := q, se_incomplete_in := msg_more m\<rparr>))"

definition push_msg :: "zmsg \<Rightarrow> 'm engine \<Rightarrow> handshake_error option \<times> 'm engine" where
  "push_msg m e =
     (if se_room e = 0 then (Some H_again, e)
      else (None, e\<lparr>se_room := se_room e - 1, se_pushed := se_pushed e @ [m]\<rparr>))"


subsection \<open>The start of an engine\<close>

text \<open>What the constructor and the end of \<open>handshake\<close> set for a protocol; \<open>zap_connect\<close> is the result of the session's call.\<close>

definition engine_new :: "bool \<Rightarrow> byte list \<Rightarrow> byte list \<Rightarrow> 'm options_t \<Rightarrow> protocol \<Rightarrow> 'm engine option" where
  "engine_new zap_connect status_code peer_address opt proto =
     (let e = \<lparr>en_options = opt, en_peer_address = peer_address, en_mechanism = None, en_next_msg = Identity_msg,
               en_process_msg = Process_identity_msg, en_subscription_required = False, en_metadata = None,
               se_out = [], se_incomplete_in = False, se_room = 0, se_pushed = []\<rparr>
      in case proto of
           P_unversioned \<Rightarrow> Some (e\<lparr>en_next_msg := Pull_msg_from_session,
             en_subscription_required := (o_type opt = ZMQ_PUB \<or> o_type opt = ZMQ_XPUB)\<rparr>)
         | P_zmtp_1 \<Rightarrow> Some e
         | P_zmtp_2 \<Rightarrow> Some e
         | P_zmtp_3 m \<Rightarrow>
             if m = ZMQ_NULL then Some (e\<lparr>en_mechanism := Some (null_mechanism_new zap_connect status_code peer_address opt),
               en_next_msg := Next_handshake_command, en_process_msg := Process_handshake_command\<rparr>)
             else None
         | P_rejected \<Rightarrow> None)"


subsection \<open>The next message to send\<close>

definition identity_msg :: "'m engine \<Rightarrow> (handshake_error + bool \<times> zmsg) \<times> 'm engine" where
  "identity_msg e = (Inr (False, msg_of False (own_identity (en_options e))), e\<lparr>en_next_msg := Pull_msg_from_session\<rparr>)"

definition pull_and_encode :: "'m engine \<Rightarrow> (handshake_error + bool \<times> zmsg) \<times> 'm engine" where
  "pull_and_encode e = pull_msg e"

definition insert_properties :: "properties \<Rightarrow> properties \<Rightarrow> properties" where
  "insert_properties new ps = fold (\<lambda>(n, v). insert_property n v) new ps"

definition the_mechanism :: "'m engine \<Rightarrow> 'm null_mechanism outcome" where
  "the_mechanism e = (case en_mechanism e of None \<Rightarrow> Inl (Fatal ''zmq_assert (mechanism != NULL)'') | Some m \<Rightarrow> Inr m)"

definition mechanism_ready :: "'m null_mechanism \<Rightarrow> 'm engine \<Rightarrow> 'm engine outcome" where
  "mechanism_ready m e =
     (let (r, e1) = (if o_recv_identity (en_options e) then push_msg (peer_identity m) e else (None, e))
      in if r = Some H_again then Inr e1
         else let addr = (if en_peer_address e1 \<noteq> [] then [(ascii ''Peer-Address'', en_peer_address e1)] else []);
                  ps = insert_properties (nm_zmtp_properties m) (insert_properties (nm_zap_properties m) addr)
              in check (en_metadata e1 = None) (Fatal ''zmq_assert (metadata == NULL)'')
                   (Inr (e1\<lparr>en_next_msg := Pull_and_encode, en_process_msg := Write_credential,
                            en_metadata := (if ps \<noteq> [] then Some ps else None)\<rparr>)))"

definition engine_next_handshake_command :: "'m engine \<Rightarrow> ((handshake_error + bool \<times> zmsg) \<times> 'm engine) outcome" where
  "engine_next_handshake_command e =
     and_then (the_mechanism e) (\<lambda>m.
       case mechanism_status m of
         M_ready \<Rightarrow> and_then (mechanism_ready m e) (\<lambda>e1. Inr (pull_and_encode e1))
       | M_error \<Rightarrow> Inr (Inl H_proto, e)
       | M_handshaking \<Rightarrow> and_then (next_handshake_command m) (\<lambda>(r, m1).
           Inr (case r of Inl err \<Rightarrow> Inl err | Inr c \<Rightarrow> Inr (True, msg_of False c), e\<lparr>en_mechanism := Some m1\<rparr>)))"

definition next_msg :: "'m engine \<Rightarrow> ((handshake_error + bool \<times> zmsg) \<times> 'm engine) outcome" where
  "next_msg e =
     (case en_next_msg e of
        Identity_msg \<Rightarrow> Inr (identity_msg e)
      | Next_handshake_command \<Rightarrow> engine_next_handshake_command e
      | Pull_msg_from_session \<Rightarrow> Inr (pull_msg e)
      | Pull_and_encode \<Rightarrow> and_then (the_mechanism e) (\<lambda>_. Inr (pull_and_encode e)))"


subsection \<open>A message received\<close>

definition process_identity_msg :: "zmsg \<Rightarrow> 'm engine \<Rightarrow> (handshake_error option \<times> 'm engine) outcome" where
  "process_identity_msg m e =
     (let (r, e1) = (if o_recv_identity (en_options e) then push_msg (m\<lparr>msg_identity := True\<rparr>) e else (None, e))
      in check (r = None) (Fatal ''errno_assert (rc == 0)'')
           (Inr (None, e1\<lparr>en_process_msg := (if en_subscription_required e1 then Write_subscription_msg else Push_msg_to_session)\<rparr>)))"

definition engine_process_handshake_command :: "zmsg \<Rightarrow> 'm engine \<Rightarrow> (handshake_error option \<times> 'm engine) outcome" where
  "engine_process_handshake_command x e =
     and_then (the_mechanism e) (\<lambda>m.
       case process_handshake_command (msg_data x) m of (r, m1) \<Rightarrow>
         let e1 = e\<lparr>en_mechanism := Some m1\<rparr>
         in if r \<noteq> None then Inr (r, e1)
            else case mechanism_status m1 of
                   M_ready \<Rightarrow> and_then (mechanism_ready m1 e1) (\<lambda>e2. Inr (None, e2))
                 | M_error \<Rightarrow> Inr (Some H_proto, e1)
                 | M_handshaking \<Rightarrow> Inr (None, e1))"

definition decode_and_push :: "zmsg \<Rightarrow> 'm engine \<Rightarrow> (handshake_error option \<times> 'm engine) outcome" where
  "decode_and_push x e =
     and_then (the_mechanism e) (\<lambda>_.
       case push_msg x e of
         (None, e1) \<Rightarrow> Inr (None, e1)
       | (Some r, e1) \<Rightarrow> Inr (Some r, if r = H_again then e1\<lparr>en_process_msg := Push_one_then_decode_and_push\<rparr> else e1))"

definition push_one_then_decode_and_push :: "zmsg \<Rightarrow> 'm engine \<Rightarrow> handshake_error option \<times> 'm engine" where
  "push_one_then_decode_and_push x e =
     (case push_msg x e of (None, e1) \<Rightarrow> (None, e1\<lparr>en_process_msg := Decode_and_push\<rparr>) | (Some r, e1) \<Rightarrow> (Some r, e1))"

definition credential_of :: "'m null_mechanism \<Rightarrow> zmsg" where
  "credential_of m = (msg_of False (nm_user_id m))\<lparr>msg_credential := True\<rparr>"

definition write_credential :: "zmsg \<Rightarrow> 'm engine \<Rightarrow> (handshake_error option \<times> 'm engine) outcome" where
  "write_credential x e =
     and_then (the_mechanism e) (\<lambda>m.
       case (if nm_user_id m \<noteq> [] then push_msg (credential_of m) e else (None, e)) of
         (Some r, e1) \<Rightarrow> Inr (Some r, e1)
       | (None, e1) \<Rightarrow> decode_and_push x (e1\<lparr>en_process_msg := Decode_and_push\<rparr>))"

definition write_subscription_msg :: "zmsg \<Rightarrow> 'm engine \<Rightarrow> handshake_error option \<times> 'm engine" where
  "write_subscription_msg x e =
     (case push_msg (msg_of False [1]) e of
        (Some r, e1) \<Rightarrow> (Some r, e1)
      | (None, e1) \<Rightarrow> push_msg x (e1\<lparr>en_process_msg := Push_msg_to_session\<rparr>))"

definition process_msg :: "zmsg \<Rightarrow> 'm engine \<Rightarrow> (handshake_error option \<times> 'm engine) outcome" where
  "process_msg x e =
     (case en_process_msg e of
        Process_identity_msg \<Rightarrow> process_identity_msg x e
      | Process_handshake_command \<Rightarrow> engine_process_handshake_command x e
      | Push_msg_to_session \<Rightarrow> Inr (push_msg x e)
      | Write_credential \<Rightarrow> write_credential x e
      | Decode_and_push \<Rightarrow> decode_and_push x e
      | Push_one_then_decode_and_push \<Rightarrow> Inr (push_one_then_decode_and_push x e)
      | Write_subscription_msg \<Rightarrow> Inr (write_subscription_msg x e))"

definition engine_zap_msg_available :: "'m engine \<Rightarrow> (handshake_error option \<times> 'm engine) outcome" where
  "engine_zap_msg_available e =
     and_then (the_mechanism e) (\<lambda>m. case zap_msg_available m of (r, m1) \<Rightarrow> Inr (r, e\<lparr>en_mechanism := Some m1\<rparr>))"

end
