(* ===== verification/Zmq_Handshake_Null.thy ===== *)
theory Zmq_Handshake_Null
  imports Zmq_Handshake
begin

section \<open>What the handshake commands carry\<close>

lemma get_put_byte32:
  fixes v :: "32 word"
  shows "or (push_bit k (ucast (ucast (drop_bit k v) :: byte))) (take_bit k v) = take_bit (k + 8) v"
proof (rule bit_word_eqI)
  fix n assume "n < LENGTH(32)"
  then show "bit (or (push_bit k (ucast (ucast (drop_bit k v) :: byte))) (take_bit k v)) n = bit (take_bit (k + 8) v) n"
    by (cases "n < k") (auto simp: bit_simps)
qed

lemma get_put_uint32 [simp]: "get_uint32 (put_uint32 v @ r) = v"
proof -
  have "take_bit 0 v = 0" "take_bit 32 v = v" by (simp_all add: take_bit_word_eq_self)
  then have "get_uint32 (put_uint32 v) = v"
    using get_put_byte32 [of 0 v] get_put_byte32 [of 8 v] get_put_byte32 [of 16 v] get_put_byte32 [of 24 v]
    by (simp only: get_uint32_def put_uint32_def list.map zip.simps zip_Cons_Cons case_prod_conv foldr.simps
        o_apply id_apply add_0 numeral_plus_numeral semiring_norm num.simps) simp
  then show ?thesis by (simp add: get_uint32_def put_uint32_def)
qed

lemma length_put_uint32 [simp]: "length (put_uint32 v) = 4"
  by (simp add: put_uint32_def)

text \<open>The bytes of a property.\<close>

definition property_bytes :: "string \<Rightarrow> byte list \<Rightarrow> byte list" where
  "property_bytes name v = of_nat (length name) # ascii name @ put_uint32 (of_nat (length v)) @ v"

lemma length_ascii [simp]: "length (ascii s) = length s"
  by (simp add: ascii_def)

lemma length_property_bytes [simp]: "length (property_bytes name v) = 1 + length name + 4 + length v"
  by (simp add: property_bytes_def)

lemma add_property_writes:
  assumes "length name \<le> 255" "length v \<le> 0x7FFFFFFF" "length pre = ptr" "length (property_bytes name v) \<le> k"
  shows "add_property ptr name v (pre @ replicate k 0) = Inr (ptr + length (property_bytes name v),
    pre @ property_bytes name v @ replicate (k - length (property_bytes name v)) 0)"
  using assms by (simp add: add_property_def buf_write_def property_bytes_def add.assoc)

lemma parse_property:
  assumes "length name \<le> 255" "length v < 2 ^ 32"
  shows "parse_metadata z (property_bytes name v @ rest) m =
    (case apply_property z (ascii name) v m of (Some e, m') \<Rightarrow> (Some e, m') | (None, m') \<Rightarrow> parse_metadata z rest m')"
proof -
  have n: "unat (of_nat (length name) :: byte) = length name" using assms(1) by (simp add: unat_of_nat)
  have v: "unat (of_nat (length v) :: 32 word) = length v" using assms(2) by (simp add: unat_of_nat)
  show ?thesis
    by (subst parse_metadata.simps) (simp add: property_bytes_def Let_def n v split: prod.split option.split)
qed

lemma parse_metadata_Nil [simp]: "parse_metadata z [] m = (None, m)"
  by (subst parse_metadata.simps) (simp add: metadata_end_def)

lemmas parse_last_property = parse_property [where rest = "[]", unfolded append_Nil2]


subsection \<open>The READY command\<close>

definition sends_identity :: "int \<Rightarrow> bool" where
  "sends_identity t \<longleftrightarrow> t = ZMQ_REQ \<or> t = ZMQ_DEALER \<or> t = ZMQ_ROUTER"

definition ready_bytes :: "'m options_t \<Rightarrow> byte list" where
  "ready_bytes opt = 5 # ascii ''READY'' @ property_bytes ''Socket-Type'' (ascii (socket_names ! nat (o_type opt)))
     @ (if sends_identity (o_type opt) then property_bytes ''Identity'' (own_identity opt) else [])"

definition can_connect :: "'m options_t \<Rightarrow> bool" where
  "can_connect opt \<longleftrightarrow> 0 \<le> o_type opt \<and> o_type opt \<le> 10 \<and> 0 \<le> o_identity_size opt \<and> o_identity_size opt \<le> 255"

lemma length_socket_names: "t \<le> 10 \<Longrightarrow> length (socket_names ! nat t) \<le> 6"
proof -
  assume "t \<le> 10"
  then have "socket_names ! nat t \<in> set socket_names" by (intro nth_mem) (simp add: socket_names_def)
  moreover have "\<forall>s \<in> set socket_names. length s \<le> 6" by (simp add: socket_names_def)
  ultimately show ?thesis by blast
qed

lemma length_own_identity: "o_identity_size opt \<le> 255 \<Longrightarrow> length (own_identity opt) \<le> 255"
  by (simp add: own_identity_def)

lemma ready_command_bytes:
  assumes "can_connect opt"
  shows "ready_command opt = Inr (ready_bytes opt)"
proof -
  let ?t = "ascii (socket_names ! nat (o_type opt))" and ?head = "5 # ascii ''READY''"
  have t: "length ?t \<le> 6" using length_socket_names assms by (simp add: can_connect_def)
  have i: "length (own_identity opt) \<le> 255" using assms by (intro length_own_identity) (simp add: can_connect_def)
  let ?p = "property_bytes ''Socket-Type'' ?t" and ?q = "property_bytes ''Identity'' (own_identity opt)"
  let ?b0 = "?head @ replicate 506 0"
  have b0: "buf_write 0 ?head (replicate command_buffer_size 0) = Inr ?b0"
    by (simp add: buf_write_def command_buffer_size_def)
  have b1: "add_property 6 ''Socket-Type'' ?t ?b0 = Inr (6 + length ?p, ?head @ ?p @ replicate (506 - length ?p) 0)"
    using t by (intro add_property_writes) (simp_all add: ascii_def)
  have b2: "add_property (6 + length ?p) ''Identity'' (own_identity opt) ((?head @ ?p) @ replicate (506 - length ?p) 0) =
      Inr (6 + length ?p + length ?q, (?head @ ?p) @ ?q @ replicate (506 - length ?p - length ?q) 0)"
    using t i by (intro add_property_writes) (simp_all add: ascii_def)
  have s: "socket_type_string (o_type opt) = Inr (socket_names ! nat (o_type opt))"
    using assms by (simp add: socket_type_string_def can_connect_def check_def)
  have r: "buf_read 0 (length xs) (xs @ ys) = Inr xs" for xs ys :: "byte list" by (simp add: buf_read_def)
  have e: "ready_command opt = and_then (if sends_identity (o_type opt)
      then add_property (6 + length ?p) ''Identity'' (own_identity opt) ((?head @ ?p) @ replicate (506 - length ?p) 0)
      else Inr (6 + length ?p, (?head @ ?p) @ replicate (506 - length ?p) 0)) (\<lambda>(n, b). buf_read 0 n b)"
    by (simp only: ready_command_def b0 b1 s and_then_simps sends_identity_def prod.case append_assoc)
  have "6 + length ?p = length (?head @ ?p)" "6 + length ?p + length ?q = length ((?head @ ?p) @ ?q)" by (simp_all add: ascii_def)
  then show ?thesis unfolding e b2 ready_bytes_def
    using r [of "(?head @ ?p) @ ?q"] r [of "?head @ ?p"] by (cases "sends_identity (o_type opt)") simp_all
qed

lemma next_command_ready:
  assumes "can_connect (nm_options m)" "\<not> nm_ready_command_sent m" "\<not> nm_error_command_sent m"
    "nm_zap_connected m \<longrightarrow> nm_zap_reply_received m" "nm_zap_reply_received m \<longrightarrow> nm_status_code m = ascii ''200''"
  shows "next_handshake_command m = Inr (Inr (ready_bytes (nm_options m)), m\<lparr>nm_ready_command_sent := True\<rparr>)"
  using assms(2-) by (auto simp: next_handshake_command_def ready_command_bytes [OF assms(1)])

definition type_name :: "'m options_t \<Rightarrow> byte list" where
  "type_name opt = ascii (socket_names ! nat (o_type opt))"

definition sent_identity :: "'m options_t \<Rightarrow> byte list \<Rightarrow> byte list" where
  "sent_identity opt i = (if sends_identity (o_type opt) then own_identity opt else i)"

text \<open>What a mechanism records of the READY command of its peer.\<close>

definition after_ready :: "'m options_t \<Rightarrow> 'm null_mechanism \<Rightarrow> 'm null_mechanism" where
  "after_ready peer m =
     (let ps = insert_property (ascii ''Socket-Type'') (type_name peer) (nm_zmtp_properties m)
      in m\<lparr>nm_ready_command_received := True,
           nm_identity := (if o_recv_identity (nm_options m) then sent_identity peer (nm_identity m) else nm_identity m),
           nm_zmtp_properties := (if sends_identity (o_type peer) then insert_property (ascii ''Identity'') (own_identity peer) ps else ps)\<rparr>)"

lemma ascii_names [simp]:
  "ascii ''Socket-Type'' \<noteq> ascii ''Identity''" "ascii ''Identity'' \<noteq> ascii ''Socket-Type''"
  by (simp_all add: ascii_def)

lemma process_ready:
  assumes "can_connect peer" "\<not> nm_ready_command_received m" "\<not> nm_error_command_received m"
  shows "process_handshake_command (ready_bytes peer) m =
    (if check_socket_type (o_type (nm_options m)) (type_name peer) then (None, after_ready peer m)
     else (Some H_inval, m\<lparr>nm_ready_command_received := True\<rparr>))"
proof -
  have t: "length (type_name peer) < 2 ^ 32"
    using length_socket_names [of "o_type peer"] assms(1) by (simp add: type_name_def can_connect_def)
  have i: "length (own_identity peer) < 2 ^ 32"
    using length_own_identity [of peer] assms(1) by (simp add: can_connect_def)
  have "process_handshake_command (ready_bytes peer) m = process_ready_command (ready_bytes peer) m"
    using assms by (simp add: process_handshake_command_def ready_bytes_def ascii_def)
  also have "\<dots> = parse_metadata False (property_bytes ''Socket-Type'' (type_name peer)
      @ (if sends_identity (o_type peer) then property_bytes ''Identity'' (own_identity peer) @ [] else []))
    (m\<lparr>nm_ready_command_received := True\<rparr>)"
    by (simp add: process_ready_command_def ready_bytes_def ascii_def type_name_def)
  also have "\<dots> = (if check_socket_type (o_type (nm_options m)) (type_name peer) then (None, after_ready peer m)
     else (Some H_inval, m\<lparr>nm_ready_command_received := True\<rparr>))"
    using t i by (simp add: parse_property parse_last_property apply_property_def after_ready_def Let_def sent_identity_def set_peer_identity_def)
  finally show ?thesis .
qed

lemma check_socket_type_sym:
  assumes "0 \<le> s" "s \<le> 10" "0 \<le> t" "t \<le> 10"
  shows "check_socket_type s (ascii (socket_names ! nat t)) \<longleftrightarrow> check_socket_type t (ascii (socket_names ! nat s))"
proof -
  have "\<forall>s \<in> set [0..10]. \<forall>t \<in> set [0..10].
      check_socket_type s (ascii (socket_names ! nat t)) = check_socket_type t (ascii (socket_names ! nat s))" by code_simp
  then show ?thesis using assms by simp
qed

end
