(* ===== verification/Zmq_Handshake_Zap.thy ===== *)
theory Zmq_Handshake_Zap
  imports Zmq_Handshake_Null
begin

section \<open>The NULL mechanism and its ZAP handler\<close>

text \<open>What parsing metadata keeps.\<close>

definition same_session :: "'m null_mechanism \<Rightarrow> 'm null_mechanism \<Rightarrow> bool" where
  "same_session m m' \<longleftrightarrow> nm_options m' = nm_options m \<and> nm_status_code m' = nm_status_code m
     \<and> nm_ready_command_sent m' = nm_ready_command_sent m \<and> nm_error_command_sent m' = nm_error_command_sent m
     \<and> nm_ready_command_received m' = nm_ready_command_received m \<and> nm_error_command_received m' = nm_error_command_received m
     \<and> nm_zap_connected m' = nm_zap_connected m \<and> nm_zap_request_sent m' = nm_zap_request_sent m
     \<and> nm_zap_reply_received m' = nm_zap_reply_received m \<and> nm_zap_in m' = nm_zap_in m \<and> nm_zap_out m' = nm_zap_out m"

lemma same_session_refl [simp]: "same_session m m"
  by (simp add: same_session_def)

lemma same_session_trans: "same_session a b \<Longrightarrow> same_session b c \<Longrightarrow> same_session a c"
  by (simp add: same_session_def)

lemma apply_property_keeps: "same_session m (snd (apply_property z n v m))"
  by (simp add: apply_property_def Let_def same_session_def set_peer_identity_def)

lemma parse_metadata_keeps: "same_session m (snd (parse_metadata z bs m)) \<and> fst (parse_metadata z bs m) \<noteq> Some H_again"
proof (induction z bs m rule: parse_metadata.induct)
  case (1 z bs m)
  show ?case
  proof (cases "length bs \<le> 1")
    case True
    then have "parse_metadata z bs m = metadata_end bs m" by (subst parse_metadata.simps) simp
    then show ?thesis by (simp add: metadata_end_def)
  next
    case l: False
    define k where "k = unat (hd bs)"
    define r2 where "r2 = drop k (tl bs)"
    define w where "w = unat (get_uint32 r2)"
    define r3 where "r3 = drop 4 r2"
    have e: "parse_metadata z bs m = (if length (tl bs) < k then metadata_end (tl bs) m
        else if length r2 < 4 then metadata_end r2 m else if length r3 < w then metadata_end r3 m
        else case apply_property z (take k (tl bs)) (take w r3) m of (Some e, m') \<Rightarrow> (Some e, m')
          | (None, m') \<Rightarrow> parse_metadata z (drop w r3) m')"
      by (subst parse_metadata.simps) (simp only: l if_False k_def r2_def w_def r3_def Let_def)
    show ?thesis
    proof (cases "length (tl bs) < k \<or> length r2 < 4 \<or> length r3 < w")
      case True
      then show ?thesis unfolding e by (auto simp: metadata_end_def)
    next
      case long: False
      obtain r m' where a: "apply_property z (take k (tl bs)) (take w r3) m = (r, m')" by fastforce
      have s: "same_session m m'" using apply_property_keeps [of m z "take k (tl bs)" "take w r3"] by (simp add: a)
      have h: "r \<noteq> Some H_again" using a by (auto simp: apply_property_def Let_def split: if_splits)
      show ?thesis
      proof (cases r)
        case None
        have t: "same_session m' (snd (parse_metadata z (drop w r3) m')) \<and> fst (parse_metadata z (drop w r3) m') \<noteq> Some H_again"
          using 1 [OF l k_def refl _ refl r2_def _ w_def r3_def _ a [symmetric] None] long by blast
        from same_session_trans [OF s t [THEN conjunct1]] show ?thesis using t long unfolding e a None by simp
      next
        case (Some x)
        then show ?thesis using s h long unfolding e a by simp
      qed
    qed
  qed
qed

text \<open>The moves of a mechanism: the engine's calls, and frames that arrive from the ZAP handler.\<close>

inductive mechanism_step :: "'m null_mechanism \<Rightarrow> 'm null_mechanism \<Rightarrow> bool" where
  next_command: "next_handshake_command m = Inr (r, m') \<Longrightarrow> mechanism_step m m'"
| process: "process_handshake_command c m = (e, m') \<Longrightarrow> mechanism_step m m'"
| zap_reply: "zap_msg_available m = (e, m') \<Longrightarrow> mechanism_step m m'"
| zap_frame: "nm_zap_connected m \<Longrightarrow> mechanism_step m (m\<lparr>nm_zap_in := nm_zap_in m @ [f]\<rparr>)"

inductive handshakes :: "'m options_t \<Rightarrow> 'm null_mechanism \<Rightarrow> bool" for opt where
  new: "handshakes opt (null_mechanism_new c s p opt)"
| step: "handshakes opt m \<Longrightarrow> mechanism_step m m' \<Longrightarrow> handshakes opt m'"

definition zap_inv :: "'m null_mechanism \<Rightarrow> bool" where
  "zap_inv m \<longleftrightarrow> (nm_zap_connected m \<and> nm_ready_command_sent m \<longrightarrow> nm_zap_reply_received m \<and> nm_status_code m = ascii ''200'')
     \<and> (nm_error_command_sent m \<longrightarrow> nm_zap_reply_received m \<and> nm_status_code m \<noteq> ascii ''200'')
     \<and> \<not> (nm_ready_command_sent m \<and> nm_error_command_sent m)"

text \<open>What a reply of the ZAP handler may change.\<close>

definition same_commands :: "'m null_mechanism \<Rightarrow> 'm null_mechanism \<Rightarrow> bool" where
  "same_commands m m' \<longleftrightarrow> nm_options m' = nm_options m \<and> nm_zap_connected m' = nm_zap_connected m
     \<and> nm_ready_command_sent m' = nm_ready_command_sent m \<and> nm_error_command_sent m' = nm_error_command_sent m
     \<and> nm_zap_reply_received m' = nm_zap_reply_received m"

definition same_received :: "'m null_mechanism \<Rightarrow> 'm null_mechanism \<Rightarrow> bool" where
  "same_received m m' \<longleftrightarrow> nm_options m' = nm_options m
     \<and> nm_ready_command_received m' = nm_ready_command_received m \<and> nm_error_command_received m' = nm_error_command_received m
     \<and> nm_zap_connected m' = nm_zap_connected m \<and> (nm_zap_in m = [] \<longrightarrow> nm_zap_in m' = [])"

lemma zap_reply_keeps:
  "same_commands m (snd (receive_and_process_zap_reply m)) \<and> same_received m (snd (receive_and_process_zap_reply m))"
proof -
  have nil: "read_zap_frames 7 [] = (Some H_again, [], [])" by code_simp
  obtain e ms q where r: "read_zap_frames 7 (nm_zap_in m) = (e, ms, q)" by (metis prod_cases3)
  have q: "q = []" if "nm_zap_in m = []" using r nil that by (simp only: prod.inject)
  let ?d = "map msg_data ms"
  let ?m = "set_user_id (?d ! 5) (m\<lparr>nm_zap_in := q, nm_status_code := ?d ! 3\<rparr>)"
  have "same_session ?m (snd (parse_metadata True (?d ! 6) ?m))" by (rule parse_metadata_keeps [THEN conjunct1])
  then show ?thesis
    using q by (auto simp: receive_and_process_zap_reply_def r same_commands_def same_received_def Let_def same_session_def set_user_id_def
        split: option.split)
qed

lemma process_keeps_zap: "same_commands m (snd (process_handshake_command c m)) \<and>
    nm_status_code (snd (process_handshake_command c m)) = nm_status_code m"
proof -
  have "same_session (m\<lparr>nm_ready_command_received := True\<rparr>) (snd (process_ready_command c m))"
    unfolding process_ready_command_def by (rule parse_metadata_keeps [THEN conjunct1])
  then show ?thesis
    by (simp add: process_handshake_command_def process_error_command_def same_session_def same_commands_def)
qed

lemma mechanism_step_inv:
  assumes "mechanism_step m m'" "zap_inv m"
  shows "zap_inv m'"
  using assms
proof (cases rule: mechanism_step.cases)
  case (next_command r)
  let ?q = "(send_zap_request m)\<lparr>nm_zap_request_sent := True\<rparr>"
  obtain e m1 where p: "receive_and_process_zap_reply ?q = (e, m1)" by fastforce
  have k: "same_commands ?q m1" using zap_reply_keeps [of ?q] by (simp add: p)
  have q: "same_commands m ?q" by (simp add: same_commands_def send_zap_request_def)
  show ?thesis
    using next_command assms(2) k q p
    by (auto simp: next_handshake_command_def zap_inv_def same_commands_def Let_def outcome_simps
        split: if_splits option.splits)
next
  case (process c e)
  then show ?thesis using process_keeps_zap [of m c] assms(2) by (auto simp: zap_inv_def same_commands_def)
next
  case (zap_reply e)
  obtain r m1 where p: "receive_and_process_zap_reply m = (r, m1)" by fastforce
  then show ?thesis using zap_reply assms(2) zap_reply_keeps [of m]
    by (auto simp: zap_msg_available_def zap_inv_def same_commands_def split: if_splits option.splits)
next
  case (zap_frame f)
  then show ?thesis using assms(2) by (simp add: zap_inv_def)
qed

lemma handshakes_inv: "handshakes opt m \<Longrightarrow> zap_inv m"
proof (induction rule: handshakes.induct)
  case (step m m')
  then show ?case by (blast intro: mechanism_step_inv)
qed (simp add: zap_inv_def null_mechanism_new_def)

text \<open>The moves as functions, to run them.\<close>

lemma run_next_command:
  assumes "\<not> isl (next_handshake_command m)"
  shows "mechanism_step m (snd (projr (next_handshake_command m)))"
proof (rule next_command)
  show "next_handshake_command m = Inr (fst (projr (next_handshake_command m)), snd (projr (next_handshake_command m)))"
    using assms by (cases "next_handshake_command m") simp_all
qed

lemma run_process: "mechanism_step m (snd (process_handshake_command c m))"
  by (rule process) (rule surjective_pairing)

lemma run_zap_reply: "mechanism_step m (snd (zap_msg_available m))"
  by (rule zap_reply) (rule surjective_pairing)

end
