(* ===== verification/Zmq_Engine_Inv.thy ===== *)
theory Zmq_Engine_Inv
  imports Zmq_Engine Zmq_Handshake_Zap
begin

section \<open>The course of a connection\<close>

definition received :: "'m null_mechanism \<Rightarrow> bool" where
  "received m \<longleftrightarrow> nm_ready_command_received m \<or> nm_error_command_received m"

definition mech_ok :: "'m null_mechanism \<Rightarrow> bool" where
  "mech_ok m \<longleftrightarrow> zap_inv m \<and> (\<not> nm_zap_connected m \<longrightarrow> nm_zap_in m = [])"

lemma next_command_keeps:
  assumes "mech_ok m" "next_handshake_command m = Inr (r, m')"
  shows "mech_ok m' \<and> received m' = received m \<and> nm_options m' = nm_options m"
proof -
  let ?q = "(send_zap_request m)\<lparr>nm_zap_request_sent := True\<rparr>"
  obtain e m1 where p: "receive_and_process_zap_reply ?q = (e, m1)" by fastforce
  have k: "same_received ?q m1" using zap_reply_keeps [of ?q] by (simp add: p)
  have "same_received m m'" using assms(2) k p
    by (auto simp: next_handshake_command_def same_received_def Let_def outcome_simps send_zap_request_def
        split: if_splits option.splits)
  moreover have "zap_inv m'" using mechanism_step_inv [OF next_command [OF assms(2)]] assms(1) by (simp add: mech_ok_def)
  ultimately show ?thesis using assms(1) by (simp add: mech_ok_def same_received_def received_def)
qed

lemma process_keeps:
  assumes "mech_ok m" "process_handshake_command c m = (r, m')"
  shows "mech_ok m' \<and> nm_options m' = nm_options m \<and> r \<noteq> Some H_again \<and> (r = None \<longrightarrow> \<not> received m \<and> received m')
    \<and> (received m \<longrightarrow> m' = m)"
proof -
  have z: "zap_inv m'" using mechanism_step_inv [OF process [OF assms(2)]] assms(1) by (simp add: mech_ok_def)
  obtain e m1 where p: "process_ready_command c m = (e, m1)" by fastforce
  have s: "same_session (m\<lparr>nm_ready_command_received := True\<rparr>) m1" "e \<noteq> Some H_again"
    using parse_metadata_keeps [of "m\<lparr>nm_ready_command_received := True\<rparr>" False "drop 6 c"] p by (simp_all add: process_ready_command_def)
  show ?thesis
  proof (cases "received m \<or> take 6 c \<noteq> 5 # ascii ''READY'' \<or> length c < 6")
    case True
    then have "(r, m') = process_error_command c m \<and> \<not> received m \<or> r = Some H_proto \<and> m' = m"
      using assms(2) by (simp add: process_handshake_command_def received_def split: if_splits)
    then show ?thesis using assms z by (auto simp: process_error_command_def mech_ok_def received_def split: if_splits)
  next
    case False
    then have "r = e" "m' = m1" using assms(2) p by (simp_all add: process_handshake_command_def received_def)
    then show ?thesis using s z assms(1) False by (simp add: same_session_def mech_ok_def received_def)
  qed
qed

lemma zap_keeps:
  assumes "mech_ok m" "zap_msg_available m = (r, m')"
  shows "mech_ok m' \<and> received m' = received m \<and> nm_options m' = nm_options m
    \<and> nm_ready_command_sent m' = nm_ready_command_sent m \<and> (nm_ready_command_sent m \<longrightarrow> m' = m)"
proof -
  obtain e m1 where p: "receive_and_process_zap_reply m = (e, m1)" by fastforce
  have k: "same_received m m1" "same_commands m m1" using zap_reply_keeps [of m] by (simp_all add: p)
  have z: "zap_inv m'" using mechanism_step_inv [OF zap_reply [OF assms(2)]] assms(1) by (simp add: mech_ok_def)
  have "m' = m" if "nm_ready_command_sent m"
  proof (cases "nm_zap_reply_received m")
    case False
    then have "nm_zap_in m = []" using that assms(1) by (auto simp: mech_ok_def zap_inv_def)
    moreover have "read_zap_frames 7 [] = (Some H_again, [], [])" by code_simp
    ultimately show ?thesis using assms(2) False
      by (cases m) (simp add: zap_msg_available_def receive_and_process_zap_reply_def)
  qed (use assms(2) in \<open>simp add: zap_msg_available_def\<close>)
  then show ?thesis using assms k p z
    by (auto simp: zap_msg_available_def mech_ok_def same_received_def same_commands_def received_def split: if_splits option.splits)
qed


subsection \<open>Runs\<close>

text \<open>
  With the messages the engine has taken: a message that fails with \<open>EAGAIN\<close> is not taken.
  Between the calls the socket sends messages, reads some of those pushed, and frames arrive from
  the ZAP handler.
\<close>

inductive engine_run :: "'m engine \<Rightarrow> 'm engine \<Rightarrow> zmsg list \<Rightarrow> bool" for e0 where
  start: "engine_run e0 e0 []"
| taken: "engine_run e0 e ms \<Longrightarrow> process_msg x e = Inr (None, e') \<Longrightarrow> engine_run e0 e' (ms @ [x])"
| blocked: "engine_run e0 e ms \<Longrightarrow> process_msg x e = Inr (Some H_again, e') \<Longrightarrow> engine_run e0 e' ms"
| sending: "engine_run e0 e ms \<Longrightarrow> next_msg e = Inr (r, e') \<Longrightarrow> engine_run e0 e' ms"
| zap: "engine_run e0 e ms \<Longrightarrow> engine_zap_msg_available e = Inr (r, e') \<Longrightarrow> engine_run e0 e' ms"
| zap_frame: "engine_run e0 e ms \<Longrightarrow> en_mechanism e = Some m \<Longrightarrow> nm_zap_connected m
    \<Longrightarrow> engine_run e0 (e\<lparr>en_mechanism := Some (m\<lparr>nm_zap_in := nm_zap_in m @ [f]\<rparr>)\<rparr>) ms"
| socket: "engine_run e0 e ms \<Longrightarrow> engine_run e0 (e\<lparr>se_room := n, se_out := se_out e @ qs\<rparr>) ms"

definition identity_part :: "'m engine \<Rightarrow> 'm null_mechanism \<Rightarrow> zmsg list" where
  "identity_part e m = (if o_recv_identity (en_options e) then [peer_identity m] else [])"

definition credential_part :: "'m null_mechanism \<Rightarrow> zmsg list" where
  "credential_part m = (if nm_user_id m \<noteq> [] then [credential_of m] else [])"

fun phase :: "process_handler \<Rightarrow> 'm null_mechanism \<Rightarrow> 'm engine \<Rightarrow> zmsg list \<Rightarrow> bool" where
  "phase Process_handshake_command m e ms \<longleftrightarrow> en_next_msg e = Next_handshake_command \<and> se_pushed e = [] \<and> en_metadata e = None
     \<and> length ms = (if received m then 1 else 0)"
| "phase Write_credential m e ms \<longleftrightarrow> en_next_msg e = Pull_and_encode \<and> mechanism_status m = M_ready
     \<and> se_pushed e = identity_part e m \<and> length ms = 1"
| "phase Decode_and_push m e ms \<longleftrightarrow> en_next_msg e = Pull_and_encode \<and> mechanism_status m = M_ready
     \<and> se_pushed e = identity_part e m @ credential_part m @ tl ms \<and> ms \<noteq> []"
| "phase Push_one_then_decode_and_push m e ms \<longleftrightarrow> en_next_msg e = Pull_and_encode \<and> mechanism_status m = M_ready
     \<and> se_pushed e = identity_part e m @ credential_part m @ tl ms \<and> ms \<noteq> []"
| "phase _ m e ms \<longleftrightarrow> False"

definition null_engine :: "'m engine \<Rightarrow> zmsg list \<Rightarrow> bool" where
  "null_engine e ms \<longleftrightarrow> (\<exists>m. en_mechanism e = Some m \<and> mech_ok m \<and> phase (en_process_msg e) m e ms)"

lemma status_ready: "mechanism_status m = M_ready \<longleftrightarrow> nm_ready_command_sent m \<and> nm_ready_command_received m"
  by (simp add: mechanism_status_def)

lemma ready_received: "mechanism_status m = M_ready \<Longrightarrow> received m"
  by (simp add: status_ready received_def)

lemma mechanism_ready_phase:
  assumes "mechanism_ready m e = Inr e'" "en_mechanism e = Some m" "mech_ok m" "mechanism_status m = M_ready"
    "phase Process_handshake_command m e ms" "en_process_msg e = Process_handshake_command"
  shows "null_engine e' ms \<and> en_options e' = en_options e"
proof -
  have "e' = e \<or> en_process_msg e' = Write_credential \<and> en_next_msg e' = Pull_and_encode \<and> en_mechanism e' = en_mechanism e
      \<and> en_options e' = en_options e \<and> se_pushed e' = se_pushed e @ identity_part e m"
    using assms(1) by (auto simp: mechanism_ready_def push_msg_def Let_def outcome_simps identity_part_def split: if_splits)
  then show ?thesis using assms(2-) ready_received [OF assms(4)] by (auto simp: null_engine_def identity_part_def)
qed

lemma push_msg_cases:
  assumes "push_msg x e = (r, e')"
  shows "r = Some H_again \<and> e' = e \<or> r = None \<and> e' = e\<lparr>se_room := se_room e - 1, se_pushed := se_pushed e @ [x]\<rparr>"
  using assms by (auto simp: push_msg_def split: if_splits)

lemma decode_and_push_phase:
  assumes "decode_and_push x e = Inr (r, e')" "en_mechanism e = Some m" "mech_ok m" "en_process_msg e = Decode_and_push"
    "en_next_msg e = Pull_and_encode" "mechanism_status m = M_ready"
    "se_pushed e = identity_part e m @ credential_part m @ tl ms" "ms = [] \<longrightarrow> False"
  shows "null_engine e' (if r = None then ms @ [x] else ms)"
proof -
  obtain q e1 where p: "push_msg x e = (q, e1)" by fastforce
  then show ?thesis using push_msg_cases [OF p] assms
    by (auto simp: decode_and_push_def the_mechanism_def null_engine_def identity_part_def)
qed

lemma process_msg_phase:
  assumes "null_engine e ms" "process_msg x e = Inr (r, e')" "r = None \<or> r = Some H_again"
  shows "null_engine e' (if r = None then ms @ [x] else ms)"
proof -
  obtain m where m: "en_mechanism e = Some m" "mech_ok m" "phase (en_process_msg e) m e ms" using assms(1) by (auto simp: null_engine_def)
  show ?thesis
  proof (cases "en_process_msg e")
    case Process_handshake_command
    obtain q m1 where p: "process_handshake_command (msg_data x) m = (q, m1)" by fastforce
    note k = process_keeps [OF m(2) p]
    have e: "engine_process_handshake_command x e = Inr (r, e')" using assms(2) Process_handshake_command by (simp add: process_msg_def)
    then have q: "q = None" "r = None" using k p m(1) assms(3)
      by (auto simp: engine_process_handshake_command_def the_mechanism_def Let_def outcome_simps split: if_splits status_t.splits)
    let ?e = "e\<lparr>en_mechanism := Some m1\<rparr>"
    have ph: "phase Process_handshake_command m1 ?e (ms @ [x])" using m(3) k q Process_handshake_command by simp
    show ?thesis
    proof (cases "mechanism_status m1")
      case M_ready
      then have "mechanism_ready m1 ?e = Inr e'" using e p q m(1)
        by (auto simp: engine_process_handshake_command_def the_mechanism_def Let_def outcome_simps)
      from mechanism_ready_phase [OF this _ _ M_ready ph] k q Process_handshake_command show ?thesis by simp
    next
      case M_error
      then show ?thesis using e p q m(1) by (simp add: engine_process_handshake_command_def the_mechanism_def)
    next
      case M_handshaking
      then have "e' = ?e" using e p q m(1) by (simp add: engine_process_handshake_command_def the_mechanism_def)
      then show ?thesis using ph q k Process_handshake_command by (simp add: null_engine_def)
    qed
  next
    case Write_credential
    obtain q e1 where w: "(if nm_user_id m \<noteq> [] then push_msg (credential_of m) e else (None, e)) = (q, e1)" by fastforce
    have e: "write_credential x e = Inr (r, e')" using assms(2) Write_credential by (simp add: process_msg_def)
    show ?thesis
    proof (cases q)
      case None
      then have "decode_and_push x (e1\<lparr>en_process_msg := Decode_and_push\<rparr>) = Inr (r, e')" using e w m(1)
        by (simp add: write_credential_def the_mechanism_def)
      moreover have "en_mechanism e1 = en_mechanism e \<and> en_next_msg e1 = en_next_msg e \<and> en_options e1 = en_options e
          \<and> se_pushed e1 = se_pushed e @ credential_part m"
        using w None push_msg_cases [of "credential_of m" e] by (auto simp: credential_part_def split: if_splits)
      ultimately show ?thesis using decode_and_push_phase [of x "e1\<lparr>en_process_msg := Decode_and_push\<rparr>" r e' m ms] m Write_credential
        by (auto simp: identity_part_def length_Suc_conv)
    next
      case (Some h)
      then have "e1 = e" "e' = e1" "r = q" using e w m(1) push_msg_cases [of "credential_of m" e q e1]
        by (auto simp: write_credential_def the_mechanism_def split: if_splits)
      then show ?thesis using m Some assms(1) by simp
    qed
  next
    case Decode_and_push
    then show ?thesis using decode_and_push_phase [of x e r e' m ms] m assms(2) by (simp add: process_msg_def)
  next
    case Push_one_then_decode_and_push
    obtain q e1 where p: "push_msg x e = (q, e1)" by fastforce
    then show ?thesis using push_msg_cases [OF p] assms(2) m Push_one_then_decode_and_push
      by (auto simp: process_msg_def push_one_then_decode_and_push_def null_engine_def identity_part_def)
  qed (use m(3) in auto)
qed

lemma next_msg_phase:
  assumes "null_engine e ms" "next_msg e = Inr (r, e')"
  shows "null_engine e' ms"
proof -
  obtain m where m: "en_mechanism e = Some m" "mech_ok m" "phase (en_process_msg e) m e ms" using assms(1) by (auto simp: null_engine_def)
  have pull: "null_engine (snd (pull_msg e1)) ms" if "null_engine e1 ms" for e1
  proof -
    from that obtain m1 where "en_mechanism e1 = Some m1" "mech_ok m1" "phase (en_process_msg e1) m1 e1 ms"
      by (auto simp: null_engine_def)
    then show ?thesis
      by (cases "en_process_msg e1") (auto simp: pull_msg_def null_engine_def identity_part_def split: list.split)
  qed
  show ?thesis
  proof (cases "en_process_msg e = Process_handshake_command")
    case True
    then have e: "engine_next_handshake_command e = Inr (r, e')" using assms(2) m(3) by (simp add: next_msg_def)
    have ph: "phase Process_handshake_command m e ms" using m(3) True by simp
    show ?thesis
    proof (cases "mechanism_status m")
      case M_ready
      then obtain e1 where e1: "mechanism_ready m e = Inr e1" "e' = snd (pull_msg e1)"
        using e m(1) by (auto simp: engine_next_handshake_command_def the_mechanism_def outcome_simps pull_and_encode_def)
      have "null_engine e1 ms" using mechanism_ready_phase [OF e1(1) m(1,2) M_ready ph True] by simp
      then show ?thesis using pull e1(2) by simp
    next
      case M_error
      then show ?thesis using e m(1) assms(1) by (simp add: engine_next_handshake_command_def the_mechanism_def)
    next
      case M_handshaking
      then obtain q m1 where q: "next_handshake_command m = Inr (q, m1)" "e' = e\<lparr>en_mechanism := Some m1\<rparr>"
        using e m(1) by (auto simp: engine_next_handshake_command_def the_mechanism_def outcome_simps)
      then show ?thesis using next_command_keeps [OF m(2) q(1)] ph True by (simp add: null_engine_def)
    qed
  next
    case False
    then have "en_next_msg e = Pull_and_encode" using m(3) by (cases "en_process_msg e") auto
    then have "e' = snd (pull_msg e)" using assms(2) m(1) by (simp add: next_msg_def the_mechanism_def pull_and_encode_def)
    then show ?thesis using pull [OF assms(1)] by simp
  qed
qed

lemma zap_phase:
  assumes "null_engine e ms" "engine_zap_msg_available e = Inr (r, e')"
  shows "null_engine e' ms"
proof -
  obtain m where m: "en_mechanism e = Some m" "mech_ok m" "phase (en_process_msg e) m e ms" using assms(1) by (auto simp: null_engine_def)
  obtain q m1 where z: "zap_msg_available m = (q, m1)" by fastforce
  then have e: "e' = e\<lparr>en_mechanism := Some m1\<rparr>" using assms(2) m(1) by (simp add: engine_zap_msg_available_def the_mechanism_def)
  note k = zap_keeps [OF m(2) z]
  show ?thesis
  proof (cases "en_process_msg e = Process_handshake_command")
    case True
    then show ?thesis using e k m(3) by (simp add: null_engine_def)
  next
    case False
    then have "mechanism_status m = M_ready" using m(3) by (cases "en_process_msg e") auto
    then have "m1 = m" using k by (simp add: status_ready)
    then have "e' = e" using e m(1) by (cases e) simp
    then show ?thesis using assms(1) by simp
  qed
qed

lemma zap_frame_phase:
  assumes "null_engine e ms" "en_mechanism e = Some m" "nm_zap_connected m"
  shows "null_engine (e\<lparr>en_mechanism := Some (m\<lparr>nm_zap_in := nm_zap_in m @ [f]\<rparr>)\<rparr>) ms"
proof -
  have k: "mech_ok m" "phase (en_process_msg e) m e ms" using assms(1,2) by (auto simp: null_engine_def)
  have "mech_ok (m\<lparr>nm_zap_in := nm_zap_in m @ [f]\<rparr>)" using k(1) assms(3) by (simp add: mech_ok_def zap_inv_def)
  moreover have "phase (en_process_msg e) (m\<lparr>nm_zap_in := nm_zap_in m @ [f]\<rparr>) (e\<lparr>en_mechanism := Some (m\<lparr>nm_zap_in := nm_zap_in m @ [f]\<rparr>)\<rparr>) ms"
    using k(2) by (cases "en_process_msg e") (simp_all add: received_def status_ready identity_part_def credential_part_def peer_identity_def credential_of_def)
  ultimately show ?thesis by (simp add: null_engine_def)
qed

lemma socket_phase: "null_engine e ms \<Longrightarrow> null_engine (e\<lparr>se_room := n, se_out := qs\<rparr>) ms"
  by (cases "en_process_msg e") (auto simp: null_engine_def identity_part_def)

lemma engine_run_phase:
  assumes "engine_run e0 e ms" "engine_new c s p opt (P_zmtp_3 ZMQ_NULL) = Some e0"
  shows "null_engine e ms"
  using assms
proof (induction rule: engine_run.induct)
  case start
  then show ?case
    by (auto simp: engine_new_def null_engine_def null_mechanism_new_def mech_ok_def zap_inv_def received_def)
next
  case (taken e ms x e')
  from process_msg_phase [OF taken.IH [OF taken.prems] taken.hyps(2)] show ?case by simp
next
  case (blocked e ms x e')
  from process_msg_phase [OF blocked.IH [OF blocked.prems] blocked.hyps(2)] show ?case by simp
qed (blast intro: next_msg_phase zap_phase zap_frame_phase socket_phase)+

end
