(* ===== verification/Zmq_Greeting.thy ===== *)
theory Zmq_Greeting
  imports Zmq_Handshake_Null
begin

section \<open>Two engines that greet each other\<close>

text \<open>
  Each engine reads what the other has sent so far in pieces of any size, in any order. The whole
  greeting of an engine is 64 bytes, of which it sends 10 at once, the version once it has read the
  peer's signature and the rest once it has read the peer's version.
\<close>

definition finished :: "'m greeting \<Rightarrow> bool" where
  "finished g \<longleftrightarrow> gr_size g \<le> length (gr_recv g) \<or> gr_recv g \<noteq> [] \<and> unversioned g"

inductive greeting_step :: "'m greeting \<times> 'm greeting \<Rightarrow> 'm greeting \<times> 'm greeting \<Rightarrow> bool" where
  left: "\<not> finished g \<Longrightarrow> gr_sent h = gr_recv g @ chunk @ later \<Longrightarrow> chunk \<noteq> [] \<Longrightarrow> length (gr_recv g) + length chunk \<le> gr_size g
    \<Longrightarrow> handshake_read chunk g = Inr (fin, g') \<Longrightarrow> greeting_step (g, h) (g', h)"
| right: "\<not> finished h \<Longrightarrow> gr_sent g = gr_recv h @ chunk @ later \<Longrightarrow> chunk \<noteq> [] \<Longrightarrow> length (gr_recv h) + length chunk \<le> gr_size h
    \<Longrightarrow> handshake_read chunk h = Inr (fin, h') \<Longrightarrow> greeting_step (g, h) (g, h')"

definition has_mechanism :: "'m options_t \<Rightarrow> bool" where
  "has_mechanism opt \<longleftrightarrow> o_mechanism opt \<in> {ZMQ_NULL, ZMQ_PLAIN, ZMQ_CURVE, ZMQ_GSSAPI}"

definition mechanism_bytes :: "'m options_t \<Rightarrow> byte list" where
  "mechanism_bytes opt = (case mechanism_name (o_mechanism opt) of Inr name \<Rightarrow> padded 20 name | Inl _ \<Rightarrow> [])"

definition whole_greeting :: "'m options_t \<Rightarrow> byte list" where
  "whole_greeting opt = 0xff # put_uint64 (word_of_int (o_identity_size opt + 1)) @ [0x7f, 3, 0] @ mechanism_bytes opt @ replicate 32 0"

definition greeting_length :: "nat \<Rightarrow> nat" where
  "greeting_length n = (if n < 10 then 10 else if n = 10 then 11 else 64)"

definition greets :: "'m options_t \<Rightarrow> 'm options_t \<Rightarrow> 'm greeting \<Rightarrow> bool" where
  "greets opt peer g \<longleftrightarrow> gr_options g = opt \<and> gr_recv g = take (length (gr_recv g)) (whole_greeting peer)
     \<and> gr_sent g = take (greeting_length (length (gr_recv g))) (whole_greeting opt)
     \<and> gr_size g = (if length (gr_recv g) \<le> 10 then v2_greeting_size else v3_greeting_size)"

definition greeting_inv :: "'m options_t \<Rightarrow> 'm options_t \<Rightarrow> 'm greeting \<times> 'm greeting \<Rightarrow> bool" where
  "greeting_inv a b s \<longleftrightarrow> greets a b (fst s) \<and> greets b a (snd s)
     \<and> length (gr_recv (fst s)) \<le> length (gr_sent (snd s)) \<and> length (gr_recv (snd s)) \<le> length (gr_sent (fst s))"

lemma has_mechanism_cases:
  assumes "has_mechanism opt"
  obtains name where "mechanism_name (o_mechanism opt) = Inr name" "length name \<le> 20" "mechanism_bytes opt = padded 20 name"
  using assms by (auto simp: has_mechanism_def mechanism_name_def mechanism_bytes_def)

lemma length_padded [simp]: "length s \<le> n \<Longrightarrow> length (padded n s) = n"
  by (simp add: padded_def)

lemma whole_greeting_facts:
  assumes "has_mechanism opt"
  shows "length (whole_greeting opt) = 64" "whole_greeting opt ! 0 = 0xff" "whole_greeting opt ! 9 = 0x7f" "whole_greeting opt ! 10 = 3"
    "take 20 (drop 12 (whole_greeting opt)) = mechanism_bytes opt"
proof -
  obtain name where n: "length name \<le> 20" "mechanism_bytes opt = padded 20 name" using has_mechanism_cases [OF assms] by metis
  then have l: "length (mechanism_bytes opt) = 20" by simp
  show "length (whole_greeting opt) = 64" "whole_greeting opt ! 0 = 0xff" "whole_greeting opt ! 9 = 0x7f" "whole_greeting opt ! 10 = 3"
    "take 20 (drop 12 (whole_greeting opt)) = mechanism_bytes opt"
    using l by (simp_all add: whole_greeting_def nth_append)
qed

lemma mechanism_bytes_inj:
  assumes "has_mechanism a" "has_mechanism b"
  shows "mechanism_bytes a = mechanism_bytes b \<longleftrightarrow> o_mechanism a = o_mechanism b"
  using assms by (auto simp: has_mechanism_def mechanism_bytes_def mechanism_name_def padded_def ascii_def)

lemma greeting_new_greets: "has_mechanism opt \<Longrightarrow> greets opt peer (greeting_new opt)"
  by (simp add: greets_def greeting_new_def whole_greeting_def greeting_length_def)

lemma versioned:
  assumes "has_mechanism peer" "gr_recv g = take n (whole_greeting peer)" "0 < n"
  shows "\<not> unversioned g"
  using assms whole_greeting_facts [OF assms(1)] by (simp add: unversioned_def signature_size_def)

lemma read_greets:
  assumes "has_mechanism opt" "has_mechanism peer" "greets opt peer g" "chunk \<noteq> []"
    "gr_recv g @ chunk @ later = take n (whole_greeting peer)"
  shows "\<exists>fin g'. handshake_read chunk g = Inr (fin, g') \<and> greets opt peer g' \<and> gr_recv g' = gr_recv g @ chunk
    \<and> length (gr_sent g) \<le> length (gr_sent g')"
proof -
  let ?k = "length (gr_recv g @ chunk)" and ?w = "whole_greeting opt"
  have "take ?k (take n (whole_greeting peer)) = gr_recv g @ chunk" unfolding assms(5) [symmetric] by simp
  then have r: "gr_recv g @ chunk = take ?k (whole_greeting peer)"
    using arg_cong [OF assms(5), of length] by (simp add: min_def split: if_splits)
  let ?g = "g\<lparr>gr_recv := gr_recv g @ chunk\<rparr>"
  have "gr_recv ?g = take ?k (whole_greeting peer)" using r by (metis greeting.select_convs(3) greeting.surjective greeting.update_convs(3))
  moreover have "0 < ?k" using assms(4) by simp
  ultimately have u: "\<not> unversioned ?g" using versioned [OF assms(2)] by blast
  obtain name where m: "mechanism_name (o_mechanism opt) = Inr name" "length name \<le> 20" "mechanism_bytes opt = padded 20 name"
    using has_mechanism_cases [OF assms(1)] by metis
  note w = whole_greeting_facts [OF assms(1)] whole_greeting_facts [OF assms(2)]
  have old: "gr_options g = opt" "gr_sent g = take (greeting_length (length (gr_recv g))) ?w"
    "gr_size g = (if length (gr_recv g) \<le> 10 then v2_greeting_size else v3_greeting_size)"
    using assms(3) by (simp_all add: greets_def)
  have w10: "take 11 ?w = take 10 ?w @ [3]" using w take_Suc_conv_app_nth [of 10 ?w] by simp
  have wend: "take 64 ?w = take 10 ?w @ 3 # 0 # padded 20 name @ replicate 32 0"
    using m by (simp add: whole_greeting_def)
  have k64: "?k \<le> 64" using arg_cong [OF r, of length] w by simp
  then have km: "min 64 (length (gr_recv g) + length chunk) = length (gr_recv g) + length chunk" by simp
  note sizes = signature_size_def v2_greeting_size_def v3_greeting_size_def greeting_length_def
  consider "?k < 10" | "?k = 10" | "10 < ?k" by linarith
  then show ?thesis
  proof cases
    case 1
    then have "handshake_read chunk g = Inr (False, ?g)" using u by (simp add: handshake_read_def sizes)
    moreover have "greets opt peer ?g" using 1 r old w k64 by (simp add: greets_def sizes)
    ultimately show ?thesis using assms(4) by auto
  next
    case 2
    then have n: "length (gr_recv g) < 10" using assms(4) by (cases chunk) simp_all
    let ?g' = "?g\<lparr>gr_sent := gr_sent g @ [3]\<rparr>"
    have "send_version ?g = Inr ?g'" using 2 n old w by (simp add: send_version_def sizes)
    then have "handshake_read chunk g = Inr (False, ?g')" using 2 n u old by (simp add: handshake_read_def sizes)
    moreover have "greets opt peer ?g'" using 2 n r old w w10 k64 by (simp add: greets_def sizes)
    ultimately show ?thesis by auto
  next
    case 3
    have v: "gr_recv ?g ! 10 = 3" using 3 r w by (metis nth_take greeting.select_convs(3) greeting.surjective greeting.update_convs(3))
    have w11: "take 10 ?w @ 3 # ys = take 11 ?w @ ys" for ys using w10 by simp
    let ?g' = "?g\<lparr>gr_sent := take 64 ?w, gr_size := v3_greeting_size\<rparr>"
    have "send_version ?g = Inr ?g'"
    proof -
      consider "length (gr_recv g) < 10" | "length (gr_recv g) = 10" | "10 < length (gr_recv g)" by linarith
      then show ?thesis
      proof cases
        case 1
        then have "gr_sent g = take 10 ?w" using old by (simp add: sizes)
        then show ?thesis using 3 v w wend m old(1) by (simp add: send_version_def sizes ZMTP_1_0_def ZMTP_2_0_def)
      next
        case 2
        then have "gr_sent g = take 10 ?w @ [3]" using old w10 by (simp add: sizes)
        then show ?thesis using 3 v w wend m old(1) by (simp add: send_version_def sizes ZMTP_1_0_def ZMTP_2_0_def)
      next
        case 3
        then have "gr_sent g = take 64 ?w" "gr_size g = v3_greeting_size" using old by (simp_all add: sizes)
        then show ?thesis using w by (simp add: send_version_def sizes)
      qed
    qed
    then have "handshake_read chunk g = Inr (64 \<le> ?k, ?g')" using 3 u by (simp add: handshake_read_def sizes)
    moreover have "greets opt peer ?g'" using 3 r old w by (simp add: greets_def sizes km)
    ultimately show ?thesis using w old by auto
  qed
qed

lemma greeting_step_inv:
  assumes "has_mechanism a" "has_mechanism b" "greeting_inv a b s" "greeting_step s s'"
  shows "greeting_inv a b s' \<and> length (gr_recv (fst s)) + length (gr_recv (snd s)) < length (gr_recv (fst s')) + length (gr_recv (snd s'))"
  using assms(4)
proof (cases rule: greeting_step.cases)
  case (left g h chunk later fin g')
  have i: "greets a b g" "greets b a h" "length (gr_recv h) \<le> length (gr_sent g)" using assms(3) left(1) by (simp_all add: greeting_inv_def)
  have "gr_recv g @ chunk @ later = take (greeting_length (length (gr_recv h))) (whole_greeting b)"
    using left(4) i(2) by (simp add: greets_def)
  then obtain fin2 g2 where "handshake_read chunk g = Inr (fin2, g2)" "greets a b g2" "gr_recv g2 = gr_recv g @ chunk"
    "length (gr_sent g) \<le> length (gr_sent g2)"
    using read_greets [OF assms(1,2) i(1) left(5)] by blast
  then have "greets a b g'" "gr_recv g' = gr_recv g @ chunk" "length (gr_sent g) \<le> length (gr_sent g')" using left(7) by simp_all
  then show ?thesis using i left(1,2,4,5) by (simp add: greeting_inv_def)
next
  case (right h g chunk later fin h')
  have i: "greets a b g" "greets b a h" "length (gr_recv g) \<le> length (gr_sent h)" using assms(3) right(1) by (simp_all add: greeting_inv_def)
  have "gr_recv h @ chunk @ later = take (greeting_length (length (gr_recv g))) (whole_greeting a)"
    using right(4) i(1) by (simp add: greets_def)
  then obtain fin2 h2 where "handshake_read chunk h = Inr (fin2, h2)" "greets b a h2" "gr_recv h2 = gr_recv h @ chunk"
    "length (gr_sent h) \<le> length (gr_sent h2)"
    using read_greets [OF assms(2,1) i(2) right(5)] by blast
  then have "greets b a h'" "gr_recv h' = gr_recv h @ chunk" "length (gr_sent h) \<le> length (gr_sent h')" using right(7) by simp_all
  then show ?thesis using i right(1,2,4,5) by (simp add: greeting_inv_def)
qed

lemma greeting_new_inv: "has_mechanism a \<Longrightarrow> has_mechanism b \<Longrightarrow> greeting_inv a b (greeting_new a, greeting_new b)"
  by (simp add: greeting_inv_def greeting_new_greets) (simp add: greeting_new_def)

text \<open>An unfinished engine can read unless it has read all that the peer has sent.\<close>

lemma can_read:
  assumes "has_mechanism a" "has_mechanism b" "greets a b g" "greets b a h" "\<not> finished g"
    "length (gr_recv g) < length (gr_sent h)"
  shows "\<exists>fin g'. greeting_step (g, h) (g', h) \<and> greeting_step (h, g) (h, g') \<and> handshake_read (take 1 (drop (length (gr_recv g)) (gr_sent h))) g = Inr (fin, g')"
proof -
  let ?k = "length (gr_recv g)" and ?s = "gr_sent h"
  let ?c = "take 1 (drop ?k ?s)"
  have c: "?c \<noteq> []" "length ?c = 1" using assms(6) by simp_all
  obtain n where s: "?s = take n (whole_greeting b)" using assms(4) by (simp add: greets_def)
  have "gr_recv g = take ?k (whole_greeting b)" using assms(3) by (simp add: greets_def)
  moreover have "?k < n" using assms(6) s by simp
  ultimately have "gr_recv g = take ?k ?s" using s by (simp add: min_def)
  then have e: "?s = gr_recv g @ ?c @ drop 1 (drop ?k ?s)" by (metis append_take_drop_id)
  then have "gr_recv g @ ?c @ drop 1 (drop ?k ?s) = take n (whole_greeting b)" using s by simp
  then obtain fin g' where r: "handshake_read ?c g = Inr (fin, g')"
    using read_greets [OF assms(1,2,3) c(1)] by blast
  have "?k + length ?c \<le> gr_size g" using assms(5) c(2) by (simp add: finished_def)
  then show ?thesis using greeting_step.left [OF assms(5) e c(1) _ r] greeting_step.right [OF assms(5) e c(1) _ r] r by blast
qed

lemma greets_bound:
  assumes "has_mechanism peer" "greets opt peer g"
  shows "length (gr_recv g) \<le> 64"
proof -
  have "gr_recv g = take (length (gr_recv g)) (whole_greeting peer)" using assms(2) by (simp add: greets_def)
  from arg_cong [OF this, of length] show ?thesis using whole_greeting_facts(1) [OF assms(1)] by simp
qed

lemma finished_reads:
  assumes "has_mechanism peer" "greets opt peer g"
  shows "finished g \<longleftrightarrow> length (gr_recv g) = 64"
proof -
  have u: "gr_recv g \<noteq> [] \<Longrightarrow> \<not> unversioned g" using assms versioned [of peer g "length (gr_recv g)"] by (simp add: greets_def)
  have "length (gr_recv g) \<le> 64" using greets_bound assms by blast
  moreover have "gr_size g = (if length (gr_recv g) \<le> 10 then 12 else 64)"
    using assms(2) by (simp add: greets_def v2_greeting_size_def v3_greeting_size_def)
  ultimately show ?thesis using u by (auto simp: finished_def)
qed

lemma greeting_progress:
  assumes "has_mechanism a" "has_mechanism b" "greeting_inv a b (g, h)" "\<not> (finished g \<and> finished h)"
  shows "\<exists>s'. greeting_step (g, h) s'"
proof -
  have i: "greets a b g" "greets b a h" "length (gr_recv g) \<le> length (gr_sent h)" "length (gr_recv h) \<le> length (gr_sent g)"
    using assms(3) by (simp_all add: greeting_inv_def)
  have l: "length (gr_sent g) = greeting_length (length (gr_recv g))" "length (gr_sent h) = greeting_length (length (gr_recv h))"
    using i whole_greeting_facts(1) [OF assms(1)] whole_greeting_facts(1) [OF assms(2)] by (simp_all add: greets_def greeting_length_def)
  have f: "finished g \<longleftrightarrow> length (gr_recv g) = 64" "finished h \<longleftrightarrow> length (gr_recv h) = 64"
    using finished_reads assms(1,2) i(1,2) by blast+
  consider "\<not> finished g" "length (gr_recv g) < length (gr_sent h)" | "\<not> finished h" "length (gr_recv h) < length (gr_sent g)"
    using i(3,4) assms(4) unfolding f l greeting_length_def by (auto split: if_splits)
  then show ?thesis
    using can_read [OF assms(1,2) i(1,2)] can_read [OF assms(2,1) i(2,1)] by cases blast+
qed

lemma finished_selects:
  assumes "has_mechanism opt" "has_mechanism peer" "greets opt peer g" "finished g"
  shows "select_protocol built_with g =
    (if o_mechanism opt = o_mechanism peer \<and> built_with (o_mechanism opt) then P_zmtp_3 (o_mechanism opt) else P_rejected)"
proof -
  have l: "length (gr_recv g) = 64" using finished_reads assms by blast
  have r: "gr_recv g = whole_greeting peer" using assms(3) l whole_greeting_facts(1) [OF assms(2)] by (simp add: greets_def)
  have u: "\<not> unversioned g" using versioned [of peer g 64] assms(2) r whole_greeting_facts(1) [OF assms(2)] by simp
  obtain name where m: "mechanism_name (o_mechanism opt) = Inr name" "mechanism_bytes opt = padded 20 name"
    using has_mechanism_cases [OF assms(1)] by metis
  have o: "gr_options g = opt" using assms(3) by (simp add: greets_def)
  have "take 20 (drop 12 (gr_recv g)) = padded 20 name \<longleftrightarrow> o_mechanism opt = o_mechanism peer"
    using mechanism_bytes_inj [OF assms(1,2)] m(2) r whole_greeting_facts(5) [OF assms(2)] by auto
  then show ?thesis using u m(1) o r whole_greeting_facts(4) [OF assms(2)]
    by (cases "o_mechanism opt = o_mechanism peer") (simp_all add: select_protocol_def Let_def ZMTP_1_0_def ZMTP_2_0_def)
qed

end
