(* ===== verification/Zmq_Handshake_Properties.thy ===== *)
theory Zmq_Handshake_Properties
  imports Zmq_Handshake_Zap Zmq_Greeting
begin

section \<open>Properties of the handshake\<close>

text \<open>What the handshake of a connection promises: the greeting, the NULL mechanism, its ZAP handler.\<close>

abbreviation default_session :: "unit options_t" where
  "default_session \<equiv> options_new (replicate 256 0) (replicate 32 0) (replicate 32 0) (replicate 32 0)"


subsection \<open>The greeting\<close>

lemma greeting_runs:
  assumes "has_mechanism a" "has_mechanism b" "(greeting_step ^^ n) (greeting_new a, greeting_new b) s"
  shows "greeting_inv a b s \<and> n \<le> length (gr_recv (fst s)) + length (gr_recv (snd s))"
  using assms(3)
proof (induction n arbitrary: s)
  case 0
  then show ?case using greeting_new_inv [OF assms(1,2)] by simp
next
  case (Suc n)
  then obtain t where "(greeting_step ^^ n) (greeting_new a, greeting_new b) t" "greeting_step t s" by auto
  with Suc.IH [of t] greeting_step_inv [OF assms(1,2), of t s] show ?case by simp
qed

text \<open>C23: handshake_negotiates. Two engines with valid mechanisms greet each other, each reading what the other
  has sent in pieces of any size, in any order: the exchange takes at most 128 reads, never stops before
  both have read the whole greeting of the other, and then both choose ZMTP 3 with their mechanism when it is the
  same and compiled in, and both reject the connection when they differ.\<close>

theorem handshake_negotiates:
  assumes "has_mechanism a" "has_mechanism b" "(greeting_step ^^ n) (greeting_new a, greeting_new b) (g, h)"
  shows "n \<le> 128 \<and> (\<not> (finished g \<and> finished h) \<longrightarrow> (\<exists>s. greeting_step (g, h) s))
    \<and> (finished g \<longrightarrow> select_protocol built_with g =
         (if o_mechanism a = o_mechanism b \<and> built_with (o_mechanism a) then P_zmtp_3 (o_mechanism a) else P_rejected))
    \<and> (finished h \<longrightarrow> select_protocol built_with h =
         (if o_mechanism a = o_mechanism b \<and> built_with (o_mechanism b) then P_zmtp_3 (o_mechanism b) else P_rejected))"
proof -
  have i: "greeting_inv a b (g, h)" "n \<le> length (gr_recv g) + length (gr_recv h)" using greeting_runs [OF assms] by simp_all
  then have gs: "greets a b g" "greets b a h" by (simp_all add: greeting_inv_def)
  have "length (gr_recv g) \<le> 64" "length (gr_recv h) \<le> 64"
    using greets_bound gs assms(1,2) by blast+
  then show ?thesis
    using i(2) greeting_progress [OF assms(1,2) i(1)] finished_selects [OF assms(1,2) gs(1)] finished_selects [OF assms(2,1) gs(2)]
    by auto
qed

lemma greeting_completes:
  assumes "has_mechanism a" "has_mechanism b" "(greeting_step ^^ n) (greeting_new a, greeting_new b) s"
  shows "\<exists>m g h. (greeting_step ^^ m) (greeting_new a, greeting_new b) (g, h) \<and> finished g \<and> finished h"
  using assms(3)
proof (induction "128 - n" arbitrary: n s rule: less_induct)
  case less
  obtain g h where s: "s = (g, h)" by fastforce
  show ?case
  proof (cases "finished g \<and> finished h")
    case True
    then show ?thesis using less.prems s by blast
  next
    case False
    have i: "greeting_inv a b (g, h)" using greeting_runs [OF assms(1,2) less.prems] s by simp
    obtain t where t: "greeting_step (g, h) t" using greeting_progress [OF assms(1,2) i False] by blast
    then have run: "(greeting_step ^^ Suc n) (greeting_new a, greeting_new b) t" using less.prems s by auto
    obtain g2 h2 where t2: "t = (g2, h2)" by fastforce
    have "greeting_inv a b t" "Suc n \<le> length (gr_recv (fst t)) + length (gr_recv (snd t))"
      using greeting_runs [OF assms(1,2) run] by simp_all
    moreover have "length (gr_recv g2) \<le> 64" "length (gr_recv h2) \<le> 64"
      using calculation(1) greets_bound assms(1,2) unfolding t2 greeting_inv_def by auto
    ultimately have "128 - Suc n < 128 - n" using t2 by simp
    then show ?thesis using less.hyps run by blast
  qed
qed

lemma handshake_negotiates_witness:
  "\<exists>n g h. (greeting_step ^^ n) (greeting_new default_session, greeting_new default_session) (g, h)
     \<and> finished g \<and> finished h \<and> n \<le> 128
     \<and> select_protocol (\<lambda>m. m \<le> 1) g = P_zmtp_3 0 \<and> select_protocol (\<lambda>m. m \<le> 1) h = P_zmtp_3 0"
proof -
  have m: "has_mechanism default_session" "o_mechanism default_session = 0" by (simp_all add: has_mechanism_def options_new_def)
  have "(greeting_step ^^ 0) (greeting_new default_session, greeting_new default_session) (greeting_new default_session, greeting_new default_session)" by simp
  from greeting_completes [OF m(1) m(1) this]
  obtain n g h where r: "(greeting_step ^^ n) (greeting_new default_session, greeting_new default_session) (g, h)" "finished g" "finished h"
    by blast
  from handshake_negotiates [OF m(1) m(1) r(1), of "\<lambda>m. m \<le> 1"] r m(2) show ?thesis by auto
qed


subsection \<open>The NULL mechanism\<close>

text \<open>C22: null_handshake. Two NULL mechanisms without ZAP exchange their READY commands: each command
  fits its buffer, and each side accepts the other's exactly when the socket types match, which both
  sides decide alike. Then both are ready, each has recorded the other's socket type and, when it asks for
  identities and the peer has one to give, exactly the peer's identity. Otherwise both fail with \<open>EINVAL\<close>.\<close>

theorem null_handshake:
  fixes a b :: "'m options_t"
  assumes "can_connect a" "can_connect b" "o_zap_domain a = []" "o_zap_domain b = []"
  shows "\<exists>ca ma cb mb ea na eb nb. next_handshake_command (null_mechanism_new za sa pa a) = Inr (Inr ca, ma)
    \<and> next_handshake_command (null_mechanism_new zb sb pb b) = Inr (Inr cb, mb)
    \<and> process_handshake_command cb ma = (ea, na) \<and> process_handshake_command ca mb = (eb, nb)
    \<and> (if check_socket_type (o_type a) (type_name b)
       then ea = None \<and> eb = None \<and> mechanism_status na = M_ready \<and> mechanism_status nb = M_ready
         \<and> map_of (nm_zmtp_properties na) (ascii ''Socket-Type'') = Some (type_name b)
         \<and> map_of (nm_zmtp_properties nb) (ascii ''Socket-Type'') = Some (type_name a)
         \<and> nm_identity na = (if o_recv_identity a \<and> sends_identity (o_type b) then own_identity b else [])
         \<and> nm_identity nb = (if o_recv_identity b \<and> sends_identity (o_type a) then own_identity a else [])
       else ea = Some H_inval \<and> eb = Some H_inval)"
proof -
  have "check_socket_type (o_type a) (type_name b) \<longleftrightarrow> check_socket_type (o_type b) (type_name a)"
    unfolding type_name_def by (rule check_socket_type_sym) (use assms(1,2) in \<open>simp_all add: can_connect_def\<close>)
  moreover have na: "next_handshake_command (null_mechanism_new za sa pa a) =
      Inr (Inr (ready_bytes a), (null_mechanism_new za sa pa a)\<lparr>nm_ready_command_sent := True\<rparr>)"
    using next_command_ready [of "null_mechanism_new za sa pa a"] assms(1,3) by (simp add: null_mechanism_new_def)
  moreover have nb: "next_handshake_command (null_mechanism_new zb sb pb b) =
      Inr (Inr (ready_bytes b), (null_mechanism_new zb sb pb b)\<lparr>nm_ready_command_sent := True\<rparr>)"
    using next_command_ready [of "null_mechanism_new zb sb pb b"] assms(2,4) by (simp add: null_mechanism_new_def)
  moreover note pa = process_ready [OF assms(2), of "(null_mechanism_new za sa pa a)\<lparr>nm_ready_command_sent := True\<rparr>"]
  moreover note pb = process_ready [OF assms(1), of "(null_mechanism_new zb sb pb b)\<lparr>nm_ready_command_sent := True\<rparr>"]
  ultimately show ?thesis
    by (simp add: null_mechanism_new_def after_ready_def Let_def mechanism_status_def insert_property_def sent_identity_def)
qed

text \<open>A DEALER socket named \<open>[99, 49]\<close> and a ROUTER socket.\<close>

abbreviation dealer_session :: "unit options_t" where
  "dealer_session \<equiv> default_session\<lparr>o_type := 5, o_identity_size := 2, o_identity := [99, 49] @ replicate 254 0\<rparr>"

abbreviation router_session :: "unit options_t" where
  "router_session \<equiv> default_session\<lparr>o_type := 6, o_recv_identity := True\<rparr>"

lemma null_handshake_witness:
  "\<exists>c m n. next_handshake_command (null_mechanism_new False [] [] dealer_session) = Inr (Inr c, m)
     \<and> (\<exists>mb :: unit null_mechanism. process_handshake_command c mb = (None, n)) \<and> mechanism_status n = M_ready \<and> nm_identity n = [99, 49]"
proof -
  have c: "can_connect dealer_session" "can_connect router_session" by (simp_all add: can_connect_def options_new_def)
  have z: "o_zap_domain dealer_session = []" "o_zap_domain router_session = []" by (simp_all add: options_new_def)
  have t: "check_socket_type (o_type dealer_session) (type_name router_session)"
    by (simp add: check_socket_type_def allowed_peers_def type_name_def socket_names_def ZMQ_REQ_def ZMQ_REP_def ZMQ_DEALER_def)
  have i: "sends_identity (o_type dealer_session)" "o_recv_identity router_session" "own_identity dealer_session = [99, 49]"
    by (simp_all add: sends_identity_def ZMQ_DEALER_def own_identity_def)
  from null_handshake [OF c z, of False "[]" "[]" False "[]" "[]"] show ?thesis
    unfolding if_P [OF t] if_P [OF conjI [OF i(2,1)]] i(3) by blast
qed


subsection \<open>The ZAP handler\<close>

text \<open>Whatever the engine calls, in whatever order, and whatever frames its ZAP handler sends, a NULL
  mechanism that asks a ZAP handler sends READY, and so becomes ready, only after a reply with status 200; it sends ERROR
  only after a reply with another status, and never both.\<close>

theorem zap_guards_ready:
  assumes "handshakes opt m"
  shows "(nm_zap_connected m \<and> (nm_ready_command_sent m \<or> mechanism_status m = M_ready) \<longrightarrow>
      nm_zap_reply_received m \<and> nm_status_code m = ascii ''200'')
    \<and> (nm_error_command_sent m \<longrightarrow> nm_zap_reply_received m \<and> nm_status_code m \<noteq> ascii ''200'')
    \<and> \<not> (nm_ready_command_sent m \<and> nm_error_command_sent m)"
  using handshakes_inv [OF assms] by (auto simp: zap_inv_def mechanism_status_def split: if_splits)

text \<open>A mechanism that asks, is answered with 200, sends READY and receives a READY.\<close>

abbreviation asked :: "unit null_mechanism" where
  "asked \<equiv> snd (projr (next_handshake_command (null_mechanism_new True [] [] (dealer_session\<lparr>o_zap_domain := [100]\<rparr>))))"

abbreviation zap_frames :: "zmsg list" where
  "zap_frames \<equiv> [msg_of True [], msg_of True [49, 46, 48], msg_of True [49], msg_of True [50, 48, 48], msg_of True [],
     msg_of True [117], msg_of False []]"

abbreviation answered :: "unit null_mechanism" where
  "answered \<equiv> snd (zap_msg_available (asked\<lparr>nm_zap_in := zap_frames\<rparr>))"

abbreviation granted :: "unit null_mechanism" where
  "granted \<equiv> snd (process_handshake_command [5, 82, 69, 65, 68, 89] (answered\<lparr>nm_ready_command_sent := True\<rparr>))"

lemma zap_frames_arrive:
  assumes "handshakes opt m" "nm_zap_connected m"
  shows "handshakes opt (m\<lparr>nm_zap_in := nm_zap_in m @ fs\<rparr>)"
proof (induction fs rule: rev_induct)
  case (snoc f fs)
  have "mechanism_step (m\<lparr>nm_zap_in := nm_zap_in m @ fs\<rparr>) (m\<lparr>nm_zap_in := nm_zap_in m @ fs @ [f]\<rparr>)"
    using zap_frame [of "m\<lparr>nm_zap_in := nm_zap_in m @ fs\<rparr>" f] assms(2) by simp
  with snoc show ?case by (rule handshakes.step)
qed (use assms in simp)

lemma granted_runs: "handshakes (dealer_session\<lparr>o_zap_domain := [100]\<rparr>) granted"
proof -
  have a: "handshakes (dealer_session\<lparr>o_zap_domain := [100]\<rparr>) asked"
    by (rule handshakes.step [OF handshakes.new]) (rule run_next_command, code_simp)
  have "nm_zap_connected asked" "nm_zap_in asked = []" by code_simp+
  then have "handshakes (dealer_session\<lparr>o_zap_domain := [100]\<rparr>) (asked\<lparr>nm_zap_in := zap_frames\<rparr>)"
    using zap_frames_arrive [OF a, of zap_frames] by simp
  then have "handshakes (dealer_session\<lparr>o_zap_domain := [100]\<rparr>) answered" by (rule handshakes.step) (rule run_zap_reply)
  moreover have "can_connect (nm_options answered)" "\<not> nm_ready_command_sent answered" "\<not> nm_error_command_sent answered"
      "nm_zap_reply_received answered" "nm_status_code answered = ascii ''200''" by code_simp+
  ultimately have "handshakes (dealer_session\<lparr>o_zap_domain := [100]\<rparr>) (answered\<lparr>nm_ready_command_sent := True\<rparr>)"
    by (blast intro: handshakes.step next_command next_command_ready)
  then show ?thesis by (rule handshakes.step) (rule run_process)
qed

lemma zap_guards_ready_witness:
  "nm_zap_connected granted \<and> mechanism_status granted = M_ready \<and> nm_status_code granted = ascii ''200''"
proof -
  have "nm_zap_connected granted" "mechanism_status granted = M_ready" by code_simp+
  then show ?thesis using zap_guards_ready [OF granted_runs] by blast
qed



subsection \<open>Metadata that stops early\<close>



end
