(* ===== verification/Zmq_Engine_Properties.thy ===== *)
theory Zmq_Engine_Properties
  imports Zmq_Engine_Inv Zmq_Handshake_Properties
begin

section \<open>Properties of an engine\<close>

text \<open>What a session receives from its engine.\<close>

lemma null_engine_no_failure:
  fixes e :: "'m engine"
  assumes "null_engine e ms"
  shows "\<exists>r e'. process_msg x e = Inr (r, e')"
proof -
  obtain m where m: "en_mechanism e = Some m" "mech_ok m" "phase (en_process_msg e) m e ms" using assms by (auto simp: null_engine_def)
  have d: "\<exists>r e'. decode_and_push x e1 = Inr (r, e')" if "en_mechanism e1 \<noteq> None" for e1 :: "'m engine"
    using that by (auto simp: decode_and_push_def the_mechanism_def push_msg_def)
  have r: "\<exists>e'. mechanism_ready m1 e1 = Inr e'" if "en_metadata e1 = None" for m1 and e1 :: "'m engine"
    using that by (simp add: mechanism_ready_def push_msg_def Let_def)
  show ?thesis
  proof (cases "en_process_msg e")
    case Process_handshake_command
    obtain q m1 where p: "process_handshake_command (msg_data x) m = (q, m1)" by fastforce
    obtain e2 where "mechanism_ready m1 (e\<lparr>en_mechanism := Some m1\<rparr>) = Inr e2"
      using r [of "e\<lparr>en_mechanism := Some m1\<rparr>" m1] m(3) Process_handshake_command by auto
    then show ?thesis using m(1) p Process_handshake_command
      by (cases "mechanism_status m1")
        (simp_all add: process_msg_def engine_process_handshake_command_def the_mechanism_def Let_def)
  next
    case Write_credential
    then show ?thesis using m(1) d
      by (auto simp: process_msg_def write_credential_def the_mechanism_def push_msg_def)
  next
    case Decode_and_push
    then show ?thesis using m(1) d by (simp add: process_msg_def)
  qed (use m(3) in \<open>auto simp: process_msg_def intro: prod.exhaust\<close>)
qed

text \<open>C24: session_gets_messages. On a connection with the NULL mechanism, whatever the order of sending, receiving,
  blocking on a full pipe and answers of the ZAP handler: no assertion of the engine fails on a message it receives, and
  its session is given nothing before the mechanism is ready; then first the peer's identity, when it is asked for,
  then the credential, when there is one, then every message received after the handshake command, in order, once.\<close>

theorem session_gets_messages:
  assumes "engine_new zc s p opt (P_zmtp_3 ZMQ_NULL) = Some e0" "engine_run e0 e ms"
  shows "\<exists>m. en_mechanism e = Some m \<and> (\<forall>x. \<exists>r e'. process_msg x e = Inr (r, e'))
    \<and> (se_pushed e = [] \<and> length ms \<le> 1
       \<or> mechanism_status m = M_ready \<and> length ms = 1 \<and> se_pushed e = identity_part e m
       \<or> mechanism_status m = M_ready \<and> ms \<noteq> [] \<and> se_pushed e = identity_part e m @ credential_part m @ tl ms)"
proof -
  have n: "null_engine e ms" by (rule engine_run_phase [OF assms(2,1)])
  then obtain m where m: "en_mechanism e = Some m" "phase (en_process_msg e) m e ms" by (auto simp: null_engine_def)
  then show ?thesis using null_engine_no_failure [OF n] by (cases "en_process_msg e") (auto split: if_splits)
qed

text \<open>A ROUTER asks for the identity of a DEALER and then receives one message.\<close>

lemma session_gets_messages_witness:
  "\<exists>e ms m. engine_run (the (engine_new False [] [] router_session (P_zmtp_3 ZMQ_NULL))) e ms \<and> en_mechanism e = Some m
     \<and> mechanism_status m = M_ready \<and> msg_data (se_pushed e ! 0) = [99, 49] \<and> msg_identity (se_pushed e ! 0) \<and> tl (se_pushed e) = tl ms
     \<and> tl ms = [msg_of False [1, 2, 3]]"
proof -
  let ?x = "msg_of False [1, 2, 3]"
  let ?m0 = "null_mechanism_new False [] [] router_session"
  let ?m1 = "?m0\<lparr>nm_ready_command_sent := True\<rparr>"
  let ?m2 = "after_ready dealer_session ?m1"
  obtain e0 where e0: "engine_new False [] [] router_session (P_zmtp_3 ZMQ_NULL) = Some e0"
      "en_options e0 = router_session" "en_mechanism e0 = Some ?m0" "en_next_msg e0 = Next_handshake_command" "en_process_msg e0 = Process_handshake_command"
      "se_pushed e0 = []" "en_metadata e0 = None" "en_peer_address e0 = []"
    by (simp add: engine_new_def)
  let ?e1 = "e0\<lparr>se_room := 5, se_out := se_out e0 @ []\<rparr>"
  have r1: "engine_run e0 ?e1 []" by (rule engine_run.socket [OF engine_run.start])
  have c: "can_connect router_session" "can_connect dealer_session" by (simp_all add: can_connect_def options_new_def)
  have "next_handshake_command ?m0 = Inr (Inr (ready_bytes router_session), ?m1)"
    using next_command_ready [of ?m0] c(1) by (simp add: null_mechanism_new_def)
  then have "next_msg ?e1 = Inr (Inr (True, msg_of False (ready_bytes router_session)), ?e1\<lparr>en_mechanism := Some ?m1\<rparr>)"
    using e0 by (simp add: next_msg_def engine_next_handshake_command_def the_mechanism_def mechanism_status_def null_mechanism_new_def)
  then have r2: "engine_run e0 (?e1\<lparr>en_mechanism := Some ?m1\<rparr>) []" by (rule engine_run.sending [OF r1])
  have t: "check_socket_type (o_type router_session) (type_name dealer_session)"
    by (simp add: check_socket_type_def allowed_peers_def type_name_def socket_names_def ZMQ_REQ_def ZMQ_REP_def ZMQ_DEALER_def ZMQ_ROUTER_def)
  have p: "process_handshake_command (ready_bytes dealer_session) ?m1 = (None, ?m2)"
    using process_ready [OF c(2), of ?m1] t by (simp add: null_mechanism_new_def)
  have i: "nm_identity ?m2 = [99, 49]" "mechanism_status ?m2 = M_ready" "nm_user_id ?m2 = []"
    by (simp_all add: after_ready_def null_mechanism_new_def mechanism_status_def Let_def sent_identity_def sends_identity_def
        ZMQ_DEALER_def own_identity_def)
  let ?cmd = "msg_of False (ready_bytes dealer_session)"
  obtain e3 where e3: "process_msg ?cmd (?e1\<lparr>en_mechanism := Some ?m1\<rparr>) = Inr (None, e3)" "en_mechanism e3 = Some ?m2"
      "en_process_msg e3 = Write_credential" "se_pushed e3 = [peer_identity ?m2]" "se_room e3 = 4" "en_next_msg e3 = Pull_and_encode"
    using e0 p i(2) by (simp add: process_msg_def engine_process_handshake_command_def the_mechanism_def mechanism_ready_def push_msg_def Let_def msg_of_def)
  have r3: "engine_run e0 e3 [?cmd]" using engine_run.taken [OF r2 e3(1)] by simp
  obtain e4 where e4: "process_msg ?x e3 = Inr (None, e4)" "en_mechanism e4 = Some ?m2" "se_pushed e4 = [peer_identity ?m2, ?x]"
    using e3 i(3) by (simp add: process_msg_def write_credential_def decode_and_push_def the_mechanism_def push_msg_def)
  have r4: "engine_run e0 e4 [?cmd, ?x]" using engine_run.taken [OF r3 e4(1)] by simp
  have "mechanism_status ?m2 = M_ready \<and> se_pushed e4 \<noteq> []"
    using session_gets_messages [OF e0(1) r4] e4 by auto
  then show ?thesis using r4 e4 i(1) e0(1) by (intro exI [of _ e4] exI [of _ "[?cmd, ?x]"] exI [of _ ?m2]) (simp add: peer_identity_def msg_of_def)
qed

end
