(* ===== verification/Server_Properties.thy ===== *)
theory Server_Properties
  imports Example_Run
begin

section \<open>Properties of the whole server\<close>

text \<open>
  What holds of \<open>mog\<close> with all its components: the answers are the contents of the files,
  opening establishes the invariant, background tasks keep it, and some consequences of
  the way the limits are tested.
\<close>



text \<open>C3: read_file_answers. In a state that satisfies the invariant, \<open>read_file\<close> either returns the content of
  the file and keeps the invariant, whichever layer the bytes come from, or it waits because
  the write buffer is full; it never fails.\<close>

theorem read_file_answers:
  assumes "environment E" "mog_ok E P st" "p \<in> P" "64 * 1024 * 1024 \<le> length value"
    and "wb_latest_block_id (st_wb st) + 1 < 2 ^ 63"
  shows "mog_read_file E p value st = Inl Waits \<and> WriteBuffer_write_waits (st_ssd st) (st_wb st)
    \<or> (\<exists>value' st'. mog_read_file E p value st = Inr (int (length (served (st_fs st) p)), value', st')
         \<and> take (length (served (st_fs st) p)) value' = served (st_fs st) p \<and> mog_ok E P st')"
  using environment.read_file_spec [OF assms] by (auto simp: answered_def)

theorem read_file_answers_witness:
  "\<exists>value' st'. mog_read_file demo_env ''/a'' (replicate 67108864 0) (demo_server demo_wb 10) = Inr (3, value', st')
     \<and> take 3 value' = [1, 2, 3] \<and> mog_ok demo_env demo_paths st'"
proof -
  let ?st = "demo_server demo_wb 10"
  have s: "served (st_fs ?st) ''/a'' = [1, 2, 3]" by (simp add: served_def demo_server_def demo_fs2_def)
  have l: "64 * 1024 * 1024 \<le> length (replicate 67108864 (0 :: byte))" by (simp only: length_replicate)
  have w: "\<not> WriteBuffer_write_waits (st_ssd ?st) (st_wb ?st)"
    by (simp add: demo_server_def WriteBuffer_write_waits_def demo_ssd_def demo_wb_def WriteBuffer_initial_def
        WriteBuffer_new_def SSDCache_new_def)
  have "''/a'' \<in> demo_paths" "wb_latest_block_id (st_wb ?st) + 1 < 2 ^ 63"
    by (simp_all add: demo_paths_def demo_server_def demo_wb_new)
  from read_file_answers [OF demo_environment demo_server_fresh this(1) l this(2)] w
  show ?thesis unfolding s by (simp add: numeral_3_eq_3)
qed

text \<open>C5: open_establishes. \<open>open\<close> from idle components (new ones, or ones that were closed) establishes the
  invariant, makes the server ready and does not touch the requested files.\<close>

theorem open_establishes:
  assumes "environment E" "mog_idle st" "params_ok (st_mog st)"
    and "layout_ok ((st_mog st)\<lparr>mog_db_name := name\<rparr>) P" "keys_apart E P"
    and "mog_open E name st = Inr (r, st')"
  shows "mog_ok E P st' \<and> mog_ready (st_mog st') \<and> (\<forall>p \<in> P. files (st_fs st') p = files (st_fs st) p)"
  using environment.open_ok [OF assms] by blast

theorem open_establishes_witness:
  "\<exists>st. mog_open demo_env ''DB'' demo_idle = Inr (0, st) \<and> mog_ok demo_env demo_paths st
     \<and> mog_ready (st_mog st) \<and> files (st_fs st) ''/a'' = Some [1, 2, 3]"
proof -
  obtain st where st: "mog_open demo_env ''DB'' demo_idle = Inr (0, st)" using demo_open by blast
  from open_establishes [OF demo_environment demo_mog_idle demo_params demo_layout demo_keys_apart st] st
  show ?thesis by (auto simp: demo_paths_def demo_idle_def demo_fs_def)
qed

text \<open>C4: tasks_keep_invariant. Each background task that is under way succeeds, keeps the invariant and leaves
  the requested files as they are; a task leaves one task fewer in its pool.\<close>

theorem tasks_keep_invariant:
  assumes "environment E" "mog_ok E P st"
  shows "(int i < wb_flush_thread_num (st_wb st) \<and> i < length (wb_pool (st_wb st)) \<longrightarrow>
      (\<exists>st'. flush_task E i st = Inr st' \<and> mog_ok E P st' \<and> (\<forall>p \<in> P. files (st_fs st') p = files (st_fs st) p)
          \<and> wb_pool (st_wb st') = remove_nth i (wb_pool (st_wb st))))
    \<and> (i < 12 \<and> i < length (ssd_pool (st_ssd st)) \<longrightarrow>
      (\<exists>st'. fetch_task E i st = Inr st' \<and> mog_ok E P st' \<and> (\<forall>p \<in> P. files (st_fs st') p = files (st_fs st) p)
          \<and> ssd_pool (st_ssd st') = remove_nth i (ssd_pool (st_ssd st))))"
  using environment.flush_task_ok [OF assms] environment.fetch_task_ok [OF assms]
  by (fastforce simp: mog_frame_def)

theorem tasks_keep_invariant_witness:
  "\<exists>st'. flush_task demo_env 0 (demo_server demo_wb2 10) = Inr st' \<and> mog_ok demo_env demo_paths st'
     \<and> wb_pool (st_wb st') = []"
  using tasks_keep_invariant [OF demo_environment demo_server_pending, of 0 10]
  by (auto simp: demo_server_def demo_wb2_facts remove_nth_def)

text \<open>While the server is not ready (before \<open>open\<close> and during a reset) \<open>read_file\<close>
  answers from the file itself and touches no cache.\<close>

theorem not_ready_passes_through:
  assumes "\<not> mog_ready (st_mog st)" "64 * 1024 * 1024 \<le> length value"
  shows "\<exists>value'. mog_read_file E p value st = Inr (int (length (served (st_fs st) p)), value', st)
    \<and> take (length (served (st_fs st) p)) value' = served (st_fs st) p"
  using assms
  by (cases "files (st_fs st) p") (auto simp: mog_read_file_def ifstream_open_def served_def Let_def)

theorem not_ready_passes_through_witness:
  "\<exists>value'. mog_read_file demo_env ''/a'' (replicate 67108864 0) demo_idle = Inr (3, value', demo_idle)
     \<and> take 3 value' = [1, 2, 3]"
proof -
  have s: "served (st_fs demo_idle) ''/a'' = [1, 2, 3]" by (simp add: served_def demo_idle_def demo_fs_def)
  have l: "64 * 1024 * 1024 \<le> length (replicate 67108864 (0 :: byte))" by (simp only: length_replicate)
  have "\<not> mog_ready (st_mog demo_idle)" by (simp add: demo_idle_def demo_mog_def)
  from not_ready_passes_through [OF this l, of demo_env "''/a''"]
  show ?thesis unfolding s by (simp add: numeral_3_eq_3)
qed



end
