(* ===== verification/Buffer_Properties.thy ===== *)
theory Buffer_Properties
  imports Example_Run
begin

section \<open>Properties of the write buffer\<close>

text \<open>
  What the write buffer promises, for every state that satisfies its invariant. Each
  property is followed by its application to the concrete buffer of \<open>Example_Run\<close>.
\<close>

subsection \<open>write\<close>

text \<open>\<open>WriteBuffer::write\<close> keeps the invariant of the write
  buffer: each entry owns one live allocation of the size of its class, each entry is queued
  or in exactly one pending block, and both size counters are exact.\<close>

theorem write_buffer_write_inv:
  assumes "wb_inv E wb" "WriteBuffer_write E key value len ssd wb = Inr (r, wb')"
  shows "wb_inv E wb'"
  using assms by (rule write_inv)

theorem write_buffer_write_inv_witness:
  "wb_inv demo_env demo_wb1"
proof (rule write_buffer_write_inv)
  show "wb_inv demo_env demo_wb" by (rule demo_wb_inv)
  show "WriteBuffer_write demo_env ''49'' [1, 2, 3] 3 demo_ssd demo_wb = Inr (0, demo_wb1)"
    using write_new_key(1) [OF demo_wb_inv demo_not_waiting, of "''49''" 3 "[1, 2, 3]"] demo_wb_new
    by (simp add: demo_wb1_def)
qed

text \<open>C7: write_outcomes. The four ways \<open>write\<close> can go: a value of more than 1 MB is refused; when
  the buffer or the SSD is full the call waits; a key whose hash is in the buffer is refused
  and nothing changes; otherwise the value is stored, and when the queue then exceeds the
  block size all earlier entries, and only they, are cut off as a new pending block.\<close>

theorem write_outcomes:
  assumes "wb_inv E wb" "0 \<le> len" "nat len \<le> length value" "wb_latest_block_id wb + 1 < 2 ^ 63"
  shows "WriteBuffer_write E key value len ssd wb =
    (if len > 1048576 then Inr (-1, wb)
     else if WriteBuffer_write_waits ssd wb then Inl Waits
     else if map_of (wb_kv_store wb) (hash E key) \<noteq> None then Inr (-1, wb)
     else let wb1 = WriteBuffer_add_entry E key (take (nat len) value) wb
          in Inr (0, if wb_total_size_without_block wb1 > block_limit wb
                     then wb_cut (length (wb_kv_list wb)) wb1 else wb1))"
proof (cases "len \<le> MB \<and> \<not> WriteBuffer_write_waits ssd wb \<and> map_of (wb_kv_store wb) (hash E key) = None")
  case True
  then show ?thesis
    using write_new_key(1) [OF assms(1), of ssd key len "value"] assms
    by (simp add: wb_written_def Let_def)
next
  case False
  then show ?thesis by (auto simp: WriteBuffer_write_def)
qed

theorem write_outcomes_witness:
  "WriteBuffer_write demo_env ''49'' [1, 2, 3] 3 demo_ssd demo_wb = Inr (0, demo_wb1)"
  using write_outcomes [OF demo_wb_inv, of 3 "[1, 2, 3]" "''49''" demo_ssd] demo_wb_new demo_not_waiting
  by (simp add: demo_wb1_def wb_written_def Let_def)

text \<open>C8: write_then_read. A value that \<open>write\<close> accepted is what \<open>read\<close> returns for its key, byte for
  byte, and the other keys read as before.\<close>

theorem write_then_read:
  assumes "wb_inv E wb" "WriteBuffer_write E key bytes (int (length bytes)) ssd wb = Inr (0, wb')"
    and "wb_latest_block_id wb + 1 < 2 ^ 63" "length bytes \<le> length buffer"
  shows "WriteBuffer_read E key buffer wb' = Inr (int (length bytes), bytes @ drop (length bytes) buffer)
    \<and> (\<forall>key'. hash E key' \<noteq> hash E key \<longrightarrow> WriteBuffer_read E key' buffer wb' = WriteBuffer_read E key' buffer wb)"
proof -
  have cond: "int (length bytes) \<le> MB" "\<not> WriteBuffer_write_waits ssd wb" "map_of (wb_kv_store wb) (hash E key) = None"
    using assms(2) by (auto simp: WriteBuffer_write_def split: if_splits)
  then have wb': "wb' = wb_written E key bytes wb" and inv: "wb_inv E wb'"
    using write_new_key [OF assms(1) cond(2,3), of "int (length bytes)" bytes] assms(2,3) by simp_all
  obtain i where i: "map_of (wb_kv_store wb') (hash E key) = Some i" "wb_value (wb_heap wb') i = bytes"
    using written_lookup [OF cond(3)] wb' by blast
  have "WriteBuffer_read E key buffer wb' = Inr (int (length bytes), bytes @ drop (length bytes) buffer)"
    using wb_read_spec [OF inv, of key buffer] i assms(4) by simp
  moreover have "WriteBuffer_read E key' buffer wb' = WriteBuffer_read E key' buffer wb"
    if "hash E key' \<noteq> hash E key" for key'
  proof (cases "map_of (wb_kv_store wb) (hash E key')")
    case None
    then have "map_of (wb_kv_store wb') (hash E key') = None"
      using that by (simp add: wb' wb_written_def Let_def add_entry_lookup)
    with None show ?thesis by (simp add: WriteBuffer_read_def)
  next
    case (Some j)
    then show ?thesis
      using written_frame [OF assms(1) Some that, of bytes] wb_read_spec [OF inv, of key' buffer]
        wb_read_spec [OF assms(1), of key' buffer] by (simp add: wb')
  qed
  ultimately show ?thesis by blast
qed

theorem write_then_read_witness:
  "WriteBuffer_read demo_env ''49'' [9, 9, 9, 9, 9] demo_wb1 = Inr (3, [1, 2, 3, 9, 9])"
proof -
  have "WriteBuffer_write demo_env ''49'' [1, 2, 3] (int (length [1, 2, 3 :: byte])) demo_ssd demo_wb = Inr (0, demo_wb1)"
    using write_new_key(1) [OF demo_wb_inv demo_not_waiting, of "''49''" 3 "[1, 2, 3]"] demo_wb_new
    by (simp add: demo_wb1_def)
  from write_then_read [OF demo_wb_inv this, of "[9, 9, 9, 9, 9]"] show ?thesis
    by (simp add: demo_wb_new)
qed

text \<open>Every pending block fits the block size, its entries are exactly those that
  leave the queue, and an entry is never in two places: the keys of the queue and of all
  pending blocks are distinct and are the keys of the store.\<close>

theorem blocks_fit:
  assumes "wb_inv E wb"
  shows "(\<forall>b \<in> set (wb_pool wb).
      sum_list (map (\<lambda>i. slab_size (kv_value_length_type i)) (wb_block wb b)) \<le> block_limit wb)
    \<and> distinct (wb_kv_list wb @ concat (map (block_keys E wb) (wb_pool wb)))
    \<and> set (wb_kv_list wb @ concat (map (block_keys E wb) (wb_pool wb))) = dom (map_of (wb_kv_store wb))"
  using assms unfolding wb_inv_def wb_size_ok_def wb_queue_ok_def wb_keys_def kv_slab_def
  by (auto simp del: set_append distinct_append)

theorem blocks_fit_witness:
  "distinct (wb_kv_list demo_wb2 @ concat (map (block_keys demo_env demo_wb2) (wb_pool demo_wb2)))"
  using blocks_fit [OF demo_wb2_inv] by blast


subsection \<open>flush, sync, close\<close>

text \<open>C6: flush_writes_block. A flush task that is under way succeeds: the file of its block then
  holds the values of its entries one after the other, the entries are released, the
  invariant holds, and the index changes only by entries that say where in this file the
  bytes of a value are.\<close>

theorem flush_writes_block:
  assumes "environment E" "wb_inv E wb" "int i < wb_flush_thread_num wb" "i < length (wb_pool wb)"
    and "ci_db ci \<noteq> None" "wb_hdd_path wb \<in> dirs f" "\<forall>b. block_path (wb_hdd_path wb) b \<notin> dirs f"
  shows "\<exists>wb' ci' f'. WriteBuffer_run E i wb ci f = Inr (wb', ci', f') \<and> wb_inv E wb'
    \<and> files f' (block_path (wb_hdd_path wb) (wb_pool wb ! i))
        = Some (concat (map (wb_value (wb_heap wb)) (wb_block wb (wb_pool wb ! i))))
    \<and> (\<forall>q. q \<noteq> block_path (wb_hdd_path wb) (wb_pool wb ! i) \<longrightarrow> files f' q = files f q)
    \<and> dom (map_of (wb_kv_store wb')) = dom (map_of (wb_kv_store wb)) - set (block_keys E wb (wb_pool wb ! i))
    \<and> (\<forall>k info. index_lookup E ci' k = Some info \<longrightarrow> index_lookup E ci k = Some info
         \<or> (\<exists>j \<in> set (wb_block wb (wb_pool wb ! i)). kv_key j = k \<and> info_block_id info = wb_pool wb ! i
              \<and> place_ok (files f') (wb_hdd_path wb) (wb_value (wb_heap wb) j) info))"
proof -
  have core: "wb_core E wb" using assms(2) by (simp add: wb_inv_core)
  have b: "wb_pool wb ! i \<in> set (wb_pool wb)" using assms(4) by simp
  let ?f' = "f\<lparr>files := (files f)(block_path (wb_hdd_path wb) (wb_pool wb ! i) \<mapsto> block_bytes wb (wb_pool wb ! i))\<rparr>"
  obtain ci' where run: "WriteBuffer_run E i wb ci f =
      Inr (wb_flushed E (wb_pool wb ! i) (remove_nth i (wb_pool wb)) wb, ci', ?f')"
    "wb_inv E (wb_flushed E (wb_pool wb ! i) (remove_nth i (wb_pool wb)) wb)"
    "\<forall>k j. index_lookup E ci' k = Some j \<longrightarrow>
        index_lookup E ci k = Some j \<or> (k, j) \<in> set (flush_places (wb_pool wb ! i) 0 (wb_block wb (wb_pool wb ! i)))"
    using environment.run_flush_spec [OF assms] by blast
  show ?thesis
  proof (intro exI conjI allI impI)
    show "WriteBuffer_run E i wb ci f =
      Inr (wb_flushed E (wb_pool wb ! i) (remove_nth i (wb_pool wb)) wb, ci', ?f')" by (rule run(1))
    show "wb_inv E (wb_flushed E (wb_pool wb ! i) (remove_nth i (wb_pool wb)) wb)" by (rule run(2))
    show "dom (map_of (wb_kv_store (wb_flushed E (wb_pool wb ! i) (remove_nth i (wb_pool wb)) wb)))
        = dom (map_of (wb_kv_store wb)) - set (block_keys E wb (wb_pool wb ! i))"
      by (auto simp: wb_flushed_store dom_def)
    fix k info
    assume "index_lookup E ci' k = Some info"
    then show "index_lookup E ci k = Some info
         \<or> (\<exists>j \<in> set (wb_block wb (wb_pool wb ! i)). kv_key j = k \<and> info_block_id info = wb_pool wb ! i
              \<and> place_ok (files ?f') (wb_hdd_path wb) (wb_value (wb_heap wb) j) info)"
      using run(3) environment.flush_place_ok [OF assms(1) core b, of k info f "wb_hdd_path wb"] by auto
  qed (simp_all add: block_bytes_def)
qed

theorem flush_writes_block_witness:
  "\<exists>wb' ci' f'. WriteBuffer_run demo_env 0 demo_wb2 demo_ci demo_fs2 = Inr (wb', ci', f')
     \<and> wb_inv demo_env wb' \<and> files f' ''/h/1'' = Some [1, 2, 3]"
proof -
  have "block_path ''/h'' 1 = ''/h/1''" by code_simp
  moreover have "concat (map (wb_value (wb_heap demo_wb2)) (wb_block demo_wb2 1)) = [1, 2, 3]"
    by (simp add: demo_wb2_def wb_cut_def demo_wb1_def wb_written_def demo_wb_def WriteBuffer_initial_def
        WriteBuffer_new_def WriteBuffer_add_entry_def Let_def length_slab_type.simps slab_size_def
        slab_size_table_def demo_key_a wb_block_def wb_value_def)
  ultimately show ?thesis
    using flush_writes_block [OF demo_environment demo_wb2_inv, of 0 demo_ci demo_fs2] demo_dirs
    by (simp add: demo_wb2_facts demo_ci_def) (auto simp: demo_fs2_def)
qed

text \<open>C9: sync_empties_buffer. \<open>sync\<close> terminates, whatever is queued or pending, and leaves no value
  in the buffer: the store, the heap and the pool are empty and the size counter is 0.\<close>

theorem sync_empties_buffer:
  assumes "environment E" "wb_inv E wb" "wb_latest_block_id wb + int (length (wb_kv_list wb)) < 2 ^ 63"
    and "ci_db ci \<noteq> None" "wb_hdd_path wb \<in> dirs f" "\<forall>b. block_path (wb_hdd_path wb) b \<notin> dirs f"
  shows "\<exists>wb' ci' f'. WriteBuffer_sync E wb ci f = Some (Inr (0, wb', ci', f'))
     \<and> wb_inv E wb' \<and> wb_kv_store wb' = [] \<and> wb_heap wb' = [] \<and> wb_pool wb' = [] \<and> wb_total_size wb' = 0"
  using environment.sync_spec [OF assms] by blast

theorem sync_empties_buffer_witness:
  "\<exists>wb' ci' f'. WriteBuffer_sync demo_env demo_wb1 demo_ci demo_fs2 = Some (Inr (0, wb', ci', f')) \<and> wb_heap wb' = []"
  using sync_empties_buffer [OF demo_environment demo_wb1_inv, of demo_ci demo_fs2] demo_dirs
  by (auto simp: demo_wb1_facts demo_ci_def demo_fs2_def)

text \<open>\<open>close\<close> frees every value of the buffer once (a second \<open>delete\<close> would be a
  failure of the model) and leaves no allocation behind.\<close>

theorem close_frees_once:
  assumes "wb_inv E wb"
  shows "\<exists>wb' ci' f'. WriteBuffer_close E wb ci f = Inr (0, wb', ci', f')
     \<and> wb_heap wb' = [] \<and> wb_kv_store wb' = [] \<and> wb_kv_list wb' = [] \<and> wb_blocks wb' = [] \<and> wb_pool wb' = []"
  using assms by (rule close_spec)

theorem close_frees_once_witness:
  "\<exists>wb' ci' f'. WriteBuffer_close demo_env demo_wb2 demo_ci demo_fs2 = Inr (0, wb', ci', f') \<and> wb_heap wb' = []"
  using close_frees_once [OF demo_wb2_inv, of demo_ci demo_fs2] by blast

text \<open>A writer that waits because the buffer is full always has a flush
  task to wait for, provided the buffer's limit holds at least one block.\<close>

theorem waiting_writer_has_flush:
  assumes "wb_inv E wb" "block_limit wb \<le> wb_max_page_num wb * wb_page_size wb"
    and "WriteBuffer_write_waits ssd wb" "ssd_block_num ssd < ssd_max_block_num ssd"
  shows "wb_pool wb \<noteq> []"
  using assms write_waits_pending [OF assms(1)] by (auto simp: WriteBuffer_write_waits_def)

text \<open>A buffer of one page: after two values of 1 MB the first is a pending block, and a third
  writer has to wait.\<close>

definition demo_value :: "byte list" where
  "demo_value = replicate 1048576 7"

definition demo_full1 :: write_buffer where
  "demo_full1 = wb_written demo_env ''49'' demo_value (snd (WriteBuffer_initial 1048576 1 1 WriteBuffer_new))"

definition demo_full2 :: write_buffer where
  "demo_full2 = wb_written demo_env ''50'' demo_value demo_full1"

lemma length_demo_value [simp]: "length demo_value = 1048576"
  by (simp only: demo_value_def length_replicate)

lemma demo_class [simp]: "length_slab_type 1048576 = 10"
  by (simp add: length_slab_type.simps)

lemma demo_full_inv: "wb_inv demo_env demo_full2"
proof -
  let ?wb = "snd (WriteBuffer_initial 1048576 1 1 WriteBuffer_new)"
  have take: "take (nat 1048576) demo_value = demo_value" by simp
  have "wb_inv demo_env ?wb"
    by (rule empty_wb_inv) (simp_all add: WriteBuffer_initial_def WriteBuffer_new_def)
  moreover have "\<not> WriteBuffer_write_waits demo_ssd ?wb"
    by (simp add: WriteBuffer_write_waits_def demo_ssd_def WriteBuffer_initial_def WriteBuffer_new_def SSDCache_new_def)
  ultimately have 1: "wb_inv demo_env demo_full1"
    using write_new_key(2) [of demo_env ?wb demo_ssd "''49''" 1048576 demo_value] take
    by (simp add: demo_full1_def WriteBuffer_initial_def WriteBuffer_new_def)
  moreover have "\<not> WriteBuffer_write_waits demo_ssd demo_full1"
    by (simp add: demo_full1_def wb_written_def Let_def WriteBuffer_write_waits_def demo_ssd_def
        WriteBuffer_initial_def WriteBuffer_new_def SSDCache_new_def WriteBuffer_add_entry_def)
  moreover have "map_of (wb_kv_store demo_full1) (hash demo_env ''50'') = None"
    by (simp add: demo_full1_def wb_written_def Let_def add_entry_lookup demo_key_a demo_key_b
        WriteBuffer_initial_def WriteBuffer_new_def WriteBuffer_add_entry_def)
  moreover have "wb_latest_block_id demo_full1 = 0"
    by (simp add: demo_full1_def wb_written_def Let_def WriteBuffer_initial_def WriteBuffer_new_def
        WriteBuffer_add_entry_def)
  ultimately show ?thesis
    using write_new_key(2) [of demo_env demo_full1 demo_ssd "''50''" 1048576 demo_value] take
    by (simp add: demo_full2_def)
qed

lemma demo_full_facts:
  "wb_total_size demo_full2 = 2097152" "wb_max_page_num demo_full2 = 1" "wb_page_size demo_full2 = 1048576"
  "wb_page_per_block demo_full2 = 1"
  by (simp_all add: demo_full2_def demo_full1_def wb_written_def Let_def WriteBuffer_initial_def
      WriteBuffer_new_def WriteBuffer_add_entry_def wb_cut_def)

theorem waiting_writer_has_flush_witness:
  "wb_pool demo_full2 \<noteq> []"
  using waiting_writer_has_flush [OF demo_full_inv, of demo_ssd] demo_full_facts
  by (simp add: WriteBuffer_write_waits_def demo_ssd_def SSDCache_new_def)

end
