(* ===== verification/Cache_Properties.thy ===== *)
theory Cache_Properties
  imports Example_Run
begin

section \<open>Properties of the caches and the index\<close>

text \<open>
  Size classes, the index with its byte layout, the SSD cache and the main memory cache;
  each property with its application to concrete values.
\<close>

subsection \<open>Size classes\<close>

text \<open>The class computed by halving is the formula of the source,
  \<open>ceil(log2(length / 1024))\<close> cut off below at 0, over the real numbers.\<close>

theorem size_class_formula:
  assumes "0 < n"
  shows "length_slab_type n = max 0 \<lceil>log 2 (real_of_int n / 1024)\<rceil>"
  using assms by (rule length_slab_type_log2)

theorem size_class_formula_witness:
  "max 0 \<lceil>log 2 (real_of_int 3000 / 1024)\<rceil> = 2"
  using size_class_formula [of 3000] by (simp add: length_slab_type.simps)

text \<open>For every value the server accepts (up to 1 MB) the class is one of the
  eleven of the table, its slab holds the value, and no smaller slab does.\<close>

theorem size_class_least:
  assumes "0 \<le> n" "n \<le> 1048576"
  shows "length_slab_type n \<in> {0..10} \<and> n \<le> slab_size (length_slab_type n)
    \<and> (\<forall>t. 0 \<le> t \<and> t < length_slab_type n \<longrightarrow> slab_size t < n)"
proof (intro conjI allI impI)
  show "length_slab_type n \<in> {0..10}" using length_slab_type_le_10 [of n] assms by simp
  show "n \<le> slab_size (length_slab_type n)" using length_le_slab_size [of n] assms by simp
  fix t
  assume t: "0 \<le> t \<and> t < length_slab_type n"
  then have "\<not> length_slab_type n \<le> int (nat t)" "t \<le> 10" using length_slab_type_le_10 [of n] assms by simp_all
  then have "\<not> n \<le> 1024 * 2 ^ nat t" using length_slab_type_le_iff [of n "nat t"] by simp
  then show "slab_size t < n" using t \<open>t \<le> 10\<close> by (simp add: slab_size_power)
qed

theorem size_class_least_witness:
  "3000 \<le> slab_size (length_slab_type 3000) \<and> slab_size 1 < 3000"
  using size_class_least [of 3000] by (simp add: length_slab_type.simps)


subsection \<open>The index\<close>

text \<open>The 32 bytes of an \<open>IndexInfo\<close> (four little-endian \<open>int64_t\<close>) read back
  as the same record, negative fields included.\<close>

theorem index_info_roundtrip:
  assumes "info_in_range i"
  shows "decode_info (encode_info i) = i \<and> length (encode_info i) = 32"
  using assms by simp

theorem index_info_roundtrip_witness:
  "decode_info (encode_info \<lparr>info_block_id = 7, info_offset = 70000, info_length = -1, info_length_type = 10\<rparr>)
     = \<lparr>info_block_id = 7, info_offset = 70000, info_length = -1, info_length_type = 10\<rparr>"
  by (rule index_info_roundtrip [THEN conjunct1]) (simp add: info_in_range_def int64_range_def)

text \<open>After a successful \<open>put\<close> of an \<open>IndexInfo\<close>, \<open>get\<close> with a buffer of its
  size returns 32 and the record; no other key's entry changes.\<close>

theorem index_put_then_get:
  assumes "environment E" "ci_db ci \<noteq> None" "index_small E ci" "info_in_range info"
    and "CentraIndex_put E key (encode_info info) ci = Inr (0, ci')"
  shows "(\<exists>bytes. CentraIndex_get E key (replicate 32 0) sizeof_index_info ci' = Inr (32, bytes)
        \<and> decode_info bytes = info)
    \<and> (\<forall>k. k \<noteq> key \<longrightarrow> index_lookup E ci' k = index_lookup E ci k)"
proof -
  have ci': "ci_db ci' \<noteq> None" "index_small E ci'"
    "\<forall>k. index_lookup E ci' k = (if k = key then Some info else index_lookup E ci k)"
    using environment.index_put_lookup [OF assms(1,2,4), of key] assms(3,5) by auto
  then show ?thesis
    using get_lookup [OF ci'(1,2), of key] by (auto simp: sizeof_index_info_def)
qed

theorem index_put_then_get_witness:
  "\<exists>ci' bytes. CentraIndex_put demo_env ''49'' (encode_info \<lparr>info_block_id = 1, info_offset = 0,
       info_length = 3, info_length_type = 0\<rparr>) demo_ci = Inr (0, ci')
     \<and> CentraIndex_get demo_env ''49'' (replicate 32 0) sizeof_index_info ci' = Inr (32, bytes)
     \<and> info_length (decode_info bytes) = 3"
proof -
  let ?i = "\<lparr>info_block_id = 1, info_offset = 0, info_length = 3, info_length_type = 0\<rparr>"
  let ?ci = "demo_ci\<lparr>ci_db := Some [''49'' \<mapsto> encode_info ?i]\<rparr>"
  have put: "CentraIndex_put demo_env ''49'' (encode_info ?i) demo_ci = Inr (0, ?ci)"
    by (simp add: CentraIndex_put_def demo_ci_def)
  have "index_small demo_env demo_ci" by (simp add: index_small_def demo_ci_def)
  moreover have "info_in_range ?i" by (simp add: info_in_range_def int64_range_def)
  moreover have "ci_db demo_ci \<noteq> None" by (simp add: demo_ci_def)
  ultimately obtain bytes where
    "CentraIndex_get demo_env ''49'' (replicate 32 0) sizeof_index_info ?ci = Inr (32, bytes)" "decode_info bytes = ?i"
    using index_put_then_get [OF demo_environment _ _ _ put] by blast
  with put show ?thesis by (intro exI [of _ ?ci] exI [of _ bytes]) simp
qed

text \<open>C13: index_get_overflow. \<open>get\<close> compares the length of the stored value as a 32-bit \<open>int\<close>: a value of
  at least 2 GB (and less than 4 GB) counts as negative, passes the test for every buffer,
  and is copied past the end of it.\<close>

theorem index_get_overflow:
  assumes "ci_db ci = Some db" "leveldb_get E db key = (None, Some v)"
    and "2 ^ 31 \<le> length v" "length v < 2 ^ 32" "length buffer < length v" "0 \<le> buffer_length"
  shows "CentraIndex_get E key buffer buffer_length ci = Inl (Undefined ''write past the end of a buffer'')"
proof -
  let ?n = "int (length v)"
  have n: "2147483648 \<le> ?n" "?n < 4294967296" using assms(3,4) by simp_all
  then have "?n div 2147483648 = 1" by linarith
  then have "bit ?n 31" unfolding bit_iff_odd by simp
  then have "signed_take_bit 31 ?n = take_bit (Suc 31) ?n - 2 ^ Suc 31"
    by (simp only: signed_take_bit_eq_take_bit_minus of_bool_eq mult_1_right)
  moreover have "take_bit (Suc 31) ?n = ?n" using n by (simp add: take_bit_int_eq_self_iff)
  ultimately have "signed_int (length v) < 0" using n by (simp add: signed_int_def signed_of_nat)
  with assms show ?thesis by (simp add: CentraIndex_get_def buf_write_def)
qed

theorem index_get_overflow_witness:
  "CentraIndex_get demo_env ''49'' (replicate 32 0) 32
     (demo_ci\<lparr>ci_db := Some [''49'' \<mapsto> replicate (2 ^ 31) 0]\<rparr>)
   = Inl (Undefined ''write past the end of a buffer'')"
proof (rule index_get_overflow)
  show "ci_db (demo_ci\<lparr>ci_db := Some [''49'' \<mapsto> replicate (2 ^ 31) 0]\<rparr>) = Some [''49'' \<mapsto> replicate (2 ^ 31) 0]"
    by simp
  show "leveldb_get demo_env [''49'' \<mapsto> replicate (2 ^ 31) 0] ''49'' = (None, Some (replicate (2 ^ 31) 0))"
    by simp
qed simp_all


subsection \<open>The SSD cache\<close>

text \<open>C10: ssd_read_faithful. \<open>SSDCache::read\<close> puts the bytes of the block file of the HDD directory at the
  front of the buffer, whether or not it reads them from the copy in the SSD directory, and
  keeps the cache's invariant, whatever fetch it schedules.\<close>

theorem ssd_read_faithful:
  assumes "ssd_inv s f" "files f (block_path (ssd_hdd_path s) (info_block_id info)) = Some c"
    and "length (fread_at c (info_offset info) (info_length info)) \<le> length value"
  shows "\<exists>value' s'. SSDCache_read info value s f = Inr (info_length info, value', s') \<and> ssd_inv s' f
    \<and> take (length (fread_at c (info_offset info) (info_length info))) value'
        = fread_at c (info_offset info) (info_length info)"
  using read_spec [OF assms] by auto

definition demo_disk :: fs where
  "demo_disk = \<lparr>files = [''/h/1'' \<mapsto> [1, 2, 3, 4], ''/h/2'' \<mapsto> [5]], dirs = {'''', ''/s'', ''/h''}\<rparr>"

definition demo_fetching :: ssd_cache where
  "demo_fetching = demo_ssd\<lparr>ssd_pool := [SSDFetch 1], ssd_caching_block := [(1, 1)]\<rparr>"

lemma demo_block_paths: "block_path ''/h'' 1 = ''/h/1''" "block_path ''/h'' 2 = ''/h/2''"
  by code_simp+

lemma demo_disk_ssd: "files demo_disk (block_path ''/s'' b) = None" "block_path ''/s'' b \<notin> dirs demo_disk"
  "block_path ''/h'' b \<notin> dirs demo_disk"
  by (auto simp: demo_disk_def block_path_def)

lemma demo_fetching_inv: "ssd_inv demo_fetching demo_disk"
  using demo_disk_ssd
  by (simp add: ssd_inv_defs demo_fetching_def demo_ssd_def SSDCache_new_def demo_block_paths)
    (simp add: demo_disk_def)

theorem ssd_read_faithful_witness:
  "\<exists>value' s'. SSDCache_read \<lparr>info_block_id = 1, info_offset = 1, info_length = 2, info_length_type = 0\<rparr>
      [9, 9, 9] demo_fetching demo_disk = Inr (2, value', s') \<and> take 2 value' = [2, 3]"
  using ssd_read_faithful [OF demo_fetching_inv, of
      "\<lparr>info_block_id = 1, info_offset = 1, info_length = 2, info_length_type = 0\<rparr>" "[1, 2, 3, 4]" "[9, 9, 9]"]
  by (auto simp: demo_fetching_def demo_ssd_def demo_block_paths demo_disk_def fread_at_def numeral_2_eq_2)

text \<open>A fetch task that is under way succeeds, copies its block to the SSD directory
  and evicts what it must, and leaves the cache with faithful copies of exactly the blocks
  it lists, fewer than its maximum; the HDD directory is not touched.\<close>

theorem ssd_task_copies:
  assumes "environment E" "ssd_inv s f" "i < 12" "i < length (ssd_pool s)"
    and "ssd_block_num s < ssd_max_block_num s" "0 < ssd_max_block_num s"
  shows "\<exists>s' f'. SSDCache_run E i s f = Inr (s', f') \<and> ssd_inv s' f'
    \<and> ssd_block_num s' < ssd_max_block_num s' \<and> ssd_pool s' = remove_nth i (ssd_pool s)
    \<and> (\<forall>b. files f' (block_path (ssd_hdd_path s) b) = files f (block_path (ssd_hdd_path s) b))"
proof -
  have "ssd_ssd_path s \<noteq> ssd_hdd_path s" using assms(2) by (simp add: ssd_inv_def ssd_disk_def)
  then show ?thesis using environment.run_spec [OF assms(1-4)] assms(5,6) by fastforce
qed

theorem ssd_task_copies_witness:
  "\<exists>s' f'. SSDCache_run demo_env 0 demo_fetching demo_disk = Inr (s', f') \<and> ssd_inv s' f' \<and> ssd_pool s' = []"
  using ssd_task_copies [OF demo_environment demo_fetching_inv, of 0]
  by (auto simp: demo_fetching_def demo_ssd_def SSDCache_new_def remove_nth_def)

text \<open>The block the code chooses to fetch after every 51 reads is, among the blocks
  read since the last choice that are not cached, one that was read least often.\<close>

theorem ssd_fetches_coldest:
  assumes "block_id_to_fetch rr cached \<noteq> 0"
  shows "\<exists>n. (block_id_to_fetch rr cached, n) \<in> set rr \<and> map_of cached (block_id_to_fetch rr cached) = None
    \<and> (\<forall>(b, n') \<in> set rr. map_of cached b = None \<longrightarrow> n \<le> n')"
  using block_id_to_fetch_cases [of rr cached] assms by blast

theorem ssd_fetches_coldest_witness:
  "block_id_to_fetch [(1, 40), (2, 3), (3, 8 :: int)] [] = 2
   \<and> (\<exists>n. (block_id_to_fetch [(1, 40), (2, 3), (3, 8 :: int)] [], n) \<in> set [(1, 40), (2, 3), (3, 8 :: int)]
        \<and> (\<forall>(b, n') \<in> set [(1, 40), (2, 3), (3, 8 :: int)]. n \<le> n'))"
proof
  show eq: "block_id_to_fetch [(1, 40), (2, 3), (3, 8 :: int)] [] = 2" by code_simp
  then show "\<exists>n. (block_id_to_fetch [(1, 40), (2, 3), (3, 8 :: int)] [], n) \<in> set [(1, 40), (2, 3), (3, 8 :: int)]
        \<and> (\<forall>(b, n') \<in> set [(1, 40), (2, 3), (3, 8 :: int)]. n \<le> n')"
    using ssd_fetches_coldest [of "[(1, 40), (2, 3), (3, 8 :: int)]" "[]"] by auto
qed


subsection \<open>The main memory cache\<close>

text \<open>Inserting a value (new or cached already, with room or without) keeps
  the partition of the slabs: each slab is free or belongs to exactly one item, the counter
  of free slabs is exact, and no other item's bytes change.\<close>

theorem cpu_insert_keeps_partition:
  assumes "cpu_wf c" "slab_count (info_length_type info) * 1024 \<le> length value"
    and "0 \<le> info_length info" "info_length info \<le> 1024 * int (slab_count (info_length_type info))"
  shows "\<exists>c'. CpuCache_insert key info value c = Inr (0, c') \<and> cpu_wf c'
    \<and> (\<forall>k item. k \<noteq> key \<longrightarrow> map_of (cpu_cached_item c') k = Some item \<longrightarrow>
          (\<exists>item'. map_of (cpu_cached_item c) k = Some item' \<and> cpu_value c' item = cpu_value c item'))"
  using insert_spec [OF assms, of key] by blast

definition demo_cpu :: cpu_cache where
  "demo_cpu =
     \<lparr>cpu_page_size = 1024, cpu_slab_num = 2, cpu_page_num = 2, cpu_free_slab_num = 2,
      cpu_free_slabs = [0, 1], cpu_cached_item = [], cpu_cached_item_queue = [],
      cpu_slabs = [Some (replicate 1024 0), Some (replicate 1024 0)], cpu_initial_flag = 0\<rparr>"

lemma demo_cpu_wf: "cpu_wf demo_cpu"
  by (auto simp: cpu_wf_def demo_cpu_def cpu_disjoint_def cpu_used_def slab_ok_def less_Suc_eq)

theorem cpu_insert_keeps_partition_witness:
  "\<exists>c'. CpuCache_insert ''49'' \<lparr>info_block_id = 1, info_offset = 0, info_length = 3, info_length_type = 0\<rparr>
      ([1, 2, 3] @ replicate 1021 0) demo_cpu = Inr (0, c') \<and> cpu_wf c'"
  using cpu_insert_keeps_partition [OF demo_cpu_wf, of
      "\<lparr>info_block_id = 1, info_offset = 0, info_length = 3, info_length_type = 0\<rparr>" "[1, 2, 3] @ replicate 1021 0" "''49''"]
  by (auto simp: slab_count_def)

text \<open>C11: cpu_insert_then_read. When enough slabs are free, a value inserted under a new key is what a
  later read of the key returns (a hit: neither the index nor the SSD cache is asked).\<close>

theorem cpu_insert_then_read:
  assumes "cpu_wf c" "map_of (cpu_cached_item c) key = None"
    and "slab_count (info_length_type info) \<le> length (cpu_free_slabs c)"
    and "slab_count (info_length_type info) * 1024 \<le> length value"
    and "0 \<le> info_length info" "info_length info \<le> 1024 * int (slab_count (info_length_type info))"
    and "slab_count (info_length_type info) * 1024 \<le> length buffer"
  shows "\<exists>c' buffer'. CpuCache_insert key info value c = Inr (0, c')
    \<and> CpuCache_read E key buffer c' ci ssd f = Inr (info_length info, buffer', c', ssd)
    \<and> take (nat (info_length info)) buffer' = take (nat (info_length info)) value"
proof -
  let ?n = "slab_count (info_length_type info)"
  let ?item = "\<lparr>item_length = info_length info, item_length_type = info_length_type info,
               item_slabs = take ?n (cpu_free_slabs c)\<rparr>"
  obtain c' where ins: "CpuCache_insert key info value c = Inr (0, c')" and eff: "cpu_inserted key info value c c'"
    using insert_effect [OF assms(1,3,4)] by blast
  have wf: "cpu_wf c'" by (rule inserted_wf [OF assms(1) eff assms(3-6)])
  have m: "map_of (cpu_cached_item c') key = Some ?item"
    using eff assms(2) by (simp add: cpu_inserted_def Let_def cpu_slabs_of_def cpu_item_of_def)
  have "nat (info_length info) \<le> ?n * 1024" using assms(5,6) by linarith
  then have "cpu_value c' ?item = take (nat (info_length info)) value"
    using inserted_self [OF assms(1) eff assms(3,4)] by (simp add: cpu_value_def)
  then show ?thesis
    using read_hit [OF wf m, of buffer E ci ssd f] ins assms(3,7) by auto
qed

theorem cpu_insert_then_read_witness:
  "\<exists>c' buffer'. CpuCache_insert ''49'' \<lparr>info_block_id = 1, info_offset = 0, info_length = 3, info_length_type = 0\<rparr>
      ([1, 2, 3] @ replicate 1021 0) demo_cpu = Inr (0, c')
    \<and> CpuCache_read demo_env ''49'' (replicate 1024 9) c' demo_ci demo_ssd demo_fs = Inr (3, buffer', c', demo_ssd)
    \<and> take 3 buffer' = [1, 2, 3]"
  using cpu_insert_then_read [OF demo_cpu_wf, of "''49''"
      "\<lparr>info_block_id = 1, info_offset = 0, info_length = 3, info_length_type = 0\<rparr>"
      "[1, 2, 3] @ replicate 1021 0" "replicate 1024 9" demo_env demo_ci demo_ssd demo_fs]
  by (simp add: slab_count_def) (simp add: demo_cpu_def)

text \<open>When fewer slabs are free than a value needs, \<open>insert\<close> reports success and
  stores nothing: the eviction that the code spells out after the \<open>return\<close> never happens, so
  a full cache keeps its first items until it is closed.\<close>

theorem cpu_full_cache_frozen:
  assumes "cpu_wf c" "length (cpu_free_slabs c) < slab_count (info_length_type info)"
  shows "CpuCache_insert key info value c = Inr (0, c)"
  using assms by (rule insert_full)

theorem cpu_full_cache_frozen_witness:
  "CpuCache_insert ''49'' \<lparr>info_block_id = 1, info_offset = 0, info_length = 4096, info_length_type = 2\<rparr>
     (replicate 4096 1) demo_cpu = Inr (0, demo_cpu)"
  by (rule cpu_full_cache_frozen [OF demo_cpu_wf]) (simp add: demo_cpu_def slab_count_def)

text \<open>Inserting a key that is cached already (two readers that missed at the same
  time do) appends new slabs to the item and frees none of the old ones.\<close>

theorem cpu_reinsert_leaks:
  assumes "cpu_wf c" "map_of (cpu_cached_item c) key = Some item"
    and "slab_count (info_length_type info) \<le> length (cpu_free_slabs c)"
    and "slab_count (info_length_type info) * 1024 \<le> length value"
  shows "\<exists>c' item'. CpuCache_insert key info value c = Inr (0, c') \<and> map_of (cpu_cached_item c') key = Some item'
    \<and> length (item_slabs item') = length (item_slabs item) + slab_count (info_length_type info)
    \<and> cpu_free_slab_num c' = cpu_free_slab_num c - int (slab_count (info_length_type info))"
  using assms by (rule insert_cached_key)

definition demo_cpu_used :: cpu_cache where
  "demo_cpu_used = demo_cpu\<lparr>cpu_free_slabs := [1], cpu_free_slab_num := 1, cpu_cached_item_queue := [''49''],
     cpu_cached_item := [(''49'', \<lparr>item_length = 3, item_length_type = 0, item_slabs = [0]\<rparr>)]\<rparr>"

theorem cpu_reinsert_leaks_witness:
  "\<exists>c' item'. CpuCache_insert ''49'' \<lparr>info_block_id = 1, info_offset = 0, info_length = 3, info_length_type = 0\<rparr>
      (replicate 1024 0) demo_cpu_used = Inr (0, c') \<and> map_of (cpu_cached_item c') ''49'' = Some item'
    \<and> length (item_slabs item') = 2 \<and> cpu_free_slab_num c' = 0"
proof -
  have "cpu_wf demo_cpu_used"
    by (auto simp: cpu_wf_def demo_cpu_used_def demo_cpu_def cpu_disjoint_def cpu_used_def slab_ok_def
        cpu_item_ok_def less_Suc_eq split: if_splits)
  from cpu_reinsert_leaks [OF this, of "''49''" _
      "\<lparr>info_block_id = 1, info_offset = 0, info_length = 3, info_length_type = 0\<rparr>" "replicate 1024 0"]
  show ?thesis by (simp add: demo_cpu_used_def demo_cpu_def slab_count_def numeral_2_eq_2)
qed

end
