(* ===== verification/Spec2Isabelle.thy ===== *)
theory Spec2Isabelle
  imports Caffe_Properties Client_Properties Gpu_Properties Main_Properties Pool_Properties
    Zmq_Options_Properties Zmq_Pipe_Properties Zmq_Proxy_Properties Zmq_Framing_Properties Zmq_Engine_Properties
    Server_Properties Buffer_Properties Cache_Properties
begin

text \<open>
  A verification library for CudaDB: a file cache server, its client, its GPU cache, the
  Caffe input layer that uses the client, the thread pool the server is built on, and, of the
  bundled ZeroMQ, the sockets the server and the client talk through, their options and their pipes.

  \<^bold>\<open>The program.\<close> The server (\<open>mog_server/src\<close>) answers requests for files. A request is a path;
  \<open>mog::read_file\<close> hashes it, looks for the contents in the write buffer, the memory cache and
  the SSD cache, and otherwise reads the file and inserts it. \<open>WriteBuffer\<close> collects new files
  in memory, cuts them into blocks, and writes the blocks to a directory; \<open>CentraIndex\<close>
  (LevelDB) keeps where each file is; \<open>SSDCache\<close> copies blocks that are read often to an SSD;
  \<open>CpuCache\<close> keeps files in slabs of memory. Workers take requests from a ZeroMQ socket; a
  request \<open>!\<close> makes one of them replace the whole store (\<open>CreateMogEntry\<close>) while the others
  read files directly.

  \<^bold>\<open>Theories.\<close> \<open>Mog_Prelude\<close> has what all share: outcomes (\<open>Waits\<close> for a call that does not return in
  this state, \<open>Fatal\<close> for \<open>LOG(FATAL)\<close> and failed checks, \<open>Undefined\<close> for undefined behaviour),
  buffers with bounds-checked \<open>memcpy\<close>, decimal names, ordered maps. \<open>Environment\<close> is the outside:
  a file system as a map from paths to contents, LevelDB, YAML and the hash function as the
  fields of a record that the definitions take as an argument. \<open>Little_Endian\<close> has integers in memory.

  \<^item> \<open>Slab_Memory\<close>: the ten slab sizes and the interface \<open>slab_memory\<close> of a memory that is read
    back as it was written; \<open>Cpu_Cache\<close> and \<open>Gpu_Cache\<close> interpret it.
  \<^item> \<open>Centra_Index\<close> (\<open>CentraIndex.{h,cpp}\<close>): the 32 bytes of an index entry and the operations;
    the interface \<open>info_index\<close>.
  \<^item> \<open>Write_Buffer\<close> (\<open>WriteBuffer.{h,cpp}\<close>) with \<open>Write_Buffer_Inv\<close>, \<open>_Flush\<close>, \<open>_Ops\<close>: the queue of
    keys per slab type, the store, the blocks waiting for the flush pool, the heap of values;
    its invariant, one lemma group per operation.
  \<^item> \<open>SSD_Cache\<close> (\<open>SSDCache.{h,cpp}\<close>): block queue, read statistics, the choice of the block to fetch.
  \<^item> \<open>Cpu_Cache\<close> (\<open>CpuCache.{h,cpp}\<close>): the slabs are partitioned into free ones and those of items.
  \<^item> \<open>Mog_Core\<close> (\<open>mog.{h,cpp}\<close>), \<open>Lookup_Layer\<close> (the interface of a cache layer, interpreted on the
    three), \<open>Mog_Coherence\<close> and \<open>Mog_Steps\<close>, \<open>Mog_System\<close> (calls and pool tasks interleaved),
    \<open>Mog_Open\<close>, \<open>Mog_Close\<close>; \<open>Server_Main\<close> (\<open>main.cpp\<close>).
  \<^item> \<open>Client_Library\<close> (\<open>core/mog.h\<close>, \<open>mog_client/mog.h\<close>): the pool of sockets a client takes by
    test-and-set flags, as interleaved steps of any number of callers.
  \<^item> \<open>Gpu_Cache\<close>, \<open>Gpu_Cache_Inv\<close>, \<open>Mog_Gpu\<close> (\<open>mog_gpu\<close>): device memory, eviction, one cache per device.
  \<^item> \<open>Caffe_IO\<close> (\<open>core/io.cpp\<close>): images to \<open>Datum\<close>s, HDF5 blobs, protobuf files, the image cache.
  \<^item> \<open>Pool_Scheduling\<close>, \<open>Thread_Pool\<close>, \<open>Thread_Pool_Inv\<close>, \<open>Pool_Tasks\<close>, \<open>Pool_Progress\<close>, \<open>Pool_Future\<close>
    (\<open>include/threadpool\<close>): scheduling policies behind the interface \<open>scheduler\<close>, the pool with
    its condition variables, size and shutdown policies, futures.
  \<^item> \<open>Zmq_Z85\<close>, \<open>Zmq_Options\<close>, \<open>Zmq_Options_Inv\<close> (\<open>depend/zeromq-4.1.4\<close>): the key codec and the socket options.
  \<^item> \<open>Zmq_Ypipe\<close> (\<open>ypipe.hpp\<close>): the lock-free queue and the contract it implements; \<open>Zmq_Pipe\<close>
    (\<open>pipe.cpp\<close>): the two ends of a pair of pipes and their commands, with \<open>Zmq_Pipe_Ops\<close> (what each operation
    does), \<open>_Inv\<close> and \<open>_Pair\<close> (the invariant of a pair under every interleaving) and \<open>_Flow\<close> (flow control).
  \<^item> \<open>Zmq_Array\<close> (\<open>array.hpp\<close>), \<open>Zmq_Balance\<close> (\<open>lb.cpp\<close>, \<open>fq.cpp\<close>) with \<open>Zmq_Balance_Inv\<close> and
    \<open>Zmq_Fair_Queue\<close>: load balancing and fair queueing over the ports of a socket; \<open>Zmq_Pipe_List\<close> has the
    interface both provide.
  \<^item> \<open>Zmq_Sockets\<close> (\<open>dealer.cpp\<close>, \<open>req.cpp\<close>) and \<open>Zmq_Router\<close> (\<open>router.cpp\<close>, \<open>rep.cpp\<close>): the four socket
    types; \<open>Zmq_Sockets_Inv\<close> (whole messages), \<open>Zmq_Req\<close>, \<open>Zmq_Req_Reply\<close>, \<open>Zmq_Rep\<close>: what they deliver.
  \<^item> \<open>Zmq_Proxy\<close> (\<open>proxy.cpp\<close>, and sending and receiving of \<open>socket_base.cpp\<close>): the proxy the server runs between
    its ROUTER and its DEALER; \<open>Zmq_Proxy_Inv\<close> (whole messages) and \<open>Zmq_Proxy_Round\<close> (a round of its loop).
  \<^item> \<open>Zmq_Framing\<close> (\<open>encoder.hpp\<close>, \<open>decoder.hpp\<close>, \<open>v1_*.cpp\<close>, \<open>v2_*.cpp\<close>, \<open>init_size\<close> of \<open>msg.cpp\<close>, and the
    loops of \<open>stream_engine.cpp\<close> around them): messages as bytes on a connection. \<open>Zmq_Framing_Decode\<close> has the
    interface \<open>framing\<close>, which both decoders interpret in \<open>Zmq_Frames\<close>; \<open>Zmq_Framing_Encode\<close> the encoders.
  \<^item> \<open>Zmq_Handshake\<close> (\<open>mechanism.cpp\<close>, \<open>null_mechanism.cpp\<close>, the greeting of \<open>stream_engine.cpp\<close>): how a connection begins, with
    \<open>Zmq_Handshake_Null\<close> (the bytes of a READY command), \<open>Zmq_Handshake_Zap\<close> (the ZAP handler) and \<open>Zmq_Greeting\<close> (two
    engines that greet each other). \<open>Zmq_Engine\<close> (\<open>stream_engine.cpp\<close>, \<open>session_base.cpp\<close>): the messages of an engine and its
    session as a state machine; \<open>Zmq_Engine_Inv\<close> its invariant.
  \<^item> \<open>Buffer_Properties\<close>, \<open>Cache_Properties\<close>, \<open>Server_Properties\<close>, \<open>Main_Properties\<close>, \<open>Client_Properties\<close>,
    \<open>Gpu_Properties\<close>, \<open>Caffe_Properties\<close>, \<open>Pool_Properties\<close>, \<open>Zmq_Options_Properties\<close>,
    \<open>Zmq_Pipe_Properties\<close>, \<open>Zmq_Socket_Properties\<close>, \<open>Zmq_Proxy_Properties\<close>, \<open>Zmq_Framing_Properties\<close>,
    \<open>Zmq_Handshake_Properties\<close>, \<open>Zmq_Engine_Properties\<close>: the properties and their instances; \<open>Example_Run\<close> has the small server the instances use.

  \<^bold>\<open>State.\<close> Each class is a record with the members of the class; a singleton is a field of the
  record \<open>mog\<close>. \<open>std::unordered_map\<close> is an association list with distinct keys, \<open>std::map\<close> a sorted one,
  \<open>std::queue\<close> and \<open>std::vector\<close> lists. Heap blocks (values of the write buffer) are numbered. An
  operation takes the state and returns it updated, with the return value of the C++ function; its
  guards and branches are those of the code in their order.

  \<^bold>\<open>What the lemmas show.\<close> The main theorem is that the server is transparent: whatever calls and
  background tasks have been interleaved, a read returns the file's contents. It rests on one
  invariant per component, which every operation and task keeps; on the functional results of
  each operation; and on the layer interface, by which the three caches contribute one fact each.
  The worker loop keeps this through resets. The client hands every caller the reply to its own
  request. The pool refines a queue of tasks, \<open>wait\<close> means that all are done, and its workers
  come to rest. Options stay well formed and are read back as set. A pair of pipes
  never meets a failed assertion and its termination ends; a load balancer keeps a message together, a fair
  queue serves every pipe, a REQ socket takes only the reply to its request, and a REP socket replies to
  the peer the request came from. The proxy forwards whole requests behind the identity of
  their client and whole replies to the client they name. Messages that are encoded in batches and read in
  pieces of any sizes are decoded as they were sent. Two engines agree on a protocol and a mechanism, the NULL mechanism tells
  each side the type and identity of the other, and a session is given the identity and then every message once. Where the code does not do
  what its comments say, a theorem states what it does; the manifest lists these.

  \<^bold>\<open>Bounds.\<close> \<open>int64_t\<close> quantities are integers; that they fit is proved where the code
  computes them (\<open>blocks_fit\<close>, \<open>size_class\<close> lemmas). Hashes are 64-bit words, C \<open>unsigned\<close> values of
  the pool's timers and the codec's accumulators 32-bit words. Two comparisons of the source
  in floating point are written in integers: \<open>total > limit * 0.95\<close> as \<open>20 * total > 19 * limit\<close>,
  and a factor 1.2 as \<open>6 * n sdiv 5\<close>. Loops whose end depends on other threads are steps, and
  \<open>looped_loop\<close>, which need not end, is a partial function. The loops of pipes and sockets that read or take
  back messages have a fuel, the number of items their pipes hold; running out of it would be \<open>Waits\<close>,
  and the lemmas \<open>read_loop_spec\<close>, \<open>rollback_loop_spec\<close>, \<open>recv_until_enough\<close>, \<open>req_loop_spec\<close> and
  \<open>rep_labels_enough\<close> show that they do not. The loop of \<open>forward\<close> in the proxy has a fuel as well; \<open>forward_request\<close> and
  \<open>forward_reply\<close> show that any fuel above the number of frames waiting in a pipe is enough. The loops of \<open>encode\<close> and \<open>decode\<close> have one of the
  number of bytes, or of the steps of the state machine; \<open>encode_loop_spec\<close>, \<open>steps_from_complete\<close> and
  \<open>decode_loop_expects\<close> show that it does not run out.

  \<^bold>\<open>Simplifications.\<close> A flush of a block is one step although the index entries are put before the file is
  closed; calls of the members of \<open>DB\<close> are single steps in the model of the worker loop, and \<open>close\<close> is one.
  \<open>operator[]\<close> of a missing queue is a failure, which the invariant excludes. \<open>reserve\<close> with a
  negative size is not modelled. In the pool a critical section is one step; the event clients
  wait on has no state, as \<open>wait\<close> is its loop condition.

  \<^bold>\<open>Not modelled.\<close> \<open>MappedFile\<close> is empty and unused; \<open>main.cpp.old\<close> and \<open>main2.cpp.old\<close> are not part of the
  program; the logging macros and the timing output have no effect on the state. LevelDB, the
  YAML parser, OpenCV, protobuf, HDF5 and CUDA are parameters. Of ZeroMQ the I/O threads,
  transports, timers and error handling of engines, the mechanisms PLAIN, CURVE and GSSAPI are not modelled, nor the socket
  types the program does not use, the hiccup of a pipe on reconnection and conflating pipes. \<open>send\<close> and \<open>recv\<close> of a socket are modelled up to where
  they would block; \<open>process_commands\<close> is a parameter, and the properties of the proxy are those of a
  round during which no command arrives. The loops of the server and the client see their
  sockets as a choice of request or reply, not through the socket model. yaml-cpp and the CUDA headers are not modelled.
\<close>

end
